(* ===== verification/Prelude.thy ===== *)
theory Prelude
  imports "HOL-Library.Word"
begin

text \<open>
  Shared vocabulary of the development: the machine integers of the Rust
  sources as words, byte buffers as lists of \<open>8 word\<close>, the result of a fallible
  Rust function as a datatype with a branch for a panic, big-endian integer
  layout, and the collections of rewrite rules the component theories extend.
\<close>

unbundle bit_operations_syntax

section \<open>Rule collections\<close>

named_theorems wire_simps \<open>length and layout of encoded fields\<close>
named_theorems wire_iffs \<open>a successful read, stated as the bytes it consumed\<close>
named_theorems wire_reads \<open>reading back one encoded field\<close>
named_theorems safe_intros \<open>readers that cannot panic\<close>

section \<open>Machine integers, bytes and strings\<close>

type_synonym u8 = "8 word"
type_synonym u16 = "16 word"
type_synonym u32 = "32 word"
type_synonym i32 = "32 word"
type_synonym u64 = "64 word"
type_synonym bytes = "u8 list"

text \<open>
  A Rust \<open>String\<close> is its UTF-8 byte sequence; it is represented by the HOL
  \<open>string\<close> with one character per byte, so \<open>length\<close> is Rust's \<open>len()\<close>.
\<close>

definition as_bytes :: "string \<Rightarrow> bytes" where
  "as_bytes s = map (\<lambda>c. of_nat (of_char c)) s"

definition str_of_bytes :: "bytes \<Rightarrow> string" where
  "str_of_bytes bs = map (\<lambda>b. char_of (unat b)) bs"

lemma length_as_bytes [simp]: "length (as_bytes s) = length s"
  by (simp add: as_bytes_def)

lemma as_bytes_append [simp]: "as_bytes (s @ t) = as_bytes s @ as_bytes t"
  by (simp add: as_bytes_def)

lemma take_as_bytes: "take n (as_bytes s) = as_bytes (take n s)"
  by (simp add: as_bytes_def take_map)

lemma unat_of_char [simp]: "unat (of_nat (of_char c :: nat) :: u8) = of_char c"
proof -
  have "of_char c < (256 :: nat)"
    using of_char_of [of "of_char c :: nat"] by (simp add: char_of_char mod_eq_self_iff_div_eq_0)
  then show ?thesis
    by (simp add: unat_of_nat)
qed

lemma str_of_bytes_as_bytes [simp]: "str_of_bytes (as_bytes s) = s"
  by (simp add: str_of_bytes_def as_bytes_def comp_def map_idI)

lemma unat_u8_less [simp]: "unat (b :: u8) < 256"
  using unsigned_less [of b] by simp

lemma as_bytes_str_of_bytes [simp]: "as_bytes (str_of_bytes bs) = bs"
  by (simp add: str_of_bytes_def as_bytes_def comp_def map_idI of_char_of)

lemma as_bytes_inj [simp]: "as_bytes s = as_bytes t \<longleftrightarrow> s = t"
  by (metis str_of_bytes_as_bytes)

lemma length_str_of_bytes [simp]: "length (str_of_bytes bs) = length bs"
  by (simp add: str_of_bytes_def)

section \<open>Results\<close>

text \<open>
  \<open>Result<T, E>\<close>, with a third branch for code that panics (an out-of-range
  slice, a failed \<open>assert!\<close>): a model never hides a panic behind an
  unspecified HOL value.
\<close>

datatype ('a, 'e) result = Ok 'a | Err 'e | Panic

fun bind_result :: "('a, 'e) result \<Rightarrow> ('a \<Rightarrow> ('b, 'e) result) \<Rightarrow> ('b, 'e) result" where
  "bind_result (Ok x) f = f x"
| "bind_result (Err e) f = Err e"
| "bind_result Panic f = Panic"

fun is_ok :: "('a, 'e) result \<Rightarrow> bool" where
  "is_ok (Ok _) = True"
| "is_ok _ = False"

lemma bind_result_Ok [simp]:
  "bind_result r f = Ok y \<longleftrightarrow> (\<exists>x. r = Ok x \<and> f x = Ok y)"
  by (cases r) auto

lemma bind_result_Panic:
  "bind_result r f = Panic \<longleftrightarrow> r = Panic \<or> (\<exists>x. r = Ok x \<and> f x = Panic)"
  by (cases r) auto

section \<open>Big-endian layout\<close>

definition u16_be :: "u16 \<Rightarrow> bytes" where
  "u16_be x = [ucast (drop_bit 8 x), ucast x]"

definition u16_of_be :: "u8 \<Rightarrow> u8 \<Rightarrow> u16" where
  "u16_of_be a b = push_bit 8 (ucast a) OR ucast b"

definition u32_be :: "u32 \<Rightarrow> bytes" where
  "u32_be x = u16_be (ucast (drop_bit 16 x)) @ u16_be (ucast x)"

definition u32_of_be :: "u8 \<Rightarrow> u8 \<Rightarrow> u8 \<Rightarrow> u8 \<Rightarrow> u32" where
  "u32_of_be a b c d = push_bit 16 (ucast (u16_of_be a b)) OR ucast (u16_of_be c d)"

definition u64_be :: "u64 \<Rightarrow> bytes" where
  "u64_be x = u32_be (ucast (drop_bit 32 x)) @ u32_be (ucast x)"

definition u64_of_be :: "u8 \<Rightarrow> u8 \<Rightarrow> u8 \<Rightarrow> u8 \<Rightarrow> u8 \<Rightarrow> u8 \<Rightarrow> u8 \<Rightarrow> u8 \<Rightarrow> u64" where
  "u64_of_be a b c d e f g h =
     push_bit 32 (ucast (u32_of_be a b c d)) OR ucast (u32_of_be e f g h)"

text \<open>Splitting a word into halves and joining them again.\<close>

lemma join_halves16: "push_bit 8 (ucast (ucast (drop_bit 8 x) :: u8)) OR ucast (ucast x :: u8) = (x :: u16)"
  by (rule bit_word_eqI) (auto simp: bit_simps)

lemma hi_half16: "ucast (drop_bit 8 (push_bit 8 (ucast a) OR ucast (b :: u8) :: u16)) = (a :: u8)"
  by (rule bit_word_eqI) (auto simp: bit_simps dest: bit_imp_le_length)

lemma lo_half16: "ucast (push_bit 8 (ucast (a :: u8)) OR ucast b :: u16) = (b :: u8)"
  by (rule bit_word_eqI) (auto simp: bit_simps)

lemma join_halves32: "push_bit 16 (ucast (ucast (drop_bit 16 x) :: u16)) OR ucast (ucast x :: u16) = (x :: u32)"
  by (rule bit_word_eqI) (auto simp: bit_simps)

lemma hi_half32: "ucast (drop_bit 16 (push_bit 16 (ucast a) OR ucast (b :: u16) :: u32)) = (a :: u16)"
  by (rule bit_word_eqI) (auto simp: bit_simps dest: bit_imp_le_length)

lemma lo_half32: "ucast (push_bit 16 (ucast (a :: u16)) OR ucast b :: u32) = (b :: u16)"
  by (rule bit_word_eqI) (auto simp: bit_simps)

lemma join_halves64: "push_bit 32 (ucast (ucast (drop_bit 32 x) :: u32)) OR ucast (ucast x :: u32) = (x :: u64)"
  by (rule bit_word_eqI) (auto simp: bit_simps)

lemma hi_half64: "ucast (drop_bit 32 (push_bit 32 (ucast a) OR ucast (b :: u32) :: u64)) = (a :: u32)"
  by (rule bit_word_eqI) (auto simp: bit_simps dest: bit_imp_le_length)

lemma lo_half64: "ucast (push_bit 32 (ucast (a :: u32)) OR ucast b :: u64) = (b :: u32)"
  by (rule bit_word_eqI) (auto simp: bit_simps)

lemma u16_be_of_be: "u16_be (u16_of_be a b) = [a, b]"
  unfolding u16_be_def u16_of_be_def by (simp only: hi_half16 lo_half16)

lemma u32_be_of_be: "u32_be (u32_of_be a b c d) = [a, b, c, d]"
  unfolding u32_be_def u32_of_be_def
  by (simp only: hi_half32 lo_half32 u16_be_of_be append_Cons append_Nil)

lemma u64_be_of_be: "u64_be (u64_of_be a b c d e f g h) = [a, b, c, d, e, f, g, h]"
  unfolding u64_be_def u64_of_be_def
  by (simp only: hi_half64 lo_half64 u32_be_of_be append_Cons append_Nil)

lemma length_u16_be [simp, wire_simps]: "length (u16_be x) = 2"
  by (simp add: u16_be_def)

lemma length_u32_be [simp, wire_simps]: "length (u32_be x) = 4"
  by (simp add: u32_be_def)

lemma length_u64_be [simp, wire_simps]: "length (u64_be x) = 8"
  by (simp add: u64_be_def)

lemma u16_be_cases: obtains a b where "u16_be x = [a, b]" and "u16_of_be a b = x"
  by (simp add: u16_be_def u16_of_be_def join_halves16)

lemma u32_be_cases: obtains a b c d where "u32_be x = [a, b, c, d]" and "u32_of_be a b c d = x"
proof -
  obtain a b where ab: "u16_be (ucast (drop_bit 16 x)) = [a, b]" "u16_of_be a b = ucast (drop_bit 16 x)"
    by (rule u16_be_cases)
  obtain c d where cd: "u16_be (ucast x) = [c, d]" "u16_of_be c d = ucast x"
    by (rule u16_be_cases)
  show thesis
    by (rule that [of a b c d]) (simp_all add: u32_be_def u32_of_be_def ab cd join_halves32)
qed

lemma u64_be_cases:
  obtains a b c d e f g h where "u64_be x = [a, b, c, d, e, f, g, h]"
    and "u64_of_be a b c d e f g h = x"
proof -
  obtain a b c d where hi: "u32_be (ucast (drop_bit 32 x)) = [a, b, c, d]"
      "u32_of_be a b c d = ucast (drop_bit 32 x)"
    by (rule u32_be_cases)
  obtain e f g h where lo: "u32_be (ucast x) = [e, f, g, h]" "u32_of_be e f g h = ucast x"
    by (rule u32_be_cases)
  show thesis
    by (rule that [of a b c d e f g h]) (simp_all add: u64_be_def u64_of_be_def hi lo join_halves64)
qed

text \<open>Each layout has a left inverse, so it is injective.\<close>

lemma u16_be_nth: "u16_of_be (u16_be x ! 0) (u16_be x ! 1) = x"
  by (simp add: u16_be_def u16_of_be_def join_halves16)

lemma u32_be_nth: "u32_of_be (u32_be x ! 0) (u32_be x ! 1) (u32_be x ! 2) (u32_be x ! 3) = x"
  by (rule u32_be_cases [of x]) simp

lemma u64_be_nth:
  "u64_of_be (u64_be x ! 0) (u64_be x ! 1) (u64_be x ! 2) (u64_be x ! 3)
     (u64_be x ! 4) (u64_be x ! 5) (u64_be x ! 6) (u64_be x ! 7) = x"
  by (rule u64_be_cases [of x]) simp

lemma u16_be_inj [simp]: "u16_be x = u16_be y \<longleftrightarrow> x = y"
  by (metis u16_be_nth)

lemma u32_be_inj [simp]: "u32_be x = u32_be y \<longleftrightarrow> x = y"
  by (metis u32_be_nth)

lemma u64_be_inj [simp]: "u64_be x = u64_be y \<longleftrightarrow> x = y"
  by (metis u64_be_nth)

section \<open>Lists\<close>

text \<open>\<open>find\<close> reads a table: the first row that satisfies the condition.\<close>

lemma find_SomeD: "find P xs = Some x \<Longrightarrow> x \<in> set xs \<and> P x"
  by (induction xs) (auto split: if_splits)

lemma find_append: "find P (xs @ ys) = (case find P xs of Some x \<Rightarrow> Some x | None \<Rightarrow> find P ys)"
  by (induction xs) auto

lemma find_map_same: "(\<And>x. P (f x) = P x) \<Longrightarrow> find P (map f xs) = map_option f (find P xs)"
  by (induction xs) auto

lemma find_unique: "distinct (map f xs) \<Longrightarrow> x \<in> set xs \<Longrightarrow> find (\<lambda>y. f y = f x) xs = Some x"
  by (induction xs) auto


lemma distinct_map_eq: "distinct (map f xs) \<Longrightarrow> x \<in> set xs \<Longrightarrow> y \<in> set xs \<Longrightarrow> f x = f y \<Longrightarrow> x = y"
  by (auto simp: distinct_map inj_on_def)

lemma append_eq_split:
  "length xs = length us \<Longrightarrow> xs @ ys = us @ vs \<longleftrightarrow> xs = us \<and> ys = vs"
  by simp

lemma concat_map_take_all: "length xs \<le> n \<Longrightarrow> concat (map f (take n xs)) = concat (map f xs)"
  by simp

end
