(* ===== verification/Utf8.thy ===== *)
theory Utf8
  imports Prelude "HOL-Library.Sublist"
begin

text \<open>
  UTF-8 as Rust's standard library treats it: the validity check behind
  \<open>String::from_utf8\<close>, the character-boundary test \<open>str::is_char_boundary\<close>, and
  the two routines of the repository that cut a string on a boundary:
  \<open>clamp_str\<close> (kdx-protocol, \<open>messages/wire.rs\<close>) and \<open>truncate_utf8\<close>
  (kdx-server-core, \<open>limits.rs\<close>).
\<close>

section \<open>Validity and boundaries\<close>

definition cont_byte :: "u8 \<Rightarrow> bool" where
  "cont_byte b \<longleftrightarrow> 0x80 \<le> b \<and> b \<le> 0xBF"

fun valid_utf8 :: "bytes \<Rightarrow> bool" where
  "valid_utf8 [] = True"
| "valid_utf8 (a # bs) =
     (if a < 0x80 then valid_utf8 bs
      else if 0xC2 \<le> a \<and> a \<le> 0xDF then
        (case bs of b # r \<Rightarrow> cont_byte b \<and> valid_utf8 r | _ \<Rightarrow> False)
      else if 0xE0 \<le> a \<and> a \<le> 0xEF then
        (case bs of b # c # r \<Rightarrow>
           (if a = 0xE0 then 0xA0 \<le> b \<and> b \<le> 0xBF
            else if a = 0xED then 0x80 \<le> b \<and> b \<le> 0x9F else cont_byte b) \<and>
           cont_byte c \<and> valid_utf8 r
         | _ \<Rightarrow> False)
      else if 0xF0 \<le> a \<and> a \<le> 0xF4 then
        (case bs of b # c # d # r \<Rightarrow>
           (if a = 0xF0 then 0x90 \<le> b \<and> b \<le> 0xBF
            else if a = 0xF4 then 0x80 \<le> b \<and> b \<le> 0x8F else cont_byte b) \<and>
           cont_byte c \<and> cont_byte d \<and> valid_utf8 r
         | _ \<Rightarrow> False)
      else False)"

definition is_char_boundary :: "string \<Rightarrow> nat \<Rightarrow> bool" where
  "is_char_boundary s i \<longleftrightarrow>
     i = 0 \<or> i = length s \<or> (i < length s \<and> \<not> cont_byte (as_bytes s ! i))"

section \<open>Cutting on a boundary\<close>

text \<open>The loop \<open>while !s.is_char_boundary(end) { end -= 1; }\<close>; index 0 is a boundary, so it
  never decrements below 0.\<close>

fun boundary_down :: "string \<Rightarrow> nat \<Rightarrow> nat" where
  "boundary_down s 0 = 0"
| "boundary_down s (Suc e) =
     (if is_char_boundary s (Suc e) then Suc e else boundary_down s e)"

definition clamp_str :: "string \<Rightarrow> nat \<Rightarrow> string" where
  "clamp_str s m = (if length s \<le> m then s else take (boundary_down s m) s)"

definition truncate_utf8 :: "string \<Rightarrow> nat \<Rightarrow> string" where
  "truncate_utf8 s m = (if length s \<le> m then s else take (boundary_down s m) s)"

abbreviation utf8 :: "string \<Rightarrow> bool" where
  "utf8 s \<equiv> valid_utf8 (as_bytes s)"

section \<open>White space\<close>

text \<open>
  \<open>str::trim\<close>: the UTF-8 encodings of the characters with the Unicode property
  \<open>White_Space\<close>, removed from the front and the back. An encoding at the end of a valid
  string is a character there, since UTF-8 is self-synchronizing.
\<close>

definition white_space :: "bytes list" where
  "white_space =
     [[0x09], [0x0A], [0x0B], [0x0C], [0x0D], [0x20], [0xC2, 0x85], [0xC2, 0xA0], [0xE1, 0x9A, 0x80],
      [0xE2, 0x80, 0x80], [0xE2, 0x80, 0x81], [0xE2, 0x80, 0x82], [0xE2, 0x80, 0x83], [0xE2, 0x80, 0x84],
      [0xE2, 0x80, 0x85], [0xE2, 0x80, 0x86], [0xE2, 0x80, 0x87], [0xE2, 0x80, 0x88], [0xE2, 0x80, 0x89],
      [0xE2, 0x80, 0x8A], [0xE2, 0x80, 0xA8], [0xE2, 0x80, 0xA9], [0xE2, 0x80, 0xAF], [0xE2, 0x81, 0x9F],
      [0xE3, 0x80, 0x80]]"

definition strip_one :: "bytes list \<Rightarrow> bytes \<Rightarrow> bytes option" where
  "strip_one ws bs =
     map_option (\<lambda>w. drop (length w) bs) (find (\<lambda>w. w \<noteq> [] \<and> take (length w) bs = w) ws)"

lemma strip_one_shorter: "strip_one ws bs = Some r \<Longrightarrow> length r < length bs"
  by (cases bs) (auto simp: strip_one_def find_Some_iff)

function strip_all :: "bytes list \<Rightarrow> bytes \<Rightarrow> bytes" where
  "strip_all ws bs = (case strip_one ws bs of Some r \<Rightarrow> strip_all ws r | None \<Rightarrow> bs)"
  by pat_completeness auto

termination strip_all
  by (relation "measure (\<lambda>(ws, bs). length bs)") (auto dest: strip_one_shorter)

declare strip_all.simps [simp del]

definition trim :: "string \<Rightarrow> string" where
  "trim s =
     (let bs = strip_all white_space (as_bytes s) in
      str_of_bytes (rev (strip_all (map rev white_space) (rev bs))))"

section \<open>Numbers as text\<close>

text \<open>\<open>format!("{}", n)\<close>\<close>

fun show_nat :: "nat \<Rightarrow> string" where
  "show_nat n = (if n < 10 then [char_of (48 + n)] else show_nat (n div 10) @ [char_of (48 + n mod 10)])"

declare show_nat.simps [simp del]

section \<open>Lemmas\<close>

lemma not_cont_lead: "a < 0x80 \<Longrightarrow> \<not> cont_byte a" "0xC2 \<le> a \<Longrightarrow> \<not> cont_byte a"
  by (auto simp: cont_byte_def word_le_nat_alt word_less_nat_alt)

lemma valid_utf8_lead: "valid_utf8 (a # bs) \<Longrightarrow> \<not> cont_byte a"
  by (auto simp: not_cont_lead word_le_nat_alt word_less_nat_alt cont_byte_def split: if_splits)

text \<open>The bytes after the first of a multi-byte character are continuation bytes.\<close>

lemma cont_ranges:
  "0xA0 \<le> b \<Longrightarrow> b \<le> 0xBF \<Longrightarrow> cont_byte b" "0x80 \<le> b \<Longrightarrow> b \<le> 0x9F \<Longrightarrow> cont_byte b"
  "0x90 \<le> b \<Longrightarrow> b \<le> 0xBF \<Longrightarrow> cont_byte b" "0x80 \<le> b \<Longrightarrow> b \<le> 0x8F \<Longrightarrow> cont_byte b"
  by (auto simp: cont_byte_def word_le_nat_alt)

lemma valid_utf8_cases:
  assumes "valid_utf8 (a # bs)"
  obtains (one) "a < 0x80" "valid_utf8 bs"
  | (two) b r where "bs = b # r" "\<not> a < 0x80" "cont_byte b" "valid_utf8 r"
      "\<And>q. valid_utf8 (a # b # q) = valid_utf8 q" "\<not> valid_utf8 [a]"
  | (three) b c r where "bs = b # c # r" "\<not> a < 0x80" "cont_byte b" "cont_byte c" "valid_utf8 r"
      "\<And>q. valid_utf8 (a # b # c # q) = valid_utf8 q" "\<not> valid_utf8 [a]" "\<not> valid_utf8 [a, b]"
  | (four) b c d r where "bs = b # c # d # r" "\<not> a < 0x80" "cont_byte b" "cont_byte c"
      "cont_byte d" "valid_utf8 r" "\<And>q. valid_utf8 (a # b # c # d # q) = valid_utf8 q"
      "\<not> valid_utf8 [a]" "\<not> valid_utf8 [a, b]" "\<not> valid_utf8 [a, b, c]"
proof -
  consider "a < 0x80" | "\<not> a < 0x80" "0xC2 \<le> a \<and> a \<le> 0xDF"
    | "\<not> a < 0x80" "\<not> (0xC2 \<le> a \<and> a \<le> 0xDF)" "0xE0 \<le> a \<and> a \<le> 0xEF"
    | "\<not> a < 0x80" "\<not> (0xC2 \<le> a \<and> a \<le> 0xDF)" "\<not> (0xE0 \<le> a \<and> a \<le> 0xEF)" "0xF0 \<le> a \<and> a \<le> 0xF4"
    using assms by (auto split: if_splits)
  then show thesis
  proof cases
    case 1
    with assms one show thesis by simp
  next
    case 2
    with assms two show thesis by (auto split: list.splits)
  next
    case 3
    then obtain b c r where "bs = b # c # r" using assms by (auto split: list.splits)
    with 3 assms three show thesis by (auto simp: cont_ranges split: if_splits)
  next
    case 4
    then obtain b c d r where "bs = b # c # d # r" using assms by (auto split: list.splits)
    with 4 assms four show thesis by (auto simp: cont_ranges split: if_splits)
  qed
qed

declare valid_utf8.simps(2) [simp del]

text \<open>In a valid text, the boundaries are exactly the ends of its valid prefixes.\<close>

definition boundary_at :: "bytes \<Rightarrow> nat \<Rightarrow> bool" where
  "boundary_at bs i \<longleftrightarrow> i = 0 \<or> i = length bs \<or> (i < length bs \<and> \<not> cont_byte (bs ! i))"

lemma is_char_boundary_at: "is_char_boundary s i = boundary_at (as_bytes s) i"
  by (simp add: is_char_boundary_def boundary_at_def)

lemma boundary_at_Cons:
  "valid_utf8 bs \<Longrightarrow> boundary_at (a # bs) (Suc n) \<longleftrightarrow> boundary_at bs n"
  by (cases bs) (auto simp: boundary_at_def dest: valid_utf8_lead)

lemma boundary_at_inside:
  "cont_byte b \<Longrightarrow> \<not> boundary_at (a # b # bs) (Suc 0)"
  "cont_byte c \<Longrightarrow> \<not> boundary_at (a # b # c # bs) (Suc (Suc 0))"
  "cont_byte d \<Longrightarrow> \<not> boundary_at (a # b # c # d # bs) (Suc (Suc (Suc 0)))"
  by (simp_all add: boundary_at_def)

lemma boundary_at_past:
  assumes "valid_utf8 r"
  shows "boundary_at (a # b # r) (Suc (Suc k)) \<longleftrightarrow> boundary_at r k"
    and "boundary_at (a # b # c # r) (Suc (Suc (Suc k))) \<longleftrightarrow> boundary_at r k"
    and "boundary_at (a # b # c # d # r) (Suc (Suc (Suc (Suc k)))) \<longleftrightarrow> boundary_at r k"
  using assms by (cases r; auto simp: boundary_at_def dest: valid_utf8_lead)+

lemma boundary_at_iff_valid_take:
  "valid_utf8 bs \<Longrightarrow> n \<le> length bs \<Longrightarrow> boundary_at bs n \<longleftrightarrow> valid_utf8 (take n bs)"
proof (induction bs arbitrary: n rule: length_induct)
  case (1 bs)
  show ?case
  proof (cases "n = 0 \<or> bs = []")
    case True
    with 1 show ?thesis by (auto simp: boundary_at_def)
  next
    case False
    then obtain a r m where bs: "bs = a # r" and n: "n = Suc m"
      by (cases bs; cases n) auto
    have IH: "boundary_at q k \<longleftrightarrow> valid_utf8 (take k q)"
      if "length q < length bs" "valid_utf8 q" "k \<le> length q" for q k
      using 1 that by blast
    from 1 have "valid_utf8 (a # r)" by (simp add: bs)
    then show ?thesis
    proof (cases rule: valid_utf8_cases)
      case one
      with IH [of r m] 1 show ?thesis
        by (simp add: bs n boundary_at_Cons valid_utf8.simps)
    next
      case (two b q)
      show ?thesis
      proof (cases m)
        case (Suc k)
        with two IH [of q k] 1 show ?thesis by (simp add: bs n boundary_at_past)
      qed (use two in \<open>simp add: bs n boundary_at_inside\<close>)
    next
      case (three b c q)
      consider "m = 0" | "m = Suc 0" | k where "m = Suc (Suc k)"
        by (metis not0_implies_Suc)
      then show ?thesis
      proof cases
        case (3 k)
        with three IH [of q k] 1 show ?thesis by (simp add: bs n boundary_at_past)
      qed (use three in \<open>simp_all add: bs n boundary_at_inside\<close>)
    next
      case (four b c d q)
      consider "m = 0" | "m = Suc 0" | "m = Suc (Suc 0)" | k where "m = Suc (Suc (Suc k))"
        by (metis not0_implies_Suc)
      then show ?thesis
      proof cases
        case (4 k)
        with four IH [of q k] 1 show ?thesis by (simp add: bs n boundary_at_past)
      qed (use four in \<open>simp_all add: bs n boundary_at_inside\<close>)
    qed
  qed
qed

lemma boundary_down_bounds: "boundary_down s e \<le> e"
  by (induction e) auto

lemma boundary_down_is_boundary: "is_char_boundary s (boundary_down s e)"
  by (induction e) (auto simp: is_char_boundary_def)

lemma boundary_down_greatest:
  "is_char_boundary s n \<Longrightarrow> n \<le> e \<Longrightarrow> n \<le> boundary_down s e"
  by (induction e) (auto simp: le_Suc_eq)

lemma truncate_utf8_eq_clamp_str: "truncate_utf8 = clamp_str"
  by (intro ext) (simp add: truncate_utf8_def clamp_str_def)

lemma length_clamp_str: "length (clamp_str s m) \<le> m"
  using boundary_down_bounds [of s m] by (simp add: clamp_str_def)

lemma prefix_clamp_str: "prefix (clamp_str s m) s"
  by (simp add: clamp_str_def take_is_prefix)

lemma clamp_str_id [simp]: "length s \<le> m \<Longrightarrow> clamp_str s m = s"
  by (simp add: clamp_str_def)

lemma utf8_take_iff_boundary:
  "utf8 s \<Longrightarrow> n \<le> length s \<Longrightarrow> utf8 (take n s) \<longleftrightarrow> is_char_boundary s n"
  using boundary_at_iff_valid_take [of "as_bytes s" n]
  by (simp add: is_char_boundary_at take_as_bytes)

lemma utf8_clamp_str: "utf8 s \<Longrightarrow> utf8 (clamp_str s m)"
  using boundary_down_bounds [of s m] boundary_down_is_boundary [of s m]
  by (simp add: clamp_str_def utf8_take_iff_boundary)

text \<open>No longer prefix within the limit is valid: the cut loses only a split character.\<close>

lemma clamp_str_longest:
  assumes "utf8 s" and "prefix p s" and "utf8 p" and "length p \<le> m"
  shows "length p \<le> length (clamp_str s m)"
proof (cases "length s \<le> m")
  case True
  with assms(2) show ?thesis by (simp add: prefix_length_le)
next
  case False
  from assms(2) have p: "p = take (length p) s" and len: "length p \<le> length s"
    by (auto simp: prefix_def)
  from assms(1,3) len p have "is_char_boundary s (length p)"
    by (metis utf8_take_iff_boundary)
  from this assms(4) have "length p \<le> boundary_down s m" by (rule boundary_down_greatest)
  with False boundary_down_bounds [of s m] show ?thesis by (simp add: clamp_str_def)
qed

end
