(* ===== verification/Wire.thy ===== *)
theory Wire
  imports Utf8
begin

text \<open>
  The payload helpers of \<open>kdx-protocol/src/messages/wire.rs\<close> and the part of the
  \<open>bytes\<close> buffer interface (\<open>Buf\<close>, \<open>BufMut\<close>) the payload codecs use.

  An encoder is the byte list it appends. A decoder is a reader: it takes the
  bytes that remain and returns a value with the bytes left over, a protocol
  error, or \<open>Panic\<close> where the \<open>Buf\<close> operation of the source panics on a short
  buffer. Encoders are modelled as the release build runs them: \<open>oversize\<close> is a
  debug assertion there and the value is clamped.
\<close>

section \<open>Errors\<close>

text \<open>\<open>UnexpectedEof\<close> stands for the one I/O error the crate itself builds.\<close>

datatype protocol_error =
    BadMagic
  | BadChecksum
  | UnsupportedVersion u8
  | UnknownPacketType u8
  | NonZeroReserved
  | PayloadTooLarge u32 u32
  | LengthMismatch u32 nat
  | FragmentOutOfOrder u32 u32
  | FragmentInterleaved
  | ReassemblyTooLarge nat
  | MalformedPayload string
  | UnexpectedEof

section \<open>Readers\<close>

type_synonym 'a reader = "bytes \<Rightarrow> ('a \<times> bytes, protocol_error) result"

definition rret :: "'a \<Rightarrow> 'a reader" where
  "rret x = (\<lambda>bs. Ok (x, bs))"

definition rbind :: "'a reader \<Rightarrow> ('a \<Rightarrow> 'b reader) \<Rightarrow> 'b reader" where
  "rbind p f = (\<lambda>bs. bind_result (p bs) (\<lambda>(x, rest). f x rest))"

definition rfail :: "protocol_error \<Rightarrow> 'a reader" where
  "rfail e = (\<lambda>bs. Err e)"

text \<open>A decoder runs a reader over the whole payload and drops what is left.\<close>

definition run_reader :: "'a reader \<Rightarrow> bytes \<Rightarrow> ('a, protocol_error) result" where
  "run_reader p bs = bind_result (p bs) (\<lambda>(x, rest). Ok x)"

text \<open>\<open>if payload.remaining() < n { return Err(MalformedPayload(ctx)) }\<close>\<close>

definition need :: "nat \<Rightarrow> string \<Rightarrow> unit reader" where
  "need n ctx = (\<lambda>bs. if length bs < n then Err (MalformedPayload ctx) else Ok ((), bs))"

text \<open>\<open>if payload.remaining() != n { return Err(MalformedPayload(ctx)) }\<close>\<close>

definition need_exactly :: "nat \<Rightarrow> string \<Rightarrow> unit reader" where
  "need_exactly n ctx = (\<lambda>bs. if length bs \<noteq> n then Err (MalformedPayload ctx) else Ok ((), bs))"

text \<open>The \<open>Buf\<close> accessors: they panic when the buffer is too short.\<close>

fun get_u8 :: "u8 reader" where
  "get_u8 (a # r) = Ok (a, r)"
| "get_u8 [] = Panic"

fun get_u16 :: "u16 reader" where
  "get_u16 (a # b # r) = Ok (u16_of_be a b, r)"
| "get_u16 _ = Panic"

fun get_u32 :: "u32 reader" where
  "get_u32 (a # b # c # d # r) = Ok (u32_of_be a b c d, r)"
| "get_u32 _ = Panic"

fun get_u64 :: "u64 reader" where
  "get_u64 (a # b # c # d # e # f # g # h # r) = Ok (u64_of_be a b c d e f g h, r)"
| "get_u64 _ = Panic"

definition get_i32 :: "i32 reader" where
  "get_i32 = get_u32"

text \<open>\<open>let mut x = [0u8; n]; buf.copy_to_slice(&mut x)\<close>\<close>

definition get_array :: "nat \<Rightarrow> bytes reader" where
  "get_array n = (\<lambda>bs. if length bs < n then Panic else Ok (take n bs, drop n bs))"

text \<open>The whole remaining payload (\<open>Bytes::copy_from_slice(payload)\<close>).\<close>

definition get_rest :: "bytes reader" where
  "get_rest = (\<lambda>bs. Ok (bs, []))"

section \<open>wire.rs\<close>

definition MAX_U16_LEN :: nat where
  "MAX_U16_LEN = 65535"

definition MAX_U32_LEN :: nat where
  "MAX_U32_LEN = 4294967295"

definition MAX_PREALLOC :: nat where
  "MAX_PREALLOC = 1024"

definition put_u8 :: "u8 \<Rightarrow> bytes" where
  "put_u8 x = [x]"

definition put_str :: "string \<Rightarrow> bytes" where
  "put_str s = (let s = clamp_str s MAX_U16_LEN in u16_be (of_nat (length s)) @ as_bytes s)"

definition put_bytes16 :: "bytes \<Rightarrow> bytes" where
  "put_bytes16 bs = (let n = min (length bs) MAX_U16_LEN in u16_be (of_nat n) @ take n bs)"

text \<open>The count field written, and how many entries the caller then encodes.\<close>

definition put_count16 :: "nat \<Rightarrow> bytes \<times> nat" where
  "put_count16 len = (let n = min len MAX_U16_LEN in (u16_be (of_nat n), n))"

definition put_count32 :: "nat \<Rightarrow> bytes \<times> nat" where
  "put_count32 len = (let n = min len MAX_U32_LEN in (u32_be (of_nat n), n))"

definition list_capacity :: "nat \<Rightarrow> nat \<Rightarrow> nat \<Rightarrow> nat" where
  "list_capacity count remaining min_entry_len =
     min (min count (remaining div max min_entry_len 1)) MAX_PREALLOC"

definition get_str :: "string \<Rightarrow> string reader" where
  "get_str ctx =
     rbind (need 2 ctx) (\<lambda>_.
     rbind get_u16 (\<lambda>len.
     rbind (need (unat len) ctx) (\<lambda>_ bs.
       if valid_utf8 (take (unat len) bs)
       then Ok (str_of_bytes (take (unat len) bs), drop (unat len) bs)
       else Err (MalformedPayload ctx))))"

definition get_bytes16 :: "string \<Rightarrow> bytes reader" where
  "get_bytes16 ctx =
     rbind (need 2 ctx) (\<lambda>_.
     rbind get_u16 (\<lambda>len.
     rbind (need (unat len) ctx) (\<lambda>_ bs.
       Ok (take (unat len) bs, drop (unat len) bs))))"

definition get_bool :: "string \<Rightarrow> bool reader" where
  "get_bool ctx =
     rbind (need 1 ctx) (\<lambda>_.
     rbind get_u8 (\<lambda>b.
       if b = 0 then rret False else if b = 1 then rret True
       else rfail (MalformedPayload ctx)))"

definition expect_end :: "string \<Rightarrow> unit reader" where
  "expect_end ctx = (\<lambda>bs. if bs \<noteq> [] then Err (MalformedPayload ctx) else Ok ((), bs))"

text \<open>\<open>x as u8\<close> of a \<open>bool\<close>.\<close>

definition put_bool :: "bool \<Rightarrow> bytes" where
  "put_bool b = put_u8 (if b then 1 else 0)"

text \<open>A presence flag followed by the value (\<open>owner\<close>, \<open>sha256\<close>).\<close>

definition put_option :: "('a \<Rightarrow> bytes) \<Rightarrow> 'a option \<Rightarrow> bytes" where
  "put_option put v = (case v of Some x \<Rightarrow> put_u8 1 @ put x | None \<Rightarrow> put_u8 0)"

definition get_option :: "string \<Rightarrow> 'a reader \<Rightarrow> 'a option reader" where
  "get_option ctx get =
     rbind (get_bool ctx) (\<lambda>present.
       if present then rbind get (\<lambda>x. rret (Some x)) else rret None)"

text \<open>The list loops: \<open>for e in &entries[..n] { .. }\<close> after a count, and
  \<open>for _ in 0..count { entries.push(..?) }\<close>.\<close>

definition put_list16 :: "('a \<Rightarrow> bytes) \<Rightarrow> 'a list \<Rightarrow> bytes" where
  "put_list16 put xs =
     (let (hdr, n) = put_count16 (length xs) in hdr @ concat (map put (take n xs)))"

definition put_list32 :: "('a \<Rightarrow> bytes) \<Rightarrow> 'a list \<Rightarrow> bytes" where
  "put_list32 put xs =
     (let (hdr, n) = put_count32 (length xs) in hdr @ concat (map put (take n xs)))"

primrec get_many :: "'a reader \<Rightarrow> nat \<Rightarrow> 'a list reader" where
  "get_many p 0 = rret []"
| "get_many p (Suc n) = rbind p (\<lambda>x. rbind (get_many p n) (\<lambda>xs. rret (x # xs)))"

definition get_list16 :: "'a reader \<Rightarrow> 'a list reader" where
  "get_list16 p = rbind get_u16 (\<lambda>count. get_many p (unat count))"

definition get_list32 :: "'a reader \<Rightarrow> 'a list reader" where
  "get_list32 p = rbind get_u32 (\<lambda>count. get_many p (unat count))"

abbreviation put_u16 :: "u16 \<Rightarrow> bytes" where
  "put_u16 \<equiv> u16_be"

abbreviation put_u32 :: "u32 \<Rightarrow> bytes" where
  "put_u32 \<equiv> u32_be"

abbreviation put_i32 :: "i32 \<Rightarrow> bytes" where
  "put_i32 \<equiv> u32_be"

abbreviation put_u64 :: "u64 \<Rightarrow> bytes" where
  "put_u64 \<equiv> u64_be"

text \<open>A string a length prefix can carry, a fixed-size array, a blob.\<close>

definition str_ok :: "string \<Rightarrow> bool" where
  "str_ok s \<longleftrightarrow> utf8 s \<and> length s \<le> MAX_U16_LEN"

definition array_ok :: "nat \<Rightarrow> bytes \<Rightarrow> bool" where
  "array_ok n bs \<longleftrightarrow> length bs = n"

definition blob_ok :: "bytes \<Rightarrow> bool" where
  "blob_ok bs \<longleftrightarrow> length bs \<le> MAX_U16_LEN"

section \<open>Reading back what was written\<close>

lemma rbind_apply [simp]: "rbind p f bs = bind_result (p bs) (\<lambda>(x, rest). f x rest)"
  by (simp add: rbind_def)

lemma rret_apply [simp]: "rret x bs = Ok (x, bs)"
  by (simp add: rret_def)

lemma rfail_apply [simp]: "rfail e bs = Err e"
  by (simp add: rfail_def)

lemma need_ok [wire_iffs]: "need n ctx bs = Ok (u, r) \<longleftrightarrow> n \<le> length bs \<and> r = bs"
  by (auto simp: need_def)

lemma need_exactly_ok [wire_iffs]:
  "need_exactly n ctx bs = Ok (u, r) \<longleftrightarrow> length bs = n \<and> r = bs"
  by (auto simp: need_exactly_def)

lemma expect_end_ok [wire_iffs]: "expect_end ctx bs = Ok (u, r) \<longleftrightarrow> bs = [] \<and> r = []"
  by (auto simp: expect_end_def)

lemma get_rest_ok [wire_iffs]: "get_rest bs = Ok (x, r) \<longleftrightarrow> bs = x \<and> r = []"
  by (auto simp: get_rest_def)

lemma get_u8_ok [wire_iffs]: "get_u8 bs = Ok (x, r) \<longleftrightarrow> bs = put_u8 x @ r"
  by (cases bs) (auto simp: put_u8_def)

lemma get_u16_ok [wire_iffs]: "get_u16 bs = Ok (x, r) \<longleftrightarrow> bs = put_u16 x @ r"
proof
  assume "get_u16 bs = Ok (x, r)"
  then show "bs = put_u16 x @ r"
    by (cases bs rule: get_u16.cases) (auto simp: u16_be_of_be)
next
  assume "bs = put_u16 x @ r"
  then show "get_u16 bs = Ok (x, r)"
    by (cases rule: u16_be_cases [of x]) auto
qed

lemma get_u32_ok [wire_iffs]: "get_u32 bs = Ok (x, r) \<longleftrightarrow> bs = put_u32 x @ r"
proof
  assume "get_u32 bs = Ok (x, r)"
  then show "bs = put_u32 x @ r"
    by (cases bs rule: get_u32.cases) (auto simp: u32_be_of_be)
next
  assume "bs = put_u32 x @ r"
  then show "get_u32 bs = Ok (x, r)"
    by (cases rule: u32_be_cases [of x]) auto
qed

lemma get_u64_ok [wire_iffs]: "get_u64 bs = Ok (x, r) \<longleftrightarrow> bs = put_u64 x @ r"
proof
  assume "get_u64 bs = Ok (x, r)"
  then show "bs = put_u64 x @ r"
    by (cases bs rule: get_u64.cases) (auto simp: u64_be_of_be)
next
  assume "bs = put_u64 x @ r"
  then show "get_u64 bs = Ok (x, r)"
    by (cases rule: u64_be_cases [of x]) auto
qed

lemma get_i32_ok [wire_iffs]: "get_i32 bs = Ok (x, r) \<longleftrightarrow> bs = put_i32 x @ r"
  by (simp add: get_i32_def get_u32_ok)

lemma get_array_ok [wire_iffs]:
  "get_array n bs = Ok (x, r) \<longleftrightarrow> array_ok n x \<and> bs = x @ r"
  by (auto simp: get_array_def array_ok_def)

lemma length_put_u8 [wire_simps, simp]: "length (put_u8 x) = 1"
  by (simp add: put_u8_def)

lemma length_put_bool [wire_simps, simp]: "length (put_bool b) = 1"
  by (simp add: put_bool_def)

lemma put_str_ok: "str_ok s \<Longrightarrow> put_str s = put_u16 (of_nat (length s)) @ as_bytes s"
  by (simp add: put_str_def str_ok_def)

lemma length_put_str [wire_simps]: "str_ok s \<Longrightarrow> length (put_str s) = 2 + length s"
  by (simp add: put_str_ok)

lemma put_bytes16_ok: "blob_ok bs \<Longrightarrow> put_bytes16 bs = put_u16 (of_nat (length bs)) @ bs"
  by (simp add: put_bytes16_def blob_ok_def)

lemma unat_len16: "n \<le> MAX_U16_LEN \<Longrightarrow> unat (of_nat n :: u16) = n"
  by (simp add: MAX_U16_LEN_def unat_of_nat)

lemma unat_len32: "n \<le> MAX_U32_LEN \<Longrightarrow> unat (of_nat n :: u32) = n"
  by (simp add: MAX_U32_LEN_def unat_of_nat)

lemma put_list16_ok:
  "length xs \<le> MAX_U16_LEN \<Longrightarrow>
     put_list16 put xs = put_u16 (of_nat (length xs)) @ concat (map put xs)"
  by (simp add: put_list16_def put_count16_def Let_def)

lemma put_list32_ok:
  "length xs \<le> MAX_U32_LEN \<Longrightarrow>
     put_list32 put xs = put_u32 (of_nat (length xs)) @ concat (map put xs)"
  by (simp add: put_list32_def put_count32_def Let_def)

lemma unat_u16_le: "unat (x :: u16) \<le> MAX_U16_LEN"
proof -
  have "unat x < 2 ^ LENGTH(16)" by (rule unsigned_less)
  then show ?thesis by (simp add: MAX_U16_LEN_def)
qed

lemma unat_u32_le: "unat (x :: u32) \<le> MAX_U32_LEN"
proof -
  have "unat x < 2 ^ LENGTH(32)" by (rule unsigned_less)
  then show ?thesis by (simp add: MAX_U32_LEN_def)
qed

lemma get_str_ok [wire_iffs]:
  "get_str ctx bs = Ok (s, r) \<longleftrightarrow> str_ok s \<and> bs = put_str s @ r"
proof
  assume "get_str ctx bs = Ok (s, r)"
  then obtain len rest where bs: "bs = put_u16 len @ rest" and n: "unat len \<le> length rest"
      and v: "valid_utf8 (take (unat len) rest)" and s: "s = str_of_bytes (take (unat len) rest)"
      and r: "r = drop (unat len) rest"
    by (auto simp: get_str_def wire_iffs split: if_splits)
  from n v s have ok: "str_ok s" and l: "length s = unat len"
    using unat_u16_le [of len] by (simp_all add: str_ok_def min_def)
  with bs s r show "str_ok s \<and> bs = put_str s @ r"
    by (simp add: put_str_ok)
next
  assume "str_ok s \<and> bs = put_str s @ r"
  then have bs: "bs = put_u16 (of_nat (length s)) @ as_bytes s @ r"
    and ok: "str_ok s" and n: "unat (of_nat (length s) :: u16) = length s"
    by (simp_all add: put_str_ok str_ok_def unat_len16)
  have "get_u16 bs = Ok (of_nat (length s), as_bytes s @ r)"
    by (simp add: bs get_u16_ok)
  with ok n show "get_str ctx bs = Ok (s, r)"
    by (simp add: get_str_def need_def bs str_ok_def)
qed

lemma get_bytes16_ok [wire_iffs]:
  "get_bytes16 ctx bs = Ok (x, r) \<longleftrightarrow> blob_ok x \<and> bs = put_bytes16 x @ r"
proof
  assume "get_bytes16 ctx bs = Ok (x, r)"
  then obtain len rest where bs: "bs = put_u16 len @ rest" and n: "unat len \<le> length rest"
      and x: "x = take (unat len) rest" and r: "r = drop (unat len) rest"
    by (auto simp: get_bytes16_def wire_iffs)
  from n x have ok: "blob_ok x" and l: "length x = unat len"
    using unat_u16_le [of len] by (simp_all add: blob_ok_def min_def)
  with bs x r show "blob_ok x \<and> bs = put_bytes16 x @ r"
    by (simp add: put_bytes16_ok)
next
  assume "blob_ok x \<and> bs = put_bytes16 x @ r"
  then have bs: "bs = put_u16 (of_nat (length x)) @ x @ r"
    and n: "unat (of_nat (length x) :: u16) = length x"
    by (simp_all add: put_bytes16_ok blob_ok_def unat_len16)
  have "get_u16 bs = Ok (of_nat (length x), x @ r)"
    by (simp add: bs get_u16_ok)
  with n show "get_bytes16 ctx bs = Ok (x, r)"
    by (simp add: get_bytes16_def need_def bs)
qed

lemma get_bool_ok [wire_iffs]: "get_bool ctx bs = Ok (b, r) \<longleftrightarrow> bs = put_bool b @ r"
  by (cases bs) (auto simp: get_bool_def need_def put_bool_def put_u8_def)

section \<open>Readers that cannot panic\<close>

text \<open>
  \<open>safe k p\<close>: \<open>p\<close> does not panic when at least \<open>k\<close> bytes remain. A length guard
  raises \<open>k\<close>, a fixed-width read spends it, and a variable-length read gives
  up all knowledge of it.
\<close>

definition safe :: "nat \<Rightarrow> 'a reader \<Rightarrow> bool" where
  "safe k p \<longleftrightarrow> (\<forall>bs. k \<le> length bs \<longrightarrow> p bs \<noteq> Panic)"

lemma safeI: "(\<And>bs. k \<le> length bs \<Longrightarrow> p bs \<noteq> Panic) \<Longrightarrow> safe k p"
  by (simp add: safe_def)

lemma safe_rret [safe_intros]: "safe k (rret x)"
  by (simp add: safe_def)

lemma safe_rfail [safe_intros]: "safe k (rfail e)"
  by (simp add: safe_def)

lemma safe_if [safe_intros]: "safe k p \<Longrightarrow> safe k q \<Longrightarrow> safe k (if c then p else q)"
  by simp

lemma safe_rbind:
  assumes "\<And>bs. k \<le> length bs \<Longrightarrow> p bs \<noteq> Panic"
    and "\<And>bs x r. k \<le> length bs \<Longrightarrow> p bs = Ok (x, r) \<Longrightarrow> m \<le> length r"
    and "\<And>x. safe m (f x)"
  shows "safe k (rbind p f)"
  using assms by (fastforce simp: safe_def bind_result_Panic split: prod.splits)

lemma safe_need [safe_intros]: "safe (max k n) (f ()) \<Longrightarrow> safe k (rbind (need n ctx) f)"
  by (rule safe_rbind [where m = "max k n"]) (auto simp: need_def split: if_splits)

lemma safe_need_exactly [safe_intros]: "safe n (f ()) \<Longrightarrow> safe k (rbind (need_exactly n ctx) f)"
  by (rule safe_rbind [where m = n]) (auto simp: need_exactly_def split: if_splits)

lemma get_u8_Panic: "get_u8 bs = Panic \<longleftrightarrow> length bs < 1"
  by (cases bs) auto

lemma get_u16_Panic: "get_u16 bs = Panic \<longleftrightarrow> length bs < 2"
  by (cases bs rule: get_u16.cases) auto

lemma get_u32_Panic: "get_u32 bs = Panic \<longleftrightarrow> length bs < 4"
  by (cases bs rule: get_u32.cases) auto

lemma get_u64_Panic: "get_u64 bs = Panic \<longleftrightarrow> length bs < 8"
  by (cases bs rule: get_u64.cases) auto

lemma safe_get_u8 [safe_intros]:
  "1 \<le> k \<Longrightarrow> (\<And>x. safe (k - 1) (f x)) \<Longrightarrow> safe k (rbind get_u8 f)"
  by (rule safe_rbind [where m = "k - 1"]) (auto simp: wire_iffs get_u8_Panic)

lemma safe_get_u16 [safe_intros]:
  "2 \<le> k \<Longrightarrow> (\<And>x. safe (k - 2) (f x)) \<Longrightarrow> safe k (rbind get_u16 f)"
  by (rule safe_rbind [where m = "k - 2"]) (auto simp: wire_iffs get_u16_Panic)

lemma safe_get_u32 [safe_intros]:
  "4 \<le> k \<Longrightarrow> (\<And>x. safe (k - 4) (f x)) \<Longrightarrow> safe k (rbind get_u32 f)"
  by (rule safe_rbind [where m = "k - 4"]) (auto simp: wire_iffs get_u32_Panic)

lemma safe_get_i32 [safe_intros]:
  "4 \<le> k \<Longrightarrow> (\<And>x. safe (k - 4) (f x)) \<Longrightarrow> safe k (rbind get_i32 f)"
  unfolding get_i32_def by (rule safe_get_u32)

lemma safe_get_u64 [safe_intros]:
  "8 \<le> k \<Longrightarrow> (\<And>x. safe (k - 8) (f x)) \<Longrightarrow> safe k (rbind get_u64 f)"
  by (rule safe_rbind [where m = "k - 8"]) (auto simp: wire_iffs get_u64_Panic)

lemma safe_get_array [safe_intros]:
  "n \<le> k \<Longrightarrow> (\<And>x. safe (k - n) (f x)) \<Longrightarrow> safe k (rbind (get_array n) f)"
  by (rule safe_rbind [where m = "k - n"]) (auto simp: get_array_def split: if_splits)

lemma get_str_no_panic [simp]: "get_str ctx bs \<noteq> Panic"
  by (auto simp: get_str_def need_def bind_result_Panic get_u16_Panic split: if_splits)

lemma get_bytes16_no_panic [simp]: "get_bytes16 ctx bs \<noteq> Panic"
  by (auto simp: get_bytes16_def need_def bind_result_Panic get_u16_Panic split: if_splits)

lemma get_bool_no_panic [simp]: "get_bool ctx bs \<noteq> Panic"
  by (cases bs) (auto simp: get_bool_def need_def)

lemma safe_total:
  "(\<And>bs. p bs \<noteq> Panic) \<Longrightarrow> (\<And>x. safe 0 (f x)) \<Longrightarrow> safe k (rbind p f)"
  by (rule safe_rbind [where m = 0]) auto

lemma safe_get_str [safe_intros]: "(\<And>x. safe 0 (f x)) \<Longrightarrow> safe k (rbind (get_str ctx) f)"
  by (rule safe_total) auto

lemma safe_get_bytes16 [safe_intros]:
  "(\<And>x. safe 0 (f x)) \<Longrightarrow> safe k (rbind (get_bytes16 ctx) f)"
  by (rule safe_total) auto

lemma safe_get_bool [safe_intros]: "(\<And>x. safe 0 (f x)) \<Longrightarrow> safe k (rbind (get_bool ctx) f)"
  by (rule safe_total) auto

lemma safe_expect_end [safe_intros]:
  "(\<And>x. safe 0 (f x)) \<Longrightarrow> safe k (rbind (expect_end ctx) f)"
  by (rule safe_total) (auto simp: expect_end_def)

lemma safe_get_rest [safe_intros]: "(\<And>x. safe 0 (f x)) \<Longrightarrow> safe k (rbind get_rest f)"
  by (rule safe_total) (auto simp: get_rest_def)

lemma safe_bare [safe_intros]:
  "safe k (expect_end ctx)" "safe k (get_str ctx)" "safe k (get_bytes16 ctx)" "safe k (get_bool ctx)"
  by (simp_all add: safe_def expect_end_def)

lemma run_reader_no_panic: "safe 0 p \<Longrightarrow> run_reader p bs \<noteq> Panic"
  by (auto simp: run_reader_def safe_def bind_result_Panic)

section \<open>Reading one field\<close>

text \<open>The same facts as rewrite rules, for a field followed by more bytes and for the last one.\<close>

lemma reads_fixed [wire_reads]:
  "get_u8 (put_u8 a @ r) = Ok (a, r)" "get_u16 (put_u16 b @ r) = Ok (b, r)"
  "get_u32 (put_u32 c @ r) = Ok (c, r)" "get_u64 (put_u64 d @ r) = Ok (d, r)"
  "get_i32 (put_i32 c @ r) = Ok (c, r)" "get_bool ctx (put_bool t @ r) = Ok (t, r)"
  "get_u8 (put_u8 a) = Ok (a, [])" "get_u16 (put_u16 b) = Ok (b, [])"
  "get_u32 (put_u32 c) = Ok (c, [])" "get_u64 (put_u64 d) = Ok (d, [])"
  "get_i32 (put_i32 c) = Ok (c, [])" "get_bool ctx (put_bool t) = Ok (t, [])"
  by (simp_all add: wire_iffs)

lemma reads_str [wire_reads]:
  "str_ok s \<Longrightarrow> get_str ctx (put_str s @ r) = Ok (s, r)"
  "str_ok s \<Longrightarrow> get_str ctx (put_str s) = Ok (s, [])"
  by (simp_all add: wire_iffs)

lemma reads_bytes16 [wire_reads]:
  "blob_ok x \<Longrightarrow> get_bytes16 ctx (put_bytes16 x @ r) = Ok (x, r)"
  "blob_ok x \<Longrightarrow> get_bytes16 ctx (put_bytes16 x) = Ok (x, [])"
  by (simp_all add: wire_iffs)

lemma reads_array [wire_reads]:
  "array_ok n x \<Longrightarrow> get_array n (x @ r) = Ok (x, r)"
  "array_ok n x \<Longrightarrow> get_array n x = Ok (x, [])"
  by (simp_all add: wire_iffs)

lemma reads_guards [wire_reads]:
  "n \<le> length bs \<Longrightarrow> need n ctx bs = Ok ((), bs)"
  "length bs = n \<Longrightarrow> need_exactly n ctx bs = Ok ((), bs)"
  "expect_end ctx [] = Ok ((), [])" "get_rest bs = Ok (bs, [])"
  by (simp_all add: need_def need_exactly_def expect_end_def get_rest_def)

lemma length_array_ok [wire_reads]:
  "array_ok 16 x \<Longrightarrow> length x = 16" "array_ok 32 x \<Longrightarrow> length x = 32"
  by (simp_all add: array_ok_def)

section \<open>Interfaces\<close>

text \<open>
  A field codec: what the reader accepts is exactly what the writer produces for
  a well-formed value, and the reader never panics. Lists and optional values
  inherit both laws from their elements.
\<close>

locale field_codec =
  fixes put :: "'a \<Rightarrow> bytes" and get :: "'a reader" and ok :: "'a \<Rightarrow> bool"
  assumes get_ok: "get bs = Ok (x, r) \<longleftrightarrow> ok x \<and> bs = put x @ r"
    and get_no_panic: "get bs \<noteq> Panic"
begin

lemma get_many_ok:
  "get_many get n bs = Ok (xs, r) \<longleftrightarrow>
     length xs = n \<and> (\<forall>x\<in>set xs. ok x) \<and> bs = concat (map put xs) @ r"
proof (induction n arbitrary: bs xs)
  case 0
  then show ?case by auto
next
  case (Suc n)
  then show ?case by (cases xs) (auto simp: get_ok)
qed

lemma get_many_no_panic: "get_many get n bs \<noteq> Panic"
  by (induction n arbitrary: bs) (auto simp: bind_result_Panic get_no_panic)

lemma get_list16_ok:
  "get_list16 get bs = Ok (xs, r) \<longleftrightarrow>
     length xs \<le> MAX_U16_LEN \<and> (\<forall>x\<in>set xs. ok x) \<and> bs = put_list16 put xs @ r"
proof
  assume "get_list16 get bs = Ok (xs, r)"
  then obtain c where bs: "bs = put_u16 c @ concat (map put xs) @ r" and l: "length xs = unat c"
      and "\<forall>x\<in>set xs. ok x"
    by (auto simp: get_list16_def get_u16_ok get_many_ok)
  with unat_u16_le [of c]
  show "length xs \<le> MAX_U16_LEN \<and> (\<forall>x\<in>set xs. ok x) \<and> bs = put_list16 put xs @ r"
    by (simp add: put_list16_ok)
next
  assume "length xs \<le> MAX_U16_LEN \<and> (\<forall>x\<in>set xs. ok x) \<and> bs = put_list16 put xs @ r"
  then show "get_list16 get bs = Ok (xs, r)"
    by (auto simp: get_list16_def get_u16_ok get_many_ok put_list16_ok unat_len16
        intro!: exI [of _ "of_nat (length xs)"])
qed

lemma get_list32_ok:
  "get_list32 get bs = Ok (xs, r) \<longleftrightarrow>
     length xs \<le> MAX_U32_LEN \<and> (\<forall>x\<in>set xs. ok x) \<and> bs = put_list32 put xs @ r"
proof
  assume "get_list32 get bs = Ok (xs, r)"
  then obtain c where bs: "bs = put_u32 c @ concat (map put xs) @ r" and l: "length xs = unat c"
      and "\<forall>x\<in>set xs. ok x"
    by (auto simp: get_list32_def get_u32_ok get_many_ok)
  with unat_u32_le [of c]
  show "length xs \<le> MAX_U32_LEN \<and> (\<forall>x\<in>set xs. ok x) \<and> bs = put_list32 put xs @ r"
    by (simp add: put_list32_ok)
next
  assume "length xs \<le> MAX_U32_LEN \<and> (\<forall>x\<in>set xs. ok x) \<and> bs = put_list32 put xs @ r"
  then show "get_list32 get bs = Ok (xs, r)"
    by (auto simp: get_list32_def get_u32_ok get_many_ok put_list32_ok unat_len32
        intro!: exI [of _ "of_nat (length xs)"])
qed

lemma safe_get_list16:
  "2 \<le> k \<Longrightarrow> (\<And>x. safe 0 (f x)) \<Longrightarrow> safe k (rbind (get_list16 get) f)"
  by (rule safe_rbind [where m = 0])
    (auto simp: get_list16_def bind_result_Panic get_u16_Panic get_many_no_panic)

lemma safe_get_list32:
  "4 \<le> k \<Longrightarrow> (\<And>x. safe 0 (f x)) \<Longrightarrow> safe k (rbind (get_list32 get) f)"
  by (rule safe_rbind [where m = 0])
    (auto simp: get_list32_def bind_result_Panic get_u32_Panic get_many_no_panic)

lemma get_option_ok:
  "get_option ctx get bs = Ok (v, r) \<longleftrightarrow>
     (case v of Some x \<Rightarrow> ok x | None \<Rightarrow> True) \<and> bs = put_option put v @ r"
  by (cases v)
    (auto simp: get_option_def get_bool_ok get_ok put_option_def put_bool_def split: if_splits)

lemma safe_get_option: "(\<And>x. safe 0 (f x)) \<Longrightarrow> safe k (rbind (get_option ctx get) f)"
  by (rule safe_total)
    (auto simp: get_option_def bind_result_Panic get_no_panic split: if_splits)

lemma field_reads:
  "ok x \<Longrightarrow> get (put x @ r) = Ok (x, r)" "ok x \<Longrightarrow> get (put x) = Ok (x, [])"
  by (simp_all add: get_ok)

lemma list_reads:
  "length xs \<le> MAX_U16_LEN \<Longrightarrow> \<forall>x\<in>set xs. ok x \<Longrightarrow> get_list16 get (put_list16 put xs @ r) = Ok (xs, r)"
  "length xs \<le> MAX_U16_LEN \<Longrightarrow> \<forall>x\<in>set xs. ok x \<Longrightarrow> get_list16 get (put_list16 put xs) = Ok (xs, [])"
  "length ys \<le> MAX_U32_LEN \<Longrightarrow> \<forall>x\<in>set ys. ok x \<Longrightarrow> get_list32 get (put_list32 put ys @ r) = Ok (ys, r)"
  "length ys \<le> MAX_U32_LEN \<Longrightarrow> \<forall>x\<in>set ys. ok x \<Longrightarrow> get_list32 get (put_list32 put ys) = Ok (ys, [])"
  by (simp_all add: get_list16_ok get_list32_ok)

lemma option_reads:
  "(case v of Some x \<Rightarrow> ok x | None \<Rightarrow> True) \<Longrightarrow> get_option ctx get (put_option put v @ r) = Ok (v, r)"
  "(case v of Some x \<Rightarrow> ok x | None \<Rightarrow> True) \<Longrightarrow> get_option ctx get (put_option put v) = Ok (v, [])"
  by (simp_all add: get_option_ok)

lemma safe_field: "(\<And>x. safe 0 (f x)) \<Longrightarrow> safe k (rbind get f)"
  by (rule safe_total) (rule get_no_panic)

lemmas field_iffs = get_ok get_list16_ok get_list32_ok get_option_ok
lemmas reads = field_reads list_reads option_reads
lemmas safes = safe_field safe_get_list16 safe_get_list32 safe_get_option

end

text \<open>
  A message codec: decoding accepts exactly the encodings of well-formed messages
  (so an encoding is canonical), and no payload, however malformed, panics.
\<close>

locale message_codec =
  fixes enc :: "'m \<Rightarrow> bytes" and dec :: "bytes \<Rightarrow> ('m, protocol_error) result"
    and good :: "'m \<Rightarrow> bool"
  assumes dec_ok: "dec bs = Ok m \<longleftrightarrow> good m \<and> bs = enc m"
    and dec_no_panic: "dec bs \<noteq> Panic"
begin

lemma round_trip: "good m \<Longrightarrow> dec (enc m) = Ok m"
  by (simp add: dec_ok)

lemma canonical: "dec bs = Ok m \<Longrightarrow> enc m = bs"
  by (simp add: dec_ok)

lemma enc_inj: "good m \<Longrightarrow> good n \<Longrightarrow> enc m = enc n \<Longrightarrow> m = n"
  by (metis dec_ok result.inject(1))

lemma dec_unique: "dec bs = Ok m \<Longrightarrow> dec cs = Ok m \<Longrightarrow> bs = cs"
  by (simp add: dec_ok)

lemma dec_total: "(\<exists>m. good m \<and> bs = enc m \<and> dec bs = Ok m) \<or> (\<exists>e. dec bs = Err e)"
  using dec_no_panic [of bs] by (cases "dec bs") (auto simp: dec_ok)

end

lemma length_put_list [wire_simps]:
  "2 \<le> length (put_list16 put xs)" "4 \<le> length (put_list32 put ys)"
  by (simp_all add: put_list16_def put_list32_def put_count16_def put_count32_def Let_def)

lemma field_codecI:
  assumes "\<And>x r. ok x \<Longrightarrow> get (put x @ r) = Ok (x, r)"
    and "\<And>bs x r. get bs = Ok (x, r) \<Longrightarrow> ok x \<and> bs = put x @ r"
    and "safe 0 get"
  shows "field_codec put get ok"
  using assms by unfold_locales (auto simp: safe_def)

lemma message_codecI:
  assumes "\<And>m. good m \<Longrightarrow> dec (enc m) = Ok m"
    and "\<And>bs m. dec bs = Ok m \<Longrightarrow> good m \<and> bs = enc m"
    and "\<And>bs. dec bs \<noteq> Panic"
  shows "message_codec enc dec good"
  using assms by unfold_locales auto

text \<open>Strings and 16-byte identifiers as fields; the context of the error is a parameter.\<close>

definition get_id :: "string \<Rightarrow> bytes reader" where
  "get_id ctx = rbind (need 16 ctx) (\<lambda>_. get_array 16)"

definition get_digest :: "string \<Rightarrow> bytes reader" where
  "get_digest ctx = rbind (need 32 ctx) (\<lambda>_. get_array 32)"

lemma safe_bare_array [safe_intros]: "n \<le> k \<Longrightarrow> safe k (get_array n)"
  by (simp add: safe_def get_array_def)

interpretation str_field: field_codec put_str "get_str ctx" str_ok for ctx
  by unfold_locales (auto simp: wire_iffs)

interpretation id_field: field_codec "\<lambda>x. x" "get_id ctx" "array_ok 16" for ctx
  by (rule field_codecI)
    (auto simp: get_id_def wire_iffs wire_reads intro!: safe_intros)

interpretation digest_field: field_codec "\<lambda>x. x" "get_digest ctx" "array_ok 32" for ctx
  by (rule field_codecI)
    (auto simp: get_digest_def wire_iffs wire_reads intro!: safe_intros)

lemmas [wire_iffs] = str_field.field_iffs id_field.field_iffs digest_field.field_iffs
lemmas [wire_reads] = str_field.reads id_field.reads digest_field.reads
lemmas [safe_intros] = str_field.safes id_field.safes digest_field.safes

section \<open>Properties\<close>

lemma clamp_str_clamp_str [simp]: "clamp_str (clamp_str s m) m = clamp_str s m"
  by (simp add: length_clamp_str)

lemma put_str_clamped: "put_str s = put_str (clamp_str s MAX_U16_LEN)"
  by (simp add: put_str_def)

text \<open>A string of any length can be written and never spills into the next field:
  what \<open>put_str\<close> writes for valid UTF-8 is always read back, followed by exactly the bytes
  after it, as the longest valid prefix of the string that a 16-bit length can describe.\<close>

lemma put_str_never_spills:
  assumes "utf8 s"
  shows "\<exists>p. get_str ctx (put_str s @ rest) = Ok (p, rest) \<and> prefix p s \<and> utf8 p \<and>
    length p \<le> MAX_U16_LEN \<and>
    (\<forall>q. prefix q s \<and> utf8 q \<and> length q \<le> MAX_U16_LEN \<longrightarrow> length q \<le> length p)"
proof (intro exI conjI)
  have ok: "str_ok (clamp_str s MAX_U16_LEN)"
    using assms by (simp add: str_ok_def utf8_clamp_str length_clamp_str)
  show "get_str ctx (put_str s @ rest) = Ok (clamp_str s MAX_U16_LEN, rest)"
    using ok by (subst put_str_clamped) (simp add: wire_reads)
  show "prefix (clamp_str s MAX_U16_LEN) s" by (rule prefix_clamp_str)
  show "utf8 (clamp_str s MAX_U16_LEN)" using assms by (rule utf8_clamp_str)
  show "length (clamp_str s MAX_U16_LEN) \<le> MAX_U16_LEN" by (rule length_clamp_str)
  show "\<forall>q. prefix q s \<and> utf8 q \<and> length q \<le> MAX_U16_LEN \<longrightarrow> length q \<le> length (clamp_str s MAX_U16_LEN)"
    using clamp_str_longest [OF assms] by blast
qed

end
