(* ===== verification/Msg_Handshake.thy ===== *)
theory Msg_Handshake
  imports Wire
begin

text \<open>
  The handshake payloads.
\<close>

section \<open>HandshakeInit\<close>

record HandshakeInit =
  HandshakeInit_version :: u8
  HandshakeInit_features :: u16

definition HandshakeInit_encode :: "HandshakeInit \<Rightarrow> bytes" where
  "HandshakeInit_encode m =
     put_u8 (HandshakeInit_version m) @ put_u16 (HandshakeInit_features m)"

definition HandshakeInit_decode :: "bytes \<Rightarrow> (HandshakeInit, protocol_error) result" where
  "HandshakeInit_decode = run_reader (
     rbind (need_exactly 3 ''HandshakeInit'') (\<lambda>_.
     rbind get_u8 (\<lambda>version.
     rbind get_u16 (\<lambda>features.
     rret \<lparr>HandshakeInit_version = version, HandshakeInit_features = features\<rparr>))))"

definition HandshakeInit_wf :: "HandshakeInit \<Rightarrow> bool" where
  "HandshakeInit_wf m \<longleftrightarrow>
     True"

lemmas HandshakeInit_defs = HandshakeInit_encode_def HandshakeInit_decode_def HandshakeInit_wf_def run_reader_def

interpretation HandshakeInit_msg: message_codec HandshakeInit_encode HandshakeInit_decode HandshakeInit_wf
  by (rule message_codecI, simp add: HandshakeInit_defs wire_reads wire_simps,
      (auto simp: HandshakeInit_defs wire_iffs array_ok_def split: if_splits)[1],
      unfold HandshakeInit_decode_def, (intro run_reader_no_panic safe_intros; simp))

section \<open>HandshakeResp\<close>

record HandshakeResp =
  HandshakeResp_version :: u8
  HandshakeResp_features :: u16

definition HandshakeResp_encode :: "HandshakeResp \<Rightarrow> bytes" where
  "HandshakeResp_encode m =
     put_u8 (HandshakeResp_version m) @ put_u16 (HandshakeResp_features m)"

definition HandshakeResp_decode :: "bytes \<Rightarrow> (HandshakeResp, protocol_error) result" where
  "HandshakeResp_decode = run_reader (
     rbind (need_exactly 3 ''HandshakeResp'') (\<lambda>_.
     rbind get_u8 (\<lambda>version.
     rbind get_u16 (\<lambda>features.
     rret \<lparr>HandshakeResp_version = version, HandshakeResp_features = features\<rparr>))))"

definition HandshakeResp_wf :: "HandshakeResp \<Rightarrow> bool" where
  "HandshakeResp_wf m \<longleftrightarrow>
     True"

lemmas HandshakeResp_defs = HandshakeResp_encode_def HandshakeResp_decode_def HandshakeResp_wf_def run_reader_def

interpretation HandshakeResp_msg: message_codec HandshakeResp_encode HandshakeResp_decode HandshakeResp_wf
  by (rule message_codecI, simp add: HandshakeResp_defs wire_reads wire_simps,
      (auto simp: HandshakeResp_defs wire_iffs array_ok_def split: if_splits)[1],
      unfold HandshakeResp_decode_def, (intro run_reader_no_panic safe_intros; simp))

end
