(* ===== verification/Msg_Chat.thy ===== *)
theory Msg_Chat
  imports Wire
begin

text \<open>
  The chat payloads.
\<close>

section \<open>ChatSend\<close>

record ChatSend =
  ChatSend_room :: string
  ChatSend_flags :: u8
  ChatSend_text :: string

definition ChatSend_encode :: "ChatSend \<Rightarrow> bytes" where
  "ChatSend_encode m =
     put_str (ChatSend_room m) @ put_u8 (ChatSend_flags m) @ put_str (ChatSend_text m)"

definition ChatSend_decode :: "bytes \<Rightarrow> (ChatSend, protocol_error) result" where
  "ChatSend_decode = run_reader (
     rbind (get_str ''ChatSend'') (\<lambda>room.
     rbind (need 1 ''ChatSend'') (\<lambda>_.
     rbind get_u8 (\<lambda>flags.
     rbind (get_str ''ChatSend'') (\<lambda>text.
     rbind (expect_end ''ChatSend'') (\<lambda>_.
     rret \<lparr>ChatSend_room = room, ChatSend_flags = flags, ChatSend_text = text\<rparr>))))))"

definition ChatSend_wf :: "ChatSend \<Rightarrow> bool" where
  "ChatSend_wf m \<longleftrightarrow>
     str_ok (ChatSend_room m) \<and> str_ok (ChatSend_text m)"

lemmas ChatSend_defs = ChatSend_encode_def ChatSend_decode_def ChatSend_wf_def run_reader_def

interpretation ChatSend_msg: message_codec ChatSend_encode ChatSend_decode ChatSend_wf
  by (rule message_codecI, simp add: ChatSend_defs wire_reads wire_simps,
      (auto simp: ChatSend_defs wire_iffs split: if_splits)[1],
      unfold ChatSend_decode_def, (intro run_reader_no_panic safe_intros; simp))

section \<open>ChatEvent\<close>

record ChatEvent =
  ChatEvent_room :: string
  ChatEvent_sender :: string
  ChatEvent_timestamp :: u64
  ChatEvent_flags :: u8
  ChatEvent_text :: string

definition ChatEvent_encode :: "ChatEvent \<Rightarrow> bytes" where
  "ChatEvent_encode m =
     put_str (ChatEvent_room m) @ put_str (ChatEvent_sender m) @
     put_u64 (ChatEvent_timestamp m) @ put_u8 (ChatEvent_flags m) @
     put_str (ChatEvent_text m)"

definition ChatEvent_decode :: "bytes \<Rightarrow> (ChatEvent, protocol_error) result" where
  "ChatEvent_decode = run_reader (
     rbind (get_str ''ChatEvent'') (\<lambda>room.
     rbind (get_str ''ChatEvent'') (\<lambda>sender.
     rbind (need 9 ''ChatEvent'') (\<lambda>_.
     rbind get_u64 (\<lambda>timestamp.
     rbind get_u8 (\<lambda>flags.
     rbind (get_str ''ChatEvent'') (\<lambda>text.
     rbind (expect_end ''ChatEvent'') (\<lambda>_.
     rret \<lparr>ChatEvent_room = room, ChatEvent_sender = sender,
             ChatEvent_timestamp = timestamp, ChatEvent_flags = flags, ChatEvent_text = text\<rparr>))))))))"

definition ChatEvent_wf :: "ChatEvent \<Rightarrow> bool" where
  "ChatEvent_wf m \<longleftrightarrow>
     str_ok (ChatEvent_room m) \<and> str_ok (ChatEvent_sender m) \<and>
     str_ok (ChatEvent_text m)"

lemmas ChatEvent_defs = ChatEvent_encode_def ChatEvent_decode_def ChatEvent_wf_def run_reader_def

interpretation ChatEvent_msg: message_codec ChatEvent_encode ChatEvent_decode ChatEvent_wf
  by (rule message_codecI, simp add: ChatEvent_defs wire_reads wire_simps,
      (auto simp: ChatEvent_defs wire_iffs split: if_splits)[1],
      unfold ChatEvent_decode_def, (intro run_reader_no_panic safe_intros; simp))

section \<open>ChatJoin\<close>

record ChatJoin =
  ChatJoin_room :: string

definition ChatJoin_encode :: "ChatJoin \<Rightarrow> bytes" where
  "ChatJoin_encode m =
     put_str (ChatJoin_room m)"

definition ChatJoin_decode :: "bytes \<Rightarrow> (ChatJoin, protocol_error) result" where
  "ChatJoin_decode = run_reader (
     rbind (get_str ''ChatJoin'') (\<lambda>room.
     rbind (expect_end ''ChatJoin'') (\<lambda>_.
     rret \<lparr>ChatJoin_room = room\<rparr>)))"

definition ChatJoin_wf :: "ChatJoin \<Rightarrow> bool" where
  "ChatJoin_wf m \<longleftrightarrow>
     str_ok (ChatJoin_room m)"

lemmas ChatJoin_defs = ChatJoin_encode_def ChatJoin_decode_def ChatJoin_wf_def run_reader_def

interpretation ChatJoin_msg: message_codec ChatJoin_encode ChatJoin_decode ChatJoin_wf
  by (rule message_codecI, simp add: ChatJoin_defs wire_reads wire_simps,
      (auto simp: ChatJoin_defs wire_iffs split: if_splits)[1],
      unfold ChatJoin_decode_def, (intro run_reader_no_panic safe_intros; simp))

section \<open>ChatLeave\<close>

record ChatLeave =
  ChatLeave_room :: string

definition ChatLeave_encode :: "ChatLeave \<Rightarrow> bytes" where
  "ChatLeave_encode m =
     put_str (ChatLeave_room m)"

definition ChatLeave_decode :: "bytes \<Rightarrow> (ChatLeave, protocol_error) result" where
  "ChatLeave_decode = run_reader (
     rbind (get_str ''ChatLeave'') (\<lambda>room.
     rbind (expect_end ''ChatLeave'') (\<lambda>_.
     rret \<lparr>ChatLeave_room = room\<rparr>)))"

definition ChatLeave_wf :: "ChatLeave \<Rightarrow> bool" where
  "ChatLeave_wf m \<longleftrightarrow>
     str_ok (ChatLeave_room m)"

lemmas ChatLeave_defs = ChatLeave_encode_def ChatLeave_decode_def ChatLeave_wf_def run_reader_def

interpretation ChatLeave_msg: message_codec ChatLeave_encode ChatLeave_decode ChatLeave_wf
  by (rule message_codecI, simp add: ChatLeave_defs wire_reads wire_simps,
      (auto simp: ChatLeave_defs wire_iffs split: if_splits)[1],
      unfold ChatLeave_decode_def, (intro run_reader_no_panic safe_intros; simp))

section \<open>ChatUserList\<close>

record ChatUserList =
  ChatUserList_room :: string
  ChatUserList_users :: "string list"

definition ChatUserList_encode :: "ChatUserList \<Rightarrow> bytes" where
  "ChatUserList_encode m =
     put_str (ChatUserList_room m) @ put_list16 put_str (ChatUserList_users m)"

definition ChatUserList_decode :: "bytes \<Rightarrow> (ChatUserList, protocol_error) result" where
  "ChatUserList_decode = run_reader (
     rbind (get_str ''ChatUserList'') (\<lambda>room.
     rbind (need 2 ''ChatUserList'') (\<lambda>_.
     rbind (get_list16 (get_str ''ChatUserList'')) (\<lambda>users.
     rbind (expect_end ''ChatUserList'') (\<lambda>_.
     rret \<lparr>ChatUserList_room = room, ChatUserList_users = users\<rparr>)))))"

definition ChatUserList_wf :: "ChatUserList \<Rightarrow> bool" where
  "ChatUserList_wf m \<longleftrightarrow>
     str_ok (ChatUserList_room m) \<and>
     length (ChatUserList_users m) \<le> MAX_U16_LEN \<and> (\<forall>x\<in>set (ChatUserList_users m). str_ok x)"

lemmas ChatUserList_defs = ChatUserList_encode_def ChatUserList_decode_def ChatUserList_wf_def run_reader_def

interpretation ChatUserList_msg: message_codec ChatUserList_encode ChatUserList_decode ChatUserList_wf
  by (rule message_codecI, simp add: ChatUserList_defs wire_reads wire_simps,
      (auto simp: ChatUserList_defs wire_iffs split: if_splits)[1],
      unfold ChatUserList_decode_def, (intro run_reader_no_panic safe_intros; simp))

section \<open>ChatTopic\<close>

record ChatTopic =
  ChatTopic_room :: string
  ChatTopic_topic :: string

definition ChatTopic_encode :: "ChatTopic \<Rightarrow> bytes" where
  "ChatTopic_encode m =
     put_str (ChatTopic_room m) @ put_str (ChatTopic_topic m)"

definition ChatTopic_decode :: "bytes \<Rightarrow> (ChatTopic, protocol_error) result" where
  "ChatTopic_decode = run_reader (
     rbind (get_str ''ChatTopic'') (\<lambda>room.
     rbind (get_str ''ChatTopic'') (\<lambda>topic.
     rbind (expect_end ''ChatTopic'') (\<lambda>_.
     rret \<lparr>ChatTopic_room = room, ChatTopic_topic = topic\<rparr>))))"

definition ChatTopic_wf :: "ChatTopic \<Rightarrow> bool" where
  "ChatTopic_wf m \<longleftrightarrow>
     str_ok (ChatTopic_room m) \<and> str_ok (ChatTopic_topic m)"

lemmas ChatTopic_defs = ChatTopic_encode_def ChatTopic_decode_def ChatTopic_wf_def run_reader_def

interpretation ChatTopic_msg: message_codec ChatTopic_encode ChatTopic_decode ChatTopic_wf
  by (rule message_codecI, simp add: ChatTopic_defs wire_reads wire_simps,
      (auto simp: ChatTopic_defs wire_iffs split: if_splits)[1],
      unfold ChatTopic_decode_def, (intro run_reader_no_panic safe_intros; simp))

section \<open>ChatInvite\<close>

record ChatInvite =
  ChatInvite_to :: string

definition ChatInvite_encode :: "ChatInvite \<Rightarrow> bytes" where
  "ChatInvite_encode m =
     put_str (ChatInvite_to m)"

definition ChatInvite_decode :: "bytes \<Rightarrow> (ChatInvite, protocol_error) result" where
  "ChatInvite_decode = run_reader (
     rbind (get_str ''ChatInvite'') (\<lambda>to.
     rbind (expect_end ''ChatInvite'') (\<lambda>_.
     rret \<lparr>ChatInvite_to = to\<rparr>)))"

definition ChatInvite_wf :: "ChatInvite \<Rightarrow> bool" where
  "ChatInvite_wf m \<longleftrightarrow>
     str_ok (ChatInvite_to m)"

lemmas ChatInvite_defs = ChatInvite_encode_def ChatInvite_decode_def ChatInvite_wf_def run_reader_def

interpretation ChatInvite_msg: message_codec ChatInvite_encode ChatInvite_decode ChatInvite_wf
  by (rule message_codecI, simp add: ChatInvite_defs wire_reads wire_simps,
      (auto simp: ChatInvite_defs wire_iffs split: if_splits)[1],
      unfold ChatInvite_decode_def, (intro run_reader_no_panic safe_intros; simp))

section \<open>ChatInvited\<close>

record ChatInvited =
  ChatInvited_from :: string
  ChatInvited_room :: string

definition ChatInvited_encode :: "ChatInvited \<Rightarrow> bytes" where
  "ChatInvited_encode m =
     put_str (ChatInvited_from m) @ put_str (ChatInvited_room m)"

definition ChatInvited_decode :: "bytes \<Rightarrow> (ChatInvited, protocol_error) result" where
  "ChatInvited_decode = run_reader (
     rbind (get_str ''ChatInvited'') (\<lambda>from.
     rbind (get_str ''ChatInvited'') (\<lambda>room.
     rbind (expect_end ''ChatInvited'') (\<lambda>_.
     rret \<lparr>ChatInvited_from = from, ChatInvited_room = room\<rparr>))))"

definition ChatInvited_wf :: "ChatInvited \<Rightarrow> bool" where
  "ChatInvited_wf m \<longleftrightarrow>
     str_ok (ChatInvited_from m) \<and> str_ok (ChatInvited_room m)"

lemmas ChatInvited_defs = ChatInvited_encode_def ChatInvited_decode_def ChatInvited_wf_def run_reader_def

interpretation ChatInvited_msg: message_codec ChatInvited_encode ChatInvited_decode ChatInvited_wf
  by (rule message_codecI, simp add: ChatInvited_defs wire_reads wire_simps,
      (auto simp: ChatInvited_defs wire_iffs split: if_splits)[1],
      unfold ChatInvited_decode_def, (intro run_reader_no_panic safe_intros; simp))

section \<open>ChatRoomFlags\<close>

record ChatRoomFlags =
  ChatRoomFlags_room :: string
  ChatRoomFlags_min_class_join :: u8
  ChatRoomFlags_interview_mode :: bool

definition ChatRoomFlags_encode :: "ChatRoomFlags \<Rightarrow> bytes" where
  "ChatRoomFlags_encode m =
     put_str (ChatRoomFlags_room m) @ put_u8 (ChatRoomFlags_min_class_join m) @
     put_bool (ChatRoomFlags_interview_mode m)"

definition ChatRoomFlags_decode :: "bytes \<Rightarrow> (ChatRoomFlags, protocol_error) result" where
  "ChatRoomFlags_decode = run_reader (
     rbind (get_str ''ChatRoomFlags'') (\<lambda>room.
     rbind (need 1 ''ChatRoomFlags'') (\<lambda>_.
     rbind get_u8 (\<lambda>min_class_join.
     rbind (get_bool ''ChatRoomFlags'') (\<lambda>interview_mode.
     rbind (expect_end ''ChatRoomFlags'') (\<lambda>_.
     rret \<lparr>ChatRoomFlags_room = room, ChatRoomFlags_min_class_join = min_class_join,
             ChatRoomFlags_interview_mode = interview_mode\<rparr>))))))"

definition ChatRoomFlags_wf :: "ChatRoomFlags \<Rightarrow> bool" where
  "ChatRoomFlags_wf m \<longleftrightarrow>
     str_ok (ChatRoomFlags_room m)"

lemmas ChatRoomFlags_defs = ChatRoomFlags_encode_def ChatRoomFlags_decode_def ChatRoomFlags_wf_def run_reader_def

interpretation ChatRoomFlags_msg: message_codec ChatRoomFlags_encode ChatRoomFlags_decode ChatRoomFlags_wf
  by (rule message_codecI, simp add: ChatRoomFlags_defs wire_reads wire_simps,
      (auto simp: ChatRoomFlags_defs wire_iffs split: if_splits)[1],
      unfold ChatRoomFlags_decode_def, (intro run_reader_no_panic safe_intros; simp))

end
