(* ===== verification/Msg_Private.thy ===== *)
theory Msg_Private
  imports Wire
begin

text \<open>
  The private-message payloads.
\<close>

section \<open>PrivateSend\<close>

record PrivateSend =
  PrivateSend_to :: string
  PrivateSend_text :: string

definition PrivateSend_encode :: "PrivateSend \<Rightarrow> bytes" where
  "PrivateSend_encode m =
     put_str (PrivateSend_to m) @ put_str (PrivateSend_text m)"

definition PrivateSend_decode :: "bytes \<Rightarrow> (PrivateSend, protocol_error) result" where
  "PrivateSend_decode = run_reader (
     rbind (get_str ''PrivateSend'') (\<lambda>to.
     rbind (get_str ''PrivateSend'') (\<lambda>text.
     rbind (expect_end ''PrivateSend'') (\<lambda>_.
     rret \<lparr>PrivateSend_to = to, PrivateSend_text = text\<rparr>))))"

definition PrivateSend_wf :: "PrivateSend \<Rightarrow> bool" where
  "PrivateSend_wf m \<longleftrightarrow>
     str_ok (PrivateSend_to m) \<and> str_ok (PrivateSend_text m)"

lemmas PrivateSend_defs = PrivateSend_encode_def PrivateSend_decode_def PrivateSend_wf_def run_reader_def

interpretation PrivateSend_msg: message_codec PrivateSend_encode PrivateSend_decode PrivateSend_wf
  by (rule message_codecI, simp add: PrivateSend_defs wire_reads wire_simps,
      (auto simp: PrivateSend_defs wire_iffs split: if_splits)[1],
      unfold PrivateSend_decode_def, (intro run_reader_no_panic safe_intros; simp))

section \<open>PrivateMessage\<close>

record PrivateMessage =
  PrivateMessage_from :: string
  PrivateMessage_to :: string
  PrivateMessage_timestamp :: u64
  PrivateMessage_text :: string

definition PrivateMessage_encode :: "PrivateMessage \<Rightarrow> bytes" where
  "PrivateMessage_encode m =
     put_str (PrivateMessage_from m) @ put_str (PrivateMessage_to m) @
     put_u64 (PrivateMessage_timestamp m) @ put_str (PrivateMessage_text m)"

definition PrivateMessage_decode :: "bytes \<Rightarrow> (PrivateMessage, protocol_error) result" where
  "PrivateMessage_decode = run_reader (
     rbind (get_str ''PrivateMessage'') (\<lambda>from.
     rbind (get_str ''PrivateMessage'') (\<lambda>to.
     rbind (need 8 ''PrivateMessage'') (\<lambda>_.
     rbind get_u64 (\<lambda>timestamp.
     rbind (get_str ''PrivateMessage'') (\<lambda>text.
     rbind (expect_end ''PrivateMessage'') (\<lambda>_.
     rret \<lparr>PrivateMessage_from = from, PrivateMessage_to = to,
             PrivateMessage_timestamp = timestamp, PrivateMessage_text = text\<rparr>)))))))"

definition PrivateMessage_wf :: "PrivateMessage \<Rightarrow> bool" where
  "PrivateMessage_wf m \<longleftrightarrow>
     str_ok (PrivateMessage_from m) \<and> str_ok (PrivateMessage_to m) \<and>
     str_ok (PrivateMessage_text m)"

lemmas PrivateMessage_defs = PrivateMessage_encode_def PrivateMessage_decode_def PrivateMessage_wf_def run_reader_def

interpretation PrivateMessage_msg: message_codec PrivateMessage_encode PrivateMessage_decode PrivateMessage_wf
  by (rule message_codecI, simp add: PrivateMessage_defs wire_reads wire_simps,
      (auto simp: PrivateMessage_defs wire_iffs split: if_splits)[1],
      unfold PrivateMessage_decode_def, (intro run_reader_no_panic safe_intros; simp))

end
