(* ===== verification/Msg_Tracker.thy ===== *)
theory Msg_Tracker
  imports Wire
begin

text \<open>
  The tracker-directory payloads.
\<close>

section \<open>TrackerServer\<close>

record TrackerServer =
  TrackerServer_name :: string
  TrackerServer_host :: string
  TrackerServer_port :: u16
  TrackerServer_users :: u32
  TrackerServer_max_users :: u32
  TrackerServer_description :: string

definition TrackerServer_put :: "TrackerServer \<Rightarrow> bytes" where
  "TrackerServer_put m =
     put_str (TrackerServer_name m) @ put_str (TrackerServer_host m) @
     put_u16 (TrackerServer_port m) @ put_u32 (TrackerServer_users m) @
     put_u32 (TrackerServer_max_users m) @ put_str (TrackerServer_description m)"

definition TrackerServer_get :: "TrackerServer reader" where
  "TrackerServer_get =
     rbind (get_str ''TrackerListResponse'') (\<lambda>name.
     rbind (get_str ''TrackerListResponse'') (\<lambda>host.
     rbind (need 10 ''TrackerListResponse'') (\<lambda>_.
     rbind get_u16 (\<lambda>port.
     rbind get_u32 (\<lambda>users.
     rbind get_u32 (\<lambda>max_users.
     rbind (get_str ''TrackerListResponse'') (\<lambda>description.
     rret \<lparr>TrackerServer_name = name, TrackerServer_host = host,
             TrackerServer_port = port, TrackerServer_users = users,
             TrackerServer_max_users = max_users, TrackerServer_description = description\<rparr>)))))))"

definition TrackerServer_ok :: "TrackerServer \<Rightarrow> bool" where
  "TrackerServer_ok m \<longleftrightarrow>
     str_ok (TrackerServer_name m) \<and> str_ok (TrackerServer_host m) \<and>
     str_ok (TrackerServer_description m)"

lemmas TrackerServer_defs = TrackerServer_put_def TrackerServer_get_def TrackerServer_ok_def

interpretation TrackerServer_field: field_codec TrackerServer_put TrackerServer_get TrackerServer_ok
  by (rule field_codecI, simp add: TrackerServer_defs wire_reads wire_simps,
      (auto simp: TrackerServer_defs wire_iffs split: if_splits)[1],
      unfold TrackerServer_get_def, (intro safe_intros; simp))

lemmas [wire_iffs] = TrackerServer_field.field_iffs
lemmas [wire_reads] = TrackerServer_field.reads
lemmas [safe_intros] = TrackerServer_field.safes

section \<open>TrackerListRequest\<close>

record TrackerListRequest =
  TrackerListRequest_filter :: string

definition TrackerListRequest_encode :: "TrackerListRequest \<Rightarrow> bytes" where
  "TrackerListRequest_encode m =
     put_str (TrackerListRequest_filter m)"

definition TrackerListRequest_decode :: "bytes \<Rightarrow> (TrackerListRequest, protocol_error) result" where
  "TrackerListRequest_decode = run_reader (
     rbind (get_str ''TrackerListRequest'') (\<lambda>filter.
     rbind (expect_end ''TrackerListRequest'') (\<lambda>_.
     rret \<lparr>TrackerListRequest_filter = filter\<rparr>)))"

definition TrackerListRequest_wf :: "TrackerListRequest \<Rightarrow> bool" where
  "TrackerListRequest_wf m \<longleftrightarrow>
     str_ok (TrackerListRequest_filter m)"

lemmas TrackerListRequest_defs = TrackerListRequest_encode_def TrackerListRequest_decode_def TrackerListRequest_wf_def run_reader_def

interpretation TrackerListRequest_msg: message_codec TrackerListRequest_encode TrackerListRequest_decode TrackerListRequest_wf
  by (rule message_codecI, simp add: TrackerListRequest_defs wire_reads wire_simps,
      (auto simp: TrackerListRequest_defs wire_iffs split: if_splits)[1],
      unfold TrackerListRequest_decode_def, (intro run_reader_no_panic safe_intros; simp))

section \<open>TrackerListResponse\<close>

record TrackerListResponse =
  TrackerListResponse_servers :: "TrackerServer list"

definition TrackerListResponse_encode :: "TrackerListResponse \<Rightarrow> bytes" where
  "TrackerListResponse_encode m =
     put_list32 TrackerServer_put (TrackerListResponse_servers m)"

definition TrackerListResponse_decode :: "bytes \<Rightarrow> (TrackerListResponse, protocol_error) result" where
  "TrackerListResponse_decode = run_reader (
     rbind (need 4 ''TrackerListResponse'') (\<lambda>_.
     rbind (get_list32 TrackerServer_get) (\<lambda>servers.
     rbind (expect_end ''TrackerListResponse'') (\<lambda>_.
     rret \<lparr>TrackerListResponse_servers = servers\<rparr>))))"

definition TrackerListResponse_wf :: "TrackerListResponse \<Rightarrow> bool" where
  "TrackerListResponse_wf m \<longleftrightarrow>
     length (TrackerListResponse_servers m) \<le> MAX_U32_LEN \<and> (\<forall>x\<in>set (TrackerListResponse_servers m). TrackerServer_ok x)"

lemmas TrackerListResponse_defs = TrackerListResponse_encode_def TrackerListResponse_decode_def TrackerListResponse_wf_def run_reader_def

interpretation TrackerListResponse_msg: message_codec TrackerListResponse_encode TrackerListResponse_decode TrackerListResponse_wf
  by (rule message_codecI, simp add: TrackerListResponse_defs wire_reads wire_simps,
      (auto simp: TrackerListResponse_defs wire_iffs split: if_splits)[1],
      unfold TrackerListResponse_decode_def, (intro run_reader_no_panic safe_intros; simp))

end
