(* ===== verification/Msg_Account.thy ===== *)
theory Msg_Account
  imports Wire
begin

text \<open>
  The account-administration payloads and the embedded credential.
\<close>

section \<open>Credential\<close>

record Credential =
  Credential_m_cost :: u32
  Credential_t_cost :: u32
  Credential_p_cost :: u32
  Credential_salt :: bytes
  Credential_stored_key :: bytes
  Credential_server_key :: bytes

definition Credential_put :: "Credential \<Rightarrow> bytes" where
  "Credential_put m =
     put_u32 (Credential_m_cost m) @ put_u32 (Credential_t_cost m) @
     put_u32 (Credential_p_cost m) @ put_bytes16 (Credential_salt m) @
     (Credential_stored_key m) @ (Credential_server_key m)"

definition Credential_get :: "string \<Rightarrow> Credential reader" where
  "Credential_get ctx =
     rbind (need 12 ctx) (\<lambda>_.
     rbind get_u32 (\<lambda>m_cost.
     rbind get_u32 (\<lambda>t_cost.
     rbind get_u32 (\<lambda>p_cost.
     rbind (get_bytes16 ctx) (\<lambda>salt.
     rbind (need 64 ctx) (\<lambda>_.
     rbind (get_array 32) (\<lambda>stored_key.
     rbind (get_array 32) (\<lambda>server_key.
     rret \<lparr>Credential_m_cost = m_cost, Credential_t_cost = t_cost,
             Credential_p_cost = p_cost, Credential_salt = salt,
             Credential_stored_key = stored_key, Credential_server_key = server_key\<rparr>))))))))"

definition Credential_ok :: "Credential \<Rightarrow> bool" where
  "Credential_ok m \<longleftrightarrow>
     blob_ok (Credential_salt m) \<and> array_ok 32 (Credential_stored_key m) \<and>
     array_ok 32 (Credential_server_key m)"

lemmas Credential_defs = Credential_put_def Credential_get_def Credential_ok_def

interpretation Credential_field: field_codec Credential_put "Credential_get ctx" Credential_ok for ctx
  by (rule field_codecI, simp add: Credential_defs wire_reads wire_simps,
      (auto simp: Credential_defs wire_iffs split: if_splits)[1],
      unfold Credential_get_def, (intro safe_intros; simp))

lemmas [wire_iffs] = Credential_field.field_iffs
lemmas [wire_reads] = Credential_field.reads
lemmas [safe_intros] = Credential_field.safes

section \<open>AccountCreate\<close>

record AccountCreate =
  AccountCreate_username :: string
  AccountCreate_credential :: Credential
  AccountCreate_base_class :: u8
  AccountCreate_granted :: u32
  AccountCreate_revoked :: u32

definition AccountCreate_encode :: "AccountCreate \<Rightarrow> bytes" where
  "AccountCreate_encode m =
     put_str (AccountCreate_username m) @ Credential_put (AccountCreate_credential m) @
     put_u8 (AccountCreate_base_class m) @ put_u32 (AccountCreate_granted m) @
     put_u32 (AccountCreate_revoked m)"

definition AccountCreate_decode :: "bytes \<Rightarrow> (AccountCreate, protocol_error) result" where
  "AccountCreate_decode = run_reader (
     rbind (get_str ''AccountCreate'') (\<lambda>username.
     rbind (Credential_get ''AccountCreate'') (\<lambda>credential.
     rbind (need 9 ''AccountCreate'') (\<lambda>_.
     rbind get_u8 (\<lambda>base_class.
     rbind get_u32 (\<lambda>granted.
     rbind get_u32 (\<lambda>revoked.
     rbind (expect_end ''AccountCreate'') (\<lambda>_.
     rret \<lparr>AccountCreate_username = username, AccountCreate_credential = credential,
             AccountCreate_base_class = base_class, AccountCreate_granted = granted,
             AccountCreate_revoked = revoked\<rparr>))))))))"

definition AccountCreate_wf :: "AccountCreate \<Rightarrow> bool" where
  "AccountCreate_wf m \<longleftrightarrow>
     str_ok (AccountCreate_username m) \<and> Credential_ok (AccountCreate_credential m)"

lemmas AccountCreate_defs = AccountCreate_encode_def AccountCreate_decode_def AccountCreate_wf_def run_reader_def

interpretation AccountCreate_msg: message_codec AccountCreate_encode AccountCreate_decode AccountCreate_wf
  by (rule message_codecI, simp add: AccountCreate_defs wire_reads wire_simps,
      (auto simp: AccountCreate_defs wire_iffs split: if_splits)[1],
      unfold AccountCreate_decode_def, (intro run_reader_no_panic safe_intros; simp))

section \<open>AccountSetPassword\<close>

record AccountSetPassword =
  AccountSetPassword_username :: string
  AccountSetPassword_credential :: Credential

definition AccountSetPassword_encode :: "AccountSetPassword \<Rightarrow> bytes" where
  "AccountSetPassword_encode m =
     put_str (AccountSetPassword_username m) @
     Credential_put (AccountSetPassword_credential m)"

definition AccountSetPassword_decode :: "bytes \<Rightarrow> (AccountSetPassword, protocol_error) result" where
  "AccountSetPassword_decode = run_reader (
     rbind (get_str ''AccountSetPassword'') (\<lambda>username.
     rbind (Credential_get ''AccountSetPassword'') (\<lambda>credential.
     rbind (expect_end ''AccountSetPassword'') (\<lambda>_.
     rret \<lparr>AccountSetPassword_username = username,
             AccountSetPassword_credential = credential\<rparr>))))"

definition AccountSetPassword_wf :: "AccountSetPassword \<Rightarrow> bool" where
  "AccountSetPassword_wf m \<longleftrightarrow>
     str_ok (AccountSetPassword_username m) \<and>
     Credential_ok (AccountSetPassword_credential m)"

lemmas AccountSetPassword_defs = AccountSetPassword_encode_def AccountSetPassword_decode_def AccountSetPassword_wf_def run_reader_def

interpretation AccountSetPassword_msg: message_codec AccountSetPassword_encode AccountSetPassword_decode AccountSetPassword_wf
  by (rule message_codecI, simp add: AccountSetPassword_defs wire_reads wire_simps,
      (auto simp: AccountSetPassword_defs wire_iffs split: if_splits)[1],
      unfold AccountSetPassword_decode_def, (intro run_reader_no_panic safe_intros; simp))

section \<open>AccountUpdate\<close>

record AccountUpdate =
  AccountUpdate_username :: string
  AccountUpdate_base_class :: u8
  AccountUpdate_granted :: u32
  AccountUpdate_revoked :: u32

definition AccountUpdate_encode :: "AccountUpdate \<Rightarrow> bytes" where
  "AccountUpdate_encode m =
     put_str (AccountUpdate_username m) @ put_u8 (AccountUpdate_base_class m) @
     put_u32 (AccountUpdate_granted m) @ put_u32 (AccountUpdate_revoked m)"

definition AccountUpdate_decode :: "bytes \<Rightarrow> (AccountUpdate, protocol_error) result" where
  "AccountUpdate_decode = run_reader (
     rbind (get_str ''AccountUpdate'') (\<lambda>username.
     rbind (need 9 ''AccountUpdate'') (\<lambda>_.
     rbind get_u8 (\<lambda>base_class.
     rbind get_u32 (\<lambda>granted.
     rbind get_u32 (\<lambda>revoked.
     rbind (expect_end ''AccountUpdate'') (\<lambda>_.
     rret \<lparr>AccountUpdate_username = username, AccountUpdate_base_class = base_class,
             AccountUpdate_granted = granted, AccountUpdate_revoked = revoked\<rparr>)))))))"

definition AccountUpdate_wf :: "AccountUpdate \<Rightarrow> bool" where
  "AccountUpdate_wf m \<longleftrightarrow>
     str_ok (AccountUpdate_username m)"

lemmas AccountUpdate_defs = AccountUpdate_encode_def AccountUpdate_decode_def AccountUpdate_wf_def run_reader_def

interpretation AccountUpdate_msg: message_codec AccountUpdate_encode AccountUpdate_decode AccountUpdate_wf
  by (rule message_codecI, simp add: AccountUpdate_defs wire_reads wire_simps,
      (auto simp: AccountUpdate_defs wire_iffs split: if_splits)[1],
      unfold AccountUpdate_decode_def, (intro run_reader_no_panic safe_intros; simp))

section \<open>AccountListRequest\<close>

definition AccountListRequest_encode :: "unit \<Rightarrow> bytes" where
  "AccountListRequest_encode m = []"

definition AccountListRequest_decode :: "bytes \<Rightarrow> (unit, protocol_error) result" where
  "AccountListRequest_decode = run_reader (rbind (expect_end ''AccountListRequest'') (\<lambda>_. rret ()))"

lemmas AccountListRequest_defs = AccountListRequest_encode_def AccountListRequest_decode_def run_reader_def

interpretation AccountListRequest_msg: message_codec AccountListRequest_encode AccountListRequest_decode "\<lambda>_. True"
  by unfold_locales (auto simp: AccountListRequest_defs expect_end_def)

section \<open>AccountSummary\<close>

record AccountSummary =
  AccountSummary_username :: string
  AccountSummary_base_class :: u8
  AccountSummary_granted :: u32
  AccountSummary_revoked :: u32

definition AccountSummary_put :: "AccountSummary \<Rightarrow> bytes" where
  "AccountSummary_put m =
     put_str (AccountSummary_username m) @ put_u8 (AccountSummary_base_class m) @
     put_u32 (AccountSummary_granted m) @ put_u32 (AccountSummary_revoked m)"

definition AccountSummary_get :: "AccountSummary reader" where
  "AccountSummary_get =
     rbind (get_str ''AccountListResponse'') (\<lambda>username.
     rbind (need 9 ''AccountListResponse'') (\<lambda>_.
     rbind get_u8 (\<lambda>base_class.
     rbind get_u32 (\<lambda>granted.
     rbind get_u32 (\<lambda>revoked.
     rret \<lparr>AccountSummary_username = username, AccountSummary_base_class = base_class,
             AccountSummary_granted = granted, AccountSummary_revoked = revoked\<rparr>)))))"

definition AccountSummary_ok :: "AccountSummary \<Rightarrow> bool" where
  "AccountSummary_ok m \<longleftrightarrow>
     str_ok (AccountSummary_username m)"

lemmas AccountSummary_defs = AccountSummary_put_def AccountSummary_get_def AccountSummary_ok_def

interpretation AccountSummary_field: field_codec AccountSummary_put AccountSummary_get AccountSummary_ok
  by (rule field_codecI, simp add: AccountSummary_defs wire_reads wire_simps,
      (auto simp: AccountSummary_defs wire_iffs split: if_splits)[1],
      unfold AccountSummary_get_def, (intro safe_intros; simp))

lemmas [wire_iffs] = AccountSummary_field.field_iffs
lemmas [wire_reads] = AccountSummary_field.reads
lemmas [safe_intros] = AccountSummary_field.safes

section \<open>AccountListResponse\<close>

record AccountListResponse =
  AccountListResponse_accounts :: "AccountSummary list"

definition AccountListResponse_encode :: "AccountListResponse \<Rightarrow> bytes" where
  "AccountListResponse_encode m =
     put_list32 AccountSummary_put (AccountListResponse_accounts m)"

definition AccountListResponse_decode :: "bytes \<Rightarrow> (AccountListResponse, protocol_error) result" where
  "AccountListResponse_decode = run_reader (
     rbind (need 4 ''AccountListResponse'') (\<lambda>_.
     rbind (get_list32 AccountSummary_get) (\<lambda>accounts.
     rbind (expect_end ''AccountListResponse'') (\<lambda>_.
     rret \<lparr>AccountListResponse_accounts = accounts\<rparr>))))"

definition AccountListResponse_wf :: "AccountListResponse \<Rightarrow> bool" where
  "AccountListResponse_wf m \<longleftrightarrow>
     length (AccountListResponse_accounts m) \<le> MAX_U32_LEN \<and> (\<forall>x\<in>set (AccountListResponse_accounts m). AccountSummary_ok x)"

lemmas AccountListResponse_defs = AccountListResponse_encode_def AccountListResponse_decode_def AccountListResponse_wf_def run_reader_def

interpretation AccountListResponse_msg: message_codec AccountListResponse_encode AccountListResponse_decode AccountListResponse_wf
  by (rule message_codecI, simp add: AccountListResponse_defs wire_reads wire_simps,
      (auto simp: AccountListResponse_defs wire_iffs split: if_splits)[1],
      unfold AccountListResponse_decode_def, (intro run_reader_no_panic safe_intros; simp))

end
