(* ===== verification/Msg_Roles.thy ===== *)
theory Msg_Roles
  imports Wire
begin

text \<open>
  The role-administration payloads.
\<close>

section \<open>RoleInfo\<close>

record RoleInfo =
  RoleInfo_id :: bytes
  RoleInfo_name :: string
  RoleInfo_privileges :: u32
  RoleInfo_rank :: i32
  RoleInfo_color :: string

definition encode_role :: "RoleInfo \<Rightarrow> bytes" where
  "encode_role m =
     (RoleInfo_id m) @ put_str (RoleInfo_name m) @ put_u32 (RoleInfo_privileges m) @
     put_i32 (RoleInfo_rank m) @ put_str (RoleInfo_color m)"

definition decode_role :: "RoleInfo reader" where
  "decode_role =
     rbind (need 16 ''RoleInfo'') (\<lambda>_.
     rbind (get_array 16) (\<lambda>id.
     rbind (get_str ''RoleInfo'') (\<lambda>name.
     rbind (need 8 ''RoleInfo'') (\<lambda>_.
     rbind get_u32 (\<lambda>privileges.
     rbind get_i32 (\<lambda>rank.
     rbind (get_str ''RoleInfo'') (\<lambda>color.
     rret \<lparr>RoleInfo_id = id, RoleInfo_name = name, RoleInfo_privileges = privileges,
             RoleInfo_rank = rank, RoleInfo_color = color\<rparr>)))))))"

definition RoleInfo_ok :: "RoleInfo \<Rightarrow> bool" where
  "RoleInfo_ok m \<longleftrightarrow>
     array_ok 16 (RoleInfo_id m) \<and> str_ok (RoleInfo_name m) \<and>
     str_ok (RoleInfo_color m)"

lemmas RoleInfo_defs = encode_role_def decode_role_def RoleInfo_ok_def

interpretation RoleInfo_field: field_codec encode_role decode_role RoleInfo_ok
  by (rule field_codecI, simp add: RoleInfo_defs wire_reads wire_simps,
      (auto simp: RoleInfo_defs wire_iffs split: if_splits)[1],
      unfold decode_role_def, (intro safe_intros; simp))

lemmas [wire_iffs] = RoleInfo_field.field_iffs
lemmas [wire_reads] = RoleInfo_field.reads
lemmas [safe_intros] = RoleInfo_field.safes

section \<open>RoleListRequest\<close>

definition RoleListRequest_encode :: "unit \<Rightarrow> bytes" where
  "RoleListRequest_encode m = []"

definition RoleListRequest_decode :: "bytes \<Rightarrow> (unit, protocol_error) result" where
  "RoleListRequest_decode = run_reader (rbind (expect_end ''RoleListRequest'') (\<lambda>_. rret ()))"

lemmas RoleListRequest_defs = RoleListRequest_encode_def RoleListRequest_decode_def run_reader_def

interpretation RoleListRequest_msg: message_codec RoleListRequest_encode RoleListRequest_decode "\<lambda>_. True"
  by unfold_locales (auto simp: RoleListRequest_defs expect_end_def)

section \<open>RoleListResponse\<close>

record RoleListResponse =
  RoleListResponse_roles :: "RoleInfo list"

definition RoleListResponse_encode :: "RoleListResponse \<Rightarrow> bytes" where
  "RoleListResponse_encode m =
     put_list16 encode_role (RoleListResponse_roles m)"

definition RoleListResponse_decode :: "bytes \<Rightarrow> (RoleListResponse, protocol_error) result" where
  "RoleListResponse_decode = run_reader (
     rbind (need 2 ''RoleListResponse'') (\<lambda>_.
     rbind (get_list16 decode_role) (\<lambda>roles.
     rbind (expect_end ''RoleListResponse'') (\<lambda>_.
     rret \<lparr>RoleListResponse_roles = roles\<rparr>))))"

definition RoleListResponse_wf :: "RoleListResponse \<Rightarrow> bool" where
  "RoleListResponse_wf m \<longleftrightarrow>
     length (RoleListResponse_roles m) \<le> MAX_U16_LEN \<and> (\<forall>x\<in>set (RoleListResponse_roles m). RoleInfo_ok x)"

lemmas RoleListResponse_defs = RoleListResponse_encode_def RoleListResponse_decode_def RoleListResponse_wf_def run_reader_def

interpretation RoleListResponse_msg: message_codec RoleListResponse_encode RoleListResponse_decode RoleListResponse_wf
  by (rule message_codecI, simp add: RoleListResponse_defs wire_reads wire_simps,
      (auto simp: RoleListResponse_defs wire_iffs split: if_splits)[1],
      unfold RoleListResponse_decode_def, (intro run_reader_no_panic safe_intros; simp))

section \<open>RoleCreate\<close>

record RoleCreate =
  RoleCreate_name :: string
  RoleCreate_privileges :: u32
  RoleCreate_rank :: i32
  RoleCreate_color :: string

definition RoleCreate_encode :: "RoleCreate \<Rightarrow> bytes" where
  "RoleCreate_encode m =
     put_str (RoleCreate_name m) @ put_u32 (RoleCreate_privileges m) @
     put_i32 (RoleCreate_rank m) @ put_str (RoleCreate_color m)"

definition RoleCreate_decode :: "bytes \<Rightarrow> (RoleCreate, protocol_error) result" where
  "RoleCreate_decode = run_reader (
     rbind (get_str ''RoleCreate'') (\<lambda>name.
     rbind (need 8 ''RoleCreate'') (\<lambda>_.
     rbind get_u32 (\<lambda>privileges.
     rbind get_i32 (\<lambda>rank.
     rbind (get_str ''RoleCreate'') (\<lambda>color.
     rbind (expect_end ''RoleCreate'') (\<lambda>_.
     rret \<lparr>RoleCreate_name = name, RoleCreate_privileges = privileges,
             RoleCreate_rank = rank, RoleCreate_color = color\<rparr>)))))))"

definition RoleCreate_wf :: "RoleCreate \<Rightarrow> bool" where
  "RoleCreate_wf m \<longleftrightarrow>
     str_ok (RoleCreate_name m) \<and> str_ok (RoleCreate_color m)"

lemmas RoleCreate_defs = RoleCreate_encode_def RoleCreate_decode_def RoleCreate_wf_def run_reader_def

interpretation RoleCreate_msg: message_codec RoleCreate_encode RoleCreate_decode RoleCreate_wf
  by (rule message_codecI, simp add: RoleCreate_defs wire_reads wire_simps,
      (auto simp: RoleCreate_defs wire_iffs split: if_splits)[1],
      unfold RoleCreate_decode_def, (intro run_reader_no_panic safe_intros; simp))

section \<open>RoleUpdate\<close>

record RoleUpdate =
  RoleUpdate_id :: bytes
  RoleUpdate_name :: string
  RoleUpdate_privileges :: u32
  RoleUpdate_rank :: i32
  RoleUpdate_color :: string

definition RoleUpdate_encode :: "RoleUpdate \<Rightarrow> bytes" where
  "RoleUpdate_encode m =
     (RoleUpdate_id m) @ put_str (RoleUpdate_name m) @ put_u32 (RoleUpdate_privileges m) @
     put_i32 (RoleUpdate_rank m) @ put_str (RoleUpdate_color m)"

definition RoleUpdate_decode :: "bytes \<Rightarrow> (RoleUpdate, protocol_error) result" where
  "RoleUpdate_decode = run_reader (
     rbind (get_id ''RoleUpdate'') (\<lambda>id.
     rbind (get_str ''RoleUpdate'') (\<lambda>name.
     rbind (need 8 ''RoleUpdate'') (\<lambda>_.
     rbind get_u32 (\<lambda>privileges.
     rbind get_i32 (\<lambda>rank.
     rbind (get_str ''RoleUpdate'') (\<lambda>color.
     rbind (expect_end ''RoleUpdate'') (\<lambda>_.
     rret \<lparr>RoleUpdate_id = id, RoleUpdate_name = name,
             RoleUpdate_privileges = privileges, RoleUpdate_rank = rank,
             RoleUpdate_color = color\<rparr>))))))))"

definition RoleUpdate_wf :: "RoleUpdate \<Rightarrow> bool" where
  "RoleUpdate_wf m \<longleftrightarrow>
     array_ok 16 (RoleUpdate_id m) \<and> str_ok (RoleUpdate_name m) \<and>
     str_ok (RoleUpdate_color m)"

lemmas RoleUpdate_defs = RoleUpdate_encode_def RoleUpdate_decode_def RoleUpdate_wf_def run_reader_def

interpretation RoleUpdate_msg: message_codec RoleUpdate_encode RoleUpdate_decode RoleUpdate_wf
  by (rule message_codecI, simp add: RoleUpdate_defs wire_reads wire_simps,
      (auto simp: RoleUpdate_defs wire_iffs split: if_splits)[1],
      unfold RoleUpdate_decode_def, (intro run_reader_no_panic safe_intros; simp))

section \<open>RoleDelete\<close>

record RoleDelete =
  RoleDelete_id :: bytes

definition RoleDelete_encode :: "RoleDelete \<Rightarrow> bytes" where
  "RoleDelete_encode m =
     (RoleDelete_id m)"

definition RoleDelete_decode :: "bytes \<Rightarrow> (RoleDelete, protocol_error) result" where
  "RoleDelete_decode = run_reader (
     rbind (need_exactly 16 ''RoleDelete'') (\<lambda>_.
     rbind (get_array 16) (\<lambda>id.
     rret \<lparr>RoleDelete_id = id\<rparr>)))"

definition RoleDelete_wf :: "RoleDelete \<Rightarrow> bool" where
  "RoleDelete_wf m \<longleftrightarrow>
     array_ok 16 (RoleDelete_id m)"

lemmas RoleDelete_defs = RoleDelete_encode_def RoleDelete_decode_def RoleDelete_wf_def run_reader_def

interpretation RoleDelete_msg: message_codec RoleDelete_encode RoleDelete_decode RoleDelete_wf
  by (rule message_codecI, simp add: RoleDelete_defs wire_reads wire_simps,
      (auto simp: RoleDelete_defs wire_iffs array_ok_def split: if_splits)[1],
      unfold RoleDelete_decode_def, (intro run_reader_no_panic safe_intros; simp))

section \<open>RoleAssign\<close>

record RoleAssign =
  RoleAssign_username :: string
  RoleAssign_role_id :: bytes

definition RoleAssign_encode :: "RoleAssign \<Rightarrow> bytes" where
  "RoleAssign_encode m =
     put_str (RoleAssign_username m) @ (RoleAssign_role_id m)"

definition RoleAssign_decode :: "bytes \<Rightarrow> (RoleAssign, protocol_error) result" where
  "RoleAssign_decode = run_reader (
     rbind (get_str ''RoleAssign'') (\<lambda>username.
     rbind (get_id ''RoleAssign'') (\<lambda>role_id.
     rbind (expect_end ''RoleAssign'') (\<lambda>_.
     rret \<lparr>RoleAssign_username = username, RoleAssign_role_id = role_id\<rparr>))))"

definition RoleAssign_wf :: "RoleAssign \<Rightarrow> bool" where
  "RoleAssign_wf m \<longleftrightarrow>
     str_ok (RoleAssign_username m) \<and> array_ok 16 (RoleAssign_role_id m)"

lemmas RoleAssign_defs = RoleAssign_encode_def RoleAssign_decode_def RoleAssign_wf_def run_reader_def

interpretation RoleAssign_msg: message_codec RoleAssign_encode RoleAssign_decode RoleAssign_wf
  by (rule message_codecI, simp add: RoleAssign_defs wire_reads wire_simps,
      (auto simp: RoleAssign_defs wire_iffs split: if_splits)[1],
      unfold RoleAssign_decode_def, (intro run_reader_no_panic safe_intros; simp))

section \<open>RoleUnassign\<close>

record RoleUnassign =
  RoleUnassign_username :: string
  RoleUnassign_role_id :: bytes

definition RoleUnassign_encode :: "RoleUnassign \<Rightarrow> bytes" where
  "RoleUnassign_encode m =
     put_str (RoleUnassign_username m) @ (RoleUnassign_role_id m)"

definition RoleUnassign_decode :: "bytes \<Rightarrow> (RoleUnassign, protocol_error) result" where
  "RoleUnassign_decode = run_reader (
     rbind (get_str ''RoleUnassign'') (\<lambda>username.
     rbind (get_id ''RoleUnassign'') (\<lambda>role_id.
     rbind (expect_end ''RoleUnassign'') (\<lambda>_.
     rret \<lparr>RoleUnassign_username = username, RoleUnassign_role_id = role_id\<rparr>))))"

definition RoleUnassign_wf :: "RoleUnassign \<Rightarrow> bool" where
  "RoleUnassign_wf m \<longleftrightarrow>
     str_ok (RoleUnassign_username m) \<and> array_ok 16 (RoleUnassign_role_id m)"

lemmas RoleUnassign_defs = RoleUnassign_encode_def RoleUnassign_decode_def RoleUnassign_wf_def run_reader_def

interpretation RoleUnassign_msg: message_codec RoleUnassign_encode RoleUnassign_decode RoleUnassign_wf
  by (rule message_codecI, simp add: RoleUnassign_defs wire_reads wire_simps,
      (auto simp: RoleUnassign_defs wire_iffs split: if_splits)[1],
      unfold RoleUnassign_decode_def, (intro run_reader_no_panic safe_intros; simp))

section \<open>AccountRolesRequest\<close>

record AccountRolesRequest =
  AccountRolesRequest_username :: string

definition AccountRolesRequest_encode :: "AccountRolesRequest \<Rightarrow> bytes" where
  "AccountRolesRequest_encode m =
     put_str (AccountRolesRequest_username m)"

definition AccountRolesRequest_decode :: "bytes \<Rightarrow> (AccountRolesRequest, protocol_error) result" where
  "AccountRolesRequest_decode = run_reader (
     rbind (get_str ''AccountRolesRequest'') (\<lambda>username.
     rbind (expect_end ''AccountRolesRequest'') (\<lambda>_.
     rret \<lparr>AccountRolesRequest_username = username\<rparr>)))"

definition AccountRolesRequest_wf :: "AccountRolesRequest \<Rightarrow> bool" where
  "AccountRolesRequest_wf m \<longleftrightarrow>
     str_ok (AccountRolesRequest_username m)"

lemmas AccountRolesRequest_defs = AccountRolesRequest_encode_def AccountRolesRequest_decode_def AccountRolesRequest_wf_def run_reader_def

interpretation AccountRolesRequest_msg: message_codec AccountRolesRequest_encode AccountRolesRequest_decode AccountRolesRequest_wf
  by (rule message_codecI, simp add: AccountRolesRequest_defs wire_reads wire_simps,
      (auto simp: AccountRolesRequest_defs wire_iffs split: if_splits)[1],
      unfold AccountRolesRequest_decode_def, (intro run_reader_no_panic safe_intros; simp))

section \<open>AccountRolesResponse\<close>

record AccountRolesResponse =
  AccountRolesResponse_username :: string
  AccountRolesResponse_role_ids :: "bytes list"

definition AccountRolesResponse_encode :: "AccountRolesResponse \<Rightarrow> bytes" where
  "AccountRolesResponse_encode m =
     put_str (AccountRolesResponse_username m) @
     put_list16 (\<lambda>x. x) (AccountRolesResponse_role_ids m)"

definition AccountRolesResponse_decode :: "bytes \<Rightarrow> (AccountRolesResponse, protocol_error) result" where
  "AccountRolesResponse_decode = run_reader (
     rbind (get_str ''AccountRolesResponse'') (\<lambda>username.
     rbind (need 2 ''AccountRolesResponse'') (\<lambda>_.
     rbind (get_list16 (get_id ''AccountRolesResponse'')) (\<lambda>role_ids.
     rbind (expect_end ''AccountRolesResponse'') (\<lambda>_.
     rret \<lparr>AccountRolesResponse_username = username,
             AccountRolesResponse_role_ids = role_ids\<rparr>)))))"

definition AccountRolesResponse_wf :: "AccountRolesResponse \<Rightarrow> bool" where
  "AccountRolesResponse_wf m \<longleftrightarrow>
     str_ok (AccountRolesResponse_username m) \<and>
     length (AccountRolesResponse_role_ids m) \<le> MAX_U16_LEN \<and> (\<forall>x\<in>set (AccountRolesResponse_role_ids m). array_ok 16 x)"

lemmas AccountRolesResponse_defs = AccountRolesResponse_encode_def AccountRolesResponse_decode_def AccountRolesResponse_wf_def run_reader_def

interpretation AccountRolesResponse_msg: message_codec AccountRolesResponse_encode AccountRolesResponse_decode AccountRolesResponse_wf
  by (rule message_codecI, simp add: AccountRolesResponse_defs wire_reads wire_simps,
      (auto simp: AccountRolesResponse_defs wire_iffs split: if_splits)[1],
      unfold AccountRolesResponse_decode_def, (intro run_reader_no_panic safe_intros; simp))

end
