(* ===== verification/Msg_News.thy ===== *)
theory Msg_News
  imports Wire
begin

text \<open>
  The public-news payloads.
\<close>

section \<open>NewsgroupInfo\<close>

record NewsgroupInfo =
  NewsgroupInfo_id :: bytes
  NewsgroupInfo_name :: string
  NewsgroupInfo_description :: string
  NewsgroupInfo_min_read_class :: u8
  NewsgroupInfo_min_post_class :: u8

definition NewsgroupInfo_put :: "NewsgroupInfo \<Rightarrow> bytes" where
  "NewsgroupInfo_put m =
     (NewsgroupInfo_id m) @ put_str (NewsgroupInfo_name m) @
     put_str (NewsgroupInfo_description m) @ put_u8 (NewsgroupInfo_min_read_class m) @
     put_u8 (NewsgroupInfo_min_post_class m)"

definition NewsgroupInfo_get :: "NewsgroupInfo reader" where
  "NewsgroupInfo_get =
     rbind (get_id ''NewsgroupListResponse'') (\<lambda>id.
     rbind (get_str ''NewsgroupListResponse'') (\<lambda>name.
     rbind (get_str ''NewsgroupListResponse'') (\<lambda>description.
     rbind (need 2 ''NewsgroupListResponse'') (\<lambda>_.
     rbind get_u8 (\<lambda>min_read_class.
     rbind get_u8 (\<lambda>min_post_class.
     rret \<lparr>NewsgroupInfo_id = id, NewsgroupInfo_name = name,
             NewsgroupInfo_description = description,
             NewsgroupInfo_min_read_class = min_read_class,
             NewsgroupInfo_min_post_class = min_post_class\<rparr>))))))"

definition NewsgroupInfo_ok :: "NewsgroupInfo \<Rightarrow> bool" where
  "NewsgroupInfo_ok m \<longleftrightarrow>
     array_ok 16 (NewsgroupInfo_id m) \<and> str_ok (NewsgroupInfo_name m) \<and>
     str_ok (NewsgroupInfo_description m)"

lemmas NewsgroupInfo_defs = NewsgroupInfo_put_def NewsgroupInfo_get_def NewsgroupInfo_ok_def

interpretation NewsgroupInfo_field: field_codec NewsgroupInfo_put NewsgroupInfo_get NewsgroupInfo_ok
  by (rule field_codecI, simp add: NewsgroupInfo_defs wire_reads wire_simps,
      (auto simp: NewsgroupInfo_defs wire_iffs split: if_splits)[1],
      unfold NewsgroupInfo_get_def, (intro safe_intros; simp))

lemmas [wire_iffs] = NewsgroupInfo_field.field_iffs
lemmas [wire_reads] = NewsgroupInfo_field.reads
lemmas [safe_intros] = NewsgroupInfo_field.safes

section \<open>NewsPost\<close>

record NewsPost =
  NewsPost_id :: bytes
  NewsPost_newsgroup_id :: bytes
  NewsPost_parent_id :: bytes
  NewsPost_author :: string
  NewsPost_subject :: string
  NewsPost_body :: string
  NewsPost_timestamp :: u64

definition encode_post :: "NewsPost \<Rightarrow> bytes" where
  "encode_post m =
     (NewsPost_id m) @ (NewsPost_newsgroup_id m) @ (NewsPost_parent_id m) @
     put_str (NewsPost_author m) @ put_str (NewsPost_subject m) @
     put_str (NewsPost_body m) @ put_u64 (NewsPost_timestamp m)"

definition decode_post :: "NewsPost reader" where
  "decode_post =
     rbind (get_id ''NewsPost'') (\<lambda>id.
     rbind (get_id ''NewsPost'') (\<lambda>newsgroup_id.
     rbind (get_id ''NewsPost'') (\<lambda>parent_id.
     rbind (get_str ''NewsPost'') (\<lambda>author.
     rbind (get_str ''NewsPost'') (\<lambda>subject.
     rbind (get_str ''NewsPost'') (\<lambda>body.
     rbind (need 8 ''NewsPost'') (\<lambda>_.
     rbind get_u64 (\<lambda>timestamp.
     rret \<lparr>NewsPost_id = id, NewsPost_newsgroup_id = newsgroup_id,
             NewsPost_parent_id = parent_id, NewsPost_author = author,
             NewsPost_subject = subject, NewsPost_body = body, NewsPost_timestamp = timestamp\<rparr>))))))))"

definition NewsPost_ok :: "NewsPost \<Rightarrow> bool" where
  "NewsPost_ok m \<longleftrightarrow>
     array_ok 16 (NewsPost_id m) \<and> array_ok 16 (NewsPost_newsgroup_id m) \<and>
     array_ok 16 (NewsPost_parent_id m) \<and> str_ok (NewsPost_author m) \<and>
     str_ok (NewsPost_subject m) \<and> str_ok (NewsPost_body m)"

lemmas NewsPost_defs = encode_post_def decode_post_def NewsPost_ok_def

interpretation NewsPost_field: field_codec encode_post decode_post NewsPost_ok
  by (rule field_codecI, simp add: NewsPost_defs wire_reads wire_simps,
      (auto simp: NewsPost_defs wire_iffs split: if_splits)[1],
      unfold decode_post_def, (intro safe_intros; simp))

lemmas [wire_iffs] = NewsPost_field.field_iffs
lemmas [wire_reads] = NewsPost_field.reads
lemmas [safe_intros] = NewsPost_field.safes

section \<open>NewsgroupListRequest\<close>

definition NewsgroupListRequest_encode :: "unit \<Rightarrow> bytes" where
  "NewsgroupListRequest_encode m = []"

definition NewsgroupListRequest_decode :: "bytes \<Rightarrow> (unit, protocol_error) result" where
  "NewsgroupListRequest_decode = run_reader (rbind (expect_end ''NewsgroupListRequest'') (\<lambda>_. rret ()))"

lemmas NewsgroupListRequest_defs = NewsgroupListRequest_encode_def NewsgroupListRequest_decode_def run_reader_def

interpretation NewsgroupListRequest_msg: message_codec NewsgroupListRequest_encode NewsgroupListRequest_decode "\<lambda>_. True"
  by unfold_locales (auto simp: NewsgroupListRequest_defs expect_end_def)

section \<open>NewsgroupListResponse\<close>

record NewsgroupListResponse =
  NewsgroupListResponse_groups :: "NewsgroupInfo list"

definition NewsgroupListResponse_encode :: "NewsgroupListResponse \<Rightarrow> bytes" where
  "NewsgroupListResponse_encode m =
     put_list32 NewsgroupInfo_put (NewsgroupListResponse_groups m)"

definition NewsgroupListResponse_decode :: "bytes \<Rightarrow> (NewsgroupListResponse, protocol_error) result" where
  "NewsgroupListResponse_decode = run_reader (
     rbind (need 4 ''NewsgroupListResponse'') (\<lambda>_.
     rbind (get_list32 NewsgroupInfo_get) (\<lambda>groups.
     rbind (expect_end ''NewsgroupListResponse'') (\<lambda>_.
     rret \<lparr>NewsgroupListResponse_groups = groups\<rparr>))))"

definition NewsgroupListResponse_wf :: "NewsgroupListResponse \<Rightarrow> bool" where
  "NewsgroupListResponse_wf m \<longleftrightarrow>
     length (NewsgroupListResponse_groups m) \<le> MAX_U32_LEN \<and> (\<forall>x\<in>set (NewsgroupListResponse_groups m). NewsgroupInfo_ok x)"

lemmas NewsgroupListResponse_defs = NewsgroupListResponse_encode_def NewsgroupListResponse_decode_def NewsgroupListResponse_wf_def run_reader_def

interpretation NewsgroupListResponse_msg: message_codec NewsgroupListResponse_encode NewsgroupListResponse_decode NewsgroupListResponse_wf
  by (rule message_codecI, simp add: NewsgroupListResponse_defs wire_reads wire_simps,
      (auto simp: NewsgroupListResponse_defs wire_iffs split: if_splits)[1],
      unfold NewsgroupListResponse_decode_def, (intro run_reader_no_panic safe_intros; simp))

section \<open>NewsThreadListRequest\<close>

record NewsThreadListRequest =
  NewsThreadListRequest_newsgroup_id :: bytes

definition NewsThreadListRequest_encode :: "NewsThreadListRequest \<Rightarrow> bytes" where
  "NewsThreadListRequest_encode m =
     (NewsThreadListRequest_newsgroup_id m)"

definition NewsThreadListRequest_decode :: "bytes \<Rightarrow> (NewsThreadListRequest, protocol_error) result" where
  "NewsThreadListRequest_decode = run_reader (
     rbind (get_id ''NewsThreadListRequest'') (\<lambda>newsgroup_id.
     rbind (expect_end ''NewsThreadListRequest'') (\<lambda>_.
     rret \<lparr>NewsThreadListRequest_newsgroup_id = newsgroup_id\<rparr>)))"

definition NewsThreadListRequest_wf :: "NewsThreadListRequest \<Rightarrow> bool" where
  "NewsThreadListRequest_wf m \<longleftrightarrow>
     array_ok 16 (NewsThreadListRequest_newsgroup_id m)"

lemmas NewsThreadListRequest_defs = NewsThreadListRequest_encode_def NewsThreadListRequest_decode_def NewsThreadListRequest_wf_def run_reader_def

interpretation NewsThreadListRequest_msg: message_codec NewsThreadListRequest_encode NewsThreadListRequest_decode NewsThreadListRequest_wf
  by (rule message_codecI, simp add: NewsThreadListRequest_defs wire_reads wire_simps,
      (auto simp: NewsThreadListRequest_defs wire_iffs split: if_splits)[1],
      unfold NewsThreadListRequest_decode_def, (intro run_reader_no_panic safe_intros; simp))

section \<open>NewsThreadListResponse\<close>

record NewsThreadListResponse =
  NewsThreadListResponse_newsgroup_id :: bytes
  NewsThreadListResponse_posts :: "NewsPost list"

definition NewsThreadListResponse_encode :: "NewsThreadListResponse \<Rightarrow> bytes" where
  "NewsThreadListResponse_encode m =
     (NewsThreadListResponse_newsgroup_id m) @
     put_list32 encode_post (NewsThreadListResponse_posts m)"

definition NewsThreadListResponse_decode :: "bytes \<Rightarrow> (NewsThreadListResponse, protocol_error) result" where
  "NewsThreadListResponse_decode = run_reader (
     rbind (get_id ''NewsThreadListResponse'') (\<lambda>newsgroup_id.
     rbind (need 4 ''NewsThreadListResponse'') (\<lambda>_.
     rbind (get_list32 decode_post) (\<lambda>posts.
     rbind (expect_end ''NewsThreadListResponse'') (\<lambda>_.
     rret \<lparr>NewsThreadListResponse_newsgroup_id = newsgroup_id,
             NewsThreadListResponse_posts = posts\<rparr>)))))"

definition NewsThreadListResponse_wf :: "NewsThreadListResponse \<Rightarrow> bool" where
  "NewsThreadListResponse_wf m \<longleftrightarrow>
     array_ok 16 (NewsThreadListResponse_newsgroup_id m) \<and>
     length (NewsThreadListResponse_posts m) \<le> MAX_U32_LEN \<and> (\<forall>x\<in>set (NewsThreadListResponse_posts m). NewsPost_ok x)"

lemmas NewsThreadListResponse_defs = NewsThreadListResponse_encode_def NewsThreadListResponse_decode_def NewsThreadListResponse_wf_def run_reader_def

interpretation NewsThreadListResponse_msg: message_codec NewsThreadListResponse_encode NewsThreadListResponse_decode NewsThreadListResponse_wf
  by (rule message_codecI, simp add: NewsThreadListResponse_defs wire_reads wire_simps,
      (auto simp: NewsThreadListResponse_defs wire_iffs split: if_splits)[1],
      unfold NewsThreadListResponse_decode_def, (intro run_reader_no_panic safe_intros; simp))

section \<open>NewsPostCreate\<close>

record NewsPostCreate =
  NewsPostCreate_newsgroup_id :: bytes
  NewsPostCreate_parent_id :: bytes
  NewsPostCreate_subject :: string
  NewsPostCreate_body :: string

definition NewsPostCreate_encode :: "NewsPostCreate \<Rightarrow> bytes" where
  "NewsPostCreate_encode m =
     (NewsPostCreate_newsgroup_id m) @ (NewsPostCreate_parent_id m) @
     put_str (NewsPostCreate_subject m) @ put_str (NewsPostCreate_body m)"

definition NewsPostCreate_decode :: "bytes \<Rightarrow> (NewsPostCreate, protocol_error) result" where
  "NewsPostCreate_decode = run_reader (
     rbind (get_id ''NewsPostCreate'') (\<lambda>newsgroup_id.
     rbind (get_id ''NewsPostCreate'') (\<lambda>parent_id.
     rbind (get_str ''NewsPostCreate'') (\<lambda>subject.
     rbind (get_str ''NewsPostCreate'') (\<lambda>body.
     rbind (expect_end ''NewsPostCreate'') (\<lambda>_.
     rret \<lparr>NewsPostCreate_newsgroup_id = newsgroup_id,
             NewsPostCreate_parent_id = parent_id, NewsPostCreate_subject = subject,
             NewsPostCreate_body = body\<rparr>))))))"

definition NewsPostCreate_wf :: "NewsPostCreate \<Rightarrow> bool" where
  "NewsPostCreate_wf m \<longleftrightarrow>
     array_ok 16 (NewsPostCreate_newsgroup_id m) \<and>
     array_ok 16 (NewsPostCreate_parent_id m) \<and>
     str_ok (NewsPostCreate_subject m) \<and> str_ok (NewsPostCreate_body m)"

lemmas NewsPostCreate_defs = NewsPostCreate_encode_def NewsPostCreate_decode_def NewsPostCreate_wf_def run_reader_def

interpretation NewsPostCreate_msg: message_codec NewsPostCreate_encode NewsPostCreate_decode NewsPostCreate_wf
  by (rule message_codecI, simp add: NewsPostCreate_defs wire_reads wire_simps,
      (auto simp: NewsPostCreate_defs wire_iffs split: if_splits)[1],
      unfold NewsPostCreate_decode_def, (intro run_reader_no_panic safe_intros; simp))

section \<open>NewsPostDelete\<close>

record NewsPostDelete =
  NewsPostDelete_post_id :: bytes

definition NewsPostDelete_encode :: "NewsPostDelete \<Rightarrow> bytes" where
  "NewsPostDelete_encode m =
     (NewsPostDelete_post_id m)"

definition NewsPostDelete_decode :: "bytes \<Rightarrow> (NewsPostDelete, protocol_error) result" where
  "NewsPostDelete_decode = run_reader (
     rbind (get_id ''NewsPostDelete'') (\<lambda>post_id.
     rbind (expect_end ''NewsPostDelete'') (\<lambda>_.
     rret \<lparr>NewsPostDelete_post_id = post_id\<rparr>)))"

definition NewsPostDelete_wf :: "NewsPostDelete \<Rightarrow> bool" where
  "NewsPostDelete_wf m \<longleftrightarrow>
     array_ok 16 (NewsPostDelete_post_id m)"

lemmas NewsPostDelete_defs = NewsPostDelete_encode_def NewsPostDelete_decode_def NewsPostDelete_wf_def run_reader_def

interpretation NewsPostDelete_msg: message_codec NewsPostDelete_encode NewsPostDelete_decode NewsPostDelete_wf
  by (rule message_codecI, simp add: NewsPostDelete_defs wire_reads wire_simps,
      (auto simp: NewsPostDelete_defs wire_iffs split: if_splits)[1],
      unfold NewsPostDelete_decode_def, (intro run_reader_no_panic safe_intros; simp))

section \<open>NewsgroupCreate\<close>

record NewsgroupCreate =
  NewsgroupCreate_name :: string
  NewsgroupCreate_description :: string
  NewsgroupCreate_min_read_class :: u8
  NewsgroupCreate_min_post_class :: u8

definition NewsgroupCreate_encode :: "NewsgroupCreate \<Rightarrow> bytes" where
  "NewsgroupCreate_encode m =
     put_str (NewsgroupCreate_name m) @ put_str (NewsgroupCreate_description m) @
     put_u8 (NewsgroupCreate_min_read_class m) @ put_u8 (NewsgroupCreate_min_post_class m)"

definition NewsgroupCreate_decode :: "bytes \<Rightarrow> (NewsgroupCreate, protocol_error) result" where
  "NewsgroupCreate_decode = run_reader (
     rbind (get_str ''NewsgroupCreate'') (\<lambda>name.
     rbind (get_str ''NewsgroupCreate'') (\<lambda>description.
     rbind (need 2 ''NewsgroupCreate'') (\<lambda>_.
     rbind get_u8 (\<lambda>min_read_class.
     rbind get_u8 (\<lambda>min_post_class.
     rbind (expect_end ''NewsgroupCreate'') (\<lambda>_.
     rret \<lparr>NewsgroupCreate_name = name, NewsgroupCreate_description = description,
             NewsgroupCreate_min_read_class = min_read_class,
             NewsgroupCreate_min_post_class = min_post_class\<rparr>)))))))"

definition NewsgroupCreate_wf :: "NewsgroupCreate \<Rightarrow> bool" where
  "NewsgroupCreate_wf m \<longleftrightarrow>
     str_ok (NewsgroupCreate_name m) \<and> str_ok (NewsgroupCreate_description m)"

lemmas NewsgroupCreate_defs = NewsgroupCreate_encode_def NewsgroupCreate_decode_def NewsgroupCreate_wf_def run_reader_def

interpretation NewsgroupCreate_msg: message_codec NewsgroupCreate_encode NewsgroupCreate_decode NewsgroupCreate_wf
  by (rule message_codecI, simp add: NewsgroupCreate_defs wire_reads wire_simps,
      (auto simp: NewsgroupCreate_defs wire_iffs split: if_splits)[1],
      unfold NewsgroupCreate_decode_def, (intro run_reader_no_panic safe_intros; simp))

section \<open>NewsgroupUpdate\<close>

record NewsgroupUpdate =
  NewsgroupUpdate_id :: bytes
  NewsgroupUpdate_name :: string
  NewsgroupUpdate_description :: string
  NewsgroupUpdate_min_read_class :: u8
  NewsgroupUpdate_min_post_class :: u8

definition NewsgroupUpdate_encode :: "NewsgroupUpdate \<Rightarrow> bytes" where
  "NewsgroupUpdate_encode m =
     (NewsgroupUpdate_id m) @ put_str (NewsgroupUpdate_name m) @
     put_str (NewsgroupUpdate_description m) @ put_u8 (NewsgroupUpdate_min_read_class m) @
     put_u8 (NewsgroupUpdate_min_post_class m)"

definition NewsgroupUpdate_decode :: "bytes \<Rightarrow> (NewsgroupUpdate, protocol_error) result" where
  "NewsgroupUpdate_decode = run_reader (
     rbind (get_id ''NewsgroupUpdate'') (\<lambda>id.
     rbind (get_str ''NewsgroupUpdate'') (\<lambda>name.
     rbind (get_str ''NewsgroupUpdate'') (\<lambda>description.
     rbind (need 2 ''NewsgroupUpdate'') (\<lambda>_.
     rbind get_u8 (\<lambda>min_read_class.
     rbind get_u8 (\<lambda>min_post_class.
     rbind (expect_end ''NewsgroupUpdate'') (\<lambda>_.
     rret \<lparr>NewsgroupUpdate_id = id, NewsgroupUpdate_name = name,
             NewsgroupUpdate_description = description,
             NewsgroupUpdate_min_read_class = min_read_class,
             NewsgroupUpdate_min_post_class = min_post_class\<rparr>))))))))"

definition NewsgroupUpdate_wf :: "NewsgroupUpdate \<Rightarrow> bool" where
  "NewsgroupUpdate_wf m \<longleftrightarrow>
     array_ok 16 (NewsgroupUpdate_id m) \<and> str_ok (NewsgroupUpdate_name m) \<and>
     str_ok (NewsgroupUpdate_description m)"

lemmas NewsgroupUpdate_defs = NewsgroupUpdate_encode_def NewsgroupUpdate_decode_def NewsgroupUpdate_wf_def run_reader_def

interpretation NewsgroupUpdate_msg: message_codec NewsgroupUpdate_encode NewsgroupUpdate_decode NewsgroupUpdate_wf
  by (rule message_codecI, simp add: NewsgroupUpdate_defs wire_reads wire_simps,
      (auto simp: NewsgroupUpdate_defs wire_iffs split: if_splits)[1],
      unfold NewsgroupUpdate_decode_def, (intro run_reader_no_panic safe_intros; simp))

section \<open>NewsgroupDelete\<close>

record NewsgroupDelete =
  NewsgroupDelete_id :: bytes

definition NewsgroupDelete_encode :: "NewsgroupDelete \<Rightarrow> bytes" where
  "NewsgroupDelete_encode m =
     (NewsgroupDelete_id m)"

definition NewsgroupDelete_decode :: "bytes \<Rightarrow> (NewsgroupDelete, protocol_error) result" where
  "NewsgroupDelete_decode = run_reader (
     rbind (get_id ''NewsgroupDelete'') (\<lambda>id.
     rbind (expect_end ''NewsgroupDelete'') (\<lambda>_.
     rret \<lparr>NewsgroupDelete_id = id\<rparr>)))"

definition NewsgroupDelete_wf :: "NewsgroupDelete \<Rightarrow> bool" where
  "NewsgroupDelete_wf m \<longleftrightarrow>
     array_ok 16 (NewsgroupDelete_id m)"

lemmas NewsgroupDelete_defs = NewsgroupDelete_encode_def NewsgroupDelete_decode_def NewsgroupDelete_wf_def run_reader_def

interpretation NewsgroupDelete_msg: message_codec NewsgroupDelete_encode NewsgroupDelete_decode NewsgroupDelete_wf
  by (rule message_codecI, simp add: NewsgroupDelete_defs wire_reads wire_simps,
      (auto simp: NewsgroupDelete_defs wire_iffs split: if_splits)[1],
      unfold NewsgroupDelete_decode_def, (intro run_reader_no_panic safe_intros; simp))

end
