(* ===== verification/Msg_Presence.thy ===== *)
theory Msg_Presence
  imports Wire
begin

text \<open>
  The presence payloads.
\<close>

section \<open>PresenceEntry\<close>

record PresenceEntry =
  PresenceEntry_username :: string
  PresenceEntry_class :: u8
  PresenceEntry_login_at :: u64
  PresenceEntry_idle_secs :: u32
  PresenceEntry_address :: string
  PresenceEntry_name :: string
  PresenceEntry_description :: string

definition encode_entry :: "PresenceEntry \<Rightarrow> bytes" where
  "encode_entry m =
     put_str (PresenceEntry_username m) @ put_u8 (PresenceEntry_class m) @
     put_u64 (PresenceEntry_login_at m) @ put_u32 (PresenceEntry_idle_secs m) @
     put_str (PresenceEntry_address m) @ put_str (PresenceEntry_name m) @
     put_str (PresenceEntry_description m)"

definition decode_entry :: "PresenceEntry reader" where
  "decode_entry =
     rbind (get_str ''PresenceEntry'') (\<lambda>username.
     rbind (need 13 ''PresenceEntry'') (\<lambda>_.
     rbind get_u8 (\<lambda>class.
     rbind get_u64 (\<lambda>login_at.
     rbind get_u32 (\<lambda>idle_secs.
     rbind (get_str ''PresenceEntry'') (\<lambda>address.
     rbind (get_str ''PresenceEntry'') (\<lambda>name.
     rbind (get_str ''PresenceEntry'') (\<lambda>description.
     rret \<lparr>PresenceEntry_username = username, PresenceEntry_class = class,
             PresenceEntry_login_at = login_at, PresenceEntry_idle_secs = idle_secs,
             PresenceEntry_address = address, PresenceEntry_name = name,
             PresenceEntry_description = description\<rparr>))))))))"

definition PresenceEntry_ok :: "PresenceEntry \<Rightarrow> bool" where
  "PresenceEntry_ok m \<longleftrightarrow>
     str_ok (PresenceEntry_username m) \<and> str_ok (PresenceEntry_address m) \<and>
     str_ok (PresenceEntry_name m) \<and> str_ok (PresenceEntry_description m)"

lemmas PresenceEntry_defs = encode_entry_def decode_entry_def PresenceEntry_ok_def

interpretation PresenceEntry_field: field_codec encode_entry decode_entry PresenceEntry_ok
  by (rule field_codecI, simp add: PresenceEntry_defs wire_reads wire_simps,
      (auto simp: PresenceEntry_defs wire_iffs split: if_splits)[1],
      unfold decode_entry_def, (intro safe_intros; simp))

lemmas [wire_iffs] = PresenceEntry_field.field_iffs
lemmas [wire_reads] = PresenceEntry_field.reads
lemmas [safe_intros] = PresenceEntry_field.safes

section \<open>SetIdentity\<close>

record SetIdentity =
  SetIdentity_name :: string
  SetIdentity_description :: string

definition SetIdentity_encode :: "SetIdentity \<Rightarrow> bytes" where
  "SetIdentity_encode m =
     put_str (SetIdentity_name m) @ put_str (SetIdentity_description m)"

definition SetIdentity_decode :: "bytes \<Rightarrow> (SetIdentity, protocol_error) result" where
  "SetIdentity_decode = run_reader (
     rbind (get_str ''SetIdentity'') (\<lambda>name.
     rbind (get_str ''SetIdentity'') (\<lambda>description.
     rbind (expect_end ''SetIdentity'') (\<lambda>_.
     rret \<lparr>SetIdentity_name = name, SetIdentity_description = description\<rparr>))))"

definition SetIdentity_wf :: "SetIdentity \<Rightarrow> bool" where
  "SetIdentity_wf m \<longleftrightarrow>
     str_ok (SetIdentity_name m) \<and> str_ok (SetIdentity_description m)"

lemmas SetIdentity_defs = SetIdentity_encode_def SetIdentity_decode_def SetIdentity_wf_def run_reader_def

interpretation SetIdentity_msg: message_codec SetIdentity_encode SetIdentity_decode SetIdentity_wf
  by (rule message_codecI, simp add: SetIdentity_defs wire_reads wire_simps,
      (auto simp: SetIdentity_defs wire_iffs split: if_splits)[1],
      unfold SetIdentity_decode_def, (intro run_reader_no_panic safe_intros; simp))

section \<open>PresenceListRequest\<close>

definition PresenceListRequest_encode :: "unit \<Rightarrow> bytes" where
  "PresenceListRequest_encode m = []"

definition PresenceListRequest_decode :: "bytes \<Rightarrow> (unit, protocol_error) result" where
  "PresenceListRequest_decode = run_reader (rbind (expect_end ''PresenceListRequest'') (\<lambda>_. rret ()))"

lemmas PresenceListRequest_defs = PresenceListRequest_encode_def PresenceListRequest_decode_def run_reader_def

interpretation PresenceListRequest_msg: message_codec PresenceListRequest_encode PresenceListRequest_decode "\<lambda>_. True"
  by unfold_locales (auto simp: PresenceListRequest_defs expect_end_def)

section \<open>PresenceListResponse\<close>

record PresenceListResponse =
  PresenceListResponse_users :: "PresenceEntry list"

definition PresenceListResponse_encode :: "PresenceListResponse \<Rightarrow> bytes" where
  "PresenceListResponse_encode m =
     put_list16 encode_entry (PresenceListResponse_users m)"

definition PresenceListResponse_decode :: "bytes \<Rightarrow> (PresenceListResponse, protocol_error) result" where
  "PresenceListResponse_decode = run_reader (
     rbind (need 2 ''PresenceListResponse'') (\<lambda>_.
     rbind (get_list16 decode_entry) (\<lambda>users.
     rbind (expect_end ''PresenceListResponse'') (\<lambda>_.
     rret \<lparr>PresenceListResponse_users = users\<rparr>))))"

definition PresenceListResponse_wf :: "PresenceListResponse \<Rightarrow> bool" where
  "PresenceListResponse_wf m \<longleftrightarrow>
     length (PresenceListResponse_users m) \<le> MAX_U16_LEN \<and> (\<forall>x\<in>set (PresenceListResponse_users m). PresenceEntry_ok x)"

lemmas PresenceListResponse_defs = PresenceListResponse_encode_def PresenceListResponse_decode_def PresenceListResponse_wf_def run_reader_def

interpretation PresenceListResponse_msg: message_codec PresenceListResponse_encode PresenceListResponse_decode PresenceListResponse_wf
  by (rule message_codecI, simp add: PresenceListResponse_defs wire_reads wire_simps,
      (auto simp: PresenceListResponse_defs wire_iffs split: if_splits)[1],
      unfold PresenceListResponse_decode_def, (intro run_reader_no_panic safe_intros; simp))

section \<open>PresenceChange\<close>

record PresenceChange =
  PresenceChange_entry :: PresenceEntry
  PresenceChange_online :: bool

definition PresenceChange_encode :: "PresenceChange \<Rightarrow> bytes" where
  "PresenceChange_encode m =
     put_bool (PresenceChange_online m) @ encode_entry (PresenceChange_entry m)"

definition PresenceChange_decode :: "bytes \<Rightarrow> (PresenceChange, protocol_error) result" where
  "PresenceChange_decode = run_reader (
     rbind (get_bool ''PresenceChange'') (\<lambda>online.
     rbind decode_entry (\<lambda>entry.
     rbind (expect_end ''PresenceChange'') (\<lambda>_.
     rret \<lparr>PresenceChange_entry = entry, PresenceChange_online = online\<rparr>))))"

definition PresenceChange_wf :: "PresenceChange \<Rightarrow> bool" where
  "PresenceChange_wf m \<longleftrightarrow>
     PresenceEntry_ok (PresenceChange_entry m)"

lemmas PresenceChange_defs = PresenceChange_encode_def PresenceChange_decode_def PresenceChange_wf_def run_reader_def

interpretation PresenceChange_msg: message_codec PresenceChange_encode PresenceChange_decode PresenceChange_wf
  by (rule message_codecI, simp add: PresenceChange_defs wire_reads wire_simps,
      (auto simp: PresenceChange_defs wire_iffs split: if_splits)[1],
      unfold PresenceChange_decode_def, (intro run_reader_no_panic safe_intros; simp))

section \<open>UserInfoRequest\<close>

record UserInfoRequest =
  UserInfoRequest_username :: string

definition UserInfoRequest_encode :: "UserInfoRequest \<Rightarrow> bytes" where
  "UserInfoRequest_encode m =
     put_str (UserInfoRequest_username m)"

definition UserInfoRequest_decode :: "bytes \<Rightarrow> (UserInfoRequest, protocol_error) result" where
  "UserInfoRequest_decode = run_reader (
     rbind (get_str ''UserInfoRequest'') (\<lambda>username.
     rbind (expect_end ''UserInfoRequest'') (\<lambda>_.
     rret \<lparr>UserInfoRequest_username = username\<rparr>)))"

definition UserInfoRequest_wf :: "UserInfoRequest \<Rightarrow> bool" where
  "UserInfoRequest_wf m \<longleftrightarrow>
     str_ok (UserInfoRequest_username m)"

lemmas UserInfoRequest_defs = UserInfoRequest_encode_def UserInfoRequest_decode_def UserInfoRequest_wf_def run_reader_def

interpretation UserInfoRequest_msg: message_codec UserInfoRequest_encode UserInfoRequest_decode UserInfoRequest_wf
  by (rule message_codecI, simp add: UserInfoRequest_defs wire_reads wire_simps,
      (auto simp: UserInfoRequest_defs wire_iffs split: if_splits)[1],
      unfold UserInfoRequest_decode_def, (intro run_reader_no_panic safe_intros; simp))

section \<open>UserInfoResponse\<close>

record UserInfoResponse =
  UserInfoResponse_entry :: PresenceEntry

definition UserInfoResponse_encode :: "UserInfoResponse \<Rightarrow> bytes" where
  "UserInfoResponse_encode m =
     encode_entry (UserInfoResponse_entry m)"

definition UserInfoResponse_decode :: "bytes \<Rightarrow> (UserInfoResponse, protocol_error) result" where
  "UserInfoResponse_decode = run_reader (
     rbind decode_entry (\<lambda>entry.
     rbind (expect_end ''UserInfoResponse'') (\<lambda>_.
     rret \<lparr>UserInfoResponse_entry = entry\<rparr>)))"

definition UserInfoResponse_wf :: "UserInfoResponse \<Rightarrow> bool" where
  "UserInfoResponse_wf m \<longleftrightarrow>
     PresenceEntry_ok (UserInfoResponse_entry m)"

lemmas UserInfoResponse_defs = UserInfoResponse_encode_def UserInfoResponse_decode_def UserInfoResponse_wf_def run_reader_def

interpretation UserInfoResponse_msg: message_codec UserInfoResponse_encode UserInfoResponse_decode UserInfoResponse_wf
  by (rule message_codecI, simp add: UserInfoResponse_defs wire_reads wire_simps,
      (auto simp: UserInfoResponse_defs wire_iffs split: if_splits)[1],
      unfold UserInfoResponse_decode_def, (intro run_reader_no_panic safe_intros; simp))

end
