(* ===== verification/Msg_Admin.thy ===== *)
theory Msg_Admin
  imports Msg_Presence
begin

text \<open>
  The administration payloads: kicks and bans, settings, history, IP rules, connections.
\<close>

section \<open>AdminDisconnect\<close>

record AdminDisconnect =
  AdminDisconnect_username :: string
  AdminDisconnect_reason :: string
  AdminDisconnect_ban_secs :: u32

definition AdminDisconnect_encode :: "AdminDisconnect \<Rightarrow> bytes" where
  "AdminDisconnect_encode m =
     put_str (AdminDisconnect_username m) @ put_str (AdminDisconnect_reason m) @
     put_u32 (AdminDisconnect_ban_secs m)"

definition AdminDisconnect_decode :: "bytes \<Rightarrow> (AdminDisconnect, protocol_error) result" where
  "AdminDisconnect_decode = run_reader (
     rbind (get_str ''AdminDisconnect'') (\<lambda>username.
     rbind (get_str ''AdminDisconnect'') (\<lambda>reason.
     rbind (need 4 ''AdminDisconnect'') (\<lambda>_.
     rbind get_u32 (\<lambda>ban_secs.
     rbind (expect_end ''AdminDisconnect'') (\<lambda>_.
     rret \<lparr>AdminDisconnect_username = username, AdminDisconnect_reason = reason,
             AdminDisconnect_ban_secs = ban_secs\<rparr>))))))"

definition AdminDisconnect_wf :: "AdminDisconnect \<Rightarrow> bool" where
  "AdminDisconnect_wf m \<longleftrightarrow>
     str_ok (AdminDisconnect_username m) \<and> str_ok (AdminDisconnect_reason m)"

lemmas AdminDisconnect_defs = AdminDisconnect_encode_def AdminDisconnect_decode_def AdminDisconnect_wf_def run_reader_def

interpretation AdminDisconnect_msg: message_codec AdminDisconnect_encode AdminDisconnect_decode AdminDisconnect_wf
  by (rule message_codecI, simp add: AdminDisconnect_defs wire_reads wire_simps,
      (auto simp: AdminDisconnect_defs wire_iffs split: if_splits)[1],
      unfold AdminDisconnect_decode_def, (intro run_reader_no_panic safe_intros; simp))

section \<open>BanListRequest\<close>

definition BanListRequest_encode :: "unit \<Rightarrow> bytes" where
  "BanListRequest_encode m = []"

definition BanListRequest_decode :: "bytes \<Rightarrow> (unit, protocol_error) result" where
  "BanListRequest_decode = run_reader (rbind (expect_end ''BanListRequest'') (\<lambda>_. rret ()))"

lemmas BanListRequest_defs = BanListRequest_encode_def BanListRequest_decode_def run_reader_def

interpretation BanListRequest_msg: message_codec BanListRequest_encode BanListRequest_decode "\<lambda>_. True"
  by unfold_locales (auto simp: BanListRequest_defs expect_end_def)

section \<open>BanEntry\<close>

record BanEntry =
  BanEntry_username :: string
  BanEntry_until :: u64
  BanEntry_reason :: string
  BanEntry_banned_by :: string
  BanEntry_banned_by_class :: u8

definition BanEntry_put :: "BanEntry \<Rightarrow> bytes" where
  "BanEntry_put m =
     put_str (BanEntry_username m) @ put_u64 (BanEntry_until m) @
     put_str (BanEntry_reason m) @ put_str (BanEntry_banned_by m) @
     put_u8 (BanEntry_banned_by_class m)"

definition BanEntry_get :: "BanEntry reader" where
  "BanEntry_get =
     rbind (get_str ''BanListResponse'') (\<lambda>username.
     rbind (need 8 ''BanListResponse'') (\<lambda>_.
     rbind get_u64 (\<lambda>until.
     rbind (get_str ''BanListResponse'') (\<lambda>reason.
     rbind (get_str ''BanListResponse'') (\<lambda>banned_by.
     rbind (need 1 ''BanListResponse'') (\<lambda>_.
     rbind get_u8 (\<lambda>banned_by_class.
     rret \<lparr>BanEntry_username = username, BanEntry_until = until,
             BanEntry_reason = reason, BanEntry_banned_by = banned_by,
             BanEntry_banned_by_class = banned_by_class\<rparr>)))))))"

definition BanEntry_ok :: "BanEntry \<Rightarrow> bool" where
  "BanEntry_ok m \<longleftrightarrow>
     str_ok (BanEntry_username m) \<and> str_ok (BanEntry_reason m) \<and>
     str_ok (BanEntry_banned_by m)"

lemmas BanEntry_defs = BanEntry_put_def BanEntry_get_def BanEntry_ok_def

interpretation BanEntry_field: field_codec BanEntry_put BanEntry_get BanEntry_ok
  by (rule field_codecI, simp add: BanEntry_defs wire_reads wire_simps,
      (auto simp: BanEntry_defs wire_iffs split: if_splits)[1],
      unfold BanEntry_get_def, (intro safe_intros; simp))

lemmas [wire_iffs] = BanEntry_field.field_iffs
lemmas [wire_reads] = BanEntry_field.reads
lemmas [safe_intros] = BanEntry_field.safes

section \<open>BanListResponse\<close>

record BanListResponse =
  BanListResponse_total :: u32
  BanListResponse_bans :: "BanEntry list"

definition BanListResponse_encode :: "BanListResponse \<Rightarrow> bytes" where
  "BanListResponse_encode m =
     put_u32 (BanListResponse_total m) @ put_list32 BanEntry_put (BanListResponse_bans m)"

definition BanListResponse_decode :: "bytes \<Rightarrow> (BanListResponse, protocol_error) result" where
  "BanListResponse_decode = run_reader (
     rbind (need 8 ''BanListResponse'') (\<lambda>_.
     rbind get_u32 (\<lambda>total.
     rbind (get_list32 BanEntry_get) (\<lambda>bans.
     rbind (expect_end ''BanListResponse'') (\<lambda>_.
     rret \<lparr>BanListResponse_total = total, BanListResponse_bans = bans\<rparr>)))))"

definition BanListResponse_wf :: "BanListResponse \<Rightarrow> bool" where
  "BanListResponse_wf m \<longleftrightarrow>
     length (BanListResponse_bans m) \<le> MAX_U32_LEN \<and> (\<forall>x\<in>set (BanListResponse_bans m). BanEntry_ok x)"

lemmas BanListResponse_defs = BanListResponse_encode_def BanListResponse_decode_def BanListResponse_wf_def run_reader_def

interpretation BanListResponse_msg: message_codec BanListResponse_encode BanListResponse_decode BanListResponse_wf
  by (rule message_codecI, simp add: BanListResponse_defs wire_reads wire_simps,
      (auto simp: BanListResponse_defs wire_iffs split: if_splits)[1],
      unfold BanListResponse_decode_def, (intro run_reader_no_panic safe_intros; simp))

section \<open>BanRemove\<close>

record BanRemove =
  BanRemove_username :: string

definition BanRemove_encode :: "BanRemove \<Rightarrow> bytes" where
  "BanRemove_encode m =
     put_str (BanRemove_username m)"

definition BanRemove_decode :: "bytes \<Rightarrow> (BanRemove, protocol_error) result" where
  "BanRemove_decode = run_reader (
     rbind (get_str ''BanRemove'') (\<lambda>username.
     rbind (expect_end ''BanRemove'') (\<lambda>_.
     rret \<lparr>BanRemove_username = username\<rparr>)))"

definition BanRemove_wf :: "BanRemove \<Rightarrow> bool" where
  "BanRemove_wf m \<longleftrightarrow>
     str_ok (BanRemove_username m)"

lemmas BanRemove_defs = BanRemove_encode_def BanRemove_decode_def BanRemove_wf_def run_reader_def

interpretation BanRemove_msg: message_codec BanRemove_encode BanRemove_decode BanRemove_wf
  by (rule message_codecI, simp add: BanRemove_defs wire_reads wire_simps,
      (auto simp: BanRemove_defs wire_iffs split: if_splits)[1],
      unfold BanRemove_decode_def, (intro run_reader_no_panic safe_intros; simp))

section \<open>ServerSettingsRequest\<close>

definition ServerSettingsRequest_encode :: "unit \<Rightarrow> bytes" where
  "ServerSettingsRequest_encode m = []"

definition ServerSettingsRequest_decode :: "bytes \<Rightarrow> (unit, protocol_error) result" where
  "ServerSettingsRequest_decode = run_reader (rbind (expect_end ''ServerSettingsRequest'') (\<lambda>_. rret ()))"

lemmas ServerSettingsRequest_defs = ServerSettingsRequest_encode_def ServerSettingsRequest_decode_def run_reader_def

interpretation ServerSettingsRequest_msg: message_codec ServerSettingsRequest_encode ServerSettingsRequest_decode "\<lambda>_. True"
  by unfold_locales (auto simp: ServerSettingsRequest_defs expect_end_def)

section \<open>ServerSettingsResponse\<close>

record ServerSettingsResponse =
  ServerSettingsResponse_name :: string
  ServerSettingsResponse_description :: string
  ServerSettingsResponse_greeting :: string
  ServerSettingsResponse_max_users :: u32
  ServerSettingsResponse_port :: u16
  ServerSettingsResponse_max_upload_bytes_per_sec :: u64
  ServerSettingsResponse_max_download_bytes_per_sec :: u64

definition ServerSettingsResponse_encode :: "ServerSettingsResponse \<Rightarrow> bytes" where
  "ServerSettingsResponse_encode m =
     put_str (ServerSettingsResponse_name m) @
     put_str (ServerSettingsResponse_description m) @
     put_str (ServerSettingsResponse_greeting m) @
     put_u32 (ServerSettingsResponse_max_users m) @
     put_u16 (ServerSettingsResponse_port m) @
     put_u64 (ServerSettingsResponse_max_upload_bytes_per_sec m) @
     put_u64 (ServerSettingsResponse_max_download_bytes_per_sec m)"

definition ServerSettingsResponse_decode :: "bytes \<Rightarrow> (ServerSettingsResponse, protocol_error) result" where
  "ServerSettingsResponse_decode = run_reader (
     rbind (get_str ''ServerSettingsResponse'') (\<lambda>name.
     rbind (get_str ''ServerSettingsResponse'') (\<lambda>description.
     rbind (get_str ''ServerSettingsResponse'') (\<lambda>greeting.
     rbind (need 22 ''ServerSettingsResponse'') (\<lambda>_.
     rbind get_u32 (\<lambda>max_users.
     rbind get_u16 (\<lambda>port.
     rbind get_u64 (\<lambda>max_upload_bytes_per_sec.
     rbind get_u64 (\<lambda>max_download_bytes_per_sec.
     rbind (expect_end ''ServerSettingsResponse'') (\<lambda>_.
     rret \<lparr>ServerSettingsResponse_name = name,
             ServerSettingsResponse_description = description,
             ServerSettingsResponse_greeting = greeting,
             ServerSettingsResponse_max_users = max_users, ServerSettingsResponse_port = port,
             ServerSettingsResponse_max_upload_bytes_per_sec = max_upload_bytes_per_sec,
             ServerSettingsResponse_max_download_bytes_per_sec = max_download_bytes_per_sec\<rparr>))))))))))"

definition ServerSettingsResponse_wf :: "ServerSettingsResponse \<Rightarrow> bool" where
  "ServerSettingsResponse_wf m \<longleftrightarrow>
     str_ok (ServerSettingsResponse_name m) \<and>
     str_ok (ServerSettingsResponse_description m) \<and>
     str_ok (ServerSettingsResponse_greeting m)"

lemmas ServerSettingsResponse_defs = ServerSettingsResponse_encode_def ServerSettingsResponse_decode_def ServerSettingsResponse_wf_def run_reader_def

interpretation ServerSettingsResponse_msg: message_codec ServerSettingsResponse_encode ServerSettingsResponse_decode ServerSettingsResponse_wf
  by (rule message_codecI, simp add: ServerSettingsResponse_defs wire_reads wire_simps,
      (auto simp: ServerSettingsResponse_defs wire_iffs split: if_splits)[1],
      unfold ServerSettingsResponse_decode_def, (intro run_reader_no_panic safe_intros; simp))

section \<open>ServerSettingsUpdate\<close>

record ServerSettingsUpdate =
  ServerSettingsUpdate_name :: string
  ServerSettingsUpdate_description :: string
  ServerSettingsUpdate_greeting :: string
  ServerSettingsUpdate_max_users :: u32

definition ServerSettingsUpdate_encode :: "ServerSettingsUpdate \<Rightarrow> bytes" where
  "ServerSettingsUpdate_encode m =
     put_str (ServerSettingsUpdate_name m) @ put_str (ServerSettingsUpdate_description m) @
     put_str (ServerSettingsUpdate_greeting m) @ put_u32 (ServerSettingsUpdate_max_users m)"

definition ServerSettingsUpdate_decode :: "bytes \<Rightarrow> (ServerSettingsUpdate, protocol_error) result" where
  "ServerSettingsUpdate_decode = run_reader (
     rbind (get_str ''ServerSettingsUpdate'') (\<lambda>name.
     rbind (get_str ''ServerSettingsUpdate'') (\<lambda>description.
     rbind (get_str ''ServerSettingsUpdate'') (\<lambda>greeting.
     rbind (need 4 ''ServerSettingsUpdate'') (\<lambda>_.
     rbind get_u32 (\<lambda>max_users.
     rbind (expect_end ''ServerSettingsUpdate'') (\<lambda>_.
     rret \<lparr>ServerSettingsUpdate_name = name,
             ServerSettingsUpdate_description = description,
             ServerSettingsUpdate_greeting = greeting,
             ServerSettingsUpdate_max_users = max_users\<rparr>)))))))"

definition ServerSettingsUpdate_wf :: "ServerSettingsUpdate \<Rightarrow> bool" where
  "ServerSettingsUpdate_wf m \<longleftrightarrow>
     str_ok (ServerSettingsUpdate_name m) \<and>
     str_ok (ServerSettingsUpdate_description m) \<and>
     str_ok (ServerSettingsUpdate_greeting m)"

lemmas ServerSettingsUpdate_defs = ServerSettingsUpdate_encode_def ServerSettingsUpdate_decode_def ServerSettingsUpdate_wf_def run_reader_def

interpretation ServerSettingsUpdate_msg: message_codec ServerSettingsUpdate_encode ServerSettingsUpdate_decode ServerSettingsUpdate_wf
  by (rule message_codecI, simp add: ServerSettingsUpdate_defs wire_reads wire_simps,
      (auto simp: ServerSettingsUpdate_defs wire_iffs split: if_splits)[1],
      unfold ServerSettingsUpdate_decode_def, (intro run_reader_no_panic safe_intros; simp))

section \<open>AdminBroadcast\<close>

record AdminBroadcast =
  AdminBroadcast_text :: string

definition AdminBroadcast_encode :: "AdminBroadcast \<Rightarrow> bytes" where
  "AdminBroadcast_encode m =
     put_str (AdminBroadcast_text m)"

definition AdminBroadcast_decode :: "bytes \<Rightarrow> (AdminBroadcast, protocol_error) result" where
  "AdminBroadcast_decode = run_reader (
     rbind (get_str ''AdminBroadcast'') (\<lambda>text.
     rbind (expect_end ''AdminBroadcast'') (\<lambda>_.
     rret \<lparr>AdminBroadcast_text = text\<rparr>)))"

definition AdminBroadcast_wf :: "AdminBroadcast \<Rightarrow> bool" where
  "AdminBroadcast_wf m \<longleftrightarrow>
     str_ok (AdminBroadcast_text m)"

lemmas AdminBroadcast_defs = AdminBroadcast_encode_def AdminBroadcast_decode_def AdminBroadcast_wf_def run_reader_def

interpretation AdminBroadcast_msg: message_codec AdminBroadcast_encode AdminBroadcast_decode AdminBroadcast_wf
  by (rule message_codecI, simp add: AdminBroadcast_defs wire_reads wire_simps,
      (auto simp: AdminBroadcast_defs wire_iffs split: if_splits)[1],
      unfold AdminBroadcast_decode_def, (intro run_reader_no_panic safe_intros; simp))

section \<open>AdminShutdown\<close>

record AdminShutdown =
  AdminShutdown_message :: string

definition AdminShutdown_encode :: "AdminShutdown \<Rightarrow> bytes" where
  "AdminShutdown_encode m =
     put_str (AdminShutdown_message m)"

definition AdminShutdown_decode :: "bytes \<Rightarrow> (AdminShutdown, protocol_error) result" where
  "AdminShutdown_decode = run_reader (
     rbind (get_str ''AdminShutdown'') (\<lambda>message.
     rbind (expect_end ''AdminShutdown'') (\<lambda>_.
     rret \<lparr>AdminShutdown_message = message\<rparr>)))"

definition AdminShutdown_wf :: "AdminShutdown \<Rightarrow> bool" where
  "AdminShutdown_wf m \<longleftrightarrow>
     str_ok (AdminShutdown_message m)"

lemmas AdminShutdown_defs = AdminShutdown_encode_def AdminShutdown_decode_def AdminShutdown_wf_def run_reader_def

interpretation AdminShutdown_msg: message_codec AdminShutdown_encode AdminShutdown_decode AdminShutdown_wf
  by (rule message_codecI, simp add: AdminShutdown_defs wire_reads wire_simps,
      (auto simp: AdminShutdown_defs wire_iffs split: if_splits)[1],
      unfold AdminShutdown_decode_def, (intro run_reader_no_panic safe_intros; simp))

section \<open>HistoryListRequest\<close>

record HistoryListRequest =
  HistoryListRequest_limit :: u32

definition HistoryListRequest_encode :: "HistoryListRequest \<Rightarrow> bytes" where
  "HistoryListRequest_encode m =
     put_u32 (HistoryListRequest_limit m)"

definition HistoryListRequest_decode :: "bytes \<Rightarrow> (HistoryListRequest, protocol_error) result" where
  "HistoryListRequest_decode = run_reader (
     rbind (need 4 ''HistoryListRequest'') (\<lambda>_.
     rbind get_u32 (\<lambda>limit.
     rbind (expect_end ''HistoryListRequest'') (\<lambda>_.
     rret \<lparr>HistoryListRequest_limit = limit\<rparr>))))"

definition HistoryListRequest_wf :: "HistoryListRequest \<Rightarrow> bool" where
  "HistoryListRequest_wf m \<longleftrightarrow>
     True"

lemmas HistoryListRequest_defs = HistoryListRequest_encode_def HistoryListRequest_decode_def HistoryListRequest_wf_def run_reader_def

interpretation HistoryListRequest_msg: message_codec HistoryListRequest_encode HistoryListRequest_decode HistoryListRequest_wf
  by (rule message_codecI, simp add: HistoryListRequest_defs wire_reads wire_simps,
      (auto simp: HistoryListRequest_defs wire_iffs split: if_splits)[1],
      unfold HistoryListRequest_decode_def, (intro run_reader_no_panic safe_intros; simp))

section \<open>HistoryEntry\<close>

record HistoryEntry =
  HistoryEntry_timestamp :: u64
  HistoryEntry_actor :: string
  HistoryEntry_action :: string
  HistoryEntry_detail :: string

definition HistoryEntry_put :: "HistoryEntry \<Rightarrow> bytes" where
  "HistoryEntry_put m =
     put_u64 (HistoryEntry_timestamp m) @ put_str (HistoryEntry_actor m) @
     put_str (HistoryEntry_action m) @ put_str (HistoryEntry_detail m)"

definition HistoryEntry_get :: "HistoryEntry reader" where
  "HistoryEntry_get =
     rbind (need 8 ''HistoryListResponse'') (\<lambda>_.
     rbind get_u64 (\<lambda>timestamp.
     rbind (get_str ''HistoryListResponse'') (\<lambda>actor.
     rbind (get_str ''HistoryListResponse'') (\<lambda>action.
     rbind (get_str ''HistoryListResponse'') (\<lambda>detail.
     rret \<lparr>HistoryEntry_timestamp = timestamp, HistoryEntry_actor = actor,
             HistoryEntry_action = action, HistoryEntry_detail = detail\<rparr>)))))"

definition HistoryEntry_ok :: "HistoryEntry \<Rightarrow> bool" where
  "HistoryEntry_ok m \<longleftrightarrow>
     str_ok (HistoryEntry_actor m) \<and> str_ok (HistoryEntry_action m) \<and>
     str_ok (HistoryEntry_detail m)"

lemmas HistoryEntry_defs = HistoryEntry_put_def HistoryEntry_get_def HistoryEntry_ok_def

interpretation HistoryEntry_field: field_codec HistoryEntry_put HistoryEntry_get HistoryEntry_ok
  by (rule field_codecI, simp add: HistoryEntry_defs wire_reads wire_simps,
      (auto simp: HistoryEntry_defs wire_iffs split: if_splits)[1],
      unfold HistoryEntry_get_def, (intro safe_intros; simp))

lemmas [wire_iffs] = HistoryEntry_field.field_iffs
lemmas [wire_reads] = HistoryEntry_field.reads
lemmas [safe_intros] = HistoryEntry_field.safes

section \<open>HistoryListResponse\<close>

record HistoryListResponse =
  HistoryListResponse_entries :: "HistoryEntry list"

definition HistoryListResponse_encode :: "HistoryListResponse \<Rightarrow> bytes" where
  "HistoryListResponse_encode m =
     put_list32 HistoryEntry_put (HistoryListResponse_entries m)"

definition HistoryListResponse_decode :: "bytes \<Rightarrow> (HistoryListResponse, protocol_error) result" where
  "HistoryListResponse_decode = run_reader (
     rbind (need 4 ''HistoryListResponse'') (\<lambda>_.
     rbind (get_list32 HistoryEntry_get) (\<lambda>entries.
     rbind (expect_end ''HistoryListResponse'') (\<lambda>_.
     rret \<lparr>HistoryListResponse_entries = entries\<rparr>))))"

definition HistoryListResponse_wf :: "HistoryListResponse \<Rightarrow> bool" where
  "HistoryListResponse_wf m \<longleftrightarrow>
     length (HistoryListResponse_entries m) \<le> MAX_U32_LEN \<and> (\<forall>x\<in>set (HistoryListResponse_entries m). HistoryEntry_ok x)"

lemmas HistoryListResponse_defs = HistoryListResponse_encode_def HistoryListResponse_decode_def HistoryListResponse_wf_def run_reader_def

interpretation HistoryListResponse_msg: message_codec HistoryListResponse_encode HistoryListResponse_decode HistoryListResponse_wf
  by (rule message_codecI, simp add: HistoryListResponse_defs wire_reads wire_simps,
      (auto simp: HistoryListResponse_defs wire_iffs split: if_splits)[1],
      unfold HistoryListResponse_decode_def, (intro run_reader_no_panic safe_intros; simp))

section \<open>IpRuleListRequest\<close>

definition IpRuleListRequest_encode :: "unit \<Rightarrow> bytes" where
  "IpRuleListRequest_encode m = []"

definition IpRuleListRequest_decode :: "bytes \<Rightarrow> (unit, protocol_error) result" where
  "IpRuleListRequest_decode = run_reader (rbind (expect_end ''IpRuleListRequest'') (\<lambda>_. rret ()))"

lemmas IpRuleListRequest_defs = IpRuleListRequest_encode_def IpRuleListRequest_decode_def run_reader_def

interpretation IpRuleListRequest_msg: message_codec IpRuleListRequest_encode IpRuleListRequest_decode "\<lambda>_. True"
  by unfold_locales (auto simp: IpRuleListRequest_defs expect_end_def)

section \<open>IpRuleEntry\<close>

record IpRuleEntry =
  IpRuleEntry_id :: string
  IpRuleEntry_position :: i32
  IpRuleEntry_action :: string
  IpRuleEntry_cidr :: string
  IpRuleEntry_note :: string
  IpRuleEntry_created_by :: string
  IpRuleEntry_created_at :: u64

definition IpRuleEntry_put :: "IpRuleEntry \<Rightarrow> bytes" where
  "IpRuleEntry_put m =
     put_str (IpRuleEntry_id m) @ put_i32 (IpRuleEntry_position m) @
     put_str (IpRuleEntry_action m) @ put_str (IpRuleEntry_cidr m) @
     put_str (IpRuleEntry_note m) @ put_str (IpRuleEntry_created_by m) @
     put_u64 (IpRuleEntry_created_at m)"

definition IpRuleEntry_get :: "IpRuleEntry reader" where
  "IpRuleEntry_get =
     rbind (get_str ''IpRuleListResponse'') (\<lambda>id.
     rbind (need 4 ''IpRuleListResponse'') (\<lambda>_.
     rbind get_i32 (\<lambda>position.
     rbind (get_str ''IpRuleListResponse'') (\<lambda>action.
     rbind (get_str ''IpRuleListResponse'') (\<lambda>cidr.
     rbind (get_str ''IpRuleListResponse'') (\<lambda>note.
     rbind (get_str ''IpRuleListResponse'') (\<lambda>created_by.
     rbind (need 8 ''IpRuleListResponse'') (\<lambda>_.
     rbind get_u64 (\<lambda>created_at.
     rret \<lparr>IpRuleEntry_id = id, IpRuleEntry_position = position,
             IpRuleEntry_action = action, IpRuleEntry_cidr = cidr, IpRuleEntry_note = note,
             IpRuleEntry_created_by = created_by, IpRuleEntry_created_at = created_at\<rparr>)))))))))"

definition IpRuleEntry_ok :: "IpRuleEntry \<Rightarrow> bool" where
  "IpRuleEntry_ok m \<longleftrightarrow>
     str_ok (IpRuleEntry_id m) \<and> str_ok (IpRuleEntry_action m) \<and>
     str_ok (IpRuleEntry_cidr m) \<and> str_ok (IpRuleEntry_note m) \<and>
     str_ok (IpRuleEntry_created_by m)"

lemmas IpRuleEntry_defs = IpRuleEntry_put_def IpRuleEntry_get_def IpRuleEntry_ok_def

interpretation IpRuleEntry_field: field_codec IpRuleEntry_put IpRuleEntry_get IpRuleEntry_ok
  by (rule field_codecI, simp add: IpRuleEntry_defs wire_reads wire_simps,
      (auto simp: IpRuleEntry_defs wire_iffs split: if_splits)[1],
      unfold IpRuleEntry_get_def, (intro safe_intros; simp))

lemmas [wire_iffs] = IpRuleEntry_field.field_iffs
lemmas [wire_reads] = IpRuleEntry_field.reads
lemmas [safe_intros] = IpRuleEntry_field.safes

section \<open>IpRuleListResponse\<close>

record IpRuleListResponse =
  IpRuleListResponse_rules :: "IpRuleEntry list"

definition IpRuleListResponse_encode :: "IpRuleListResponse \<Rightarrow> bytes" where
  "IpRuleListResponse_encode m =
     put_list32 IpRuleEntry_put (IpRuleListResponse_rules m)"

definition IpRuleListResponse_decode :: "bytes \<Rightarrow> (IpRuleListResponse, protocol_error) result" where
  "IpRuleListResponse_decode = run_reader (
     rbind (need 4 ''IpRuleListResponse'') (\<lambda>_.
     rbind (get_list32 IpRuleEntry_get) (\<lambda>rules.
     rbind (expect_end ''IpRuleListResponse'') (\<lambda>_.
     rret \<lparr>IpRuleListResponse_rules = rules\<rparr>))))"

definition IpRuleListResponse_wf :: "IpRuleListResponse \<Rightarrow> bool" where
  "IpRuleListResponse_wf m \<longleftrightarrow>
     length (IpRuleListResponse_rules m) \<le> MAX_U32_LEN \<and> (\<forall>x\<in>set (IpRuleListResponse_rules m). IpRuleEntry_ok x)"

lemmas IpRuleListResponse_defs = IpRuleListResponse_encode_def IpRuleListResponse_decode_def IpRuleListResponse_wf_def run_reader_def

interpretation IpRuleListResponse_msg: message_codec IpRuleListResponse_encode IpRuleListResponse_decode IpRuleListResponse_wf
  by (rule message_codecI, simp add: IpRuleListResponse_defs wire_reads wire_simps,
      (auto simp: IpRuleListResponse_defs wire_iffs split: if_splits)[1],
      unfold IpRuleListResponse_decode_def, (intro run_reader_no_panic safe_intros; simp))

section \<open>IpRuleCreate\<close>

record IpRuleCreate =
  IpRuleCreate_position :: i32
  IpRuleCreate_action :: string
  IpRuleCreate_cidr :: string
  IpRuleCreate_note :: string

definition IpRuleCreate_encode :: "IpRuleCreate \<Rightarrow> bytes" where
  "IpRuleCreate_encode m =
     put_i32 (IpRuleCreate_position m) @ put_str (IpRuleCreate_action m) @
     put_str (IpRuleCreate_cidr m) @ put_str (IpRuleCreate_note m)"

definition IpRuleCreate_decode :: "bytes \<Rightarrow> (IpRuleCreate, protocol_error) result" where
  "IpRuleCreate_decode = run_reader (
     rbind (need 4 ''IpRuleCreate'') (\<lambda>_.
     rbind get_i32 (\<lambda>position.
     rbind (get_str ''IpRuleCreate'') (\<lambda>action.
     rbind (get_str ''IpRuleCreate'') (\<lambda>cidr.
     rbind (get_str ''IpRuleCreate'') (\<lambda>note.
     rbind (expect_end ''IpRuleCreate'') (\<lambda>_.
     rret \<lparr>IpRuleCreate_position = position, IpRuleCreate_action = action,
             IpRuleCreate_cidr = cidr, IpRuleCreate_note = note\<rparr>)))))))"

definition IpRuleCreate_wf :: "IpRuleCreate \<Rightarrow> bool" where
  "IpRuleCreate_wf m \<longleftrightarrow>
     str_ok (IpRuleCreate_action m) \<and> str_ok (IpRuleCreate_cidr m) \<and>
     str_ok (IpRuleCreate_note m)"

lemmas IpRuleCreate_defs = IpRuleCreate_encode_def IpRuleCreate_decode_def IpRuleCreate_wf_def run_reader_def

interpretation IpRuleCreate_msg: message_codec IpRuleCreate_encode IpRuleCreate_decode IpRuleCreate_wf
  by (rule message_codecI, simp add: IpRuleCreate_defs wire_reads wire_simps,
      (auto simp: IpRuleCreate_defs wire_iffs split: if_splits)[1],
      unfold IpRuleCreate_decode_def, (intro run_reader_no_panic safe_intros; simp))

section \<open>IpRuleDelete\<close>

record IpRuleDelete =
  IpRuleDelete_id :: string

definition IpRuleDelete_encode :: "IpRuleDelete \<Rightarrow> bytes" where
  "IpRuleDelete_encode m =
     put_str (IpRuleDelete_id m)"

definition IpRuleDelete_decode :: "bytes \<Rightarrow> (IpRuleDelete, protocol_error) result" where
  "IpRuleDelete_decode = run_reader (
     rbind (get_str ''IpRuleDelete'') (\<lambda>id.
     rbind (expect_end ''IpRuleDelete'') (\<lambda>_.
     rret \<lparr>IpRuleDelete_id = id\<rparr>)))"

definition IpRuleDelete_wf :: "IpRuleDelete \<Rightarrow> bool" where
  "IpRuleDelete_wf m \<longleftrightarrow>
     str_ok (IpRuleDelete_id m)"

lemmas IpRuleDelete_defs = IpRuleDelete_encode_def IpRuleDelete_decode_def IpRuleDelete_wf_def run_reader_def

interpretation IpRuleDelete_msg: message_codec IpRuleDelete_encode IpRuleDelete_decode IpRuleDelete_wf
  by (rule message_codecI, simp add: IpRuleDelete_defs wire_reads wire_simps,
      (auto simp: IpRuleDelete_defs wire_iffs split: if_splits)[1],
      unfold IpRuleDelete_decode_def, (intro run_reader_no_panic safe_intros; simp))

section \<open>ConnectionListRequest\<close>

definition ConnectionListRequest_encode :: "unit \<Rightarrow> bytes" where
  "ConnectionListRequest_encode m = []"

definition ConnectionListRequest_decode :: "bytes \<Rightarrow> (unit, protocol_error) result" where
  "ConnectionListRequest_decode = run_reader (rbind (expect_end ''ConnectionListRequest'') (\<lambda>_. rret ()))"

lemmas ConnectionListRequest_defs = ConnectionListRequest_encode_def ConnectionListRequest_decode_def run_reader_def

interpretation ConnectionListRequest_msg: message_codec ConnectionListRequest_encode ConnectionListRequest_decode "\<lambda>_. True"
  by unfold_locales (auto simp: ConnectionListRequest_defs expect_end_def)

section \<open>Connection\<close>

definition Connection_put :: "PresenceEntry \<Rightarrow> bytes" where
  "Connection_put m =
     put_str (PresenceEntry_username m) @ put_u8 (PresenceEntry_class m) @
     put_u64 (PresenceEntry_login_at m) @ put_u32 (PresenceEntry_idle_secs m) @
     put_str (PresenceEntry_address m) @ put_str (PresenceEntry_name m) @
     put_str (PresenceEntry_description m)"

definition Connection_get :: "PresenceEntry reader" where
  "Connection_get =
     rbind (get_str ''ConnectionListResponse'') (\<lambda>username.
     rbind (need 13 ''ConnectionListResponse'') (\<lambda>_.
     rbind get_u8 (\<lambda>class.
     rbind get_u64 (\<lambda>login_at.
     rbind get_u32 (\<lambda>idle_secs.
     rbind (get_str ''ConnectionListResponse'') (\<lambda>address.
     rbind (get_str ''ConnectionListResponse'') (\<lambda>name.
     rbind (get_str ''ConnectionListResponse'') (\<lambda>description.
     rret \<lparr>PresenceEntry_username = username, PresenceEntry_class = class,
             PresenceEntry_login_at = login_at, PresenceEntry_idle_secs = idle_secs,
             PresenceEntry_address = address, PresenceEntry_name = name,
             PresenceEntry_description = description\<rparr>))))))))"

lemmas Connection_defs = Connection_put_def Connection_get_def PresenceEntry_ok_def

interpretation Connection_field: field_codec Connection_put Connection_get PresenceEntry_ok
  by (rule field_codecI, simp add: Connection_defs wire_reads wire_simps,
      (auto simp: Connection_defs wire_iffs split: if_splits)[1],
      unfold Connection_get_def, (intro safe_intros; simp))

lemmas [wire_iffs] = Connection_field.field_iffs
lemmas [wire_reads] = Connection_field.reads
lemmas [safe_intros] = Connection_field.safes

section \<open>ConnectionListResponse\<close>

record ConnectionListResponse =
  ConnectionListResponse_connections :: "PresenceEntry list"

definition ConnectionListResponse_encode :: "ConnectionListResponse \<Rightarrow> bytes" where
  "ConnectionListResponse_encode m =
     put_list16 Connection_put (ConnectionListResponse_connections m)"

definition ConnectionListResponse_decode :: "bytes \<Rightarrow> (ConnectionListResponse, protocol_error) result" where
  "ConnectionListResponse_decode = run_reader (
     rbind (need 2 ''ConnectionListResponse'') (\<lambda>_.
     rbind (get_list16 Connection_get) (\<lambda>connections.
     rbind (expect_end ''ConnectionListResponse'') (\<lambda>_.
     rret \<lparr>ConnectionListResponse_connections = connections\<rparr>))))"

definition ConnectionListResponse_wf :: "ConnectionListResponse \<Rightarrow> bool" where
  "ConnectionListResponse_wf m \<longleftrightarrow>
     length (ConnectionListResponse_connections m) \<le> MAX_U16_LEN \<and> (\<forall>x\<in>set (ConnectionListResponse_connections m). PresenceEntry_ok x)"

lemmas ConnectionListResponse_defs = ConnectionListResponse_encode_def ConnectionListResponse_decode_def ConnectionListResponse_wf_def run_reader_def

interpretation ConnectionListResponse_msg: message_codec ConnectionListResponse_encode ConnectionListResponse_decode ConnectionListResponse_wf
  by (rule message_codecI, simp add: ConnectionListResponse_defs wire_reads wire_simps,
      (auto simp: ConnectionListResponse_defs wire_iffs split: if_splits)[1],
      unfold ConnectionListResponse_decode_def, (intro run_reader_no_panic safe_intros; simp))

end
