(* ===== verification/Msg_File.thy ===== *)
theory Msg_File
  imports Wire
begin

text \<open>
  The file-tree and transfer payloads.
\<close>

section \<open>FileListRequest\<close>

record FileListRequest =
  FileListRequest_path :: string

definition FileListRequest_encode :: "FileListRequest \<Rightarrow> bytes" where
  "FileListRequest_encode m =
     put_str (FileListRequest_path m)"

definition FileListRequest_decode :: "bytes \<Rightarrow> (FileListRequest, protocol_error) result" where
  "FileListRequest_decode = run_reader (
     rbind (get_str ''FileListRequest'') (\<lambda>path.
     rbind (expect_end ''FileListRequest'') (\<lambda>_.
     rret \<lparr>FileListRequest_path = path\<rparr>)))"

definition FileListRequest_wf :: "FileListRequest \<Rightarrow> bool" where
  "FileListRequest_wf m \<longleftrightarrow>
     str_ok (FileListRequest_path m)"

lemmas FileListRequest_defs = FileListRequest_encode_def FileListRequest_decode_def FileListRequest_wf_def run_reader_def

interpretation FileListRequest_msg: message_codec FileListRequest_encode FileListRequest_decode FileListRequest_wf
  by (rule message_codecI, simp add: FileListRequest_defs wire_reads wire_simps,
      (auto simp: FileListRequest_defs wire_iffs split: if_splits)[1],
      unfold FileListRequest_decode_def, (intro run_reader_no_panic safe_intros; simp))

section \<open>FileEntry\<close>

record FileEntry =
  FileEntry_name :: string
  FileEntry_kind :: u8
  FileEntry_size :: u64

definition FileEntry_put :: "FileEntry \<Rightarrow> bytes" where
  "FileEntry_put m =
     put_str (FileEntry_name m) @ put_u8 (FileEntry_kind m) @ put_u64 (FileEntry_size m)"

definition FileEntry_get :: "FileEntry reader" where
  "FileEntry_get =
     rbind (get_str ''FileListResponse'') (\<lambda>name.
     rbind (need 9 ''FileListResponse'') (\<lambda>_.
     rbind get_u8 (\<lambda>kind.
     rbind get_u64 (\<lambda>size.
     rret \<lparr>FileEntry_name = name, FileEntry_kind = kind, FileEntry_size = size\<rparr>))))"

definition FileEntry_ok :: "FileEntry \<Rightarrow> bool" where
  "FileEntry_ok m \<longleftrightarrow>
     str_ok (FileEntry_name m)"

lemmas FileEntry_defs = FileEntry_put_def FileEntry_get_def FileEntry_ok_def

interpretation FileEntry_field: field_codec FileEntry_put FileEntry_get FileEntry_ok
  by (rule field_codecI, simp add: FileEntry_defs wire_reads wire_simps,
      (auto simp: FileEntry_defs wire_iffs split: if_splits)[1],
      unfold FileEntry_get_def, (intro safe_intros; simp))

lemmas [wire_iffs] = FileEntry_field.field_iffs
lemmas [wire_reads] = FileEntry_field.reads
lemmas [safe_intros] = FileEntry_field.safes

section \<open>FileListResponse\<close>

record FileListResponse =
  FileListResponse_path :: string
  FileListResponse_entries :: "FileEntry list"

definition FileListResponse_encode :: "FileListResponse \<Rightarrow> bytes" where
  "FileListResponse_encode m =
     put_str (FileListResponse_path m) @
     put_list16 FileEntry_put (FileListResponse_entries m)"

definition FileListResponse_decode :: "bytes \<Rightarrow> (FileListResponse, protocol_error) result" where
  "FileListResponse_decode = run_reader (
     rbind (get_str ''FileListResponse'') (\<lambda>path.
     rbind (need 2 ''FileListResponse'') (\<lambda>_.
     rbind (get_list16 FileEntry_get) (\<lambda>entries.
     rbind (expect_end ''FileListResponse'') (\<lambda>_.
     rret \<lparr>FileListResponse_path = path, FileListResponse_entries = entries\<rparr>)))))"

definition FileListResponse_wf :: "FileListResponse \<Rightarrow> bool" where
  "FileListResponse_wf m \<longleftrightarrow>
     str_ok (FileListResponse_path m) \<and>
     length (FileListResponse_entries m) \<le> MAX_U16_LEN \<and> (\<forall>x\<in>set (FileListResponse_entries m). FileEntry_ok x)"

lemmas FileListResponse_defs = FileListResponse_encode_def FileListResponse_decode_def FileListResponse_wf_def run_reader_def

interpretation FileListResponse_msg: message_codec FileListResponse_encode FileListResponse_decode FileListResponse_wf
  by (rule message_codecI, simp add: FileListResponse_defs wire_reads wire_simps,
      (auto simp: FileListResponse_defs wire_iffs split: if_splits)[1],
      unfold FileListResponse_decode_def, (intro run_reader_no_panic safe_intros; simp))

section \<open>FileCreateFolder\<close>

record FileCreateFolder =
  FileCreateFolder_path :: string
  FileCreateFolder_name :: string
  FileCreateFolder_kind :: u8
  FileCreateFolder_min_read_class :: u8
  FileCreateFolder_min_write_class :: u8
  FileCreateFolder_owner :: "string option"

definition FileCreateFolder_encode :: "FileCreateFolder \<Rightarrow> bytes" where
  "FileCreateFolder_encode m =
     put_str (FileCreateFolder_path m) @ put_str (FileCreateFolder_name m) @
     put_u8 (FileCreateFolder_kind m) @ put_u8 (FileCreateFolder_min_read_class m) @
     put_u8 (FileCreateFolder_min_write_class m) @
     put_option put_str (FileCreateFolder_owner m)"

definition FileCreateFolder_decode :: "bytes \<Rightarrow> (FileCreateFolder, protocol_error) result" where
  "FileCreateFolder_decode = run_reader (
     rbind (get_str ''FileCreateFolder'') (\<lambda>path.
     rbind (get_str ''FileCreateFolder'') (\<lambda>name.
     rbind (need 3 ''FileCreateFolder'') (\<lambda>_.
     rbind get_u8 (\<lambda>kind.
     rbind get_u8 (\<lambda>min_read_class.
     rbind get_u8 (\<lambda>min_write_class.
     rbind (get_option ''FileCreateFolder'' (get_str ''FileCreateFolder'')) (\<lambda>owner.
     rbind (expect_end ''FileCreateFolder'') (\<lambda>_.
     rret \<lparr>FileCreateFolder_path = path, FileCreateFolder_name = name,
             FileCreateFolder_kind = kind, FileCreateFolder_min_read_class = min_read_class,
             FileCreateFolder_min_write_class = min_write_class,
             FileCreateFolder_owner = owner\<rparr>)))))))))"

definition FileCreateFolder_wf :: "FileCreateFolder \<Rightarrow> bool" where
  "FileCreateFolder_wf m \<longleftrightarrow>
     str_ok (FileCreateFolder_path m) \<and> str_ok (FileCreateFolder_name m) \<and>
     (case (FileCreateFolder_owner m) of Some x \<Rightarrow> str_ok x | None \<Rightarrow> True)"

lemmas FileCreateFolder_defs = FileCreateFolder_encode_def FileCreateFolder_decode_def FileCreateFolder_wf_def run_reader_def

interpretation FileCreateFolder_msg: message_codec FileCreateFolder_encode FileCreateFolder_decode FileCreateFolder_wf
  by (rule message_codecI, simp add: FileCreateFolder_defs wire_reads wire_simps,
      (auto simp: FileCreateFolder_defs wire_iffs split: if_splits)[1],
      unfold FileCreateFolder_decode_def, (intro run_reader_no_panic safe_intros; simp))

section \<open>FileInfoRequest\<close>

record FileInfoRequest =
  FileInfoRequest_path :: string

definition FileInfoRequest_encode :: "FileInfoRequest \<Rightarrow> bytes" where
  "FileInfoRequest_encode m =
     put_str (FileInfoRequest_path m)"

definition FileInfoRequest_decode :: "bytes \<Rightarrow> (FileInfoRequest, protocol_error) result" where
  "FileInfoRequest_decode = run_reader (
     rbind (get_str ''FileInfoRequest'') (\<lambda>path.
     rbind (expect_end ''FileInfoRequest'') (\<lambda>_.
     rret \<lparr>FileInfoRequest_path = path\<rparr>)))"

definition FileInfoRequest_wf :: "FileInfoRequest \<Rightarrow> bool" where
  "FileInfoRequest_wf m \<longleftrightarrow>
     str_ok (FileInfoRequest_path m)"

lemmas FileInfoRequest_defs = FileInfoRequest_encode_def FileInfoRequest_decode_def FileInfoRequest_wf_def run_reader_def

interpretation FileInfoRequest_msg: message_codec FileInfoRequest_encode FileInfoRequest_decode FileInfoRequest_wf
  by (rule message_codecI, simp add: FileInfoRequest_defs wire_reads wire_simps,
      (auto simp: FileInfoRequest_defs wire_iffs split: if_splits)[1],
      unfold FileInfoRequest_decode_def, (intro run_reader_no_panic safe_intros; simp))

section \<open>FileInfoResponse\<close>

record FileInfoResponse =
  FileInfoResponse_name :: string
  FileInfoResponse_kind :: u8
  FileInfoResponse_size :: u64
  FileInfoResponse_sha256 :: "bytes option"
  FileInfoResponse_min_read_class :: u8
  FileInfoResponse_min_write_class :: u8
  FileInfoResponse_owner :: "string option"

definition FileInfoResponse_encode :: "FileInfoResponse \<Rightarrow> bytes" where
  "FileInfoResponse_encode m =
     put_str (FileInfoResponse_name m) @ put_u8 (FileInfoResponse_kind m) @
     put_u64 (FileInfoResponse_size m) @
     put_option (\<lambda>x. x) (FileInfoResponse_sha256 m) @
     put_u8 (FileInfoResponse_min_read_class m) @
     put_u8 (FileInfoResponse_min_write_class m) @
     put_option put_str (FileInfoResponse_owner m)"

definition FileInfoResponse_decode :: "bytes \<Rightarrow> (FileInfoResponse, protocol_error) result" where
  "FileInfoResponse_decode = run_reader (
     rbind (get_str ''FileInfoResponse'') (\<lambda>name.
     rbind (need 9 ''FileInfoResponse'') (\<lambda>_.
     rbind get_u8 (\<lambda>kind.
     rbind get_u64 (\<lambda>size.
     rbind (get_option ''FileInfoResponse'' (get_digest ''FileInfoResponse'')) (\<lambda>sha256.
     rbind (need 2 ''FileInfoResponse'') (\<lambda>_.
     rbind get_u8 (\<lambda>min_read_class.
     rbind get_u8 (\<lambda>min_write_class.
     rbind (get_option ''FileInfoResponse'' (get_str ''FileInfoResponse'')) (\<lambda>owner.
     rbind (expect_end ''FileInfoResponse'') (\<lambda>_.
     rret \<lparr>FileInfoResponse_name = name, FileInfoResponse_kind = kind,
             FileInfoResponse_size = size, FileInfoResponse_sha256 = sha256,
             FileInfoResponse_min_read_class = min_read_class,
             FileInfoResponse_min_write_class = min_write_class,
             FileInfoResponse_owner = owner\<rparr>)))))))))))"

definition FileInfoResponse_wf :: "FileInfoResponse \<Rightarrow> bool" where
  "FileInfoResponse_wf m \<longleftrightarrow>
     str_ok (FileInfoResponse_name m) \<and>
     (case (FileInfoResponse_sha256 m) of Some x \<Rightarrow> array_ok 32 x | None \<Rightarrow> True) \<and>
     (case (FileInfoResponse_owner m) of Some x \<Rightarrow> str_ok x | None \<Rightarrow> True)"

lemmas FileInfoResponse_defs = FileInfoResponse_encode_def FileInfoResponse_decode_def FileInfoResponse_wf_def run_reader_def

interpretation FileInfoResponse_msg: message_codec FileInfoResponse_encode FileInfoResponse_decode FileInfoResponse_wf
  by (rule message_codecI, simp add: FileInfoResponse_defs wire_reads wire_simps,
      (auto simp: FileInfoResponse_defs wire_iffs split: if_splits)[1],
      unfold FileInfoResponse_decode_def, (intro run_reader_no_panic safe_intros; simp))

section \<open>FileDelete\<close>

record FileDelete =
  FileDelete_path :: string

definition FileDelete_encode :: "FileDelete \<Rightarrow> bytes" where
  "FileDelete_encode m =
     put_str (FileDelete_path m)"

definition FileDelete_decode :: "bytes \<Rightarrow> (FileDelete, protocol_error) result" where
  "FileDelete_decode = run_reader (
     rbind (get_str ''FileDelete'') (\<lambda>path.
     rbind (expect_end ''FileDelete'') (\<lambda>_.
     rret \<lparr>FileDelete_path = path\<rparr>)))"

definition FileDelete_wf :: "FileDelete \<Rightarrow> bool" where
  "FileDelete_wf m \<longleftrightarrow>
     str_ok (FileDelete_path m)"

lemmas FileDelete_defs = FileDelete_encode_def FileDelete_decode_def FileDelete_wf_def run_reader_def

interpretation FileDelete_msg: message_codec FileDelete_encode FileDelete_decode FileDelete_wf
  by (rule message_codecI, simp add: FileDelete_defs wire_reads wire_simps,
      (auto simp: FileDelete_defs wire_iffs split: if_splits)[1],
      unfold FileDelete_decode_def, (intro run_reader_no_panic safe_intros; simp))

section \<open>FileMove\<close>

record FileMove =
  FileMove_path :: string
  FileMove_dest_path :: string

definition FileMove_encode :: "FileMove \<Rightarrow> bytes" where
  "FileMove_encode m =
     put_str (FileMove_path m) @ put_str (FileMove_dest_path m)"

definition FileMove_decode :: "bytes \<Rightarrow> (FileMove, protocol_error) result" where
  "FileMove_decode = run_reader (
     rbind (get_str ''FileMove'') (\<lambda>path.
     rbind (get_str ''FileMove'') (\<lambda>dest_path.
     rbind (expect_end ''FileMove'') (\<lambda>_.
     rret \<lparr>FileMove_path = path, FileMove_dest_path = dest_path\<rparr>))))"

definition FileMove_wf :: "FileMove \<Rightarrow> bool" where
  "FileMove_wf m \<longleftrightarrow>
     str_ok (FileMove_path m) \<and> str_ok (FileMove_dest_path m)"

lemmas FileMove_defs = FileMove_encode_def FileMove_decode_def FileMove_wf_def run_reader_def

interpretation FileMove_msg: message_codec FileMove_encode FileMove_decode FileMove_wf
  by (rule message_codecI, simp add: FileMove_defs wire_reads wire_simps,
      (auto simp: FileMove_defs wire_iffs split: if_splits)[1],
      unfold FileMove_decode_def, (intro run_reader_no_panic safe_intros; simp))

section \<open>FileAlias\<close>

record FileAlias =
  FileAlias_source_path :: string
  FileAlias_dest_path :: string

definition FileAlias_encode :: "FileAlias \<Rightarrow> bytes" where
  "FileAlias_encode m =
     put_str (FileAlias_source_path m) @ put_str (FileAlias_dest_path m)"

definition FileAlias_decode :: "bytes \<Rightarrow> (FileAlias, protocol_error) result" where
  "FileAlias_decode = run_reader (
     rbind (get_str ''FileAlias'') (\<lambda>source_path.
     rbind (get_str ''FileAlias'') (\<lambda>dest_path.
     rbind (expect_end ''FileAlias'') (\<lambda>_.
     rret \<lparr>FileAlias_source_path = source_path, FileAlias_dest_path = dest_path\<rparr>))))"

definition FileAlias_wf :: "FileAlias \<Rightarrow> bool" where
  "FileAlias_wf m \<longleftrightarrow>
     str_ok (FileAlias_source_path m) \<and> str_ok (FileAlias_dest_path m)"

lemmas FileAlias_defs = FileAlias_encode_def FileAlias_decode_def FileAlias_wf_def run_reader_def

interpretation FileAlias_msg: message_codec FileAlias_encode FileAlias_decode FileAlias_wf
  by (rule message_codecI, simp add: FileAlias_defs wire_reads wire_simps,
      (auto simp: FileAlias_defs wire_iffs split: if_splits)[1],
      unfold FileAlias_decode_def, (intro run_reader_no_panic safe_intros; simp))

section \<open>FileGenerateCatalog\<close>

definition FileGenerateCatalog_encode :: "unit \<Rightarrow> bytes" where
  "FileGenerateCatalog_encode m = []"

definition FileGenerateCatalog_decode :: "bytes \<Rightarrow> (unit, protocol_error) result" where
  "FileGenerateCatalog_decode = run_reader (rbind (expect_end ''FileGenerateCatalog'') (\<lambda>_. rret ()))"

lemmas FileGenerateCatalog_defs = FileGenerateCatalog_encode_def FileGenerateCatalog_decode_def run_reader_def

interpretation FileGenerateCatalog_msg: message_codec FileGenerateCatalog_encode FileGenerateCatalog_decode "\<lambda>_. True"
  by unfold_locales (auto simp: FileGenerateCatalog_defs expect_end_def)

section \<open>FileCatalogGenerated\<close>

record FileCatalogGenerated =
  FileCatalogGenerated_count :: u32

definition FileCatalogGenerated_encode :: "FileCatalogGenerated \<Rightarrow> bytes" where
  "FileCatalogGenerated_encode m =
     put_u32 (FileCatalogGenerated_count m)"

definition FileCatalogGenerated_decode :: "bytes \<Rightarrow> (FileCatalogGenerated, protocol_error) result" where
  "FileCatalogGenerated_decode = run_reader (
     rbind (need 4 ''FileCatalogGenerated'') (\<lambda>_.
     rbind get_u32 (\<lambda>count.
     rbind (expect_end ''FileCatalogGenerated'') (\<lambda>_.
     rret \<lparr>FileCatalogGenerated_count = count\<rparr>))))"

definition FileCatalogGenerated_wf :: "FileCatalogGenerated \<Rightarrow> bool" where
  "FileCatalogGenerated_wf m \<longleftrightarrow>
     True"

lemmas FileCatalogGenerated_defs = FileCatalogGenerated_encode_def FileCatalogGenerated_decode_def FileCatalogGenerated_wf_def run_reader_def

interpretation FileCatalogGenerated_msg: message_codec FileCatalogGenerated_encode FileCatalogGenerated_decode FileCatalogGenerated_wf
  by (rule message_codecI, simp add: FileCatalogGenerated_defs wire_reads wire_simps,
      (auto simp: FileCatalogGenerated_defs wire_iffs split: if_splits)[1],
      unfold FileCatalogGenerated_decode_def, (intro run_reader_no_panic safe_intros; simp))

section \<open>FileSearchRequest\<close>

record FileSearchRequest =
  FileSearchRequest_query :: string

definition FileSearchRequest_encode :: "FileSearchRequest \<Rightarrow> bytes" where
  "FileSearchRequest_encode m =
     put_str (FileSearchRequest_query m)"

definition FileSearchRequest_decode :: "bytes \<Rightarrow> (FileSearchRequest, protocol_error) result" where
  "FileSearchRequest_decode = run_reader (
     rbind (get_str ''FileSearchRequest'') (\<lambda>query.
     rbind (expect_end ''FileSearchRequest'') (\<lambda>_.
     rret \<lparr>FileSearchRequest_query = query\<rparr>)))"

definition FileSearchRequest_wf :: "FileSearchRequest \<Rightarrow> bool" where
  "FileSearchRequest_wf m \<longleftrightarrow>
     str_ok (FileSearchRequest_query m)"

lemmas FileSearchRequest_defs = FileSearchRequest_encode_def FileSearchRequest_decode_def FileSearchRequest_wf_def run_reader_def

interpretation FileSearchRequest_msg: message_codec FileSearchRequest_encode FileSearchRequest_decode FileSearchRequest_wf
  by (rule message_codecI, simp add: FileSearchRequest_defs wire_reads wire_simps,
      (auto simp: FileSearchRequest_defs wire_iffs split: if_splits)[1],
      unfold FileSearchRequest_decode_def, (intro run_reader_no_panic safe_intros; simp))

section \<open>FileSearchEntry\<close>

record FileSearchEntry =
  FileSearchEntry_path :: string
  FileSearchEntry_name :: string
  FileSearchEntry_kind :: u8
  FileSearchEntry_size :: u64

definition FileSearchEntry_put :: "FileSearchEntry \<Rightarrow> bytes" where
  "FileSearchEntry_put m =
     put_str (FileSearchEntry_path m) @ put_str (FileSearchEntry_name m) @
     put_u8 (FileSearchEntry_kind m) @ put_u64 (FileSearchEntry_size m)"

definition FileSearchEntry_get :: "FileSearchEntry reader" where
  "FileSearchEntry_get =
     rbind (get_str ''FileSearchResponse'') (\<lambda>path.
     rbind (get_str ''FileSearchResponse'') (\<lambda>name.
     rbind (need 9 ''FileSearchResponse'') (\<lambda>_.
     rbind get_u8 (\<lambda>kind.
     rbind get_u64 (\<lambda>size.
     rret \<lparr>FileSearchEntry_path = path, FileSearchEntry_name = name,
             FileSearchEntry_kind = kind, FileSearchEntry_size = size\<rparr>)))))"

definition FileSearchEntry_ok :: "FileSearchEntry \<Rightarrow> bool" where
  "FileSearchEntry_ok m \<longleftrightarrow>
     str_ok (FileSearchEntry_path m) \<and> str_ok (FileSearchEntry_name m)"

lemmas FileSearchEntry_defs = FileSearchEntry_put_def FileSearchEntry_get_def FileSearchEntry_ok_def

interpretation FileSearchEntry_field: field_codec FileSearchEntry_put FileSearchEntry_get FileSearchEntry_ok
  by (rule field_codecI, simp add: FileSearchEntry_defs wire_reads wire_simps,
      (auto simp: FileSearchEntry_defs wire_iffs split: if_splits)[1],
      unfold FileSearchEntry_get_def, (intro safe_intros; simp))

lemmas [wire_iffs] = FileSearchEntry_field.field_iffs
lemmas [wire_reads] = FileSearchEntry_field.reads
lemmas [safe_intros] = FileSearchEntry_field.safes

section \<open>FileSearchResponse\<close>

record FileSearchResponse =
  FileSearchResponse_entries :: "FileSearchEntry list"

definition FileSearchResponse_encode :: "FileSearchResponse \<Rightarrow> bytes" where
  "FileSearchResponse_encode m =
     put_list32 FileSearchEntry_put (FileSearchResponse_entries m)"

definition FileSearchResponse_decode :: "bytes \<Rightarrow> (FileSearchResponse, protocol_error) result" where
  "FileSearchResponse_decode = run_reader (
     rbind (need 4 ''FileSearchResponse'') (\<lambda>_.
     rbind (get_list32 FileSearchEntry_get) (\<lambda>entries.
     rbind (expect_end ''FileSearchResponse'') (\<lambda>_.
     rret \<lparr>FileSearchResponse_entries = entries\<rparr>))))"

definition FileSearchResponse_wf :: "FileSearchResponse \<Rightarrow> bool" where
  "FileSearchResponse_wf m \<longleftrightarrow>
     length (FileSearchResponse_entries m) \<le> MAX_U32_LEN \<and> (\<forall>x\<in>set (FileSearchResponse_entries m). FileSearchEntry_ok x)"

lemmas FileSearchResponse_defs = FileSearchResponse_encode_def FileSearchResponse_decode_def FileSearchResponse_wf_def run_reader_def

interpretation FileSearchResponse_msg: message_codec FileSearchResponse_encode FileSearchResponse_decode FileSearchResponse_wf
  by (rule message_codecI, simp add: FileSearchResponse_defs wire_reads wire_simps,
      (auto simp: FileSearchResponse_defs wire_iffs split: if_splits)[1],
      unfold FileSearchResponse_decode_def, (intro run_reader_no_panic safe_intros; simp))

section \<open>TransferRequest\<close>

record TransferRequest =
  TransferRequest_direction :: u8
  TransferRequest_path :: string
  TransferRequest_name :: string
  TransferRequest_size :: u64
  TransferRequest_chunk_size :: u32
  TransferRequest_sha256 :: bytes
  TransferRequest_resume_id :: bytes
  TransferRequest_have_bitmap :: bytes

definition TransferRequest_encode :: "TransferRequest \<Rightarrow> bytes" where
  "TransferRequest_encode m =
     put_u8 (TransferRequest_direction m) @ put_str (TransferRequest_path m) @
     put_str (TransferRequest_name m) @ put_u64 (TransferRequest_size m) @
     put_u32 (TransferRequest_chunk_size m) @ (TransferRequest_sha256 m) @
     (TransferRequest_resume_id m) @ put_bytes16 (TransferRequest_have_bitmap m)"

definition TransferRequest_decode :: "bytes \<Rightarrow> (TransferRequest, protocol_error) result" where
  "TransferRequest_decode = run_reader (
     rbind (need 1 ''TransferRequest'') (\<lambda>_.
     rbind get_u8 (\<lambda>direction.
     if direction \<noteq> 0 \<and> direction \<noteq> 1 then rfail (MalformedPayload ''TransferRequest'') else
     rbind (get_str ''TransferRequest'') (\<lambda>path.
     rbind (get_str ''TransferRequest'') (\<lambda>name.
     rbind (need 60 ''TransferRequest'') (\<lambda>_.
     rbind get_u64 (\<lambda>size.
     rbind get_u32 (\<lambda>chunk_size.
     rbind (get_array 32) (\<lambda>sha256.
     rbind (get_array 16) (\<lambda>resume_id.
     rbind (get_bytes16 ''TransferRequest'') (\<lambda>have_bitmap.
     rbind (expect_end ''TransferRequest'') (\<lambda>_.
     rret \<lparr>TransferRequest_direction = direction, TransferRequest_path = path,
             TransferRequest_name = name, TransferRequest_size = size,
             TransferRequest_chunk_size = chunk_size, TransferRequest_sha256 = sha256,
             TransferRequest_resume_id = resume_id, TransferRequest_have_bitmap = have_bitmap\<rparr>))))))))))))"

definition TransferRequest_wf :: "TransferRequest \<Rightarrow> bool" where
  "TransferRequest_wf m \<longleftrightarrow>
     ((TransferRequest_direction m) = 0 \<or> (TransferRequest_direction m) = 1) \<and>
     str_ok (TransferRequest_path m) \<and> str_ok (TransferRequest_name m) \<and>
     array_ok 32 (TransferRequest_sha256 m) \<and>
     array_ok 16 (TransferRequest_resume_id m) \<and>
     blob_ok (TransferRequest_have_bitmap m)"

lemmas TransferRequest_defs = TransferRequest_encode_def TransferRequest_decode_def TransferRequest_wf_def run_reader_def

interpretation TransferRequest_msg: message_codec TransferRequest_encode TransferRequest_decode TransferRequest_wf
  by (rule message_codecI, simp add: TransferRequest_defs wire_reads wire_simps,
      (auto simp: TransferRequest_defs wire_iffs split: if_splits)[1],
      unfold TransferRequest_decode_def, (intro run_reader_no_panic safe_intros; simp))

section \<open>TransferAccept\<close>

record TransferAccept =
  TransferAccept_transfer_id :: bytes
  TransferAccept_chunk_size :: u32
  TransferAccept_total_chunks :: u32
  TransferAccept_size :: u64
  TransferAccept_sha256 :: bytes
  TransferAccept_have_bitmap :: bytes

definition TransferAccept_encode :: "TransferAccept \<Rightarrow> bytes" where
  "TransferAccept_encode m =
     (TransferAccept_transfer_id m) @ put_u32 (TransferAccept_chunk_size m) @
     put_u32 (TransferAccept_total_chunks m) @ put_u64 (TransferAccept_size m) @
     (TransferAccept_sha256 m) @ put_bytes16 (TransferAccept_have_bitmap m)"

definition TransferAccept_decode :: "bytes \<Rightarrow> (TransferAccept, protocol_error) result" where
  "TransferAccept_decode = run_reader (
     rbind (need 64 ''TransferAccept'') (\<lambda>_.
     rbind (get_array 16) (\<lambda>transfer_id.
     rbind get_u32 (\<lambda>chunk_size.
     rbind get_u32 (\<lambda>total_chunks.
     rbind get_u64 (\<lambda>size.
     rbind (get_array 32) (\<lambda>sha256.
     rbind (get_bytes16 ''TransferAccept'') (\<lambda>have_bitmap.
     rbind (expect_end ''TransferAccept'') (\<lambda>_.
     rret \<lparr>TransferAccept_transfer_id = transfer_id,
             TransferAccept_chunk_size = chunk_size,
             TransferAccept_total_chunks = total_chunks, TransferAccept_size = size,
             TransferAccept_sha256 = sha256, TransferAccept_have_bitmap = have_bitmap\<rparr>)))))))))"

definition TransferAccept_wf :: "TransferAccept \<Rightarrow> bool" where
  "TransferAccept_wf m \<longleftrightarrow>
     array_ok 16 (TransferAccept_transfer_id m) \<and>
     array_ok 32 (TransferAccept_sha256 m) \<and> blob_ok (TransferAccept_have_bitmap m)"

lemmas TransferAccept_defs = TransferAccept_encode_def TransferAccept_decode_def TransferAccept_wf_def run_reader_def

interpretation TransferAccept_msg: message_codec TransferAccept_encode TransferAccept_decode TransferAccept_wf
  by (rule message_codecI, simp add: TransferAccept_defs wire_reads wire_simps,
      (auto simp: TransferAccept_defs wire_iffs split: if_splits)[1],
      unfold TransferAccept_decode_def, (intro run_reader_no_panic safe_intros; simp))

section \<open>TransferData\<close>

record TransferData =
  TransferData_transfer_id :: bytes
  TransferData_chunk_index :: u32
  TransferData_chunk_hash :: bytes
  TransferData_data :: bytes

definition TransferData_encode :: "TransferData \<Rightarrow> bytes" where
  "TransferData_encode m =
     (TransferData_transfer_id m) @ put_u32 (TransferData_chunk_index m) @
     (TransferData_chunk_hash m) @ (TransferData_data m)"

definition TransferData_decode :: "bytes \<Rightarrow> (TransferData, protocol_error) result" where
  "TransferData_decode = run_reader (
     rbind (need 52 ''TransferData'') (\<lambda>_.
     rbind (get_array 16) (\<lambda>transfer_id.
     rbind get_u32 (\<lambda>chunk_index.
     rbind (get_array 32) (\<lambda>chunk_hash.
     rbind get_rest (\<lambda>data.
     rret \<lparr>TransferData_transfer_id = transfer_id,
             TransferData_chunk_index = chunk_index, TransferData_chunk_hash = chunk_hash,
             TransferData_data = data\<rparr>))))))"

definition TransferData_wf :: "TransferData \<Rightarrow> bool" where
  "TransferData_wf m \<longleftrightarrow>
     array_ok 16 (TransferData_transfer_id m) \<and> array_ok 32 (TransferData_chunk_hash m)"

lemmas TransferData_defs = TransferData_encode_def TransferData_decode_def TransferData_wf_def run_reader_def

interpretation TransferData_msg: message_codec TransferData_encode TransferData_decode TransferData_wf
  by (rule message_codecI, simp add: TransferData_defs wire_reads wire_simps,
      (auto simp: TransferData_defs wire_iffs split: if_splits)[1],
      unfold TransferData_decode_def, (intro run_reader_no_panic safe_intros; simp))

section \<open>TransferEnd\<close>

record TransferEnd =
  TransferEnd_transfer_id :: bytes
  TransferEnd_status :: u8
  TransferEnd_message :: string

definition TransferEnd_encode :: "TransferEnd \<Rightarrow> bytes" where
  "TransferEnd_encode m =
     (TransferEnd_transfer_id m) @ put_u8 (TransferEnd_status m) @
     put_str (TransferEnd_message m)"

definition TransferEnd_decode :: "bytes \<Rightarrow> (TransferEnd, protocol_error) result" where
  "TransferEnd_decode = run_reader (
     rbind (need 19 ''TransferEnd'') (\<lambda>_.
     rbind (get_array 16) (\<lambda>transfer_id.
     rbind get_u8 (\<lambda>status.
     rbind (get_str ''TransferEnd'') (\<lambda>message.
     rbind (expect_end ''TransferEnd'') (\<lambda>_.
     rret \<lparr>TransferEnd_transfer_id = transfer_id, TransferEnd_status = status,
             TransferEnd_message = message\<rparr>))))))"

definition TransferEnd_wf :: "TransferEnd \<Rightarrow> bool" where
  "TransferEnd_wf m \<longleftrightarrow>
     array_ok 16 (TransferEnd_transfer_id m) \<and> str_ok (TransferEnd_message m)"

lemmas TransferEnd_defs = TransferEnd_encode_def TransferEnd_decode_def TransferEnd_wf_def run_reader_def

interpretation TransferEnd_msg: message_codec TransferEnd_encode TransferEnd_decode TransferEnd_wf
  by (rule message_codecI, simp add: TransferEnd_defs wire_reads wire_simps,
      (auto simp: TransferEnd_defs wire_iffs split: if_splits)[1],
      unfold TransferEnd_decode_def, (intro run_reader_no_panic safe_intros; simp))

end
