(* ===== verification/Msg_Auth.thy ===== *)
theory Msg_Auth
  imports Msg_Account
begin

text \<open>
  The login and password-change payloads.
\<close>

section \<open>AuthRequest\<close>

record AuthRequest =
  AuthRequest_username :: string

definition AuthRequest_encode :: "AuthRequest \<Rightarrow> bytes" where
  "AuthRequest_encode m =
     put_str (AuthRequest_username m)"

definition AuthRequest_decode :: "bytes \<Rightarrow> (AuthRequest, protocol_error) result" where
  "AuthRequest_decode = run_reader (
     rbind (get_str ''AuthRequest'') (\<lambda>username.
     rbind (expect_end ''AuthRequest'') (\<lambda>_.
     rret \<lparr>AuthRequest_username = username\<rparr>)))"

definition AuthRequest_wf :: "AuthRequest \<Rightarrow> bool" where
  "AuthRequest_wf m \<longleftrightarrow>
     str_ok (AuthRequest_username m)"

lemmas AuthRequest_defs = AuthRequest_encode_def AuthRequest_decode_def AuthRequest_wf_def run_reader_def

interpretation AuthRequest_msg: message_codec AuthRequest_encode AuthRequest_decode AuthRequest_wf
  by (rule message_codecI, simp add: AuthRequest_defs wire_reads wire_simps,
      (auto simp: AuthRequest_defs wire_iffs split: if_splits)[1],
      unfold AuthRequest_decode_def, (intro run_reader_no_panic safe_intros; simp))

section \<open>AuthResponse\<close>

record AuthResponse =
  AuthResponse_response :: bytes

definition AuthResponse_encode :: "AuthResponse \<Rightarrow> bytes" where
  "AuthResponse_encode m =
     (AuthResponse_response m)"

definition AuthResponse_decode :: "bytes \<Rightarrow> (AuthResponse, protocol_error) result" where
  "AuthResponse_decode = run_reader (
     rbind (need_exactly 32 ''AuthResponse'') (\<lambda>_.
     rbind (get_array 32) (\<lambda>response.
     rret \<lparr>AuthResponse_response = response\<rparr>)))"

definition AuthResponse_wf :: "AuthResponse \<Rightarrow> bool" where
  "AuthResponse_wf m \<longleftrightarrow>
     array_ok 32 (AuthResponse_response m)"

lemmas AuthResponse_defs = AuthResponse_encode_def AuthResponse_decode_def AuthResponse_wf_def run_reader_def

interpretation AuthResponse_msg: message_codec AuthResponse_encode AuthResponse_decode AuthResponse_wf
  by (rule message_codecI, simp add: AuthResponse_defs wire_reads wire_simps,
      (auto simp: AuthResponse_defs wire_iffs array_ok_def split: if_splits)[1],
      unfold AuthResponse_decode_def, (intro run_reader_no_panic safe_intros; simp))

section \<open>PasswordChangeBegin\<close>

definition PasswordChangeBegin_encode :: "unit \<Rightarrow> bytes" where
  "PasswordChangeBegin_encode m = []"

definition PasswordChangeBegin_decode :: "bytes \<Rightarrow> (unit, protocol_error) result" where
  "PasswordChangeBegin_decode = run_reader (rbind (expect_end ''PasswordChangeBegin'') (\<lambda>_. rret ()))"

lemmas PasswordChangeBegin_defs = PasswordChangeBegin_encode_def PasswordChangeBegin_decode_def run_reader_def

interpretation PasswordChangeBegin_msg: message_codec PasswordChangeBegin_encode PasswordChangeBegin_decode "\<lambda>_. True"
  by unfold_locales (auto simp: PasswordChangeBegin_defs expect_end_def)

section \<open>PasswordChangeChallenge\<close>

record PasswordChangeChallenge =
  PasswordChangeChallenge_challenge :: bytes
  PasswordChangeChallenge_salt :: bytes
  PasswordChangeChallenge_m_cost :: u32
  PasswordChangeChallenge_t_cost :: u32
  PasswordChangeChallenge_p_cost :: u32

definition PasswordChangeChallenge_encode :: "PasswordChangeChallenge \<Rightarrow> bytes" where
  "PasswordChangeChallenge_encode m =
     (PasswordChangeChallenge_challenge m) @ put_u32 (PasswordChangeChallenge_m_cost m) @
     put_u32 (PasswordChangeChallenge_t_cost m) @
     put_u32 (PasswordChangeChallenge_p_cost m) @
     put_bytes16 (PasswordChangeChallenge_salt m)"

definition PasswordChangeChallenge_decode :: "bytes \<Rightarrow> (PasswordChangeChallenge, protocol_error) result" where
  "PasswordChangeChallenge_decode = run_reader (
     rbind (need 44 ''PasswordChangeChallenge'') (\<lambda>_.
     rbind (get_array 32) (\<lambda>challenge.
     rbind get_u32 (\<lambda>m_cost.
     rbind get_u32 (\<lambda>t_cost.
     rbind get_u32 (\<lambda>p_cost.
     rbind (get_bytes16 ''PasswordChangeChallenge'') (\<lambda>salt.
     rbind (expect_end ''PasswordChangeChallenge'') (\<lambda>_.
     rret \<lparr>PasswordChangeChallenge_challenge = challenge,
             PasswordChangeChallenge_salt = salt, PasswordChangeChallenge_m_cost = m_cost,
             PasswordChangeChallenge_t_cost = t_cost, PasswordChangeChallenge_p_cost = p_cost\<rparr>))))))))"

definition PasswordChangeChallenge_wf :: "PasswordChangeChallenge \<Rightarrow> bool" where
  "PasswordChangeChallenge_wf m \<longleftrightarrow>
     array_ok 32 (PasswordChangeChallenge_challenge m) \<and>
     blob_ok (PasswordChangeChallenge_salt m)"

lemmas PasswordChangeChallenge_defs = PasswordChangeChallenge_encode_def PasswordChangeChallenge_decode_def PasswordChangeChallenge_wf_def run_reader_def

interpretation PasswordChangeChallenge_msg: message_codec PasswordChangeChallenge_encode PasswordChangeChallenge_decode PasswordChangeChallenge_wf
  by (rule message_codecI, simp add: PasswordChangeChallenge_defs wire_reads wire_simps,
      (auto simp: PasswordChangeChallenge_defs wire_iffs split: if_splits)[1],
      unfold PasswordChangeChallenge_decode_def, (intro run_reader_no_panic safe_intros; simp))

section \<open>PasswordChangeProof\<close>

record PasswordChangeProof =
  PasswordChangeProof_proof :: bytes
  PasswordChangeProof_credential :: Credential

definition PasswordChangeProof_encode :: "PasswordChangeProof \<Rightarrow> bytes" where
  "PasswordChangeProof_encode m =
     (PasswordChangeProof_proof m) @ Credential_put (PasswordChangeProof_credential m)"

definition PasswordChangeProof_decode :: "bytes \<Rightarrow> (PasswordChangeProof, protocol_error) result" where
  "PasswordChangeProof_decode = run_reader (
     rbind (need 32 ''PasswordChangeProof'') (\<lambda>_.
     rbind (get_array 32) (\<lambda>proof.
     rbind (Credential_get ''PasswordChangeProof'') (\<lambda>credential.
     rbind (expect_end ''PasswordChangeProof'') (\<lambda>_.
     rret \<lparr>PasswordChangeProof_proof = proof,
             PasswordChangeProof_credential = credential\<rparr>)))))"

definition PasswordChangeProof_wf :: "PasswordChangeProof \<Rightarrow> bool" where
  "PasswordChangeProof_wf m \<longleftrightarrow>
     array_ok 32 (PasswordChangeProof_proof m) \<and>
     Credential_ok (PasswordChangeProof_credential m)"

lemmas PasswordChangeProof_defs = PasswordChangeProof_encode_def PasswordChangeProof_decode_def PasswordChangeProof_wf_def run_reader_def

interpretation PasswordChangeProof_msg: message_codec PasswordChangeProof_encode PasswordChangeProof_decode PasswordChangeProof_wf
  by (rule message_codecI, simp add: PasswordChangeProof_defs wire_reads wire_simps,
      (auto simp: PasswordChangeProof_defs wire_iffs split: if_splits)[1],
      unfold PasswordChangeProof_decode_def, (intro run_reader_no_panic safe_intros; simp))

section \<open>PasswordChangeResult\<close>

record PasswordChangeResult =
  PasswordChangeResult_success :: bool
  PasswordChangeResult_message :: string
  PasswordChangeResult_server_signature :: bytes

definition PasswordChangeResult_encode :: "PasswordChangeResult \<Rightarrow> bytes" where
  "PasswordChangeResult_encode m =
     put_bool (PasswordChangeResult_success m) @ put_str (PasswordChangeResult_message m) @
     (PasswordChangeResult_server_signature m)"

definition PasswordChangeResult_decode :: "bytes \<Rightarrow> (PasswordChangeResult, protocol_error) result" where
  "PasswordChangeResult_decode = run_reader (
     rbind (get_bool ''PasswordChangeResult'') (\<lambda>success.
     rbind (get_str ''PasswordChangeResult'') (\<lambda>message.
     rbind (need_exactly 32 ''PasswordChangeResult'') (\<lambda>_.
     rbind (get_array 32) (\<lambda>server_signature.
     rret \<lparr>PasswordChangeResult_success = success,
             PasswordChangeResult_message = message,
             PasswordChangeResult_server_signature = server_signature\<rparr>)))))"

definition PasswordChangeResult_wf :: "PasswordChangeResult \<Rightarrow> bool" where
  "PasswordChangeResult_wf m \<longleftrightarrow>
     str_ok (PasswordChangeResult_message m) \<and>
     array_ok 32 (PasswordChangeResult_server_signature m)"

lemmas PasswordChangeResult_defs = PasswordChangeResult_encode_def PasswordChangeResult_decode_def PasswordChangeResult_wf_def run_reader_def

interpretation PasswordChangeResult_msg: message_codec PasswordChangeResult_encode PasswordChangeResult_decode PasswordChangeResult_wf
  by (rule message_codecI, simp add: PasswordChangeResult_defs wire_reads wire_simps,
      (auto simp: PasswordChangeResult_defs wire_iffs array_ok_def split: if_splits)[1],
      unfold PasswordChangeResult_decode_def, (intro run_reader_no_panic safe_intros; simp))

section \<open>AuthChallenge\<close>

text \<open>The salt length is written with a plain \<open>as u16\<close> cast, not through \<open>put_bytes16\<close>.\<close>

record AuthChallenge =
  AuthChallenge_challenge :: bytes
  AuthChallenge_salt :: bytes
  AuthChallenge_m_cost :: u32
  AuthChallenge_t_cost :: u32
  AuthChallenge_p_cost :: u32

definition AuthChallenge_encode :: "AuthChallenge \<Rightarrow> bytes" where
  "AuthChallenge_encode m =
     AuthChallenge_challenge m @ put_u32 (AuthChallenge_m_cost m) @
     put_u32 (AuthChallenge_t_cost m) @ put_u32 (AuthChallenge_p_cost m) @
     put_u16 (of_nat (length (AuthChallenge_salt m))) @ AuthChallenge_salt m"

definition AuthChallenge_decode :: "bytes \<Rightarrow> (AuthChallenge, protocol_error) result" where
  "AuthChallenge_decode = run_reader (
     rbind (need (32 + 12 + 2) ''AuthChallenge'') (\<lambda>_.
     rbind (get_array 32) (\<lambda>challenge.
     rbind get_u32 (\<lambda>m_cost.
     rbind get_u32 (\<lambda>t_cost.
     rbind get_u32 (\<lambda>p_cost.
     rbind get_u16 (\<lambda>salt_len.
     rbind (need_exactly (unat salt_len) ''AuthChallenge'') (\<lambda>_.
     rbind (get_array (unat salt_len)) (\<lambda>salt.
     rret \<lparr>AuthChallenge_challenge = challenge, AuthChallenge_salt = salt,
        AuthChallenge_m_cost = m_cost, AuthChallenge_t_cost = t_cost,
        AuthChallenge_p_cost = p_cost\<rparr>)))))))))"

definition AuthChallenge_wf :: "AuthChallenge \<Rightarrow> bool" where
  "AuthChallenge_wf m \<longleftrightarrow> array_ok 32 (AuthChallenge_challenge m) \<and> blob_ok (AuthChallenge_salt m)"

lemmas AuthChallenge_defs =
  AuthChallenge_encode_def AuthChallenge_decode_def AuthChallenge_wf_def run_reader_def

lemma AuthChallenge_decode_encode:
  assumes "array_ok 32 (AuthChallenge_challenge m)"
  shows "AuthChallenge_decode (AuthChallenge_encode m) =
    (if blob_ok (AuthChallenge_salt m) then Ok m else Err (MalformedPayload ''AuthChallenge''))"
proof -
  obtain w :: u16 where w: "of_nat (length (AuthChallenge_salt m)) = w" by blast
  have iff: "unat w = length (AuthChallenge_salt m) \<longleftrightarrow> blob_ok (AuthChallenge_salt m)"
    using unat_u16_le [of w] unat_len16 w by (auto simp: blob_ok_def)
  have "AuthChallenge_decode (AuthChallenge_encode m) =
      (if length (AuthChallenge_salt m) = unat w then Ok m else Err (MalformedPayload ''AuthChallenge''))"
    using assms
    by (simp add: AuthChallenge_defs w wire_reads wire_simps)
      (simp add: need_exactly_def get_array_def)
  then show ?thesis
    using iff by auto
qed

interpretation AuthChallenge_msg: message_codec AuthChallenge_encode AuthChallenge_decode AuthChallenge_wf
proof (rule message_codecI)
  fix m assume "AuthChallenge_wf m"
  then show "AuthChallenge_decode (AuthChallenge_encode m) = Ok m"
    by (simp add: AuthChallenge_decode_encode AuthChallenge_wf_def)
next
  fix bs m assume "AuthChallenge_decode bs = Ok m"
  then show "AuthChallenge_wf m \<and> bs = AuthChallenge_encode m"
    using unat_u16_le
    by (auto simp: AuthChallenge_defs wire_iffs array_ok_def blob_ok_def)
next
  fix bs show "AuthChallenge_decode bs \<noteq> Panic"
    unfolding AuthChallenge_decode_def by (intro run_reader_no_panic safe_intros; simp)
qed

section \<open>AuthResult\<close>

record AuthResult =
  AuthResult_success :: bool
  AuthResult_session_id :: bytes
  AuthResult_class :: u8
  AuthResult_privileges :: u32
  AuthResult_message :: string
  AuthResult_server_signature :: bytes

definition AuthResult_encode :: "AuthResult \<Rightarrow> bytes" where
  "AuthResult_encode m =
     put_bool (AuthResult_success m) @ AuthResult_session_id m @
     put_u8 (AuthResult_class m) @ put_u32 (AuthResult_privileges m) @
     put_str (AuthResult_message m) @ AuthResult_server_signature m"

text \<open>Unlike every other flag of the protocol, \<open>success\<close> is read as \<open>get_u8() != 0\<close>.\<close>

definition AuthResult_decode :: "bytes \<Rightarrow> (AuthResult, protocol_error) result" where
  "AuthResult_decode = run_reader (
     rbind (need (1 + 16 + 1 + 4 + 2) ''AuthResult'') (\<lambda>_.
     rbind get_u8 (\<lambda>success.
     rbind (get_array 16) (\<lambda>session_id.
     rbind get_u8 (\<lambda>class.
     rbind get_u32 (\<lambda>privileges.
     rbind (get_str ''AuthResult'') (\<lambda>message.
     rbind (need_exactly 32 ''AuthResult'') (\<lambda>_.
     rbind (get_array 32) (\<lambda>server_signature.
     rret \<lparr>AuthResult_success = (success \<noteq> 0), AuthResult_session_id = session_id,
        AuthResult_class = class, AuthResult_privileges = privileges,
        AuthResult_message = message, AuthResult_server_signature = server_signature\<rparr>)))))))))"

definition AuthResult_wf :: "AuthResult \<Rightarrow> bool" where
  "AuthResult_wf m \<longleftrightarrow> array_ok 16 (AuthResult_session_id m) \<and> str_ok (AuthResult_message m) \<and>
     array_ok 32 (AuthResult_server_signature m)"

lemmas AuthResult_defs =
  AuthResult_encode_def AuthResult_decode_def AuthResult_wf_def run_reader_def

lemma AuthResult_decode_encode: "AuthResult_wf m \<Longrightarrow> AuthResult_decode (AuthResult_encode m) = Ok m"
  by (simp add: AuthResult_defs wire_reads wire_simps put_bool_def)

lemma AuthResult_decode_ok:
  "AuthResult_decode bs = Ok m \<Longrightarrow>
     AuthResult_wf m \<and> (\<exists>b. (b \<noteq> 0) = AuthResult_success m \<and> bs = put_u8 b @ tl (AuthResult_encode m))"
  by (auto simp: AuthResult_defs wire_iffs array_ok_def put_bool_def put_u8_def)

lemma AuthResult_decode_no_panic: "AuthResult_decode bs \<noteq> Panic"
  unfolding AuthResult_decode_def by (intro run_reader_no_panic safe_intros; simp)


end
