(* ===== verification/Payloads.thy ===== *)
theory Payloads
  imports Msg_Handshake Msg_Chat Msg_Private Msg_Tracker Msg_Account Msg_Roles Msg_News
    Msg_Presence Msg_Admin Msg_File Msg_Auth
begin

text \<open>
  The properties of the payload codecs of \<open>kdx-protocol/src/messages\<close>, one theorem
  per family of messages, each read off the \<open>message_codec\<close> interpretations.
\<close>

text \<open>Handshake, login, password-change and account payloads have one encoding each: a decoder accepts a byte string exactly when it is the encoding of a well-formed message, and then returns that message. (\<open>AuthResult\<close> is treated separately.)\<close>

lemma login_payloads_canonical:
  "(HandshakeInit_decode bs = Ok m1 \<longleftrightarrow> HandshakeInit_wf m1 \<and> bs = HandshakeInit_encode m1) \<and>
   (HandshakeResp_decode bs = Ok m2 \<longleftrightarrow> HandshakeResp_wf m2 \<and> bs = HandshakeResp_encode m2) \<and>
   (AuthRequest_decode bs = Ok m3 \<longleftrightarrow> AuthRequest_wf m3 \<and> bs = AuthRequest_encode m3) \<and>
   (AuthChallenge_decode bs = Ok m4 \<longleftrightarrow> AuthChallenge_wf m4 \<and> bs = AuthChallenge_encode m4) \<and>
   (AuthResponse_decode bs = Ok m5 \<longleftrightarrow> AuthResponse_wf m5 \<and> bs = AuthResponse_encode m5) \<and>
   (PasswordChangeBegin_decode bs = Ok () \<longleftrightarrow> bs = PasswordChangeBegin_encode ()) \<and>
   (PasswordChangeChallenge_decode bs = Ok m7 \<longleftrightarrow> PasswordChangeChallenge_wf m7 \<and> bs = PasswordChangeChallenge_encode m7) \<and>
   (PasswordChangeProof_decode bs = Ok m8 \<longleftrightarrow> PasswordChangeProof_wf m8 \<and> bs = PasswordChangeProof_encode m8) \<and>
   (PasswordChangeResult_decode bs = Ok m9 \<longleftrightarrow> PasswordChangeResult_wf m9 \<and> bs = PasswordChangeResult_encode m9) \<and>
   (AccountCreate_decode bs = Ok m10 \<longleftrightarrow> AccountCreate_wf m10 \<and> bs = AccountCreate_encode m10) \<and>
   (AccountSetPassword_decode bs = Ok m11 \<longleftrightarrow> AccountSetPassword_wf m11 \<and> bs = AccountSetPassword_encode m11) \<and>
   (AccountUpdate_decode bs = Ok m12 \<longleftrightarrow> AccountUpdate_wf m12 \<and> bs = AccountUpdate_encode m12) \<and>
   (AccountListRequest_decode bs = Ok () \<longleftrightarrow> bs = AccountListRequest_encode ()) \<and>
   (AccountListResponse_decode bs = Ok m14 \<longleftrightarrow> AccountListResponse_wf m14 \<and> bs = AccountListResponse_encode m14)"
  by (intro conjI; simp only: HandshakeInit_msg.dec_ok
      HandshakeResp_msg.dec_ok
      AuthRequest_msg.dec_ok
      AuthChallenge_msg.dec_ok
      AuthResponse_msg.dec_ok
      PasswordChangeBegin_msg.dec_ok
      PasswordChangeChallenge_msg.dec_ok
      PasswordChangeProof_msg.dec_ok
      PasswordChangeResult_msg.dec_ok
      AccountCreate_msg.dec_ok
      AccountSetPassword_msg.dec_ok
      AccountUpdate_msg.dec_ok
      AccountListRequest_msg.dec_ok
      AccountListResponse_msg.dec_ok simp_thms)

text \<open>The same for chat, private-message, presence and tracker payloads.\<close>

lemma chat_payloads_canonical:
  "(ChatSend_decode bs = Ok m1 \<longleftrightarrow> ChatSend_wf m1 \<and> bs = ChatSend_encode m1) \<and>
   (ChatEvent_decode bs = Ok m2 \<longleftrightarrow> ChatEvent_wf m2 \<and> bs = ChatEvent_encode m2) \<and>
   (ChatJoin_decode bs = Ok m3 \<longleftrightarrow> ChatJoin_wf m3 \<and> bs = ChatJoin_encode m3) \<and>
   (ChatLeave_decode bs = Ok m4 \<longleftrightarrow> ChatLeave_wf m4 \<and> bs = ChatLeave_encode m4) \<and>
   (ChatUserList_decode bs = Ok m5 \<longleftrightarrow> ChatUserList_wf m5 \<and> bs = ChatUserList_encode m5) \<and>
   (ChatTopic_decode bs = Ok m6 \<longleftrightarrow> ChatTopic_wf m6 \<and> bs = ChatTopic_encode m6) \<and>
   (ChatInvite_decode bs = Ok m7 \<longleftrightarrow> ChatInvite_wf m7 \<and> bs = ChatInvite_encode m7) \<and>
   (ChatInvited_decode bs = Ok m8 \<longleftrightarrow> ChatInvited_wf m8 \<and> bs = ChatInvited_encode m8) \<and>
   (ChatRoomFlags_decode bs = Ok m9 \<longleftrightarrow> ChatRoomFlags_wf m9 \<and> bs = ChatRoomFlags_encode m9) \<and>
   (PrivateSend_decode bs = Ok m10 \<longleftrightarrow> PrivateSend_wf m10 \<and> bs = PrivateSend_encode m10) \<and>
   (PrivateMessage_decode bs = Ok m11 \<longleftrightarrow> PrivateMessage_wf m11 \<and> bs = PrivateMessage_encode m11) \<and>
   (SetIdentity_decode bs = Ok m12 \<longleftrightarrow> SetIdentity_wf m12 \<and> bs = SetIdentity_encode m12) \<and>
   (PresenceListRequest_decode bs = Ok () \<longleftrightarrow> bs = PresenceListRequest_encode ()) \<and>
   (PresenceListResponse_decode bs = Ok m14 \<longleftrightarrow> PresenceListResponse_wf m14 \<and> bs = PresenceListResponse_encode m14) \<and>
   (PresenceChange_decode bs = Ok m15 \<longleftrightarrow> PresenceChange_wf m15 \<and> bs = PresenceChange_encode m15) \<and>
   (UserInfoRequest_decode bs = Ok m16 \<longleftrightarrow> UserInfoRequest_wf m16 \<and> bs = UserInfoRequest_encode m16) \<and>
   (UserInfoResponse_decode bs = Ok m17 \<longleftrightarrow> UserInfoResponse_wf m17 \<and> bs = UserInfoResponse_encode m17) \<and>
   (TrackerListRequest_decode bs = Ok m18 \<longleftrightarrow> TrackerListRequest_wf m18 \<and> bs = TrackerListRequest_encode m18) \<and>
   (TrackerListResponse_decode bs = Ok m19 \<longleftrightarrow> TrackerListResponse_wf m19 \<and> bs = TrackerListResponse_encode m19)"
  by (intro conjI; simp only: ChatSend_msg.dec_ok
      ChatEvent_msg.dec_ok
      ChatJoin_msg.dec_ok
      ChatLeave_msg.dec_ok
      ChatUserList_msg.dec_ok
      ChatTopic_msg.dec_ok
      ChatInvite_msg.dec_ok
      ChatInvited_msg.dec_ok
      ChatRoomFlags_msg.dec_ok
      PrivateSend_msg.dec_ok
      PrivateMessage_msg.dec_ok
      SetIdentity_msg.dec_ok
      PresenceListRequest_msg.dec_ok
      PresenceListResponse_msg.dec_ok
      PresenceChange_msg.dec_ok
      UserInfoRequest_msg.dec_ok
      UserInfoResponse_msg.dec_ok
      TrackerListRequest_msg.dec_ok
      TrackerListResponse_msg.dec_ok simp_thms)

text \<open>The same for the role, news and server-administration payloads.\<close>

lemma admin_payloads_canonical:
  "(RoleListRequest_decode bs = Ok () \<longleftrightarrow> bs = RoleListRequest_encode ()) \<and>
   (RoleListResponse_decode bs = Ok m2 \<longleftrightarrow> RoleListResponse_wf m2 \<and> bs = RoleListResponse_encode m2) \<and>
   (RoleCreate_decode bs = Ok m3 \<longleftrightarrow> RoleCreate_wf m3 \<and> bs = RoleCreate_encode m3) \<and>
   (RoleUpdate_decode bs = Ok m4 \<longleftrightarrow> RoleUpdate_wf m4 \<and> bs = RoleUpdate_encode m4) \<and>
   (RoleDelete_decode bs = Ok m5 \<longleftrightarrow> RoleDelete_wf m5 \<and> bs = RoleDelete_encode m5) \<and>
   (RoleAssign_decode bs = Ok m6 \<longleftrightarrow> RoleAssign_wf m6 \<and> bs = RoleAssign_encode m6) \<and>
   (RoleUnassign_decode bs = Ok m7 \<longleftrightarrow> RoleUnassign_wf m7 \<and> bs = RoleUnassign_encode m7) \<and>
   (AccountRolesRequest_decode bs = Ok m8 \<longleftrightarrow> AccountRolesRequest_wf m8 \<and> bs = AccountRolesRequest_encode m8) \<and>
   (AccountRolesResponse_decode bs = Ok m9 \<longleftrightarrow> AccountRolesResponse_wf m9 \<and> bs = AccountRolesResponse_encode m9) \<and>
   (NewsgroupListRequest_decode bs = Ok () \<longleftrightarrow> bs = NewsgroupListRequest_encode ()) \<and>
   (NewsgroupListResponse_decode bs = Ok m11 \<longleftrightarrow> NewsgroupListResponse_wf m11 \<and> bs = NewsgroupListResponse_encode m11) \<and>
   (NewsThreadListRequest_decode bs = Ok m12 \<longleftrightarrow> NewsThreadListRequest_wf m12 \<and> bs = NewsThreadListRequest_encode m12) \<and>
   (NewsThreadListResponse_decode bs = Ok m13 \<longleftrightarrow> NewsThreadListResponse_wf m13 \<and> bs = NewsThreadListResponse_encode m13) \<and>
   (NewsPostCreate_decode bs = Ok m14 \<longleftrightarrow> NewsPostCreate_wf m14 \<and> bs = NewsPostCreate_encode m14) \<and>
   (NewsPostDelete_decode bs = Ok m15 \<longleftrightarrow> NewsPostDelete_wf m15 \<and> bs = NewsPostDelete_encode m15) \<and>
   (NewsgroupCreate_decode bs = Ok m16 \<longleftrightarrow> NewsgroupCreate_wf m16 \<and> bs = NewsgroupCreate_encode m16) \<and>
   (NewsgroupUpdate_decode bs = Ok m17 \<longleftrightarrow> NewsgroupUpdate_wf m17 \<and> bs = NewsgroupUpdate_encode m17) \<and>
   (NewsgroupDelete_decode bs = Ok m18 \<longleftrightarrow> NewsgroupDelete_wf m18 \<and> bs = NewsgroupDelete_encode m18) \<and>
   (AdminDisconnect_decode bs = Ok m19 \<longleftrightarrow> AdminDisconnect_wf m19 \<and> bs = AdminDisconnect_encode m19) \<and>
   (BanListRequest_decode bs = Ok () \<longleftrightarrow> bs = BanListRequest_encode ()) \<and>
   (BanListResponse_decode bs = Ok m21 \<longleftrightarrow> BanListResponse_wf m21 \<and> bs = BanListResponse_encode m21) \<and>
   (BanRemove_decode bs = Ok m22 \<longleftrightarrow> BanRemove_wf m22 \<and> bs = BanRemove_encode m22) \<and>
   (ServerSettingsRequest_decode bs = Ok () \<longleftrightarrow> bs = ServerSettingsRequest_encode ()) \<and>
   (ServerSettingsResponse_decode bs = Ok m24 \<longleftrightarrow> ServerSettingsResponse_wf m24 \<and> bs = ServerSettingsResponse_encode m24) \<and>
   (ServerSettingsUpdate_decode bs = Ok m25 \<longleftrightarrow> ServerSettingsUpdate_wf m25 \<and> bs = ServerSettingsUpdate_encode m25) \<and>
   (AdminBroadcast_decode bs = Ok m26 \<longleftrightarrow> AdminBroadcast_wf m26 \<and> bs = AdminBroadcast_encode m26) \<and>
   (AdminShutdown_decode bs = Ok m27 \<longleftrightarrow> AdminShutdown_wf m27 \<and> bs = AdminShutdown_encode m27) \<and>
   (HistoryListRequest_decode bs = Ok m28 \<longleftrightarrow> HistoryListRequest_wf m28 \<and> bs = HistoryListRequest_encode m28) \<and>
   (HistoryListResponse_decode bs = Ok m29 \<longleftrightarrow> HistoryListResponse_wf m29 \<and> bs = HistoryListResponse_encode m29) \<and>
   (IpRuleListRequest_decode bs = Ok () \<longleftrightarrow> bs = IpRuleListRequest_encode ()) \<and>
   (IpRuleListResponse_decode bs = Ok m31 \<longleftrightarrow> IpRuleListResponse_wf m31 \<and> bs = IpRuleListResponse_encode m31) \<and>
   (IpRuleCreate_decode bs = Ok m32 \<longleftrightarrow> IpRuleCreate_wf m32 \<and> bs = IpRuleCreate_encode m32) \<and>
   (IpRuleDelete_decode bs = Ok m33 \<longleftrightarrow> IpRuleDelete_wf m33 \<and> bs = IpRuleDelete_encode m33) \<and>
   (ConnectionListRequest_decode bs = Ok () \<longleftrightarrow> bs = ConnectionListRequest_encode ()) \<and>
   (ConnectionListResponse_decode bs = Ok m35 \<longleftrightarrow> ConnectionListResponse_wf m35 \<and> bs = ConnectionListResponse_encode m35)"
  by (intro conjI; simp only: RoleListRequest_msg.dec_ok
      RoleListResponse_msg.dec_ok
      RoleCreate_msg.dec_ok
      RoleUpdate_msg.dec_ok
      RoleDelete_msg.dec_ok
      RoleAssign_msg.dec_ok
      RoleUnassign_msg.dec_ok
      AccountRolesRequest_msg.dec_ok
      AccountRolesResponse_msg.dec_ok
      NewsgroupListRequest_msg.dec_ok
      NewsgroupListResponse_msg.dec_ok
      NewsThreadListRequest_msg.dec_ok
      NewsThreadListResponse_msg.dec_ok
      NewsPostCreate_msg.dec_ok
      NewsPostDelete_msg.dec_ok
      NewsgroupCreate_msg.dec_ok
      NewsgroupUpdate_msg.dec_ok
      NewsgroupDelete_msg.dec_ok
      AdminDisconnect_msg.dec_ok
      BanListRequest_msg.dec_ok
      BanListResponse_msg.dec_ok
      BanRemove_msg.dec_ok
      ServerSettingsRequest_msg.dec_ok
      ServerSettingsResponse_msg.dec_ok
      ServerSettingsUpdate_msg.dec_ok
      AdminBroadcast_msg.dec_ok
      AdminShutdown_msg.dec_ok
      HistoryListRequest_msg.dec_ok
      HistoryListResponse_msg.dec_ok
      IpRuleListRequest_msg.dec_ok
      IpRuleListResponse_msg.dec_ok
      IpRuleCreate_msg.dec_ok
      IpRuleDelete_msg.dec_ok
      ConnectionListRequest_msg.dec_ok
      ConnectionListResponse_msg.dec_ok simp_thms)

text \<open>Property C6. The same for the file-tree and transfer payloads.\<close>

theorem file_payloads_canonical:
  "(FileListRequest_decode bs = Ok m1 \<longleftrightarrow> FileListRequest_wf m1 \<and> bs = FileListRequest_encode m1) \<and>
   (FileListResponse_decode bs = Ok m2 \<longleftrightarrow> FileListResponse_wf m2 \<and> bs = FileListResponse_encode m2) \<and>
   (FileCreateFolder_decode bs = Ok m3 \<longleftrightarrow> FileCreateFolder_wf m3 \<and> bs = FileCreateFolder_encode m3) \<and>
   (FileInfoRequest_decode bs = Ok m4 \<longleftrightarrow> FileInfoRequest_wf m4 \<and> bs = FileInfoRequest_encode m4) \<and>
   (FileInfoResponse_decode bs = Ok m5 \<longleftrightarrow> FileInfoResponse_wf m5 \<and> bs = FileInfoResponse_encode m5) \<and>
   (FileDelete_decode bs = Ok m6 \<longleftrightarrow> FileDelete_wf m6 \<and> bs = FileDelete_encode m6) \<and>
   (FileMove_decode bs = Ok m7 \<longleftrightarrow> FileMove_wf m7 \<and> bs = FileMove_encode m7) \<and>
   (FileAlias_decode bs = Ok m8 \<longleftrightarrow> FileAlias_wf m8 \<and> bs = FileAlias_encode m8) \<and>
   (FileGenerateCatalog_decode bs = Ok () \<longleftrightarrow> bs = FileGenerateCatalog_encode ()) \<and>
   (FileCatalogGenerated_decode bs = Ok m10 \<longleftrightarrow> FileCatalogGenerated_wf m10 \<and> bs = FileCatalogGenerated_encode m10) \<and>
   (FileSearchRequest_decode bs = Ok m11 \<longleftrightarrow> FileSearchRequest_wf m11 \<and> bs = FileSearchRequest_encode m11) \<and>
   (FileSearchResponse_decode bs = Ok m12 \<longleftrightarrow> FileSearchResponse_wf m12 \<and> bs = FileSearchResponse_encode m12) \<and>
   (TransferRequest_decode bs = Ok m13 \<longleftrightarrow> TransferRequest_wf m13 \<and> bs = TransferRequest_encode m13) \<and>
   (TransferAccept_decode bs = Ok m14 \<longleftrightarrow> TransferAccept_wf m14 \<and> bs = TransferAccept_encode m14) \<and>
   (TransferData_decode bs = Ok m15 \<longleftrightarrow> TransferData_wf m15 \<and> bs = TransferData_encode m15) \<and>
   (TransferEnd_decode bs = Ok m16 \<longleftrightarrow> TransferEnd_wf m16 \<and> bs = TransferEnd_encode m16)"
  by (intro conjI; simp only: FileListRequest_msg.dec_ok
      FileListResponse_msg.dec_ok
      FileCreateFolder_msg.dec_ok
      FileInfoRequest_msg.dec_ok
      FileInfoResponse_msg.dec_ok
      FileDelete_msg.dec_ok
      FileMove_msg.dec_ok
      FileAlias_msg.dec_ok
      FileGenerateCatalog_msg.dec_ok
      FileCatalogGenerated_msg.dec_ok
      FileSearchRequest_msg.dec_ok
      FileSearchResponse_msg.dec_ok
      TransferRequest_msg.dec_ok
      TransferAccept_msg.dec_ok
      TransferData_msg.dec_ok
      TransferEnd_msg.dec_ok simp_thms)

text \<open>Property C7. No payload, however malformed, makes a decoder panic: every \<open>Buf\<close> read
  is behind a length check.\<close>

theorem decoders_never_panic:
  "HandshakeInit_decode bs \<noteq> Panic \<and>
   HandshakeResp_decode bs \<noteq> Panic \<and>
   AuthRequest_decode bs \<noteq> Panic \<and>
   AuthChallenge_decode bs \<noteq> Panic \<and>
   AuthResponse_decode bs \<noteq> Panic \<and>
   PasswordChangeBegin_decode bs \<noteq> Panic \<and>
   PasswordChangeChallenge_decode bs \<noteq> Panic \<and>
   PasswordChangeProof_decode bs \<noteq> Panic \<and>
   PasswordChangeResult_decode bs \<noteq> Panic \<and>
   AccountCreate_decode bs \<noteq> Panic \<and>
   AccountSetPassword_decode bs \<noteq> Panic \<and>
   AccountUpdate_decode bs \<noteq> Panic \<and>
   AccountListRequest_decode bs \<noteq> Panic \<and>
   AccountListResponse_decode bs \<noteq> Panic \<and>
   ChatSend_decode bs \<noteq> Panic \<and>
   ChatEvent_decode bs \<noteq> Panic \<and>
   ChatJoin_decode bs \<noteq> Panic \<and>
   ChatLeave_decode bs \<noteq> Panic \<and>
   ChatUserList_decode bs \<noteq> Panic \<and>
   ChatTopic_decode bs \<noteq> Panic \<and>
   ChatInvite_decode bs \<noteq> Panic \<and>
   ChatInvited_decode bs \<noteq> Panic \<and>
   ChatRoomFlags_decode bs \<noteq> Panic \<and>
   PrivateSend_decode bs \<noteq> Panic \<and>
   PrivateMessage_decode bs \<noteq> Panic \<and>
   SetIdentity_decode bs \<noteq> Panic \<and>
   PresenceListRequest_decode bs \<noteq> Panic \<and>
   PresenceListResponse_decode bs \<noteq> Panic \<and>
   PresenceChange_decode bs \<noteq> Panic \<and>
   UserInfoRequest_decode bs \<noteq> Panic \<and>
   UserInfoResponse_decode bs \<noteq> Panic \<and>
   TrackerListRequest_decode bs \<noteq> Panic \<and>
   TrackerListResponse_decode bs \<noteq> Panic \<and>
   RoleListRequest_decode bs \<noteq> Panic \<and>
   RoleListResponse_decode bs \<noteq> Panic \<and>
   RoleCreate_decode bs \<noteq> Panic \<and>
   RoleUpdate_decode bs \<noteq> Panic \<and>
   RoleDelete_decode bs \<noteq> Panic \<and>
   RoleAssign_decode bs \<noteq> Panic \<and>
   RoleUnassign_decode bs \<noteq> Panic \<and>
   AccountRolesRequest_decode bs \<noteq> Panic \<and>
   AccountRolesResponse_decode bs \<noteq> Panic \<and>
   NewsgroupListRequest_decode bs \<noteq> Panic \<and>
   NewsgroupListResponse_decode bs \<noteq> Panic \<and>
   NewsThreadListRequest_decode bs \<noteq> Panic \<and>
   NewsThreadListResponse_decode bs \<noteq> Panic \<and>
   NewsPostCreate_decode bs \<noteq> Panic \<and>
   NewsPostDelete_decode bs \<noteq> Panic \<and>
   NewsgroupCreate_decode bs \<noteq> Panic \<and>
   NewsgroupUpdate_decode bs \<noteq> Panic \<and>
   NewsgroupDelete_decode bs \<noteq> Panic \<and>
   AdminDisconnect_decode bs \<noteq> Panic \<and>
   BanListRequest_decode bs \<noteq> Panic \<and>
   BanListResponse_decode bs \<noteq> Panic \<and>
   BanRemove_decode bs \<noteq> Panic \<and>
   ServerSettingsRequest_decode bs \<noteq> Panic \<and>
   ServerSettingsResponse_decode bs \<noteq> Panic \<and>
   ServerSettingsUpdate_decode bs \<noteq> Panic \<and>
   AdminBroadcast_decode bs \<noteq> Panic \<and>
   AdminShutdown_decode bs \<noteq> Panic \<and>
   HistoryListRequest_decode bs \<noteq> Panic \<and>
   HistoryListResponse_decode bs \<noteq> Panic \<and>
   IpRuleListRequest_decode bs \<noteq> Panic \<and>
   IpRuleListResponse_decode bs \<noteq> Panic \<and>
   IpRuleCreate_decode bs \<noteq> Panic \<and>
   IpRuleDelete_decode bs \<noteq> Panic \<and>
   ConnectionListRequest_decode bs \<noteq> Panic \<and>
   ConnectionListResponse_decode bs \<noteq> Panic \<and>
   FileListRequest_decode bs \<noteq> Panic \<and>
   FileListResponse_decode bs \<noteq> Panic \<and>
   FileCreateFolder_decode bs \<noteq> Panic \<and>
   FileInfoRequest_decode bs \<noteq> Panic \<and>
   FileInfoResponse_decode bs \<noteq> Panic \<and>
   FileDelete_decode bs \<noteq> Panic \<and>
   FileMove_decode bs \<noteq> Panic \<and>
   FileAlias_decode bs \<noteq> Panic \<and>
   FileGenerateCatalog_decode bs \<noteq> Panic \<and>
   FileCatalogGenerated_decode bs \<noteq> Panic \<and>
   FileSearchRequest_decode bs \<noteq> Panic \<and>
   FileSearchResponse_decode bs \<noteq> Panic \<and>
   TransferRequest_decode bs \<noteq> Panic \<and>
   TransferAccept_decode bs \<noteq> Panic \<and>
   TransferData_decode bs \<noteq> Panic \<and>
   TransferEnd_decode bs \<noteq> Panic \<and>
   AuthResult_decode bs \<noteq> Panic"
  by (intro conjI; rule HandshakeInit_msg.dec_no_panic
      HandshakeResp_msg.dec_no_panic
      AuthRequest_msg.dec_no_panic
      AuthChallenge_msg.dec_no_panic
      AuthResponse_msg.dec_no_panic
      PasswordChangeBegin_msg.dec_no_panic
      PasswordChangeChallenge_msg.dec_no_panic
      PasswordChangeProof_msg.dec_no_panic
      PasswordChangeResult_msg.dec_no_panic
      AccountCreate_msg.dec_no_panic
      AccountSetPassword_msg.dec_no_panic
      AccountUpdate_msg.dec_no_panic
      AccountListRequest_msg.dec_no_panic
      AccountListResponse_msg.dec_no_panic
      ChatSend_msg.dec_no_panic
      ChatEvent_msg.dec_no_panic
      ChatJoin_msg.dec_no_panic
      ChatLeave_msg.dec_no_panic
      ChatUserList_msg.dec_no_panic
      ChatTopic_msg.dec_no_panic
      ChatInvite_msg.dec_no_panic
      ChatInvited_msg.dec_no_panic
      ChatRoomFlags_msg.dec_no_panic
      PrivateSend_msg.dec_no_panic
      PrivateMessage_msg.dec_no_panic
      SetIdentity_msg.dec_no_panic
      PresenceListRequest_msg.dec_no_panic
      PresenceListResponse_msg.dec_no_panic
      PresenceChange_msg.dec_no_panic
      UserInfoRequest_msg.dec_no_panic
      UserInfoResponse_msg.dec_no_panic
      TrackerListRequest_msg.dec_no_panic
      TrackerListResponse_msg.dec_no_panic
      RoleListRequest_msg.dec_no_panic
      RoleListResponse_msg.dec_no_panic
      RoleCreate_msg.dec_no_panic
      RoleUpdate_msg.dec_no_panic
      RoleDelete_msg.dec_no_panic
      RoleAssign_msg.dec_no_panic
      RoleUnassign_msg.dec_no_panic
      AccountRolesRequest_msg.dec_no_panic
      AccountRolesResponse_msg.dec_no_panic
      NewsgroupListRequest_msg.dec_no_panic
      NewsgroupListResponse_msg.dec_no_panic
      NewsThreadListRequest_msg.dec_no_panic
      NewsThreadListResponse_msg.dec_no_panic
      NewsPostCreate_msg.dec_no_panic
      NewsPostDelete_msg.dec_no_panic
      NewsgroupCreate_msg.dec_no_panic
      NewsgroupUpdate_msg.dec_no_panic
      NewsgroupDelete_msg.dec_no_panic
      AdminDisconnect_msg.dec_no_panic
      BanListRequest_msg.dec_no_panic
      BanListResponse_msg.dec_no_panic
      BanRemove_msg.dec_no_panic
      ServerSettingsRequest_msg.dec_no_panic
      ServerSettingsResponse_msg.dec_no_panic
      ServerSettingsUpdate_msg.dec_no_panic
      AdminBroadcast_msg.dec_no_panic
      AdminShutdown_msg.dec_no_panic
      HistoryListRequest_msg.dec_no_panic
      HistoryListResponse_msg.dec_no_panic
      IpRuleListRequest_msg.dec_no_panic
      IpRuleListResponse_msg.dec_no_panic
      IpRuleCreate_msg.dec_no_panic
      IpRuleDelete_msg.dec_no_panic
      ConnectionListRequest_msg.dec_no_panic
      ConnectionListResponse_msg.dec_no_panic
      FileListRequest_msg.dec_no_panic
      FileListResponse_msg.dec_no_panic
      FileCreateFolder_msg.dec_no_panic
      FileInfoRequest_msg.dec_no_panic
      FileInfoResponse_msg.dec_no_panic
      FileDelete_msg.dec_no_panic
      FileMove_msg.dec_no_panic
      FileAlias_msg.dec_no_panic
      FileGenerateCatalog_msg.dec_no_panic
      FileCatalogGenerated_msg.dec_no_panic
      FileSearchRequest_msg.dec_no_panic
      FileSearchResponse_msg.dec_no_panic
      TransferRequest_msg.dec_no_panic
      TransferAccept_msg.dec_no_panic
      TransferData_msg.dec_no_panic
      TransferEnd_msg.dec_no_panic
      AuthResult_decode_no_panic)

text \<open>A server greeting a client with a salt longer than a 16-bit length can say
  sends an \<open>AuthChallenge\<close> the client rejects: the length is cast, not clamped, unlike every
  other length-prefixed field. Shorter salts round-trip.\<close>

lemma AuthChallenge_salt_length:
  "array_ok 32 (AuthChallenge_challenge m) \<Longrightarrow>
     AuthChallenge_decode (AuthChallenge_encode m) =
       (if length (AuthChallenge_salt m) \<le> MAX_U16_LEN then Ok m
        else Err (MalformedPayload ''AuthChallenge''))"
  by (simp add: AuthChallenge_decode_encode blob_ok_def)

text \<open>\<open>AuthResult\<close> round-trips, and a decoded result is its encoding up to the
  first byte, which any nonzero value may fill when the login succeeded.\<close>

lemma AuthResult_round_trip:
  "(AuthResult_wf m \<longrightarrow> AuthResult_decode (AuthResult_encode m) = Ok m) \<and>
   (AuthResult_decode bs = Ok n \<longrightarrow> AuthResult_wf n \<and>
      (\<exists>b. (b \<noteq> 0) = AuthResult_success n \<and> bs = put_u8 b @ tl (AuthResult_encode n)))"
  by (simp add: AuthResult_decode_encode AuthResult_decode_ok)

end
