(* ===== verification/Packet_Type.thy ===== *)
theory Packet_Type
  imports Wire
begin

text \<open>
  The packet types of \<open>kdx-protocol/src/packet_type.rs\<close>: the enumeration with its
  opcodes, the list \<open>ALL\<close>, the partial inverse \<open>TryFrom<u8>\<close>, and the per-type cap
  on a client request (\<open>limits.rs\<close>).
\<close>

datatype (plugins only:) PacketType =
    HandshakeInit
  | HandshakeResp
  | Ping
  | Pong
  | Disconnect
  | AuthRequest
  | AuthChallenge
  | AuthResponse
  | AuthResult
  | PasswordChangeBegin
  | PasswordChangeChallenge
  | PasswordChangeProof
  | PasswordChangeResult
  | FileListRequest
  | FileListResponse
  | FileTransferStart
  | FileTransferData
  | FileTransferEnd
  | FileCreateFolder
  | FileDelete
  | FileGenerateCatalog
  | FileCatalogGenerated
  | FileSearchRequest
  | FileSearchResponse
  | FileMove
  | FileAlias
  | FileInfoRequest
  | FileInfoResponse
  | ChatMessage
  | ChatJoin
  | ChatLeave
  | ChatUserList
  | ChatTopicSet
  | SetIdentity
  | PresenceListRequest
  | PresenceListResponse
  | PresenceChange
  | UserInfoRequest
  | UserInfoResponse
  | PrivateSend
  | PrivateMessage
  | AdminDisconnect
  | BanListRequest
  | BanListResponse
  | BanRemove
  | RoleListRequest
  | RoleListResponse
  | RoleCreate
  | RoleUpdate
  | RoleDelete
  | RoleAssign
  | RoleUnassign
  | AccountRolesRequest
  | AccountRolesResponse
  | AccountCreate
  | AccountUpdate
  | AccountListRequest
  | AccountListResponse
  | AccountSetPassword
  | NewsgroupListRequest
  | NewsgroupListResponse
  | NewsThreadListRequest
  | NewsThreadListResponse
  | NewsPostCreate
  | NewsPostDelete
  | NewsgroupCreate
  | NewsgroupUpdate
  | NewsgroupDelete
  | TrackerListRequest
  | TrackerListResponse
  | ServerSettingsRequest
  | ServerSettingsResponse
  | ServerSettingsUpdate
  | AdminBroadcast
  | AdminShutdown
  | ChatInvite
  | ChatInvited
  | HistoryListRequest
  | HistoryListResponse
  | IpRuleListRequest
  | IpRuleListResponse
  | IpRuleCreate
  | IpRuleDelete
  | ConnectionListRequest
  | ConnectionListResponse
  | ChatRoomFlags
  | Error
  | Warning
  | Info

text \<open>\<open>packet_type as u8\<close>: the discriminants of the enumeration.\<close>

primrec to_u8 :: "PacketType \<Rightarrow> u8" where
  "to_u8 HandshakeInit = 0x01"
| "to_u8 HandshakeResp = 0x02"
| "to_u8 Ping = 0x03"
| "to_u8 Pong = 0x04"
| "to_u8 Disconnect = 0x0F"
| "to_u8 AuthRequest = 0x10"
| "to_u8 AuthChallenge = 0x11"
| "to_u8 AuthResponse = 0x12"
| "to_u8 AuthResult = 0x13"
| "to_u8 PasswordChangeBegin = 0x14"
| "to_u8 PasswordChangeChallenge = 0x15"
| "to_u8 PasswordChangeProof = 0x16"
| "to_u8 PasswordChangeResult = 0x17"
| "to_u8 FileListRequest = 0x20"
| "to_u8 FileListResponse = 0x21"
| "to_u8 FileTransferStart = 0x22"
| "to_u8 FileTransferData = 0x23"
| "to_u8 FileTransferEnd = 0x24"
| "to_u8 FileCreateFolder = 0x25"
| "to_u8 FileDelete = 0x26"
| "to_u8 FileGenerateCatalog = 0x27"
| "to_u8 FileCatalogGenerated = 0x28"
| "to_u8 FileSearchRequest = 0x29"
| "to_u8 FileSearchResponse = 0x2A"
| "to_u8 FileMove = 0x2B"
| "to_u8 FileAlias = 0x2C"
| "to_u8 FileInfoRequest = 0x2D"
| "to_u8 FileInfoResponse = 0x2E"
| "to_u8 ChatMessage = 0x30"
| "to_u8 ChatJoin = 0x31"
| "to_u8 ChatLeave = 0x32"
| "to_u8 ChatUserList = 0x33"
| "to_u8 ChatTopicSet = 0x34"
| "to_u8 SetIdentity = 0x3A"
| "to_u8 PresenceListRequest = 0x35"
| "to_u8 PresenceListResponse = 0x36"
| "to_u8 PresenceChange = 0x37"
| "to_u8 UserInfoRequest = 0x38"
| "to_u8 UserInfoResponse = 0x39"
| "to_u8 PrivateSend = 0x40"
| "to_u8 PrivateMessage = 0x41"
| "to_u8 AdminDisconnect = 0x42"
| "to_u8 BanListRequest = 0x43"
| "to_u8 BanListResponse = 0x44"
| "to_u8 BanRemove = 0x45"
| "to_u8 RoleListRequest = 0x50"
| "to_u8 RoleListResponse = 0x51"
| "to_u8 RoleCreate = 0x52"
| "to_u8 RoleUpdate = 0x53"
| "to_u8 RoleDelete = 0x54"
| "to_u8 RoleAssign = 0x55"
| "to_u8 RoleUnassign = 0x56"
| "to_u8 AccountRolesRequest = 0x57"
| "to_u8 AccountRolesResponse = 0x58"
| "to_u8 AccountCreate = 0x59"
| "to_u8 AccountUpdate = 0x5A"
| "to_u8 AccountListRequest = 0x5B"
| "to_u8 AccountListResponse = 0x5C"
| "to_u8 AccountSetPassword = 0x5D"
| "to_u8 NewsgroupListRequest = 0x60"
| "to_u8 NewsgroupListResponse = 0x61"
| "to_u8 NewsThreadListRequest = 0x62"
| "to_u8 NewsThreadListResponse = 0x63"
| "to_u8 NewsPostCreate = 0x64"
| "to_u8 NewsPostDelete = 0x65"
| "to_u8 NewsgroupCreate = 0x66"
| "to_u8 NewsgroupUpdate = 0x67"
| "to_u8 NewsgroupDelete = 0x68"
| "to_u8 TrackerListRequest = 0x70"
| "to_u8 TrackerListResponse = 0x71"
| "to_u8 ServerSettingsRequest = 0x72"
| "to_u8 ServerSettingsResponse = 0x73"
| "to_u8 ServerSettingsUpdate = 0x74"
| "to_u8 AdminBroadcast = 0x75"
| "to_u8 AdminShutdown = 0x76"
| "to_u8 ChatInvite = 0x77"
| "to_u8 ChatInvited = 0x78"
| "to_u8 HistoryListRequest = 0x79"
| "to_u8 HistoryListResponse = 0x7A"
| "to_u8 IpRuleListRequest = 0x7B"
| "to_u8 IpRuleListResponse = 0x7C"
| "to_u8 IpRuleCreate = 0x7D"
| "to_u8 IpRuleDelete = 0x7E"
| "to_u8 ConnectionListRequest = 0x7F"
| "to_u8 ConnectionListResponse = 0x80"
| "to_u8 ChatRoomFlags = 0x81"
| "to_u8 Error = 0xF0"
| "to_u8 Warning = 0xF1"
| "to_u8 Info = 0xF2"

definition PacketType_ALL :: "PacketType list" where
  "PacketType_ALL =
   [HandshakeInit,
    HandshakeResp,
    Ping,
    Pong,
    Disconnect,
    AuthRequest,
    AuthChallenge,
    AuthResponse,
    AuthResult,
    PasswordChangeBegin,
    PasswordChangeChallenge,
    PasswordChangeProof,
    PasswordChangeResult,
    FileListRequest,
    FileListResponse,
    FileTransferStart,
    FileTransferData,
    FileTransferEnd,
    FileCreateFolder,
    FileDelete,
    FileGenerateCatalog,
    FileCatalogGenerated,
    FileSearchRequest,
    FileSearchResponse,
    FileMove,
    FileAlias,
    FileInfoRequest,
    FileInfoResponse,
    ChatMessage,
    ChatJoin,
    ChatLeave,
    ChatUserList,
    ChatTopicSet,
    SetIdentity,
    PresenceListRequest,
    PresenceListResponse,
    PresenceChange,
    UserInfoRequest,
    UserInfoResponse,
    PrivateSend,
    PrivateMessage,
    AdminDisconnect,
    BanListRequest,
    BanListResponse,
    BanRemove,
    RoleListRequest,
    RoleListResponse,
    RoleCreate,
    RoleUpdate,
    RoleDelete,
    RoleAssign,
    RoleUnassign,
    AccountRolesRequest,
    AccountRolesResponse,
    AccountCreate,
    AccountUpdate,
    AccountListRequest,
    AccountListResponse,
    AccountSetPassword,
    NewsgroupListRequest,
    NewsgroupListResponse,
    NewsThreadListRequest,
    NewsThreadListResponse,
    NewsPostCreate,
    NewsPostDelete,
    NewsgroupCreate,
    NewsgroupUpdate,
    NewsgroupDelete,
    TrackerListRequest,
    TrackerListResponse,
    ServerSettingsRequest,
    ServerSettingsResponse,
    ServerSettingsUpdate,
    AdminBroadcast,
    AdminShutdown,
    ChatInvite,
    ChatInvited,
    HistoryListRequest,
    HistoryListResponse,
    IpRuleListRequest,
    IpRuleListResponse,
    IpRuleCreate,
    IpRuleDelete,
    ConnectionListRequest,
    ConnectionListResponse,
    ChatRoomFlags,
    Error,
    Warning,
    Info]"

definition PacketType_try_from :: "u8 \<Rightarrow> (PacketType, protocol_error) result" where
  "PacketType_try_from v =
    (if v = 0x01 then Ok HandshakeInit
     else if v = 0x02 then Ok HandshakeResp
     else if v = 0x03 then Ok Ping
     else if v = 0x04 then Ok Pong
     else if v = 0x0F then Ok Disconnect
     else if v = 0x10 then Ok AuthRequest
     else if v = 0x11 then Ok AuthChallenge
     else if v = 0x12 then Ok AuthResponse
     else if v = 0x13 then Ok AuthResult
     else if v = 0x14 then Ok PasswordChangeBegin
     else if v = 0x15 then Ok PasswordChangeChallenge
     else if v = 0x16 then Ok PasswordChangeProof
     else if v = 0x17 then Ok PasswordChangeResult
     else if v = 0x20 then Ok FileListRequest
     else if v = 0x21 then Ok FileListResponse
     else if v = 0x22 then Ok FileTransferStart
     else if v = 0x23 then Ok FileTransferData
     else if v = 0x24 then Ok FileTransferEnd
     else if v = 0x25 then Ok FileCreateFolder
     else if v = 0x26 then Ok FileDelete
     else if v = 0x27 then Ok FileGenerateCatalog
     else if v = 0x28 then Ok FileCatalogGenerated
     else if v = 0x29 then Ok FileSearchRequest
     else if v = 0x2A then Ok FileSearchResponse
     else if v = 0x2B then Ok FileMove
     else if v = 0x2C then Ok FileAlias
     else if v = 0x2D then Ok FileInfoRequest
     else if v = 0x2E then Ok FileInfoResponse
     else if v = 0x30 then Ok ChatMessage
     else if v = 0x31 then Ok ChatJoin
     else if v = 0x32 then Ok ChatLeave
     else if v = 0x33 then Ok ChatUserList
     else if v = 0x34 then Ok ChatTopicSet
     else if v = 0x3A then Ok SetIdentity
     else if v = 0x35 then Ok PresenceListRequest
     else if v = 0x36 then Ok PresenceListResponse
     else if v = 0x37 then Ok PresenceChange
     else if v = 0x38 then Ok UserInfoRequest
     else if v = 0x39 then Ok UserInfoResponse
     else if v = 0x40 then Ok PrivateSend
     else if v = 0x41 then Ok PrivateMessage
     else if v = 0x42 then Ok AdminDisconnect
     else if v = 0x43 then Ok BanListRequest
     else if v = 0x44 then Ok BanListResponse
     else if v = 0x45 then Ok BanRemove
     else if v = 0x50 then Ok RoleListRequest
     else if v = 0x51 then Ok RoleListResponse
     else if v = 0x52 then Ok RoleCreate
     else if v = 0x53 then Ok RoleUpdate
     else if v = 0x54 then Ok RoleDelete
     else if v = 0x55 then Ok RoleAssign
     else if v = 0x56 then Ok RoleUnassign
     else if v = 0x57 then Ok AccountRolesRequest
     else if v = 0x58 then Ok AccountRolesResponse
     else if v = 0x59 then Ok AccountCreate
     else if v = 0x5A then Ok AccountUpdate
     else if v = 0x5B then Ok AccountListRequest
     else if v = 0x5C then Ok AccountListResponse
     else if v = 0x5D then Ok AccountSetPassword
     else if v = 0x60 then Ok NewsgroupListRequest
     else if v = 0x61 then Ok NewsgroupListResponse
     else if v = 0x62 then Ok NewsThreadListRequest
     else if v = 0x63 then Ok NewsThreadListResponse
     else if v = 0x64 then Ok NewsPostCreate
     else if v = 0x65 then Ok NewsPostDelete
     else if v = 0x66 then Ok NewsgroupCreate
     else if v = 0x67 then Ok NewsgroupUpdate
     else if v = 0x68 then Ok NewsgroupDelete
     else if v = 0x70 then Ok TrackerListRequest
     else if v = 0x71 then Ok TrackerListResponse
     else if v = 0x72 then Ok ServerSettingsRequest
     else if v = 0x73 then Ok ServerSettingsResponse
     else if v = 0x74 then Ok ServerSettingsUpdate
     else if v = 0x75 then Ok AdminBroadcast
     else if v = 0x76 then Ok AdminShutdown
     else if v = 0x77 then Ok ChatInvite
     else if v = 0x78 then Ok ChatInvited
     else if v = 0x79 then Ok HistoryListRequest
     else if v = 0x7A then Ok HistoryListResponse
     else if v = 0x7B then Ok IpRuleListRequest
     else if v = 0x7C then Ok IpRuleListResponse
     else if v = 0x7D then Ok IpRuleCreate
     else if v = 0x7E then Ok IpRuleDelete
     else if v = 0x7F then Ok ConnectionListRequest
     else if v = 0x80 then Ok ConnectionListResponse
     else if v = 0x81 then Ok ChatRoomFlags
     else if v = 0xF0 then Ok Error
     else if v = 0xF1 then Ok Warning
     else if v = 0xF2 then Ok Info
     else Err (UnknownPacketType v))"

section \<open>limits.rs\<close>

definition MAX_REASSEMBLED_PAYLOAD :: nat where
  "MAX_REASSEMBLED_PAYLOAD = 4 * 1024 * 1024"

definition MAX_CONTROL_PAYLOAD :: nat where
  "MAX_CONTROL_PAYLOAD = 64 * 1024"

definition MAX_TRANSFER_START_PAYLOAD :: nat where
  "MAX_TRANSFER_START_PAYLOAD = 1024 * 1024"

definition max_request_payload :: "PacketType \<Rightarrow> nat" where
  "max_request_payload t =
     (if t = FileTransferData then MAX_REASSEMBLED_PAYLOAD
      else if t = FileTransferStart then MAX_TRANSFER_START_PAYLOAD
      else MAX_CONTROL_PAYLOAD)"

section \<open>The opcodes are a bijection\<close>

text \<open>Equality is decided on the opcodes.\<close>

lemma try_from_to_u8 [simp]: "PacketType_try_from (to_u8 t) = Ok t"
  by (cases t) (simp_all add: PacketType_try_from_def)

lemma to_u8_inj [simp]: "to_u8 s = to_u8 t \<longleftrightarrow> s = t"
  by (metis result.inject(1) try_from_to_u8)

instantiation PacketType :: equal
begin

definition equal_PacketType :: "PacketType \<Rightarrow> PacketType \<Rightarrow> bool" where
  "equal_PacketType s t \<longleftrightarrow> to_u8 s = to_u8 t"

instance
  by standard (simp add: equal_PacketType_def)

end

text \<open>The arms of the match are taken one at a time.\<close>

lemma if_Ok_elim:
  assumes "(if c then Ok a else r) = Ok t"
  obtains "c" and "t = a" | "r = Ok t"
proof (cases c)
  case True
  moreover from this assms have "t = a" by simp
  ultimately show thesis by (rule that(1))
next
  case False
  with assms have "r = Ok t" by simp
  then show thesis by (rule that(2))
qed

lemma if_no_Panic: "r \<noteq> Panic \<Longrightarrow> (if c then Ok a else r) \<noteq> Panic"
  by simp

lemma if_Err_elim:
  assumes "(if c then Ok a else r) = Err e"
  shows "r = Err e"
  using assms by (cases c) simp_all

lemma try_from_Ok: "PacketType_try_from v = Ok t \<Longrightarrow> v = to_u8 t"
  unfolding PacketType_try_from_def by (elim if_Ok_elim; simp)

lemma try_from_Err: "PacketType_try_from v = Err e \<Longrightarrow> e = UnknownPacketType v"
  unfolding PacketType_try_from_def by (drule if_Err_elim)+ simp

lemma try_from_no_Panic: "PacketType_try_from v \<noteq> Panic"
  unfolding PacketType_try_from_def by (intro if_no_Panic; simp)

lemma set_PacketType_ALL: "set PacketType_ALL = UNIV"
proof -
  have "t \<in> set PacketType_ALL" for t
    unfolding PacketType_ALL_def
    by (cases t; hypsubst; (rule list.set_intros(1) | rule list.set_intros(2))+)
  then show ?thesis by blast
qed

lemma max_request_payload_le: "max_request_payload t \<le> MAX_REASSEMBLED_PAYLOAD"
  by (simp add: max_request_payload_def MAX_REASSEMBLED_PAYLOAD_def
      MAX_CONTROL_PAYLOAD_def MAX_TRANSFER_START_PAYLOAD_def)

section \<open>Properties\<close>

text \<open>Opcodes and packet types correspond one to one: a byte converts to a type exactly
  when it is that type's opcode, every other byte is an \<open>UnknownPacketType\<close> error naming
  it, and \<open>ALL\<close> lists every type.\<close>

lemma packet_type_bijection:
  "(PacketType_try_from v = Ok t \<longleftrightarrow> v = to_u8 t) \<and>
   (PacketType_try_from v = Err e \<longleftrightarrow> v \<notin> range to_u8 \<and> e = UnknownPacketType v) \<and>
   set PacketType_ALL = UNIV \<and> length PacketType_ALL = 89"
proof (intro conjI)
  show "PacketType_try_from v = Ok t \<longleftrightarrow> v = to_u8 t"
    by (auto dest: try_from_Ok)
  show "PacketType_try_from v = Err e \<longleftrightarrow> v \<notin> range to_u8 \<and> e = UnknownPacketType v"
    using try_from_no_Panic [of v] by (cases "PacketType_try_from v") (auto dest: try_from_Ok try_from_Err)
  show "set PacketType_ALL = UNIV" by (rule set_PacketType_ALL)
  show "length PacketType_ALL = 89" by (simp add: PacketType_ALL_def)
qed

end
