(* ===== verification/Header.thy ===== *)
theory Header
  imports Packet_Type
begin

text \<open>
  Packet flags (\<open>kdx-protocol/src/flags.rs\<close>) and the 20-byte packet header
  (\<open>header.rs\<close>). The checksum function of the \<open>crc32fast\<close> crate is a parameter
  \<open>crc\<close>: nothing here depends on which function it is.
\<close>

section \<open>PacketFlags\<close>

type_synonym PacketFlags = u16

definition COMPRESSED :: PacketFlags where "COMPRESSED = push_bit 1 1"
definition REQUIRES_ACK :: PacketFlags where "REQUIRES_ACK = push_bit 3 1"
definition TRANSFER_START :: PacketFlags where "TRANSFER_START = push_bit 4 1"
definition TRANSFER_END :: PacketFlags where "TRANSFER_END = push_bit 5 1"
definition TRANSFER_ABORT :: PacketFlags where "TRANSFER_ABORT = push_bit 6 1"
definition TRANSFER_RESUME :: PacketFlags where "TRANSFER_RESUME = push_bit 7 1"
definition FRAGMENTED :: PacketFlags where "FRAGMENTED = push_bit 12 1"
definition MORE_FRAGMENTS :: PacketFlags where "MORE_FRAGMENTS = push_bit 13 1"
definition SYSTEM_MESSAGE :: PacketFlags where "SYSTEM_MESSAGE = push_bit 14 1"

text \<open>\<open>flags.contains(f)\<close>\<close>

definition contains :: "PacketFlags \<Rightarrow> PacketFlags \<Rightarrow> bool" where
  "contains flags f \<longleftrightarrow> flags AND f = f"

datatype Priority = Low | Normal | High | Critical

definition priority_bits :: "Priority \<Rightarrow> u16" where
  "priority_bits p = (case p of Low \<Rightarrow> 0 | Normal \<Rightarrow> 1 | High \<Rightarrow> 2 | Critical \<Rightarrow> 3)"

definition priority :: "PacketFlags \<Rightarrow> Priority" where
  "priority flags =
     (let v = drop_bit 8 flags AND 3 in
      if v = 0 then Low else if v = 1 then Normal else if v = 2 then High else Critical)"

definition with_priority :: "PacketFlags \<Rightarrow> Priority \<Rightarrow> PacketFlags" where
  "with_priority flags p =
     (let cleared = flags AND NOT (push_bit 8 3) in cleared OR push_bit 8 (priority_bits p))"

section \<open>PacketHeader\<close>

definition MAGIC :: bytes where
  "MAGIC = as_bytes ''KDX'' @ [0]"

definition PROTOCOL_VERSION :: u8 where
  "PROTOCOL_VERSION = 2"

definition HEADER_LEN :: nat where
  "HEADER_LEN = 20"

record PacketHeader =
  h_version :: u8
  h_packet_type :: PacketType
  h_flags :: PacketFlags
  h_sequence :: u32
  h_length :: u32

definition fold_crc :: "(bytes \<Rightarrow> u32) \<Rightarrow> bytes \<Rightarrow> u16" where
  "fold_crc crc data = ucast (drop_bit 16 (crc data)) XOR ucast (crc data AND 0xFFFF)"

text \<open>The first 18 bytes: everything but the checksum.\<close>

definition header_head :: "PacketHeader \<Rightarrow> bytes" where
  "header_head h =
     MAGIC @ [h_version h, to_u8 (h_packet_type h)] @ u16_be (h_flags h) @
     u32_be (h_sequence h) @ u32_be (h_length h) @ [0, 0]"

definition PacketHeader_encode :: "(bytes \<Rightarrow> u32) \<Rightarrow> PacketHeader \<Rightarrow> bytes" where
  "PacketHeader_encode crc h = header_head h @ put_u16 (fold_crc crc (header_head h))"

definition PacketHeader_decode :: "(bytes \<Rightarrow> u32) \<Rightarrow> PacketHeader reader" where
  "PacketHeader_decode crc buf =
     (if length buf < HEADER_LEN then Err UnexpectedEof
      else rbind (get_array (HEADER_LEN - 2)) (\<lambda>head. rbind get_u16 (\<lambda>stored_checksum.
        if take 4 head \<noteq> MAGIC then rfail BadMagic
        else if fold_crc crc head \<noteq> stored_checksum then rfail BadChecksum
        else if head ! 4 \<noteq> PROTOCOL_VERSION then rfail (UnsupportedVersion (head ! 4))
        else if take 2 (drop 16 head) \<noteq> [0, 0] then rfail NonZeroReserved
        else (\<lambda>rest. bind_result (PacketType_try_from (head ! 5)) (\<lambda>packet_type.
          Ok (\<lparr>h_version = head ! 4, h_packet_type = packet_type,
               h_flags = u16_of_be (head ! 6) (head ! 7),
               h_sequence = u32_of_be (head ! 8) (head ! 9) (head ! 10) (head ! 11),
               h_length = u32_of_be (head ! 12) (head ! 13) (head ! 14) (head ! 15)\<rparr>, rest)))))
        buf)"

section \<open>Flags\<close>

lemmas flag_defs = FRAGMENTED_def MORE_FRAGMENTS_def

lemma contains_single: "contains flags (push_bit n 1) \<longleftrightarrow> n < 16 \<longrightarrow> bit flags n"
proof
  assume c: "contains flags (push_bit n 1)"
  show "n < 16 \<longrightarrow> bit flags n"
  proof
    assume "n < 16"
    then have "bit (push_bit n 1 :: u16) n" by (simp add: bit_simps)
    with c show "bit flags n" by (metis bit_and_iff contains_def)
  qed
next
  assume b: "n < 16 \<longrightarrow> bit flags n"
  show "contains flags (push_bit n 1)"
    unfolding contains_def
    by (rule bit_word_eqI) (use b in \<open>auto simp: bit_simps\<close>)
qed

lemma contains_FRAGMENTED: "contains flags FRAGMENTED \<longleftrightarrow> bit flags 12"
  unfolding FRAGMENTED_def contains_single by simp

lemma contains_MORE_FRAGMENTS: "contains flags MORE_FRAGMENTS \<longleftrightarrow> bit flags 13"
  unfolding MORE_FRAGMENTS_def contains_single by simp

lemma three_mask: "(3 :: u16) = mask 2"
  by (simp add: mask_eq_exp_minus_1)

lemma priority_with_priority: "priority (with_priority flags p) = p"
proof -
  have "drop_bit 8 (with_priority flags p) AND 3 = priority_bits p"
    unfolding with_priority_def Let_def priority_bits_def three_mask
    by (rule bit_word_eqI)
      (cases p; auto simp: bit_simps bit_1_iff bit_2_iff bit_mask_iff)
  then show ?thesis
    by (cases p) (simp_all add: priority_def priority_bits_def)
qed

section \<open>Header round trip\<close>

lemma length_MAGIC [simp]: "length MAGIC = 4"
  by (simp add: MAGIC_def)

lemma length_header_head [simp]: "length (header_head h) = 18"
  by (simp add: header_head_def)

lemma length_PacketHeader_encode [simp]: "length (PacketHeader_encode crc h) = HEADER_LEN"
  by (simp add: PacketHeader_encode_def HEADER_LEN_def)

lemma PacketHeader_decode_encode:
  assumes "h_version h = PROTOCOL_VERSION"
  shows "PacketHeader_decode crc (PacketHeader_encode crc h @ r) = Ok (h, r)"
proof -
  obtain a b where f: "u16_be (h_flags h) = [a, b]" "u16_of_be a b = h_flags h"
    by (rule u16_be_cases)
  obtain c d e g where s: "u32_be (h_sequence h) = [c, d, e, g]" "u32_of_be c d e g = h_sequence h"
    by (rule u32_be_cases)
  obtain i j k l where n: "u32_be (h_length h) = [i, j, k, l]" "u32_of_be i j k l = h_length h"
    by (rule u32_be_cases)
  have head: "header_head h = MAGIC @ [h_version h, to_u8 (h_packet_type h), a, b, c, d, e, g, i, j, k, l, 0, 0]"
    by (simp add: header_head_def f s n)
  have "get_array (HEADER_LEN - 2) (PacketHeader_encode crc h @ r) =
      Ok (header_head h, put_u16 (fold_crc crc (header_head h)) @ r)"
    by (simp add: get_array_def PacketHeader_encode_def HEADER_LEN_def)
  with assms show ?thesis
    by (simp add: PacketHeader_decode_def reads_fixed)
      (simp add: head MAGIC_def as_bytes_def f s n)
qed

lemma drop_nth: "n < length xs \<Longrightarrow> drop n xs = xs ! n # drop (Suc n) xs"
  by (simp add: Cons_nth_drop_Suc)

lemma split18:
  assumes "length xs = 18"
  shows "xs = take 4 xs @ [xs ! 4, xs ! 5, xs ! 6, xs ! 7, xs ! 8, xs ! 9, xs ! 10, xs ! 11,
    xs ! 12, xs ! 13, xs ! 14, xs ! 15] @ drop 16 xs"
proof -
  have "drop 4 xs = [xs ! 4, xs ! 5, xs ! 6, xs ! 7, xs ! 8, xs ! 9, xs ! 10, xs ! 11,
      xs ! 12, xs ! 13, xs ! 14, xs ! 15] @ drop 16 xs"
    using assms drop_nth [of 4 xs] drop_nth [of 5 xs] drop_nth [of 6 xs] drop_nth [of 7 xs]
      drop_nth [of 8 xs] drop_nth [of 9 xs] drop_nth [of 10 xs] drop_nth [of 11 xs]
      drop_nth [of 12 xs] drop_nth [of 13 xs] drop_nth [of 14 xs] drop_nth [of 15 xs]
    by simp
  then show ?thesis by (metis append_take_drop_id)
qed

lemma PacketHeader_decode_Ok:
  assumes "PacketHeader_decode crc bs = Ok (h, r)"
  shows "h_version h = PROTOCOL_VERSION \<and> bs = PacketHeader_encode crc h @ r"
proof -
  from assms obtain head stored t where bs: "bs = head @ put_u16 stored @ r" and l: "length head = 18"
      and magic: "take 4 head = MAGIC" and crc: "stored = fold_crc crc head"
      and ver: "head ! 4 = PROTOCOL_VERSION" and res: "take 2 (drop 16 head) = [0, 0]"
      and t: "PacketType_try_from (head ! 5) = Ok t"
      and h: "h = \<lparr>h_version = head ! 4, h_packet_type = t,
               h_flags = u16_of_be (head ! 6) (head ! 7),
               h_sequence = u32_of_be (head ! 8) (head ! 9) (head ! 10) (head ! 11),
               h_length = u32_of_be (head ! 12) (head ! 13) (head ! 14) (head ! 15)\<rparr>"
    by (auto simp: PacketHeader_decode_def HEADER_LEN_def wire_iffs array_ok_def split: if_splits)
  have "header_head h = take 4 head @ [head ! 4, head ! 5, head ! 6, head ! 7, head ! 8, head ! 9,
      head ! 10, head ! 11, head ! 12, head ! 13, head ! 14, head ! 15] @ drop 16 head"
    using l res by (simp add: header_head_def h u16_be_of_be u32_be_of_be magic flip: try_from_Ok [OF t])
  with split18 [OF l] have eq: "header_head h = head" by simp
  have "h_version h = PROTOCOL_VERSION" by (simp add: h ver)
  then show ?thesis
    by (simp only: PacketHeader_encode_def eq bs crc append_assoc simp_thms)
qed

lemma PacketHeader_decode_no_panic: "PacketHeader_decode crc bs \<noteq> Panic"
  by (auto simp: PacketHeader_decode_def HEADER_LEN_def get_array_def bind_result_Panic
      get_u16_Panic try_from_no_Panic split: if_splits)

text \<open>The header is one field of the stream, so the laws of \<open>field_codec\<close> hold for it.\<close>

interpretation header_field: field_codec "PacketHeader_encode crc" "PacketHeader_decode crc"
    "\<lambda>h. h_version h = PROTOCOL_VERSION" for crc
  by unfold_locales
    (auto dest: PacketHeader_decode_Ok simp: PacketHeader_decode_encode PacketHeader_decode_no_panic)

lemma PacketHeader_decode_short: "length bs < HEADER_LEN \<Longrightarrow> PacketHeader_decode crc bs = Err UnexpectedEof"
  by (simp add: PacketHeader_decode_def)

text \<open>Whether 20 bytes are a header does not depend on what follows them.\<close>

lemma PacketHeader_decode_append:
  assumes "HEADER_LEN \<le> length bs"
  shows "PacketHeader_decode crc (bs @ cs) =
    (case PacketHeader_decode crc bs of Ok (h, r) \<Rightarrow> Ok (h, r @ cs) | Err e \<Rightarrow> Err e | Panic \<Rightarrow> Panic)"
proof -
  define head rest where "head = take 18 bs" and "rest = drop 18 bs"
  with assms have l: "length head = 18" and r: "2 \<le> length rest" and bs: "bs = head @ rest"
    by (auto simp: HEADER_LEN_def)
  from r obtain a b tail where "rest = a # b # tail"
    by (cases rest rule: get_u16.cases) auto
  with l bs assms show ?thesis
    by (cases "PacketType_try_from (head ! 5)")
      (simp_all add: PacketHeader_decode_def HEADER_LEN_def get_array_def)
qed

section \<open>Properties\<close>

text \<open>Property C5. The header codec is exact: the decoder returns \<open>h\<close> and leaves \<open>r\<close> exactly when
  the bytes are the encoding of \<open>h\<close>, of the current version, followed by \<open>r\<close>. So a header has
  one encoding, and no corrupted, truncated or foreign header decodes to it.\<close>

theorem header_exact:
  "PacketHeader_decode crc bs = Ok (h, r) \<longleftrightarrow>
     h_version h = PROTOCOL_VERSION \<and> bs = PacketHeader_encode crc h @ r"
  by (rule header_field.get_ok)

end
