(* ===== verification/Codec.thy ===== *)
theory Codec
  imports Header
begin

text \<open>
  The framing codec (\<open>kdx-protocol/src/codec.rs\<close>). Decoding keeps a parsed header
  while the payload is still arriving; \<open>drain\<close> and \<open>feed\<close> are the read loop a framed
  stream runs over it: append what the socket delivered, decode until the codec
  asks for more.
\<close>

section \<open>Model\<close>

definition DEFAULT_MAX_FRAME_PAYLOAD :: u32 where
  "DEFAULT_MAX_FRAME_PAYLOAD = 16 * 1024"

record KdxFrame =
  f_header :: PacketHeader
  f_payload :: bytes

record KdxCodec =
  c_max_payload :: u32
  c_pending :: "PacketHeader option"

definition KdxCodec_new :: "u32 \<Rightarrow> KdxCodec" where
  "KdxCodec_new max_payload = \<lparr>c_max_payload = max_payload, c_pending = None\<rparr>"

definition KdxCodec_default :: KdxCodec where
  "KdxCodec_default = KdxCodec_new DEFAULT_MAX_FRAME_PAYLOAD"

text \<open>
  The second half of \<open>decode\<close>: a header is at hand, the payload may not be.
\<close>

definition decode_payload ::
  "KdxCodec \<Rightarrow> PacketHeader \<Rightarrow> bytes \<Rightarrow> (KdxFrame option, protocol_error) result \<times> KdxCodec \<times> bytes" where
  "decode_payload c header src =
     (if length src < unat (h_length header)
      then (Ok None, c\<lparr>c_pending := Some header\<rparr>, src)
      else (Ok (Some \<lparr>f_header = header, f_payload = take (unat (h_length header)) src\<rparr>), c,
            drop (unat (h_length header)) src))"

text \<open>
  \<open>decode\<close> takes the pending header out of the codec. When parsing the header
  fails, the 20 header bytes have been consumed.
\<close>

definition KdxCodec_decode ::
  "(bytes \<Rightarrow> u32) \<Rightarrow> KdxCodec \<Rightarrow> bytes \<Rightarrow> (KdxFrame option, protocol_error) result \<times> KdxCodec \<times> bytes" where
  "KdxCodec_decode crc c src =
     (let c0 = c\<lparr>c_pending := None\<rparr> in
      case c_pending c of
        Some h \<Rightarrow> decode_payload c0 h src
      | None \<Rightarrow>
          if length src < HEADER_LEN then (Ok None, c0, src)
          else (case PacketHeader_decode crc src of
              Err e \<Rightarrow> (Err e, c0, drop HEADER_LEN src)
            | Panic \<Rightarrow> (Panic, c0, drop HEADER_LEN src)
            | Ok (header, rest) \<Rightarrow>
                if h_length header > c_max_payload c
                then (Err (PayloadTooLarge (h_length header) (c_max_payload c)), c0, rest)
                else decode_payload c0 header rest))"

definition KdxCodec_encode ::
  "(bytes \<Rightarrow> u32) \<Rightarrow> KdxCodec \<Rightarrow> KdxFrame \<Rightarrow> bytes \<Rightarrow> (bytes, protocol_error) result" where
  "KdxCodec_encode crc c frame dst =
     (let len = length (f_payload frame) in
      if len > unat (c_max_payload c)
      then Err (PayloadTooLarge (if len < 2 ^ 32 then of_nat len else -1) (c_max_payload c))
      else if unat (h_length (f_header frame)) \<noteq> len
      then Err (LengthMismatch (h_length (f_header frame)) len)
      else Ok (dst @ PacketHeader_encode crc (f_header frame) @ f_payload frame))"

text \<open>Decode until the codec wants more bytes (\<open>Ok ()\<close>) or fails.\<close>

function drain ::
  "(bytes \<Rightarrow> u32) \<Rightarrow> KdxCodec \<Rightarrow> bytes \<Rightarrow> KdxFrame list \<times> (unit, protocol_error) result \<times> KdxCodec \<times> bytes" where
  "drain crc c src =
     (case KdxCodec_decode crc c src of
        (Ok (Some f), c', src') \<Rightarrow>
          (let (fs, st, c'', src'') = drain crc c' src' in (f # fs, st, c'', src''))
      | (Ok None, c', src') \<Rightarrow> ([], Ok (), c', src')
      | (Err e, c', src') \<Rightarrow> ([], Err e, c', src')
      | (Panic, c', src') \<Rightarrow> ([], Panic, c', src'))"
  by pat_completeness auto

text \<open>Each frame uses up the pending header or at least the bytes of one.\<close>

definition backlog :: "KdxCodec \<Rightarrow> bytes \<Rightarrow> nat" where
  "backlog c src = length src + (if c_pending c = None then 0 else 1)"

lemma decode_payload_Some:
  "decode_payload c h src = (Ok (Some f), c', src') \<Longrightarrow> c' = c \<and> length src' \<le> length src"
  by (auto simp: decode_payload_def split: if_splits)

lemma decode_backlog:
  assumes "KdxCodec_decode crc c src = (Ok (Some f), c', src')"
  shows "backlog c' src' < backlog c src"
  using assms decode_payload_Some header_field.get_ok
  by (fastforce simp: KdxCodec_decode_def backlog_def Let_def HEADER_LEN_def
      split: option.splits if_splits result.splits)

termination drain
  by (relation "measure (\<lambda>(crc, c, src). backlog c src)") (auto dest: decode_backlog [OF sym])

declare drain.simps [simp del]

lemma drain_induct [case_names decode]:
  assumes "\<And>c src. (\<And>f d s. KdxCodec_decode crc c src = (Ok (Some f), d, s) \<Longrightarrow> P d s) \<Longrightarrow> P c src"
  shows "P c src"
  by (induction "backlog c src" arbitrary: c src rule: less_induct) (metis assms decode_backlog)

fun feed ::
  "(bytes \<Rightarrow> u32) \<Rightarrow> KdxCodec \<Rightarrow> bytes \<Rightarrow> bytes list \<Rightarrow>
     KdxFrame list \<times> (unit, protocol_error) result \<times> KdxCodec \<times> bytes" where
  "feed crc c buf [] = ([], Ok (), c, buf)"
| "feed crc c buf (chunk # chunks) =
     (let (fs, st, c', buf') = drain crc c (buf @ chunk) in
      if st = Ok () then
        (let (gs, st', c'', buf'') = feed crc c' buf' chunks in (fs @ gs, st', c'', buf''))
      else (fs, st, c', buf'))"

text \<open>Write a sequence of frames, stopping at the first the codec refuses.\<close>

fun encode_all :: "(bytes \<Rightarrow> u32) \<Rightarrow> KdxCodec \<Rightarrow> KdxFrame list \<Rightarrow> bytes \<Rightarrow> (bytes, protocol_error) result" where
  "encode_all crc c [] dst = Ok dst"
| "encode_all crc c (f # fs) dst = bind_result (KdxCodec_encode crc c f dst) (encode_all crc c fs)"

section \<open>Decoding does not depend on how the bytes arrive\<close>

lemma decode_no_panic: "fst (KdxCodec_decode crc c src) \<noteq> Panic"
  by (auto simp: KdxCodec_decode_def decode_payload_def Let_def PacketHeader_decode_no_panic
      split: option.splits result.splits)

lemma decode_payload_append:
  "decode_payload c h src = (Ok (Some f), c', src') \<Longrightarrow>
     decode_payload c h (src @ cs) = (Ok (Some f), c', src' @ cs)"
  by (auto simp: decode_payload_def split: if_splits)

lemma decode_append_Some:
  assumes "KdxCodec_decode crc c src = (Ok (Some f), c', src')"
  shows "KdxCodec_decode crc c (src @ cs) = (Ok (Some f), c', src' @ cs)"
proof (cases "c_pending c")
  case None
  with assms have "HEADER_LEN \<le> length src"
    by (auto simp: KdxCodec_decode_def Let_def split: if_splits)
  with None assms show ?thesis
    by (auto simp: KdxCodec_decode_def Let_def PacketHeader_decode_append
        intro: decode_payload_append split: result.splits if_splits)
next
  case (Some h)
  with assms show ?thesis
    by (simp add: KdxCodec_decode_def Let_def decode_payload_append)
qed

lemma decode_append_Err:
  assumes "KdxCodec_decode crc c src = (Err e, c', src')"
  shows "KdxCodec_decode crc c (src @ cs) = (Err e, c', src' @ cs)"
proof (cases "c_pending c")
  case None
  with assms have "HEADER_LEN \<le> length src"
    by (auto simp: KdxCodec_decode_def Let_def split: if_splits)
  with None assms show ?thesis
    by (auto simp: KdxCodec_decode_def Let_def PacketHeader_decode_append decode_payload_def
        split: result.splits if_splits)
next
  case (Some h)
  with assms show ?thesis
    by (auto simp: KdxCodec_decode_def Let_def decode_payload_def split: if_splits)
qed

text \<open>A parked decode resumes where it stopped.\<close>

lemma decode_resume:
  assumes "KdxCodec_decode crc c src = (Ok None, c', src')"
  shows "KdxCodec_decode crc c' (src' @ cs) = KdxCodec_decode crc c (src @ cs)"
proof (cases "c_pending c")
  case None
  show ?thesis
  proof (cases "length src < HEADER_LEN")
    case True
    have "c\<lparr>c_pending := None\<rparr> = c" using None by (cases c) simp
    with True None assms show ?thesis
      by (simp add: KdxCodec_decode_def)
  next
    case False
    with None assms obtain h rest where h: "PacketHeader_decode crc src = Ok (h, rest)"
        and le: "\<not> c_max_payload c < h_length h"
        and "decode_payload (c\<lparr>c_pending := None\<rparr>) h rest = (Ok None, c', src')"
      by (auto simp: KdxCodec_decode_def Let_def split: result.splits if_splits)
    then have "c' = c\<lparr>c_pending := Some h\<rparr>" "src' = rest"
      by (auto simp: decode_payload_def split: if_splits)
    with None False h le show ?thesis
      by (simp add: KdxCodec_decode_def Let_def PacketHeader_decode_append)
  qed
next
  case (Some h)
  with assms show ?thesis
    by (auto simp: KdxCodec_decode_def Let_def decode_payload_def split: if_splits)
qed

lemma drain_eq_decode:
  "KdxCodec_decode crc c src = KdxCodec_decode crc c' src' \<Longrightarrow> drain crc c src = drain crc c' src'"
  by (subst (1 2) drain.simps) simp

lemma drain_append:
  assumes "drain crc c src = (fs, Ok (), c', src')"
  shows "drain crc c (src @ cs) =
    (let (gs, st, c'', src'') = drain crc c' (src' @ cs) in (fs @ gs, st, c'', src''))"
  using assms
proof (induction c src arbitrary: fs rule: drain_induct [where crc = crc])
  case (decode c src)
  obtain r d s where dec: "KdxCodec_decode crc c src = (r, d, s)" by (metis prod_cases3)
  consider (frame) f where "r = Ok (Some f)" | (wait) "r = Ok None"
    using decode(2) dec by (subst (asm) drain.simps) (auto split: result.splits option.splits)
  then show ?case
  proof cases
    case frame
    with decode(2) dec obtain gs where gs: "drain crc d s = (gs, Ok (), c', src')" "fs = f # gs"
      by (subst (asm) drain.simps) (auto split: prod.splits)
    from decode(1) [OF dec [unfolded frame] gs(1)] have "drain crc d (s @ cs) =
        (let (gs', st, c'', src'') = drain crc c' (src' @ cs) in (gs @ gs', st, c'', src''))" .
    with dec frame gs decode_append_Some [of crc c src f d s cs] show ?thesis
      by (subst drain.simps) (simp split: prod.splits)
  next
    case wait
    with decode(2) dec have "fs = []" "c' = d" "src' = s"
      by (subst (asm) drain.simps; simp)+
    moreover have "drain crc d (s @ cs) = drain crc c (src @ cs)"
      by (rule drain_eq_decode, rule decode_resume) (use wait dec in simp)
    ultimately show ?thesis by (simp split: prod.splits)
  qed
qed

lemma drain_append_Err:
  assumes "drain crc c src = (fs, Err e, c', src')"
  shows "drain crc c (src @ cs) = (fs, Err e, c', src' @ cs)"
  using assms
proof (induction c src arbitrary: fs rule: drain_induct [where crc = crc])
  case (decode c src)
  obtain r d s where dec: "KdxCodec_decode crc c src = (r, d, s)" by (metis prod_cases3)
  consider (frame) f where "r = Ok (Some f)" | (err) "r = Err e" "fs = []" "c' = d"
    using decode(2) dec by (subst (asm) drain.simps) (auto split: result.splits option.splits prod.splits)
  then show ?case
  proof cases
    case frame
    with decode(2) dec obtain gs where gs: "drain crc d s = (gs, Err e, c', src')" "fs = f # gs"
      by (subst (asm) drain.simps) (auto split: prod.splits)
    from decode(1) [OF dec [unfolded frame] gs(1)]
    have "drain crc d (s @ cs) = (gs, Err e, c', src' @ cs)" .
    with dec frame gs decode_append_Some [of crc c src f d s cs] show ?thesis
      by (subst drain.simps) simp
  next
    case err
    with decode(2) dec have "src' = s" by (subst (asm) drain.simps) simp
    with err dec decode_append_Err [of crc c src e d s cs] show ?thesis
      by (subst drain.simps) simp
  qed
qed

lemma drain_no_panic: "fst (snd (drain crc c src)) \<noteq> Panic"
proof (induction c src rule: drain_induct [where crc = crc])
  case (decode c src)
  then show ?case
    using decode_no_panic [of crc c src]
    by (subst drain.simps) (auto split: prod.splits result.splits option.splits)
qed

text \<open>A codec state the read loop leaves behind: decoding again yields nothing new.\<close>

lemma drain_waits:
  assumes "drain crc c src = (fs, Ok (), c', src')"
  shows "drain crc c' src' = ([], Ok (), c', src')"
proof -
  obtain gs st d s where d: "drain crc c' src' = (gs, st, d, s)" by (metis prod_cases4)
  have "drain crc c (src @ []) = (fs @ gs, st, d, s)"
    using drain_append [OF assms, of "[]"] by (simp only: append_Nil2 d Let_def prod.case)
  with assms have "gs = []" "st = Ok ()" "d = c'" "s = src'" by auto
  with d show ?thesis by simp
qed

text \<open>
  A run of the read loop over a stream in chunks agrees with one over the whole: the same frames, the same
  outcome and the same codec state. It has the same bytes left over unless the stream has failed; then it
  never took the later chunks, and its bytes are the first of those left over at once.
\<close>

definition same_run ::
  "KdxFrame list \<times> (unit, protocol_error) result \<times> KdxCodec \<times> bytes \<Rightarrow>
   KdxFrame list \<times> (unit, protocol_error) result \<times> KdxCodec \<times> bytes \<Rightarrow> bool" where
  "same_run r q \<longleftrightarrow> fst r = fst q \<and> fst (snd r) = fst (snd q) \<and> fst (snd (snd r)) = fst (snd (snd q)) \<and>
     (if fst (snd r) = Ok () then snd (snd (snd r)) = snd (snd (snd q))
      else prefix (snd (snd (snd r))) (snd (snd (snd q))))"

lemma feed_same_drain:
  assumes "drain crc c buf = ([], Ok (), c, buf)"
  shows "same_run (feed crc c buf chunks) (drain crc c (buf @ concat chunks))"
  using assms
proof (induction chunks arbitrary: c buf)
  case Nil
  then show ?case by (simp add: same_run_def)
next
  case (Cons chunk chunks)
  obtain fs st d s where d: "drain crc c (buf @ chunk) = (fs, st, d, s)" by (metis prod_cases4)
  show ?case
  proof (cases st)
    case (Ok u)
    with d have "same_run (feed crc d s chunks) (drain crc d (s @ concat chunks))"
      by (intro Cons.IH) (simp add: drain_waits)
    with d Ok drain_append [of crc c "buf @ chunk" fs d s "concat chunks"] show ?thesis
      by (auto simp: same_run_def split: prod.splits)
  next
    case (Err e)
    with d drain_append_Err [of crc c "buf @ chunk" fs e d s "concat chunks"] show ?thesis
      by (auto simp: same_run_def)
  qed (use d drain_no_panic [of crc c "buf @ chunk"] in simp)
qed

lemma drain_fresh [simp]: "drain crc (KdxCodec_new m) [] = ([], Ok (), KdxCodec_new m, [])"
  by (subst drain.simps) (simp add: KdxCodec_decode_def KdxCodec_new_def HEADER_LEN_def)

section \<open>What one side writes the other side reads\<close>

definition frame_ok :: "u32 \<Rightarrow> KdxFrame \<Rightarrow> bool" where
  "frame_ok m f \<longleftrightarrow> h_version (f_header f) = PROTOCOL_VERSION \<and>
     unat (h_length (f_header f)) = length (f_payload f) \<and> h_length (f_header f) \<le> m"

definition frame_bytes :: "(bytes \<Rightarrow> u32) \<Rightarrow> KdxFrame \<Rightarrow> bytes" where
  "frame_bytes crc f = PacketHeader_encode crc (f_header f) @ f_payload f"

lemma encode_ok_iff:
  "KdxCodec_encode crc c f dst = Ok out \<longleftrightarrow>
     unat (h_length (f_header f)) = length (f_payload f) \<and> h_length (f_header f) \<le> c_max_payload c \<and>
     out = dst @ frame_bytes crc f"
  by (auto simp: KdxCodec_encode_def Let_def frame_bytes_def word_le_nat_alt)

lemma decode_frame:
  assumes "frame_ok m f"
  shows "KdxCodec_decode crc (KdxCodec_new m) (frame_bytes crc f @ rest) = (Ok (Some f), KdxCodec_new m, rest)"
  using assms
  by (simp add: KdxCodec_decode_def KdxCodec_new_def frame_bytes_def frame_ok_def Let_def
      PacketHeader_decode_encode decode_payload_def not_less [symmetric])

lemma drain_frames:
  assumes "\<forall>f\<in>set fs. frame_ok m f"
  shows "drain crc (KdxCodec_new m) (concat (map (frame_bytes crc) fs)) = (fs, Ok (), KdxCodec_new m, [])"
  using assms
proof (induction fs)
  case (Cons f fs)
  then show ?case
    by (subst drain.simps) (simp add: decode_frame)
qed simp

lemma feed_frames:
  assumes "\<forall>f\<in>set frames. frame_ok m f" "concat chunks = concat (map (frame_bytes crc) frames)"
  shows "feed crc (KdxCodec_new m) [] chunks = (frames, Ok (), KdxCodec_new m, [])"
  using feed_same_drain [of crc "KdxCodec_new m" "[]" chunks] drain_frames [OF assms(1), of crc] assms(2)
  by (auto simp: same_run_def prod_eq_iff)

lemma encode_all_Ok:
  "encode_all crc c fs dst = Ok out \<Longrightarrow>
     out = dst @ concat (map (frame_bytes crc) fs) \<and>
     (\<forall>f\<in>set fs. unat (h_length (f_header f)) = length (f_payload f) \<and>
        h_length (f_header f) \<le> c_max_payload c)"
  by (induction fs arbitrary: dst) (fastforce simp: encode_ok_iff)+

lemma encode_all_frames:
  assumes "\<forall>f\<in>set fs. frame_ok (c_max_payload c) f"
  shows "encode_all crc c fs dst = Ok (dst @ concat (map (frame_bytes crc) fs))"
proof -
  have "KdxCodec_encode crc c f d = Ok (d @ frame_bytes crc f)" if "f \<in> set fs" for f d
    using that assms by (auto simp: encode_ok_iff frame_ok_def)
  then show ?thesis by (induction fs arbitrary: dst) auto
qed

text \<open>
  No frame the codec yields carries more than its cap, whatever the peer sends:
  what a pending header claims was checked before it was parked.
\<close>

definition codec_inv :: "KdxCodec \<Rightarrow> bool" where
  "codec_inv c \<longleftrightarrow> (\<forall>h. c_pending c = Some h \<longrightarrow>
     h_version h = PROTOCOL_VERSION \<and> h_length h \<le> c_max_payload c)"

lemma codec_inv_new: "codec_inv (KdxCodec_new m)"
  by (simp add: codec_inv_def KdxCodec_new_def)

lemma decode_inv:
  assumes "KdxCodec_decode crc c src = (r, c', src')" and "codec_inv c"
  shows "codec_inv c' \<and> c_max_payload c' = c_max_payload c \<and>
    (\<forall>f. r = Ok (Some f) \<longrightarrow> frame_ok (c_max_payload c) f)"
  using assms
  by (auto simp: KdxCodec_decode_def codec_inv_def decode_payload_def frame_ok_def Let_def
      header_field.get_ok split: option.splits if_splits result.splits)

lemma drain_inv:
  assumes "drain crc c src = (fs, st, c', src')" and "codec_inv c"
  shows "codec_inv c' \<and> c_max_payload c' = c_max_payload c \<and> (\<forall>f\<in>set fs. frame_ok (c_max_payload c) f)"
  using assms
proof (induction c src arbitrary: fs st c' src' rule: drain_induct [where crc = crc])
  case (decode c src)
  obtain r d s where dec: "KdxCodec_decode crc c src = (r, d, s)" by (metis prod_cases3)
  from decode_inv [OF dec decode(3)] have d: "codec_inv d" "c_max_payload d = c_max_payload c"
      "\<And>f. r = Ok (Some f) \<Longrightarrow> frame_ok (c_max_payload c) f" by auto
  show ?case
  proof (cases "\<exists>f. r = Ok (Some f)")
    case True
    then obtain f where f: "r = Ok (Some f)" by blast
    with decode(2) dec obtain gs where "drain crc d s = (gs, st, c', src')" "fs = f # gs"
      by (subst (asm) drain.simps) (auto split: prod.splits)
    with decode(1) dec d f show ?thesis by fastforce
  next
    case False
    with decode(2) dec d show ?thesis
      by (subst (asm) drain.simps) (auto split: result.splits option.splits)
  qed
qed

section \<open>What the read loop keeps buffered\<close>

lemma decode_waits_bound:
  assumes "KdxCodec_decode crc c src = (Ok None, c', src')" and "codec_inv c"
  shows "length src' < max HEADER_LEN (unat (c_max_payload c))"
  using assms
  by (auto simp: KdxCodec_decode_def decode_payload_def codec_inv_def Let_def word_le_nat_alt not_less
      less_max_iff_disj split: option.splits if_splits result.splits)

lemma drain_waits_bound:
  assumes "drain crc c src = (fs, Ok (), c', src')" and "codec_inv c"
  shows "length src' < max HEADER_LEN (unat (c_max_payload c))"
proof -
  from drain_waits [OF assms(1)] obtain d s where "KdxCodec_decode crc c' src' = (Ok None, d, s)" "s = src'"
    by (subst (asm) drain.simps) (auto split: prod.splits result.splits option.splits)
  moreover from drain_inv [OF assms] have "codec_inv c'" "c_max_payload c' = c_max_payload c" by auto
  ultimately show ?thesis using decode_waits_bound by metis
qed

section \<open>Properties\<close>

text \<open>Property C3. Framing does not depend on how the transport cuts the stream: feeding the codec
  any chunks gives the frames, the outcome and the codec state of decoding their concatenation at once,
  malformed streams included. The bytes left over are the same too, unless the stream has failed: then the
  codec stops at the failing chunk and holds a prefix of what it would hold of the whole.\<close>

theorem codec_chunking:
  "same_run (feed crc (KdxCodec_new m) [] chunks) (drain crc (KdxCodec_new m) (concat chunks))"
  using feed_same_drain [of crc "KdxCodec_new m" "[]" chunks] by simp

text \<open>What one codec writes the other reads: frames of the current version that the
  encoder accepts come out of a decoder with the same cap unchanged and in order,
  however the bytes are delivered, and nothing is left over.\<close>

lemma codec_round_trip:
  assumes "encode_all crc (KdxCodec_new m) fs [] = Ok out"
    and "list_all (\<lambda>f. h_version (f_header f) = PROTOCOL_VERSION) fs"
    and "concat chunks = out"
  shows "feed crc (KdxCodec_new m) [] chunks = (fs, Ok (), KdxCodec_new m, [])"
proof -
  from assms(1) have out: "out = concat (map (frame_bytes crc) fs)"
      and ok: "\<forall>f\<in>set fs. unat (h_length (f_header f)) = length (f_payload f) \<and> h_length (f_header f) \<le> m"
    by (auto dest: encode_all_Ok simp: KdxCodec_new_def)
  with assms(2) have "\<forall>f\<in>set fs. frame_ok m f" by (auto simp: frame_ok_def list_all_iff)
  with out assms(3) show ?thesis by (simp add: feed_frames)
qed

definition sample_frame :: KdxFrame where
  "sample_frame = \<lparr>f_header = \<lparr>h_version = 2, h_packet_type = Ping, h_flags = 0, h_sequence = 7, h_length = 2\<rparr>,
     f_payload = [1, 2]\<rparr>"

text \<open>Property C4. Whatever a peer sends, every frame the codec yields has the current version, a
  payload of the length its header says and at most the cap, the loop never panics,
  and while it waits for bytes it holds fewer than a header or one capped payload.\<close>

theorem codec_bounds:
  assumes "drain crc (KdxCodec_new m) stream = (fs, st, c, buf)"
  shows "list_all (frame_ok m) fs \<and> st \<noteq> Panic \<and>
    (st = Ok () \<longrightarrow> length buf < max HEADER_LEN (unat m))"
proof -
  have inv: "codec_inv (KdxCodec_new m)" "c_max_payload (KdxCodec_new m) = m"
    by (simp_all add: codec_inv_new) (simp add: KdxCodec_new_def)
  with drain_inv [OF assms] have "\<forall>f\<in>set fs. frame_ok m f" by simp
  moreover have "st \<noteq> Panic" using drain_no_panic [of crc "KdxCodec_new m" stream] assms by simp
  moreover have "length buf < max HEADER_LEN (unat m)" if "st = Ok ()"
    using drain_waits_bound [of crc "KdxCodec_new m" stream fs c buf] assms that inv by simp
  ultimately show ?thesis by (simp add: list_all_iff)
qed

theorem codec_bounds_witness:
  "list_all (frame_ok 16) [sample_frame] \<and> (0 :: nat) < max HEADER_LEN 16"
proof -
  have "frame_ok 16 sample_frame"
    by (simp add: frame_ok_def sample_frame_def PROTOCOL_VERSION_def)
  then have "drain (\<lambda>_. 0) (KdxCodec_new 16) (concat (map (frame_bytes (\<lambda>_. 0)) [sample_frame])) =
      ([sample_frame], Ok (), KdxCodec_new 16, [])"
    by (intro drain_frames) simp
  from codec_bounds [OF this] show ?thesis by simp
qed

end
