(* ===== verification/Fragment.thy ===== *)
theory Fragment
  imports Codec
begin

text \<open>
  Splitting a payload over frames and putting it together again
  (\<open>kdx-protocol/src/fragment.rs\<close>). The closure \<open>next_sequence\<close> is a function on the
  caller's counter state; the connections of both sides pass \<open>counter\<close>.
\<close>

section \<open>Model\<close>

definition mk_frame :: "PacketType \<Rightarrow> PacketFlags \<Rightarrow> u32 \<Rightarrow> bytes \<Rightarrow> KdxFrame" where
  "mk_frame t flags sq payload =
     \<lparr>f_header = \<lparr>h_version = PROTOCOL_VERSION, h_packet_type = t, h_flags = flags,
        h_sequence = sq, h_length = of_nat (length payload)\<rparr>, f_payload = payload\<rparr>"

text \<open>\<open>while !remaining.is_empty()\<close>; the assertion of \<open>fragment\<close> excludes \<open>mx = 0\<close>.\<close>

function fragment_loop ::
  "PacketType \<Rightarrow> PacketFlags \<Rightarrow> bytes \<Rightarrow> nat \<Rightarrow> ('s \<Rightarrow> u32 \<times> 's) \<Rightarrow> 's \<Rightarrow> KdxFrame list \<times> 's" where
  "fragment_loop t flags remaining mx next_sequence s =
     (if remaining = [] \<or> mx = 0 then ([], s)
      else
        let tk = min (length remaining) mx;
            chunk = take tk remaining;
            remaining' = drop tk remaining;
            frame_flags = flags OR FRAGMENTED;
            frame_flags = (if remaining' \<noteq> [] then frame_flags OR MORE_FRAGMENTS else frame_flags);
            (sq, s') = next_sequence s;
            (frames, s'') = fragment_loop t flags remaining' mx next_sequence s'
        in (mk_frame t frame_flags sq chunk # frames, s''))"
  by pat_completeness auto

termination fragment_loop
  by (relation "measure (\<lambda>(t, flags, remaining, mx, nx, s). length remaining)") auto

declare fragment_loop.simps [simp del]

definition fragment ::
  "PacketType \<Rightarrow> PacketFlags \<Rightarrow> bytes \<Rightarrow> u32 \<Rightarrow> ('s \<Rightarrow> u32 \<times> 's) \<Rightarrow> 's \<Rightarrow>
     (KdxFrame list \<times> 's, protocol_error) result" where
  "fragment t flags payload max_payload next_sequence s =
     (if max_payload = 0 then Panic
      else
        let mx = unat max_payload in
        if length payload \<le> mx
        then (let (sq, s') = next_sequence s in Ok ([mk_frame t flags sq payload], s'))
        else Ok (fragment_loop t flags payload mx next_sequence s))"

text \<open>\<open>|| { let s = seq; seq = seq.wrapping_add(1); s }\<close>\<close>

definition counter :: "u32 \<Rightarrow> u32 \<times> u32" where
  "counter sq = (sq, sq + 1)"

record GroupState =
  g_packet_type :: PacketType
  g_next_sequence :: u32
  g_max_total :: nat

record Reassembler =
  r_buffer :: bytes
  r_in_progress :: "GroupState option"

definition Reassembler_default :: Reassembler where
  "Reassembler_default = \<lparr>r_buffer = [], r_in_progress = None\<rparr>"

definition is_reassembling :: "Reassembler \<Rightarrow> bool" where
  "is_reassembling r \<longleftrightarrow> r_in_progress r \<noteq> None"

definition abort :: "Reassembler \<Rightarrow> Reassembler" where
  "abort r = r\<lparr>r_in_progress := None, r_buffer := []\<rparr>"

definition finish :: "Reassembler \<Rightarrow> PacketHeader \<Rightarrow> KdxFrame \<times> Reassembler" where
  "finish r last_header =
     (let payload = r_buffer r in
      (\<lparr>f_header = last_header\<lparr>h_length := of_nat (length payload),
          h_flags := h_flags last_header AND NOT (FRAGMENTED OR MORE_FRAGMENTS)\<rparr>,
        f_payload = payload\<rparr>,
       r\<lparr>r_buffer := []\<rparr>))"

definition push ::
  "Reassembler \<Rightarrow> KdxFrame \<Rightarrow> nat \<Rightarrow> (KdxFrame option, protocol_error) result \<times> Reassembler" where
  "push r frame max_total =
     (let header = f_header frame; flags = h_flags header in
      if \<not> contains flags FRAGMENTED then
        (if r_in_progress r \<noteq> None then (Err FragmentInterleaved, r) else (Ok (Some frame), r))
      else case r_in_progress r of
        None \<Rightarrow>
          (let r = r\<lparr>r_buffer := f_payload frame\<rparr> in
           if length (r_buffer r) > max_total then (Err (ReassemblyTooLarge max_total), r)
           else if contains flags MORE_FRAGMENTS
           then (Ok None, r\<lparr>r_in_progress := Some \<lparr>g_packet_type = h_packet_type header,
                   g_next_sequence = h_sequence header + 1, g_max_total = max_total\<rparr>\<rparr>)
           else (let (f, r) = finish r header in (Ok (Some f), r)))
      | Some state \<Rightarrow>
          if h_packet_type header \<noteq> g_packet_type state then (Err FragmentInterleaved, r)
          else if h_sequence header \<noteq> g_next_sequence state
          then (Err (FragmentOutOfOrder (g_next_sequence state) (h_sequence header)), r)
          else
            (let r = r\<lparr>r_in_progress := Some (state\<lparr>g_next_sequence := g_next_sequence state + 1\<rparr>),
                   r_buffer := r_buffer r @ f_payload frame\<rparr> in
             if length (r_buffer r) > g_max_total state
             then (Err (ReassemblyTooLarge (g_max_total state)), r\<lparr>r_in_progress := None\<rparr>)
             else if contains flags MORE_FRAGMENTS then (Ok None, r)
             else (let (f, r) = finish (r\<lparr>r_in_progress := None\<rparr>) header in (Ok (Some f), r))))"

text \<open>Feed a sequence of frames, collecting the logical frames that complete.\<close>

fun push_all ::
  "(PacketType \<Rightarrow> nat) \<Rightarrow> Reassembler \<Rightarrow> KdxFrame list \<Rightarrow> (KdxFrame list, protocol_error) result \<times> Reassembler" where
  "push_all cap r [] = (Ok [], r)"
| "push_all cap r (f # fs) =
     (case push r f (cap (h_packet_type (f_header f))) of
        (Ok out, r') \<Rightarrow>
          (let (rest, r'') = push_all cap r' fs in
           (bind_result rest (\<lambda>gs. Ok ((case out of None \<Rightarrow> [] | Some g \<Rightarrow> [g]) @ gs)), r''))
      | (Err e, r') \<Rightarrow> (Err e, r')
      | (Panic, r') \<Rightarrow> (Panic, r'))"

section \<open>Flags of fragments\<close>

text \<open>Callers pass flags without the two fragment bits.\<close>

definition plain_flags :: "PacketFlags \<Rightarrow> bool" where
  "plain_flags flags \<longleftrightarrow> \<not> contains flags FRAGMENTED \<and> \<not> contains flags MORE_FRAGMENTS"

lemma bit_FRAGMENTED: "bit FRAGMENTED n \<longleftrightarrow> n = 12"
  unfolding FRAGMENTED_def bit_push_bit_iff by (auto simp: bit_1_iff)

lemma bit_MORE_FRAGMENTS: "bit MORE_FRAGMENTS n \<longleftrightarrow> n = 13"
  unfolding MORE_FRAGMENTS_def bit_push_bit_iff by (auto simp: bit_1_iff)

lemma fragment_flags:
  "contains (flags OR FRAGMENTED) FRAGMENTED"
  "contains ((flags OR FRAGMENTED) OR MORE_FRAGMENTS) FRAGMENTED"
  "contains ((flags OR FRAGMENTED) OR MORE_FRAGMENTS) MORE_FRAGMENTS"
  by (simp_all add: contains_FRAGMENTED contains_MORE_FRAGMENTS bit_or_iff
      bit_FRAGMENTED bit_MORE_FRAGMENTS)

lemma last_fragment_flags:
  "plain_flags flags \<Longrightarrow> \<not> contains (flags OR FRAGMENTED) MORE_FRAGMENTS"
  by (simp add: plain_flags_def contains_MORE_FRAGMENTS bit_or_iff bit_FRAGMENTED)

lemma strip_fragment_flags:
  assumes "plain_flags flags"
  shows "(flags OR FRAGMENTED) AND NOT FRAGMENTED AND NOT MORE_FRAGMENTS = flags"
proof -
  from assms have "\<not> bit flags 12" "\<not> bit flags 13"
    by (simp_all add: plain_flags_def contains_FRAGMENTED contains_MORE_FRAGMENTS)
  then show ?thesis
    by (intro bit_word_eqI) (auto simp: bit_or_iff bit_and_iff bit_not_iff bit_FRAGMENTED bit_MORE_FRAGMENTS)
qed

section \<open>Fragments of a payload\<close>

lemma fragment_loop_last:
  assumes "xs \<noteq> []" "length xs \<le> mx"
  shows "fragment_loop t flags xs mx counter sq = ([mk_frame t (flags OR FRAGMENTED) sq xs], sq + 1)"
proof -
  from assms have "0 < mx" by (cases xs) auto
  with assms show ?thesis
    by (subst fragment_loop.simps) (simp add: counter_def Let_def, subst fragment_loop.simps, simp)
qed

lemma fragment_loop_more:
  assumes "0 < mx" "mx < length xs" "fragment_loop t flags (drop mx xs) mx counter (sq + 1) = (fs, sq')"
  shows "fragment_loop t flags xs mx counter sq =
    (mk_frame t ((flags OR FRAGMENTED) OR MORE_FRAGMENTS) sq (take mx xs) # fs, sq')"
proof -
  from assms have "xs \<noteq> []" by auto
  with assms show ?thesis
    by (subst fragment_loop.simps) (simp add: counter_def Let_def)
qed

text \<open>Induction over the frames the loop produces: the last one, or one more in front.\<close>

lemma fragment_loop_induct [consumes 3, case_names last more]:
  assumes "fragment_loop t flags xs mx counter sq = (fs, sq')" and "xs \<noteq> []" and "0 < mx"
    and "\<And>xs sq. xs \<noteq> [] \<Longrightarrow> length xs \<le> mx \<Longrightarrow>
      P xs sq [mk_frame t (flags OR FRAGMENTED) sq xs] (sq + 1)"
    and "\<And>xs sq fs sq'. mx < length xs \<Longrightarrow>
      fragment_loop t flags (drop mx xs) mx counter (sq + 1) = (fs, sq') \<Longrightarrow> P (drop mx xs) (sq + 1) fs sq' \<Longrightarrow>
      P xs sq (mk_frame t ((flags OR FRAGMENTED) OR MORE_FRAGMENTS) sq (take mx xs) # fs) sq'"
  shows "P xs sq fs sq'"
  using assms(1,2)
proof (induction "length xs" arbitrary: xs sq fs rule: less_induct)
  case less
  show ?case
  proof (cases "length xs \<le> mx")
    case True
    with less have "fs = [mk_frame t (flags OR FRAGMENTED) sq xs]" "sq' = sq + 1"
      by (simp_all add: fragment_loop_last)
    with True less assms(4) show ?thesis by blast
  next
    case False
    obtain gs sq'' where gs: "fragment_loop t flags (drop mx xs) mx counter (sq + 1) = (gs, sq'')"
      by fastforce
    with False assms(3) less(2) have fs: "fs = mk_frame t ((flags OR FRAGMENTED) OR MORE_FRAGMENTS) sq (take mx xs) # gs"
        and sq: "sq'' = sq'"
      by (simp_all add: fragment_loop_more)
    from False assms(3) gs sq have "P (drop mx xs) (sq + 1) gs sq'"
      by (intro less(1)) auto
    with False fs gs sq assms(5) show ?thesis by simp
  qed
qed

lemma unat_chunk_len: "n \<le> unat (m :: u32) \<Longrightarrow> unat (of_nat n :: u32) = n"
  using unat_u32_le [of m] by (intro unat_len32) simp

lemma mk_frame_ok: "length xs \<le> unat m \<Longrightarrow> frame_ok m (mk_frame t flags sq xs)"
  by (simp add: frame_ok_def mk_frame_def word_le_nat_alt unat_chunk_len)

lemma fragment_loop_frames:
  assumes "fragment_loop t flags xs (unat m) counter sq = (fs, sq')" "xs \<noteq> []" "0 < unat m"
  shows "concat (map f_payload fs) = xs \<and> (\<forall>f\<in>set fs. frame_ok m f) \<and>
    sq' = sq + of_nat (length fs) \<and> fs \<noteq> [] \<and> (\<forall>f\<in>set fs. h_packet_type (f_header f) = t)"
  using assms
proof (induction rule: fragment_loop_induct)
  case (last xs sq)
  then show ?case by (simp add: mk_frame_ok) (simp add: mk_frame_def)
next
  case (more xs sq fs sq')
  moreover have "f_payload (mk_frame t' fl sq'' ys) = ys" for t' fl sq'' ys
    by (simp add: mk_frame_def)
  moreover have "h_packet_type (f_header (mk_frame t' fl sq'' ys)) = t'" for t' fl sq'' ys
    by (simp add: mk_frame_def)
  ultimately show ?case by (simp add: mk_frame_ok)
qed

lemma fragment_cases:
  assumes "fragment t flags payload m counter sq = Ok (frames, sq')"
  obtains (one) "0 < unat m" "length payload \<le> unat m" "frames = [mk_frame t flags sq payload]" "sq' = sq + 1"
  | (many) "0 < unat m" "unat m < length payload"
      "fragment_loop t flags payload (unat m) counter sq = (frames, sq')"
proof -
  from assms have "0 < unat m" by (auto simp: fragment_def unat_gt_0 split: if_splits)
  with assms that show thesis
    by (cases "length payload \<le> unat m") (auto simp: fragment_def counter_def Let_def split: if_splits)
qed

lemma fragment_frames:
  assumes "fragment t flags payload m counter sq = Ok (frames, sq')"
  shows "concat (map f_payload frames) = payload \<and> (\<forall>f\<in>set frames. frame_ok m f) \<and>
    sq' = sq + of_nat (length frames) \<and> frames \<noteq> [] \<and> (\<forall>f\<in>set frames. h_packet_type (f_header f) = t)"
  using assms
proof (cases rule: fragment_cases)
  case one
  then show ?thesis by (simp add: mk_frame_ok) (simp add: mk_frame_def)
next
  case many
  then show ?thesis by (intro fragment_loop_frames) auto
qed

lemma fragment_total: "0 < m \<Longrightarrow> \<exists>frames sq'. fragment t flags payload m counter sq = Ok (frames, sq')"
  by (cases "fragment_loop t flags payload (unat m) counter sq") (auto simp: fragment_def counter_def Let_def)

section \<open>Reassembly\<close>

text \<open>A group under way: the next fragments complete it with what is still missing.\<close>

lemma push_all_loop:
  assumes "fragment_loop t flags xs mx counter sq = (fs, sq')" "xs \<noteq> []" "0 < mx"
    and "plain_flags flags"
    and "r_in_progress r = Some \<lparr>g_packet_type = t, g_next_sequence = sq, g_max_total = tot\<rparr>"
    and "length (r_buffer r) + length xs \<le> tot"
  shows "push_all cap r fs = (Ok [mk_frame t flags (sq' - 1) (r_buffer r @ xs)], Reassembler_default)"
  using assms
proof (induction arbitrary: r rule: fragment_loop_induct)
  case (last xs sq)
  then show ?case
    by (simp add: push_def fragment_flags last_fragment_flags mk_frame_def finish_def
        strip_fragment_flags Reassembler_default_def)
next
  case (more xs sq fs sq')
  let ?r = "r\<lparr>r_in_progress := Some \<lparr>g_packet_type = t, g_next_sequence = sq + 1, g_max_total = tot\<rparr>,
    r_buffer := r_buffer r @ take mx xs\<rparr>"
  have "push_all cap ?r fs = (Ok [mk_frame t flags (sq' - 1) (r_buffer ?r @ drop mx xs)], Reassembler_default)"
    using more by (intro more.IH) auto
  with more show ?case
    by (simp add: push_def fragment_flags mk_frame_def)
qed

text \<open>The receiver hands on the sender's message, under the number of the last fragment.\<close>

lemma fragment_reassemble:
  assumes "fragment t flags payload m counter sq = Ok (frames, sq')" and "plain_flags flags"
    and "length payload \<le> cap t" and "r_in_progress r = None"
  shows "\<exists>r'. push_all cap r frames = (Ok [mk_frame t flags (sq' - 1) payload], r') \<and> r_in_progress r' = None"
  using assms(1)
proof (cases rule: fragment_cases)
  case one
  with assms show ?thesis by (simp add: push_def plain_flags_def mk_frame_def)
next
  case many
  let ?r = "r\<lparr>r_buffer := take (unat m) payload,
    r_in_progress := Some \<lparr>g_packet_type = t, g_next_sequence = sq + 1, g_max_total = cap t\<rparr>\<rparr>"
  obtain gs sq'' where gs: "fragment_loop t flags (drop (unat m) payload) (unat m) counter (sq + 1) = (gs, sq'')"
    by fastforce
  with many have fs: "frames = mk_frame t ((flags OR FRAGMENTED) OR MORE_FRAGMENTS) sq (take (unat m) payload) # gs"
      and sq: "sq'' = sq'"
    by (simp_all add: fragment_loop_more)
  have "push_all cap ?r gs = (Ok [mk_frame t flags (sq' - 1) (r_buffer ?r @ drop (unat m) payload)], Reassembler_default)"
    using assms many gs sq by (intro push_all_loop) auto
  with fs many assms show ?thesis
    by (simp add: push_def fragment_flags mk_frame_def Reassembler_default_def Let_def)
qed

section \<open>The buffer stays bounded\<close>

definition reasm_inv :: "Reassembler \<Rightarrow> bool" where
  "reasm_inv r \<longleftrightarrow> (\<forall>g. r_in_progress r = Some g \<longrightarrow> length (r_buffer r) \<le> g_max_total g)"

lemma push_inv:
  assumes "reasm_inv r" and "push r f max_total = (res, r')"
  shows "reasm_inv r'"
  using assms
  by (auto simp: push_def reasm_inv_def finish_def Let_def split: if_splits option.splits)

lemma push_no_panic: "fst (push r f max_total) \<noteq> Panic"
  by (auto simp: push_def finish_def Let_def split: option.splits)

end
