(* ===== verification/Transport.thy ===== *)
theory Transport
  imports Fragment
begin

text \<open>
  The message layer of a connection, on both sides: the server's \<open>reassemble\<close> and
  \<open>write_message\<close> (\<open>kdx-server-core/src/connection.rs\<close>) and the client's \<open>send\<close>
  (\<open>kdx-client-core/src/actor.rs\<close>), down to the bytes handed to the socket.
\<close>

section \<open>Model\<close>

record Skipping =
  k_packet_type :: PacketType
  k_next_sequence :: u32

record inbound =
  in_reassembler :: Reassembler
  in_skipping :: "Skipping option"

text \<open>
  What one inbound frame leads to: nothing yet, a complete message for dispatch,
  or the one \<open>Error\<close> answer \<open>"message too large (the limit is N bytes)"\<close>.
\<close>

datatype inbound_event = Nothing | Message KdxFrame | TooLarge nat

definition reassembly_cap :: "PacketType \<Rightarrow> nat" where
  "reassembly_cap t = max_request_payload t"

definition reassemble ::
  "inbound \<Rightarrow> KdxFrame \<Rightarrow> (inbound_event, protocol_error) result \<times> inbound" where
  "reassemble s frame =
     (let header = f_header frame;
          more_follow = contains (h_flags header) MORE_FRAGMENTS;
          refuse = Ok (TooLarge (reassembly_cap (h_packet_type header)))
      in case in_skipping s of
        Some skip \<Rightarrow>
          if \<not> contains (h_flags header) FRAGMENTED \<or> h_packet_type header \<noteq> k_packet_type skip
          then (Err FragmentInterleaved, s)
          else if h_sequence header \<noteq> k_next_sequence skip
          then (Err (FragmentOutOfOrder (k_next_sequence skip) (h_sequence header)), s)
          else if more_follow
          then (Ok Nothing, s\<lparr>in_skipping := Some (skip\<lparr>k_next_sequence := h_sequence header + 1\<rparr>)\<rparr>)
          else (refuse, s\<lparr>in_skipping := None\<rparr>)
      | None \<Rightarrow>
          (case push (in_reassembler s) frame (reassembly_cap (h_packet_type header)) of
            (Ok None, r) \<Rightarrow> (Ok Nothing, s\<lparr>in_reassembler := r\<rparr>)
          | (Ok (Some f), r) \<Rightarrow> (Ok (Message f), s\<lparr>in_reassembler := r\<rparr>)
          | (Err (ReassemblyTooLarge m), r) \<Rightarrow>
              if more_follow
              then (Ok Nothing, s\<lparr>in_reassembler := abort r,
                      in_skipping := Some \<lparr>k_packet_type = h_packet_type header,
                        k_next_sequence = h_sequence header + 1\<rparr>\<rparr>)
              else (refuse, s\<lparr>in_reassembler := abort r\<rparr>)
          | (Err e, r) \<Rightarrow> (Err e, s\<lparr>in_reassembler := r\<rparr>)
          | (Panic, r) \<Rightarrow> (Panic, s\<lparr>in_reassembler := r\<rparr>)))"

text \<open>The dispatch loop over a sequence of frames; the events it acts on.\<close>

fun reassemble_all ::
  "inbound \<Rightarrow> KdxFrame list \<Rightarrow> (inbound_event list, protocol_error) result \<times> inbound" where
  "reassemble_all s [] = (Ok [], s)"
| "reassemble_all s (f # fs) =
     (case reassemble s f of
        (Ok ev, s') \<Rightarrow>
          (let (rest, s'') = reassemble_all s' fs in
           (bind_result rest (\<lambda>evs. Ok ((if ev = Nothing then [] else [ev]) @ evs)), s''))
      | (Err e, s') \<Rightarrow> (Err e, s')
      | (Panic, s') \<Rightarrow> (Panic, s'))"

datatype send_error = MessageTooLarge nat | Rejected nat nat | Protocol protocol_error

fun lift_protocol :: "('a, protocol_error) result \<Rightarrow> ('a, send_error) result" where
  "lift_protocol (Ok x) = Ok x"
| "lift_protocol (Err e) = Err (Protocol e)"
| "lift_protocol Panic = Panic"

text \<open>Server to client: the bytes written and the connection's next sequence number.\<close>

definition write_message ::
  "(bytes \<Rightarrow> u32) \<Rightarrow> u32 \<Rightarrow> PacketType \<Rightarrow> PacketFlags \<Rightarrow> bytes \<Rightarrow> (bytes \<times> u32, send_error) result" where
  "write_message crc sq t flags payload =
     (if length payload > MAX_REASSEMBLED_PAYLOAD then Err (MessageTooLarge (length payload))
      else lift_protocol
        (bind_result (fragment t flags payload DEFAULT_MAX_FRAME_PAYLOAD counter sq) (\<lambda>(frames, sq').
         bind_result (encode_all crc KdxCodec_default frames []) (\<lambda>out. Ok (out, sq')))))"

text \<open>Client to server.\<close>

definition client_send ::
  "(bytes \<Rightarrow> u32) \<Rightarrow> u32 \<Rightarrow> PacketType \<Rightarrow> bytes \<Rightarrow> (bytes \<times> u32, send_error) result" where
  "client_send crc sq t payload =
     (let cap = max_request_payload t in
      if length payload > cap then Err (Rejected (length payload) cap)
      else lift_protocol
        (bind_result (fragment t 0 payload DEFAULT_MAX_FRAME_PAYLOAD counter sq) (\<lambda>(frames, sq').
         bind_result (encode_all crc KdxCodec_default frames []) (\<lambda>out. Ok (out, sq')))))"

text \<open>Several requests in a row, appended to what is already on the wire.\<close>

fun client_send_all ::
  "(bytes \<Rightarrow> u32) \<Rightarrow> u32 \<Rightarrow> (PacketType \<times> bytes) list \<Rightarrow> (bytes \<times> u32, send_error) result" where
  "client_send_all crc sq [] = Ok ([], sq)"
| "client_send_all crc sq ((t, payload) # msgs) =
     bind_result (client_send crc sq t payload) (\<lambda>(out, sq').
     bind_result (client_send_all crc sq' msgs) (\<lambda>(outs, sq''). Ok (out @ outs, sq'')))"

text \<open>What an inbound event delivers to dispatch.\<close>

fun delivered :: "inbound_event \<Rightarrow> (PacketType \<times> bytes) option" where
  "delivered (Message f) = Some (h_packet_type (f_header f), f_payload f)"
| "delivered _ = None"

section \<open>Inbound messages\<close>

definition inbound_idle :: "inbound \<Rightarrow> bool" where
  "inbound_idle s \<longleftrightarrow> in_skipping s = None \<and> \<not> is_reassembling (in_reassembler s)"

definition inbound_inv :: "inbound \<Rightarrow> bool" where
  "inbound_inv s \<longleftrightarrow> reasm_inv (in_reassembler s) \<and>
     (in_skipping s \<noteq> None \<longrightarrow> in_reassembler s = Reassembler_default) \<and>
     (\<forall>g. r_in_progress (in_reassembler s) = Some g \<longrightarrow>
        g_max_total g = reassembly_cap (g_packet_type g))"

lemma abort_default [simp]: "abort r = Reassembler_default"
  by (cases r) (simp add: abort_def Reassembler_default_def)

text \<open>While no group is being skipped, the server's loop is the reassembler.\<close>

lemma reassemble_push:
  assumes "in_skipping s = None" "push (in_reassembler s) f (reassembly_cap (h_packet_type (f_header f))) = (Ok out, r)"
  shows "reassemble s f = (Ok (case out of None \<Rightarrow> Nothing | Some g \<Rightarrow> Message g), s\<lparr>in_reassembler := r\<rparr>)"
  using assms by (cases out) (simp_all add: reassemble_def Let_def)

lemma reassemble_all_push_all:
  assumes "in_skipping s = None" "push_all reassembly_cap (in_reassembler s) fs = (Ok out, r)"
  shows "reassemble_all s fs = (Ok (map Message out), s\<lparr>in_reassembler := r\<rparr>)"
  using assms
proof (induction fs arbitrary: s out)
  case (Cons f fs)
  obtain res r1 where p: "push (in_reassembler s) f (reassembly_cap (h_packet_type (f_header f))) = (res, r1)"
    by fastforce
  from Cons.prems p obtain o1 where o1: "res = Ok o1" by (cases res) auto
  obtain rest r2 where pa: "push_all reassembly_cap r1 fs = (rest, r2)" by fastforce
  with Cons.prems p o1 obtain o2 where o2: "rest = Ok o2" "r2 = r"
      "out = (case o1 of None \<Rightarrow> [] | Some g \<Rightarrow> [g]) @ o2"
    by (auto simp: bind_result_Ok)
  from Cons.prems pa o2 have "reassemble_all (s\<lparr>in_reassembler := r1\<rparr>) fs =
      (Ok (map Message o2), s\<lparr>in_reassembler := r\<rparr>)"
    by (subst Cons.IH [of _ o2]) auto
  with reassemble_push [OF Cons.prems(1), of f o1 r1] p o1 o2 show ?case
    by (cases o1) simp_all
qed simp

lemma Skipping_loop:
  assumes "fragment_loop t flags xs mx counter sq = (fs, sq')" "xs \<noteq> []" "0 < mx" and "plain_flags flags"
    and "in_skipping s = Some \<lparr>k_packet_type = t, k_next_sequence = sq\<rparr>"
  shows "reassemble_all s fs = (Ok [TooLarge (reassembly_cap t)], s\<lparr>in_skipping := None\<rparr>)"
  using assms
proof (induction arbitrary: s rule: fragment_loop_induct)
  case (last xs sq)
  then show ?case
    by (simp add: reassemble_def Let_def mk_frame_def fragment_flags last_fragment_flags)
next
  case (more xs sq fs sq')
  let ?s = "s\<lparr>in_skipping := Some \<lparr>k_packet_type = t, k_next_sequence = sq + 1\<rparr>\<rparr>"
  have "reassemble_all ?s fs = (Ok [TooLarge (reassembly_cap t)], ?s\<lparr>in_skipping := None\<rparr>)"
    using more by (intro more.IH) auto
  with more show ?case
    by (simp add: reassemble_def Let_def mk_frame_def fragment_flags)
qed

lemma Overflow_loop:
  assumes "fragment_loop t flags xs mx counter sq = (fs, sq')" "xs \<noteq> []" "0 < mx" and "plain_flags flags"
    and "in_skipping s = None"
    and "r_in_progress (in_reassembler s) =
      Some \<lparr>g_packet_type = t, g_next_sequence = sq, g_max_total = reassembly_cap t\<rparr>"
    and "reassembly_cap t < length (r_buffer (in_reassembler s)) + length xs"
  shows "reassemble_all s fs = (Ok [TooLarge (reassembly_cap t)], s\<lparr>in_reassembler := Reassembler_default\<rparr>)"
  using assms
proof (induction arbitrary: s rule: fragment_loop_induct)
  case (last xs sq)
  then show ?case
    by (simp add: reassemble_def push_def Let_def mk_frame_def fragment_flags last_fragment_flags)
next
  case (more xs sq fs sq')
  let ?r = "in_reassembler s"
  let ?f = "mk_frame t ((flags OR FRAGMENTED) OR MORE_FRAGMENTS) sq (take mx xs)"
  show ?case
  proof (cases "reassembly_cap t < length (r_buffer ?r) + mx")
    case True
    let ?s = "s\<lparr>in_reassembler := Reassembler_default,
      in_skipping := Some \<lparr>k_packet_type = t, k_next_sequence = sq + 1\<rparr>\<rparr>"
    from more True assms(3) have "reassemble s ?f = (Ok Nothing, ?s)"
      by (simp add: reassemble_def push_def Let_def mk_frame_def fragment_flags)
    moreover have "reassemble_all ?s fs = (Ok [TooLarge (reassembly_cap t)], ?s\<lparr>in_skipping := None\<rparr>)"
      using more.hyps assms(3) more.prems by (intro Skipping_loop) auto
    ultimately show ?thesis using more by simp
  next
    case False
    let ?s = "s\<lparr>in_reassembler := ?r\<lparr>r_in_progress := Some \<lparr>g_packet_type = t, g_next_sequence = sq + 1,
        g_max_total = reassembly_cap t\<rparr>, r_buffer := r_buffer ?r @ take mx xs\<rparr>\<rparr>"
    from more False have "reassemble s ?f = (Ok Nothing, ?s)"
      by (simp add: reassemble_def push_def Let_def mk_frame_def fragment_flags)
    moreover have "reassemble_all ?s fs = (Ok [TooLarge (reassembly_cap t)], ?s\<lparr>in_reassembler := Reassembler_default\<rparr>)"
      using more by (intro more.IH) auto
    ultimately show ?thesis by simp
  qed
qed

text \<open>A message within the cap is delivered once; one over it is refused once. Either
  way the connection is idle again and takes the next message.\<close>

lemma reassemble_fragments:
  assumes "fragment t flags payload m counter sq = Ok (frames, sq')" and "plain_flags flags"
    and "unat m \<le> reassembly_cap t" and "inbound_idle s"
  shows "\<exists>s'. inbound_idle s' \<and> reassemble_all s frames =
    (Ok [if length payload \<le> reassembly_cap t then Message (mk_frame t flags (sq' - 1) payload)
         else TooLarge (reassembly_cap t)], s')"
proof (cases "length payload \<le> reassembly_cap t")
  case True
  from fragment_reassemble [OF assms(1,2), of reassembly_cap "in_reassembler s"] True assms(4)
  obtain r' where "push_all reassembly_cap (in_reassembler s) frames =
      (Ok [mk_frame t flags (sq' - 1) payload], r')" "r_in_progress r' = None"
    by (auto simp: inbound_idle_def is_reassembling_def)
  with reassemble_all_push_all [of s frames] assms(4) True show ?thesis
    by (auto simp: inbound_idle_def is_reassembling_def)
next
  case False
  from assms(1) show ?thesis
  proof (cases rule: fragment_cases)
    case one
    with False assms(3) show ?thesis by simp
  next
    case many
    let ?r = "(in_reassembler s)\<lparr>r_buffer := take (unat m) payload, r_in_progress :=
      Some \<lparr>g_packet_type = t, g_next_sequence = sq + 1, g_max_total = reassembly_cap t\<rparr>\<rparr>"
    let ?f = "mk_frame t ((flags OR FRAGMENTED) OR MORE_FRAGMENTS) sq (take (unat m) payload)"
    obtain gs sq'' where gs: "fragment_loop t flags (drop (unat m) payload) (unat m) counter (sq + 1) = (gs, sq'')"
      by fastforce
    with many have frames: "frames = ?f # gs" by (simp add: fragment_loop_more)
    have "reassemble s ?f = (Ok Nothing, s\<lparr>in_reassembler := ?r\<rparr>)"
      using assms many by (simp add: reassemble_def push_def Let_def mk_frame_def fragment_flags
          inbound_idle_def is_reassembling_def)
    moreover have "reassemble_all (s\<lparr>in_reassembler := ?r\<rparr>) gs =
        (Ok [TooLarge (reassembly_cap t)], s\<lparr>in_reassembler := Reassembler_default\<rparr>)"
      using gs many assms False by (subst Overflow_loop [OF gs]) (auto simp: inbound_idle_def)
    ultimately show ?thesis
      using frames False assms(4)
      by (simp add: inbound_idle_def is_reassembling_def Reassembler_default_def)
  qed
qed

section \<open>The inbound buffer\<close>

lemma push_group:
  assumes "push r f (reassembly_cap (h_packet_type (f_header f))) = (res, r')"
    and "\<forall>g. r_in_progress r = Some g \<longrightarrow> g_max_total g = reassembly_cap (g_packet_type g)"
  shows "\<forall>g. r_in_progress r' = Some g \<longrightarrow> g_max_total g = reassembly_cap (g_packet_type g)"
  using assms by (auto simp: push_def finish_def Let_def split: if_splits option.splits)

lemma reassemble_no_panic: "fst (reassemble s f) \<noteq> Panic"
  using push_no_panic [of "in_reassembler s" f "reassembly_cap (h_packet_type (f_header f))"]
  by (auto simp: reassemble_def Let_def split: option.splits prod.splits result.splits protocol_error.splits)

lemma reassemble_inv:
  assumes "inbound_inv s" and "reassemble s f = (res, s')"
  shows "inbound_inv s'"
proof (cases "in_skipping s")
  case None
  obtain pres r where p: "push (in_reassembler s) f (reassembly_cap (h_packet_type (f_header f))) = (pres, r)"
    by fastforce
  have "reasm_inv r" by (rule push_inv [OF _ p]) (use assms(1) in \<open>simp add: inbound_inv_def\<close>)
  moreover have "\<forall>g. r_in_progress r = Some g \<longrightarrow> g_max_total g = reassembly_cap (g_packet_type g)"
    by (rule push_group [OF p]) (use assms(1) in \<open>simp add: inbound_inv_def\<close>)
  ultimately have "inbound_inv (s\<lparr>in_reassembler := r\<rparr>)"
    using None by (simp add: inbound_inv_def)
  moreover have "inbound_inv (s\<lparr>in_reassembler := Reassembler_default\<rparr>)"
    "inbound_inv (s\<lparr>in_reassembler := Reassembler_default, in_skipping := sk\<rparr>)" for sk
    by (auto simp: inbound_inv_def reasm_inv_def Reassembler_default_def)
  ultimately show ?thesis
    using assms(2) p None
    by (auto simp: reassemble_def Let_def split: result.splits option.splits protocol_error.splits if_splits)
next
  case (Some skip)
  with assms show ?thesis
    by (auto simp: reassemble_def Let_def inbound_inv_def split: if_splits)
qed

section \<open>From one end to the other\<close>

lemma plain_flags_0: "plain_flags 0"
  by (simp add: plain_flags_def contains_FRAGMENTED contains_MORE_FRAGMENTS)

lemma unat_default_frame: "unat DEFAULT_MAX_FRAME_PAYLOAD = 16384"
  by (simp add: DEFAULT_MAX_FRAME_PAYLOAD_def)

lemma reassembly_cap_ge: "unat DEFAULT_MAX_FRAME_PAYLOAD \<le> reassembly_cap t"
  by (simp add: unat_default_frame reassembly_cap_def max_request_payload_def MAX_CONTROL_PAYLOAD_def
      MAX_REASSEMBLED_PAYLOAD_def MAX_TRANSFER_START_PAYLOAD_def)

lemma send_frames:
  obtains frames sq' where "fragment t flags payload DEFAULT_MAX_FRAME_PAYLOAD counter sq = Ok (frames, sq')"
    and "encode_all crc KdxCodec_default frames [] = Ok (concat (map (frame_bytes crc) frames))"
    and "\<forall>f\<in>set frames. frame_ok DEFAULT_MAX_FRAME_PAYLOAD f"
proof -
  have "0 < DEFAULT_MAX_FRAME_PAYLOAD" by (simp add: DEFAULT_MAX_FRAME_PAYLOAD_def)
  then obtain frames sq' where f: "fragment t flags payload DEFAULT_MAX_FRAME_PAYLOAD counter sq = Ok (frames, sq')"
    using fragment_total by blast
  from fragment_frames [OF f] have ok: "\<forall>f\<in>set frames. frame_ok DEFAULT_MAX_FRAME_PAYLOAD f" by blast
  then have "encode_all crc KdxCodec_default frames [] = Ok (concat (map (frame_bytes crc) frames))"
    using encode_all_frames [of frames KdxCodec_default crc "[]"]
    by (simp add: KdxCodec_default_def KdxCodec_new_def)
  with f ok that show thesis by blast
qed

lemma reassemble_all_append:
  assumes "reassemble_all s fs = (Ok evs, s')" "reassemble_all s' gs = (Ok evs', s'')"
  shows "reassemble_all s (fs @ gs) = (Ok (evs @ evs'), s'')"
  using assms
proof (induction fs arbitrary: s evs)
  case (Cons f fs)
  then show ?case
    by (cases "reassemble s f"; cases "fst (reassemble s f)") (auto split: prod.splits)
qed simp

lemma client_send_all_delivered:
  assumes "\<forall>(t, p)\<in>set msgs. length p \<le> max_request_payload t" and "inbound_idle s"
  shows "\<exists>frames sq' evs s'. client_send_all crc sq msgs = Ok (concat (map (frame_bytes crc) frames), sq') \<and>
    (\<forall>f\<in>set frames. frame_ok DEFAULT_MAX_FRAME_PAYLOAD f) \<and>
    reassemble_all s frames = (Ok evs, s') \<and> inbound_idle s' \<and> map delivered evs = map Some msgs"
  using assms
proof (induction msgs arbitrary: sq s)
  case Nil
  then show ?case by (intro exI [of _ "[]"]) simp
next
  case (Cons m msgs)
  obtain t p where m: "m = (t, p)" by fastforce
  with Cons.prems have len: "length p \<le> max_request_payload t" by simp
  obtain frames sq1 where f: "fragment t 0 p DEFAULT_MAX_FRAME_PAYLOAD counter sq = Ok (frames, sq1)"
      and enc: "encode_all crc KdxCodec_default frames [] = Ok (concat (map (frame_bytes crc) frames))"
      and ok: "\<forall>f\<in>set frames. frame_ok DEFAULT_MAX_FRAME_PAYLOAD f"
    by (rule send_frames)
  from reassemble_fragments [OF f plain_flags_0 reassembly_cap_ge Cons.prems(2)] len
  obtain s1 where s1: "inbound_idle s1"
      "reassemble_all s frames = (Ok [Message (mk_frame t 0 (sq1 - 1) p)], s1)"
    by (auto simp: reassembly_cap_def)
  from Cons.prems have "\<forall>(t, p)\<in>set msgs. length p \<le> max_request_payload t" by simp
  from Cons.IH [OF this s1(1), of sq1] obtain gs sq' evs s' where
      gs: "client_send_all crc sq1 msgs = Ok (concat (map (frame_bytes crc) gs), sq')"
      "\<forall>f\<in>set gs. frame_ok DEFAULT_MAX_FRAME_PAYLOAD f"
      "reassemble_all s1 gs = (Ok evs, s')" "inbound_idle s'" "map delivered evs = map Some msgs"
    by blast
  have "client_send_all crc sq (m # msgs) = Ok (concat (map (frame_bytes crc) (frames @ gs)), sq')"
    using m len f enc gs(1) by (simp add: client_send_def)
  moreover have "reassemble_all s (frames @ gs) = (Ok (Message (mk_frame t 0 (sq1 - 1) p) # evs), s')"
    using reassemble_all_append [OF s1(2) gs(3)] by simp
  moreover have "map delivered (Message (mk_frame t 0 (sq1 - 1) p) # evs) = map Some (m # msgs)"
    using gs(5) m by (simp add: mk_frame_def)
  ultimately show ?case using ok gs(2,4) by (metis Un_iff set_append)
qed

section \<open>Reachable states\<close>

text \<open>Every state of the inbound side is reached by feeding it frames.\<close>

inductive inbound_reachable :: "inbound \<Rightarrow> bool" where
  start: "inbound_reachable \<lparr>in_reassembler = Reassembler_default, in_skipping = None\<rparr>"
| frame: "inbound_reachable s \<Longrightarrow> reassemble s f = (res, s') \<Longrightarrow> inbound_reachable s'"
| timeout: "inbound_reachable s \<Longrightarrow> inbound_reachable (s\<lparr>in_reassembler := abort (in_reassembler s)\<rparr>)"

lemma inbound_reachable_inv: "inbound_reachable s \<Longrightarrow> inbound_inv s"
proof (induction rule: inbound_reachable.induct)
  case start
  then show ?case by (simp add: inbound_inv_def reasm_inv_def Reassembler_default_def)
next
  case (frame s f res s')
  then show ?case by (blast intro: reassemble_inv)
next
  case (timeout s)
  then show ?case by (auto simp: inbound_inv_def reasm_inv_def Reassembler_default_def)
qed

section \<open>Properties\<close>

text \<open>Property C2. A fragmented request is answered as one message: the server, idle, fed the
  fragments of a payload delivers it once if it is within the cap of its type, and
  otherwise skips the whole group and refuses it with exactly one error. Either way it
  is idle again, so the session survives.\<close>

theorem oversized_refused_once:
  assumes "fragment t flags payload m counter sq = Ok (frames, sq')" and "plain_flags flags"
    and "unat m \<le> reassembly_cap t" and "inbound_idle s"
  shows "\<exists>s'. inbound_idle s' \<and> reassemble_all s frames =
    (Ok [if length payload \<le> reassembly_cap t then Message (mk_frame t flags (sq' - 1) payload)
         else TooLarge (reassembly_cap t)], s')"
  using assms by (rule reassemble_fragments)

definition idle_start :: inbound where
  "idle_start = \<lparr>in_reassembler = Reassembler_default, in_skipping = None\<rparr>"

theorem oversized_refused_once_witness:
  "\<exists>frames sq' s'. fragment ChatMessage 0 (replicate 70000 0) 16384 counter 5 = Ok (frames, sq') \<and>
     inbound_idle s' \<and> reassemble_all idle_start frames = (Ok [TooLarge 65536], s')"
proof -
  obtain frames sq' where f: "fragment ChatMessage 0 (replicate 70000 0) 16384 counter 5 = Ok (frames, sq')"
    using fragment_total [of 16384 ChatMessage 0 "replicate 70000 0" 5] by auto
  have cap: "reassembly_cap ChatMessage = 65536"
    by (simp add: reassembly_cap_def max_request_payload_def MAX_CONTROL_PAYLOAD_def)
  have "\<exists>s'. inbound_idle s' \<and> reassemble_all idle_start frames =
      (Ok [if length (replicate 70000 (0 :: u8)) \<le> reassembly_cap ChatMessage
           then Message (mk_frame ChatMessage 0 (sq' - 1) (replicate 70000 0))
           else TooLarge (reassembly_cap ChatMessage)], s')"
    by (rule oversized_refused_once [OF f])
      (simp_all add: cap plain_flags_def contains_FRAGMENTED contains_MORE_FRAGMENTS inbound_idle_def
        idle_start_def is_reassembling_def Reassembler_default_def)
  with f cap show ?thesis by auto
qed

text \<open>In every reachable state the server buffers at most the cap of the type being
  assembled (4 MiB at most), nothing at all while it skips an oversized group, and no
  frame makes it panic.\<close>

lemma inbound_bounded:
  assumes "inbound_reachable s"
  shows "(in_skipping s \<noteq> None \<longrightarrow> r_buffer (in_reassembler s) = []) \<and>
    (r_in_progress (in_reassembler s) = Some g \<longrightarrow>
       length (r_buffer (in_reassembler s)) \<le> reassembly_cap (g_packet_type g) \<and>
       reassembly_cap (g_packet_type g) \<le> MAX_REASSEMBLED_PAYLOAD) \<and>
    fst (reassemble s f) \<noteq> Panic"
proof -
  have inv: "inbound_inv s" using assms by (rule inbound_reachable_inv)
  then have "in_skipping s \<noteq> None \<longrightarrow> r_buffer (in_reassembler s) = []"
    by (auto simp: inbound_inv_def Reassembler_default_def)
  moreover have "r_in_progress (in_reassembler s) = Some g \<longrightarrow>
      length (r_buffer (in_reassembler s)) \<le> reassembly_cap (g_packet_type g)"
    using inv by (auto simp: inbound_inv_def reasm_inv_def)
  ultimately show ?thesis
    using max_request_payload_le reassemble_no_panic by (auto simp: reassembly_cap_def)
qed

definition first_fragment :: KdxFrame where
  "first_fragment = mk_frame ChatMessage (FRAGMENTED OR MORE_FRAGMENTS) 1 [10, 20, 30]"

definition group_open :: GroupState where
  "group_open = \<lparr>g_packet_type = ChatMessage, g_next_sequence = 2, g_max_total = 65536\<rparr>"

end
