(* ===== verification/Classes.thy ===== *)
theory Classes
  imports Utf8
begin

text \<open>
  User classes and privilege bits (\<open>kdx-server-core/src/auth/classes.rs\<close>) and the
  folder access rules built on them (\<open>files/acl.rs\<close>).
\<close>

section \<open>Privileges\<close>

type_synonym Privileges = u32

definition CHAT_SEND :: Privileges where "CHAT_SEND = push_bit 0 1"
definition CHAT_PRIVATE :: Privileges where "CHAT_PRIVATE = push_bit 1 1"
definition CHAT_CREATE_ROOM :: Privileges where "CHAT_CREATE_ROOM = push_bit 2 1"
definition CHAT_SET_TOPIC :: Privileges where "CHAT_SET_TOPIC = push_bit 3 1"
definition FILE_LIST :: Privileges where "FILE_LIST = push_bit 4 1"
definition FILE_DOWNLOAD :: Privileges where "FILE_DOWNLOAD = push_bit 5 1"
definition FILE_UPLOAD :: Privileges where "FILE_UPLOAD = push_bit 6 1"
definition FILE_DELETE :: Privileges where "FILE_DELETE = push_bit 7 1"
definition FILE_MANAGE_TREE :: Privileges where "FILE_MANAGE_TREE = push_bit 8 1"
definition USER_KICK :: Privileges where "USER_KICK = push_bit 16 1"
definition USER_BAN :: Privileges where "USER_BAN = push_bit 17 1"
definition USER_ADMIN :: Privileges where "USER_ADMIN = push_bit 18 1"
definition SERVER_ADMIN :: Privileges where "SERVER_ADMIN = push_bit 19 1"

lemmas privilege_defs = CHAT_SEND_def CHAT_PRIVATE_def CHAT_CREATE_ROOM_def CHAT_SET_TOPIC_def
  FILE_LIST_def FILE_DOWNLOAD_def FILE_UPLOAD_def FILE_DELETE_def FILE_MANAGE_TREE_def
  USER_KICK_def USER_BAN_def USER_ADMIN_def SERVER_ADMIN_def

text \<open>\<open>Privileges::all()\<close>, \<open>from_bits_truncate\<close>, \<open>contains\<close> and \<open>-\<close> as \<open>bitflags\<close> documents them.\<close>

definition Privileges_all :: Privileges where
  "Privileges_all = CHAT_SEND OR CHAT_PRIVATE OR CHAT_CREATE_ROOM OR CHAT_SET_TOPIC OR FILE_LIST OR
     FILE_DOWNLOAD OR FILE_UPLOAD OR FILE_DELETE OR FILE_MANAGE_TREE OR USER_KICK OR USER_BAN OR
     USER_ADMIN OR SERVER_ADMIN"

definition from_bits_truncate :: "u32 \<Rightarrow> Privileges" where
  "from_bits_truncate bits = bits AND Privileges_all"

definition has :: "Privileges \<Rightarrow> Privileges \<Rightarrow> bool" where
  "has p q \<longleftrightarrow> p AND q = q"

definition minus_privileges :: "Privileges \<Rightarrow> Privileges \<Rightarrow> Privileges" where
  "minus_privileges p q = p AND NOT q"

section \<open>Classes\<close>

datatype BaseClass = Guest | User | PowerUser | Admin

primrec class_u8 :: "BaseClass \<Rightarrow> nat" where
  "class_u8 Guest = 0"
| "class_u8 User = 1"
| "class_u8 PowerUser = 2"
| "class_u8 Admin = 3"

text \<open>\<open>#[derive(PartialOrd, Ord)]\<close>: the order of the discriminants.\<close>

instantiation BaseClass :: linorder
begin

definition less_eq_BaseClass :: "BaseClass \<Rightarrow> BaseClass \<Rightarrow> bool" where
  "less_eq_BaseClass a b \<longleftrightarrow> class_u8 a \<le> class_u8 b"

definition less_BaseClass :: "BaseClass \<Rightarrow> BaseClass \<Rightarrow> bool" where
  "less_BaseClass a b \<longleftrightarrow> class_u8 a < class_u8 b"

instance
proof
  fix a b :: BaseClass
  assume "a \<le> b" "b \<le> a"
  then show "a = b" by (cases a; cases b) (simp_all add: less_eq_BaseClass_def)
qed (auto simp: less_eq_BaseClass_def less_BaseClass_def)

end

lemmas class_order = less_eq_BaseClass_def less_BaseClass_def

function class_privileges :: "BaseClass \<Rightarrow> Privileges" where
  "class_privileges Guest = CHAT_SEND OR FILE_LIST"
| "class_privileges User = class_privileges Guest OR CHAT_PRIVATE OR FILE_DOWNLOAD OR FILE_UPLOAD"
| "class_privileges PowerUser =
     class_privileges User OR CHAT_CREATE_ROOM OR CHAT_SET_TOPIC OR FILE_DELETE OR FILE_MANAGE_TREE"
| "class_privileges Admin = Privileges_all"
  by pat_completeness auto

termination class_privileges
  by (relation "measure class_u8") auto

definition BaseClass_try_from :: "nat \<Rightarrow> BaseClass option" where
  "BaseClass_try_from v =
     (if v = 0 then Some Guest else if v = 1 then Some User else if v = 2 then Some PowerUser
      else if v = 3 then Some Admin else None)"

definition effective_privileges :: "BaseClass \<Rightarrow> Privileges \<Rightarrow> u32 \<Rightarrow> u32 \<Rightarrow> Privileges" where
  "effective_privileges base roles granted revoked =
     (let granted = from_bits_truncate granted; revoked = from_bits_truncate revoked in
      minus_privileges (class_privileges base OR roles OR granted) revoked)"

section \<open>Privileges as sets of bits\<close>

lemma has_iff: "has p q \<longleftrightarrow> (\<forall>n. bit q n \<longrightarrow> bit p n)"
proof
  assume "has p q"
  then show "\<forall>n. bit q n \<longrightarrow> bit p n" by (metis bit_and_iff has_def)
next
  assume "\<forall>n. bit q n \<longrightarrow> bit p n"
  then show "has p q" unfolding has_def by (intro bit_word_eqI) (auto simp: bit_and_iff)
qed

lemma has_refl [simp]: "has p p"
  by (simp add: has_def)

lemma has_trans: "has p q \<Longrightarrow> has q r \<Longrightarrow> has p r"
  by (auto simp: has_iff)

lemma has_or [simp]: "has p (q OR r) \<longleftrightarrow> has p q \<and> has p r"
  by (auto simp: has_iff bit_or_iff)

lemma has_and: "has (p AND q) r \<longleftrightarrow> has p r \<and> has q r"
  by (auto simp: has_iff bit_and_iff)

lemma has_zero [simp]: "has p 0"
  by (simp add: has_def)

lemma bit_from_bits_truncate: "bit (from_bits_truncate x) n \<longleftrightarrow> bit x n \<and> bit Privileges_all n"
  by (simp add: from_bits_truncate_def bit_and_iff)

lemma bit_effective:
  "bit (effective_privileges c r g v) n \<longleftrightarrow> n < 32 \<and>
     (bit (class_privileges c) n \<or> bit r n \<or> bit g n \<and> bit Privileges_all n) \<and>
     \<not> (bit v n \<and> bit Privileges_all n)"
  by (auto simp: effective_privileges_def minus_privileges_def bit_from_bits_truncate bit_and_iff
      bit_or_iff bit_not_iff Let_def dest: bit_imp_le_length)

lemma bit_class_privileges: "bit (class_privileges c) n \<Longrightarrow> bit Privileges_all n"
  by (cases c) (auto simp: Privileges_all_def bit_or_iff)

lemma class_privileges_mono: "a \<le> b \<Longrightarrow> has (class_privileges b) (class_privileges a)"
  by (cases a; cases b) (auto simp: class_order has_iff bit_or_iff Privileges_all_def)

lemma BaseClass_try_from_u8 [simp]: "BaseClass_try_from (class_u8 c) = Some c"
  by (cases c) (simp_all add: BaseClass_try_from_def)

lemma BaseClass_try_from_Some: "BaseClass_try_from v = Some c \<Longrightarrow> v = class_u8 c"
  by (auto simp: BaseClass_try_from_def split: if_splits)

lemma class_le_Admin [simp]: "c \<le> Admin"
  by (cases c) (simp_all add: class_order)

lemma not_Admin_less [simp]: "\<not> Admin < c"
  by (simp add: not_less)

section \<open>Folder access (files/acl.rs)\<close>

datatype NodeKind = Directory | File | DropBoxKind | UploadFolder | Alias

datatype AccessItem = DefaultItem | UploadItem | DropBoxItem

datatype AclError = DropBoxIsWriteOnly | ClassTooLow | PrivilegeRequired string | OwnerOnly | ForeignOwner

text \<open>
  \<open>name.rfind('[')\<close>, the text up to a final \<open>]\<close>, trimmed and lower-cased. The bytes
  compared are ASCII, so a byte-wise scan finds the characters of the UTF-8 string.
\<close>

definition ascii_lower :: "char \<Rightarrow> char" where
  "ascii_lower c =
     (let n = of_char c :: nat in if 65 \<le> n \<and> n \<le> 90 then char_of (n + 32) else c)"

fun after_last_open :: "string \<Rightarrow> string option" where
  "after_last_open [] = None"
| "after_last_open (c # cs) =
     (case after_last_open cs of Some t \<Rightarrow> Some t | None \<Rightarrow> if c = CHR ''['' then Some cs else None)"

definition AccessItem_parse :: "string \<Rightarrow> AccessItem" where
  "AccessItem_parse name =
     (case after_last_open name of
        None \<Rightarrow> DefaultItem
      | Some t \<Rightarrow>
          if t = [] \<or> last t \<noteq> CHR '']'' then DefaultItem
          else
            let tag = map ascii_lower (trim (butlast t)) in
            if tag = ''db'' then DropBoxItem else if tag = ''ul'' then UploadItem else DefaultItem)"

definition is_drop_box :: "NodeKind \<Rightarrow> AccessItem \<Rightarrow> bool" where
  "is_drop_box kind item \<longleftrightarrow> kind = DropBoxKind \<or> item = DropBoxItem"

definition check_read ::
  "NodeKind \<Rightarrow> AccessItem \<Rightarrow> BaseClass \<Rightarrow> BaseClass \<Rightarrow> Privileges \<Rightarrow> string option \<Rightarrow> string \<Rightarrow> (unit, AclError) result" where
  "check_read kind item min_read cls privs owner user =
     (if is_drop_box kind item then
        (if Admin \<le> cls then Ok ()
         else if owner = Some user then Ok ()
         else Err DropBoxIsWriteOnly)
      else if cls < min_read then Err ClassTooLow
      else Ok ())"

definition check_write ::
  "NodeKind \<Rightarrow> AccessItem \<Rightarrow> BaseClass \<Rightarrow> BaseClass \<Rightarrow> Privileges \<Rightarrow> (unit, AclError) result" where
  "check_write kind item min_write cls privs =
     (if cls < min_write then Err ClassTooLow
      else if \<not> has privs FILE_UPLOAD then Err (PrivilegeRequired ''upload'')
      else Ok ())"

definition check_delete ::
  "NodeKind \<Rightarrow> AccessItem \<Rightarrow> BaseClass \<Rightarrow> BaseClass \<Rightarrow> Privileges \<Rightarrow> string option \<Rightarrow> string \<Rightarrow> (unit, AclError) result" where
  "check_delete kind item min_write cls privs owner user =
     (if is_drop_box kind item then
        (if Admin \<le> cls then Ok ()
         else if owner = Some user then Ok ()
         else Err OwnerOnly)
      else
        let upload_folder = (kind = UploadFolder \<or> item = UploadItem) in
        if upload_folder \<and> cls < Admin then Err ClassTooLow
        else if cls < min_write then Err ClassTooLow
        else Ok ())"

section \<open>Properties\<close>

text \<open>Revokes win: a bit revoked on an account is not among its effective privileges,
  whatever its class, roles and grants; every other defined bit is held exactly when the
  class, a role or a grant gives it, and undefined bits of the overrides never become
  privileges.\<close>

lemma revokes_win:
  "bit (effective_privileges c r g v) n \<longleftrightarrow>
     (bit (class_privileges c) n \<or> bit r n \<or> bit g n \<and> bit Privileges_all n) \<and>
     \<not> (bit v n \<and> bit Privileges_all n)"
  by (auto simp: bit_effective dest: bit_imp_le_length)

text \<open>A drop box is write-only: reading or deleting in it is allowed exactly to an
  Admin or to its owner, whatever the folder's class gate and the account's privileges;
  an upload needs the class gate and \<open>FILE_UPLOAD\<close> in every kind of folder; and in an upload
  folder only an Admin may delete.\<close>

lemma drop_box_access:
  "(is_drop_box kind item \<and> (check_read kind item m cls p owner user = Ok () \<or>
        check_delete kind item m cls p owner user = Ok ()) \<longrightarrow> cls = Admin \<or> owner = Some user) \<and>
   (is_drop_box kind item \<and> (cls = Admin \<or> owner = Some user) \<longrightarrow>
      check_read kind item m cls p owner user = Ok () \<and> check_delete kind item m cls p owner user = Ok ()) \<and>
   (check_write kind item m cls p = Ok () \<longleftrightarrow> m \<le> cls \<and> has p FILE_UPLOAD) \<and>
   (\<not> is_drop_box kind item \<and> (kind = UploadFolder \<or> item = UploadItem) \<and>
      check_delete kind item m cls p owner user = Ok () \<longrightarrow> cls = Admin)"
  by (auto simp: check_read_def check_delete_def check_write_def Let_def not_less
      intro: antisym split: if_splits)

end
