(* ===== verification/Policy.thy ===== *)
theory Policy
  imports Classes Msg_Account Msg_Roles
begin

text \<open>
  Admin authorization (\<open>kdx-server-core/src/auth/policy.rs\<close>) over the account and role
  tables (\<open>auth/roles.rs\<close>, \<open>kdx-storage/src/roles.rs\<close>, \<open>accounts.rs\<close>).

  The tables are lists of rows and a SQL statement is the list operation it
  denotes; the statements of one request run under the mutation lock, so a
  request is one step. A statement fails only on a constraint of the schema.
  Row identifiers are generated by the caller of the model, and a live session that is
  told to go is recorded in \<open>disconnects\<close>, in order.
\<close>

section \<open>Credentials (kdx-crypto)\<close>

record StoredCredential =
  cr_salt :: bytes
  cr_m_cost :: u32
  cr_t_cost :: u32
  cr_p_cost :: u32
  cr_stored_key :: bytes
  cr_server_key :: bytes

datatype crypto_error = UnacceptableKdf string

definition MIN_M_COST :: u32 where "MIN_M_COST = 19456"
definition MAX_M_COST :: u32 where "MAX_M_COST = 262144"
definition MIN_T_COST :: u32 where "MIN_T_COST = 2"
definition MAX_T_COST :: u32 where "MAX_T_COST = 10"
definition MIN_P_COST :: u32 where "MIN_P_COST = 1"
definition MAX_P_COST :: u32 where "MAX_P_COST = 4"
definition MIN_SALT_LEN :: nat where "MIN_SALT_LEN = 16"
definition MAX_SALT_LEN :: nat where "MAX_SALT_LEN = 64"

definition check_bounds :: "u32 \<Rightarrow> u32 \<Rightarrow> u32 \<Rightarrow> nat \<Rightarrow> (unit, crypto_error) result" where
  "check_bounds m_cost t_cost p_cost salt_len =
     (if \<not> (MIN_M_COST \<le> m_cost \<and> m_cost \<le> MAX_M_COST)
      then Err (UnacceptableKdf ''memory cost out of range'')
      else if \<not> (MIN_T_COST \<le> t_cost \<and> t_cost \<le> MAX_T_COST)
      then Err (UnacceptableKdf ''time cost out of range'')
      else if \<not> (MIN_P_COST \<le> p_cost \<and> p_cost \<le> MAX_P_COST)
      then Err (UnacceptableKdf ''parallelism out of range'')
      else if \<not> (MIN_SALT_LEN \<le> salt_len \<and> salt_len \<le> MAX_SALT_LEN)
      then Err (UnacceptableKdf ''salt length out of range'')
      else Ok ())"

definition check_acceptable :: "StoredCredential \<Rightarrow> (unit, crypto_error) result" where
  "check_acceptable c =
     bind_result (check_bounds (cr_m_cost c) (cr_t_cost c) (cr_p_cost c) (length (cr_salt c))) (\<lambda>_.
     if cr_stored_key c = replicate 32 0 \<or> cr_server_key c = replicate 32 0
     then Err (UnacceptableKdf ''credential key is all zeros'') else Ok ())"

section \<open>Authorities and accounts\<close>

definition ADMIN_CORE :: Privileges where
  "ADMIN_CORE = USER_ADMIN OR SERVER_ADMIN"

definition known_bits :: "u32 \<Rightarrow> u32" where
  "known_bits bits = bits AND Privileges_all"

datatype Denied =
    Missing Privileges | ActorGone | InvalidClass | ClassTooHigh | ExceedsOwnPrivileges
  | TargetOutranks | HolderOutranks | SelfEscalation | LastAdmin | BanOutranks | UnbanOutranks
  | OwnPassword

text \<open>\<open>Refusal::Denied\<close> carries a text; the policy's own reasons are kept apart from other texts.\<close>

datatype Refusal = PolicyDenied Denied | DeniedText string

record Authority =
  au_class :: BaseClass
  au_privileges :: Privileges

definition may_manage :: "Authority \<Rightarrow> Authority \<Rightarrow> bool" where
  "may_manage self target =
     (let rank_ok = (au_class self = Admin \<or> au_class target < au_class self) in
      rank_ok \<and> has (au_privileges self) (au_privileges target))"

record AccountState =
  as_account_id :: string
  as_username :: string
  as_class :: BaseClass
  as_granted :: u32
  as_revoked :: u32
  as_role_privileges :: Privileges

definition effective :: "AccountState \<Rightarrow> Privileges" where
  "effective a = effective_privileges (as_class a) (as_role_privileges a) (as_granted a) (as_revoked a)"

definition authority :: "AccountState \<Rightarrow> Authority" where
  "authority a = \<lparr>au_class = as_class a, au_privileges = effective a\<rparr>"

definition administers :: "AccountState \<Rightarrow> bool" where
  "administers a \<longleftrightarrow> as_class a = Admin \<and> has (effective a) ADMIN_CORE"

definition with_overrides :: "AccountState \<Rightarrow> BaseClass \<Rightarrow> u32 \<Rightarrow> u32 \<Rightarrow> AccountState" where
  "with_overrides a c g r = a\<lparr>as_class := c, as_granted := g, as_revoked := r\<rparr>"

record Session =
  s_username :: string
  s_class :: BaseClass
  s_privileges :: Privileges

record Actor =
  ac_username :: string
  ac_authority :: Authority

definition narrowed :: "Session \<Rightarrow> AccountState \<Rightarrow> Actor" where
  "narrowed session stored =
     \<lparr>ac_username = s_username session,
      ac_authority = \<lparr>au_class = min (s_class session) (as_class stored),
        au_privileges = s_privileges session AND effective stored\<rparr>\<rparr>"

section \<open>The checks\<close>

definition check_assignable_class :: "Authority \<Rightarrow> u8 \<Rightarrow> (BaseClass, Denied) result" where
  "check_assignable_class actor cls =
     (case BaseClass_try_from (unat cls) of
        None \<Rightarrow> Err InvalidClass
      | Some c \<Rightarrow> if au_class actor \<noteq> Admin \<and> au_class actor \<le> c then Err ClassTooHigh else Ok c)"

definition check_overrides :: "Authority \<Rightarrow> BaseClass \<Rightarrow> u32 \<Rightarrow> u32 \<Rightarrow> (unit, Denied) result" where
  "check_overrides actor cls granted revoked =
     (let granted_bits = from_bits_truncate granted;
          resulting = effective_privileges cls 0 granted revoked in
      if \<not> has (au_privileges actor) (granted_bits OR resulting) then Err ExceedsOwnPrivileges else Ok ())"

definition check_account_create :: "Authority \<Rightarrow> u8 \<Rightarrow> u32 \<Rightarrow> u32 \<Rightarrow> (BaseClass, Denied) result" where
  "check_account_create actor cls granted revoked =
     bind_result (check_assignable_class actor cls) (\<lambda>c.
     bind_result (check_overrides actor c granted revoked) (\<lambda>_. Ok c))"

definition check_account_update ::
  "Actor \<Rightarrow> AccountState \<Rightarrow> u8 \<Rightarrow> u32 \<Rightarrow> u32 \<Rightarrow> (BaseClass, Denied) result" where
  "check_account_update actor target cls granted revoked =
     (if \<not> may_manage (ac_authority actor) (authority target) then Err TargetOutranks
      else
        bind_result (check_assignable_class (ac_authority actor) cls) (\<lambda>c.
        bind_result (check_overrides (ac_authority actor) c granted revoked) (\<lambda>_.
        if as_username target = ac_username actor \<and>
           (as_class target < c \<or> \<not> has (effective target) (effective (with_overrides target c granted revoked)))
        then Err SelfEscalation
        else Ok c)))"

definition check_password_reset :: "Actor \<Rightarrow> AccountState \<Rightarrow> (unit, Denied) result" where
  "check_password_reset actor target =
     (if as_username target = ac_username actor then Err OwnPassword
      else if \<not> may_manage (ac_authority actor) (authority target) then Err TargetOutranks
      else Ok ())"

definition credential_from_wire :: "Credential \<Rightarrow> (StoredCredential, Refusal) result" where
  "credential_from_wire w =
     (let c = \<lparr>cr_salt = Credential_salt w, cr_m_cost = Credential_m_cost w, cr_t_cost = Credential_t_cost w,
          cr_p_cost = Credential_p_cost w, cr_stored_key = Credential_stored_key w,
          cr_server_key = Credential_server_key w\<rparr> in
      case check_acceptable c of
        Ok _ \<Rightarrow> Ok c
      | Err (UnacceptableKdf e) \<Rightarrow> Err (DeniedText (''invalid credential: '' @ e))
      | Panic \<Rightarrow> Panic)"

definition check_role_privileges :: "Authority \<Rightarrow> Privileges \<Rightarrow> (unit, Denied) result" where
  "check_role_privileges actor role =
     (if has (au_privileges actor) role then Ok () else Err ExceedsOwnPrivileges)"

definition check_role_holders :: "Authority \<Rightarrow> AccountState list \<Rightarrow> (unit, Denied) result" where
  "check_role_holders actor holders =
     (if list_all (\<lambda>h. may_manage actor (authority h)) holders then Ok () else Err HolderOutranks)"

definition may_lift_ban :: "Actor \<Rightarrow> string \<Rightarrow> BaseClass \<Rightarrow> bool" where
  "may_lift_ban actor banned_by banned_by_class =
     (let c = au_class (ac_authority actor) in
      c = Admin \<or> banned_by_class < c \<or> (ac_username actor = banned_by \<and> banned_by_class \<le> c))"

definition removes_administrator :: "AccountState \<Rightarrow> AccountState \<Rightarrow> bool" where
  "removes_administrator before after \<longleftrightarrow> administers before \<and> \<not> administers after"

definition privileges_changed :: "AccountState \<Rightarrow> AccountState \<Rightarrow> bool" where
  "privileges_changed before after \<longleftrightarrow> as_class before \<noteq> as_class after \<or> effective before \<noteq> effective after"

definition is_hex_color :: "string \<Rightarrow> bool" where
  "is_hex_color s =
     (case s of
        c # hex \<Rightarrow> c = CHR ''#'' \<and> (length hex = 3 \<or> length hex = 4 \<or> length hex = 6 \<or> length hex = 8) \<and>
          list_all (\<lambda>b. let n = of_char b :: nat in
            48 \<le> n \<and> n \<le> 57 \<or> 65 \<le> n \<and> n \<le> 70 \<or> 97 \<le> n \<and> n \<le> 102) hex
      | [] \<Rightarrow> False)"

definition MAX_USERNAME_LEN :: nat where "MAX_USERNAME_LEN = 64"
definition MAX_NAME_LEN :: nat where "MAX_NAME_LEN = 64"

definition check_len :: "string \<Rightarrow> string \<Rightarrow> nat \<Rightarrow> (unit, Refusal) result" where
  "check_len field v mx =
     (if length v > mx
      then Err (DeniedText (field @ '' too long ('' @ show_nat (length v) @ '' bytes, max '' @ show_nat mx @ '')''))
      else Ok ())"

definition validate_role_fields :: "string \<Rightarrow> string \<Rightarrow> (unit, Refusal) result" where
  "validate_role_fields name color =
     (if trim name = [] then Err (DeniedText ''role name is required'')
      else bind_result (check_len ''role name'' name MAX_NAME_LEN) (\<lambda>_.
        if color \<noteq> [] \<and> \<not> is_hex_color color
        then Err (DeniedText ''role color must be a hex value like #e11b1b'')
        else Ok ()))"

section \<open>The tables\<close>

record account_row =
  a_id :: string
  a_username :: string
  a_credential :: StoredCredential
  a_base_class :: int
  a_granted :: u64
  a_revoked :: u64

record role_row =
  rl_id :: bytes
  rl_name :: string
  rl_privileges :: u64
  rl_rank :: i32
  rl_color :: "string option"

record ctx =
  accounts :: "account_row list"
  roles :: "role_row list"
  account_roles :: "(string \<times> bytes) list"
  disconnects :: "(string \<times> string) list"

datatype storage_error = NotFound | ForeignKey | AlreadyExists | Sqlx

definition class_from_stored :: "int \<Rightarrow> BaseClass" where
  "class_from_stored v =
     (case BaseClass_try_from (nat (min (max v 0) 3)) of Some c \<Rightarrow> c | None \<Rightarrow> Admin)"

definition role_privileges_of :: "role_row \<Rightarrow> Privileges" where
  "role_privileges_of r = from_bits_truncate (ucast (rl_privileges r))"

text \<open>\<open>for_account\<close>: the join of \<open>roles\<close> and \<open>account_roles\<close>; its order by rank does not matter to the union.\<close>

definition for_account :: "ctx \<Rightarrow> string \<Rightarrow> role_row list" where
  "for_account s account_id = filter (\<lambda>r. (account_id, rl_id r) \<in> set (account_roles s)) (roles s)"

definition account_state_from_row :: "ctx \<Rightarrow> account_row \<Rightarrow> AccountState" where
  "account_state_from_row s row =
     \<lparr>as_account_id = a_id row, as_username = a_username row,
      as_class = class_from_stored (a_base_class row),
      as_granted = ucast (a_granted row), as_revoked = ucast (a_revoked row),
      as_role_privileges = foldl (\<lambda>acc r. acc OR role_privileges_of r) 0 (for_account s (a_id row))\<rparr>"

definition account_state :: "ctx \<Rightarrow> string \<Rightarrow> AccountState option" where
  "account_state s username =
     map_option (account_state_from_row s) (find (\<lambda>a. a_username a = username) (accounts s))"

definition role_holders :: "ctx \<Rightarrow> bytes \<Rightarrow> AccountState list" where
  "role_holders s rid =
     map (account_state_from_row s) (filter (\<lambda>a. (a_id a, rid) \<in> set (account_roles s)) (accounts s))"

definition other_administrators :: "ctx \<Rightarrow> string \<Rightarrow> nat" where
  "other_administrators s username =
     length (filter (\<lambda>a. 3 \<le> a_base_class a \<and> a_revoked a AND ucast ADMIN_CORE = 0 \<and> a_username a \<noteq> username)
       (accounts s))"

definition get_role :: "ctx \<Rightarrow> bytes \<Rightarrow> role_row option" where
  "get_role s rid = find (\<lambda>r. rl_id r = rid) (roles s)"

definition db_create_account ::
  "ctx \<Rightarrow> string \<Rightarrow> string \<Rightarrow> StoredCredential \<Rightarrow> int \<Rightarrow> u64 \<Rightarrow> u64 \<Rightarrow> (ctx, storage_error) result" where
  "db_create_account s new_id username cred base_class granted revoked =
     (if \<exists>a\<in>set (accounts s). a_username a = username then Err AlreadyExists
      else Ok (s\<lparr>accounts := accounts s @ [\<lparr>a_id = new_id, a_username = username, a_credential = cred,
        a_base_class = base_class, a_granted = granted, a_revoked = revoked\<rparr>]\<rparr>))"

definition db_update_account :: "ctx \<Rightarrow> string \<Rightarrow> int \<Rightarrow> u64 \<Rightarrow> u64 \<Rightarrow> (ctx, storage_error) result" where
  "db_update_account s username base_class granted revoked =
     (if \<exists>a\<in>set (accounts s). a_username a = username
      then Ok (s\<lparr>accounts := map (\<lambda>a. if a_username a = username
        then a\<lparr>a_base_class := base_class, a_granted := granted, a_revoked := revoked\<rparr> else a) (accounts s)\<rparr>)
      else Err NotFound)"

definition db_set_credential :: "ctx \<Rightarrow> string \<Rightarrow> StoredCredential \<Rightarrow> bool \<times> ctx" where
  "db_set_credential s account_id cred =
     (\<exists>a\<in>set (accounts s). a_id a = account_id,
      s\<lparr>accounts := map (\<lambda>a. if a_id a = account_id then a\<lparr>a_credential := cred\<rparr> else a) (accounts s)\<rparr>)"

definition db_create_role ::
  "ctx \<Rightarrow> bytes \<Rightarrow> string \<Rightarrow> Privileges \<Rightarrow> i32 \<Rightarrow> string option \<Rightarrow> (ctx, storage_error) result" where
  "db_create_role s new_id name privileges rank color =
     (if \<exists>r\<in>set (roles s). rl_name r = name then Err AlreadyExists
      else Ok (s\<lparr>roles := roles s @ [\<lparr>rl_id = new_id, rl_name = name, rl_privileges = ucast privileges,
        rl_rank = rank, rl_color = color\<rparr>]\<rparr>))"

definition db_update_role ::
  "ctx \<Rightarrow> bytes \<Rightarrow> string \<Rightarrow> Privileges \<Rightarrow> i32 \<Rightarrow> string option \<Rightarrow> (ctx, storage_error) result" where
  "db_update_role s rid name privileges rank color =
     (if \<exists>r\<in>set (roles s). rl_name r = name \<and> rl_id r \<noteq> rid \<and> (\<exists>q\<in>set (roles s). rl_id q = rid)
      then Err AlreadyExists
      else if \<exists>r\<in>set (roles s). rl_id r = rid
      then Ok (s\<lparr>roles := map (\<lambda>r. if rl_id r = rid
        then r\<lparr>rl_name := name, rl_privileges := ucast privileges, rl_rank := rank, rl_color := color\<rparr> else r)
          (roles s)\<rparr>)
      else Err NotFound)"

definition db_delete_role :: "ctx \<Rightarrow> bytes \<Rightarrow> (ctx, storage_error) result" where
  "db_delete_role s rid =
     (let s' = s\<lparr>account_roles := filter (\<lambda>(a, r). r \<noteq> rid) (account_roles s)\<rparr> in
      if \<exists>r\<in>set (roles s). rl_id r = rid
      then Ok (s'\<lparr>roles := filter (\<lambda>r. rl_id r \<noteq> rid) (roles s)\<rparr>)
      else Err NotFound)"

definition db_assign :: "ctx \<Rightarrow> string \<Rightarrow> bytes \<Rightarrow> (ctx, storage_error) result" where
  "db_assign s account_id rid =
     (if (account_id, rid) \<in> set (account_roles s) then Ok s
      else if (\<exists>a\<in>set (accounts s). a_id a = account_id) \<and> (\<exists>r\<in>set (roles s). rl_id r = rid)
      then Ok (s\<lparr>account_roles := account_roles s @ [(account_id, rid)]\<rparr>)
      else Err ForeignKey)"

definition db_unassign :: "ctx \<Rightarrow> string \<Rightarrow> bytes \<Rightarrow> (ctx, storage_error) result" where
  "db_unassign s account_id rid =
     Ok (s\<lparr>account_roles := filter (\<lambda>p. p \<noteq> (account_id, rid)) (account_roles s)\<rparr>)"

section \<open>The requests\<close>

definition PRIVILEGES_CHANGED :: string where
  "PRIVILEGES_CHANGED = ''your privileges changed '' @ str_of_bytes [0xE2, 0x80, 0x94] @ '' please reconnect''"

definition PASSWORD_RESET :: string where
  "PASSWORD_RESET =
     ''your password was reset by an administrator '' @ str_of_bytes [0xE2, 0x80, 0x94] @ '' please log in again''"

definition lift_denied :: "('a, Denied) result \<Rightarrow> ('a, Refusal) result" where
  "lift_denied r = (case r of Ok x \<Rightarrow> Ok x | Err e \<Rightarrow> Err (PolicyDenied e) | Panic \<Rightarrow> Panic)"

text \<open>\<open>Refusal::storage\<close>\<close>

definition lift_storage :: "string \<Rightarrow> string \<Rightarrow> ('a, storage_error) result \<Rightarrow> ('a, Refusal) result" where
  "lift_storage exists missing r =
     (case r of Ok x \<Rightarrow> Ok x
      | Err AlreadyExists \<Rightarrow> Err (DeniedText exists)
      | Err _ \<Rightarrow> Err (DeniedText missing)
      | Panic \<Rightarrow> Panic)"

definition resolve_actor :: "ctx \<Rightarrow> Session \<Rightarrow> Privileges \<Rightarrow> (Actor, Refusal) result" where
  "resolve_actor s session required =
     (if \<not> has (s_privileges session) required then Err (PolicyDenied (Missing required))
      else case account_state s (s_username session) of
        None \<Rightarrow> Err (PolicyDenied ActorGone)
      | Some stored \<Rightarrow>
          let actor = narrowed session stored in
          if \<not> has (au_privileges (ac_authority actor)) required
          then Err (PolicyDenied (Missing required)) else Ok actor)"

definition disconnect :: "string \<Rightarrow> string \<Rightarrow> ctx \<Rightarrow> ctx" where
  "disconnect username reason s = s\<lparr>disconnects := disconnects s @ [(username, reason)]\<rparr>"

definition kick_changed :: "AccountState list \<Rightarrow> ctx \<Rightarrow> ctx" where
  "kick_changed before s =
     foldl (\<lambda>s old.
       let changed = (case account_state s (as_username old) of Some new \<Rightarrow> privileges_changed old new | None \<Rightarrow> True) in
       if changed then disconnect (as_username old) PRIVILEGES_CHANGED s else s) s before"

definition existing_role :: "ctx \<Rightarrow> bytes \<Rightarrow> (role_row, Refusal) result" where
  "existing_role s rid = (case get_role s rid of Some r \<Rightarrow> Ok r | None \<Rightarrow> Err (DeniedText ''no such role''))"

definition existing_account :: "ctx \<Rightarrow> string \<Rightarrow> (AccountState, Refusal) result" where
  "existing_account s username =
     (case account_state s username of Some a \<Rightarrow> Ok a | None \<Rightarrow> Err (DeniedText ''no such account''))"

definition role_exists_message :: "string \<Rightarrow> string" where
  "role_exists_message name = ''a role named '' @ [CHR 0x22] @ name @ [CHR 0x22] @ '' already exists''"

definition create_account :: "string \<Rightarrow> ctx \<Rightarrow> Session \<Rightarrow> AccountCreate \<Rightarrow> (ctx, Refusal) result" where
  "create_account new_id s session req =
     (if AccountCreate_username req = [] then Err (DeniedText ''a username is required'')
      else
        bind_result (check_len ''username'' (AccountCreate_username req) MAX_USERNAME_LEN) (\<lambda>_.
        bind_result (credential_from_wire (AccountCreate_credential req)) (\<lambda>cred.
        bind_result (resolve_actor s session USER_ADMIN) (\<lambda>actor.
        bind_result (lift_denied (check_account_create (ac_authority actor) (AccountCreate_base_class req)
          (AccountCreate_granted req) (AccountCreate_revoked req))) (\<lambda>c.
        lift_storage ''an account with that name already exists'' ''no such account''
          (db_create_account s new_id (AccountCreate_username req) cred (int (class_u8 c))
            (ucast (known_bits (AccountCreate_granted req))) (ucast (known_bits (AccountCreate_revoked req)))))))))"

definition update_account :: "ctx \<Rightarrow> Session \<Rightarrow> AccountUpdate \<Rightarrow> (ctx, Refusal) result" where
  "update_account s session req =
     bind_result (resolve_actor s session USER_ADMIN) (\<lambda>actor.
     bind_result (existing_account s (AccountUpdate_username req)) (\<lambda>target.
     bind_result (lift_denied (check_account_update actor target (AccountUpdate_base_class req)
       (AccountUpdate_granted req) (AccountUpdate_revoked req))) (\<lambda>c.
     let after = with_overrides target c (known_bits (AccountUpdate_granted req))
           (known_bits (AccountUpdate_revoked req)) in
     if removes_administrator target after \<and> other_administrators s (as_username target) = 0
     then Err (PolicyDenied LastAdmin)
     else
       bind_result (lift_storage '''' ''no such account''
         (db_update_account s (AccountUpdate_username req) (int (class_u8 c))
           (ucast (as_granted after)) (ucast (as_revoked after)))) (\<lambda>s'.
       Ok (kick_changed [target] s')))))"

definition set_account_password :: "ctx \<Rightarrow> Session \<Rightarrow> AccountSetPassword \<Rightarrow> (ctx, Refusal) result" where
  "set_account_password s session req =
     bind_result (credential_from_wire (AccountSetPassword_credential req)) (\<lambda>cred.
     bind_result (resolve_actor s session USER_ADMIN) (\<lambda>actor.
     bind_result (existing_account s (AccountSetPassword_username req)) (\<lambda>target.
     bind_result (lift_denied (check_password_reset actor target)) (\<lambda>_.
     let (stored, s') = db_set_credential s (as_account_id target) cred in
     if \<not> stored then Err (DeniedText ''no such account'')
     else Ok (disconnect (as_username target) PASSWORD_RESET s')))))"

definition create_role :: "bytes \<Rightarrow> ctx \<Rightarrow> Session \<Rightarrow> RoleCreate \<Rightarrow> (ctx, Refusal) result" where
  "create_role new_id s session req =
     bind_result (validate_role_fields (RoleCreate_name req) (RoleCreate_color req)) (\<lambda>_.
     let privileges = from_bits_truncate (RoleCreate_privileges req) in
     bind_result (resolve_actor s session USER_ADMIN) (\<lambda>actor.
     bind_result (lift_denied (check_role_privileges (ac_authority actor) privileges)) (\<lambda>_.
     lift_storage (role_exists_message (RoleCreate_name req)) ''no such role''
       (db_create_role s new_id (RoleCreate_name req) privileges (RoleCreate_rank req)
         (if RoleCreate_color req = [] then None else Some (RoleCreate_color req))))))"

definition update_role :: "ctx \<Rightarrow> Session \<Rightarrow> RoleUpdate \<Rightarrow> (ctx, Refusal) result" where
  "update_role s session req =
     bind_result (validate_role_fields (RoleUpdate_name req) (RoleUpdate_color req)) (\<lambda>_.
     let rid = RoleUpdate_id req; privileges = from_bits_truncate (RoleUpdate_privileges req) in
     bind_result (resolve_actor s session USER_ADMIN) (\<lambda>actor.
     bind_result (existing_role s rid) (\<lambda>role.
     bind_result (lift_denied (check_role_privileges (ac_authority actor) (role_privileges_of role OR privileges))) (\<lambda>_.
     let holders = role_holders s rid in
     bind_result (lift_denied (check_role_holders (ac_authority actor) holders)) (\<lambda>_.
     bind_result (lift_storage (role_exists_message (RoleUpdate_name req)) ''no such role''
       (db_update_role s rid (RoleUpdate_name req) privileges (RoleUpdate_rank req)
         (if RoleUpdate_color req = [] then None else Some (RoleUpdate_color req)))) (\<lambda>s'.
     Ok (if role_privileges_of role \<noteq> privileges then kick_changed holders s' else s')))))))"

definition delete_role :: "ctx \<Rightarrow> Session \<Rightarrow> bytes \<Rightarrow> (ctx, Refusal) result" where
  "delete_role s session rid =
     bind_result (resolve_actor s session USER_ADMIN) (\<lambda>actor.
     bind_result (existing_role s rid) (\<lambda>role.
     bind_result (lift_denied (check_role_privileges (ac_authority actor) (role_privileges_of role))) (\<lambda>_.
     let holders = role_holders s rid in
     bind_result (lift_denied (check_role_holders (ac_authority actor) holders)) (\<lambda>_.
     bind_result (lift_storage '''' ''no such role'' (db_delete_role s rid)) (\<lambda>s'.
     Ok (kick_changed holders s'))))))"

definition set_role_assignment :: "ctx \<Rightarrow> Session \<Rightarrow> string \<Rightarrow> bytes \<Rightarrow> bool \<Rightarrow> (ctx, Refusal) result" where
  "set_role_assignment s session username role_id assign =
     bind_result (resolve_actor s session USER_ADMIN) (\<lambda>actor.
     bind_result (existing_role s role_id) (\<lambda>role.
     bind_result (existing_account s username) (\<lambda>target.
     bind_result (lift_denied (check_role_privileges (ac_authority actor) (role_privileges_of role))) (\<lambda>_.
     if \<not> may_manage (ac_authority actor) (authority target) then Err (PolicyDenied TargetOutranks)
     else
       bind_result (lift_storage '''' ''no such role or account''
         (if assign then db_assign s (as_account_id target) role_id
          else db_unassign s (as_account_id target) role_id)) (\<lambda>s'.
       Ok (kick_changed [target] s'))))))"

end
