(* ===== verification/Policy_Safety.thy ===== *)
theory Policy_Safety
  imports Policy
begin

text \<open>
  What the admin policy guarantees, whatever requests arrive: one step per
  request, over the tables of \<open>Policy\<close>.
\<close>

section \<open>Requests as steps\<close>

datatype admin_request =
    CreateAccount string AccountCreate
  | UpdateAccount AccountUpdate
  | SetPassword AccountSetPassword
  | CreateRole bytes RoleCreate
  | UpdateRole RoleUpdate
  | DeleteRole bytes
  | AssignRole string bytes bool

definition admin_step :: "ctx \<Rightarrow> Session \<Rightarrow> admin_request \<Rightarrow> (ctx, Refusal) result" where
  "admin_step s session req =
     (case req of
        CreateAccount new_id r \<Rightarrow> create_account new_id s session r
      | UpdateAccount r \<Rightarrow> update_account s session r
      | SetPassword r \<Rightarrow> set_account_password s session r
      | CreateRole new_id r \<Rightarrow> create_role new_id s session r
      | UpdateRole r \<Rightarrow> update_role s session r
      | DeleteRole rid \<Rightarrow> delete_role s session rid
      | AssignRole u rid b \<Rightarrow> set_role_assignment s session u rid b)"

text \<open>Identifiers of new rows are fresh, as \<open>Uuid::new_v4\<close> makes them.\<close>

definition fresh_ids :: "ctx \<Rightarrow> admin_request \<Rightarrow> bool" where
  "fresh_ids s req =
     (case req of
        CreateAccount i _ \<Rightarrow> i \<notin> a_id ` set (accounts s) \<and> i \<notin> fst ` set (account_roles s)
      | CreateRole i _ \<Rightarrow> i \<notin> rl_id ` set (roles s) \<and> i \<notin> snd ` set (account_roles s)
      | _ \<Rightarrow> True)"

text \<open>The constraints of the schema.\<close>

definition schema_ok :: "ctx \<Rightarrow> bool" where
  "schema_ok s \<longleftrightarrow> distinct (map a_username (accounts s)) \<and> distinct (map a_id (accounts s)) \<and>
     distinct (map rl_id (roles s))"

definition has_administrator :: "ctx \<Rightarrow> bool" where
  "has_administrator s \<longleftrightarrow> (\<exists>u st. account_state s u = Some st \<and> administers st)"

section \<open>Reading the tables\<close>

lemma lift_denied_Ok [simp]: "lift_denied r = Ok x \<longleftrightarrow> r = Ok x"
  by (cases r) (simp_all add: lift_denied_def)

lemma lift_storage_Ok [simp]: "lift_storage e m r = Ok x \<longleftrightarrow> r = Ok x"
  by (cases r) (auto simp: lift_storage_def split: storage_error.splits)

lemma class_from_stored_u8 [simp]: "class_from_stored (int (class_u8 c)) = c"
  by (cases c) (simp_all add: class_from_stored_def BaseClass_try_from_def)

lemma class_from_stored_Admin: "class_from_stored v = Admin \<longleftrightarrow> 3 \<le> v"
  by (auto simp: class_from_stored_def BaseClass_try_from_def min_def max_def split: if_splits option.splits)

lemma ucast_known_bits [simp]: "ucast (ucast (x :: u32) :: u64) = x"
  by (rule bit_word_eqI) (auto simp: bit_simps)

lemma bit_foldl_or:
  "bit (foldl (\<lambda>acc r. acc OR f r) z rs) n \<longleftrightarrow> bit z n \<or> (\<exists>r\<in>set rs. bit (f r :: u32) n)"
  by (induction rs arbitrary: z) (auto simp: bit_or_iff)

lemma bit_role_privileges:
  "bit (as_role_privileges (account_state_from_row s a)) n \<longleftrightarrow>
     (\<exists>r\<in>set (roles s). (a_id a, rl_id r) \<in> set (account_roles s) \<and> bit (role_privileges_of r) n)"
  by (auto simp: account_state_from_row_def for_account_def bit_foldl_or)

lemma bit_effective_state:
  "bit (effective a) n \<longleftrightarrow> n < 32 \<and>
     (bit (class_privileges (as_class a)) n \<or> bit (as_role_privileges a) n \<or>
      bit (as_granted a) n \<and> bit Privileges_all n) \<and> \<not> (bit (as_revoked a) n \<and> bit Privileges_all n)"
  by (simp add: effective_def bit_effective)

lemma account_state_SomeE:
  assumes "account_state s u = Some st"
  obtains a where "a \<in> set (accounts s)" "a_username a = u" "st = account_state_from_row s a"
    "find (\<lambda>a. a_username a = u) (accounts s) = Some a"
  using assms that by (auto simp: account_state_def dest: find_SomeD)

lemma account_state_username: "account_state s u = Some st \<Longrightarrow> as_username st = u"
  by (elim account_state_SomeE) (simp add: account_state_from_row_def)

lemma account_state_of_row:
  "schema_ok s \<Longrightarrow> a \<in> set (accounts s) \<Longrightarrow> account_state s (a_username a) = Some (account_state_from_row s a)"
  by (simp add: account_state_def schema_ok_def find_unique)

text \<open>Two table contents with the same accounts, whose roles look the same to one account.\<close>

lemma account_state_from_row_cong:
  assumes "\<And>n. (\<exists>r\<in>set (roles s). (a_id a, rl_id r) \<in> set (account_roles s) \<and> bit (role_privileges_of r) n) \<longleftrightarrow>
      (\<exists>r\<in>set (roles s'). (a_id a, rl_id r) \<in> set (account_roles s') \<and> bit (role_privileges_of r) n)"
  shows "account_state_from_row s' a = account_state_from_row s a"
proof -
  have "as_role_privileges (account_state_from_row s' a) = as_role_privileges (account_state_from_row s a)"
    by (rule bit_word_eqI) (use assms in \<open>simp add: bit_role_privileges\<close>)
  then show ?thesis by (simp add: account_state_from_row_def)
qed

lemma account_state_cong:
  assumes "accounts s' = accounts s"
    and "\<And>a. a \<in> set (accounts s) \<Longrightarrow> a_username a = u \<Longrightarrow> account_state_from_row s' a = account_state_from_row s a"
  shows "account_state s' u = account_state s u"
  using assms by (auto simp: account_state_def map_option_case dest: find_SomeD split: option.splits)

text \<open>Telling sessions to go touches no table.\<close>

lemma disconnect_tables [simp]:
  "accounts (disconnect u r s) = accounts s" "roles (disconnect u r s) = roles s"
  "account_roles (disconnect u r s) = account_roles s"
  "disconnects (disconnect u r s) = disconnects s @ [(u, r)]"
  by (simp_all add: disconnect_def)

lemma account_state_tables:
  assumes "accounts s' = accounts s" "roles s' = roles s" "account_roles s' = account_roles s"
  shows "account_state s' = account_state s"
proof -
  have "account_state_from_row s' = account_state_from_row s"
    using assms by (intro ext) (simp add: account_state_from_row_def for_account_def)
  with assms show ?thesis by (intro ext) (simp add: account_state_def)
qed

lemma account_state_disconnect [simp]: "account_state (disconnect u r s) = account_state s"
  by (rule account_state_tables) simp_all

lemma kick_changed_Nil [simp]: "kick_changed [] s = s"
  by (simp add: kick_changed_def)

lemma kick_changed_Cons:
  "kick_changed (old # rest) s = kick_changed rest
     (if case account_state s (as_username old) of Some new \<Rightarrow> privileges_changed old new | None \<Rightarrow> True
      then disconnect (as_username old) PRIVILEGES_CHANGED s else s)"
  by (simp add: kick_changed_def)

lemma kick_changed_tables [simp]:
  "accounts (kick_changed b s) = accounts s" "roles (kick_changed b s) = roles s"
  "account_roles (kick_changed b s) = account_roles s"
  by (induction b arbitrary: s) (simp_all add: kick_changed_Cons)

lemma account_state_kick_changed [simp]: "account_state (kick_changed b s) = account_state s"
  by (rule account_state_tables) simp_all

lemma kick_changed_mono: "set (disconnects s) \<subseteq> set (disconnects (kick_changed b s))"
proof (induction b arbitrary: s)
  case (Cons old b)
  let ?s = "if case account_state s (as_username old) of Some new \<Rightarrow> privileges_changed old new | None \<Rightarrow> True
      then disconnect (as_username old) PRIVILEGES_CHANGED s else s"
  have "set (disconnects s) \<subseteq> set (disconnects ?s)" by auto
  with Cons [of ?s] show ?case by (auto simp: kick_changed_Cons)
qed simp

lemma kick_changed_kicks:
  assumes "old \<in> set b" "account_state s (as_username old) = Some new" "privileges_changed old new"
  shows "(as_username old, PRIVILEGES_CHANGED) \<in> set (disconnects (kick_changed b s))"
  using assms
proof (induction b arbitrary: s)
  case (Cons x b)
  show ?case
  proof (cases "x = old")
    case True
    with Cons.prems kick_changed_mono [of "disconnect (as_username old) PRIVILEGES_CHANGED s" b]
    show ?thesis by (auto simp: kick_changed_Cons)
  next
    case False
    with Cons show ?thesis by (simp add: kick_changed_Cons)
  qed
qed simp

section \<open>What each statement changes\<close>

lemma create_account_state:
  assumes "db_create_account s i u cred c g r = Ok s'" and "i \<notin> fst ` set (account_roles s)"
  shows "account_state s u = None"
    and "account_state s' u = Some \<lparr>as_account_id = i, as_username = u, as_class = class_from_stored c,
      as_granted = ucast g, as_revoked = ucast r, as_role_privileges = 0\<rparr>"
    and "v \<noteq> u \<Longrightarrow> account_state s' v = account_state s v"
proof -
  let ?a = "\<lparr>a_id = i, a_username = u, a_credential = cred, a_base_class = c, a_granted = g, a_revoked = r\<rparr>"
  from assms(1) have new: "\<forall>a\<in>set (accounts s). a_username a \<noteq> u" and s': "s' = s\<lparr>accounts := accounts s @ [?a]\<rparr>"
    by (auto simp: db_create_account_def split: if_splits)
  then show "account_state s u = None"
    by (auto simp: account_state_def find_None_iff)
  have row: "account_state_from_row s' = account_state_from_row s"
    using s' by (intro ext) (simp add: account_state_from_row_def for_account_def)
  from new have none: "find (\<lambda>a. a_username a = u) (accounts s) = None" by (simp add: find_None_iff)
  have "for_account s i = []"
    using assms(2) by (auto simp: for_account_def filter_empty_conv image_iff)
  then show "account_state s' u = Some \<lparr>as_account_id = i, as_username = u, as_class = class_from_stored c,
      as_granted = ucast g, as_revoked = ucast r, as_role_privileges = 0\<rparr>"
    using none s' row by (simp add: account_state_def find_append account_state_from_row_def)
  show "v \<noteq> u \<Longrightarrow> account_state s' v = account_state s v"
    using s' row by (auto simp: account_state_def find_append split: option.splits)
qed

lemma update_account_state:
  assumes "db_update_account s u (int (class_u8 c)) (ucast g) (ucast r) = Ok s'"
  shows "account_state s' u = map_option (\<lambda>a. with_overrides a c g r) (account_state s u)"
    and "v \<noteq> u \<Longrightarrow> account_state s' v = account_state s v"
proof -
  let ?f = "\<lambda>a. if a_username a = u then a\<lparr>a_base_class := int (class_u8 c), a_granted := ucast g, a_revoked := ucast r\<rparr> else a"
  from assms have s': "s' = s\<lparr>accounts := map ?f (accounts s)\<rparr>"
    by (auto simp: db_update_account_def split: if_splits)
  have row: "account_state_from_row s' (?f a) =
      (if a_username a = u then with_overrides (account_state_from_row s a) c g r else account_state_from_row s a)" for a
    using s' by (simp add: account_state_from_row_def for_account_def with_overrides_def)
  have find: "find (\<lambda>a. a_username a = w) (accounts s') = map_option ?f (find (\<lambda>a. a_username a = w) (accounts s))" for w
    unfolding s' by (simp, rule find_map_same) simp
  show "account_state s' u = map_option (\<lambda>a. with_overrides a c g r) (account_state s u)"
    by (auto simp: account_state_def find map_option_case row dest: find_SomeD split: option.splits)
  show "v \<noteq> u \<Longrightarrow> account_state s' v = account_state s v"
    by (auto simp: account_state_def find map_option_case row dest: find_SomeD split: option.splits)
qed

lemma set_credential_state:
  assumes "db_set_credential s i cred = (b, s')"
  shows "account_state s' = account_state s"
proof -
  let ?f = "\<lambda>a. if a_id a = i then a\<lparr>a_credential := cred\<rparr> else a"
  from assms have s': "s' = s\<lparr>accounts := map ?f (accounts s)\<rparr>" by (simp add: db_set_credential_def)
  have row: "account_state_from_row s' (?f a) = account_state_from_row s a" for a
    using s' by (simp add: account_state_from_row_def for_account_def)
  have "find (\<lambda>a. a_username a = w) (accounts s') = map_option ?f (find (\<lambda>a. a_username a = w) (accounts s))" for w
    unfolding s' by (simp, rule find_map_same) simp
  then show ?thesis by (intro ext) (simp add: account_state_def option.map_comp comp_def row)
qed

lemma create_role_state:
  assumes "db_create_role s i name p rank color = Ok s'" and "i \<notin> snd ` set (account_roles s)"
  shows "account_state s' = account_state s"
proof
  fix u
  from assms(1) have s': "accounts s' = accounts s" "account_roles s' = account_roles s"
      "set (roles s') = insert \<lparr>rl_id = i, rl_name = name, rl_privileges = ucast p, rl_rank = rank, rl_color = color\<rparr> (set (roles s))"
    by (auto simp: db_create_role_def split: if_splits)
  show "account_state s' u = account_state s u"
    by (rule account_state_cong, rule s', rule account_state_from_row_cong)
      (use s' assms(2) in \<open>auto simp: image_iff\<close>)
qed

text \<open>The role tables: an account's state changes at most in its role privileges.\<close>

lemma role_change_state:
  assumes "accounts s' = accounts s" and "account_state s u = Some st"
  obtains a where "a \<in> set (accounts s)" "a_username a = u" "st = account_state_from_row s a"
    "account_state s' u = Some (account_state_from_row s' a)"
  using assms that by (elim account_state_SomeE) (auto simp: account_state_def)

lemma role_change_fields:
  "as_class (account_state_from_row s' a) = as_class (account_state_from_row s a)"
  "as_granted (account_state_from_row s' a) = as_granted (account_state_from_row s a)"
  "as_revoked (account_state_from_row s' a) = as_revoked (account_state_from_row s a)"
  "as_username (account_state_from_row s' a) = a_username a"
  "as_account_id (account_state_from_row s' a) = a_id a"
  by (simp_all add: account_state_from_row_def)

lemma role_privileges_of_set [simp]:
  "role_privileges_of (r\<lparr>rl_name := nm, rl_privileges := ucast (from_bits_truncate p), rl_rank := k, rl_color := c\<rparr>) =
     from_bits_truncate p"
  by (simp add: role_privileges_of_def) (simp add: from_bits_truncate_def and.assoc)

lemma get_role_Some: "get_role s rid = Some role \<Longrightarrow> role \<in> set (roles s) \<and> rl_id role = rid"
  by (auto simp: get_role_def dest: find_SomeD)

lemma get_role_unique:
  assumes "schema_ok s" "get_role s rid = Some role" "r \<in> set (roles s)" "rl_id r = rid"
  shows "r = role"
  using assms find_unique [of rl_id "roles s" r] by (simp add: get_role_def schema_ok_def)

lemma update_role_bits:
  assumes "schema_ok s" and "get_role s rid = Some role"
    and "db_update_role s rid nm (from_bits_truncate p) rank color = Ok s'"
  shows "bit (as_role_privileges (account_state_from_row s' a)) n \<longleftrightarrow>
    (\<exists>r\<in>set (roles s). rl_id r \<noteq> rid \<and> (a_id a, rl_id r) \<in> set (account_roles s) \<and> bit (role_privileges_of r) n) \<or>
    (a_id a, rid) \<in> set (account_roles s) \<and> bit (from_bits_truncate p) n"
proof -
  let ?f = "\<lambda>r. if rl_id r = rid then r\<lparr>rl_name := nm, rl_privileges := ucast (from_bits_truncate p),
    rl_rank := rank, rl_color := color\<rparr> else r"
  from assms(3) have s': "s' = s\<lparr>roles := map ?f (roles s)\<rparr>"
    by (auto simp: db_update_role_def split: if_splits)
  have rl: "rl_id (?f r) = rl_id r" "role_privileges_of (?f r) =
      (if rl_id r = rid then from_bits_truncate p else role_privileges_of r)" for r
    by (simp_all del: role_row.update_convs)
  have tabs: "set (roles s') = ?f ` set (roles s)" "account_roles s' = account_roles s" by (simp_all add: s')
  have "bit (as_role_privileges (account_state_from_row s' a)) n \<longleftrightarrow>
      (\<exists>r\<in>set (roles s). (a_id a, rl_id (?f r)) \<in> set (account_roles s) \<and> bit (role_privileges_of (?f r)) n)"
    unfolding bit_role_privileges tabs by (rule bex_simps(7))
  also have "\<dots> \<longleftrightarrow> (\<exists>r\<in>set (roles s). (a_id a, rl_id r) \<in> set (account_roles s) \<and>
      bit (if rl_id r = rid then from_bits_truncate p else role_privileges_of r) n)"
    by (simp only: rl)
  finally show ?thesis using get_role_Some [OF assms(2)] by auto
qed

lemma delete_role_bits:
  assumes "db_delete_role s rid = Ok s'"
  shows "bit (as_role_privileges (account_state_from_row s' a)) n \<longleftrightarrow>
    (\<exists>r\<in>set (roles s). rl_id r \<noteq> rid \<and> (a_id a, rl_id r) \<in> set (account_roles s) \<and> bit (role_privileges_of r) n)"
proof -
  from assms have "set (roles s') = {r \<in> set (roles s). rl_id r \<noteq> rid}"
      "set (account_roles s') = {p \<in> set (account_roles s). snd p \<noteq> rid}"
    by (auto simp: db_delete_role_def Let_def split: if_splits)
  then show ?thesis by (auto simp: bit_role_privileges)
qed

lemma assign_bits:
  assumes "db_assign s i rid = Ok s'" and "schema_ok s" and "get_role s rid = Some role"
  shows "bit (as_role_privileges (account_state_from_row s' a)) n \<longleftrightarrow>
    bit (as_role_privileges (account_state_from_row s a)) n \<or> a_id a = i \<and> bit (role_privileges_of role) n"
proof -
  from assms(1) have "roles s' = roles s" "set (account_roles s') = insert (i, rid) (set (account_roles s))"
    by (auto simp: db_assign_def split: if_splits)
  then show ?thesis
    using get_role_Some [OF assms(3)] get_role_unique [OF assms(2,3)] by (auto simp: bit_role_privileges)
qed

lemma unassign_bits:
  assumes "db_unassign s i rid = Ok s'"
  shows "bit (as_role_privileges (account_state_from_row s' a)) n \<longleftrightarrow>
    (\<exists>r\<in>set (roles s). (a_id a, rl_id r) \<in> set (account_roles s) \<and> \<not> (a_id a = i \<and> rl_id r = rid) \<and>
      bit (role_privileges_of r) n)"
proof -
  from assms have "roles s' = roles s" "set (account_roles s') = set (account_roles s) - {(i, rid)}"
    by (auto simp: db_unassign_def)
  then show ?thesis by (auto simp: bit_role_privileges)
qed

lemma db_role_tables:
  "db_update_role s rid nm p rank color = Ok s' \<Longrightarrow> accounts s' = accounts s \<and> map rl_id (roles s') = map rl_id (roles s)"
  "db_delete_role s rid = Ok s' \<Longrightarrow> accounts s' = accounts s \<and> roles s' = filter (\<lambda>r. rl_id r \<noteq> rid) (roles s)"
  "db_assign s i rid = Ok s' \<Longrightarrow> accounts s' = accounts s \<and> roles s' = roles s"
  "db_unassign s i rid = Ok s' \<Longrightarrow> accounts s' = accounts s \<and> roles s' = roles s"
  by (auto simp: db_update_role_def db_delete_role_def db_assign_def db_unassign_def Let_def split: if_splits)

section \<open>The contract of an admin operation\<close>

text \<open>
  \<open>obeys s s' actor\<close>: every account after the operation is new and within the actor's power,
  unchanged, or one the actor may manage, whose new privileges come from the actor, from what
  it had or from its own roles; nobody raises themselves; and whoever's privileges changed is
  told to reconnect.
\<close>

definition within :: "Authority \<Rightarrow> AccountState \<Rightarrow> bool" where
  "within actor st \<longleftrightarrow> has (au_privileges actor) (effective st) \<and>
     (au_class actor = Admin \<or> as_class st < au_class actor)"

definition managed :: "ctx \<Rightarrow> Actor \<Rightarrow> AccountState \<Rightarrow> AccountState \<Rightarrow> bool" where
  "managed s' actor st st' \<longleftrightarrow>
     may_manage (ac_authority actor) (authority st) \<and>
     (\<forall>n. bit (effective st') n \<longrightarrow> bit (au_privileges (ac_authority actor)) n \<or> bit (effective st) n \<or>
        bit (as_role_privileges st) n) \<and>
     (as_class st' = as_class st \<or> au_class (ac_authority actor) = Admin \<or> as_class st' < au_class (ac_authority actor)) \<and>
     (as_username st = ac_username actor \<longrightarrow> has (effective st) (effective st') \<and> as_class st' \<le> as_class st) \<and>
     (privileges_changed st st' \<longrightarrow> (as_username st, PRIVILEGES_CHANGED) \<in> set (disconnects s'))"

definition obeys :: "ctx \<Rightarrow> ctx \<Rightarrow> Actor \<Rightarrow> bool" where
  "obeys s s' actor \<longleftrightarrow>
     (\<forall>u st'. account_state s' u = Some st' \<longrightarrow>
        (case account_state s u of
           None \<Rightarrow> within (ac_authority actor) st'
         | Some st \<Rightarrow> st' = st \<or> managed s' actor st st'))"

locale admin_operation =
  fixes run :: "ctx \<Rightarrow> Session \<Rightarrow> 'r \<Rightarrow> (ctx, Refusal) result" and fresh :: "ctx \<Rightarrow> 'r \<Rightarrow> bool"
  assumes authorized: "run s session r = Ok s' \<Longrightarrow> \<exists>actor. resolve_actor s session USER_ADMIN = Ok actor"
    and keeps_policy: "schema_ok s \<Longrightarrow> fresh s r \<Longrightarrow> run s session r = Ok s' \<Longrightarrow>
      resolve_actor s session USER_ADMIN = Ok actor \<Longrightarrow> obeys s s' actor"
    and keeps_schema: "schema_ok s \<Longrightarrow> fresh s r \<Longrightarrow> run s session r = Ok s' \<Longrightarrow> schema_ok s'"
    and keeps_accounts: "schema_ok s \<Longrightarrow> fresh s r \<Longrightarrow> run s session r = Ok s' \<Longrightarrow>
      account_state s u = Some st \<Longrightarrow> \<exists>st'. account_state s' u = Some st'"
    and keeps_other_admin: "schema_ok s \<Longrightarrow> fresh s r \<Longrightarrow> run s session r = Ok s' \<Longrightarrow>
      account_state s u = Some st \<Longrightarrow> administers st \<Longrightarrow> has_administrator s'"
begin

lemma keeps_admin:
  "schema_ok s \<Longrightarrow> fresh s r \<Longrightarrow> run s session r = Ok s' \<Longrightarrow> has_administrator s \<Longrightarrow> has_administrator s'"
  using keeps_other_admin by (auto simp: has_administrator_def)

lemma changes_managed:
  assumes "schema_ok s" "fresh s r" "run s session r = Ok s'" "resolve_actor s session USER_ADMIN = Ok actor"
    and "account_state s u = Some st" "account_state s' u = Some st'" "st' \<noteq> st"
  shows "managed s' actor st st'"
  using keeps_policy [OF assms(1-4)] assms(5-7) by (force simp: obeys_def)

lemma new_within:
  assumes "schema_ok s" "fresh s r" "run s session r = Ok s'" "resolve_actor s session USER_ADMIN = Ok actor"
    and "account_state s u = None" "account_state s' u = Some st'"
  shows "within (ac_authority actor) st'"
  using keeps_policy [OF assms(1-4)] assms(5,6) by (force simp: obeys_def)

end

section \<open>Administrators\<close>

lemma Admin_all: "bit (effective a) n \<longleftrightarrow> bit Privileges_all n \<and> \<not> bit (as_revoked a) n"
  if "as_class a = Admin" "\<And>n. bit (as_role_privileges a) n \<Longrightarrow> bit Privileges_all n"
  using that by (auto simp: bit_effective_state dest: bit_imp_le_length)

lemma bit_role_privileges_all: "bit (as_role_privileges (account_state_from_row s a)) n \<Longrightarrow> bit Privileges_all n"
  by (auto simp: bit_role_privileges role_privileges_of_def bit_from_bits_truncate)

lemma administers_with_roles:
  assumes "as_class b = as_class a" "as_revoked b = as_revoked a"
    and "\<And>n. bit (as_role_privileges a) n \<Longrightarrow> bit Privileges_all n"
    and "\<And>n. bit (as_role_privileges b) n \<Longrightarrow> bit Privileges_all n"
  shows "administers b \<longleftrightarrow> administers a"
  using assms Admin_all [of a] Admin_all [of b] by (auto simp: administers_def has_iff)

lemma bit_ADMIN_CORE: "bit ADMIN_CORE n \<longleftrightarrow> n = 18 \<or> n = 19"
  unfolding ADMIN_CORE_def USER_ADMIN_def SERVER_ADMIN_def bit_or_iff bit_push_bit_iff
  by (auto simp: bit_1_iff)

lemma has_core_iff: "has p ADMIN_CORE \<longleftrightarrow> bit p 18 \<and> bit p 19"
  unfolding has_iff bit_ADMIN_CORE by blast

lemma core_in_all: "bit Privileges_all 18" "bit Privileges_all 19"
  unfolding Privileges_all_def bit_or_iff USER_ADMIN_def SERVER_ADMIN_def bit_push_bit_iff
  by (auto simp: bit_1_iff)

lemma and_zero_iff: "(a :: 'a :: len word) AND b = 0 \<longleftrightarrow> (\<forall>n. \<not> (bit a n \<and> bit b n))"
proof
  assume "a AND b = 0"
  then show "\<forall>n. \<not> (bit a n \<and> bit b n)" by (metis bit_0_eq bit_and_iff bot_apply bot_bool_def)
next
  assume "\<forall>n. \<not> (bit a n \<and> bit b n)"
  then show "a AND b = 0" by (intro bit_word_eqI) (simp add: bit_and_iff)
qed

lemma administers_row:
  "administers (account_state_from_row s a) \<longleftrightarrow> 3 \<le> a_base_class a \<and> a_revoked a AND ucast ADMIN_CORE = 0"
proof -
  have "a_revoked a AND ucast ADMIN_CORE = 0 \<longleftrightarrow> \<not> bit (a_revoked a) 18 \<and> \<not> bit (a_revoked a) 19"
    unfolding and_zero_iff bit_ucast_iff bit_ADMIN_CORE by (auto dest: spec [of _ 18] spec [of _ 19])
  moreover have "as_class (account_state_from_row s a) = Admin \<longleftrightarrow> 3 \<le> a_base_class a"
    by (simp add: account_state_from_row_def class_from_stored_Admin)
  moreover have "bit (as_revoked (account_state_from_row s a)) n \<longleftrightarrow> bit (a_revoked a) n" if "n < 32" for n
    using that by (simp add: account_state_from_row_def bit_ucast_iff)
  ultimately show ?thesis
    using Admin_all [of "account_state_from_row s a", OF _ bit_role_privileges_all] core_in_all
    by (auto simp: administers_def has_core_iff)
qed

section \<open>The actor\<close>

lemma resolve_actor_Ok:
  assumes "resolve_actor s session req = Ok actor"
  obtains stored where "account_state s (s_username session) = Some stored" "actor = narrowed session stored"
    "ac_username actor = s_username session" "has (effective stored) (au_privileges (ac_authority actor))"
    "has (s_privileges session) (au_privileges (ac_authority actor))"
    "au_class (ac_authority actor) \<le> as_class stored" "has (au_privileges (ac_authority actor)) req"
proof -
  from assms obtain stored where "account_state s (s_username session) = Some stored"
      "actor = narrowed session stored" "has (au_privileges (ac_authority actor)) req"
    by (auto simp: resolve_actor_def Let_def split: if_splits option.splits)
  then show thesis
    by (intro that) (auto simp: narrowed_def has_iff bit_and_iff)
qed

lemma own_account:
  assumes "resolve_actor s session req = Ok actor" "account_state s u = Some st" "as_username st = ac_username actor"
  shows "has (effective st) (au_privileges (ac_authority actor)) \<and> au_class (ac_authority actor) \<le> as_class st"
proof -
  have "account_state s (ac_username actor) = Some st"
    using account_state_username [OF assms(2)] assms(2,3) by simp
  with assms(1) show ?thesis by (elim resolve_actor_Ok) auto
qed

lemma effective_known_bits [simp]:
  "effective_privileges c ro (known_bits g) (known_bits r) = effective_privileges c ro g r"
  by (simp add: effective_privileges_def from_bits_truncate_def known_bits_def and.assoc)

lemma effective_with_overrides:
  "bit (effective (with_overrides st c g r)) n \<Longrightarrow>
     bit (effective_privileges c 0 g r) n \<or> bit (as_role_privileges st) n"
  by (auto simp: effective_def with_overrides_def bit_effective)

lemma check_assignable_class_Ok:
  "check_assignable_class actor v = Ok c \<Longrightarrow> au_class actor = Admin \<or> c < au_class actor"
  by (auto simp: check_assignable_class_def not_le split: option.splits if_splits)

lemma check_overrides_Ok:
  "check_overrides actor c g r = Ok () \<Longrightarrow> has (au_privileges actor) (effective_privileges c 0 g r)"
  by (auto simp: check_overrides_def Let_def split: if_splits)

text \<open>A change of roles alone.\<close>

lemma managed_roles:
  assumes "resolve_actor s session USER_ADMIN = Ok actor" "account_state s u = Some st"
    and "may_manage (ac_authority actor) (authority st)"
    and "as_class st' = as_class st" "as_granted st' = as_granted st" "as_revoked st' = as_revoked st"
    and "\<And>n. bit (as_role_privileges st') n \<Longrightarrow>
      bit (as_role_privileges st) n \<or> bit (au_privileges (ac_authority actor)) n"
    and "privileges_changed st st' \<Longrightarrow> (as_username st, PRIVILEGES_CHANGED) \<in> set (disconnects s')"
  shows "managed s' actor st st'"
proof -
  have gain: "bit (effective st) n \<or> bit (au_privileges (ac_authority actor)) n" if "bit (effective st') n" for n
    using that assms(4-7) by (auto simp: bit_effective_state)
  moreover have "has (effective st) (effective st')" if "as_username st = ac_username actor"
    using own_account [OF assms(1,2) that] gain by (auto simp: has_iff)
  ultimately show ?thesis using assms(3,4,8) by (auto simp: managed_def)
qed

lemma administers_from_row:
  "as_class (account_state_from_row s' b) = as_class (account_state_from_row s a) \<Longrightarrow>
   as_revoked (account_state_from_row s' b) = as_revoked (account_state_from_row s a) \<Longrightarrow>
   administers (account_state_from_row s' b) \<longleftrightarrow> administers (account_state_from_row s a)"
  by (rule administers_with_roles) (auto dest: bit_role_privileges_all)

text \<open>Operations that leave the account table alone keep accounts and administrators.\<close>

lemma same_accounts:
  assumes "accounts s' = accounts s"
  shows "account_state s u = Some st \<Longrightarrow> \<exists>st'. account_state s' u = Some st'"
    and "account_state s u = Some st \<Longrightarrow> administers st \<Longrightarrow> has_administrator s'"
proof -
  show "account_state s u = Some st \<Longrightarrow> \<exists>st'. account_state s' u = Some st'"
    using assms by (auto elim: role_change_state)
  assume "account_state s u = Some st" "administers st"
  then obtain a where "administers (account_state_from_row s a)" "account_state s' u = Some (account_state_from_row s' a)"
    by (elim role_change_state [OF assms]) auto
  moreover from this have "administers (account_state_from_row s' a)"
    by (subst administers_from_row [of s' a s a]) (simp_all only: role_change_fields(1,3) [of s' a s])
  ultimately show "has_administrator s'"
    unfolding has_administrator_def by blast
qed

section \<open>Every operation keeps the contract\<close>

lemma obeysI:
  assumes "\<And>u st'. account_state s u = None \<Longrightarrow> account_state s' u = Some st' \<Longrightarrow> within (ac_authority actor) st'"
    and "\<And>u st st'. account_state s u = Some st \<Longrightarrow> account_state s' u = Some st' \<Longrightarrow> st' \<noteq> st \<Longrightarrow> managed s' actor st st'"
  shows "obeys s s' actor"
  using assms by (fastforce simp: obeys_def split: option.splits)

lemma obeys_same: "account_state s' = account_state s \<Longrightarrow> obeys s s' actor"
  by (rule obeysI) simp_all

interpretation create_op: admin_operation "\<lambda>s session (i, r). create_account i s session r"
  "\<lambda>s (i, r). fresh_ids s (CreateAccount i r)"
proof
  fix s session r s'
  assume run: "(case r of (i, r) \<Rightarrow> create_account i s session r) = Ok s'"
  obtain i q where r: "r = (i, q)" by fastforce
  from run r obtain cred actor c where
      actor: "resolve_actor s session USER_ADMIN = Ok actor"
      and cls: "check_assignable_class (ac_authority actor) (AccountCreate_base_class q) = Ok c"
      and ovr: "check_overrides (ac_authority actor) c (AccountCreate_granted q) (AccountCreate_revoked q) = Ok ()"
      and db: "db_create_account s i (AccountCreate_username q) cred (int (class_u8 c))
        (ucast (known_bits (AccountCreate_granted q))) (ucast (known_bits (AccountCreate_revoked q))) = Ok s'"
    by (auto simp: create_account_def check_account_create_def split: if_splits)
  show "\<exists>actor. resolve_actor s session USER_ADMIN = Ok actor" using actor by blast
  assume schema: "schema_ok s" and fresh: "case r of (i, r) \<Rightarrow> fresh_ids s (CreateAccount i r)"
  then have new: "i \<notin> fst ` set (account_roles s)" "i \<notin> a_id ` set (accounts s)"
    using r by (simp_all add: fresh_ids_def)
  note st = create_account_state [OF db new(1)]
  show "obeys s s' actor'" if "resolve_actor s session USER_ADMIN = Ok actor'" for actor'
  proof (rule obeysI)
    fix u st'
    assume "account_state s u = None" "account_state s' u = Some st'"
    then have "u = AccountCreate_username q" using st(3) by (metis option.discI)
    with \<open>account_state s' u = Some st'\<close> st(2) have "effective st' =
        effective_privileges c 0 (AccountCreate_granted q) (AccountCreate_revoked q)" "as_class st' = c"
      by (auto simp: effective_def)
    with check_overrides_Ok [OF ovr] check_assignable_class_Ok [OF cls] that actor
    show "within (ac_authority actor') st'" by (auto simp: within_def)
  next
    fix u st st'
    assume "account_state s u = Some st" "account_state s' u = Some st'" "st' \<noteq> st"
    then show "managed s' actor' st st'" using st(1,3) by (metis option.discI option.inject)
  qed
  show "schema_ok s'"
    using db schema new by (auto simp: db_create_account_def schema_ok_def split: if_splits) blast
  show "account_state s u = Some st \<Longrightarrow> \<exists>st'. account_state s' u = Some st'" for u st
    using st(1) st(3) [of u] by (cases "u = AccountCreate_username q") auto
  show "account_state s u = Some st \<Longrightarrow> administers st \<Longrightarrow> has_administrator s'" for u st
    unfolding has_administrator_def using st(1) st(3) [of u] by (cases "u = AccountCreate_username q") auto
qed


interpretation update_op: admin_operation update_account "\<lambda>s r. True"
proof
  fix s session r s'
  assume run: "update_account s session r = Ok s'"
  let ?g = "AccountUpdate_granted r" and ?v = "AccountUpdate_revoked r" and ?u = "AccountUpdate_username r"
  from run obtain actor target c s1 where
      actor: "resolve_actor s session USER_ADMIN = Ok actor"
      and target: "account_state s ?u = Some target"
      and chk: "check_account_update actor target (AccountUpdate_base_class r) ?g ?v = Ok c"
      and last: "\<not> (removes_administrator target (with_overrides target c (known_bits ?g) (known_bits ?v)) \<and>
        other_administrators s (as_username target) = 0)"
      and db: "db_update_account s ?u (int (class_u8 c)) (ucast (known_bits ?g)) (ucast (known_bits ?v)) = Ok s1"
      and s': "s' = kick_changed [target] s1"
    by (auto simp: update_account_def existing_account_def Let_def with_overrides_def split: if_splits option.splits)
  show "\<exists>actor. resolve_actor s session USER_ADMIN = Ok actor" using actor by blast
  assume schema: "schema_ok s"
  let ?after = "with_overrides target c (known_bits ?g) (known_bits ?v)"
  have state: "account_state s' ?u = Some ?after" "\<And>v. v \<noteq> ?u \<Longrightarrow> account_state s' v = account_state s v"
    using update_account_state [OF db] target s' by simp_all
  from chk have mng: "may_manage (ac_authority actor) (authority target)"
      and cls: "check_assignable_class (ac_authority actor) (AccountUpdate_base_class r) = Ok c"
      and ovr: "check_overrides (ac_authority actor) c ?g ?v = Ok ()"
      and self: "as_username target = ac_username actor \<Longrightarrow>
        c \<le> as_class target \<and> has (effective target) (effective (with_overrides target c ?g ?v))"
    by (auto simp: check_account_update_def not_less split: if_splits)
  have eff: "effective ?after = effective (with_overrides target c ?g ?v)"
    by (simp add: effective_def with_overrides_def)
  show "obeys s s' actor'" if "resolve_actor s session USER_ADMIN = Ok actor'" for actor'
  proof (rule obeysI)
    fix u st'
    assume "account_state s u = None" "account_state s' u = Some st'"
    with state target show "within (ac_authority actor') st'" by (cases "u = ?u") auto
  next
    fix u st st'
    assume st: "account_state s u = Some st" "account_state s' u = Some st'" "st' \<noteq> st"
    with state have u: "u = ?u" by (metis option.inject)
    with st state target have eqs: "st = target" "st' = ?after" by auto
    have "(as_username target, PRIVILEGES_CHANGED) \<in> set (disconnects s')" if "privileges_changed target ?after"
      unfolding s' by (rule kick_changed_kicks [where new = ?after])
        (use that update_account_state(1) [OF db] target account_state_username [OF target] in auto)
    moreover have "bit (au_privileges (ac_authority actor)) n \<or> bit (as_role_privileges target) n"
      if "bit (effective ?after) n" for n
      using that check_overrides_Ok [OF ovr] effective_with_overrides [of target c ?g ?v n] eff by (auto simp: has_iff)
    moreover have "as_class ?after = c" by (simp add: with_overrides_def)
    ultimately show "managed s' actor' st st'"
      using mng self check_assignable_class_Ok [OF cls] eff that actor eqs by (auto simp: managed_def)
  qed
  show "schema_ok s'"
  proof -
    have "map a_username (accounts s') = map a_username (accounts s)" "map a_id (accounts s') = map a_id (accounts s)"
        "roles s' = roles s"
      using db s' by (auto simp: db_update_account_def split: if_splits)
    with schema show ?thesis by (simp add: schema_ok_def)
  qed
  show "account_state s u = Some st \<Longrightarrow> \<exists>st'. account_state s' u = Some st'" for u st
    using state by (cases "u = ?u") auto
  show "has_administrator s'" if "account_state s u = Some st" "administers st" for u st
  proof (cases "u = ?u")
    case False
    with state(2) [of u] that show ?thesis unfolding has_administrator_def by auto
  next
    case True
    with that target have adm: "administers target" by simp
    show ?thesis
    proof (cases "administers ?after")
      case True
      with state(1) show ?thesis by (auto simp: has_administrator_def)
    next
      case False
      with adm last have "other_administrators s ?u \<noteq> 0"
        using account_state_username [OF target] by (simp add: removes_administrator_def)
      then obtain a where a: "a \<in> set (accounts s)" "3 \<le> a_base_class a" "a_revoked a AND ucast ADMIN_CORE = 0"
          "a_username a \<noteq> ?u"
        by (auto simp: other_administrators_def filter_empty_conv)
      with schema have "account_state s (a_username a) = Some (account_state_from_row s a)"
        by (simp add: account_state_of_row)
      with a state(2) [of "a_username a"] administers_row [of s a] show ?thesis
        unfolding has_administrator_def by auto
    qed
  qed
qed

interpretation password_op: admin_operation set_account_password "\<lambda>s r. True"
proof
  fix s session r s'
  assume run: "set_account_password s session r = Ok s'"
  from run obtain actor and target :: AccountState and cred where
      actor: "resolve_actor s session USER_ADMIN = Ok actor"
      and s1: "s' = disconnect (as_username target) PASSWORD_RESET (snd (db_set_credential s (as_account_id target) cred))"
    by (auto simp: set_account_password_def case_prod_unfold Let_def split: if_splits)
  obtain b s1 where db: "db_set_credential s (as_account_id target) cred = (b, s1)" by fastforce
  with s1 have s': "s' = disconnect (as_username target) PASSWORD_RESET s1" by simp
  show "\<exists>actor. resolve_actor s session USER_ADMIN = Ok actor" using actor by blast
  have same: "account_state s' = account_state s" using set_credential_state [OF db] s' by simp
  then show "obeys s s' actor'" for actor' by (rule obeys_same)
  show "account_state s u = Some st \<Longrightarrow> \<exists>st'. account_state s' u = Some st'" for u st using same by simp
  show "account_state s u = Some st \<Longrightarrow> administers st \<Longrightarrow> has_administrator s'" for u st
    using same by (auto simp: has_administrator_def)
  assume "schema_ok s"
  moreover have "map a_username (accounts s') = map a_username (accounts s)" "map a_id (accounts s') = map a_id (accounts s)"
      "roles s' = roles s"
    using db s' by (auto simp: db_set_credential_def)
  ultimately show "schema_ok s'" by (simp add: schema_ok_def)
qed

interpretation create_role_op: admin_operation "\<lambda>s session (i, r). create_role i s session r"
  "\<lambda>s (i, r). fresh_ids s (CreateRole i r)"
proof
  fix s session r s'
  assume run: "(case r of (i, r) \<Rightarrow> create_role i s session r) = Ok s'"
  obtain i q where r: "r = (i, q)" by fastforce
  from run r obtain actor nm p k col where
      actor: "resolve_actor s session USER_ADMIN = Ok actor" and db: "db_create_role s i nm p k col = Ok s'"
    by (auto simp: create_role_def Let_def)
  show "\<exists>actor. resolve_actor s session USER_ADMIN = Ok actor" using actor by blast
  assume schema: "schema_ok s" and fresh: "case r of (i, r) \<Rightarrow> fresh_ids s (CreateRole i r)"
  then have new: "i \<notin> snd ` set (account_roles s)" "i \<notin> rl_id ` set (roles s)"
    using r by (simp_all add: fresh_ids_def)
  have same: "account_state s' = account_state s" by (rule create_role_state [OF db new(1)])
  then show "obeys s s' actor'" for actor' by (rule obeys_same)
  show "account_state s u = Some st \<Longrightarrow> \<exists>st'. account_state s' u = Some st'" for u st using same by simp
  show "account_state s u = Some st \<Longrightarrow> administers st \<Longrightarrow> has_administrator s'" for u st
    using same by (auto simp: has_administrator_def)
  show "schema_ok s'"
    using db schema new by (auto simp: db_create_role_def schema_ok_def split: if_splits)
qed

text \<open>The operations on roles: who holds the role, and what the checks say of the holders.\<close>

lemma role_holders_iff:
  "st \<in> set (role_holders s rid) \<longleftrightarrow>
     (\<exists>a\<in>set (accounts s). st = account_state_from_row s a \<and> (a_id a, rid) \<in> set (account_roles s))"
  by (auto simp: role_holders_def)

lemma check_role_holders_Ok:
  "check_role_holders actor hs = Ok () \<Longrightarrow> h \<in> set hs \<Longrightarrow> may_manage actor (authority h)"
  by (auto simp: check_role_holders_def list_all_iff split: if_splits)

lemma check_role_privileges_Ok: "check_role_privileges actor p = Ok () \<longleftrightarrow> has (au_privileges actor) p"
  by (simp add: check_role_privileges_def)

lemma role_op_obeys:
  assumes "resolve_actor s session USER_ADMIN = Ok actor" and "accounts s' = accounts s"
    and gain: "\<And>a n. bit (as_role_privileges (account_state_from_row s' a)) n \<Longrightarrow>
      bit (as_role_privileges (account_state_from_row s a)) n \<or> bit (au_privileges (ac_authority actor)) n"
    and mng: "\<And>a. a \<in> set (accounts s) \<Longrightarrow> account_state_from_row s' a \<noteq> account_state_from_row s a \<Longrightarrow>
      may_manage (ac_authority actor) (authority (account_state_from_row s a))"
    and kick: "\<And>a. a \<in> set (accounts s) \<Longrightarrow> account_state s' (a_username a) = Some (account_state_from_row s' a) \<Longrightarrow>
      privileges_changed (account_state_from_row s a) (account_state_from_row s' a) \<Longrightarrow>
      (a_username a, PRIVILEGES_CHANGED) \<in> set (disconnects s')"
  shows "obeys s s' actor"
proof (rule obeysI)
  fix u st'
  assume "account_state s u = None" "account_state s' u = Some st'"
  with assms(2) show "within (ac_authority actor) st'" by (auto simp: account_state_def)
next
  fix u st st'
  assume st: "account_state s u = Some st" "account_state s' u = Some st'" "st' \<noteq> st"
  with assms(2) obtain a where a: "a \<in> set (accounts s)" "a_username a = u" "st = account_state_from_row s a"
      "st' = account_state_from_row s' a"
    by (elim role_change_state [OF assms(2)]) auto
  show "managed s' actor st st'"
  proof (rule managed_roles [OF assms(1) st(1)])
    show "may_manage (ac_authority actor) (authority st)" using mng [OF a(1)] st(3) a by simp
    show "privileges_changed st st' \<Longrightarrow> (as_username st, PRIVILEGES_CHANGED) \<in> set (disconnects s')"
      using kick [OF a(1)] st a by (simp add: role_change_fields)
    show "as_class st' = as_class st" "as_granted st' = as_granted st" "as_revoked st' = as_revoked st"
      using a by (simp_all add: account_state_from_row_def)
    show "\<And>n. bit (as_role_privileges st') n \<Longrightarrow>
      bit (as_role_privileges st) n \<or> bit (au_privileges (ac_authority actor)) n"
      using gain a by blast
  qed
qed

lemma holders_kicked:
  assumes "a \<in> set (accounts s)" "(a_id a, rid) \<in> set (account_roles s)"
    and "account_state s1 (a_username a) = Some (account_state_from_row s1 a)"
    and "privileges_changed (account_state_from_row s a) (account_state_from_row s1 a)"
  shows "(a_username a, PRIVILEGES_CHANGED) \<in> set (disconnects (kick_changed (role_holders s rid) s1))"
proof -
  have "account_state_from_row s a \<in> set (role_holders s rid)" using assms(1,2) by (auto simp: role_holders_iff)
  from kick_changed_kicks [OF this, of s1 "account_state_from_row s1 a"] assms(3,4) show ?thesis
    by (simp add: role_change_fields)
qed

lemma from_row_kick [simp]: "account_state_from_row (kick_changed b s) = account_state_from_row s"
  by (intro ext) (simp add: account_state_from_row_def for_account_def)

lemma from_row_eqI:
  "(\<And>n. bit (as_role_privileges (account_state_from_row s' a)) n \<longleftrightarrow>
      bit (as_role_privileges (account_state_from_row s a)) n) \<Longrightarrow>
     account_state_from_row s' a = account_state_from_row s a"
  by (rule account_state_from_row_cong) (simp add: bit_role_privileges)

interpretation update_role_op: admin_operation update_role "\<lambda>s r. True"
proof
  fix s session r s'
  assume run: "update_role s session r = Ok s'"
  let ?p = "from_bits_truncate (RoleUpdate_privileges r)" and ?rid = "RoleUpdate_id r"
  from run obtain actor role nm k col s1 where
      actor: "resolve_actor s session USER_ADMIN = Ok actor" and role: "get_role s ?rid = Some role"
      and privs: "has (au_privileges (ac_authority actor)) (role_privileges_of role)" "has (au_privileges (ac_authority actor)) ?p"
      and holders: "check_role_holders (ac_authority actor) (role_holders s ?rid) = Ok ()"
      and db: "db_update_role s ?rid nm ?p k col = Ok s1"
      and s': "s' = (if role_privileges_of role \<noteq> ?p then kick_changed (role_holders s ?rid) s1 else s1)"
    by (auto simp: update_role_def Let_def existing_role_def check_role_privileges_Ok split: option.splits)
  show "\<exists>actor. resolve_actor s session USER_ADMIN = Ok actor" using actor by blast
  have acc: "accounts s' = accounts s" using db_role_tables(1) [OF db] s' by simp
  show "\<And>u st. account_state s u = Some st \<Longrightarrow> \<exists>st'. account_state s' u = Some st'"
    "\<And>u st. account_state s u = Some st \<Longrightarrow> administers st \<Longrightarrow> has_administrator s'"
    using same_accounts [OF acc] by blast+
  assume schema: "schema_ok s"
  have row: "account_state_from_row s' = account_state_from_row s1" using s' by simp
  note bits = update_role_bits [OF schema role db]
  have unchanged: "account_state_from_row s1 a = account_state_from_row s a"
    if "(a_id a, ?rid) \<notin> set (account_roles s) \<or> role_privileges_of role = ?p" for a
  proof (rule from_row_eqI)
    fix n
    have "(\<exists>r\<in>set (roles s). (a_id a, rl_id r) \<in> set (account_roles s) \<and> bit (role_privileges_of r) n) \<longleftrightarrow>
        (\<exists>r\<in>set (roles s). rl_id r \<noteq> ?rid \<and> (a_id a, rl_id r) \<in> set (account_roles s) \<and> bit (role_privileges_of r) n) \<or>
        (a_id a, ?rid) \<in> set (account_roles s) \<and> bit (role_privileges_of role) n"
      using get_role_Some [OF role] get_role_unique [OF schema role] by metis
    with that show "bit (as_role_privileges (account_state_from_row s1 a)) n \<longleftrightarrow>
        bit (as_role_privileges (account_state_from_row s a)) n"
      unfolding bits bit_role_privileges [of s] by auto
  qed
  show "obeys s s' actor'" if "resolve_actor s session USER_ADMIN = Ok actor'" for actor'
  proof (rule role_op_obeys [OF that acc])
    have "actor' = actor" using that actor by simp
    then show "bit (as_role_privileges (account_state_from_row s a)) n \<or> bit (au_privileges (ac_authority actor')) n"
      if "bit (as_role_privileges (account_state_from_row s' a)) n" for a n
      using that privs(2) unfolding row bits by (auto simp: bit_role_privileges has_iff)
    show "may_manage (ac_authority actor') (authority (account_state_from_row s a))"
      if "a \<in> set (accounts s)" "account_state_from_row s' a \<noteq> account_state_from_row s a" for a
      using that unchanged [of a] check_role_holders_Ok [OF holders] \<open>actor' = actor\<close> row by (auto simp: role_holders_iff)
    show "(a_username a, PRIVILEGES_CHANGED) \<in> set (disconnects s')"
      if "a \<in> set (accounts s)" "account_state s' (a_username a) = Some (account_state_from_row s' a)"
        "privileges_changed (account_state_from_row s a) (account_state_from_row s' a)" for a
    proof -
      from that(3) have "account_state_from_row s1 a \<noteq> account_state_from_row s a"
        unfolding row by (auto simp: privileges_changed_def)
      with unchanged [of a] have "(a_id a, ?rid) \<in> set (account_roles s)" "role_privileges_of role \<noteq> ?p" by auto
      with that holders_kicked [of a s ?rid s1] s' row show ?thesis by simp
    qed
  qed
  show "schema_ok s'" using schema db_role_tables(1) [OF db] s' by (simp add: schema_ok_def)
qed

interpretation delete_role_op: admin_operation delete_role "\<lambda>s r. True"
proof
  fix s session rid s'
  assume run: "delete_role s session rid = Ok s'"
  from run obtain actor role s1 where
      actor: "resolve_actor s session USER_ADMIN = Ok actor" and role: "get_role s rid = Some role"
      and holders: "check_role_holders (ac_authority actor) (role_holders s rid) = Ok ()"
      and db: "db_delete_role s rid = Ok s1" and s': "s' = kick_changed (role_holders s rid) s1"
    by (auto simp: delete_role_def Let_def existing_role_def split: option.splits)
  show "\<exists>actor. resolve_actor s session USER_ADMIN = Ok actor" using actor by blast
  have acc: "accounts s' = accounts s" using db_role_tables(2) [OF db] s' by simp
  show "\<And>u st. account_state s u = Some st \<Longrightarrow> \<exists>st'. account_state s' u = Some st'"
    "\<And>u st. account_state s u = Some st \<Longrightarrow> administers st \<Longrightarrow> has_administrator s'"
    using same_accounts [OF acc] by blast+
  assume schema: "schema_ok s"
  note bits = delete_role_bits [OF db]
  have row: "account_state_from_row s' = account_state_from_row s1" using s' by simp
  have unchanged: "account_state_from_row s1 a = account_state_from_row s a" if "(a_id a, rid) \<notin> set (account_roles s)" for a
  proof (rule from_row_eqI)
    show "bit (as_role_privileges (account_state_from_row s1 a)) n \<longleftrightarrow>
        bit (as_role_privileges (account_state_from_row s a)) n" for n
      unfolding bits bit_role_privileges [of s] using that by auto
  qed
  show "obeys s s' actor'" if "resolve_actor s session USER_ADMIN = Ok actor'" for actor'
  proof (rule role_op_obeys [OF that acc])
    have "actor' = actor" using that actor by simp
    show "bit (as_role_privileges (account_state_from_row s a)) n \<or> bit (au_privileges (ac_authority actor')) n"
      if "bit (as_role_privileges (account_state_from_row s' a)) n" for a n
      using that unfolding row bits by (auto simp: bit_role_privileges)
    show "may_manage (ac_authority actor') (authority (account_state_from_row s a))"
      if "a \<in> set (accounts s)" "account_state_from_row s' a \<noteq> account_state_from_row s a" for a
      using that unchanged [of a] check_role_holders_Ok [OF holders] \<open>actor' = actor\<close> row by (auto simp: role_holders_iff)
    show "(a_username a, PRIVILEGES_CHANGED) \<in> set (disconnects s')"
      if "a \<in> set (accounts s)" "account_state s' (a_username a) = Some (account_state_from_row s' a)"
        "privileges_changed (account_state_from_row s a) (account_state_from_row s' a)" for a
    proof -
      from that(3) have "account_state_from_row s1 a \<noteq> account_state_from_row s a"
        unfolding row by (auto simp: privileges_changed_def)
      with unchanged [of a] have "(a_id a, rid) \<in> set (account_roles s)" by auto
      with that holders_kicked [of a s rid s1] s' row show ?thesis by simp
    qed
  qed
  show "schema_ok s'" using schema db_role_tables(2) [OF db] s' by (auto simp: schema_ok_def distinct_map_filter)
qed

interpretation assign_op: admin_operation "\<lambda>s session (u, rid, b). set_role_assignment s session u rid b" "\<lambda>s r. True"
proof
  fix s session r s'
  assume run: "(case r of (u, rid, b) \<Rightarrow> set_role_assignment s session u rid b) = Ok s'"
  obtain u rid b where r: "r = (u, rid, b)" by (cases r)
  from run r obtain actor role target s1 where
      actor: "resolve_actor s session USER_ADMIN = Ok actor" and role: "get_role s rid = Some role"
      and target: "account_state s u = Some target"
      and privs: "has (au_privileges (ac_authority actor)) (role_privileges_of role)"
      and mng: "may_manage (ac_authority actor) (authority target)"
      and db: "(if b then db_assign s (as_account_id target) rid else db_unassign s (as_account_id target) rid) = Ok s1"
      and s': "s' = kick_changed [target] s1"
    by (auto simp: set_role_assignment_def existing_role_def existing_account_def check_role_privileges_Ok
        split: option.splits if_splits)
  show "\<exists>actor. resolve_actor s session USER_ADMIN = Ok actor" using actor by blast
  have tabs: "accounts s1 = accounts s" "roles s1 = roles s"
    using db db_role_tables(3,4) by (auto split: if_splits)
  then have acc: "accounts s' = accounts s" using s' by simp
  show "\<And>u st. account_state s u = Some st \<Longrightarrow> \<exists>st'. account_state s' u = Some st'"
    "\<And>u st. account_state s u = Some st \<Longrightarrow> administers st \<Longrightarrow> has_administrator s'"
    using same_accounts [OF acc] by blast+
  assume schema: "schema_ok s"
  have row: "account_state_from_row s' = account_state_from_row s1" using s' by simp
  from target obtain t where t: "t \<in> set (accounts s)" "a_username t = u" "target = account_state_from_row s t"
    by (elim account_state_SomeE)
  have only: "a = t" if "a \<in> set (accounts s)" "a_id a = as_account_id target" for a
    using that t schema distinct_map_eq [of a_id "accounts s" a t] by (simp add: schema_ok_def role_change_fields)
  have bits: "bit (as_role_privileges (account_state_from_row s a)) n \<or>
      a_id a = as_account_id target \<and> bit (role_privileges_of role) n"
    if "bit (as_role_privileges (account_state_from_row s1 a)) n" for a n
    using that db assign_bits [OF _ schema role, of "as_account_id target" s1 a n]
      unassign_bits [of s "as_account_id target" rid s1 a n]
    by (auto simp: bit_role_privileges split: if_splits)
  have same: "account_state_from_row s1 a = account_state_from_row s a" if "a_id a \<noteq> as_account_id target" for a
  proof (rule from_row_eqI)
    show "bit (as_role_privileges (account_state_from_row s1 a)) n \<longleftrightarrow>
        bit (as_role_privileges (account_state_from_row s a)) n" for n
    proof (cases b)
      case True
      with db assign_bits [OF _ schema role, of "as_account_id target" s1 a n] that show ?thesis by simp
    next
      case False
      with db unassign_bits [of s "as_account_id target" rid s1 a n] that show ?thesis
        by (simp add: bit_role_privileges [of s])
    qed
  qed
  show "obeys s s' actor'" if "resolve_actor s session USER_ADMIN = Ok actor'" for actor'
  proof (rule role_op_obeys [OF that acc])
    have eq: "actor' = actor" using that actor by simp
    show "bit (as_role_privileges (account_state_from_row s a)) n \<or> bit (au_privileges (ac_authority actor')) n"
      if "bit (as_role_privileges (account_state_from_row s' a)) n" for a n
      using that bits [of a n] privs eq unfolding row by (auto simp: has_iff)
    show "may_manage (ac_authority actor') (authority (account_state_from_row s a))"
      if "a \<in> set (accounts s)" "account_state_from_row s' a \<noteq> account_state_from_row s a" for a
      using that same [of a] only [of a] mng t eq row by auto
    show "(a_username a, PRIVILEGES_CHANGED) \<in> set (disconnects s')"
      if "a \<in> set (accounts s)" "account_state s' (a_username a) = Some (account_state_from_row s' a)"
        "privileges_changed (account_state_from_row s a) (account_state_from_row s' a)" for a
    proof -
      from that(3) have "account_state_from_row s1 a \<noteq> account_state_from_row s a"
        unfolding row by (auto simp: privileges_changed_def)
      with same [of a] only [OF that(1)] have "a = t" by auto
      with that t kick_changed_kicks [of target "[target]" s1 "account_state_from_row s1 t"] s' row show ?thesis
        by (simp add: role_change_fields)
    qed
  qed
  show "schema_ok s'" using schema tabs s' by (simp add: schema_ok_def)
qed

text \<open>So one contract covers every request.\<close>

definition contract :: "ctx \<Rightarrow> Session \<Rightarrow> ctx \<Rightarrow> bool" where
  "contract s session s' \<longleftrightarrow>
     (\<exists>actor. resolve_actor s session USER_ADMIN = Ok actor \<and> obeys s s' actor) \<and> schema_ok s' \<and>
     (\<forall>u st. account_state s u = Some st \<longrightarrow> (\<exists>st'. account_state s' u = Some st')) \<and>
     (has_administrator s \<longrightarrow> has_administrator s')"

lemma op_contract:
  assumes "admin_operation run fresh" "run s session r = Ok s'" "schema_ok s" "fresh s r"
  shows "contract s session s'"
proof -
  note op = admin_operation.authorized [OF assms(1,2)] admin_operation.keeps_policy [OF assms(1,3,4,2)]
    admin_operation.keeps_schema [OF assms(1,3,4,2)] admin_operation.keeps_accounts [OF assms(1,3,4,2)]
    admin_operation.keeps_admin [OF assms(1,3,4,2)]
  from op(1) obtain actor where "resolve_actor s session USER_ADMIN = Ok actor" by blast
  with op(2) have "\<exists>actor. resolve_actor s session USER_ADMIN = Ok actor \<and> obeys s s' actor" by blast
  moreover have "\<forall>u st. account_state s u = Some st \<longrightarrow> (\<exists>st'. account_state s' u = Some st')" using op(4) by blast
  ultimately show ?thesis using op(3,5) unfolding contract_def by blast
qed

lemma step_contract:
  assumes "admin_step s session r = Ok s'" "schema_ok s" "fresh_ids s r"
  shows "contract s session s'"
proof (cases r)
  case (CreateAccount i q)
  with assms op_contract [OF create_op.admin_operation_axioms, of s session "(i, q)" s'] show ?thesis
    by (simp add: admin_step_def)
next
  case (UpdateAccount q)
  with assms op_contract [OF update_op.admin_operation_axioms, of s session q s'] show ?thesis
    by (simp add: admin_step_def)
next
  case (SetPassword q)
  with assms op_contract [OF password_op.admin_operation_axioms, of s session q s'] show ?thesis
    by (simp add: admin_step_def)
next
  case (CreateRole i q)
  with assms op_contract [OF create_role_op.admin_operation_axioms, of s session "(i, q)" s'] show ?thesis
    by (simp add: admin_step_def)
next
  case (UpdateRole q)
  with assms op_contract [OF update_role_op.admin_operation_axioms, of s session q s'] show ?thesis
    by (simp add: admin_step_def)
next
  case (DeleteRole rid)
  with assms op_contract [OF delete_role_op.admin_operation_axioms, of s session rid s'] show ?thesis
    by (simp add: admin_step_def)
next
  case (AssignRole u rid b)
  with assms op_contract [OF assign_op.admin_operation_axioms, of s session "(u, rid, b)" s'] show ?thesis
    by (simp add: admin_step_def)
qed

interpretation step: admin_operation admin_step fresh_ids
proof
  fix s session r s' u st actor
  assume run: "admin_step s session r = Ok s'"
  then show "\<exists>actor. resolve_actor s session USER_ADMIN = Ok actor"
    by (cases r) (auto simp: admin_step_def dest: create_op.authorized [where r = "(i, q)" for i q, simplified]
      update_op.authorized password_op.authorized create_role_op.authorized [where r = "(i, q)" for i q, simplified]
      update_role_op.authorized delete_role_op.authorized
      assign_op.authorized [where r = "(u, i, b)" for u i b, simplified])
  assume "schema_ok s" "fresh_ids s r"
  note c = step_contract [OF run this]
  show "schema_ok s'" using c by (simp add: contract_def)
  show "resolve_actor s session USER_ADMIN = Ok actor \<Longrightarrow> obeys s s' actor"
    using c by (auto simp: contract_def)
  show "account_state s u = Some st \<Longrightarrow> \<exists>st'. account_state s' u = Some st'"
    using c by (auto simp: contract_def)
  show "account_state s u = Some st \<Longrightarrow> administers st \<Longrightarrow> has_administrator s'"
    using c by (auto simp: contract_def has_administrator_def)
qed

section \<open>Runs\<close>

text \<open>Any sequence of accepted requests, from any sessions; a refused request changes nothing.\<close>

inductive admin_runs :: "ctx \<Rightarrow> ctx \<Rightarrow> bool" where
  start: "admin_runs s s"
| request: "admin_runs s s1 \<Longrightarrow> fresh_ids s1 r \<Longrightarrow> admin_step s1 session r = Ok s2 \<Longrightarrow> admin_runs s s2"

lemma admin_runs_inv:
  assumes "admin_runs s s'" "schema_ok s" "has_administrator s"
  shows "schema_ok s' \<and> has_administrator s'"
  using assms
proof (induction rule: admin_runs.induct)
  case (request s s1 r session s2)
  then show ?case using step.keeps_schema step.keeps_admin by blast
qed simp

section \<open>A sample server\<close>

text \<open>An administrator, a deputy who may edit accounts, and a member whose role would give
  \<open>SERVER_ADMIN\<close> but who has it revoked.\<close>

definition any_credential :: StoredCredential where
  "any_credential = \<lparr>cr_salt = [], cr_m_cost = 0, cr_t_cost = 0, cr_p_cost = 0, cr_stored_key = [], cr_server_key = []\<rparr>"

definition sample_row :: "string \<Rightarrow> string \<Rightarrow> int \<Rightarrow> u64 \<Rightarrow> u64 \<Rightarrow> account_row" where
  "sample_row i u c g r = \<lparr>a_id = i, a_username = u, a_credential = any_credential, a_base_class = c,
     a_granted = g, a_revoked = r\<rparr>"

definition sample_ctx :: ctx where
  "sample_ctx = \<lparr>accounts = [sample_row ''1'' ''root'' 3 0 0, sample_row ''2'' ''deputy'' 2 0x40000 0,
       sample_row ''3'' ''member'' 1 0 0x80000],
     roles = [\<lparr>rl_id = [9], rl_name = ''ops'', rl_privileges = 0x80000, rl_rank = 0, rl_color = None\<rparr>],
     account_roles = [(''3'', [9])], disconnects = []\<rparr>"

definition deputy :: Session where
  "deputy = \<lparr>s_username = ''deputy'', s_class = PowerUser,
     s_privileges = class_privileges PowerUser OR USER_ADMIN\<rparr>"

definition unrevoke :: AccountUpdate where
  "unrevoke = \<lparr>AccountUpdate_username = ''member'', AccountUpdate_base_class = 1,
     AccountUpdate_granted = 0, AccountUpdate_revoked = 0\<rparr>"

fun get_Ok :: "('a, 'e) result \<Rightarrow> 'a option" where
  "get_Ok (Ok x) = Some x"
| "get_Ok _ = None"

lemma get_Ok_Some [simp]: "get_Ok r = Some x \<longleftrightarrow> r = Ok x"
  by (cases r) simp_all

lemma sample_ctx_ok: "schema_ok sample_ctx"
  by (simp add: schema_ok_def sample_ctx_def sample_row_def)

lemma sample_admin: "has_administrator sample_ctx"
proof -
  have "administers (the (account_state sample_ctx ''root''))" "account_state sample_ctx ''root'' \<noteq> None"
    by code_simp+
  then show ?thesis unfolding has_administrator_def by (metis option.collapse)
qed

lemma sample_update: "is_ok (update_account sample_ctx deputy unrevoke)"
  by code_simp

definition sample_after :: ctx where
  "sample_after = the (get_Ok (update_account sample_ctx deputy unrevoke))"

lemma sample_step: "admin_step sample_ctx deputy (UpdateAccount unrevoke) = Ok sample_after"
  using sample_update by (cases "update_account sample_ctx deputy unrevoke") (simp_all add: admin_step_def sample_after_def)

section \<open>Properties\<close>

text \<open>Property C8. The server never loses its last administrator: from tables that satisfy the schema
  and hold an Admin-class account with both \<open>USER_ADMIN\<close> and \<open>SERVER_ADMIN\<close>, no sequence of
  account and role requests, from whatever sessions, reaches tables without one.\<close>

theorem last_administrator:
  assumes "admin_runs s s'" and "schema_ok s" and "has_administrator s"
  shows "has_administrator s' \<and> schema_ok s'"
  using admin_runs_inv [OF assms] by simp

theorem last_administrator_witness: "has_administrator sample_after \<and> schema_ok sample_after"
proof (rule last_administrator [OF _ sample_ctx_ok sample_admin])
  show "admin_runs sample_ctx sample_after"
    by (rule admin_runs.request [OF admin_runs.start _ sample_step]) (simp add: fresh_ids_def)
qed

text \<open>Property C9. No minting of power: whatever request is accepted, a privilege an account holds
  afterwards and did not hold before is held by the acting session and by its stored account,
  or comes from a role the account already had (see \<open>unrevoke_gap\<close>). A new account has nothing but
  the actor's privileges and, unless the actor is an Admin, a class below the actor's.\<close>

theorem no_minting:
  assumes "schema_ok s" and "fresh_ids s r" and "admin_step s session r = Ok s'"
    and "account_state s' u = Some st'" and "bit (effective st') n"
  shows "\<exists>stored. account_state s (s_username session) = Some stored \<and>
    (case account_state s u of
       Some st \<Rightarrow> bit (effective st) n \<or> bit (s_privileges session AND effective stored) n \<or> bit (as_role_privileges st) n
     | None \<Rightarrow> bit (s_privileges session AND effective stored) n \<and>
         (min (s_class session) (as_class stored) = Admin \<or> as_class st' < min (s_class session) (as_class stored)))"
proof -
  from step.authorized [OF assms(3)] obtain actor where actor: "resolve_actor s session USER_ADMIN = Ok actor" by blast
  then obtain stored where st: "account_state s (s_username session) = Some stored" "actor = narrowed session stored"
    by (elim resolve_actor_Ok)
  have "obeys s s' actor" using step.keeps_policy assms(1-3) actor by blast
  then have ob: "case account_state s u of None \<Rightarrow> within (ac_authority actor) st'
      | Some st \<Rightarrow> st' = st \<or> managed s' actor st st'"
    using assms(4) unfolding obeys_def by blast
  show ?thesis
  proof (cases "account_state s u")
    case None
    with ob st assms(5) show ?thesis
      by (auto simp: within_def narrowed_def has_iff)
  next
    case (Some old)
    with ob st assms(5) show ?thesis
      by (auto simp: managed_def narrowed_def has_iff)
  qed
qed

theorem no_minting_witness:
  "\<exists>stored. account_state sample_ctx ''deputy'' = Some stored \<and> (\<exists>st. account_state sample_ctx ''member'' = Some st \<and>
     (bit (effective st) 19 \<or> bit (s_privileges deputy AND effective stored) 19 \<or> bit (as_role_privileges st) 19))"
proof -
  have "account_state sample_after ''member'' \<noteq> None"
      "bit (effective (the (account_state sample_after ''member''))) 19" "account_state sample_ctx ''member'' \<noteq> None"
    unfolding sample_after_def by code_simp+
  then obtain st' st where "account_state sample_after ''member'' = Some st'" "bit (effective st') 19"
      "account_state sample_ctx ''member'' = Some st" by auto
  with no_minting [OF sample_ctx_ok _ sample_step this(1,2)] show ?thesis
    by (simp add: fresh_ids_def deputy_def)
qed

text \<open>Property C10. Rank: an account whose class, overrides or role privileges a request changes was one
  the actor may manage (of strictly lower class unless the actor is an Admin, and holding no
  privilege the actor lacks), every account whose class or effective privileges changed is told
  to reconnect, and nobody raises their own class or privileges.\<close>

theorem changes_are_managed:
  assumes "schema_ok s" and "fresh_ids s r" and "admin_step s session r = Ok s'"
    and "account_state s u = Some st" and "account_state s' u = Some st'" and "st' \<noteq> st"
  shows "\<exists>stored. account_state s (s_username session) = Some stored \<and>
    (let cls = min (s_class session) (as_class stored) in
     (cls = Admin \<or> as_class st < cls) \<and> has (s_privileges session AND effective stored) (effective st) \<and>
     (as_class st' = as_class st \<or> cls = Admin \<or> as_class st' < cls)) \<and>
    (privileges_changed st st' \<longrightarrow> (u, PRIVILEGES_CHANGED) \<in> set (disconnects s')) \<and>
    (u = s_username session \<longrightarrow> has (effective st) (effective st') \<and> as_class st' \<le> as_class st)"
proof -
  from step.authorized [OF assms(3)] obtain actor where actor: "resolve_actor s session USER_ADMIN = Ok actor" by blast
  then obtain stored where st: "account_state s (s_username session) = Some stored" "actor = narrowed session stored"
    by (elim resolve_actor_Ok)
  have "managed s' actor st st'" using step.changes_managed assms actor by blast
  with st account_state_username [OF assms(4)] show ?thesis
    by (auto simp: managed_def may_manage_def narrowed_def authority_def Let_def)
qed

theorem changes_are_managed_witness:
  "\<exists>stored. account_state sample_ctx ''deputy'' = Some stored \<and>
     (''member'', PRIVILEGES_CHANGED) \<in> set (disconnects sample_after)"
proof -
  have "account_state sample_after ''member'' \<noteq> None" "account_state sample_ctx ''member'' \<noteq> None"
      "privileges_changed (the (account_state sample_ctx ''member'')) (the (account_state sample_after ''member''))"
    unfolding sample_after_def by code_simp+
  then obtain st' st where st: "account_state sample_after ''member'' = Some st'"
      "account_state sample_ctx ''member'' = Some st" "privileges_changed st st'" by auto
  then have "st' \<noteq> st" by (auto simp: privileges_changed_def)
  with changes_are_managed [OF sample_ctx_ok _ sample_step st(2,1)] st(3) show ?thesis
    by (auto simp: fresh_ids_def deputy_def)
qed

text \<open>A password reset replaces the credential of exactly one account, which is not the
  actor's own and which the actor may manage; it changes nobody's class or privileges and drops
  that account's sessions.\<close>

lemma password_reset:
  assumes "schema_ok s" and "set_account_password s session req = Ok s'"
  shows "\<exists>actor target cred. resolve_actor s session USER_ADMIN = Ok actor \<and>
    account_state s (AccountSetPassword_username req) = Some target \<and>
    AccountSetPassword_username req \<noteq> s_username session \<and>
    may_manage (ac_authority actor) (authority target) \<and>
    credential_from_wire (AccountSetPassword_credential req) = Ok cred \<and>
    accounts s' = map (\<lambda>a. if a_username a = AccountSetPassword_username req then a\<lparr>a_credential := cred\<rparr> else a) (accounts s) \<and>
    account_state s' = account_state s \<and>
    (AccountSetPassword_username req, PASSWORD_RESET) \<in> set (disconnects s')"
proof -
  let ?u = "AccountSetPassword_username req"
  from assms(2) obtain actor and target :: AccountState and cred where
      actor: "resolve_actor s session USER_ADMIN = Ok actor" and target: "account_state s ?u = Some target"
      and cred: "credential_from_wire (AccountSetPassword_credential req) = Ok cred"
      and chk: "check_password_reset actor target = Ok ()"
      and s': "s' = disconnect (as_username target) PASSWORD_RESET (snd (db_set_credential s (as_account_id target) cred))"
    by (auto simp: set_account_password_def existing_account_def case_prod_unfold Let_def split: if_splits option.splits)
  from target obtain t where t: "t \<in> set (accounts s)" "a_username t = ?u" "target = account_state_from_row s t"
    by (elim account_state_SomeE)
  have "a_id a = a_id t \<longleftrightarrow> a_username a = ?u" if "a \<in> set (accounts s)" for a
    using that t assms(1) distinct_map_eq [of a_id "accounts s" a t] distinct_map_eq [of a_username "accounts s" a t]
    by (auto simp: schema_ok_def)
  then have rows: "accounts s' = map (\<lambda>a. if a_username a = ?u then a\<lparr>a_credential := cred\<rparr> else a) (accounts s)"
    using s' t by (auto simp: db_set_credential_def role_change_fields)
  have same: "account_state s' = account_state s"
    using s' set_credential_state [of s "as_account_id target" cred "fst (db_set_credential s (as_account_id target) cred)"
        "snd (db_set_credential s (as_account_id target) cred)"] by simp
  have name: "as_username target = ?u" using t by (simp add: role_change_fields)
  have "ac_username actor = s_username session" using actor by (elim resolve_actor_Ok)
  then have "?u \<noteq> s_username session" "may_manage (ac_authority actor) (authority target)"
    using chk name by (auto simp: check_password_reset_def split: if_splits)
  with actor target cred rows same s' name show ?thesis by auto
qed

definition reset_member :: AccountSetPassword where
  "reset_member = \<lparr>AccountSetPassword_username = ''member'', AccountSetPassword_credential =
     \<lparr>Credential_m_cost = 19456, Credential_t_cost = 2, Credential_p_cost = 1, Credential_salt = replicate 16 1,
      Credential_stored_key = replicate 32 1, Credential_server_key = replicate 32 2\<rparr>\<rparr>"

text \<open>The third case of \<open>no_minting\<close> happens, on one sample: a non-Admin deputy without \<open>SERVER_ADMIN\<close> may edit an account
  whose role carries \<open>SERVER_ADMIN\<close> as long as that bit is revoked on the account, and lifting the
  revocation is accepted, since only the class and the grants are compared with the deputy's own
  privileges. Afterwards the account holds \<open>SERVER_ADMIN\<close>, and before it the deputy could have set its
  password.\<close>

lemma unrevoke_gap:
  "\<exists>s session req s' st st'. schema_ok s \<and> update_account s session req = Ok s' \<and>
     s_class session \<noteq> Admin \<and> \<not> has (s_privileges session) SERVER_ADMIN \<and>
     account_state s (AccountUpdate_username req) = Some st \<and> \<not> has (effective st) SERVER_ADMIN \<and>
     account_state s' (AccountUpdate_username req) = Some st' \<and> has (effective st') SERVER_ADMIN"
proof -
  have "account_state sample_after ''member'' \<noteq> None" "account_state sample_ctx ''member'' \<noteq> None"
      "has (effective (the (account_state sample_after ''member''))) SERVER_ADMIN"
      "\<not> has (effective (the (account_state sample_ctx ''member''))) SERVER_ADMIN"
      "\<not> has (s_privileges deputy) SERVER_ADMIN"
    unfolding sample_after_def by code_simp+
  moreover have "update_account sample_ctx deputy unrevoke = Ok sample_after"
    using sample_step by (simp add: admin_step_def)
  moreover have "s_class deputy \<noteq> Admin" "AccountUpdate_username unrevoke = ''member''"
    by (simp_all add: deputy_def unrevoke_def)
  ultimately show ?thesis using sample_ctx_ok by (metis option.collapse)
qed

end
