(* ===== verification/Channel.thy ===== *)
theory Channel
  imports Header
begin

text \<open>
  The channels the server's tasks talk through. A connection owns the receiving
  end of one bounded queue of outbound frames (\<open>mpsc::channel\<close>) that chat rooms,
  presence and the connection itself send to, and of one kill signal
  (\<open>watch::channel\<close>). The sending ends are handles into one store, so that two
  components holding the same handle see the same queue.
\<close>

section \<open>Outbound queues\<close>

type_synonym uuid = bytes

record Outbound =
  ob_packet_type :: PacketType
  ob_flags :: PacketFlags
  ob_payload :: bytes

record channel =
  ch_queue :: "Outbound list"
  ch_capacity :: nat
  ch_closed :: bool

type_synonym channels = "nat \<Rightarrow> channel"

datatype try_result = Sent | Full | Closed

text \<open>\<open>mpsc::Sender::try_send\<close>: never waits.\<close>

definition try_send :: "channels \<Rightarrow> nat \<Rightarrow> Outbound \<Rightarrow> try_result \<times> channels" where
  "try_send cs c ob =
     (if ch_closed (cs c) then (Closed, cs)
      else if ch_capacity (cs c) \<le> length (ch_queue (cs c)) then (Full, cs)
      else (Sent, cs(c := (cs c)\<lparr>ch_queue := ch_queue (cs c) @ [ob]\<rparr>)))"

text \<open>A loop of \<open>try_send\<close>: how many accepted the frame, and the keys whose receiver is gone.\<close>

fun send_each :: "('k \<times> nat \<times> Outbound) list \<Rightarrow> channels \<Rightarrow> nat \<times> 'k list \<times> channels" where
  "send_each [] cs = (0, [], cs)"
| "send_each ((k, c, ob) # xs) cs =
     (let (r, cs1) = try_send cs c ob; (reached, dead, cs2) = send_each xs cs1 in
      (case r of Sent \<Rightarrow> (reached + 1, dead, cs2) | Full \<Rightarrow> (reached, dead, cs2) | Closed \<Rightarrow> (reached, k # dead, cs2)))"

section \<open>Kill signals\<close>

record signal =
  sg_value :: "string option"
  sg_receiver :: bool

type_synonym signals = "nat \<Rightarrow> signal"

text \<open>\<open>watch::Sender::send\<close> fails, changing nothing, when the receiver is gone; \<open>send_replace\<close> always stores.\<close>

definition watch_send :: "signals \<Rightarrow> nat \<Rightarrow> string \<Rightarrow> bool \<times> signals" where
  "watch_send ks k reason =
     (if sg_receiver (ks k) then (True, ks(k := (ks k)\<lparr>sg_value := Some reason\<rparr>)) else (False, ks))"

definition watch_replace :: "signals \<Rightarrow> nat \<Rightarrow> string \<Rightarrow> signals" where
  "watch_replace ks k reason = ks(k := (ks k)\<lparr>sg_value := Some reason\<rparr>)"

fun kill_each :: "('k \<times> nat) list \<Rightarrow> string \<Rightarrow> signals \<Rightarrow> nat \<times> 'k list \<times> signals" where
  "kill_each [] reason ks = (0, [], ks)"
| "kill_each ((i, k) # xs) reason ks =
     (let (ok, ks1) = watch_send ks k reason; (reached, dead, ks2) = kill_each xs reason ks1 in
      if ok then (reached + 1, dead, ks2) else (reached, i # dead, ks2))"

section \<open>Keyed tables\<close>

text \<open>A hash map is the list of its entries in the order it is iterated.\<close>

definition remove_key :: "'k \<Rightarrow> ('k \<times> 'v) list \<Rightarrow> ('k \<times> 'v) list" where
  "remove_key i es = filter (\<lambda>(j, e). j \<noteq> i) es"

lemma remove_key_less: "map_of es i = Some e \<Longrightarrow> length (remove_key i es) < length es"
  unfolding remove_key_def by (rule length_filter_less [where x = "(i, e)"]) (auto dest: map_of_SomeD)

section \<open>What a loop of sends does\<close>

lemma try_send_closed [simp]: "ch_closed (snd (try_send cs c ob) d) = ch_closed (cs d)"
  by (simp add: try_send_def)

lemma try_send_capacity [simp]: "ch_capacity (snd (try_send cs c ob) d) = ch_capacity (cs d)"
  by (simp add: try_send_def)

lemma try_send_Closed [simp]: "fst (try_send cs c ob) = Closed \<longleftrightarrow> ch_closed (cs c)"
  by (simp add: try_send_def)

lemma send_each_Cons:
  "send_each ((k, c, ob) # xs) cs =
     (let cs1 = snd (try_send cs c ob) in
      ((if fst (try_send cs c ob) = Sent then 1 else 0) + fst (send_each xs cs1),
       (if ch_closed (cs c) then [k] else []) @ fst (snd (send_each xs cs1)),
       snd (snd (send_each xs cs1))))"
  unfolding send_each.simps Let_def case_prod_unfold try_send_Closed [symmetric, of cs c ob]
  by (cases "fst (try_send cs c ob)") (simp_all del: try_send_Closed)

declare send_each.simps(2) [simp del]

lemma send_each_closed [simp]: "ch_closed (snd (snd (send_each xs cs)) d) = ch_closed (cs d)"
  by (induction xs arbitrary: cs) (simp_all add: send_each_Cons Let_def split_paired_all)

lemma send_each_capacity [simp]: "ch_capacity (snd (snd (send_each xs cs)) d) = ch_capacity (cs d)"
  by (induction xs arbitrary: cs) (simp_all add: send_each_Cons Let_def split_paired_all)

lemma send_each_dead: "fst (snd (send_each xs cs)) = map fst (filter (\<lambda>(k, c, ob). ch_closed (cs c)) xs)"
  by (induction xs arbitrary: cs) (simp_all add: send_each_Cons Let_def split_paired_all)

text \<open>The frames addressed to one queue arrive in order until it is full; nothing reaches another queue.\<close>

definition addressed :: "('k \<times> nat \<times> Outbound) list \<Rightarrow> nat \<Rightarrow> Outbound list" where
  "addressed xs d = map (\<lambda>(k, c, ob). ob) (filter (\<lambda>(k, c, ob). c = d) xs)"

lemma addressed_simps [simp]:
  "addressed [] d = []" "addressed ((k, c, ob) # xs) d = (if c = d then [ob] else []) @ addressed xs d"
  by (simp_all add: addressed_def)

definition room_left :: "channel \<Rightarrow> nat" where
  "room_left ch = (if ch_closed ch then 0 else ch_capacity ch - length (ch_queue ch))"

lemma try_send_queue:
  "ch_queue (snd (try_send cs c ob) d) = ch_queue (cs d) @ take (room_left (cs d)) (if c = d then [ob] else [])"
  by (auto simp: try_send_def room_left_def take_Cons split: nat.splits)

lemma room_left_after: "room_left (snd (try_send cs c ob) d) = room_left (cs d) - (if c = d then 1 else 0)"
  by (auto simp: room_left_def try_send_queue take_Cons split: nat.splits)

lemma take_append_one: "take n xs @ take (n - length xs) ys = take n (xs @ ys)"
  by simp

lemma send_each_queue:
  "ch_queue (snd (snd (send_each xs cs)) d) = ch_queue (cs d) @ take (room_left (cs d)) (addressed xs d)"
proof (induction xs arbitrary: cs)
  case (Cons x xs)
  obtain k c ob where x: "x = (k, c, ob)" by (cases x)
  show ?case
    by (simp add: x send_each_Cons Let_def Cons try_send_queue room_left_after)
qed simp

lemma send_each_members:
  "set (ch_queue (snd (snd (send_each xs cs)) d)) \<subseteq> set (ch_queue (cs d)) \<union> {ob. \<exists>k. (k, d, ob) \<in> set xs}"
  by (auto simp: send_each_queue addressed_def dest!: in_set_takeD)

lemma send_each_delivers:
  assumes "(k, d, ob) \<in> set xs" and "length (addressed xs d) \<le> room_left (cs d)"
  shows "ob \<in> set (ch_queue (snd (snd (send_each xs cs)) d))"
  using assms by (force simp: send_each_queue addressed_def)

text \<open>
  \<open>adds cs cs' P\<close>: queues only grew, no channel was closed or opened, and every frame added to
  queue \<open>c\<close> satisfies \<open>P c\<close>.
\<close>

definition adds :: "channels \<Rightarrow> channels \<Rightarrow> (nat \<Rightarrow> Outbound \<Rightarrow> bool) \<Rightarrow> bool" where
  "adds cs cs' p \<longleftrightarrow> (\<forall>c. ch_closed (cs' c) = ch_closed (cs c) \<and>
     (\<exists>new. ch_queue (cs' c) = ch_queue (cs c) @ new \<and> (\<forall>ob\<in>set new. p c ob)))"

lemma adds_refl [simp, intro]: "adds cs cs p"
  by (simp add: adds_def)

lemma adds_trans:
  assumes "adds cs cs1 p" and "adds cs1 cs2 p"
  shows "adds cs cs2 p"
  unfolding adds_def
proof
  fix c
  obtain new1 where "ch_queue (cs1 c) = ch_queue (cs c) @ new1" "\<forall>ob\<in>set new1. p c ob"
    using assms(1) unfolding adds_def by blast
  moreover obtain new2 where "ch_queue (cs2 c) = ch_queue (cs1 c) @ new2" "\<forall>ob\<in>set new2. p c ob"
    using assms(2) unfolding adds_def by blast
  ultimately show "ch_closed (cs2 c) = ch_closed (cs c) \<and>
      (\<exists>new. ch_queue (cs2 c) = ch_queue (cs c) @ new \<and> (\<forall>ob\<in>set new. p c ob))"
    using assms by (intro conjI exI [of _ "new1 @ new2"]) (auto simp: adds_def)
qed

lemma adds_mono: "adds cs cs' p \<Longrightarrow> (\<And>c ob. p c ob \<Longrightarrow> q c ob) \<Longrightarrow> adds cs cs' q"
  unfolding adds_def by meson

lemma adds_closed: "adds cs cs' p \<Longrightarrow> ch_closed (cs' c) = ch_closed (cs c)"
  by (simp add: adds_def)

lemma send_each_adds:
  assumes "send_each xs cs = (reached, dead, cs')" and "\<And>k c ob. (k, c, ob) \<in> set xs \<Longrightarrow> p c ob"
  shows "adds cs cs' p"
proof -
  have "cs' = snd (snd (send_each xs cs))" using assms(1) by simp
  then show ?thesis
    using assms(2) by (auto simp: adds_def send_each_queue addressed_def dest!: in_set_takeD)
qed

lemma try_send_adds: "p c ob \<Longrightarrow> adds cs (snd (try_send cs c ob)) p"
  by (auto simp: adds_def try_send_queue dest!: in_set_takeD split: if_splits)

section \<open>What a loop of kills does\<close>

lemma kill_each_Cons:
  "kill_each ((i, k) # xs) reason ks =
     (let ks1 = snd (watch_send ks k reason) in
      ((if sg_receiver (ks k) then 1 else 0) + fst (kill_each xs reason ks1),
       (if sg_receiver (ks k) then [] else [i]) @ fst (snd (kill_each xs reason ks1)),
       snd (snd (kill_each xs reason ks1))))"
  by (simp add: watch_send_def Let_def case_prod_unfold)

lemma watch_send_signal:
  "snd (watch_send ks k reason) j = (if j = k \<and> sg_receiver (ks k) then (ks k)\<lparr>sg_value := Some reason\<rparr> else ks j)"
  by (simp add: watch_send_def)

lemma kill_each_spec:
  "fst (kill_each xs reason ks) = length (filter (\<lambda>(i, k). sg_receiver (ks k)) xs) \<and>
   fst (snd (kill_each xs reason ks)) = map fst (filter (\<lambda>(i, k). \<not> sg_receiver (ks k)) xs) \<and>
   snd (snd (kill_each xs reason ks)) =
     (\<lambda>j. if j \<in> snd ` set xs \<and> sg_receiver (ks j) then (ks j)\<lparr>sg_value := Some reason\<rparr> else ks j)"
proof (induction xs arbitrary: ks)
  case (Cons x xs)
  obtain i k where x: "x = (i, k)" by (cases x)
  have same: "sg_receiver (snd (watch_send ks k reason) j) = sg_receiver (ks j)" for j
    by (simp add: watch_send_signal)
  show ?case
    by (simp del: kill_each.simps(2) add: x kill_each_Cons Let_def Cons same case_prod_unfold)
      (auto simp: watch_send_signal fun_eq_iff)
qed auto

lemmas kill_each_reached = kill_each_spec [THEN conjunct1]
lemmas kill_each_dead = kill_each_spec [THEN conjunct2, THEN conjunct1]
lemmas kill_each_signals = kill_each_spec [THEN conjunct2, THEN conjunct2]

end
