(* ===== verification/Presence.thy ===== *)
theory Presence
  imports Channel Msg_Presence "HOL-Library.List_Lexorder" "HOL-Library.Char_ord"
begin

text \<open>
  The presence actor (\<open>kdx-server-core/src/presence.rs\<close>): the roster of the sessions
  that are online, the commands the actor handles one at a time, and the
  broadcast of every change to the sessions present.

  The roster is a list of entries in the order the hash map is iterated; what is
  proved holds for every order. Instants are nanoseconds, and one command reads
  the clocks once. The oneshot answers are the returned value.
\<close>

section \<open>The roster\<close>

record Entry =
  e_username :: string
  e_class :: u8
  e_login_at :: u64
  e_last_active :: nat
  e_address :: string
  e_name :: string
  e_description :: string
  e_sees_addresses :: bool
  e_tx :: nat
  e_kill :: nat

type_synonym entries = "(uuid \<times> Entry) list"

record Roster =
  r_entries :: entries
  r_closing :: "string option"

record links =
  l_chans :: channels
  l_kills :: signals

datatype PresenceCommand =
    PC_Join uuid string u8 string bool nat nat
  | PC_Leave uuid
  | PC_Touch uuid
  | PC_SetIdentity uuid string string
  | PC_List
  | PC_Get string
  | PC_Deliver string Outbound
  | PC_Disconnect string string
  | PC_DisconnectOthers string uuid string
  | PC_BroadcastAll Outbound
  | PC_DisconnectAll string

datatype presence_reply = Done | Listed "PresenceEntry list" | Found "PresenceEntry option" | Reached nat

definition to_wire :: "Entry \<Rightarrow> nat \<Rightarrow> PresenceEntry" where
  "to_wire e now =
     \<lparr>PresenceEntry_username = e_username e, PresenceEntry_class = e_class e, PresenceEntry_login_at = e_login_at e,
      PresenceEntry_idle_secs = of_nat ((now - e_last_active e) div 10 ^ 9), PresenceEntry_address = e_address e,
      PresenceEntry_name = e_name e, PresenceEntry_description = e_description e\<rparr>"

definition redact_address :: "PresenceEntry \<Rightarrow> PresenceEntry" where
  "redact_address entry = entry\<lparr>PresenceEntry_address := []\<rparr>"

definition insert_entry :: "uuid \<Rightarrow> Entry \<Rightarrow> entries \<Rightarrow> entries" where
  "insert_entry i e es = remove_key i es @ [(i, e)]"

definition update_entry :: "uuid \<Rightarrow> (Entry \<Rightarrow> Entry) \<Rightarrow> entries \<Rightarrow> entries" where
  "update_entry i f es = map (\<lambda>(j, e). (j, if j = i then f e else e)) es"

section \<open>Sending\<close>

definition try_send_where :: "entries \<Rightarrow> Outbound \<Rightarrow> (Entry \<Rightarrow> bool) \<Rightarrow> channels \<Rightarrow> nat \<times> uuid list \<times> channels" where
  "try_send_where es outbound p cs =
     send_each (map (\<lambda>(i, e). (i, e_tx e, outbound)) (filter (\<lambda>(i, e). p e) es)) cs"

definition kill_where :: "entries \<Rightarrow> string \<Rightarrow> (Entry \<Rightarrow> bool) \<Rightarrow> signals \<Rightarrow> nat \<times> uuid list \<times> signals" where
  "kill_where es reason p ks = kill_each (map (\<lambda>(i, e). (i, e_kill e)) (filter (\<lambda>(i, e). p e) es)) reason ks"

definition kill_where_id ::
  "entries \<Rightarrow> string \<Rightarrow> (uuid \<Rightarrow> Entry \<Rightarrow> bool) \<Rightarrow> signals \<Rightarrow> nat \<times> uuid list \<times> signals" where
  "kill_where_id es reason p ks = kill_each (map (\<lambda>(i, e). (i, e_kill e)) (filter (\<lambda>(i, e). p i e) es)) reason ks"

definition change_frame :: "bytes \<Rightarrow> Outbound" where
  "change_frame payload = \<lparr>ob_packet_type = PacketType.PresenceChange, ob_flags = 0, ob_payload = payload\<rparr>"

text \<open>One round of \<open>broadcast\<close>: the frames, each encoded for its recipient.\<close>

definition change_frames :: "entries \<Rightarrow> uuid option \<Rightarrow> PresenceChange \<Rightarrow> (uuid \<times> nat \<times> Outbound) list" where
  "change_frames es exclude change =
     (let full = PresenceChange_encode change;
          redacted = PresenceChange_encode (change\<lparr>PresenceChange_entry := redact_address (PresenceChange_entry change)\<rparr>) in
      map (\<lambda>(i, e). (i, e_tx e, change_frame (if e_sees_addresses e then full else redacted)))
        (filter (\<lambda>(i, e). Some i \<noteq> exclude) es))"

text \<open>The recipients found dead are removed and each is pushed on the stack of pending changes.\<close>

fun push_dead ::
  "nat \<Rightarrow> uuid list \<Rightarrow> entries \<Rightarrow> (uuid option \<times> PresenceChange) list \<Rightarrow> entries \<times> (uuid option \<times> PresenceChange) list" where
  "push_dead now [] es pending = (es, pending)"
| "push_dead now (i # dead) es pending =
     (case map_of es i of
        Some gone \<Rightarrow> push_dead now dead (remove_key i es)
          ((None, \<lparr>PresenceChange_entry = to_wire gone now, PresenceChange_online = False\<rparr>) # pending)
      | None \<Rightarrow> push_dead now dead es pending)"

lemma push_dead_size:
  "push_dead now dead es pending = (es', pending') \<Longrightarrow> length es' + length pending' \<le> length es + length pending"
proof (induction dead arbitrary: es pending)
  case (Cons i dead)
  show ?case
  proof (cases "map_of es i")
    case (Some gone)
    with Cons show ?thesis using remove_key_less [OF Some] by fastforce
  qed (use Cons in simp)
qed simp

function presence_broadcast ::
  "nat \<Rightarrow> entries \<Rightarrow> (uuid option \<times> PresenceChange) list \<Rightarrow> channels \<Rightarrow> entries \<times> channels" where
  "presence_broadcast now es [] cs = (es, cs)"
| "presence_broadcast now es ((exclude, change) # pending) cs =
     (let (reached, dead, cs') = send_each (change_frames es exclude change) cs;
          (es', pending') = push_dead now dead es pending in
      presence_broadcast now es' pending' cs')"
  by pat_completeness auto
termination
  by (relation "measure (\<lambda>(now, es, pending, cs). length es + length pending)") (auto dest!: push_dead_size [OF sym])

fun presence_remove :: "nat \<Rightarrow> uuid list \<Rightarrow> entries \<Rightarrow> channels \<Rightarrow> entries \<times> channels" where
  "presence_remove now [] es cs = (es, cs)"
| "presence_remove now (i # gone) es cs =
     (case map_of es i of
        Some e \<Rightarrow>
          (let (es', cs') = presence_broadcast now (remove_key i es)
             [(None, \<lparr>PresenceChange_entry = to_wire e now, PresenceChange_online = False\<rparr>)] cs in
           presence_remove now gone es' cs')
      | None \<Rightarrow> presence_remove now gone es cs)"

section \<open>The actor\<close>

definition presence_handle ::
  "nat \<Rightarrow> u64 \<Rightarrow> PresenceCommand \<Rightarrow> Roster \<Rightarrow> links \<Rightarrow> presence_reply \<times> Roster \<times> links" where
  "presence_handle now unix_now command r l =
     (let es = r_entries r in
      case command of
        PC_Join session_id username cls address sees_addresses tx kill \<Rightarrow>
          (let ks = (case r_closing r of Some reason \<Rightarrow> watch_replace (l_kills l) kill reason | None \<Rightarrow> l_kills l);
               e = \<lparr>e_username = username, e_class = cls, e_login_at = unix_now, e_last_active = now,
                 e_address = address, e_name = [], e_description = [], e_sees_addresses = sees_addresses,
                 e_tx = tx, e_kill = kill\<rparr>;
               (es', cs) = presence_broadcast now (insert_entry session_id e es)
                 [(Some session_id, \<lparr>PresenceChange_entry = to_wire e now, PresenceChange_online = True\<rparr>)] (l_chans l)
           in (Done, r\<lparr>r_entries := es'\<rparr>, \<lparr>l_chans = cs, l_kills = ks\<rparr>))
      | PC_Leave session_id \<Rightarrow>
          (let (es', cs) = presence_remove now [session_id] es (l_chans l) in
           (Done, r\<lparr>r_entries := es'\<rparr>, l\<lparr>l_chans := cs\<rparr>))
      | PC_Touch session_id \<Rightarrow>
          (Done, r\<lparr>r_entries := update_entry session_id (\<lambda>e. e\<lparr>e_last_active := now\<rparr>) es\<rparr>, l)
      | PC_SetIdentity session_id name description \<Rightarrow>
          (let es1 = update_entry session_id (\<lambda>e. e\<lparr>e_name := name, e_description := description\<rparr>) es in
           case map_of es1 session_id of
             Some e \<Rightarrow>
               (let (es', cs) = presence_broadcast now es1
                  [(None, \<lparr>PresenceChange_entry = to_wire e now, PresenceChange_online = True\<rparr>)] (l_chans l) in
                (Done, r\<lparr>r_entries := es'\<rparr>, l\<lparr>l_chans := cs\<rparr>))
           | None \<Rightarrow> (Done, r, l))
      | PC_List \<Rightarrow> (Listed (sort_key PresenceEntry_username (map (\<lambda>(i, e). to_wire e now) es)), r, l)
      | PC_Get username \<Rightarrow>
          (Found (map_option (\<lambda>(i, e). to_wire e now) (find (\<lambda>(i, e). e_username e = username) es)), r, l)
      | PC_Deliver username outbound \<Rightarrow>
          (let (reached, dead, cs1) = try_send_where es outbound (\<lambda>e. e_username e = username) (l_chans l);
               (es', cs) = presence_remove now dead es cs1 in
           (Reached reached, r\<lparr>r_entries := es'\<rparr>, l\<lparr>l_chans := cs\<rparr>))
      | PC_Disconnect username reason \<Rightarrow>
          (let (reached, dead, ks) = kill_where es reason (\<lambda>e. e_username e = username) (l_kills l);
               (es', cs) = presence_remove now dead es (l_chans l) in
           (Reached reached, r\<lparr>r_entries := es'\<rparr>, \<lparr>l_chans = cs, l_kills = ks\<rparr>))
      | PC_DisconnectOthers username except reason \<Rightarrow>
          (let (reached, dead, ks) = kill_where_id es reason (\<lambda>i e. i \<noteq> except \<and> e_username e = username) (l_kills l);
               (es', cs) = presence_remove now dead es (l_chans l) in
           (Reached reached, r\<lparr>r_entries := es'\<rparr>, \<lparr>l_chans = cs, l_kills = ks\<rparr>))
      | PC_BroadcastAll outbound \<Rightarrow>
          (let (reached, dead, cs1) = try_send_where es outbound (\<lambda>e. True) (l_chans l);
               (es', cs) = presence_remove now dead es cs1 in
           (Reached reached, r\<lparr>r_entries := es'\<rparr>, l\<lparr>l_chans := cs\<rparr>))
      | PC_DisconnectAll reason \<Rightarrow>
          (let (reached, dead, ks) = kill_where es reason (\<lambda>e. True) (l_kills l);
               (es', cs) = presence_remove now dead es (l_chans l) in
           (Reached reached, \<lparr>r_entries = es', r_closing = Some reason\<rparr>, \<lparr>l_chans = cs, l_kills = ks\<rparr>)))"

section \<open>What a broadcast does\<close>

text \<open>
  \<open>announced es cs es' cs'\<close>: some entries were dropped, no channel was closed or
  opened, and the only frames queued are presence changes addressed to an entry, with
  the subject's address left out unless that entry may see it.
\<close>

definition blind :: "Outbound \<Rightarrow> bool" where
  "blind ob \<longleftrightarrow> (ob_packet_type ob = PacketType.PresenceChange \<longrightarrow>
     (\<exists>change. ob_payload ob = PresenceChange_encode change \<and>
        PresenceEntry_address (PresenceChange_entry change) = []))"

definition announced :: "entries \<Rightarrow> channels \<Rightarrow> entries \<Rightarrow> channels \<Rightarrow> bool" where
  "announced es cs es' cs' \<longleftrightarrow>
     (\<exists>p. es' = filter p es) \<and>
     (\<forall>c. ch_closed (cs' c) = ch_closed (cs c)) \<and>
     (\<forall>c ob. ob \<in> set (ch_queue (cs' c)) \<longrightarrow> ob \<in> set (ch_queue (cs c)) \<or>
        (\<exists>i e. (i, e) \<in> set es \<and> e_tx e = c \<and> (e_sees_addresses e \<or> blind ob)))"

lemma announced_refl: "announced es cs es cs"
  unfolding announced_def by (intro conjI exI [of _ "\<lambda>_. True"]) auto

lemma announced_filter: "announced (filter p es) cs es' cs' \<Longrightarrow> announced es cs es' cs'"
  by (auto simp: announced_def) blast+

lemma announced_trans:
  assumes "announced es cs es1 cs1" and "announced es1 cs1 es2 cs2"
  shows "announced es cs es2 cs2"
proof -
  obtain p q where p: "es1 = filter p es" and q: "es2 = filter q es1" using assms by (auto simp: announced_def)
  have "set es1 \<subseteq> set es" using p by auto
  moreover have "\<exists>p. es2 = filter p es" using p q by auto
  moreover have "ch_closed (cs2 c) = ch_closed (cs c)" for c using assms by (simp add: announced_def)
  moreover have "ob \<in> set (ch_queue (cs c)) \<or> (\<exists>i e. (i, e) \<in> set es \<and> e_tx e = c \<and> (e_sees_addresses e \<or> blind ob))"
    if "ob \<in> set (ch_queue (cs2 c))" for c ob
  proof -
    have "ob \<in> set (ch_queue (cs1 c)) \<or> (\<exists>i e. (i, e) \<in> set es1 \<and> e_tx e = c \<and> (e_sees_addresses e \<or> blind ob))"
      using assms(2) that unfolding announced_def by blast
    moreover have "ob \<in> set (ch_queue (cs1 c)) \<Longrightarrow>
        ob \<in> set (ch_queue (cs c)) \<or> (\<exists>i e. (i, e) \<in> set es \<and> e_tx e = c \<and> (e_sees_addresses e \<or> blind ob))"
      using assms(1) unfolding announced_def by blast
    ultimately show ?thesis using \<open>set es1 \<subseteq> set es\<close> by blast
  qed
  ultimately show ?thesis unfolding announced_def by blast
qed

lemma announced_sub: "announced es cs es' cs' \<Longrightarrow> set es' \<subseteq> set es"
  by (auto simp: announced_def)

lemma announced_closed: "announced es cs es' cs' \<Longrightarrow> ch_closed (cs' c) = ch_closed (cs c)"
  by (simp add: announced_def)

lemma announced_distinct: "announced es cs es' cs' \<Longrightarrow> distinct (map f es) \<Longrightarrow> distinct (map f es')"
  by (auto simp: announced_def distinct_map_filter)

lemma blind_redacted:
  "blind (change_frame (PresenceChange_encode (change\<lparr>PresenceChange_entry := redact_address (PresenceChange_entry change)\<rparr>)))"
  unfolding blind_def change_frame_def redact_address_def
  by (intro impI exI [of _ "change\<lparr>PresenceChange_entry := PresenceChange_entry change\<lparr>PresenceEntry_address := []\<rparr>\<rparr>"]) simp

lemma push_dead_filter:
  "push_dead now dead es pending = (es', pending') \<Longrightarrow> es' = filter (\<lambda>(i, e). i \<notin> set dead) es"
proof (induction dead arbitrary: es pending)
  case (Cons i dead)
  show ?case
  proof (cases "map_of es i")
    case None
    then have "\<And>x. x \<in> set es \<Longrightarrow> fst x \<noteq> i" by (auto simp: map_of_eq_None_iff)
    then have "filter (\<lambda>(j, e). j \<noteq> i \<and> j \<notin> set dead) es = filter (\<lambda>(j, e). j \<notin> set dead) es"
      by (intro filter_cong refl) fastforce
    with None Cons.prems Cons.IH [of es pending] show ?thesis by simp
  next
    case (Some gone)
    with Cons.prems have "es' = filter (\<lambda>(i, e). i \<notin> set dead) (remove_key i es)" by (auto intro: Cons.IH)
    then show ?thesis by (auto simp: remove_key_def intro!: filter_cong)
  qed
qed simp

lemma push_dead_pending: "push_dead now dead es pending = (es', pending') \<Longrightarrow> set pending \<subseteq> set pending'"
proof (induction dead arbitrary: es pending)
  case (Cons i dead)
  then show ?case by (cases "map_of es i") fastforce+
qed simp

lemma round_announced:
  assumes "send_each (change_frames es exclude change) cs = (reached, dead, cs')"
    and "push_dead now dead es pending = (es', pending')"
  shows "announced es cs es' cs'"
proof -
  have "ch_closed (cs' c) = ch_closed (cs c)" for c
    using send_each_closed [of "change_frames es exclude change" cs c] assms(1) by simp
  moreover have "ob \<in> set (ch_queue (cs c)) \<or> (\<exists>i e. (i, e) \<in> set es \<and> e_tx e = c \<and> (e_sees_addresses e \<or> blind ob))"
    if "ob \<in> set (ch_queue (cs' c))" for c ob
    using that send_each_members [of "change_frames es exclude change" cs c] assms(1)
    by (auto simp: change_frames_def Let_def blind_redacted dest!: subsetD split: if_splits)
  ultimately show ?thesis
    using push_dead_filter [OF assms(2)] unfolding announced_def by blast
qed

lemma broadcast_announced:
  "presence_broadcast now es pending cs = (es', cs') \<Longrightarrow> announced es cs es' cs'"
proof (induction now es pending cs rule: presence_broadcast.induct)
  case (1 now es cs)
  then show ?case by (simp add: announced_refl)
next
  case (2 now es exclude change pending cs)
  obtain reached dead cs1 es1 pending1 where
      s: "send_each (change_frames es exclude change) cs = (reached, dead, cs1)"
      "push_dead now dead es pending = (es1, pending1)"
    by (metis prod.exhaust)
  with 2 have "announced es1 cs1 es' cs'" by simp
  with round_announced [OF s] show ?case by (rule announced_trans)
qed

lemma broadcast_open:
  "presence_broadcast now es pending cs = (es', cs') \<Longrightarrow> (i, e) \<in> set es' \<Longrightarrow> ch_closed (cs (e_tx e)) \<Longrightarrow>
     (exclude, change) \<in> set pending \<Longrightarrow> exclude = Some i"
proof (induction now es pending cs rule: presence_broadcast.induct)
  case (2 now es x ch pending cs)
  obtain reached dead cs1 es1 pending1 where
      s: "send_each (change_frames es x ch) cs = (reached, dead, cs1)"
      "push_dead now dead es pending = (es1, pending1)"
    by (metis prod.exhaust)
  have rest: "presence_broadcast now es1 pending1 cs1 = (es', cs')" using 2 s by simp
  have i: "(i, e) \<in> set es1" using announced_sub [OF broadcast_announced [OF rest]] 2 by blast
  then have "(i, e) \<in> set es" "i \<notin> set dead" using push_dead_filter [OF s(2)] by auto
  moreover have "dead = map fst (filter (\<lambda>(k, c, ob). ch_closed (cs c)) (change_frames es x ch))"
    using send_each_dead [of "change_frames es x ch" cs] s(1) by simp
  ultimately have x: "x = Some i"
    using 2(4) by (force simp: change_frames_def Let_def)
  have "ch_closed (cs1 (e_tx e))" using 2(4) send_each_closed [of "change_frames es x ch" cs "e_tx e"] s(1) by simp
  moreover have "set pending \<subseteq> set pending1" using s(2) by (rule push_dead_pending)
  ultimately show ?case using x 2 s rest by auto
qed simp

lemma broadcast_drops:
  "presence_broadcast now es pending cs = (es', cs') \<Longrightarrow> (i, e) \<in> set es \<Longrightarrow> (i, e) \<notin> set es' \<Longrightarrow>
     \<exists>f. (i, f) \<in> set es \<and> ch_closed (cs (e_tx f))"
proof (induction now es pending cs rule: presence_broadcast.induct)
  case (2 now es x ch pending cs)
  obtain reached dead cs1 es1 pending1 where
      s: "send_each (change_frames es x ch) cs = (reached, dead, cs1)"
      "push_dead now dead es pending = (es1, pending1)"
    by (metis prod.exhaust)
  have rest: "presence_broadcast now es1 pending1 cs1 = (es', cs')" using 2 s by simp
  have dead: "dead = map fst (filter (\<lambda>(k, c, ob). ch_closed (cs c)) (change_frames es x ch))"
    using send_each_dead [of "change_frames es x ch" cs] s(1) by simp
  show ?case
  proof (cases "i \<in> set dead")
    case True
    then show ?thesis unfolding dead by (force simp: change_frames_def Let_def)
  next
    case False
    then have "(i, e) \<in> set es1" using 2(3) push_dead_filter [OF s(2)] by auto
    from 2(1) [OF s(1) [symmetric] refl refl s(2) [symmetric] refl rest this 2(4)]
    obtain f where "(i, f) \<in> set es1" "ch_closed (cs1 (e_tx f))" by blast
    then show ?thesis
      using push_dead_filter [OF s(2)] send_each_closed [of "change_frames es x ch" cs "e_tx f"] s(1) by auto
  qed
qed simp

lemma remove_announced:
  "presence_remove now gone es cs = (es', cs') \<Longrightarrow> announced es cs es' cs'"
proof (induction now gone es cs rule: presence_remove.induct)
  case (2 now i gone es cs)
  show ?case
  proof (cases "map_of es i")
    case (Some e)
    let ?p = "[(None, \<lparr>PresenceChange_entry = to_wire e now, PresenceChange_online = False\<rparr>)]"
    obtain es1 cs1 where b: "presence_broadcast now (remove_key i es) ?p cs = (es1, cs1)" by (metis prod.exhaust)
    have "announced es cs es1 cs1"
      using broadcast_announced [OF b, unfolded remove_key_def] by (rule announced_filter)
    moreover have "announced es1 cs1 es' cs'" using 2 Some b by simp
    ultimately show ?thesis by (rule announced_trans)
  qed (use 2 in simp)
qed (simp add: announced_refl)

section \<open>Runs\<close>

text \<open>
  The actor's commands, interleaved with what else happens to the links: a
  connection reads frames from its queue, other components send frames that are not
  presence changes, and a connection ends (its queue closes and the receiver of its
  kill signal is dropped). A joining connection brings the handles of its own new
  queue and signal.
\<close>

definition command_ok :: "Roster \<Rightarrow> links \<Rightarrow> PresenceCommand \<Rightarrow> bool" where
  "command_ok r l command =
     (case command of
        PC_Join session_id username cls address sees tx kill \<Rightarrow>
          tx \<notin> (\<lambda>(i, e). e_tx e) ` set (r_entries r) \<and> (\<forall>ob\<in>set (ch_queue (l_chans l tx)). blind ob)
      | PC_Deliver username ob \<Rightarrow> ob_packet_type ob \<noteq> PacketType.PresenceChange
      | PC_BroadcastAll ob \<Rightarrow> ob_packet_type ob \<noteq> PacketType.PresenceChange
      | _ \<Rightarrow> True)"

inductive presence_run :: "Roster \<Rightarrow> links \<Rightarrow> bool" where
  start: "presence_run \<lparr>r_entries = [], r_closing = None\<rparr> l"
| command: "presence_run r l \<Longrightarrow> command_ok r l command \<Longrightarrow>
    presence_handle now unix_now command r l = (reply, r', l') \<Longrightarrow> presence_run r' l'"
| read: "presence_run r l \<Longrightarrow> ch = l_chans l c \<Longrightarrow>
    presence_run r (l\<lparr>l_chans := (l_chans l)(c := ch\<lparr>ch_queue := drop n (ch_queue ch)\<rparr>)\<rparr>)"
| other: "presence_run r l \<Longrightarrow> ob_packet_type ob \<noteq> PacketType.PresenceChange \<Longrightarrow>
    presence_run r (l\<lparr>l_chans := snd (try_send (l_chans l) c ob)\<rparr>)"
| hangup: "presence_run r l \<Longrightarrow>
    presence_run r (l\<lparr>l_chans := (l_chans l)(c := (l_chans l c)\<lparr>ch_closed := True\<rparr>),
      l_kills := (l_kills l)(k := (l_kills l k)\<lparr>sg_receiver := False\<rparr>)\<rparr>)"

definition presence_inv :: "Roster \<Rightarrow> links \<Rightarrow> bool" where
  "presence_inv r l \<longleftrightarrow>
     distinct (map fst (r_entries r)) \<and> distinct (map (\<lambda>(i, e). e_tx e) (r_entries r)) \<and>
     (\<forall>i e ob. (i, e) \<in> set (r_entries r) \<longrightarrow> \<not> e_sees_addresses e \<longrightarrow> ob \<in> set (ch_queue (l_chans l (e_tx e))) \<longrightarrow> blind ob) \<and>
     (r_closing r \<noteq> None \<longrightarrow>
        (\<forall>i e. (i, e) \<in> set (r_entries r) \<longrightarrow> sg_receiver (l_kills l (e_kill e)) \<longrightarrow> sg_value (l_kills l (e_kill e)) \<noteq> None))"

lemma presence_invI:
  assumes "distinct (map fst (r_entries r))" and "distinct (map (\<lambda>(i, e). e_tx e) (r_entries r))"
    and "\<And>i e ob. (i, e) \<in> set (r_entries r) \<Longrightarrow> \<not> e_sees_addresses e \<Longrightarrow>
      ob \<in> set (ch_queue (l_chans l (e_tx e))) \<Longrightarrow> blind ob"
    and "\<And>i e. r_closing r \<noteq> None \<Longrightarrow> (i, e) \<in> set (r_entries r) \<Longrightarrow>
      sg_receiver (l_kills l (e_kill e)) \<Longrightarrow> sg_value (l_kills l (e_kill e)) \<noteq> None"
  shows "presence_inv r l"
  using assms unfolding presence_inv_def by blast

lemma presence_inv_blind:
  "presence_inv r l \<Longrightarrow> (i, e) \<in> set (r_entries r) \<Longrightarrow> \<not> e_sees_addresses e \<Longrightarrow>
     ob \<in> set (ch_queue (l_chans l (e_tx e))) \<Longrightarrow> blind ob"
  unfolding presence_inv_def by blast

lemma presence_inv_killed:
  "presence_inv r l \<Longrightarrow> r_closing r \<noteq> None \<Longrightarrow> (i, e) \<in> set (r_entries r) \<Longrightarrow>
     sg_receiver (l_kills l (e_kill e)) \<Longrightarrow> sg_value (l_kills l (e_kill e)) \<noteq> None"
  unfolding presence_inv_def by blast

text \<open>Announcing keeps the invariant.\<close>

lemma announced_inv:
  assumes inv: "presence_inv \<lparr>r_entries = es, r_closing = cl\<rparr> \<lparr>l_chans = cs, l_kills = ks\<rparr>"
    and ann: "announced es cs es' cs'"
  shows "presence_inv \<lparr>r_entries = es', r_closing = cl\<rparr> \<lparr>l_chans = cs', l_kills = ks\<rparr>"
proof (rule presence_invI, simp_all only: Roster.simps links.simps)
  show "distinct (map fst es')" "distinct (map (\<lambda>(i, e). e_tx e) es')"
    using inv announced_distinct [OF ann] by (auto simp: presence_inv_def)
next
  fix i e ob
  assume e: "(i, e) \<in> set es'" "\<not> e_sees_addresses e" "ob \<in> set (ch_queue (cs' (e_tx e)))"
  have i: "(i, e) \<in> set es" using e(1) announced_sub [OF ann] by blast
  from ann e(3) consider "ob \<in> set (ch_queue (cs (e_tx e)))"
    | j f where "(j, f) \<in> set es" "e_tx f = e_tx e" "e_sees_addresses f \<or> blind ob"
    unfolding announced_def by blast
  then show "blind ob"
  proof cases
    case 1
    with presence_inv_blind [OF inv, of i e ob] i e(2) show ?thesis by simp
  next
    case 2
    have "distinct (map (\<lambda>(i, e). e_tx e) es)" using inv by (simp add: presence_inv_def)
    from distinct_map_eq [OF this 2(1) i] 2(2) have "f = e" by simp
    with 2(3) e(2) show ?thesis by simp
  qed
next
  fix i e
  assume "cl \<noteq> None" "(i, e) \<in> set es'" "sg_receiver (ks (e_kill e))"
  then show "sg_value (ks (e_kill e)) \<noteq> None"
    using presence_inv_killed [OF inv, of i e] announced_sub [OF ann] by auto
qed

lemma send_where_blind:
  assumes "try_send_where es ob p cs = (reached, dead, cs')"
    and "ob_packet_type ob \<noteq> PacketType.PresenceChange" and "x \<in> set (ch_queue (cs' c))"
  shows "x \<in> set (ch_queue (cs c)) \<or> blind x"
proof -
  let ?xs = "map (\<lambda>(i, e). (i, e_tx e, ob)) (filter (\<lambda>(i, e). p e) es)"
  have "x \<in> set (ch_queue (snd (snd (send_each ?xs cs)) c))" using assms by (simp add: try_send_where_def)
  with send_each_members [of ?xs cs c] have "x \<in> set (ch_queue (cs c)) \<or> x = ob" by auto
  then show ?thesis using assms(2) by (auto simp: blind_def)
qed

lemma inv_send_blind:
  assumes "presence_inv \<lparr>r_entries = es, r_closing = cl\<rparr> \<lparr>l_chans = cs, l_kills = ks\<rparr>"
    and "\<And>c x. x \<in> set (ch_queue (cs' c)) \<Longrightarrow> x \<in> set (ch_queue (cs c)) \<or> blind x"
  shows "presence_inv \<lparr>r_entries = es, r_closing = cl\<rparr> \<lparr>l_chans = cs', l_kills = ks\<rparr>"
  using assms unfolding presence_inv_def by (simp, blast)

lemma inv_kill:
  assumes "presence_inv \<lparr>r_entries = es, r_closing = cl\<rparr> \<lparr>l_chans = cs, l_kills = ks\<rparr>"
    and "kill_each xs reason ks = (reached, dead, ks')"
  shows "presence_inv \<lparr>r_entries = es, r_closing = cl\<rparr> \<lparr>l_chans = cs, l_kills = ks'\<rparr>"
proof -
  have "ks' = snd (snd (kill_each xs reason ks))" using assms(2) by simp
  then show ?thesis using assms(1) unfolding presence_inv_def by (simp add: kill_each_signals)
qed

lemma map_update_entry:
  "(\<And>e. g (f e) = g e) \<Longrightarrow> map (\<lambda>(i, e). g e) (update_entry i f es) = map (\<lambda>(i, e). g e) es"
  "map fst (update_entry i f es) = map fst es"
  by (auto simp: update_entry_def)

lemma update_entry_mem: "(j, e') \<in> set (update_entry i f es) \<Longrightarrow> \<exists>e. (j, e) \<in> set es \<and> (e' = e \<or> e' = f e)"
  by (auto simp: update_entry_def)

lemma inv_update:
  assumes inv: "presence_inv \<lparr>r_entries = es, r_closing = cl\<rparr> l"
    and f: "\<And>e. e_tx (f e) = e_tx e" "\<And>e. e_kill (f e) = e_kill e" "\<And>e. e_sees_addresses (f e) = e_sees_addresses e"
  shows "presence_inv \<lparr>r_entries = update_entry i f es, r_closing = cl\<rparr> l"
proof (rule presence_invI, simp_all only: Roster.simps map_update_entry f)
  show "distinct (map fst es)" "distinct (map (\<lambda>(i, e). e_tx e) es)" using inv by (simp_all add: presence_inv_def)
next
  fix j e ob
  assume e: "(j, e) \<in> set (update_entry i f es)" "\<not> e_sees_addresses e" "ob \<in> set (ch_queue (l_chans l (e_tx e)))"
  from update_entry_mem [OF e(1)] obtain e0 where "(j, e0) \<in> set es" "e = e0 \<or> e = f e0" by blast
  then show "blind ob" using presence_inv_blind [OF inv, of j e0 ob] e f by auto
next
  fix j e
  assume e: "cl \<noteq> None" "(j, e) \<in> set (update_entry i f es)" "sg_receiver (l_kills l (e_kill e))"
  from update_entry_mem [OF e(2)] obtain e0 where "(j, e0) \<in> set es" "e = e0 \<or> e = f e0" by blast
  then show "sg_value (l_kills l (e_kill e)) \<noteq> None" using presence_inv_killed [OF inv, of j e0] e f by auto
qed

lemma inv_join:
  assumes inv: "presence_inv \<lparr>r_entries = es, r_closing = cl\<rparr> \<lparr>l_chans = cs, l_kills = ks\<rparr>"
    and tx: "e_tx e \<notin> (\<lambda>(i, e). e_tx e) ` set es" "\<forall>ob\<in>set (ch_queue (cs (e_tx e))). blind ob"
    and ks': "ks' = (case cl of Some reason \<Rightarrow> watch_replace ks (e_kill e) reason | None \<Rightarrow> ks)"
  shows "presence_inv \<lparr>r_entries = insert_entry i e es, r_closing = cl\<rparr> \<lparr>l_chans = cs, l_kills = ks'\<rparr>"
proof (rule presence_invI, simp_all only: Roster.simps links.simps)
  have d: "distinct (map fst es)" "distinct (map (\<lambda>(i, e). e_tx e) es)" using inv by (simp_all add: presence_inv_def)
  then show "distinct (map fst (insert_entry i e es))"
    by (auto simp: insert_entry_def remove_key_def distinct_map_filter)
  from d tx(1) show "distinct (map (\<lambda>(i, e). e_tx e) (insert_entry i e es))"
    by (force simp: insert_entry_def remove_key_def distinct_map_filter)
next
  fix j f ob
  assume f: "(j, f) \<in> set (insert_entry i e es)" "\<not> e_sees_addresses f" "ob \<in> set (ch_queue (cs (e_tx f)))"
  then have "(j, f) \<in> set es \<or> f = e" by (auto simp: insert_entry_def remove_key_def)
  then show "blind ob" using presence_inv_blind [OF inv, of j f ob] f tx(2) by auto
next
  fix j f
  assume f: "cl \<noteq> None" "(j, f) \<in> set (insert_entry i e es)" "sg_receiver (ks' (e_kill f))"
  then have "(j, f) \<in> set es \<or> f = e" by (auto simp: insert_entry_def remove_key_def)
  then show "sg_value (ks' (e_kill f)) \<noteq> None"
    using presence_inv_killed [OF inv, of j f] f ks' by (auto simp: watch_replace_def split: if_splits)
qed

lemma inv_kill_all:
  assumes inv: "presence_inv \<lparr>r_entries = es, r_closing = cl\<rparr> \<lparr>l_chans = cs, l_kills = ks\<rparr>"
    and "kill_where es reason (\<lambda>e. True) ks = (reached, dead, ks')"
  shows "presence_inv \<lparr>r_entries = es, r_closing = cl'\<rparr> \<lparr>l_chans = cs, l_kills = ks'\<rparr>"
proof -
  have ks': "ks' = (\<lambda>j. if j \<in> snd ` set (map (\<lambda>(i, e). (i, e_kill e)) es) \<and> sg_receiver (ks j)
      then (ks j)\<lparr>sg_value := Some reason\<rparr> else ks j)"
    using assms(2) kill_each_signals [of "map (\<lambda>(i, e). (i, e_kill e)) es" reason ks] by (simp add: kill_where_def)
  have "sg_value (ks' (e_kill e)) \<noteq> None" if "(i, e) \<in> set es" "sg_receiver (ks' (e_kill e))" for i e
  proof -
    have "e_kill e \<in> snd ` set (map (\<lambda>(i, e). (i, e_kill e)) es)" using that(1) by force
    with that(2) show ?thesis by (simp add: ks' split: if_splits)
  qed
  with inv show ?thesis unfolding presence_inv_def by simp
qed

lemma announced_split:
  assumes "presence_inv \<lparr>r_entries = es, r_closing = cl\<rparr> \<lparr>l_chans = cs, l_kills = ks\<rparr>"
  shows "presence_broadcast now es pending cs = (es', cs') \<Longrightarrow>
      presence_inv \<lparr>r_entries = es', r_closing = cl\<rparr> \<lparr>l_chans = cs', l_kills = ks\<rparr>"
    and "presence_remove now gone es cs = (es', cs') \<Longrightarrow>
      presence_inv \<lparr>r_entries = es', r_closing = cl\<rparr> \<lparr>l_chans = cs', l_kills = ks\<rparr>"
  using announced_inv [OF assms] broadcast_announced remove_announced by blast+

declare presence_broadcast.simps(2) [simp del] presence_remove.simps(2) [simp del]

lemma handle_inv:
  assumes "presence_inv r l" and "command_ok r l command"
    and "presence_handle now unix_now command r l = (reply, r', l')"
  shows "presence_inv r' l'"
proof -
  obtain es cl where r: "r = \<lparr>r_entries = es, r_closing = cl\<rparr>" by (cases r)
  obtain cs ks where l: "l = \<lparr>l_chans = cs, l_kills = ks\<rparr>" by (cases l)
  note inv = assms(1) [unfolded r l]
  note step = assms(3) [unfolded presence_handle_def r l]
  show ?thesis
  proof (cases command)
    case (PC_Join i u c a sees tx kill)
    let ?e = "\<lparr>e_username = u, e_class = c, e_login_at = unix_now, e_last_active = now, e_address = a, e_name = [],
      e_description = [], e_sees_addresses = sees, e_tx = tx, e_kill = kill\<rparr>"
    let ?ks = "case cl of Some reason \<Rightarrow> watch_replace ks kill reason | None \<Rightarrow> ks"
    have "presence_inv \<lparr>r_entries = insert_entry i ?e es, r_closing = cl\<rparr> \<lparr>l_chans = cs, l_kills = ?ks\<rparr>"
      by (rule inv_join [OF inv]) (use assms(2) PC_Join r l in \<open>simp_all add: command_ok_def split: option.split\<close>)
    from announced_split(1) [OF this] PC_Join step show ?thesis
      by (cases cl) (auto simp: Let_def split: prod.splits)
  next
    case (PC_Leave i)
    with step show ?thesis by (auto dest: announced_split(2) [OF inv] split: prod.splits)
  next
    case (PC_Touch i)
    with step inv_update [OF inv] show ?thesis by auto
  next
    case (PC_SetIdentity i name description)
    have "presence_inv \<lparr>r_entries = update_entry i (\<lambda>e. e\<lparr>e_name := name, e_description := description\<rparr>) es, r_closing = cl\<rparr>
        \<lparr>l_chans = cs, l_kills = ks\<rparr>" by (rule inv_update [OF inv]) simp_all
    from announced_split(1) [OF this] PC_SetIdentity step inv show ?thesis
      by (auto simp: Let_def split: option.splits prod.splits)
  next
    case (PC_Deliver u ob)
    obtain reached dead cs1 where s: "try_send_where es ob (\<lambda>e. e_username e = u) cs = (reached, dead, cs1)"
      by (metis prod.exhaust)
    have "ob_packet_type ob \<noteq> PacketType.PresenceChange" using assms(2) PC_Deliver by (simp add: command_ok_def)
    then have "presence_inv \<lparr>r_entries = es, r_closing = cl\<rparr> \<lparr>l_chans = cs1, l_kills = ks\<rparr>"
      using inv_send_blind [OF inv] send_where_blind [OF s] by blast
    from announced_split(2) [OF this] PC_Deliver step s show ?thesis by (auto split: prod.splits)
  next
    case (PC_BroadcastAll ob)
    obtain reached dead cs1 where s: "try_send_where es ob (\<lambda>e. True) cs = (reached, dead, cs1)"
      by (metis prod.exhaust)
    have "ob_packet_type ob \<noteq> PacketType.PresenceChange" using assms(2) PC_BroadcastAll by (simp add: command_ok_def)
    then have "presence_inv \<lparr>r_entries = es, r_closing = cl\<rparr> \<lparr>l_chans = cs1, l_kills = ks\<rparr>"
      using inv_send_blind [OF inv] send_where_blind [OF s] by blast
    from announced_split(2) [OF this] PC_BroadcastAll step s show ?thesis by (auto split: prod.splits)
  next
    case (PC_Disconnect u reason)
    with step show ?thesis
      by (auto simp: kill_where_def split: prod.splits dest!: inv_kill [OF inv] intro: announced_split(2))
  next
    case (PC_DisconnectOthers u except reason)
    with step show ?thesis
      by (auto simp: kill_where_id_def split: prod.splits dest!: inv_kill [OF inv] intro: announced_split(2))
  next
    case (PC_DisconnectAll reason)
    with step show ?thesis
      by (auto split: prod.splits dest: inv_kill_all [OF inv, where cl' = "Some reason"] intro: announced_split(2))
  qed (use step inv in auto)
qed

lemma presence_run_inv: "presence_run r l \<Longrightarrow> presence_inv r l"
proof (induction rule: presence_run.induct)
  case (command r l command now unix_now reply r' l')
  show ?case by (rule handle_inv [OF command.IH command.hyps(2,3)])
next
  case (read r l ch c n)
  then show ?case unfolding presence_inv_def by (auto dest: in_set_dropD)
next
  case (other r l ob c)
  then have "blind ob" by (simp add: blind_def)
  with other show ?case
    unfolding presence_inv_def by (auto simp: try_send_queue dest!: in_set_takeD split: if_splits)
next
  case (hangup r l c k)
  then show ?case unfolding presence_inv_def by auto
qed (simp add: presence_inv_def)

lemma kick_signals:
  assumes "presence_handle now unix_now command r l = (reply, r', l')"
    and "command = PC_Disconnect username reason \<and> hit = (\<lambda>i e. e_username e = username) \<or>
         command = PC_DisconnectOthers username except reason \<and> hit = (\<lambda>i e. i \<noteq> except \<and> e_username e = username)"
  shows "reply = Reached (length (filter (\<lambda>(i, e). hit i e \<and> sg_receiver (l_kills l (e_kill e))) (r_entries r))) \<and>
    l_kills l' = (\<lambda>k. if (\<exists>(i, e)\<in>set (r_entries r). hit i e \<and> e_kill e = k) \<and> sg_receiver (l_kills l k)
      then (l_kills l k)\<lparr>sg_value := Some reason\<rparr> else l_kills l k)"
proof -
  let ?xs = "map (\<lambda>(i, e). (i, e_kill e)) (filter (\<lambda>(i, e). hit i e) (r_entries r))"
  have "reply = Reached (fst (kill_each ?xs reason (l_kills l)))" "l_kills l' = snd (snd (kill_each ?xs reason (l_kills l)))"
    using assms by (auto simp: presence_handle_def kill_where_def kill_where_id_def Let_def split: prod.splits)
  moreover have "snd ` set ?xs = {k. \<exists>(i, e)\<in>set (r_entries r). hit i e \<and> e_kill e = k}" by force
  ultimately show ?thesis
    unfolding kill_each_reached kill_each_signals
    by (simp add: filter_map comp_def case_prod_unfold conj_commute)
qed

section \<open>Properties\<close>

text \<open>Property C11. Peer addresses stay with the sessions that may act on them: in every run of the
  presence actor, a presence change waiting for a session that did not join with
  \<open>sees_addresses\<close> is the encoding of a change whose address is empty, and once a shutdown
  was broadcast every session still present, also one that joined after it, has its kill
  signal set.\<close>

theorem presence_private_and_closing:
  assumes "presence_run r l" and "(i, e) \<in> set (r_entries r)"
  shows "(\<not> e_sees_addresses e \<longrightarrow> (\<forall>ob\<in>set (ch_queue (l_chans l (e_tx e))). ob_packet_type ob = PacketType.PresenceChange \<longrightarrow>
      (\<exists>change. ob_payload ob = PresenceChange_encode change \<and> PresenceEntry_address (PresenceChange_entry change) = []))) \<and>
    (r_closing r \<noteq> None \<longrightarrow> sg_receiver (l_kills l (e_kill e)) \<longrightarrow> sg_value (l_kills l (e_kill e)) \<noteq> None)"
  using presence_inv_blind [OF presence_run_inv [OF assms(1)] assms(2)]
    presence_inv_killed [OF presence_run_inv [OF assms(1)] _ assms(2)]
  unfolding blind_def by blast

definition two_links :: links where
  "two_links = \<lparr>l_chans = (\<lambda>c. \<lparr>ch_queue = [], ch_capacity = 4, ch_closed = False\<rparr>),
     l_kills = (\<lambda>k. \<lparr>sg_value = None, sg_receiver = True\<rparr>)\<rparr>"

definition ann_joined :: "Roster \<times> links" where
  "ann_joined = snd (presence_handle 0 0 (PC_Join [1] ''ann'' 0 ''192.0.2.1'' False 1 1)
     \<lparr>r_entries = [], r_closing = None\<rparr> two_links)"

definition bob_joined :: "Roster \<times> links" where
  "bob_joined = snd (presence_handle 0 0 (PC_Join [2] ''bob'' 0 ''192.0.2.2'' False 2 2) (fst ann_joined) (snd ann_joined))"

lemma bob_joined_run: "presence_run (fst bob_joined) (snd bob_joined)"
proof -
  let ?ann = "PC_Join [1] ''ann'' 0 ''192.0.2.1'' False 1 1" and ?bob = "PC_Join [2] ''bob'' 0 ''192.0.2.2'' False 2 2"
  have "presence_run (fst ann_joined) (snd ann_joined)"
    by (rule presence_run.command [OF presence_run.start [of two_links], of ?ann 0 0])
      (simp_all add: command_ok_def two_links_def ann_joined_def prod_eq_iff)
  then show ?thesis
    by (rule presence_run.command [of _ _ ?bob 0 0])
      (simp_all add: command_ok_def two_links_def ann_joined_def bob_joined_def prod_eq_iff presence_handle_def
        Let_def presence_broadcast.simps insert_entry_def remove_key_def change_frames_def)
qed

lemma bob_joined_entries:
  "\<exists>e. ([1], e) \<in> set (r_entries (fst bob_joined)) \<and> \<not> e_sees_addresses e \<and>
     length (ch_queue (l_chans (snd bob_joined) (e_tx e))) = 1"
  by (simp add: bob_joined_def ann_joined_def two_links_def presence_handle_def Let_def presence_broadcast.simps
      insert_entry_def remove_key_def change_frames_def send_each_Cons try_send_def)

theorem presence_private_and_closing_witness:
  "\<exists>e. ([1], e) \<in> set (r_entries (fst bob_joined)) \<and>
     (\<forall>ob\<in>set (ch_queue (l_chans (snd bob_joined) (e_tx e))). ob_packet_type ob \<noteq> PacketType.PresenceChange \<or>
      (\<exists>change. ob_payload ob = PresenceChange_encode change \<and> PresenceEntry_address (PresenceChange_entry change) = []))"
proof -
  obtain e where e: "([1], e) \<in> set (r_entries (fst bob_joined))" "\<not> e_sees_addresses e"
    using bob_joined_entries by blast
  with presence_private_and_closing [OF bob_joined_run e(1)] show ?thesis by blast
qed

text \<open>A kick is never lost: \<open>Disconnect\<close> sets the kill signal of every connection of
  that user whose receiver lives, with the given reason and however full its outbound queue
  is; it touches no other signal, and answers with the number of connections signalled.
  \<open>DisconnectOthers\<close> does the same sparing one session.\<close>

lemma kick_reaches:
  assumes "presence_handle now unix_now command r l = (reply, r', l')"
    and "command = PC_Disconnect username reason \<and> hit = (\<lambda>i e. e_username e = username) \<or>
         command = PC_DisconnectOthers username except reason \<and> hit = (\<lambda>i e. i \<noteq> except \<and> e_username e = username)"
  shows "reply = Reached (length (filter (\<lambda>(i, e). hit i e \<and> sg_receiver (l_kills l (e_kill e))) (r_entries r))) \<and>
    l_kills l' = (\<lambda>k. if (\<exists>(i, e)\<in>set (r_entries r). hit i e \<and> e_kill e = k) \<and> sg_receiver (l_kills l k)
      then (l_kills l k)\<lparr>sg_value := Some reason\<rparr> else l_kills l k)"
  using assms by (rule kick_signals)

text \<open>The roster heals: a broadcast, a join or a departure leaves no session in the roster
  whose connection is gone (a joining session's own queue apart, which it is not told on), it
  drops only sessions whose connection is gone, and the loop always ends.\<close>

lemma roster_heals:
  assumes "presence_broadcast now es ((exclude, change) # pending) cs = (es', cs')"
  shows "es' = filter (\<lambda>(i, e). (i, e) \<in> set es') es \<and>
    (\<forall>(i, e)\<in>set es'. ch_closed (cs' (e_tx e)) \<longrightarrow> exclude = Some i) \<and>
    (\<forall>(i, e)\<in>set es - set es'. \<exists>f. (i, f) \<in> set es \<and> ch_closed (cs (e_tx f))) \<and>
    (\<forall>c. ch_closed (cs' c) = ch_closed (cs c))"
proof -
  note ann = broadcast_announced [OF assms]
  obtain p where p: "es' = filter p es" using ann by (auto simp: announced_def)
  have "exclude = Some i" if "(i, e) \<in> set es'" "ch_closed (cs' (e_tx e))" for i e
    using broadcast_open [OF assms that(1), of exclude change] that(2) announced_closed [OF ann] by simp
  moreover have "es' = filter (\<lambda>(i, e). (i, e) \<in> set es') es"
    unfolding p by (rule filter_cong) auto
  ultimately show ?thesis using announced_closed [OF ann] broadcast_drops [OF assms] by blast
qed

definition bob_renamed :: PresenceChange where
  "bob_renamed = \<lparr>PresenceChange_entry = \<lparr>PresenceEntry_username = ''bob'', PresenceEntry_class = 0, PresenceEntry_login_at = 0,
     PresenceEntry_idle_secs = 0, PresenceEntry_address = [], PresenceEntry_name = ''Bob'', PresenceEntry_description = []\<rparr>,
     PresenceChange_online = True\<rparr>"

end
