(* ===== verification/History.thy ===== *)
theory History
  imports Utf8
begin

text \<open>
  The audit log: the writer queue, the coalescing of identical events, retention
  (\<open>kdx-server-core/src/history.rs\<close>) and the table with its chunked deletes
  (\<open>kdx-storage/src/history.rs\<close>).

  The table is a list of rows in the order of their \<open>rowid\<close>. An atomic counter is a natural number.

  The operations here run to their end in one go, and their writes succeed: \<open>writer_step\<close> is a whole turn of
  the writer, \<open>record_event\<close> a whole \<open>record\<close>, and the requests of the other theories use them that way.
  In the program both are cut by awaits, other tasks run in between and a batch that is committed is visible
  before the retention that follows it. \<open>History_Tasks\<close> has these steps one by one, states what holds of
  every interleaving, and shows that the operations here are what they add up to without interruption.
\<close>

section \<open>The table\<close>

record HistoryRow =
  hr_rowid :: int
  hr_timestamp :: int
  hr_actor :: "string option"
  hr_action :: string
  hr_detail :: string

definition MAX_ACTOR_BYTES :: nat where "MAX_ACTOR_BYTES = 256"
definition MAX_ACTION_BYTES :: nat where "MAX_ACTION_BYTES = 64"
definition MAX_DETAIL_BYTES :: nat where "MAX_DETAIL_BYTES = 4096"
definition PRUNE_CHUNK :: nat where "PRUNE_CHUNK = 10000"

definition clip :: "string \<Rightarrow> nat \<Rightarrow> string" where
  "clip s m = (if length s \<le> m then s else take (boundary_down s m) s)"

text \<open>A new row gets the largest \<open>rowid\<close> plus one.\<close>

definition max_rowid :: "HistoryRow list \<Rightarrow> int option" where
  "max_rowid rows = (if rows = [] then None else Some (foldl max 0 (map hr_rowid rows)))"

definition insert_row :: "HistoryRow list \<Rightarrow> int \<Rightarrow> string option \<Rightarrow> string \<Rightarrow> string \<Rightarrow> HistoryRow list" where
  "insert_row rows timestamp actor action detail =
     rows @ [\<lparr>hr_rowid = (case max_rowid rows of Some n \<Rightarrow> n + 1 | None \<Rightarrow> 1), hr_timestamp = timestamp,
       hr_actor = map_option (\<lambda>a. clip a MAX_ACTOR_BYTES) actor, hr_action = clip action MAX_ACTION_BYTES,
       hr_detail = clip detail MAX_DETAIL_BYTES\<rparr>]"

record NewHistoryRow =
  nr_timestamp :: int
  nr_actor :: "string option"
  nr_action :: string
  nr_detail :: string

definition record_batch :: "HistoryRow list \<Rightarrow> NewHistoryRow list \<Rightarrow> HistoryRow list" where
  "record_batch rows batch =
     foldl (\<lambda>rows r. insert_row rows (nr_timestamp r) (nr_actor r) (nr_action r) (nr_detail r)) rows batch"

text \<open>One \<open>DELETE ... LIMIT n\<close>, and the loop of such statements.\<close>

fun delete_first :: "nat \<Rightarrow> ('r \<Rightarrow> bool) \<Rightarrow> 'r list \<Rightarrow> 'r list" where
  "delete_first n p [] = []"
| "delete_first n p (r # rows) =
     (if n = 0 then r # rows else if p r then delete_first (n - 1) p rows else r # delete_first n p rows)"

lemma length_delete_first: "length (delete_first n p rows) = length rows - min n (length (filter p rows))"
  by (induction n p rows rule: delete_first.induct) (auto simp: Suc_diff_le le_trans [OF min.cobounded2 length_filter_le])

function delete_chunked :: "('r \<Rightarrow> bool) \<Rightarrow> 'r list \<Rightarrow> nat \<times> 'r list" where
  "delete_chunked p rows =
     (let rows' = delete_first PRUNE_CHUNK p rows; deleted = length rows - length rows' in
      if deleted < PRUNE_CHUNK then (deleted, rows')
      else let (total, rows'') = delete_chunked p rows' in (deleted + total, rows''))"
  by pat_completeness auto
termination
  by (relation "measure (\<lambda>(p, rows). length rows)") (auto simp: PRUNE_CHUNK_def)

declare delete_chunked.simps [simp del]

definition prune_keep_newest :: "HistoryRow list \<Rightarrow> nat \<Rightarrow> nat \<times> HistoryRow list" where
  "prune_keep_newest rows keep =
     (case max_rowid rows of
        None \<Rightarrow> (0, rows)
      | Some m \<Rightarrow> delete_chunked (\<lambda>r. hr_rowid r \<le> m - min (int keep) (2 ^ 63 - 1)) rows)"

definition prune_older_than :: "HistoryRow list \<Rightarrow> int \<Rightarrow> nat \<times> HistoryRow list" where
  "prune_older_than rows cutoff = delete_chunked (\<lambda>r. hr_timestamp r < cutoff) rows"

section \<open>Coalescing\<close>

definition MAX_HISTORY_ACTOR_LEN :: nat where "MAX_HISTORY_ACTOR_LEN = 64"
definition MAX_HISTORY_DETAIL_LEN :: nat where "MAX_HISTORY_DETAIL_LEN = 512"
definition MAX_BATCH :: nat where "MAX_BATCH = 256"

record Pending =
  pe_timestamp :: u64
  pe_actor :: "string option"
  pe_action :: string
  pe_detail :: string

definition to_db_timestamp :: "u64 \<Rightarrow> int" where
  "to_db_timestamp t = (if uint t < 2 ^ 63 then uint t else 2 ^ 63 - 1)"

definition with_repeat_count :: "string \<Rightarrow> nat \<Rightarrow> string" where
  "with_repeat_count detail count =
     (let suffix = ''(x'' @ show_nat count @ '')'' in
      if detail = [] then suffix
      else let room = MAX_HISTORY_DETAIL_LEN - (length suffix + 1) in
        truncate_utf8 detail room @ '' '' @ suffix)"

type_synonym event_key = "string option \<times> string \<times> string"

definition event_key :: "Pending \<Rightarrow> event_key" where
  "event_key e = (pe_actor e, pe_action e, pe_detail e)"

fun coalesce_loop :: "Pending list \<Rightarrow> (Pending \<times> nat) list \<Rightarrow> (event_key \<Rightarrow> nat option) \<Rightarrow> (Pending \<times> nat) list" where
  "coalesce_loop [] out seen = out"
| "coalesce_loop (entry # entries) out seen =
     (case seen (event_key entry) of
        Some i \<Rightarrow> coalesce_loop entries (out[i := (fst (out ! i), snd (out ! i) + 1)]) seen
      | None \<Rightarrow> coalesce_loop entries (out @ [(entry, 1)]) (seen(event_key entry \<mapsto> length out)))"

definition coalesce :: "Pending list \<Rightarrow> NewHistoryRow list" where
  "coalesce entries =
     map (\<lambda>(entry, count). \<lparr>nr_timestamp = to_db_timestamp (pe_timestamp entry), nr_actor = pe_actor entry,
       nr_action = pe_action entry,
       nr_detail = (if count > 1 then with_repeat_count (pe_detail entry) count else pe_detail entry)\<rparr>)
     (coalesce_loop entries [] (\<lambda>_. None))"

section \<open>The log\<close>

record HistoryConfig =
  max_rows :: "nat option"
  max_age :: "nat option"
  queue_capacity :: nat
  prune_every :: nat

definition HistoryConfig_default :: HistoryConfig where
  "HistoryConfig_default = \<lparr>max_rows = Some 100000, max_age = None, queue_capacity = 1024, prune_every = 1000\<rparr>"

datatype WriterMsg = EntryMsg Pending | PruneMsg | FlushMsg nat

record HistoryLog =
  hl_rows :: "HistoryRow list"
  hl_config :: HistoryConfig
  hl_queue :: "WriterMsg list"
  hl_dropped :: nat
  hl_since_prune :: nat
  hl_acked :: "nat list"

definition apply_retention :: "u64 \<Rightarrow> HistoryConfig \<Rightarrow> HistoryRow list \<Rightarrow> nat \<times> HistoryRow list" where
  "apply_retention unix_now config rows =
     (let (d1, rows1) = (case max_age config of
            Some age \<Rightarrow> prune_older_than rows (to_db_timestamp (of_nat (unat unix_now - age)))
          | None \<Rightarrow> (0, rows));
          (d2, rows2) = (case max_rows config of Some m \<Rightarrow> prune_keep_newest rows1 m | None \<Rightarrow> (0, rows1))
      in (d1 + d2, rows2))"

text \<open>\<open>with_config\<close>, with the retention the writer applies when it starts.\<close>

definition with_config :: "u64 \<Rightarrow> HistoryRow list \<Rightarrow> HistoryConfig \<Rightarrow> HistoryLog" where
  "with_config unix_now rows config =
     (let config = config\<lparr>queue_capacity := max (queue_capacity config) 1, prune_every := max (prune_every config) 1\<rparr> in
      \<lparr>hl_rows = snd (apply_retention unix_now config rows), hl_config = config, hl_queue = [], hl_dropped = 0,
       hl_since_prune = 0, hl_acked = []\<rparr>)"

definition entries_of :: "WriterMsg list \<Rightarrow> Pending list" where
  "entries_of batch = concat (map (\<lambda>m. case m of EntryMsg e \<Rightarrow> [e] | _ \<Rightarrow> []) batch)"

definition acks_of :: "WriterMsg list \<Rightarrow> nat list" where
  "acks_of batch = concat (map (\<lambda>m. case m of FlushMsg a \<Rightarrow> [a] | _ \<Rightarrow> []) batch)"

definition dropped_row :: "u64 \<Rightarrow> nat \<Rightarrow> NewHistoryRow" where
  "dropped_row unix_now dropped =
     \<lparr>nr_timestamp = to_db_timestamp unix_now, nr_actor = None, nr_action = ''history_dropped'',
      nr_detail = show_nat dropped @ '' events dropped (history queue full)''\<rparr>"

text \<open>One turn of the loop of \<open>run_writer\<close> that nothing interrupts: \<open>recv_many\<close> waits while the queue is empty.\<close>

definition writer_step :: "u64 \<Rightarrow> HistoryLog \<Rightarrow> HistoryLog" where
  "writer_step unix_now log =
     (if hl_queue log = [] then log
      else
        let batch = take MAX_BATCH (hl_queue log);
            rows = coalesce (entries_of batch) @
              (if hl_dropped log > 0 then [dropped_row unix_now (hl_dropped log)] else []);
            since = hl_since_prune log + length rows;
            table = record_batch (hl_rows log) rows
        in log\<lparr>hl_queue := drop MAX_BATCH (hl_queue log), hl_dropped := 0,
             hl_since_prune := (if prune_every (hl_config log) \<le> since then 0 else since),
             hl_rows := (if prune_every (hl_config log) \<le> since
               then snd (apply_retention unix_now (hl_config log) table) else table),
             hl_acked := hl_acked log @ acks_of batch\<rparr>)"

lemma MAX_BATCH_pos [simp]: "0 < MAX_BATCH"
  by (simp add: MAX_BATCH_def)

lemma writer_step_queue [simp]: "hl_queue (writer_step u log) = drop MAX_BATCH (hl_queue log)"
  by (simp add: writer_step_def Let_def)

text \<open>\<open>flush\<close>: the acknowledgement comes once the writer has worked through the queue.\<close>

function drain_queue :: "u64 \<Rightarrow> HistoryLog \<Rightarrow> HistoryLog" where
  "drain_queue unix_now log =
     (if hl_queue log = [] then log else drain_queue unix_now (writer_step unix_now log))"
  by pat_completeness auto
termination
  by (relation "measure (\<lambda>(u, log). length (hl_queue log))") auto

declare drain_queue.simps [simp del]

definition flush :: "u64 \<Rightarrow> nat \<Rightarrow> HistoryLog \<Rightarrow> HistoryLog" where
  "flush unix_now ack log = drain_queue unix_now (log\<lparr>hl_queue := hl_queue log @ [FlushMsg ack]\<rparr>)"

definition try_queue :: "WriterMsg \<Rightarrow> HistoryLog \<Rightarrow> HistoryLog option" where
  "try_queue msg log =
     (if length (hl_queue log) < queue_capacity (hl_config log)
      then Some (log\<lparr>hl_queue := hl_queue log @ [msg]\<rparr>) else None)"

text \<open>An uninterrupted \<open>record\<close>: flush, insert, count, and wake the writer.\<close>

definition record_event ::
  "u64 \<Rightarrow> nat \<Rightarrow> HistoryLog \<Rightarrow> u64 \<Rightarrow> string option \<Rightarrow> string \<Rightarrow> string \<Rightarrow> HistoryLog" where
  "record_event unix_now ack log timestamp actor action detail =
     (let actor = map_option (\<lambda>a. truncate_utf8 a MAX_HISTORY_ACTOR_LEN) actor;
          detail = truncate_utf8 detail MAX_HISTORY_DETAIL_LEN;
          log1 = flush unix_now ack log;
          log2 = log1\<lparr>hl_rows := insert_row (hl_rows log1) (to_db_timestamp timestamp) actor action detail,
            hl_since_prune := hl_since_prune log1 + 1\<rparr> in
      if hl_since_prune log2 = prune_every (hl_config log2)
      then case try_queue PruneMsg log2 of Some log3 \<Rightarrow> log3 | None \<Rightarrow> log2
      else log2)"

definition record_detached ::
  "HistoryLog \<Rightarrow> u64 \<Rightarrow> string option \<Rightarrow> string \<Rightarrow> string \<Rightarrow> bool \<times> HistoryLog" where
  "record_detached log timestamp actor action detail =
     (let entry = \<lparr>pe_timestamp = timestamp,
            pe_actor = map_option (\<lambda>a. truncate_utf8 a MAX_HISTORY_ACTOR_LEN) actor,
            pe_action = action, pe_detail = truncate_utf8 detail MAX_HISTORY_DETAIL_LEN\<rparr> in
      case try_queue (EntryMsg entry) log of
        Some log' \<Rightarrow> (True, log')
      | None \<Rightarrow> (False, log\<lparr>hl_dropped := hl_dropped log + 1\<rparr>))"

definition prune :: "u64 \<Rightarrow> HistoryLog \<Rightarrow> nat \<times> HistoryLog" where
  "prune unix_now log =
     (let (deleted, rows) = apply_retention unix_now (hl_config log) (hl_rows log) in
      (deleted, log\<lparr>hl_since_prune := 0, hl_rows := rows\<rparr>))"

section \<open>Deleting in chunks\<close>

lemma filter_delete_first: "filter (\<lambda>r. \<not> p r) (delete_first n p rows) = filter (\<lambda>r. \<not> p r) rows"
  by (induction n p rows rule: delete_first.induct) auto

lemma delete_first_all: "length (filter p rows) \<le> n \<Longrightarrow> delete_first n p rows = filter (\<lambda>r. \<not> p r) rows"
proof (induction n p rows rule: delete_first.induct)
  case (2 n p r rows)
  show ?case
  proof (cases "n = 0")
    case True
    with 2(3) have "filter p (r # rows) = []" by simp
    then have "filter (\<lambda>r. \<not> p r) (r # rows) = r # rows" unfolding filter_empty_conv by (intro filter_True) auto
    with True show ?thesis by simp
  qed (use 2 in auto)
qed simp

lemma delete_chunked_filter:
  "delete_chunked p rows = (length (filter p rows), filter (\<lambda>r. \<not> p r) rows)"
proof (induction p rows rule: delete_chunked.induct)
  case (1 p rows)
  let ?rows = "delete_first PRUNE_CHUNK p rows"
  have len: "length rows - length ?rows = min PRUNE_CHUNK (length (filter p rows))"
    by (simp add: length_delete_first le_trans [OF min.cobounded2 length_filter_le])
  note unfold = delete_chunked.simps [of p rows, unfolded Let_def len]
  show ?case
  proof (cases "length (filter p rows) < PRUNE_CHUNK")
    case True
    then show ?thesis
      by (simp add: unfold delete_first_all)
  next
    case False
    then have "delete_chunked p ?rows = (length (filter p ?rows), filter (\<lambda>r. \<not> p r) ?rows)"
      using 1 [OF refl refl] len by simp
    moreover have "length (filter p ?rows) = length (filter p rows) - PRUNE_CHUNK"
      using False length_delete_first [of PRUNE_CHUNK p rows] filter_delete_first [of p PRUNE_CHUNK rows]
        sum_length_filter_compl [of p ?rows] sum_length_filter_compl [of p rows] by simp
    ultimately show ?thesis
      using False by (simp add: unfold filter_delete_first)
  qed
qed

section \<open>Row identifiers and retention\<close>

definition rows_ok :: "HistoryRow list \<Rightarrow> bool" where
  "rows_ok rows \<longleftrightarrow> sorted_wrt (<) (map hr_rowid rows) \<and> (\<forall>r\<in>set rows. 0 < hr_rowid r)"

lemma foldl_max_ge: "(a :: int) \<le> foldl max a xs" "x \<in> set xs \<Longrightarrow> x \<le> foldl max a xs"
proof (induction xs arbitrary: a)
  case (Cons y ys)
  { case 1 show ?case using Cons(1) [of "max a y"] by simp }
  { case 2 then show ?case using Cons(1) [of "max a y"] Cons(2) [of "max a y"] by auto }
qed simp_all

lemma max_rowid_ge: "max_rowid rows = Some m \<Longrightarrow> r \<in> set rows \<Longrightarrow> hr_rowid r \<le> m"
  by (auto simp: max_rowid_def foldl_max_ge split: if_splits)

lemma rows_ok_insert: "rows_ok rows \<Longrightarrow> rows_ok (insert_row rows t a act d)"
proof (cases "max_rowid rows")
  case (Some m)
  assume ok: "rows_ok rows"
  have "0 \<le> m" using Some foldl_max_ge(1) [of 0] by (auto simp: max_rowid_def split: if_splits)
  with ok Some show ?thesis
    using max_rowid_ge [OF Some] unfolding rows_ok_def insert_row_def by (fastforce simp: sorted_wrt_append)
qed (auto simp: rows_ok_def insert_row_def max_rowid_def split: if_splits)

lemma rows_ok_filter: "rows_ok rows \<Longrightarrow> rows_ok (filter p rows)"
  unfolding rows_ok_def by (auto simp: sorted_wrt_map sorted_wrt_filter)

lemma rows_ok_batch: "rows_ok rows \<Longrightarrow> rows_ok (record_batch rows batch)"
  unfolding record_batch_def by (induction batch arbitrary: rows) (auto intro: rows_ok_insert)

lemma length_batch: "length (record_batch rows batch) = length rows + length batch"
  unfolding record_batch_def by (induction batch arbitrary: rows) (auto simp: insert_row_def)

text \<open>Distinct identifiers in an interval of length \<open>keep\<close>: at most \<open>keep\<close> rows stay.\<close>

lemma keep_newest_bound:
  assumes "rows_ok rows"
  shows "length (snd (prune_keep_newest rows keep)) \<le> keep"
proof (cases "max_rowid rows")
  case None
  then show ?thesis by (simp add: prune_keep_newest_def max_rowid_def split: if_splits)
next
  case (Some m)
  let ?kept = "filter (\<lambda>r. \<not> hr_rowid r \<le> m - min (int keep) (2 ^ 63 - 1)) rows"
  have "distinct (map hr_rowid ?kept)"
    using rows_ok_filter [OF assms, of "\<lambda>r. \<not> hr_rowid r \<le> m - min (int keep) (2 ^ 63 - 1)"]
    by (auto simp: rows_ok_def strict_sorted_iff)
  from distinct_card [OF this] have "length ?kept = card (hr_rowid ` set ?kept)"
    by (simp only: length_map list.set_map)
  also have "\<dots> \<le> card {m - int keep <.. m}"
    by (rule card_mono) (auto dest: max_rowid_ge [OF Some])
  finally show ?thesis using Some by (simp add: prune_keep_newest_def delete_chunked_filter)
qed

lemma apply_retention_spec:
  "rows_ok rows \<Longrightarrow> rows_ok (snd (apply_retention u config rows)) \<and>
     length (snd (apply_retention u config rows)) \<le> length rows \<and>
     (\<forall>m. max_rows config = Some m \<longrightarrow> length (snd (apply_retention u config rows)) \<le> m)"
proof -
  assume ok: "rows_ok rows"
  define rows1 where "rows1 = snd (case max_age config of
      Some age \<Rightarrow> prune_older_than rows (to_db_timestamp (of_nat (unat u - age))) | None \<Rightarrow> (0, rows))"
  have 1: "rows_ok rows1" "length rows1 \<le> length rows"
    unfolding rows1_def using ok
    by (cases "max_age config"; simp add: prune_older_than_def delete_chunked_filter rows_ok_filter)+
  have eq: "snd (apply_retention u config rows) =
      snd (case max_rows config of Some m \<Rightarrow> prune_keep_newest rows1 m | None \<Rightarrow> (0, rows1))"
    unfolding rows1_def by (simp add: apply_retention_def Let_def case_prod_unfold)
  show ?thesis
  proof (cases "max_rows config")
    case (Some m)
    have "rows_ok (snd (prune_keep_newest rows1 m)) \<and> length (snd (prune_keep_newest rows1 m)) \<le> length rows1"
      using 1(1) by (cases "max_rowid rows1") (simp_all add: prune_keep_newest_def delete_chunked_filter rows_ok_filter)
    with Some 1 keep_newest_bound [OF 1(1)] show ?thesis unfolding eq by auto
  qed (use 1 in \<open>simp add: eq\<close>)
qed

section \<open>Coalescing, declaratively\<close>

text \<open>The first event of each key, in order; the loop computes them with the number of their repetitions.\<close>

fun firsts :: "Pending list \<Rightarrow> Pending list" where
  "firsts [] = []"
| "firsts (e # es) = e # filter (\<lambda>x. event_key x \<noteq> event_key e) (firsts es)"

definition repeats :: "Pending list \<Rightarrow> Pending \<Rightarrow> nat" where
  "repeats es e = length (filter (\<lambda>x. event_key x = event_key e) es)"

lemma image_filter_ne: "f ` {x \<in> A. f x \<noteq> k} = f ` A - {k}"
  by auto

lemma firsts_keys: "event_key ` set (firsts es) = event_key ` set es"
proof (induction es)
  case (Cons e es)
  then show ?case by (simp add: image_filter_ne)
qed simp

lemma firsts_distinct: "distinct (map event_key (firsts es))"
  by (induction es) (auto simp: distinct_map_filter)

lemma firsts_snoc:
  "firsts (es @ [e]) = (if event_key e \<in> event_key ` set es then firsts es else firsts es @ [e])"
  by (induction es) auto

lemma coalesce_loop_spec:
  assumes "out = map (\<lambda>e. (e, repeats seen_es e)) (firsts seen_es)"
    and "\<And>k i. seen k = Some i \<longleftrightarrow> i < length (firsts seen_es) \<and> event_key (firsts seen_es ! i) = k"
  shows "coalesce_loop es out seen = map (\<lambda>e. (e, repeats (seen_es @ es) e)) (firsts (seen_es @ es))"
  using assms
proof (induction es arbitrary: out seen seen_es)
  case (Cons e es)
  let ?fs = "firsts seen_es"
  have app: "(seen_es @ [e]) @ es = seen_es @ e # es" by simp
  have dist: "i = j" if "i < length ?fs" "j < length ?fs" "event_key (?fs ! i) = event_key (?fs ! j)" for i j
    using that nth_eq_iff_index_eq [OF firsts_distinct [of seen_es], of i j] by simp
  show ?case
  proof (cases "seen (event_key e)")
    case None
    have new: "event_key e \<notin> event_key ` set seen_es"
    proof
      assume "event_key e \<in> event_key ` set seen_es"
      then have "event_key e \<in> event_key ` set ?fs" by (simp only: firsts_keys)
      then obtain x where "x \<in> set ?fs" "event_key x = event_key e" by (rule imageE) simp
      then obtain i where "i < length ?fs" "event_key (?fs ! i) = event_key e" by (auto simp: in_set_conv_nth)
      with Cons.prems(2) [of "event_key e" i] None show False by simp
    qed
    then have fs: "firsts (seen_es @ [e]) = ?fs @ [e]" by (simp add: firsts_snoc)
    have "repeats (seen_es @ [e]) x = repeats seen_es x" if "x \<in> set ?fs" for x
      using that new firsts_keys [of seen_es] by (auto simp: repeats_def)
    moreover have "x \<in> set seen_es \<Longrightarrow> event_key x \<noteq> event_key e" for x using new by (metis image_eqI)
    then have "repeats (seen_es @ [e]) e = 1" by (simp add: repeats_def filter_empty_conv)
    ultimately have "out @ [(e, 1)] = map (\<lambda>x. (x, repeats (seen_es @ [e]) x)) (firsts (seen_es @ [e]))"
      by (simp add: fs Cons.prems(1))
    moreover have "(seen(event_key e \<mapsto> length out)) k = Some i \<longleftrightarrow>
        i < length (firsts (seen_es @ [e])) \<and> event_key (firsts (seen_es @ [e]) ! i) = k" for k i
      using Cons.prems(1) Cons.prems(2) [of k i] None by (auto simp: fs nth_append less_Suc_eq)
    ultimately show ?thesis using Cons.IH [of "out @ [(e, 1)]" "seen_es @ [e]"] None by (simp only: coalesce_loop.simps option.case app)
  next
    case (Some i)
    then have i: "i < length ?fs" "event_key (?fs ! i) = event_key e" using Cons.prems(2) by blast+
    then have "event_key e \<in> event_key ` set seen_es" using firsts_keys [of seen_es] by (metis image_eqI nth_mem)
    then have fs: "firsts (seen_es @ [e]) = ?fs" by (simp add: firsts_snoc)
    have rep: "repeats (seen_es @ [e]) (?fs ! j) = (if j = i then repeats seen_es (?fs ! i) + 1 else repeats seen_es (?fs ! j))"
      if "j < length ?fs" for j
    proof -
      have "event_key (?fs ! j) = event_key e \<longleftrightarrow> j = i" using dist [OF that i(1)] i(2) by auto
      then show ?thesis using i(2) by (simp add: repeats_def eq_commute)
    qed
    have out: "out[i := (fst (out ! i), snd (out ! i) + 1)] = map (\<lambda>x. (x, repeats (seen_es @ [e]) x)) ?fs"
      by (rule nth_equalityI) (use i rep in \<open>auto simp: Cons.prems(1) nth_list_update\<close>)
    have "coalesce_loop es (out[i := (fst (out ! i), snd (out ! i) + 1)]) seen =
        map (\<lambda>x. (x, repeats ((seen_es @ [e]) @ es) x)) (firsts ((seen_es @ [e]) @ es))"
      by (rule Cons.IH) (simp_all only: fs out Cons.prems(2))
    with Some show ?thesis by (simp only: coalesce_loop.simps option.case app)
  qed
qed simp

lemma coalesce_entries: "coalesce_loop es [] (\<lambda>_. None) = map (\<lambda>e. (e, repeats es e)) (firsts es)"
  using coalesce_loop_spec [of "[]" "[]" "\<lambda>_. None" es] by simp

lemma length_firsts: "length (firsts es) \<le> length es"
  by (induction es) (auto intro: le_trans [OF length_filter_le])

lemma length_coalesce: "length (coalesce es) \<le> length es"
  by (simp add: coalesce_def coalesce_entries length_firsts)

text \<open>Coalescing equals its declarative reading: one row per distinct (actor, action,
  detail) in the order of first occurrence, with the time of that occurrence and the number of
  repetitions in the detail; no event is lost, so the repetition counts add up to the events.\<close>

lemma coalesce_faithful:
  "coalesce es = map (\<lambda>e. \<lparr>nr_timestamp = to_db_timestamp (pe_timestamp e), nr_actor = pe_actor e, nr_action = pe_action e,
      nr_detail = (if repeats es e > 1 then with_repeat_count (pe_detail e) (repeats es e) else pe_detail e)\<rparr>) (firsts es)
   \<and> sum_list (map (repeats es) (firsts es)) = length es"
proof -
  have "sum_list (map (repeats es) (firsts es)) = length es"
  proof -
    let ?K = "event_key ` set es"
    have "sum_list (map (repeats es) (firsts es)) =
        sum_list (map (\<lambda>k. length (filter (\<lambda>x. event_key x = k) es)) (map event_key (firsts es)))"
      by (simp add: repeats_def [abs_def] comp_def)
    also have "\<dots> = (\<Sum>k\<in>?K. length (filter (\<lambda>x. event_key x = k) es))"
      using firsts_distinct [of es] firsts_keys [of es] by (subst sum_list_distinct_conv_sum_set) simp_all
    also have "\<dots> = (\<Sum>k\<in>?K. count_list (map event_key es) k)"
      by (simp add: count_list_eq_length_filter filter_map comp_def eq_commute)
    also have "\<dots> = length es" using sum_count_set [of "map event_key es" ?K] by simp
    finally show ?thesis .
  qed
  then show ?thesis by (simp add: coalesce_def coalesce_entries)
qed

text \<open>Deleting in chunks deletes the same rows as one statement would: the loop ends, returns
  how many rows matched, and leaves exactly the others in their order.\<close>

lemma chunked_delete_equals_delete:
  "delete_chunked p (rows :: HistoryRow list) = (length (filter p rows), filter (\<lambda>r. \<not> p r) rows)"
  by (rule delete_chunked_filter)

end
