(* ===== verification/History_Tasks.thy ===== *)
theory History_Tasks
  imports History
begin

text \<open>
  The audit log as its tasks run it (\<open>kdx-server-core/src/history.rs\<close>, \<open>kdx-storage/src/history.rs\<close>): the
  writer and any number of callers of \<open>record\<close> and \<open>flush\<close>, cut at every await and every access to a shared
  counter, and interleaved. \<open>writer_step\<close> and \<open>record_event\<close> are what these steps add up to when nothing
  comes in between.

  The writer's first retention is over when a run starts: until then no caller's flush is answered, so
  nobody else touches the table. A batch or an insert may fail, a statement of the retention does not; a
  caller is not cancelled half way (the dispatch loop awaits its handlers); \<open>prune\<close>, which only the tests
  call, is left out.
\<close>

section \<open>Tasks\<close>

text \<open>Where a caller is. With a row it is in \<open>record\<close>, without one in \<open>flush\<close> alone.\<close>

datatype Caller =
    Away | Sending "NewHistoryRow option" | Awaiting "NewHistoryRow option" | Inserting NewHistoryRow | Counting | Waking nat

text \<open>Where the writer is in \<open>run_writer\<close>; the numbers are the callers it has to acknowledge.\<close>

datatype Writer =
    Receiving | Received "Pending list" "nat list" | Writing "NewHistoryRow list" "nat list" | Adding nat "nat list"
  | Checking "nat list" | Resetting "nat list" | PruningByAge "nat list" | DeletingOld int "nat list"
  | PruningByRows "nat list" | DeletingFirst int "nat list" | Acking "nat list"

record HistoryTasks =
  ht_log :: HistoryLog
  ht_writer :: Writer
  ht_callers :: "Caller list"

text \<open>One \<open>DELETE\<close> of \<open>delete_chunked\<close>, and whether it was the last.\<close>

definition delete_step :: "(HistoryRow \<Rightarrow> bool) \<Rightarrow> HistoryLog \<Rightarrow> bool \<times> HistoryLog" where
  "delete_step p log =
     (let rows = delete_first PRUNE_CHUNK p (hl_rows log) in
      (length (hl_rows log) - length rows < PRUNE_CHUNK, log\<lparr>hl_rows := rows\<rparr>))"

definition answered :: "Caller \<Rightarrow> Caller" where
  "answered c = (case c of Awaiting (Some row) \<Rightarrow> Inserting row | Awaiting None \<Rightarrow> Away | _ \<Rightarrow> c)"

text \<open>\<open>ok\<close>: the transaction of the batch commits.\<close>

definition writer_move :: "u64 \<Rightarrow> bool \<Rightarrow> HistoryTasks \<Rightarrow> HistoryTasks" where
  "writer_move unix_now ok s =
     (let log = ht_log s; config = hl_config log; goto = (\<lambda>w log. s\<lparr>ht_log := log, ht_writer := w\<rparr>) in
      case ht_writer s of
        Receiving \<Rightarrow>
          if hl_queue log = [] then s
          else let batch = take MAX_BATCH (hl_queue log) in
            goto (Received (entries_of batch) (acks_of batch)) (log\<lparr>hl_queue := drop MAX_BATCH (hl_queue log)\<rparr>)
      | Received entries acks \<Rightarrow>
          let rows = coalesce entries @ (if hl_dropped log > 0 then [dropped_row unix_now (hl_dropped log)] else []) in
          goto (if rows = [] then Checking acks else Writing rows acks) (log\<lparr>hl_dropped := 0\<rparr>)
      | Writing rows acks \<Rightarrow>
          if ok then goto (Adding (length rows) acks) (log\<lparr>hl_rows := record_batch (hl_rows log) rows\<rparr>)
          else goto (Checking acks) log
      | Adding n acks \<Rightarrow> goto (Checking acks) (log\<lparr>hl_since_prune := hl_since_prune log + n\<rparr>)
      | Checking acks \<Rightarrow> goto (if prune_every config \<le> hl_since_prune log then Resetting acks else Acking acks) log
      | Resetting acks \<Rightarrow> goto (PruningByAge acks) (log\<lparr>hl_since_prune := 0\<rparr>)
      | PruningByAge acks \<Rightarrow>
          goto (case max_age config of Some age \<Rightarrow> DeletingOld (to_db_timestamp (of_nat (unat unix_now - age))) acks
                | None \<Rightarrow> PruningByRows acks) log
      | DeletingOld cutoff acks \<Rightarrow>
          (case delete_step (\<lambda>r. hr_timestamp r < cutoff) log of
             (done, log) \<Rightarrow> goto (if done then PruningByRows acks else DeletingOld cutoff acks) log)
      | PruningByRows acks \<Rightarrow>
          goto (case max_rows config of None \<Rightarrow> Acking acks
                | Some keep \<Rightarrow> (case max_rowid (hl_rows log) of None \<Rightarrow> Acking acks
                    | Some m \<Rightarrow> DeletingFirst (m - min (int keep) (2 ^ 63 - 1)) acks)) log
      | DeletingFirst cutoff acks \<Rightarrow>
          (case delete_step (\<lambda>r. hr_rowid r \<le> cutoff) log of
             (done, log) \<Rightarrow> goto (if done then Acking acks else DeletingFirst cutoff acks) log)
      | Acking [] \<Rightarrow> goto Receiving log
      | Acking (a # acks) \<Rightarrow>
          s\<lparr>ht_log := log\<lparr>hl_acked := hl_acked log @ [a]\<rparr>, ht_writer := Acking acks,
            ht_callers := (ht_callers s)[a := answered (ht_callers s ! a)]\<rparr>)"

text \<open>A step of the \<open>i\<close>-th caller: \<open>send\<close> waits for room in the queue, an acknowledgement is waited for.
  The row is truncated before anything else.\<close>

definition history_row :: "u64 \<Rightarrow> string option \<Rightarrow> string \<Rightarrow> string \<Rightarrow> NewHistoryRow" where
  "history_row timestamp actor action detail =
     \<lparr>nr_timestamp = to_db_timestamp timestamp, nr_actor = map_option (\<lambda>a. truncate_utf8 a MAX_HISTORY_ACTOR_LEN) actor,
      nr_action = action, nr_detail = truncate_utf8 detail MAX_HISTORY_DETAIL_LEN\<rparr>"

definition caller_move :: "nat \<Rightarrow> bool \<Rightarrow> HistoryTasks \<Rightarrow> HistoryTasks" where
  "caller_move i ok s =
     (let log = ht_log s; goto = (\<lambda>c log. s\<lparr>ht_log := log, ht_callers := (ht_callers s)[i := c]\<rparr>) in
      case ht_callers s ! i of
        Away \<Rightarrow> s
      | Sending row \<Rightarrow> (case try_queue (FlushMsg i) log of Some log \<Rightarrow> goto (Awaiting row) log | None \<Rightarrow> s)
      | Awaiting row \<Rightarrow> s
      | Inserting r \<Rightarrow>
          if ok then goto Counting (log\<lparr>hl_rows := insert_row (hl_rows log) (nr_timestamp r) (nr_actor r) (nr_action r) (nr_detail r)\<rparr>)
          else goto Away log
      | Counting \<Rightarrow> goto (Waking (hl_since_prune log + 1)) (log\<lparr>hl_since_prune := hl_since_prune log + 1\<rparr>)
      | Waking since \<Rightarrow>
          goto Away (if since = prune_every (hl_config log) then (case try_queue PruneMsg log of Some log \<Rightarrow> log | None \<Rightarrow> log) else log))"

text \<open>A caller begins: \<open>record\<close> of an event, or \<open>flush\<close> (which \<open>recent\<close> starts with).\<close>

definition call :: "nat \<Rightarrow> NewHistoryRow option \<Rightarrow> HistoryTasks \<Rightarrow> HistoryTasks" where
  "call i row s = (if ht_callers s ! i = Away then s\<lparr>ht_callers := (ht_callers s)[i := Sending row]\<rparr> else s)"

inductive history_step :: "HistoryTasks \<Rightarrow> HistoryTasks \<Rightarrow> bool" where
  writer: "history_step s (writer_move unix_now ok s)"
| called: "i < length (ht_callers s) \<Longrightarrow> history_step s (call i row s)"
| caller: "i < length (ht_callers s) \<Longrightarrow> history_step s (caller_move i ok s)"
| detached: "history_step s (s\<lparr>ht_log := snd (record_detached (ht_log s) t actor action detail)\<rparr>)"

inductive history_steps :: "HistoryTasks \<Rightarrow> HistoryTasks \<Rightarrow> bool" for s where
  start: "history_steps s s"
| step: "history_steps s s1 \<Longrightarrow> history_step s1 s2 \<Longrightarrow> history_steps s s2"

definition HistoryTasks_new :: "u64 \<Rightarrow> HistoryRow list \<Rightarrow> HistoryConfig \<Rightarrow> nat \<Rightarrow> HistoryTasks" where
  "HistoryTasks_new unix_now rows config callers =
     \<lparr>ht_log = with_config unix_now rows config, ht_writer = Receiving, ht_callers = replicate callers Away\<rparr>"

section \<open>Counting the callers\<close>

lemma filter_update:
  assumes "i < length xs"
  shows "length (filter P (xs[i := y])) + (if P (xs ! i) then 1 else 0) = length (filter P xs) + (if P y then 1 else 0)"
  using assms
proof (induction xs arbitrary: i)
  case (Cons x xs)
  then show ?case by (cases i) auto
qed simp

fun is_inserting :: "Caller \<Rightarrow> bool" where
  "is_inserting (Inserting _) = True"
| "is_inserting _ = False"

fun is_awaiting :: "Caller \<Rightarrow> bool" where
  "is_awaiting (Awaiting _) = True"
| "is_awaiting _ = False"

lemma caller_kinds: "is_inserting c \<Longrightarrow> c \<noteq> Counting \<and> \<not> is_awaiting c"
  by (cases c) simp_all

definition inserting :: "HistoryTasks \<Rightarrow> nat" where "inserting s = length (filter is_inserting (ht_callers s))"
definition counting :: "HistoryTasks \<Rightarrow> nat" where "counting s = length (filter (\<lambda>c. c = Counting) (ht_callers s))"

definition writer_acks :: "Writer \<Rightarrow> nat list" where
  "writer_acks w = (case w of Receiving \<Rightarrow> [] | Received _ a \<Rightarrow> a | Writing _ a \<Rightarrow> a | Adding _ a \<Rightarrow> a | Checking a \<Rightarrow> a
     | Resetting a \<Rightarrow> a | PruningByAge a \<Rightarrow> a | DeletingOld _ a \<Rightarrow> a | PruningByRows a \<Rightarrow> a | DeletingFirst _ a \<Rightarrow> a | Acking a \<Rightarrow> a)"

text \<open>Each flush under way is that of one caller, who waits for it.\<close>

definition flushes_ok :: "HistoryTasks \<Rightarrow> bool" where
  "flushes_ok s \<longleftrightarrow>
     (let pending = writer_acks (ht_writer s) @ acks_of (hl_queue (ht_log s)) in
      distinct pending \<and> (\<forall>a\<in>set pending. a < length (ht_callers s) \<and> is_awaiting (ht_callers s ! a)))"

lemma busy_callers:
  assumes "flushes_ok s"
  shows "inserting s + counting s + length (writer_acks (ht_writer s)) \<le> length (ht_callers s)"
proof -
  let ?n = "length (ht_callers s)" and ?acks = "writer_acks (ht_writer s)"
  let ?I = "{i. i < ?n \<and> is_inserting (ht_callers s ! i)}" and ?C = "{i. i < ?n \<and> ht_callers s ! i = Counting}"
  have "distinct ?acks" "\<forall>a\<in>set ?acks. a < ?n \<and> is_awaiting (ht_callers s ! a)"
    using assms by (auto simp: flushes_ok_def Let_def)
  then have "card (set ?acks) = length ?acks" "set ?acks \<subseteq> {i. i < ?n \<and> is_awaiting (ht_callers s ! i)}" by (auto simp: distinct_card)
  moreover have "?I \<inter> ?C = {}" "(?I \<union> ?C) \<inter> {i. i < ?n \<and> is_awaiting (ht_callers s ! i)} = {}"
    by (auto dest: caller_kinds)
  ultimately have "card (?I \<union> ?C \<union> set ?acks) = card ?I + card ?C + length ?acks"
    by (subst card_Un_disjoint; force simp: card_Un_disjoint)
  moreover have "card (?I \<union> ?C \<union> set ?acks) \<le> card {..<?n}"
    using \<open>set ?acks \<subseteq> _\<close> by (intro card_mono) auto
  ultimately show ?thesis by (simp add: inserting_def counting_def length_filter_conv_card)
qed

lemma acks_append [simp]: "acks_of (xs @ ys) = acks_of xs @ acks_of ys"
  by (simp add: acks_of_def)

lemma acks_one [simp]: "acks_of [EntryMsg e] = []" "acks_of [PruneMsg] = []" "acks_of [FlushMsg a] = [a]"
  by (simp_all add: acks_of_def)

lemma entries_bound: "length (entries_of (take MAX_BATCH q)) \<le> MAX_BATCH"
proof -
  have "length (entries_of xs) \<le> length xs" for xs
    by (induction xs) (auto simp: entries_of_def split: WriterMsg.split)
  from this [of "take MAX_BATCH q"] show ?thesis by simp
qed

lemma flushes_keep:
  assumes "flushes_ok s" and "length (ht_callers s') = length (ht_callers s)"
    and "writer_acks (ht_writer s') @ acks_of (hl_queue (ht_log s')) = writer_acks (ht_writer s) @ acks_of (hl_queue (ht_log s))"
    and "\<And>a. a < length (ht_callers s) \<Longrightarrow> is_awaiting (ht_callers s ! a) \<Longrightarrow> ht_callers s' ! a = ht_callers s ! a"
  shows "flushes_ok s'"
  using assms unfolding flushes_ok_def Let_def by simp

lemma writer_flushes:
  assumes "flushes_ok s"
  shows "flushes_ok (writer_move u ok s)"
proof (cases "ht_writer s")
  case Receiving
  have "acks_of (take MAX_BATCH q) @ acks_of (drop MAX_BATCH q) = acks_of q" for q
    by (metis acks_append append_take_drop_id)
  then show ?thesis
    by (intro flushes_keep [OF assms]) (simp_all add: writer_move_def Let_def Receiving writer_acks_def)
next
  case (Acking acks)
  show ?thesis
  proof (cases acks)
    case (Cons a rest)
    then show ?thesis
      using assms Acking by (auto simp: flushes_ok_def writer_move_def Let_def writer_acks_def nth_list_update)
  qed (use Acking assms in \<open>simp add: flushes_ok_def writer_move_def Let_def writer_acks_def\<close>)
qed (intro flushes_keep [OF assms]; simp add: writer_move_def Let_def writer_acks_def delete_step_def split: option.split)+

lemma still_awaiting: "is_awaiting (xs ! a) \<Longrightarrow> \<not> is_awaiting (xs ! i) \<Longrightarrow> xs[i := c] ! a = xs ! a"
  by (cases "i = a") auto

lemma caller_flushes:
  assumes "flushes_ok s" and "i < length (ht_callers s)"
  shows "flushes_ok (caller_move i ok s)"
proof (cases "ht_callers s ! i")
  case (Sending row)
  then have "\<not> is_awaiting (ht_callers s ! i)" by simp
  with assms(1) have "i \<notin> set (writer_acks (ht_writer s) @ acks_of (hl_queue (ht_log s)))" unfolding flushes_ok_def Let_def by blast
  then show ?thesis
    using assms Sending
    by (auto simp: flushes_ok_def caller_move_def Let_def try_queue_def nth_list_update split: if_splits)
qed (rule flushes_keep [OF assms(1)]; auto simp: caller_move_def Let_def try_queue_def intro!: still_awaiting)+

section \<open>The bound\<close>

text \<open>Between two looks at the counter a caller adds one row at most: it then waits for the writer's next turn.
  So the rows of the callers that may still insert or count before the next look, \<open>credit\<close>, stay within
  their number.\<close>

definition credit :: "HistoryTasks \<Rightarrow> nat" where
  "credit s = hl_since_prune (ht_log s) + inserting s + counting s"

definition phase_ok :: "nat \<Rightarrow> HistoryTasks \<Rightarrow> bool" where
  "phase_ok m s \<longleftrightarrow>
     (let n = length (hl_rows (ht_log s)); counted = m + hl_since_prune (ht_log s) + counting s;
          limit = prune_every (hl_config (ht_log s)) + length (ht_callers s);
          pruning = (\<lambda>acks. n + inserting s \<le> m + limit + MAX_BATCH \<and> credit s + length acks \<le> length (ht_callers s)) in
      case ht_writer s of
        Receiving \<Rightarrow> n \<le> counted \<and> credit s < limit
      | Received entries acks \<Rightarrow> n \<le> counted \<and> credit s < limit \<and> length entries \<le> MAX_BATCH
      | Writing rows acks \<Rightarrow> n \<le> counted \<and> credit s < limit \<and> length rows \<le> MAX_BATCH + 1
      | Adding k acks \<Rightarrow> n \<le> counted + k \<and> credit s < limit \<and> k \<le> MAX_BATCH + 1
      | Checking acks \<Rightarrow> n \<le> counted \<and> credit s \<le> limit + MAX_BATCH
      | Resetting acks \<Rightarrow> n \<le> counted \<and> credit s \<le> limit + MAX_BATCH
      | PruningByAge acks \<Rightarrow> pruning acks
      | DeletingOld cutoff acks \<Rightarrow> pruning acks
      | PruningByRows acks \<Rightarrow> pruning acks
      | DeletingFirst cutoff acks \<Rightarrow> pruning acks \<and>
          length (filter (\<lambda>r. hr_rowid r > cutoff + min (int m) (2 ^ 63 - 1)) (hl_rows (ht_log s))) \<le> hl_since_prune (ht_log s) + counting s
      | Acking acks \<Rightarrow> n \<le> counted \<and> credit s + length acks < limit)"

definition tasks_ok :: "nat \<Rightarrow> HistoryTasks \<Rightarrow> bool" where
  "tasks_ok m s \<longleftrightarrow> rows_ok (hl_rows (ht_log s)) \<and> 0 < prune_every (hl_config (ht_log s)) \<and>
     max_rows (hl_config (ht_log s)) = Some m \<and> flushes_ok s \<and> phase_ok m s"

lemma phase_bound: "phase_ok m s \<Longrightarrow>
    length (hl_rows (ht_log s)) \<le> m + prune_every (hl_config (ht_log s)) + length (ht_callers s) + MAX_BATCH"
  by (auto simp: phase_ok_def credit_def Let_def split: Writer.splits)

lemma insert_row_snoc: "\<exists>r. insert_row rows t a act d = rows @ [r]"
  by (simp add: insert_row_def)

lemma caller_phase:
  assumes "phase_ok m s" and "i < length (ht_callers s)"
  shows "phase_ok m (caller_move i ok s)"
proof -
  note ins = filter_update [OF assms(2), of is_inserting] and cnt = filter_update [OF assms(2), of "\<lambda>c. c = Counting"]
  show ?thesis
  proof (cases "ht_callers s ! i")
    case (Sending row)
    then show ?thesis
      using assms ins [of "Awaiting row"] cnt [of "Awaiting row"]
      by (auto simp: caller_move_def Let_def try_queue_def phase_ok_def credit_def inserting_def counting_def split: Writer.splits)
  next
    case (Inserting r)
    obtain x where x: "insert_row (hl_rows (ht_log s)) (nr_timestamp r) (nr_actor r) (nr_action r) (nr_detail r) = hl_rows (ht_log s) @ [x]"
      using insert_row_snoc by blast
    show ?thesis
      using assms Inserting ins [of Counting] cnt [of Counting] ins [of Away] cnt [of Away]
      by (cases ok)
        (auto simp: caller_move_def Let_def x phase_ok_def credit_def inserting_def counting_def split: Writer.splits)
  next
    case Counting
    then show ?thesis
      using assms ins [of "Waking (hl_since_prune (ht_log s) + 1)"] cnt [of "Waking (hl_since_prune (ht_log s) + 1)"]
      by (auto simp: caller_move_def Let_def phase_ok_def credit_def inserting_def counting_def split: Writer.splits)
  next
    case (Waking since)
    then show ?thesis
      using assms ins [of Away] cnt [of Away]
      by (auto simp: caller_move_def Let_def try_queue_def phase_ok_def credit_def inserting_def counting_def split: Writer.splits)
  qed (use assms(1) in \<open>simp_all add: caller_move_def Let_def\<close>)
qed

lemma delete_first_subset: "set (delete_first n p rows) \<subseteq> set rows"
  by (induction n p rows rule: delete_first.induct) auto

lemma delete_first_sorted: "sorted_wrt R (map f rows) \<Longrightarrow> sorted_wrt R (map f (delete_first n p rows))"
  by (induction n p rows rule: delete_first.induct) (auto dest: subsetD [OF delete_first_subset])

lemma delete_first_fewer: "length (filter q (delete_first n p rows)) \<le> length (filter q rows)"
  by (induction n p rows rule: delete_first.induct) (auto intro: le_SucI)

lemma delete_step_spec:
  assumes "rows_ok (hl_rows log)" and "delete_step p log = (done, log')"
  obtains rows where "log' = log\<lparr>hl_rows := rows\<rparr>" "rows_ok rows" "length rows \<le> length (hl_rows log)"
    "\<And>q. length (filter q rows) \<le> length (filter q (hl_rows log))" "done \<Longrightarrow> \<forall>r\<in>set rows. \<not> p r"
proof -
  let ?rows = "delete_first PRUNE_CHUNK p (hl_rows log)"
  have rows: "log' = log\<lparr>hl_rows := ?rows\<rparr>" and d: "done \<longleftrightarrow> length (hl_rows log) - length ?rows < PRUNE_CHUNK"
    using assms(2) by (auto simp: delete_step_def Let_def)
  have "rows_ok ?rows"
    using assms(1) delete_first_sorted [of "(<)" hr_rowid "hl_rows log"] delete_first_subset [of PRUNE_CHUNK p "hl_rows log"]
    by (auto simp: rows_ok_def)
  moreover have "\<forall>r\<in>set ?rows. \<not> p r" if "done"
  proof -
    have "length (filter p (hl_rows log)) < PRUNE_CHUNK"
      using d that length_filter_le [of p "hl_rows log"] by (simp add: length_delete_first)
    then show ?thesis by (simp add: delete_first_all)
  qed
  ultimately show thesis
    using rows by (intro that [of ?rows] delete_first_fewer) (simp_all add: length_delete_first)
qed

lemma writer_rows:
  assumes "rows_ok (hl_rows (ht_log s))"
  shows "rows_ok (hl_rows (ht_log (writer_move u ok s)))"
proof -
  have "rows_ok (hl_rows (snd (delete_step p (ht_log s))))" for p
    using delete_step_spec [OF assms, of p] by (metis prod.collapse HistoryLog.select_convs(1) HistoryLog.surjective HistoryLog.update_convs(1))
  then show ?thesis
    using assms rows_ok_batch
    by (auto simp: writer_move_def Let_def case_prod_unfold split: Writer.split list.split)
qed

text \<open>Rows that \<open>DeletingFirst\<close> leaves: those of the last \<open>m\<close> identifiers, and those after.\<close>

lemma kept_rows:
  assumes "rows_ok rows" and "\<forall>r\<in>set rows. \<not> hr_rowid r \<le> cutoff"
  shows "length rows \<le> m + length (filter (\<lambda>r. hr_rowid r > cutoff + min (int m) (2 ^ 63 - 1)) rows)"
proof -
  let ?new = "\<lambda>r. hr_rowid r > cutoff + min (int m) (2 ^ 63 - 1)"
  have "distinct (map hr_rowid (filter (\<lambda>r. \<not> ?new r) rows))"
    using rows_ok_filter [OF assms(1)] by (auto simp: rows_ok_def strict_sorted_iff)
  from distinct_card [OF this] have "length (filter (\<lambda>r. \<not> ?new r) rows) = card (hr_rowid ` set (filter (\<lambda>r. \<not> ?new r) rows))"
    by (simp only: length_map list.set_map)
  also have "\<dots> \<le> card {cutoff <.. cutoff + int m}"
    by (rule card_mono) (use assms(2) in auto)
  finally have "length (filter (\<lambda>r. \<not> ?new r) rows) \<le> m" by simp
  then show ?thesis using sum_length_filter_compl [of ?new rows] by simp
qed

lemma writer_phase:
  assumes "tasks_ok m s"
  shows "phase_ok m (writer_move u ok s)"
proof -
  have ok: "rows_ok (hl_rows (ht_log s))" "0 < prune_every (hl_config (ht_log s))" "max_rows (hl_config (ht_log s)) = Some m"
      "flushes_ok s" "phase_ok m s" using assms by (simp_all add: tasks_ok_def)
  have busy: "inserting s + counting s + length (writer_acks (ht_writer s)) \<le> length (ht_callers s)" by (rule busy_callers [OF ok(4)])
  note defs = writer_move_def Let_def phase_ok_def credit_def inserting_def counting_def
  show ?thesis
  proof (cases "ht_writer s")
    case Receiving
    then show ?thesis using ok(5) entries_bound by (auto simp: defs)
  next
    case (Received entries acks)
    then show ?thesis using ok(5) length_coalesce [of entries] by (auto simp: defs)
  next
    case (Writing rows acks)
    then show ?thesis using ok(5) by (auto simp: defs length_batch)
  next
    case (Adding k acks)
    then show ?thesis using ok(5) by (auto simp: defs)
  next
    case (Checking acks)
    then show ?thesis using ok(5) busy by (auto simp: defs writer_acks_def)
  next
    case (Resetting acks)
    then show ?thesis using ok(5) busy by (auto simp: defs writer_acks_def)
  next
    case (PruningByAge acks)
    then show ?thesis using ok(5) by (auto simp: defs split: option.split)
  next
    case (DeletingOld cutoff acks)
    obtain d log' where e: "delete_step (\<lambda>r. hr_timestamp r < cutoff) (ht_log s) = (d, log')" by fastforce
    obtain rows where "log' = (ht_log s)\<lparr>hl_rows := rows\<rparr>" "length rows \<le> length (hl_rows (ht_log s))"
      using delete_step_spec [OF ok(1) e] by blast
    then show ?thesis using ok(5) DeletingOld by (auto simp: defs e)
  next
    case (PruningByRows acks)
    show ?thesis
    proof (cases "max_rowid (hl_rows (ht_log s))")
      case None
      then have "hl_rows (ht_log s) = []" by (simp add: max_rowid_def split: if_splits)
      then show ?thesis using ok(2,3,5) PruningByRows None by (auto simp: defs)
    next
      case (Some mx)
      have "filter (\<lambda>r. mx < hr_rowid r) (hl_rows (ht_log s)) = []"
        using max_rowid_ge [OF Some] by (auto simp: filter_empty_conv not_less)
      then show ?thesis using ok(3,5) PruningByRows Some by (auto simp: defs)
    qed
  next
    case (DeletingFirst cutoff acks)
    obtain d log' where e: "delete_step (\<lambda>r. hr_rowid r \<le> cutoff) (ht_log s) = (d, log')" by fastforce
    obtain rows where r: "log' = (ht_log s)\<lparr>hl_rows := rows\<rparr>" "rows_ok rows" "length rows \<le> length (hl_rows (ht_log s))"
        "\<And>q. length (filter q rows) \<le> length (filter q (hl_rows (ht_log s)))" "d \<Longrightarrow> \<forall>r\<in>set rows. \<not> hr_rowid r \<le> cutoff"
      using delete_step_spec [OF ok(1) e] by blast
    let ?new = "\<lambda>r. hr_rowid r > cutoff + min (int m) (2 ^ 63 - 1)"
    show ?thesis
    proof (cases d)
      case True
      then have "length rows \<le> m + length (filter ?new rows)" using kept_rows [OF r(2)] r(5) by blast
      then show ?thesis using ok(2,5) DeletingFirst r(1) r(4) [of ?new] e True by (auto simp: defs)
    next
      case False
      then show ?thesis using ok(5) DeletingFirst r(1,3) r(4) [of ?new] e by (auto simp: defs)
    qed
  next
    case (Acking acks)
    show ?thesis
    proof (cases acks)
      case (Cons a rest)
      have a: "a < length (ht_callers s)" "is_awaiting (ht_callers s ! a)"
        using ok(4) Acking Cons by (auto simp: flushes_ok_def writer_acks_def Let_def)
      then show ?thesis
        using ok(5) Acking Cons filter_update [OF a(1), of is_inserting "answered (ht_callers s ! a)"]
          filter_update [OF a(1), of "\<lambda>c. c = Counting" "answered (ht_callers s ! a)"]
        by (cases "ht_callers s ! a") (auto simp: defs answered_def split: option.splits)
    qed (use ok(5) Acking in \<open>auto simp: defs\<close>)
  qed
qed

lemma step_ok:
  assumes "history_step s s'" and "tasks_ok m s"
  shows "tasks_ok m s' \<and> hl_config (ht_log s') = hl_config (ht_log s) \<and> length (ht_callers s') = length (ht_callers s)"
  using assms
proof (cases rule: history_step.cases)
  case (writer u ok)
  have "hl_config (ht_log (writer_move u ok s)) = hl_config (ht_log s) \<and> length (ht_callers (writer_move u ok s)) = length (ht_callers s)"
    by (auto simp: writer_move_def Let_def delete_step_def split: Writer.split list.split)
  with assms(2) writer writer_phase [OF assms(2)] writer_flushes writer_rows show ?thesis by (simp add: tasks_ok_def)
next
  case (called i row)
  have "flushes_ok (call i row s)"
  proof (rule flushes_keep)
    show "flushes_ok s" using assms(2) by (simp add: tasks_ok_def)
    show "ht_callers (call i row s) ! a = ht_callers s ! a" if "is_awaiting (ht_callers s ! a)" for a
      using still_awaiting [OF that, of i "Sending row"] by (auto simp: call_def)
  qed (simp_all add: call_def)
  then show ?thesis
    using called assms(2) filter_update [OF called(2), of is_inserting "Sending row"] filter_update [OF called(2), of "\<lambda>c. c = Counting" "Sending row"]
    by (auto simp: tasks_ok_def call_def phase_ok_def credit_def inserting_def counting_def Let_def split: Writer.splits)
next
  case (caller i ok)
  have "hl_config (ht_log (caller_move i ok s)) = hl_config (ht_log s) \<and> length (ht_callers (caller_move i ok s)) = length (ht_callers s)"
      "rows_ok (hl_rows (ht_log s)) \<Longrightarrow> rows_ok (hl_rows (ht_log (caller_move i ok s)))"
    by (auto simp: caller_move_def Let_def try_queue_def rows_ok_insert split: Caller.split option.splits if_splits)
  with assms(2) caller caller_phase caller_flushes show ?thesis by (simp add: tasks_ok_def)
next
  case (detached t actor action detail)
  then show ?thesis
    using assms(2) flushes_keep [of s s']
    by (auto simp: tasks_ok_def record_detached_def try_queue_def Let_def phase_ok_def credit_def inserting_def counting_def
        split: Writer.splits)
qed

lemma steps_ok:
  assumes "history_steps s s'" and "tasks_ok m s"
  shows "tasks_ok m s' \<and> hl_config (ht_log s') = hl_config (ht_log s) \<and> length (ht_callers s') = length (ht_callers s)"
  using assms by (induction rule: history_steps.induct) (use step_ok in fastforce)+

lemma with_config_start:
  assumes "rows_ok rows" and "max_rows config = Some m"
  shows "tasks_ok m (HistoryTasks_new u rows config n)"
  using apply_retention_spec [OF assms(1), of u "config\<lparr>queue_capacity := max (queue_capacity config) 1, prune_every := max (prune_every config) 1\<rparr>"] assms(2)
  by (auto simp: tasks_ok_def HistoryTasks_new_def with_config_def Let_def flushes_ok_def writer_acks_def acks_of_def
      phase_ok_def credit_def inserting_def counting_def)

section \<open>Without interruption\<close>

lemma steps_trans: "history_steps s1 s2 \<Longrightarrow> history_steps s2 s3 \<Longrightarrow> history_steps s1 s3"
  by (rotate_tac, induction rule: history_steps.induct) (auto intro: history_steps.step)

lemma writer_steps: "history_steps (writer_move u ok s) s' \<Longrightarrow> history_steps s s'"
  by (rule steps_trans [OF history_steps.step [OF history_steps.start history_step.writer]])

lemma writer_to: "writer_move u ok s = s1 \<Longrightarrow> history_steps s1 s' \<Longrightarrow> history_steps s s'"
  by (metis writer_steps)

lemma caller_to: "caller_move i ok s = s1 \<Longrightarrow> i < length (ht_callers s) \<Longrightarrow> history_steps s1 s' \<Longrightarrow> history_steps s s'"
  using steps_trans [OF history_steps.step [OF history_steps.start history_step.caller]] by blast

lemma deletes_alone:
  assumes move: "\<And>log. writer_move u True (s\<lparr>ht_log := log\<rparr>) =
      s\<lparr>ht_log := snd (delete_step p log), ht_writer := if fst (delete_step p log) then w else ht_writer s\<rparr>"
  shows "history_steps (s\<lparr>ht_log := log\<rparr>) (s\<lparr>ht_log := log\<lparr>hl_rows := filter (\<lambda>r. \<not> p r) (hl_rows log)\<rparr>, ht_writer := w\<rparr>)"
proof (induction "length (filter p (hl_rows log))" arbitrary: log rule: less_induct)
  case less
  let ?rows = "delete_first PRUNE_CHUNK p (hl_rows log)"
  have sum: "length (filter p xs) + length (filter (\<lambda>r. \<not> p r) xs) = length xs" for xs by (rule sum_length_filter_compl)
  have gone: "length (hl_rows log) - length ?rows = min PRUNE_CHUNK (length (filter p (hl_rows log)))"
    using length_filter_le [of p "hl_rows log"] by (simp add: length_delete_first min.coboundedI2)
  show ?case
  proof (cases "length (filter p (hl_rows log)) < PRUNE_CHUNK")
    case True
    then have rows: "?rows = filter (\<lambda>r. \<not> p r) (hl_rows log)" by (intro delete_first_all) simp
    from True gone have "fst (delete_step p log)" by (simp add: delete_step_def Let_def)
    with rows have "writer_move u True (s\<lparr>ht_log := log\<rparr>) =
        s\<lparr>ht_log := log\<lparr>hl_rows := filter (\<lambda>r. \<not> p r) (hl_rows log)\<rparr>, ht_writer := w\<rparr>"
      unfolding move by (simp add: delete_step_def Let_def)
    then show ?thesis by (metis writer_steps history_steps.start)
  next
    case False
    then have "length (filter p ?rows) < length (filter p (hl_rows log))"
      using sum [of ?rows] sum [of "hl_rows log"] gone by (simp add: filter_delete_first PRUNE_CHUNK_def)
    with less [of "log\<lparr>hl_rows := ?rows\<rparr>"]
    have "history_steps (s\<lparr>ht_log := log\<lparr>hl_rows := ?rows\<rparr>\<rparr>)
        (s\<lparr>ht_log := log\<lparr>hl_rows := filter (\<lambda>r. \<not> p r) (hl_rows log)\<rparr>, ht_writer := w\<rparr>)"
      by (simp add: filter_delete_first)
    moreover from False gone have "\<not> fst (delete_step p log)" by (simp add: delete_step_def Let_def)
    then have "writer_move u True (s\<lparr>ht_log := log\<rparr>) = s\<lparr>ht_log := log\<lparr>hl_rows := ?rows\<rparr>\<rparr>"
      unfolding move by (simp add: delete_step_def Let_def)
    ultimately show ?thesis by (metis writer_steps)
  qed
qed

lemma retain_alone:
  assumes "ht_writer s = PruningByAge acks"
  shows "history_steps s (s\<lparr>ht_log := (ht_log s)\<lparr>hl_rows := snd (apply_retention u (hl_config (ht_log s)) (hl_rows (ht_log s)))\<rparr>,
    ht_writer := Acking acks\<rparr>)"
proof -
  let ?config = "hl_config (ht_log s)" and ?rows = "hl_rows (ht_log s)"
  let ?cutoff = "\<lambda>age. to_db_timestamp (of_nat (unat u - age))"
  let ?old = "case max_age ?config of Some age \<Rightarrow> filter (\<lambda>r. \<not> hr_timestamp r < ?cutoff age) ?rows | None \<Rightarrow> ?rows"
  let ?log1 = "(ht_log s)\<lparr>hl_rows := ?old\<rparr>"
  let ?s1 = "s\<lparr>ht_log := ?log1, ht_writer := PruningByRows acks\<rparr>"
  let ?kept = "case max_rows ?config of None \<Rightarrow> ?old | Some m \<Rightarrow> snd (prune_keep_newest ?old m)"
  have "history_steps s ?s1"
  proof (cases "max_age ?config")
    case None
    then have "writer_move u True s = ?s1" by (simp add: writer_move_def Let_def assms)
    then show ?thesis by (metis writer_steps history_steps.start)
  next
    case (Some age)
    let ?d = "s\<lparr>ht_writer := DeletingOld (?cutoff age) acks\<rparr>"
    have "history_steps (?d\<lparr>ht_log := ht_log s\<rparr>)
        (?d\<lparr>ht_log := (ht_log s)\<lparr>hl_rows := filter (\<lambda>r. \<not> hr_timestamp r < ?cutoff age) ?rows\<rparr>, ht_writer := PruningByRows acks\<rparr>)"
      by (rule deletes_alone [of u]) (simp add: writer_move_def Let_def split: prod.split)
    moreover have "writer_move u True s = ?d\<lparr>ht_log := ht_log s\<rparr>" by (simp add: writer_move_def Let_def assms Some)
    ultimately have "history_steps s (?d\<lparr>ht_log := (ht_log s)\<lparr>hl_rows := filter (\<lambda>r. \<not> hr_timestamp r < ?cutoff age) ?rows\<rparr>, ht_writer := PruningByRows acks\<rparr>)"
      by (metis writer_steps)
    then show ?thesis by (simp add: Some)
  qed
  moreover have "history_steps ?s1 (?s1\<lparr>ht_log := ?log1\<lparr>hl_rows := ?kept\<rparr>, ht_writer := Acking acks\<rparr>)"
  proof (cases "\<exists>keep m. max_rows ?config = Some keep \<and> max_rowid ?old = Some m")
    case True
    then obtain keep m where km: "max_rows ?config = Some keep" "max_rowid ?old = Some m" by blast
    let ?c = "m - min (int keep) (2 ^ 63 - 1)"
    let ?d = "?s1\<lparr>ht_writer := DeletingFirst ?c acks\<rparr>"
    have "history_steps (?d\<lparr>ht_log := ?log1\<rparr>)
        (?d\<lparr>ht_log := ?log1\<lparr>hl_rows := filter (\<lambda>r. \<not> hr_rowid r \<le> ?c) (hl_rows ?log1)\<rparr>, ht_writer := Acking acks\<rparr>)"
      by (rule deletes_alone [of u]) (simp add: writer_move_def Let_def split: prod.split)
    moreover have "writer_move u True ?s1 = ?d\<lparr>ht_log := ?log1\<rparr>" by (simp add: writer_move_def Let_def km)
    ultimately have "history_steps ?s1 (?d\<lparr>ht_log := ?log1\<lparr>hl_rows := filter (\<lambda>r. \<not> hr_rowid r \<le> ?c) (hl_rows ?log1)\<rparr>, ht_writer := Acking acks\<rparr>)"
      by (metis writer_steps)
    then show ?thesis by (simp add: km prune_keep_newest_def chunked_delete_equals_delete)
  next
    case False
    then have "writer_move u True ?s1 = ?s1\<lparr>ht_log := ?log1\<lparr>hl_rows := ?kept\<rparr>, ht_writer := Acking acks\<rparr>"
      by (auto simp: writer_move_def Let_def prune_keep_newest_def split: option.split)
    then show ?thesis by (metis writer_steps history_steps.start)
  qed
  moreover have "snd (apply_retention u ?config ?rows) = ?kept"
    by (simp add: apply_retention_def prune_older_than_def chunked_delete_equals_delete split: option.split prod.split)
  ultimately show ?thesis using steps_trans by fastforce
qed

definition woken :: "nat list \<Rightarrow> Caller list \<Rightarrow> Caller list" where
  "woken acks callers = fold (\<lambda>a cs. cs[a := answered (cs ! a)]) acks callers"

lemma acks_alone: "ht_writer s = Acking acks \<Longrightarrow>
    history_steps s (s\<lparr>ht_log := (ht_log s)\<lparr>hl_acked := hl_acked (ht_log s) @ acks\<rparr>, ht_writer := Receiving,
      ht_callers := woken acks (ht_callers s)\<rparr>)"
proof (induction acks arbitrary: s)
  case Nil
  then have "writer_move 0 True s = s\<lparr>ht_log := (ht_log s)\<lparr>hl_acked := hl_acked (ht_log s) @ []\<rparr>, ht_writer := Receiving,
      ht_callers := woken [] (ht_callers s)\<rparr>" by (simp add: writer_move_def Let_def woken_def)
  then show ?case by (metis writer_steps history_steps.start)
next
  case (Cons a acks)
  let ?s1 = "s\<lparr>ht_log := (ht_log s)\<lparr>hl_acked := hl_acked (ht_log s) @ [a]\<rparr>, ht_writer := Acking acks,
      ht_callers := (ht_callers s)[a := answered (ht_callers s ! a)]\<rparr>"
  from Cons(2) have "writer_move 0 True s = ?s1" by (simp add: writer_move_def Let_def)
  moreover from Cons(1) [of ?s1]
  have "history_steps ?s1 (s\<lparr>ht_log := (ht_log s)\<lparr>hl_acked := hl_acked (ht_log s) @ a # acks\<rparr>, ht_writer := Receiving,
      ht_callers := woken (a # acks) (ht_callers s)\<rparr>)" by (simp add: woken_def)
  ultimately show ?case by (metis writer_steps)
qed

text \<open>A turn up to the look at the counter, and the rest of it.\<close>

lemma batch_alone:
  assumes "ht_writer s = Received entries acks" and "ht_log s = log"
    and "rows = coalesce entries @ (if hl_dropped log > 0 then [dropped_row u (hl_dropped log)] else [])"
  shows "history_steps s (s\<lparr>ht_log := log\<lparr>hl_dropped := 0, hl_rows := record_batch (hl_rows log) rows,
    hl_since_prune := hl_since_prune log + length rows\<rparr>, ht_writer := Checking acks\<rparr>)"
proof (cases "rows = []")
  case True
  then have "writer_move u True s = s\<lparr>ht_log := log\<lparr>hl_dropped := 0, hl_rows := record_batch (hl_rows log) rows,
      hl_since_prune := hl_since_prune log + length rows\<rparr>, ht_writer := Checking acks\<rparr>"
    using assms by (simp add: writer_move_def Let_def record_batch_def)
  then show ?thesis by (metis writer_steps history_steps.start)
next
  case False
  let ?s1 = "s\<lparr>ht_log := log\<lparr>hl_dropped := 0\<rparr>, ht_writer := Writing rows acks\<rparr>"
  let ?s2 = "s\<lparr>ht_log := log\<lparr>hl_dropped := 0, hl_rows := record_batch (hl_rows log) rows\<rparr>, ht_writer := Adding (length rows) acks\<rparr>"
  have "writer_move u True s = ?s1" using assms False by (simp add: writer_move_def Let_def)
  moreover have "writer_move u True ?s1 = ?s2" by (simp add: writer_move_def Let_def)
  moreover have "writer_move u True ?s2 = s\<lparr>ht_log := log\<lparr>hl_dropped := 0, hl_rows := record_batch (hl_rows log) rows,
      hl_since_prune := hl_since_prune log + length rows\<rparr>, ht_writer := Checking acks\<rparr>"
    by (simp add: writer_move_def Let_def)
  ultimately show ?thesis by (metis writer_steps history_steps.start)
qed

lemma checking_alone:
  assumes "ht_writer s = Checking acks" and "ht_log s = log"
  shows "history_steps s (s\<lparr>ht_log := (if prune_every (hl_config log) \<le> hl_since_prune log
      then log\<lparr>hl_since_prune := 0, hl_rows := snd (apply_retention u (hl_config log) (hl_rows log))\<rparr> else log)
      \<lparr>hl_acked := hl_acked log @ acks\<rparr>, ht_writer := Receiving, ht_callers := woken acks (ht_callers s)\<rparr>)"
proof (cases "prune_every (hl_config log) \<le> hl_since_prune log")
  case True
  let ?s2 = "s\<lparr>ht_log := log\<lparr>hl_since_prune := 0\<rparr>, ht_writer := PruningByAge acks\<rparr>"
  let ?log3 = "log\<lparr>hl_since_prune := 0, hl_rows := snd (apply_retention u (hl_config log) (hl_rows log))\<rparr>"
  let ?s3 = "s\<lparr>ht_log := ?log3, ht_writer := Acking acks\<rparr>"
  have 1: "writer_move u True s = s\<lparr>ht_writer := Resetting acks\<rparr>"
    using assms True by (simp add: writer_move_def Let_def)
  have 2: "writer_move u True (s\<lparr>ht_writer := Resetting acks\<rparr>) = ?s2"
    using assms by (simp add: writer_move_def Let_def)
  have 3: "history_steps ?s2 ?s3" using retain_alone [of ?s2 acks u] assms by simp
  have 4: "history_steps ?s3 (s\<lparr>ht_log := ?log3\<lparr>hl_acked := hl_acked log @ acks\<rparr>, ht_writer := Receiving,
      ht_callers := woken acks (ht_callers s)\<rparr>)" using acks_alone [of ?s3 acks] by simp
  show ?thesis using writer_to [OF 1 writer_to [OF 2 steps_trans [OF 3 4]]] True by simp
next
  case False
  let ?s3 = "s\<lparr>ht_writer := Acking acks\<rparr>"
  have 1: "writer_move u True s = ?s3" using assms False by (simp add: writer_move_def Let_def)
  have 2: "history_steps ?s3 (s\<lparr>ht_log := log\<lparr>hl_acked := hl_acked log @ acks\<rparr>, ht_writer := Receiving,
      ht_callers := woken acks (ht_callers s)\<rparr>)" using acks_alone [of ?s3 acks] assms by simp
  show ?thesis using writer_to [OF 1 2] False by simp
qed

lemma turn_alone:
  assumes "ht_writer s = Receiving" and "hl_queue (ht_log s) \<noteq> []"
  shows "history_steps s (s\<lparr>ht_log := writer_step u (ht_log s),
    ht_callers := woken (acks_of (take MAX_BATCH (hl_queue (ht_log s)))) (ht_callers s)\<rparr>)"
proof -
  define log where "log = ht_log s"
  define log1 where "log1 = log\<lparr>hl_queue := drop MAX_BATCH (hl_queue log)\<rparr>"
  define entries where "entries = entries_of (take MAX_BATCH (hl_queue log))"
  define acks where "acks = acks_of (take MAX_BATCH (hl_queue log))"
  define rows where "rows = coalesce entries @ (if hl_dropped log1 > 0 then [dropped_row u (hl_dropped log1)] else [])"
  define log4 where "log4 = log1\<lparr>hl_dropped := 0, hl_rows := record_batch (hl_rows log1) rows,
    hl_since_prune := hl_since_prune log1 + length rows\<rparr>"
  let ?s1 = "s\<lparr>ht_log := log1, ht_writer := Received entries acks\<rparr>"
  let ?s4 = "s\<lparr>ht_log := log4, ht_writer := Checking acks\<rparr>"
  have stays: "s\<lparr>ht_log := l, ht_writer := Receiving, ht_callers := c\<rparr> = s\<lparr>ht_log := l, ht_callers := c\<rparr>" for l c
    using assms(1) by (cases s) simp
  have "writer_move u True s = ?s1"
    using assms by (simp add: writer_move_def Let_def log1_def log_def entries_def acks_def)
  moreover have "history_steps ?s1 ?s4" using batch_alone [OF _ _ rows_def, of ?s1 acks] by (simp add: log4_def)
  moreover have "(if prune_every (hl_config log4) \<le> hl_since_prune log4
      then log4\<lparr>hl_since_prune := 0, hl_rows := snd (apply_retention u (hl_config log4) (hl_rows log4))\<rparr> else log4)
      \<lparr>hl_acked := hl_acked log4 @ acks\<rparr> = writer_step u log"
    using assms(2) by (simp add: writer_step_def Let_def log_def [symmetric] log4_def log1_def rows_def entries_def acks_def)
  then have "history_steps ?s4 (s\<lparr>ht_log := writer_step u log, ht_callers := woken acks (ht_callers s)\<rparr>)"
    using checking_alone [of ?s4 acks log4 u] stays by simp
  ultimately show ?thesis unfolding log_def acks_def by (metis writer_steps steps_trans)
qed

lemma woken_append: "woken (as @ bs) callers = woken bs (woken as callers)"
  by (simp add: woken_def)

lemma drain_alone:
  "ht_writer s = Receiving \<Longrightarrow> history_steps s
     (s\<lparr>ht_log := drain_queue u (ht_log s), ht_callers := woken (acks_of (hl_queue (ht_log s))) (ht_callers s)\<rparr>)"
proof (induction "length (hl_queue (ht_log s))" arbitrary: s rule: less_induct)
  case less
  let ?q = "hl_queue (ht_log s)"
  show ?case
  proof (cases "?q = []")
    case True
    then have "s\<lparr>ht_log := drain_queue u (ht_log s), ht_callers := woken (acks_of ?q) (ht_callers s)\<rparr> = s"
      by (subst drain_queue.simps) (simp add: woken_def acks_of_def)
    then show ?thesis by (metis history_steps.start)
  next
    case False
    let ?s1 = "s\<lparr>ht_log := writer_step u (ht_log s), ht_callers := woken (acks_of (take MAX_BATCH ?q)) (ht_callers s)\<rparr>"
    have "length (hl_queue (ht_log ?s1)) < length ?q" using False by simp
    from less(1) [OF this] less(2) have "history_steps ?s1 (s\<lparr>ht_log := drain_queue u (writer_step u (ht_log s)),
        ht_callers := woken (acks_of (drop MAX_BATCH ?q)) (woken (acks_of (take MAX_BATCH ?q)) (ht_callers s))\<rparr>)" by simp
    moreover have "drain_queue u (ht_log s) = drain_queue u (writer_step u (ht_log s))"
      using False by (subst drain_queue.simps) simp
    moreover have "woken (acks_of (drop MAX_BATCH ?q)) (woken (acks_of (take MAX_BATCH ?q)) cs) = woken (acks_of ?q) cs" for cs
      by (metis woken_append acks_append append_take_drop_id)
    ultimately show ?thesis using steps_trans [OF turn_alone [OF less(2) False]] by simp
  qed
qed

text \<open>A \<open>record\<close> that nothing comes in between of is \<open>record_event\<close>.\<close>

lemma record_alone:
  assumes "ht_writer s = Receiving" and i: "i < length (ht_callers s)" and "ht_callers s ! i = Away"
    and "acks_of (hl_queue (ht_log s)) = []" and "length (hl_queue (ht_log s)) < queue_capacity (hl_config (ht_log s))"
  shows "history_steps s (s\<lparr>ht_log := record_event u i (ht_log s) t actor action detail\<rparr>)"
proof -
  define row where "row = history_row t actor action detail"
  define cs where "cs = ht_callers s"
  define log where "log = ht_log s"
  define log1 where "log1 = log\<lparr>hl_queue := hl_queue log @ [FlushMsg i]\<rparr>"
  define log2 where "log2 = drain_queue u log1"
  define log3 where "log3 = log2\<lparr>hl_rows := insert_row (hl_rows log2) (nr_timestamp row) (nr_actor row) (nr_action row) (nr_detail row)\<rparr>"
  define log4 where "log4 = log3\<lparr>hl_since_prune := hl_since_prune log3 + 1\<rparr>"
  define log5 where "log5 = (if hl_since_prune log4 = prune_every (hl_config log4)
    then (case try_queue PruneMsg log4 of Some log \<Rightarrow> log | None \<Rightarrow> log4) else log4)"
  let ?s = "\<lambda>log c. s\<lparr>ht_log := log, ht_callers := cs[i := c]\<rparr>"
  have 1: "history_steps s (?s log (Sending (Some row)))"
    using history_steps.step [OF history_steps.start history_step.called [OF i, of "Some row"]]
    unfolding call_def log_def cs_def if_P [OF assms(3)] by simp
  have "caller_move i True (?s log (Sending (Some row))) = ?s log1 (Awaiting (Some row))"
    using assms(5) i by (simp add: caller_move_def Let_def try_queue_def log1_def log_def cs_def)
  then have 2: "history_steps (?s log (Sending (Some row))) (?s log1 (Awaiting (Some row)))"
    by (rule caller_to) (use i history_steps.start in \<open>simp_all add: cs_def\<close>)
  have "woken (acks_of (hl_queue log1)) (cs[i := Awaiting (Some row)]) = cs[i := Inserting row]"
    using assms(4) i by (simp add: log1_def log_def woken_def answered_def cs_def)
  then have 3: "history_steps (?s log1 (Awaiting (Some row))) (?s log2 (Inserting row))"
    using drain_alone [of "?s log1 (Awaiting (Some row))" u] assms(1) by (simp add: log2_def)
  have "caller_move i True (?s log2 (Inserting row)) = ?s log3 Counting"
    and "caller_move i True (?s log3 Counting) = ?s log4 (Waking (hl_since_prune log4))"
    using i by (simp_all add: caller_move_def Let_def log3_def log4_def cs_def)
  note inserted = this
  have "caller_move i True (?s log4 (Waking (hl_since_prune log4))) = ?s log5 Away"
    using i by (simp add: caller_move_def Let_def log5_def cs_def)
  from caller_to [OF inserted(1) _ caller_to [OF inserted(2) _ caller_to [OF this _ history_steps.start]]]
  have 4: "history_steps (?s log2 (Inserting row)) (?s log5 Away)" using i by (simp add: cs_def)
  have "(ht_callers s)[i := Away] = ht_callers s" using assms(3) i by (simp add: list_update_same_conv)
  then have "?s log5 Away = s\<lparr>ht_log := log5\<rparr>" by (cases s) (simp add: cs_def)
  moreover have "log5 = record_event u i log t actor action detail"
    by (simp add: record_event_def flush_def Let_def log5_def log4_def log3_def log2_def log1_def row_def history_row_def
        split del: if_split cong: if_cong option.case_cong)
  ultimately show ?thesis using steps_trans [OF 1 steps_trans [OF 2 steps_trans [OF 3 4]]] by (simp add: log_def)
qed

section \<open>Properties\<close>

text \<open>Property C12. However the writer and the callers interleave, the audit log stays bounded: from any
  table, with \<open>n\<close> concurrent callers of \<open>record\<close> and \<open>flush\<close>, any number of detached events, and batches
  and inserts that may fail, the table never holds more than \<open>max_rows + prune_every\<close> rows plus one batch and
  one row for each caller, not even between the statements of a turn.\<close>

theorem history_bounded:
  assumes "rows_ok rows" and "history_steps (HistoryTasks_new u rows config n) s" and "max_rows config = Some m"
  shows "length (hl_rows (ht_log s)) \<le> m + max (prune_every config) 1 + MAX_BATCH + n"
proof -
  have "hl_config (ht_log s) = hl_config (ht_log (HistoryTasks_new u rows config n))" "tasks_ok m s"
    "length (ht_callers s) = length (ht_callers (HistoryTasks_new u rows config n))"
    using steps_ok [OF assms(2) with_config_start [OF assms(1,3)]] by simp_all
  then show ?thesis
    using phase_bound [of m s] by (simp add: tasks_ok_def HistoryTasks_new_def with_config_def Let_def)
qed

theorem history_bounded_witness:
  "length (hl_rows (ht_log (caller_move 0 True (call 0 (Some (history_row 0 None ''login'' ''ok''))
     (HistoryTasks_new 0 [] HistoryConfig_default 2))))) \<le> 101258"
proof -
  let ?s = "HistoryTasks_new 0 [] HistoryConfig_default 2"
  have "history_steps ?s (caller_move 0 True (call 0 (Some (history_row 0 None ''login'' ''ok'')) ?s))"
    by (intro history_steps.step [OF _ history_step.caller] history_steps.step [OF _ history_step.called] history_steps.start)
      (simp_all add: call_def HistoryTasks_new_def)
  from history_bounded [OF _ this, of 100000] show ?thesis
    by (simp add: rows_ok_def HistoryConfig_default_def MAX_BATCH_def)
qed

end
