(* ===== verification/Bans.thy ===== *)
theory Bans
  imports Policy_Safety Presence History Msg_Admin "HOL-Library.Product_Lexorder"
begin

text \<open>
  Bans: the ranked ban table (\<open>kdx-storage/src/bans.rs\<close>), the rule for lifting a ban
  (\<open>auth/policy.rs\<close>), and the three requests on it as the dispatch loop handles them
  (\<open>connection.rs\<close>): \<open>AdminDisconnect\<close>, \<open>BanRemove\<close> and \<open>BanListRequest\<close>.

  One request is one step, and it reads the clock once. The reply is the frame the
  connection sends back. \<open>BEGIN IMMEDIATE\<close> makes the check and the delete of
  \<open>remove_if\<close> one step in the source too.
\<close>

section \<open>The table\<close>

record ban_row =
  b_account_id :: string
  b_until :: int
  b_reason :: string
  b_banned_by :: string
  b_banned_by_class :: int

text \<open>The upsert of \<open>set_ranked\<close>: each column of the row that is there already, in terms of the row
  that was to be inserted.\<close>

definition replaces :: "ban_row \<Rightarrow> ban_row \<Rightarrow> bool" where
  "replaces old new \<longleftrightarrow> b_banned_by_class new > b_banned_by_class old \<or>
     b_banned_by new = b_banned_by old \<and> b_banned_by_class new \<ge> b_banned_by_class old"

definition merge_ban :: "ban_row \<Rightarrow> ban_row \<Rightarrow> ban_row" where
  "merge_ban old new = old\<lparr>
     b_until := (if replaces old new then b_until new else max (b_until old) (b_until new)),
     b_reason := (if replaces old new \<or> b_until new > b_until old then b_reason new else b_reason old),
     b_banned_by := (if b_banned_by_class new > b_banned_by_class old then b_banned_by new else b_banned_by old),
     b_banned_by_class := max (b_banned_by_class old) (b_banned_by_class new)\<rparr>"

definition sweep :: "ban_row list \<Rightarrow> int \<Rightarrow> ban_row list" where
  "sweep bans now = filter (\<lambda>b. \<not> b_until b \<le> now) bans"

definition set_ranked ::
  "ban_row list \<Rightarrow> string \<Rightarrow> int \<Rightarrow> string \<Rightarrow> string \<Rightarrow> int \<Rightarrow> int \<Rightarrow> int \<times> ban_row list" where
  "set_ranked bans account_id until reason banned_by banned_by_class now =
     (let live = sweep bans now;
          new = \<lparr>b_account_id = account_id, b_until = until, b_reason = reason, b_banned_by = banned_by,
            b_banned_by_class = banned_by_class\<rparr> in
      case find (\<lambda>b. b_account_id b = account_id) live of
        None \<Rightarrow> (until, live @ [new])
      | Some old \<Rightarrow>
          (b_until (merge_ban old new),
           map (\<lambda>b. if b_account_id b = account_id then merge_ban b new else b) live))"

definition active :: "ban_row list \<Rightarrow> string \<Rightarrow> int \<Rightarrow> ban_row option" where
  "active bans account_id now = find (\<lambda>b. b_account_id b = account_id \<and> b_until b > now) bans"

datatype Removal = Removed ban_row | NotBanned | Refused ban_row

definition remove_if :: "ban_row list \<Rightarrow> string \<Rightarrow> int \<Rightarrow> (ban_row \<Rightarrow> bool) \<Rightarrow> Removal \<times> ban_row list" where
  "remove_if bans account_id now allow =
     (let live = sweep bans now in
      case find (\<lambda>b. b_account_id b = account_id) live of
        None \<Rightarrow> (NotBanned, live)
      | Some ban \<Rightarrow>
          if \<not> allow ban then (Refused ban, live)
          else (Removed ban, filter (\<lambda>b. b_account_id b \<noteq> account_id) live))"

text \<open>\<open>list_active\<close>: the join with the accounts, longest-lasting first, and the number in force.\<close>

definition list_active :: "ctx \<Rightarrow> ban_row list \<Rightarrow> int \<Rightarrow> nat \<Rightarrow> (string \<times> ban_row) list \<times> nat" where
  "list_active s bans now limit =
     (let rows = concat (map (\<lambda>b. map (\<lambda>a. (a_username a, b)) (filter (\<lambda>a. a_id a = b_account_id b) (accounts s)))
            (filter (\<lambda>b. b_until b > now) bans)) in
      (take limit (sort_key (\<lambda>(u, b). (- b_until b, u)) rows), length (filter (\<lambda>b. b_until b > now) bans)))"

section \<open>What the client is told\<close>

text \<open>\<open>privilege_name\<close>: the first named flag of the set, in the order of their declaration.\<close>

definition privilege_names :: "(string \<times> Privileges) list" where
  "privilege_names = [(''CHAT_SEND'', CHAT_SEND), (''CHAT_PRIVATE'', CHAT_PRIVATE), (''CHAT_CREATE_ROOM'', CHAT_CREATE_ROOM),
     (''CHAT_SET_TOPIC'', CHAT_SET_TOPIC), (''FILE_LIST'', FILE_LIST), (''FILE_DOWNLOAD'', FILE_DOWNLOAD),
     (''FILE_UPLOAD'', FILE_UPLOAD), (''FILE_DELETE'', FILE_DELETE), (''FILE_MANAGE_TREE'', FILE_MANAGE_TREE),
     (''USER_KICK'', USER_KICK), (''USER_BAN'', USER_BAN), (''USER_ADMIN'', USER_ADMIN), (''SERVER_ADMIN'', SERVER_ADMIN)]"

definition privilege_name :: "Privileges \<Rightarrow> string" where
  "privilege_name p = (case find (\<lambda>(name, bits). has p bits) privilege_names of Some (name, _) \<Rightarrow> name | None \<Rightarrow> ''required'')"

primrec denied_text :: "Denied \<Rightarrow> string" where
  "denied_text (Missing p) = ''missing '' @ privilege_name p @ '' privilege''"
| "denied_text ActorGone = ''your account no longer exists''"
| "denied_text InvalidClass = ''invalid class (must be 0-3)''"
| "denied_text ClassTooHigh = ''you can only assign classes below your own''"
| "denied_text ExceedsOwnPrivileges = ''you cannot grant privileges you do not hold yourself''"
| "denied_text TargetOutranks = ''that account is at or above your rank, or has privileges you lack''"
| "denied_text HolderOutranks = ''that role is held by an account at or above your rank, or with privileges you lack''"
| "denied_text SelfEscalation = ''you cannot raise your own class or privileges''"
| "denied_text LastAdmin = ''refusing: this would leave the server without an administrator''"
| "denied_text BanOutranks = ''that ban was set by someone at or above your rank''"
| "denied_text UnbanOutranks = ''cannot unban a higher-class user''"
| "denied_text OwnPassword = ''use Change Password to change your own password''"

primrec client_message :: "Refusal \<Rightarrow> string" where
  "client_message (PolicyDenied d) = denied_text d"
| "client_message (DeniedText t) = t"

definition send_error :: "string \<Rightarrow> Outbound" where
  "send_error message = \<lparr>ob_packet_type = PacketType.Error, ob_flags = SYSTEM_MESSAGE, ob_payload = as_bytes message\<rparr>"

definition send_refusal :: "Refusal \<Rightarrow> Outbound" where
  "send_refusal refusal = send_error (client_message refusal)"

definition show_int :: "int \<Rightarrow> string" where
  "show_int i = (if i < 0 then ''-'' @ show_nat (nat (- i)) else show_nat (nat i))"

section \<open>The requests\<close>

record server =
  sv_ctx :: ctx
  sv_bans :: "ban_row list"
  sv_roster :: Roster
  sv_links :: links
  sv_log :: HistoryLog

definition MAX_REASON_LEN :: nat where "MAX_REASON_LEN = 512"
definition BAN_LIST_LIMIT :: nat where "BAN_LIST_LIMIT = 500"

text \<open>\<open>roles.set_ban\<close>; \<open>now.saturating_add\<close> at the bound of \<open>i64\<close>.\<close>

definition set_ban :: "ban_row list \<Rightarrow> string \<Rightarrow> int \<Rightarrow> string \<Rightarrow> string \<Rightarrow> BaseClass \<Rightarrow> int \<Rightarrow> int \<times> ban_row list" where
  "set_ban bans account_id until reason banned_by cls now =
     set_ranked bans account_id until reason banned_by (int (class_u8 cls)) now"

definition saturating_add_i64 :: "int \<Rightarrow> int \<Rightarrow> int" where
  "saturating_add_i64 a b = max (- (2 ^ 63)) (min (2 ^ 63 - 1) (a + b))"

definition opt_max :: "nat option \<Rightarrow> nat option \<Rightarrow> nat option" where
  "opt_max a b = (case (a, b) of (None, y) \<Rightarrow> y | (x, None) \<Rightarrow> x | (Some x, Some y) \<Rightarrow> Some (max x y))"

definition live_class :: "nat \<Rightarrow> u64 \<Rightarrow> server \<Rightarrow> string \<Rightarrow> nat option" where
  "live_class now unix_now s username =
     (case presence_handle now unix_now (PC_Get username) (sv_roster s) (sv_links s) of
        (Found (Some e), _) \<Rightarrow> Some (unat (PresenceEntry_class e)) | _ \<Rightarrow> None)"

text \<open>The end of the handler: drop the sessions, log the action and answer.\<close>

definition finish_disconnect ::
  "nat \<Rightarrow> u64 \<Rightarrow> nat \<Rightarrow> server \<Rightarrow> string \<Rightarrow> AdminDisconnect \<Rightarrow> bool \<Rightarrow> Outbound \<times> server" where
  "finish_disconnect now unix_now ack s admin_name req longer_ban_kept =
     (let banned = AdminDisconnect_ban_secs req > 0;
          username = AdminDisconnect_username req;
          reason = (if AdminDisconnect_reason req = [] then ''disconnected by an administrator'' else AdminDisconnect_reason req);
          dash = str_of_bytes [0xE2, 0x80, 0x94];
          (reply, roster, links) = presence_handle now unix_now (PC_Disconnect username reason) (sv_roster s) (sv_links s);
          reached = (case reply of Reached n \<Rightarrow> n | _ \<Rightarrow> 0);
          s1 = s\<lparr>sv_roster := roster, sv_links := links\<rparr> in
      if reached = 0 \<and> \<not> banned then (send_error (username @ '' is not online''), s1)
      else
        let text = (if banned
              then ''banned '' @ username @ (if longer_ban_kept then '' (a longer existing ban stays in force)'' else []) @
                '' '' @ dash @ '' '' @ show_nat reached @ '' session(s) dropped''
              else ''disconnected '' @ username @ '' '' @ dash @ '' '' @ show_nat reached @ '' session(s)'');
            action = (if banned then ''banned'' else ''kicked'');
            detail = (if banned
              then ''target='' @ username @ '', ban_secs='' @ show_nat (unat (AdminDisconnect_ban_secs req)) @ '', reason='' @ reason
              else ''target='' @ username @ '', reason='' @ reason) in
        (\<lparr>ob_packet_type = PacketType.Info, ob_flags = SYSTEM_MESSAGE, ob_payload = as_bytes text\<rparr>,
         s1\<lparr>sv_log := record_event unix_now ack (sv_log s1) unix_now (Some admin_name) action detail\<rparr>))"

definition admin_disconnect ::
  "nat \<Rightarrow> u64 \<Rightarrow> nat \<Rightarrow> server \<Rightarrow> Session \<Rightarrow> AdminDisconnect \<Rightarrow> Outbound \<times> server" where
  "admin_disconnect now unix_now ack s session req =
     (case resolve_actor (sv_ctx s) session USER_KICK of
        Err refusal \<Rightarrow> (send_refusal refusal, s)
      | Panic \<Rightarrow> (send_error [], s)
      | Ok actor \<Rightarrow>
          let admin_name = ac_username actor; admin_class = au_class (ac_authority actor) in
          if AdminDisconnect_ban_secs req > 0 \<and> \<not> has (au_privileges (ac_authority actor)) USER_BAN
          then (send_error ''missing USER_BAN privilege'', s)
          else if AdminDisconnect_username req = admin_name then (send_error ''cannot disconnect yourself'', s)
          else case check_len ''reason'' (AdminDisconnect_reason req) MAX_REASON_LEN of
            Err refusal \<Rightarrow> (send_refusal refusal, s)
          | Panic \<Rightarrow> (send_error [], s)
          | Ok _ \<Rightarrow>
              let stored = account_state (sv_ctx s) (AdminDisconnect_username req);
                  target_class = opt_max (live_class now unix_now s (AdminDisconnect_username req))
                    (map_option (\<lambda>a. class_u8 (as_class a)) stored) in
              if (case target_class of Some tc \<Rightarrow> tc > class_u8 admin_class | None \<Rightarrow> False)
              then (send_error ''cannot disconnect a higher-class user'', s)
              else if AdminDisconnect_ban_secs req > 0
              then (case stored of
                  None \<Rightarrow> (send_error ''no such account'', s)
                | Some target \<Rightarrow>
                    let now_secs = sint unix_now;
                        until = saturating_add_i64 now_secs (uint (AdminDisconnect_ban_secs req));
                        (in_force, bans) = set_ban (sv_bans s) (as_account_id target) until (AdminDisconnect_reason req)
                          admin_name admin_class now_secs in
                    finish_disconnect now unix_now ack (s\<lparr>sv_bans := bans\<rparr>) admin_name req (in_force > until))
              else finish_disconnect now unix_now ack s admin_name req False)"

text \<open>\<open>roles.remove_ban\<close> and \<open>policy::remove_ban\<close>\<close>

definition remove_ban :: "u64 \<Rightarrow> server \<Rightarrow> Session \<Rightarrow> string \<Rightarrow> (ban_row, Refusal) result \<times> server" where
  "remove_ban unix_now s session username =
     (if username = [] then (Err (DeniedText ''username is required''), s)
      else case bind_result (check_len ''username'' username MAX_USERNAME_LEN) (\<lambda>_.
          bind_result (resolve_actor (sv_ctx s) session USER_BAN) (\<lambda>actor.
          bind_result (existing_account (sv_ctx s) username) (\<lambda>target.
          if as_class target > au_class (ac_authority actor) then Err (PolicyDenied UnbanOutranks)
          else Ok (actor, target)))) of
        Err refusal \<Rightarrow> (Err refusal, s)
      | Panic \<Rightarrow> (Panic, s)
      | Ok (actor, target) \<Rightarrow>
          let (removal, bans) = remove_if (sv_bans s) (as_account_id target) (sint unix_now)
                (\<lambda>ban. may_lift_ban actor (b_banned_by ban) (class_from_stored (b_banned_by_class ban))) in
          ((case removal of
              Removed ban \<Rightarrow> Ok ban
            | NotBanned \<Rightarrow> Err (DeniedText (as_username target @ '' is not banned''))
            | Refused _ \<Rightarrow> Err (PolicyDenied BanOutranks)),
           s\<lparr>sv_bans := bans\<rparr>))"

definition reply_ban_list :: "u64 \<Rightarrow> server \<Rightarrow> Outbound" where
  "reply_ban_list unix_now s =
     (let (rows, total) = list_active (sv_ctx s) (sv_bans s) (sint unix_now) BAN_LIST_LIMIT in
      \<lparr>ob_packet_type = PacketType.BanListResponse, ob_flags = 0, ob_payload = BanListResponse_encode
        \<lparr>BanListResponse_total = (if total < 2 ^ 32 then of_nat total else -1),
         BanListResponse_bans = map (\<lambda>(username, b).
           \<lparr>BanEntry_username = username, BanEntry_until = of_int (max 0 (b_until b)),
            BanEntry_reason = truncate_utf8 (b_reason b) MAX_REASON_LEN, BanEntry_banned_by = b_banned_by b,
            BanEntry_banned_by_class = of_nat (class_u8 (class_from_stored (b_banned_by_class b)))\<rparr>) rows\<rparr>\<rparr>)"

definition ban_remove_request :: "u64 \<Rightarrow> nat \<Rightarrow> server \<Rightarrow> Session \<Rightarrow> string \<Rightarrow> Outbound \<times> server" where
  "ban_remove_request unix_now ack s session username =
     (case remove_ban unix_now s session username of
        (Ok ban, s1) \<Rightarrow>
          let s2 = s1\<lparr>sv_log := record_event unix_now ack (sv_log s1) unix_now (Some (s_username session)) ''ban_removed''
                (''target='' @ username @ '', banned_by='' @ b_banned_by ban @ '', until='' @ show_int (b_until ban) @
                 '', reason='' @ b_reason ban)\<rparr> in
          (reply_ban_list unix_now s2, s2)
      | (Err refusal, s1) \<Rightarrow> (send_refusal refusal, s1)
      | (Panic, s1) \<Rightarrow> (send_error [], s1))"

definition ban_list_request :: "u64 \<Rightarrow> server \<Rightarrow> Session \<Rightarrow> Outbound" where
  "ban_list_request unix_now s session =
     (case resolve_actor (sv_ctx s) session USER_BAN of
        Ok _ \<Rightarrow> reply_ban_list unix_now s
      | Err refusal \<Rightarrow> send_refusal refusal
      | Panic \<Rightarrow> send_error [])"

lemma reply_types [simp]:
  "ob_packet_type (send_error m) = PacketType.Error" "ob_packet_type (send_refusal r) = PacketType.Error"
  by (simp_all add: send_error_def send_refusal_def)

section \<open>A ban in force\<close>

text \<open>
  \<open>stands bans a c b t\<close>: the account \<open>a\<close> has one row, set by \<open>b\<close> at class \<open>c\<close>, in force until \<open>t\<close> at
  least.
\<close>

definition stands :: "ban_row list \<Rightarrow> string \<Rightarrow> BaseClass \<Rightarrow> string \<Rightarrow> int \<Rightarrow> bool" where
  "stands bans a c b t \<longleftrightarrow> distinct (map b_account_id bans) \<and>
     (\<exists>row\<in>set bans. b_account_id row = a \<and> t \<le> b_until row \<and> b_banned_by_class row = int (class_u8 c) \<and> b_banned_by row = b)"

lemma class_from_stored_class: "class_from_stored (int (class_u8 c)) = c"
  by (cases c) (simp_all add: class_from_stored_def BaseClass_try_from_def)

lemma class_u8_less: "class_u8 c < class_u8 d \<longleftrightarrow> c < d" "class_u8 c \<le> class_u8 d \<longleftrightarrow> c \<le> d"
  by (simp_all add: less_BaseClass_def less_eq_BaseClass_def)

lemma class_u8_inj: "class_u8 c = class_u8 d \<longleftrightarrow> c = d"
  by (cases c; cases d) simp_all

lemma stands_sweep: "stands bans a c b t \<Longrightarrow> now < t \<Longrightarrow> stands (sweep bans now) a c b t"
  by (auto simp: stands_def sweep_def distinct_map_filter)

lemma find_account:
  assumes "distinct (map b_account_id bans)" and "row \<in> set bans" and "b_account_id row = a"
  shows "find (\<lambda>b. b_account_id b = a) bans = Some row"
  using find_unique [OF assms(1,2)] assms(3) by simp

lemma stands_active: "stands bans a c b t \<Longrightarrow> now < t \<Longrightarrow> active bans a now \<noteq> None"
  by (auto simp: stands_def active_def find_None_iff intro!: bexI)

lemma merge_ban_id [simp]: "b_account_id (merge_ban old new) = b_account_id old"
  by (simp add: merge_ban_def)

text \<open>A banner who neither outranks the row nor is its author at the same class can only extend it.\<close>

lemma merge_ban_weaker:
  assumes "\<not> replaces old new"
  shows "b_until old \<le> b_until (merge_ban old new)" "b_banned_by (merge_ban old new) = b_banned_by old"
    "b_banned_by_class (merge_ban old new) = b_banned_by_class old"
  using assms by (auto simp: merge_ban_def replaces_def)

lemma map_merge_ids: "map b_account_id (map (\<lambda>r. if b_account_id r = a then merge_ban r new else r) rows) = map b_account_id rows"
  by (induction rows) auto

lemma stands_set_ranked:
  assumes "stands bans a c b t" and "now < t"
    and "\<And>row. b_account_id row = a \<Longrightarrow> b_banned_by_class row = int (class_u8 c) \<Longrightarrow> b_banned_by row = b \<Longrightarrow>
      \<not> replaces row \<lparr>b_account_id = account_id, b_until = until, b_reason = reason, b_banned_by = by, b_banned_by_class = k\<rparr>"
  shows "stands (snd (set_ranked bans account_id until reason by k now)) a c b t"
proof -
  let ?live = "sweep bans now"
  let ?new = "\<lparr>b_account_id = account_id, b_until = until, b_reason = reason, b_banned_by = by, b_banned_by_class = k\<rparr>"
  from stands_sweep [OF assms(1,2)] obtain row where d: "distinct (map b_account_id ?live)" and row: "row \<in> set ?live"
      "b_account_id row = a" "t \<le> b_until row" "b_banned_by_class row = int (class_u8 c)" "b_banned_by row = b"
    unfolding stands_def by blast
  show ?thesis
  proof (cases "find (\<lambda>b. b_account_id b = account_id) ?live")
    case None
    then have "account_id \<notin> b_account_id ` set ?live" by (auto simp: find_None_iff)
    with None d row show ?thesis by (auto simp: set_ranked_def Let_def stands_def)
  next
    case (Some old)
    let ?row = "if b_account_id row = account_id then merge_ban row ?new else row"
    have "\<not> replaces row ?new" using assms(3) row(2,4,5) .
    from merge_ban_weaker [OF this] row
    have "b_account_id ?row = a" "t \<le> b_until ?row" "b_banned_by_class ?row = int (class_u8 c)" "b_banned_by ?row = b" by auto
    moreover have "?row \<in> set (map (\<lambda>b. if b_account_id b = account_id then merge_ban b ?new else b) ?live)"
      using row(1) by (auto simp: image_iff)
    moreover have "distinct (map b_account_id (map (\<lambda>b. if b_account_id b = account_id then merge_ban b ?new else b) ?live))"
      using d by (simp only: map_merge_ids)
    ultimately have "stands (map (\<lambda>b. if b_account_id b = account_id then merge_ban b ?new else b) ?live) a c b t"
      unfolding stands_def by blast
    with Some show ?thesis by (simp add: set_ranked_def Let_def)
  qed
qed

lemma stands_remove_if:
  assumes "stands bans a c b t" and "now < t"
    and "\<And>row. b_banned_by_class row = int (class_u8 c) \<Longrightarrow> b_banned_by row = b \<Longrightarrow> \<not> allow row"
  shows "stands (snd (remove_if bans account_id now allow)) a c b t"
proof -
  let ?live = "sweep bans now"
  from stands_sweep [OF assms(1,2)] obtain row where d: "distinct (map b_account_id ?live)" and row: "row \<in> set ?live"
      "b_account_id row = a" "t \<le> b_until row" "b_banned_by_class row = int (class_u8 c)" "b_banned_by row = b"
    unfolding stands_def by blast
  show ?thesis
  proof (cases "account_id = a")
    case True
    then have "find (\<lambda>b. b_account_id b = account_id) ?live = Some row" using find_account [OF d row(1,2)] by simp
    with assms(3) [OF row(4,5)] stands_sweep [OF assms(1,2)] show ?thesis by (simp add: remove_if_def Let_def)
  next
    case False
    have "stands (filter (\<lambda>b. b_account_id b \<noteq> account_id) ?live) a c b t"
      using d row False by (auto simp: stands_def distinct_map_filter)
    with stands_sweep [OF assms(1,2)] show ?thesis
      by (auto simp: remove_if_def Let_def split: option.splits)
  qed
qed

text \<open>A session below a ban: of a lower class than its author's, or of the same class (Admins apart) and
  not its author.\<close>

definition below_ban :: "Session \<Rightarrow> BaseClass \<Rightarrow> string \<Rightarrow> bool" where
  "below_ban session c b \<longleftrightarrow> s_class session < c \<or> s_class session = c \<and> c \<noteq> Admin \<and> s_username session \<noteq> b"

lemma actor_class:
  assumes "resolve_actor s session p = Ok actor"
  shows "au_class (ac_authority actor) \<le> s_class session" "ac_username actor = s_username session"
  using assms by (auto elim!: resolve_actor_Ok simp: narrowed_def)

lemma finish_disconnect_fields [simp]:
  "sv_bans (snd (finish_disconnect i u ack s n req k)) = sv_bans s"
  "sv_ctx (snd (finish_disconnect i u ack s n req k)) = sv_ctx s"
  by (simp_all add: finish_disconnect_def Let_def case_prod_unfold)

lemma finish_disconnect_kills:
  assumes "finish_disconnect i u ack s n req k = (reply, s')"
    and "(j, e) \<in> set (r_entries (sv_roster s))" and "e_username e = AdminDisconnect_username req"
    and "sg_receiver (l_kills (sv_links s) (e_kill e))"
  shows "sg_value (l_kills (sv_links s') (e_kill e)) \<noteq> None"
proof -
  let ?reason = "if AdminDisconnect_reason req = [] then ''disconnected by an administrator'' else AdminDisconnect_reason req"
  obtain rep r l where p: "presence_handle i u (PC_Disconnect (AdminDisconnect_username req) ?reason) (sv_roster s) (sv_links s) = (rep, r, l)"
    by (metis prod.exhaust)
  have "sv_links s' = l"
    using assms(1) unfolding finish_disconnect_def Let_def p by (auto split: if_splits)
  moreover have "\<exists>(i, f)\<in>set (r_entries (sv_roster s)). e_username f = AdminDisconnect_username req \<and> e_kill f = e_kill e"
    using assms(2,3) by blast
  ultimately show ?thesis
    using kick_signals [OF p, of "AdminDisconnect_username req" ?reason "\<lambda>i e. e_username e = AdminDisconnect_username req"] assms(4)
    by simp
qed

lemma record_event_rows: "hl_rows (record_event u ack log t actor action detail) =
    insert_row (hl_rows (flush u ack log)) (to_db_timestamp t) (map_option (\<lambda>a. truncate_utf8 a MAX_HISTORY_ACTOR_LEN) actor)
      action (truncate_utf8 detail MAX_HISTORY_DETAIL_LEN)"
  by (simp add: record_event_def Let_def try_queue_def split: option.split)

lemma finish_disconnect_logs:
  assumes "finish_disconnect i u ack s n req k = (reply, s')" and "AdminDisconnect_ban_secs req > 0"
  shows "hl_rows (sv_log s') = insert_row (hl_rows (flush u ack (sv_log s))) (to_db_timestamp u)
      (Some (truncate_utf8 n MAX_HISTORY_ACTOR_LEN)) ''banned''
      (truncate_utf8 (''target='' @ AdminDisconnect_username req @
         '', ban_secs='' @ show_nat (unat (AdminDisconnect_ban_secs req)) @
         '', reason='' @ (if AdminDisconnect_reason req = [] then ''disconnected by an administrator'' else AdminDisconnect_reason req))
        MAX_HISTORY_DETAIL_LEN)"
proof -
  let ?reason = "if AdminDisconnect_reason req = [] then ''disconnected by an administrator'' else AdminDisconnect_reason req"
  obtain rep r l where p: "presence_handle i u (PC_Disconnect (AdminDisconnect_username req) ?reason) (sv_roster s) (sv_links s) = (rep, r, l)"
    by (metis prod.exhaust)
  have "sv_log s' = record_event u ack (sv_log s) u (Some n) ''banned'' (''target='' @ AdminDisconnect_username req @
         '', ban_secs='' @ show_nat (unat (AdminDisconnect_ban_secs req)) @ '', reason='' @ ?reason)"
    using assms unfolding finish_disconnect_def Let_def p by auto
  then show ?thesis by (simp add: record_event_rows)
qed

lemma set_ranked_row:
  assumes "distinct (map b_account_id bans)"
  shows "\<exists>row\<in>set (snd (set_ranked bans a until reason b k now)). b_account_id row = a \<and> until \<le> b_until row"
proof -
  let ?live = "sweep bans now"
  let ?new = "\<lparr>b_account_id = a, b_until = until, b_reason = reason, b_banned_by = b, b_banned_by_class = k\<rparr>"
  show ?thesis
  proof (cases "find (\<lambda>b. b_account_id b = a) ?live")
    case (Some old)
    then have old: "old \<in> set ?live" "b_account_id old = a" by (auto dest: find_SomeD)
    then have "merge_ban old ?new \<in> set (snd (set_ranked bans a until reason b k now))"
      using Some by (force simp: set_ranked_def Let_def)
    moreover have "until \<le> b_until (merge_ban old ?new)" by (simp add: merge_ban_def)
    ultimately show ?thesis using old(2) by (intro bexI [of _ "merge_ban old ?new"]) simp_all
  qed (simp add: set_ranked_def Let_def)
qed

lemma Admin_top [simp]: "Admin \<le> c \<longleftrightarrow> c = Admin" "\<not> Admin < c"
  by (cases c; simp add: less_eq_BaseClass_def less_BaseClass_def)+

lemma below_not_replaces:
  assumes "resolve_actor s session p = Ok actor" and "below_ban session c b"
    and "b_banned_by_class row = int (class_u8 c)" and "b_banned_by row = b"
    and "b_banned_by new = ac_username actor" and "b_banned_by_class new = int (class_u8 (au_class (ac_authority actor)))"
  shows "\<not> replaces row new"
  using actor_class [OF assms(1)] assms(2-6)
  by (auto simp: replaces_def below_ban_def class_u8_less)

lemma stands_admin_disconnect:
  assumes "stands (sv_bans s) a c b t" and "sint u < t" and "below_ban session c b"
  shows "stands (sv_bans (snd (admin_disconnect i u ack s session req))) a c b t"
proof (cases "resolve_actor (sv_ctx s) session USER_KICK")
  case (Ok actor)
  have "stands (snd (set_ban (sv_bans s) acct until reason (ac_username actor) (au_class (ac_authority actor)) (sint u))) a c b t"
    for acct until reason
    unfolding set_ban_def
    by (rule stands_set_ranked [OF assms(1,2)], rule below_not_replaces [OF Ok assms(3)]) simp_all
  with Ok assms(1) show ?thesis
    by (auto simp: admin_disconnect_def Let_def case_prod_unfold split: result.splits option.splits)
qed (use assms(1) in \<open>auto simp: admin_disconnect_def\<close>)

lemma below_not_lift:
  assumes "resolve_actor s session p = Ok actor" and "below_ban session c b"
  shows "\<not> may_lift_ban actor b c"
  using actor_class [OF assms(1)] assms(2)
  by (auto simp: may_lift_ban_def below_ban_def Let_def)

lemma stands_remove_ban:
  assumes "stands (sv_bans s) a c b t" and "sint u < t" and "below_ban session c b"
  shows "stands (sv_bans (snd (remove_ban u s session username))) a c b t"
proof -
  let ?r = "bind_result (check_len ''username'' username MAX_USERNAME_LEN) (\<lambda>_.
          bind_result (resolve_actor (sv_ctx s) session USER_BAN) (\<lambda>actor.
          bind_result (existing_account (sv_ctx s) username) (\<lambda>target.
          if as_class target > au_class (ac_authority actor) then Err (PolicyDenied UnbanOutranks)
          else Ok (actor, target))))"
  show ?thesis
  proof (cases ?r)
    case (Ok p)
    obtain actor target where p: "p = (actor, target)" by (cases p)
    with Ok have actor: "resolve_actor (sv_ctx s) session USER_BAN = Ok actor" by (auto split: if_splits)
    have "stands (snd (remove_if (sv_bans s) acct (sint u)
        (\<lambda>ban. may_lift_ban actor (b_banned_by ban) (class_from_stored (b_banned_by_class ban))))) a c b t" for acct
      by (rule stands_remove_if [OF assms(1,2)]) (simp add: class_from_stored_class below_not_lift [OF actor assms(3)])
    with Ok p assms(1) show ?thesis by (auto simp: remove_ban_def Let_def case_prod_unfold)
  qed (use assms(1) in \<open>auto simp: remove_ban_def\<close>)
qed

section \<open>Runs\<close>

text \<open>
  Everything sessions below a ban can do, while the clock has not reached its end:
  kicks and bans, lifting bans, account and role requests, and the sweep of lapsed rows.
\<close>

inductive ban_run :: "BaseClass \<Rightarrow> string \<Rightarrow> int \<Rightarrow> server \<Rightarrow> server \<Rightarrow> bool"
  for c :: BaseClass and b :: string and t :: int where
  start: "ban_run c b t s s"
| kick: "ban_run c b t s s1 \<Longrightarrow> below_ban session c b \<Longrightarrow> sint u < t \<Longrightarrow>
    admin_disconnect i u ack s1 session req = (reply, s2) \<Longrightarrow> ban_run c b t s s2"
| lift: "ban_run c b t s s1 \<Longrightarrow> below_ban session c b \<Longrightarrow> sint u < t \<Longrightarrow>
    ban_remove_request u ack s1 session username = (reply, s2) \<Longrightarrow> ban_run c b t s s2"
| admin: "ban_run c b t s s1 \<Longrightarrow> admin_step (sv_ctx s1) session r = Ok ctx' \<Longrightarrow> ban_run c b t s (s1\<lparr>sv_ctx := ctx'\<rparr>)"
| swept: "ban_run c b t s s1 \<Longrightarrow> now < t \<Longrightarrow> ban_run c b t s (s1\<lparr>sv_bans := sweep (sv_bans s1) now\<rparr>)"

lemma remove_request_bans:
  "sv_bans (snd (ban_remove_request u ack s session username)) = sv_bans (snd (remove_ban u s session username))"
  by (simp add: ban_remove_request_def Let_def split: prod.splits result.splits)

lemma ban_run_stands: "ban_run c b t s s' \<Longrightarrow> stands (sv_bans s) a c b t \<Longrightarrow> stands (sv_bans s') a c b t"
proof (induction rule: ban_run.induct)
  case (kick s s1 session u i ack req reply s2)
  then show ?case using stands_admin_disconnect [of s1 a c b t u session i ack req] by simp
next
  case (lift s s1 session u ack username reply s2)
  then show ?case using stands_remove_ban [of s1 a c b t u session username] remove_request_bans [of u ack s1 session username] by simp
qed (simp_all add: stands_sweep)

section \<open>Properties\<close>

text \<open>Property C13. A lower rank never undoes a higher rank's ban: while the ban set by \<open>b\<close> at class \<open>c\<close> has
  time to run, nothing that sessions of a lower class, or of the same non-Admin class under
  another name, do (kicks, bans of any length, unban requests, account and role changes) shortens
  or lifts it, and the login path keeps seeing an active ban.\<close>

theorem ban_sticks:
  assumes "ban_run c b t s s'" and "stands (sv_bans s) a c b t" and "now < t"
  shows "stands (sv_bans s') a c b t \<and> active (sv_bans s') a now \<noteq> None"
  using ban_run_stands [OF assms(1,2)] stands_active [OF _ assms(3)] by blast

definition banned_server :: server where
  "banned_server = \<lparr>sv_ctx = sample_ctx,
     sv_bans = [\<lparr>b_account_id = ''3'', b_until = 1000, b_reason = ''spam'', b_banned_by = ''root'', b_banned_by_class = 3\<rparr>],
     sv_roster = \<lparr>r_entries = [], r_closing = None\<rparr>, sv_links = two_links,
     sv_log = with_config 0 [] HistoryConfig_default\<rparr>"

theorem ban_sticks_witness:
  "stands (sv_bans (snd (ban_remove_request 10 0 banned_server deputy ''member''))) ''3'' Admin ''root'' 1000 \<and>
   active (sv_bans (snd (ban_remove_request 10 0 banned_server deputy ''member''))) ''3'' 999 \<noteq> None"
proof (rule ban_sticks)
  have "below_ban deputy Admin ''root''" "sint (10 :: u64) < 1000"
    by (simp_all add: below_ban_def deputy_def less_BaseClass_def)
  from ban_run.lift [OF ban_run.start this prod.collapse [symmetric]]
  show "ban_run Admin ''root'' 1000 banned_server (snd (ban_remove_request 10 0 banned_server deputy ''member''))" .
  show "stands (sv_bans banned_server) ''3'' Admin ''root'' 1000" by (simp add: stands_def banned_server_def)
qed simp

text \<open>Lifting follows the rule of placing: an actor may lift a ban exactly when it is an Admin or
  when a ban of its own would replace the row outright instead of being merged into it.\<close>

theorem lifting_mirrors_placing:
  "may_lift_ban actor (b_banned_by row) c \<longleftrightarrow>
     au_class (ac_authority actor) = Admin \<or>
     replaces (row\<lparr>b_banned_by_class := int (class_u8 c)\<rparr>)
       (row\<lparr>b_until := t, b_reason := r, b_banned_by := ac_username actor,
            b_banned_by_class := int (class_u8 (au_class (ac_authority actor)))\<rparr>)"
  by (auto simp: may_lift_ban_def replaces_def class_u8_less Let_def)

text \<open>Property C14. An accepted ban works: when \<open>AdminDisconnect\<close> with a ban duration is answered with \<open>Info\<close>,
  the target's account has a ban in force at least as long as requested, the target does not outrank the
  actor, every live session of that user has its kill signal set, and the newest row of the audit log is the
  ban, with its actor, target, length and reason (\<open>record\<close> is uninterrupted here and its insert succeeds).\<close>

theorem ban_takes_effect:
  assumes "admin_disconnect i u ack s session req = (reply, s')"
    and "ob_packet_type reply = PacketType.Info" and "AdminDisconnect_ban_secs req > 0"
    and "distinct (map b_account_id (sv_bans s))"
    and "until = saturating_add_i64 (sint u) (uint (AdminDisconnect_ban_secs req))"
  shows "\<exists>actor target row. resolve_actor (sv_ctx s) session USER_KICK = Ok actor \<and>
    has (au_privileges (ac_authority actor)) USER_BAN \<and>
    account_state (sv_ctx s) (AdminDisconnect_username req) = Some target \<and>
    as_class target \<le> au_class (ac_authority actor) \<and>
    row \<in> set (sv_bans s') \<and> b_account_id row = as_account_id target \<and> until \<le> b_until row \<and>
    (\<forall>(j, e)\<in>set (r_entries (sv_roster s)). e_username e = AdminDisconnect_username req \<longrightarrow>
      sg_receiver (l_kills (sv_links s) (e_kill e)) \<longrightarrow> sg_value (l_kills (sv_links s') (e_kill e)) \<noteq> None) \<and>
    hl_rows (sv_log s') = insert_row (hl_rows (flush u ack (sv_log s))) (to_db_timestamp u)
      (Some (truncate_utf8 (ac_username actor) MAX_HISTORY_ACTOR_LEN)) ''banned''
      (truncate_utf8 (''target='' @ AdminDisconnect_username req @
         '', ban_secs='' @ show_nat (unat (AdminDisconnect_ban_secs req)) @
         '', reason='' @ (if AdminDisconnect_reason req = [] then ''disconnected by an administrator'' else AdminDisconnect_reason req))
        MAX_HISTORY_DETAIL_LEN)"
proof -
  let ?u = "AdminDisconnect_username req"
  obtain actor where actor: "resolve_actor (sv_ctx s) session USER_KICK = Ok actor"
    using assms(1,2) by (cases "resolve_actor (sv_ctx s) session USER_KICK") (auto simp: admin_disconnect_def)
  let ?c = "au_class (ac_authority actor)"
  obtain target :: AccountState where target: "account_state (sv_ctx s) ?u = Some target"
    using assms(1-3) actor
    by (cases "account_state (sv_ctx s) ?u") (auto simp: admin_disconnect_def Let_def split: if_splits result.splits)
  let ?ban = "set_ban (sv_bans s) (as_account_id target) until (AdminDisconnect_reason req) (ac_username actor) ?c (sint u)"
  have run: "has (au_privileges (ac_authority actor)) USER_BAN"
      "\<not> (case opt_max (live_class i u s ?u) (Some (class_u8 (as_class target))) of Some tc \<Rightarrow> tc > class_u8 ?c | None \<Rightarrow> False)"
      "finish_disconnect i u ack (s\<lparr>sv_bans := snd ?ban\<rparr>) (ac_username actor) req (fst ?ban > until) = (reply, s')"
    using assms(1-3) actor target assms(5)
    by (auto simp: admin_disconnect_def Let_def case_prod_unfold split: if_splits result.splits)
  have "as_class target \<le> ?c"
    using run(2) class_u8_less(2) [of "as_class target" ?c] by (auto simp: opt_max_def split: option.splits)
  moreover obtain row where "row \<in> set (snd ?ban)" "b_account_id row = as_account_id target" "until \<le> b_until row"
    using set_ranked_row [OF assms(4)] unfolding set_ban_def by blast
  moreover have "sv_bans s' = snd ?ban" using arg_cong [OF run(3), of "\<lambda>p. sv_bans (snd p)"] by simp
  ultimately show ?thesis using actor target run(1) finish_disconnect_kills [OF run(3)]
      finish_disconnect_logs [OF run(3) assms(3)] by auto
qed

definition ban_member :: AdminDisconnect where
  "ban_member = \<lparr>AdminDisconnect_username = ''member'', AdminDisconnect_reason = ''spam'', AdminDisconnect_ban_secs = 60\<rparr>"

definition root_session :: Session where
  "root_session = \<lparr>s_username = ''root'', s_class = Admin, s_privileges = Privileges_all\<rparr>"

text \<open>The member is connected: one session, with a live receiver for its kill signal.\<close>

definition member_entry :: Entry where
  "member_entry = \<lparr>e_username = ''member'', e_class = 1, e_login_at = 0, e_last_active = 0, e_address = ''192.0.2.7'', e_name = [],
     e_description = [], e_sees_addresses = False, e_tx = 7, e_kill = 7\<rparr>"

definition member_online :: server where
  "member_online = banned_server\<lparr>sv_roster := \<lparr>r_entries = [([7], member_entry)], r_closing = None\<rparr>\<rparr>"

lemma ban_member_info:
  "ob_packet_type (fst (admin_disconnect 0 10 0 member_online root_session ban_member)) = PacketType.Info"
proof -
  obtain actor where actor: "resolve_actor sample_ctx root_session USER_KICK = Ok actor"
    and a: "has (au_privileges (ac_authority actor)) USER_BAN" "au_class (ac_authority actor) = Admin" "ac_username actor = ''root''"
  proof -
    have "(case resolve_actor sample_ctx root_session USER_KICK of Ok actor \<Rightarrow>
        has (au_privileges (ac_authority actor)) USER_BAN \<and> au_class (ac_authority actor) = Admin \<and> ac_username actor = ''root'' | _ \<Rightarrow> False)"
      by code_simp
    with that show thesis by (auto split: result.splits)
  qed
  have "case account_state sample_ctx ''member'' of Some t \<Rightarrow> as_class t = User | None \<Rightarrow> False" by code_simp
  then obtain target where "account_state sample_ctx ''member'' = Some target" "as_class target = User" by (auto split: option.splits)
  with actor a show ?thesis
    by (simp add: admin_disconnect_def member_online_def member_entry_def to_wire_def banned_server_def ban_member_def Let_def check_len_def MAX_REASON_LEN_def
        live_class_def presence_handle_def opt_max_def finish_disconnect_def kill_where_def case_prod_unfold)
qed

theorem ban_takes_effect_witness:
  "let s' = snd (admin_disconnect 0 10 0 member_online root_session ban_member) in
   (\<exists>row\<in>set (sv_bans s'). 70 \<le> b_until row) \<and> sg_value (l_kills (sv_links s') 7) \<noteq> None \<and>
   hr_action (last (hl_rows (sv_log s'))) = ''banned''"
proof -
  let ?s' = "snd (admin_disconnect 0 10 0 member_online root_session ban_member)"
  have "AdminDisconnect_ban_secs ban_member > 0" "distinct (map b_account_id (sv_bans member_online))"
      "(70 :: int) = saturating_add_i64 (sint (10 :: u64)) (uint (AdminDisconnect_ban_secs ban_member))"
    by (simp_all add: ban_member_def member_online_def banned_server_def saturating_add_i64_def)
  note effect = ban_takes_effect [OF prod.collapse [symmetric] ban_member_info this]
  have "([7], member_entry) \<in> set (r_entries (sv_roster member_online))" "e_username member_entry = AdminDisconnect_username ban_member"
      "e_kill member_entry = 7" "sg_receiver (l_kills (sv_links member_online) 7)"
    by (simp_all add: member_online_def member_entry_def ban_member_def banned_server_def two_links_def)
  with effect have "sg_value (l_kills (sv_links ?s') 7) \<noteq> None" by fastforce
  moreover from effect have "hr_action (last (hl_rows (sv_log ?s'))) = ''banned''" by (fastforce simp: insert_row_def clip_def MAX_ACTION_BYTES_def)
  moreover from effect have "\<exists>row\<in>set (sv_bans ?s'). 70 \<le> b_until row" by blast
  ultimately show ?thesis by (simp add: Let_def)
qed

end
