(* ===== verification/News_Table.thy ===== *)
theory News_Table
  imports Bans
begin

text \<open>
  The tables of the news (\<open>kdx-storage/src/news.rs\<close> and its migration): newsgroups and their posts, each
  with the post it replies to. One definition per statement, as a function of the tables. The foreign
  keys cascade: what refers to a deleted row is deleted, and so on.
\<close>

section \<open>The tables\<close>

record NewsgroupRow =
  ng_id :: string
  ng_name :: string
  ng_description :: string
  ng_min_read_class :: int
  ng_min_post_class :: int

record PostRow =
  po_id :: string
  po_newsgroup_id :: string
  po_parent_id :: "string option"
  po_author :: string
  po_subject :: string
  po_body :: string
  po_created_at :: int

record News =
  newsgroups :: "NewsgroupRow list"
  news_posts :: "PostRow list"

text \<open>\<open>ON DELETE CASCADE\<close> of \<open>parent_id\<close>: the replies to the posts \<open>gone\<close> go, then the replies to those.\<close>

definition replies_to :: "string list \<Rightarrow> PostRow \<Rightarrow> bool" where
  "replies_to gone p \<longleftrightarrow> (case po_parent_id p of Some q \<Rightarrow> q \<in> set gone | None \<Rightarrow> False)"

function cascade :: "string list \<Rightarrow> PostRow list \<Rightarrow> PostRow list" where
  "cascade gone posts =
     (let below = filter (replies_to gone) posts in
      if below = [] then posts else cascade (map po_id below) (filter (Not \<circ> replies_to gone) posts))"
  by auto
termination
proof (relation "measure (length \<circ> snd)")
  fix gone below :: "string list" and posts x
  assume "x = filter (replies_to gone) posts" "x \<noteq> []"
  then obtain p where "p \<in> set posts" "replies_to gone p" by (metis filter_False)
  then show "((map po_id x, filter (Not \<circ> replies_to gone) posts), gone, posts) \<in> measure (length \<circ> snd)"
    by (simp add: length_filter_less)
qed simp

declare cascade.simps [simp del]

definition delete_where :: "(PostRow \<Rightarrow> bool) \<Rightarrow> PostRow list \<Rightarrow> PostRow list" where
  "delete_where P posts = cascade (map po_id (filter P posts)) (filter (Not \<circ> P) posts)"

section \<open>Newsgroups\<close>

definition db_create_group ::
  "string \<Rightarrow> string \<Rightarrow> string \<Rightarrow> int \<Rightarrow> int \<Rightarrow> News \<Rightarrow> (NewsgroupRow, storage_error) result \<times> News" where
  "db_create_group fresh name description min_read_class min_post_class db =
     (if \<exists>g\<in>set (newsgroups db). ng_id g = fresh \<or> ng_name g = name then (Err AlreadyExists, db)
      else
        let g = \<lparr>ng_id = fresh, ng_name = name, ng_description = description,
              ng_min_read_class = min_read_class, ng_min_post_class = min_post_class\<rparr> in
        (Ok g, db\<lparr>newsgroups := newsgroups db @ [g]\<rparr>))"

definition db_all_groups :: "News \<Rightarrow> (NewsgroupRow list, storage_error) result \<times> News" where
  "db_all_groups db = (Ok (sort_key ng_name (newsgroups db)), db)"

definition db_group_by_id :: "string \<Rightarrow> News \<Rightarrow> (NewsgroupRow option, storage_error) result \<times> News" where
  "db_group_by_id i db = (Ok (find (\<lambda>g. ng_id g = i) (newsgroups db)), db)"

definition db_update_group ::
  "string \<Rightarrow> string \<Rightarrow> string \<Rightarrow> int \<Rightarrow> int \<Rightarrow> int \<Rightarrow> News \<Rightarrow> (bool, storage_error) result \<times> News" where
  "db_update_group i name description min_read_class min_post_class reader_class db =
     (let hit = (\<lambda>g. ng_id g = i \<and> ng_min_read_class g \<le> reader_class) in
      if \<not> (\<exists>g\<in>set (newsgroups db). hit g) then (Ok False, db)
      else if \<exists>g\<in>set (newsgroups db). \<not> hit g \<and> ng_name g = name then (Err AlreadyExists, db)
      else (Ok True, db\<lparr>newsgroups := map (\<lambda>g. if hit g then g\<lparr>ng_name := name, ng_description := description,
        ng_min_read_class := min_read_class, ng_min_post_class := min_post_class\<rparr> else g) (newsgroups db)\<rparr>))"

text \<open>One transaction that holds the write lock. The answer is the name and the number of posts.\<close>

definition db_delete_group :: "string \<Rightarrow> int \<Rightarrow> News \<Rightarrow> ((string \<times> nat) option, storage_error) result \<times> News" where
  "db_delete_group i reader_class db =
     (case find (\<lambda>g. ng_id g = i \<and> ng_min_read_class g \<le> reader_class) (newsgroups db) of
        None \<Rightarrow> (Ok None, db)
      | Some g \<Rightarrow>
          (Ok (Some (ng_name g, length (filter (\<lambda>p. po_newsgroup_id p = i) (news_posts db)))),
           db\<lparr>newsgroups := filter (\<lambda>g. ng_id g \<noteq> i) (newsgroups db),
              news_posts := delete_where (\<lambda>p. po_newsgroup_id p = i) (news_posts db)\<rparr>))"

section \<open>Posts\<close>

text \<open>The condition of the \<open>INSERT\<close> comes before the constraints of the schema.\<close>

definition db_create_post ::
  "string \<Rightarrow> string \<Rightarrow> string option \<Rightarrow> string \<Rightarrow> string \<Rightarrow> string \<Rightarrow> int \<Rightarrow> News \<Rightarrow> (PostRow, storage_error) result \<times> News" where
  "db_create_post fresh newsgroup parent author subject body created_at db =
     (if case parent of None \<Rightarrow> False
         | Some q \<Rightarrow> \<not> (\<exists>p\<in>set (news_posts db). po_id p = q \<and> po_newsgroup_id p = newsgroup)
      then (Err NotFound, db)
      else if \<exists>p\<in>set (news_posts db). po_id p = fresh then (Err AlreadyExists, db)
      else if \<not> (\<exists>g\<in>set (newsgroups db). ng_id g = newsgroup) then (Err ForeignKey, db)
      else
        let p = \<lparr>po_id = fresh, po_newsgroup_id = newsgroup, po_parent_id = parent, po_author = author,
              po_subject = subject, po_body = body, po_created_at = created_at\<rparr> in
        (Ok p, db\<lparr>news_posts := news_posts db @ [p]\<rparr>))"

definition db_recent_posts :: "string \<Rightarrow> nat \<Rightarrow> News \<Rightarrow> (PostRow list, storage_error) result \<times> News" where
  "db_recent_posts newsgroup limit db =
     (Ok (take limit (rev (sort_key (\<lambda>p. (po_created_at p, po_id p))
        (filter (\<lambda>p. po_newsgroup_id p = newsgroup) (news_posts db))))), db)"

definition db_post_by_id :: "string \<Rightarrow> News \<Rightarrow> (PostRow option, storage_error) result \<times> News" where
  "db_post_by_id i db = (Ok (find (\<lambda>p. po_id p = i) (news_posts db)), db)"

definition db_delete_post :: "string \<Rightarrow> News \<Rightarrow> (unit, storage_error) result \<times> News" where
  "db_delete_post i db =
     (if \<not> (\<exists>p\<in>set (news_posts db). po_id p = i) then (Err NotFound, db)
      else (Ok (), db\<lparr>news_posts := delete_where (\<lambda>p. po_id p = i) (news_posts db)\<rparr>))"

text \<open>The recursive query of \<open>delete_own_post\<close>: a queue of rows, each of which adds its replies. With
  \<open>UNION ALL\<close> a row may come up again, so on a cycle of replies the query does not end: then None.\<close>

definition kids :: "PostRow list \<Rightarrow> string \<Rightarrow> string list" where
  "kids posts i = map po_id (filter (\<lambda>p. po_parent_id p = Some i) posts)"

partial_function (option) subtree :: "PostRow list \<Rightarrow> string list \<Rightarrow> string list option" where
  "subtree posts queue =
     (case queue of [] \<Rightarrow> Some []
      | i # rest \<Rightarrow> Option.bind (subtree posts (rest @ kids posts i)) (\<lambda>ids. Some (i # ids)))"

definition db_delete_own_post :: "string \<Rightarrow> string \<Rightarrow> News \<Rightarrow> ((bool, storage_error) result \<times> News) option" where
  "db_delete_own_post i author db =
     (case subtree (news_posts db) (kids (news_posts db) i) of
        None \<Rightarrow> None
      | Some ids \<Rightarrow>
          let hit = (\<lambda>p. po_id p = i \<and> po_author p = author \<and>
                \<not> (\<exists>q\<in>set (news_posts db). po_id q \<in> set ids \<and> po_author q \<noteq> author)) in
          Some (Ok (\<exists>p\<in>set (news_posts db). hit p), db\<lparr>news_posts := delete_where hit (news_posts db)\<rparr>))"

section \<open>The invariant\<close>

text \<open>Posts stand in the order they were made: a reply comes after the post it replies to.\<close>

inductive threaded :: "string set \<Rightarrow> PostRow list \<Rightarrow> bool" for groups where
  no_posts: "threaded groups []"
| post: "threaded groups posts \<Longrightarrow> po_id p \<notin> po_id ` set posts \<Longrightarrow> po_newsgroup_id p \<in> groups \<Longrightarrow>
    (\<And>q. po_parent_id p = Some q \<Longrightarrow> \<exists>r\<in>set posts. po_id r = q \<and> po_newsgroup_id r = po_newsgroup_id p) \<Longrightarrow>
    threaded groups (posts @ [p])"

definition news_ok :: "News \<Rightarrow> bool" where
  "news_ok db \<longleftrightarrow> distinct (map ng_id (newsgroups db)) \<and> distinct (map ng_name (newsgroups db)) \<and>
     (\<forall>g\<in>set (newsgroups db). 0 \<le> ng_min_read_class g \<and> ng_min_read_class g \<le> 3 \<and>
        0 \<le> ng_min_post_class g \<and> ng_min_post_class g \<le> 3) \<and>
     threaded (ng_id ` set (newsgroups db)) (news_posts db)"

inductive_simps threaded_snoc: "threaded groups (posts @ [p])"

lemma threaded_ids: "threaded groups posts \<Longrightarrow> distinct (map po_id posts)"
  by (induction rule: threaded.induct) auto

lemma threaded_groups: "threaded groups posts \<Longrightarrow> p \<in> set posts \<Longrightarrow> po_newsgroup_id p \<in> groups"
  by (induction rule: threaded.induct) auto

lemma threaded_parent:
  "threaded groups posts \<Longrightarrow> p \<in> set posts \<Longrightarrow> po_parent_id p = Some q \<Longrightarrow>
   \<exists>r\<in>set posts. po_id r = q \<and> po_newsgroup_id r = po_newsgroup_id p"
  by (induction rule: threaded.induct) auto

text \<open>A set of posts that has no reply outside can be taken away.\<close>

lemma threaded_filter:
  assumes "threaded groups posts"
    and "\<And>p r. p \<in> set posts \<Longrightarrow> r \<in> set posts \<Longrightarrow> po_parent_id p = Some (po_id r) \<Longrightarrow> \<not> K r \<Longrightarrow> \<not> K p"
    and "\<And>p. p \<in> set posts \<Longrightarrow> K p \<Longrightarrow> po_newsgroup_id p \<in> groups'"
  shows "threaded groups' (filter K posts)"
  using assms
proof (induction rule: threaded.induct)
  case (post posts p)
  have 1: "threaded groups' (filter K posts)" using post.IH post.prems by (simp add: Ball_def) metis
  show ?case
  proof (cases "K p")
    case True
    have "\<exists>r\<in>set (filter K posts). po_id r = q \<and> po_newsgroup_id r = po_newsgroup_id p" if q: "po_parent_id p = Some q" for q
    proof -
      obtain r where r: "r \<in> set posts" "po_id r = q" "po_newsgroup_id r = po_newsgroup_id p" using post.hyps q by blast
      then have "K r" using post.prems(1) [of p r] q True by auto
      with r show ?thesis by auto
    qed
    with 1 True post show ?thesis by (auto intro!: threaded.post)
  qed (use 1 in simp)
qed (simp add: threaded.no_posts)

end
