(* ===== verification/News.thy ===== *)
theory News
  imports News_Table Msg_News "HOL-Library.List_Lexorder" "HOL-Library.Char_ord"
begin

text \<open>
  The news of the server (\<open>kdx-server-core/src/news.rs\<close>) and the requests on it as a connection handles
  them (\<open>connection.rs\<close>). A request makes several statements and other connections work in between:
  \<open>others\<close> is what they do to the tables before each of its statements. The audit entry of a request is
  awaited before its reply. Whether a post is within the rate limit is an argument, as the bucket's clock
  is floating point.
\<close>

section \<open>The manager\<close>

datatype NewsError =
    CorruptId | NoSuchGroup | NoSuchPost | NoSuchParent | NewsInvalidClass | NotReadable | NewsStorage storage_error

definition MAX_CLASS_THRESHOLD :: u8 where "MAX_CLASS_THRESHOLD = 3"
definition THREAD_REPLY_MAX_POSTS :: nat where "THREAD_REPLY_MAX_POSTS = 200"
definition THREAD_REPLY_MAX_BYTES :: nat where "THREAD_REPLY_MAX_BYTES = 1024 * 1024"
definition MAX_LONG_DESCRIPTION_LEN :: nat where "MAX_LONG_DESCRIPTION_LEN = 1024"
definition MAX_NEWS_SUBJECT_LEN :: nat where "MAX_NEWS_SUBJECT_LEN = 256"
definition MAX_NEWS_BODY_LEN :: nat where "MAX_NEWS_BODY_LEN = 32 * 1024"

text \<open>\<open>Uuid\<close>: sixteen bytes and their text.\<close>

record uuid_codec =
  uu_show :: "bytes \<Rightarrow> string"
  uu_parse :: "string \<Rightarrow> bytes option"

record Newsgroup =
  gr_id :: bytes
  gr_name :: string
  gr_description :: string
  gr_min_read_class :: u8
  gr_min_post_class :: u8

record Post =
  pt_id :: bytes
  pt_newsgroup_id :: bytes
  pt_parent_id :: "bytes option"
  pt_author :: string
  pt_subject :: string
  pt_body :: string
  pt_timestamp :: u64

definition group_from_row :: "uuid_codec \<Rightarrow> NewsgroupRow \<Rightarrow> (Newsgroup, NewsError) result" where
  "group_from_row uc r =
     (case uu_parse uc (ng_id r) of
        None \<Rightarrow> Err CorruptId
      | Some i \<Rightarrow> Ok \<lparr>gr_id = i, gr_name = ng_name r, gr_description = ng_description r,
          gr_min_read_class = word_of_int (ng_min_read_class r), gr_min_post_class = word_of_int (ng_min_post_class r)\<rparr>)"

definition parse_parent :: "uuid_codec \<Rightarrow> string option \<Rightarrow> (bytes option, NewsError) result" where
  "parse_parent uc parent =
     (case parent of None \<Rightarrow> Ok None
      | Some q \<Rightarrow> (case uu_parse uc q of None \<Rightarrow> Err CorruptId | Some i \<Rightarrow> Ok (Some i)))"

definition post_from_row :: "uuid_codec \<Rightarrow> PostRow \<Rightarrow> (Post, NewsError) result" where
  "post_from_row uc r =
     bind_result (parse_parent uc (po_parent_id r)) (\<lambda>parent.
     case uu_parse uc (po_id r) of None \<Rightarrow> Err CorruptId | Some i \<Rightarrow>
     case uu_parse uc (po_newsgroup_id r) of None \<Rightarrow> Err CorruptId | Some g \<Rightarrow>
     Ok \<lparr>pt_id = i, pt_newsgroup_id = g, pt_parent_id = parent, pt_author = po_author r, pt_subject = po_subject r,
         pt_body = po_body r, pt_timestamp = word_of_int (po_created_at r)\<rparr>)"

text \<open>\<open>collect\<close> into a \<open>Result\<close>: the first error, or all.\<close>

fun collect_ok :: "('a \<Rightarrow> ('b, 'e) result) \<Rightarrow> 'a list \<Rightarrow> ('b list, 'e) result" where
  "collect_ok f [] = Ok []"
| "collect_ok f (x # xs) = bind_result (f x) (\<lambda>y. bind_result (collect_ok f xs) (\<lambda>ys. Ok (y # ys)))"

subsection \<open>Thread listings\<close>

definition post_cost :: "Post \<Rightarrow> nat" where
  "post_cost p = 64 + length (pt_author p) + length (pt_subject p) + length (pt_body p)"

fun fill_window :: "nat \<Rightarrow> Post list \<Rightarrow> Post list" where
  "fill_window budget [] = []"
| "fill_window budget (p # posts) = (if post_cost p > budget then [] else p # fill_window (budget - post_cost p) posts)"

definition rootless :: "bytes list \<Rightarrow> Post \<Rightarrow> Post" where
  "rootless ids p = (case pt_parent_id p of Some q \<Rightarrow> if q \<in> set ids then p else p\<lparr>pt_parent_id := None\<rparr> | None \<Rightarrow> p)"

definition reply_window :: "Post list \<Rightarrow> Post list" where
  "reply_window newest_first =
     (let window = rev (fill_window THREAD_REPLY_MAX_BYTES newest_first) in map (rootless (map pt_id window)) window)"

definition news_post_to_wire :: "Post \<Rightarrow> NewsPost" where
  "news_post_to_wire p =
     \<lparr>NewsPost_id = pt_id p, NewsPost_newsgroup_id = pt_newsgroup_id p,
      NewsPost_parent_id = (case pt_parent_id p of Some q \<Rightarrow> q | None \<Rightarrow> replicate 16 0),
      NewsPost_author = pt_author p, NewsPost_subject = pt_subject p, NewsPost_body = pt_body p,
      NewsPost_timestamp = pt_timestamp p\<rparr>"

subsection \<open>Statements between which others work\<close>

record news_server =
  nw_ctx :: ctx
  nw_db :: News
  nw_log :: HistoryLog

text \<open>What a request meets: the work of others before its \<open>k\<close>-th statement, whether that statement fails,
  the second, the identity it draws, the rate limit's answer and how far the audit writer has got.\<close>

record Weather =
  others :: "nat \<Rightarrow> News \<Rightarrow> News"
  fails :: "nat \<Rightarrow> bool"
  unix_now :: u64
  fresh_id :: bytes
  may_post :: bool
  log_ack :: nat

definition exec ::
  "Weather \<Rightarrow> nat \<Rightarrow> (News \<Rightarrow> ('a, storage_error) result \<times> News) \<Rightarrow> news_server \<Rightarrow> ('a, NewsError) result \<times> news_server" where
  "exec w k f s =
     (let db = others w k (nw_db s) in
      if fails w k then (Err (NewsStorage Sqlx), s\<lparr>nw_db := db\<rparr>)
      else case f db of
        (Ok x, db) \<Rightarrow> (Ok x, s\<lparr>nw_db := db\<rparr>)
      | (Err e, db) \<Rightarrow> (Err (NewsStorage e), s\<lparr>nw_db := db\<rparr>)
      | (Panic, db) \<Rightarrow> (Panic, s\<lparr>nw_db := db\<rparr>))"

definition then_do ::
  "('a, 'e) result \<times> news_server \<Rightarrow> ('a \<Rightarrow> news_server \<Rightarrow> ('b, 'e) result \<times> news_server) \<Rightarrow> ('b, 'e) result \<times> news_server" where
  "then_do m f = (case m of (Ok x, s) \<Rightarrow> f x s | (Err e, s) \<Rightarrow> (Err e, s) | (Panic, s) \<Rightarrow> (Panic, s))"

definition news_create_group ::
  "uuid_codec \<Rightarrow> Weather \<Rightarrow> nat \<Rightarrow> string \<Rightarrow> string \<Rightarrow> u8 \<Rightarrow> u8 \<Rightarrow> news_server \<Rightarrow> (Newsgroup, NewsError) result \<times> news_server" where
  "news_create_group uc w k name description min_read_class min_post_class s =
     (if min_read_class > MAX_CLASS_THRESHOLD \<or> min_post_class > MAX_CLASS_THRESHOLD then (Err NewsInvalidClass, s)
      else then_do (exec w k (db_create_group (uu_show uc (fresh_id w)) name description (uint min_read_class) (uint min_post_class)) s)
        (\<lambda>row s. (group_from_row uc row, s)))"

definition why_untouched :: "uuid_codec \<Rightarrow> Weather \<Rightarrow> nat \<Rightarrow> bytes \<Rightarrow> news_server \<Rightarrow> ('a, NewsError) result \<times> news_server" where
  "why_untouched uc w k i s =
     then_do (exec w k (db_group_by_id (uu_show uc i)) s)
       (\<lambda>found s. (Err (if found = None then NoSuchGroup else NotReadable), s))"

definition news_update_group ::
  "uuid_codec \<Rightarrow> Weather \<Rightarrow> nat \<Rightarrow> bytes \<Rightarrow> string \<Rightarrow> string \<Rightarrow> u8 \<Rightarrow> u8 \<Rightarrow> u8 \<Rightarrow> news_server \<Rightarrow>
   (Newsgroup, NewsError) result \<times> news_server" where
  "news_update_group uc w k i name description min_read_class min_post_class reader_class s =
     (if min_read_class > MAX_CLASS_THRESHOLD \<or> min_post_class > MAX_CLASS_THRESHOLD then (Err NewsInvalidClass, s)
      else then_do
        (exec w k (db_update_group (uu_show uc i) name description (uint min_read_class) (uint min_post_class) (uint reader_class)) s)
        (\<lambda>updated s.
           if \<not> updated then why_untouched uc w (k + 1) i s
           else (Ok \<lparr>gr_id = i, gr_name = name, gr_description = description,
                   gr_min_read_class = min_read_class, gr_min_post_class = min_post_class\<rparr>, s)))"

definition news_delete_group ::
  "uuid_codec \<Rightarrow> Weather \<Rightarrow> nat \<Rightarrow> bytes \<Rightarrow> u8 \<Rightarrow> news_server \<Rightarrow> (string \<times> nat, NewsError) result \<times> news_server" where
  "news_delete_group uc w k i reader_class s =
     then_do (exec w k (db_delete_group (uu_show uc i) (uint reader_class)) s)
       (\<lambda>deleted s. case deleted of Some d \<Rightarrow> (Ok d, s) | None \<Rightarrow> why_untouched uc w (k + 1) i s)"

definition list_groups :: "uuid_codec \<Rightarrow> Weather \<Rightarrow> nat \<Rightarrow> news_server \<Rightarrow> (Newsgroup list, NewsError) result \<times> news_server" where
  "list_groups uc w k s = then_do (exec w k db_all_groups s) (\<lambda>rows s. (collect_ok (group_from_row uc) rows, s))"

definition news_group :: "uuid_codec \<Rightarrow> Weather \<Rightarrow> nat \<Rightarrow> bytes \<Rightarrow> news_server \<Rightarrow> (Newsgroup, NewsError) result \<times> news_server" where
  "news_group uc w k i s =
     then_do (exec w k (db_group_by_id (uu_show uc i)) s)
       (\<lambda>found s. (case found of None \<Rightarrow> Err NoSuchGroup | Some row \<Rightarrow> group_from_row uc row, s))"

definition recent_posts ::
  "uuid_codec \<Rightarrow> Weather \<Rightarrow> nat \<Rightarrow> bytes \<Rightarrow> nat \<Rightarrow> news_server \<Rightarrow> (Post list, NewsError) result \<times> news_server" where
  "recent_posts uc w k i limit s =
     then_do (exec w k (db_recent_posts (uu_show uc i) limit) s) (\<lambda>rows s. (collect_ok (post_from_row uc) rows, s))"

definition news_post :: "uuid_codec \<Rightarrow> Weather \<Rightarrow> nat \<Rightarrow> bytes \<Rightarrow> news_server \<Rightarrow> (Post, NewsError) result \<times> news_server" where
  "news_post uc w k i s =
     then_do (exec w k (db_post_by_id (uu_show uc i)) s)
       (\<lambda>found s. (case found of None \<Rightarrow> Err NoSuchPost | Some row \<Rightarrow> post_from_row uc row, s))"

definition why_unposted :: "NewsError \<Rightarrow> NewsError" where
  "why_unposted e = (case e of NewsStorage NotFound \<Rightarrow> NoSuchParent | NewsStorage ForeignKey \<Rightarrow> NoSuchGroup | _ \<Rightarrow> e)"

definition news_create_post ::
  "uuid_codec \<Rightarrow> Weather \<Rightarrow> nat \<Rightarrow> bytes \<Rightarrow> bytes option \<Rightarrow> string \<Rightarrow> string \<Rightarrow> string \<Rightarrow> u64 \<Rightarrow> news_server \<Rightarrow>
   (Post, NewsError) result \<times> news_server" where
  "news_create_post uc w k i parent author subject body timestamp s =
     (case exec w k (db_create_post (uu_show uc (fresh_id w)) (uu_show uc i) (map_option (uu_show uc) parent)
             author subject body (sint timestamp)) s of
        (Ok row, s) \<Rightarrow> (post_from_row uc row, s)
      | (Err e, s) \<Rightarrow> (Err (why_unposted e), s)
      | (Panic, s) \<Rightarrow> (Panic, s))"

definition news_delete_post :: "uuid_codec \<Rightarrow> Weather \<Rightarrow> nat \<Rightarrow> bytes \<Rightarrow> news_server \<Rightarrow> (unit, NewsError) result \<times> news_server" where
  "news_delete_post uc w k i s = exec w k (db_delete_post (uu_show uc i)) s"

text \<open>None: the statement does not end.\<close>

definition news_delete_own_post ::
  "uuid_codec \<Rightarrow> Weather \<Rightarrow> nat \<Rightarrow> bytes \<Rightarrow> string \<Rightarrow> news_server \<Rightarrow> ((bool, NewsError) result \<times> news_server) option" where
  "news_delete_own_post uc w k i author s =
     (case db_delete_own_post (uu_show uc i) author (others w k (nw_db s)) of
        None \<Rightarrow> if fails w k then Some (exec w k (\<lambda>db. (Ok False, db)) s) else None
      | Some outcome \<Rightarrow> Some (exec w k (\<lambda>_. outcome) s))"

section \<open>The requests\<close>

definition validate_group_fields :: "string \<Rightarrow> string \<Rightarrow> (unit, Refusal) result" where
  "validate_group_fields name description =
     (if trim name = [] then Err (DeniedText ''newsgroup name is required'')
      else bind_result (check_len ''newsgroup name'' name MAX_NAME_LEN) (\<lambda>_.
        check_len ''newsgroup description'' description MAX_LONG_DESCRIPTION_LEN))"

definition news_error_text :: "NewsError \<Rightarrow> string" where
  "news_error_text e =
     (case e of
        CorruptId \<Rightarrow> ''stored id is not a valid uuid''
      | NoSuchGroup \<Rightarrow> ''no such newsgroup''
      | NoSuchPost \<Rightarrow> ''no such post''
      | NoSuchParent \<Rightarrow> ''the post you replied to is not in this newsgroup''
      | NewsInvalidClass \<Rightarrow> ''class thresholds must be between 0 and 3''
      | NotReadable \<Rightarrow> ''you may not read this newsgroup''
      | NewsStorage _ \<Rightarrow> ''storage error'')"

text \<open>An internal refusal is what the client is told of it.\<close>

definition internal_refusal :: "string \<Rightarrow> Refusal" where
  "internal_refusal what = DeniedText (what @ '' failed: internal server error'')"

definition news_refusal :: "string \<Rightarrow> NewsError \<Rightarrow> Refusal" where
  "news_refusal what e =
     (case e of
        NewsStorage AlreadyExists \<Rightarrow> DeniedText ''a newsgroup with that name already exists''
      | NewsStorage NotFound \<Rightarrow> DeniedText ''no such post''
      | NewsStorage ForeignKey \<Rightarrow> DeniedText ''no such post''
      | NewsStorage Sqlx \<Rightarrow> internal_refusal what
      | CorruptId \<Rightarrow> internal_refusal what
      | _ \<Rightarrow> DeniedText (news_error_text e))"

definition news_frame :: "PacketType \<Rightarrow> bytes \<Rightarrow> Outbound" where
  "news_frame t payload = \<lparr>ob_packet_type = t, ob_flags = 0, ob_payload = payload\<rparr>"

definition class_byte :: "BaseClass \<Rightarrow> u8" where "class_byte c = of_nat (class_u8 c)"

definition group_info :: "Newsgroup \<Rightarrow> NewsgroupInfo" where
  "group_info g =
     \<lparr>NewsgroupInfo_id = gr_id g, NewsgroupInfo_name = gr_name g, NewsgroupInfo_description = gr_description g,
      NewsgroupInfo_min_read_class = gr_min_read_class g, NewsgroupInfo_min_post_class = gr_min_post_class g\<rparr>"

text \<open>The end of a handler: its frame, or the refusal of what went wrong.\<close>

definition answer :: "string \<Rightarrow> (Outbound, NewsError) result \<times> news_server \<Rightarrow> Outbound \<times> news_server" where
  "answer what m =
     (case m of (Ok reply, s) \<Rightarrow> (reply, s) | (Err e, s) \<Rightarrow> (send_refusal (news_refusal what e), s) | (Panic, s) \<Rightarrow> (send_error [], s))"

definition reply_newsgroup_list :: "uuid_codec \<Rightarrow> Weather \<Rightarrow> nat \<Rightarrow> Session \<Rightarrow> news_server \<Rightarrow> Outbound \<times> news_server" where
  "reply_newsgroup_list uc w k session s =
     answer ''newsgroup listing'' (then_do (list_groups uc w k s)
       (\<lambda>groups s. (Ok (news_frame PacketType.NewsgroupListResponse (NewsgroupListResponse_encode
          \<lparr>NewsgroupListResponse_groups =
             map group_info (filter (\<lambda>g. class_byte (s_class session) \<ge> gr_min_read_class g) groups)\<rparr>)), s)))"

definition send_thread_list :: "bytes \<Rightarrow> Post list \<Rightarrow> Outbound" where
  "send_thread_list i posts =
     news_frame PacketType.NewsThreadListResponse (NewsThreadListResponse_encode
       \<lparr>NewsThreadListResponse_newsgroup_id = i, NewsThreadListResponse_posts = map news_post_to_wire posts\<rparr>)"

definition reply_thread_list :: "uuid_codec \<Rightarrow> Weather \<Rightarrow> nat \<Rightarrow> bytes \<Rightarrow> news_server \<Rightarrow> Outbound \<times> news_server" where
  "reply_thread_list uc w k i s =
     answer ''news listing'' (then_do (recent_posts uc w k i THREAD_REPLY_MAX_POSTS s)
       (\<lambda>newest_first s. (Ok (send_thread_list i (reply_window newest_first)), s)))"

definition note_news :: "Weather \<Rightarrow> string \<Rightarrow> string \<Rightarrow> string \<Rightarrow> news_server \<Rightarrow> news_server" where
  "note_news w actor action detail s =
     s\<lparr>nw_log := record_event (unix_now w) (log_ack w) (nw_log s) (unix_now w) (Some actor) action detail\<rparr>"

definition newsgroup_create ::
  "uuid_codec \<Rightarrow> Weather \<Rightarrow> Session \<Rightarrow> NewsgroupCreate \<Rightarrow> news_server \<Rightarrow> Outbound \<times> news_server" where
  "newsgroup_create uc w session create s =
     (if \<not> has (s_privileges session) USER_ADMIN then (send_error ''missing USER_ADMIN privilege'', s)
      else case validate_group_fields (NewsgroupCreate_name create) (NewsgroupCreate_description create) of
        Err refusal \<Rightarrow> (send_refusal refusal, s)
      | Panic \<Rightarrow> (send_error [], s)
      | Ok _ \<Rightarrow>
          case news_create_group uc w 0 (NewsgroupCreate_name create) (NewsgroupCreate_description create)
              (NewsgroupCreate_min_read_class create) (NewsgroupCreate_min_post_class create) s of
            (Ok _, s) \<Rightarrow> reply_newsgroup_list uc w 1 session
              (note_news w (s_username session) ''newsgroup_created'' (NewsgroupCreate_name create) s)
          | (Err e, s) \<Rightarrow> (send_refusal (news_refusal ''newsgroup create'' e), s)
          | (Panic, s) \<Rightarrow> (send_error [], s))"

definition newsgroup_update ::
  "uuid_codec \<Rightarrow> Weather \<Rightarrow> Session \<Rightarrow> NewsgroupUpdate \<Rightarrow> news_server \<Rightarrow> Outbound \<times> news_server" where
  "newsgroup_update uc w session update s =
     (case resolve_actor (nw_ctx s) session USER_ADMIN of
        Err refusal \<Rightarrow> (send_refusal refusal, s)
      | Panic \<Rightarrow> (send_error [], s)
      | Ok actor \<Rightarrow>
          case validate_group_fields (NewsgroupUpdate_name update) (NewsgroupUpdate_description update) of
            Err refusal \<Rightarrow> (send_refusal refusal, s)
          | Panic \<Rightarrow> (send_error [], s)
          | Ok _ \<Rightarrow>
              case news_update_group uc w 0 (NewsgroupUpdate_id update) (NewsgroupUpdate_name update)
                  (NewsgroupUpdate_description update) (NewsgroupUpdate_min_read_class update)
                  (NewsgroupUpdate_min_post_class update) (class_byte (au_class (ac_authority actor))) s of
                (Ok g, s) \<Rightarrow> reply_newsgroup_list uc w 2 session (note_news w (ac_username actor) ''newsgroup_updated''
                  (gr_name g @ '' (id='' @ uu_show uc (gr_id g) @ '', read='' @ show_nat (unat (gr_min_read_class g)) @
                   '', post='' @ show_nat (unat (gr_min_post_class g)) @ '')'') s)
              | (Err e, s) \<Rightarrow> (send_refusal (news_refusal ''newsgroup update'' e), s)
              | (Panic, s) \<Rightarrow> (send_error [], s))"

definition newsgroup_delete ::
  "uuid_codec \<Rightarrow> Weather \<Rightarrow> Session \<Rightarrow> NewsgroupDelete \<Rightarrow> news_server \<Rightarrow> Outbound \<times> news_server" where
  "newsgroup_delete uc w session delete s =
     (case resolve_actor (nw_ctx s) session USER_ADMIN of
        Err refusal \<Rightarrow> (send_refusal refusal, s)
      | Panic \<Rightarrow> (send_error [], s)
      | Ok actor \<Rightarrow>
          case news_delete_group uc w 0 (NewsgroupDelete_id delete) (class_byte (au_class (ac_authority actor))) s of
            (Ok (name, posts), s) \<Rightarrow> reply_newsgroup_list uc w 2 session (note_news w (ac_username actor) ''newsgroup_deleted''
              (name @ '' (id='' @ uu_show uc (NewsgroupDelete_id delete) @ '', '' @ show_nat posts @ '' post(s))'') s)
          | (Err e, s) \<Rightarrow> (send_refusal (news_refusal ''newsgroup delete'' e), s)
          | (Panic, s) \<Rightarrow> (send_error [], s))"

definition news_thread_list ::
  "uuid_codec \<Rightarrow> Weather \<Rightarrow> Session \<Rightarrow> NewsThreadListRequest \<Rightarrow> news_server \<Rightarrow> Outbound \<times> news_server" where
  "news_thread_list uc w session req s =
     (case news_group uc w 0 (NewsThreadListRequest_newsgroup_id req) s of
        (Ok g, s) \<Rightarrow>
          if class_byte (s_class session) < gr_min_read_class g then (send_error ''you may not read this newsgroup'', s)
          else reply_thread_list uc w 1 (NewsThreadListRequest_newsgroup_id req) s
      | (Err e, s) \<Rightarrow> (send_refusal (news_refusal ''news listing'' e), s)
      | (Panic, s) \<Rightarrow> (send_error [], s))"

definition news_post_create ::
  "uuid_codec \<Rightarrow> Weather \<Rightarrow> Session \<Rightarrow> NewsPostCreate \<Rightarrow> news_server \<Rightarrow> Outbound \<times> news_server" where
  "news_post_create uc w session post s =
     (let my_class = class_byte (s_class session); i = NewsPostCreate_newsgroup_id post in
      case bind_result (check_len ''subject'' (NewsPostCreate_subject post) MAX_NEWS_SUBJECT_LEN) (\<lambda>_.
             check_len ''body'' (NewsPostCreate_body post) MAX_NEWS_BODY_LEN) of
        Err refusal \<Rightarrow> (send_refusal refusal, s)
      | Panic \<Rightarrow> (send_error [], s)
      | Ok _ \<Rightarrow>
      case news_group uc w 0 i s of
        (Err e, s) \<Rightarrow> (send_refusal (news_refusal ''news post'' e), s)
      | (Panic, s) \<Rightarrow> (send_error [], s)
      | (Ok g, s) \<Rightarrow>
      if my_class < gr_min_post_class g then (send_error ''you may not post to this newsgroup'', s)
      else if trim (NewsPostCreate_subject post) = [] then (send_error ''a subject is required'', s)
      else if \<not> may_post w then (send_error ''you are posting too fast; wait a few seconds'', s)
      else
        let parent = (if NewsPostCreate_parent_id post \<noteq> replicate 16 0 then Some (NewsPostCreate_parent_id post) else None) in
        case news_create_post uc w 1 i parent (s_username session) (NewsPostCreate_subject post) (NewsPostCreate_body post)
            (unix_now w) s of
          (Ok created, s) \<Rightarrow>
            if my_class < gr_min_read_class g then (send_thread_list i [created], s) else reply_thread_list uc w 2 i s
        | (Err e, s) \<Rightarrow> (send_refusal (news_refusal ''news post'' e), s)
        | (Panic, s) \<Rightarrow> (send_error [], s))"

definition news_post_delete ::
  "uuid_codec \<Rightarrow> Weather \<Rightarrow> Session \<Rightarrow> NewsPostDelete \<Rightarrow> news_server \<Rightarrow> (Outbound \<times> news_server) option" where
  "news_post_delete uc w session del s =
     (case news_post uc w 0 (NewsPostDelete_post_id del) s of
        (Err e, s) \<Rightarrow> Some (send_refusal (news_refusal ''news delete'' e), s)
      | (Panic, s) \<Rightarrow> Some (send_error [], s)
      | (Ok post, s) \<Rightarrow>
      case news_group uc w 1 (pt_newsgroup_id post) s of
        (Err e, s) \<Rightarrow> Some (send_refusal (news_refusal ''news delete'' e), s)
      | (Panic, s) \<Rightarrow> Some (send_error [], s)
      | (Ok g, s) \<Rightarrow>
      let can_read = class_byte (s_class session) \<ge> gr_min_read_class g;
          finish = (\<lambda>(deleted, s).
            case deleted of
              Ok True \<Rightarrow> if can_read then reply_thread_list uc w 3 (pt_newsgroup_id post) s
                         else (send_thread_list (pt_newsgroup_id post) [], s)
            | Ok False \<Rightarrow> (send_error ''cannot delete a post other users have replied to'', s)
            | Err e \<Rightarrow> (send_refusal (news_refusal ''news delete'' e), s)
            | Panic \<Rightarrow> (send_error [], s))
      in if has (s_privileges session) USER_ADMIN \<and> can_read
      then Some (finish (then_do (news_delete_post uc w 2 (NewsPostDelete_post_id del) s) (\<lambda>_ s. (Ok True, s))))
      else if pt_author post = s_username session
      then map_option finish (news_delete_own_post uc w 2 (NewsPostDelete_post_id del) (s_username session) s)
      else Some (send_error ''you can only delete your own posts'', s))"

section \<open>Dispatch\<close>

text \<open>A payload that does not decode ends the connection. \<open>Hangs\<close>: the handler does not return.\<close>

datatype news_outcome = NotNews | Closes protocol_error | Hangs | Answers Outbound news_server

definition decoded :: "('a, protocol_error) result \<Rightarrow> ('a \<Rightarrow> (Outbound \<times> news_server) option) \<Rightarrow> news_outcome" where
  "decoded req handler =
     (case req of
        Err e \<Rightarrow> Closes e
      | Panic \<Rightarrow> Hangs
      | Ok r \<Rightarrow> (case handler r of None \<Rightarrow> Hangs | Some (reply, s) \<Rightarrow> Answers reply s))"

definition news_request :: "uuid_codec \<Rightarrow> Weather \<Rightarrow> Session \<Rightarrow> PacketType \<Rightarrow> bytes \<Rightarrow> news_server \<Rightarrow> news_outcome" where
  "news_request uc w session t payload s =
     (if t = PacketType.NewsgroupListRequest
      then decoded (NewsgroupListRequest_decode payload) (\<lambda>_. Some (reply_newsgroup_list uc w 0 session s))
      else if t = PacketType.NewsgroupCreate
      then decoded (NewsgroupCreate_decode payload) (\<lambda>r. Some (newsgroup_create uc w session r s))
      else if t = PacketType.NewsgroupUpdate
      then decoded (NewsgroupUpdate_decode payload) (\<lambda>r. Some (newsgroup_update uc w session r s))
      else if t = PacketType.NewsgroupDelete
      then decoded (NewsgroupDelete_decode payload) (\<lambda>r. Some (newsgroup_delete uc w session r s))
      else if t = PacketType.NewsThreadListRequest
      then decoded (NewsThreadListRequest_decode payload) (\<lambda>r. Some (news_thread_list uc w session r s))
      else if t = PacketType.NewsPostCreate
      then decoded (NewsPostCreate_decode payload) (\<lambda>r. Some (news_post_create uc w session r s))
      else if t = PacketType.NewsPostDelete
      then decoded (NewsPostDelete_decode payload) (\<lambda>r. news_post_delete uc w session r s)
      else NotNews)"

end
