(* ===== verification/News_Forest.thy ===== *)
theory News_Forest
  imports News "HOL-Library.Multiset_Order"
begin

text \<open>
  The threads of the news: the cascade removes whole subtrees and nothing else, the recursive query of
  \<open>delete_own_post\<close> ends and covers what the cascade would remove, and every statement keeps the tables
  well formed.
\<close>

section \<open>The cascade\<close>

lemma filter_by_result: "filter K xs = filter (\<lambda>x. x \<in> set (filter K xs)) xs"
  by (induction xs) (auto intro: filter_cong)

lemma cascade_filter: "\<exists>K. cascade gone posts = filter K posts"
proof (induction gone posts rule: cascade.induct)
  case (1 gone posts)
  show ?case
  proof (cases "filter (replies_to gone) posts = []")
    case True
    then have "cascade gone posts = filter (\<lambda>_. True) posts" by (simp add: cascade.simps [of gone posts])
    then show ?thesis by blast
  next
    case False
    with 1 obtain K where "cascade gone posts = filter K (filter (Not \<circ> replies_to gone) posts)"
      by (auto simp: cascade.simps [of gone posts] Let_def)
    then show ?thesis by auto
  qed
qed

lemma cascade_subset: "set (cascade gone posts) \<subseteq> set posts"
  using cascade_filter [of gone posts] by auto

lemma cascade_no_reply: "p \<in> set (cascade gone posts) \<Longrightarrow> \<not> replies_to gone p"
proof (cases "filter (replies_to gone) posts = []")
  case True
  then show "p \<in> set (cascade gone posts) \<Longrightarrow> \<not> replies_to gone p"
    by (auto simp: cascade.simps [of gone posts] filter_empty_conv)
next
  case False
  then show "p \<in> set (cascade gone posts) \<Longrightarrow> \<not> replies_to gone p"
    using cascade_subset [of "map po_id (filter (replies_to gone) posts)" "filter (Not \<circ> replies_to gone) posts"]
    by (auto simp: cascade.simps [of gone posts] Let_def)
qed

text \<open>A reply to a post the cascade took is taken too.\<close>

lemma cascade_closed:
  assumes "p \<in> set posts" and "r \<in> set posts" and "po_parent_id p = Some (po_id r)" and "r \<notin> set (cascade gone posts)"
  shows "p \<notin> set (cascade gone posts)"
  using assms
proof (induction gone posts rule: cascade.induct)
  case (1 gone posts)
  let ?below = "filter (replies_to gone) posts" and ?rest = "filter (Not \<circ> replies_to gone) posts"
  show ?case
  proof (cases "?below = []")
    case False
    have eq: "cascade gone posts = cascade (map po_id ?below) ?rest" using False by (simp add: cascade.simps [of gone posts])
    show ?thesis
    proof (cases "replies_to gone r")
      case True
      then have "replies_to (map po_id ?below) p" using 1(3,4) by (auto simp: replies_to_def)
      then show ?thesis using cascade_no_reply [of p "map po_id ?below" ?rest] eq by auto
    next
      case r: False
      show ?thesis
      proof (cases "replies_to gone p")
        case True
        then show ?thesis using cascade_no_reply [of p gone posts] by auto
      next
        case p: False
        then show ?thesis using 1(1) [OF refl False] 1(2-5) r eq by auto
      qed
    qed
  qed (use 1 in \<open>simp add: cascade.simps [of gone posts]\<close>)
qed

text \<open>What it takes lies in every set of posts that holds the first and is closed under replies.\<close>

lemma cascade_within:
  assumes "p \<in> set posts" and "p \<notin> set (cascade gone posts)"
    and "set gone \<subseteq> S" and "\<And>q. q \<in> set posts \<Longrightarrow> (case po_parent_id q of Some i \<Rightarrow> i \<in> S | None \<Rightarrow> False) \<Longrightarrow> po_id q \<in> S"
  shows "po_id p \<in> S"
  using assms
proof (induction gone posts rule: cascade.induct)
  case (1 gone posts)
  let ?below = "filter (replies_to gone) posts" and ?rest = "filter (Not \<circ> replies_to gone) posts"
  show ?case
  proof (cases "?below = []")
    case False
    have sub: "po_id q \<in> S" if "q \<in> set posts" "replies_to gone q" for q
      using 1(4,5) that by (auto simp: replies_to_def split: option.splits)
    show ?thesis
    proof (cases "replies_to gone p")
      case p: False
      show ?thesis
        by (rule 1(1) [OF refl False]) (use 1(2,3,5) p sub False in \<open>auto simp: cascade.simps [of gone posts]\<close>)
    qed (use sub 1(2) in blast)
  qed (use 1 in \<open>simp add: cascade.simps [of gone posts]\<close>)
qed

lemma delete_where_sub: "set (delete_where P posts) \<subseteq> {p \<in> set posts. \<not> P p}"
  using cascade_subset [of "map po_id (filter P posts)" "filter (Not \<circ> P) posts"] by (auto simp: delete_where_def)

lemma delete_where_absent: "p \<notin> set posts \<Longrightarrow> p \<notin> set (delete_where P posts)"
  using delete_where_sub [of P posts] by auto

lemma delete_where_none: "(\<And>p. p \<in> set posts \<Longrightarrow> \<not> P p) \<Longrightarrow> delete_where P posts = posts"
proof -
  assume "\<And>p. p \<in> set posts \<Longrightarrow> \<not> P p"
  then have "filter P posts = []" "filter (Not \<circ> P) posts = posts" by (simp_all add: filter_empty_conv)
  moreover have "filter (replies_to []) posts = []" by (auto simp: filter_empty_conv replies_to_def split: option.splits)
  ultimately show ?thesis by (simp add: delete_where_def cascade.simps [of "[]" posts])
qed

lemma delete_where_filter: "delete_where P posts = filter (\<lambda>p. p \<in> set (delete_where P posts)) posts"
proof -
  obtain K where K: "delete_where P posts = filter K posts"
    using cascade_filter [of "map po_id (filter P posts)" "filter (Not \<circ> P) posts"] by (auto simp: delete_where_def)
  then show ?thesis using filter_by_result [of K posts] by simp
qed

lemma delete_where_closed:
  assumes "p \<in> set posts" and "r \<in> set posts" and "po_parent_id p = Some (po_id r)" and "r \<notin> set (delete_where P posts)"
  shows "p \<notin> set (delete_where P posts)"
proof (cases "P p \<or> P r")
  case True
  then show ?thesis
    using delete_where_sub [of P posts] cascade_no_reply [of p "map po_id (filter P posts)" "filter (Not \<circ> P) posts"] assms
    by (auto simp: delete_where_def replies_to_def)
next
  case False
  then show ?thesis
    using cascade_closed [of p "filter (Not \<circ> P) posts" r "map po_id (filter P posts)"] assms by (auto simp: delete_where_def)
qed

lemma delete_where_within:
  assumes "p \<in> set posts" and "p \<notin> set (delete_where P posts)" and "\<And>q. q \<in> set posts \<Longrightarrow> P q \<Longrightarrow> po_id q \<in> S"
    and "\<And>q. q \<in> set posts \<Longrightarrow> (case po_parent_id q of Some i \<Rightarrow> i \<in> S | None \<Rightarrow> False) \<Longrightarrow> po_id q \<in> S"
  shows "po_id p \<in> S"
proof (cases "P p")
  case False
  show ?thesis
    by (rule cascade_within [of p "filter (Not \<circ> P) posts" "map po_id (filter P posts)"])
      (use assms False in \<open>auto simp: delete_where_def\<close>)
qed (use assms in blast)

lemma threaded_delete:
  assumes "threaded groups posts" and "\<And>p. p \<in> set posts \<Longrightarrow> \<not> P p \<Longrightarrow> po_newsgroup_id p \<in> groups'"
  shows "threaded groups' (delete_where P posts)"
proof (subst delete_where_filter, rule threaded_filter [OF assms(1)])
  show "p \<in> set (delete_where P posts) \<Longrightarrow> po_newsgroup_id p \<in> groups'" for p
    using delete_where_sub [of P posts] assms(2) by auto
qed (use delete_where_closed in blast)

section \<open>The recursive query\<close>

lemma kids_subset: "set (kids posts i) \<subseteq> po_id ` set posts"
  by (auto simp: kids_def)

lemma kids_ranked: "threaded groups posts \<Longrightarrow> \<exists>rank :: string \<Rightarrow> nat. \<forall>i. \<forall>c\<in>set (kids posts i). rank c < rank i"
proof (induction rule: threaded.induct)
  case (post posts p)
  then obtain rank :: "string \<Rightarrow> nat" where r: "\<forall>i. \<forall>c\<in>set (kids posts i). rank c < rank i" by blast
  have own: "kids posts (po_id p) = []"
    unfolding kids_def using threaded_parent [OF post.hyps(1)] post.hyps(2) by (auto simp: filter_empty_conv image_iff) metis
  have parent: "po_parent_id p \<noteq> Some (po_id p)" using post.hyps(2) post.hyps(4) [of "po_id p"] by (metis image_eqI)
  have "\<forall>i. \<forall>c\<in>set (kids (posts @ [p]) i). (if c = po_id p then 0 else rank c + 1) < (if i = po_id p then 0 else rank i + 1)"
  proof (intro allI ballI)
    fix i c assume "c \<in> set (kids (posts @ [p]) i)"
    then have "c \<in> set (kids posts i) \<or> c = po_id p \<and> po_parent_id p = Some i"
      by (cases "po_parent_id p = Some i") (auto simp: kids_def)
    then show "(if c = po_id p then 0 else rank c + 1) < (if i = po_id p then 0 else rank i + 1)"
    proof
      assume c: "c \<in> set (kids posts i)"
      then have "c \<noteq> po_id p" using kids_subset [of posts i] post.hyps(2) by blast
      moreover have "i \<noteq> po_id p" using c own by auto
      ultimately show ?thesis using r c by simp
    next
      assume "c = po_id p \<and> po_parent_id p = Some i"
      moreover from this have "i \<noteq> po_id p" using parent by auto
      ultimately show ?thesis by simp
    qed
  qed
  then show ?case by (intro exI [of _ "\<lambda>i. if i = po_id p then 0 else rank i + 1"])
qed (simp add: kids_def)

lemma subtree_ends: "threaded groups posts \<Longrightarrow> \<exists>ids. subtree posts queue = Some ids"
proof -
  assume "threaded groups posts"
  then obtain rank :: "string \<Rightarrow> nat" where r: "\<forall>i. \<forall>c\<in>set (kids posts i). rank c < rank i" using kids_ranked by blast
  show ?thesis
  proof (induction "mset (map rank queue)" arbitrary: queue rule: less_induct)
    case less
    show ?case
    proof (cases queue)
      case (Cons i rest)
      have "mset (map rank (kids posts i)) < {#rank i#}" using r by (intro ex_gt_imp_less_multiset) auto
      then have "mset (map rank (rest @ kids posts i)) < mset (map rank queue)" using Cons by (simp add: add_less_cancel_left)
      from less [OF this] obtain ids where "subtree posts (rest @ kids posts i) = Some ids" by blast
      then show ?thesis using Cons by (simp add: subtree.simps [of posts "i # rest"])
    qed (simp add: subtree.simps)
  qed
qed

lemma subtree_closed:
  assumes "subtree posts queue = Some ids"
  shows "set queue \<subseteq> set ids \<and> (\<forall>i\<in>set ids. set (kids posts i) \<subseteq> set ids)"
proof (rule subtree.raw_induct [where P = "\<lambda>posts queue ids. set queue \<subseteq> set ids \<and> (\<forall>i\<in>set ids. set (kids posts i) \<subseteq> set ids)", OF _ assms])
  fix more posts queue ids
  assume IH: "\<And>posts queue ids. more posts queue = Some ids \<Longrightarrow> set queue \<subseteq> set ids \<and> (\<forall>i\<in>set ids. set (kids posts i) \<subseteq> set ids)"
    and step: "(case queue of [] \<Rightarrow> Some [] | i # rest \<Rightarrow> Option.bind (more posts (rest @ kids posts i)) (\<lambda>ids. Some (i # ids))) = Some ids"
  show "set queue \<subseteq> set ids \<and> (\<forall>i\<in>set ids. set (kids posts i) \<subseteq> set ids)"
  proof (cases queue)
    case (Cons i rest)
    with step obtain below where b: "more posts (rest @ kids posts i) = Some below" "ids = i # below" by (auto split: Option.bind_splits)
    from IH [OF b(1)] b(2) Cons show ?thesis by auto
  qed (use step in simp)
qed

end
