(* ===== verification/News_Safety.thy ===== *)
theory News_Safety
  imports News_Forest
begin

text \<open>
  What holds of the news however the connections interleave: the tables stay well formed and every
  request ends, nobody speaks for another, and a newsgroup a session may not read stays closed to it.
\<close>

section \<open>Every statement keeps the tables well formed\<close>

lemma group_rows_names:
  assumes "distinct (map ng_name gs)" and "distinct (map ng_id gs)" and "\<forall>g\<in>set gs. ng_name g = name \<longrightarrow> ng_id g = i \<and> P g"
  shows "distinct (map ng_name (map (\<lambda>g. if ng_id g = i \<and> P g then g\<lparr>ng_name := name, ng_description := d,
    ng_min_read_class := r, ng_min_post_class := q\<rparr> else g) gs))"
proof -
  let ?upd = "\<lambda>g. if ng_id g = i \<and> P g then g\<lparr>ng_name := name, ng_description := d, ng_min_read_class := r, ng_min_post_class := q\<rparr> else g"
  have "x = y" if "x \<in> set gs" "y \<in> set gs" "ng_name (?upd x) = ng_name (?upd y)" for x y
  proof (cases "(ng_id x = i \<and> P x) = (ng_id y = i \<and> P y)")
    case True
    with that assms show ?thesis by (auto simp: distinct_map inj_on_def split: if_splits)
  next
    case False
    with that assms(3) show ?thesis by (auto split: if_splits)
  qed
  with assms(1) show ?thesis by (auto simp: distinct_map inj_on_def)
qed

lemma threaded_groups_mono:
  "threaded groups posts \<Longrightarrow> (\<And>p. p \<in> set posts \<Longrightarrow> po_newsgroup_id p \<in> groups') \<Longrightarrow> threaded groups' posts"
  by (induction rule: threaded.induct) (auto intro: threaded.intros)

lemma create_group_ok:
  assumes "news_ok db" and "0 \<le> r" and "r \<le> 3" and "0 \<le> q" and "q \<le> 3"
  shows "news_ok (snd (db_create_group fresh name d r q db))"
proof -
  have "threaded (insert fresh (ng_id ` set (newsgroups db))) (news_posts db)"
    using assms(1) threaded_groups by (auto simp: news_ok_def intro: threaded_groups_mono)
  then show ?thesis using assms by (auto simp: news_ok_def db_create_group_def Let_def)
qed

lemma update_group_ok:
  assumes "news_ok db" and "0 \<le> r" and "r \<le> 3" and "0 \<le> q" and "q \<le> 3"
  shows "news_ok (snd (db_update_group i name d r q reader db))"
proof -
  let ?hit = "\<lambda>g. ng_id g = i \<and> ng_min_read_class g \<le> reader"
  let ?upd = "\<lambda>g. if ?hit g then g\<lparr>ng_name := name, ng_description := d, ng_min_read_class := r, ng_min_post_class := q\<rparr> else g"
  let ?gs = "newsgroups db"
  show ?thesis
  proof (cases "(\<exists>g\<in>set ?gs. ?hit g) \<and> \<not> (\<exists>g\<in>set ?gs. \<not> ?hit g \<and> ng_name g = name)")
    case True
    define gs where "gs = map ?upd ?gs"
    have ids: "map ng_id gs = map ng_id ?gs" by (auto simp: gs_def)
    then have "ng_id ` set gs = ng_id ` set ?gs" by (metis list.set_map)
    moreover have "distinct (map ng_name gs)"
      unfolding gs_def by (rule group_rows_names) (use assms(1) True in \<open>auto simp: news_ok_def\<close>)
    moreover have "\<forall>g\<in>set gs. 0 \<le> ng_min_read_class g \<and> ng_min_read_class g \<le> 3 \<and>
        0 \<le> ng_min_post_class g \<and> ng_min_post_class g \<le> 3"
      using assms by (auto simp: news_ok_def gs_def)
    moreover have "snd (db_update_group i name d r q reader db) = db\<lparr>newsgroups := gs\<rparr>"
      using True by (auto simp: db_update_group_def Let_def gs_def)
    ultimately show ?thesis using assms(1) ids by (simp add: news_ok_def)
  qed (use assms(1) in \<open>auto simp: db_update_group_def Let_def\<close>)
qed

lemma delete_group_ok: "news_ok db \<Longrightarrow> news_ok (snd (db_delete_group i reader db))"
  by (auto simp: news_ok_def db_delete_group_def distinct_map inj_on_def split: option.splits
      intro!: threaded_delete dest: threaded_groups)

lemma create_post_ok: "news_ok db \<Longrightarrow> news_ok (snd (db_create_post fresh n parent a t b at db))"
  by (auto simp: news_ok_def db_create_post_def Let_def intro!: threaded.post split: option.splits)

lemma delete_post_ok: "news_ok db \<Longrightarrow> news_ok (snd (db_delete_post i db))"
  by (auto simp: news_ok_def db_delete_post_def intro!: threaded_delete dest: threaded_groups)

lemma delete_own_ends: "news_ok db \<Longrightarrow> \<exists>outcome. db_delete_own_post i a db = Some outcome \<and> news_ok (snd outcome)"
proof -
  assume ok: "news_ok db"
  then have t: "threaded (ng_id ` set (newsgroups db)) (news_posts db)" by (simp add: news_ok_def)
  from subtree_ends [OF this] obtain ids where "subtree (news_posts db) (kids (news_posts db) i) = Some ids" by blast
  moreover have "threaded (ng_id ` set (newsgroups db)) (delete_where P (news_posts db))" for P
    using threaded_delete [OF t] threaded_groups [OF t] by blast
  ultimately show ?thesis using ok by (simp add: db_delete_own_post_def Let_def news_ok_def)
qed

section \<open>What a request keeps\<close>

text \<open>\<open>keeps I w\<close>: what the others do between the statements keeps \<open>I\<close>.\<close>

definition keeps :: "(News \<Rightarrow> bool) \<Rightarrow> Weather \<Rightarrow> bool" where
  "keeps I w \<longleftrightarrow> (\<forall>k db. I db \<longrightarrow> I (others w k db))"

lemma exec_keeps:
  assumes "keeps I w" and "I (nw_db s)" and "\<And>db. I db \<Longrightarrow> I (snd (f db))"
  shows "I (nw_db (snd (exec w k f s)))"
proof -
  have "I (others w k (nw_db s))" using assms(1,2) by (simp add: keeps_def)
  with assms(3) [OF this] show ?thesis by (auto simp: exec_def Let_def split: prod.splits result.splits)
qed

lemma exec_at:
  assumes "exec w k f s = (Ok x, s')"
  shows "f (others w k (nw_db s)) = (Ok x, nw_db s')"
  using assms by (auto simp: exec_def Let_def split: prod.splits result.splits if_splits)

lemma exec_ctx [simp]: "nw_ctx (snd (exec w k f s)) = nw_ctx s"
  by (auto simp: exec_def Let_def split: prod.splits result.splits)

lemma then_do_keeps:
  assumes "I (nw_db (snd m))" and "\<And>x s. m = (Ok x, s) \<Longrightarrow> I (nw_db s) \<Longrightarrow> I (nw_db (snd (f x s)))"
  shows "I (nw_db (snd (then_do m f)))"
  using assms by (cases m) (auto simp: then_do_def split: result.splits)

lemma answer_keeps: "I (nw_db (snd m)) \<Longrightarrow> I (nw_db (snd (answer what m)))"
  by (auto simp: answer_def split: prod.splits result.splits)

lemma note_db [simp]: "nw_db (note_news w a b c s) = nw_db s"
  by (simp add: note_news_def)

lemma read_stmts: "I db \<Longrightarrow> I (snd (db_all_groups db))" "I db \<Longrightarrow> I (snd (db_group_by_id i db))"
    "I db \<Longrightarrow> I (snd (db_recent_posts i n db))" "I db \<Longrightarrow> I (snd (db_post_by_id i db))"
  by (simp_all add: db_all_groups_def db_group_by_id_def db_recent_posts_def db_post_by_id_def)

lemma reads_keep:
  assumes "keeps I w" and "I (nw_db s)"
  shows "I (nw_db (snd (list_groups uc w k s)))" "I (nw_db (snd (news_group uc w k i s)))"
    "I (nw_db (snd (recent_posts uc w k i n s)))" "I (nw_db (snd (news_post uc w k i s)))"
    "I (nw_db (snd (why_untouched uc w k i s :: ('a, NewsError) result \<times> news_server)))"
  unfolding list_groups_def news_group_def recent_posts_def news_post_def why_untouched_def
  by (rule then_do_keeps, rule exec_keeps [OF assms], erule read_stmts, simp)+

lemma replies_keep:
  assumes "keeps I w" and "I (nw_db s)"
  shows "I (nw_db (snd (reply_newsgroup_list uc w k session s)))" "I (nw_db (snd (reply_thread_list uc w k i s)))"
  unfolding reply_newsgroup_list_def reply_thread_list_def
  by (rule answer_keeps, rule then_do_keeps, rule reads_keep [OF assms], simp)+

lemma list_keeps: "keeps I w \<Longrightarrow> I (nw_db s) \<Longrightarrow> reply_newsgroup_list uc w k session s = (reply, s') \<Longrightarrow> I (nw_db s')"
  by (metis replies_keep(1) snd_conv)

lemma thread_keeps: "keeps I w \<Longrightarrow> I (nw_db s) \<Longrightarrow> reply_thread_list uc w k i s = (reply, s') \<Longrightarrow> I (nw_db s')"
  by (metis replies_keep(2) snd_conv)

lemma group_keeps: "keeps I w \<Longrightarrow> I (nw_db s) \<Longrightarrow> news_group uc w k i s = (r, s') \<Longrightarrow> I (nw_db s')"
  by (metis reads_keep(2) snd_conv)

lemma post_keeps: "keeps I w \<Longrightarrow> I (nw_db s) \<Longrightarrow> news_post uc w k i s = (r, s') \<Longrightarrow> I (nw_db s')"
  by (metis reads_keep(4) snd_conv)

lemma class_byte_bounds: "uint (class_byte c) = int (class_u8 c)" "class_u8 c \<le> 3"
  by (cases c; simp add: class_byte_def)+

lemma small_threshold: "\<not> (r :: u8) > MAX_CLASS_THRESHOLD \<Longrightarrow> 0 \<le> uint r \<and> uint r \<le> 3"
  by (simp add: MAX_CLASS_THRESHOLD_def word_less_def not_less word_le_def)

lemma made_group_keeps:
  assumes "keeps I w" and "I (nw_db s)"
    and "\<And>db name d r q. I db \<Longrightarrow> 0 \<le> r \<Longrightarrow> r \<le> 3 \<Longrightarrow> 0 \<le> q \<Longrightarrow> q \<le> 3 \<Longrightarrow>
      I (snd (db_create_group (uu_show uc (fresh_id w)) name d r q db))"
  shows "I (nw_db (snd (news_create_group uc w k name d r q s)))"
  unfolding news_create_group_def
  using assms(2) by (auto intro!: then_do_keeps [where I = I] exec_keeps [where I = I, OF assms(1,2)] assms(3) dest: small_threshold)

lemma updated_group_keeps:
  assumes "keeps I w" and "I (nw_db s)"
    and "\<And>db i name d r q. I db \<Longrightarrow> 0 \<le> r \<Longrightarrow> r \<le> 3 \<Longrightarrow> 0 \<le> q \<Longrightarrow> q \<le> 3 \<Longrightarrow> I (snd (db_update_group i name d r q (uint reader) db))"
  shows "I (nw_db (snd (news_update_group uc w k i name d r q reader s)))"
  unfolding news_update_group_def
  using assms(2)
  by (auto intro!: then_do_keeps [where I = I] exec_keeps [where I = I, OF assms(1,2)] assms(3) reads_keep [where I = I, OF assms(1)]
      dest: small_threshold)

lemma deleted_group_keeps:
  assumes "keeps I w" and "I (nw_db s)" and "\<And>db i. I db \<Longrightarrow> I (snd (db_delete_group i (uint reader) db))"
  shows "I (nw_db (snd (news_delete_group uc w k i reader s)))"
  unfolding news_delete_group_def
  using assms(2)
  by (auto intro!: then_do_keeps [where I = I] exec_keeps [where I = I, OF assms(1,2)] assms(3) reads_keep [where I = I, OF assms(1)]
      split: option.split)

text \<open>An administrator's request on a newsgroup is refused, or what it changed it lists.\<close>

lemma resolved_actor: "resolve_actor c session USER_ADMIN = Ok actor \<Longrightarrow>
    has (s_privileges session) USER_ADMIN \<and> au_class (ac_authority actor) \<le> s_class session"
  by (auto simp: resolve_actor_def narrowed_def Let_def split: if_splits option.splits)

lemma group_request_keeps:
  assumes "keeps I w" and "I (nw_db s)"
    and "\<And>db name d r q. I db \<Longrightarrow> has (s_privileges session) USER_ADMIN \<Longrightarrow> 0 \<le> r \<Longrightarrow> r \<le> 3 \<Longrightarrow> 0 \<le> q \<Longrightarrow> q \<le> 3 \<Longrightarrow>
      I (snd (db_create_group (uu_show uc (fresh_id w)) name d r q db))"
    and "\<And>db i name d r q reader. I db \<Longrightarrow> has (s_privileges session) USER_ADMIN \<Longrightarrow> reader \<le> int (class_u8 (s_class session)) \<Longrightarrow>
      0 \<le> r \<Longrightarrow> r \<le> 3 \<Longrightarrow> 0 \<le> q \<Longrightarrow> q \<le> 3 \<Longrightarrow> I (snd (db_update_group i name d r q reader db))"
    and "\<And>db i reader. I db \<Longrightarrow> has (s_privileges session) USER_ADMIN \<Longrightarrow> reader \<le> int (class_u8 (s_class session)) \<Longrightarrow>
      I (snd (db_delete_group i reader db))"
    and "(reply, s') = newsgroup_create uc w session create s \<or> (reply, s') = newsgroup_update uc w session update s \<or>
      (reply, s') = newsgroup_delete uc w session delete s"
  shows "I (nw_db s') \<and> ((\<exists>m. reply = send_error m) \<or>
    (\<exists>k s1. I (nw_db s1) \<and> reply_newsgroup_list uc w k session s1 = (reply, s')))"
  using assms(6)
proof (elim disjE)
  assume e: "(reply, s') = newsgroup_create uc w session create s"
  show ?thesis
  proof (cases "has (s_privileges session) USER_ADMIN")
    case True
    obtain x s1 where c: "news_create_group uc w 0 (NewsgroupCreate_name create) (NewsgroupCreate_description create)
        (NewsgroupCreate_min_read_class create) (NewsgroupCreate_min_post_class create) s = (x, s1)" by fastforce
    have "I (nw_db (snd (news_create_group uc w 0 n d r q s)))" for n d r q
      by (rule made_group_keeps [where I = I, OF assms(1,2)]) (use True assms(3) in blast)
    with c have "I (nw_db s1)" by (metis snd_conv)
    then show ?thesis
      using e True c assms(2) list_keeps [where I = I, OF assms(1)]
      by (simp add: newsgroup_create_def send_refusal_def split: result.splits) (metis note_db)+
  qed (use e assms(2) in \<open>auto simp: newsgroup_create_def\<close>)
next
  assume e: "(reply, s') = newsgroup_update uc w session update s"
  show ?thesis
  proof (cases "resolve_actor (nw_ctx s) session USER_ADMIN")
    case (Ok actor)
    let ?reader = "class_byte (au_class (ac_authority actor))"
    have a: "has (s_privileges session) USER_ADMIN" "uint ?reader \<le> int (class_u8 (s_class session))"
      using resolved_actor [OF Ok] by (simp_all add: class_byte_bounds class_u8_less)
    obtain x s1 where c: "news_update_group uc w 0 (NewsgroupUpdate_id update) (NewsgroupUpdate_name update)
        (NewsgroupUpdate_description update) (NewsgroupUpdate_min_read_class update) (NewsgroupUpdate_min_post_class update) ?reader s = (x, s1)"
      by fastforce
    have "I (nw_db (snd (news_update_group uc w 0 i n d r q ?reader s)))" for i n d r q
      by (rule updated_group_keeps [where I = I, OF assms(1,2)]) (use a assms(4) in blast)
    with c have "I (nw_db s1)" by (metis snd_conv)
    then show ?thesis
      using e Ok c assms(2) list_keeps [where I = I, OF assms(1)]
      by (simp add: newsgroup_update_def send_refusal_def split: result.splits) (metis note_db)+
  qed (use e assms(2) in \<open>auto simp: newsgroup_update_def send_refusal_def\<close>)
next
  assume e: "(reply, s') = newsgroup_delete uc w session delete s"
  show ?thesis
  proof (cases "resolve_actor (nw_ctx s) session USER_ADMIN")
    case (Ok actor)
    let ?reader = "class_byte (au_class (ac_authority actor))"
    have a: "has (s_privileges session) USER_ADMIN" "uint ?reader \<le> int (class_u8 (s_class session))"
      using resolved_actor [OF Ok] by (simp_all add: class_byte_bounds class_u8_less)
    obtain x s1 where c: "news_delete_group uc w 0 (NewsgroupDelete_id delete) ?reader s = (x, s1)" by fastforce
    have "I (nw_db (snd (news_delete_group uc w 0 i ?reader s)))" for i
      by (rule deleted_group_keeps [where I = I, OF assms(1,2)]) (use a assms(5) in blast)
    with c have "I (nw_db s1)" by (metis snd_conv)
    then show ?thesis
      using e Ok c assms(2) list_keeps [where I = I, OF assms(1)]
      by (simp add: newsgroup_delete_def send_refusal_def split: result.splits prod.splits) (metis note_db)+
  qed (use e assms(2) in \<open>auto simp: newsgroup_delete_def send_refusal_def\<close>)
qed

lemma thread_list_keeps:
  assumes "keeps I w" and "I (nw_db s)" and "news_thread_list uc w session m s = (reply, s')"
  shows "I (nw_db s')"
proof -
  obtain r s1 where g: "news_group uc w 0 (NewsThreadListRequest_newsgroup_id m) s = (r, s1)" by fastforce
  then have "I (nw_db s1)" using group_keeps [where I = I, OF assms(1,2)] by blast
  then show ?thesis
    using assms(3) g
    by (auto simp: news_thread_list_def split: if_splits result.splits dest!: thread_keeps [where I = I, OF assms(1), rotated])
qed

lemma post_create_keeps:
  assumes "keeps I w" and "I (nw_db s)"
    and "\<And>db fresh n parent t b at. I db \<Longrightarrow> I (snd (db_create_post fresh n parent (s_username session) t b at db))"
    and "news_post_create uc w session m s = (reply, s')"
  shows "I (nw_db s')"
proof -
  have made: "I (nw_db s1) \<Longrightarrow> I (nw_db (snd (news_create_post uc w k i parent (s_username session) t b at s1)))" for s1 k i parent t b at
    unfolding news_create_post_def
    using exec_keeps [where I = I and f = "db_create_post (uu_show uc (fresh_id w)) (uu_show uc i) (map_option (uu_show uc) parent)
        (s_username session) t b (sint at)", OF assms(1) _ assms(3), of s1 k]
    by (auto split: prod.splits result.splits)
  obtain r s1 where g: "news_group uc w 0 (NewsPostCreate_newsgroup_id m) s = (r, s1)" by fastforce
  then have s1: "I (nw_db s1)" using group_keeps [where I = I, OF assms(1,2)] by blast
  obtain x s2 where c: "news_create_post uc w 1 (NewsPostCreate_newsgroup_id m)
      (if NewsPostCreate_parent_id m \<noteq> replicate 16 0 then Some (NewsPostCreate_parent_id m) else None) (s_username session)
      (NewsPostCreate_subject m) (NewsPostCreate_body m) (unix_now w) s1 = (x, s2)" by fastforce
  have "I (nw_db s2)" using made [OF s1] c by (metis snd_conv)
  then show ?thesis
    using assms(2,4) g s1 c
    by (auto simp: news_post_create_def Let_def split: if_splits result.splits dest!: thread_keeps [where I = I, OF assms(1), rotated])
qed

lemma post_delete_keeps:
  assumes "keeps I w" and "I (nw_db s)"
    and "\<And>db i. I db \<Longrightarrow> has (s_privileges session) USER_ADMIN \<Longrightarrow> I (snd (db_delete_post i db))"
    and "\<And>db i outcome. I db \<Longrightarrow> db_delete_own_post i (s_username session) db = Some outcome \<Longrightarrow> I (snd outcome)"
    and "news_post_delete uc w session m s = Some (reply, s')"
  shows "I (nw_db s')"
proof -
  obtain r s1 where p: "news_post uc w 0 (NewsPostDelete_post_id m) s = (r, s1)" by fastforce
  then have s1: "I (nw_db s1)" using post_keeps [where I = I, OF assms(1,2)] by blast
  show ?thesis
  proof (cases r)
    case (Ok post)
    obtain x s2 where g: "news_group uc w 1 (pt_newsgroup_id post) s1 = (x, s2)" by fastforce
    then have s2: "I (nw_db s2)" using group_keeps [where I = I, OF assms(1) s1] by blast
    have a: "I (nw_db (snd (then_do (news_delete_post uc w 2 (NewsPostDelete_post_id m) s2) (\<lambda>_ s. (Ok True :: (bool, NewsError) result, s)))))"
      if "has (s_privileges session) USER_ADMIN"
      using exec_keeps [where I = I, OF assms(1) s2 assms(3)] that by (intro then_do_keeps [where I = I]) (auto simp: news_delete_post_def)
    have o: "I (nw_db (snd outcome))"
      if "news_delete_own_post uc w 2 (NewsPostDelete_post_id m) (s_username session) s2 = Some outcome" for outcome
    proof -
      have w: "I (others w 2 (nw_db s2))" using assms(1) s2 by (simp add: keeps_def)
      show ?thesis
        using that w assms(4) [OF w]
        by (auto simp: news_delete_own_post_def exec_def Let_def split: option.splits if_splits prod.splits result.splits)
    qed
    show ?thesis
      using assms(5) p Ok g s2 a o
      by (auto simp: news_post_delete_def Let_def split: if_splits result.splits prod.splits bool.splits
          dest!: thread_keeps [where I = I, OF assms(1), rotated])
  qed (use assms(5) p s1 in \<open>auto simp: news_post_delete_def\<close>)
qed

text \<open>What a session's request keeps: anything that each statement it may make keeps.\<close>

lemma request_keeps:
  assumes "news_request uc w session t payload s = Answers reply s'" and "keeps I w" and "I (nw_db s)"
    and "\<And>db name d r q. I db \<Longrightarrow> has (s_privileges session) USER_ADMIN \<Longrightarrow> 0 \<le> r \<Longrightarrow> r \<le> 3 \<Longrightarrow> 0 \<le> q \<Longrightarrow> q \<le> 3 \<Longrightarrow>
      I (snd (db_create_group (uu_show uc (fresh_id w)) name d r q db))"
    and "\<And>db i name d r q reader. I db \<Longrightarrow> has (s_privileges session) USER_ADMIN \<Longrightarrow> reader \<le> int (class_u8 (s_class session)) \<Longrightarrow>
      0 \<le> r \<Longrightarrow> r \<le> 3 \<Longrightarrow> 0 \<le> q \<Longrightarrow> q \<le> 3 \<Longrightarrow> I (snd (db_update_group i name d r q reader db))"
    and "\<And>db i reader. I db \<Longrightarrow> has (s_privileges session) USER_ADMIN \<Longrightarrow> reader \<le> int (class_u8 (s_class session)) \<Longrightarrow>
      I (snd (db_delete_group i reader db))"
    and "\<And>db fresh n parent t b at. I db \<Longrightarrow> I (snd (db_create_post fresh n parent (s_username session) t b at db))"
    and "\<And>db i. I db \<Longrightarrow> has (s_privileges session) USER_ADMIN \<Longrightarrow> I (snd (db_delete_post i db))"
    and "\<And>db i outcome. I db \<Longrightarrow> db_delete_own_post i (s_username session) db = Some outcome \<Longrightarrow> I (snd outcome)"
  shows "I (nw_db s')"
proof -
  have g: "I (nw_db s')" if "(reply, s') = newsgroup_create uc w session create s \<or> (reply, s') = newsgroup_update uc w session update s \<or>
      (reply, s') = newsgroup_delete uc w session delete s" for create update delete
    by (rule conjunct1 [OF group_request_keeps [where I = I, OF assms(2,3) _ _ _ that]]) (use assms(4-6) in blast)+
  have p: "I (nw_db s')" if "news_post_create uc w session m s = (reply, s')" for m
    by (rule post_create_keeps [where I = I, OF assms(2,3) _ that]) (rule assms(7))
  have x: "I (nw_db s')" if "news_post_delete uc w session m s = Some (reply, s')" for m
    by (rule post_delete_keeps [where I = I, OF assms(2,3) _ _ that]) (rule assms(8) assms(9); assumption)+
  show ?thesis
    using assms(1) list_keeps [where I = I, OF assms(2,3)] thread_list_keeps [where I = I, OF assms(2,3)]
    by (simp add: news_request_def decoded_def split: if_splits result.splits option.splits prod.splits)
      (use g p x in \<open>metis\<close>)+
qed

section \<open>The invariant\<close>

lemma decoded_hangs [simp]: "decoded req handler = Hangs \<longleftrightarrow> req = Panic \<or> (\<exists>r. req = Ok r \<and> handler r = None)"
  by (auto simp: decoded_def split: result.split option.split)

lemma keeps_ok_ends:
  assumes "keeps news_ok w" and "news_ok (nw_db s)"
  shows "news_request uc w session t payload s \<noteq> Hangs"
proof -
  have own: "news_ok db \<Longrightarrow> db_delete_own_post i a db \<noteq> None" for i a db using delete_own_ends by fastforce
  have "news_post_delete uc w session m s \<noteq> None" for m
  proof -
    obtain r s1 where p: "news_post uc w 0 (NewsPostDelete_post_id m) s = (r, s1)" by fastforce
    then have s1: "news_ok (nw_db s1)" using post_keeps [where I = news_ok, OF assms] by blast
    show ?thesis
    proof (cases r)
      case (Ok post)
      obtain x s2 where g: "news_group uc w 1 (pt_newsgroup_id post) s1 = (x, s2)" by fastforce
      then have "news_ok (nw_db s2)" using group_keeps [where I = news_ok, OF assms(1) s1] by blast
      then have "news_ok (others w 2 (nw_db s2))" using assms(1) by (simp add: keeps_def)
      then have "news_delete_own_post uc w 2 i a s2 \<noteq> None" for i a
        using own [of "others w 2 (nw_db s2)" "uu_show uc i" a] by (auto simp: news_delete_own_post_def split: option.split)
      then obtain outcome where "news_delete_own_post uc w 2 (NewsPostDelete_post_id m) (s_username session) s2 = Some outcome" by blast
      then show ?thesis using p Ok g by (cases x) (simp_all add: news_post_delete_def Let_def)
    qed (use p in \<open>auto simp: news_post_delete_def\<close>)
  qed
  then show ?thesis
    by (simp add: news_request_def NewsgroupListRequest_msg.dec_no_panic NewsgroupCreate_msg.dec_no_panic
        NewsgroupUpdate_msg.dec_no_panic NewsgroupDelete_msg.dec_no_panic NewsThreadListRequest_msg.dec_no_panic
        NewsPostCreate_msg.dec_no_panic NewsPostDelete_msg.dec_no_panic)
qed

text \<open>A history of the news: any requests of any sessions, other connections working in between.\<close>

inductive news_run :: "news_server \<Rightarrow> bool" where
  empty: "nw_db s = \<lparr>newsgroups = [], news_posts = []\<rparr> \<Longrightarrow> news_run s"
| request: "news_run s \<Longrightarrow> keeps news_ok w \<Longrightarrow> news_request uc w session t payload s = Answers reply s' \<Longrightarrow> news_run s'"
| accounts: "news_run s \<Longrightarrow> news_run (s\<lparr>nw_ctx := ctx\<rparr>)"

lemma request_ok:
  assumes "news_request uc w session t payload s = Answers reply s'" and "keeps news_ok w" and "news_ok (nw_db s)"
  shows "news_ok (nw_db s')"
proof (rule request_keeps [where I = news_ok, OF assms])
  show "news_ok (snd outcome)" if "news_ok db" "db_delete_own_post i (s_username session) db = Some outcome" for db i outcome
    using delete_own_ends [OF that(1), of i "s_username session"] that(2) by simp
qed (blast intro: create_group_ok update_group_ok delete_group_ok create_post_ok delete_post_ok)+

text \<open>The news stays a forest: whatever requests connections make, interleaved statement by
  statement, the newsgroups keep distinct identities and names and thresholds from guest to admin,
  every post belongs to a newsgroup that exists and every reply to a post of the same newsgroup that
  was there before it; so the recursive query of a deletion ends, and every request is answered.\<close>

lemma news_stays_forest:
  assumes "news_run s" and "keeps news_ok w"
  shows "news_ok (nw_db s) \<and> news_request uc w session t payload s \<noteq> Hangs"
proof -
  from assms(1) have "news_ok (nw_db s)"
  proof (induction rule: news_run.induct)
    case (empty s)
    then show ?case by (simp add: news_ok_def threaded.no_posts)
  qed (use request_ok in simp_all)
  with keeps_ok_ends [OF assms(2)] show ?thesis by blast
qed

section \<open>Words of one's own\<close>

lemma own_delete_spares:
  assumes "news_ok db" and "p \<in> set (news_posts db)" and "po_author p \<noteq> author" and "db_delete_own_post i author db = Some outcome"
  shows "p \<in> set (news_posts (snd outcome))"
proof (rule ccontr)
  assume gone: "p \<notin> set (news_posts (snd outcome))"
  from assms(4) obtain ids where ids: "subtree (news_posts db) (kids (news_posts db) i) = Some ids"
      and out: "news_posts (snd outcome) = delete_where (\<lambda>q. po_id q = i \<and> po_author q = author \<and>
          \<not> (\<exists>q\<in>set (news_posts db). po_id q \<in> set ids \<and> po_author q \<noteq> author)) (news_posts db)"
    by (auto simp: db_delete_own_post_def Let_def split: option.splits)
  let ?P = "\<lambda>q. po_id q = i \<and> po_author q = author \<and> \<not> (\<exists>q\<in>set (news_posts db). po_id q \<in> set ids \<and> po_author q \<noteq> author)"
  have c: "set (kids (news_posts db) i) \<subseteq> set ids" "\<forall>i\<in>set ids. set (kids (news_posts db) i) \<subseteq> set ids"
    using subtree_closed [OF ids] by simp_all
  have "po_id p \<in> insert i (set ids)"
  proof (rule delete_where_within [where P = ?P and posts = "news_posts db"])
    show "po_id q \<in> insert i (set ids)"
      if "q \<in> set (news_posts db)" "case po_parent_id q of Some j \<Rightarrow> j \<in> insert i (set ids) | None \<Rightarrow> False" for q
      using that c by (fastforce simp: kids_def split: option.splits)
  qed (use assms(2) gone out in auto)
  moreover have "\<exists>q\<in>set (news_posts db). ?P q"
  proof (rule ccontr)
    assume "\<not> ?thesis"
    then have "delete_where ?P (news_posts db) = news_posts db" by (intro delete_where_none) blast
    with gone out assms(2) show False by simp
  qed
  then obtain q where "q \<in> set (news_posts db)" "?P q" by blast
  ultimately show False
    using assms(1-3) threaded_ids [of "ng_id ` set (newsgroups db)" "news_posts db"]
    by (auto simp: news_ok_def distinct_map inj_on_def)
qed

section \<open>Closed newsgroups\<close>

text \<open>\<open>closed\<close>: the newsgroup, if it exists, is above what class \<open>c\<close> may read.\<close>

definition closed_to :: "uuid_codec \<Rightarrow> BaseClass \<Rightarrow> bytes \<Rightarrow> News \<Rightarrow> bool" where
  "closed_to uc c i db \<longleftrightarrow> (\<forall>g\<in>set (newsgroups db). uu_parse uc (ng_id g) = Some i \<longrightarrow> int (class_u8 c) < ng_min_read_class g)"

definition uuid_text_laws :: "uuid_codec \<Rightarrow> bool" where
  "uuid_text_laws uc \<longleftrightarrow> (\<forall>i. length i = 16 \<longrightarrow> uu_parse uc (uu_show uc i) = Some i) \<and>
     (\<forall>t i. uu_parse uc t = Some i \<longrightarrow> length i = 16)"

definition shut :: "uuid_codec \<Rightarrow> BaseClass \<Rightarrow> bytes \<Rightarrow> News \<Rightarrow> bool" where
  "shut uc c i db \<longleftrightarrow> news_ok db \<and> closed_to uc c i db"

lemma shut_threshold:
  assumes "shut uc c i db" and "g \<in> set (newsgroups db)" and "group_from_row uc g = Ok gr" and "gr_id gr = i"
  shows "class_byte c < gr_min_read_class gr"
proof -
  have "int (class_u8 c) < ng_min_read_class g" "0 \<le> ng_min_read_class g" "ng_min_read_class g \<le> 3" "uu_parse uc (ng_id g) = Some i"
    and gr: "gr_min_read_class gr = word_of_int (ng_min_read_class g)"
    using assms by (auto simp: shut_def closed_to_def news_ok_def group_from_row_def split: option.splits)
  moreover from this have "uint (word_of_int (ng_min_read_class g) :: u8) = ng_min_read_class g"
    by (simp add: uint_word_of_int_eq take_bit_int_eq_self)
  ultimately show ?thesis by (simp add: word_less_def class_byte_bounds(1) gr)
qed

lemma collect_ok_mem: "collect_ok f xs = Ok ys \<Longrightarrow> y \<in> set ys \<Longrightarrow> \<exists>x\<in>set xs. f x = Ok y"
  by (induction xs arbitrary: ys) auto

lemma found_group:
  assumes "news_group uc w k j s = (Ok gr, s')" and "length j = 16" and "uuid_text_laws uc"
  shows "gr_id gr = j \<and> (\<exists>g\<in>set (newsgroups (nw_db s')). group_from_row uc g = Ok gr)"
proof -
  obtain found where e: "exec w k (db_group_by_id (uu_show uc j)) s = (Ok found, s')"
      and f: "(case found of None \<Rightarrow> Err NoSuchGroup | Some row \<Rightarrow> group_from_row uc row) = Ok gr"
    using assms(1) by (auto simp: news_group_def then_do_def split: prod.splits result.splits)
  from exec_at [OF e] have "find (\<lambda>g. ng_id g = uu_show uc j) (newsgroups (nw_db s')) = found"
    by (auto simp: db_group_by_id_def)
  with f obtain row where r: "row \<in> set (newsgroups (nw_db s'))" "ng_id row = uu_show uc j" "group_from_row uc row = Ok gr"
    by (cases found) (auto simp: find_Some_iff, metis nth_mem)
  moreover have "gr_id gr = j" using r(2,3) assms(2,3) by (auto simp: group_from_row_def uuid_text_laws_def)
  ultimately show ?thesis by blast
qed

lemma post_from_row_fields:
  assumes "post_from_row uc r = Ok p"
  shows "uu_parse uc (po_newsgroup_id r) = Some (pt_newsgroup_id p) \<and> uu_parse uc (po_id r) = Some (pt_id p) \<and> pt_author p = po_author r"
  using assms
  by (cases "uu_parse uc (po_id r)"; cases "uu_parse uc (po_newsgroup_id r)"; cases "parse_parent uc (po_parent_id r)")
    (auto simp: post_from_row_def)

lemma threads_apart:
  assumes "recent_posts uc w k j n s = (Ok posts, s')" and "length j = 16" and "uuid_text_laws uc" and "p \<in> set posts"
  shows "pt_newsgroup_id p = j"
proof -
  obtain rows where e: "exec w k (db_recent_posts (uu_show uc j) n) s = (Ok rows, s')" "collect_ok (post_from_row uc) rows = Ok posts"
    using assms(1) by (auto simp: recent_posts_def then_do_def split: prod.splits result.splits)
  from collect_ok_mem [OF e(2) assms(4)] obtain r where r: "r \<in> set rows" "post_from_row uc r = Ok p" by blast
  have "set rows \<subseteq> {r. po_newsgroup_id r = uu_show uc j}"
    using exec_at [OF e(1)] by (auto simp: db_recent_posts_def dest!: in_set_takeD)
  with r assms(2,3) post_from_row_fields [OF r(2)] show ?thesis by (auto simp: uuid_text_laws_def)
qed

lemma fill_window_subset: "set (fill_window b posts) \<subseteq> set posts"
  by (induction b posts rule: fill_window.induct) auto

lemma rootless_fields [simp]: "pt_newsgroup_id (rootless ids p) = pt_newsgroup_id p" "pt_id (rootless ids p) = pt_id p"
    "pt_author (rootless ids p) = pt_author p"
  by (simp_all add: rootless_def split: option.split)

lemma window_groups: "p \<in> set (reply_window posts) \<Longrightarrow> \<exists>q\<in>set posts. pt_newsgroup_id p = pt_newsgroup_id q"
  using fill_window_subset [of THREAD_REPLY_MAX_BYTES posts] by (auto simp: reply_window_def Let_def)

text \<open>What a reply says: a refusal, newsgroups, or posts.\<close>

definition tells_nothing_of :: "bytes \<Rightarrow> (Post \<Rightarrow> bool) \<Rightarrow> Outbound \<Rightarrow> bool" where
  "tells_nothing_of i own reply \<longleftrightarrow>
     (\<exists>message. reply = send_error message) \<or>
     (\<exists>groups. reply = news_frame PacketType.NewsgroupListResponse
        (NewsgroupListResponse_encode \<lparr>NewsgroupListResponse_groups = map group_info groups\<rparr>) \<and> (\<forall>g\<in>set groups. gr_id g \<noteq> i)) \<or>
     (\<exists>j posts. reply = send_thread_list j posts \<and> (\<forall>p\<in>set posts. pt_newsgroup_id p = i \<longrightarrow> own p))"

lemma tells_error [simp]: "tells_nothing_of i own (send_error m)" "tells_nothing_of i own (send_refusal r)"
  by (auto simp: tells_nothing_of_def send_refusal_def)

lemma tells_thread: "(\<And>p. p \<in> set posts \<Longrightarrow> pt_newsgroup_id p = i \<Longrightarrow> own p) \<Longrightarrow> tells_nothing_of i own (send_thread_list j posts)"
  unfolding tells_nothing_of_def by blast

lemma tells_groups: "(\<And>g. g \<in> set groups \<Longrightarrow> gr_id g \<noteq> i) \<Longrightarrow> tells_nothing_of i own (news_frame PacketType.NewsgroupListResponse
    (NewsgroupListResponse_encode \<lparr>NewsgroupListResponse_groups = map group_info groups\<rparr>))"
  unfolding tells_nothing_of_def by blast

lemma list_tells:
  assumes "keeps (shut uc (s_class session) i) w" and "shut uc (s_class session) i (nw_db s)"
  shows "tells_nothing_of i own (fst (reply_newsgroup_list uc w k session s))"
proof -
  obtain r s1 where l: "list_groups uc w k s = (r, s1)" by fastforce
  have shut: "shut uc (s_class session) i (nw_db s1)"
    using reads_keep(1) [where I = "shut uc (s_class session) i", OF assms, of uc k] l by simp
  show ?thesis
  proof (cases r)
    case (Ok groups)
    then obtain rows where e: "exec w k db_all_groups s = (Ok rows, s1)" "collect_ok (group_from_row uc) rows = Ok groups"
      using l by (auto simp: list_groups_def then_do_def split: prod.splits result.splits)
    have rows: "set rows = set (newsgroups (nw_db s1))" using exec_at [OF e(1)] by (auto simp: db_all_groups_def)
    have "gr_id g \<noteq> i" if g: "g \<in> set groups" "gr_min_read_class g \<le> class_byte (s_class session)" for g
    proof
      assume i: "gr_id g = i"
      from collect_ok_mem [OF e(2) g(1)] obtain row where "row \<in> set (newsgroups (nw_db s1))" "group_from_row uc row = Ok g"
        using rows by blast
      from shut_threshold [OF shut this i] g(2) show False by simp
    qed
    then have "tells_nothing_of i own (news_frame PacketType.NewsgroupListResponse (NewsgroupListResponse_encode
        \<lparr>NewsgroupListResponse_groups = map group_info (filter (\<lambda>g. class_byte (s_class session) \<ge> gr_min_read_class g) groups)\<rparr>))"
      by (intro tells_groups) auto
    then show ?thesis using l Ok by (simp add: reply_newsgroup_list_def answer_def then_do_def)
  qed (use l in \<open>simp_all add: reply_newsgroup_list_def answer_def then_do_def\<close>)
qed

lemma thread_tells:
  assumes "length j = 16" and "uuid_text_laws uc" and "j \<noteq> i"
  shows "tells_nothing_of i own (fst (reply_thread_list uc w k j s))"
proof -
  obtain r s1 where l: "recent_posts uc w k j THREAD_REPLY_MAX_POSTS s = (r, s1)" by fastforce
  show ?thesis
  proof (cases r)
    case (Ok posts)
    then have "\<forall>p\<in>set (reply_window posts). pt_newsgroup_id p \<noteq> i"
      using threads_apart [OF _ assms(1,2)] l window_groups assms(3) by metis
    then have "tells_nothing_of i own (send_thread_list j (reply_window posts))" by (intro tells_thread) blast
    then show ?thesis using l Ok by (simp add: reply_thread_list_def answer_def then_do_def)
  qed (use l in \<open>simp_all add: reply_thread_list_def answer_def then_do_def\<close>)
qed

lemma id_lengths:
  "NewsThreadListRequest_decode payload = Ok req \<Longrightarrow> length (NewsThreadListRequest_newsgroup_id req) = 16"
  "NewsPostCreate_decode payload = Ok m \<Longrightarrow> length (NewsPostCreate_newsgroup_id m) = 16"
  by (simp_all add: NewsThreadListRequest_msg.dec_ok NewsPostCreate_msg.dec_ok NewsThreadListRequest_wf_def NewsPostCreate_wf_def array_ok_def)

lemma thread_list_tells:
  assumes "keeps (shut uc (s_class session) i) w" and "shut uc (s_class session) i (nw_db s)" and "uuid_text_laws uc"
    and "length (NewsThreadListRequest_newsgroup_id req) = 16" and "news_thread_list uc w session req s = (reply, s')"
  shows "tells_nothing_of i own reply"
proof -
  let ?j = "NewsThreadListRequest_newsgroup_id req"
  obtain r s1 where g: "news_group uc w 0 ?j s = (r, s1)" by fastforce
  have shut: "shut uc (s_class session) i (nw_db s1)" using group_keeps [where I = "shut uc (s_class session) i", OF assms(1,2) g] .
  show ?thesis
  proof (cases r)
    case (Ok gr)
    then have f: "gr_id gr = ?j" "\<exists>g\<in>set (newsgroups (nw_db s1)). group_from_row uc g = Ok gr"
      using found_group [OF _ assms(4,3)] g by auto
    show ?thesis
    proof (cases "?j = i")
      case True
      with f shut_threshold [OF shut] have "class_byte (s_class session) < gr_min_read_class gr" by auto
      then show ?thesis using assms(5) g Ok by (auto simp: news_thread_list_def)
    next
      case False
      then show ?thesis
        using assms(5) g Ok thread_tells [OF assms(4,3) False, of own w 1 s1] by (auto simp: news_thread_list_def split: if_splits)
    qed
  qed (use assms(5) g in \<open>auto simp: news_thread_list_def\<close>)
qed

lemma created_fields:
  assumes "news_create_post uc w k j parent a ti b at s = (Ok p, s')" and "length (fresh_id w) = 16" and "uuid_text_laws uc"
  shows "pt_id p = fresh_id w \<and> pt_author p = a"
proof -
  obtain row where e: "exec w k (db_create_post (uu_show uc (fresh_id w)) (uu_show uc j) (map_option (uu_show uc) parent) a ti b (sint at)) s = (Ok row, s')"
      and r: "post_from_row uc row = Ok p"
    using assms(1) by (auto simp: news_create_post_def split: prod.splits result.splits)
  from exec_at [OF e] have "po_id row = uu_show uc (fresh_id w)" "po_author row = a"
    by (auto simp: db_create_post_def Let_def split: if_splits)
  with post_from_row_fields [OF r] assms(2,3) show ?thesis by (auto simp: uuid_text_laws_def)
qed

lemma post_create_tells:
  assumes "keeps (shut uc (s_class session) i) w" and "shut uc (s_class session) i (nw_db s)" and "uuid_text_laws uc"
    and "length (NewsPostCreate_newsgroup_id m) = 16" and "length (fresh_id w) = 16"
    and "news_post_create uc w session m s = (reply, s')"
  shows "tells_nothing_of i (\<lambda>p. pt_id p = fresh_id w \<and> pt_author p = s_username session) reply"
proof -
  let ?j = "NewsPostCreate_newsgroup_id m" and ?own = "\<lambda>p. pt_id p = fresh_id w \<and> pt_author p = s_username session"
  obtain r s1 where g: "news_group uc w 0 ?j s = (r, s1)" by fastforce
  have shut: "shut uc (s_class session) i (nw_db s1)" using group_keeps [where I = "shut uc (s_class session) i", OF assms(1,2) g] .
  obtain x s2 where c: "news_create_post uc w 1 ?j
      (if NewsPostCreate_parent_id m \<noteq> replicate 16 0 then Some (NewsPostCreate_parent_id m) else None) (s_username session)
      (NewsPostCreate_subject m) (NewsPostCreate_body m) (unix_now w) s1 = (x, s2)" by fastforce
  have made: "tells_nothing_of i ?own (send_thread_list ?j [p])" if "x = Ok p" for p
    using created_fields [OF c [unfolded that] assms(5,3)] by (intro tells_thread) simp
  show ?thesis
  proof (cases r)
    case (Ok gr)
    then have f: "gr_id gr = ?j" "\<exists>g\<in>set (newsgroups (nw_db s1)). group_from_row uc g = Ok gr"
      using found_group [OF _ assms(4,3)] g by auto
    have "class_byte (s_class session) < gr_min_read_class gr" if "?j = i"
      using f shut_threshold [OF shut] that by auto
    then show ?thesis
      using assms(6) g Ok c made thread_tells [OF assms(4,3), of i ?own w 2 s2]
      by (auto simp: news_post_create_def Let_def split: if_splits result.splits)
  qed (use assms(6) g in \<open>auto simp: news_post_create_def Let_def split: result.splits\<close>)
qed

lemma post_delete_tells:
  assumes "keeps (shut uc (s_class session) i) w" and "shut uc (s_class session) i (nw_db s)" and "uuid_text_laws uc"
    and "news_post_delete uc w session m s = Some (reply, s')"
  shows "tells_nothing_of i own reply"
proof -
  obtain r s1 where p: "news_post uc w 0 (NewsPostDelete_post_id m) s = (r, s1)" by fastforce
  have s1: "shut uc (s_class session) i (nw_db s1)" using post_keeps [where I = "shut uc (s_class session) i", OF assms(1,2) p] .
  show ?thesis
  proof (cases r)
    case (Ok post)
    then obtain found where "(case found of None \<Rightarrow> Err NoSuchPost | Some row \<Rightarrow> post_from_row uc row) = Ok post"
      using p by (auto simp: news_post_def then_do_def split: prod.splits result.splits)
    then have j: "length (pt_newsgroup_id post) = 16"
      using post_from_row_fields assms(3) by (fastforce simp: uuid_text_laws_def split: option.splits)
    obtain x s2 where g: "news_group uc w 1 (pt_newsgroup_id post) s1 = (x, s2)" by fastforce
    have shut: "shut uc (s_class session) i (nw_db s2)" using group_keeps [where I = "shut uc (s_class session) i", OF assms(1) s1 g] .
    have empty: "tells_nothing_of i own (send_thread_list k [])" for k by (intro tells_thread) simp
    show ?thesis
    proof (cases x)
      case (Ok gr)
      then have f: "gr_id gr = pt_newsgroup_id post" "\<exists>g\<in>set (newsgroups (nw_db s2)). group_from_row uc g = Ok gr"
        using found_group [OF _ j assms(3)] g by auto
      have apart: "pt_newsgroup_id post \<noteq> i" if "gr_min_read_class gr \<le> class_byte (s_class session)"
        using f shut_threshold [OF shut] that by fastforce
      show ?thesis
        using assms(4) p \<open>r = Ok post\<close> g Ok empty thread_tells [OF j assms(3) apart, of own w 3]
        by (auto simp: news_post_delete_def Let_def split: if_splits result.splits bool.splits prod.splits) (metis fst_conv)+
    qed (use assms(4) p \<open>r = Ok post\<close> g in \<open>auto simp: news_post_delete_def\<close>)
  qed (use assms(4) p in \<open>auto simp: news_post_delete_def\<close>)
qed

text \<open>A newsgroup above a session's class stays closed to it: no reply to any of its requests
  lists the newsgroup or shows a post of it, except the one it has just made there, and no request of
  its own lowers what reading the newsgroup takes - as long as nobody who may lowers it meanwhile.\<close>

lemma closed_stays_closed:
  assumes "news_request uc w session t payload s = Answers reply s'" and "uuid_text_laws uc"
    and "keeps (shut uc (s_class session) i) w" and "shut uc (s_class session) i (nw_db s)"
    and "length (fresh_id w) = 16" and "fresh_id w \<noteq> i"
  shows "tells_nothing_of i (\<lambda>p. pt_id p = fresh_id w \<and> pt_author p = s_username session) reply \<and>
    shut uc (s_class session) i (nw_db s')"
proof
  let ?I = "shut uc (s_class session) i" and ?own = "\<lambda>p. pt_id p = fresh_id w \<and> pt_author p = s_username session"
  have create: "?I (snd (db_create_group (uu_show uc (fresh_id w)) name d r q db))"
    if "?I db" "0 \<le> r" "r \<le> 3" "0 \<le> q" "q \<le> 3" for db name d r q
    using that create_group_ok [of db r q] assms(2,5,6)
    by (auto simp: shut_def closed_to_def uuid_text_laws_def db_create_group_def Let_def)
  have update: "?I (snd (db_update_group j name d r q reader db))"
    if "?I db" "reader \<le> int (class_u8 (s_class session))" "0 \<le> r" "r \<le> 3" "0 \<le> q" "q \<le> 3" for db j name d r q reader
    using that update_group_ok [of db r q] by (auto simp: shut_def closed_to_def db_update_group_def Let_def)
  have delete: "?I (snd (db_delete_group j reader db))" if "?I db" for db j reader
    using that delete_group_ok [of db] by (auto simp: shut_def closed_to_def db_delete_group_def split: option.splits)
  show "?I (nw_db s')"
  proof (rule request_keeps [where I = ?I, OF assms(1,3,4)])
    show "?I (snd outcome)" if "?I db" "db_delete_own_post k (s_username session) db = Some outcome" for db k outcome
      using that delete_own_ends [of db k "s_username session"]
      by (auto simp: shut_def closed_to_def db_delete_own_post_def Let_def split: option.splits)
    show "?I (snd (db_create_post fresh n parent (s_username session) ti b at db))" if "?I db" for db fresh n parent ti b at
      using that create_post_ok [of db] by (auto simp: shut_def closed_to_def db_create_post_def Let_def)
    show "?I (snd (db_delete_post k db))" if "?I db" for db k
      using that delete_post_ok [of db] by (auto simp: shut_def closed_to_def db_delete_post_def)
  qed (use create update delete in blast)+
  have groups: "tells_nothing_of i ?own reply" if "(reply, s') = newsgroup_create uc w session c s \<or>
      (reply, s') = newsgroup_update uc w session u s \<or> (reply, s') = newsgroup_delete uc w session d s" for c u d
  proof -
    have "(\<exists>m. reply = send_error m) \<or> (\<exists>k s1. ?I (nw_db s1) \<and> reply_newsgroup_list uc w k session s1 = (reply, s'))"
      by (rule conjunct2 [OF group_request_keeps [where I = ?I, OF assms(3,4) _ _ _ that]]) (use create update delete in blast)+
    then show ?thesis
    proof (elim disjE exE conjE)
      fix k s1
      assume "?I (nw_db s1)" and "reply_newsgroup_list uc w k session s1 = (reply, s')"
      then show ?thesis using list_tells [OF assms(3), of s1 ?own k] by simp
    qed simp
  qed
  have listed: "tells_nothing_of i ?own reply" if "reply_newsgroup_list uc w 0 session s = (reply, s')"
    using list_tells [OF assms(3,4), of ?own 0] that by simp
  have thread: "tells_nothing_of i ?own reply"
    if "NewsThreadListRequest_decode payload = Ok m" "news_thread_list uc w session m s = (reply, s')" for m
    by (rule thread_list_tells [OF assms(3,4,2) id_lengths(1) [OF that(1)] that(2)])
  have post: "tells_nothing_of i ?own reply"
    if "NewsPostCreate_decode payload = Ok m" "news_post_create uc w session m s = (reply, s')" for m
    by (rule post_create_tells [OF assms(3,4,2) id_lengths(2) [OF that(1)] assms(5) that(2)])
  have del: "tells_nothing_of i ?own reply" if "news_post_delete uc w session m s = Some (reply, s')" for m
    by (rule post_delete_tells [OF assms(3,4,2) that])
  from assms(1) show "tells_nothing_of i ?own reply"
    by (simp add: news_request_def decoded_def split: if_splits result.splits option.splits prod.splits)
      (use listed thread post del groups in \<open>metis\<close>)+
qed

section \<open>Properties\<close>

text \<open>Property C40. Nobody speaks for another, and nobody but an administrator of accounts silences
  another: a request never brings in a post under a name that is not the session's, and a request of a
  session without \<open>USER_ADMIN\<close> leaves every post of every other author where it is, replies to the
  session's own posts included, whatever is deleted and whatever others do meanwhile.\<close>

theorem words_are_ones_own:
  assumes "news_request uc w session t payload s = Answers reply s'" and "po_author p \<noteq> s_username session"
  shows "(keeps (\<lambda>db. p \<notin> set (news_posts db)) w \<and> p \<notin> set (news_posts (nw_db s)) \<longrightarrow> p \<notin> set (news_posts (nw_db s'))) \<and>
    (\<not> has (s_privileges session) USER_ADMIN \<and> keeps (\<lambda>db. news_ok db \<and> p \<in> set (news_posts db)) w \<and>
      news_ok (nw_db s) \<and> p \<in> set (news_posts (nw_db s)) \<longrightarrow> p \<in> set (news_posts (nw_db s')))"
proof (intro conjI impI; elim conjE)
  assume k: "keeps (\<lambda>db. p \<notin> set (news_posts db)) w" "p \<notin> set (news_posts (nw_db s))"
  show "p \<notin> set (news_posts (nw_db s'))"
  proof (rule request_keeps [where I = "\<lambda>db. p \<notin> set (news_posts db)", OF assms(1) k])
    show "p \<notin> set (news_posts (snd (db_create_group fresh name d r q db)))" if "p \<notin> set (news_posts db)" for db fresh name d r q
      using that by (simp add: db_create_group_def Let_def)
    show "p \<notin> set (news_posts (snd (db_update_group i name d r q reader db)))" if "p \<notin> set (news_posts db)" for db i name d r q reader
      using that by (simp add: db_update_group_def Let_def)
    show "p \<notin> set (news_posts (snd (db_delete_group i reader db)))" if "p \<notin> set (news_posts db)" for db i reader
      using that by (simp add: db_delete_group_def delete_where_absent split: option.split)
    show "p \<notin> set (news_posts (snd (db_create_post fresh n parent (s_username session) ti b at db)))"
      if "p \<notin> set (news_posts db)" for db fresh n parent ti b at
      using that assms(2) by (auto simp: db_create_post_def Let_def)
    show "p \<notin> set (news_posts (snd (db_delete_post i db)))" if "p \<notin> set (news_posts db)" for db i
      using that by (simp add: db_delete_post_def delete_where_absent)
    show "p \<notin> set (news_posts (snd outcome))"
      if "p \<notin> set (news_posts db)" "db_delete_own_post i (s_username session) db = Some outcome" for db i outcome
      using that by (auto simp: db_delete_own_post_def Let_def delete_where_absent split: option.splits)
  qed
next
  assume k: "\<not> has (s_privileges session) USER_ADMIN" "keeps (\<lambda>db. news_ok db \<and> p \<in> set (news_posts db)) w"
      "news_ok (nw_db s)" "p \<in> set (news_posts (nw_db s))"
  have "news_ok (nw_db s') \<and> p \<in> set (news_posts (nw_db s'))"
  proof (rule request_keeps [where I = "\<lambda>db. news_ok db \<and> p \<in> set (news_posts db)", OF assms(1) k(2)])
    show "news_ok (snd (db_create_post fresh n parent (s_username session) ti b at db)) \<and>
        p \<in> set (news_posts (snd (db_create_post fresh n parent (s_username session) ti b at db)))"
      if "news_ok db \<and> p \<in> set (news_posts db)" for db fresh n parent ti b at
      using that create_post_ok [of db] by (auto simp: db_create_post_def Let_def)
    show "news_ok (snd outcome) \<and> p \<in> set (news_posts (snd outcome))"
      if "news_ok db \<and> p \<in> set (news_posts db)" "db_delete_own_post i (s_username session) db = Some outcome" for db i outcome
      using that own_delete_spares [OF _ _ assms(2), of db i outcome] delete_own_ends [of db i "s_username session"] by auto
  qed (use k in auto)
  then show "p \<in> set (news_posts (nw_db s'))" by blast
qed

text \<open>A thread of two posts: \<open>ann\<close>'s, and \<open>bob\<close>'s reply to it, which keeps \<open>ann\<close> from deleting hers.\<close>

definition plain_uuid :: uuid_codec where
  "plain_uuid = \<lparr>uu_show = str_of_bytes, uu_parse = (\<lambda>t. if length t = 16 then Some (as_bytes t) else None)\<rparr>"

definition calm :: Weather where
  "calm = \<lparr>others = (\<lambda>_ db. db), fails = (\<lambda>_. False), unix_now = 0, fresh_id = replicate 16 9, may_post = True, log_ack = 0\<rparr>"

definition ann_post :: PostRow where
  "ann_post = \<lparr>po_id = str_of_bytes (replicate 16 2), po_newsgroup_id = str_of_bytes (replicate 16 1), po_parent_id = None,
     po_author = ''ann'', po_subject = ''hello'', po_body = [], po_created_at = 0\<rparr>"

definition bob_reply :: PostRow where
  "bob_reply = \<lparr>po_id = str_of_bytes (replicate 16 3), po_newsgroup_id = str_of_bytes (replicate 16 1),
     po_parent_id = Some (str_of_bytes (replicate 16 2)), po_author = ''bob'', po_subject = ''re: hello'', po_body = [], po_created_at = 1\<rparr>"

definition thread_server :: news_server where
  "thread_server = \<lparr>nw_ctx = sample_ctx,
     nw_db = \<lparr>newsgroups = [\<lparr>ng_id = str_of_bytes (replicate 16 1), ng_name = ''talk'', ng_description = [],
         ng_min_read_class = 0, ng_min_post_class = 0\<rparr>], news_posts = [ann_post, bob_reply]\<rparr>,
     nw_log = with_config 0 [] HistoryConfig_default\<rparr>"

definition ann_session :: Session where
  "ann_session = \<lparr>s_username = ''ann'', s_class = User, s_privileges = 0\<rparr>"

lemma thread_ok: "news_ok (nw_db thread_server)"
  using threaded_snoc [of _ "[ann_post]" bob_reply] threaded_snoc [of _ "[]" ann_post]
  by (simp add: news_ok_def thread_server_def threaded.no_posts ann_post_def bob_reply_def str_of_bytes_def)

lemma ann_deletes: "\<exists>reply s'. news_request plain_uuid calm ann_session PacketType.NewsPostDelete (replicate 16 2) thread_server =
    Answers reply s'"
proof -
  have "NewsPostDelete_decode (replicate 16 2) = Ok \<lparr>NewsPostDelete_post_id = replicate 16 2\<rparr>" by code_simp
  then have "news_request plain_uuid calm ann_session PacketType.NewsPostDelete (replicate 16 2) thread_server \<in>
      range (\<lambda>x. case x of None \<Rightarrow> Hangs | Some (reply, s) \<Rightarrow> Answers reply s)"
    by (auto simp: news_request_def decoded_def)
  moreover have "keeps news_ok calm" by (simp add: keeps_def calm_def)
  ultimately show ?thesis using keeps_ok_ends [OF _ thread_ok] by (fastforce split: option.splits)
qed

theorem words_are_ones_own_witness:
  "case news_request plain_uuid calm ann_session PacketType.NewsPostDelete (replicate 16 2) thread_server of
     Answers _ s' \<Rightarrow> bob_reply \<in> set (news_posts (nw_db s')) | _ \<Rightarrow> False"
proof -
  obtain reply s' where r: "news_request plain_uuid calm ann_session PacketType.NewsPostDelete (replicate 16 2) thread_server = Answers reply s'"
    using ann_deletes by blast
  have "po_author bob_reply \<noteq> s_username ann_session" by (simp add: bob_reply_def ann_session_def)
  moreover have "\<not> has (s_privileges ann_session) USER_ADMIN" by code_simp
  moreover have "keeps (\<lambda>db. news_ok db \<and> bob_reply \<in> set (news_posts db)) calm" by (simp add: keeps_def calm_def)
  moreover have "bob_reply \<in> set (news_posts (nw_db thread_server))" by (simp add: thread_server_def)
  ultimately have "bob_reply \<in> set (news_posts (nw_db s'))" using words_are_ones_own [OF r] thread_ok by blast
  with r show ?thesis by simp
qed

end
