(* ===== verification/Limiter.thy ===== *)
theory Limiter
  imports Prelude "HOL-Library.AList"
begin

text \<open>
  The login throttle (\<open>kdx-server-core/src/auth/limiter.rs\<close>): failures are counted per peer
  address and per (address, username), and each key backs off on its own. Instants and
  durations are nanoseconds; the hash map is an association list with distinct keys.
\<close>

section \<open>Addresses\<close>

text \<open>An IPv4 address is its number; an IPv6 address is its eight segments.\<close>

datatype IpAddr = V4 u32 | V6 u16 u16 u16 u16 u16 u16 u16 u16

definition normalize :: "IpAddr \<Rightarrow> IpAddr" where
  "normalize ip =
     (case ip of
        V4 _ \<Rightarrow> ip
      | V6 a b c d e f g h \<Rightarrow>
          if a = 0 \<and> b = 0 \<and> c = 0 \<and> d = 0 \<and> e = 0 \<and> f = 0xFFFF
          then V4 (push_bit 16 (ucast g) OR ucast h)
          else V6 a b c d 0 0 0 0)"

section \<open>Buckets\<close>

definition secs :: "nat \<Rightarrow> nat" where "secs n = n * 1000000000"

definition PAIR_FREE_FAILURES :: nat where "PAIR_FREE_FAILURES = 5"
definition IP_FREE_FAILURES :: nat where "IP_FREE_FAILURES = 20"
definition BASE_BACKOFF :: nat where "BASE_BACKOFF = secs 1"
definition MAX_BACKOFF :: nat where "MAX_BACKOFF = secs (15 * 60)"
definition FAILURE_WINDOW :: nat where "FAILURE_WINDOW = secs (15 * 60)"
definition MAX_TRACKED :: nat where "MAX_TRACKED = 65536"

datatype Key = Ip IpAddr | Pair IpAddr string

record Bucket =
  bk_failures :: nat
  bk_last_failure :: nat
  bk_blocked_until :: nat

definition fresh :: "nat \<Rightarrow> Bucket" where
  "fresh now = \<lparr>bk_failures = 0, bk_last_failure = now, bk_blocked_until = now\<rparr>"

definition expired :: "Bucket \<Rightarrow> nat \<Rightarrow> bool" where
  "expired b now \<longleftrightarrow> now \<ge> bk_blocked_until b \<and> now - bk_last_failure b \<ge> FAILURE_WINDOW"

type_synonym buckets = "(Key \<times> Bucket) list"

definition check :: "nat \<Rightarrow> buckets \<Rightarrow> IpAddr \<Rightarrow> string \<Rightarrow> (unit, nat) result" where
  "check now buckets ip username =
     (let ip = normalize ip;
          wait = foldl (\<lambda>wait key. case map_of buckets key of
              Some b \<Rightarrow> max wait (bk_blocked_until b - now) | None \<Rightarrow> wait) 0 [Ip ip, Pair ip username] in
      if wait = 0 then Ok () else Err wait)"

definition backoff :: "nat \<Rightarrow> nat \<Rightarrow> nat" where
  "backoff free failures = min (BASE_BACKOFF * 2 ^ min (failures - free - 1) 20) MAX_BACKOFF"

definition bump :: "buckets \<Rightarrow> Key \<Rightarrow> nat \<Rightarrow> nat \<Rightarrow> buckets" where
  "bump buckets key free now =
     (if map_of buckets key = None \<and> length buckets \<ge> MAX_TRACKED then buckets
      else
        let b = (case map_of buckets key of Some b \<Rightarrow> b | None \<Rightarrow> fresh now);
            b = (if expired b now then fresh now else b);
            b = b\<lparr>bk_failures := min (2 ^ 32 - 1) (bk_failures b + 1), bk_last_failure := now\<rparr>;
            b = (if bk_failures b > free then b\<lparr>bk_blocked_until := now + backoff free (bk_failures b)\<rparr> else b)
        in AList.update key b buckets)"

definition record_failure :: "nat \<Rightarrow> buckets \<Rightarrow> IpAddr \<Rightarrow> string \<Rightarrow> buckets" where
  "record_failure now buckets ip username =
     (let ip = normalize ip;
          buckets = (if length buckets + 2 > MAX_TRACKED then filter (\<lambda>(k, b). \<not> expired b now) buckets else buckets) in
      bump (bump buckets (Ip ip) IP_FREE_FAILURES now) (Pair ip username) PAIR_FREE_FAILURES now)"

definition failure_count :: "nat \<Rightarrow> buckets \<Rightarrow> IpAddr \<Rightarrow> string \<Rightarrow> nat" where
  "failure_count now buckets ip username =
     (case map_of buckets (Pair (normalize ip) username) of
        Some b \<Rightarrow> if \<not> expired b now then bk_failures b else 0
      | None \<Rightarrow> 0)"

definition record_success :: "buckets \<Rightarrow> IpAddr \<Rightarrow> string \<Rightarrow> buckets" where
  "record_success buckets ip username = AList.delete (Pair (normalize ip) username) buckets"

section \<open>Lemmas\<close>

definition buckets_ok :: "buckets \<Rightarrow> bool" where
  "buckets_ok bs \<longleftrightarrow> distinct (map fst bs) \<and> length bs \<le> MAX_TRACKED"

lemma check_Ok:
  "check now bs ip u = Ok () \<longleftrightarrow>
     (\<forall>b. map_of bs (Ip (normalize ip)) = Some b \<longrightarrow> bk_blocked_until b \<le> now) \<and>
     (\<forall>b. map_of bs (Pair (normalize ip) u) = Some b \<longrightarrow> bk_blocked_until b \<le> now)"
  by (auto simp: check_def Let_def split: option.splits)

text \<open>A check reads the two keys of its source, and of those only what has not run out.\<close>

lemma check_cong:
  assumes "\<And>key. key \<in> {Ip (normalize ip), Pair (normalize ip) u} \<Longrightarrow>
     (case map_of bs key of Some b \<Rightarrow> bk_blocked_until b - now | None \<Rightarrow> 0) =
     (case map_of cs key of Some b \<Rightarrow> bk_blocked_until b - now | None \<Rightarrow> 0)"
  shows "check now bs ip u = check now cs ip u"
  using assms [of "Ip (normalize ip)"] assms [of "Pair (normalize ip) u"]
  by (auto simp: check_def Let_def split: option.splits)

lemma map_of_filter_distinct:
  "distinct (map fst xs) \<Longrightarrow>
     map_of (filter (\<lambda>(k, v). p v) xs) k = (case map_of xs k of Some v \<Rightarrow> if p v then Some v else None | None \<Rightarrow> None)"
  by (induction xs) (auto simp: map_of_eq_None_iff split: option.splits dest: map_of_SomeD)

lemma length_update: "map_of al k \<noteq> None \<Longrightarrow> length (AList.update k v al) = length al"
  "map_of al k = None \<Longrightarrow> length (AList.update k v al) = Suc (length al)"
  by (induction al) auto

lemma bump_ok: "buckets_ok bs \<Longrightarrow> buckets_ok (bump bs key free now)"
proof -
  assume ok: "buckets_ok bs"
  have "length (AList.update key b bs) \<le> MAX_TRACKED" if "\<not> (map_of bs key = None \<and> length bs \<ge> MAX_TRACKED)" for b
    using that ok length_update [of bs key b] by (cases "map_of bs key") (auto simp: buckets_ok_def)
  then show ?thesis using ok by (auto simp: bump_def buckets_ok_def Let_def AList.distinct_update)
qed

lemma bump_other: "k \<noteq> key \<Longrightarrow> map_of (bump bs key free now) k = map_of bs k"
  by (simp add: bump_def Let_def AList.update_conv')

lemma record_failure_ok: "buckets_ok bs \<Longrightarrow> buckets_ok (record_failure now bs ip u)"
proof -
  assume ok: "buckets_ok bs"
  then have "buckets_ok (filter (\<lambda>(k, b). \<not> expired b now) bs)"
    by (auto simp: buckets_ok_def distinct_map_filter intro: le_trans [OF length_filter_le])
  with ok show ?thesis by (simp add: record_failure_def Let_def bump_ok)
qed

lemma record_success_ok: "buckets_ok bs \<Longrightarrow> buckets_ok (record_success bs ip u)"
  by (auto simp: record_success_def buckets_ok_def AList.distinct_delete intro: le_trans [OF length_delete_le])

text \<open>What a recorded failure leaves in the table under another source's keys.\<close>

lemma record_failure_other:
  assumes "buckets_ok bs" and "k \<noteq> Ip (normalize ip)" and "k \<noteq> Pair (normalize ip) u"
  shows "map_of (record_failure t bs ip u) k = map_of bs k \<or>
    map_of (record_failure t bs ip u) k = None \<and> (\<exists>b. map_of bs k = Some b \<and> expired b t)"
proof -
  let ?bs = "if length bs + 2 > MAX_TRACKED then filter (\<lambda>(k, b). \<not> expired b t) bs else bs"
  have "map_of (record_failure t bs ip u) k = map_of ?bs k"
    using assms(2,3) by (simp only: record_failure_def Let_def) (simp add: bump_other)
  moreover have "map_of (filter (\<lambda>(k, b). \<not> expired b t) bs) k =
      (case map_of bs k of Some b \<Rightarrow> if \<not> expired b t then Some b else None | None \<Rightarrow> None)"
    using map_of_filter_distinct [of bs "\<lambda>b. \<not> expired b t" k] assms(1) by (simp add: buckets_ok_def)
  ultimately show ?thesis by (auto split: option.splits if_splits)
qed

text \<open>Consecutive failures of one source.\<close>

fun failures_at :: "IpAddr \<Rightarrow> string \<Rightarrow> nat list \<Rightarrow> buckets \<Rightarrow> buckets" where
  "failures_at ip u [] bs = bs"
| "failures_at ip u (t # ts) bs = failures_at ip u ts (record_failure t bs ip u)"

definition tracked :: "buckets \<Rightarrow> IpAddr \<Rightarrow> string \<Rightarrow> nat \<Rightarrow> nat \<Rightarrow> bool" where
  "tracked bs ip u k t \<longleftrightarrow> (\<exists>b. map_of bs (Pair (normalize ip) u) = Some b \<and> bk_failures b = k \<and> bk_last_failure b = t \<and>
     (k > PAIR_FREE_FAILURES \<longrightarrow> bk_blocked_until b = t + backoff PAIR_FREE_FAILURES k) \<and>
     (k \<le> PAIR_FREE_FAILURES \<longrightarrow> bk_blocked_until b \<le> t))"

lemma MAX_TRACKED_room: "length bs < MAX_TRACKED \<Longrightarrow> length (bump bs k free now) \<le> Suc (length bs)"
  using length_update [of bs k] by (cases "map_of bs k") (auto simp: bump_def Let_def)

lemma first_failure:
  assumes "buckets_ok bs" and "map_of bs (Pair (normalize ip) u) = None" and "length bs + 2 \<le> MAX_TRACKED"
  shows "tracked (record_failure t bs ip u) ip u 1 t"
proof -
  let ?bs = "bump bs (Ip (normalize ip)) IP_FREE_FAILURES t"
  have "length ?bs < MAX_TRACKED" using MAX_TRACKED_room [of bs "Ip (normalize ip)" IP_FREE_FAILURES t] assms(3) by linarith
  moreover have "map_of ?bs (Pair (normalize ip) u) = None" using assms(2) by (simp add: bump_other)
  ultimately show ?thesis
    using assms(3)
    by (simp add: record_failure_def Let_def tracked_def bump_def [of ?bs] fresh_def expired_def
        FAILURE_WINDOW_def secs_def PAIR_FREE_FAILURES_def AList.update_conv')
qed

lemma bump_tracked:
  assumes "map_of cs (Pair (normalize ip) u) = Some b" and "\<not> expired b t" and "bk_failures b = k" and "k < 2 ^ 32 - 1"
    and "k < PAIR_FREE_FAILURES \<Longrightarrow> bk_blocked_until b \<le> t"
  shows "tracked (bump cs (Pair (normalize ip) u) PAIR_FREE_FAILURES t) ip u (Suc k) t"
  using assms by (simp add: tracked_def bump_def AList.update_conv' Let_def)

lemma next_failure:
  assumes "buckets_ok bs" and "tracked bs ip u k t" and "t \<le> t'" and "t' - t < FAILURE_WINDOW" and "k < 2 ^ 32 - 1"
  shows "tracked (record_failure t' bs ip u) ip u (Suc k) t'"
proof -
  from assms(2) obtain b where b: "map_of bs (Pair (normalize ip) u) = Some b" "bk_failures b = k" "bk_last_failure b = t"
      "k > PAIR_FREE_FAILURES \<longrightarrow> bk_blocked_until b = t + backoff PAIR_FREE_FAILURES k"
      "k \<le> PAIR_FREE_FAILURES \<longrightarrow> bk_blocked_until b \<le> t"
    unfolding tracked_def by blast
  have live: "\<not> expired b t'" using b(3) assms(4) by (simp add: expired_def)
  let ?bs = "if length bs + 2 > MAX_TRACKED then filter (\<lambda>(k, b). \<not> expired b t') bs else bs"
  let ?cs = "bump ?bs (Ip (normalize ip)) IP_FREE_FAILURES t'"
  have "map_of (filter (\<lambda>(k, b). \<not> expired b t') bs) (Pair (normalize ip) u) = Some b"
    using map_of_filter_distinct [of bs "\<lambda>b. \<not> expired b t'" "Pair (normalize ip) u"] assms(1) b(1) live
    by (simp add: buckets_ok_def)
  then have m: "map_of ?cs (Pair (normalize ip) u) = Some b" using b(1) by (simp add: bump_other)
  have "tracked (bump ?cs (Pair (normalize ip) u) PAIR_FREE_FAILURES t') ip u (Suc k) t'"
    using b(5) assms(3) by (intro bump_tracked [OF m live b(2) assms(5)]) simp
  then show ?thesis by (simp only: record_failure_def Let_def)
qed

lemma failures_tracked:
  assumes "buckets_ok bs" and "tracked bs ip u k t" and "successively (\<lambda>a b. a \<le> b \<and> b - a < FAILURE_WINDOW) (t # ts)"
    and "k + length ts < 2 ^ 32"
  shows "tracked (failures_at ip u ts bs) ip u (k + length ts) (last (t # ts))"
  using assms
proof (induction ts arbitrary: bs k t)
  case (Cons t' ts)
  then have "tracked (record_failure t' bs ip u) ip u (Suc k) t'" by (intro next_failure) auto
  with Cons.IH [OF record_failure_ok [OF Cons.prems(1)] this, of ] Cons.prems show ?case by simp
qed simp

lemma failures_at_ok: "buckets_ok bs \<Longrightarrow> buckets_ok (failures_at ip u ts bs)"
  by (induction ts arbitrary: bs) (simp_all add: record_failure_ok)

section \<open>Properties\<close>

text \<open>Property C15. Guessing backs off exponentially: a source that fails for one username \<open>k\<close> times in a row, each
  within the window of the last, \<open>k\<close> above the free failures, is refused until
  \<open>min (2 ^ (k - 6)) 900\<close> seconds after the last failure, as long as the table had room for it at the
  start.\<close>

theorem backoff_enforced:
  assumes "buckets_ok bs" and "map_of bs (Pair (normalize ip) u) = None" and "length bs + 2 \<le> MAX_TRACKED"
    and "successively (\<lambda>a b. a \<le> b \<and> b - a < FAILURE_WINDOW) ts"
    and "PAIR_FREE_FAILURES < length ts" and "length ts < 2 ^ 32"
    and "now < last ts + secs (min (2 ^ (length ts - 6)) 900)"
  shows "\<exists>wait. check now (failures_at ip u ts bs) ip u = Err wait \<and>
    last ts + secs (min (2 ^ (length ts - 6)) 900) \<le> now + wait"
proof -
  obtain t rest where ts: "ts = t # rest" using assms(5) by (cases ts) auto
  have "tracked (record_failure t bs ip u) ip u 1 t" by (rule first_failure [OF assms(1-3)])
  from failures_tracked [OF record_failure_ok [OF assms(1)] this] assms(4,6)
  have "tracked (failures_at ip u ts bs) ip u (length ts) (last ts)" by (simp add: ts)
  then obtain b where b: "map_of (failures_at ip u ts bs) (Pair (normalize ip) u) = Some b"
      "bk_blocked_until b = last ts + backoff PAIR_FREE_FAILURES (length ts)"
    using assms(5) unfolding tracked_def by blast
  have "backoff PAIR_FREE_FAILURES (length ts) = secs (min (2 ^ (length ts - 6)) 900)"
  proof (cases "length ts - 6 \<le> 20")
    case True
    then show ?thesis by (simp add: backoff_def BASE_BACKOFF_def MAX_BACKOFF_def secs_def PAIR_FREE_FAILURES_def min_def)
  next
    case False
    then have "(2 :: nat) ^ 20 \<le> 2 ^ (length ts - 6)" by (intro power_increasing) auto
    with False show ?thesis by (simp add: backoff_def BASE_BACKOFF_def MAX_BACKOFF_def secs_def PAIR_FREE_FAILURES_def min_def)
  qed
  with b have b: "map_of (failures_at ip u ts bs) (Pair (normalize ip) u) = Some b"
      "bk_blocked_until b = last ts + secs (min (2 ^ (length ts - 6)) 900)" by simp_all
  let ?w = "max (case map_of (failures_at ip u ts bs) (Ip (normalize ip)) of Some c \<Rightarrow> bk_blocked_until c - now | None \<Rightarrow> 0)
      (bk_blocked_until b - now)"
  have "check now (failures_at ip u ts bs) ip u = Err ?w"
    using b assms(7) by (auto simp: check_def Let_def max_def split: option.splits)
  moreover have "last ts + secs (min (2 ^ (length ts - 6)) 900) \<le> now + ?w" using b(2) by linarith
  ultimately show ?thesis by blast
qed

theorem backoff_enforced_witness:
  "\<exists>wait. check (secs 1) (failures_at (V4 1) ''ann'' [0, 1, 2, 3, 4, 5, 6] []) (V4 1) ''ann'' = Err wait"
proof -
  have "\<exists>wait. check (secs 1) (failures_at (V4 1) ''ann'' [0, 1, 2, 3, 4, 5, 6] []) (V4 1) ''ann'' = Err wait \<and>
      last [0, 1, 2, 3, 4, 5, 6] + secs (min (2 ^ (length [0 :: nat, 1, 2, 3, 4, 5, 6] - 6)) 900) \<le> secs 1 + wait"
    by (rule backoff_enforced) (simp_all add: buckets_ok_def MAX_TRACKED_def FAILURE_WINDOW_def secs_def PAIR_FREE_FAILURES_def)
  then show ?thesis by blast
qed

text \<open>Nobody can lock out or relieve another address: a failure recorded for one source never
  changes the answer to a login from a different (normalised) address, now or later, and a success never
  touches the count of the whole address; the table never grows past its bound.\<close>

lemma sources_independent:
  assumes "buckets_ok bs" and "normalize ip \<noteq> normalize ip'" and "t \<le> now"
  shows "check now (record_failure t bs ip u) ip' u' = check now bs ip' u' \<and>
    map_of (record_success bs ip u) (Ip a) = map_of bs (Ip a) \<and>
    buckets_ok (record_failure t bs ip u) \<and> buckets_ok (record_success bs ip u)"
proof (intro conjI)
  show "check now (record_failure t bs ip u) ip' u' = check now bs ip' u'"
  proof (rule check_cong)
    fix key
    assume "key \<in> {Ip (normalize ip'), Pair (normalize ip') u'}"
    with assms(2) have "key \<noteq> Ip (normalize ip)" "key \<noteq> Pair (normalize ip) u" by auto
    from record_failure_other [OF assms(1) this, of t] assms(3)
    show "(case map_of (record_failure t bs ip u) key of Some b \<Rightarrow> bk_blocked_until b - now | None \<Rightarrow> 0) =
        (case map_of bs key of Some b \<Rightarrow> bk_blocked_until b - now | None \<Rightarrow> 0)"
      by (auto simp: expired_def split: option.splits)
  qed
  show "map_of (record_success bs ip u) (Ip a) = map_of bs (Ip a)"
    by (simp add: record_success_def AList.delete_conv')
  show "buckets_ok (record_failure t bs ip u)" "buckets_ok (record_success bs ip u)"
    by (simp_all add: record_failure_ok record_success_ok assms(1))
qed

end
