(* ===== verification/Room.thy ===== *)
theory Room
  imports Channel Classes Msg_Chat
begin

text \<open>
  One chat room (\<open>kdx-server-core/src/chat/room.rs\<close>): membership, topic, the join gate and
  interview mode, and the broadcasts to the members' queues, as one actor that handles a
  command at a time. The members are listed in the order the hash map is iterated; a command
  reads the clock once.
\<close>

section \<open>State and commands\<close>

definition CHAT_ACTION :: u8 where "CHAT_ACTION = 1"
definition CHAT_SYSTEM :: u8 where "CHAT_SYSTEM = 2"
definition DEFAULT_ROOM :: string where "DEFAULT_ROOM = ''lobby''"

record Member =
  mb_session_id :: uuid
  mb_username :: string
  mb_class :: u8
  mb_privileges :: Privileges
  mb_tx :: nat

datatype RoomCommand =
    RC_Join Member
  | RC_Leave uuid
  | RC_Message uuid u8 string
  | RC_SetTopic uuid string
  | RC_MemberCount
  | RC_SetFlags uuid u8 bool
  | RC_GetFlags
  | RC_CloseIfEmpty

datatype RoomError = NotMember | NoPrivilege | AlreadyJoined | RoomClassTooLow | InterviewMuted | AboveOwnClass | RoomClosed

datatype room_reply = RR_None | RR_Result "(unit, RoomError) result" | RR_Count nat | RR_Flags u8 bool | RR_Closed bool

record RoomState =
  rm_name :: string
  rm_topic :: string
  rm_members :: "(uuid \<times> Member) list"
  rm_min_class_join :: u8
  rm_interview_mode :: bool
  rm_closed :: bool

definition spawn_room :: "string \<Rightarrow> RoomState" where
  "spawn_room name = \<lparr>rm_name = name, rm_topic = [], rm_members = [], rm_min_class_join = 0,
     rm_interview_mode = False, rm_closed = False\<rparr>"

section \<open>Frames\<close>

definition topic_frame :: "string \<Rightarrow> string \<Rightarrow> Outbound" where
  "topic_frame room topic = \<lparr>ob_packet_type = PacketType.ChatTopicSet, ob_flags = 0,
     ob_payload = ChatTopic_encode \<lparr>ChatTopic_room = room, ChatTopic_topic = topic\<rparr>\<rparr>"

definition event_frame :: "PacketFlags \<Rightarrow> ChatEvent \<Rightarrow> Outbound" where
  "event_frame flags event = \<lparr>ob_packet_type = PacketType.ChatMessage, ob_flags = flags, ob_payload = ChatEvent_encode event\<rparr>"

definition user_list :: "RoomState \<Rightarrow> Outbound" where
  "user_list st = \<lparr>ob_packet_type = PacketType.ChatUserList, ob_flags = 0,
     ob_payload = ChatUserList_encode \<lparr>ChatUserList_room = rm_name st,
       ChatUserList_users = map (\<lambda>(i, m). mb_username m) (rm_members st)\<rparr>\<rparr>"

definition system :: "u64 \<Rightarrow> RoomState \<Rightarrow> string \<Rightarrow> Outbound" where
  "system unix_now st text = event_frame SYSTEM_MESSAGE
     \<lparr>ChatEvent_room = rm_name st, ChatEvent_sender = [], ChatEvent_timestamp = unix_now,
      ChatEvent_flags = CHAT_SYSTEM, ChatEvent_text = text\<rparr>"

section \<open>Broadcasting\<close>

definition fan_out :: "RoomState \<Rightarrow> Outbound \<Rightarrow> channels \<Rightarrow> uuid list \<times> channels" where
  "fan_out st outbound cs =
     (let (reached, dead, cs') = send_each (map (\<lambda>(i, m). (i, mb_tx m, outbound)) (rm_members st)) cs in (dead, cs'))"

definition send_to :: "RoomState \<Rightarrow> uuid \<Rightarrow> Outbound \<Rightarrow> channels \<Rightarrow> channels" where
  "send_to st session_id outbound cs =
     (case map_of (rm_members st) session_id of Some m \<Rightarrow> snd (try_send cs (mb_tx m) outbound) | None \<Rightarrow> cs)"

text \<open>\<open>gone.drain(..).filter_map(...)\<close>: remove the members and keep their names.\<close>

fun take_out :: "uuid list \<Rightarrow> (uuid \<times> Member) list \<Rightarrow> string list \<times> (uuid \<times> Member) list" where
  "take_out [] ms = ([], ms)"
| "take_out (i # gone) ms =
     (case map_of ms i of
        Some m \<Rightarrow> (let (names, ms') = take_out gone (remove_key i ms) in (mb_username m # names, ms'))
      | None \<Rightarrow> take_out gone ms)"

fun announce_left :: "u64 \<Rightarrow> RoomState \<Rightarrow> string list \<Rightarrow> channels \<Rightarrow> uuid list \<times> channels" where
  "announce_left unix_now st [] cs = ([], cs)"
| "announce_left unix_now st (name # names) cs =
     (let (dead, cs1) = fan_out st (system unix_now st (name @ '' left'')) cs;
          (dead', cs2) = announce_left unix_now st names cs1 in (dead @ dead', cs2))"

lemma take_out_less: "take_out gone ms = (names, ms') \<Longrightarrow> length ms' + length names \<le> length ms"
proof (induction gone arbitrary: ms names)
  case (Cons i gone)
  show ?case
  proof (cases "map_of ms i")
    case (Some m)
    obtain names1 where t: "take_out gone (remove_key i ms) = (names1, ms')" "names = mb_username m # names1"
      using Cons.prems Some by (auto split: prod.splits)
    from Cons.IH [OF t(1)] remove_key_less [OF Some] t(2) show ?thesis by simp
  qed (use Cons in simp)
qed simp

function room_prune :: "u64 \<Rightarrow> RoomState \<Rightarrow> uuid list \<Rightarrow> channels \<Rightarrow> RoomState \<times> channels" where
  "room_prune unix_now st gone cs =
     (if gone = [] then (st, cs)
      else
        let (names, ms) = take_out gone (rm_members st); st' = st\<lparr>rm_members := ms\<rparr> in
        if names = [] then (st', cs)
        else
          let (dead, cs1) = fan_out st' (user_list st') cs;
              (dead', cs2) = announce_left unix_now st' names cs1
          in room_prune unix_now st' (dead @ dead') cs2)"
  by pat_completeness auto
termination
proof (relation "measure (\<lambda>(u, st, gone, cs). length (rm_members st))", goal_cases)
  case (2 u st gone cs x names ms st' y dead cs1 z dead' cs2)
  then show ?case using take_out_less [of gone "rm_members st" names ms] by (cases names) auto
qed simp

declare room_prune.simps [simp del]

definition room_broadcast :: "u64 \<Rightarrow> RoomState \<Rightarrow> Outbound \<Rightarrow> channels \<Rightarrow> RoomState \<times> channels" where
  "room_broadcast unix_now st outbound cs =
     (let (dead, cs1) = fan_out st outbound cs in room_prune unix_now st dead cs1)"

section \<open>The actor\<close>

definition room_join :: "u64 \<Rightarrow> RoomState \<Rightarrow> Member \<Rightarrow> channels \<Rightarrow> room_reply \<times> RoomState \<times> channels" where
  "room_join unix_now st member cs =
     (if rm_closed st then (RR_Result (Err RoomClosed), st, cs)
      else if map_of (rm_members st) (mb_session_id member) \<noteq> None then (RR_Result (Err AlreadyJoined), st, cs)
      else if mb_class member < rm_min_class_join st then (RR_Result (Err RoomClassTooLow), st, cs)
      else
        let st1 = st\<lparr>rm_members := rm_members st @ [(mb_session_id member, member)]\<rparr>;
            cs1 = (if rm_topic st \<noteq> [] then send_to st1 (mb_session_id member) (topic_frame (rm_name st) (rm_topic st)) cs else cs);
            (st2, cs2) = room_broadcast unix_now st1 (user_list st1) cs1;
            (st3, cs3) = room_broadcast unix_now st2 (system unix_now st2 (mb_username member @ '' joined'')) cs2
        in (RR_Result (Ok ()), st3, cs3))"

definition room_message :: "u64 \<Rightarrow> RoomState \<Rightarrow> uuid \<Rightarrow> u8 \<Rightarrow> string \<Rightarrow> channels \<Rightarrow> RoomState \<times> channels" where
  "room_message unix_now st session_id flags text cs =
     (case map_of (rm_members st) session_id of
        None \<Rightarrow> (st, cs)
      | Some m \<Rightarrow>
          if rm_interview_mode st \<and> \<not> has (mb_privileges m) CHAT_SET_TOPIC
          then (st, send_to st session_id
            \<lparr>ob_packet_type = PacketType.Info, ob_flags = SYSTEM_MESSAGE,
             ob_payload = as_bytes (''#'' @ rm_name st @ '': interview mode is on '' @ str_of_bytes [0xE2, 0x80, 0x94] @
               '' only the panelist may speak'')\<rparr> cs)
          else room_broadcast unix_now st (event_frame 0
            \<lparr>ChatEvent_room = rm_name st, ChatEvent_sender = mb_username m, ChatEvent_timestamp = unix_now,
             ChatEvent_flags = flags AND CHAT_ACTION, ChatEvent_text = text\<rparr>) cs)"

definition room_set_topic :: "u64 \<Rightarrow> RoomState \<Rightarrow> uuid \<Rightarrow> string \<Rightarrow> channels \<Rightarrow> room_reply \<times> RoomState \<times> channels" where
  "room_set_topic unix_now st session_id topic cs =
     (case map_of (rm_members st) session_id of
        None \<Rightarrow> (RR_Result (Err NotMember), st, cs)
      | Some m \<Rightarrow>
          if \<not> has (mb_privileges m) CHAT_SET_TOPIC then (RR_Result (Err NoPrivilege), st, cs)
          else
            let (st', cs') = room_broadcast unix_now (st\<lparr>rm_topic := topic\<rparr>) (topic_frame (rm_name st) topic) cs in
            (RR_Result (Ok ()), st', cs'))"

definition room_set_flags ::
  "u64 \<Rightarrow> RoomState \<Rightarrow> uuid \<Rightarrow> u8 \<Rightarrow> bool \<Rightarrow> channels \<Rightarrow> room_reply \<times> RoomState \<times> channels" where
  "room_set_flags unix_now st session_id min_class_join interview_mode cs =
     (case map_of (rm_members st) session_id of
        None \<Rightarrow> (RR_Result (Err NotMember), st, cs)
      | Some m \<Rightarrow>
          if \<not> has (mb_privileges m) CHAT_SET_TOPIC then (RR_Result (Err NoPrivilege), st, cs)
          else if rm_name st = DEFAULT_ROOM \<and> \<not> has (mb_privileges m) SERVER_ADMIN
          then (RR_Result (Err NoPrivilege), st, cs)
          else
            let clamped = min min_class_join 3 in
            if clamped > mb_class m then (RR_Result (Err AboveOwnClass), st, cs)
            else
              let st1 = st\<lparr>rm_min_class_join := clamped, rm_interview_mode := interview_mode\<rparr>;
                  mode = (if rm_interview_mode st \<noteq> interview_mode
                    then (if interview_mode then ''interview mode on, '' else ''interview mode off, '') else []);
                  (st', cs') = room_broadcast unix_now st1
                    (system unix_now st1 (''room flags: '' @ mode @ ''min class '' @ show_nat (unat clamped))) cs
              in (RR_Result (Ok ()), st', cs'))"

definition room_handle :: "u64 \<Rightarrow> RoomCommand \<Rightarrow> RoomState \<Rightarrow> channels \<Rightarrow> room_reply \<times> RoomState \<times> channels" where
  "room_handle unix_now command st cs =
     (case command of
        RC_Join member \<Rightarrow> room_join unix_now st member cs
      | RC_Leave session_id \<Rightarrow>
          (if map_of (rm_members st) session_id \<noteq> None
           then (RR_None, room_prune unix_now st [session_id] cs) else (RR_None, st, cs))
      | RC_Message session_id flags text \<Rightarrow> (RR_None, room_message unix_now st session_id flags text cs)
      | RC_SetTopic session_id topic \<Rightarrow> room_set_topic unix_now st session_id topic cs
      | RC_MemberCount \<Rightarrow> (RR_Count (length (rm_members st)), st, cs)
      | RC_SetFlags session_id min_class_join interview_mode \<Rightarrow>
          room_set_flags unix_now st session_id min_class_join interview_mode cs
      | RC_GetFlags \<Rightarrow> (RR_Flags (rm_min_class_join st) (rm_interview_mode st), st, cs)
      | RC_CloseIfEmpty \<Rightarrow>
          (let empty = rm_members st = [] in
           (RR_Closed empty, if empty then st\<lparr>rm_closed := True\<rparr> else st, cs)))"

section \<open>What a broadcast does\<close>

definition txs :: "RoomState \<Rightarrow> nat set" where
  "txs st = (\<lambda>(i, m). mb_tx m) ` set (rm_members st)"

text \<open>A notice of the room: a user list, or a chat event the server itself sends.\<close>

definition notice :: "string \<Rightarrow> Outbound \<Rightarrow> bool" where
  "notice name ob \<longleftrightarrow> (\<exists>users. ob = \<lparr>ob_packet_type = PacketType.ChatUserList, ob_flags = 0,
       ob_payload = ChatUserList_encode \<lparr>ChatUserList_room = name, ChatUserList_users = users\<rparr>\<rparr>) \<or>
     (\<exists>t text. ob = event_frame SYSTEM_MESSAGE \<lparr>ChatEvent_room = name, ChatEvent_sender = [], ChatEvent_timestamp = t,
       ChatEvent_flags = CHAT_SYSTEM, ChatEvent_text = text\<rparr>)"

lemma notice_system [simp, intro]: "notice (rm_name st) (system t st text)"
  by (auto simp: notice_def system_def)

lemma notice_user_list [simp, intro]: "notice (rm_name st) (user_list st)"
  by (auto simp: notice_def user_list_def)

definition pruned :: "RoomState \<Rightarrow> channels \<Rightarrow> RoomState \<Rightarrow> channels \<Rightarrow> bool" where
  "pruned st cs st' cs' \<longleftrightarrow> (\<exists>p. st' = st\<lparr>rm_members := filter p (rm_members st)\<rparr>) \<and>
     adds cs cs' (\<lambda>c ob. c \<in> txs st \<and> notice (rm_name st) ob)"

lemma pruned_fields:
  assumes "pruned st cs st' cs'"
  shows "rm_name st' = rm_name st" "rm_topic st' = rm_topic st" "rm_min_class_join st' = rm_min_class_join st"
    "rm_interview_mode st' = rm_interview_mode st" "rm_closed st' = rm_closed st"
    "set (rm_members st') \<subseteq> set (rm_members st)" "txs st' \<subseteq> txs st"
    "distinct (map f (rm_members st)) \<Longrightarrow> distinct (map f (rm_members st'))"
    "ch_closed (cs' c) = ch_closed (cs c)"
  using assms by (auto simp: pruned_def txs_def distinct_map_filter adds_def)

lemma pruned_refl: "pruned st cs st cs"
proof -
  have "st = st\<lparr>rm_members := filter (\<lambda>_. True) (rm_members st)\<rparr>" by simp
  then show ?thesis unfolding pruned_def by blast
qed

lemma pruned_trans:
  assumes "pruned st cs st1 cs1" and "pruned st1 cs1 st2 cs2"
  shows "pruned st cs st2 cs2"
proof -
  obtain p q where p: "st1 = st\<lparr>rm_members := filter p (rm_members st)\<rparr>" and q: "st2 = st1\<lparr>rm_members := filter q (rm_members st1)\<rparr>"
    using assms unfolding pruned_def by blast
  then have "st2 = st\<lparr>rm_members := filter (\<lambda>x. p x \<and> q x) (rm_members st)\<rparr>" by (simp add: conj_commute)
  moreover have "adds cs1 cs2 (\<lambda>c ob. c \<in> txs st \<and> notice (rm_name st) ob)"
    using assms(2) pruned_fields(1,7) [OF assms(1)] unfolding pruned_def by (auto intro: adds_mono)
  ultimately show ?thesis using assms(1) adds_trans unfolding pruned_def by blast
qed

lemma fan_out_adds:
  assumes "fan_out st ob cs = (dead, cs')" and "\<And>c. c \<in> txs st \<Longrightarrow> p c ob"
  shows "adds cs cs' p"
proof -
  obtain reached where s: "send_each (map (\<lambda>(i, m). (i, mb_tx m, ob)) (rm_members st)) cs = (reached, dead, cs')"
    using assms(1) by (auto simp: fan_out_def split: prod.splits)
  show ?thesis by (rule send_each_adds [OF s]) (use assms(2) in \<open>auto simp: txs_def\<close>)
qed

lemma fan_out_dead:
  assumes "fan_out st ob cs = (dead, cs')"
  shows "dead = map fst (filter (\<lambda>(i, m). ch_closed (cs (mb_tx m))) (rm_members st))"
proof -
  have "dead = fst (snd (send_each (map (\<lambda>(i, m). (i, mb_tx m, ob)) (rm_members st)) cs))"
    using assms by (auto simp: fan_out_def split: prod.splits)
  then show ?thesis unfolding send_each_dead by (simp add: filter_map comp_def case_prod_unfold)
qed

lemma announce_adds:
  "announce_left t st names cs = (dead, cs') \<Longrightarrow> adds cs cs' (\<lambda>c ob. c \<in> txs st \<and> notice (rm_name st) ob)"
proof (induction names arbitrary: cs dead)
  case (Cons name names)
  obtain d1 cs1 d2 where f: "fan_out st (system t st (name @ '' left'')) cs = (d1, cs1)" "announce_left t st names cs1 = (d2, cs')"
    using Cons.prems by (auto split: prod.splits)
  have "adds cs cs1 (\<lambda>c ob. c \<in> txs st \<and> notice (rm_name st) ob)" by (rule fan_out_adds [OF f(1)]) auto
  from this Cons.IH [OF f(2)] show ?case by (rule adds_trans)
qed simp

lemma announce_dead:
  "announce_left t st names cs = (dead, cs') \<Longrightarrow> i \<in> set dead \<Longrightarrow> \<exists>m. (i, m) \<in> set (rm_members st) \<and> ch_closed (cs (mb_tx m))"
proof (induction names arbitrary: cs dead)
  case (Cons name names)
  obtain d1 cs1 d2 where f: "fan_out st (system t st (name @ '' left'')) cs = (d1, cs1)" "announce_left t st names cs1 = (d2, cs')"
      "dead = d1 @ d2"
    using Cons.prems(1) by (auto split: prod.splits)
  have "ch_closed (cs1 c) = ch_closed (cs c)" for c using adds_closed [OF fan_out_adds [OF f(1), of "\<lambda>_ _. True"]] by simp
  with fan_out_dead [OF f(1)] Cons.IH [OF f(2)] f(3) Cons.prems(2) show ?case by auto
qed simp

lemma take_out_filter:
  "take_out gone ms = (names, ms') \<Longrightarrow> ms' = filter (\<lambda>(i, m). i \<notin> set gone) ms \<and> (names = [] \<longrightarrow> ms' = ms)"
proof (induction gone arbitrary: ms names)
  case (Cons i gone)
  show ?case
  proof (cases "map_of ms i")
    case None
    then have "filter (\<lambda>(j, m). j \<noteq> i \<and> j \<notin> set gone) ms = filter (\<lambda>(j, m). j \<notin> set gone) ms"
      by (intro filter_cong refl) (force simp: map_of_eq_None_iff)
    with None Cons show ?thesis by simp
  next
    case (Some m)
    then obtain names1 where "take_out gone (remove_key i ms) = (names1, ms')" "names = mb_username m # names1"
      using Cons.prems by (auto split: prod.splits)
    with Cons.IH [of "remove_key i ms" names1] show ?thesis by (auto simp: remove_key_def intro!: filter_cong)
  qed
qed simp

text \<open>Pruning removes the given members and those found dead, and leaves no dead member once it has announced anything.\<close>

lemma room_prune_spec:
  "room_prune t st gone cs = (st', cs') \<Longrightarrow> pruned st cs st' cs' \<and>
     (\<forall>i m. (i, m) \<in> set (rm_members st') \<longrightarrow> i \<notin> set gone) \<and>
     (\<forall>i m. (i, m) \<in> set (rm_members st) \<longrightarrow> (i, m) \<notin> set (rm_members st') \<longrightarrow>
        i \<in> set gone \<or> (\<exists>n. (i, n) \<in> set (rm_members st) \<and> ch_closed (cs (mb_tx n))))"
proof (induction t st gone cs rule: room_prune.induct)
  case (1 t st gone cs)
  obtain names ms where tk: "take_out gone (rm_members st) = (names, ms)" by (cases "take_out gone (rm_members st)")
  note ms = take_out_filter [OF tk]
  let ?st = "st\<lparr>rm_members := ms\<rparr>"
  have first: "pruned st cs ?st cs" using ms by (auto simp: pruned_def)
  consider "gone = []" | "gone \<noteq> []" "names = []" | "gone \<noteq> []" "names \<noteq> []" by blast
  then show ?case
  proof cases
    case 1
    with \<open>room_prune t st gone cs = (st', cs')\<close> have "st' = st" "cs' = cs" by (simp_all add: room_prune.simps [of t st "[]"])
    with 1 show ?thesis by (simp add: pruned_refl)
  next
    case 2
    with \<open>room_prune t st gone cs = (st', cs')\<close> tk have st': "st' = ?st" "cs' = cs" by (simp_all add: room_prune.simps [of t st gone])
    have "i \<notin> set gone" if "(i, m) \<in> set ms" for i m
    proof -
      have "(i, m) \<in> set (filter (\<lambda>(i, m). i \<notin> set gone) (rm_members st))" using that ms by simp
      then show ?thesis by simp
    qed
    moreover have "ms = rm_members st" using ms 2(2) by blast
    ultimately show ?thesis using first unfolding st' by fastforce
  next
    case 3
    obtain d1 cs1 d2 cs2 where f: "fan_out ?st (user_list ?st) cs = (d1, cs1)" "announce_left t ?st names cs1 = (d2, cs2)"
      by (metis prod.exhaust)
    have rest: "room_prune t ?st (d1 @ d2) cs2 = (st', cs')"
      using 1(2) 3 tk f by (simp add: room_prune.simps [of t st gone])
    note IH = 1(1) [OF 3(1) tk [symmetric] refl refl 3(2) f(1) [symmetric] refl f(2) [symmetric] refl rest]
    have "adds cs cs1 (\<lambda>c ob. c \<in> txs ?st \<and> notice (rm_name ?st) ob)" by (rule fan_out_adds [OF f(1)]) (use notice_user_list [of ?st] in simp)
    with announce_adds [OF f(2)] have ann: "adds cs cs2 (\<lambda>c ob. c \<in> txs ?st \<and> notice (rm_name ?st) ob)"
      by (blast intro: adds_trans)
    then have "pruned ?st cs ?st cs2" using pruned_refl [of ?st cs] by (simp add: pruned_def)
    with first IH have whole: "pruned st cs st' cs'" by (blast intro: pruned_trans)
    have "(i, m) \<in> set (rm_members st') \<Longrightarrow> i \<notin> set gone" for i m
    proof -
      assume "(i, m) \<in> set (rm_members st')"
      then have "(i, m) \<in> set ms" using pruned_fields(6) [OF IH [THEN conjunct1]] by auto
      then have "(i, m) \<in> set (filter (\<lambda>(i, m). i \<notin> set gone) (rm_members st))" using ms by simp
      then show ?thesis by simp
    qed
    moreover have "i \<in> set gone \<or> (\<exists>n. (i, n) \<in> set (rm_members st) \<and> ch_closed (cs (mb_tx n)))"
      if "(i, m) \<in> set (rm_members st)" "(i, m) \<notin> set (rm_members st')" for i m
    proof (rule ccontr)
      assume no: "\<not> ?thesis"
      then have "(i, m) \<in> set ms" using that(1) ms by auto
      with that(2) IH obtain n where "i \<in> set (d1 @ d2) \<or> (i, n) \<in> set ms \<and> ch_closed (cs2 (mb_tx n))" by fastforce
      moreover have "\<not> ((i, n) \<in> set ms \<and> ch_closed (cs2 (mb_tx n)))" for n
        using no ms adds_closed [OF ann] by auto
      moreover have "i \<notin> set d1" using fan_out_dead [OF f(1)] no ms by auto
      moreover have "i \<notin> set d2"
        using announce_dead [OF f(2)] adds_closed [OF fan_out_adds [OF f(1), of "\<lambda>_ _. True"]] no ms by auto
      ultimately show False by auto
    qed
    ultimately show ?thesis using whole by blast
  qed
qed

lemma room_broadcast_spec:
  assumes "room_broadcast t st ob cs = (st', cs')"
  shows "\<exists>cs1. adds cs cs1 (\<lambda>c x. c \<in> txs st \<and> x = ob) \<and> pruned st cs1 st' cs'"
    and "(i, m) \<in> set (rm_members st') \<Longrightarrow> \<not> ch_closed (cs' (mb_tx m))"
    and "(i, m) \<in> set (rm_members st) \<Longrightarrow> (i, m) \<notin> set (rm_members st') \<Longrightarrow>
      \<exists>n. (i, n) \<in> set (rm_members st) \<and> ch_closed (cs (mb_tx n))"
proof -
  obtain dead cs1 where f: "fan_out st ob cs = (dead, cs1)" and r: "room_prune t st dead cs1 = (st', cs')"
    using assms by (auto simp: room_broadcast_def split: prod.splits)
  have a: "adds cs cs1 (\<lambda>c x. c \<in> txs st \<and> x = ob)" by (rule fan_out_adds [OF f]) auto
  with room_prune_spec [OF r] show "\<exists>cs1. adds cs cs1 (\<lambda>c x. c \<in> txs st \<and> x = ob) \<and> pruned st cs1 st' cs'" by blast
  have closed: "ch_closed (cs' c) = ch_closed (cs c)" for c
    using adds_closed [OF a] room_prune_spec [OF r] pruned_fields(9) by blast
  show "\<not> ch_closed (cs' (mb_tx m))" if "(i, m) \<in> set (rm_members st')" for i m
  proof
    assume "ch_closed (cs' (mb_tx m))"
    moreover have "(i, m) \<in> set (rm_members st)" using that room_prune_spec [OF r] pruned_fields(6) by blast
    ultimately have "i \<in> set dead" using fan_out_dead [OF f] closed by force
    with that room_prune_spec [OF r] show False by blast
  qed
  show "\<exists>n. (i, n) \<in> set (rm_members st) \<and> ch_closed (cs (mb_tx n))"
    if "(i, m) \<in> set (rm_members st)" "(i, m) \<notin> set (rm_members st')" for i m
  proof -
    have "i \<in> set dead \<or> (\<exists>n. (i, n) \<in> set (rm_members st) \<and> ch_closed (cs1 (mb_tx n)))"
      using that room_prune_spec [OF r] by blast
    then show ?thesis using fan_out_dead [OF f] adds_closed [OF a] by auto
  qed
qed

lemma room_broadcast_fields:
  assumes "room_broadcast t st ob cs = (st', cs')"
  shows "rm_name st' = rm_name st" "rm_min_class_join st' = rm_min_class_join st" "rm_closed st' = rm_closed st"
    "rm_interview_mode st' = rm_interview_mode st" "set (rm_members st') \<subseteq> set (rm_members st)"
    "distinct (map fst (rm_members st)) \<Longrightarrow> distinct (map fst (rm_members st'))" "txs st' \<subseteq> txs st"
proof -
  obtain cs1 where p: "pruned st cs1 st' cs'" using room_broadcast_spec(1) [OF assms] by blast
  show "rm_name st' = rm_name st" "rm_min_class_join st' = rm_min_class_join st" "rm_closed st' = rm_closed st"
    "rm_interview_mode st' = rm_interview_mode st" "set (rm_members st') \<subseteq> set (rm_members st)"
    "distinct (map fst (rm_members st)) \<Longrightarrow> distinct (map fst (rm_members st'))" "txs st' \<subseteq> txs st"
    using pruned_fields [OF p] by blast+
qed

lemma room_broadcast_adds:
  assumes "room_broadcast t st ob cs = (st', cs')" and "\<And>c. c \<in> txs st \<Longrightarrow> p c ob"
    and "\<And>c x. c \<in> txs st \<Longrightarrow> notice (rm_name st) x \<Longrightarrow> p c x"
  shows "adds cs cs' p"
proof -
  obtain cs1 where "adds cs cs1 (\<lambda>c x. c \<in> txs st \<and> x = ob)" "adds cs1 cs' (\<lambda>c x. c \<in> txs st \<and> notice (rm_name st) x)"
    using room_broadcast_spec(1) [OF assms(1)] unfolding pruned_def by blast
  then have "adds cs cs1 p" "adds cs1 cs' p" using assms(2,3) by (blast intro: adds_mono)+
  then show ?thesis by (rule adds_trans)
qed

section \<open>The room invariant\<close>

text \<open>Keys are session identifiers, and a closed room has no members.\<close>

definition room_ok :: "RoomState \<Rightarrow> bool" where
  "room_ok st \<longleftrightarrow> distinct (map fst (rm_members st)) \<and> (\<forall>(i, m)\<in>set (rm_members st). mb_session_id m = i) \<and>
     (rm_closed st \<longrightarrow> rm_members st = [])"

lemma room_ok_shrink:
  assumes "room_ok st" and "set (rm_members st') \<subseteq> set (rm_members st)" and "distinct (map fst (rm_members st'))"
    and "rm_closed st' = rm_closed st"
  shows "room_ok st'"
  using assms unfolding room_ok_def by fastforce

lemma room_ok_pruned:
  assumes "pruned st cs st' cs'" and "room_ok st"
  shows "room_ok st'"
  by (rule room_ok_shrink [OF assms(2) pruned_fields(6) [OF assms(1)] pruned_fields(8) [OF assms(1)] pruned_fields(5) [OF assms(1)]])
    (use assms(2) in \<open>simp add: room_ok_def\<close>)

lemma room_ok_broadcast: "room_broadcast t st ob cs = (st', cs') \<Longrightarrow> room_ok st \<Longrightarrow> room_ok st'"
  using room_broadcast_spec(1) room_ok_pruned by blast

lemma room_ok_prune: "room_prune t st gone cs = (st', cs') \<Longrightarrow> room_ok st \<Longrightarrow> room_ok st'"
  using room_prune_spec room_ok_pruned by blast

lemma room_join_cases:
  assumes "room_join t st member cs = (reply, st', cs')"
  obtains (refused) e where "reply = RR_Result (Err e)" "st' = st" "cs' = cs"
      "e = RoomClosed \<longleftrightarrow> rm_closed st"
  | (joined) st1 cs1 st2 cs2 where "reply = RR_Result (Ok ())" "\<not> rm_closed st"
      "map_of (rm_members st) (mb_session_id member) = None" "rm_min_class_join st \<le> mb_class member"
      "st1 = st\<lparr>rm_members := rm_members st @ [(mb_session_id member, member)]\<rparr>"
      "cs1 = (if rm_topic st \<noteq> [] then send_to st1 (mb_session_id member) (topic_frame (rm_name st) (rm_topic st)) cs else cs)"
      "room_broadcast t st1 (user_list st1) cs1 = (st2, cs2)"
      "room_broadcast t st2 (system t st2 (mb_username member @ '' joined'')) cs2 = (st', cs')"
proof -
  let ?st1 = "st\<lparr>rm_members := rm_members st @ [(mb_session_id member, member)]\<rparr>"
  let ?cs1 = "if rm_topic st \<noteq> [] then send_to ?st1 (mb_session_id member) (topic_frame (rm_name st) (rm_topic st)) cs else cs"
  obtain st2 cs2 where b: "room_broadcast t ?st1 (user_list ?st1) ?cs1 = (st2, cs2)" by (metis prod.exhaust)
  obtain st3 cs3 where b': "room_broadcast t st2 (system t st2 (mb_username member @ '' joined'')) cs2 = (st3, cs3)"
    by (metis prod.exhaust)
  consider "rm_closed st" | "\<not> rm_closed st" "map_of (rm_members st) (mb_session_id member) \<noteq> None"
    | "\<not> rm_closed st" "map_of (rm_members st) (mb_session_id member) = None" "mb_class member < rm_min_class_join st"
    | "\<not> rm_closed st" "map_of (rm_members st) (mb_session_id member) = None" "\<not> mb_class member < rm_min_class_join st"
    by blast
  then show thesis
  proof cases
    case 4
    with assms b b' have "reply = RR_Result (Ok ())" "st' = st3" "cs' = cs3" by (auto simp: room_join_def Let_def)
    with 4 b b' joined show thesis by (simp add: not_less)
  qed (use assms refused in \<open>auto simp: room_join_def\<close>)
qed

lemma room_ok_handle:
  assumes "room_handle t command st cs = (reply, st', cs')" and "room_ok st"
  shows "room_ok st' \<and> rm_name st' = rm_name st"
proof (cases command)
  case (RC_Join member)
  then have "room_join t st member cs = (reply, st', cs')" using assms(1) by (simp add: room_handle_def)
  then show ?thesis
  proof (cases rule: room_join_cases)
    case refused
    with assms(2) show ?thesis by simp
  next
    case (joined st1 cs1 st2 cs2)
    then have "mb_session_id member \<notin> fst ` set (rm_members st)" by (simp add: map_of_eq_None_iff)
    with joined assms(2) have "room_ok st1" by (auto simp: room_ok_def)
    from room_ok_broadcast [OF joined(8) room_ok_broadcast [OF joined(7) this]]
      room_broadcast_fields(1) [OF joined(8)] room_broadcast_fields(1) [OF joined(7)] joined(5)
    show ?thesis by simp
  qed
next
  case (RC_Leave i)
  with assms show ?thesis
    by (auto simp: room_handle_def dest: room_ok_prune room_prune_spec pruned_fields(1) split: if_splits)
next
  case (RC_Message i fl msg)
  with assms show ?thesis
    by (auto simp: room_handle_def room_message_def dest: room_ok_broadcast room_broadcast_fields(1) split: if_splits option.splits)
next
  case (RC_SetTopic i topic)
  have "room_ok (st\<lparr>rm_topic := topic\<rparr>)" using assms(2) by (simp add: room_ok_def)
  with RC_SetTopic assms show ?thesis
    by (auto simp: room_handle_def room_set_topic_def dest: room_ok_broadcast room_broadcast_fields(1)
        split: if_splits option.splits prod.splits)
next
  case (RC_SetFlags i mc im)
  have "room_ok (st\<lparr>rm_min_class_join := x, rm_interview_mode := im\<rparr>)" for x using assms(2) by (simp add: room_ok_def)
  with RC_SetFlags assms show ?thesis
    by (auto simp: room_handle_def room_set_flags_def Let_def dest: room_ok_broadcast room_broadcast_fields(1)
        split: if_splits option.splits prod.splits)
qed (use assms in \<open>auto simp: room_handle_def room_ok_def Let_def split: if_splits\<close>)

section \<open>What members receive\<close>

text \<open>The frames a command may add to queue \<open>c\<close>.\<close>

definition allowed_frame :: "u64 \<Rightarrow> RoomCommand \<Rightarrow> RoomState \<Rightarrow> nat \<Rightarrow> Outbound \<Rightarrow> bool" where
  "allowed_frame t command st c ob \<longleftrightarrow>
     c \<in> txs st \<union> (case command of RC_Join m \<Rightarrow> {mb_tx m} | _ \<Rightarrow> {}) \<and>
     (ob_packet_type ob = PacketType.ChatMessage \<longrightarrow> notice (rm_name st) ob \<or>
        (\<exists>i m fl msg. command = RC_Message i fl msg \<and> map_of (rm_members st) i = Some m \<and>
           (rm_interview_mode st \<longrightarrow> has (mb_privileges m) CHAT_SET_TOPIC) \<and>
           ob = event_frame 0 \<lparr>ChatEvent_room = rm_name st, ChatEvent_sender = mb_username m, ChatEvent_timestamp = t,
             ChatEvent_flags = fl AND CHAT_ACTION, ChatEvent_text = msg\<rparr>))"

lemma allowed_notice: "c \<in> txs st \<Longrightarrow> notice (rm_name st) ob \<Longrightarrow> allowed_frame t command st c ob"
  by (simp add: allowed_frame_def)

lemma allowed_other: "c \<in> txs st \<Longrightarrow> ob_packet_type ob \<noteq> PacketType.ChatMessage \<Longrightarrow> allowed_frame t command st c ob"
  by (simp add: allowed_frame_def)

lemma send_to_adds:
  assumes "\<And>m. map_of (rm_members st) i = Some m \<Longrightarrow> p (mb_tx m) ob"
  shows "adds cs (send_to st i ob cs) p"
  using assms by (auto simp: send_to_def intro!: try_send_adds split: option.splits)

lemma tx_member: "map_of (rm_members st) i = Some m \<Longrightarrow> mb_tx m \<in> txs st"
  by (force simp: txs_def dest: map_of_SomeD)

lemma join_adds:
  assumes "room_join t st member cs = (reply, st', cs')"
  shows "adds cs cs' (allowed_frame t (RC_Join member) st)"
  using assms
proof (cases rule: room_join_cases)
  case (joined st1 cs1 st2 cs2)
  have tx1: "txs st1 \<subseteq> txs st \<union> {mb_tx member}" and n1: "rm_name st1 = rm_name st" using joined(5) by (auto simp: txs_def)
  have tx2: "txs st2 \<subseteq> txs st \<union> {mb_tx member}" "rm_name st2 = rm_name st"
    using room_broadcast_fields(1,7) [OF joined(7)] tx1 n1 by auto
  have ok: "allowed_frame t (RC_Join member) st c ob"
    if "c \<in> txs st \<union> {mb_tx member}" "notice (rm_name st) ob \<or> ob_packet_type ob \<noteq> PacketType.ChatMessage" for c ob
    using that by (auto simp: allowed_frame_def)
  have "adds cs cs1 (allowed_frame t (RC_Join member) st)"
    using joined(6) tx1 by (auto intro!: send_to_adds ok dest: tx_member simp: topic_frame_def)
  moreover have "notice (rm_name st) (user_list st1)" using notice_user_list [of st1] n1 by simp
  then have "adds cs1 cs2 (allowed_frame t (RC_Join member) st)"
    by (intro room_broadcast_adds [OF joined(7)] ok) (use tx1 n1 in auto)
  moreover have "notice (rm_name st) (system t st2 (mb_username member @ '' joined''))" using notice_system [of st2] tx2(2) by simp
  then have "adds cs2 cs' (allowed_frame t (RC_Join member) st)"
    by (intro room_broadcast_adds [OF joined(8)] ok) (use tx2 in auto)
  ultimately show ?thesis by (blast intro: adds_trans)
qed auto

lemma handle_adds:
  assumes "room_handle t command st cs = (reply, st', cs')"
  shows "adds cs cs' (allowed_frame t command st)"
proof (cases command)
  case (RC_Join member)
  with assms join_adds show ?thesis by (auto simp: room_handle_def)
next
  case (RC_Leave i)
  with assms room_prune_spec [of t st "[i]" cs st' cs'] show ?thesis
    by (auto simp: room_handle_def pruned_def intro: allowed_notice adds_mono split: if_splits)
next
  case (RC_Message i fl msg)
  show ?thesis
  proof (cases "map_of (rm_members st) i")
    case None
    with RC_Message assms show ?thesis by (simp add: room_handle_def room_message_def)
  next
    case (Some m)
    show ?thesis
    proof (cases "rm_interview_mode st \<and> \<not> has (mb_privileges m) CHAT_SET_TOPIC")
      case True
      with RC_Message assms Some show ?thesis
        by (auto simp: room_handle_def room_message_def intro!: send_to_adds allowed_other tx_member)
    next
      case False
      let ?ob = "event_frame 0 \<lparr>ChatEvent_room = rm_name st, ChatEvent_sender = mb_username m, ChatEvent_timestamp = t,
             ChatEvent_flags = fl AND CHAT_ACTION, ChatEvent_text = msg\<rparr>"
      have b: "room_broadcast t st ?ob cs = (st', cs')"
        using RC_Message assms Some False by (auto simp: room_handle_def room_message_def)
      show ?thesis
        by (rule room_broadcast_adds [OF b]) (use RC_Message Some False in \<open>auto simp: allowed_frame_def\<close>)
    qed
  qed
next
  case (RC_SetTopic i topic)
  let ?st = "st\<lparr>rm_topic := topic\<rparr>"
  have tx: "txs ?st = txs st" by (simp add: txs_def)
  show ?thesis
  proof (cases "reply = RR_Result (Ok ())")
    case True
    have b: "room_broadcast t ?st (topic_frame (rm_name st) topic) cs = (st', cs')"
      using RC_SetTopic assms True by (auto simp: room_handle_def room_set_topic_def split: option.splits if_splits prod.splits)
    show ?thesis
      by (rule room_broadcast_adds [OF b]) (auto simp: tx topic_frame_def intro: allowed_other allowed_notice)
  next
    case False
    with RC_SetTopic assms have "cs' = cs"
      by (auto simp: room_handle_def room_set_topic_def split: option.splits if_splits prod.splits)
    then show ?thesis by simp
  qed
next
  case (RC_SetFlags i mc im)
  show ?thesis
  proof (cases "reply = RR_Result (Ok ())")
    case True
    let ?st = "st\<lparr>rm_min_class_join := min mc 3, rm_interview_mode := im\<rparr>"
    have tx: "txs ?st = txs st" by (simp add: txs_def)
    obtain msg where b: "room_broadcast t ?st (system t ?st msg) cs = (st', cs')"
      using RC_SetFlags assms True
      by (auto simp: room_handle_def room_set_flags_def Let_def split: option.splits if_splits prod.splits)
    have "notice (rm_name st) (system t ?st msg)" using notice_system [of ?st] by simp
    then show ?thesis
      by (intro room_broadcast_adds [OF b]) (auto simp: tx intro: allowed_notice)
  next
    case False
    with RC_SetFlags assms have "cs' = cs"
      by (auto simp: room_handle_def room_set_flags_def Let_def split: option.splits if_splits prod.splits)
    then show ?thesis by simp
  qed
qed (use assms in \<open>auto simp: room_handle_def Let_def\<close>)

section \<open>Properties\<close>

text \<open>Property C16. Chat cannot be forged: whatever command a room handles, it only appends to queues of its
  members (and of the one joining), and every chat message among what it appends is either a notice of the
  server, with empty sender and the system flag, or the text of the \<open>Message\<close> command under the name of the
  member who sent it, with no flag but \<open>CHAT_ACTION\<close>; in interview mode that member is a panelist.\<close>

theorem chat_not_forged:
  assumes "room_handle t command st cs = (reply, st', cs')"
  shows "\<exists>new. ch_queue (cs' c) = ch_queue (cs c) @ new \<and>
    (\<forall>ob\<in>set new. c \<in> txs st \<union> (case command of RC_Join m \<Rightarrow> {mb_tx m} | _ \<Rightarrow> {}) \<and>
      (ob_packet_type ob = PacketType.ChatMessage \<longrightarrow>
         (\<exists>ts text. ob = event_frame SYSTEM_MESSAGE \<lparr>ChatEvent_room = rm_name st, ChatEvent_sender = [],
            ChatEvent_timestamp = ts, ChatEvent_flags = CHAT_SYSTEM, ChatEvent_text = text\<rparr>) \<or>
         (\<exists>i m fl text. command = RC_Message i fl text \<and> map_of (rm_members st) i = Some m \<and>
            (rm_interview_mode st \<longrightarrow> has (mb_privileges m) CHAT_SET_TOPIC) \<and>
            ob = event_frame 0 \<lparr>ChatEvent_room = rm_name st, ChatEvent_sender = mb_username m, ChatEvent_timestamp = t,
              ChatEvent_flags = fl AND CHAT_ACTION, ChatEvent_text = text\<rparr>)))"
proof -
  obtain new where "ch_queue (cs' c) = ch_queue (cs c) @ new" "\<forall>ob\<in>set new. allowed_frame t command st c ob"
    using handle_adds [OF assms] unfolding adds_def by blast
  then show ?thesis by (intro exI [of _ new]) (auto simp: allowed_frame_def notice_def)
qed

definition two_members :: RoomState where
  "two_members = (spawn_room ''lobby'')\<lparr>rm_members := map (\<lambda>(i, n, c). (i, \<lparr>mb_session_id = i, mb_username = n, mb_class = 1,
     mb_privileges = 0, mb_tx = c\<rparr>)) [([1], ''ann'', 1), ([2], ''bob'', 2)]\<rparr>"

definition open_channels :: channels where
  "open_channels = (\<lambda>c. \<lparr>ch_queue = [], ch_capacity = 4, ch_closed = False\<rparr>)"

theorem chat_not_forged_witness:
  "\<exists>ob. ch_queue (snd (snd (room_handle 0 (RC_Message [1] 0xFF ''hi'') two_members open_channels)) 2) = [ob] \<and>
     (\<exists>m fl text. map_of (rm_members two_members) [1] = Some m \<and> ob = event_frame 0 \<lparr>ChatEvent_room = ''lobby'',
        ChatEvent_sender = mb_username m, ChatEvent_timestamp = 0, ChatEvent_flags = fl AND CHAT_ACTION, ChatEvent_text = text\<rparr>)"
proof -
  let ?cs = "snd (snd (room_handle 0 (RC_Message [1] 0xFF ''hi'') two_members open_channels))"
  let ?ob = "event_frame 0 \<lparr>ChatEvent_room = ''lobby'', ChatEvent_sender = ''ann'', ChatEvent_timestamp = 0,
    ChatEvent_flags = 0xFF AND CHAT_ACTION, ChatEvent_text = ''hi''\<rparr>"
  have q: "ch_queue (?cs 2) = [?ob]" "ob_packet_type ?ob = PacketType.ChatMessage" "ob_flags ?ob \<noteq> SYSTEM_MESSAGE"
    by (simp_all add: room_handle_def room_message_def two_members_def spawn_room_def open_channels_def room_broadcast_def
        fan_out_def send_each_Cons try_send_def room_prune.simps event_frame_def SYSTEM_MESSAGE_def)
  obtain reply st' cs' where h: "room_handle 0 (RC_Message [1] 0xFF ''hi'') two_members open_channels = (reply, st', cs')"
    by (metis prod.exhaust)
  with q(1) have cs': "ch_queue (cs' 2) = [?ob]" "ch_queue (open_channels 2) = []" by (simp_all add: open_channels_def)
  from chat_not_forged [OF h, of 2] obtain new where
      "ch_queue (cs' 2) = ch_queue (open_channels 2) @ new" "?ob \<in> set new \<longrightarrow> (\<exists>ts text. ?ob = event_frame SYSTEM_MESSAGE
        \<lparr>ChatEvent_room = rm_name two_members, ChatEvent_sender = [], ChatEvent_timestamp = ts, ChatEvent_flags = CHAT_SYSTEM,
         ChatEvent_text = text\<rparr>) \<or> (\<exists>i m fl text. RC_Message [1] 0xFF ''hi'' = RC_Message i fl text \<and>
        map_of (rm_members two_members) i = Some m \<and> ?ob = event_frame 0 \<lparr>ChatEvent_room = rm_name two_members,
          ChatEvent_sender = mb_username m, ChatEvent_timestamp = 0, ChatEvent_flags = fl AND CHAT_ACTION, ChatEvent_text = text\<rparr>)"
    using q(2) by blast
  with cs' q(3) have "\<exists>i m fl text. RC_Message [1] 0xFF ''hi'' = RC_Message i fl text \<and>
        map_of (rm_members two_members) i = Some m \<and> ?ob = event_frame 0 \<lparr>ChatEvent_room = rm_name two_members,
          ChatEvent_sender = mb_username m, ChatEvent_timestamp = 0, ChatEvent_flags = fl AND CHAT_ACTION, ChatEvent_text = text\<rparr>"
    by (auto simp: event_frame_def)
  with q(1) show ?thesis by (auto simp: two_members_def spawn_room_def)
qed

end
