(* ===== verification/Room_Manager.thy ===== *)
theory Room_Manager
  imports Room Policy "HOL-Library.AList"
begin

text \<open>
  The directory of rooms (\<open>kdx-server-core/src/chat/room_manager.rs\<close>) with its races. Connection
  tasks run \<open>join\<close>, \<open>join_private\<close>, \<open>invite\<close> and \<open>leave\<close> concurrently; between two accesses to the
  concurrent map, and between sending a command to a room and its answer, any other task may run.
  An operation is therefore a sequence of atomic steps, and a task's program counter says which step
  is next. A room is named by the identity of its command channel, so that a same-named successor
  is another room.
\<close>

section \<open>The directory\<close>

definition PRIVATE_ROOM_PREFIX :: string where "PRIVATE_ROOM_PREFIX = ''priv-''"
definition JOIN_ATTEMPTS :: nat where "JOIN_ATTEMPTS = 3"
definition MAX_ROOMS :: nat where "MAX_ROOMS = 1024"

datatype JoinError = InvalidName | CannotCreate | NotInvited | TooManyRooms | RoomErr RoomError | Unavailable

record RoomEntry =
  re_tx :: nat
  re_private :: bool
  re_invited :: "string list"

record RoomManager =
  mg_rooms :: "(string \<times> RoomEntry) list"
  mg_actors :: "nat \<Rightarrow> RoomState option"
  mg_next :: nat
  mg_chans :: channels

definition private_name :: "string \<Rightarrow> bool" where
  "private_name room \<longleftrightarrow> take (length PRIVATE_ROOM_PREFIX) room = PRIVATE_ROOM_PREFIX"

definition RoomManager_new :: "channels \<Rightarrow> RoomManager" where
  "RoomManager_new cs =
     \<lparr>mg_rooms = [(DEFAULT_ROOM, \<lparr>re_tx = 0, re_private = False, re_invited = []\<rparr>)],
      mg_actors = [0 \<mapsto> spawn_room DEFAULT_ROOM], mg_next = 1, mg_chans = cs\<rparr>"

definition check_name :: "string \<Rightarrow> (unit, JoinError) result" where
  "check_name room = (if room = [] \<or> length room > MAX_NAME_LEN then Err InvalidName else Ok ())"

text \<open>\<open>create\<close> in its two accesses: the cap, and \<open>entry().or_insert_with()\<close> with the invitation.\<close>

definition create_check :: "RoomManager \<Rightarrow> string \<Rightarrow> bool" where
  "create_check g room \<longleftrightarrow> \<not> (map_of (mg_rooms g) room = None \<and> length (mg_rooms g) \<ge> MAX_ROOMS)"

definition create_insert :: "RoomManager \<Rightarrow> string \<Rightarrow> bool \<Rightarrow> string option \<Rightarrow> nat \<times> RoomManager" where
  "create_insert g room private invitee =
     (let (e, g1) = (case map_of (mg_rooms g) room of
            Some e \<Rightarrow> (e, g)
          | None \<Rightarrow> (\<lparr>re_tx = mg_next g, re_private = private, re_invited = []\<rparr>,
              g\<lparr>mg_actors := (mg_actors g)(mg_next g \<mapsto> spawn_room room), mg_next := mg_next g + 1\<rparr>));
          e = (case invitee of Some name \<Rightarrow> e\<lparr>re_invited := name # re_invited e\<rparr> | None \<Rightarrow> e)
      in (re_tx e, g1\<lparr>mg_rooms := AList.update room e (mg_rooms g1)\<rparr>))"

definition forget :: "RoomManager \<Rightarrow> string \<Rightarrow> nat \<Rightarrow> RoomManager" where
  "forget g room tx =
     (case map_of (mg_rooms g) room of
        Some e \<Rightarrow> if re_tx e = tx then g\<lparr>mg_rooms := AList.delete room (mg_rooms g)\<rparr> else g
      | None \<Rightarrow> g)"

definition invite :: "RoomManager \<Rightarrow> string \<Rightarrow> string \<Rightarrow> bool \<times> RoomManager" where
  "invite g room username =
     (case map_of (mg_rooms g) room of
        Some e \<Rightarrow>
          if re_private e
          then (True, g\<lparr>mg_rooms := AList.update room (e\<lparr>re_invited := username # re_invited e\<rparr>) (mg_rooms g)\<rparr>)
          else (False, g)
      | None \<Rightarrow> (False, g))"

text \<open>A command the actor behind \<open>tx\<close> handles, and \<open>do_join\<close>.\<close>

definition send_command :: "u64 \<Rightarrow> RoomManager \<Rightarrow> nat \<Rightarrow> RoomCommand \<Rightarrow> room_reply option \<times> RoomManager" where
  "send_command unix_now g tx command =
     (case mg_actors g tx of
        None \<Rightarrow> (None, g)
      | Some st \<Rightarrow>
          let (reply, st', cs') = room_handle unix_now command st (mg_chans g) in
          (Some reply, g\<lparr>mg_actors := (mg_actors g)(tx \<mapsto> st'), mg_chans := cs'\<rparr>))"

definition do_join :: "u64 \<Rightarrow> RoomManager \<Rightarrow> nat \<Rightarrow> Member \<Rightarrow> (unit, JoinError) result \<times> RoomManager" where
  "do_join unix_now g tx member =
     (case send_command unix_now g tx (RC_Join member) of
        (Some (RR_Result (Ok _)), g') \<Rightarrow> (Ok (), g')
      | (Some (RR_Result (Err e)), g') \<Rightarrow> (Err (RoomErr e), g')
      | (_, g') \<Rightarrow> (Err Unavailable, g'))"

definition set_flags ::
  "u64 \<Rightarrow> RoomManager \<Rightarrow> string \<Rightarrow> uuid \<Rightarrow> u8 \<Rightarrow> bool \<Rightarrow> (unit, RoomError) result \<times> RoomManager" where
  "set_flags unix_now g room session_id min_class_join interview_mode =
     (case map_of (mg_rooms g) room of
        None \<Rightarrow> (Err NotMember, g)
      | Some e \<Rightarrow>
          (case send_command unix_now g (re_tx e) (RC_SetFlags session_id min_class_join interview_mode) of
             (Some (RR_Result r), g') \<Rightarrow> (r, g')
           | (_, g') \<Rightarrow> (Err NotMember, g')))"

section \<open>Tasks\<close>

datatype pc =
    Idle
  | Join_Get string Member nat
  | Create_Check bool string Member nat
  | Create_Insert bool string Member nat
  | Do_Join bool string Member nat nat
  | Forget_Retry bool string Member nat nat
  | Leave_Get string uuid
  | Leave_Send string uuid nat
  | Close_If_Empty string nat
  | Leave_Forget string nat
  | Finished "(nat, JoinError) result"

text \<open>The head of one attempt: \<open>join\<close> looks the room up, \<open>join_private\<close> creates it if missing.\<close>

definition attempt :: "bool \<Rightarrow> string \<Rightarrow> Member \<Rightarrow> nat \<Rightarrow> pc" where
  "attempt private room member left =
     (if left = 0 then Finished (Err Unavailable)
      else if private then Create_Check True room member left else Join_Get room member left)"

definition start_join :: "bool \<Rightarrow> string \<Rightarrow> Member \<Rightarrow> pc" where
  "start_join private room member =
     (case check_name room of Ok _ \<Rightarrow> attempt private room member JOIN_ATTEMPTS | Err e \<Rightarrow> Finished (Err e) | Panic \<Rightarrow> Idle)"

definition join_get :: "RoomManager \<Rightarrow> string \<Rightarrow> Member \<Rightarrow> nat \<Rightarrow> pc" where
  "join_get g room member left =
     (case map_option (\<lambda>e. (re_tx e, \<not> re_private e \<or> mb_username member \<in> set (re_invited e))) (map_of (mg_rooms g) room) of
        Some (_, False) \<Rightarrow> Finished (Err NotInvited)
      | Some (tx, True) \<Rightarrow> Do_Join False room member left tx
      | None \<Rightarrow>
          if private_name room then Finished (Err NotInvited)
          else if \<not> has (mb_privileges member) CHAT_CREATE_ROOM then Finished (Err CannotCreate)
          else Create_Check False room member left)"

definition join_answer :: "bool \<Rightarrow> string \<Rightarrow> Member \<Rightarrow> nat \<Rightarrow> nat \<Rightarrow> (unit, JoinError) result \<times> RoomManager \<Rightarrow> pc \<times> RoomManager" where
  [simp]: "join_answer private room member left tx answer =
     (case answer of
        (Err (RoomErr RoomClosed), g') \<Rightarrow> (Forget_Retry private room member left tx, g')
      | (Ok _, g') \<Rightarrow> (Finished (Ok tx), g')
      | (Err e, g') \<Rightarrow> (Finished (Err e), g')
      | (Panic, g') \<Rightarrow> (Finished Panic, g'))"

text \<open>\<open>leave\<close> in its accesses: the lookup, the \<open>Leave\<close> command, the eviction handshake.\<close>

definition leave_get :: "RoomManager \<Rightarrow> string \<Rightarrow> uuid \<Rightarrow> pc" where
  [simp]: "leave_get g room session_id =
     (case map_of (mg_rooms g) room of Some e \<Rightarrow> Leave_Send room session_id (re_tx e) | None \<Rightarrow> Idle)"

definition leave_send :: "u64 \<Rightarrow> RoomManager \<Rightarrow> string \<Rightarrow> uuid \<Rightarrow> nat \<Rightarrow> pc \<times> RoomManager" where
  [simp]: "leave_send t g room session_id tx =
     (if room = DEFAULT_ROOM then Idle else Close_If_Empty room tx, snd (send_command t g tx (RC_Leave session_id)))"

definition close_if_empty :: "u64 \<Rightarrow> RoomManager \<Rightarrow> string \<Rightarrow> nat \<Rightarrow> pc \<times> RoomManager" where
  [simp]: "close_if_empty t g room tx =
     (case send_command t g tx RC_CloseIfEmpty of
        (Some (RR_Closed True), g') \<Rightarrow> (Leave_Forget room tx, g')
      | (_, g') \<Rightarrow> (Idle, g'))"

fun task_step :: "u64 \<Rightarrow> pc \<Rightarrow> RoomManager \<Rightarrow> pc \<times> RoomManager" where
  "task_step t Idle g = (Idle, g)"
| "task_step t (Join_Get room member left) g = (join_get g room member left, g)"
| "task_step t (Create_Check private room member left) g =
     (if create_check g room then Create_Insert private room member left else Finished (Err TooManyRooms), g)"
| "task_step t (Create_Insert private room member left) g =
     (let (tx, g') = create_insert g room private (if private then Some (mb_username member) else None) in
      (Do_Join private room member left tx, g'))"
| "task_step t (Do_Join private room member left tx) g =
     join_answer private room member left tx (do_join t g tx member)"
| "task_step t (Forget_Retry private room member left tx) g = (attempt private room member (left - 1), forget g room tx)"
| "task_step t (Leave_Get room session_id) g =
     (leave_get g room session_id, g)"
| "task_step t (Leave_Send room session_id tx) g =
     leave_send t g room session_id tx"
| "task_step t (Close_If_Empty room tx) g =
     close_if_empty t g room tx"
| "task_step t (Leave_Forget room tx) g = (Idle, forget g room tx)"
| "task_step t (Finished r) g = (Finished r, g)"

text \<open>\<open>n\<close> connection tasks over one manager: each may be idle or between two steps of an operation.
  The room commands a connection sends on its own (\<open>Message\<close>, \<open>SetTopic\<close>, \<open>SetFlags\<close>) go to the actor in one step.
  A caller of \<open>join_private\<close> picks a name under \<open>PRIVATE_ROOM_PREFIX\<close>, as its contract asks and
  \<open>ChatInvite\<close> does.\<close>

type_synonym world = "RoomManager \<times> (nat \<Rightarrow> pc)"

fun chat_command :: "RoomCommand \<Rightarrow> bool" where
  "chat_command (RC_Join _) = False"
| "chat_command RC_CloseIfEmpty = False"
| "chat_command _ = True"

inductive rooms_run :: "nat \<Rightarrow> world \<Rightarrow> bool" for n :: nat where
  start: "rooms_run n (RoomManager_new cs, \<lambda>_. Idle)"
| begin_join: "rooms_run n (g, ps) \<Longrightarrow> p < n \<Longrightarrow> ps p = Idle \<or> ps p = Finished r \<Longrightarrow>
    private \<longrightarrow> private_name room \<Longrightarrow> rooms_run n (g, ps(p := start_join private room member))"
| begin_leave: "rooms_run n (g, ps) \<Longrightarrow> p < n \<Longrightarrow> ps p = Idle \<or> ps p = Finished r \<Longrightarrow>
    rooms_run n (g, ps(p := Leave_Get room session_id))"
| task: "rooms_run n (g, ps) \<Longrightarrow> p < n \<Longrightarrow> task_step t (ps p) g = (pc', g') \<Longrightarrow> rooms_run n (g', ps(p := pc'))"
| invited: "rooms_run n (g, ps) \<Longrightarrow> rooms_run n (snd (invite g room username), ps)"
| chat: "rooms_run n (g, ps) \<Longrightarrow> chat_command command \<Longrightarrow> rooms_run n (snd (send_command t g tx command), ps)"
| link: "rooms_run n (g, ps) \<Longrightarrow> rooms_run n (g\<lparr>mg_chans := cs\<rparr>, ps)"

section \<open>The invariant\<close>

definition entries_ok :: "RoomManager \<Rightarrow> bool" where
  "entries_ok g \<longleftrightarrow> distinct (map fst (mg_rooms g)) \<and>
     (\<forall>name e. map_of (mg_rooms g) name = Some e \<longrightarrow>
        (\<exists>st. mg_actors g (re_tx e) = Some st \<and> rm_name st = name \<and>
           (re_private e \<longrightarrow> private_name name \<and> (\<forall>(i, m)\<in>set (rm_members st). mb_username m \<in> set (re_invited e)))))"

definition actors_ok :: "RoomManager \<Rightarrow> bool" where
  "actors_ok g \<longleftrightarrow> (\<forall>tx st. mg_actors g tx = Some st \<longrightarrow> room_ok st \<and> tx < mg_next g \<and>
     ((\<exists>e. map_of (mg_rooms g) (rm_name st) = Some e \<and> re_tx e = tx) \<or> rm_closed st))"

definition lobby_ok :: "RoomManager \<Rightarrow> bool" where
  "lobby_ok g \<longleftrightarrow> (\<exists>e st. map_of (mg_rooms g) DEFAULT_ROOM = Some e \<and> mg_actors g (re_tx e) = Some st \<and> \<not> rm_closed st)"

definition manager_ok :: "RoomManager \<Rightarrow> bool" where
  "manager_ok g \<longleftrightarrow> entries_ok g \<and> actors_ok g \<and> lobby_ok g"

text \<open>What a task knows about the room behind the handle it holds.\<close>

fun pc_ok :: "RoomManager \<Rightarrow> pc \<Rightarrow> bool" where
  "pc_ok g (Do_Join private room member left tx) \<longleftrightarrow>
     (\<exists>st. mg_actors g tx = Some st \<and> rm_name st = room) \<and>
     (\<forall>e. map_of (mg_rooms g) room = Some e \<longrightarrow> re_tx e = tx \<longrightarrow> re_private e \<longrightarrow> mb_username member \<in> set (re_invited e)) \<and>
     (private \<longrightarrow> private_name room)"
| "pc_ok g (Create_Check private room member left) \<longleftrightarrow> private = private_name room"
| "pc_ok g (Create_Insert private room member left) \<longleftrightarrow> private = private_name room"
| "pc_ok g (Forget_Retry private room member left tx) \<longleftrightarrow> (private \<longrightarrow> private_name room) \<and> (\<exists>st. mg_actors g tx = Some st \<and> rm_name st = room \<and> rm_closed st)"
| "pc_ok g (Leave_Send room session_id tx) \<longleftrightarrow> (\<exists>st. mg_actors g tx = Some st \<and> rm_name st = room)"
| "pc_ok g (Close_If_Empty room tx) \<longleftrightarrow> room \<noteq> DEFAULT_ROOM \<and> (\<exists>st. mg_actors g tx = Some st \<and> rm_name st = room)"
| "pc_ok g (Leave_Forget room tx) \<longleftrightarrow> (\<exists>st. mg_actors g tx = Some st \<and> rm_name st = room \<and> rm_closed st)"
| "pc_ok g _ \<longleftrightarrow> True"

text \<open>
  Between two states of the manager, what every task's knowledge survives: actors stay, keep
  their names and stay closed; an entry that still leads to the same actor keeps its privacy and
  its invitations.
\<close>

definition evolves :: "RoomManager \<Rightarrow> RoomManager \<Rightarrow> bool" where
  "evolves g g' \<longleftrightarrow>
     (\<forall>tx st. mg_actors g tx = Some st \<longrightarrow> (\<exists>st'. mg_actors g' tx = Some st' \<and> rm_name st' = rm_name st \<and> (rm_closed st \<longrightarrow> rm_closed st'))) \<and>
     (\<forall>name e'. map_of (mg_rooms g') name = Some e' \<longrightarrow>
        (\<exists>e. map_of (mg_rooms g) name = Some e \<and> re_tx e = re_tx e' \<and> re_private e = re_private e' \<and> set (re_invited e) \<subseteq> set (re_invited e')) \<or>
        mg_actors g (re_tx e') = None)"

lemma evolves_pc_ok:
  assumes "evolves g g'" and "pc_ok g pc"
  shows "pc_ok g' pc"
proof (cases pc)
  case (Do_Join pr room member left tx)
  with assms obtain st where st: "mg_actors g tx = Some st" "rm_name st = room" by auto
  have "mb_username member \<in> set (re_invited e')"
    if e': "map_of (mg_rooms g') room = Some e'" "re_tx e' = tx" "re_private e'" for e'
  proof -
    obtain e where "map_of (mg_rooms g) room = Some e" "re_tx e = re_tx e'" "re_private e = re_private e'"
        "set (re_invited e) \<subseteq> set (re_invited e')"
      using assms(1) e'(1,2) st(1) unfolding evolves_def by (metis option.distinct(1))
    with assms(2) Do_Join e' show ?thesis by auto
  qed
  moreover have "\<exists>st. mg_actors g' tx = Some st \<and> rm_name st = room" using assms(1) st unfolding evolves_def by blast
  ultimately show ?thesis using Do_Join assms(2) by simp
qed (use assms in \<open>auto simp: evolves_def, blast+\<close>)

lemma evolves_refl: "evolves g g"
  by (auto simp: evolves_def)

lemma handle_closed:
  assumes "room_handle t command st cs = (reply, st', cs')" and "rm_closed st"
  shows "rm_closed st'"
proof (cases command)
  case (RC_Join m)
  with assms show ?thesis by (auto simp: room_handle_def room_join_def)
qed (use assms in \<open>auto simp: room_handle_def room_message_def room_set_topic_def room_set_flags_def Let_def
      dest: room_broadcast_fields(3) room_prune_spec [THEN conjunct1, THEN pruned_fields(5)]
      split: if_splits option.splits prod.splits\<close>)

lemma handle_open:
  assumes "room_handle t command st cs = (reply, st', cs')" and "\<not> rm_closed st" and "command \<noteq> RC_CloseIfEmpty"
  shows "\<not> rm_closed st'"
proof (cases command)
  case (RC_Join m)
  then have "room_join t st m cs = (reply, st', cs')" using assms(1) by (simp add: room_handle_def)
  then show ?thesis
  proof (cases rule: room_join_cases)
    case (joined st1 cs1 st2 cs2)
    then show ?thesis using room_broadcast_fields(3) [OF joined(8)] room_broadcast_fields(3) [OF joined(7)] by simp
  qed (use assms in simp)
qed (use assms in \<open>auto simp: room_handle_def room_message_def room_set_topic_def room_set_flags_def Let_def
      dest: room_broadcast_fields(3) room_prune_spec [THEN conjunct1, THEN pruned_fields(5)]
      split: if_splits option.splits prod.splits\<close>)

lemma handle_members:
  assumes "room_handle t command st cs = (reply, st', cs')"
  shows "set (rm_members st') \<subseteq> set (rm_members st) \<union> (case command of RC_Join m \<Rightarrow> if rm_closed st then {} else {(mb_session_id m, m)} | _ \<Rightarrow> {})"
proof (cases command)
  case (RC_Join m)
  then have "room_join t st m cs = (reply, st', cs')" using assms by (simp add: room_handle_def)
  then show ?thesis
  proof (cases rule: room_join_cases)
    case (joined st1 cs1 st2 cs2)
    then show ?thesis using room_broadcast_fields(5) [OF joined(8)] room_broadcast_fields(5) [OF joined(7)] RC_Join by auto
  qed (use RC_Join in simp)
qed (use assms in \<open>auto simp: room_handle_def room_message_def room_set_topic_def room_set_flags_def Let_def
      dest!: room_broadcast_fields(5) room_prune_spec [THEN conjunct1, THEN pruned_fields(6)]
      split: if_splits option.splits prod.splits\<close>)

text \<open>A command to one actor.\<close>

lemma send_command_cases:
  assumes "send_command t g tx command = (r, g')"
  obtains (gone) "mg_actors g tx = None" "g' = g" "r = None"
  | (handled) st reply st' cs' where "mg_actors g tx = Some st" "room_handle t command st (mg_chans g) = (reply, st', cs')"
      "g' = g\<lparr>mg_actors := (mg_actors g)(tx \<mapsto> st'), mg_chans := cs'\<rparr>" "r = Some reply"
  using assms by (cases "mg_actors g tx") (auto simp: send_command_def split: prod.splits)

lemma send_command_evolves:
  assumes "manager_ok g" and "send_command t g tx command = (r, g')"
  shows "evolves g g'"
  using assms(2)
proof (cases rule: send_command_cases)
  case (handled st reply st' cs')
  have "room_ok st" using assms(1) handled(1) by (simp add: manager_ok_def actors_ok_def)
  with room_ok_handle [OF handled(2)] handle_closed [OF handled(2)] handled show ?thesis
    by (auto simp: evolves_def)
qed (simp add: evolves_refl)

lemma send_command_ok:
  assumes ok: "manager_ok g" and s: "send_command t g tx command = (r, g')"
    and join: "\<And>m st e. command = RC_Join m \<Longrightarrow> mg_actors g tx = Some st \<Longrightarrow> map_of (mg_rooms g) (rm_name st) = Some e \<Longrightarrow> re_tx e = tx \<Longrightarrow>
      re_private e \<Longrightarrow> mb_username m \<in> set (re_invited e)"
    and close: "\<And>st. command = RC_CloseIfEmpty \<Longrightarrow> mg_actors g tx = Some st \<Longrightarrow> rm_name st \<noteq> DEFAULT_ROOM"
  shows "manager_ok g'"
  using s
proof (cases rule: send_command_cases)
  case gone
  with ok show ?thesis by simp
next
  case (handled st reply st' cs')
  have st: "room_ok st" using ok handled(1) by (simp add: manager_ok_def actors_ok_def)
  note st' = room_ok_handle [OF handled(2) st] and mem = handle_members [OF handled(2)] and cl = handle_closed [OF handled(2)]
  have "entries_ok g'"
    unfolding entries_ok_def
  proof (intro conjI allI impI)
    show "distinct (map fst (mg_rooms g'))" using ok handled(3) by (simp add: manager_ok_def entries_ok_def)
  next
    fix name e
    assume "map_of (mg_rooms g') name = Some e"
    then have e: "map_of (mg_rooms g) name = Some e" using handled(3) by simp
    then obtain s0 where s0: "mg_actors g (re_tx e) = Some s0" "rm_name s0 = name"
        "re_private e \<longrightarrow> private_name name \<and> (\<forall>(i, m)\<in>set (rm_members s0). mb_username m \<in> set (re_invited e))"
      using ok unfolding manager_ok_def entries_ok_def by blast
    show "\<exists>s. mg_actors g' (re_tx e) = Some s \<and> rm_name s = name \<and>
        (re_private e \<longrightarrow> private_name name \<and> (\<forall>(i, m)\<in>set (rm_members s). mb_username m \<in> set (re_invited e)))"
    proof (cases "re_tx e = tx")
      case True
      then have "s0 = st" using s0(1) handled(1) by simp
      moreover have "mb_username m \<in> set (re_invited e)" if "re_private e" "(i, m) \<in> set (rm_members st')" for i m
      proof -
        from mem that(2) consider "(i, m) \<in> set (rm_members st)" | "command = RC_Join m"
          by (auto split: RoomCommand.splits if_splits)
        then show ?thesis
          using s0(3) that(1) join [OF _ handled(1) _ True that(1)] e s0(2) \<open>s0 = st\<close> by cases auto
      qed
      ultimately show ?thesis using True st' s0(2,3) handled(3) by auto
    qed (use s0 handled(3) in auto)
  qed
  moreover have "actors_ok g'"
    using ok handled st' cl by (auto simp: manager_ok_def actors_ok_def)
  moreover have "lobby_ok g'"
  proof -
    obtain e s0 where l: "map_of (mg_rooms g) DEFAULT_ROOM = Some e" "mg_actors g (re_tx e) = Some s0" "\<not> rm_closed s0"
      using ok by (auto simp: manager_ok_def lobby_ok_def)
    have "rm_name s0 = DEFAULT_ROOM" using ok l unfolding manager_ok_def entries_ok_def by fastforce
    then have "\<not> rm_closed st'" if "re_tx e = tx"
      using that handle_open [OF handled(2)] l handled(1) close by auto
    with l handled(3) show ?thesis by (auto simp: lobby_ok_def)
  qed
  ultimately show ?thesis by (simp add: manager_ok_def)
qed

text \<open>Changes of the directory.\<close>

lemma update_entry_ok:
  assumes ok: "manager_ok g" and e: "map_of (mg_rooms g) room = Some e"
    and e': "re_tx e' = re_tx e" "re_private e' = re_private e" "set (re_invited e) \<subseteq> set (re_invited e')"
  shows "manager_ok (g\<lparr>mg_rooms := AList.update room e' (mg_rooms g)\<rparr>)" (is "manager_ok ?g")
    and "evolves g (g\<lparr>mg_rooms := AList.update room e' (mg_rooms g)\<rparr>)"
proof -
  have m: "map_of (mg_rooms ?g) = (map_of (mg_rooms g))(room \<mapsto> e')" by (simp add: AList.update_conv')
  have "entries_ok ?g"
    unfolding entries_ok_def m
  proof (intro conjI allI impI)
    show "distinct (map fst (mg_rooms ?g))" using ok by (simp add: manager_ok_def entries_ok_def AList.distinct_update)
  next
    fix name f
    assume f: "((map_of (mg_rooms g))(room \<mapsto> e')) name = Some f"
    define f0 where "f0 = (if name = room then e else f)"
    have "map_of (mg_rooms g) name = Some f0" "re_tx f = re_tx f0" "re_private f = re_private f0" "set (re_invited f0) \<subseteq> set (re_invited f)"
      using f e e' by (auto simp: f0_def split: if_splits)
    then show "\<exists>st. mg_actors ?g (re_tx f) = Some st \<and> rm_name st = name \<and>
        (re_private f \<longrightarrow> private_name name \<and> (\<forall>(i, m)\<in>set (rm_members st). mb_username m \<in> set (re_invited f)))"
      using ok unfolding manager_ok_def entries_ok_def by fastforce
  qed
  moreover have "actors_ok ?g"
    unfolding actors_ok_def m
  proof (intro allI impI)
    fix tx st
    assume "mg_actors ?g tx = Some st"
    then have "room_ok st" "tx < mg_next g" "(\<exists>e. map_of (mg_rooms g) (rm_name st) = Some e \<and> re_tx e = tx) \<or> rm_closed st"
      using ok by (simp_all add: manager_ok_def actors_ok_def)
    with e e'(1) show "room_ok st \<and> tx < mg_next ?g \<and>
        ((\<exists>f. ((map_of (mg_rooms g))(room \<mapsto> e')) (rm_name st) = Some f \<and> re_tx f = tx) \<or> rm_closed st)"
      by (cases "rm_name st = room") auto
  qed
  moreover have "lobby_ok ?g" using ok e e' unfolding manager_ok_def lobby_ok_def m by auto
  ultimately show "manager_ok ?g" by (simp add: manager_ok_def)
  show "evolves g ?g" using e e' unfolding evolves_def m by auto
qed

lemma invite_ok:
  assumes "manager_ok g"
  shows "manager_ok (snd (invite g room u)) \<and> evolves g (snd (invite g room u))"
proof (cases "\<exists>e. map_of (mg_rooms g) room = Some e \<and> re_private e")
  case True
  then obtain e where e: "map_of (mg_rooms g) room = Some e" "re_private e" by blast
  have "re_tx (e\<lparr>re_invited := u # re_invited e\<rparr>) = re_tx e" "re_private (e\<lparr>re_invited := u # re_invited e\<rparr>) = re_private e"
    "set (re_invited e) \<subseteq> set (re_invited (e\<lparr>re_invited := u # re_invited e\<rparr>))" by auto
  from update_entry_ok [OF assms e(1) this] e show ?thesis by (simp add: invite_def)
next
  case False
  then have "snd (invite g room u) = g" by (auto simp: invite_def split: option.splits)
  with assms show ?thesis by (simp add: evolves_refl)
qed

lemma new_room_ok:
  assumes ok: "manager_ok g" and none: "map_of (mg_rooms g) room = None" and e: "re_tx e = mg_next g" "re_private e \<longrightarrow> private_name room"
    and g': "g' = g\<lparr>mg_actors := (mg_actors g)(mg_next g \<mapsto> spawn_room room), mg_next := mg_next g + 1,
      mg_rooms := AList.update room e (mg_rooms g)\<rparr>"
  shows "manager_ok g' \<and> evolves g g'"
proof -
  have m: "map_of (mg_rooms g') = (map_of (mg_rooms g))(room \<mapsto> e)" using g' by (simp add: AList.update_conv')
  have fresh: "mg_actors g (mg_next g) = None"
    using ok unfolding manager_ok_def actors_ok_def by (metis less_irrefl not_Some_eq)
  have new: "mg_actors g' tx = (if tx = mg_next g then Some (spawn_room room) else mg_actors g tx)" for tx using g' by simp
  have spawned: "room_ok (spawn_room room)" "rm_name (spawn_room room) = room" "rm_members (spawn_room room) = []"
    by (simp_all add: spawn_room_def room_ok_def)
  have old: "re_tx f \<noteq> mg_next g" if "map_of (mg_rooms g) name = Some f" for name f
    using ok that fresh unfolding manager_ok_def entries_ok_def by (metis option.distinct(1))
  have "entries_ok g'"
    unfolding entries_ok_def
  proof (intro conjI allI impI)
    show "distinct (map fst (mg_rooms g'))" using ok g' by (simp add: manager_ok_def entries_ok_def AList.distinct_update)
  next
    fix name f
    assume f: "map_of (mg_rooms g') name = Some f"
    show "\<exists>st. mg_actors g' (re_tx f) = Some st \<and> rm_name st = name \<and>
        (re_private f \<longrightarrow> private_name name \<and> (\<forall>(i, m)\<in>set (rm_members st). mb_username m \<in> set (re_invited f)))"
    proof (cases "name = room")
      case True
      with f m e new spawned show ?thesis by simp
    next
      case False
      then have "map_of (mg_rooms g) name = Some f" using f m by simp
      with ok old [OF this] new show ?thesis unfolding manager_ok_def entries_ok_def by simp
    qed
  qed
  moreover have "actors_ok g'"
    unfolding actors_ok_def
  proof (intro allI impI)
    fix tx st
    assume "mg_actors g' tx = Some st"
    then consider "tx = mg_next g" "st = spawn_room room" | "tx \<noteq> mg_next g" "mg_actors g tx = Some st"
      using new by (auto split: if_splits)
    then show "room_ok st \<and> tx < mg_next g' \<and> ((\<exists>e. map_of (mg_rooms g') (rm_name st) = Some e \<and> re_tx e = tx) \<or> rm_closed st)"
    proof cases
      case 1
      with spawned m e g' show ?thesis by simp
    next
      case 2
      with ok have "room_ok st" "tx < mg_next g" "(\<exists>e. map_of (mg_rooms g) (rm_name st) = Some e \<and> re_tx e = tx) \<or> rm_closed st"
        by (simp_all add: manager_ok_def actors_ok_def)
      with none m g' show ?thesis by auto
    qed
  qed
  moreover have "lobby_ok g'"
    using ok none m old new unfolding manager_ok_def lobby_ok_def by (metis fun_upd_other option.distinct(1))
  moreover have "evolves g g'"
    using m new e fresh unfolding evolves_def by auto
  ultimately show ?thesis by (simp add: manager_ok_def)
qed

lemma create_insert_ok:
  assumes ok: "manager_ok g" and c: "create_insert g room pr invitee = (tx, g')" and pr: "pr \<longrightarrow> private_name room"
  shows "manager_ok g' \<and> evolves g g' \<and>
    (\<exists>e st. map_of (mg_rooms g') room = Some e \<and> re_tx e = tx \<and> mg_actors g' tx = Some st \<and> rm_name st = room \<and>
       (\<forall>name. invitee = Some name \<longrightarrow> name \<in> set (re_invited e)))"
proof (cases "map_of (mg_rooms g) room")
  case (Some e)
  let ?e = "case invitee of Some name \<Rightarrow> e\<lparr>re_invited := name # re_invited e\<rparr> | None \<Rightarrow> e"
  have g': "g' = g\<lparr>mg_rooms := AList.update room ?e (mg_rooms g)\<rparr>" "tx = re_tx ?e" using c Some by (simp_all add: create_insert_def Let_def)
  have e: "re_tx ?e = re_tx e" "re_private ?e = re_private e" "set (re_invited e) \<subseteq> set (re_invited ?e)" by (auto split: option.splits)
  obtain st where "mg_actors g (re_tx e) = Some st" "rm_name st = room"
    using ok Some unfolding manager_ok_def entries_ok_def by blast
  with update_entry_ok [OF ok Some e] g' e(1) Some show ?thesis by (auto simp: AList.update_conv')
next
  case None
  let ?e0 = "\<lparr>re_tx = mg_next g, re_private = pr, re_invited = []\<rparr>"
  let ?e = "case invitee of Some name \<Rightarrow> ?e0\<lparr>re_invited := name # re_invited ?e0\<rparr> | None \<Rightarrow> ?e0"
  have g': "g' = g\<lparr>mg_actors := (mg_actors g)(mg_next g \<mapsto> spawn_room room), mg_next := mg_next g + 1,
      mg_rooms := AList.update room ?e (mg_rooms g)\<rparr>" "tx = re_tx ?e"
    using c None by (simp_all add: create_insert_def Let_def)
  have "re_tx ?e = mg_next g" "re_private ?e \<longrightarrow> private_name room" using pr by (simp_all split: option.splits)
  from new_room_ok [OF ok None this g'(1)] g' this show ?thesis
    by (auto simp: AList.update_conv' spawn_room_def split: option.splits)
qed

lemma forget_ok:
  assumes ok: "manager_ok g" and st: "mg_actors g tx = Some st" "rm_closed st"
  shows "manager_ok (forget g room tx) \<and> evolves g (forget g room tx)"
proof (cases "\<exists>e. map_of (mg_rooms g) room = Some e \<and> re_tx e = tx")
  case True
  then obtain e where e: "map_of (mg_rooms g) room = Some e" "re_tx e = tx" by blast
  let ?g = "g\<lparr>mg_rooms := AList.delete room (mg_rooms g)\<rparr>"
  have g': "forget g room tx = ?g" using e by (simp add: forget_def)
  have m: "map_of (mg_rooms ?g) = (map_of (mg_rooms g))(room := None)" by (simp add: AList.delete_conv')
  have nm: "rm_name st = room" using ok e st(1) unfolding manager_ok_def entries_ok_def by fastforce
  have "entries_ok ?g" using ok unfolding manager_ok_def entries_ok_def m by (auto simp: AList.distinct_delete)
  moreover have "actors_ok ?g"
    unfolding actors_ok_def
  proof (intro allI impI)
    fix tx' s
    assume "mg_actors ?g tx' = Some s"
    then have s: "mg_actors g tx' = Some s" by simp
    with ok have "room_ok s" "tx' < mg_next g" "(\<exists>e. map_of (mg_rooms g) (rm_name s) = Some e \<and> re_tx e = tx') \<or> rm_closed s"
      by (simp_all add: manager_ok_def actors_ok_def)
    with e st s show "room_ok s \<and> tx' < mg_next ?g \<and> ((\<exists>e. map_of (mg_rooms ?g) (rm_name s) = Some e \<and> re_tx e = tx') \<or> rm_closed s)"
      unfolding m by (cases "rm_name s = room") auto
  qed
  moreover have "lobby_ok ?g"
  proof -
    have "room \<noteq> DEFAULT_ROOM" using ok e st unfolding manager_ok_def lobby_ok_def by auto
    with ok show ?thesis unfolding manager_ok_def lobby_ok_def m by simp
  qed
  moreover have "evolves g ?g" unfolding evolves_def m by auto
  ultimately show ?thesis unfolding g' by (simp add: manager_ok_def)
next
  case False
  then have "forget g room tx = g" by (auto simp: forget_def split: option.splits)
  then show ?thesis using ok by (simp add: evolves_refl)
qed

section \<open>Every step keeps it\<close>

lemma join_get_pc_ok: "manager_ok g \<Longrightarrow> pc_ok g (join_get g room member left)"
  unfolding manager_ok_def entries_ok_def by (fastforce simp: join_get_def split: option.splits bool.splits)

lemma attempt_pc_ok: "pr \<longrightarrow> private_name room \<Longrightarrow> pc_ok g (attempt pr room member left)"
  by (simp add: attempt_def)

lemma start_join_pc_ok: "pr \<longrightarrow> private_name room \<Longrightarrow> pc_ok g (start_join pr room member)"
  by (simp add: start_join_def attempt_pc_ok split: result.splits)

lemma do_join_ok:
  assumes ok: "manager_ok g" and pc: "pc_ok g (Do_Join pr room member left tx)" and d: "do_join t g tx member = (r, g')"
  shows "manager_ok g' \<and> evolves g g' \<and>
    (r = Err (RoomErr RoomClosed) \<longrightarrow> (\<exists>st. mg_actors g' tx = Some st \<and> rm_name st = room \<and> rm_closed st))"
proof -
  obtain rep where s: "send_command t g tx (RC_Join member) = (rep, g')"
    using d by (auto simp: do_join_def split: prod.splits option.splits room_reply.splits result.splits)
  have "manager_ok g'"
    by (rule send_command_ok [OF ok s]) (use pc in auto)
  moreover have "evolves g g'" by (rule send_command_evolves [OF ok s])
  moreover have "\<exists>st. mg_actors g' tx = Some st \<and> rm_name st = room \<and> rm_closed st" if "r = Err (RoomErr RoomClosed)"
    using s
  proof (cases rule: send_command_cases)
    case gone
    with pc show ?thesis by simp
  next
    case (handled st reply st' cs')
    with d that have rep: "reply = RR_Result (Err RoomClosed)"
      by (auto simp: do_join_def s split: room_reply.splits result.splits)
    have "room_join t st member (mg_chans g) = (reply, st', cs')" using handled(2) by (simp add: room_handle_def)
    then have "st' = st \<and> rm_closed st" using rep by (cases rule: room_join_cases) auto
    with handled pc show ?thesis by auto
  qed
  ultimately show ?thesis by blast
qed

lemma task_step_ok:
  assumes ok: "manager_ok g" and pc: "pc_ok g p" and s: "task_step t p g = (p', g')"
  shows "manager_ok g' \<and> evolves g g' \<and> pc_ok g' p'"
proof (cases p)
  case (Join_Get room member left)
  with s ok show ?thesis by (auto simp: evolves_refl join_get_pc_ok)
next
  case (Create_Insert pr room member left)
  then obtain tx where c: "create_insert g room pr (if pr then Some (mb_username member) else None) = (tx, g')"
      "p' = Do_Join pr room member left tx"
    using s by (auto split: prod.splits)
  have pr: "pr = private_name room" using pc Create_Insert by simp
  then have "pr \<longrightarrow> private_name room" by simp
  note ci = create_insert_ok [OF ok c(1) this]
  have "private_name room" if "map_of (mg_rooms g') room = Some e" "re_private e" for e
    using that conjunct1 [OF ci] unfolding manager_ok_def entries_ok_def by blast
  then have "mb_username member \<in> set (re_invited e)" if "map_of (mg_rooms g') room = Some e" "re_private e" for e
    using that ci pr by auto
  with ci pr c(2) show ?thesis by auto
next
  case (Do_Join pr room member left tx)
  obtain r g1 where d: "do_join t g tx member = (r, g1)" by (metis prod.exhaust)
  from s Do_Join d have "g1 = g'" "(\<exists>x. p' = Finished x) \<or> p' = Forget_Retry pr room member left tx \<and> r = Err (RoomErr RoomClosed)"
    by (auto split: result.splits JoinError.splits RoomError.splits)
  with do_join_ok [OF ok pc [unfolded Do_Join] d] pc Do_Join show ?thesis by auto
next
  case (Forget_Retry pr room member left tx)
  with forget_ok [OF ok] pc s show ?thesis by (auto simp: attempt_pc_ok)
next
  case (Leave_Get room i)
  with ok s show ?thesis unfolding manager_ok_def entries_ok_def by (fastforce simp: evolves_refl split: option.splits)
next
  case (Leave_Send room i tx)
  obtain r g1 where c: "send_command t g tx (RC_Leave i) = (r, g1)" by (metis prod.exhaust)
  have "manager_ok g1" by (rule send_command_ok [OF ok c]) auto
  moreover have ev: "evolves g g1" by (rule send_command_evolves [OF ok c])
  moreover have "pc_ok g1 p" by (rule evolves_pc_ok [OF ev pc])
  ultimately show ?thesis using Leave_Send s c by (auto split: if_splits)
next
  case (Close_If_Empty room tx)
  obtain r g1 where c: "send_command t g tx RC_CloseIfEmpty = (r, g1)" by (metis prod.exhaust)
  have ok1: "manager_ok g1" by (rule send_command_ok [OF ok c]) (use pc Close_If_Empty in auto)
  have ev: "evolves g g1" by (rule send_command_evolves [OF ok c])
  from c have "\<exists>st. mg_actors g1 tx = Some st \<and> rm_name st = room \<and> rm_closed st" if "r = Some (RR_Closed True)"
  proof (cases rule: send_command_cases)
    case (handled st reply st' cs')
    with that pc Close_If_Empty show ?thesis by (auto simp: room_handle_def Let_def split: if_splits)
  qed (use that in simp)
  with ok1 ev Close_If_Empty s c show ?thesis
    by (auto split: option.splits room_reply.splits bool.splits)
next
  case (Leave_Forget room tx)
  with forget_ok [OF ok] pc s show ?thesis by auto
qed (use ok pc s in \<open>auto simp: evolves_refl\<close>)

lemma mg_chans_frame:
  "mg_rooms (g\<lparr>mg_chans := cs\<rparr>) = mg_rooms g" "mg_actors (g\<lparr>mg_chans := cs\<rparr>) = mg_actors g" "mg_next (g\<lparr>mg_chans := cs\<rparr>) = mg_next g"
  by simp_all

lemma rooms_run_ok:
  "rooms_run n w \<Longrightarrow> manager_ok (fst w) \<and> (\<forall>p. pc_ok (fst w) (snd w p))"
proof (induction rule: rooms_run.induct)
  case (start cs)
  show ?case
    by (auto simp: RoomManager_new_def manager_ok_def entries_ok_def actors_ok_def lobby_ok_def spawn_room_def room_ok_def)
next
  case (begin_join g ps p r pr room member)
  then show ?case by (simp add: start_join_pc_ok)
next
  case (begin_leave g ps p r room i)
  then show ?case by simp
next
  case (task g ps p t pc' g')
  then have "manager_ok g' \<and> evolves g g' \<and> pc_ok g' pc'" by (intro task_step_ok [of g "ps p"]) simp_all
  with task.IH evolves_pc_ok show ?case by auto
next
  case (invited g ps room u)
  then have ok: "manager_ok g" by simp
  note inv = invite_ok [OF ok, of room u]
  with invited.IH evolves_pc_ok [OF conjunct2 [OF inv]] show ?case by simp
next
  case (chat g ps command t tx)
  then have ok: "manager_ok g" by simp
  obtain r g1 where c: "send_command t g tx command = (r, g1)" by (metis prod.exhaust)
  have "manager_ok g1" by (rule send_command_ok [OF ok c]) (use chat.hyps in auto)
  moreover have "evolves g g1" by (rule send_command_evolves [OF ok c])
  ultimately show ?case using chat.IH evolves_pc_ok c by auto
next
  case (link g ps cs)
  then have ok: "manager_ok g" by simp
  have "evolves g (g\<lparr>mg_chans := cs\<rparr>)" by (auto simp: evolves_def)
  moreover have "manager_ok (g\<lparr>mg_chans := cs\<rparr>)"
    using ok unfolding manager_ok_def entries_ok_def actors_ok_def lobby_ok_def mg_chans_frame .
  ultimately show ?case using link.IH evolves_pc_ok by auto
qed

text \<open>Property C17. In every interleaving of joins, leaves, invitations and evictions a room that has
  a member is the room its name leads to in the directory: an eviction racing a join never leaves
  anybody in a room nobody can find. In an invite-only room, every member was invited.\<close>
theorem no_stranded_members:
  assumes "rooms_run n (g, ps)" and "mg_actors g tx = Some st" and "rm_members st \<noteq> []"
  shows "\<exists>e. map_of (mg_rooms g) (rm_name st) = Some e \<and> re_tx e = tx \<and>
    (re_private e \<longrightarrow> (\<forall>i m. (i, m) \<in> set (rm_members st) \<longrightarrow> mb_username m \<in> set (re_invited e)))"
proof -
  have ok: "manager_ok g" using rooms_run_ok [OF assms(1)] by simp
  then have "\<not> rm_closed st" using assms(2,3) unfolding manager_ok_def actors_ok_def room_ok_def by blast
  then obtain e where e: "map_of (mg_rooms g) (rm_name st) = Some e" "re_tx e = tx"
    using ok assms(2) unfolding manager_ok_def actors_ok_def by blast
  with ok assms(2) show ?thesis unfolding manager_ok_def entries_ok_def by fastforce
qed

definition ann :: Member where
  "ann = \<lparr>mb_session_id = [1], mb_username = ''ann'', mb_class = 1, mb_privileges = 0, mb_tx = 1\<rparr>"

definition ann_steps :: "world \<Rightarrow> world" where
  "ann_steps w = (let (pc', g') = task_step 0 (snd w 0) (fst w) in (g', (snd w)(0 := pc')))"

lemma ann_steps_run: "rooms_run 1 w \<Longrightarrow> rooms_run 1 (ann_steps w)"
  using rooms_run.task [of 1 "fst w" "snd w" 0 0] by (auto simp: ann_steps_def split: prod.splits)

theorem no_stranded_members_witness:
  "\<exists>g ps tx st e. rooms_run 1 (g, ps) \<and> mg_actors g tx = Some st \<and> (\<exists>i m. (i, m) \<in> set (rm_members st)) \<and>
     map_of (mg_rooms g) (rm_name st) = Some e \<and> re_tx e = tx \<and> re_private e \<and> ''ann'' \<in> set (re_invited e)"
proof -
  let ?w = "(ann_steps ^^ 3) (RoomManager_new open_channels, (\<lambda>_. Idle)(0 := start_join True ''priv-1'' ann))"
  have "rooms_run 1 (RoomManager_new open_channels, (\<lambda>_. Idle)(0 := start_join True ''priv-1'' ann))"
    by (rule rooms_run.begin_join [OF rooms_run.start]) (simp_all add: private_name_def PRIVATE_ROOM_PREFIX_def)
  then have run: "rooms_run 1 (fst ?w, snd ?w)" by (simp add: numeral_3_eq_3 ann_steps_run [simplified])
  have w: "\<exists>st e. mg_actors (fst ?w) 1 = Some st \<and> rm_members st = [([1], ann)] \<and> rm_name st = ''priv-1'' \<and>
      map_of (mg_rooms (fst ?w)) ''priv-1'' = Some e \<and> re_private e"
    by (simp add: numeral_3_eq_3 ann_steps_def ann_def RoomManager_new_def start_join_def check_name_def MAX_NAME_LEN_def
        attempt_def JOIN_ATTEMPTS_def create_check_def MAX_ROOMS_def DEFAULT_ROOM_def create_insert_def do_join_def send_command_def
        room_handle_def room_join_def spawn_room_def room_broadcast_def fan_out_def open_channels_def Let_def send_each.simps
        try_send_def send_to_def room_prune.simps user_list_def)
  then obtain st e where st: "mg_actors (fst ?w) 1 = Some st" "rm_members st = [([1], ann)]" "rm_name st = ''priv-1''"
      "map_of (mg_rooms (fst ?w)) ''priv-1'' = Some e" "re_private e" by blast
  from no_stranded_members [OF run st(1)] st have "re_tx e = 1" "''ann'' \<in> set (re_invited e)"
    by (auto simp: ann_def)
  with run st show ?thesis by (metis list.set_intros(1))
qed

section \<open>Every join returns\<close>

text \<open>A task's own steps, with whatever the others made of the manager before each of them.\<close>

fun own_steps :: "(u64 \<times> RoomManager) list \<Rightarrow> pc \<Rightarrow> pc" where
  "own_steps [] p = p"
| "own_steps ((t, g) # env) p = own_steps env (fst (task_step t p g))"

fun joining :: "pc \<Rightarrow> bool" where
  "joining (Join_Get _ _ left) \<longleftrightarrow> 0 < left"
| "joining (Create_Check _ _ _ left) \<longleftrightarrow> 0 < left"
| "joining (Create_Insert _ _ _ left) \<longleftrightarrow> 0 < left"
| "joining (Do_Join _ _ _ left _) \<longleftrightarrow> 0 < left"
| "joining (Forget_Retry _ _ _ left _) \<longleftrightarrow> 0 < left"
| "joining (Finished _) \<longleftrightarrow> True"
| "joining _ \<longleftrightarrow> False"

fun rank :: "pc \<Rightarrow> nat" where
  "rank (Join_Get _ _ left) = 5 * left"
| "rank (Create_Check _ _ _ left) = 5 * left - 1"
| "rank (Create_Insert _ _ _ left) = 5 * left - 2"
| "rank (Do_Join _ _ _ left _) = 5 * left - 3"
| "rank (Forget_Retry _ _ _ left _) = 5 * left - 4"
| "rank _ = 0"

lemma joining_step:
  assumes "joining p"
  shows "joining (fst (task_step t p g)) \<and> rank (fst (task_step t p g)) \<le> rank p - 1"
  using assms
  by (cases p) (auto simp: join_get_def attempt_def Let_def split: option.splits bool.splits prod.splits
      result.splits JoinError.splits RoomError.splits)

lemma joining_run: "joining p \<Longrightarrow> rank p \<le> length env \<Longrightarrow> \<exists>r. own_steps env p = Finished r"
proof (induction env arbitrary: p)
  case Nil
  then show ?case by (cases p) auto
next
  case (Cons a env)
  obtain t g where "a = (t, g)" by (cases a)
  moreover note joining_step [OF Cons.prems(1), of t g]
  ultimately show ?case using Cons.IH [of "fst (task_step t p g)"] Cons.prems(2) by auto
qed

text \<open>Property C18. A join returns: after fifteen steps of its own, five for each of the three
  attempts, it has an answer, whatever the other tasks do to the directory between any two of
  them.\<close>
theorem join_returns:
  "\<exists>r. own_steps (e1 # e2 # e3 # e4 # e5 # e6 # e7 # e8 # e9 # e10 # e11 # e12 # e13 # e14 # e15 # env)
     (start_join private room member) = Finished r"
proof (rule joining_run)
  show "joining (start_join private room member)"
    by (auto simp: start_join_def check_name_def attempt_def JOIN_ATTEMPTS_def)
  have "rank (start_join private room member) \<le> 15"
    by (auto simp: start_join_def check_name_def attempt_def JOIN_ATTEMPTS_def)
  then show "rank (start_join private room member) \<le>
      length (e1 # e2 # e3 # e4 # e5 # e6 # e7 # e8 # e9 # e10 # e11 # e12 # e13 # e14 # e15 # env)" by simp
qed

section \<open>How many rooms\<close>

fun pending :: "pc \<Rightarrow> string set" where
  "pending (Create_Insert _ room _ _) = {room}"
| "pending _ = {}"

definition names :: "RoomManager \<Rightarrow> string set" where
  "names g = fst ` set (mg_rooms g)"

definition occupied :: "nat \<Rightarrow> world \<Rightarrow> string set" where
  "occupied n w = names (fst w) \<union> (\<Union>p<n. pending (snd w p))"

lemma finite_pending [simp]: "finite (pending p)" by (cases p) auto
lemma finite_names [simp]: "finite (names g)" by (simp add: names_def)
lemma card_pending: "card (pending p) \<le> 1" by (cases p) auto
lemma card_names: "card (names g) \<le> length (mg_rooms g)"
  unfolding names_def by (metis card_length length_map set_map)

lemma card_occupied: "card (occupied n w) \<le> card (names (fst w)) + n"
proof -
  have "card (\<Union>p<n. pending (snd w p)) \<le> (\<Sum>p<n. card (pending (snd w p)))" by (rule card_UN_le) simp
  also have "\<dots> \<le> (\<Sum>p<n. 1)" by (rule sum_mono) (rule card_pending)
  finally have "card (\<Union>p<n. pending (snd w p)) \<le> n" by simp
  then show ?thesis using card_Un_le [of "names (fst w)" "\<Union>p<n. pending (snd w p)"] unfolding occupied_def by linarith
qed

lemma names_update [simp]: "fst ` set (AList.update k v xs) = insert k (fst ` set xs)"
  by (metis dom_map_of_conv_image_fst dom_fun_upd option.distinct(1) AList.update_conv')

lemma names_forget: "names (forget g room tx) \<subseteq> names g"
  by (auto simp: forget_def names_def AList.delete_eq split: option.splits)

lemma create_insert_names:
  assumes "create_insert g room pr invitee = (tx, g')"
  shows "names g' = insert room (names g)"
proof -
  obtain e where "mg_rooms g' = AList.update room e (mg_rooms g)"
    using assms by (auto simp: create_insert_def Let_def split: option.splits)
  then show ?thesis by (simp add: names_def)
qed

lemma task_step_names:
  assumes "task_step t p g = (p', g')"
  shows "names g' \<union> pending p' \<subseteq> names g \<union> pending p \<or> names g' = names g \<and> length (mg_rooms g) < MAX_ROOMS"
proof (cases p)
  case (Create_Check pr room member left)
  then show ?thesis using assms
    by (cases "room \<in> fst ` set (mg_rooms g)") (auto simp: create_check_def names_def map_of_eq_None_iff intro: rev_image_eqI split: if_splits)
next
  case (Create_Insert pr room member left)
  then have "names g' = insert room (names g)" "pending p' = {}"
    using assms by (auto dest: create_insert_names split: prod.splits)
  with Create_Insert show ?thesis by simp
next
  case (Do_Join pr room member left tx)
  then show ?thesis using assms
    by (auto simp: do_join_def send_command_def names_def Let_def
        split: option.splits prod.splits if_splits result.splits JoinError.splits RoomError.splits room_reply.splits)
next
  case (Forget_Retry pr room member left tx)
  then show ?thesis using assms names_forget [of g room tx]
    by (auto simp: attempt_def split: if_splits)
next
  case (Leave_Forget room tx)
  then show ?thesis using assms names_forget [of g room tx] by auto
qed (use assms in \<open>auto simp: names_def join_get_def send_command_def Let_def
        split: option.splits prod.splits if_splits result.splits JoinError.splits RoomError.splits room_reply.splits bool.splits\<close>)

lemma occupied_subset:
  assumes "names g' \<union> pending pc' \<subseteq> names g \<union> pending (ps p)" and "p < n"
  shows "occupied n (g', ps(p := pc')) \<subseteq> occupied n (g, ps)"
proof
  fix x
  assume "x \<in> occupied n (g', ps(p := pc'))"
  then consider "x \<in> names g' \<union> pending pc'" | q where "q < n" "x \<in> pending (ps q)"
    by (auto simp: occupied_def split: if_splits)
  then show "x \<in> occupied n (g, ps)"
    using assms by cases (auto simp: occupied_def)
qed

lemma occupied_mono:
  assumes "names g' \<union> pending pc' \<subseteq> names g \<union> pending (ps p)" and "p < n"
  shows "card (occupied n (g', ps(p := pc'))) \<le> card (occupied n (g, ps))"
  by (rule card_mono [OF _ occupied_subset]) (simp add: occupied_def, rule assms, rule assms)

lemma occupied_bounded: "rooms_run n w \<Longrightarrow> card (occupied n w) \<le> MAX_ROOMS - 1 + n"
proof (induction rule: rooms_run.induct)
  case (start cs)
  show ?case by (simp add: occupied_def names_def RoomManager_new_def MAX_ROOMS_def)
next
  case (begin_join g ps p r pr room member)
  have "pending (start_join pr room member) = {}" by (auto simp: start_join_def attempt_def split: result.splits)
  then show ?case using begin_join.hyps(2) begin_join.IH occupied_mono [of g "start_join pr room member" g ps p n] by simp
next
  case (begin_leave g ps p r room i)
  then show ?case using occupied_mono [of g "Leave_Get room i" g ps p n] by simp
next
  case (task g ps p t pc' g')
  from task_step_names [OF task.hyps(3)] show ?case
  proof
    assume "names g' \<union> pending pc' \<subseteq> names g \<union> pending (ps p)"
    from occupied_mono [of g' pc' g ps p n, OF this task.hyps(2)] task.IH show ?thesis by simp
  next
    assume "names g' = names g \<and> length (mg_rooms g) < MAX_ROOMS"
    then have "card (names g') = card (names g)" "length (mg_rooms g) < MAX_ROOMS" by simp_all
    with card_occupied [of n "(g', ps(p := pc'))"] card_names [of g] show ?thesis unfolding fst_conv by linarith
  qed
next
  case (invited g ps room u)
  have "names (snd (invite g room u)) = names g"
    by (auto simp: invite_def names_def insert_absorb intro: rev_image_eqI dest!: map_of_SomeD split: option.splits)
  with invited.IH show ?case by (simp add: occupied_def)
next
  case (chat g ps command t tx)
  then show ?case by (simp add: occupied_def names_def send_command_def Let_def split: option.splits prod.splits)
next
  case (link g ps cs)
  then show ?case by (simp add: occupied_def names_def)
qed

text \<open>With n connection tasks the directory never holds more than \<open>MAX_ROOMS\<close> - 1 + n
  rooms: the check of the cap and the insertion are two accesses, so each task that passed the check
  at the last free place may still insert, and none gets further. One task alone keeps the cap.\<close>

lemma rooms_bounded:
  assumes "rooms_run n (g, ps)"
  shows "length (mg_rooms g) \<le> MAX_ROOMS - 1 + n"
proof -
  have "distinct (map fst (mg_rooms g))" using rooms_run_ok [OF assms] by (simp add: manager_ok_def entries_ok_def)
  then have "length (mg_rooms g) = card (names g)"
    unfolding names_def by (metis distinct_card length_map set_map)
  also have "\<dots> \<le> card (occupied n (g, ps))" by (rule card_mono) (simp_all add: occupied_def)
  also have "\<dots> \<le> MAX_ROOMS - 1 + n" by (rule occupied_bounded [OF assms])
  finally show ?thesis .
qed

end
