(* ===== verification/Gf256.thy ===== *)
theory Gf256
  imports Prelude Complex_Main
begin

text \<open>
  The field arithmetic of \<open>kdx-crypto/src/shamir.rs\<close>: the branch-free multiplication of bytes modulo
  the polynomial 0x11b, powers by repeated squaring and inverses. Bytes with exclusive or and this
  multiplication are shown to be a field, as an instance of the library's class, so that the
  interpolation of the secret sharing can use the library's sums, products and powers. That no
  element but 0 lacks an inverse follows from two small computations instead of a table of 255: the
  256th power fixes the generator of the ring, and squaring fixes no element but 0 and 1.
\<close>

section \<open>The operations\<close>

fun gf_mul_loop :: "nat \<Rightarrow> u8 \<Rightarrow> u8 \<Rightarrow> u8 \<Rightarrow> u8" where
  "gf_mul_loop 0 a b p = p"
| "gf_mul_loop (Suc rounds) a b p =
     (let p = p XOR (a AND (0 - (b AND 1)));
          carry = 0 - drop_bit 7 a;
          a = push_bit 1 a XOR (0x1B AND carry);
          b = drop_bit 1 b
      in gf_mul_loop rounds a b p)"

definition gf_mul :: "u8 \<Rightarrow> u8 \<Rightarrow> u8" where
  "gf_mul a b = gf_mul_loop 8 a b 0"

function gf_pow_loop :: "u8 \<Rightarrow> nat \<Rightarrow> u8 \<Rightarrow> u8" where
  "gf_pow_loop base e acc =
     (if e > 0
      then gf_pow_loop (gf_mul base base) (e div 2) (if e mod 2 = 1 then gf_mul acc base else acc)
      else acc)"
  by pat_completeness auto
termination by (relation "measure (\<lambda>(_, e, _). e)") auto

declare gf_pow_loop.simps [simp del]

definition gf_pow :: "u8 \<Rightarrow> nat \<Rightarrow> u8" where
  "gf_pow base e = gf_pow_loop base e 1"

definition gf_inv :: "u8 \<Rightarrow> u8" where
  "gf_inv a = gf_pow a 254"

section \<open>Multiplication is bilinear\<close>

text \<open>One round doubles: a shift, reduced by the polynomial when a bit falls out.\<close>

definition xtime :: "u8 \<Rightarrow> u8" where
  "xtime a = push_bit 1 a XOR (if bit a 7 then 0x1B else 0)"

fun rounds_sum :: "nat \<Rightarrow> u8 \<Rightarrow> u8 \<Rightarrow> u8" where
  "rounds_sum 0 a b = 0"
| "rounds_sum (Suc n) a b = (if bit b 0 then a else 0) XOR rounds_sum n (xtime a) (drop_bit 1 b)"

lemma bit_mask: "- (b AND 1 :: u8) = (if bit b 0 then - 1 else 0)"
  by (simp add: and_one_eq bit_0 odd_iff_mod_2_eq_one even_iff_mod_2_eq_zero)

lemma bit_carry: "- drop_bit 7 (a :: u8) = (if bit a 7 then - 1 else 0)"
proof -
  have "drop_bit 7 a = of_bool (bit a 7)"
    using bit_imp_le_length [of a] by (intro bit_word_eqI) (fastforce simp: bit_simps bit_of_bool_iff)
  then show ?thesis by simp
qed

lemma gf_mul_loop_eq: "gf_mul_loop n a b p = p XOR rounds_sum n a b"
  by (induction n arbitrary: a b p) (simp_all add: Let_def bit_mask bit_carry xtime_def xor.assoc flip: xor.assoc)

lemma gf_mul_eq: "gf_mul a b = rounds_sum 8 a b"
  by (simp add: gf_mul_def gf_mul_loop_eq)

lemma xtime_xor: "xtime (a XOR b) = xtime a XOR xtime b"
  by (auto simp: xtime_def push_bit_xor bit_xor_iff xor.assoc xor.left_commute xor.commute)

lemma xtime_0 [simp]: "xtime 0 = 0"
  by (simp add: xtime_def)

lemma rounds_sum_xor: "rounds_sum n (a XOR b) c = rounds_sum n a c XOR rounds_sum n b c"
  by (induction n arbitrary: a b c) (auto simp: xtime_xor xor.assoc xor.left_commute)

lemma rounds_sum_xor': "rounds_sum n a (b XOR c) = rounds_sum n a b XOR rounds_sum n a c"
  by (induction n arbitrary: a b c) (auto simp: bit_xor_iff drop_bit_xor xor.assoc xor.left_commute)

lemma xtime_rounds_sum: "rounds_sum n (xtime a) b = xtime (rounds_sum n a b)"
  by (induction n arbitrary: a b) (auto simp: xtime_xor)

lemma gf_mul_xor: "gf_mul (a XOR b) c = gf_mul a c XOR gf_mul b c"
  by (simp add: gf_mul_eq rounds_sum_xor)

lemma gf_mul_xor': "gf_mul a (b XOR c) = gf_mul a b XOR gf_mul a c"
  by (simp add: gf_mul_eq rounds_sum_xor')

lemma gf_mul_xtime: "gf_mul (xtime a) b = xtime (gf_mul a b)"
  by (simp add: gf_mul_eq xtime_rounds_sum)

text \<open>An additive function is determined by its values on the eight powers of two.\<close>

lemma byte_basis:
  fixes w :: u8
  shows "w = (if bit w 0 then 1 else 0) XOR (if bit w 1 then 2 else 0) XOR (if bit w 2 then 4 else 0) XOR
    (if bit w 3 then 8 else 0) XOR (if bit w 4 then 16 else 0) XOR (if bit w 5 then 32 else 0) XOR
    (if bit w 6 then 64 else 0) XOR (if bit w 7 then 128 else 0)" (is "w = ?r")
proof (rule bit_word_eqI)
  fix n
  assume "n < LENGTH(8)"
  then have "n = 0 \<or> n = 1 \<or> n = 2 \<or> n = 3 \<or> n = 4 \<or> n = 5 \<or> n = 6 \<or> n = 7" by auto
  then show "bit w n = bit ?r n"
    by (elim disjE) (simp_all add: bit_xor_iff)
qed

lemma additive_0: "(\<And>a b. f (a XOR b) = f a XOR f b) \<Longrightarrow> f (0 :: u8) = (0 :: u8)"
  by (metis xor_self_eq)

lemma additive_basis:
  fixes f :: "u8 \<Rightarrow> u8"
  assumes f: "\<And>a b. f (a XOR b) = f a XOR f b"
  shows "f w = (if bit w 0 then f 1 else 0) XOR (if bit w 1 then f 2 else 0) XOR (if bit w 2 then f 4 else 0) XOR
    (if bit w 3 then f 8 else 0) XOR (if bit w 4 then f 16 else 0) XOR (if bit w 5 then f 32 else 0) XOR
    (if bit w 6 then f 64 else 0) XOR (if bit w 7 then f 128 else 0)"
proof -
  have 0: "f (if c then k else 0) = (if c then f k else 0)" for c k
    using additive_0 [of f, OF f] by simp
  show ?thesis
    by (subst byte_basis [of w]) (simp only: f 0)
qed

lemma additive_eqI:
  fixes f g :: "u8 \<Rightarrow> u8"
  assumes "\<And>a b. f (a XOR b) = f a XOR f b" and "\<And>a b. g (a XOR b) = g a XOR g b"
    and "f 1 = g 1" "f 2 = g 2" "f 4 = g 4" "f 8 = g 8" "f 16 = g 16" "f 32 = g 32" "f 64 = g 64" "f 128 = g 128"
  shows "f w = g w"
  using additive_basis [OF assms(1), of w] additive_basis [OF assms(2), of w] assms(3-) by simp

lemma gf_mul_bits:
  "gf_mul a b = (if bit b 0 then a else 0) XOR (if bit b 1 then xtime a else 0) XOR (if bit b 2 then xtime (xtime a) else 0) XOR
    (if bit b 3 then xtime (xtime (xtime a)) else 0) XOR (if bit b 4 then xtime (xtime (xtime (xtime a))) else 0) XOR
    (if bit b 5 then xtime (xtime (xtime (xtime (xtime a)))) else 0) XOR
    (if bit b 6 then xtime (xtime (xtime (xtime (xtime (xtime a))))) else 0) XOR
    (if bit b 7 then xtime (xtime (xtime (xtime (xtime (xtime (xtime a)))))) else 0)"
proof -
  have 8: "(8 :: nat) = Suc (Suc (Suc (Suc (Suc (Suc (Suc (Suc 0)))))))" by simp
  show ?thesis
    unfolding gf_mul_eq 8 rounds_sum.simps drop_bit_drop_bit bit_drop_bit_eq comp_def by (simp add: numeral_2_eq_2 numeral_3_eq_3 eval_nat_numeral split del: if_split)
qed

lemma gf_mul_power_2:
  "gf_mul a 1 = a" "gf_mul a 2 = xtime a" "gf_mul a 4 = xtime (xtime a)" "gf_mul a 8 = xtime (xtime (xtime a))"
  "gf_mul a 16 = xtime (xtime (xtime (xtime a)))" "gf_mul a 32 = xtime (xtime (xtime (xtime (xtime a))))"
  "gf_mul a 64 = xtime (xtime (xtime (xtime (xtime (xtime a)))))"
  "gf_mul a 128 = xtime (xtime (xtime (xtime (xtime (xtime (xtime a))))))"
  by (simp_all add: gf_mul_bits)

lemma xtime_numeral:
  "xtime 1 = 2" "xtime 2 = 4" "xtime 4 = 8" "xtime 8 = 16" "xtime 16 = 32" "xtime 32 = 64" "xtime 64 = 128" "xtime 128 = 0x1B"
  by (simp_all add: xtime_def)

lemma xtime_8:
  "xtime (xtime (xtime (xtime (xtime (xtime (xtime (xtime a))))))) =
     a XOR xtime a XOR xtime (xtime (xtime a)) XOR xtime (xtime (xtime (xtime a)))"
  by (rule additive_eqI [of "\<lambda>a. xtime (xtime (xtime (xtime (xtime (xtime (xtime (xtime a)))))))"
        "\<lambda>a. a XOR xtime a XOR xtime (xtime (xtime a)) XOR xtime (xtime (xtime (xtime a)))"])
     (simp_all add: xtime_xor xor.assoc xor.left_commute xor.commute, simp_all add: xtime_def)

lemma gf_mul_xtime': "gf_mul a (xtime b) = xtime (gf_mul a b)"
  by (rule additive_eqI [of "\<lambda>b. gf_mul a (xtime b)" "\<lambda>b. xtime (gf_mul a b)"])
     (simp_all only: xtime_xor gf_mul_xor' xtime_numeral gf_mul_power_2, simp add: gf_mul_bits xtime_8 [of a])

lemma gf_mul_1: "gf_mul 1 b = b"
  by (rule additive_eqI [of "\<lambda>b. gf_mul 1 b" "\<lambda>b. b"]) (simp_all only: gf_mul_xor' xtime_numeral gf_mul_power_2)

lemmas gf_mul_left_numeral = gf_mul_1 gf_mul_xtime [of 1, unfolded xtime_numeral] gf_mul_xtime [of 2, unfolded xtime_numeral]
  gf_mul_xtime [of 4, unfolded xtime_numeral] gf_mul_xtime [of 8, unfolded xtime_numeral]
  gf_mul_xtime [of 16, unfolded xtime_numeral] gf_mul_xtime [of 32, unfolded xtime_numeral]
  gf_mul_xtime [of 64, unfolded xtime_numeral]

lemma gf_mul_commute: "gf_mul a b = gf_mul b a"
  by (rule additive_eqI [of "\<lambda>b. gf_mul a b" "\<lambda>b. gf_mul b a"])
     (simp_all only: gf_mul_xor gf_mul_xor' gf_mul_power_2 gf_mul_left_numeral)

lemma gf_mul_assoc: "gf_mul (gf_mul a b) c = gf_mul a (gf_mul b c)"
  by (rule additive_eqI [of "\<lambda>c. gf_mul (gf_mul a b) c" "\<lambda>c. gf_mul a (gf_mul b c)"])
     (simp_all only: gf_mul_xor' gf_mul_power_2 gf_mul_xtime')

section \<open>The ring of bytes\<close>

datatype gf = Gf (raw: u8)

instantiation gf :: comm_ring_1
begin

definition zero_gf :: gf where "zero_gf = Gf 0"
definition one_gf :: gf where "one_gf = Gf 1"
definition plus_gf :: "gf \<Rightarrow> gf \<Rightarrow> gf" where "plus_gf x y = Gf (raw x XOR raw y)"
definition minus_gf :: "gf \<Rightarrow> gf \<Rightarrow> gf" where "minus_gf x y = Gf (raw x XOR raw y)"
definition uminus_gf :: "gf \<Rightarrow> gf" where "uminus_gf x = x"
definition times_gf :: "gf \<Rightarrow> gf \<Rightarrow> gf" where "times_gf x y = Gf (gf_mul (raw x) (raw y))"

instance
proof
  fix a b c :: gf
  show "a + b + c = a + (b + c)" "a + b = b + a" "0 + a = a" "- a + a = 0" "a - b = a + - b" "(0 :: gf) \<noteq> 1"
    by (simp_all add: plus_gf_def minus_gf_def uminus_gf_def zero_gf_def one_gf_def ac_simps)
  show "a * b * c = a * (b * c)" by (simp add: times_gf_def gf_mul_assoc)
  show "a * b = b * a" by (simp add: times_gf_def gf_mul_commute [of "raw a"])
  show "1 * a = a" by (simp add: times_gf_def one_gf_def gf_mul_1)
  show "(a + b) * c = a * c + b * c" by (simp add: times_gf_def plus_gf_def gf_mul_xor)
qed

end

lemma raw_simps [simp]:
  "raw 0 = 0" "raw 1 = 1" "raw (x + y) = raw x XOR raw y" "raw (x - y) = raw x XOR raw y" "raw (x * y) = gf_mul (raw x) (raw y)"
  by (simp_all add: zero_gf_def one_gf_def plus_gf_def minus_gf_def times_gf_def)

text \<open>Byte operations read as field operations.\<close>

lemma Gf_mul: "Gf (gf_mul a b) = Gf a * Gf b" by (simp add: times_gf_def)
lemma Gf_xor: "Gf (a XOR b) = Gf a + Gf b" by (simp add: plus_gf_def)
lemma Gf_xor_diff: "Gf (a XOR b) = Gf a - Gf b" by (simp add: minus_gf_def)
lemma Gf_0: "Gf 0 = 0" by (simp add: zero_gf_def)
lemma Gf_1: "Gf 1 = 1" by (simp add: one_gf_def)

lemma gf_add_self [simp]: "x + x = (0 :: gf)"
  by (simp add: plus_gf_def zero_gf_def)

section \<open>It is a field\<close>

text \<open>Squaring is additive, so the 256th power is; it fixes the generator and with it every element.\<close>

lemma gf_square_add: "(x + y) ^ 2 = x ^ 2 + (y :: gf) ^ 2"
proof -
  have "2 * x * y = 0" by (metis gf_add_self mult_2 mult_zero_left)
  then show ?thesis by (simp add: power2_sum)
qed

lemma gf_power_2n_add: "(x + y) ^ (2 ^ n) = x ^ (2 ^ n) + (y :: gf) ^ (2 ^ n)"
proof (induction n)
  case (Suc n)
  have "z ^ (2 ^ Suc n) = (z ^ (2 ^ n))\<^sup>2" for z :: gf by (simp add: mult.commute flip: power_mult)
  then show ?case using Suc by (simp add: gf_square_add del: power_Suc)
qed simp

lemma raw_power_Suc: "raw (x ^ Suc n) = gf_mul (raw x) (raw (x ^ n))"
  by simp

lemma gf_power_256: "x ^ 256 = (x :: gf)"
proof -
  define f where "f = (\<lambda>w. raw (Gf w ^ 256))"
  have e: "(256 :: nat) = 2 ^ 8" by simp
  have gen: "Gf 2 ^ 256 = Gf 2"
  proof -
    have "Gf 2 ^ 256 = ((((((((Gf 2)\<^sup>2)\<^sup>2)\<^sup>2)\<^sup>2)\<^sup>2)\<^sup>2)\<^sup>2)\<^sup>2" by (simp flip: power_mult)
    also have "\<dots> = Gf 2" by (simp add: power2_eq_square times_gf_def gf_mul_bits xtime_def)
    finally show ?thesis .
  qed
  have "Gf 4 = Gf 2 ^ 2" "Gf 8 = Gf 2 ^ 3" "Gf 16 = Gf 2 ^ 4" "Gf 32 = Gf 2 ^ 5" "Gf 64 = Gf 2 ^ 6" "Gf 128 = Gf 2 ^ 7"
    by (simp_all add: eval_nat_numeral times_gf_def one_gf_def gf_mul_power_2 xtime_numeral gf_mul_left_numeral)
  moreover have "(Gf 2 ^ k) ^ 256 = Gf 2 ^ k" for k by (metis gen power_commutes power_mult mult.commute)
  ultimately have basis: "f 4 = 4" "f 8 = 8" "f 16 = 16" "f 32 = 32" "f 64 = 64" "f 128 = 128"
    unfolding f_def by (metis gf.sel)+
  have basis': "f 1 = 1" by (simp add: f_def flip: one_gf_def)
  have basis'': "f 2 = 2" by (simp add: f_def gen)
  have "f (a XOR b) = f a XOR f b" for a b
  proof -
    have "Gf (a XOR b) = Gf a + Gf b" by (simp add: plus_gf_def)
    then show ?thesis unfolding f_def e by (simp only: gf_power_2n_add raw_simps)
  qed
  then have "f w = w" for w using additive_eqI [of f "\<lambda>w. w"] basis basis' basis'' by blast
  then have "Gf w ^ 256 = Gf w" for w unfolding f_def by (metis gf.collapse)
  then show ?thesis by (cases x) simp
qed

lemma squares:
  "gf_mul 1 1 = 1" "gf_mul 2 2 = 4" "gf_mul 4 4 = 16" "gf_mul 8 8 = 64" "gf_mul 16 16 = 0x1B" "gf_mul 32 32 = 0x6C"
  "gf_mul 64 64 = 0xAB" "gf_mul 128 128 = 0x9A"
  by (simp_all add: gf_mul_power_2 xtime_def)

text \<open>Squaring fixes only 0 and 1: eight linear equations over the bits.\<close>

lemma gf_idempotent:
  assumes "x * x = (x :: gf)"
  shows "x = 0 \<or> x = 1"
proof -
  obtain w where x: "x = Gf w" by (cases x)
  have sq: "gf_mul (a XOR b) (a XOR b) = gf_mul a a XOR gf_mul b b" for a b
    by (simp add: gf_mul_xor gf_mul_xor' gf_mul_commute [of b a] xor.assoc xor.left_commute)
  have "w = gf_mul w w" using assms x by (simp add: times_gf_def)
  also have "\<dots> = (if bit w 0 then 1 else 0) XOR (if bit w 1 then 4 else 0) XOR (if bit w 2 then 16 else 0) XOR
      (if bit w 3 then 64 else 0) XOR (if bit w 4 then 0x1B else 0) XOR (if bit w 5 then 0x6C else 0) XOR
      (if bit w 6 then 0xAB else 0) XOR (if bit w 7 then 0x9A else 0)"
    by (subst additive_basis [of "\<lambda>w. gf_mul w w", OF sq]) (simp only: squares)
  finally have eq: "bit w n = bit ((if bit w 0 then 1 else 0) XOR (if bit w 1 then 4 else 0) XOR (if bit w 2 then 16 else 0) XOR
      (if bit w 3 then 64 else 0) XOR (if bit w 4 then 0x1B else 0) XOR (if bit w 5 then 0x6C else 0) XOR
      (if bit w 6 then 0xAB else 0) XOR (if bit w 7 then 0x9A else 0 :: u8)) n" for n by simp
  have "\<not> bit w 1 \<and> \<not> bit w 2 \<and> \<not> bit w 3 \<and> \<not> bit w 4 \<and> \<not> bit w 5 \<and> \<not> bit w 6 \<and> \<not> bit w 7"
  proof -
    have sel: "bit (if c then k else 0 :: u8) n = (c \<and> bit k n)" for c k n by simp
    have "\<not> bit w 6" using eq [of 5] by (simp add: bit_xor_iff sel split del: if_split) blast
    moreover have "bit w 4 = bit w 6" using eq [of 0] by (simp add: bit_xor_iff sel split del: if_split) blast
    moreover have "bit w 1 = (bit w 4 \<noteq> (bit w 6 \<noteq> bit w 7))" using eq [of 1] by (simp add: bit_xor_iff sel split del: if_split)
    moreover have "bit w 2 = (bit w 1 \<noteq> bit w 5)" using eq [of 2] by (simp add: bit_xor_iff sel split del: if_split)
    moreover have "bit w 3 = (bit w 4 \<noteq> (bit w 5 \<noteq> (bit w 6 \<noteq> bit w 7)))" using eq [of 3] by (simp add: bit_xor_iff sel split del: if_split)
    moreover have "bit w 2 = bit w 7" using eq [of 4] by (simp add: bit_xor_iff sel split del: if_split) blast
    moreover have "bit w 6 = (bit w 3 \<noteq> bit w 5)" using eq [of 6] by (simp add: bit_xor_iff sel split del: if_split)
    ultimately show ?thesis by satx
  qed
  then have "w = (if bit w 0 then 1 else 0)" using byte_basis [of w] by simp
  then show ?thesis using x by (auto simp: zero_gf_def one_gf_def split: if_splits)
qed

lemma gf_power_255: "x \<noteq> 0 \<Longrightarrow> x ^ 255 = (1 :: gf)"
proof -
  assume x: "x \<noteq> 0"
  have "x ^ 255 * x ^ 255 = x ^ 256 * x ^ 254" by (simp flip: power_add)
  also have "\<dots> = x ^ 255" by (simp add: gf_power_256 flip: power_Suc)
  finally have "x ^ 255 = 0 \<or> x ^ 255 = 1" by (rule gf_idempotent)
  moreover have "x = x ^ 255 * x" using gf_power_256 [of x] by (simp flip: power_Suc2)
  ultimately show ?thesis using x by auto
qed

instantiation gf :: field
begin

definition inverse_gf :: "gf \<Rightarrow> gf" where "inverse_gf x = (if x = 0 then 0 else x ^ 254)"
definition divide_gf :: "gf \<Rightarrow> gf \<Rightarrow> gf" where "divide_gf x y = x * inverse y"

instance
proof
  fix a b :: gf
  show "inverse (0 :: gf) = 0" by (simp add: inverse_gf_def)
  show "a \<noteq> 0 \<Longrightarrow> inverse a * a = 1" using gf_power_255 [of a] by (simp add: inverse_gf_def flip: power_Suc2)
  show "a div b = a * inverse b" by (rule divide_gf_def)
qed

end

lemma gf_pow_loop_eq: "Gf (gf_pow_loop base e acc) = Gf acc * Gf base ^ e"
proof (induction base e acc rule: gf_pow_loop.induct)
  case (1 base e acc)
  show ?case
  proof (cases "e > 0")
    case True
    have e: "Gf base ^ e = (Gf base * Gf base) ^ (e div 2) * Gf base ^ (e mod 2)"
      by (metis power_add power_mult mult_div_mod_eq power2_eq_square)
    have "Gf (gf_pow_loop base e acc) = Gf (if e mod 2 = 1 then gf_mul acc base else acc) * Gf (gf_mul base base) ^ (e div 2)"
      using 1 [OF True] True by (subst gf_pow_loop.simps) simp
    also have "Gf (if e mod 2 = 1 then gf_mul acc base else acc) = Gf acc * Gf base ^ (e mod 2)"
      by (cases "odd e") (simp_all add: times_gf_def gf_mul_power_2 odd_iff_mod_2_eq_one one_gf_def)
    also have "Gf (gf_mul base base) = Gf base * Gf base" by (simp add: times_gf_def)
    finally show ?thesis by (simp add: e ac_simps)
  qed (simp add: gf_pow_loop.simps)
qed

lemma gf_pow_eq: "Gf (gf_pow base e) = Gf base ^ e"
  by (simp add: gf_pow_def gf_pow_loop_eq flip: one_gf_def)

lemma gf_inv_eq: "a \<noteq> 0 \<Longrightarrow> Gf (gf_inv a) = inverse (Gf a)"
  by (simp add: gf_inv_def gf_pow_eq inverse_gf_def zero_gf_def)

text \<open>The branch-free byte arithmetic is that of a field with exclusive or as addition:
  multiplication is commutative, associative, distributes over it and has 1, and the 254th power
  computed by repeated squaring is the inverse of every byte but 0.\<close>

lemma gf_mul_field:
  "gf_mul a b = gf_mul b a \<and> gf_mul (gf_mul a b) c = gf_mul a (gf_mul b c) \<and>
   gf_mul a (b XOR c) = gf_mul a b XOR gf_mul a c \<and> gf_mul 1 a = a \<and>
   gf_mul a (gf_inv a) = (if a = 0 then 0 else 1)"
proof -
  have "Gf a * Gf (gf_inv a) = 1" if "a \<noteq> 0"
    using that by (simp add: gf_inv_eq zero_gf_def)
  then have "gf_mul a (gf_inv a) = 1" if "a \<noteq> 0" using that by (simp add: times_gf_def one_gf_def)
  moreover have "gf_mul 0 (gf_inv 0) = 0" by (metis gf.sel mult_zero_left raw_simps(1,5))
  ultimately have "gf_mul a (gf_inv a) = (if a = 0 then 0 else 1)" by (cases "a = 0") simp_all
  then show ?thesis by (intro conjI gf_mul_assoc gf_mul_xor' gf_mul_1 gf_mul_commute)
qed

end
