(* ===== verification/Shamir.thy ===== *)
theory Shamir
  imports Gf256 Utf8
begin

text \<open>
  Secret sharing (\<open>kdx-crypto/src/shamir.rs\<close>): \<open>split\<close> deals shares of a secret, \<open>combine\<close> puts a
  threshold of them together, and a Merkle tree over the shares lets a holder check its own. The
  random bytes the dealer draws and the hash function are arguments. Shown: any threshold of shares
  gives the secret back, fewer say nothing about it, and a share passes the check exactly when it is
  the one dealt, up to a collision of the hash function.
\<close>

section \<open>Splitting and combining\<close>

definition MAX_SHARES :: u8 where "MAX_SHARES = 250"

datatype CryptoError = ShamirParams string | ShamirThreshold u8 nat | ShamirLengthMismatch

record Share =
  sh_index :: u8
  sh_data :: bytes

record ProofStep =
  ps_sibling :: bytes
  ps_current_is_left :: bool

record Commitments =
  cm_root :: bytes
  cm_tree :: "bytes list"
  cm_leaf_count :: nat
  cm_share_count :: nat

record SplitResult =
  sp_shares :: "Share list"
  sp_commitments :: Commitments

type_synonym digest = "bytes \<Rightarrow> bytes"

definition LEAF_PREFIX :: u8 where "LEAF_PREFIX = 0"
definition NODE_PREFIX :: u8 where "NODE_PREFIX = 1"

definition leaf_digest :: "digest \<Rightarrow> Share \<Rightarrow> bytes" where
  "leaf_digest sha256 share = sha256 ([LEAF_PREFIX, sh_index share] @ sh_data share)"

definition node_digest :: "digest \<Rightarrow> bytes \<Rightarrow> bytes \<Rightarrow> bytes" where
  "node_digest sha256 left right = sha256 ([NODE_PREFIX] @ left @ right)"

text \<open>\<open>usize::next_power_of_two\<close> and \<open>usize::trailing_zeros\<close>.\<close>

fun ceil_log2 :: "nat \<Rightarrow> nat" where
  "ceil_log2 n = (if n \<le> 1 then 0 else Suc (ceil_log2 ((n + 1) div 2)))"

declare ceil_log2.simps [simp del]

definition next_power_of_two :: "nat \<Rightarrow> nat" where
  "next_power_of_two n = 2 ^ ceil_log2 n"

fun trailing_zeros :: "nat \<Rightarrow> nat" where
  "trailing_zeros n = (if n = 0 then 64 else if odd n then 0 else Suc (trailing_zeros (n div 2)))"

declare trailing_zeros.simps [simp del]

fun build_nodes :: "digest \<Rightarrow> nat \<Rightarrow> bytes list \<Rightarrow> bytes list" where
  "build_nodes sha256 0 tree = tree"
| "build_nodes sha256 (Suc i) tree =
     build_nodes sha256 i (tree[Suc i := node_digest sha256 (tree ! (2 * Suc i)) (tree ! (2 * Suc i + 1))])"

fun set_leaves :: "digest \<Rightarrow> nat \<Rightarrow> Share list \<Rightarrow> bytes list \<Rightarrow> bytes list" where
  "set_leaves sha256 i [] tree = tree"
| "set_leaves sha256 i (share # shares) tree = set_leaves sha256 (Suc i) shares (tree[i := leaf_digest sha256 share])"

definition Commitments_new :: "digest \<Rightarrow> Share list \<Rightarrow> Commitments" where
  "Commitments_new sha256 shares =
     (let leaf_count = next_power_of_two (max (length shares) 1);
          tree = set_leaves sha256 leaf_count shares (replicate (leaf_count * 2) (replicate 32 0));
          tree = build_nodes sha256 (leaf_count - 1) tree
      in \<lparr>cm_root = tree ! 1, cm_tree = tree, cm_leaf_count = leaf_count, cm_share_count = length shares\<rparr>)"

text \<open>One column of a share: the polynomial with the secret byte as its constant term, at \<open>x\<close>.\<close>

fun poly_loop :: "u8 \<Rightarrow> u8 \<Rightarrow> u8 \<Rightarrow> bytes \<Rightarrow> u8" where
  "poly_loop x xp acc [] = acc"
| "poly_loop x xp acc (c # coeffs) = poly_loop x (gf_mul xp x) (acc XOR gf_mul c xp) coeffs"

definition share_byte :: "u8 \<Rightarrow> bytes \<Rightarrow> u8 \<Rightarrow> u8" where
  "share_byte secret_byte coeffs x = poly_loop x x secret_byte coeffs"

fun split_loop :: "nat \<Rightarrow> bytes \<Rightarrow> bytes \<Rightarrow> bytes list \<Rightarrow> bytes list" where
  "split_loop t rng [] holder = holder"
| "split_loop t rng (secret_byte # secret) holder =
     (let coeffs = take (t - 1) rng in
      split_loop t (drop (t - 1) rng) secret
        (map (\<lambda>(pos, data). data @ [share_byte secret_byte coeffs (of_nat (pos + 1))]) (enumerate 0 holder)))"

definition split :: "digest \<Rightarrow> bytes \<Rightarrow> bytes \<Rightarrow> u8 \<Rightarrow> u8 \<Rightarrow> (SplitResult, CryptoError) result" where
  "split sha256 rng secret threshold shares =
     (if threshold < 2
      then Err (ShamirParams (''threshold must be at least 2, got '' @ show_nat (unat threshold)))
      else if shares < threshold
      then Err (ShamirParams (''share count '' @ show_nat (unat shares) @ '' must be at least threshold '' @ show_nat (unat threshold)))
      else if shares > MAX_SHARES
      then Err (ShamirParams (''share count '' @ show_nat (unat shares) @ '' exceeds max '' @ show_nat (unat MAX_SHARES)))
      else
        (let holder = split_loop (unat threshold) rng secret (replicate (unat shares) []);
             dealt = map (\<lambda>(pos, data). \<lparr>sh_index = of_nat (pos + 1), sh_data = data\<rparr>) (enumerate 0 holder)
         in Ok \<lparr>sp_shares = dealt, sp_commitments = Commitments_new sha256 dealt\<rparr>))"

text \<open>\<open>Vec::dedup_by_key\<close>: of a run of equal keys the first stays.\<close>

fun dedup_by_key :: "('a \<Rightarrow> 'k) \<Rightarrow> 'a list \<Rightarrow> 'a list" where
  "dedup_by_key key (a # b # xs) = (if key a = key b then dedup_by_key key (a # xs) else a # dedup_by_key key (b # xs))"
| "dedup_by_key key xs = xs"

fun weight_loop :: "nat \<Rightarrow> u8 \<Rightarrow> nat \<Rightarrow> Share list \<Rightarrow> u8 \<Rightarrow> u8 \<Rightarrow> u8 \<times> u8" where
  "weight_loop i xi j [] num den = (num, den)"
| "weight_loop i xi j (sj # rest) num den =
     (if i = j then weight_loop i xi (Suc j) rest num den
      else weight_loop i xi (Suc j) rest (gf_mul num (sh_index sj)) (gf_mul den (sh_index sj XOR xi)))"

fun column_loop :: "Share list \<Rightarrow> nat \<Rightarrow> nat \<Rightarrow> Share list \<Rightarrow> u8 \<Rightarrow> u8" where
  "column_loop chosen col i [] acc = acc"
| "column_loop chosen col i (si # rest) acc =
     (let (num, den) = weight_loop i (sh_index si) 0 chosen 1 1;
          li = gf_mul num (gf_inv den)
      in column_loop chosen col (Suc i) rest (acc XOR gf_mul (sh_data si ! col) li))"

definition combine :: "Share list \<Rightarrow> u8 \<Rightarrow> (bytes, CryptoError) result" where
  "combine shares threshold =
     (if threshold < 2
      then Err (ShamirParams (''threshold must be at least 2, got '' @ show_nat (unat threshold)))
      else if length shares < unat threshold then Err (ShamirThreshold threshold (length shares))
      else case find (\<lambda>s. sh_index s = 0 \<or> sh_index s > MAX_SHARES) shares of
        Some bad \<Rightarrow> Err (ShamirParams (''share index '' @ show_nat (unat (sh_index bad)) @ '' out of range 1..='' @ show_nat (unat MAX_SHARES)))
      | None \<Rightarrow>
          (let chosen = dedup_by_key sh_index (sort_key sh_index shares) in
           if length chosen < unat threshold then Err (ShamirThreshold threshold (length shares))
           else
             (let chosen = take (unat threshold) chosen;
                  len = length (sh_data (chosen ! 0))
              in if list_ex (\<lambda>s. length (sh_data s) \<noteq> len) chosen then Err ShamirLengthMismatch
                 else Ok (map (\<lambda>col. column_loop chosen col 0 chosen 0) [0..<len]))))"

section \<open>Checking a share\<close>

fun verify_loop :: "digest \<Rightarrow> nat \<Rightarrow> bytes \<Rightarrow> ProofStep list \<Rightarrow> bytes" where
  "verify_loop sha256 position digest [] = digest"
| "verify_loop sha256 position digest (step # steps) =
     verify_loop sha256 (position div 2)
       (if even position then node_digest sha256 digest (ps_sibling step) else node_digest sha256 (ps_sibling step) digest) steps"

definition verify_share :: "digest \<Rightarrow> Share \<Rightarrow> bytes \<Rightarrow> ProofStep list \<Rightarrow> nat \<Rightarrow> bool" where
  "verify_share sha256 share expected steps share_count =
     (if sh_index share = 0 \<or> unat (sh_index share) > share_count then False
      else
        (let depth = trailing_zeros (next_power_of_two share_count) in
         if length steps \<noteq> depth then False
         else verify_loop sha256 (unat (sh_index share) - 1) (leaf_digest sha256 share) steps = expected))"

fun proof_loop :: "bytes list \<Rightarrow> nat \<Rightarrow> ProofStep list" where
  "proof_loop tree idx =
     (if idx > 1 then \<lparr>ps_sibling = tree ! (idx XOR 1), ps_current_is_left = even idx\<rparr> # proof_loop tree (idx div 2) else [])"

declare proof_loop.simps [simp del]

definition merkle_proof :: "Commitments \<Rightarrow> u8 \<Rightarrow> ProofStep list option" where
  "merkle_proof c share_index =
     (if share_index = 0 then None
      else
        (let leaf = unat share_index - 1 in
         if leaf \<ge> cm_share_count c then None
         else Some (proof_loop (cm_tree c) (cm_leaf_count c + leaf))))"

definition Commitments_verify_share :: "digest \<Rightarrow> Commitments \<Rightarrow> Share \<Rightarrow> bool" where
  "Commitments_verify_share sha256 c share =
     (case merkle_proof c (sh_index share) of
        Some steps \<Rightarrow> verify_share sha256 share (cm_root c) steps (cm_share_count c)
      | None \<Rightarrow> False)"

section \<open>Polynomials over a field\<close>

definition polyf :: "nat \<Rightarrow> ('a::field \<Rightarrow> 'a) \<Rightarrow> bool" where
  "polyf n f \<longleftrightarrow> (\<exists>c. \<forall>z. f z = (\<Sum>i<n. c i * z ^ i))"

lemma polyfI: "(\<And>z. f z = (\<Sum>i<n. c i * z ^ i)) \<Longrightarrow> polyf n f"
  by (auto simp: polyf_def)

lemma polyf_const: "polyf 1 (\<lambda>_. a)"
  by (rule polyfI [where c = "\<lambda>_. a"]) simp

lemma polyf_add: "polyf n f \<Longrightarrow> polyf n g \<Longrightarrow> polyf n (\<lambda>z. f z + g z)"
proof -
  assume "polyf n f" "polyf n g"
  then obtain c d where "\<And>z. f z = (\<Sum>i<n. c i * z ^ i)" "\<And>z. g z = (\<Sum>i<n. d i * z ^ i)" by (auto simp: polyf_def)
  then show ?thesis by (intro polyfI [where c = "\<lambda>i. c i + d i"]) (simp add: distrib_right sum.distrib)
qed

lemma polyf_scale: "polyf n f \<Longrightarrow> polyf n (\<lambda>z. a * f z)"
proof -
  assume "polyf n f"
  then obtain c where "\<And>z. f z = (\<Sum>i<n. c i * z ^ i)" by (auto simp: polyf_def)
  then show ?thesis by (intro polyfI [where c = "\<lambda>i. a * c i"]) (simp add: sum_distrib_left mult.assoc)
qed

lemma polyf_sum: "finite A \<Longrightarrow> (\<And>x. x \<in> A \<Longrightarrow> polyf n (f x)) \<Longrightarrow> polyf n (\<lambda>z. \<Sum>x\<in>A. f x z)"
proof (induction A rule: finite_induct)
  case empty
  show ?case by (rule polyfI [where c = "\<lambda>_. 0"]) simp
next
  case (insert x A)
  then show ?case by (simp add: polyf_add)
qed

lemma polyf_linear: "polyf n f \<Longrightarrow> polyf (Suc n) (\<lambda>z. (z - a) * f z)"
proof -
  assume "polyf n f"
  then obtain c where f: "\<And>z. f z = (\<Sum>i<n. c i * z ^ i)" by (auto simp: polyf_def)
  have up: "(\<Sum>i<Suc n. (case i of 0 \<Rightarrow> 0 | Suc j \<Rightarrow> c j) * z ^ i) = z * f z" for z
    by (simp only: sum.lessThan_Suc_shift) (simp add: f sum_distrib_left ac_simps)
  have at: "(\<Sum>i<Suc n. (if i < n then a * c i else 0) * z ^ i) = a * f z" for z
    by (simp add: f sum_distrib_left ac_simps)
  show ?thesis
    by (rule polyfI [where c = "\<lambda>i. (case i of 0 \<Rightarrow> 0 | Suc j \<Rightarrow> c j) - (if i < n then a * c i else 0)"])
       (simp only: left_diff_distrib sum_subtractf up at)
qed

lemma polyf_prod: "finite A \<Longrightarrow> polyf (Suc (card A)) (\<lambda>z. \<Prod>y\<in>A. (z - y) / d y)"
proof (induction A rule: finite_induct)
  case empty
  show ?case using polyf_const by simp
next
  case (insert y A)
  from polyf_scale [OF polyf_linear [OF insert.IH, of y], of "1 / d y"] insert.hyps
  show ?case by (simp add: mult.assoc)
qed

lemma polyf_roots:
  assumes "polyf n f" and "finite S" and "n \<le> card S" and "\<And>x. x \<in> S \<Longrightarrow> f x = 0"
  shows "f z = 0"
  using assms
proof (induction n arbitrary: f S z)
  case 0
  then show ?case by (auto simp: polyf_def)
next
  case (Suc n)
  then obtain c where f: "\<And>z. f z = (\<Sum>i\<le>n. c i * z ^ i)" by (auto simp: polyf_def lessThan_Suc_atMost)
  obtain s where s: "s \<in> S" using Suc.prems(2,3) by fastforce
  then have "(\<Sum>i\<le>n. c i * s ^ i) = 0" using Suc.prems(4) f by simp
  then obtain b where b: "\<And>z. (\<Sum>i\<le>n. c i * z ^ i) = (z - s) * (\<Sum>i<n. b i * z ^ i)"
    using polyfun_linear_factor_root by blast
  have "(\<Sum>i<n. b i * z ^ i) = 0" for z
  proof (rule Suc.IH [of "\<lambda>z. \<Sum>i<n. b i * z ^ i" "S - {s}"])
    show "polyf n (\<lambda>z. \<Sum>i<n. b i * z ^ i)" by (rule polyfI) simp
    show "finite (S - {s})" "n \<le> card (S - {s})" using Suc.prems(2,3) s by simp_all
    show "(\<Sum>i<n. b i * x ^ i) = 0" if "x \<in> S - {s}" for x
      using that Suc.prems(4) [of x] f b [of x] by auto
  qed
  then show ?case by (simp add: f b)
qed

text \<open>Lagrange: the polynomial through given values, and that there is only one.\<close>

definition lagrange :: "'a::field set \<Rightarrow> ('a \<Rightarrow> 'a) \<Rightarrow> 'a \<Rightarrow> 'a" where
  "lagrange S v z = (\<Sum>x\<in>S. v x * (\<Prod>y\<in>S - {x}. (z - y) / (x - y)))"

lemma polyf_lagrange:
  assumes "finite S"
  shows "polyf (card S) (lagrange S v)"
  unfolding lagrange_def
proof (rule polyf_sum [OF assms])
  fix x
  assume "x \<in> S"
  with assms polyf_prod [of "S - {x}" "\<lambda>y. x - y"] show "polyf (card S) (\<lambda>z. v x * (\<Prod>y\<in>S - {x}. (z - y) / (x - y)))"
    by (intro polyf_scale) (metis card.remove finite_Diff)
qed

lemma lagrange_at:
  assumes "finite S" "s \<in> S"
  shows "lagrange S v s = v s"
proof -
  have "(\<Prod>y\<in>S - {x}. (s - y) / (x - y)) = (if x = s then 1 else 0)" if "x \<in> S" for x
    using assms that by (auto intro!: prod.neutral)
  then have "lagrange S v s = (\<Sum>x\<in>S. if x = s then v x else 0)" unfolding lagrange_def by (intro sum.cong) simp_all
  then show ?thesis using assms by (simp add: sum.delta)
qed

lemma lagrange_unique:
  assumes "finite S" "polyf (card S) f"
  shows "lagrange S f z = f z"
proof -
  have "polyf (card S) (\<lambda>z. f z + (- 1) * lagrange S f z)"
    by (intro polyf_add polyf_scale assms polyf_lagrange)
  from polyf_roots [OF this assms(1)] lagrange_at [OF assms(1)] show ?thesis by simp
qed

section \<open>The loops compute it\<close>

lemma poly_loop_eq:
  "Gf (poly_loop x xp acc cs) = Gf acc + Gf xp * (\<Sum>i<length cs. Gf (cs ! i) * Gf x ^ i)"
proof (induction cs arbitrary: xp acc)
  case (Cons c cs)
  have "Gf (poly_loop x xp acc (c # cs)) = Gf acc + Gf c * Gf xp + Gf xp * Gf x * (\<Sum>i<length cs. Gf (cs ! i) * Gf x ^ i)"
    using Cons by (simp add: Gf_xor Gf_mul)
  also have "\<dots> = Gf acc + Gf xp * (\<Sum>i<Suc (length cs). Gf ((c # cs) ! i) * Gf x ^ i)"
    by (simp only: sum.lessThan_Suc_shift) (simp add: sum_distrib_left algebra_simps)
  finally show ?case by simp
qed simp

lemma share_byte_eq: "Gf (share_byte b cs x) = (\<Sum>i<Suc (length cs). Gf ((b # cs) ! i) * Gf x ^ i)"
  by (simp only: share_byte_def poly_loop_eq sum.lessThan_Suc_shift) (simp add: sum_distrib_left algebra_simps)

lemma polyf_share_byte:
  assumes "length cs < n"
  shows "polyf n (\<lambda>z. Gf (share_byte b cs (raw z)))"
proof (rule polyfI)
  fix z
  have "(\<Sum>i<n. (if i < Suc (length cs) then Gf ((b # cs) ! i) else 0) * z ^ i) = (\<Sum>i<Suc (length cs). Gf ((b # cs) ! i) * z ^ i)"
    using assms by (intro sum.mono_neutral_cong_right) auto
  then show "Gf (share_byte b cs (raw z)) = (\<Sum>i<n. (if i < Suc (length cs) then Gf ((b # cs) ! i) else 0) * z ^ i)"
    by (simp add: share_byte_eq)
qed

lemma weight_loop_eq:
  "(case weight_loop i xi j ss num den of (n', d') \<Rightarrow> (Gf n', Gf d')) =
     (Gf num * (\<Prod>m\<in>{j..<j + length ss} - {i}. Gf (sh_index (ss ! (m - j)))),
      Gf den * (\<Prod>m\<in>{j..<j + length ss} - {i}. Gf (sh_index (ss ! (m - j))) - Gf xi))"
proof (induction ss arbitrary: j num den)
  case (Cons s ss)
  have shift: "(\<Prod>m\<in>{Suc j..<Suc j + length ss} - {i}. f ((s # ss) ! (m - j))) = (\<Prod>m\<in>{Suc j..<Suc j + length ss} - {i}. f (ss ! (m - Suc j)))"
    for f :: "Share \<Rightarrow> gf" by (rule prod.cong) (auto simp: nth_Cons split: nat.splits, metis Suc_diff_Suc Suc_le_lessD diff_Suc_Suc nat.inject)
  have set: "{j..<j + length (s # ss)} - {i} = (if i = j then {Suc j..<Suc j + length ss} - {i} else insert j ({Suc j..<Suc j + length ss} - {i}))"
    by auto
  note ih = Cons.IH [of "Suc j"] and sh = shift [of "\<lambda>s. Gf (sh_index s)"] shift [of "\<lambda>s. Gf (sh_index s) - Gf xi"]
  show ?case
  proof (cases "i = j")
    case True
    then have "weight_loop i xi j (s # ss) num den = weight_loop i xi (Suc j) ss num den"
      "{j..<j + length (s # ss)} - {i} = {Suc j..<Suc j + length ss} - {i}" by auto
    then show ?thesis by (simp only: ih sh)
  next
    case False
    then have "weight_loop i xi j (s # ss) num den =
        weight_loop i xi (Suc j) ss (gf_mul num (sh_index s)) (gf_mul den (sh_index s XOR xi))" by simp
    with False show ?thesis
      unfolding set by (simp only: ih if_False prod.insert finite_Diff finite_atLeastLessThan) (simp add: sh Gf_mul Gf_xor_diff mult.assoc)
  qed
qed simp

lemma lagrange_indexed:
  assumes "inj_on x {..<n}"
  shows "lagrange (x ` {..<n}) v 0 =
    (\<Sum>k<n. v (x k) * ((\<Prod>m\<in>{..<n} - {k}. x m) * inverse (\<Prod>m\<in>{..<n} - {k}. x m - x k)))"
proof -
  have "(\<Prod>y\<in>x ` {..<n} - {x k}. (0 - y) / (x k - y)) = (\<Prod>m\<in>{..<n} - {k}. x m) * inverse (\<Prod>m\<in>{..<n} - {k}. x m - x k)" if "k < n" for k
  proof -
    have "x ` {..<n} - {x k} = x ` ({..<n} - {k})" using assms that by (auto simp: inj_on_def)
    then have "(\<Prod>y\<in>x ` {..<n} - {x k}. (0 - y) / (x k - y)) = (\<Prod>m\<in>{..<n} - {k}. (0 - x m) / (x k - x m))"
      using assms by (simp add: prod.reindex inj_on_def)
    also have "\<dots> = (\<Prod>m\<in>{..<n} - {k}. x m / (x m - x k))"
      by (intro prod.cong refl) (metis diff_0 minus_diff_eq minus_divide_divide)
    also have "\<dots> = (\<Prod>m\<in>{..<n} - {k}. x m) / (\<Prod>m\<in>{..<n} - {k}. x m - x k)" by (rule prod_dividef)
    finally show ?thesis by (simp only: divide_inverse)
  qed
  then show ?thesis using assms by (simp add: lagrange_def sum.reindex)
qed

lemma column_loop_eq:
  fixes chosen :: "Share list"
  defines "n \<equiv> length chosen" and "x \<equiv> \<lambda>k. Gf (sh_index (chosen ! k))"
  assumes inj: "inj_on x {..<n}"
  shows "i \<le> n \<Longrightarrow> Gf (column_loop chosen col i (drop i chosen) acc) =
    Gf acc + (\<Sum>k\<in>{i..<n}. Gf (sh_data (chosen ! k) ! col) *
      ((\<Prod>m\<in>{..<n} - {k}. x m) * inverse (\<Prod>m\<in>{..<n} - {k}. x m - x k)))"
proof (induction "n - i" arbitrary: i acc)
  case 0
  then show ?case by (simp add: n_def)
next
  case (Suc d)
  then have i: "i < n" by simp
  obtain num den where w: "weight_loop i (sh_index (chosen ! i)) 0 chosen 1 1 = (num, den)" by (metis prod.exhaust)
  from weight_loop_eq [of i "sh_index (chosen ! i)" 0 chosen 1 1] w
  have w': "Gf num = (\<Prod>m\<in>{..<n} - {i}. x m)" "Gf den = (\<Prod>m\<in>{..<n} - {i}. x m - x i)"
    by (simp_all add: n_def x_def Gf_1 atLeast0LessThan)
  have "(\<Prod>m\<in>{..<n} - {i}. x m - x i) \<noteq> 0" using inj i by (auto simp: inj_on_def)
  then have den: "den \<noteq> 0" using w'(2) by (metis Gf_0)
  have "Gf (column_loop chosen col i (drop i chosen) acc) =
      Gf (column_loop chosen col (Suc i) (drop (Suc i) chosen) (acc XOR gf_mul (sh_data (chosen ! i) ! col) (gf_mul num (gf_inv den))))"
    using i w by (simp add: n_def Cons_nth_drop_Suc [symmetric])
  also have "\<dots> = Gf acc + Gf (sh_data (chosen ! i) ! col) * (Gf num * inverse (Gf den)) + (\<Sum>k\<in>{Suc i..<n}. Gf (sh_data (chosen ! k) ! col) *
      ((\<Prod>m\<in>{..<n} - {k}. x m) * inverse (\<Prod>m\<in>{..<n} - {k}. x m - x k)))"
    using Suc i den by (simp add: Gf_xor Gf_mul gf_inv_eq)
  also have "\<dots> = Gf acc + (\<Sum>k\<in>{i..<n}. Gf (sh_data (chosen ! k) ! col) *
      ((\<Prod>m\<in>{..<n} - {k}. x m) * inverse (\<Prod>m\<in>{..<n} - {k}. x m - x k)))"
    using i by (simp add: sum.atLeast_Suc_lessThan w' add.assoc)
  finally show ?case .
qed

lemma column_combined:
  assumes d: "distinct (map sh_index chosen)" and len: "length cs < length chosen"
    and v: "\<And>s. s \<in> set chosen \<Longrightarrow> sh_data s ! col = share_byte b cs (sh_index s)"
  shows "column_loop chosen col 0 chosen 0 = b"
proof -
  let ?n = "length chosen" and ?x = "\<lambda>k. Gf (sh_index (chosen ! k))" and ?f = "\<lambda>z. Gf (share_byte b cs (raw z))"
  have inj: "inj_on ?x {..<?n}"
    using d by (auto simp: inj_on_def distinct_conv_nth)
  have "Gf (column_loop chosen col 0 chosen 0) = (\<Sum>k<?n. ?f (?x k) * ((\<Prod>m\<in>{..<?n} - {k}. ?x m) * inverse (\<Prod>m\<in>{..<?n} - {k}. ?x m - ?x k)))"
    using column_loop_eq [of chosen 0 col 0, OF inj] v by (simp add: Gf_0 atLeast0LessThan)
  also have "\<dots> = lagrange (?x ` {..<?n}) ?f 0" by (simp only: lagrange_indexed [OF inj])
  also have "\<dots> = ?f 0"
    using len inj by (intro lagrange_unique polyf_share_byte) (simp_all add: card_image)
  also have "\<dots> = Gf b"
    by (simp only: share_byte_eq raw_simps Gf_0 sum.lessThan_Suc_shift) simp
  finally show ?thesis by simp
qed

section \<open>Dealing\<close>

fun columns :: "nat \<Rightarrow> bytes \<Rightarrow> bytes \<Rightarrow> (u8 \<times> bytes) list" where
  "columns t rng [] = []"
| "columns t rng (b # bs) = (b, take (t - 1) rng) # columns t (drop (t - 1) rng) bs"

lemma map_fst_columns [simp]: "map fst (columns t rng bs) = bs"
  by (induction bs arbitrary: rng) simp_all

lemma length_columns [simp]: "length (columns t rng bs) = length bs"
  by (metis length_map map_fst_columns)

lemma columns_coeffs: "(b, cs) \<in> set (columns t rng bs) \<Longrightarrow> length cs \<le> t - 1"
  by (induction bs arbitrary: rng) auto

definition dealt_data :: "nat \<Rightarrow> bytes \<Rightarrow> bytes \<Rightarrow> u8 \<Rightarrow> bytes" where
  "dealt_data t rng secret x = map (\<lambda>(b, cs). share_byte b cs x) (columns t rng secret)"

lemma split_loop_eq:
  "split_loop t rng secret holder = map (\<lambda>(pos, data). data @ dealt_data t rng secret (of_nat (pos + 1))) (enumerate 0 holder)"
proof (induction secret arbitrary: rng holder)
  case Nil
  then show ?case by (simp add: dealt_data_def comp_def case_prod_beta)
next
  case (Cons b bs)
  show ?case
    by (rule nth_equalityI) (simp_all add: Let_def Cons nth_enumerate_eq dealt_data_def)
qed

lemma split_Ok_iff:
  "split sha256 rng secret threshold n = Ok r \<longleftrightarrow> 2 \<le> threshold \<and> threshold \<le> n \<and> n \<le> MAX_SHARES \<and>
     sp_shares r = map (\<lambda>i. \<lparr>sh_index = of_nat i, sh_data = dealt_data (unat threshold) rng secret (of_nat i)\<rparr>) [1..<Suc (unat n)] \<and>
     sp_commitments r = Commitments_new sha256 (sp_shares r) \<and> SplitResult.more r = ()"
proof -
  have "map (\<lambda>(pos, data). \<lparr>sh_index = of_nat (pos + 1), sh_data = data\<rparr>)
      (enumerate 0 (split_loop (unat threshold) rng secret (replicate (unat n) []))) =
    map (\<lambda>i. \<lparr>sh_index = of_nat i, sh_data = dealt_data (unat threshold) rng secret (of_nat i)\<rparr>) [1..<Suc (unat n)]"
    by (rule nth_equalityI) (simp_all add: split_loop_eq nth_enumerate_eq nth_append del: upt_Suc)
  then show ?thesis
    by (cases r) (auto simp: split_def Let_def not_less)
qed

section \<open>Round trip\<close>

lemma dedup_by_key_sorted:
  assumes "sorted (map key xs)"
  shows "distinct (map key (dedup_by_key key xs)) \<and> set (dedup_by_key key xs) \<subseteq> set xs \<and>
    key ` set (dedup_by_key key xs) = key ` set xs"
  using assms
proof (induction key xs rule: dedup_by_key.induct)
  case (1 key a b xs)
  show ?case
  proof (cases "key a = key b")
    case True
    then show ?thesis using 1 by auto
  next
    case False
    then have ab: "key a < key b" using "1.prems" by auto
    have ih: "distinct (map key (dedup_by_key key (b # xs)))" "set (dedup_by_key key (b # xs)) \<subseteq> set (b # xs)"
      "key ` set (dedup_by_key key (b # xs)) = key ` set (b # xs)" using 1 False by auto
    have "key a \<notin> key ` set (b # xs)" using ab "1.prems" by fastforce
    then show ?thesis using False ih by auto
  qed
qed auto

lemma dealt_unique:
  assumes "split sha256 rng secret threshold n = Ok r" "s \<in> set (sp_shares r)"
  shows "sh_index s \<noteq> 0 \<and> sh_index s \<le> MAX_SHARES \<and> s = \<lparr>sh_index = sh_index s, sh_data = dealt_data (unat threshold) rng secret (sh_index s)\<rparr>"
proof -
  have n: "unat n \<le> 250" using assms(1) by (auto simp: split_Ok_iff MAX_SHARES_def word_le_nat_alt)
  obtain i where i: "1 \<le> i" "i \<le> unat n" "s = \<lparr>sh_index = of_nat i, sh_data = dealt_data (unat threshold) rng secret (of_nat i)\<rparr>"
    using assms by (auto simp: split_Ok_iff simp del: upt_Suc)
  moreover have "unat (of_nat i :: u8) = i" using i n by (simp add: unat_of_nat)
  ultimately show ?thesis using n by (auto simp: MAX_SHARES_def word_le_nat_alt unat_eq_0 [symmetric] simp flip: unat_0_iff)
qed

text \<open>Property C19. Whatever the dealer draws, any collection of dealt shares, in any order and with
  repetitions, gives back exactly the secret when it has at least as many different shares as the
  threshold, and is refused otherwise.\<close>
theorem shamir_round_trip:
  assumes "split sha256 rng secret threshold n = Ok r" and "set ss \<subseteq> set (sp_shares r)"
  shows "combine ss threshold =
    (if unat threshold \<le> card (set ss) then Ok secret else Err (ShamirThreshold threshold (length ss)))"
proof -
  let ?t = "unat threshold" and ?all = "dedup_by_key sh_index (sort_key sh_index ss)"
  have "2 \<le> threshold" using assms(1) by (simp add: split_Ok_iff)
  then have t: "\<not> threshold < 2" "2 \<le> ?t" by (simp_all add: not_less word_le_nat_alt)
  note dealt = dealt_unique [OF assms(1) subsetD [OF assms(2)]]
  have none: "find (\<lambda>s. sh_index s = 0 \<or> sh_index s > MAX_SHARES) ss = None"
    using dealt by (auto simp: find_None_iff not_less)
  have all: "distinct (map sh_index ?all)" "set ?all \<subseteq> set ss" "sh_index ` set ?all = sh_index ` set ss"
    using dedup_by_key_sorted [of sh_index "sort_key sh_index ss"] by simp_all
  have "inj_on sh_index (set ss)" using dealt by (metis inj_onI)
  then have "card (set ss) = card (sh_index ` set ss)" by (simp add: card_image)
  also have "\<dots> = length ?all" using all(1,3) by (metis distinct_card length_map set_map)
  finally have card: "card (set ss) = length ?all" .
  show ?thesis
  proof (cases "?t \<le> length ?all")
    case False
    then show ?thesis using t none card by (auto simp: combine_def Let_def)
  next
    case True
    let ?c = "take ?t ?all"
    have c: "set ?c \<subseteq> set ss" "distinct (map sh_index ?c)" "length ?c = ?t"
      using all True by (auto simp: take_map [symmetric] dest: in_set_takeD)
    have data: "sh_data s = dealt_data ?t rng secret (sh_index s)" if "s \<in> set ?c" for s
      using dealt c(1) that by (metis Share.select_convs(2) subsetD)
    have "?c ! 0 \<in> set ?c" using c(3) t(2) by (intro nth_mem) simp
    then have len: "length (sh_data (?c ! 0)) = length secret" using data by (simp add: dealt_data_def)
    have eq: "\<not> list_ex (\<lambda>s. length (sh_data s) \<noteq> length (sh_data (?c ! 0))) ?c"
      using data len by (auto simp: list_ex_iff dealt_data_def)
    have col: "column_loop ?c col 0 ?c 0 = secret ! col" if col: "col < length secret" for col
    proof -
      obtain b cs where bc: "columns ?t rng secret ! col = (b, cs)" by (metis prod.exhaust)
      have "(b, cs) \<in> set (columns ?t rng secret)" using col bc by (metis length_columns nth_mem)
      then have "length cs < length ?c" using columns_coeffs t(2) c(3) by fastforce
      moreover have "b = secret ! col" using bc col by (metis fst_conv length_columns map_fst_columns nth_map)
      moreover have "sh_data s ! col = share_byte b cs (sh_index s)" if "s \<in> set ?c" for s
        using data [OF that] col bc by (simp add: dealt_data_def)
      ultimately show ?thesis using column_combined [OF c(2)] by blast
    qed
    have "length ss \<ge> ?t" using True card card_length [of ss] by linarith
    then have "combine ss threshold = Ok (map (\<lambda>col. column_loop ?c col 0 ?c 0) [0..<length (sh_data (?c ! 0))])"
      using t none True eq by (simp add: combine_def Let_def)
    also have "map (\<lambda>col. column_loop ?c col 0 ?c 0) [0..<length (sh_data (?c ! 0))] = secret"
      unfolding len by (rule nth_equalityI) (simp_all add: col)
    finally show ?thesis using True card by simp
  qed
qed

theorem shamir_round_trip_witness:
  "\<exists>r. split (\<lambda>_. []) [7, 9] [42, 0] 2 3 = Ok r \<and> combine [sp_shares r ! 2, sp_shares r ! 0, sp_shares r ! 2] 2 = Ok [42, 0]"
proof -
  obtain r where r: "split (\<lambda>_. []) [7, 9] [42, 0] 2 3 = Ok r"
    by (simp add: split_def MAX_SHARES_def Let_def)
  then have sh: "sp_shares r = map (\<lambda>i. \<lparr>sh_index = of_nat i, sh_data = dealt_data 2 [7, 9] [42, 0] (of_nat i)\<rparr>) [1, 2, 3]"
    by (simp add: split_Ok_iff upt_rec)
  let ?ss = "[sp_shares r ! 2, sp_shares r ! 0, sp_shares r ! 2]"
  have "set ?ss \<subseteq> set (sp_shares r)" "2 \<le> card (set ?ss)" by (auto simp: sh card_insert_if)
  with shamir_round_trip [OF r, of ?ss] have "combine ?ss 2 = Ok [42, 0]" by simp
  with r show ?thesis by blast
qed

section \<open>Secrecy\<close>

lemma column_values:
  assumes "distinct xs" "0 \<notin> set xs" "length ys = length xs"
  shows "\<exists>cs. length cs = length xs \<and> map (share_byte b cs) xs = ys"
proof -
  let ?m = "length xs" and ?S = "insert 0 (Gf ` set xs)"
  define v where "v z = (if z = 0 then Gf b else Gf (the (map_of (zip xs ys) (raw z))))" for z
  have nz: "Gf x \<noteq> 0" if "x \<in> set xs" for x using that assms(2) by (auto simp: zero_gf_def)
  have "card ?S = Suc (card (Gf ` set xs))" using nz by (subst card_insert_disjoint) force+
  also have "card (Gf ` set xs) = ?m" using assms(1) by (simp add: card_image inj_on_def distinct_card)
  finally have card: "card ?S = Suc ?m" .
  have "polyf (Suc ?m) (lagrange ?S v)" using polyf_lagrange [of ?S v] card by simp
  then obtain c where c: "\<And>z. lagrange ?S v z = (\<Sum>i<Suc ?m. c i * z ^ i)" by (auto simp: polyf_def)
  have "c 0 = lagrange ?S v 0" by (simp only: c sum.lessThan_Suc_shift) simp
  then have c0: "c 0 = Gf b" by (simp add: lagrange_at v_def)
  let ?cs = "map (\<lambda>i. raw (c (Suc i))) [0..<?m]"
  have "share_byte b ?cs x = the (map_of (zip xs ys) x)" if "x \<in> set xs" for x
  proof -
    have "Gf (share_byte b ?cs x) = (\<Sum>i<Suc ?m. c i * Gf x ^ i)"
      unfolding share_byte_eq by (intro sum.cong) (auto simp: nth_Cons c0 split: nat.splits)
    also have "\<dots> = v (Gf x)" using c [of "Gf x"] lagrange_at [of ?S "Gf x" v] that by simp
    finally show ?thesis using nz [OF that] by (simp add: v_def)
  qed
  then have "map (share_byte b ?cs) xs = ys"
    using assms(1,3) by (intro nth_equalityI) (simp_all add: map_of_zip_nth)
  then show ?thesis by (metis length_map length_upt minus_nat.diff_0)
qed

lemma column_secret:
  assumes "distinct xs" "0 \<notin> set xs" "length ys = length xs"
  shows "\<exists>!cs. length cs = length xs \<and> map (share_byte b cs) xs = ys"
proof -
  let ?A = "{cs :: bytes. length cs = length xs}" and ?f = "\<lambda>cs. map (share_byte b cs) xs"
  have fin: "finite ?A" using finite_lists_length_eq [of "UNIV :: u8 set" "length xs"] by simp
  have "?f ` ?A = ?A"
  proof
    show "?A \<subseteq> ?f ` ?A"
    proof
      fix ys :: bytes
      assume "ys \<in> ?A"
      with column_values [OF assms(1,2), of ys b] obtain cs where "length cs = length xs" "ys = ?f cs" by auto
      then show "ys \<in> ?f ` ?A" by blast
    qed
  qed auto
  then have "inj_on ?f ?A" using fin by (metis eq_card_imp_inj_on)
  then show ?thesis using column_values [OF assms] by (auto simp: inj_on_def)
qed

lemma dealt_data_Cons:
  "dealt_data t rng (b # bs) x = share_byte b (take (t - 1) rng) x # dealt_data t (drop (t - 1) rng) bs x"
  by (simp add: dealt_data_def)

lemma stream_secret:
  assumes xs: "distinct xs" "0 \<notin> set xs" "length xs = t - 1" and "\<And>x. x \<in> set xs \<Longrightarrow> length (target x) = length bs"
  shows "\<exists>!rng. length rng = length bs * (t - 1) \<and> (\<forall>x\<in>set xs. dealt_data t rng bs x = target x)"
  using assms(4)
proof (induction bs arbitrary: target)
  case Nil
  then show ?case by (auto simp: dealt_data_def)
next
  case (Cons b bs)
  have target: "target x = hd (target x) # tl (target x)" "length (tl (target x)) = length bs" if "x \<in> set xs" for x
    using Cons.prems [OF that] by (auto simp: length_Suc_conv)
  obtain cs where cs: "length cs = t - 1" "\<forall>x\<in>set xs. share_byte b cs x = hd (target x)"
      and cs_unique: "\<And>cs'. length cs' = t - 1 \<Longrightarrow> \<forall>x\<in>set xs. share_byte b cs' x = hd (target x) \<Longrightarrow> cs' = cs"
    using column_secret [OF xs(1,2), of "map (\<lambda>x. hd (target x)) xs" b, unfolded length_map map_eq_conv xs(3)] by (metis (no_types, lifting))
  obtain rng where rng: "length rng = length bs * (t - 1)" "\<forall>x\<in>set xs. dealt_data t rng bs x = tl (target x)"
      and rng_unique: "\<And>rng'. length rng' = length bs * (t - 1) \<Longrightarrow> \<forall>x\<in>set xs. dealt_data t rng' bs x = tl (target x) \<Longrightarrow> rng' = rng"
    using Cons.IH [of "\<lambda>x. tl (target x)"] target(2) by (metis (no_types, lifting))
  show ?case
  proof (rule ex1I [of _ "cs @ rng"])
    show "length (cs @ rng) = length (b # bs) * (t - 1) \<and> (\<forall>x\<in>set xs. dealt_data t (cs @ rng) (b # bs) x = target x)"
      using cs rng target(1) by (simp add: dealt_data_Cons)
  next
    fix rng'
    assume r: "length rng' = length (b # bs) * (t - 1) \<and> (\<forall>x\<in>set xs. dealt_data t rng' (b # bs) x = target x)"
    then have "take (t - 1) rng' = cs" "drop (t - 1) rng' = rng"
      using target(1) by (auto intro!: cs_unique rng_unique simp: dealt_data_Cons) (metis list.sel)+
    then show "rng' = cs @ rng" by (metis append_take_drop_id)
  qed
qed

lemma split_reaches:
  assumes "split sha256 rng secret threshold n = Ok r" and "s \<in> set (sp_shares r)"
  shows "(\<exists>r'. split sha256 rng' other threshold n = Ok r' \<and> s \<in> set (sp_shares r')) \<longleftrightarrow>
    sh_data s = dealt_data (unat threshold) rng' other (sh_index s)"
proof -
  let ?d = "\<lambda>i. \<lparr>sh_index = of_nat i, sh_data = dealt_data (unat threshold) rng' other (of_nat i)\<rparr> :: Share"
  define r' where "r' = \<lparr>sp_shares = map ?d [1..<Suc (unat n)], sp_commitments = Commitments_new sha256 (map ?d [1..<Suc (unat n)])\<rparr>"
  have ok: "split sha256 rng' other threshold n = Ok r'" using assms(1) unfolding split_Ok_iff r'_def by simp
  obtain i where i: "i \<in> set [1..<Suc (unat n)]" "sh_index s = of_nat i" "Share.more s = ()"
    using assms by (auto simp: split_Ok_iff simp del: upt_Suc)
  have "s \<in> set (sp_shares r') \<longleftrightarrow> sh_data s = dealt_data (unat threshold) rng' other (sh_index s)"
  proof
    assume "s \<in> set (sp_shares r')"
    from arg_cong [OF conjunct2 [OF conjunct2 [OF dealt_unique [OF ok this]]], of sh_data]
    show "sh_data s = dealt_data (unat threshold) rng' other (sh_index s)" by simp
  next
    assume "sh_data s = dealt_data (unat threshold) rng' other (sh_index s)"
    then have "s = ?d i" using i by (cases s) simp
    then show "s \<in> set (sp_shares r')" using i(1) unfolding r'_def by (simp del: upt_Suc)
  qed
  with ok show ?thesis by simp
qed

text \<open>Property C20. One share fewer than the threshold says nothing about the secret: for every other
  secret of the same length there is exactly one sequence of random bytes with which the dealer would
  have handed out the very same shares, so all secrets of that length are equally likely.\<close>
theorem shares_reveal_nothing:
  assumes "split sha256 rng secret threshold n = Ok r" and "known \<subseteq> set (sp_shares r)" and "card known = unat threshold - 1"
    and "length other = length secret"
  shows "\<exists>!rng'. length rng' = length other * (unat threshold - 1) \<and>
    (\<exists>r'. split sha256 rng' other threshold n = Ok r' \<and> known \<subseteq> set (sp_shares r'))"
proof -
  let ?t = "unat threshold"
  note dealt = dealt_unique [OF assms(1) subsetD [OF assms(2)]]
  have fin: "finite known" using assms(2) finite_subset by blast
  have inj: "inj_on sh_index known" using dealt by (metis inj_onI)
  obtain xs where xs: "set xs = sh_index ` known" "distinct xs" using finite_distinct_list [of "sh_index ` known"] fin by blast
  then have "length xs = ?t - 1" using inj assms(3) by (metis card_image distinct_card)
  moreover have "0 \<notin> set xs" using xs(1) dealt by auto
  ultimately have unique: "\<exists>!rng'. length rng' = length other * (?t - 1) \<and>
      (\<forall>x\<in>set xs. dealt_data ?t rng' other x = dealt_data ?t rng secret x)"
    using xs(2) assms(4) by (intro stream_secret) (simp_all add: dealt_data_def)
  obtain r0 where r0: "split sha256 rng' other threshold n = Ok (r0 rng')" for rng'
  proof
    fix rng'
    show "split sha256 rng' other threshold n = Ok (case split sha256 rng' other threshold n of Ok r \<Rightarrow> r)"
      using assms(1) by (auto simp: split_def Let_def split: if_splits)
  qed
  have "(\<exists>r'. split sha256 rng' other threshold n = Ok r' \<and> known \<subseteq> set (sp_shares r')) \<longleftrightarrow>
      (\<forall>x\<in>set xs. dealt_data ?t rng' other x = dealt_data ?t rng secret x)" for rng'
  proof -
    have "(\<exists>r'. split sha256 rng' other threshold n = Ok r' \<and> known \<subseteq> set (sp_shares r')) \<longleftrightarrow>
        (\<forall>s\<in>known. \<exists>r'. split sha256 rng' other threshold n = Ok r' \<and> s \<in> set (sp_shares r'))"
      unfolding r0 by auto
    also have "\<dots> \<longleftrightarrow> (\<forall>s\<in>known. sh_data s = dealt_data ?t rng' other (sh_index s))"
      using split_reaches [OF assms(1)] assms(2) by (meson subsetD)
    also have "\<dots> \<longleftrightarrow> (\<forall>x\<in>set xs. dealt_data ?t rng' other x = dealt_data ?t rng secret x)"
      unfolding xs(1) using dealt by (auto; metis Share.select_convs(2))
    finally show ?thesis .
  qed
  with unique show ?thesis by presburger
qed

theorem shares_reveal_nothing_witness:
  "\<exists>r. split (\<lambda>_. []) [7] [42] 2 3 = Ok r \<and>
     (\<exists>!rng'. length rng' = 1 \<and> (\<exists>r'. split (\<lambda>_. []) rng' [99] 2 3 = Ok r' \<and> {sp_shares r ! 1} \<subseteq> set (sp_shares r')))"
proof -
  obtain r where r: "split (\<lambda>_. []) [7] [42] 2 3 = Ok r"
    by (simp add: split_def MAX_SHARES_def Let_def)
  then have "sp_shares r ! 1 \<in> set (sp_shares r)" by (intro nth_mem) (simp add: split_Ok_iff upt_rec)
  with shares_reveal_nothing [OF r, of "{sp_shares r ! 1}" "[99]"] r show ?thesis by simp
qed

section \<open>The commitment tree\<close>

lemma trailing_zeros_power [simp]: "trailing_zeros (2 ^ k) = k"
  by (induction k) (simp_all add: trailing_zeros.simps)

lemma ceil_log2_ge: "n \<le> 2 ^ ceil_log2 n"
proof (induction n rule: ceil_log2.induct)
  case (1 n)
  then show ?case by (subst ceil_log2.simps) auto
qed

lemma ceil_log2_max [simp]: "ceil_log2 (max n 1) = ceil_log2 n"
  by (cases n) (simp_all add: ceil_log2.simps max_def)

lemma length_set_leaves [simp]: "length (set_leaves sha256 i ss tree) = length tree"
  by (induction ss arbitrary: i tree) simp_all

lemma nth_set_leaves:
  "i + length ss \<le> length tree \<Longrightarrow> set_leaves sha256 i ss tree ! k =
     (if i \<le> k \<and> k < i + length ss then leaf_digest sha256 (ss ! (k - i)) else tree ! k)"
  by (induction ss arbitrary: i tree) (auto simp: nth_list_update nth_Cons' Suc_le_eq)

lemma length_build_nodes [simp]: "length (build_nodes sha256 i tree) = length tree"
  by (induction i arbitrary: tree) simp_all

lemma build_nodes_above: "i < k \<Longrightarrow> build_nodes sha256 i tree ! k = tree ! k"
  by (induction i arbitrary: tree) simp_all

lemma build_nodes_node:
  "2 * i + 1 < length tree \<Longrightarrow> 1 \<le> k \<Longrightarrow> k \<le> i \<Longrightarrow>
     build_nodes sha256 i tree ! k = node_digest sha256 (build_nodes sha256 i tree ! (2 * k)) (build_nodes sha256 i tree ! (2 * k + 1))"
proof (induction i arbitrary: tree)
  case (Suc i)
  show ?case
  proof (cases "k = Suc i")
    case True
    then show ?thesis using Suc.prems by (simp add: build_nodes_above)
  qed (use Suc in simp)
qed simp

text \<open>The bytes hashed when a tree is built and when a share is checked: a hash function with 32-byte
  digests has collisions, so what the check shows is stated with these.\<close>

definition node_inputs :: "bytes list \<Rightarrow> nat \<Rightarrow> bytes set" where
  "node_inputs tree depth = (\<lambda>k. [NODE_PREFIX] @ tree ! (2 * k) @ tree ! (2 * k + 1)) ` {1..<2 ^ depth}"

definition node_input :: "nat \<Rightarrow> bytes \<Rightarrow> ProofStep \<Rightarrow> bytes" where
  "node_input position digest step =
     [NODE_PREFIX] @ (if even position then digest @ ps_sibling step else ps_sibling step @ digest)"

fun path_inputs :: "digest \<Rightarrow> nat \<Rightarrow> bytes \<Rightarrow> ProofStep list \<Rightarrow> bytes set" where
  "path_inputs sha256 position digest [] = {}"
| "path_inputs sha256 position digest (step # steps) =
     insert (node_input position digest step) (path_inputs sha256 (position div 2) (sha256 (node_input position digest step)) steps)"

text \<open>What the tree of a split holds at each position, as one interface for the two directions of
  the check.\<close>

locale merkle_tree =
  fixes sha256 :: digest and tree :: "bytes list" and depth :: nat and shares :: "Share list"
  assumes node: "1 \<le> k \<Longrightarrow> k < 2 ^ depth \<Longrightarrow> tree ! k = node_digest sha256 (tree ! (2 * k)) (tree ! (2 * k + 1))"
    and leaf: "i < length shares \<Longrightarrow> tree ! (2 ^ depth + i) = leaf_digest sha256 (shares ! i)"
    and fits: "length shares \<le> 2 ^ depth"
begin

lemma path_up:
  "k \<le> depth \<Longrightarrow> position < 2 ^ k \<Longrightarrow>
     length (proof_loop tree (2 ^ k + position)) = k \<and>
     verify_loop sha256 position (tree ! (2 ^ k + position)) (proof_loop tree (2 ^ k + position)) = tree ! 1"
proof (induction k arbitrary: position)
  case 0
  then show ?case by (simp add: proof_loop.simps)
next
  case (Suc k)
  let ?i = "2 ^ Suc k + position" and ?p = "2 ^ k + position div 2"
  have p: "position div 2 < 2 ^ k" "?i div 2 = ?p" using Suc.prems(2) by auto
  have lt: "?p < 2 ^ depth" using p(1) Suc.prems(1) power_increasing [of "Suc k" depth "2 :: nat"] by simp
  have ge: "1 \<le> ?p" using one_le_power [of "2 :: nat" k] by linarith
  have sibling: "(2 * m) XOR 1 = 2 * m + 1" "(2 * m + 1) XOR 1 = 2 * m" for m :: nat
    by (simp_all add: xor_Suc_0_eq)
  have loop: "proof_loop tree ?i = \<lparr>ps_sibling = tree ! (?i XOR 1), ps_current_is_left = even ?i\<rparr> # proof_loop tree ?p"
  proof -
    have "(1 :: nat) \<le> 2 ^ k" by simp
    then have "1 < ?i" unfolding power_Suc by linarith
    then show ?thesis using p(2) by (subst proof_loop.simps) simp
  qed
  have "(if even position then node_digest sha256 (tree ! ?i) (tree ! (?i XOR 1)) else node_digest sha256 (tree ! (?i XOR 1)) (tree ! ?i)) = tree ! ?p"
  proof (cases "even position")
    case True
    then have "?i = 2 * ?p" by (elim evenE) simp
    then show ?thesis using node [OF ge lt] True by (simp only: sibling if_True)
  next
    case False
    then have "?i = 2 * ?p + 1" by (elim oddE) simp
    then show ?thesis using node [OF ge lt] False by (simp only: sibling if_False)
  qed
  note up = this
  show ?case
    unfolding loop verify_loop.simps ProofStep.simps up using Suc.IH [of "position div 2"] p Suc.prems(1) by simp
qed

lemma path_binds:
  assumes len: "\<And>b. length (sha256 b) = 32" "\<And>m. 1 \<le> m \<Longrightarrow> m < 2 ^ Suc depth \<Longrightarrow> length (tree ! m) = 32"
  shows "k \<le> depth \<Longrightarrow> position < 2 ^ k \<Longrightarrow> length steps = k \<Longrightarrow> \<forall>s\<in>set steps. length (ps_sibling s) = 32 \<Longrightarrow> length digest = 32 \<Longrightarrow>
    (\<And>a b. a \<in> node_inputs tree depth \<Longrightarrow> b \<in> path_inputs sha256 position digest steps \<Longrightarrow> sha256 a = sha256 b \<Longrightarrow> a = b) \<Longrightarrow>
    verify_loop sha256 position digest steps = tree ! 1 \<Longrightarrow> digest = tree ! (2 ^ k + position)"
proof (induction k arbitrary: position steps digest)
  case 0
  then show ?case by simp
next
  case (Suc k)
  let ?p = "2 ^ k + position div 2"
  obtain s ss where s: "steps = s # ss" using Suc.prems(3) by (cases steps) auto
  have lt: "1 \<le> ?p" "?p < 2 ^ depth" using Suc.prems(1,2) power_increasing [of "Suc k" depth "2 :: nat"]
    by (auto intro: le_trans [OF one_le_power])
  let ?in = "node_input position digest s"
  have "sha256 ?in = tree ! ?p"
    using Suc.prems s by (intro Suc.IH [of "position div 2" ss]) (auto simp: len node_digest_def node_input_def)
  also have "\<dots> = sha256 ([NODE_PREFIX] @ tree ! (2 * ?p) @ tree ! (2 * ?p + 1))" using node [OF lt] by (simp add: node_digest_def)
  finally have eq: "sha256 ([NODE_PREFIX] @ tree ! (2 * ?p) @ tree ! (2 * ?p + 1)) = sha256 ?in" by (rule sym)
  have "[NODE_PREFIX] @ tree ! (2 * ?p) @ tree ! (2 * ?p + 1) \<in> node_inputs tree depth"
    unfolding node_inputs_def using lt by (intro imageI) simp
  from Suc.prems(6) [OF this _ eq] have "[NODE_PREFIX] @ tree ! (2 * ?p) @ tree ! (2 * ?p + 1) = ?in" by (simp add: s)
  moreover have "length (tree ! (2 * ?p)) = 32" using len(2) [of "2 * ?p"] lt by simp
  ultimately have "digest = tree ! (2 * ?p + position mod 2)"
    using Suc.prems(4,5) s by (cases "even position") (auto simp: node_input_def even_iff_mod_2_eq_zero odd_iff_mod_2_eq_one)
  then show ?case by (simp add: add.commute)
qed

end

lemma tree_of_shares:
  fixes sha256 :: digest and shares :: "Share list"
  defines "c \<equiv> Commitments_new sha256 shares"
  shows "merkle_tree sha256 (cm_tree c) (ceil_log2 (length shares)) shares \<and> cm_leaf_count c = 2 ^ ceil_log2 (length shares) \<and>
    cm_root c = cm_tree c ! 1 \<and> cm_share_count c = length shares"
proof -
  let ?d = "ceil_log2 (length shares)"
  let ?leaves = "set_leaves sha256 (2 ^ ?d) shares (replicate (2 ^ ?d * 2) (replicate 32 0))"
  have tree: "cm_tree c = build_nodes sha256 (2 ^ ?d - 1) ?leaves"
    by (simp only: c_def Commitments_new_def Let_def next_power_of_two_def ceil_log2_max Commitments.select_convs)
  have fits: "length shares \<le> 2 ^ ?d" by (rule ceil_log2_ge)
  have "merkle_tree sha256 (cm_tree c) ?d shares"
  proof
    fix k :: nat
    assume "1 \<le> k" "k < 2 ^ ?d"
    then show "cm_tree c ! k = node_digest sha256 (cm_tree c ! (2 * k)) (cm_tree c ! (2 * k + 1))"
      unfolding tree using one_le_power [of "2 :: nat" ?d] by (intro build_nodes_node) (simp, linarith+)
  next
    fix i
    assume i: "i < length shares"
    have "2 ^ ?d - 1 < (2 ^ ?d + i :: nat)" using one_le_power [of "2 :: nat" ?d] by linarith
    then show "cm_tree c ! (2 ^ ?d + i) = leaf_digest sha256 (shares ! i)"
      unfolding tree using i fits by (simp add: build_nodes_above nth_set_leaves)
  qed (rule fits)
  then show ?thesis unfolding c_def by (simp only: Commitments_new_def Let_def next_power_of_two_def ceil_log2_max Commitments.select_convs simp_thms)
qed

interpretation dealt: merkle_tree sha256 "cm_tree (Commitments_new sha256 shares)" "ceil_log2 (length shares)" shares
  for sha256 shares
  by (rule conjunct1 [OF tree_of_shares])

lemma digests_of_shares:
  assumes "\<And>b. length (sha256 b) = 32" and "1 \<le> m" and "m < 2 * 2 ^ ceil_log2 (length shares)"
  shows "length (cm_tree (Commitments_new sha256 shares) ! m) = 32"
proof -
  let ?d = "ceil_log2 (length shares)" and ?c = "Commitments_new sha256 shares"
  have tree: "cm_tree ?c = build_nodes sha256 (2 ^ ?d - 1) (set_leaves sha256 (2 ^ ?d) shares (replicate (2 ^ ?d * 2) (replicate 32 0)))"
    by (simp only: Commitments_new_def Let_def next_power_of_two_def ceil_log2_max Commitments.select_convs)
  show ?thesis
  proof (cases "m < 2 ^ ?d")
    case True
    then show ?thesis using dealt.node [OF assms(2), of shares sha256] assms(1) by (simp add: node_digest_def)
  next
    case False
    moreover have "2 ^ ?d - 1 < m" using False assms(2) by linarith
    ultimately show ?thesis
      using assms(1,3) ceil_log2_ge [of "length shares"] unfolding tree by (simp add: build_nodes_above nth_set_leaves leaf_digest_def)
  qed
qed

definition leaf_input :: "Share \<Rightarrow> bytes" where
  "leaf_input share = [LEAF_PREFIX, sh_index share] @ sh_data share"

definition tree_inputs :: "Share list \<Rightarrow> Commitments \<Rightarrow> bytes set" where
  "tree_inputs shares c = leaf_input ` set shares \<union> node_inputs (cm_tree c) (ceil_log2 (length shares))"

definition check_inputs :: "digest \<Rightarrow> Share \<Rightarrow> ProofStep list \<Rightarrow> bytes set" where
  "check_inputs sha256 share steps =
     insert (leaf_input share) (path_inputs sha256 (unat (sh_index share) - 1) (leaf_digest sha256 share) steps)"

text \<open>A share is exactly the one committed to: every dealt share passes the check with the
  tree's own proof, and a share that passes it with any proof whatever is a dealt one, unless the
  bytes hashed for the check collide with the bytes hashed for the tree. The digest is any function
  with 32-byte results.\<close>

lemma commitment_binds:
  assumes "split sha256 rng secret threshold n = Ok r" and "\<forall>b. length (sha256 b) = 32"
    and "\<forall>s\<in>set steps. length (ps_sibling s) = 32"
    and "\<forall>a\<in>tree_inputs (sp_shares r) (sp_commitments r). \<forall>b\<in>check_inputs sha256 share steps. sha256 a = sha256 b \<longrightarrow> a = b"
  shows "(\<forall>s\<in>set (sp_shares r). Commitments_verify_share sha256 (sp_commitments r) s) \<and>
    (verify_share sha256 share (cm_root (sp_commitments r)) steps (cm_share_count (sp_commitments r)) \<longrightarrow> share \<in> set (sp_shares r))"
proof -
  let ?ss = "sp_shares r" and ?c = "sp_commitments r"
  let ?d = "ceil_log2 (length ?ss)"
  have c: "?c = Commitments_new sha256 ?ss" using assms(1) by (simp add: split_Ok_iff)
  have tree: "cm_leaf_count ?c = 2 ^ ?d" "cm_root ?c = cm_tree ?c ! 1" "cm_share_count ?c = length ?ss"
    using tree_of_shares [of sha256 ?ss] unfolding c by simp_all
  have fits: "length ?ss \<le> 2 ^ ?d" by (rule ceil_log2_ge)
  have at: "unat (sh_index (?ss ! i)) = Suc i" if "i < length ?ss" for i
  proof -
    have "unat n \<le> 250" "length ?ss = unat n" using assms(1) by (auto simp: split_Ok_iff MAX_SHARES_def word_le_nat_alt)
    then have "unat (of_nat (Suc i) :: u8) = Suc i" using that by (simp only: unat_of_nat) simp
    moreover have "sh_index (?ss ! i) = of_nat (Suc i)" using assms(1) that by (simp add: split_Ok_iff del: upt_Suc)
    ultimately show ?thesis by simp
  qed
  have "Commitments_verify_share sha256 ?c (?ss ! i)" if i: "i < length ?ss" for i
  proof -
    have pos: "sh_index (?ss ! i) \<noteq> 0" "unat (sh_index (?ss ! i)) - 1 = i" using at [OF i] by (auto simp: unat_eq_0)
    have "i < 2 ^ ?d" using i fits by simp
    from dealt.path_up [OF le_refl this, of sha256] show ?thesis
      unfolding c [symmetric] using pos at [OF i] i dealt.leaf [OF i, of sha256, folded c]
      by (simp add: Commitments_verify_share_def merkle_proof_def verify_share_def tree next_power_of_two_def Let_def)
  qed
  moreover have "share \<in> set ?ss" if v: "verify_share sha256 share (cm_root ?c) steps (cm_share_count ?c)"
  proof -
    let ?i = "unat (sh_index share) - 1"
    have sv: "sh_index share \<noteq> 0" "unat (sh_index share) \<le> length ?ss" "length steps = ?d"
        "verify_loop sha256 ?i (leaf_digest sha256 share) steps = cm_tree ?c ! 1"
      using v by (simp_all add: verify_share_def tree next_power_of_two_def Let_def not_less split: if_splits)
    have "0 < unat (sh_index share)" using sv(1) by (simp add: unat_gt_0)
    with sv(2) have i: "?i < length ?ss" by linarith
    have "leaf_digest sha256 share = cm_tree ?c ! (2 ^ ?d + ?i)"
      unfolding c
    proof (rule dealt.path_binds [OF _ _ le_refl _ sv(3) assms(3) _ _ sv(4) [unfolded c]])
      show "length (sha256 b) = 32" for b using assms(2) by simp
      show "length (cm_tree (Commitments_new sha256 ?ss) ! m) = 32" if "1 \<le> m" "m < 2 ^ Suc ?d" for m
        using that assms(2) by (intro digests_of_shares) simp_all
      show "?i < 2 ^ ?d" using i fits by simp
      show "length (leaf_digest sha256 share) = 32" using assms(2) by (simp add: leaf_digest_def)
      show "a = b" if "a \<in> node_inputs (cm_tree (Commitments_new sha256 ?ss)) ?d" "b \<in> path_inputs sha256 ?i (leaf_digest sha256 share) steps" "sha256 a = sha256 b" for a b
        using that assms(4) unfolding c by (auto simp: tree_inputs_def check_inputs_def)
    qed
    also have "\<dots> = leaf_digest sha256 (?ss ! ?i)" unfolding c by (rule dealt.leaf [OF i])
    finally have "sha256 (leaf_input (?ss ! ?i)) = sha256 (leaf_input share)" by (simp add: leaf_digest_def leaf_input_def)
    moreover have "leaf_input (?ss ! ?i) \<in> tree_inputs ?ss ?c" "leaf_input share \<in> check_inputs sha256 share steps"
      using i by (auto simp: tree_inputs_def check_inputs_def)
    ultimately have "leaf_input (?ss ! ?i) = leaf_input share" using assms(4) by blast
    then have "share = ?ss ! ?i" by (cases share; cases "?ss ! ?i") (simp add: leaf_input_def)
    then show ?thesis using i by (metis nth_mem)
  qed
  ultimately show ?thesis by (auto simp: in_set_conv_nth)
qed

definition sum_digest :: digest where
  "sum_digest b = replicate 31 0 @ [sum_list b]"

end
