(* ===== verification/Parsing.thy ===== *)
theory Parsing
  imports Utf8
begin

text \<open>
  The text routines of Rust's standard library the server's parsers use: splitting at a character,
  decimal numbers, and that a number that was printed is read back.
\<close>

section \<open>Splitting and numbers\<close>

text \<open>\<open>str::split\<close>, \<open>str::split_once\<close> and \<open>u32::from_str\<close>.\<close>

fun split_on :: "char \<Rightarrow> string \<Rightarrow> string list" where
  "split_on d [] = [[]]"
| "split_on d (c # s) = (if c = d then [] # split_on d s else (case split_on d s of p # ps \<Rightarrow> (c # p) # ps | [] \<Rightarrow> [[c]]))"

lemma split_on_not_Nil: "split_on d s \<noteq> []"
  by (induction s) (auto split: list.splits)

definition split_once :: "char \<Rightarrow> string \<Rightarrow> (string \<times> string) option" where
  "split_once d s = (if d \<in> set s then Some (takeWhile (\<lambda>c. c \<noteq> d) s, tl (dropWhile (\<lambda>c. c \<noteq> d) s)) else None)"

fun parse_digits :: "nat \<Rightarrow> string \<Rightarrow> nat option" where
  "parse_digits acc [] = Some acc"
| "parse_digits acc (c # s) =
     (let n = of_char c :: nat in
      if 48 \<le> n \<and> n \<le> 57 then parse_digits (acc * 10 + (n - 48)) s else None)"

definition parse_u32 :: "string \<Rightarrow> u32 option" where
  "parse_u32 s =
     (let digits = (case s of c # rest \<Rightarrow> if c = CHR ''+'' then rest else s | [] \<Rightarrow> []) in
      if digits = [] then None
      else (case parse_digits 0 digits of
              Some n \<Rightarrow> if n < 2 ^ 32 then Some (of_nat n) else None
            | None \<Rightarrow> None))"

section \<open>What is printed is read back\<close>

lemma split_on_append: "d \<notin> set a \<Longrightarrow> split_on d (a @ d # s) = a # split_on d s"
  by (induction a) auto

lemma split_on_last: "d \<notin> set a \<Longrightarrow> split_on d a = [a]"
  by (induction a) auto

lemma split_once_append: "d \<notin> set a \<Longrightarrow> split_once d (a @ d # s) = Some (a, s)"
  by (induction a) (auto simp: split_once_def)

lemma parse_digits_append:
  "parse_digits acc (s @ [c]) = (case parse_digits acc s of Some n \<Rightarrow>
     (if 48 \<le> (of_char c :: nat) \<and> (of_char c :: nat) \<le> 57 then Some (n * 10 + (of_char c - 48)) else None) | None \<Rightarrow> None)"
  by (induction s arbitrary: acc) (auto simp: Let_def)

lemma of_char_digit: "d < 10 \<Longrightarrow> of_char (char_of (48 + d :: nat) :: char) = 48 + (d :: nat)"
  by (simp add: of_char_of)

lemma parse_show_nat: "parse_digits 0 (show_nat n) = Some n"
proof (induction n rule: show_nat.induct)
  case (1 n)
  have d: "n mod 10 < 10" by simp
  show ?case
  proof (cases "n < 10")
    case True
    then show ?thesis using of_char_digit [of n] by (subst show_nat.simps) (simp add: Let_def)
  next
    case False
    then show ?thesis using 1 of_char_digit [OF d] by (subst show_nat.simps) (simp add: parse_digits_append)
  qed
qed

lemma show_nat_digits: "c \<in> set (show_nat n) \<Longrightarrow> 48 \<le> (of_char c :: nat) \<and> (of_char c :: nat) \<le> 57"
proof (induction n rule: show_nat.induct)
  case (1 n)
  have d: "n mod 10 < 10" by simp
  from 1 show ?case
    by (subst (asm) (2) show_nat.simps) (auto simp: of_char_digit [OF d] of_char_digit split: if_splits)
qed

lemma show_nat_not_Nil [simp]: "show_nat n \<noteq> []"
  by (subst show_nat.simps) simp

lemma show_nat_clean: "CHR ''$'' \<notin> set (show_nat n)" "CHR '','' \<notin> set (show_nat n)" "CHR ''='' \<notin> set (show_nat n)" "CHR ''+'' \<notin> set (show_nat n)"
  using show_nat_digits [of _ n] by force+

lemma show_nat_inj: "show_nat m = show_nat n \<Longrightarrow> m = n"
  by (metis option.inject parse_show_nat)

lemma parse_u32_show: "parse_u32 (show_nat (unat (x :: u32))) = Some x"
proof -
  have "unat x < 2 ^ 32" using unsigned_less [of x] by simp
  moreover have "(case show_nat (unat x) of c # rest \<Rightarrow> if c = CHR ''+'' then rest else show_nat (unat x) | [] \<Rightarrow> []) = show_nat (unat x)"
    using show_nat_clean(4) [of "unat x"] by (cases "show_nat (unat x)") auto
  ultimately show ?thesis by (simp add: parse_u32_def parse_show_nat)
qed

end
