(* ===== verification/Scram.thy ===== *)
theory Scram
  imports Policy Parsing
begin

text \<open>
  The login proof (\<open>kdx-crypto/src/scram.rs\<close>): what both ends sign, the client's proof and the server's
  check, and the text a credential is stored as. SHA-256, HMAC and Argon2 are third-party code: a
  record of three functions stands for them, and the theorems ask of it no more than the length of
  its results. What a proof cannot be moved to is therefore stated with the two messages that would
  have to collide.
\<close>

section \<open>Keys\<close>

record crypto =
  cy_sha256 :: "bytes \<Rightarrow> bytes"
  cy_hmac :: "bytes \<Rightarrow> bytes \<Rightarrow> bytes"
  cy_argon2 :: "bytes \<Rightarrow> bytes \<Rightarrow> u32 \<Rightarrow> u32 \<Rightarrow> u32 \<Rightarrow> bytes option"

definition crypto_ok :: "crypto \<Rightarrow> bool" where
  "crypto_ok cy \<longleftrightarrow> (\<forall>x. length (cy_sha256 cy x) = 32) \<and> (\<forall>k x. length (cy_hmac cy k x) = 32)"

definition CHANNEL_BINDING_LEN :: nat where "CHANNEL_BINDING_LEN = 32"
definition SALT_LEN :: nat where "SALT_LEN = 16"
definition DEFAULT_M_COST :: u32 where "DEFAULT_M_COST = 19456"
definition DEFAULT_T_COST :: u32 where "DEFAULT_T_COST = 2"
definition DEFAULT_P_COST :: u32 where "DEFAULT_P_COST = 1"

definition AUTH_MESSAGE_LABEL :: bytes where "AUTH_MESSAGE_LABEL = as_bytes ''KDX-AUTH-v2'' @ [0]"
definition PASSWORD_CHANGE_LABEL :: bytes where "PASSWORD_CHANGE_LABEL = as_bytes ''KDX-PWCHANGE-v1'' @ [0]"
definition DECOY_SALT_LABEL :: bytes where "DECOY_SALT_LABEL = as_bytes ''KDX-decoy-salt-v1'' @ [0]"

datatype scram_error = Kdf crypto_error | Params | MalformedCredential

record Keys =
  ky_client_key :: bytes
  ky_stored_key :: bytes
  ky_server_key :: bytes

definition from_salted_password :: "crypto \<Rightarrow> bytes \<Rightarrow> Keys" where
  "from_salted_password cy salted =
     (let client_key = cy_hmac cy salted (as_bytes ''Client Key'') in
      \<lparr>ky_client_key = client_key, ky_stored_key = cy_sha256 cy client_key,
       ky_server_key = cy_hmac cy salted (as_bytes ''Server Key'')\<rparr>)"

definition derive_with :: "crypto \<Rightarrow> string \<Rightarrow> bytes \<Rightarrow> u32 \<Rightarrow> u32 \<Rightarrow> u32 \<Rightarrow> (StoredCredential, scram_error) result" where
  "derive_with cy password salt m t p =
     (case cy_argon2 cy (as_bytes password) salt m t p of
        None \<Rightarrow> Err Params
      | Some salted \<Rightarrow>
          let keys = from_salted_password cy salted in
          Ok \<lparr>cr_salt = salt, cr_m_cost = m, cr_t_cost = t, cr_p_cost = p,
              cr_stored_key = ky_stored_key keys, cr_server_key = ky_server_key keys\<rparr>)"

definition decoy_salt :: "crypto \<Rightarrow> bytes \<Rightarrow> string \<Rightarrow> bytes" where
  "decoy_salt cy server_secret username = take SALT_LEN (cy_hmac cy server_secret (DECOY_SALT_LABEL @ as_bytes username))"

section \<open>The messages\<close>

record AuthContext =
  ax_username :: string
  ax_challenge :: bytes
  ax_salt :: bytes
  ax_m_cost :: u32
  ax_t_cost :: u32
  ax_p_cost :: u32
  ax_channel_binding :: bytes

definition put_sized :: "bytes \<Rightarrow> bytes" where
  "put_sized b = u32_be (of_nat (length b)) @ b"

definition put_params :: "u32 \<Rightarrow> u32 \<Rightarrow> u32 \<Rightarrow> bytes" where
  "put_params m t p = u32_be m @ u32_be t @ u32_be p"

definition message_with_label :: "bytes \<Rightarrow> AuthContext \<Rightarrow> bytes" where
  "message_with_label label c =
     label @ put_sized (as_bytes (ax_username c)) @ ax_challenge c @ put_sized (ax_salt c) @
     put_params (ax_m_cost c) (ax_t_cost c) (ax_p_cost c) @ ax_channel_binding c"

definition auth_message :: "AuthContext \<Rightarrow> bytes" where
  "auth_message c = message_with_label AUTH_MESSAGE_LABEL c"

definition change_message :: "AuthContext \<Rightarrow> StoredCredential \<Rightarrow> bytes" where
  "change_message current new =
     message_with_label PASSWORD_CHANGE_LABEL current @ put_sized (cr_salt new) @
     put_params (cr_m_cost new) (cr_t_cost new) (cr_p_cost new) @ cr_stored_key new @ cr_server_key new"

section \<open>Proof and check\<close>

record ClientProof =
  cp_proof :: bytes
  cp_server_signature :: bytes

definition verify_server_signature :: "ClientProof \<Rightarrow> bytes \<Rightarrow> bool" where
  "verify_server_signature cp got \<longleftrightarrow> cp_server_signature cp = got"

definition xor_bytes :: "bytes \<Rightarrow> bytes \<Rightarrow> bytes" where
  "xor_bytes a b = map2 (XOR) a b"

definition prove :: "crypto \<Rightarrow> string \<Rightarrow> AuthContext \<Rightarrow> bytes \<Rightarrow> (ClientProof, scram_error) result" where
  "prove cy password c message =
     (case check_bounds (ax_m_cost c) (ax_t_cost c) (ax_p_cost c) (length (ax_salt c)) of
        Err e \<Rightarrow> Err (Kdf e)
      | Panic \<Rightarrow> Panic
      | Ok _ \<Rightarrow>
          (case cy_argon2 cy (as_bytes password) (ax_salt c) (ax_m_cost c) (ax_t_cost c) (ax_p_cost c) of
             None \<Rightarrow> Err Params
           | Some salted \<Rightarrow>
               let keys = from_salted_password cy salted;
                   client_signature = cy_hmac cy (ky_stored_key keys) message
               in Ok \<lparr>cp_proof = xor_bytes (ky_client_key keys) client_signature,
                      cp_server_signature = cy_hmac cy (ky_server_key keys) message\<rparr>))"

definition client_proof :: "crypto \<Rightarrow> string \<Rightarrow> AuthContext \<Rightarrow> (ClientProof, scram_error) result" where
  "client_proof cy password c = prove cy password c (auth_message c)"

definition password_change_proof ::
  "crypto \<Rightarrow> string \<Rightarrow> AuthContext \<Rightarrow> StoredCredential \<Rightarrow> (ClientProof, scram_error) result" where
  "password_change_proof cy current_password current new =
     (case check_acceptable new of
        Err e \<Rightarrow> Err (Kdf e)
      | Panic \<Rightarrow> Panic
      | Ok _ \<Rightarrow> prove cy current_password current (change_message current new))"

definition verify :: "crypto \<Rightarrow> StoredCredential \<Rightarrow> bytes \<Rightarrow> bytes \<Rightarrow> bytes option" where
  "verify cy cred message proof =
     (let client_key = xor_bytes proof (cy_hmac cy (cr_stored_key cred) message) in
      if cy_sha256 cy client_key = cr_stored_key cred then Some (cy_hmac cy (cr_server_key cred) message) else None)"

definition context_for :: "StoredCredential \<Rightarrow> string \<Rightarrow> bytes \<Rightarrow> bytes \<Rightarrow> AuthContext" where
  "context_for cred username challenge channel_binding =
     \<lparr>ax_username = username, ax_challenge = challenge, ax_salt = cr_salt cred, ax_m_cost = cr_m_cost cred,
      ax_t_cost = cr_t_cost cred, ax_p_cost = cr_p_cost cred, ax_channel_binding = channel_binding\<rparr>"

definition verify_proof :: "crypto \<Rightarrow> StoredCredential \<Rightarrow> string \<Rightarrow> bytes \<Rightarrow> bytes \<Rightarrow> bytes \<Rightarrow> bytes option" where
  "verify_proof cy cred username challenge channel_binding proof =
     verify cy cred (auth_message (context_for cred username challenge channel_binding)) proof"

definition verify_password_change_proof ::
  "crypto \<Rightarrow> StoredCredential \<Rightarrow> string \<Rightarrow> bytes \<Rightarrow> bytes \<Rightarrow> StoredCredential \<Rightarrow> bytes \<Rightarrow> bytes option" where
  "verify_password_change_proof cy cred username challenge channel_binding new proof =
     verify cy cred (change_message (context_for cred username challenge channel_binding) new) proof"

definition matches_password :: "crypto \<Rightarrow> StoredCredential \<Rightarrow> string \<Rightarrow> (bool, scram_error) result" where
  "matches_password cy cred password =
     bind_result (derive_with cy password (cr_salt cred) (cr_m_cost cred) (cr_t_cost cred) (cr_p_cost cred))
       (\<lambda>candidate. Ok (cr_stored_key candidate = cr_stored_key cred))"

section \<open>The stored form\<close>

definition hex_digit :: "u8 \<Rightarrow> char" where
  "hex_digit n = ''0123456789abcdef'' ! unat n"

definition to_hex :: "bytes \<Rightarrow> string" where
  "to_hex bs = concat (map (\<lambda>b. [hex_digit (drop_bit 4 b), hex_digit (b AND 0x0F)]) bs)"

definition nibble :: "char \<Rightarrow> u8 option" where
  "nibble c = (let n = of_char c :: nat in
     if 48 \<le> n \<and> n \<le> 57 then Some (of_nat (n - 48))
     else if 97 \<le> n \<and> n \<le> 102 then Some (of_nat (n - 97 + 10))
     else if 65 \<le> n \<and> n \<le> 70 then Some (of_nat (n - 65 + 10))
     else None)"

fun hex_pairs :: "string \<Rightarrow> bytes option" where
  "hex_pairs (a # b # s) =
     (case nibble a of None \<Rightarrow> None
      | Some x \<Rightarrow> (case nibble b of None \<Rightarrow> None
         | Some y \<Rightarrow> map_option (\<lambda>rest. (push_bit 4 x OR y) # rest) (hex_pairs s)))"
| "hex_pairs _ = Some []"

definition from_hex :: "string \<Rightarrow> bytes option" where
  "from_hex s = (if length s mod 2 \<noteq> 0 then None else hex_pairs s)"

definition CREDENTIAL_SCHEME :: string where "CREDENTIAL_SCHEME = ''kdx-scram-sha256''"
definition CREDENTIAL_VERSION :: string where "CREDENTIAL_VERSION = ''v=1''"

definition encode :: "StoredCredential \<Rightarrow> string" where
  "encode c =
     ''$'' @ CREDENTIAL_SCHEME @ ''$'' @ CREDENTIAL_VERSION @ ''$m='' @ show_nat (unat (cr_m_cost c)) @
     '',t='' @ show_nat (unat (cr_t_cost c)) @ '',p='' @ show_nat (unat (cr_p_cost c)) @
     ''$'' @ to_hex (cr_salt c) @ ''$'' @ to_hex (cr_stored_key c) @ ''$'' @ to_hex (cr_server_key c)"

fun parse_costs :: "string list \<Rightarrow> u32 option \<times> u32 option \<times> u32 option \<Rightarrow> (u32 option \<times> u32 option \<times> u32 option) option" where
  "parse_costs [] slots = Some slots"
| "parse_costs (kv # kvs) (m, t, p) =
     (case split_once CHR ''='' kv of None \<Rightarrow> None
      | Some (key, val) \<Rightarrow>
          (case parse_u32 val of None \<Rightarrow> None
           | Some v \<Rightarrow>
               if key = ''m'' then (if m = None then parse_costs kvs (Some v, t, p) else None)
               else if key = ''t'' then (if t = None then parse_costs kvs (m, Some v, p) else None)
               else if key = ''p'' then (if p = None then parse_costs kvs (m, t, Some v) else None)
               else None))"

definition key32 :: "string \<Rightarrow> bytes option" where
  "key32 s = (case from_hex s of Some v \<Rightarrow> if length v = 32 then Some v else None | None \<Rightarrow> None)"

definition decode :: "string \<Rightarrow> (StoredCredential, scram_error) result" where
  "decode encoded =
     (case split_on CHR ''$'' encoded of
        [pre, scheme, version, params, salt, stored_key, server_key] \<Rightarrow>
          (if pre \<noteq> [] \<or> scheme \<noteq> CREDENTIAL_SCHEME \<or> version \<noteq> CREDENTIAL_VERSION then Err MalformedCredential
           else case parse_costs (split_on CHR '','' params) (None, None, None) of
             Some (Some m, Some t, Some p) \<Rightarrow>
               (case from_hex salt of
                  Some salt \<Rightarrow>
                    if salt = [] \<or> length salt > MAX_SALT_LEN then Err MalformedCredential
                    else (case (key32 stored_key, key32 server_key) of
                            (Some stored_key, Some server_key) \<Rightarrow>
                              Ok \<lparr>cr_salt = salt, cr_m_cost = m, cr_t_cost = t, cr_p_cost = p,
                                  cr_stored_key = stored_key, cr_server_key = server_key\<rparr>
                          | _ \<Rightarrow> Err MalformedCredential)
                | None \<Rightarrow> Err MalformedCredential)
           | _ \<Rightarrow> Err MalformedCredential)
      | _ \<Rightarrow> Err MalformedCredential)"

section \<open>The stored form is read back\<close>

lemma nibble_hex_digit: "unat n < 16 \<Longrightarrow> nibble (hex_digit n) = Some n"
proof -
  assume "unat n < 16"
  then obtain k :: nat where k: "n = of_nat k" "k < 16" by (metis of_nat_unat ucast_id)
  then have "k = 0 \<or> k = 1 \<or> k = 2 \<or> k = 3 \<or> k = 4 \<or> k = 5 \<or> k = 6 \<or> k = 7 \<or> k = 8 \<or> k = 9 \<or> k = 10 \<or> k = 11 \<or>
      k = 12 \<or> k = 13 \<or> k = 14 \<or> k = 15" by presburger
  then show ?thesis unfolding k(1) by (elim disjE) (simp_all add: hex_digit_def nibble_def Let_def)
qed

lemma low_nibble: "(b :: u8) AND 0x0F = take_bit 4 b"
  by (simp add: take_bit_eq_mask mask_eq_exp_minus_1)

lemma nibble_bounds: "unat (drop_bit 4 b :: u8) < 16" "unat (b AND 0x0F :: u8) < 16"
proof -
  show "unat (drop_bit 4 b) < 16" using unat_u8_less [of b] by (simp add: drop_bit_eq_div unat_div_distrib less_mult_imp_div_less)
  show "unat (b AND 0x0F) < 16" unfolding low_nibble by (simp add: take_bit_eq_mod unat_mod_distrib)
qed

lemma hex_pairs_to_hex: "hex_pairs (to_hex bs) = Some bs"
proof (induction bs)
  case (Cons b bs)
  note lt = nibble_bounds [of b]
  have "push_bit 4 (drop_bit 4 b) OR (b AND 0x0F) = b"
    unfolding low_nibble by (rule bit_word_eqI) (auto simp: bit_simps)
  then show ?case using Cons by (simp add: to_hex_def nibble_hex_digit [OF lt(1)] nibble_hex_digit [OF lt(2)])
qed (simp add: to_hex_def)

lemma length_to_hex: "length (to_hex bs) = 2 * length bs"
  by (induction bs) (simp_all add: to_hex_def)

lemma from_hex_to_hex: "from_hex (to_hex bs) = Some bs"
  by (simp add: from_hex_def length_to_hex hex_pairs_to_hex)

lemma to_hex_clean: "CHR ''$'' \<notin> set (to_hex bs)"
proof
  assume "CHR ''$'' \<in> set (to_hex bs)"
  then obtain n where "CHR ''$'' = hex_digit n" "unat n < 16"
    using nibble_bounds by (auto simp: to_hex_def)
  then have "nibble CHR ''$'' = Some n" using nibble_hex_digit by metis
  then show False by (simp add: nibble_def)
qed

definition credential_wf :: "StoredCredential \<Rightarrow> bool" where
  "credential_wf c \<longleftrightarrow> cr_salt c \<noteq> [] \<and> length (cr_salt c) \<le> MAX_SALT_LEN \<and>
     length (cr_stored_key c) = 32 \<and> length (cr_server_key c) = 32"

lemma decode_encode:
  assumes "credential_wf c"
  shows "decode (encode c) = Ok c"
proof -
  have key: "key32 (to_hex k) = Some k" if "length k = 32" for k
    using that by (simp add: key32_def from_hex_to_hex)
  let ?m = "''m='' @ show_nat (unat (cr_m_cost c))" and ?t = "''t='' @ show_nat (unat (cr_t_cost c))" and ?p = "''p='' @ show_nat (unat (cr_p_cost c))"
  let ?costs = "?m @ CHR '','' # ?t @ CHR '','' # ?p"
  have clean: "CHR ''$'' \<notin> set ?costs" "CHR '','' \<notin> set ?m" "CHR '','' \<notin> set ?t" "CHR '','' \<notin> set ?p"
    using show_nat_clean by auto
  have "encode c = [] @ CHR ''$'' # CREDENTIAL_SCHEME @ CHR ''$'' # CREDENTIAL_VERSION @ CHR ''$'' # ?costs @
      CHR ''$'' # to_hex (cr_salt c) @ CHR ''$'' # to_hex (cr_stored_key c) @ CHR ''$'' # to_hex (cr_server_key c)"
    by (simp add: encode_def)
  note enc = this
  have fixed: "CHR ''$'' \<notin> set []" "CHR ''$'' \<notin> set CREDENTIAL_SCHEME" "CHR ''$'' \<notin> set CREDENTIAL_VERSION"
    by (simp_all add: CREDENTIAL_SCHEME_def CREDENTIAL_VERSION_def)
  have parts: "split_on CHR ''$'' (encode c) = [[], CREDENTIAL_SCHEME, CREDENTIAL_VERSION, ?costs, to_hex (cr_salt c),
      to_hex (cr_stored_key c), to_hex (cr_server_key c)]"
    unfolding enc by (simp only: split_on_append [OF fixed(1)] split_on_append [OF fixed(2)] split_on_append [OF fixed(3)]
      split_on_append [OF clean(1)] split_on_append [OF to_hex_clean] split_on_last [OF to_hex_clean])
  have kv: "split_once CHR ''='' (k @ CHR ''='' # s) = Some (k, s)" if "CHR ''='' \<notin> set k" for k s
    using that by (rule split_once_append)
  have "split_on CHR '','' ?costs = [?m, ?t, ?p]"
    by (simp only: split_on_append [OF clean(2)] split_on_append [OF clean(3)] split_on_last [OF clean(4)])
  moreover have "parse_costs [?m, ?t, ?p] (None, None, None) = Some (Some (cr_m_cost c), Some (cr_t_cost c), Some (cr_p_cost c))"
    using kv [of "''m''"] kv [of "''t''"] kv [of "''p''"] by (simp add: parse_u32_show)
  ultimately show ?thesis
    using assms by (simp add: decode_def parts from_hex_to_hex key credential_wf_def)
qed

text \<open>A stored credential is read back unchanged, so the row of an account determines the
  credential its logins are checked against.\<close>

lemma credential_round_trip:
  assumes "credential_wf c"
  shows "decode (encode c) = Ok c"
  using assms by (rule decode_encode)

definition sample_credential :: StoredCredential where
  "sample_credential = \<lparr>cr_salt = [1, 2, 255], cr_m_cost = 19456, cr_t_cost = 2, cr_p_cost = 1,
     cr_stored_key = replicate 32 0xAB, cr_server_key = replicate 32 9\<rparr>"

section \<open>What is signed\<close>

definition context_ok :: "AuthContext \<Rightarrow> bool" where
  "context_ok c \<longleftrightarrow> length (ax_username c) < 2 ^ 32 \<and> length (ax_challenge c) = 32 \<and> length (ax_salt c) < 2 ^ 32 \<and>
     length (ax_channel_binding c) = CHANNEL_BINDING_LEN"

lemma put_sized_inj:
  assumes "put_sized a @ x = put_sized b @ y" "length a < 2 ^ 32" "length b < 2 ^ 32"
  shows "a = b \<and> x = y"
proof -
  have "u32_be (of_nat (length a)) = u32_be (of_nat (length b))" "a @ x = b @ y"
    using assms(1) by (simp_all add: put_sized_def)
  then have "(of_nat (length a) :: u32) = of_nat (length b)" by simp
  then have "unat (of_nat (length a) :: u32) = unat (of_nat (length b) :: u32)" by simp
  then have "length a = length b" using assms(2,3) by (simp add: unat_of_nat take_bit_nat_eq_self)
  with \<open>a @ x = b @ y\<close> show ?thesis by simp
qed

lemma put_params_inj: "put_params m t p @ x = put_params m' t' p' @ y \<longleftrightarrow> m = m' \<and> t = t' \<and> p = p' \<and> x = y"
  by (auto simp: put_params_def)

lemma message_with_label_inj:
  assumes "message_with_label l c @ x = message_with_label l c' @ y" "context_ok c" "context_ok c'" "AuthContext.more c = AuthContext.more c'"
  shows "c = c' \<and> x = y"
proof -
  let ?tail = "\<lambda>c. put_params (ax_m_cost c) (ax_t_cost c) (ax_p_cost c) @ ax_channel_binding c"
  from assms(1) have "put_sized (as_bytes (ax_username c)) @ ax_challenge c @ put_sized (ax_salt c) @ ?tail c @ x =
      put_sized (as_bytes (ax_username c')) @ ax_challenge c' @ put_sized (ax_salt c') @ ?tail c' @ y"
    by (simp add: message_with_label_def)
  then have u: "as_bytes (ax_username c) = as_bytes (ax_username c')" and
      "ax_challenge c @ put_sized (ax_salt c) @ ?tail c @ x = ax_challenge c' @ put_sized (ax_salt c') @ ?tail c' @ y"
    using assms(2,3) by (auto dest!: put_sized_inj simp: context_ok_def)
  then have ch: "ax_challenge c = ax_challenge c'" and "put_sized (ax_salt c) @ ?tail c @ x = put_sized (ax_salt c') @ ?tail c' @ y"
    using assms(2,3) by (auto simp: context_ok_def)
  then have s: "ax_salt c = ax_salt c'" and "?tail c @ x = ?tail c' @ y"
    using assms(2,3) by (auto dest!: put_sized_inj simp: context_ok_def)
  then have "ax_m_cost c = ax_m_cost c'" "ax_t_cost c = ax_t_cost c'" "ax_p_cost c = ax_p_cost c'"
      "ax_channel_binding c @ x = ax_channel_binding c' @ y" by (simp_all add: put_params_inj)
  with u ch s assms(2-) show ?thesis by (simp add: context_ok_def)
qed

lemma auth_message_inj:
  "auth_message c = auth_message c' \<Longrightarrow> context_ok c \<Longrightarrow> context_ok c' \<Longrightarrow> (c :: AuthContext) = c'"
  using message_with_label_inj [of AUTH_MESSAGE_LABEL c "[]" c' "[]"] by (simp add: auth_message_def)

lemma labels_differ: "auth_message c \<noteq> change_message c' new"
proof
  assume "auth_message c = change_message c' new"
  then have "auth_message c ! 4 = change_message c' new ! 4" by simp
  then show False
    by (simp add: auth_message_def change_message_def message_with_label_def AUTH_MESSAGE_LABEL_def PASSWORD_CHANGE_LABEL_def
        as_bytes_def nth_append)
qed

section \<open>Logging in\<close>

lemma xor_bytes_cancel: "length a = length b \<Longrightarrow> xor_bytes (xor_bytes a b) b = a"
  unfolding xor_bytes_def by (induction a b rule: list_induct2) (simp_all add: xor.assoc)

lemma xor_bytes_commute: "xor_bytes a b = xor_bytes b a"
  unfolding xor_bytes_def by (induction a arbitrary: b) (auto simp: zip_Cons1 xor.commute split: list.splits)

lemma length_xor_bytes [simp]: "length (xor_bytes a b) = min (length a) (length b)"
  by (simp add: xor_bytes_def)

lemma prove_Ok:
  assumes "prove cy pw c msg = Ok cp"
  obtains salted where "cy_argon2 cy (as_bytes pw) (ax_salt c) (ax_m_cost c) (ax_t_cost c) (ax_p_cost c) = Some salted"
    and "cp_proof cp = xor_bytes (ky_client_key (from_salted_password cy salted)) (cy_hmac cy (ky_stored_key (from_salted_password cy salted)) msg)"
    and "cp_server_signature cp = cy_hmac cy (ky_server_key (from_salted_password cy salted)) msg"
  using assms by (auto simp: prove_def Let_def split: result.splits option.splits)

lemma derive_with_Ok:
  assumes "derive_with cy pw salt m t p = Ok cred"
  obtains salted where "cy_argon2 cy (as_bytes pw) salt m t p = Some salted" and "cr_salt cred = salt" "cr_m_cost cred = m"
    "cr_t_cost cred = t" "cr_p_cost cred = p" and "cr_stored_key cred = ky_stored_key (from_salted_password cy salted)"
    "cr_server_key cred = ky_server_key (from_salted_password cy salted)"
  using assms by (auto simp: derive_with_def Let_def split: option.splits)

lemma keys_length: "crypto_ok cy \<Longrightarrow> length (ky_client_key (from_salted_password cy s)) = 32 \<and>
    ky_stored_key (from_salted_password cy s) = cy_sha256 cy (ky_client_key (from_salted_password cy s))"
  by (simp add: from_salted_password_def crypto_ok_def Let_def)

lemma verify_own_proof:
  assumes "crypto_ok cy" and "derive_with cy pw (ax_salt c) (ax_m_cost c) (ax_t_cost c) (ax_p_cost c) = Ok cred"
    and "prove cy pw c msg = Ok cp"
  shows "verify cy cred msg (cp_proof cp) = Some (cp_server_signature cp)"
proof -
  obtain salted where s: "cy_argon2 cy (as_bytes pw) (ax_salt c) (ax_m_cost c) (ax_t_cost c) (ax_p_cost c) = Some salted"
      "cp_proof cp = xor_bytes (ky_client_key (from_salted_password cy salted)) (cy_hmac cy (ky_stored_key (from_salted_password cy salted)) msg)"
      "cp_server_signature cp = cy_hmac cy (ky_server_key (from_salted_password cy salted)) msg"
    by (rule prove_Ok [OF assms(3)])
  obtain salted' where d: "cy_argon2 cy (as_bytes pw) (ax_salt c) (ax_m_cost c) (ax_t_cost c) (ax_p_cost c) = Some salted'"
      "cr_stored_key cred = ky_stored_key (from_salted_password cy salted')" "cr_server_key cred = ky_server_key (from_salted_password cy salted')"
    by (rule derive_with_Ok [OF assms(2)])
  have same: "salted' = salted" using s(1) d(1) by simp
  have "xor_bytes (cp_proof cp) (cy_hmac cy (cr_stored_key cred) msg) = ky_client_key (from_salted_password cy salted)"
    unfolding s(2) d(2) same using keys_length [OF assms(1)] assms(1) by (intro xor_bytes_cancel) (simp add: crypto_ok_def)
  then show ?thesis using keys_length [OF assms(1)] d same s(3) by (simp add: verify_def)
qed

text \<open>Property C21. The right password logs in and authenticates the server: the proof a client computes
  for a challenge is accepted by the credential derived from the same password, the server's answer
  is the signature the client expects, and the same holds for a change of password.\<close>
theorem right_password_accepted:
  assumes "crypto_ok cy" and "derive_with cy password salt m t p = Ok cred"
  shows "(\<forall>cp. client_proof cy password (context_for cred username challenge binding) = Ok cp \<longrightarrow>
      (\<exists>signature. verify_proof cy cred username challenge binding (cp_proof cp) = Some signature \<and> verify_server_signature cp signature)) \<and>
    (\<forall>new cp. password_change_proof cy password (context_for cred username challenge binding) new = Ok cp \<longrightarrow>
      (\<exists>signature. verify_password_change_proof cy cred username challenge binding new (cp_proof cp) = Some signature \<and>
         verify_server_signature cp signature)) \<and>
    matches_password cy cred password = Ok True"
proof -
  let ?c = "context_for cred username challenge binding"
  obtain salted where d: "cr_salt cred = salt" "cr_m_cost cred = m" "cr_t_cost cred = t" "cr_p_cost cred = p"
    by (rule derive_with_Ok [OF assms(2)])
  then have derived: "derive_with cy password (ax_salt ?c) (ax_m_cost ?c) (ax_t_cost ?c) (ax_p_cost ?c) = Ok cred"
    using assms(2) by (simp add: context_for_def)
  have "\<exists>sig. verify_proof cy cred username challenge binding (cp_proof cp) = Some sig \<and> verify_server_signature cp sig"
    if "client_proof cy password ?c = Ok cp" for cp
    using verify_own_proof [OF assms(1) derived] that by (simp add: client_proof_def verify_proof_def verify_server_signature_def)
  moreover have "\<exists>sig. verify_password_change_proof cy cred username challenge binding new (cp_proof cp) = Some sig \<and> verify_server_signature cp sig"
    if "password_change_proof cy password ?c new = Ok cp" for new cp
    using verify_own_proof [OF assms(1) derived] that
    by (auto simp: password_change_proof_def verify_password_change_proof_def verify_server_signature_def split: result.splits)
  moreover have "matches_password cy cred password = Ok True"
    using assms(2) d by (simp add: matches_password_def)
  ultimately show ?thesis by blast
qed

definition toy_crypto :: crypto where
  "toy_crypto = \<lparr>cy_sha256 = \<lambda>x. replicate 31 0 @ [sum_list x], cy_hmac = \<lambda>k x. replicate 31 1 @ [sum_list k + sum_list x],
     cy_argon2 = \<lambda>pw salt m t p. Some (replicate 31 0 @ [sum_list pw + sum_list salt])\<rparr>"

theorem right_password_accepted_witness:
  "\<exists>cred cp signature. derive_with toy_crypto ''secret'' (replicate 16 7) 19456 2 1 = Ok cred \<and>
     client_proof toy_crypto ''secret'' (context_for cred ''ann'' (replicate 32 1) (replicate 32 2)) = Ok cp \<and>
     verify_proof toy_crypto cred ''ann'' (replicate 32 1) (replicate 32 2) (cp_proof cp) = Some signature \<and>
     verify_server_signature cp signature"
proof -
  have ok: "crypto_ok toy_crypto" by (simp add: crypto_ok_def toy_crypto_def)
  obtain cred where cred: "derive_with toy_crypto ''secret'' (replicate 16 7) 19456 2 1 = Ok cred"
    by (simp add: derive_with_def toy_crypto_def Let_def)
  then have c: "cr_salt cred = replicate 16 7" "cr_m_cost cred = 19456" "cr_t_cost cred = 2" "cr_p_cost cred = 1"
    by (auto elim: derive_with_Ok)
  obtain cp where cp: "client_proof toy_crypto ''secret'' (context_for cred ''ann'' (replicate 32 1) (replicate 32 2)) = Ok cp"
    by (simp add: client_proof_def prove_def check_bounds_def context_for_def c MIN_M_COST_def MAX_M_COST_def MIN_T_COST_def
        MAX_T_COST_def MIN_P_COST_def MAX_P_COST_def MIN_SALT_LEN_def MAX_SALT_LEN_def toy_crypto_def Let_def)
  from right_password_accepted [OF ok cred, of "''ann''" "replicate 32 1" "replicate 32 2"] cp cred show ?thesis by blast
qed

text \<open>Property C22. A login proof is good for one user name, one challenge and one TLS channel: if a
  server accepts it in any other context, then HMAC collides on the two messages of those contexts
  or SHA-256 on the two client keys. It is never accepted as proof for a change of password,
  with the same exception.\<close>
theorem proof_bound_to_channel:
  assumes "crypto_ok cy" and "client_proof cy password c = Ok cp" and "context_ok c"
    and "derive_with cy password (ax_salt c) (ax_m_cost c) (ax_t_cost c) (ax_p_cost c) = Ok cred"
    and "(\<exists>username challenge binding. message = auth_message (context_for cred username challenge binding) \<and>
        context_ok (context_for cred username challenge binding) \<and>
        (username, challenge, binding) \<noteq> (ax_username c, ax_challenge c, ax_channel_binding c)) \<or>
      (\<exists>current new. message = change_message current new)"
    and "verify cy cred message (cp_proof cp) = Some signature"
  shows "auth_message c \<noteq> message \<and>
    (cy_hmac cy (cr_stored_key cred) (auth_message c) = cy_hmac cy (cr_stored_key cred) message \<or>
     (\<exists>key. key \<noteq> xor_bytes (cp_proof cp) (cy_hmac cy (cr_stored_key cred) message) \<and>
        key = xor_bytes (cp_proof cp) (cy_hmac cy (cr_stored_key cred) (auth_message c)) \<and>
        cy_sha256 cy key = cy_sha256 cy (xor_bytes (cp_proof cp) (cy_hmac cy (cr_stored_key cred) message))))"
proof -
  let ?k = "\<lambda>m. xor_bytes (cp_proof cp) (cy_hmac cy (cr_stored_key cred) m)"
  have "auth_message c \<noteq> message"
  proof
    assume eq: "auth_message c = message"
    then obtain username challenge binding where m: "message = auth_message (context_for cred username challenge binding)"
        "context_ok (context_for cred username challenge binding)"
        "(username, challenge, binding) \<noteq> (ax_username c, ax_challenge c, ax_channel_binding c)"
      using assms(5) labels_differ by blast
    then have "c = context_for cred username challenge binding" using eq assms(3) auth_message_inj by blast
    with m(3) show False by (simp add: context_for_def)
  qed
  moreover have "cy_sha256 cy (?k message) = cr_stored_key cred"
    using assms(6) by (simp add: verify_def Let_def split: if_splits)
  moreover have "cy_sha256 cy (?k (auth_message c)) = cr_stored_key cred"
  proof -
    have "verify cy cred (auth_message c) (cp_proof cp) = Some (cp_server_signature cp)"
      using assms(2) by (intro verify_own_proof [OF assms(1,4)]) (simp add: client_proof_def)
    then show ?thesis by (simp add: verify_def Let_def split: if_splits)
  qed
  moreover have "cy_hmac cy (cr_stored_key cred) (auth_message c) = cy_hmac cy (cr_stored_key cred) message"
    if "?k (auth_message c) = ?k message"
  proof -
    have len: "length (cp_proof cp) = 32" "\<And>m. length (cy_hmac cy (cr_stored_key cred) m) = 32"
      using assms(1,2) keys_length [OF assms(1)] by (auto simp: client_proof_def crypto_ok_def elim!: prove_Ok)
    have "xor_bytes (?k m) (cp_proof cp) = cy_hmac cy (cr_stored_key cred) m" for m
      using xor_bytes_cancel [of "cy_hmac cy (cr_stored_key cred) m" "cp_proof cp"] len by (simp add: xor_bytes_commute)
    with that show ?thesis by metis
  qed
  ultimately show ?thesis by metis
qed

theorem proof_bound_to_channel_witness:
  "\<exists>cred cp. derive_with toy_crypto ''secret'' (replicate 16 7) 19456 2 1 = Ok cred \<and>
     client_proof toy_crypto ''secret'' (context_for cred ''ann'' (2 # replicate 31 1) (replicate 32 2)) = Ok cp \<and>
     auth_message (context_for cred ''ann'' (2 # replicate 31 1) (replicate 32 2)) \<noteq>
       auth_message (context_for cred ''ann'' (replicate 31 1 @ [2]) (replicate 32 2))"
proof -
  have ok: "crypto_ok toy_crypto" by (simp add: crypto_ok_def toy_crypto_def)
  obtain cred where cred: "derive_with toy_crypto ''secret'' (replicate 16 7) 19456 2 1 = Ok cred"
    by (simp add: derive_with_def toy_crypto_def Let_def)
  then have c: "cr_salt cred = replicate 16 7" "cr_m_cost cred = 19456" "cr_t_cost cred = 2" "cr_p_cost cred = 1"
    by (auto elim: derive_with_Ok)
  let ?c = "context_for cred ''ann'' (2 # replicate 31 1) (replicate 32 2)" and ?c' = "context_for cred ''ann'' (replicate 31 1 @ [2]) (replicate 32 2)"
  obtain cp where cp: "client_proof toy_crypto ''secret'' ?c = Ok cp"
    by (simp add: client_proof_def prove_def check_bounds_def context_for_def c MIN_M_COST_def MAX_M_COST_def MIN_T_COST_def
        MAX_T_COST_def MIN_P_COST_def MAX_P_COST_def MIN_SALT_LEN_def MAX_SALT_LEN_def toy_crypto_def Let_def)
  have derived: "derive_with toy_crypto ''secret'' (ax_salt ?c) (ax_m_cost ?c) (ax_t_cost ?c) (ax_p_cost ?c) = Ok cred"
    using cred c by (simp add: context_for_def)
  have "sum_list (auth_message ?c) = sum_list (auth_message ?c')"
    by (simp add: auth_message_def message_with_label_def context_for_def)
  then have "cy_hmac toy_crypto k (auth_message ?c) = cy_hmac toy_crypto k (auth_message ?c')" for k
    by (simp add: toy_crypto_def)
  then have "verify toy_crypto cred (auth_message ?c') (cp_proof cp) = verify toy_crypto cred (auth_message ?c) (cp_proof cp)"
    by (simp add: verify_def)
  also have "\<dots> = Some (cp_server_signature cp)"
    using verify_own_proof [OF ok derived] cp by (simp add: client_proof_def)
  finally have v: "verify toy_crypto cred (auth_message ?c') (cp_proof cp) = Some (cp_server_signature cp)" .
  have ctx: "context_ok ?c" "context_ok ?c'" by (simp_all add: context_ok_def context_for_def c CHANNEL_BINDING_LEN_def)
  have "(''ann'', replicate 31 1 @ [2], replicate 32 2) \<noteq> (ax_username ?c, ax_challenge ?c, ax_channel_binding ?c)"
    by (simp add: context_for_def eval_nat_numeral)
  with proof_bound_to_channel [OF ok cp ctx(1) derived _ v] ctx(2) have "auth_message ?c \<noteq> auth_message ?c'" by blast
  with cred cp show ?thesis by blast
qed

end
