(* ===== verification/Ip_Rules.thy ===== *)
theory Ip_Rules
  imports Bans Limiter
begin

text \<open>
  Address rules (\<open>kdx-server-core/src/ip_rules.rs\<close>, \<open>kdx-storage/src/ip_rules.rs\<close>) and the requests
  that change them (\<open>connection.rs\<close>). The table holds CIDR texts; a cache of compiled rules answers
  at every accept. Networks are the crate \<open>ipnet\<close>'s: a record of its functions is a parameter, as are
  the textual forms of addresses; what the code relies on is \<open>net_laws\<close>. Shown: the cache always
  decides as the table does, first match in priority order, and a changed rule set reaches the
  sessions that are already connected.
\<close>

section \<open>Networks\<close>

record 'net net_ops =
  ni_parse :: "string \<Rightarrow> 'net option"
  ni_show :: "'net \<Rightarrow> string"
  ni_trunc :: "'net \<Rightarrow> 'net"
  ni_contains :: "'net \<Rightarrow> IpAddr \<Rightarrow> bool"
  ni_v6 :: "'net \<Rightarrow> (nat \<times> IpAddr) option"
  ni_v4net :: "u32 \<Rightarrow> nat \<Rightarrow> 'net option"
  ni_socket :: "string \<Rightarrow> IpAddr option"
  ni_addr :: "string \<Rightarrow> IpAddr option"

text \<open>\<open>Ipv6Addr::to_ipv4_mapped\<close> and \<open>IpAddr::to_canonical\<close>.\<close>

definition to_ipv4_mapped :: "IpAddr \<Rightarrow> u32 option" where
  "to_ipv4_mapped ip =
     (case ip of
        V4 _ \<Rightarrow> None
      | V6 a b c d e f g h \<Rightarrow>
          if a = 0 \<and> b = 0 \<and> c = 0 \<and> d = 0 \<and> e = 0 \<and> f = 0xFFFF
          then Some (push_bit 16 (ucast g) OR ucast h) else None)"

definition to_canonical :: "IpAddr \<Rightarrow> IpAddr" where
  "to_canonical ip = (case to_ipv4_mapped ip of Some a \<Rightarrow> V4 a | None \<Rightarrow> ip)"

definition canonical_net :: "'net net_ops \<Rightarrow> 'net \<Rightarrow> 'net" where
  "canonical_net ni net =
     (case ni_v6 ni net of
        Some (prefix_len, network) \<Rightarrow>
          if prefix_len \<ge> 96
          then (case to_ipv4_mapped network of
                  Some v4 \<Rightarrow> (case ni_v4net ni v4 (prefix_len - 96) of Some v4net \<Rightarrow> ni_trunc ni v4net | None \<Rightarrow> ni_trunc ni net)
                | None \<Rightarrow> ni_trunc ni net)
          else ni_trunc ni net
      | None \<Rightarrow> ni_trunc ni net)"

definition parse_peer_ip :: "'net net_ops \<Rightarrow> string \<Rightarrow> IpAddr option" where
  "parse_peer_ip ni address =
     map_option to_canonical (case ni_socket ni address of Some ip \<Rightarrow> Some ip | None \<Rightarrow> ni_addr ni address)"

section \<open>The rules\<close>

datatype Action = Allow | Deny

datatype IpRuleError = InvalidCidr string | InvalidAction string | Storage storage_error

fun Action_as_str :: "Action \<Rightarrow> string" where
  "Action_as_str Allow = ''allow''"
| "Action_as_str Deny = ''deny''"

definition Action_parse :: "string \<Rightarrow> (Action, IpRuleError) result" where
  "Action_parse s = (if s = ''allow'' then Ok Allow else if s = ''deny'' then Ok Deny else Err (InvalidAction s))"

datatype Verdict = Admitted | Denied_by string

record IpRuleRow =
  ir_id :: string
  ir_position :: int
  ir_action :: string
  ir_cidr :: string
  ir_note :: string
  ir_created_by :: string
  ir_created_at :: int

record 'net Compiled =
  co_net :: 'net
  co_action :: Action
  co_note :: string

record 'net IpRuleManager =
  im_rows :: "IpRuleRow list"
  im_cache :: "'net Compiled list"

text \<open>The statements of \<open>kdx-storage\<close>; rows of equal position and time stay in the order of insertion.\<close>

definition rules_insert :: "IpRuleRow list \<Rightarrow> IpRuleRow \<Rightarrow> IpRuleRow list" where
  "rules_insert rows row = rows @ [row]"

definition rules_delete :: "IpRuleRow list \<Rightarrow> string \<Rightarrow> (IpRuleRow list, storage_error) result" where
  "rules_delete rows i =
     (if \<exists>r\<in>set rows. ir_id r = i then Ok (filter (\<lambda>r. ir_id r \<noteq> i) rows) else Err NotFound)"

definition rules_list :: "IpRuleRow list \<Rightarrow> IpRuleRow list" where
  "rules_list rows = sort_key (\<lambda>r. (ir_position r, ir_created_at r)) rows"

fun compile_rows :: "'net net_ops \<Rightarrow> IpRuleRow list \<Rightarrow> ('net Compiled list, IpRuleError) result" where
  "compile_rows ni [] = Ok []"
| "compile_rows ni (row # rows) =
     (case ni_parse ni (ir_cidr row) of
        None \<Rightarrow> Err (InvalidCidr (ir_cidr row))
      | Some net \<Rightarrow>
          bind_result (Action_parse (ir_action row)) (\<lambda>action.
          bind_result (compile_rows ni rows) (\<lambda>compiled.
          Ok (\<lparr>co_net = canonical_net ni net, co_action = action, co_note = ir_note row\<rparr> # compiled))))"

definition reload :: "'net net_ops \<Rightarrow> 'net IpRuleManager \<Rightarrow> (unit, IpRuleError) result \<times> 'net IpRuleManager" where
  "reload ni mgr =
     (case compile_rows ni (rules_list (im_rows mgr)) of
        Ok compiled \<Rightarrow> (Ok (), mgr\<lparr>im_cache := compiled\<rparr>)
      | Err e \<Rightarrow> (Err e, mgr)
      | Panic \<Rightarrow> (Panic, mgr))"

definition rules_load :: "'net net_ops \<Rightarrow> IpRuleRow list \<Rightarrow> ('net IpRuleManager, IpRuleError) result" where
  "rules_load ni rows =
     (case reload ni \<lparr>im_rows = rows, im_cache = []\<rparr> of (Ok _, mgr) \<Rightarrow> Ok mgr | (Err e, _) \<Rightarrow> Err e | (Panic, _) \<Rightarrow> Panic)"

fun first_match :: "'net net_ops \<Rightarrow> IpAddr \<Rightarrow> 'net Compiled list \<Rightarrow> Verdict" where
  "first_match ni ip [] = Admitted"
| "first_match ni ip (rule # rules) =
     (if ni_contains ni (co_net rule) ip
      then (case co_action rule of Allow \<Rightarrow> Admitted | Deny \<Rightarrow> Denied_by (co_note rule))
      else first_match ni ip rules)"

definition match_ip :: "'net net_ops \<Rightarrow> 'net IpRuleManager \<Rightarrow> IpAddr \<Rightarrow> Verdict" where
  "match_ip ni mgr ip = first_match ni (to_canonical ip) (im_cache mgr)"

definition rule_to_wire :: "IpRuleRow \<Rightarrow> (IpRuleEntry, IpRuleError) result" where
  "rule_to_wire r =
     bind_result (Action_parse (ir_action r)) (\<lambda>action.
     Ok \<lparr>IpRuleEntry_id = ir_id r, IpRuleEntry_position = of_int (ir_position r),
         IpRuleEntry_action = Action_as_str action, IpRuleEntry_cidr = ir_cidr r, IpRuleEntry_note = ir_note r,
         IpRuleEntry_created_by = ir_created_by r, IpRuleEntry_created_at = of_int (ir_created_at r)\<rparr>)"

fun rules_wire :: "IpRuleRow list \<Rightarrow> (IpRuleEntry list, IpRuleError) result" where
  "rules_wire [] = Ok []"
| "rules_wire (r # rows) = bind_result (rule_to_wire r) (\<lambda>w. bind_result (rules_wire rows) (\<lambda>ws. Ok (w # ws)))"

definition rule_create ::
  "'net net_ops \<Rightarrow> string \<Rightarrow> 'net IpRuleManager \<Rightarrow> i32 \<Rightarrow> Action \<Rightarrow> string \<Rightarrow> string \<Rightarrow> string \<Rightarrow> u64 \<Rightarrow>
     (string, IpRuleError) result \<times> 'net IpRuleManager" where
  "rule_create ni new_id mgr position action cidr note created_by created_at =
     (case ni_parse ni cidr of
        None \<Rightarrow> (Err (InvalidCidr cidr), mgr)
      | Some parsed \<Rightarrow>
          let row = \<lparr>ir_id = new_id, ir_position = sint position, ir_action = Action_as_str action,
                ir_cidr = ni_show ni (canonical_net ni parsed), ir_note = note, ir_created_by = created_by,
                ir_created_at = sint created_at\<rparr>
          in (case reload ni (mgr\<lparr>im_rows := rules_insert (im_rows mgr) row\<rparr>) of
                (Ok _, mgr) \<Rightarrow> (Ok new_id, mgr) | (Err e, mgr) \<Rightarrow> (Err e, mgr) | (Panic, mgr) \<Rightarrow> (Panic, mgr)))"

definition rule_delete :: "'net net_ops \<Rightarrow> 'net IpRuleManager \<Rightarrow> string \<Rightarrow> (unit, IpRuleError) result \<times> 'net IpRuleManager" where
  "rule_delete ni mgr i =
     (case rules_delete (im_rows mgr) i of
        Err e \<Rightarrow> (Err (Storage e), mgr)
      | Panic \<Rightarrow> (Panic, mgr)
      | Ok rows \<Rightarrow> reload ni (mgr\<lparr>im_rows := rows\<rparr>))"

section \<open>Sessions that are already connected\<close>

definition ADDRESS_DENIED :: string where
  "ADDRESS_DENIED = ''your address is no longer allowed on this server''"

definition denied_users :: "'net net_ops \<Rightarrow> 'net IpRuleManager \<Rightarrow> string \<Rightarrow> PresenceEntry list \<Rightarrow> string list" where
  "denied_users ni mgr exempt es =
     map PresenceEntry_username (filter (\<lambda>e. PresenceEntry_username e \<noteq> exempt \<and>
       (case parse_peer_ip ni (PresenceEntry_address e) of
          None \<Rightarrow> False | Some ip \<Rightarrow> match_ip ni mgr ip \<noteq> Admitted)) es)"

fun disconnect_each :: "nat \<Rightarrow> u64 \<Rightarrow> string \<Rightarrow> string list \<Rightarrow> Roster \<Rightarrow> links \<Rightarrow> Roster \<times> links" where
  "disconnect_each now unix_now reason [] r l = (r, l)"
| "disconnect_each now unix_now reason (u # users) r l =
     (let (_, r, l) = presence_handle now unix_now (PC_Disconnect u reason) r l in
      disconnect_each now unix_now reason users r l)"

text \<open>The \<open>BTreeSet\<close> is the sorted list of its elements.\<close>

definition disconnect_denied ::
  "'net net_ops \<Rightarrow> nat \<Rightarrow> u64 \<Rightarrow> 'net IpRuleManager \<Rightarrow> string \<Rightarrow> string \<Rightarrow> Roster \<Rightarrow> links \<Rightarrow> string list \<times> Roster \<times> links" where
  "disconnect_denied ni now unix_now mgr reason exempt r l =
     (let entries = (case presence_handle now unix_now PC_List r l of (Listed es, _) \<Rightarrow> es | _ \<Rightarrow> []);
          denied = remdups_adj (sort (denied_users ni mgr exempt entries))
      in (denied, disconnect_each now unix_now reason denied r l))"

section \<open>The requests\<close>

definition storage_refusal :: "string \<Rightarrow> string \<Rightarrow> storage_error \<Rightarrow> Refusal" where
  "storage_refusal exists missing e = (case e of AlreadyExists \<Rightarrow> DeniedText exists | _ \<Rightarrow> DeniedText missing)"

definition BAD_ACTION :: string where
  "BAD_ACTION = ''action must be '' @ [CHR 0x27] @ ''allow'' @ [CHR 0x27] @ '' or '' @ [CHR 0x27] @ ''deny'' @ [CHR 0x27]"

fun ip_rule_refusal :: "IpRuleError \<Rightarrow> Refusal" where
  "ip_rule_refusal (InvalidCidr _) = DeniedText ''invalid CIDR (expected e.g. 10.0.0.0/8 or 2001:db8::/32)''"
| "ip_rule_refusal (InvalidAction _) = DeniedText BAD_ACTION"
| "ip_rule_refusal (Storage e) = storage_refusal ''that rule already exists'' ''no such rule'' e"

definition reply_ip_rule_list :: "'net IpRuleManager \<Rightarrow> Outbound" where
  "reply_ip_rule_list mgr =
     (case rules_wire (rules_list (im_rows mgr)) of
        Ok rules \<Rightarrow> \<lparr>ob_packet_type = PacketType.IpRuleListResponse, ob_flags = 0, ob_payload = IpRuleListResponse_encode \<lparr>IpRuleListResponse_rules = rules\<rparr>\<rparr>
      | Err e \<Rightarrow> send_refusal (ip_rule_refusal e)
      | Panic \<Rightarrow> send_error [])"

definition ip_rule_list_request :: "'net IpRuleManager \<Rightarrow> Session \<Rightarrow> Outbound" where
  "ip_rule_list_request mgr session =
     (if \<not> has (s_privileges session) SERVER_ADMIN then send_error ''missing SERVER_ADMIN privilege''
      else reply_ip_rule_list mgr)"

definition enforce_ip_rules ::
  "'net net_ops \<Rightarrow> nat \<Rightarrow> u64 \<Rightarrow> 'net IpRuleManager \<Rightarrow> string \<Rightarrow> server \<Rightarrow> server" where
  "enforce_ip_rules ni now unix_now mgr actor s =
     (let (kicked, r, l) = disconnect_denied ni now unix_now mgr ADDRESS_DENIED actor (sv_roster s) (sv_links s) in
      s\<lparr>sv_roster := r, sv_links := l\<rparr>)"

definition ip_rule_create_request ::
  "'net net_ops \<Rightarrow> nat \<Rightarrow> u64 \<Rightarrow> nat \<Rightarrow> string \<Rightarrow> server \<Rightarrow> 'net IpRuleManager \<Rightarrow> Session \<Rightarrow> IpRuleCreate \<Rightarrow>
     Outbound \<times> server \<times> 'net IpRuleManager" where
  "ip_rule_create_request ni now unix_now ack new_id s mgr session req =
     (if \<not> has (s_privileges session) SERVER_ADMIN then (send_error ''missing SERVER_ADMIN privilege'', s, mgr)
      else case check_len ''note'' (IpRuleCreate_note req) MAX_REASON_LEN of
        Err refusal \<Rightarrow> (send_refusal refusal, s, mgr)
      | Panic \<Rightarrow> (send_error [], s, mgr)
      | Ok _ \<Rightarrow>
        (case Action_parse (IpRuleCreate_action req) of
           Ok action \<Rightarrow>
             (case rule_create ni new_id mgr (IpRuleCreate_position req) action (IpRuleCreate_cidr req)
                (IpRuleCreate_note req) (s_username session) unix_now of
                (Ok _, mgr) \<Rightarrow>
                  let s = enforce_ip_rules ni now unix_now mgr (s_username session) s;
                      s = s\<lparr>sv_log := record_event unix_now ack (sv_log s) unix_now (Some (s_username session)) ''ip_rule_created''
                        (IpRuleCreate_action req @ '' '' @ IpRuleCreate_cidr req)\<rparr>
                  in (reply_ip_rule_list mgr, s, mgr)
              | (Err e, mgr) \<Rightarrow> (send_refusal (ip_rule_refusal e), s, mgr)
              | (Panic, mgr) \<Rightarrow> (send_error [], s, mgr))
         | _ \<Rightarrow> (send_error BAD_ACTION, s, mgr)))"

definition ip_rule_delete_request ::
  "'net net_ops \<Rightarrow> nat \<Rightarrow> u64 \<Rightarrow> nat \<Rightarrow> server \<Rightarrow> 'net IpRuleManager \<Rightarrow> Session \<Rightarrow> string \<Rightarrow>
     Outbound \<times> server \<times> 'net IpRuleManager" where
  "ip_rule_delete_request ni now unix_now ack s mgr session i =
     (if \<not> has (s_privileges session) SERVER_ADMIN then (send_error ''missing SERVER_ADMIN privilege'', s, mgr)
      else case rule_delete ni mgr i of
        (Ok _, mgr) \<Rightarrow>
          let s = enforce_ip_rules ni now unix_now mgr (s_username session) s;
              s = s\<lparr>sv_log := record_event unix_now ack (sv_log s) unix_now (Some (s_username session)) ''ip_rule_deleted'' i\<rparr>
          in (reply_ip_rule_list mgr, s, mgr)
      | (Err e, mgr) \<Rightarrow> (send_refusal (ip_rule_refusal e), s, mgr)
      | (Panic, mgr) \<Rightarrow> (send_error [], s, mgr))"

section \<open>The cache is the table\<close>

text \<open>What the code relies on: a network is printed so that it can be read back, dropping host bits
  changes neither the prefix nor the network, and an IPv4 network is not an IPv6 one.\<close>

definition net_laws :: "'net net_ops \<Rightarrow> bool" where
  "net_laws ni \<longleftrightarrow> (\<forall>n. ni_parse ni (ni_show ni n) = Some n) \<and> (\<forall>n. ni_trunc ni (ni_trunc ni n) = ni_trunc ni n) \<and>
     (\<forall>n. ni_v6 ni (ni_trunc ni n) = ni_v6 ni n) \<and> (\<forall>a p n. ni_v4net ni a p = Some n \<longrightarrow> ni_v6 ni n = None)"

lemma canonical_net_idem: "net_laws ni \<Longrightarrow> canonical_net ni (canonical_net ni n) = canonical_net ni n"
  by (auto simp: net_laws_def canonical_net_def split: option.splits)

definition row_ok :: "'net net_ops \<Rightarrow> IpRuleRow \<Rightarrow> bool" where
  "row_ok ni r \<longleftrightarrow> (ir_action r = ''allow'' \<or> ir_action r = ''deny'') \<and>
     (\<exists>n. ni_parse ni (ir_cidr r) = Some n \<and> canonical_net ni n = n)"

definition row_rule :: "'net net_ops \<Rightarrow> IpRuleRow \<Rightarrow> 'net Compiled" where
  "row_rule ni r = \<lparr>co_net = the (ni_parse ni (ir_cidr r)), co_action = (if ir_action r = ''deny'' then Deny else Allow), co_note = ir_note r\<rparr>"

lemma compile_rows_ok: "\<forall>r\<in>set rows. row_ok ni r \<Longrightarrow> compile_rows ni rows = Ok (map (row_rule ni) rows)"
  by (induction rows) (auto simp: row_ok_def row_rule_def Action_parse_def)

definition rules_ok :: "'net net_ops \<Rightarrow> 'net IpRuleManager \<Rightarrow> bool" where
  "rules_ok ni mgr \<longleftrightarrow> (\<forall>r\<in>set (im_rows mgr). row_ok ni r) \<and> im_cache mgr = map (row_rule ni) (rules_list (im_rows mgr))"

lemma reload_ok:
  assumes "\<forall>r\<in>set (im_rows mgr). row_ok ni r"
  shows "reload ni mgr = (Ok (), mgr\<lparr>im_cache := map (row_rule ni) (rules_list (im_rows mgr))\<rparr>)"
proof -
  have "\<forall>r\<in>set (rules_list (im_rows mgr)). row_ok ni r" using assms by (simp add: rules_list_def)
  then show ?thesis by (simp add: reload_def compile_rows_ok)
qed

text \<open>The decision the documentation promises: the first rule in priority order whose network holds
  the address, and admission when there is none.\<close>

definition row_contains :: "'net net_ops \<Rightarrow> IpAddr \<Rightarrow> IpRuleRow \<Rightarrow> bool" where
  "row_contains ni ip r \<longleftrightarrow> (case ni_parse ni (ir_cidr r) of Some n \<Rightarrow> ni_contains ni n (to_canonical ip) | None \<Rightarrow> False)"

definition decision :: "'net net_ops \<Rightarrow> IpRuleRow list \<Rightarrow> IpAddr \<Rightarrow> Verdict" where
  "decision ni rows ip =
     (case find (row_contains ni ip) (rules_list rows) of
        Some r \<Rightarrow> if ir_action r = ''deny'' then Denied_by (ir_note r) else Admitted
      | None \<Rightarrow> Admitted)"

lemma first_match_rules:
  "\<forall>r\<in>set rows. row_ok ni r \<Longrightarrow> first_match ni (to_canonical ip) (map (row_rule ni) rows) =
     (case find (row_contains ni ip) rows of
        Some r \<Rightarrow> if ir_action r = ''deny'' then Denied_by (ir_note r) else Admitted | None \<Rightarrow> Admitted)"
  by (induction rows) (auto simp: row_ok_def row_rule_def row_contains_def)

lemma match_ip_decision: "rules_ok ni mgr \<Longrightarrow> match_ip ni mgr ip = decision ni (im_rows mgr) ip"
  using first_match_rules [of "rules_list (im_rows mgr)" ni ip] by (simp add: rules_ok_def match_ip_def decision_def rules_list_def)

lemma new_row_ok:
  assumes "net_laws ni"
  shows "row_ok ni \<lparr>ir_id = i, ir_position = p, ir_action = Action_as_str a, ir_cidr = ni_show ni (canonical_net ni n),
     ir_note = note, ir_created_by = c, ir_created_at = t\<rparr>"
  using assms canonical_net_idem [OF assms, of n] by (cases a) (auto simp: row_ok_def net_laws_def)

lemma rule_create_ok:
  assumes "net_laws ni" and "rules_ok ni mgr" and "rule_create ni i mgr position action cidr note by t = (r, mgr')"
  shows "rules_ok ni mgr' \<and> (case r of Ok _ \<Rightarrow> True | Err _ \<Rightarrow> mgr' = mgr | Panic \<Rightarrow> False)"
proof (cases "ni_parse ni cidr")
  case (Some parsed)
  let ?row = "\<lparr>ir_id = i, ir_position = sint position, ir_action = Action_as_str action,
    ir_cidr = ni_show ni (canonical_net ni parsed), ir_note = note, ir_created_by = by, ir_created_at = sint t\<rparr>"
  let ?m = "mgr\<lparr>im_rows := rules_insert (im_rows mgr) ?row\<rparr>"
  have rows: "\<forall>r\<in>set (im_rows ?m). row_ok ni r"
    using assms(2) new_row_ok [OF assms(1)] by (auto simp: rules_insert_def rules_ok_def)
  show ?thesis using assms(3) rows Some by (auto simp: rule_create_def reload_ok [OF rows] rules_ok_def Let_def)
qed (use assms in \<open>auto simp: rule_create_def\<close>)

lemma rule_delete_ok:
  assumes "rules_ok ni mgr" and "rule_delete ni mgr i = (r, mgr')"
  shows "rules_ok ni mgr' \<and> (case r of Ok _ \<Rightarrow> i \<notin> ir_id ` set (im_rows mgr') | Err _ \<Rightarrow> mgr' = mgr | Panic \<Rightarrow> False)"
proof (cases "\<exists>r\<in>set (im_rows mgr). ir_id r = i")
  case True
  let ?m = "mgr\<lparr>im_rows := filter (\<lambda>r. ir_id r \<noteq> i) (im_rows mgr)\<rparr>"
  have rows: "\<forall>r\<in>set (im_rows ?m). row_ok ni r" using assms(1) by (simp add: rules_ok_def)
  show ?thesis using assms(2) rows True by (auto simp: rule_delete_def rules_delete_def reload_ok [OF rows] rules_ok_def)
next
  case False
  then show ?thesis using assms by (auto simp: rule_delete_def rules_delete_def)
qed

section \<open>Who is disconnected\<close>

text \<open>A session whose queue and kill signal still have their receivers.\<close>

definition session_alive :: "links \<Rightarrow> Entry \<Rightarrow> bool" where
  "session_alive l e \<longleftrightarrow> sg_receiver (l_kills l (e_kill e)) \<and> \<not> ch_closed (l_chans l (e_tx e))"

lemma remove_keeps:
  "presence_remove now gone es cs = (es', cs') \<Longrightarrow> distinct (map fst es) \<Longrightarrow> (j, e) \<in> set es \<Longrightarrow> j \<notin> set gone \<Longrightarrow>
     \<not> ch_closed (cs (e_tx e)) \<Longrightarrow> (j, e) \<in> set es'"
proof (induction now gone es cs rule: presence_remove.induct)
  case (2 now i gone es cs)
  show ?case
  proof (cases "map_of es i")
    case (Some f)
    let ?p = "[(None, \<lparr>PresenceChange_entry = to_wire f now, PresenceChange_online = False\<rparr>)]"
    obtain es1 cs1 where b: "presence_broadcast now (remove_key i es) ?p cs = (es1, cs1)" by (metis prod.exhaust)
    have d: "distinct (map fst (remove_key i es))" using "2.prems"(2) by (simp add: remove_key_def distinct_map_filter)
    have mem: "(j, e) \<in> set (remove_key i es)" using "2.prems"(3,4) by (auto simp: remove_key_def)
    have "(j, e) \<in> set es1"
    proof (rule ccontr)
      assume "(j, e) \<notin> set es1"
      from broadcast_drops [OF b mem this] obtain g where g: "(j, g) \<in> set (remove_key i es)" "ch_closed (cs (e_tx g))" by blast
      with mem d have "g = e" by (meson eq_key_imp_eq_value)
      with g(2) "2.prems"(5) show False by simp
    qed
    moreover have "distinct (map fst es1)" using announced_distinct [OF broadcast_announced [OF b] d] .
    moreover have "ch_closed (cs1 (e_tx e)) = ch_closed (cs (e_tx e))" using announced_closed [OF broadcast_announced [OF b]] .
    moreover have "presence_remove now gone es1 cs1 = (es', cs')" using "2.prems"(1) Some b by (simp add: presence_remove.simps)
    ultimately show ?thesis using "2.IH"(2) [OF Some b [symmetric] refl] "2.prems"(4,5) by simp
  qed (use 2 in \<open>simp add: presence_remove.simps\<close>)
qed simp

lemma disconnect_kills:
  assumes "presence_handle now unix_now (PC_Disconnect u reason) r l = (reply, r', l')" and "distinct (map fst (r_entries r))"
    and "(i, e) \<in> set (r_entries r)" and "session_alive l e"
  shows "(i, e) \<in> set (r_entries r')" "distinct (map fst (r_entries r'))" "session_alive l' e"
    "sg_value (l_kills l (e_kill e)) \<noteq> None \<or> e_username e = u \<Longrightarrow> sg_value (l_kills l' (e_kill e)) \<noteq> None"
proof -
  obtain reached dead ks where k: "kill_where (r_entries r) reason (\<lambda>e. e_username e = u) (l_kills l) = (reached, dead, ks)"
    by (metis prod.exhaust)
  obtain es' cs where p: "presence_remove now dead (r_entries r) (l_chans l) = (es', cs)" by (metis prod.exhaust)
  have r: "r' = r\<lparr>r_entries := es'\<rparr>" "l' = \<lparr>l_chans = cs, l_kills = ks\<rparr>"
    using assms(1) by (simp_all add: presence_handle_def Let_def k p)
  let ?xs = "map (\<lambda>(i, e). (i, e_kill e)) (filter (\<lambda>(i, e). e_username e = u) (r_entries r))"
  have "dead = map fst (filter (\<lambda>(i, k). \<not> sg_receiver (l_kills l k)) ?xs)"
    using kill_each_spec [of ?xs reason "l_kills l"] k by (simp add: kill_where_def)
  moreover have "f = e" if "(i, f) \<in> set (r_entries r)" for f using assms(2,3) that by (meson eq_key_imp_eq_value)
  ultimately have "i \<notin> set dead" using assms(4) by (auto simp: session_alive_def)
  then show "(i, e) \<in> set (r_entries r')" using remove_keeps [OF p assms(2,3)] assms(4) r by (simp add: session_alive_def)
  show "distinct (map fst (r_entries r'))" using announced_distinct [OF remove_announced [OF p] assms(2)] r by simp
  have ks: "ks = (\<lambda>k. if (\<exists>(i, e)\<in>set (r_entries r). e_username e = u \<and> e_kill e = k) \<and> sg_receiver (l_kills l k)
      then (l_kills l k)\<lparr>sg_value := Some reason\<rparr> else l_kills l k)"
    using kick_signals [OF assms(1), of u reason "\<lambda>i e. e_username e = u"] r by simp
  show "session_alive l' e"
    using assms(4) announced_closed [OF remove_announced [OF p]] r by (auto simp: session_alive_def ks)
  show "sg_value (l_kills l (e_kill e)) \<noteq> None \<or> e_username e = u \<Longrightarrow> sg_value (l_kills l' (e_kill e)) \<noteq> None"
    using assms(3,4) r by (auto simp: session_alive_def ks)
qed

lemma disconnect_each_kills:
  "disconnect_each now unix_now reason users r l = (r', l') \<Longrightarrow> distinct (map fst (r_entries r)) \<Longrightarrow> (i, e) \<in> set (r_entries r) \<Longrightarrow>
     session_alive l e \<Longrightarrow> sg_value (l_kills l (e_kill e)) \<noteq> None \<or> e_username e \<in> set users \<Longrightarrow>
     sg_value (l_kills l' (e_kill e)) \<noteq> None"
proof (induction now unix_now reason users r l rule: disconnect_each.induct)
  case (2 now unix_now reason u users r l)
  obtain reply r1 l1 where h: "presence_handle now unix_now (PC_Disconnect u reason) r l = (reply, r1, l1)" by (metis prod.exhaust)
  note k = disconnect_kills [OF h "2.prems"(2-4)]
  have "sg_value (l_kills l1 (e_kill e)) \<noteq> None \<or> e_username e \<in> set users" using k(4) "2.prems"(5) by auto
  then show ?case using "2.IH" [OF h [symmetric] refl refl _ k(2,1,3)] "2.prems"(1) h by simp
qed simp

lemma disconnect_denied_kills:
  assumes "disconnect_denied ni now unix_now mgr reason exempt r l = (denied, r', l')" and "distinct (map fst (r_entries r))"
    and "(i, e) \<in> set (r_entries r)" and "session_alive l e" and "e_username e \<noteq> exempt"
    and "parse_peer_ip ni (e_address e) = Some ip" and "match_ip ni mgr ip \<noteq> Admitted"
  shows "sg_value (l_kills l' (e_kill e)) \<noteq> None"
proof -
  let ?es = "sort_key PresenceEntry_username (map (\<lambda>(i, e). to_wire e now) (r_entries r))"
  have d: "disconnect_each now unix_now reason denied r l = (r', l')" "denied = remdups_adj (sort (denied_users ni mgr exempt ?es))"
    using assms(1) by (auto simp: disconnect_denied_def presence_handle_def Let_def)
  have "to_wire e now \<in> set ?es" using assms(3) by force
  then have "e_username e \<in> set denied"
    using assms(5-7) unfolding d(2) denied_users_def by (force simp: to_wire_def)
  then show ?thesis using disconnect_each_kills [OF d(1) assms(2-4)] by simp
qed

datatype ip_request = CreateRule IpRuleCreate string | DeleteRule string

definition ip_step ::
  "'net net_ops \<Rightarrow> nat \<Rightarrow> u64 \<Rightarrow> nat \<Rightarrow> server \<Rightarrow> 'net IpRuleManager \<Rightarrow> Session \<Rightarrow> ip_request \<Rightarrow>
     Outbound \<times> server \<times> 'net IpRuleManager" where
  "ip_step ni now unix_now ack s mgr session req =
     (case req of
        CreateRule create new_id \<Rightarrow> ip_rule_create_request ni now unix_now ack new_id s mgr session create
      | DeleteRule i \<Rightarrow> ip_rule_delete_request ni now unix_now ack s mgr session i)"

lemma enforce_kills:
  assumes "distinct (map fst (r_entries (sv_roster s)))" and "(i, e) \<in> set (r_entries (sv_roster s))"
    and "session_alive (sv_links s) e" and "e_username e \<noteq> actor" and "parse_peer_ip ni (e_address e) = Some ip"
    and "match_ip ni mgr ip \<noteq> Admitted"
  shows "sg_value (l_kills (sv_links (enforce_ip_rules ni now unix_now mgr actor s)) (e_kill e)) \<noteq> None"
proof -
  obtain kicked r l where d: "disconnect_denied ni now unix_now mgr ADDRESS_DENIED actor (sv_roster s) (sv_links s) = (kicked, r, l)"
    by (metis prod.exhaust)
  from disconnect_denied_kills [OF d assms] show ?thesis by (simp add: enforce_ip_rules_def d)
qed

text \<open>What a request did: nothing when it was refused; otherwise the new rules are enforced.\<close>

lemma ip_step_cases:
  assumes "net_laws ni" and "rules_ok ni mgr" and "ip_step ni now unix_now ack s mgr session req = (reply, s', mgr')"
  obtains "s' = s" "mgr' = mgr" "ob_packet_type reply = PacketType.Error"
    | log where "rules_ok ni mgr'" "has (s_privileges session) SERVER_ADMIN"
      "s' = (enforce_ip_rules ni now unix_now mgr' (s_username session) s)\<lparr>sv_log := log\<rparr>"
      "case req of CreateRule c i \<Rightarrow> True | DeleteRule i \<Rightarrow> i \<notin> ir_id ` set (im_rows mgr')"
proof (cases req)
  case (CreateRule c i)
  show thesis
  proof (cases "has (s_privileges session) SERVER_ADMIN \<and> is_ok (check_len ''note'' (IpRuleCreate_note c) MAX_REASON_LEN) \<and>
      is_ok (Action_parse (IpRuleCreate_action c))")
    case True
    then obtain action where ok: "has (s_privileges session) SERVER_ADMIN" "check_len ''note'' (IpRuleCreate_note c) MAX_REASON_LEN = Ok ()"
        "Action_parse (IpRuleCreate_action c) = Ok action" by (auto elim!: is_ok.elims)
    obtain r m where m: "rule_create ni i mgr (IpRuleCreate_position c) action (IpRuleCreate_cidr c) (IpRuleCreate_note c)
        (s_username session) unix_now = (r, m)" by (metis prod.exhaust)
    note rule_create_ok [OF assms(1,2) m]
    with assms(3) CreateRule ok m that show thesis
      by (cases r) (auto simp: ip_step_def ip_rule_create_request_def Let_def)
  next
    case False
    with assms(3) CreateRule that(1) show thesis
      by (auto simp: ip_step_def ip_rule_create_request_def check_len_def Action_parse_def split: if_splits)
  qed
next
  case (DeleteRule i)
  obtain r m where m: "rule_delete ni mgr i = (r, m)" by (metis prod.exhaust)
  note rule_delete_ok [OF assms(2) m]
  with assms(3) DeleteRule m that show thesis
    by (cases r) (auto simp: ip_step_def ip_rule_delete_request_def Let_def split: if_splits)
qed

text \<open>Property C23. Address rules hold for everyone at once. After any request on them the cache decides
  every address as the table does, by the first rule in priority order whose network holds it, and a
  request that was not refused leaves no session of another user, alive and connected from a denied
  address, without its kill signal. Only \<open>SERVER_ADMIN\<close> changes anything, and a deleted rule is gone.\<close>

theorem ip_rules_enforced:
  assumes "net_laws ni" and "rules_ok ni mgr" and "distinct (map fst (r_entries (sv_roster s)))"
    and "ip_step ni now unix_now ack s mgr session req = (reply, s', mgr')"
  shows "rules_ok ni mgr' \<and> (\<forall>ip. match_ip ni mgr' ip = decision ni (im_rows mgr') ip) \<and>
    (mgr' = mgr \<and> s' = s \<and> ob_packet_type reply = PacketType.Error \<or>
     has (s_privileges session) SERVER_ADMIN \<and>
     (\<forall>i e ip. (i, e) \<in> set (r_entries (sv_roster s)) \<and> session_alive (sv_links s) e \<and> e_username e \<noteq> s_username session \<and>
        parse_peer_ip ni (e_address e) = Some ip \<and> decision ni (im_rows mgr') ip \<noteq> Admitted \<longrightarrow>
        sg_value (l_kills (sv_links s') (e_kill e)) \<noteq> None) \<and>
     (\<forall>i. req = DeleteRule i \<longrightarrow> i \<notin> ir_id ` set (im_rows mgr')))"
  using assms(1,2,4)
proof (cases rule: ip_step_cases)
  case 1
  with assms(2) show ?thesis by (simp add: match_ip_decision)
next
  case (2 log)
  have "sg_value (l_kills (sv_links s') (e_kill e)) \<noteq> None"
    if "(i, e) \<in> set (r_entries (sv_roster s))" "session_alive (sv_links s) e" "e_username e \<noteq> s_username session"
      "parse_peer_ip ni (e_address e) = Some ip" "decision ni (im_rows mgr') ip \<noteq> Admitted" for i e ip
    using enforce_kills [OF assms(3) that(1-4), of mgr' now unix_now] that(5) 2(1,3) by (simp add: match_ip_decision)
  with 2 show ?thesis by (auto simp: match_ip_decision)
qed

definition toy_net :: "string net_ops" where
  "toy_net = \<lparr>ni_parse = Some, ni_show = \<lambda>n. n, ni_trunc = \<lambda>n. n,
     ni_contains = \<lambda>n ip. n = ''192.0.2.0/24'' \<and> (case ip of V4 a \<Rightarrow> drop_bit 8 a = 0xC00002 | V6 _ _ _ _ _ _ _ _ \<Rightarrow> False),
     ni_v6 = \<lambda>n. None, ni_v4net = \<lambda>a p. None, ni_socket = \<lambda>s. None,
     ni_addr = \<lambda>s. if s = ''192.0.2.2'' then Some (V4 0xC0000202) else None\<rparr>"

definition deny_lan :: IpRuleCreate where
  "deny_lan = \<lparr>IpRuleCreate_position = 10, IpRuleCreate_action = ''deny'', IpRuleCreate_cidr = ''192.0.2.0/24'', IpRuleCreate_note = ''abuse''\<rparr>"

definition two_online :: server where
  "two_online = banned_server\<lparr>sv_roster := fst bob_joined, sv_links := snd bob_joined\<rparr>"

lemma bob_online:
  "\<exists>e. ([2], e) \<in> set (r_entries (fst bob_joined)) \<and> session_alive (snd bob_joined) e \<and> e_username e = ''bob'' \<and>
     e_address e = ''192.0.2.2'' \<and> e_kill e = 2"
  by (simp add: bob_joined_def ann_joined_def two_links_def presence_handle_def Let_def presence_broadcast.simps
      insert_entry_def remove_key_def change_frames_def send_each_Cons try_send_def session_alive_def)

lemma online_ids: "distinct (map fst (r_entries (fst bob_joined)))"
  by (simp add: bob_joined_def ann_joined_def two_links_def presence_handle_def Let_def presence_broadcast.simps
      insert_entry_def remove_key_def change_frames_def send_each_Cons try_send_def)

theorem ip_rules_enforced_witness:
  "sg_value (l_kills (sv_links (fst (snd (ip_step toy_net 0 0 0 two_online \<lparr>im_rows = [], im_cache = []\<rparr> root_session
     (CreateRule deny_lan ''r1''))))) 2) \<noteq> None"
proof -
  let ?run = "ip_step toy_net 0 0 0 two_online \<lparr>im_rows = [], im_cache = []\<rparr> root_session (CreateRule deny_lan ''r1'')"
  obtain reply s' mgr' where run: "?run = (reply, s', mgr')" by (metis prod.exhaust)
  let ?row = "\<lparr>ir_id = ''r1'', ir_position = 10, ir_action = ''deny'', ir_cidr = ''192.0.2.0/24'', ir_note = ''abuse'',
    ir_created_by = ''root'', ir_created_at = 0\<rparr>"
  have "has Privileges_all SERVER_ADMIN" by code_simp
  then have "im_rows (snd (snd ?run)) = [?row]"
    by (simp add: ip_step_def ip_rule_create_request_def root_session_def deny_lan_def check_len_def MAX_REASON_LEN_def
        Action_parse_def rule_create_def toy_net_def canonical_net_def rules_insert_def reload_def rules_list_def Let_def)
  then have rows: "im_rows mgr' = [?row]" by (simp add: run)
  obtain e where e: "([2], e) \<in> set (r_entries (fst bob_joined))" "session_alive (snd bob_joined) e" "e_username e = ''bob''"
      "e_address e = ''192.0.2.2''" "e_kill e = 2"
    using bob_online by blast
  have laws: "net_laws toy_net" by (simp add: net_laws_def toy_net_def)
  have ok: "rules_ok toy_net \<lparr>im_rows = [], im_cache = []\<rparr>" by (simp add: rules_ok_def rules_list_def)
  have ids: "distinct (map fst (r_entries (sv_roster two_online)))" using online_ids by (simp add: two_online_def)
  have "parse_peer_ip toy_net (e_address e) = Some (V4 0xC0000202)"
    by (simp add: e(4) parse_peer_ip_def toy_net_def to_canonical_def to_ipv4_mapped_def)
  moreover have "decision toy_net (im_rows mgr') (V4 0xC0000202) \<noteq> Admitted"
    unfolding rows by (simp add: decision_def rules_list_def row_contains_def toy_net_def to_canonical_def to_ipv4_mapped_def)
  moreover have "e_username e \<noteq> s_username root_session" by (simp add: e(3) root_session_def)
  moreover have "mgr' \<noteq> \<lparr>im_rows = [], im_cache = []\<rparr>" using rows by auto
  ultimately have "sg_value (l_kills (sv_links s') (e_kill e)) \<noteq> None"
    using ip_rules_enforced [OF laws ok ids run] e(1,2) by (auto simp: two_online_def)
  then show ?thesis by (simp add: run e(5))
qed

end
