(* ===== verification/Auth.thy ===== *)
theory Auth
  imports Scram Ip_Rules Msg_Auth
begin

text \<open>
  Logging in (\<open>kdx-server-core/src/auth/manager.rs\<close>, and from \<open>connection.rs\<close> the login phase, the
  checks of a session that has just joined presence, and the change of one's own password).

  The credential column of \<open>Policy\<close> holds the credential whose text \<open>encode\<close> the database stores;
  reading it decodes that text. Rows of protocol version 1 are converted when the server starts and
  are not represented. Challenges and identifiers are drawn by the caller of the model; a session's
  \<open>expires_at\<close>, which nothing reads, is left out.
\<close>

section \<open>Accounts and credentials\<close>

datatype AuthError = InvalidCredentials | BannedUntil int string | AccountGone | CredentialChanged | Crypto crypto_error
  | InternalError string

type_synonym CredentialStamp = bytes

definition by_username :: "ctx \<Rightarrow> string \<Rightarrow> account_row option" where
  "by_username s username = find (\<lambda>a. a_username a = username) (accounts s)"

definition credential_for :: "account_row \<Rightarrow> StoredCredential option" where
  "credential_for row = (case decode (encode (a_credential row)) of Ok c \<Rightarrow> Some c | _ \<Rightarrow> None)"

definition holds_credential :: "account_row \<Rightarrow> StoredCredential \<Rightarrow> bool" where
  "holds_credential row cred = (case decode (encode (a_credential row)) of Ok c \<Rightarrow> c = cred | _ \<Rightarrow> False)"

definition stamp_of :: "crypto \<Rightarrow> StoredCredential \<Rightarrow> CredentialStamp" where
  "stamp_of cy cred = cy_sha256 cy (as_bytes (encode cred))"

text \<open>\<open>accounts::set_credential\<close> with an expected text: a compare-and-swap.\<close>

definition swap_credential :: "ctx \<Rightarrow> string \<Rightarrow> StoredCredential \<Rightarrow> string \<Rightarrow> bool \<times> ctx" where
  "swap_credential s account_id cred expected =
     (let hit = (\<lambda>a. a_id a = account_id \<and> encode (a_credential a) = expected) in
      (\<exists>a\<in>set (accounts s). hit a, s\<lparr>accounts := map (\<lambda>a. if hit a then a\<lparr>a_credential := cred\<rparr> else a) (accounts s)\<rparr>))"

section \<open>A login\<close>

record LoginSession =
  ls_id :: uuid
  ls_account_id :: string
  ls_username :: string
  ls_class :: BaseClass
  ls_privileges :: Privileges

record ChallengeData =
  cd_challenge :: bytes
  cd_salt :: bytes
  cd_m_cost :: u32
  cd_t_cost :: u32
  cd_p_cost :: u32

record PendingAuth =
  pa_challenge :: bytes
  pa_username :: string
  pa_channel_binding :: bytes
  pa_salt :: bytes
  pa_account :: "(account_row \<times> StoredCredential) option"

record Verified =
  vf_session :: LoginSession
  vf_server_signature :: bytes
  vf_stamp :: CredentialStamp

definition begin_login ::
  "crypto \<Rightarrow> ctx \<Rightarrow> bytes \<Rightarrow> bytes \<Rightarrow> string \<Rightarrow> bytes \<Rightarrow> ChallengeData \<times> PendingAuth" where
  "begin_login cy s decoy_key challenge username channel_binding =
     (let account = (case by_username s username of
            Some row \<Rightarrow> map_option (\<lambda>c. (row, c)) (credential_for row) | None \<Rightarrow> None);
          data = (case account of
            Some (_, c) \<Rightarrow> \<lparr>cd_challenge = challenge, cd_salt = cr_salt c, cd_m_cost = cr_m_cost c, cd_t_cost = cr_t_cost c, cd_p_cost = cr_p_cost c\<rparr>
          | None \<Rightarrow> \<lparr>cd_challenge = challenge, cd_salt = decoy_salt cy decoy_key username, cd_m_cost = DEFAULT_M_COST,
              cd_t_cost = DEFAULT_T_COST, cd_p_cost = DEFAULT_P_COST\<rparr>)
      in (data, \<lparr>pa_challenge = challenge, pa_username = username, pa_channel_binding = channel_binding,
            pa_salt = cd_salt data, pa_account = account\<rparr>))"

definition session_from_row :: "ctx \<Rightarrow> uuid \<Rightarrow> account_row \<Rightarrow> BaseClass \<Rightarrow> LoginSession" where
  "session_from_row s new_id account cls =
     \<lparr>ls_id = new_id, ls_account_id = a_id account, ls_username = a_username account, ls_class = cls,
      ls_privileges = effective_privileges cls (foldl (\<lambda>acc r. acc OR role_privileges_of r) 0 (for_account s (a_id account)))
        (ucast (a_granted account)) (ucast (a_revoked account))\<rparr>"

definition complete_login ::
  "crypto \<Rightarrow> ctx \<Rightarrow> ban_row list \<Rightarrow> int \<Rightarrow> uuid \<Rightarrow> PendingAuth \<Rightarrow> bytes \<Rightarrow> (Verified, AuthError) result" where
  "complete_login cy s bans now new_id pending proof =
     (case pa_account pending of
        None \<Rightarrow> Err InvalidCredentials
      | Some (account, cred) \<Rightarrow>
        (case verify_proof cy cred (pa_username pending) (pa_challenge pending) (pa_channel_binding pending) proof of
           None \<Rightarrow> Err InvalidCredentials
         | Some server_signature \<Rightarrow>
           (case by_username s (pa_username pending) of
              None \<Rightarrow> Err InvalidCredentials
            | Some row \<Rightarrow>
                if \<not> (a_id row = a_id account \<and> holds_credential row cred) then Err InvalidCredentials
                else (case active bans (a_id row) now of
                    Some ban \<Rightarrow> Err (BannedUntil (b_until ban) (b_reason ban))
                  | None \<Rightarrow>
                    (case BaseClass_try_from (nat (a_base_class row mod 256)) of
                       None \<Rightarrow> Err InvalidCredentials
                     | Some cls \<Rightarrow> Ok \<lparr>vf_session = session_from_row s new_id row cls,
                         vf_server_signature = server_signature, vf_stamp = stamp_of cy cred\<rparr>)))))"

definition credential_stamp :: "crypto \<Rightarrow> ctx \<Rightarrow> string \<Rightarrow> string \<Rightarrow> CredentialStamp option" where
  "credential_stamp cy s username account_id =
     (case by_username s username of
        None \<Rightarrow> None
      | Some row \<Rightarrow> if a_id row \<noteq> account_id then None else map_option (stamp_of cy) (credential_for row))"

section \<open>The session table\<close>

type_synonym sessions = "(uuid \<times> LoginSession) list"

definition admit :: "sessions \<Rightarrow> LoginSession \<Rightarrow> nat option \<Rightarrow> sessions option" where
  "admit sessions session cap =
     (if (case cap of Some n \<Rightarrow> length sessions \<ge> n | None \<Rightarrow> False) then None
      else Some (AList.update (ls_id session) session sessions))"

definition end_session :: "sessions \<Rightarrow> uuid \<Rightarrow> sessions" where
  "end_session sessions i = AList.delete i sessions"

definition user_cap_for :: "nat \<Rightarrow> LoginSession \<Rightarrow> nat option" where
  "user_cap_for max_users session =
     (if max_users \<noteq> 0 \<and> \<not> has (ls_privileges session) SERVER_ADMIN then Some max_users else None)"

section \<open>The login phase of a connection\<close>

definition MAX_AUTH_ATTEMPTS :: nat where "MAX_AUTH_ATTEMPTS = 3"

record login_state =
  lg_server :: server
  lg_sessions :: sessions
  lg_limiter :: buckets

record Peer =
  pe_ip :: IpAddr
  pe_addr :: string
  pe_channel_binding :: bytes

datatype connection_error = TooManyAuthAttempts | SendFailed | UnexpectedPacket string PacketType | AuthFault AuthError

datatype auth_phase =
    AwaitRequest nat
  | AwaitResponse nat PendingAuth
  | LoggedIn Verified
  | LoginEnded connection_error

definition auth_result :: "bool \<Rightarrow> bytes \<Rightarrow> u8 \<Rightarrow> u32 \<Rightarrow> string \<Rightarrow> bytes \<Rightarrow> Outbound" where
  "auth_result success i cls privileges message signature =
     \<lparr>ob_packet_type = PacketType.AuthResult, ob_flags = 0, ob_payload = AuthResult_encode
        \<lparr>AuthResult_success = success, AuthResult_session_id = i, AuthResult_class = cls, AuthResult_privileges = privileges,
         AuthResult_message = message, AuthResult_server_signature = signature\<rparr>\<rparr>"

definition send_auth_failure :: "string \<Rightarrow> Outbound" where
  "send_auth_failure message = auth_result False (replicate 16 0) 0 0 message (replicate 32 0)"

definition ban_message :: "int \<Rightarrow> string \<Rightarrow> string" where
  "ban_message until reason =
     (let reason = truncate_utf8 reason MAX_REASON_LEN in
      if reason = [] then ''banned until '' @ show_int until else ''banned until '' @ show_int until @ '': '' @ reason)"

definition record_history :: "u64 \<Rightarrow> login_state \<Rightarrow> string \<Rightarrow> string \<Rightarrow> string \<Rightarrow> login_state" where
  "record_history unix_now st actor action detail =
     st\<lparr>lg_server := (lg_server st)\<lparr>sv_log := snd (record_detached (sv_log (lg_server st)) unix_now (Some actor) action detail)\<rparr>\<rparr>"

definition after_failure :: "nat \<Rightarrow> auth_phase" where
  "after_failure failures = (if failures \<ge> MAX_AUTH_ATTEMPTS then LoginEnded TooManyAuthAttempts else AwaitRequest failures)"

definition auth_request ::
  "nat \<Rightarrow> u64 \<Rightarrow> crypto \<Rightarrow> bytes \<Rightarrow> bytes \<Rightarrow> Peer \<Rightarrow> login_state \<Rightarrow> nat \<Rightarrow> string \<Rightarrow>
     Outbound list \<times> auth_phase \<times> login_state" where
  "auth_request now unix_now cy decoy_key challenge peer st failures username =
     (let shown = truncate_utf8 username MAX_USERNAME_LEN in
      case check now (lg_limiter st) (pe_ip peer) shown of
        Err wait \<Rightarrow>
          ([send_auth_failure (''too many failed login attempts; try again in '' @ show_nat (max 1 (wait div secs 1)) @ ''s'')],
           after_failure (Suc failures), st)
      | Panic \<Rightarrow> ([], LoginEnded TooManyAuthAttempts, st)
      | Ok _ \<Rightarrow>
          if length username > MAX_USERNAME_LEN
          then ([send_auth_failure ''invalid credentials''], after_failure (Suc failures),
                record_history unix_now (st\<lparr>lg_limiter := record_failure now (lg_limiter st) (pe_ip peer) shown\<rparr>) shown
                  ''login_failed'' (''peer='' @ pe_addr peer @ '', username too long''))
          else
            (let (data, pending) = begin_login cy (sv_ctx (lg_server st)) decoy_key challenge username (pe_channel_binding peer) in
             ([\<lparr>ob_packet_type = PacketType.AuthChallenge, ob_flags = 0, ob_payload = AuthChallenge_encode
                 \<lparr>AuthChallenge_challenge = cd_challenge data, AuthChallenge_salt = cd_salt data, AuthChallenge_m_cost = cd_m_cost data,
                  AuthChallenge_t_cost = cd_t_cost data, AuthChallenge_p_cost = cd_p_cost data\<rparr>\<rparr>],
              AwaitResponse failures pending, st)))"

text \<open>\<open>delivered\<close>: whether the result and the greeting went out before the peer or the deadline ended the
  phase; if not, the registration's guard ends the session again.\<close>

definition auth_response ::
  "nat \<Rightarrow> u64 \<Rightarrow> crypto \<Rightarrow> nat \<Rightarrow> string \<Rightarrow> bool \<Rightarrow> uuid \<Rightarrow> Peer \<Rightarrow> login_state \<Rightarrow> nat \<Rightarrow> PendingAuth \<Rightarrow> bytes \<Rightarrow>
     Outbound list \<times> auth_phase \<times> login_state" where
  "auth_response now unix_now cy max_users greeting delivered new_id peer st failures pending response =
     (let s = lg_server st; username = pa_username pending;
          failed = (\<lambda>st. st\<lparr>lg_limiter := record_failure now (lg_limiter st) (pe_ip peer) username\<rparr>) in
      case complete_login cy (sv_ctx s) (sv_bans s) (sint unix_now) new_id pending response of
        Ok verified \<Rightarrow>
          (let session = vf_session verified in
           case admit (lg_sessions st) session (user_cap_for max_users session) of
             None \<Rightarrow> ([send_auth_failure ''server is full''], after_failure (Suc failures), st)
           | Some sessions \<Rightarrow>
               (auth_result True (ls_id session) (of_nat (class_u8 (ls_class session))) (ls_privileges session)
                  (''welcome, '' @ ls_username session) (vf_server_signature verified) #
                (if greeting = [] then [] else [\<lparr>ob_packet_type = PacketType.Info, ob_flags = SYSTEM_MESSAGE, ob_payload = as_bytes greeting\<rparr>]),
                if delivered then LoggedIn verified else LoginEnded SendFailed,
                if \<not> delivered then st\<lparr>lg_sessions := end_session sessions (ls_id session)\<rparr>
                else record_history unix_now (st\<lparr>lg_sessions := sessions, lg_limiter := record_success (lg_limiter st) (pe_ip peer) username\<rparr>)
                  (ls_username session) ''login'' (''peer='' @ pe_addr peer)))
      | Err InvalidCredentials \<Rightarrow>
          ([send_auth_failure ''invalid credentials''], after_failure (Suc failures),
           record_history unix_now (failed st) username ''login_failed'' (''peer='' @ pe_addr peer))
      | Err (BannedUntil until reason) \<Rightarrow>
          ([send_auth_failure (ban_message until reason)], after_failure (Suc failures),
           record_history unix_now (failed st) username ''login_banned''
             (''peer='' @ pe_addr peer @ '', reason='' @ truncate_utf8 reason MAX_REASON_LEN))
      | Err e \<Rightarrow> ([], LoginEnded (AuthFault e), st)
      | Panic \<Rightarrow> ([], LoginEnded TooManyAuthAttempts, st))"

section \<open>A session that has just joined\<close>

definition PASSWORD_CHANGED :: string where
  "PASSWORD_CHANGED = ''your password was changed '' @ str_of_bytes [0xE2, 0x80, 0x94] @ '' please log in again''"

text \<open>The four reads of \<open>stale_login_reason\<close>, in order; others run between them.\<close>

definition stale_account :: "ctx \<Rightarrow> LoginSession \<Rightarrow> string option" where
  "stale_account s session =
     (case account_state s (ls_username session) of
        Some stored \<Rightarrow>
          if as_account_id stored = ls_account_id session \<and> as_class stored = ls_class session \<and> effective stored = ls_privileges session
          then None else Some PRIVILEGES_CHANGED
      | None \<Rightarrow> Some PRIVILEGES_CHANGED)"

definition stale_credential :: "crypto \<Rightarrow> ctx \<Rightarrow> LoginSession \<Rightarrow> CredentialStamp \<Rightarrow> string option" where
  "stale_credential cy s session stamp =
     (if credential_stamp cy s (ls_username session) (ls_account_id session) = Some stamp then None else Some PASSWORD_CHANGED)"

definition stale_ban :: "ban_row list \<Rightarrow> int \<Rightarrow> LoginSession \<Rightarrow> string option" where
  "stale_ban bans now session =
     (case active bans (ls_account_id session) now of None \<Rightarrow> None | Some ban \<Rightarrow> Some (ban_message (b_until ban) (b_reason ban)))"

definition stale_address :: "'net net_ops \<Rightarrow> 'net IpRuleManager \<Rightarrow> string \<Rightarrow> string option" where
  "stale_address ni mgr peer_addr =
     (case parse_peer_ip ni peer_addr of
        None \<Rightarrow> None | Some ip \<Rightarrow> if match_ip ni mgr ip \<noteq> Admitted then Some ADDRESS_DENIED else None)"

definition stale_check ::
  "'net net_ops \<Rightarrow> 'net IpRuleManager \<Rightarrow> string \<Rightarrow> crypto \<Rightarrow> server \<Rightarrow> int \<Rightarrow> Verified \<Rightarrow> nat \<Rightarrow> string option" where
  "stale_check ni mgr peer_addr cy s now v n =
     (let session = vf_session v in
      if n = 0 then stale_account (sv_ctx s) session
      else if n = 1 then stale_credential cy (sv_ctx s) session (vf_stamp v)
      else if n = 2 then stale_ban (sv_bans s) now session
      else stale_address ni mgr peer_addr)"

section \<open>Changing one's own password\<close>

definition PASSWORD_CHANGE_TIMEOUT :: nat where "PASSWORD_CHANGE_TIMEOUT = secs 60"
definition MAX_PASSWORD_CHANGE_FAILURES :: nat where "MAX_PASSWORD_CHANGE_FAILURES = 3"

record PendingPasswordChange =
  pp_challenge :: bytes
  pp_account_id :: string
  pp_username :: string
  pp_channel_binding :: bytes
  pp_credential :: StoredCredential
  pp_stored :: string
  pp_expires_at :: nat

definition begin_password_change ::
  "ctx \<Rightarrow> LoginSession \<Rightarrow> bytes \<Rightarrow> bytes \<Rightarrow> nat \<Rightarrow> (ChallengeData \<times> PendingPasswordChange, AuthError) result" where
  "begin_password_change s session channel_binding challenge now =
     (case by_username s (ls_username session) of
        None \<Rightarrow> Err AccountGone
      | Some row \<Rightarrow>
          if a_id row \<noteq> ls_account_id session then Err AccountGone
          else (case credential_for row of
              None \<Rightarrow> Err (InternalError [])
            | Some cred \<Rightarrow>
                Ok (\<lparr>cd_challenge = challenge, cd_salt = cr_salt cred, cd_m_cost = cr_m_cost cred, cd_t_cost = cr_t_cost cred,
                      cd_p_cost = cr_p_cost cred\<rparr>,
                    \<lparr>pp_challenge = challenge, pp_account_id = a_id row, pp_username = a_username row,
                     pp_channel_binding = channel_binding, pp_credential = cred, pp_stored = encode (a_credential row),
                     pp_expires_at = now + PASSWORD_CHANGE_TIMEOUT\<rparr>)))"

definition complete_password_change ::
  "crypto \<Rightarrow> ctx \<Rightarrow> PendingPasswordChange \<Rightarrow> bytes \<Rightarrow> StoredCredential \<Rightarrow> (bytes, AuthError) result \<times> ctx" where
  "complete_password_change cy s pending proof new =
     (case check_acceptable new of
        Err e \<Rightarrow> (Err (Crypto e), s)
      | Panic \<Rightarrow> (Panic, s)
      | Ok _ \<Rightarrow>
        (case verify_password_change_proof cy (pp_credential pending) (pp_username pending) (pp_challenge pending)
           (pp_channel_binding pending) new proof of
           None \<Rightarrow> (Err InvalidCredentials, s)
         | Some server_signature \<Rightarrow>
             let (stored, s') = swap_credential s (pp_account_id pending) new (pp_stored pending) in
             if \<not> stored then (Err CredentialChanged, s) else (Ok server_signature, s')))"

text \<open>What a connection keeps between the two requests.\<close>

record change_state =
  cg_pending :: "PendingPasswordChange option"
  cg_failures :: nat

definition start_password_change ::
  "nat \<Rightarrow> bytes \<Rightarrow> Peer \<Rightarrow> login_state \<Rightarrow> LoginSession \<Rightarrow> change_state \<Rightarrow> Outbound \<times> change_state" where
  "start_password_change now challenge peer st session conn =
     (let conn = conn\<lparr>cg_pending := None\<rparr> in
      if ls_class session = Guest
      then (send_error (''guest accounts can'' @ [CHR 0x27] @ ''t change their password; ask an administrator''), conn)
      else case check now (lg_limiter st) (pe_ip peer) (ls_username session) of
        Err wait \<Rightarrow>
          (send_error (''too many failed password attempts; try again in '' @ show_nat (max 1 (wait div secs 1)) @ ''s''), conn)
      | Panic \<Rightarrow> (send_error [], conn)
      | Ok _ \<Rightarrow>
        (case begin_password_change (sv_ctx (lg_server st)) session (pe_channel_binding peer) challenge now of
           Ok (data, pending) \<Rightarrow>
             (\<lparr>ob_packet_type = PacketType.PasswordChangeChallenge, ob_flags = 0, ob_payload = PasswordChangeChallenge_encode
                \<lparr>PasswordChangeChallenge_challenge = cd_challenge data, PasswordChangeChallenge_salt = cd_salt data,
                 PasswordChangeChallenge_m_cost = cd_m_cost data, PasswordChangeChallenge_t_cost = cd_t_cost data,
                 PasswordChangeChallenge_p_cost = cd_p_cost data\<rparr>\<rparr>,
              conn\<lparr>cg_pending := Some pending\<rparr>)
         | Err AccountGone \<Rightarrow> (send_error ''your account no longer exists'', conn)
         | _ \<Rightarrow> (send_error ''password change failed: internal server error'', conn)))"

definition change_result :: "bool \<Rightarrow> string \<Rightarrow> bytes \<Rightarrow> Outbound" where
  "change_result success message signature =
     \<lparr>ob_packet_type = PacketType.PasswordChangeResult, ob_flags = 0, ob_payload = PasswordChangeResult_encode
        \<lparr>PasswordChangeResult_success = success, PasswordChangeResult_message = message,
         PasswordChangeResult_server_signature = signature\<rparr>\<rparr>"

text \<open>The reply, whether the connection is to be dropped, and the new states.\<close>

definition finish_password_change ::
  "nat \<Rightarrow> u64 \<Rightarrow> nat \<Rightarrow> crypto \<Rightarrow> Peer \<Rightarrow> login_state \<Rightarrow> LoginSession \<Rightarrow> change_state \<Rightarrow> PasswordChangeProof \<Rightarrow>
     Outbound \<times> bool \<times> change_state \<times> login_state" where
  "finish_password_change now unix_now ack cy peer st session conn msg =
     (let s = lg_server st; taken = conn\<lparr>cg_pending := None\<rparr>; username = ls_username session in
      case cg_pending conn of
        None \<Rightarrow> (send_error ''no password change in progress; start again'', False, conn, st)
      | Some pending \<Rightarrow>
        if now \<ge> pp_expires_at pending then (send_error ''the password change timed out; start again'', False, taken, st)
        else (case credential_from_wire (PasswordChangeProof_credential msg) of
          Err refusal \<Rightarrow> (send_refusal refusal, False, taken, st)
        | Panic \<Rightarrow> (send_error [], False, taken, st)
        | Ok new \<Rightarrow>
          (case complete_password_change cy (sv_ctx s) pending (PasswordChangeProof_proof msg) new of
             (Ok server_signature, db) \<Rightarrow>
               (let limiter = record_success (lg_limiter st) (pe_ip peer) username;
                    (reply, roster, links) = presence_handle now unix_now
                      (PC_DisconnectOthers username (ls_id session) PASSWORD_CHANGED) (sv_roster s) (sv_links s);
                    others = (case reply of Reached n \<Rightarrow> n | _ \<Rightarrow> 0);
                    log = record_event unix_now ack (sv_log s) unix_now (Some username) ''password_changed''
                      (''peer='' @ pe_addr peer @ '', other sessions signed out: '' @ show_nat others);
                    message = (if others = 0 then ''password changed''
                      else ''password changed; '' @ show_nat others @ '' other session(s) signed out'')
                in (change_result True message server_signature, False, taken,
                    st\<lparr>lg_limiter := limiter, lg_server := s\<lparr>sv_ctx := db, sv_roster := roster, sv_links := links, sv_log := log\<rparr>\<rparr>))
           | (Err InvalidCredentials, _) \<Rightarrow>
               (let failures = min 255 (cg_failures conn + 1) in
                (change_result False ''the current password is incorrect'' (replicate 32 0),
                 failures \<ge> MAX_PASSWORD_CHANGE_FAILURES, taken\<lparr>cg_failures := failures\<rparr>,
                 record_history unix_now (st\<lparr>lg_limiter := record_failure now (lg_limiter st) (pe_ip peer) username\<rparr>) username
                   ''password_change_failed'' (''peer='' @ pe_addr peer)))
           | (Err CredentialChanged, _) \<Rightarrow> (send_error ''your password was changed meanwhile; start again'', False, taken, st)
           | (Err AccountGone, _) \<Rightarrow> (send_error ''your account no longer exists'', False, taken, st)
           | _ \<Rightarrow> (send_error ''password change failed: internal server error'', False, taken, st))))"

section \<open>What a login is built from\<close>

lemma credential_for_row: "credential_for row = Some c \<longleftrightarrow> holds_credential row c"
  by (auto simp: credential_for_def holds_credential_def split: result.splits)

lemma credential_stamp_Some:
  "credential_stamp cy s u i = Some stamp \<longleftrightarrow>
     (\<exists>row c. by_username s u = Some row \<and> a_id row = i \<and> holds_credential row c \<and> stamp = stamp_of cy c)"
  by (auto simp: credential_stamp_def credential_for_row split: option.splits)

lemma complete_login_Ok:
  "complete_login cy s bans now i pending proof = Ok v \<longleftrightarrow>
     (\<exists>account cred row cls. pa_account pending = Some (account, cred) \<and>
        verify_proof cy cred (pa_username pending) (pa_challenge pending) (pa_channel_binding pending) proof = Some (vf_server_signature v) \<and>
        by_username s (pa_username pending) = Some row \<and> a_id row = a_id account \<and> holds_credential row cred \<and>
        active bans (a_id row) now = None \<and> BaseClass_try_from (nat (a_base_class row mod 256)) = Some cls \<and>
        vf_session v = session_from_row s i row cls \<and> vf_stamp v = stamp_of cy cred)"
  by (auto simp: complete_login_def split: option.splits if_splits)

text \<open>Property C24. A login is built from what the database holds at the moment the proof is checked,
  not when the challenge went out: it succeeds exactly when the account is still the one challenged,
  still holds the credential the proof was checked with, is not banned and has a valid class; the
  session carries the class and privileges of the row as it is now. Without a proof the answer does
  not depend on bans: an account that exists and one that does not are refused alike.\<close>

theorem login_is_current:
  assumes "begin_login cy s0 decoy_key challenge username binding = (data, pending)"
  shows "(\<forall>v. complete_login cy s bans now i pending proof = Ok v \<longrightarrow>
      (\<exists>row0 row cred cls. by_username s0 username = Some row0 \<and> holds_credential row0 cred \<and>
         verify_proof cy cred username challenge binding proof = Some (vf_server_signature v) \<and>
         by_username s username = Some row \<and> a_id row = a_id row0 \<and> holds_credential row cred \<and>
         active bans (a_id row) now = None \<and> BaseClass_try_from (nat (a_base_class row mod 256)) = Some cls \<and>
         vf_session v = session_from_row s i row cls \<and> ls_username (vf_session v) = username \<and>
         credential_stamp cy s username (a_id row) = Some (vf_stamp v))) \<and>
    ((\<forall>row0 cred. by_username s0 username = Some row0 \<and> holds_credential row0 cred \<longrightarrow>
        verify_proof cy cred username challenge binding proof = None) \<longrightarrow>
      complete_login cy s bans now i pending proof = Err InvalidCredentials)"
proof -
  have p: "pa_challenge pending = challenge" "pa_username pending = username" "pa_channel_binding pending = binding"
      "pa_account pending = (case by_username s0 username of Some row \<Rightarrow> map_option (\<lambda>c. (row, c)) (credential_for row) | None \<Rightarrow> None)"
    using assms by (auto simp: begin_login_def Let_def)
  have "\<exists>row0 row cred cls. by_username s0 username = Some row0 \<and> holds_credential row0 cred \<and>
         verify_proof cy cred username challenge binding proof = Some (vf_server_signature v) \<and>
         by_username s username = Some row \<and> a_id row = a_id row0 \<and> holds_credential row cred \<and>
         active bans (a_id row) now = None \<and> BaseClass_try_from (nat (a_base_class row mod 256)) = Some cls \<and>
         vf_session v = session_from_row s i row cls \<and> ls_username (vf_session v) = username \<and>
         credential_stamp cy s username (a_id row) = Some (vf_stamp v)"
    if ok: "complete_login cy s bans now i pending proof = Ok v" for v
  proof -
    from ok obtain row0 cred row cls where c: "pa_account pending = Some (row0, cred)"
        "verify_proof cy cred username challenge binding proof = Some (vf_server_signature v)"
        "by_username s username = Some row" "a_id row = a_id row0" "holds_credential row cred" "active bans (a_id row) now = None"
        "BaseClass_try_from (nat (a_base_class row mod 256)) = Some cls" "vf_session v = session_from_row s i row cls" "vf_stamp v = stamp_of cy cred"
      unfolding complete_login_Ok p by blast
    have "by_username s0 username = Some row0" "holds_credential row0 cred"
      using c(1) unfolding p(4) by (auto simp flip: credential_for_row split: option.splits)
    moreover have "ls_username (vf_session v) = username"
      using c(3,8) by (auto simp: session_from_row_def by_username_def dest: find_SomeD)
    moreover have "credential_stamp cy s username (a_id row) = Some (vf_stamp v)"
      using c(3,5,9) by (auto simp: credential_stamp_Some)
    ultimately show ?thesis using c by blast
  qed
  moreover have "complete_login cy s bans now i pending proof = Err InvalidCredentials"
    if "\<forall>row0 cred. by_username s0 username = Some row0 \<and> holds_credential row0 cred \<longrightarrow>
        verify_proof cy cred username challenge binding proof = None"
    using that unfolding complete_login_def p by (auto simp flip: credential_for_row split: option.splits)
  ultimately show ?thesis by blast
qed

definition one_account :: "string \<Rightarrow> StoredCredential \<Rightarrow> ctx" where
  "one_account username cred = \<lparr>accounts = [\<lparr>a_id = ''7'', a_username = username, a_credential = cred, a_base_class = 1,
     a_granted = 0, a_revoked = 0\<rparr>], roles = [], account_roles = [], disconnects = []\<rparr>"

theorem login_is_current_witness:
  "\<exists>cred proof v. complete_login toy_crypto (one_account ''ann'' cred) [] 0 [9]
       (snd (begin_login toy_crypto (one_account ''ann'' cred) [] (replicate 32 1) ''ann'' (replicate 32 2))) proof = Ok v \<and>
     ls_username (vf_session v) = ''ann'' \<and> credential_stamp toy_crypto (one_account ''ann'' cred) ''ann'' ''7'' = Some (vf_stamp v)"
proof -
  have ok: "crypto_ok toy_crypto" by (simp add: crypto_ok_def toy_crypto_def)
  obtain cred where cred: "derive_with toy_crypto ''secret'' (replicate 16 7) 19456 2 1 = Ok cred"
    by (simp add: derive_with_def toy_crypto_def Let_def)
  then have c: "cr_salt cred = replicate 16 7" "cr_m_cost cred = 19456" "cr_t_cost cred = 2" "cr_p_cost cred = 1"
    by (auto elim: derive_with_Ok)
  have wf: "credential_wf cred"
    using cred by (auto simp: credential_wf_def derive_with_def toy_crypto_def Let_def from_salted_password_def MAX_SALT_LEN_def)
  let ?c = "context_for cred ''ann'' (replicate 32 1) (replicate 32 2)" and ?db = "one_account ''ann'' cred"
  obtain cp where cp: "client_proof toy_crypto ''secret'' ?c = Ok cp"
    by (simp add: client_proof_def prove_def check_bounds_def context_for_def c MIN_M_COST_def MAX_M_COST_def MIN_T_COST_def
        MAX_T_COST_def MIN_P_COST_def MAX_P_COST_def MIN_SALT_LEN_def MAX_SALT_LEN_def toy_crypto_def Let_def)
  have derived: "derive_with toy_crypto ''secret'' (ax_salt ?c) (ax_m_cost ?c) (ax_t_cost ?c) (ax_p_cost ?c) = Ok cred"
    using cred c by (simp add: context_for_def)
  have v: "verify_proof toy_crypto cred ''ann'' (replicate 32 1) (replicate 32 2) (cp_proof cp) = Some (cp_server_signature cp)"
    unfolding verify_proof_def using cp by (intro verify_own_proof [OF ok derived]) (simp add: client_proof_def)
  obtain data pending where p: "begin_login toy_crypto ?db [] (replicate 32 1) ''ann'' (replicate 32 2) = (data, pending)"
    by (metis prod.exhaust)
  have "pa_account pending = Some (hd (accounts ?db), cred)" "pa_username pending = ''ann''"
      "pa_challenge pending = replicate 32 1" "pa_channel_binding pending = replicate 32 2"
    using p by (auto simp: begin_login_def Let_def by_username_def one_account_def credential_for_def decode_encode [OF wf])
  then have run: "is_ok (complete_login toy_crypto ?db [] 0 [9] pending (cp_proof cp))"
    using v by (simp add: complete_login_def by_username_def one_account_def holds_credential_def decode_encode [OF wf]
        active_def BaseClass_try_from_def)
  then obtain v where ok: "complete_login toy_crypto ?db [] 0 [9] pending (cp_proof cp) = Ok v" by (auto elim: is_ok.elims)
  from conjunct1 [OF login_is_current [OF p, of ?db "[]" 0 "[9]" "cp_proof cp"], rule_format, OF ok]
  obtain row where row: "by_username ?db ''ann'' = Some row" "ls_username (vf_session v) = ''ann''"
      "credential_stamp toy_crypto ?db ''ann'' (a_id row) = Some (vf_stamp v)" by blast
  moreover have "a_id row = ''7''" using row(1) by (auto simp: by_username_def one_account_def)
  ultimately show ?thesis using ok p by (metis snd_conv)
qed

end
