(* ===== verification/File_Names.thy ===== *)
theory File_Names
  imports Policy Parsing
begin

text \<open>
  Names in the virtual file tree (\<open>kdx-server-core/src/files/tree.rs\<close>): which names a client may
  choose, and the variants a blind upload is stored under when its name is taken. Shown: a variant is
  always found, it is free, fits the budget and is a name a client could have chosen.
\<close>

section \<open>Names and paths\<close>

definition MAX_FILE_NAME_LEN :: nat where "MAX_FILE_NAME_LEN = 255"
definition MAX_PATH_LEN :: nat where "MAX_PATH_LEN = 4096"
definition MAX_TREE_DEPTH :: nat where "MAX_TREE_DEPTH = 64"
definition MIN_VARIANT_BUDGET :: nat where "MIN_VARIANT_BUDGET = 48"
definition MAX_EXTENSION_LEN :: nat where "MAX_EXTENSION_LEN = 16"

datatype TreeError =
    PathNotFound | NotAFolder | NotAFile | NameExists | AclRefused AclError | TreeStorage storage_error | CorruptKind int
  | CatalogNotGenerated | WouldCreateCycle | AliasChainRefused | InvalidName string | InvalidPath string | TooDeep

text \<open>\<open>char::is_control\<close> (C0, DEL and C1) and \<open>is_bidi_control\<close>, for the character that starts a byte
  string: the encodings start with a byte no continuation byte equals, so scanning the bytes scans the
  characters.\<close>

definition control_at :: "bytes \<Rightarrow> bool" where
  "control_at bs =
     (case bs of
        [] \<Rightarrow> False
      | a # r \<Rightarrow> a < 0x20 \<or> a = 0x7F \<or> a = 0xC2 \<and> (case r of [] \<Rightarrow> False | b # _ \<Rightarrow> 0x80 \<le> b \<and> b \<le> 0x9F))"

definition bidi_at :: "bytes \<Rightarrow> bool" where
  "bidi_at bs =
     (case bs of
        a # b # r \<Rightarrow>
          a = 0xD8 \<and> b = 0x9C \<or>
          a = 0xE2 \<and> (case r of [] \<Rightarrow> False | c # _ \<Rightarrow>
            b = 0x80 \<and> (c = 0x8E \<or> c = 0x8F \<or> 0xAA \<le> c \<and> c \<le> 0xAE) \<or> b = 0x81 \<and> 0xA6 \<le> c \<and> c \<le> 0xA9)
      | _ \<Rightarrow> False)"

fun name_chars :: "bytes \<Rightarrow> (unit, TreeError) result" where
  "name_chars [] = Ok ()"
| "name_chars (b # bs) =
     (if b = 0x2F then Err (InvalidName (''name contains '' @ [CHR 0x27, CHR ''/'', CHR 0x27]))
      else if control_at (b # bs) then Err (InvalidName ''name contains a control character'')
      else if bidi_at (b # bs) then Err (InvalidName ''name contains a bidi control character'')
      else name_chars bs)"

definition validate_name :: "string \<Rightarrow> (unit, TreeError) result" where
  "validate_name name =
     (if name = [] then Err (InvalidName ''name is empty'')
      else if length name > MAX_FILE_NAME_LEN then Err (InvalidName ''name is too long'')
      else if name = ''.'' \<or> name = ''..'' then Err (InvalidName ''reserved name'')
      else if trim name \<noteq> name then Err (InvalidName ''leading or trailing whitespace'')
      else name_chars (as_bytes name))"

fun any_control :: "bytes \<Rightarrow> bool" where
  "any_control [] = False"
| "any_control (b # bs) = (control_at (b # bs) \<or> any_control bs)"

definition check_path :: "string \<Rightarrow> (unit, TreeError) result" where
  "check_path path =
     (if length path > MAX_PATH_LEN then Err (InvalidPath ''path is too long'')
      else if any_control (as_bytes path) then Err (InvalidPath ''path contains a control character'')
      else Ok ())"

section \<open>Free variants\<close>

text \<open>\<open>str::rfind\<close>: the last index a pattern starts at.\<close>

fun rfind_upto :: "string \<Rightarrow> string \<Rightarrow> nat \<Rightarrow> nat option" where
  "rfind_upto pat s 0 = (if prefix pat s then Some 0 else None)"
| "rfind_upto pat s (Suc i) = (if prefix pat (drop (Suc i) s) then Some (Suc i) else rfind_upto pat s i)"

definition rfind :: "string \<Rightarrow> string \<Rightarrow> nat option" where
  "rfind pat s = rfind_upto pat s (length s)"

definition is_digit :: "char \<Rightarrow> bool" where
  "is_digit c = (let n = of_char c :: nat in 48 \<le> n \<and> n \<le> 57)"

definition digits_value :: "string \<Rightarrow> nat" where
  "digits_value ds = foldl (\<lambda>acc c. acc * 10 + (of_char c - 48)) 0 ds"

definition split_counter :: "string \<Rightarrow> (string \<times> nat) option" where
  "split_counter stem =
     (if stem = [] \<or> last stem \<noteq> CHR '')'' then None
      else let body = butlast stem in
        case rfind '' ('' body of
          None \<Rightarrow> None
        | Some i \<Rightarrow>
            let ds = drop (i + 2) body in
            if i > 0 \<and> 1 \<le> length ds \<and> length ds \<le> 9 \<and> hd ds \<noteq> CHR ''0'' \<and> list_all is_digit ds
            then Some (take i stem, digits_value ds) else None)"

definition split_variant :: "string \<Rightarrow> string \<times> nat \<times> string" where
  "split_variant name =
     (let (stem, ext) = (case rfind ''.'' name of
            Some dot \<Rightarrow> if dot > 0 \<and> dot + 1 < length name \<and> length name - dot \<le> MAX_EXTENSION_LEN
              then (take dot name, drop dot name) else (name, [])
          | None \<Rightarrow> (name, []))
      in case split_counter stem of
           Some (base, k) \<Rightarrow> (base, k, ext)
         | None \<Rightarrow> (stem, 1, ext))"

definition variant :: "string \<Rightarrow> string \<Rightarrow> nat \<Rightarrow> nat \<Rightarrow> string option" where
  "variant stem ext budget n =
     (let suffix = '' ('' @ show_nat n @ '')'' in
      if budget < length suffix + length ext then None
      else let stem = truncate_utf8 stem (budget - (length suffix + length ext)) in
        if stem = [] then None else Some (stem @ suffix @ ext))"

function free_loop :: "string \<Rightarrow> string \<Rightarrow> nat \<Rightarrow> (string \<Rightarrow> bool) \<Rightarrow> nat \<Rightarrow> string option" where
  "free_loop stem ext budget taken n =
     (if n + 1 \<ge> 2 ^ 64 then None
      else case variant stem ext budget (n + 1) of
        None \<Rightarrow> None
      | Some candidate \<Rightarrow> if taken candidate then free_loop stem ext budget taken (n + 1) else Some candidate)"
  by pat_completeness auto
termination by (relation "measure (\<lambda>(_, _, _, _, n). 2 ^ 64 - n)") auto

declare free_loop.simps [simp del]

definition free_name :: "string \<Rightarrow> nat \<Rightarrow> (string \<Rightarrow> bool) \<Rightarrow> string option" where
  "free_name name budget taken =
     (if \<not> taken name then Some name
      else case split_variant name of (stem, n, ext) \<Rightarrow> free_loop stem ext budget taken n)"

section \<open>Names that are cut and put together\<close>

definition bad_at :: "bytes \<Rightarrow> bool" where
  "bad_at bs \<longleftrightarrow> bs \<noteq> [] \<and> hd bs = 0x2F \<or> control_at bs \<or> bidi_at bs"

lemma name_chars_Ok: "name_chars bs = Ok () \<longleftrightarrow> (\<forall>i. \<not> bad_at (drop i bs))"
proof (induction bs)
  case Nil
  then show ?case by (simp add: bad_at_def control_at_def bidi_at_def)
next
  case (Cons b bs)
  have "(\<forall>i. \<not> bad_at (drop i (b # bs))) \<longleftrightarrow> \<not> bad_at (b # bs) \<and> (\<forall>i. \<not> bad_at (drop i bs))"
    by (metis drop0 drop_Suc_Cons not0_implies_Suc)
  then show ?case using Cons by (simp add: bad_at_def)
qed

lemma bad_at_simps:
  "bad_at [] = False"
  "bad_at [a] = (a = 0x2F \<or> a < 0x20 \<or> a = 0x7F)"
  "bad_at [a, b] = (bad_at [a] \<or> a = 0xC2 \<and> 0x80 \<le> b \<and> b \<le> 0x9F \<or> a = 0xD8 \<and> b = 0x9C)"
  "bad_at (a # b # c # r) = (bad_at [a, b] \<or>
     a = 0xE2 \<and> (b = 0x80 \<and> (c = 0x8E \<or> c = 0x8F \<or> 0xAA \<le> c \<and> c \<le> 0xAE) \<or> b = 0x81 \<and> 0xA6 \<le> c \<and> c \<le> 0xA9))"
  by (simp_all add: bad_at_def control_at_def bidi_at_def disj_ac)

lemma short_list_cases:
  obtains "bs = []" | a where "bs = [a]" | a b where "bs = [a, b]" | a b c r where "bs = a # b # c # r"
  by (metis list.exhaust)

lemma bad_at_append: "bad_at bs \<Longrightarrow> bad_at (bs @ cs)"
  by (rule short_list_cases [of bs]; rule short_list_cases [of cs]) (auto simp: bad_at_simps)

lemma bad_at_seam:
  assumes "bs \<noteq> []" and "bad_at (bs @ cs)" and "cs = [] \<or> hd cs < 0x80"
  shows "bad_at bs"
proof -
  have low: "\<not> (0x80 \<le> d)" "d \<noteq> 0x9C" "d \<noteq> 0x80" "d \<noteq> 0x81" "d \<noteq> 0x8E" "d \<noteq> 0x8F" "\<not> 0xAA \<le> d" "\<not> 0xA6 \<le> d" if "d < 0x80" for d :: u8
    using that by (auto simp: word_le_nat_alt word_less_nat_alt)
  show ?thesis
  proof (cases cs)
    case (Cons d ds)
    with assms(3) have "d < 0x80" by simp
    note low = low [OF this]
    show ?thesis
    proof (rule short_list_cases [of bs])
      fix a
      assume "bs = [a]"
      with assms(2) Cons low show ?thesis by (cases ds) (simp_all add: bad_at_simps)
    next
      fix a b
      assume "bs = [a, b]"
      with assms(2) Cons low show ?thesis by (simp add: bad_at_simps)
    qed (use assms in \<open>simp_all add: bad_at_simps\<close>)
  qed (use assms in simp)
qed

lemma name_chars_prefix: "name_chars (a @ b) = Ok () \<Longrightarrow> name_chars a = Ok ()"
proof -
  assume ok: "name_chars (a @ b) = Ok ()"
  have "\<not> bad_at (drop i a)" for i
  proof
    assume bad: "bad_at (drop i a)"
    then have "i < length a" by (cases "i < length a") (simp_all add: bad_at_simps)
    with bad have "bad_at (drop i (a @ b))" by (simp add: bad_at_append)
    with ok show False by (simp add: name_chars_Ok)
  qed
  then show ?thesis by (simp add: name_chars_Ok)
qed

lemma name_chars_suffix: "name_chars (a @ b) = Ok () \<Longrightarrow> name_chars b = Ok ()"
proof -
  assume ok: "name_chars (a @ b) = Ok ()"
  have "\<not> bad_at (drop i b)" for i
    using ok unfolding name_chars_Ok by (metis append_eq_conv_conj drop_drop)
  then show ?thesis by (simp add: name_chars_Ok)
qed

lemma name_chars_append:
  assumes "name_chars a = Ok ()" "name_chars b = Ok ()" "b = [] \<or> hd b < 0x80"
  shows "name_chars (a @ b) = Ok ()"
proof -
  have "\<not> bad_at (drop i (a @ b))" for i
  proof (cases "i < length a")
    case True
    then show ?thesis using bad_at_seam [of "drop i a" b] assms(1,3) by (auto simp: name_chars_Ok)
  next
    case False
    then show ?thesis using assms(2) by (simp add: name_chars_Ok)
  qed
  then show ?thesis by (simp add: name_chars_Ok)
qed

lemma rfind_upto_Some: "rfind_upto pat s n = Some i \<Longrightarrow> i \<le> n \<and> prefix pat (drop i s)"
  by (induction n) (auto split: if_splits)

lemma rfind_Some: "rfind pat s = Some i \<Longrightarrow> i \<le> length s \<and> prefix pat (drop i s)"
  by (auto simp: rfind_def dest: rfind_upto_Some)

lemma digits_value_bound: "digits_value ds < 10 ^ length ds" if "list_all is_digit ds"
  using that
proof (induction ds rule: rev_induct)
  case (snoc d ds)
  then have "digits_value ds + 1 \<le> 10 ^ length ds" "of_char d - 48 \<le> (9 :: nat)" by (auto simp: is_digit_def Let_def)
  then show ?case by (simp add: digits_value_def)
qed (simp add: digits_value_def)

text \<open>The parts of a name: the stem is a nonempty text the name starts with, the extension what it
  ends with.\<close>

lemma boundary_ascii: "i < length s \<Longrightarrow> as_bytes s ! i < 0x80 \<Longrightarrow> is_char_boundary s i"
  by (simp add: is_char_boundary_def not_cont_lead)

lemma utf8_take_ascii: "utf8 s \<Longrightarrow> i < length s \<Longrightarrow> as_bytes s ! i < 0x80 \<Longrightarrow> utf8 (take i s)"
  using utf8_take_iff_boundary [of s i] boundary_ascii [of i s] by simp

lemma prefix_drop_nth: "prefix (c # cs) (drop i s) \<Longrightarrow> i < length s \<and> s ! i = c"
  by (auto simp: prefix_def) (metis drop_eq_Nil list.distinct(1) not_less, metis hd_drop_conv_nth list.distinct(1) drop_eq_Nil list.sel(1) not_less)

lemma split_counter_Some:
  assumes "split_counter stem = Some (base, k)" and "utf8 stem"
  shows "prefix base stem \<and> base \<noteq> [] \<and> utf8 base \<and> k < 10 ^ 9"
proof -
  from assms(1) obtain i where i: "rfind '' ('' (butlast stem) = Some i" "i > 0" "base = take i stem"
      "k = digits_value (drop (i + 2) (butlast stem))" "length (drop (i + 2) (butlast stem)) \<le> 9" "list_all is_digit (drop (i + 2) (butlast stem))"
      "stem \<noteq> []"
    by (auto simp: split_counter_def Let_def split: if_splits option.splits)
  have at: "i < length (butlast stem)" "butlast stem ! i = CHR '' ''"
    using prefix_drop_nth [of "CHR '' ''" "''(''" i "butlast stem"] rfind_Some [OF i(1)] by simp_all
  then have "stem ! i = CHR '' ''" by (simp add: nth_butlast)
  with at(1) have "as_bytes stem ! i = 0x20" by (auto simp: as_bytes_def)
  then have "utf8 base" using utf8_take_ascii [OF assms(2), of i] at(1) i(3) by simp
  moreover have "k < 10 ^ length (drop (i + 2) (butlast stem))" using digits_value_bound [OF i(6)] i(4) by simp
  then have "k < 10 ^ 9" using power_increasing [OF i(5), of "10 :: nat"] by linarith
  moreover have "base \<noteq> []" using i(2,3,7) by simp
  ultimately show ?thesis using i(3) by (simp add: take_is_prefix)
qed

lemma split_variant_parts:
  assumes "split_variant name = (stem, n, ext)" and "utf8 name" and "name \<noteq> []"
  shows "prefix stem name \<and> stem \<noteq> [] \<and> utf8 stem \<and> n < 10 ^ 9 \<and> length ext \<le> MAX_EXTENSION_LEN \<and>
    (\<exists>front. name = front @ ext) \<and> (ext = [] \<or> hd ext = CHR ''.'')"
proof -
  obtain whole where s: "(case split_counter whole of Some (base, k) \<Rightarrow> (base, k, ext) | None \<Rightarrow> (whole, 1, ext)) = (stem, n, ext)"
      "prefix whole name" "whole \<noteq> []" "utf8 whole" "length ext \<le> MAX_EXTENSION_LEN" "\<exists>front. name = front @ ext" "ext = [] \<or> hd ext = CHR ''.''"
  proof (cases "\<exists>dot. rfind ''.'' name = Some dot \<and> dot > 0 \<and> dot + 1 < length name \<and> length name - dot \<le> MAX_EXTENSION_LEN")
    case True
    then obtain dot where dot: "rfind ''.'' name = Some dot" "dot > 0" "dot + 1 < length name" "length name - dot \<le> MAX_EXTENSION_LEN" by blast
    have at: "dot < length name" "name ! dot = CHR ''.''" using prefix_drop_nth [of "CHR ''.''" "[]"] rfind_Some [OF dot(1)] by simp_all
    have "as_bytes name ! dot = 0x2E" using at by (auto simp: as_bytes_def)
    then have utf: "utf8 (take dot name)" using utf8_take_ascii [OF assms(2) at(1)] by simp
    from assms(1) dot have ext: "ext = drop dot name" by (auto simp: split_variant_def split: option.splits)
    show thesis
    proof (rule that [of "take dot name"])
      show "\<exists>front. name = front @ ext" unfolding ext by (metis append_take_drop_id)
      show "ext = [] \<or> hd ext = CHR ''.''" using at by (simp add: ext hd_drop_conv_nth)
    qed (use assms(1) dot utf ext at in \<open>auto simp: split_variant_def take_is_prefix split: option.splits\<close>)
  next
    case False
    then have "split_variant name = (case split_counter name of Some (base, k) \<Rightarrow> (base, k, []) | None \<Rightarrow> (name, 1, []))"
      by (auto simp: split_variant_def split: option.splits)
    with assms show thesis by (intro that [of name]) (auto split: option.splits)
  qed
  show ?thesis
  proof (cases "split_counter whole")
    case None
    with s show ?thesis by auto
  next
    case (Some r)
    obtain base k where r: "r = (base, k)" by (cases r)
    from split_counter_Some [OF Some [unfolded r] s(4)] s Some r show ?thesis by (auto intro: prefix_order.trans)
  qed
qed

text \<open>White space at the ends.\<close>

lemma strip_one_None: "strip_one ws bs = None \<longleftrightarrow> (\<forall>w\<in>set ws. w = [] \<or> take (length w) bs \<noteq> w)"
  by (auto simp: strip_one_def find_None_iff)

lemma strip_all_same: "strip_all ws bs = bs \<longleftrightarrow> strip_one ws bs = None"
proof
  assume same: "strip_all ws bs = bs"
  have shorter: "length (strip_all ws cs) \<le> length cs" for cs
  proof (induction ws cs rule: strip_all.induct)
    case (1 ws bs)
    show ?case
    proof (cases "strip_one ws bs")
      case None
      then show ?thesis by (subst strip_all.simps) simp
    next
      case (Some r)
      with 1 [OF Some] strip_one_shorter [OF Some] show ?thesis by (subst strip_all.simps) simp
    qed
  qed
  show "strip_one ws bs = None"
  proof (cases "strip_one ws bs")
    case (Some r)
    with same have "strip_all ws r = bs" by (simp add: strip_all.simps [of ws bs])
    with shorter [of r] strip_one_shorter [OF Some] show ?thesis by simp
  qed simp
qed (simp add: strip_all.simps [of ws bs])

lemma trim_same: "trim s = s \<longleftrightarrow> strip_one white_space (as_bytes s) = None \<and> strip_one (map rev white_space) (rev (as_bytes s)) = None"
proof -
  have shorter: "length (strip_all ws cs) \<le> length cs" for ws cs
  proof (induction ws cs rule: strip_all.induct)
    case (1 ws bs)
    then show ?case using strip_one_shorter by (subst strip_all.simps) (fastforce split: option.splits)
  qed
  let ?l = "strip_all white_space (as_bytes s)"
  let ?r = "strip_all (map rev white_space) (rev ?l)"
  have "trim s = s \<longleftrightarrow> rev ?r = as_bytes s"
    by (metis as_bytes_str_of_bytes str_of_bytes_as_bytes trim_def)
  also have "\<dots> \<longleftrightarrow> ?l = as_bytes s \<and> strip_all (map rev white_space) (rev (as_bytes s)) = rev (as_bytes s)"
  proof
    assume eq: "rev ?r = as_bytes s"
    have "length ?r \<le> length ?l" using shorter [of "map rev white_space" "rev ?l"] by simp
    moreover have "length ?r = length (as_bytes s)" using eq by (metis length_rev)
    ultimately have len: "length ?l = length (as_bytes s)" using shorter [of white_space "as_bytes s"] by simp
    have "?l = as_bytes s"
    proof (cases "strip_one white_space (as_bytes s)")
      case (Some r)
      then have "?l = strip_all white_space r" by (simp add: strip_all.simps [of _ "as_bytes s"])
      with shorter [of white_space r] strip_one_shorter [OF Some] len show ?thesis by simp
    qed (simp add: strip_all.simps)
    with eq show "?l = as_bytes s \<and> strip_all (map rev white_space) (rev (as_bytes s)) = rev (as_bytes s)" by (metis rev_rev_ident)
  qed (metis rev_rev_ident)
  finally show ?thesis by (simp add: strip_all_same)
qed

section \<open>A variant can be chosen\<close>

lemma white_space_bytes:
  "w \<in> set white_space \<Longrightarrow> w \<noteq> [] \<and> 0x2E \<notin> set w \<and> last w \<noteq> 0x29"
  by (auto simp: white_space_def)

definition no_space_front :: "bytes \<Rightarrow> bool" where
  "no_space_front bs \<longleftrightarrow> (\<forall>w\<in>set white_space. \<not> prefix w bs)"

definition no_space_back :: "bytes \<Rightarrow> bool" where
  "no_space_back bs \<longleftrightarrow> (\<forall>w\<in>set white_space. \<not> suffix w bs)"

lemma take_eq_prefix: "take (length w) bs = w \<longleftrightarrow> prefix w bs"
  by (metis append_eq_conv_conj prefix_def take_is_prefix)

lemma trim_same_ends: "trim s = s \<longleftrightarrow> no_space_front (as_bytes s) \<and> no_space_back (as_bytes s)"
proof -
  have "take (length w) (rev bs) = rev w \<longleftrightarrow> prefix (rev w) (rev bs)" for w bs :: bytes
    using take_eq_prefix [of "rev w" "rev bs"] by simp
  then show ?thesis
    using white_space_bytes by (auto simp: trim_same strip_one_None no_space_front_def no_space_back_def take_eq_prefix suffix_to_prefix)
qed

text \<open>In front of a byte that no white space holds but at its start, only what is there already counts.\<close>

lemma no_space_front_append:
  assumes "no_space_front (a @ b)" "a \<noteq> []" "\<forall>w\<in>set white_space. d \<notin> set (tl w)"
  shows "no_space_front (a @ d # c)"
  unfolding no_space_front_def
proof
  fix w
  assume w: "w \<in> set white_space"
  show "\<not> prefix w (a @ d # c)"
  proof
    assume p: "prefix w (a @ d # c)"
    show False
    proof (cases "length w \<le> length a")
      case True
      with p have "prefix w a" by (metis prefix_length_prefix prefixI)
      with assms(1) w show False by (auto simp: no_space_front_def prefix_def)
    next
      case False
      with p have "d \<in> set (tl w)"
        using assms(2) by (cases w; cases a) (auto simp: prefix_def append_eq_append_conv2 Cons_eq_append_conv append_eq_Cons_conv)
      with assms(3) w show False by blast
    qed
  qed
qed

lemma no_space_back_append:
  assumes "no_space_back (front @ b)" "b \<noteq> []" "\<forall>w\<in>set white_space. hd b \<notin> set w"
  shows "no_space_back (a @ b)"
  unfolding no_space_back_def
proof
  fix w
  assume w: "w \<in> set white_space"
  show "\<not> suffix w (a @ b)"
  proof
    assume p: "suffix w (a @ b)"
    show False
    proof (cases "length w \<le> length b")
      case True
      with p have "suffix w b" by (metis suffix_length_suffix suffixI)
      with assms(1) w show False by (auto simp: no_space_back_def suffix_def)
    next
      case False
      with p have "suffix b w" by (metis nat_le_linear suffix_length_suffix suffixI)
      with assms(2) have "hd b \<in> set w" by (auto simp: suffix_def)
      with assms(3) w show False by blast
    qed
  qed
qed

lemma truncate_nonempty:
  assumes "utf8 s" "s \<noteq> []" "4 \<le> m"
  shows "truncate_utf8 s m \<noteq> [] \<and> prefix (truncate_utf8 s m) s \<and> length (truncate_utf8 s m) \<le> m"
proof -
  obtain a bs where s: "as_bytes s = a # bs" using assms(2) by (cases s) (auto simp: as_bytes_def)
  then have "valid_utf8 (a # bs)" using assms(1) by simp
  then obtain k where k: "0 < k" "k \<le> 4" "k \<le> length (as_bytes s)" "valid_utf8 (take k (as_bytes s))"
  proof (cases rule: valid_utf8_cases)
    case one
    then show thesis using that [of 1] s by (simp add: valid_utf8.simps)
  next
    case (two b r)
    then show thesis using that [of 2] two(5) [of "[]"] s by simp
  next
    case (three b c r)
    then show thesis using that [of 3] three(6) [of "[]"] s by simp
  next
    case (four b c d r)
    then show thesis using that [of 4] four(7) [of "[]"] s by simp
  qed
  have len: "length (as_bytes s) = length s" by (simp add: as_bytes_def)
  have "k \<le> length (clamp_str s m)"
    using clamp_str_longest [of s "take k s" m] assms k len by (simp add: take_is_prefix take_as_bytes)
  then show ?thesis
    using k(1) length_clamp_str [of s m] prefix_clamp_str [of s m] by (auto simp: truncate_utf8_eq_clamp_str)
qed

lemma name_chars_digits: "name_chars (as_bytes (show_nat n)) = Ok ()"
proof -
  have "\<not> bad_at (drop i (as_bytes (show_nat n)))" for i
  proof (cases "drop i (as_bytes (show_nat n))")
    case (Cons a r)
    then have "a \<in> set (as_bytes (show_nat n))" by (metis in_set_dropD list.set_intros(1))
    then obtain c where c: "c \<in> set (show_nat n)" "a = of_nat (of_char c)" by (auto simp: as_bytes_def)
    with show_nat_digits [OF c(1)] have "48 \<le> unat a" "unat a \<le> 57" by (simp_all add: unat_of_char)
    then have "\<not> (a < 0x20 \<or> a = 0x2F \<or> a = 0x7F \<or> a = 0xC2 \<or> a = 0xD8 \<or> a = 0xE2)"
      by (auto simp: word_less_nat_alt)
    then show ?thesis unfolding Cons by (cases r rule: short_list_cases) (auto simp: bad_at_simps)
  qed (simp add: bad_at_simps)
  then show ?thesis by (simp add: name_chars_Ok)
qed

lemma digits_low: "show_nat n = [] \<or> hd (as_bytes (show_nat n)) < 0x80"
proof (cases "show_nat n")
  case (Cons c cs)
  with show_nat_digits [of c n] have "(of_char c :: nat) \<le> 57" by simp
  then show ?thesis using Cons by (simp add: as_bytes_def word_less_nat_alt unat_of_char)
qed simp

lemma variant_ok:
  assumes "validate_name name = Ok ()" and "utf8 name" and "split_variant name = (stem, k, ext)"
    and "MIN_VARIANT_BUDGET \<le> budget" and "budget \<le> MAX_FILE_NAME_LEN" and "n < 2 ^ 64"
  shows "\<exists>c. variant stem ext budget n = Some c \<and> validate_name c = Ok () \<and> length c \<le> budget"
proof -
  have name: "name \<noteq> []" "trim name = name" "name_chars (as_bytes name) = Ok ()"
    using assms(1) by (auto simp: validate_name_def split: if_splits)
  note parts = split_variant_parts [OF assms(3,2) name(1)]
  let ?suffix = "'' ('' @ show_nat n @ '')''"
  have digits: "length (show_nat n) \<le> 20"
  proof -
    have "length (show_nat m) \<le> Suc d" if "m < 10 ^ Suc d" for m d
      using that
    proof (induction d arbitrary: m)
      case 0
      then show ?case by (subst show_nat.simps) simp
    next
      case (Suc d)
      then have "m div 10 < 10 ^ Suc d" by auto
      from Suc.IH [OF this] show ?case by (subst show_nat.simps) simp
    qed
    from this [of n 19] assms(6) show ?thesis by simp
  qed
  let ?room = "budget - (length ?suffix + length ext)"
  have room: "length ?suffix + length ext \<le> budget" "4 \<le> ?room"
    using digits parts assms(4) unfolding MIN_VARIANT_BUDGET_def MAX_EXTENSION_LEN_def length_append list.size by linarith+
  let ?stem = "truncate_utf8 stem ?room"
  have stem: "?stem \<noteq> []" "prefix ?stem stem" "length ?stem \<le> ?room" using truncate_nonempty [of stem ?room] parts room(2) by auto
  let ?c = "?stem @ ?suffix @ ext"
  have v: "variant stem ext budget n = Some ?c" using room(1) stem(1) by (simp add: variant_def Let_def)
  have len: "length ?c \<le> budget" using room(1) stem(3) by simp
  obtain after front where b: "name = ?stem @ after" and f: "name = front @ ext"
    using stem(2) parts by (metis prefix_def prefix_order.trans)
  have ends: "no_space_front (as_bytes name)" "no_space_back (as_bytes name)" using name(2) by (simp_all add: trim_same_ends)
  have "no_space_front (as_bytes ?stem @ 0x20 # as_bytes (tl ?suffix @ ext))"
    using ends(1) b stem(1) by (intro no_space_front_append [of _ "as_bytes after"]) (auto simp: white_space_def as_bytes_def)
  then have c1: "no_space_front (as_bytes ?c)" by (simp add: as_bytes_def)
  have c2: "no_space_back (as_bytes ?c)"
  proof (cases "ext = []")
    case True
    have "no_space_back ((as_bytes ?stem @ as_bytes ('' ('' @ show_nat n)) @ [0x29])"
      by (rule no_space_back_append [of "[]"]) (auto simp: no_space_back_def white_space_def suffix_Cons)
    then show ?thesis using True by (simp add: as_bytes_def)
  next
    case False
    have "no_space_back (as_bytes (?stem @ ?suffix) @ as_bytes ext)"
    proof (rule no_space_back_append [of "as_bytes front"])
      show "no_space_back (as_bytes front @ as_bytes ext)" using ends(2) unfolding f by simp
      have "hd (as_bytes ext) = 0x2E" using False parts by (simp add: as_bytes_def hd_map)
      then show "\<forall>w\<in>set white_space. hd (as_bytes ext) \<notin> set w" using white_space_bytes by metis
    qed (use False in \<open>simp add: as_bytes_def\<close>)
    then show ?thesis by (simp add: as_bytes_def)
  qed
  have chars: "name_chars (as_bytes ?c) = Ok ()"
  proof -
    have "name_chars (as_bytes ?stem) = Ok ()" using name(3) b name_chars_prefix by (metis as_bytes_append)
    moreover have "name_chars (as_bytes ext) = Ok ()" using name(3) f name_chars_suffix by (metis as_bytes_append)
    moreover have "name_chars (as_bytes '' ('') = Ok ()" "name_chars (as_bytes '')'') = Ok ()"
      by (simp_all add: as_bytes_def control_at_def bidi_at_def)
    moreover have "as_bytes '' ('' = [] \<or> hd (as_bytes '' ('') < 0x80" "as_bytes '')'' = [] \<or> hd (as_bytes '')'') < 0x80"
      by (simp_all add: as_bytes_def)
    moreover have "as_bytes (show_nat n) = [] \<or> hd (as_bytes (show_nat n)) < 0x80" using digits_low [of n] by (auto simp: as_bytes_def)
    moreover have "as_bytes ext = [] \<or> hd (as_bytes ext) < 0x80"
    proof (cases ext)
      case (Cons c cs)
      then show ?thesis using parts by (simp add: as_bytes_def)
    qed (simp add: as_bytes_def)
    ultimately have "name_chars ((((as_bytes ?stem @ as_bytes '' ('') @ as_bytes (show_nat n)) @ as_bytes '')'') @ as_bytes ext) = Ok ()"
      by (intro name_chars_append [OF name_chars_append [OF name_chars_append [OF name_chars_append]]] name_chars_digits)
    then show ?thesis by (simp add: as_bytes_def)
  qed
  have "?c \<noteq> ''.'' \<and> ?c \<noteq> ''..''" using stem(1) by (auto simp: append_eq_Cons_conv)
  then have "validate_name ?c = Ok ()"
    using len assms(5) stem(1) c1 c2 chars by (simp add: validate_name_def trim_same_ends)
  with v len show ?thesis by blast
qed

lemma variant_inj:
  assumes "variant stem ext budget n = Some c" and "variant stem ext budget m = Some c"
  shows "n = m"
proof -
  have shape: "\<exists>a. c = a @ '' ('' @ show_nat j @ '')'' @ ext" if "variant stem ext budget j = Some c" for j
    using that by (auto simp: variant_def Let_def split: if_splits)
  obtain a b where "c = a @ '' ('' @ show_nat n @ '')'' @ ext" "c = b @ '' ('' @ show_nat m @ '')'' @ ext"
    using shape [OF assms(1)] shape [OF assms(2)] by blast
  then have "rev (a @ '' ('' @ show_nat n) = rev (b @ '' ('' @ show_nat m)" by simp
  then have eq: "takeWhile (\<lambda>c. c \<noteq> CHR ''('') (rev (show_nat n) @ ''( '' @ rev a) = takeWhile (\<lambda>c. c \<noteq> CHR ''('') (rev (show_nat m) @ ''( '' @ rev b)"
    by simp
  have "takeWhile (\<lambda>c. c \<noteq> CHR ''('') (rev (show_nat j) @ ''( '' @ r) = rev (show_nat j)" for j r
  proof -
    have "c \<noteq> CHR ''(''" if "c \<in> set (show_nat j)" for c using show_nat_digits [OF that] by auto
    then show ?thesis by (subst takeWhile_append2) auto
  qed
  with eq show ?thesis by (auto dest: show_nat_inj)
qed

lemma free_loop_first:
  assumes "variant stem ext budget (n + 1 + j) = Some c" and "\<not> taken c" and "n + 1 + j < 2 ^ 64"
    and "\<And>i. i < j \<Longrightarrow> \<exists>d. variant stem ext budget (n + 1 + i) = Some d \<and> taken d"
  shows "free_loop stem ext budget taken n = Some c"
  using assms
proof (induction j arbitrary: n)
  case 0
  then show ?case by (simp add: free_loop.simps [of _ _ _ _ n])
next
  case (Suc j)
  obtain d where d: "variant stem ext budget (n + 1) = Some d" "taken d" using Suc.prems(4) [of 0] by auto
  have "free_loop stem ext budget taken (n + 1) = Some c"
    using Suc.prems(1-3) Suc.prems(4) [of "Suc i" for i] by (intro Suc.IH) simp_all
  with d Suc.prems(3) show ?case by (simp add: free_loop.simps [of _ _ _ _ n])
qed

lemma free_loop_Some:
  "free_loop stem ext budget taken n = Some c \<Longrightarrow> \<not> taken c \<and> (\<exists>j. j < 2 ^ 64 \<and> variant stem ext budget j = Some c)"
proof (induction stem ext budget taken n rule: free_loop.induct)
  case (1 stem ext budget taken n)
  then have small: "n + 1 < 2 ^ 64" by (simp add: free_loop.simps [of _ _ _ _ n] split: if_splits)
  with "1.prems" obtain d where d: "variant stem ext budget (n + 1) = Some d"
      "(if taken d then free_loop stem ext budget taken (n + 1) else Some d) = Some c"
    by (simp add: free_loop.simps [of _ _ _ _ n] split: option.splits)
  show ?case
  proof (cases "taken d")
    case True
    then show ?thesis using "1.IH" [OF _ d(1) True] d(2) small by simp
  next
    case False
    then show ?thesis using d small by (intro conjI exI [of _ "n + 1"]) auto
  qed
qed

lemma free_name_Some:
  assumes "validate_name name = Ok ()" and "utf8 name" and "MIN_VARIANT_BUDGET \<le> budget \<and> budget \<le> MAX_FILE_NAME_LEN"
    and "free_name name budget taken = Some c"
  shows "\<not> taken c \<and> validate_name c = Ok ()"
proof (cases "taken name")
  case True
  obtain stem k ext where sv: "split_variant name = (stem, k, ext)" by (metis prod_cases3)
  with True assms(4) have "free_loop stem ext budget taken k = Some c" by (simp add: free_name_def)
  then obtain j where "\<not> taken c" "j < 2 ^ 64" "variant stem ext budget j = Some c" using free_loop_Some by blast
  then show ?thesis using variant_ok [OF assms(1,2) sv, of budget j] assms(3) by auto
qed (use assms in \<open>simp add: free_name_def\<close>)

text \<open>Property C31. A blind upload always finds a name: for a name a client may choose, a budget
  \<open>name_budget\<close> allows and a folder of fewer than \<open>2 ^ 63\<close> entries, the search for a free variant
  ends with one; it is free, within the budget, and itself a name a client could have chosen. (A
  listing that hides the entries can therefore answer an upload the same way whatever the folder
  holds.)\<close>

theorem free_name_found:
  assumes "validate_name name = Ok ()" and "utf8 name" and "length name \<le> budget"
    and "MIN_VARIANT_BUDGET \<le> budget" and "budget \<le> MAX_FILE_NAME_LEN"
    and "finite {c. taken c}" and "card {c. taken c} < 2 ^ 63"
  shows "\<exists>c. free_name name budget taken = Some c \<and> \<not> taken c \<and> validate_name c = Ok () \<and> length c \<le> budget"
proof (cases "taken name")
  case False
  with assms show ?thesis by (simp add: free_name_def)
next
  case True
  obtain stem k ext where sv: "split_variant name = (stem, k, ext)" by (metis prod_cases3)
  have "name \<noteq> []" using assms(1) by (auto simp: validate_name_def)
  then have k: "k < 10 ^ 9" using split_variant_parts [OF sv assms(2)] by simp
  have ok: "\<exists>c. variant stem ext budget n = Some c \<and> validate_name c = Ok () \<and> length c \<le> budget" if "n < 2 ^ 64" for n
    using variant_ok [OF assms(1,2) sv assms(4,5) that] .
  let ?v = "\<lambda>j. the (variant stem ext budget (k + 1 + j))"
  let ?T = "{c. taken c}"
  have small: "k + 1 + j < 2 ^ 64" if "j \<le> card ?T" for j using that assms(7) k by simp
  have v: "variant stem ext budget (k + 1 + j) = Some (?v j)" if "j \<le> card ?T" for j using ok [OF small [OF that]] by auto
  have "inj_on ?v {..card ?T}"
  proof (rule inj_onI)
    fix i j
    assume "i \<in> {..card ?T}" "j \<in> {..card ?T}" "?v i = ?v j"
    then have "k + 1 + i = k + 1 + j" using v [of i] v [of j] by (intro variant_inj [of stem ext budget _ "?v j"]) simp_all
    then show "i = j" by simp
  qed
  then have "\<not> ?v ` {..card ?T} \<subseteq> ?T" using card_inj_on_le [OF _ _ assms(6)] by fastforce
  then have "\<exists>j. j \<le> card ?T \<and> \<not> taken (?v j)" by auto
  then obtain j where j: "j \<le> card ?T" "\<not> taken (?v j)" "\<And>i. i < j \<Longrightarrow> \<not> (i \<le> card ?T \<and> \<not> taken (?v i))"
    using exists_least_iff [of "\<lambda>j. j \<le> card ?T \<and> \<not> taken (?v j)"] by blast
  have "free_loop stem ext budget taken k = Some (?v j)"
  proof (rule free_loop_first [of _ _ _ _ j])
    fix i
    assume i: "i < j"
    with j(1,3) have "taken (?v i)" by auto
    with v [of i] i j(1) show "\<exists>d. variant stem ext budget (k + 1 + i) = Some d \<and> taken d" by auto
  qed (use v [OF j(1)] j(2) small [OF j(1)] in simp_all)
  then have "free_name name budget taken = Some (?v j)" using True sv by (simp add: free_name_def)
  moreover have "validate_name (?v j) = Ok () \<and> length (?v j) \<le> budget" using ok [OF small [OF j(1)]] by auto
  ultimately show ?thesis using j(2) by blast
qed

theorem free_name_found_witness:
  "\<exists>c. free_name ''a.txt'' 48 (\<lambda>c. c = ''a.txt'' \<or> c = ''a (2).txt'') = Some c \<and> \<not> (c = ''a.txt'' \<or> c = ''a (2).txt'') \<and>
     validate_name c = Ok () \<and> length c \<le> 48"
proof (rule free_name_found)
  show "validate_name ''a.txt'' = Ok ()" by code_simp
  show "utf8 ''a.txt''" by code_simp
  have two: "{c. c = ''a.txt'' \<or> c = ''a (2).txt''} = {''a.txt'', ''a (2).txt''}" by auto
  then have "card {c. c = ''a.txt'' \<or> c = ''a (2).txt''} \<le> 2" by (simp add: two)
  then show "card {c. c = ''a.txt'' \<or> c = ''a (2).txt''} < 2 ^ 63" by simp
  show "finite {c. c = ''a.txt'' \<or> c = ''a (2).txt''}" by (rule finite_subset [of _ "{''a.txt'', ''a (2).txt''}"]) auto
qed (simp_all add: MIN_VARIANT_BUDGET_def MAX_FILE_NAME_LEN_def)

end
