(* ===== verification/File_Table.thy ===== *)
theory File_Table
  imports Policy
begin

text \<open>
  The table \<open>file_nodes\<close> (\<open>kdx-storage/src/file_tree.rs\<close>): one row per entry of the virtual file tree.
  Every statement succeeds or leaves the table as it was; the schema's primary key,
  \<open>UNIQUE(parent_id, name)\<close>, the reference of \<open>parent_id\<close> and the \<open>ON DELETE SET NULL\<close> of \<open>target_id\<close>
  are checked per statement. The argument \<open>fault\<close> says that the statement or transaction fails for
  another reason (a full disk, a locked file); the id of a new row is the UUID drawn for it.
\<close>

definition ROOT_ID :: string where "ROOT_ID = ''root''"

record FileNodeRow =
  fr_id :: string
  fr_parent_id :: "string option"
  fr_name :: string
  fr_kind :: int
  fr_size :: u64
  fr_sha256 :: "bytes option"
  fr_min_class_read :: int
  fr_min_class_write :: int
  fr_storage_path :: "string option"
  fr_target_id :: "string option"
  fr_owner :: "string option"

type_synonym file_rows = "FileNodeRow list"

definition has_row :: "file_rows \<Rightarrow> string \<Rightarrow> bool" where
  "has_row rows i \<longleftrightarrow> (\<exists>r\<in>set rows. fr_id r = i)"

definition entry_taken :: "file_rows \<Rightarrow> string \<Rightarrow> string option \<Rightarrow> string \<Rightarrow> bool" where
  "entry_taken rows i parent name \<longleftrightarrow>
     parent \<noteq> None \<and> (\<exists>r\<in>set rows. fr_id r \<noteq> i \<and> fr_parent_id r = parent \<and> fr_name r = name)"

definition refers :: "file_rows \<Rightarrow> string option \<Rightarrow> bool" where
  "refers rows i = (case i of None \<Rightarrow> True | Some i \<Rightarrow> has_row rows i)"

definition files_insert :: "bool \<Rightarrow> FileNodeRow \<Rightarrow> file_rows \<Rightarrow> (FileNodeRow \<times> file_rows, storage_error) result" where
  "files_insert fault row rows =
     (if fault then Err Sqlx
      else if has_row rows (fr_id row) \<or> entry_taken rows (fr_id row) (fr_parent_id row) (fr_name row) then Err AlreadyExists
      else if refers (row # rows) (fr_parent_id row) \<and> refers (row # rows) (fr_target_id row)
      then Ok (row, rows @ [row])
      else Err ForeignKey)"

definition folder_row :: "string \<Rightarrow> string \<Rightarrow> string \<Rightarrow> int \<Rightarrow> int \<Rightarrow> int \<Rightarrow> string option \<Rightarrow> FileNodeRow" where
  "folder_row i parent name kind min_read min_write owner =
     \<lparr>fr_id = i, fr_parent_id = Some parent, fr_name = name, fr_kind = kind, fr_size = 0, fr_sha256 = None,
      fr_min_class_read = min_read, fr_min_class_write = min_write, fr_storage_path = None, fr_target_id = None,
      fr_owner = owner\<rparr>"

definition file_row :: "string \<Rightarrow> string \<Rightarrow> string \<Rightarrow> u64 \<Rightarrow> bytes \<Rightarrow> string \<Rightarrow> FileNodeRow" where
  "file_row i parent name bytelen sha256 storage_path =
     \<lparr>fr_id = i, fr_parent_id = Some parent, fr_name = name, fr_kind = 1, fr_size = bytelen, fr_sha256 = Some sha256,
      fr_min_class_read = 0, fr_min_class_write = 2, fr_storage_path = Some storage_path, fr_target_id = None,
      fr_owner = None\<rparr>"

definition alias_row :: "string \<Rightarrow> string \<Rightarrow> string \<Rightarrow> string \<Rightarrow> FileNodeRow" where
  "alias_row i parent name target =
     \<lparr>fr_id = i, fr_parent_id = Some parent, fr_name = name, fr_kind = 4, fr_size = 0, fr_sha256 = None,
      fr_min_class_read = 0, fr_min_class_write = 2, fr_storage_path = None, fr_target_id = Some target,
      fr_owner = None\<rparr>"

text \<open>\<open>DELETE FROM file_nodes WHERE id = ?\<close>; without such a row nothing is affected.\<close>

definition delete_row :: "file_rows \<Rightarrow> string \<Rightarrow> (file_rows, storage_error) result" where
  "delete_row rows i =
     (if has_row rows i then
        let rest = map (\<lambda>r. if fr_target_id r = Some i then r\<lparr>fr_target_id := None\<rparr> else r)
                     (filter (\<lambda>r. fr_id r \<noteq> i) rows)
        in if \<exists>r\<in>set rest. fr_parent_id r = Some i then Err ForeignKey else Ok rest
      else Ok rows)"

definition files_delete :: "bool \<Rightarrow> string \<Rightarrow> file_rows \<Rightarrow> (file_rows, storage_error) result" where
  "files_delete fault i rows =
     (if fault then Err Sqlx
      else bind_result (delete_row rows i) (\<lambda>rest. if has_row rows i then Ok rest else Err NotFound))"

fun delete_each :: "string list \<Rightarrow> file_rows \<Rightarrow> (file_rows, storage_error) result" where
  "delete_each [] rows = Ok rows"
| "delete_each (i # ids) rows = bind_result (delete_row rows i) (delete_each ids)"

definition files_delete_many :: "bool \<Rightarrow> string list \<Rightarrow> file_rows \<Rightarrow> (file_rows, storage_error) result" where
  "files_delete_many fault ids rows = (if fault then Err Sqlx else delete_each ids rows)"

definition files_reparent :: "bool \<Rightarrow> string \<Rightarrow> string \<Rightarrow> file_rows \<Rightarrow> (file_rows, storage_error) result" where
  "files_reparent fault i new_parent rows =
     (if fault then Err Sqlx
      else case find (\<lambda>r. fr_id r = i) rows of
        None \<Rightarrow> Err NotFound
      | Some r \<Rightarrow>
          if entry_taken rows i (Some new_parent) (fr_name r) then Err AlreadyExists
          else if \<not> has_row rows new_parent then Err ForeignKey
          else Ok (map (\<lambda>r. if fr_id r = i then r\<lparr>fr_parent_id := Some new_parent\<rparr> else r) rows))"

end
