(* ===== verification/File_Tree.thy ===== *)
theory File_Tree
  imports File_Table File_Names "HOL-Library.AList" "HOL-Library.Sublist" "HOL-Library.List_Lexorder" "HOL-Library.Char_ord"
begin

text \<open>
  The virtual file tree (\<open>kdx-server-core/src/files/tree.rs\<close>): an in-memory tree loaded from the table and
  written through. The operations take the tree's lock for their whole duration, so each is one
  function from tree to answer and tree.
\<close>

section \<open>Nodes\<close>

definition is_folder :: "NodeKind \<Rightarrow> bool" where
  "is_folder k \<longleftrightarrow> k = Directory \<or> k = DropBoxKind \<or> k = UploadFolder"

definition kind_from_i64 :: "int \<Rightarrow> NodeKind option" where
  "kind_from_i64 k =
     (if k = 0 then Some Directory else if k = 1 then Some File else if k = 2 then Some DropBoxKind
      else if k = 3 then Some UploadFolder else if k = 4 then Some Alias else None)"

primrec kind_as_u8 :: "NodeKind \<Rightarrow> int" where
  "kind_as_u8 Directory = 0"
| "kind_as_u8 File = 1"
| "kind_as_u8 DropBoxKind = 2"
| "kind_as_u8 UploadFolder = 3"
| "kind_as_u8 Alias = 4"

record Node =
  nd_id :: string
  nd_parent_id :: "string option"
  nd_name :: string
  nd_kind :: NodeKind
  nd_size :: u64
  nd_sha256 :: "bytes option"
  nd_min_class_read :: BaseClass
  nd_min_class_write :: BaseClass
  nd_storage_path :: "string option"
  nd_target_id :: "string option"
  nd_access_item :: AccessItem
  nd_owner :: "string option"

record TreeEntry =
  fe_name :: string
  fe_kind :: NodeKind
  fe_size :: u64

record CatalogEntry =
  ce_path :: string
  ce_name :: string
  ce_kind :: NodeKind
  ce_size :: u64
  ce_min_read_class :: BaseClass

record UploadDest =
  ud_parent :: Node
  ud_blind :: bool
  ud_name_budget :: nat

text \<open>The two hash maps as association lists without repeated keys.\<close>

record TreeState =
  nodes :: "(string \<times> Node) list"
  children :: "(string \<times> string list) list"

record FileTree =
  ft_rows :: file_rows
  ft_state :: TreeState
  ft_catalog :: "CatalogEntry list option"

definition class_from_i64 :: "int \<Rightarrow> BaseClass" where
  "class_from_i64 v = class_from_stored v"

definition class_i64 :: "BaseClass \<Rightarrow> int" where
  "class_i64 c = int (class_u8 c)"

definition node_from_row :: "FileNodeRow \<Rightarrow> (Node, TreeError) result" where
  "node_from_row row =
     (case kind_from_i64 (fr_kind row) of
        None \<Rightarrow> Err (CorruptKind (fr_kind row))
      | Some kind \<Rightarrow>
          Ok \<lparr>nd_id = fr_id row, nd_parent_id = fr_parent_id row, nd_name = fr_name row, nd_kind = kind,
              nd_size = fr_size row, nd_sha256 = fr_sha256 row, nd_min_class_read = class_from_i64 (fr_min_class_read row),
              nd_min_class_write = class_from_i64 (fr_min_class_write row), nd_storage_path = fr_storage_path row,
              nd_target_id = fr_target_id row, nd_access_item = AccessItem_parse (fr_name row), nd_owner = fr_owner row\<rparr>)"

definition acl :: "(unit, AclError) result \<Rightarrow> (unit, TreeError) result" where
  "acl r = (case r of Ok _ \<Rightarrow> Ok () | Err e \<Rightarrow> Err (AclRefused e) | Panic \<Rightarrow> Panic)"

definition check_read_node :: "Node \<Rightarrow> Session \<Rightarrow> (unit, AclError) result" where
  "check_read_node n s =
     check_read (nd_kind n) (nd_access_item n) (nd_min_class_read n) (s_class s) (s_privileges s) (nd_owner n) (s_username s)"

definition check_write_node :: "Node \<Rightarrow> Session \<Rightarrow> (unit, AclError) result" where
  "check_write_node n s = check_write (nd_kind n) (nd_access_item n) (nd_min_class_write n) (s_class s) (s_privileges s)"

definition check_remove_from :: "Node \<Rightarrow> Session \<Rightarrow> (unit, AclError) result" where
  "check_remove_from n s =
     check_delete (nd_kind n) (nd_access_item n) (nd_min_class_write n) (s_class s) (s_privileges s) (nd_owner n) (s_username s)"

definition map_write_err :: "storage_error \<Rightarrow> TreeError" where
  "map_write_err e = (case e of AlreadyExists \<Rightarrow> NameExists | ForeignKey \<Rightarrow> PathNotFound | other \<Rightarrow> TreeStorage other)"

definition or_tree_err :: "('a, storage_error) result \<Rightarrow> (storage_error \<Rightarrow> TreeError) \<Rightarrow> ('a, TreeError) result" where
  "or_tree_err r f = (case r of Ok x \<Rightarrow> Ok x | Err e \<Rightarrow> Err (f e) | Panic \<Rightarrow> Panic)"

section \<open>Walking the tree\<close>

definition get_node :: "TreeState \<Rightarrow> string \<Rightarrow> Node option" where
  "get_node st i = map_of (nodes st) i"

definition need_node :: "Node option \<Rightarrow> (Node, TreeError) result" where
  "need_node n = (case n of Some n \<Rightarrow> Ok n | None \<Rightarrow> Err PathNotFound)"

definition child_nodes :: "TreeState \<Rightarrow> string \<Rightarrow> Node list" where
  "child_nodes st i = (case map_of (children st) i of None \<Rightarrow> [] | Some ids \<Rightarrow> List.map_filter (get_node st) ids)"

definition parent_of :: "TreeState \<Rightarrow> Node \<Rightarrow> (Node, TreeError) result" where
  "parent_of st n = need_node (Option.bind (nd_parent_id n) (get_node st))"

definition name_taken :: "TreeState \<Rightarrow> string \<Rightarrow> string \<Rightarrow> bool" where
  "name_taken st parent name \<longleftrightarrow> (\<exists>n\<in>set (child_nodes st parent). nd_name n = name)"

function ancestry_loop :: "TreeState \<Rightarrow> Node list \<Rightarrow> Node \<Rightarrow> (Node list, TreeError) result" where
  "ancestry_loop st chain node =
     (case nd_parent_id node of
        None \<Rightarrow> if nd_id node = ROOT_ID then Ok chain else Err PathNotFound
      | Some pid \<Rightarrow>
          if length chain > length (nodes st) then Err PathNotFound
          else case get_node st pid of
            None \<Rightarrow> Err PathNotFound
          | Some parent \<Rightarrow> ancestry_loop st (chain @ [parent]) parent)"
  by pat_completeness auto
termination by (relation "measure (\<lambda>(st, chain, _). Suc (length (nodes st)) - length chain)") auto

declare ancestry_loop.simps [simp del]

definition ancestry :: "TreeState \<Rightarrow> Node \<Rightarrow> (Node list, TreeError) result" where
  "ancestry st start = ancestry_loop st [start] start"

fun check_each :: "Session \<Rightarrow> Node list \<Rightarrow> (unit, TreeError) result" where
  "check_each s [] = Ok ()"
| "check_each s (n # ns) = bind_result (acl (check_read_node n s)) (\<lambda>_. check_each s ns)"

definition check_read_chain :: "TreeState \<Rightarrow> Node \<Rightarrow> Session \<Rightarrow> (unit, TreeError) result" where
  "check_read_chain st folder s = bind_result (ancestry st folder) (\<lambda>chain. check_each s (rev chain))"

definition check_node_readable :: "TreeState \<Rightarrow> Node \<Rightarrow> Session \<Rightarrow> (unit, TreeError) result" where
  "check_node_readable st n s =
     (if is_folder (nd_kind n) then check_read_chain st n s
      else bind_result (parent_of st n) (\<lambda>p. check_read_chain st p s))"

definition resolve_through_alias :: "TreeState \<Rightarrow> Node \<Rightarrow> (Node, TreeError) result" where
  "resolve_through_alias st n =
     (if nd_kind n \<noteq> Alias then Ok n
      else bind_result (need_node (Option.bind (nd_target_id n) (get_node st)))
             (\<lambda>target. if nd_kind target = Alias then Err AliasChainRefused else Ok target))"

definition walkable :: "TreeState \<Rightarrow> Session option \<Rightarrow> Node \<Rightarrow> (Node, TreeError) result" where
  "walkable st session current =
     (if nd_kind current = Alias then
        bind_result (resolve_through_alias st current)
          (\<lambda>target. case session of
             Some s \<Rightarrow> bind_result (check_node_readable st target s) (\<lambda>_. Ok target)
           | None \<Rightarrow> Ok target)
      else case session of
        Some s \<Rightarrow>
          if is_folder (nd_kind current) then bind_result (acl (check_read_node current s)) (\<lambda>_. Ok current)
          else Ok current
      | None \<Rightarrow> Ok current)"

fun walk_segments :: "TreeState \<Rightarrow> Session option \<Rightarrow> Node \<Rightarrow> string list \<Rightarrow> (Node, TreeError) result" where
  "walk_segments st session current [] = Ok current"
| "walk_segments st session current (segment # segments) =
     bind_result (walkable st session current)
       (\<lambda>folder. bind_result (need_node (find (\<lambda>n. nd_name n = segment) (child_nodes st (nd_id folder))))
         (\<lambda>next. walk_segments st session next segments))"

definition walk :: "TreeState \<Rightarrow> string \<Rightarrow> Session option \<Rightarrow> (Node, TreeError) result" where
  "walk st path session =
     bind_result (check_path path)
       (\<lambda>_. bind_result (need_node (get_node st ROOT_ID))
         (\<lambda>root. walk_segments st session root (filter (\<lambda>seg. seg \<noteq> []) (split_on (CHR ''/'') path))))"

definition resolve :: "TreeState \<Rightarrow> string \<Rightarrow> (Node, TreeError) result" where
  "resolve st path = walk st path None"

definition resolve_as :: "TreeState \<Rightarrow> string \<Rightarrow> Session \<Rightarrow> (Node, TreeError) result" where
  "resolve_as st path s = walk st path (Some s)"

section \<open>Rules for placing and removing\<close>

text \<open>The length of a folder's path: the names below the root, each with its slash.\<close>

definition chain_len :: "Node list \<Rightarrow> nat" where
  "chain_len chain = (\<Sum>n\<leftarrow>filter (\<lambda>n. nd_parent_id n \<noteq> None) chain. 1 + length (nd_name n))"

definition name_budget :: "TreeState \<Rightarrow> Node \<Rightarrow> (nat, TreeError) result" where
  "name_budget st folder =
     bind_result (ancestry st folder)
       (\<lambda>chain. Ok (min MAX_FILE_NAME_LEN (MAX_PATH_LEN - (chain_len chain + 1))))"

definition check_room :: "TreeState \<Rightarrow> Node \<Rightarrow> nat \<Rightarrow> nat \<Rightarrow> (unit, TreeError) result" where
  "check_room st parent height rel_len =
     bind_result (ancestry st parent)
       (\<lambda>chain.
         if (length chain - 1) + 1 + height > MAX_TREE_DEPTH then Err TooDeep
         else if chain_len chain + rel_len > MAX_PATH_LEN then Err (InvalidPath ''path is too long'')
         else Ok ())"

definition check_place_into :: "TreeState \<Rightarrow> Node \<Rightarrow> Session \<Rightarrow> bool \<Rightarrow> (unit, TreeError) result" where
  "check_place_into st dest s manage =
     bind_result (if nd_parent_id dest \<noteq> None then bind_result (parent_of st dest) (\<lambda>p. check_read_chain st p s) else Ok ())
       (\<lambda>_. bind_result (acl (check_write_node dest s))
         (\<lambda>_. if manage \<and> is_drop_box (nd_kind dest) (nd_access_item dest) \<and> s_class s < Admin \<and>
                 nd_owner dest \<noteq> Some (s_username s)
              then Err (AclRefused OwnerOnly) else Ok ()))"

definition upload_dest :: "TreeState \<Rightarrow> Node \<Rightarrow> string \<Rightarrow> Session \<Rightarrow> (UploadDest, TreeError) result" where
  "upload_dest st node name s =
     (if \<not> is_folder (nd_kind node) then Err NotAFolder
      else bind_result (check_place_into st node s False)
        (\<lambda>_. bind_result (check_room st node 0 (1 + length name))
          (\<lambda>_. bind_result (name_budget st node)
            (\<lambda>budget.
              let blind = \<not> is_ok (check_read_node node s) in
              if blind \<and> budget < MIN_VARIANT_BUDGET then Err (InvalidPath ''path is too long'')
              else if \<not> blind \<and> name_taken st (nd_id node) name then Err NameExists
              else Ok \<lparr>ud_parent = node, ud_blind = blind, ud_name_budget = budget\<rparr>))))"

text \<open>The stacks of the source as lists whose head is popped next.\<close>

function extent_loop :: "TreeState \<Rightarrow> nat \<Rightarrow> nat \<times> nat \<Rightarrow> (Node \<times> nat \<times> nat) list \<Rightarrow> (nat \<times> nat, TreeError) result" where
  "extent_loop st visited out [] = Ok out"
| "extent_loop st visited out ((node, h, len) # stack) =
     (if visited + 1 > length (nodes st) then Err PathNotFound
      else extent_loop st (visited + 1) (max (fst out) h, max (snd out) len)
             (rev (map (\<lambda>c. (c, h + 1, len + 1 + length (nd_name c))) (child_nodes st (nd_id node))) @ stack))"
  by pat_completeness auto
termination by (relation "measure (\<lambda>(st, visited, _). length (nodes st) - visited)") auto

declare extent_loop.simps(2) [simp del]

definition subtree_extent :: "TreeState \<Rightarrow> Node \<Rightarrow> (nat \<times> nat, TreeError) result" where
  "subtree_extent st top_node = extent_loop st 0 (0, 0) [(top_node, 0, 1 + length (nd_name top_node))]"

definition deletable_children :: "TreeState \<Rightarrow> Session \<Rightarrow> Node \<Rightarrow> (Node list, TreeError) result" where
  "deletable_children st s node =
     (if is_folder (nd_kind node) then
        bind_result (acl (check_remove_from node s))
          (\<lambda>_. let kids = child_nodes st (nd_id node) in
            if kids \<noteq> [] then bind_result (acl (check_read_node node s)) (\<lambda>_. Ok kids) else Ok kids)
      else Ok [])"

function collect_loop ::
  "TreeState \<Rightarrow> Session \<Rightarrow> string list \<Rightarrow> string list \<Rightarrow> Node list \<Rightarrow> (string list \<times> string list, TreeError) result" where
  "collect_loop st s preorder paths [] = Ok (rev preorder, paths)"
| "collect_loop st s preorder paths (node # stack) =
     (if length preorder \<ge> length (nodes st) then Err PathNotFound
      else case deletable_children st s node of
        Err e \<Rightarrow> Err e
      | Panic \<Rightarrow> Panic
      | Ok kids \<Rightarrow>
          collect_loop st s (preorder @ [nd_id node])
            (paths @ (case nd_storage_path node of Some p \<Rightarrow> [p] | None \<Rightarrow> [])) (rev kids @ stack))"
  by pat_completeness auto
termination by (relation "measure (\<lambda>(st, _, preorder, _). length (nodes st) - length preorder)") auto

declare collect_loop.simps(2) [simp del]

definition collect_subtree_for_delete :: "TreeState \<Rightarrow> Node \<Rightarrow> Session \<Rightarrow> (string list \<times> string list, TreeError) result" where
  "collect_subtree_for_delete st top_node s = collect_loop st s [] [] [top_node]"

section \<open>Answers that leave the tree alone\<close>

definition listed_size :: "TreeState \<Rightarrow> Session \<Rightarrow> Node \<Rightarrow> u64" where
  "listed_size st s n =
     (if nd_kind n = Alias then
        (case Option.bind (nd_target_id n) (get_node st) of
           Some t \<Rightarrow> if is_ok (check_node_readable st t s) then nd_size t else 0
         | None \<Rightarrow> 0)
      else nd_size n)"

definition tree_list :: "TreeState \<Rightarrow> string \<Rightarrow> Session \<Rightarrow> (TreeEntry list, TreeError) result" where
  "tree_list st path s =
     bind_result (resolve_as st path s)
       (\<lambda>node. bind_result (resolve_through_alias st node)
         (\<lambda>node. if \<not> is_folder (nd_kind node) then Err NotAFolder
           else bind_result (check_node_readable st node s)
             (\<lambda>_. Ok (sort_key fe_name
               (map (\<lambda>n. \<lparr>fe_name = nd_name n, fe_kind = nd_kind n, fe_size = listed_size st s n\<rparr>)
                 (child_nodes st (nd_id node)))))))"

definition prepare_upload :: "TreeState \<Rightarrow> string \<Rightarrow> string \<Rightarrow> Session \<Rightarrow> (UploadDest, TreeError) result" where
  "prepare_upload st path name s =
     bind_result (validate_name name)
       (\<lambda>_. bind_result (resolve_as st path s) (\<lambda>node. upload_dest st node name s))"

definition prepare_upload_into :: "TreeState \<Rightarrow> string \<Rightarrow> string \<Rightarrow> Session \<Rightarrow> (UploadDest, TreeError) result" where
  "prepare_upload_into st parent_id name s =
     bind_result (validate_name name)
       (\<lambda>_. bind_result (need_node (get_node st parent_id)) (\<lambda>node. upload_dest st node name s))"

definition find_child :: "TreeState \<Rightarrow> string \<Rightarrow> (Node \<Rightarrow> bool) \<Rightarrow> Node option" where
  "find_child st parent_id matches = find matches (child_nodes st parent_id)"

definition open_for_read :: "TreeState \<Rightarrow> string \<Rightarrow> Session \<Rightarrow> (Node, TreeError) result" where
  "open_for_read st path s =
     bind_result (resolve_as st path s)
       (\<lambda>node. bind_result (resolve_through_alias st node)
         (\<lambda>node. bind_result (check_node_readable st node s)
           (\<lambda>_. if nd_kind node \<noteq> File then Err NotAFile else Ok node)))"

definition tree_info :: "TreeState \<Rightarrow> string \<Rightarrow> Session \<Rightarrow> (Node, TreeError) result" where
  "tree_info st path s =
     bind_result (resolve_as st path s)
       (\<lambda>node. bind_result (resolve_through_alias st node)
         (\<lambda>node. bind_result (check_node_readable st node s) (\<lambda>_. Ok node)))"

section \<open>Operations\<close>

definition push_child :: "string \<Rightarrow> string \<Rightarrow> (string \<times> string list) list \<Rightarrow> (string \<times> string list) list" where
  "push_child p i ch = AList.update p ((case map_of ch p of None \<Rightarrow> [] | Some ids \<Rightarrow> ids) @ [i]) ch"

definition drop_child :: "string \<Rightarrow> string \<Rightarrow> (string \<times> string list) list \<Rightarrow> (string \<times> string list) list" where
  "drop_child p i ch = (case map_of ch p of None \<Rightarrow> ch | Some ids \<Rightarrow> AList.update p (filter (\<lambda>c. c \<noteq> i) ids) ch)"

definition insert_in_memory :: "Node \<Rightarrow> TreeState \<Rightarrow> TreeState" where
  "insert_in_memory n st =
     \<lparr>nodes = AList.update (nd_id n) n (nodes st),
      children = (case nd_parent_id n of Some p \<Rightarrow> push_child p (nd_id n) (children st) | None \<Rightarrow> children st)\<rparr>"

text \<open>Loading the table at startup: every row becomes a node and joins its folder's children.\<close>

fun load_rows :: "TreeState \<Rightarrow> file_rows \<Rightarrow> (TreeState, TreeError) result" where
  "load_rows st [] = Ok st"
| "load_rows st (row # rows) = bind_result (node_from_row row) (\<lambda>n. load_rows (insert_in_memory n st) rows)"

definition tree_load :: "file_rows \<Rightarrow> (FileTree, TreeError) result" where
  "tree_load rows =
     bind_result (load_rows \<lparr>nodes = [], children = []\<rparr> rows)
       (\<lambda>st. Ok \<lparr>ft_rows = rows, ft_state = st, ft_catalog = None\<rparr>)"

text \<open>Writing a row and then the node made of it, the end of every operation that adds an entry.\<close>

definition add_row :: "bool \<Rightarrow> FileNodeRow \<Rightarrow> FileTree \<Rightarrow> (Node, TreeError) result \<times> FileTree" where
  "add_row fault row ft =
     (case or_tree_err (files_insert fault row (ft_rows ft)) map_write_err of
        Err e \<Rightarrow> (Err e, ft)
      | Panic \<Rightarrow> (Panic, ft)
      | Ok (row, rows) \<Rightarrow>
          let ft = ft\<lparr>ft_rows := rows\<rparr> in
          case node_from_row row of
            Err e \<Rightarrow> (Err e, ft)
          | Panic \<Rightarrow> (Panic, ft)
          | Ok n \<Rightarrow> (Ok n, ft\<lparr>ft_state := insert_in_memory n (ft_state ft)\<rparr>))"

definition folder_dest :: "TreeState \<Rightarrow> string \<Rightarrow> string \<Rightarrow> Session \<Rightarrow> (Node, TreeError) result" where
  "folder_dest st path name s =
     bind_result (resolve_as st path s)
       (\<lambda>parent. if \<not> is_folder (nd_kind parent) then Err NotAFolder
         else bind_result (check_place_into st parent s True)
           (\<lambda>_. bind_result (check_room st parent 0 (1 + length name))
             (\<lambda>_. if name_taken st (nd_id parent) name then Err NameExists else Ok parent)))"

definition check_owner :: "string option \<Rightarrow> Session \<Rightarrow> (unit, TreeError) result" where
  "check_owner owner s =
     (case owner of
        None \<Rightarrow> Ok ()
      | Some owner \<Rightarrow>
          if length owner > MAX_USERNAME_LEN then Err (InvalidName ''owner name is too long'')
          else if owner \<noteq> s_username s \<and> \<not> has (s_privileges s) USER_ADMIN then Err (AclRefused ForeignOwner)
          else Ok ())"

definition create_folder ::
  "bool \<Rightarrow> string \<Rightarrow> string \<Rightarrow> string \<Rightarrow> NodeKind \<Rightarrow> BaseClass \<Rightarrow> BaseClass \<Rightarrow> string option \<Rightarrow> Session \<Rightarrow> FileTree \<Rightarrow>
   (Node, TreeError) result \<times> FileTree" where
  "create_folder fault fresh parent_path name kind min_read min_write owner s ft =
     (let owner = (if owner = Some [] then None else owner) in
      case (if \<not> is_folder kind then Err NotAFolder
            else bind_result (validate_name name)
              (\<lambda>_. bind_result (check_owner owner s) (\<lambda>_. folder_dest (ft_state ft) parent_path name s))) of
        Err e \<Rightarrow> (Err e, ft)
      | Panic \<Rightarrow> (Panic, ft)
      | Ok parent \<Rightarrow>
          add_row fault (folder_row fresh (nd_id parent) name (kind_as_u8 kind) (class_i64 (min min_read (s_class s)))
            (class_i64 (min min_write (s_class s))) owner) ft)"

definition create_alias ::
  "bool \<Rightarrow> string \<Rightarrow> string \<Rightarrow> string \<Rightarrow> Session \<Rightarrow> FileTree \<Rightarrow> (Node, TreeError) result \<times> FileTree" where
  "create_alias fault fresh source_path dest_path s ft =
     (let st = ft_state ft in
      case bind_result (resolve_as st source_path s)
             (\<lambda>source. if nd_kind source = Alias then Err AliasChainRefused
               else if nd_id source = ROOT_ID then Err NotAFile
               else bind_result (check_node_readable st source s)
                 (\<lambda>_. bind_result (validate_name (nd_name source))
                   (\<lambda>_. bind_result (folder_dest st dest_path (nd_name source) s) (\<lambda>dest. Ok (source, dest))))) of
        Err e \<Rightarrow> (Err e, ft)
      | Panic \<Rightarrow> (Panic, ft)
      | Ok (source, dest) \<Rightarrow> add_row fault (alias_row fresh (nd_id dest) (nd_name source) (nd_id source)) ft)"

definition entry_name :: "TreeState \<Rightarrow> Node \<Rightarrow> string \<Rightarrow> (string \<Rightarrow> bool) option \<Rightarrow> (string, TreeError) result" where
  "entry_name st parent name rename =
     (if \<not> name_taken st (nd_id parent) name then Ok name
      else case rename of
        None \<Rightarrow> Err NameExists
      | Some reserved \<Rightarrow>
          bind_result (name_budget st parent)
            (\<lambda>budget. case free_name name (max (max budget (length name)) MIN_VARIANT_BUDGET)
                (\<lambda>c. name_taken st (nd_id parent) c \<or> reserved c) of
               Some c \<Rightarrow> Ok c
             | None \<Rightarrow> Err (InvalidPath ''path is too long'')))"

definition file_entry ::
  "bool \<Rightarrow> string \<Rightarrow> string \<Rightarrow> string \<Rightarrow> u64 \<Rightarrow> bytes \<Rightarrow> string \<Rightarrow> (string \<Rightarrow> bool) option \<Rightarrow> FileTree \<Rightarrow>
   (Node, TreeError) result \<times> FileTree" where
  "file_entry fault fresh parent_id name bytelen sha256 storage_path rename ft =
     (let st = ft_state ft in
      case bind_result (validate_name name)
             (\<lambda>_. bind_result (need_node (get_node st parent_id))
               (\<lambda>parent. if \<not> is_folder (nd_kind parent) then Err NotAFolder else entry_name st parent name rename)) of
        Err e \<Rightarrow> (Err e, ft)
      | Panic \<Rightarrow> (Panic, ft)
      | Ok name \<Rightarrow> add_row fault (file_row fresh parent_id name bytelen sha256 storage_path) ft)"

definition add_file ::
  "bool \<Rightarrow> string \<Rightarrow> string \<Rightarrow> string \<Rightarrow> u64 \<Rightarrow> bytes \<Rightarrow> string \<Rightarrow> FileTree \<Rightarrow> (Node, TreeError) result \<times> FileTree" where
  "add_file fault fresh parent_id name bytelen sha256 storage_path ft =
     file_entry fault fresh parent_id name bytelen sha256 storage_path None ft"

definition add_file_renaming ::
  "bool \<Rightarrow> string \<Rightarrow> string \<Rightarrow> string \<Rightarrow> u64 \<Rightarrow> bytes \<Rightarrow> string \<Rightarrow> (string \<Rightarrow> bool) \<Rightarrow> FileTree \<Rightarrow>
   (Node, TreeError) result \<times> FileTree" where
  "add_file_renaming fault fresh parent_id name bytelen sha256 storage_path reserved ft =
     file_entry fault fresh parent_id name bytelen sha256 storage_path (Some reserved) ft"

definition remove_file_node :: "bool \<Rightarrow> string \<Rightarrow> FileTree \<Rightarrow> (unit, TreeError) result \<times> FileTree" where
  "remove_file_node fault i ft =
     (let st = ft_state ft in
      case get_node st i of
        None \<Rightarrow> (Ok (), ft)
      | Some node \<Rightarrow>
          if nd_kind node \<noteq> File then (Err NotAFile, ft)
          else
            let gone = (\<lambda>rows. (Ok (), ft\<lparr>ft_rows := rows,
                  ft_state := \<lparr>nodes = AList.delete i (nodes st),
                    children = (case nd_parent_id node of Some p \<Rightarrow> drop_child p i (children st) | None \<Rightarrow> children st)\<rparr>\<rparr>))
            in case files_delete fault i (ft_rows ft) of
                 Ok rows \<Rightarrow> gone rows
               | Err NotFound \<Rightarrow> gone (ft_rows ft)
               | Err e \<Rightarrow> (Err (TreeStorage e), ft)
               | Panic \<Rightarrow> (Panic, ft))"

text \<open>What \<open>delete\<close> settles before it touches the table: the node, its folder, the ids to go, children
  first, and the paths of the bytes to unlink.\<close>

definition delete_plan :: "TreeState \<Rightarrow> string \<Rightarrow> Session \<Rightarrow> (Node \<times> Node \<times> string list \<times> string list, TreeError) result" where
  "delete_plan st path s =
     bind_result (resolve_as st path s)
       (\<lambda>node. if nd_id node = ROOT_ID then Err NotAFolder
         else bind_result (parent_of st node)
           (\<lambda>parent. bind_result (check_read_chain st parent s)
             (\<lambda>_. bind_result (acl (check_remove_from parent s))
               (\<lambda>_. if \<not> has (s_privileges s) FILE_DELETE then Err (AclRefused (PrivilegeRequired ''FILE_DELETE''))
                 else if is_folder (nd_kind node) \<and> \<not> has (s_privileges s) FILE_MANAGE_TREE
                 then Err (AclRefused (PrivilegeRequired ''FILE_MANAGE_TREE''))
                 else bind_result (collect_subtree_for_delete st node s)
                   (\<lambda>(ids, paths). Ok (node, parent, ids, paths))))))"

definition forget_nodes :: "string list \<Rightarrow> TreeState \<Rightarrow> TreeState" where
  "forget_nodes ids st = foldl (\<lambda>st i. \<lparr>nodes = AList.delete i (nodes st), children = AList.delete i (children st)\<rparr>) st ids"

definition tree_delete :: "bool \<Rightarrow> string \<Rightarrow> Session \<Rightarrow> FileTree \<Rightarrow> (NodeKind \<times> string list, TreeError) result \<times> FileTree" where
  "tree_delete fault path s ft =
     (case delete_plan (ft_state ft) path s of
        Err e \<Rightarrow> (Err e, ft)
      | Panic \<Rightarrow> (Panic, ft)
      | Ok (node, parent, ids, paths) \<Rightarrow>
          case files_delete_many fault ids (ft_rows ft) of
            Err e \<Rightarrow> (Err (TreeStorage e), ft)
          | Panic \<Rightarrow> (Panic, ft)
          | Ok rows \<Rightarrow>
              let st = forget_nodes ids (ft_state ft) in
              (Ok (nd_kind node, paths),
               ft\<lparr>ft_rows := rows, ft_state := st\<lparr>children := drop_child (nd_id parent) (nd_id node) (children st)\<rparr>\<rparr>))"

definition move_plan :: "TreeState \<Rightarrow> string \<Rightarrow> string \<Rightarrow> Session \<Rightarrow> (Node \<times> Node, TreeError) result" where
  "move_plan st path dest_path s =
     bind_result (resolve_as st path s)
       (\<lambda>node. if nd_id node = ROOT_ID then Err NotAFolder
         else bind_result (parent_of st node)
           (\<lambda>parent. bind_result (check_read_chain st parent s)
             (\<lambda>_. bind_result (acl (check_remove_from parent s))
               (\<lambda>_. bind_result (if is_folder (nd_kind node) then acl (check_remove_from node s) else Ok ())
                 (\<lambda>_. bind_result (resolve_as st dest_path s)
                   (\<lambda>dest. if \<not> is_folder (nd_kind dest) then Err NotAFolder
                     else bind_result (check_place_into st dest s True)
                       (\<lambda>_. bind_result (ancestry st dest)
                         (\<lambda>chain. if \<exists>n\<in>set chain. nd_id n = nd_id node then Err WouldCreateCycle
                           else if nd_id dest \<noteq> nd_id parent \<and> name_taken st (nd_id dest) (nd_name node) then Err NameExists
                           else bind_result (subtree_extent st node)
                             (\<lambda>(height, rel_len). bind_result (check_room st dest height rel_len)
                               (\<lambda>_. Ok (node, dest)))))))))))"

definition reparent_in_memory :: "string \<Rightarrow> string \<Rightarrow> TreeState \<Rightarrow> TreeState" where
  "reparent_in_memory i dest st =
     (let ch = (case Option.bind (get_node st i) nd_parent_id of Some p \<Rightarrow> drop_child p i (children st) | None \<Rightarrow> children st)
      in \<lparr>nodes = (case get_node st i of
                     Some n \<Rightarrow> AList.update i (n\<lparr>nd_parent_id := Some dest\<rparr>) (nodes st) | None \<Rightarrow> nodes st),
          children = push_child dest i ch\<rparr>)"

definition move_node :: "bool \<Rightarrow> string \<Rightarrow> string \<Rightarrow> Session \<Rightarrow> FileTree \<Rightarrow> (unit, TreeError) result \<times> FileTree" where
  "move_node fault path dest_path s ft =
     (case move_plan (ft_state ft) path dest_path s of
        Err e \<Rightarrow> (Err e, ft)
      | Panic \<Rightarrow> (Panic, ft)
      | Ok (node, dest) \<Rightarrow>
          case or_tree_err (files_reparent fault (nd_id node) (nd_id dest) (ft_rows ft)) map_write_err of
            Err e \<Rightarrow> (Err e, ft)
          | Panic \<Rightarrow> (Panic, ft)
          | Ok rows \<Rightarrow> (Ok (), ft\<lparr>ft_rows := rows, ft_state := reparent_in_memory (nd_id node) (nd_id dest) (ft_state ft)\<rparr>))"

section \<open>The catalogue\<close>

definition index_child :: "string \<Rightarrow> BaseClass \<Rightarrow> Node \<Rightarrow> CatalogEntry option" where
  "index_child folder_path folder_class child =
     (let path = folder_path @ ''/'' @ nd_name child in
      if nd_kind child = Alias \<or> length path > MAX_PATH_LEN then None
      else Some \<lparr>ce_path = path, ce_name = nd_name child, ce_kind = nd_kind child, ce_size = nd_size child,
                 ce_min_read_class = (if is_folder (nd_kind child) then max folder_class (nd_min_class_read child) else folder_class)\<rparr>)"

definition descend_child :: "string \<Rightarrow> BaseClass \<Rightarrow> Node \<Rightarrow> (Node \<times> string \<times> BaseClass) option" where
  "descend_child folder_path folder_class child =
     (case index_child folder_path folder_class child of
        None \<Rightarrow> None
      | Some e \<Rightarrow>
          if is_folder (nd_kind child) \<and> \<not> is_drop_box (nd_kind child) (nd_access_item child)
          then Some (child, ce_path e, ce_min_read_class e) else None)"

function catalog_loop :: "TreeState \<Rightarrow> nat \<Rightarrow> CatalogEntry list \<Rightarrow> (Node \<times> string \<times> BaseClass) list \<Rightarrow> CatalogEntry list" where
  "catalog_loop st visited out [] = out"
| "catalog_loop st visited out ((folder, folder_path, folder_class) # stack) =
     (if visited + 1 > length (nodes st) then out
      else
        let kids = child_nodes st (nd_id folder) in
        catalog_loop st (visited + 1) (out @ List.map_filter (index_child folder_path folder_class) kids)
          (rev (List.map_filter (descend_child folder_path folder_class) kids) @ stack))"
  by pat_completeness auto
termination by (relation "measure (\<lambda>(st, visited, _). length (nodes st) - visited)") auto

declare catalog_loop.simps(2) [simp del]

definition collect_catalog :: "TreeState \<Rightarrow> CatalogEntry list" where
  "collect_catalog st =
     (case get_node st ROOT_ID of
        None \<Rightarrow> []
      | Some root \<Rightarrow> catalog_loop st 0 [] [(root, [], nd_min_class_read root)])"

definition generate_catalog :: "FileTree \<Rightarrow> nat \<times> FileTree" where
  "generate_catalog ft =
     (let entries = collect_catalog (ft_state ft) in (length entries, ft\<lparr>ft_catalog := Some entries\<rparr>))"

text \<open>\<open>to_lowercase\<close> of the standard library follows the Unicode tables, which are an argument here.\<close>

definition tree_search ::
  "(string \<Rightarrow> string) \<Rightarrow> FileTree \<Rightarrow> string \<Rightarrow> BaseClass \<Rightarrow> nat \<Rightarrow> (CatalogEntry list, TreeError) result" where
  "tree_search to_lowercase ft query cls limit =
     (case ft_catalog ft of
        None \<Rightarrow> Err CatalogNotGenerated
      | Some entries \<Rightarrow>
          let needle = to_lowercase query in
          Ok (take limit (filter (\<lambda>e. cls \<ge> ce_min_read_class e)
            (filter (\<lambda>e. needle = [] \<or> sublist needle (to_lowercase (ce_name e))) entries))))"

end
