(* ===== verification/File_Links.thy ===== *)
theory File_Links
  imports File_Tree
begin

text \<open>
  The shape of the virtual file tree: parent links that lead to the root, child lists that invert them,
  names that are unique in their folder, aliases of real entries. Stated over the lookup functions the
  two hash maps stand for, with what adding, removing and moving an entry does to them.
\<close>

type_synonym node_map = "string \<Rightarrow> Node option"
type_synonym kid_map = "string \<Rightarrow> string list"

definition kid_ids :: "TreeState \<Rightarrow> string \<Rightarrow> string list" where
  "kid_ids st p = (case map_of (children st) p of None \<Rightarrow> [] | Some ids \<Rightarrow> ids)"

text \<open>A node, its folder, and so on to the root.\<close>

inductive up :: "node_map \<Rightarrow> Node \<Rightarrow> Node list \<Rightarrow> bool" for g where
  up_root: "nd_parent_id n = None \<Longrightarrow> nd_id n = ROOT_ID \<Longrightarrow> up g n [n]"
| up_step: "nd_parent_id n = Some p \<Longrightarrow> g p = Some m \<Longrightarrow> up g m c \<Longrightarrow> up g n (n # c)"

text \<open>The root is an ordinary folder, no drop box.\<close>

definition plain_folder :: "Node \<Rightarrow> bool" where
  "plain_folder n \<longleftrightarrow> is_folder (nd_kind n) \<and> \<not> is_drop_box (nd_kind n) (nd_access_item n)"

inductive_cases upE: "up g n c"

inductive_simps up_simp: "up g n c"

definition tree_inv :: "node_map \<Rightarrow> kid_map \<Rightarrow> bool" where
  "tree_inv g k \<longleftrightarrow>
     (\<forall>i n. g i = Some n \<longrightarrow> nd_id n = i) \<and>
     (\<exists>r. g ROOT_ID = Some r \<and> nd_parent_id r = None \<and> plain_folder r) \<and>
     (\<forall>i n. g i = Some n \<longrightarrow> (\<exists>c. up g n c)) \<and>
     (\<forall>i n p. g i = Some n \<longrightarrow> nd_parent_id n = Some p \<longrightarrow> (\<exists>m. g p = Some m \<and> is_folder (nd_kind m))) \<and>
     (\<forall>p i. i \<in> set (k p) \<longleftrightarrow> (\<exists>n. g i = Some n \<and> nd_parent_id n = Some p)) \<and>
     (\<forall>p. distinct (k p)) \<and>
     (\<forall>i j n m. g i = Some n \<longrightarrow> g j = Some m \<longrightarrow> nd_parent_id n = nd_parent_id m \<longrightarrow> nd_name n = nd_name m \<longrightarrow> i = j) \<and>
     (\<forall>i n t m. g i = Some n \<longrightarrow> nd_kind n = Alias \<longrightarrow> nd_target_id n = Some t \<longrightarrow> g t = Some m \<longrightarrow> nd_kind m \<noteq> Alias) \<and>
     (\<forall>i n. g i = Some n \<longrightarrow> nd_access_item n = AccessItem_parse (nd_name n) \<and>
        (nd_parent_id n \<noteq> None \<longrightarrow> validate_name (nd_name n) = Ok ()))"

lemma inv_facts:
  assumes "tree_inv g k"
  shows inv_id: "g i = Some n \<Longrightarrow> nd_id n = i"
    and inv_root: "\<exists>r. g ROOT_ID = Some r \<and> nd_parent_id r = None \<and> plain_folder r"
    and inv_up: "g i = Some n \<Longrightarrow> \<exists>c. up g n c"
    and inv_parent: "g i = Some n \<Longrightarrow> nd_parent_id n = Some p \<Longrightarrow> \<exists>m. g p = Some m \<and> is_folder (nd_kind m)"
    and inv_kids: "i \<in> set (k p) \<longleftrightarrow> (\<exists>n. g i = Some n \<and> nd_parent_id n = Some p)"
    and inv_distinct: "distinct (k p)"
    and inv_names: "g i = Some n \<Longrightarrow> g j = Some m \<Longrightarrow> nd_parent_id n = nd_parent_id m \<Longrightarrow> nd_name n = nd_name m \<Longrightarrow> i = j"
    and inv_alias: "g i = Some n \<Longrightarrow> nd_kind n = Alias \<Longrightarrow> nd_target_id n = Some t \<Longrightarrow> g t = Some m \<Longrightarrow> nd_kind m \<noteq> Alias"
    and inv_item: "g i = Some n \<Longrightarrow> nd_access_item n = AccessItem_parse (nd_name n)"
    and inv_valid: "g i = Some n \<Longrightarrow> nd_parent_id n \<noteq> None \<Longrightarrow> validate_name (nd_name n) = Ok ()"
proof -
  note all = assms [unfolded tree_inv_def]
  show "g i = Some n \<Longrightarrow> nd_id n = i"
    using all [THEN conjunct1] by blast
  show "\<exists>r. g ROOT_ID = Some r \<and> nd_parent_id r = None \<and> plain_folder r"
    using all [THEN conjunct2, THEN conjunct1] by simp
  show "g i = Some n \<Longrightarrow> \<exists>c. up g n c"
    using all [THEN conjunct2, THEN conjunct2, THEN conjunct1] by blast
  show "g i = Some n \<Longrightarrow> nd_parent_id n = Some p \<Longrightarrow> \<exists>m. g p = Some m \<and> is_folder (nd_kind m)"
    using all [THEN conjunct2, THEN conjunct2, THEN conjunct2, THEN conjunct1] by blast
  show "i \<in> set (k p) \<longleftrightarrow> (\<exists>n. g i = Some n \<and> nd_parent_id n = Some p)"
    using all [THEN conjunct2, THEN conjunct2, THEN conjunct2, THEN conjunct2, THEN conjunct1] by blast
  show "distinct (k p)"
    using all [THEN conjunct2, THEN conjunct2, THEN conjunct2, THEN conjunct2, THEN conjunct2, THEN conjunct1] by blast
  show "g i = Some n \<Longrightarrow> g j = Some m \<Longrightarrow> nd_parent_id n = nd_parent_id m \<Longrightarrow> nd_name n = nd_name m \<Longrightarrow> i = j"
    using all [THEN conjunct2, THEN conjunct2, THEN conjunct2, THEN conjunct2, THEN conjunct2, THEN conjunct2, THEN conjunct1] by blast
  show "g i = Some n \<Longrightarrow> nd_kind n = Alias \<Longrightarrow> nd_target_id n = Some t \<Longrightarrow> g t = Some m \<Longrightarrow> nd_kind m \<noteq> Alias"
    using all [THEN conjunct2, THEN conjunct2, THEN conjunct2, THEN conjunct2, THEN conjunct2, THEN conjunct2, THEN conjunct2, THEN conjunct1] by blast
  show "g i = Some n \<Longrightarrow> nd_access_item n = AccessItem_parse (nd_name n)"
    using all [THEN conjunct2, THEN conjunct2, THEN conjunct2, THEN conjunct2, THEN conjunct2, THEN conjunct2, THEN conjunct2, THEN conjunct2] by blast
  show "g i = Some n \<Longrightarrow> nd_parent_id n \<noteq> None \<Longrightarrow> validate_name (nd_name n) = Ok ()"
    using all [THEN conjunct2, THEN conjunct2, THEN conjunct2, THEN conjunct2, THEN conjunct2, THEN conjunct2, THEN conjunct2, THEN conjunct2] by blast
qed

text \<open>Only the root has no folder.\<close>

lemma inv_parent_None:
  assumes "tree_inv g k" and "g i = Some n"
  shows "nd_parent_id n = None \<longleftrightarrow> i = ROOT_ID"
proof -
  obtain c where "up g n c" using inv_up [OF assms] by blast
  then show ?thesis using inv_id [OF assms] inv_root [OF assms(1)] assms(2) by (cases rule: up.cases) auto
qed

lemma up_head: "up g n c \<Longrightarrow> \<exists>r. c = n # r"
  by (cases rule: up.cases) auto

lemma up_unique: "up g n c \<Longrightarrow> up g n d \<Longrightarrow> c = d"
proof (induction arbitrary: d rule: up.induct)
  case (up_root n)
  from up_root.prems show ?case by (rule upE) (use up_root.hyps in simp_all)
next
  case (up_step n p m c)
  from up_step.prems show ?case
  proof (rule upE)
    fix p' m' c'
    assume d: "nd_parent_id n = Some p'" "g p' = Some m'" "up g m' c'" "d = n # c'"
    then have "m' = m" using up_step.hyps by simp
    with d up_step.IH show ?thesis by simp
  qed (use up_step.hyps in simp)
qed

lemma up_known:
  assumes inv: "tree_inv g k" and "up g n c" and "m \<in> set (tl c)"
  shows "g (nd_id m) = Some m"
  using assms(2,3)
proof (induction rule: up.induct)
  case (up_step n p x c)
  obtain r where c: "c = x # r" using up_head [OF up_step.hyps(3)] by blast
  show ?case
  proof (cases "m = x")
    case True
    then show ?thesis using inv_id [OF inv up_step.hyps(2)] up_step.hyps(2) by simp
  next
    case False
    then show ?thesis using up_step.prems up_step.IH c by simp
  qed
qed simp

text \<open>The chain of a node further up is the end of the chain.\<close>

lemma up_suffix: "up g n c \<Longrightarrow> m \<in> set c \<Longrightarrow> \<exists>front d. c = front @ d \<and> up g m d"
proof (induction rule: up.induct)
  case (up_root n)
  then show ?case using up.up_root [of n g] by auto
next
  case (up_step n p x c)
  show ?case
  proof (cases "m = n")
    case True
    have "up g n (n # c)" using up_step.hyps by (rule up.up_step)
    with True show ?thesis by (intro exI [of _ "[]"] exI [of _ "n # c"]) simp
  next
    case False
    then obtain front d where "c = front @ d" "up g m d" using up_step by auto
    then show ?thesis by (intro exI [of _ "n # front"] exI [of _ d]) simp
  qed
qed

lemma up_last: "up g n c \<Longrightarrow> nd_id (last c) = ROOT_ID \<and> nd_parent_id (last c) = None"
  by (induction rule: up.induct) (auto dest: up_head)

text \<open>A chain visits every entry at most once: a second visit would make it longer than itself.\<close>

lemma up_distinct:
  assumes inv: "tree_inv g k" and "up g n c" and "g (nd_id n) = Some n"
  shows "distinct (map nd_id c)"
  using assms(2,3)
proof (induction rule: up.induct)
  case (up_step n p m c)
  have chain: "up g n (n # c)" using up_step.hyps by (rule up.up_step)
  have "nd_id n \<noteq> nd_id x" if x: "x \<in> set c" for x
  proof
    assume eq: "nd_id n = nd_id x"
    have "g (nd_id x) = Some x" using up_known [OF inv chain] x by simp
    with eq up_step.prems have "x = n" by (metis option.inject)
    then obtain front d where d: "c = front @ d" "up g n d" using up_suffix [OF up_step.hyps(3) x] by blast
    have "d = n # c" using up_unique [OF d(2) chain] .
    then have "length d = Suc (length c)" by simp
    then show False using d(1) by simp
  qed
  moreover have "distinct (map nd_id c)"
    using up_step.IH inv_id [OF inv up_step.hyps(2)] up_step.hyps(2) by simp
  ultimately show ?case by auto
qed simp


section \<open>The entries below an entry\<close>

definition below :: "node_map \<Rightarrow> string \<Rightarrow> string \<Rightarrow> bool" where
  "below g t i \<longleftrightarrow> (\<exists>n c. g i = Some n \<and> up g n c \<and> t \<in> nd_id ` set c)"

lemma below_iff:
  assumes "g i = Some n" and "up g n c"
  shows "below g t i \<longleftrightarrow> t \<in> nd_id ` set c"
proof
  assume "below g t i"
  then obtain n' c' where h: "g i = Some n'" "up g n' c'" "t \<in> nd_id ` set c'" unfolding below_def by (elim exE conjE)
  then have "n' = n" using assms(1) by simp
  with h show "t \<in> nd_id ` set c" using up_unique [of g n c' c] assms(2) by simp
next
  assume "t \<in> nd_id ` set c"
  with assms show "below g t i" unfolding below_def by (intro exI conjI)
qed

lemma below_refl: "tree_inv g k \<Longrightarrow> g i = Some n \<Longrightarrow> below g i i"
  using inv_up [of g k i n] inv_id [of g k i n] up_head [of g n] below_iff [of g i n] by force

lemma below_step:
  assumes inv: "tree_inv g k" and n: "g i = Some n" and p: "nd_parent_id n = Some p"
  shows "below g t i \<longleftrightarrow> t = i \<or> below g t p"
proof -
  obtain m where m: "g p = Some m" using inv_parent [OF inv n p] by blast
  obtain c where c: "up g m c" using inv_up [OF inv m] by blast
  have chain: "up g n (n # c)" using p m c by (rule up_step)
  have "below g t i \<longleftrightarrow> t \<in> nd_id ` set (n # c)"
    using below_iff [OF n chain] .
  moreover have "below g t p \<longleftrightarrow> t \<in> nd_id ` set c"
    using below_iff [OF m c] .
  ultimately show ?thesis using inv_id [OF inv n] by auto
qed

lemma below_root:
  assumes inv: "tree_inv g k" and n: "g i = Some n" and p: "nd_parent_id n = None"
  shows "below g t i \<longleftrightarrow> t = i"
proof -
  have chain: "up g n [n]" using p inv_parent_None [OF inv n] inv_id [OF inv n] by (intro up_root) simp_all
  show ?thesis using below_iff [OF n chain] inv_id [OF inv n] by auto
qed

text \<open>Seen from above: what is below an entry is the entry and what is below its children.\<close>

lemma below_kids:
  assumes inv: "tree_inv g k" and t: "g t = Some top_node"
  shows "below g t i \<longleftrightarrow> i = t \<or> (\<exists>c\<in>set (k t). below g c i)"
proof
  assume "below g t i"
  then obtain n c where n: "g i = Some n" and up: "up g n c" and mem: "t \<in> nd_id ` set c" unfolding below_def by blast
  from up n mem show "i = t \<or> (\<exists>c\<in>set (k t). below g c i)"
  proof (induction arbitrary: i rule: up.induct)
    case (up_root n)
    then show ?case using inv_id [OF inv] by auto
  next
    case (up_step n p m c)
    show ?case
    proof (cases "t = nd_id n")
      case True
      then show ?thesis using inv_id [OF inv] up_step.prems by auto
    next
      case False
      then have "p = t \<or> (\<exists>c\<in>set (k t). below g c p)" using up_step.IH [OF up_step.hyps(2)] up_step.prems by auto
      moreover have "i \<in> set (k t)" if "p = t" using inv_kids [OF inv] up_step.prems(1) up_step.hyps(1) that by blast
      moreover have "below g i i" using below_refl [OF inv up_step.prems(1)] .
      moreover have "below g x i" if "below g x p" for x using below_step [OF inv up_step.prems(1) up_step.hyps(1)] that by blast
      ultimately show ?thesis by blast
    qed
  qed
next
  assume "i = t \<or> (\<exists>c\<in>set (k t). below g c i)"
  then show "below g t i"
  proof
    assume "i = t"
    then show ?thesis using below_refl [OF inv t] by simp
  next
    assume "\<exists>c\<in>set (k t). below g c i"
    then obtain x where x: "x \<in> set (k t)" "below g x i" by blast
    then obtain nx where nx: "g x = Some nx" "nd_parent_id nx = Some t" using inv_kids [OF inv] by blast
    obtain n c where n: "g i = Some n" "up g n c" "x \<in> nd_id ` set c" using x(2) unfolding below_def by blast
    from n(3) obtain y where y: "y \<in> set c" "x = nd_id y" by blast
    have "c \<noteq> []" "hd c = n" using up_head [OF n(2)] by auto
    then have "g (nd_id y) = Some y"
      using up_known [OF inv n(2)] y(1) n(1) inv_id [OF inv n(1)] by (cases c) auto
    then have "y = nx" using nx y by simp
    obtain front d where d: "c = front @ d" "up g y d" using up_suffix [OF n(2) y(1)] by blast
    from d(2) have "t \<in> nd_id ` set d"
    proof (cases rule: up.cases)
      case (up_step p m c')
      then have "p = t" using nx \<open>y = nx\<close> by simp
      with up_step show ?thesis using up_head [of g m c'] inv_id [OF inv, of t m] by auto
    qed (use nx \<open>y = nx\<close> in simp)
    with d(1) n show ?thesis unfolding below_def by auto
  qed
qed

lemma below_dom: "below g t i \<Longrightarrow> g i \<noteq> None"
  by (auto simp: below_def)

lemma not_folder_no_kids:
  assumes inv: "tree_inv g k" and n: "g i = Some n" and leaf: "\<not> is_folder (nd_kind n)"
  shows "k i = []"
proof (rule ccontr)
  assume "k i \<noteq> []"
  then obtain x where "x \<in> set (k i)" by (cases "k i") auto
  then obtain nx where nx: "g x = Some nx" "nd_parent_id nx = Some i" using inv_kids [OF inv] by blast
  then obtain m where "g i = Some m" "is_folder (nd_kind m)" using inv_parent [OF inv nx] by blast
  with n leaf show False by simp
qed

section \<open>Adding, removing and moving\<close>

lemma up_frame:
  assumes "up g n c" and "\<And>m. m \<in> set (tl c) \<Longrightarrow> g (nd_id m) = Some m \<and> g' (nd_id m) = Some m"
    and "tree_inv g k"
  shows "up g' n c"
  using assms(1,2)
proof (induction rule: up.induct)
  case (up_root n)
  then show ?case by (intro up.up_root)
next
  case (up_step n p m c)
  obtain r where r: "c = m # r" using up_head [OF up_step.hyps(3)] by blast
  have "nd_id m = p" using inv_id [OF assms(3) up_step.hyps(2)] .
  then have "g' p = Some m" using up_step.prems [of m] r by simp
  moreover have "up g' m c" using up_step.prems r by (intro up_step.IH) simp
  ultimately show ?case using up_step.hyps(1) by (intro up.up_step)
qed

lemma tree_invI:
  assumes "\<And>i n. g i = Some n \<Longrightarrow> nd_id n = i"
    and "\<exists>r. g ROOT_ID = Some r \<and> nd_parent_id r = None \<and> plain_folder r"
    and "\<And>i n. g i = Some n \<Longrightarrow> \<exists>c. up g n c"
    and "\<And>i n p. g i = Some n \<Longrightarrow> nd_parent_id n = Some p \<Longrightarrow> \<exists>m. g p = Some m \<and> is_folder (nd_kind m)"
    and "\<And>p i. i \<in> set (k p) \<longleftrightarrow> (\<exists>n. g i = Some n \<and> nd_parent_id n = Some p)"
    and "\<And>p. distinct (k p)"
    and "\<And>i j n m. g i = Some n \<Longrightarrow> g j = Some m \<Longrightarrow> nd_parent_id n = nd_parent_id m \<Longrightarrow> nd_name n = nd_name m \<Longrightarrow> i = j"
    and "\<And>i n t m. g i = Some n \<Longrightarrow> nd_kind n = Alias \<Longrightarrow> nd_target_id n = Some t \<Longrightarrow> g t = Some m \<Longrightarrow> nd_kind m \<noteq> Alias"
    and "\<And>i n. g i = Some n \<Longrightarrow> nd_access_item n = AccessItem_parse (nd_name n)"
    and "\<And>i n. g i = Some n \<Longrightarrow> nd_parent_id n \<noteq> None \<Longrightarrow> validate_name (nd_name n) = Ok ()"
  shows "tree_inv g k"
proof -
  have "\<forall>i n. g i = Some n \<longrightarrow> nd_id n = i" by (intro allI impI) (rule assms(1))
  moreover note assms(2)
  moreover have "\<forall>i n. g i = Some n \<longrightarrow> (\<exists>c. up g n c)" by (intro allI impI) (rule assms(3))
  moreover have "\<forall>i n p. g i = Some n \<longrightarrow> nd_parent_id n = Some p \<longrightarrow> (\<exists>m. g p = Some m \<and> is_folder (nd_kind m))"
    by (intro allI impI) (rule assms(4))
  moreover have "\<forall>p i. i \<in> set (k p) \<longleftrightarrow> (\<exists>n. g i = Some n \<and> nd_parent_id n = Some p)" by (intro allI) (rule assms(5))
  moreover have "\<forall>p. distinct (k p)" by (intro allI) (rule assms(6))
  moreover have "\<forall>i j n m. g i = Some n \<longrightarrow> g j = Some m \<longrightarrow> nd_parent_id n = nd_parent_id m \<longrightarrow> nd_name n = nd_name m \<longrightarrow> i = j"
    by (intro allI impI) (rule assms(7))
  moreover have "\<forall>i n t m. g i = Some n \<longrightarrow> nd_kind n = Alias \<longrightarrow> nd_target_id n = Some t \<longrightarrow> g t = Some m \<longrightarrow> nd_kind m \<noteq> Alias"
    by (intro allI impI) (rule assms(8))
  moreover have "\<forall>i n. g i = Some n \<longrightarrow> nd_access_item n = AccessItem_parse (nd_name n) \<and>
      (nd_parent_id n \<noteq> None \<longrightarrow> validate_name (nd_name n) = Ok ())"
    by (intro allI impI conjI) (rule assms(9), assumption, rule assms(10))
  ultimately show ?thesis unfolding tree_inv_def by (intro conjI)
qed

text \<open>What a new entry has to satisfy.\<close>

definition fits :: "node_map \<Rightarrow> string \<Rightarrow> Node \<Rightarrow> bool" where
  "fits g p n \<longleftrightarrow>
     g (nd_id n) = None \<and> nd_parent_id n = Some p \<and> (\<exists>m. g p = Some m \<and> is_folder (nd_kind m)) \<and>
     (\<forall>j m. g j = Some m \<longrightarrow> nd_parent_id m = Some p \<longrightarrow> nd_name m \<noteq> nd_name n) \<and>
     (\<forall>j m. g j = Some m \<longrightarrow> nd_target_id m \<noteq> Some (nd_id n)) \<and> nd_target_id n \<noteq> Some (nd_id n) \<and>
     (\<forall>t m. nd_kind n = Alias \<longrightarrow> nd_target_id n = Some t \<longrightarrow> g t = Some m \<longrightarrow> nd_kind m \<noteq> Alias) \<and>
     nd_access_item n = AccessItem_parse (nd_name n) \<and> validate_name (nd_name n) = Ok ()"

lemma fits_facts:
  assumes "fits g p n"
  shows fits_new: "g (nd_id n) = None"
    and fits_parent: "nd_parent_id n = Some p"
    and fits_folder: "\<exists>m. g p = Some m \<and> is_folder (nd_kind m)"
    and fits_name: "g j = Some m \<Longrightarrow> nd_parent_id m = Some p \<Longrightarrow> nd_name m \<noteq> nd_name n"
    and fits_target: "g j = Some m \<Longrightarrow> nd_target_id m \<noteq> Some (nd_id n)" "nd_target_id n \<noteq> Some (nd_id n)"
    and fits_alias: "nd_kind n = Alias \<Longrightarrow> nd_target_id n = Some t \<Longrightarrow> g t = Some x \<Longrightarrow> nd_kind x \<noteq> Alias"
    and fits_item: "nd_access_item n = AccessItem_parse (nd_name n)" "validate_name (nd_name n) = Ok ()"
  using assms unfolding fits_def by simp_all

lemma inv_insert:
  assumes inv: "tree_inv g k" and fits: "fits g p n"
  shows "tree_inv (g(nd_id n \<mapsto> n)) (k(p := k p @ [nd_id n]))"
proof -
  let ?i = "nd_id n" and ?g = "g(nd_id n \<mapsto> n)" and ?k = "k(p := k p @ [nd_id n])"
  have new: "g ?i = None" and par: "nd_parent_id n = Some p" using fits_new [OF fits] fits_parent [OF fits] .
  obtain m where m: "g p = Some m" "is_folder (nd_kind m)" using fits_folder [OF fits] by blast
  have p: "p \<noteq> ?i" using new m by auto
  obtain r where r: "g ROOT_ID = Some r" "nd_parent_id r = None" "plain_folder r" using inv_root [OF inv] by blast
  have root: "ROOT_ID \<noteq> ?i" using r new by auto
  have keep: "?g j = g j" if "g j \<noteq> None" for j using that new by auto
  have up: "up ?g x c" if x: "g j = Some x" "up g x c" for j x c
  proof (rule up_frame [OF x(2) _ inv])
    fix y
    assume "y \<in> set (tl c)"
    then have "g (nd_id y) = Some y" by (rule up_known [OF inv x(2)])
    then show "g (nd_id y) = Some y \<and> ?g (nd_id y) = Some y" using keep by simp
  qed
  show ?thesis
  proof (rule tree_invI)
    show "nd_id x = j" if "?g j = Some x" for j x using that inv_id [OF inv, of j x] by (simp split: if_splits)
    show "\<exists>r. ?g ROOT_ID = Some r \<and> nd_parent_id r = None \<and> plain_folder r" using r root by simp
    show "\<exists>c. up ?g x c" if x: "?g j = Some x" for j x
    proof (cases "j = ?i")
      case True
      obtain c where "up g m c" using inv_up [OF inv m(1)] by blast
      then have "up ?g n (n # c)" using par m(1) p up by (intro up_step) auto
      then show ?thesis using x True by auto
    next
      case False
      then have "g j = Some x" using x by simp
      then show ?thesis using inv_up [OF inv, of j x] up by blast
    qed
    show "\<exists>y. ?g q = Some y \<and> is_folder (nd_kind y)" if x: "?g j = Some x" "nd_parent_id x = Some q" for j x q
    proof (cases "j = ?i")
      case True
      then show ?thesis using x par m p by simp
    next
      case False
      then obtain y where "g q = Some y" "is_folder (nd_kind y)" using inv_parent [OF inv, of j x q] x by auto
      then show ?thesis using keep [of q] by simp
    qed
    show "j \<in> set (?k q) \<longleftrightarrow> (\<exists>x. ?g j = Some x \<and> nd_parent_id x = Some q)" for q j
      using inv_kids [OF inv, of j q] new par by (cases "j = ?i"; cases "q = p") auto
    show "distinct (?k q)" for q
      using inv_distinct [OF inv, of q] inv_kids [OF inv, of ?i p] new by auto
    show "j = l" if "?g j = Some x" "?g l = Some y" "nd_parent_id x = nd_parent_id y" "nd_name x = nd_name y" for j l x y
    proof (cases "j = ?i \<or> l = ?i")
      case True
      then show ?thesis using that fits_name [OF fits, of j x] fits_name [OF fits, of l y] par by (auto split: if_splits)
    next
      case False
      then show ?thesis using that inv_names [OF inv, of j x l y] by simp
    qed
    show "nd_kind y \<noteq> Alias" if "?g j = Some x" "nd_kind x = Alias" "nd_target_id x = Some t" "?g t = Some y" for j x t y
    proof (cases "j = ?i")
      case True
      then show ?thesis using that fits_alias [OF fits, of t y] fits_target(2) [OF fits] by (auto split: if_splits)
    next
      case False
      then show ?thesis using that inv_alias [OF inv, of j x t y] fits_target(1) [OF fits, of j x] by (auto split: if_splits)
    qed
    show "nd_access_item x = AccessItem_parse (nd_name x)" if "?g j = Some x" for j x
      using that inv_item [OF inv, of j x] fits_item [OF fits] by (auto split: if_splits)
    show "validate_name (nd_name x) = Ok ()" if "?g j = Some x" "nd_parent_id x \<noteq> None" for j x
      using that inv_valid [OF inv, of j x] fits_item [OF fits] by (auto split: if_splits)
  qed
qed

text \<open>Removing a set of entries that holds with every folder what the folder holds.\<close>

lemma inv_remove:
  assumes inv: "tree_inv g k" and closed: "\<And>i n p. g i = Some n \<Longrightarrow> nd_parent_id n = Some p \<Longrightarrow> p \<in> D \<Longrightarrow> i \<in> D"
    and root: "ROOT_ID \<notin> D"
  shows "tree_inv (g |` (- D)) (\<lambda>p. filter (\<lambda>i. i \<notin> D) (k p))"
proof -
  let ?g = "g |` (- D)"
  have g: "?g j = Some x \<longleftrightarrow> g j = Some x \<and> j \<notin> D" for j x by (auto simp: restrict_map_def)
  have up: "up g x c \<Longrightarrow> g j = Some x \<Longrightarrow> j \<notin> D \<Longrightarrow> up ?g x c" for j x c
  proof (induction arbitrary: j rule: up.induct)
    case (up_step y p m c)
    then have "p \<notin> D" using closed by blast
    then show ?case using up_step by (intro up.up_step) (auto simp: g)
  qed (intro up_root)
  show ?thesis
  proof (rule tree_invI)
    show "\<exists>r. ?g ROOT_ID = Some r \<and> nd_parent_id r = None \<and> plain_folder r" using inv_root [OF inv] root g by auto
    show "nd_id x = j" if "?g j = Some x" for j x using that inv_id [OF inv, of j x] by (simp add: g)
    show "\<exists>c. up ?g x c" if "?g j = Some x" for j x using that inv_up [OF inv, of j x] up by (auto simp: g)
    show "\<exists>y. ?g q = Some y \<and> is_folder (nd_kind y)" if "?g j = Some x" "nd_parent_id x = Some q" for j x q
      using that inv_parent [OF inv, of j x q] closed [of j x q] by (auto simp: g)
    show "j \<in> set (filter (\<lambda>i. i \<notin> D) (k q)) \<longleftrightarrow> (\<exists>x. ?g j = Some x \<and> nd_parent_id x = Some q)" for q j
      using inv_kids [OF inv, of j q] by (auto simp: g)
    show "distinct (filter (\<lambda>i. i \<notin> D) (k q))" for q using inv_distinct [OF inv, of q] by simp
    show "j = l" if "?g j = Some x" "?g l = Some y" "nd_parent_id x = nd_parent_id y" "nd_name x = nd_name y" for j l x y
      using that inv_names [OF inv, of j x l y] by (simp add: g)
    show "nd_kind y \<noteq> Alias" if "?g j = Some x" "nd_kind x = Alias" "nd_target_id x = Some t" "?g t = Some y" for j x t y
      using that inv_alias [OF inv, of j x t y] by (simp add: g)
    show "nd_access_item x = AccessItem_parse (nd_name x)" if "?g j = Some x" for j x
      using that inv_item [OF inv, of j x] by (simp add: g)
    show "validate_name (nd_name x) = Ok ()" if "?g j = Some x" "nd_parent_id x \<noteq> None" for j x
      using that inv_valid [OF inv, of j x] by (simp add: g)
  qed
qed

text \<open>Moving an entry into a folder that is not below it.\<close>

lemma inv_move:
  assumes inv: "tree_inv g k" and n: "g i = Some n" and par: "nd_parent_id n = Some p"
    and m: "g dest = Some m" "is_folder (nd_kind m)" and apart: "\<not> below g i dest"
    and free: "\<And>j x. g j = Some x \<Longrightarrow> nd_parent_id x = Some dest \<Longrightarrow> nd_name x = nd_name n \<Longrightarrow> j = i"
  shows "tree_inv (g(i \<mapsto> n\<lparr>nd_parent_id := Some dest\<rparr>))
    (\<lambda>q. if q = dest then filter (\<lambda>j. j \<noteq> i) (k q) @ [i] else if q = p then filter (\<lambda>j. j \<noteq> i) (k q) else k q)"
proof -
  let ?n = "n\<lparr>nd_parent_id := Some dest\<rparr>"
  let ?g = "g(i \<mapsto> ?n)"
  have id: "nd_id n = i" using inv_id [OF inv n] .
  have "dest \<noteq> i" using apart below_refl [OF inv m(1)] by auto
  obtain d where d: "up g m d" using inv_up [OF inv m(1)] by blast
  have d': "up ?g m d"
  proof (rule up_frame [OF d _ inv])
    fix y
    assume y: "y \<in> set (tl d)"
    then have "g (nd_id y) = Some y" by (rule up_known [OF inv d])
    moreover have "nd_id y \<noteq> i" using apart below_iff [OF m(1) d] y by (cases d) auto
    ultimately show "g (nd_id y) = Some y \<and> ?g (nd_id y) = Some y" by simp
  qed
  have top_up: "up ?g ?n (?n # d)" using d' m(1) \<open>dest \<noteq> i\<close> by (intro up_step [of _ dest _ m]) auto
  have up: "up g x c \<Longrightarrow> g j = Some x \<Longrightarrow> j \<noteq> i \<Longrightarrow> \<exists>c. up ?g x c" for j x c
  proof (induction arbitrary: j rule: up.induct)
    case (up_root x)
    then show ?case using up.up_root by blast
  next
    case (up_step x q y c)
    show ?case
    proof (cases "q = i")
      case True
      have "up ?g x (x # ?n # d)" by (rule up.up_step [of x i _ ?n]) (use up_step.hyps(1) True top_up in auto)
      then show ?thesis by blast
    next
      case False
      then obtain c' where "up ?g y c'" using up_step.IH [OF up_step.hyps(2)] by blast
      then have "up ?g x (x # c')" using up_step.hyps False by (intro up.up_step [of _ q _ y]) auto
      then show ?thesis by blast
    qed
  qed
  show ?thesis
  proof (rule tree_invI)
    have "i \<noteq> ROOT_ID" using inv_root [OF inv] n par by auto
    then show "\<exists>r. ?g ROOT_ID = Some r \<and> nd_parent_id r = None \<and> plain_folder r" using inv_root [OF inv] by auto
    show "nd_id x = j" if "?g j = Some x" for j x using that inv_id [OF inv, of j x] id by (auto split: if_splits)
    show "\<exists>c. up ?g x c" if x: "?g j = Some x" for j x
    proof (cases "j = i")
      case True
      then show ?thesis using x top_up by auto
    next
      case False
      then have "g j = Some x" using x by simp
      then show ?thesis using inv_up [OF inv, of j x] up False by blast
    qed
    show "\<exists>y. ?g q = Some y \<and> is_folder (nd_kind y)" if x: "?g j = Some x" "nd_parent_id x = Some q" for j x q
    proof -
      obtain y where "g q = Some y" "is_folder (nd_kind y)"
        using x m inv_parent [OF inv, of j x q] by (cases "j = i") auto
      then show ?thesis using n by (cases "q = i") auto
    qed
    show "j \<in> set (if q = dest then filter (\<lambda>j. j \<noteq> i) (k q) @ [i] else if q = p then filter (\<lambda>j. j \<noteq> i) (k q) else k q) \<longleftrightarrow>
        (\<exists>x. ?g j = Some x \<and> nd_parent_id x = Some q)" for q j
      using inv_kids [OF inv, of j q] n par by (cases "j = i") auto
    show "distinct (if q = dest then filter (\<lambda>j. j \<noteq> i) (k q) @ [i] else if q = p then filter (\<lambda>j. j \<noteq> i) (k q) else k q)" for q
      using inv_distinct [OF inv] by simp
    show "j = l" if "?g j = Some x" "?g l = Some y" "nd_parent_id x = nd_parent_id y" "nd_name x = nd_name y" for j l x y
    proof (cases "j = i \<or> l = i")
      case True
      then show ?thesis using that free [of j x] free [of l y] by (auto split: if_splits)
    next
      case False
      then show ?thesis using that inv_names [OF inv, of j x l y] by simp
    qed
    show "nd_kind y \<noteq> Alias" if x: "?g j = Some x" "nd_kind x = Alias" "nd_target_id x = Some t" "?g t = Some y" for j x t y
    proof -
      obtain x' y' where "g j = Some x'" "nd_kind x' = Alias" "nd_target_id x' = Some t" "g t = Some y'" "nd_kind y' = nd_kind y"
        using x n by (cases "j = i"; cases "t = i") auto
      then show ?thesis using inv_alias [OF inv, of j x' t y'] by simp
    qed
    show "nd_access_item x = AccessItem_parse (nd_name x)" if "?g j = Some x" for j x
      using that inv_item [OF inv, of j x] inv_item [OF inv n] by (auto split: if_splits)
    show "validate_name (nd_name x) = Ok ()" if "?g j = Some x" "nd_parent_id x \<noteq> None" for j x
      using that inv_valid [OF inv, of j x] inv_valid [OF inv n] par by (auto split: if_splits)
  qed
qed

section \<open>What lies below, in order\<close>

lemma below_trans:
  assumes inv: "tree_inv g k" and "below g a b" and "below g b i"
  shows "below g a i"
proof -
  obtain n c where n: "g i = Some n" "up g n c" "b \<in> nd_id ` set c" using assms(3) unfolding below_def by blast
  from n(3) obtain y where y: "y \<in> set c" "b = nd_id y" by blast
  obtain nb d where nb: "g b = Some nb" "up g nb d" "a \<in> nd_id ` set d" using assms(2) unfolding below_def by blast
  have "g (nd_id y) = Some y"
    using up_known [OF inv n(2)] y(1) n(1) inv_id [OF inv n(1)] up_head [OF n(2)] by (cases "y = n") auto
  then have "y = nb" using nb(1) y(2) by simp
  obtain front d' where d': "c = front @ d'" "up g y d'" using up_suffix [OF n(2) y(1)] by blast
  have "d' = d" using up_unique [OF d'(2)] nb(2) \<open>y = nb\<close> by simp
  then show ?thesis using below_iff [OF n(1,2)] nb(3) d'(1) by auto
qed

text \<open>What is above an entry is linearly ordered.\<close>

lemma below_linear:
  assumes inv: "tree_inv g k"
  shows "up g n c \<Longrightarrow> g i = Some n \<Longrightarrow> below g a i \<Longrightarrow> below g b i \<Longrightarrow> below g a b \<or> below g b a"
proof (induction arbitrary: i rule: up.induct)
  case (up_root n)
  then show ?case using below_root [OF inv up_root.prems(1) up_root.hyps(1)] by auto
next
  case (up_step n p m c)
  note st = below_step [OF inv up_step.prems(1) up_step.hyps(1)]
  show ?case
  proof (cases "a = i \<or> b = i")
    case True
    then show ?thesis using up_step.prems by auto
  next
    case False
    then show ?thesis using st up_step.prems up_step.IH [OF up_step.hyps(2)] by blast
  qed
qed

lemma below_antisym:
  assumes inv: "tree_inv g k" and "below g a b" and "below g b a"
  shows "a = b"
proof -
  obtain nb c where nb: "g b = Some nb" "up g nb c" "a \<in> nd_id ` set c" using assms(2) unfolding below_def by blast
  obtain na d where na: "g a = Some na" "up g na d" "b \<in> nd_id ` set d" using assms(3) unfolding below_def by blast
  have "length d \<le> length c \<and> length c \<le> length d"
  proof -
    have le: "length d \<le> length c" if x: "g b = Some nb" "up g nb c" "a \<in> nd_id ` set c" "g a = Some na" "up g na d" for a b na nb c d
    proof -
      from x(3) obtain y where y: "y \<in> set c" "a = nd_id y" by blast
      have "g (nd_id y) = Some y"
        using up_known [OF inv x(2)] y(1) x(1) inv_id [OF inv x(1)] up_head [OF x(2)] by (cases "y = nb") auto
      then have "y = na" using x(4) y(2) by simp
      obtain front d' where d': "c = front @ d'" "up g y d'" using up_suffix [OF x(2) y(1)] by blast
      then show ?thesis using up_unique [OF d'(2)] x(5) \<open>y = na\<close> by simp
    qed
    show ?thesis using le [OF nb na(1,2)] le [OF na nb(1,2)] by simp
  qed
  moreover from nb(3) obtain y where y: "y \<in> set c" "a = nd_id y" by blast
  have "g (nd_id y) = Some y"
    using up_known [OF inv nb(2)] y(1) nb(1) inv_id [OF inv nb(1)] up_head [OF nb(2)] by (cases "y = nb") auto
  then have "y = na" using na(1) y(2) by simp
  obtain front d' where d': "c = front @ d'" "up g y d'" using up_suffix [OF nb(2) y(1)] by blast
  ultimately have "front = []" using up_unique [OF d'(2)] na(2) \<open>y = na\<close> by simp
  then have "c = d" using d' up_unique [OF d'(2)] na(2) \<open>y = na\<close> by simp
  then show ?thesis using up_head [OF nb(2)] up_head [OF na(2)] inv_id [OF inv nb(1)] inv_id [OF inv na(1)] by auto
qed

lemma no_self_parent:
  assumes inv: "tree_inv g k" and n: "g i = Some n"
  shows "nd_parent_id n \<noteq> Some i"
proof
  assume loop: "nd_parent_id n = Some i"
  obtain d where d: "up g n d" using inv_up [OF inv n] by blast
  from d show False
  proof (rule upE)
    fix q m e
    assume e: "nd_parent_id n = Some q" "g q = Some m" "up g m e" "d = n # e"
    then have "m = n" using loop n by simp
    then show False using up_unique [of g n e d] e d by simp
  qed (use loop in simp)
qed

text \<open>Two children of one folder have nothing below both.\<close>

lemma kids_disjoint:
  assumes inv: "tree_inv g k" and kids: "a \<in> set (k p)" "b \<in> set (k p)" and i: "below g a i" "below g b i"
  shows "a = b"
proof (rule ccontr)
  assume ne: "a \<noteq> b"
  obtain n c where n: "g i = Some n" "up g n c" using i(1) unfolding below_def by blast
  have sym: False if ab: "below g x y" "x \<noteq> y" "x \<in> set (k p)" "y \<in> set (k p)" for x y
  proof -
    obtain ny nx where ny: "g y = Some ny" "nd_parent_id ny = Some p" and nx: "g x = Some nx" "nd_parent_id nx = Some p"
      using inv_kids [OF inv] ab(3,4) by blast
    have "below g x p" using below_step [OF inv ny] ab(1,2) by simp
    moreover obtain m where "g p = Some m" using inv_parent [OF inv nx] by blast
    then have "below g p x" using below_step [OF inv nx] below_refl [OF inv] by blast
    ultimately have "x = p" using below_antisym [OF inv] by blast
    then show False using nx(2) no_self_parent [OF inv nx(1)] by simp
  qed
  show False using below_linear [OF inv n(2,1) i] sym ne kids by metis
qed

end
