(* ===== verification/File_Invariant.thy ===== *)
theory File_Invariant
  imports File_Links
begin

text \<open>
  The invariant of the running file tree: the shape of \<open>File_Links\<close> for the two hash maps, and the
  table in step with them, so that a restart reads back the tree the server was serving. Every operation
  keeps it, failed writes and races of uploads with moves and deletes included.
\<close>

section \<open>The hash maps\<close>

definition maps_ok :: "TreeState \<Rightarrow> bool" where
  "maps_ok st \<longleftrightarrow> distinct (map fst (nodes st)) \<and> distinct (map fst (children st))"

definition state_inv :: "TreeState \<Rightarrow> bool" where
  "state_inv st \<longleftrightarrow> maps_ok st \<and> tree_inv (get_node st) (kid_ids st)"

lemma state_inv_links: "state_inv st \<Longrightarrow> tree_inv (get_node st) (kid_ids st)"
  by (simp add: state_inv_def)

lemma kid_ids_push: "kid_ids \<lparr>nodes = ns, children = push_child p i ch\<rparr> =
    (kid_ids \<lparr>nodes = ns, children = ch\<rparr>)(p := kid_ids \<lparr>nodes = ns, children = ch\<rparr> p @ [i])"
  by (auto simp: kid_ids_def push_child_def AList.update_conv' split: option.splits)

lemma kid_ids_drop: "kid_ids \<lparr>nodes = ns, children = drop_child p i ch\<rparr> =
    (kid_ids \<lparr>nodes = ns, children = ch\<rparr>)(p := filter (\<lambda>c. c \<noteq> i) (kid_ids \<lparr>nodes = ns, children = ch\<rparr> p))"
  by (auto simp: kid_ids_def drop_child_def AList.update_conv' split: option.splits)

lemma kid_ids_nodes: "kid_ids \<lparr>nodes = ns, children = ch\<rparr> = kid_ids \<lparr>nodes = ms, children = ch\<rparr>"
  by (simp add: kid_ids_def fun_eq_iff)

lemma distinct_push: "distinct (map fst ch) \<Longrightarrow> distinct (map fst (push_child p i ch))"
  by (simp add: push_child_def AList.distinct_update)

lemma distinct_drop: "distinct (map fst ch) \<Longrightarrow> distinct (map fst (drop_child p i ch))"
  by (simp add: drop_child_def AList.distinct_update split: option.splits)

lemma get_node_forget: "get_node (forget_nodes ids st) = get_node st |` (- set ids)"
proof (induction ids arbitrary: st)
  case (Cons i ids)
  have "get_node (forget_nodes (i # ids) st) = get_node \<lparr>nodes = AList.delete i (nodes st), children = AList.delete i (children st)\<rparr> |` (- set ids)"
    using Cons.IH by (simp add: forget_nodes_def)
  then show ?case by (auto simp: get_node_def fun_eq_iff restrict_map_def AList.delete_conv')
qed (simp add: forget_nodes_def restrict_map_def)

lemma kid_ids_forget: "kid_ids (forget_nodes ids st) = (\<lambda>p. if p \<in> set ids then [] else kid_ids st p)"
proof (induction ids arbitrary: st)
  case (Cons i ids)
  have "kid_ids (forget_nodes (i # ids) st) =
      (\<lambda>p. if p \<in> set ids then [] else kid_ids \<lparr>nodes = AList.delete i (nodes st), children = AList.delete i (children st)\<rparr> p)"
    using Cons.IH by (simp add: forget_nodes_def)
  then show ?case by (auto simp: kid_ids_def fun_eq_iff AList.delete_conv')
qed (simp add: forget_nodes_def)

lemma maps_forget: "maps_ok st \<Longrightarrow> maps_ok (forget_nodes ids st)"
proof (induction ids arbitrary: st)
  case (Cons i ids)
  have "maps_ok \<lparr>nodes = AList.delete i (nodes st), children = AList.delete i (children st)\<rparr>"
    using Cons.prems by (simp add: maps_ok_def AList.distinct_delete)
  then show ?case using Cons.IH by (simp add: forget_nodes_def)
qed (simp add: forget_nodes_def)

lemma child_nodes_alt: "child_nodes st p = List.map_filter (get_node st) (kid_ids st p)"
  by (simp add: child_nodes_def kid_ids_def List.map_filter_def split: option.splits)

lemma set_map_filter: "y \<in> set (List.map_filter f xs) \<longleftrightarrow> (\<exists>x\<in>set xs. f x = Some y)"
  by (induction xs) (auto simp: List.map_filter_simps split: option.splits)

lemma child_nodes_ids:
  assumes "state_inv st"
  shows "map nd_id (child_nodes st p) = kid_ids st p"
proof -
  note inv = state_inv_links [OF assms]
  have "map nd_id (List.map_filter (get_node st) ids) = ids" if "set ids \<subseteq> set (kid_ids st p)" for ids
    using that
  proof (induction ids)
    case (Cons i ids)
    then obtain n where n: "get_node st i = Some n" using inv_kids [OF inv, of i p] by auto
    with Cons inv_id [OF inv n] show ?case by (simp add: List.map_filter_def)
  qed (simp add: List.map_filter_def)
  then show ?thesis by (simp add: child_nodes_alt)
qed

lemma child_nodes_iff:
  assumes "state_inv st"
  shows "n \<in> set (child_nodes st p) \<longleftrightarrow> get_node st (nd_id n) = Some n \<and> nd_parent_id n = Some p"
proof -
  note inv = state_inv_links [OF assms]
  have "n \<in> set (child_nodes st p) \<longleftrightarrow> (\<exists>i\<in>set (kid_ids st p). get_node st i = Some n)"
    by (simp add: child_nodes_alt set_map_filter)
  also have "\<dots> \<longleftrightarrow> get_node st (nd_id n) = Some n \<and> nd_parent_id n = Some p"
  proof
    assume "\<exists>i\<in>set (kid_ids st p). get_node st i = Some n"
    then obtain i m where i: "get_node st i = Some n" "get_node st i = Some m" "nd_parent_id m = Some p"
      using inv_kids [OF inv] by blast
    then show "get_node st (nd_id n) = Some n \<and> nd_parent_id n = Some p" using inv_id [OF inv i(1)] by simp
  next
    assume n: "get_node st (nd_id n) = Some n \<and> nd_parent_id n = Some p"
    then have "nd_id n \<in> set (kid_ids st p)" using inv_kids [OF inv] by blast
    with n show "\<exists>i\<in>set (kid_ids st p). get_node st i = Some n" by blast
  qed
  finally show ?thesis .
qed

lemma name_taken_iff:
  assumes "state_inv st"
  shows "name_taken st p name \<longleftrightarrow> (\<exists>i n. get_node st i = Some n \<and> nd_parent_id n = Some p \<and> nd_name n = name)"
  using child_nodes_iff [OF assms] inv_id [OF state_inv_links [OF assms]] unfolding name_taken_def by blast

section \<open>Chains\<close>

lemma up_length:
  assumes "state_inv st" and n: "get_node st i = Some n" and up: "up (get_node st) n c"
  shows "length c \<le> length (nodes st)"
proof -
  note inv = state_inv_links [OF assms(1)]
  have self: "get_node st (nd_id n) = Some n" using n inv_id [OF inv n] by simp
  have "set (map nd_id c) \<subseteq> fst ` set (nodes st)"
  proof
    fix x
    assume "x \<in> set (map nd_id c)"
    then obtain m where m: "m \<in> set c" "x = nd_id m" by auto
    have "get_node st x = Some m"
      using up_known [OF inv up, of m] up_head [OF up] self m by (cases "m = n") auto
    then show "x \<in> fst ` set (nodes st)" unfolding get_node_def by (force dest: map_of_SomeD)
  qed
  then have "card (set (map nd_id c)) \<le> card (fst ` set (nodes st))" by (intro card_mono) auto
  also have "\<dots> \<le> length (nodes st)" by (metis card_length length_map list.set_map)
  finally show ?thesis using distinct_card [OF up_distinct [OF inv up self]] by simp
qed

lemma ancestry_loop_up:
  assumes inv: "tree_inv (get_node st) k" and "up (get_node st) n c"
    and "length chain + length (tl c) \<le> length (nodes st)"
  shows "ancestry_loop st chain n = Ok (chain @ tl c)"
  using assms(2,3)
proof (induction arbitrary: chain rule: up.induct)
  case (up_root n)
  then show ?case by (simp add: ancestry_loop.simps)
next
  case (up_step n p m c)
  obtain r where r: "c = m # r" using up_head [OF up_step.hyps(3)] by blast
  have "ancestry_loop st (chain @ [m]) m = Ok ((chain @ [m]) @ tl c)" using up_step.prems r by (intro up_step.IH) simp
  then show ?case using up_step.hyps up_step.prems r by (simp add: ancestry_loop.simps [of st chain n])
qed

lemma ancestry_up:
  assumes "state_inv st" and "get_node st i = Some n" and "up (get_node st) n c"
  shows "ancestry st n = Ok c"
proof -
  obtain r where r: "c = n # r" using up_head [OF assms(3)] by blast
  have "ancestry_loop st [n] n = Ok ([n] @ tl c)"
    using up_length [OF assms] r by (intro ancestry_loop_up [OF state_inv_links [OF assms(1)] assms(3)]) simp
  then show ?thesis by (simp add: ancestry_def r)
qed

lemma ancestry_Ok:
  assumes "state_inv st" and "get_node st i = Some n"
  shows "ancestry st n = Ok c \<longleftrightarrow> up (get_node st) n c"
proof -
  obtain d where "up (get_node st) n d" using inv_up [OF state_inv_links [OF assms(1)] assms(2)] by blast
  with ancestry_up [OF assms this] show ?thesis using up_unique by fastforce
qed

section \<open>Paths lead to entries of the tree\<close>

lemma known_self: "state_inv st \<Longrightarrow> get_node st i = Some n \<Longrightarrow> get_node st (nd_id n) = Some n"
  using inv_id [OF state_inv_links] by metis

lemma need_node_Ok [simp]: "need_node x = Ok n \<longleftrightarrow> x = Some n"
  by (cases x) (simp_all add: need_node_def)

lemma need_node_Panic [simp]: "need_node x \<noteq> Panic"
  by (cases x) (simp_all add: need_node_def)

lemma walkable_known:
  assumes "state_inv st" and "get_node st (nd_id n) = Some n" and "walkable st s n = Ok m"
  shows "get_node st (nd_id m) = Some m"
proof -
  have "m = n \<or> (\<exists>t. get_node st t = Some m)"
    using assms(3) by (auto simp: walkable_def resolve_through_alias_def Option.bind_eq_Some_conv split: if_splits option.splits)
  then show ?thesis using assms known_self [OF assms(1)] by blast
qed

lemma walk_segments_known:
  assumes "state_inv st"
  shows "get_node st (nd_id n) = Some n \<Longrightarrow> walk_segments st s n segs = Ok m \<Longrightarrow> get_node st (nd_id m) = Some m"
proof (induction segs arbitrary: n)
  case (Cons seg segs)
  from Cons.prems(2) obtain f x where f: "walkable st s n = Ok f" "find (\<lambda>n. nd_name n = seg) (child_nodes st (nd_id f)) = Some x"
      "walk_segments st s x segs = Ok m" by auto
  have "x \<in> set (child_nodes st (nd_id f))" using f(2) by (auto simp: find_Some_iff)
  then have "get_node st (nd_id x) = Some x" using child_nodes_iff [OF assms] by blast
  then show ?case using Cons.IH f(3) by blast
qed simp

lemma resolve_as_known:
  assumes "state_inv st" and "resolve_as st path s = Ok n"
  shows "get_node st (nd_id n) = Some n"
proof -
  from assms(2) obtain r segs where "get_node st ROOT_ID = Some r" "walk_segments st (Some s) r segs = Ok n"
    by (auto simp: resolve_as_def walk_def)
  then show ?thesis using walk_segments_known [OF assms(1)] known_self [OF assms(1)] by blast
qed

section \<open>The table in step with memory\<close>

text \<open>The database sets an alias's target to null when the target goes; in memory the alias keeps the
  dead id.\<close>

definition settle :: "node_map \<Rightarrow> Node \<Rightarrow> Node" where
  "settle g n = (case nd_target_id n of
     Some t \<Rightarrow> if g t = None then n\<lparr>nd_target_id := None\<rparr> else n
   | None \<Rightarrow> n)"

definition row_at :: "file_rows \<Rightarrow> string \<Rightarrow> FileNodeRow option" where
  "row_at rows i = find (\<lambda>r. fr_id r = i) rows"

definition mirrors :: "file_rows \<Rightarrow> node_map \<Rightarrow> bool" where
  "mirrors rows g \<longleftrightarrow> distinct (map fr_id rows) \<and>
     (\<forall>i. map_option node_from_row (row_at rows i) = map_option (\<lambda>n. Ok (settle g n)) (g i))"

definition tree_wf :: "FileTree \<Rightarrow> bool" where
  "tree_wf ft \<longleftrightarrow> state_inv (ft_state ft) \<and> mirrors (ft_rows ft) (get_node (ft_state ft))"

lemma settle_simps [simp]:
  "nd_id (settle g n) = nd_id n" "nd_parent_id (settle g n) = nd_parent_id n" "nd_name (settle g n) = nd_name n"
  "nd_kind (settle g n) = nd_kind n" "nd_access_item (settle g n) = nd_access_item n"
  by (simp_all add: settle_def split: option.splits)

lemma settle_target: "nd_target_id (settle g n) = (case nd_target_id n of Some t \<Rightarrow> if g t = None then None else Some t | None \<Rightarrow> None)"
  by (simp add: settle_def split: option.splits)

lemma row_at_None: "row_at rows i = None \<longleftrightarrow> \<not> has_row rows i"
  by (auto simp: row_at_def has_row_def find_None_iff)

lemma row_at_Some: "distinct (map fr_id rows) \<Longrightarrow> row_at rows i = Some r \<longleftrightarrow> r \<in> set rows \<and> fr_id r = i"
proof (induction rows)
  case (Cons x rows)
  show ?case
  proof (cases "fr_id x = i")
    case True
    then have "\<not> (r \<in> set rows \<and> fr_id r = i)" using Cons.prems by (auto simp: image_iff)
    with True show ?thesis by (auto simp: row_at_def)
  qed (use Cons in \<open>auto simp: row_at_def\<close>)
qed (simp add: row_at_def)

lemma node_from_row_fields:
  assumes "node_from_row r = Ok n"
  shows "nd_id n = fr_id r" "nd_parent_id n = fr_parent_id r" "nd_name n = fr_name r" "nd_target_id n = fr_target_id r"
    "nd_access_item n = AccessItem_parse (fr_name r)" "kind_from_i64 (fr_kind r) = Some (nd_kind n)"
  using assms by (auto simp: node_from_row_def split: option.splits)

lemma mirrors_row:
  assumes "mirrors rows g" and "row_at rows i = Some r"
  shows "\<exists>n. g i = Some n \<and> node_from_row r = Ok (settle g n)"
  using assms unfolding mirrors_def by (metis (no_types, lifting) map_option_eq_Some option.simps(9))

lemma mirrors_node:
  assumes "mirrors rows g" and "g i = Some n"
  shows "\<exists>r. row_at rows i = Some r \<and> node_from_row r = Ok (settle g n)"
  using assms unfolding mirrors_def by (metis (no_types, lifting) map_option_eq_Some option.simps(9))

lemma mirrors_has: "mirrors rows g \<Longrightarrow> has_row rows i \<longleftrightarrow> g i \<noteq> None"
  using row_at_None [of rows i] unfolding mirrors_def by (metis option.map_disc_iff)

lemma mirrors_target:
  assumes "mirrors rows g" and "r \<in> set rows" and "fr_target_id r = Some t"
  shows "g t \<noteq> None"
proof -
  have "row_at rows (fr_id r) = Some r" using assms(1,2) row_at_Some by (auto simp: mirrors_def)
  then obtain n where "node_from_row r = Ok (settle g n)" using mirrors_row [OF assms(1)] by blast
  then have "nd_target_id (settle g n) = Some t" using node_from_row_fields(4) assms(3) by metis
  then show ?thesis by (auto simp: settle_target split: option.splits if_splits)
qed

text \<open>A new row.\<close>

lemma files_insert_Ok:
  "files_insert fault row rows = Ok (row', rows') \<Longrightarrow> row' = row \<and> rows' = rows @ [row] \<and> \<not> has_row rows (fr_id row)"
  by (auto simp: files_insert_def split: if_splits)

lemma mirrors_insert:
  assumes inv: "tree_inv g k" and mir: "mirrors rows g" and n: "node_from_row row = Ok n" and fits: "fits g p n"
    and target: "refers (row # rows) (fr_target_id row)"
  shows "mirrors (rows @ [row]) (g(nd_id n \<mapsto> n))"
proof -
  let ?i = "nd_id n" and ?g = "g(nd_id n \<mapsto> n)"
  have id: "fr_id row = ?i" and tgt: "nd_target_id n = fr_target_id row" using node_from_row_fields [OF n] by simp_all
  have new: "\<not> has_row rows ?i" using mirrors_has [OF mir] fits_new [OF fits] by simp
  have same: "settle ?g x = settle g x" if "g j = Some x" for j x
    using fits_target(1) [OF fits that] by (auto simp: settle_def split: option.splits)
  have self: "settle ?g n = n"
  proof (cases "nd_target_id n")
    case (Some t)
    then have "has_row (row # rows) t" using target tgt by (simp add: refers_def)
    then have "t = ?i \<or> g t \<noteq> None" using mirrors_has [OF mir, of t] id by (auto simp: has_row_def)
    then show ?thesis using Some by (auto simp: settle_def)
  qed (simp add: settle_def)
  have at: "row_at (rows @ [row]) j = (if j = ?i then Some row else row_at rows j)" for j
  proof -
    have "row_at (rows @ [row]) j = (case row_at rows j of Some r \<Rightarrow> Some r | None \<Rightarrow> if fr_id row = j then Some row else None)"
      unfolding row_at_def by (induction rows) auto
    then show ?thesis using new id row_at_None [of rows ?i] by (auto split: option.splits)
  qed
  have "map_option node_from_row (row_at (rows @ [row]) j) = map_option (\<lambda>n. Ok (settle ?g n)) (?g j)" for j
  proof (cases "j = ?i")
    case False
    have "map_option node_from_row (row_at rows j) = map_option (\<lambda>n. Ok (settle g n)) (g j)" using mir by (simp add: mirrors_def)
    then show ?thesis using at [of j] False same [of j] by (cases "g j") auto
  qed (simp add: at n self)
  moreover have "distinct (map fr_id (rows @ [row]))" using mir new id by (auto simp: mirrors_def has_row_def)
  ultimately show ?thesis by (simp add: mirrors_def)
qed

text \<open>Rows that go.\<close>

definition prune_rows :: "string set \<Rightarrow> file_rows \<Rightarrow> file_rows" where
  "prune_rows D rows = map (\<lambda>r. if fr_target_id r \<in> Some ` D then r\<lparr>fr_target_id := None\<rparr> else r) (filter (\<lambda>r. fr_id r \<notin> D) rows)"

definition targets_live :: "file_rows \<Rightarrow> bool" where
  "targets_live rows \<longleftrightarrow> (\<forall>r\<in>set rows. \<forall>t. fr_target_id r = Some t \<longrightarrow> has_row rows t)"

lemma prune_rows_twice: "prune_rows D (prune_rows E rows) = prune_rows (E \<union> D) rows"
  by (induction rows) (auto simp: prune_rows_def)

lemma targets_live_prune: "targets_live rows \<Longrightarrow> targets_live (prune_rows D rows)"
proof -
  assume live: "targets_live rows"
  have "has_row (prune_rows D rows) t" if r: "r \<in> set (prune_rows D rows)" "fr_target_id r = Some t" for r t
  proof -
    from r obtain x where x: "x \<in> set rows" "fr_target_id x = Some t" "t \<notin> D" by (auto simp: prune_rows_def split: if_splits)
    with live obtain y where y: "y \<in> set rows" "fr_id y = t" unfolding targets_live_def has_row_def by blast
    let ?y = "if fr_target_id y \<in> Some ` D then y\<lparr>fr_target_id := None\<rparr> else y"
    have "?y \<in> set (prune_rows D rows)" using y x(3) unfolding prune_rows_def by simp
    moreover have "fr_id ?y = t" using y by simp
    ultimately show ?thesis unfolding has_row_def by blast
  qed
  then show ?thesis by (simp add: targets_live_def)
qed

lemma delete_row_prune:
  assumes "targets_live rows" and "delete_row rows i = Ok rest"
  shows "rest = prune_rows {i} rows"
proof (cases "has_row rows i")
  case True
  with assms(2) show ?thesis by (auto simp: delete_row_def prune_rows_def Let_def split: if_splits)
next
  case False
  then have "fr_target_id r \<noteq> Some i \<and> fr_id r \<noteq> i" if "r \<in> set rows" for r
    using assms(1) that unfolding targets_live_def has_row_def by metis
  then have "prune_rows {i} rows = rows" unfolding prune_rows_def by (induction rows) auto
  with False assms(2) show ?thesis by (simp add: delete_row_def)
qed

lemma delete_each_prune:
  "targets_live rows \<Longrightarrow> delete_each ids rows = Ok rest \<Longrightarrow> rest = prune_rows (set ids) rows"
proof (induction ids arbitrary: rows)
  case Nil
  then show ?case by (simp add: prune_rows_def map_idI)
next
  case (Cons i ids)
  then obtain mid where mid: "delete_row rows i = Ok mid" "delete_each ids mid = Ok rest" by auto
  have m: "mid = prune_rows {i} rows" using delete_row_prune [OF Cons.prems(1) mid(1)] .
  then have "rest = prune_rows (set ids) mid" using Cons.IH mid(2) targets_live_prune Cons.prems(1) by blast
  then show ?case by (simp add: m prune_rows_twice)
qed

lemma mirrors_live: "mirrors rows g \<Longrightarrow> targets_live rows"
  using mirrors_target mirrors_has unfolding targets_live_def by blast

lemma node_from_row_untarget:
  "node_from_row r = Ok n \<Longrightarrow> node_from_row (r\<lparr>fr_target_id := None\<rparr>) = Ok (n\<lparr>nd_target_id := None\<rparr>)"
  by (auto simp: node_from_row_def split: option.splits)

lemma mirrors_prune:
  assumes "mirrors rows g"
  shows "mirrors (prune_rows D rows) (g |` (- D))"
proof -
  let ?g = "g |` (- D)"
  let ?f = "\<lambda>r. if fr_target_id r \<in> Some ` D then r\<lparr>fr_target_id := None\<rparr> else r"
  have at: "row_at (prune_rows D rows) i = (if i \<in> D then None else map_option ?f (row_at rows i))" for i
    unfolding row_at_def prune_rows_def by (induction rows) auto
  have "map_option node_from_row (row_at (prune_rows D rows) i) = map_option (\<lambda>n. Ok (settle ?g n)) (?g i)" for i
  proof (cases "i \<in> D \<or> g i = None")
    case True
    then show ?thesis using row_at_None [of rows i] mirrors_has [OF assms, of i] by (auto simp: at restrict_map_def)
  next
    case False
    then obtain n where n: "g i = Some n" by auto
    obtain r where r: "row_at rows i = Some r" "node_from_row r = Ok (settle g n)" using mirrors_node [OF assms n] by blast
    have "node_from_row (?f r) = Ok (settle ?g n)"
    proof (cases "fr_target_id r \<in> Some ` D")
      case True
      then obtain t where t: "fr_target_id r = Some t" "t \<in> D" by auto
      then have "nd_target_id (settle g n) = Some t" using node_from_row_fields(4) [OF r(2)] by simp
      then have "nd_target_id n = Some t" "settle g n = n" by (auto simp: settle_def split: option.splits if_splits)
      then show ?thesis using node_from_row_untarget [OF r(2)] t by (simp add: settle_def restrict_map_def)
    next
      case False
      have "settle ?g n = settle g n"
        using False node_from_row_fields(4) [OF r(2)] by (auto simp: settle_def restrict_map_def split: option.splits if_splits)
      then show ?thesis using r(2) False by simp
    qed
    then show ?thesis using False n r(1) by (simp add: at)
  qed
  moreover have "distinct (map fr_id (prune_rows D rows))"
  proof -
    have "map fr_id (prune_rows D rows) = map fr_id (filter (\<lambda>r. fr_id r \<notin> D) rows)" by (auto simp: prune_rows_def)
    then show ?thesis using assms by (simp add: mirrors_def distinct_map_filter)
  qed
  ultimately show ?thesis by (simp add: mirrors_def)
qed

text \<open>A row with another parent.\<close>

lemma node_from_row_reparent:
  "node_from_row r = Ok n \<Longrightarrow> node_from_row (r\<lparr>fr_parent_id := Some d\<rparr>) = Ok (n\<lparr>nd_parent_id := Some d\<rparr>)"
  by (auto simp: node_from_row_def split: option.splits)

lemma mirrors_reparent:
  assumes mir: "mirrors rows g" and n: "g i = Some n"
  shows "mirrors (map (\<lambda>r. if fr_id r = i then r\<lparr>fr_parent_id := Some d\<rparr> else r) rows) (g(i \<mapsto> n\<lparr>nd_parent_id := Some d\<rparr>))"
proof -
  let ?f = "\<lambda>r. if fr_id r = i then r\<lparr>fr_parent_id := Some d\<rparr> else r"
  let ?g = "g(i \<mapsto> n\<lparr>nd_parent_id := Some d\<rparr>)"
  have at: "row_at (map ?f rows) j = map_option ?f (row_at rows j)" for j
    unfolding row_at_def by (induction rows) auto
  have live: "?g t = None \<longleftrightarrow> g t = None" for t using n by auto
  have "map_option node_from_row (row_at (map ?f rows) j) = map_option (\<lambda>n. Ok (settle ?g n)) (?g j)" for j
  proof (cases "g j")
    case None
    then have "row_at rows j = None" using row_at_None mirrors_has [OF mir] by metis
    then show ?thesis using None n by (auto simp: at)
  next
    case (Some x)
    obtain r where r: "row_at rows j = Some r" "node_from_row r = Ok (settle g x)" using mirrors_node [OF mir Some] by blast
    have id: "fr_id r = j" using r(1) by (auto simp: row_at_def find_Some_iff)
    have "settle ?g x = settle g x" by (simp only: settle_def live)
    show ?thesis
    proof (cases "j = i")
      case True
      then have "x = n" using Some n by simp
      have "node_from_row (r\<lparr>fr_parent_id := Some d\<rparr>) = Ok ((settle g n)\<lparr>nd_parent_id := Some d\<rparr>)"
        using node_from_row_reparent [OF r(2)] \<open>x = n\<close> by simp
      moreover have "(settle g n)\<lparr>nd_parent_id := Some d\<rparr> = settle ?g (n\<lparr>nd_parent_id := Some d\<rparr>)"
        by (simp add: settle_def live split: option.splits del: fun_upd_apply)
      ultimately show ?thesis using True id r(1) by (simp add: at)
    next
      case False
      then show ?thesis using id r Some \<open>settle ?g x = settle g x\<close> by (simp add: at del: fun_upd_apply) simp
    qed
  qed
  moreover have "distinct (map fr_id (map ?f rows))"
  proof -
    have "map fr_id (map ?f rows) = map fr_id rows" by simp
    then show ?thesis using mir by (simp only: mirrors_def)
  qed
  ultimately show ?thesis by (simp add: mirrors_def)
qed

end
