(* ===== verification/File_Ops.thy ===== *)
theory File_Ops
  imports File_Invariant
begin

text \<open>
  Every operation of the file tree keeps its invariant; a delete takes exactly what lies below the entry.
\<close>

section \<open>New entries\<close>

text \<open>The UUID of a new row is of no entry and no alias points at it.\<close>

definition fresh_id :: "string \<Rightarrow> TreeState \<Rightarrow> bool" where
  "fresh_id i st \<longleftrightarrow> get_node st i = None \<and> (\<forall>j m. get_node st j = Some m \<longrightarrow> nd_target_id m \<noteq> Some i)"

lemma insert_in_memory_maps:
  assumes "nd_parent_id n = Some p"
  shows "get_node (insert_in_memory n st) = (get_node st)(nd_id n \<mapsto> n)"
    and "kid_ids (insert_in_memory n st) = (kid_ids st)(p := kid_ids st p @ [nd_id n])"
    and "maps_ok st \<Longrightarrow> maps_ok (insert_in_memory n st)"
proof -
  show "get_node (insert_in_memory n st) = (get_node st)(nd_id n \<mapsto> n)"
    by (simp add: get_node_def insert_in_memory_def AList.update_conv' fun_eq_iff)
  have "kid_ids \<lparr>nodes = ns, children = children st\<rparr> = kid_ids st" for ns by (simp add: kid_ids_def fun_eq_iff)
  then show "kid_ids (insert_in_memory n st) = (kid_ids st)(p := kid_ids st p @ [nd_id n])"
    by (simp add: insert_in_memory_def assms kid_ids_push)
  show "maps_ok (insert_in_memory n st)" if "maps_ok st"
    using that by (simp add: maps_ok_def insert_in_memory_def assms AList.distinct_update distinct_push)
qed

lemma state_inv_insert:
  assumes "state_inv st" and "fits (get_node st) p n"
  shows "state_inv (insert_in_memory n st)"
  using assms inv_insert [OF state_inv_links [OF assms(1)] assms(2)]
  unfolding state_inv_def by (simp add: insert_in_memory_maps [OF fits_parent [OF assms(2)]])

lemma add_row_wf:
  assumes wf: "tree_wf ft" and n: "node_from_row row = Ok n" and fits: "fits (get_node (ft_state ft)) p n"
  shows "tree_wf (snd (add_row fault row ft))"
proof (cases "files_insert fault row (ft_rows ft)")
  case (Ok r)
  obtain row' rows' where r: "r = (row', rows')" by (cases r)
  have eq: "row' = row" "rows' = ft_rows ft @ [row]" using files_insert_Ok [of fault row "ft_rows ft" row' rows'] Ok r by simp_all
  have "refers (row # ft_rows ft) (fr_target_id row)" using Ok by (simp add: files_insert_def split: if_splits)
  then have "mirrors rows' ((get_node (ft_state ft))(nd_id n \<mapsto> n))"
    using wf n fits unfolding eq tree_wf_def by (intro mirrors_insert [OF state_inv_links, of _ _ _ _ p]) auto
  moreover have "state_inv (insert_in_memory n (ft_state ft))" using state_inv_insert wf fits by (simp add: tree_wf_def)
  ultimately show ?thesis
    using Ok r eq n by (simp add: add_row_def or_tree_err_def tree_wf_def insert_in_memory_maps [OF fits_parent [OF fits]])
qed (use wf in \<open>simp_all add: add_row_def or_tree_err_def\<close>)

lemma fitsI:
  assumes st: "state_inv st" and fresh: "fresh_id (nd_id n) st" and par: "nd_parent_id n = Some p"
    and folder: "get_node st p = Some m" "is_folder (nd_kind m)" and name: "\<not> name_taken st p (nd_name n)"
    and valid: "validate_name (nd_name n) = Ok ()" and item: "nd_access_item n = AccessItem_parse (nd_name n)"
    and target: "nd_target_id n = None \<or> (\<exists>t x. nd_target_id n = Some t \<and> get_node st t = Some x \<and> nd_kind x \<noteq> Alias)"
  shows "fits (get_node st) p n"
  using assms name_taken_iff [OF st] unfolding fits_def fresh_id_def by fastforce

lemma folder_dest_Ok:
  assumes "state_inv st" and "folder_dest st path name s = Ok m"
  shows "get_node st (nd_id m) = Some m" "is_folder (nd_kind m)" "\<not> name_taken st (nd_id m) name"
  using assms resolve_as_known [OF assms(1)] by (auto simp: folder_dest_def split: if_splits)

lemma kind_as_from [simp]: "kind_from_i64 (kind_as_u8 k) = Some k"
  by (cases k) (simp_all add: kind_from_i64_def)

lemma create_folder_wf:
  assumes "tree_wf ft" and "fresh_id fresh (ft_state ft)"
  shows "tree_wf (snd (create_folder fault fresh path name kind min_read min_write owner s ft))"
proof -
  let ?st = "ft_state ft"
  let ?owner = "if owner = Some [] then None else owner"
  let ?pick = "if \<not> is_folder kind then Err NotAFolder
    else bind_result (validate_name name) (\<lambda>_. bind_result (check_owner ?owner s) (\<lambda>_. folder_dest ?st path name s))"
  have st: "state_inv ?st" using assms(1) by (simp add: tree_wf_def)
  show ?thesis
  proof (cases ?pick)
    case (Ok m)
    then have ok: "validate_name name = Ok ()" "folder_dest ?st path name s = Ok m" by (auto split: if_splits)
    let ?row = "folder_row fresh (nd_id m) name (kind_as_u8 kind) (class_i64 (min min_read (s_class s)))
      (class_i64 (min min_write (s_class s))) ?owner"
    obtain n where n: "node_from_row ?row = Ok n" by (simp add: node_from_row_def folder_row_def)
    have "fits (get_node ?st) (nd_id m) n"
      using node_from_row_fields [OF n] folder_dest_Ok [OF st ok(2)] ok(1) assms(2)
      by (intro fitsI [OF st, of _ _ m]) (simp_all add: folder_row_def)
    moreover have "create_folder fault fresh path name kind min_read min_write owner s ft = add_row fault ?row ft"
      unfolding create_folder_def Let_def Ok by simp
    ultimately show ?thesis using add_row_wf [OF assms(1) n] by simp
  qed (use assms(1) in \<open>simp_all add: create_folder_def Let_def\<close>)
qed

lemma create_alias_wf:
  assumes "tree_wf ft" and "fresh_id fresh (ft_state ft)"
  shows "tree_wf (snd (create_alias fault fresh source_path dest_path s ft))"
proof -
  let ?st = "ft_state ft"
  let ?pick = "bind_result (resolve_as ?st source_path s)
    (\<lambda>source. if nd_kind source = Alias then Err AliasChainRefused
      else if nd_id source = ROOT_ID then Err NotAFile
      else bind_result (check_node_readable ?st source s)
        (\<lambda>_. bind_result (validate_name (nd_name source))
          (\<lambda>_. bind_result (folder_dest ?st dest_path (nd_name source) s) (\<lambda>dest. Ok (source, dest)))))"
  have st: "state_inv ?st" using assms(1) by (simp add: tree_wf_def)
  show ?thesis
  proof (cases ?pick)
    case (Ok sm)
    obtain source m where sm: "sm = (source, m)" by (cases sm)
    with Ok have ok: "resolve_as ?st source_path s = Ok source" "nd_kind source \<noteq> Alias" "validate_name (nd_name source) = Ok ()"
        "folder_dest ?st dest_path (nd_name source) s = Ok m" by (auto split: if_splits)
    let ?row = "alias_row fresh (nd_id m) (nd_name source) (nd_id source)"
    obtain n where n: "node_from_row ?row = Ok n" by (simp add: node_from_row_def alias_row_def kind_from_i64_def)
    have "fits (get_node ?st) (nd_id m) n"
      using node_from_row_fields [OF n] folder_dest_Ok [OF st ok(4)] ok(2,3) assms(2) resolve_as_known [OF st ok(1)]
      by (intro fitsI [OF st, of _ _ m]) (simp_all add: alias_row_def)
    moreover have "create_alias fault fresh source_path dest_path s ft = add_row fault ?row ft"
      unfolding create_alias_def Let_def Ok sm by simp
    ultimately show ?thesis using add_row_wf [OF assms(1) n] by simp
  qed (use assms(1) in \<open>simp_all add: create_alias_def Let_def\<close>)
qed

lemma entry_name_Ok:
  assumes "validate_name name = Ok ()" and "utf8 name" and "entry_name st parent name rename = Ok c"
  shows "\<not> name_taken st (nd_id parent) c \<and> validate_name c = Ok ()"
proof (cases "name_taken st (nd_id parent) name")
  case True
  with assms(3) obtain reserved budget where r: "rename = Some reserved" "name_budget st parent = Ok budget"
      "free_name name (max (max budget (length name)) MIN_VARIANT_BUDGET) (\<lambda>c. name_taken st (nd_id parent) c \<or> reserved c) = Some c"
    by (auto simp: entry_name_def split: option.splits)
  have "budget \<le> MAX_FILE_NAME_LEN" using r(2) by (auto simp: name_budget_def)
  moreover have "length name \<le> MAX_FILE_NAME_LEN" using assms(1) by (auto simp: validate_name_def split: if_splits)
  ultimately have "max (max budget (length name)) MIN_VARIANT_BUDGET \<le> MAX_FILE_NAME_LEN"
    by (simp add: MIN_VARIANT_BUDGET_def MAX_FILE_NAME_LEN_def)
  then show ?thesis using free_name_Some [OF assms(1,2) _ r(3)] by simp
qed (use assms in \<open>simp add: entry_name_def\<close>)

lemma file_entry_wf:
  assumes "tree_wf ft" and "fresh_id fresh (ft_state ft)" and "utf8 name"
  shows "tree_wf (snd (file_entry fault fresh parent_id name bytelen sha256 storage_path rename ft))"
proof -
  let ?st = "ft_state ft"
  let ?pick = "bind_result (validate_name name) (\<lambda>_. bind_result (need_node (get_node ?st parent_id))
    (\<lambda>parent. if \<not> is_folder (nd_kind parent) then Err NotAFolder else entry_name ?st parent name rename))"
  have st: "state_inv ?st" using assms(1) by (simp add: tree_wf_def)
  show ?thesis
  proof (cases ?pick)
    case (Ok c)
    then obtain m where ok: "validate_name name = Ok ()" "get_node ?st parent_id = Some m" "is_folder (nd_kind m)"
        "entry_name ?st m name rename = Ok c" by (auto split: if_splits)
    have id: "nd_id m = parent_id" using inv_id [OF state_inv_links [OF st] ok(2)] .
    have c: "\<not> name_taken ?st parent_id c" "validate_name c = Ok ()" using entry_name_Ok [OF ok(1) assms(3) ok(4)] id by simp_all
    let ?row = "file_row fresh parent_id c bytelen sha256 storage_path"
    obtain n where n: "node_from_row ?row = Ok n" by (simp add: node_from_row_def file_row_def kind_from_i64_def)
    have "fits (get_node ?st) parent_id n"
      using node_from_row_fields [OF n] c ok assms(2) by (intro fitsI [OF st, of _ _ m]) (simp_all add: file_row_def)
    moreover have "file_entry fault fresh parent_id name bytelen sha256 storage_path rename ft = add_row fault ?row ft"
      unfolding file_entry_def Let_def Ok by simp
    ultimately show ?thesis using add_row_wf [OF assms(1) n] by simp
  qed (use assms(1) in \<open>simp_all add: file_entry_def Let_def\<close>)
qed

section \<open>Entries that go\<close>

lemma mirrors_delete_one:
  assumes "mirrors rows g" and "delete_row rows i = Ok rest"
  shows "mirrors rest (g |` (- {i}))"
  using delete_row_prune [OF mirrors_live [OF assms(1)] assms(2)] mirrors_prune [OF assms(1)] by simp

lemma remove_file_wf:
  assumes "tree_wf ft"
  shows "tree_wf (snd (remove_file_node fault i ft))"
proof (cases "get_node (ft_state ft) i")
  case None
  then show ?thesis using assms by (simp add: remove_file_node_def Let_def)
next
  case (Some n)
  let ?st = "ft_state ft"
  let ?ch = "case nd_parent_id n of Some p \<Rightarrow> drop_child p i (children ?st) | None \<Rightarrow> children ?st"
  let ?st' = "\<lparr>nodes = AList.delete i (nodes ?st), children = ?ch\<rparr>"
  have st: "state_inv ?st" and mir: "mirrors (ft_rows ft) (get_node ?st)" using assms by (simp_all add: tree_wf_def)
  note inv = state_inv_links [OF st]
  have has: "has_row (ft_rows ft) i" using mirrors_has [OF mir] Some by simp
  show ?thesis
  proof (cases "nd_kind n \<noteq> File \<or> \<not> is_ok (files_delete fault i (ft_rows ft))")
    case True
    then show ?thesis using Some assms has
      by (auto simp: remove_file_node_def Let_def files_delete_def delete_row_def split: if_splits)
  next
    case False
    then obtain rows where rows: "files_delete fault i (ft_rows ft) = Ok rows" and kind: "nd_kind n = File"
      by (cases "files_delete fault i (ft_rows ft)") auto
    have leaf: "\<not> is_folder (nd_kind n)" using kind by (simp add: is_folder_def)
    have g: "get_node ?st' = get_node ?st |` (- {i})"
      by (auto simp: get_node_def fun_eq_iff restrict_map_def AList.delete_conv')
    have only: "filter (\<lambda>c. c \<noteq> i) (kid_ids ?st q) = kid_ids ?st q" if "nd_parent_id n \<noteq> Some q" for q
      using inv_kids [OF inv, of i q] Some that by (intro filter_True) auto
    have base: "kid_ids \<lparr>nodes = ns, children = children ?st\<rparr> = kid_ids ?st" for ns by (simp add: kid_ids_def fun_eq_iff)
    have k: "kid_ids ?st' = (\<lambda>q. filter (\<lambda>j. j \<notin> {i}) (kid_ids ?st q))"
      using only by (cases "nd_parent_id n") (auto simp: base kid_ids_drop fun_eq_iff)
    have "tree_inv (get_node ?st') (kid_ids ?st')"
      unfolding g k
    proof (rule inv_remove [OF inv])
      fix j x p
      assume x: "get_node ?st j = Some x" "nd_parent_id x = Some p" "p \<in> {i}"
      then obtain m where "get_node ?st i = Some m" "is_folder (nd_kind m)" using inv_parent [OF inv x(1,2)] by auto
      with Some leaf show "j \<in> {i}" by simp
    next
      show "ROOT_ID \<notin> {i}" using inv_root [OF inv] Some leaf by (auto simp: plain_folder_def)
    qed
    moreover have "maps_ok ?st'"
      using st by (auto simp: state_inv_def maps_ok_def AList.distinct_delete distinct_drop split: option.splits)
    moreover have "mirrors rows (get_node ?st')"
      unfolding g using rows by (intro mirrors_delete_one [OF mir]) (auto simp: files_delete_def split: if_splits)
    ultimately show ?thesis using Some kind rows by (simp add: remove_file_node_def Let_def tree_wf_def state_inv_def)
  qed
qed

text \<open>The walk of \<open>collect_subtree_for_delete\<close> collects what lies below the entries on its stack.\<close>

lemma deletable_children_Ok:
  assumes st: "state_inv st" and n: "get_node st (nd_id n) = Some n" and "deletable_children st s n = Ok kids"
  shows "kids = child_nodes st (nd_id n)"
proof (cases "is_folder (nd_kind n)")
  case True
  with assms(3) show ?thesis by (auto simp: deletable_children_def Let_def split: if_splits)
next
  case False
  then have "kid_ids st (nd_id n) = []" using not_folder_no_kids [OF state_inv_links [OF st] n] by simp
  then have "child_nodes st (nd_id n) = []" using child_nodes_ids [OF st, of "nd_id n"] by simp
  with False assms(3) show ?thesis by (simp add: deletable_children_def)
qed

lemma collect_loop_below:
  "collect_loop st s pre paths stack = Ok (ids, out) \<Longrightarrow> state_inv st \<Longrightarrow> (\<And>n. n \<in> set stack \<Longrightarrow> get_node st (nd_id n) = Some n) \<Longrightarrow>
    set ids = set pre \<union> {i. \<exists>n\<in>set stack. below (get_node st) (nd_id n) i}"
proof (induction st s pre paths stack rule: collect_loop.induct)
  case (1 st s pre paths)
  then show ?case by auto
next
  case (2 st s pre paths n stack)
  note st = "2.prems"(2)
  have n: "get_node st (nd_id n) = Some n" using "2.prems"(3) by simp
  obtain kids where room: "\<not> length (nodes st) \<le> length pre" and kids: "deletable_children st s n = Ok kids"
      and rest: "collect_loop st s (pre @ [nd_id n]) (paths @ (case nd_storage_path n of Some p \<Rightarrow> [p] | None \<Rightarrow> [])) (rev kids @ stack) = Ok (ids, out)"
    using "2.prems"(1) by (auto simp: collect_loop.simps(2) split: if_splits result.splits)
  have ch: "kids = child_nodes st (nd_id n)" using deletable_children_Ok [OF st n kids] .
  have "set ids = set (pre @ [nd_id n]) \<union> {i. \<exists>m\<in>set (rev kids @ stack). below (get_node st) (nd_id m) i}"
  proof (rule "2.IH" [OF room kids rest st])
    fix m
    assume "m \<in> set (rev kids @ stack)"
    then show "get_node st (nd_id m) = Some m" using "2.prems"(3) child_nodes_iff [OF st] ch by auto
  qed
  moreover have "below (get_node st) (nd_id n) i \<longleftrightarrow> i = nd_id n \<or> (\<exists>m\<in>set kids. below (get_node st) (nd_id m) i)" for i
  proof -
    have "set (kid_ids st (nd_id n)) = nd_id ` set kids" using child_nodes_ids [OF st, of "nd_id n"] ch by (metis list.set_map)
    then show ?thesis using below_kids [OF state_inv_links [OF st] n, of i] by simp
  qed
  ultimately show ?case by auto
qed

lemma collect_subtree_below:
  assumes "state_inv st" and "get_node st (nd_id n) = Some n" and "collect_subtree_for_delete st n s = Ok (ids, paths)"
  shows "set ids = {i. below (get_node st) (nd_id n) i}"
  using collect_loop_below [OF assms(3) [unfolded collect_subtree_for_delete_def] assms(1)] assms(2) by simp

text \<open>What a delete leaves: everything that is not below the entry.\<close>

lemma delete_plan_Ok:
  assumes st: "state_inv st" and plan: "delete_plan st path s = Ok (node, parent, ids, paths)"
  shows "get_node st (nd_id node) = Some node" "nd_id node \<noteq> ROOT_ID" "nd_parent_id node = Some (nd_id parent)"
    "get_node st (nd_id parent) = Some parent" "set ids = {i. below (get_node st) (nd_id node) i}"
    "collect_subtree_for_delete st node s = Ok (ids, paths)" "resolve_as st path s = Ok node"
proof -
  have res: "resolve_as st path s = Ok node" and par: "parent_of st node = Ok parent" and root: "nd_id node \<noteq> ROOT_ID"
      and col: "collect_subtree_for_delete st node s = Ok (ids, paths)"
    using plan by (auto simp: delete_plan_def split: if_splits)
  have node: "get_node st (nd_id node) = Some node" using resolve_as_known [OF st res] .
  obtain q where q: "nd_parent_id node = Some q" "get_node st q = Some parent"
    using par by (auto simp: parent_of_def Option.bind_eq_Some_conv)
  have "nd_id parent = q" using inv_id [OF state_inv_links [OF st] q(2)] .
  with q node root col res collect_subtree_below [OF st node col]
  show "get_node st (nd_id node) = Some node" "nd_id node \<noteq> ROOT_ID" "nd_parent_id node = Some (nd_id parent)"
    "get_node st (nd_id parent) = Some parent" "set ids = {i. below (get_node st) (nd_id node) i}"
    "collect_subtree_for_delete st node s = Ok (ids, paths)" "resolve_as st path s = Ok node" by simp_all
qed

lemma deleted_maps:
  assumes st: "state_inv st" and plan: "delete_plan st path s = Ok (node, parent, ids, paths)"
    and st': "st' = (forget_nodes ids st)\<lparr>children := drop_child (nd_id parent) (nd_id node) (children (forget_nodes ids st))\<rparr>"
  shows "get_node st' = get_node st |` (- set ids)" "kid_ids st' = (\<lambda>p. filter (\<lambda>i. i \<notin> set ids) (kid_ids st p))"
    "state_inv st'"
proof -
  note inv = state_inv_links [OF st]
  note pl = delete_plan_Ok [OF st plan]
  have up_closed: "i \<in> set ids" if "get_node st i = Some n" "nd_parent_id n = Some p" "p \<in> set ids" for i n p
    using that below_step [OF inv that(1,2)] pl(5) by simp
  have down: "i = nd_id node \<or> p \<in> set ids" if "get_node st i = Some n" "nd_parent_id n = Some p" "i \<in> set ids" for i n p
    using that below_step [OF inv that(1,2)] pl(5) by auto
  show g: "get_node st' = get_node st |` (- set ids)"
    using get_node_forget [of ids st] by (simp add: st' get_node_def fun_eq_iff)
  have eta: "kid_ids st'' = kid_ids \<lparr>nodes = nodes st'', children = children st''\<rparr>" for st'' by (simp add: kid_ids_def fun_eq_iff)
  have k0: "kid_ids st' = (kid_ids (forget_nodes ids st))(nd_id parent := filter (\<lambda>c. c \<noteq> nd_id node) (kid_ids (forget_nodes ids st) (nd_id parent)))"
    using kid_ids_drop [of "nodes (forget_nodes ids st)" "nd_id parent" "nd_id node" "children (forget_nodes ids st)"] eta [of st'] eta [of "forget_nodes ids st"]
    by (simp add: st')
  have kid: "i \<in> set (kid_ids st p) \<Longrightarrow> \<exists>n. get_node st i = Some n \<and> nd_parent_id n = Some p" for i p using inv_kids [OF inv] by blast
  have ends: "filter (\<lambda>i. i \<notin> set ids) (kid_ids st p) = (if p \<in> set ids then [] else
      if p = nd_id parent then filter (\<lambda>c. c \<noteq> nd_id node) (kid_ids st p) else kid_ids st p)" for p
  proof (cases "p \<in> set ids")
    case True
    have "i \<in> set ids" if "i \<in> set (kid_ids st p)" for i using kid [OF that] up_closed [of i _ p] True by blast
    then show ?thesis using True by (simp add: filter_False)
  next
    case False
    have "i \<in> set ids \<longleftrightarrow> i = nd_id node" if i: "i \<in> set (kid_ids st p)" for i
      using kid [OF i] down [of i _ p] False pl(5) below_refl [OF inv pl(1)] by auto
    moreover have "nd_id node \<notin> set (kid_ids st p)" if "p \<noteq> nd_id parent" using kid [of "nd_id node" p] pl(1,3) that by auto
    ultimately show ?thesis using False by (auto intro!: filter_cong simp: filter_id_conv)
  qed
  show k: "kid_ids st' = (\<lambda>p. filter (\<lambda>i. i \<notin> set ids) (kid_ids st p))"
    unfolding k0 kid_ids_forget by (simp add: ends fun_eq_iff)
  have "tree_inv (get_node st') (kid_ids st')"
    unfolding g k
  proof (rule inv_remove [OF inv])
    show "ROOT_ID \<notin> set ids"
      using inv_root [OF inv] below_root [OF inv, of ROOT_ID] pl(2,5) by auto
  qed (use up_closed in blast)
  moreover have "maps_ok st'"
    using maps_forget [of st ids] st by (simp add: st' state_inv_def maps_ok_def distinct_drop)
  ultimately show "state_inv st'" by (simp add: state_inv_def)
qed

lemma tree_delete_wf:
  assumes "tree_wf ft"
  shows "tree_wf (snd (tree_delete fault path s ft))"
proof -
  have st: "state_inv (ft_state ft)" and mir: "mirrors (ft_rows ft) (get_node (ft_state ft))" using assms by (simp_all add: tree_wf_def)
  show ?thesis
  proof (cases "delete_plan (ft_state ft) path s")
    case (Ok plan)
    obtain node parent ids paths where p: "plan = (node, parent, ids, paths)" by (cases plan)
    show ?thesis
    proof (cases "files_delete_many fault ids (ft_rows ft)")
      case (Ok rows)
      let ?st = "(forget_nodes ids (ft_state ft))\<lparr>children := drop_child (nd_id parent) (nd_id node) (children (forget_nodes ids (ft_state ft)))\<rparr>"
      note m = deleted_maps [OF st \<open>delete_plan (ft_state ft) path s = Ok plan\<close> [unfolded p] refl]
      have "rows = prune_rows (set ids) (ft_rows ft)"
        using Ok delete_each_prune [OF mirrors_live [OF mir]] by (simp add: files_delete_many_def split: if_splits)
      then have "mirrors rows (get_node ?st)" using mirrors_prune [OF mir] m(1) by simp
      then show ?thesis using m(3) \<open>delete_plan (ft_state ft) path s = Ok plan\<close> p Ok
        by (simp add: tree_delete_def Let_def tree_wf_def)
    qed (use assms Ok p in \<open>simp_all add: tree_delete_def\<close>)
  qed (use assms in \<open>simp_all add: tree_delete_def\<close>)
qed

section \<open>Entries that move\<close>

lemma move_plan_Ok:
  assumes st: "state_inv st" and plan: "move_plan st path dest_path s = Ok (node, dest)"
  shows "get_node st (nd_id node) = Some node" "nd_id node \<noteq> ROOT_ID" "get_node st (nd_id dest) = Some dest"
    "is_folder (nd_kind dest)" "\<not> below (get_node st) (nd_id node) (nd_id dest)"
    "nd_parent_id node \<noteq> Some (nd_id dest) \<Longrightarrow> \<not> name_taken st (nd_id dest) (nd_name node)"
proof -
  obtain parent chain height rel_len where res: "resolve_as st path s = Ok node" "resolve_as st dest_path s = Ok dest"
      and par: "parent_of st node = Ok parent" and root: "nd_id node \<noteq> ROOT_ID" and folder: "is_folder (nd_kind dest)"
      and chain: "ancestry st dest = Ok chain" "\<not> (\<exists>n\<in>set chain. nd_id n = nd_id node)"
      and free: "\<not> (nd_id dest \<noteq> nd_id parent \<and> name_taken st (nd_id dest) (nd_name node))"
    using plan by (auto simp: move_plan_def split: if_splits)
  have node: "get_node st (nd_id node) = Some node" and dest: "get_node st (nd_id dest) = Some dest"
    using resolve_as_known [OF st] res by blast+
  obtain q where q: "nd_parent_id node = Some q" "get_node st q = Some parent"
    using par by (auto simp: parent_of_def Option.bind_eq_Some_conv)
  have "nd_id parent = q" using inv_id [OF state_inv_links [OF st] q(2)] .
  have "up (get_node st) dest chain" using ancestry_Ok [OF st dest, of chain] chain(1) by blast
  then have apart: "\<not> below (get_node st) (nd_id node) (nd_id dest)" using below_iff [of "get_node st", OF dest] chain(2) by auto
  show "get_node st (nd_id node) = Some node" by (rule node)
  show "nd_id node \<noteq> ROOT_ID" by (rule root)
  show "get_node st (nd_id dest) = Some dest" by (rule dest)
  show "is_folder (nd_kind dest)" by (rule folder)
  show "\<not> below (get_node st) (nd_id node) (nd_id dest)" by (rule apart)
  show "\<not> name_taken st (nd_id dest) (nd_name node)" if "nd_parent_id node \<noteq> Some (nd_id dest)"
    using free that q(1) \<open>nd_id parent = q\<close> by auto
qed

lemma moved_maps:
  assumes st: "state_inv st" and plan: "move_plan st path dest_path s = Ok (node, dest)"
  shows "get_node (reparent_in_memory (nd_id node) (nd_id dest) st) = (get_node st)(nd_id node \<mapsto> node\<lparr>nd_parent_id := Some (nd_id dest)\<rparr>)"
    and "state_inv (reparent_in_memory (nd_id node) (nd_id dest) st)"
proof -
  let ?i = "nd_id node" and ?d = "nd_id dest"
  let ?st' = "reparent_in_memory ?i ?d st"
  note inv = state_inv_links [OF st]
  note pl = move_plan_Ok [OF st plan]
  obtain p where p: "nd_parent_id node = Some p" using inv_parent_None [OF inv pl(1)] pl(2) by auto
  have eta: "kid_ids \<lparr>nodes = ns, children = children st\<rparr> = kid_ids st" for ns by (simp add: kid_ids_def fun_eq_iff)
  show g: "get_node ?st' = (get_node st)(?i \<mapsto> node\<lparr>nd_parent_id := Some ?d\<rparr>)"
    by (simp add: reparent_in_memory_def Let_def pl(1)) (simp add: get_node_def AList.update_conv' fun_eq_iff)
  have only: "filter (\<lambda>j. j \<noteq> ?i) (kid_ids st q) = kid_ids st q" if "q \<noteq> p" for q
    using inv_kids [OF inv, of ?i q] pl(1) p that by (intro filter_True) auto
  have k: "kid_ids ?st' = (\<lambda>q. if q = ?d then filter (\<lambda>j. j \<noteq> ?i) (kid_ids st q) @ [?i]
      else if q = p then filter (\<lambda>j. j \<noteq> ?i) (kid_ids st q) else kid_ids st q)"
    using only by (auto simp: reparent_in_memory_def Let_def pl(1) p kid_ids_push kid_ids_drop eta fun_eq_iff)
  have "tree_inv (get_node ?st') (kid_ids ?st')"
    unfolding g k
  proof (rule inv_move [OF inv pl(1) p pl(3,4,5)])
    fix j x
    assume x: "get_node st j = Some x" "nd_parent_id x = Some ?d" "nd_name x = nd_name node"
    show "j = ?i"
    proof (cases "p = ?d")
      case True
      then show ?thesis using inv_names [OF inv x(1) pl(1)] x p by simp
    next
      case False
      then have "\<not> name_taken st ?d (nd_name node)" using pl(6) p by simp
      moreover have "name_taken st ?d (nd_name node)" using name_taken_iff [OF st, of ?d "nd_name node"] x by blast
      ultimately show ?thesis by simp
    qed
  qed
  moreover have "maps_ok ?st'"
    using st by (simp add: state_inv_def maps_ok_def reparent_in_memory_def Let_def pl(1) p AList.distinct_update distinct_push distinct_drop)
  ultimately show "state_inv ?st'" by (simp add: state_inv_def)
qed

lemma move_node_wf:
  assumes "tree_wf ft"
  shows "tree_wf (snd (move_node fault path dest_path s ft))"
proof -
  have st: "state_inv (ft_state ft)" and mir: "mirrors (ft_rows ft) (get_node (ft_state ft))" using assms by (simp_all add: tree_wf_def)
  show ?thesis
  proof (cases "move_plan (ft_state ft) path dest_path s")
    case (Ok plan)
    note plan = this
    obtain node dest where p: "plan = (node, dest)" by (cases plan)
    note m = moved_maps [OF st plan [unfolded p]]
    have node: "get_node (ft_state ft) (nd_id node) = Some node" using move_plan_Ok [OF st plan [unfolded p]] by simp
    show ?thesis
    proof (cases "files_reparent fault (nd_id node) (nd_id dest) (ft_rows ft)")
      case (Ok rows)
      then have "rows = map (\<lambda>r. if fr_id r = nd_id node then r\<lparr>fr_parent_id := Some (nd_id dest)\<rparr> else r) (ft_rows ft)"
        by (auto simp: files_reparent_def split: if_splits option.splits)
      then have "mirrors rows (get_node (reparent_in_memory (nd_id node) (nd_id dest) (ft_state ft)))"
        using mirrors_reparent [OF mir node] m(1) by simp
      then show ?thesis using m(2) plan p Ok by (simp add: move_node_def or_tree_err_def tree_wf_def)
    qed (use assms plan p in \<open>simp_all add: move_node_def or_tree_err_def\<close>)
  qed (use assms in \<open>simp_all add: move_node_def\<close>)
qed

lemma generate_catalog_wf: "tree_wf ft \<Longrightarrow> tree_wf (snd (generate_catalog ft))"
  by (simp add: generate_catalog_def Let_def tree_wf_def)

section \<open>A restart\<close>

lemma load_rows_maps:
  assumes "\<And>r. r \<in> set rows \<Longrightarrow> \<exists>n. node_from_row r = Ok n" and "distinct (map fr_id rows)"
    and "\<And>r. r \<in> set rows \<Longrightarrow> get_node st (fr_id r) = None" and "maps_ok st"
  shows "\<exists>st'. load_rows st rows = Ok st' \<and> maps_ok st' \<and>
    (\<forall>i. map_option Ok (get_node st' i) = (case row_at rows i of Some r \<Rightarrow> Some (node_from_row r) | None \<Rightarrow> map_option Ok (get_node st i))) \<and>
    (\<forall>p. kid_ids st' p = kid_ids st p @ map fr_id (filter (\<lambda>r. fr_parent_id r = Some p) rows))"
  using assms
proof (induction rows arbitrary: st)
  case (Cons r rows)
  obtain n where n: "node_from_row r = Ok n" using Cons.prems(1) [of r] by auto
  note f = node_from_row_fields [OF n]
  let ?st = "insert_in_memory n st"
  have g: "get_node ?st = (get_node st)(fr_id r \<mapsto> n)"
    by (simp add: get_node_def insert_in_memory_def AList.update_conv' fun_eq_iff f)
  have eta: "kid_ids \<lparr>nodes = ns, children = children st\<rparr> = kid_ids st" for ns by (simp add: kid_ids_def fun_eq_iff)
  have k: "kid_ids ?st p = kid_ids st p @ (if fr_parent_id r = Some p then [fr_id r] else [])" for p
    by (cases "fr_parent_id r") (auto simp: insert_in_memory_def f kid_ids_push eta)
  have "maps_ok ?st"
    using Cons.prems(4) by (auto simp: maps_ok_def insert_in_memory_def AList.distinct_update distinct_push split: option.splits)
  moreover have "get_node ?st (fr_id x) = None" if x: "x \<in> set rows" for x
  proof -
    have "fr_id x \<noteq> fr_id r" using Cons.prems(2) x by (auto simp: image_iff)
    moreover have "get_node st (fr_id x) = None" using Cons.prems(3) [of x] x by simp
    ultimately show ?thesis by (simp add: g)
  qed
  ultimately obtain st' where st': "load_rows ?st rows = Ok st'" "maps_ok st'"
      "\<And>i. map_option Ok (get_node st' i) = (case row_at rows i of Some r \<Rightarrow> Some (node_from_row r) | None \<Rightarrow> map_option Ok (get_node ?st i))"
      "\<And>p. kid_ids st' p = kid_ids ?st p @ map fr_id (filter (\<lambda>r. fr_parent_id r = Some p) rows)"
    using Cons.IH [of ?st] Cons.prems(1,2) by auto
  have "row_at rows (fr_id r) = None" using Cons.prems(2) by (auto simp: row_at_def find_None_iff image_iff)
  then have "map_option Ok (get_node st' i) =
      (case row_at (r # rows) i of Some r \<Rightarrow> Some (node_from_row r) | None \<Rightarrow> map_option Ok (get_node st i))" for i
    using st'(3) [of i] n by (cases "fr_id r = i") (auto simp: g row_at_def split: option.splits)
  moreover have "kid_ids st' p = kid_ids st p @ map fr_id (filter (\<lambda>r. fr_parent_id r = Some p) (r # rows))" for p
    by (simp add: st'(4) k)
  ultimately show ?case using st'(1,2) n by (intro exI [of _ st']) simp
qed (auto simp: row_at_def)

lemma up_settle: "up g n c \<Longrightarrow> up (\<lambda>i. map_option (settle g) (g i)) (settle g n) (map (settle g) c)"
  by (induction rule: up.induct) (auto intro: up.intros)

lemma inv_settle:
  assumes inv: "tree_inv g k" and k': "\<And>p. distinct (k' p)" "\<And>p. set (k' p) = set (k p)"
  shows "tree_inv (\<lambda>i. map_option (settle g) (g i)) k'"
proof (rule tree_invI)
  let ?g = "\<lambda>i. map_option (settle g) (g i)"
  have get: "\<exists>n'. g j = Some n' \<and> n = settle g n'" if "?g j = Some n" for j n using that by auto
  show "nd_id n = j" if "?g j = Some n" for j n using get [OF that] inv_id [OF inv] by auto
  show "\<exists>r. ?g ROOT_ID = Some r \<and> nd_parent_id r = None \<and> plain_folder r" using inv_root [OF inv] by (auto simp: plain_folder_def)
  show "\<exists>c. up ?g n c" if n: "?g j = Some n" for j n
  proof -
    obtain n' where n': "g j = Some n'" "n = settle g n'" using get [OF n] by blast
    obtain c where "up g n' c" using inv_up [OF inv n'(1)] by blast
    then show ?thesis using up_settle n'(2) by blast
  qed
  show "\<exists>m. ?g p = Some m \<and> is_folder (nd_kind m)" if "?g j = Some n" "nd_parent_id n = Some p" for j n p
    using get [OF that(1)] inv_parent [OF inv, of j _ p] that(2) by fastforce
  show "j \<in> set (k' p) \<longleftrightarrow> (\<exists>n. ?g j = Some n \<and> nd_parent_id n = Some p)" for p j
    using inv_kids [OF inv, of j p] by (auto simp: k'(2))
  show "distinct (k' p)" for p by (rule k')
  show "i = j" if "?g i = Some n" "?g j = Some m" "nd_parent_id n = nd_parent_id m" "nd_name n = nd_name m" for i j n m
    using get [OF that(1)] get [OF that(2)] that(3,4) inv_names [OF inv, of i _ j] by auto
  show "nd_kind m \<noteq> Alias" if "?g i = Some n" "nd_kind n = Alias" "nd_target_id n = Some t" "?g t = Some m" for i n t m
    using get [OF that(1)] get [OF that(4)] that(2,3) inv_alias [OF inv, of i _ t] by (auto simp: settle_target split: option.splits if_splits)
  show "nd_access_item n = AccessItem_parse (nd_name n)" if "?g i = Some n" for i n
    using get [OF that] inv_item [OF inv, of i] by auto
  show "validate_name (nd_name n) = Ok ()" if "?g i = Some n" "nd_parent_id n \<noteq> None" for i n
    using get [OF that(1)] that(2) inv_valid [OF inv, of i] by auto
qed

lemma settle_settle: "settle (\<lambda>i. map_option (settle g) (g i)) (settle g n) = settle g n"
  by (auto simp: settle_def split: option.splits)

lemma reload_wf:
  assumes "tree_wf ft"
  shows "\<exists>ft'. tree_load (ft_rows ft) = Ok ft' \<and> tree_wf ft' \<and>
    get_node (ft_state ft') = (\<lambda>i. map_option (settle (get_node (ft_state ft))) (get_node (ft_state ft) i))"
proof -
  let ?st = "ft_state ft" and ?rows = "ft_rows ft"
  let ?g = "get_node ?st"
  let ?g' = "\<lambda>i. map_option (settle ?g) (?g i)"
  have st: "state_inv ?st" and mir: "mirrors ?rows ?g" using assms by (simp_all add: tree_wf_def)
  have dist: "distinct (map fr_id ?rows)" using mir by (simp add: mirrors_def)
  have parses: "\<exists>n. node_from_row r = Ok n" if "r \<in> set ?rows" for r
    using mirrors_row [OF mir, of "fr_id r" r] row_at_Some [OF dist] that by blast
  have none: "get_node \<lparr>nodes = [], children = []\<rparr> i = None" for i by (simp add: get_node_def)
  have ok: "maps_ok \<lparr>nodes = [], children = []\<rparr>" by (simp add: maps_ok_def)
  obtain st' where st': "load_rows \<lparr>nodes = [], children = []\<rparr> ?rows = Ok st'" "maps_ok st'"
      "\<And>i. map_option Ok (get_node st' i) = (case row_at ?rows i of Some r \<Rightarrow> Some (node_from_row r) | None \<Rightarrow> None)"
      "\<And>p. kid_ids st' p = map fr_id (filter (\<lambda>r. fr_parent_id r = Some p) ?rows)"
    using load_rows_maps [OF parses dist none ok] by (auto simp: none kid_ids_def cong: option.case_cong)
  have g': "get_node st' = ?g'"
  proof
    fix i
    have "map_option (Ok :: Node \<Rightarrow> (Node, TreeError) result) (get_node st' i) = map_option node_from_row (row_at ?rows i)"
      using st'(3) [of i] by (cases "row_at ?rows i") auto
    also have "\<dots> = map_option (\<lambda>n. Ok (settle ?g n)) (?g i)" using mir by (simp add: mirrors_def)
    finally show "get_node st' i = ?g' i" by (cases "get_node st' i"; cases "?g i") simp_all
  qed
  have "tree_inv (get_node st') (kid_ids st')"
    unfolding g'
  proof (rule inv_settle [OF state_inv_links [OF st]])
    fix p
    show "distinct (kid_ids st' p)" using dist by (simp add: st'(4) distinct_map_filter)
    show "set (kid_ids st' p) = set (kid_ids ?st p)"
    proof (rule set_eqI)
      fix i
      have "i \<in> set (kid_ids st' p) \<longleftrightarrow> (\<exists>r. row_at ?rows i = Some r \<and> fr_parent_id r = Some p)"
        using row_at_Some [OF dist] by (auto simp: st'(4))
      also have "\<dots> \<longleftrightarrow> (\<exists>n. ?g i = Some n \<and> nd_parent_id n = Some p)"
      proof
        assume "\<exists>r. row_at ?rows i = Some r \<and> fr_parent_id r = Some p"
        then obtain r where r: "row_at ?rows i = Some r" "fr_parent_id r = Some p" by blast
        then obtain n where "?g i = Some n" "node_from_row r = Ok (settle ?g n)" using mirrors_row [OF mir] by blast
        then show "\<exists>n. ?g i = Some n \<and> nd_parent_id n = Some p" using node_from_row_fields(2) [of r "settle ?g n"] r(2) by auto
      next
        assume "\<exists>n. ?g i = Some n \<and> nd_parent_id n = Some p"
        then obtain n where n: "?g i = Some n" "nd_parent_id n = Some p" by blast
        then obtain r where "row_at ?rows i = Some r" "node_from_row r = Ok (settle ?g n)" using mirrors_node [OF mir] by blast
        then show "\<exists>r. row_at ?rows i = Some r \<and> fr_parent_id r = Some p" using node_from_row_fields(2) [of r "settle ?g n"] n(2) by auto
      qed
      also have "\<dots> \<longleftrightarrow> i \<in> set (kid_ids ?st p)" using inv_kids [OF state_inv_links [OF st]] by blast
      finally show "i \<in> set (kid_ids st' p) \<longleftrightarrow> i \<in> set (kid_ids ?st p)" .
    qed
  qed
  moreover have "mirrors ?rows ?g'" using mir by (auto simp: mirrors_def settle_settle option.map_comp comp_def)
  ultimately have "tree_wf \<lparr>ft_rows = ?rows, ft_state = st', ft_catalog = None\<rparr>"
    using st'(2) by (simp add: tree_wf_def state_inv_def g')
  moreover have "tree_load ?rows = Ok \<lparr>ft_rows = ?rows, ft_state = st', ft_catalog = None\<rparr>" by (simp add: tree_load_def st'(1))
  ultimately show ?thesis using g' by (intro exI [of _ "\<lparr>ft_rows = ?rows, ft_state = st', ft_catalog = None\<rparr>"]) simp
qed

end
