(* ===== verification/File_Safety.thy ===== *)
theory File_Safety
  imports File_Ops
begin

text \<open>
  What the file tree promises: its shape and its table are in order after any run, a delete is exact and
  all or nothing, and what a session may not read changes none of the answers it gets.
\<close>

section \<open>Runs\<close>

definition root_row :: FileNodeRow where
  "root_row = \<lparr>fr_id = ROOT_ID, fr_parent_id = None, fr_name = [], fr_kind = 0, fr_size = 0, fr_sha256 = None,
     fr_min_class_read = 0, fr_min_class_write = 2, fr_storage_path = None, fr_target_id = None, fr_owner = None\<rparr>"

inductive tree_step :: "FileTree \<Rightarrow> FileTree \<Rightarrow> bool" where
  new_folder: "fresh_id fresh (ft_state ft) \<Longrightarrow>
    tree_step ft (snd (create_folder fault fresh path name kind min_read min_write owner s ft))"
| new_alias: "fresh_id fresh (ft_state ft) \<Longrightarrow> tree_step ft (snd (create_alias fault fresh source dest s ft))"
| new_file: "fresh_id fresh (ft_state ft) \<Longrightarrow> utf8 name \<Longrightarrow>
    tree_step ft (snd (add_file fault fresh parent name bytelen sha256 blob ft))"
| renamed: "fresh_id fresh (ft_state ft) \<Longrightarrow> utf8 name \<Longrightarrow>
    tree_step ft (snd (add_file_renaming fault fresh parent name bytelen sha256 blob reserved ft))"
| undo: "tree_step ft (snd (remove_file_node fault i ft))"
| delete: "tree_step ft (snd (tree_delete fault path s ft))"
| move: "tree_step ft (snd (move_node fault path dest s ft))"
| index: "tree_step ft (snd (generate_catalog ft))"
| restart: "tree_load (ft_rows ft) = Ok ft' \<Longrightarrow> tree_step ft ft'"

inductive tree_reachable :: "FileTree \<Rightarrow> bool" where
  fresh: "tree_load [root_row] = Ok ft \<Longrightarrow> tree_reachable ft"
| step: "tree_reachable ft \<Longrightarrow> tree_step ft ft' \<Longrightarrow> tree_reachable ft'"

lemma step_wf:
  assumes "tree_step ft ft'" and "tree_wf ft"
  shows "tree_wf ft'"
  using assms
proof (cases rule: tree_step.cases)
  case restart
  then show ?thesis using reload_wf [OF assms(2)] by auto
qed (simp_all add: create_folder_wf create_alias_wf file_entry_wf add_file_def add_file_renaming_def remove_file_wf tree_delete_wf
    move_node_wf generate_catalog_wf)

lemma first_wf:
  assumes "tree_load [root_row] = Ok ft"
  shows "tree_wf ft"
proof -
  obtain r where r: "node_from_row root_row = Ok r" by (simp add: node_from_row_def root_row_def kind_from_i64_def)
  note f = node_from_row_fields [OF r, unfolded root_row_def, simplified]
  have ft: "ft = \<lparr>ft_rows = [root_row], ft_state = \<lparr>nodes = [(ROOT_ID, r)], children = []\<rparr>, ft_catalog = None\<rparr>"
    using assms r f by (simp add: tree_load_def insert_in_memory_def)
  have g: "get_node \<lparr>nodes = [(ROOT_ID, r)], children = []\<rparr> = [ROOT_ID \<mapsto> r]" by (simp add: get_node_def fun_eq_iff)
  have k: "kid_ids \<lparr>nodes = [(ROOT_ID, r)], children = []\<rparr> = (\<lambda>_. [])" by (simp add: kid_ids_def fun_eq_iff)
  have "AccessItem_parse [] = DefaultItem" by (simp add: AccessItem_parse_def)
  then have kind: "plain_folder r" using f by (auto simp: kind_from_i64_def is_folder_def plain_folder_def is_drop_box_def split: if_splits)
  have "tree_inv [ROOT_ID \<mapsto> r] (\<lambda>_. [])"
    using f kind by (intro tree_invI) (auto split: if_splits intro: up_root)
  moreover have "settle [ROOT_ID \<mapsto> r] r = r" by (simp add: settle_def f)
  then have "mirrors [root_row] [ROOT_ID \<mapsto> r]"
    using r by (auto simp: mirrors_def row_at_def) (auto simp: root_row_def)
  ultimately show ?thesis by (simp add: ft tree_wf_def state_inv_def g k maps_ok_def)
qed

lemma reachable_wf: "tree_reachable ft \<Longrightarrow> tree_wf ft"
  by (induction rule: tree_reachable.induct) (auto intro: first_wf step_wf)

section \<open>Who may read what\<close>

lemma acl_Ok [simp]: "acl r = Ok u \<longleftrightarrow> (\<exists>x. r = Ok x)"
  by (cases r) (simp_all add: acl_def)

lemma check_each_Ok: "check_each s ns = Ok u \<longleftrightarrow> (\<forall>n\<in>set ns. check_read_node n s = Ok ())"
  by (induction ns) auto

definition gate :: "TreeState \<Rightarrow> Session \<Rightarrow> Node \<Rightarrow> bool" where
  "gate st s n \<longleftrightarrow> (\<forall>p m. nd_parent_id n = Some p \<longrightarrow> get_node st p = Some m \<longrightarrow> check_read_chain st m s = Ok ())"

lemma read_chain_up:
  assumes st: "state_inv st" and n: "get_node st i = Some n" and up: "up (get_node st) n c"
  shows "check_read_chain st n s = check_each s (rev c)"
  using ancestry_up [OF st n up] by (simp add: check_read_chain_def)

lemma read_chain_step:
  assumes st: "state_inv st" and n: "get_node st i = Some n"
  shows "check_read_chain st n s = Ok () \<longleftrightarrow> check_read_node n s = Ok () \<and> gate st s n"
proof -
  obtain c where c: "up (get_node st) n c" using inv_up [OF state_inv_links [OF st] n] by blast
  show ?thesis
  proof (cases "nd_parent_id n")
    case None
    from c have "c = [n]" by (rule upE) (use None in simp_all)
    then show ?thesis using read_chain_up [OF st n c] None by (simp add: gate_def check_each_Ok)
  next
    case (Some p)
    from c obtain m d where m: "get_node st p = Some m" "up (get_node st) m d" "c = n # d" by (rule upE) (use Some in simp_all)
    have "gate st s n \<longleftrightarrow> check_each s (rev d) = Ok ()" using Some m read_chain_up [OF st m(1,2)] by (simp add: gate_def)
    then show ?thesis using read_chain_up [OF st n c] m(3) by (auto simp: check_each_Ok)
  qed
qed

lemma walkable_gate:
  assumes st: "state_inv st" and n: "get_node st (nd_id n) = Some n" and "gate st s n" and "walkable st (Some s) n = Ok f"
    and kid: "x \<in> set (child_nodes st (nd_id f))"
  shows "check_read_chain st f s = Ok ()"
proof -
  have f: "get_node st (nd_id f) = Some f" using walkable_known [OF st n assms(4)] .
  have x: "get_node st (nd_id x) = Some x" "nd_parent_id x = Some (nd_id f)" using kid child_nodes_iff [OF st] by simp_all
  have folder: "is_folder (nd_kind f)" using inv_parent [OF state_inv_links [OF st] x] f by auto
  show ?thesis
  proof (cases "nd_kind n = Alias")
    case True
    then have "check_node_readable st f s = Ok ()" using assms(4) by (auto simp: walkable_def)
    then show ?thesis using folder by (simp add: check_node_readable_def)
  next
    case False
    then have "f = n" "check_read_node n s = Ok ()" using assms(4) folder by (auto simp: walkable_def split: if_splits)
    then show ?thesis using read_chain_step [OF st n] assms(3) by simp
  qed
qed

lemma walk_segments_gate:
  assumes "state_inv st"
  shows "get_node st (nd_id n) = Some n \<Longrightarrow> gate st s n \<Longrightarrow> walk_segments st (Some s) n segs = Ok m \<Longrightarrow> gate st s m"
proof (induction segs arbitrary: n)
  case (Cons seg segs)
  from Cons.prems(3) obtain f x where f: "walkable st (Some s) n = Ok f" "find (\<lambda>n. nd_name n = seg) (child_nodes st (nd_id f)) = Some x"
      "walk_segments st (Some s) x segs = Ok m" by auto
  have x: "x \<in> set (child_nodes st (nd_id f))" using f(2) by (auto simp: find_Some_iff)
  have ok: "check_read_chain st f s = Ok ()" using walkable_gate [OF assms Cons.prems(1,2) f(1) x] .
  have known: "get_node st (nd_id f) = Some f" using walkable_known [OF assms Cons.prems(1) f(1)] .
  have kid: "get_node st (nd_id x) = Some x" "nd_parent_id x = Some (nd_id f)" using x child_nodes_iff [OF assms] by simp_all
  have "gate st s x" unfolding gate_def kid(2) using known ok by auto
  then show ?case by (rule Cons.IH [OF kid(1) _ f(3)])
qed simp

lemma resolve_as_gate:
  assumes "state_inv st" and "resolve_as st path s = Ok n"
  shows "gate st s n"
proof -
  from assms(2) obtain r segs where r: "get_node st ROOT_ID = Some r" "walk_segments st (Some s) r segs = Ok n"
    by (auto simp: resolve_as_def walk_def)
  obtain r' where "get_node st ROOT_ID = Some r'" "nd_parent_id r' = None" using inv_root [OF state_inv_links [OF assms(1)]] by blast
  then have "gate st s r" using r(1) by (simp add: gate_def)
  then show ?thesis using walk_segments_gate [OF assms(1)] r known_self [OF assms(1)] by blast
qed

section \<open>A hidden entry\<close>

lemma insert_same:
  assumes st: "state_inv st" and fits: "fits (get_node st) p n"
  defines "st' \<equiv> insert_in_memory n st"
  shows insert_get: "get_node st x = Some m \<Longrightarrow> get_node st' x = Some m"
    and insert_ancestry: "get_node st x = Some m \<Longrightarrow> ancestry st' m = ancestry st m"
    and insert_parent: "get_node st x = Some m \<Longrightarrow> parent_of st' m = parent_of st m"
    and insert_alias: "get_node st x = Some m \<Longrightarrow> Option.bind (nd_target_id m) (get_node st') = Option.bind (nd_target_id m) (get_node st)"
    and insert_kids: "q \<noteq> p \<Longrightarrow> child_nodes st' q = child_nodes st q"
proof -
  have g: "get_node st' = (get_node st)(nd_id n \<mapsto> n)" and k: "kid_ids st' = (kid_ids st)(p := kid_ids st p @ [nd_id n])"
    using insert_in_memory_maps [OF fits_parent [OF fits]] by (simp_all add: st'_def)
  have st': "state_inv st'" using state_inv_insert [OF st fits] by (simp add: st'_def)
  note inv = state_inv_links [OF st]
  have new: "get_node st (nd_id n) = None" using fits_new [OF fits] .
  show get: "get_node st' x = Some m" if "get_node st x = Some m" for x m using that new by (auto simp: g)
  show "ancestry st' m = ancestry st m" if m: "get_node st x = Some m" for x m
  proof -
    obtain c where c: "up (get_node st) m c" using inv_up [OF inv m] by blast
    have "up (get_node st') m c"
      by (rule up_frame [OF c _ inv]) (use up_known [OF inv c] get in blast)
    then show ?thesis using ancestry_up [OF st m c] ancestry_up [OF st' get [OF m]] by simp
  qed
  show "parent_of st' m = parent_of st m" if m: "get_node st x = Some m" for x m
  proof (cases "nd_parent_id m")
    case (Some q)
    then obtain y where "get_node st q = Some y" using inv_parent [OF inv m] by blast
    then show ?thesis using Some get by (simp add: parent_of_def)
  qed (simp add: parent_of_def)
  show "Option.bind (nd_target_id m) (get_node st') = Option.bind (nd_target_id m) (get_node st)" if "get_node st x = Some m" for x m
    using fits_target(1) [OF fits that] by (cases "nd_target_id m") (auto simp: g)
  show "child_nodes st' q = child_nodes st q" if "q \<noteq> p"
  proof -
    have "List.map_filter (get_node st') ids = List.map_filter (get_node st) ids" if "nd_id n \<notin> set ids" for ids
      using that by (induction ids) (auto simp: List.map_filter_simps g split: option.splits)
    moreover have "nd_id n \<notin> set (kid_ids st q)" using inv_kids [OF inv] new by auto
    ultimately show ?thesis using that by (simp add: child_nodes_alt k)
  qed
qed

lemma insert_checks:
  assumes st: "state_inv st" and fits: "fits (get_node st) p n" and m: "get_node st x = Some m"
  defines "st' \<equiv> insert_in_memory n st"
  shows "check_read_chain st' m s = check_read_chain st m s" "check_node_readable st' m s = check_node_readable st m s"
    "resolve_through_alias st' m = resolve_through_alias st m" "walkable st' (Some s) m = walkable st (Some s) m"
    "listed_size st' s m = listed_size st s m" "check_place_into st' m s manage = check_place_into st m s manage"
    "check_room st' m h l = check_room st m h l" "name_budget st' m = name_budget st m"
proof -
  have chain: "check_read_chain st' y s = check_read_chain st y s" if "get_node st j = Some y" for j y
    using insert_ancestry [OF st fits that] by (simp add: check_read_chain_def st'_def)
  have parent: "bind_result (parent_of st' y) (\<lambda>q. check_read_chain st' q s) = bind_result (parent_of st y) (\<lambda>q. check_read_chain st q s)"
    if y: "get_node st j = Some y" for j y
  proof (cases "parent_of st y")
    case (Ok q)
    then obtain jq where "get_node st jq = Some q" by (auto simp: parent_of_def Option.bind_eq_Some_conv)
    then show ?thesis using insert_parent [OF st fits y] Ok chain by (simp add: st'_def)
  qed (use insert_parent [OF st fits y] in \<open>simp_all add: st'_def\<close>)
  have readable: "check_node_readable st' y s = check_node_readable st y s" if "get_node st j = Some y" for j y
    using chain [OF that] parent [OF that] by (simp add: check_node_readable_def)
  have al: "Option.bind (nd_target_id m) (get_node st') = Option.bind (nd_target_id m) (get_node st)"
    using insert_alias [OF st fits m] by (simp add: st'_def)
  show "check_read_chain st' m s = check_read_chain st m s" by (rule chain [OF m])
  show "check_node_readable st' m s = check_node_readable st m s" by (rule readable [OF m])
  show res: "resolve_through_alias st' m = resolve_through_alias st m" by (simp add: resolve_through_alias_def al)
  show "walkable st' (Some s) m = walkable st (Some s) m"
  proof (cases "resolve_through_alias st m")
    case (Ok t)
    then obtain j where "get_node st j = Some t"
      using m by (auto simp: resolve_through_alias_def Option.bind_eq_Some_conv split: if_splits)
    then show ?thesis using res Ok readable by (simp add: walkable_def)
  qed (use res in \<open>simp_all add: walkable_def\<close>)
  show "listed_size st' s m = listed_size st s m"
  proof (cases "Option.bind (nd_target_id m) (get_node st)")
    case (Some t)
    then obtain j where "get_node st j = Some t" by (auto simp: Option.bind_eq_Some_conv)
    then show ?thesis using al Some readable by (simp add: listed_size_def)
  qed (use al in \<open>simp add: listed_size_def\<close>)
  show "check_place_into st' m s manage = check_place_into st m s manage" by (simp add: check_place_into_def parent [OF m])
  show "check_room st' m h l = check_room st m h l" using insert_ancestry [OF st fits m] by (simp add: check_room_def st'_def)
  show "name_budget st' m = name_budget st m" using insert_ancestry [OF st fits m] by (simp add: name_budget_def st'_def)
qed

text \<open>From here on \<open>p\<close> is a folder whose contents the session may not read.\<close>

lemma hidden_walk:
  assumes st: "state_inv st" and fits: "fits (get_node st) p n"
    and folder: "get_node st p = Some f" and hidden: "check_read_chain st f s \<noteq> Ok ()"
  shows "get_node st (nd_id m) = Some m \<Longrightarrow> gate st s m \<Longrightarrow>
    walk_segments (insert_in_memory n st) (Some s) m segs = walk_segments st (Some s) m segs"
proof (induction segs arbitrary: m)
  case (Cons seg segs)
  let ?st' = "insert_in_memory n st"
  have w: "walkable ?st' (Some s) m = walkable st (Some s) m" using insert_checks(4) [OF st fits Cons.prems(1)] .
  show ?case
  proof (cases "walkable st (Some s) m")
    case (Ok d)
    have d: "get_node st (nd_id d) = Some d" using walkable_known [OF st Cons.prems(1) Ok] .
    show ?thesis
    proof (cases "nd_id d = p")
      case True
      then have "d = f" using d folder by simp
      have "is_folder (nd_kind d)" using fits_folder [OF fits] d True by auto
      have "check_read_chain st d s = Ok ()"
      proof (cases "nd_kind m = Alias")
        case True
        then have "check_node_readable st d s = Ok ()" using Ok by (auto simp: walkable_def)
        then show ?thesis using \<open>is_folder (nd_kind d)\<close> by (simp add: check_node_readable_def)
      next
        case False
        then have "d = m" "check_read_node m s = Ok ()" using Ok \<open>is_folder (nd_kind d)\<close> by (auto simp: walkable_def split: if_splits)
        then show ?thesis using read_chain_step [OF st Cons.prems(1)] Cons.prems(2) by simp
      qed
      with hidden \<open>d = f\<close> show ?thesis by simp
    next
      case False
      then have kids: "child_nodes ?st' (nd_id d) = child_nodes st (nd_id d)" using insert_kids [OF st fits] by blast
      show ?thesis
      proof (cases "find (\<lambda>x. nd_name x = seg) (child_nodes st (nd_id d))")
        case None
        then show ?thesis using w Ok kids by (simp add: need_node_def)
      next
        case (Some x)
        then have x: "x \<in> set (child_nodes st (nd_id d))" by (auto simp: find_Some_iff)
        have "check_read_chain st d s = Ok ()" using walkable_gate [OF st Cons.prems Ok x] .
        moreover have "get_node st (nd_id x) = Some x" "nd_parent_id x = Some (nd_id d)" using x child_nodes_iff [OF st] by simp_all
        ultimately have "walk_segments ?st' (Some s) x segs = walk_segments st (Some s) x segs"
          using d by (intro Cons.IH) (simp_all add: gate_def)
        then show ?thesis using w Ok kids Some by (simp add: need_node_def)
      qed
    qed
  qed (simp_all add: w)
qed simp

lemma hidden_resolve:
  assumes st: "state_inv st" and fits: "fits (get_node st) p n"
    and folder: "get_node st p = Some f" and hidden: "check_read_chain st f s \<noteq> Ok ()"
  shows "resolve_as (insert_in_memory n st) path s = resolve_as st path s"
proof -
  obtain r where r: "get_node st ROOT_ID = Some r" "nd_parent_id r = None" using inv_root [OF state_inv_links [OF st]] by blast
  have "get_node st (nd_id r) = Some r" using known_self [OF st r(1)] .
  moreover have "gate st s r" using r(2) by (simp add: gate_def)
  ultimately have "walk_segments (insert_in_memory n st) (Some s) r segs = walk_segments st (Some s) r segs" for segs
    using hidden_walk [OF st fits folder hidden] by blast
  moreover have "get_node (insert_in_memory n st) ROOT_ID = Some r" using insert_get [OF st fits r(1)] .
  ultimately show ?thesis using r(1) by (simp add: resolve_as_def walk_def need_node_def)
qed

lemma hidden_upload:
  assumes st: "state_inv st" and fits: "fits (get_node st) p n"
    and folder: "get_node st p = Some f" and hidden: "check_read_chain st f s \<noteq> Ok ()"
    and m: "get_node st (nd_id m) = Some m"
  shows "upload_dest (insert_in_memory n st) m name s = upload_dest st m name s"
proof -
  let ?st' = "insert_in_memory n st"
  have same: "name_taken ?st' (nd_id m) name = name_taken st (nd_id m) name"
    if "check_place_into st m s False = Ok ()" "check_read_node m s = Ok ()"
  proof -
    have "gate st s m"
      using that(1) by (auto simp: check_place_into_def gate_def parent_of_def split: if_splits)
    then have "check_read_chain st m s = Ok ()" using read_chain_step [OF st m] that(2) by simp
    then have "nd_id m \<noteq> p" using hidden folder m by auto
    then show ?thesis using insert_kids [OF st fits] by (simp add: name_taken_def)
  qed
  show ?thesis
  proof (cases "check_place_into st m s False = Ok () \<and> check_read_node m s = Ok ()")
    case True
    then show ?thesis using same by (simp add: upload_dest_def insert_checks [OF st fits m])
  next
    case False
    then show ?thesis
    proof (cases "check_place_into st m s False")
      case (Ok u)
      then have "\<not> is_ok (check_read_node m s)" using False by (cases "check_read_node m s") auto
      then show ?thesis by (simp add: upload_dest_def insert_checks [OF st fits m] cong: if_cong)
    qed (simp_all add: upload_dest_def insert_checks [OF st fits m])
  qed
qed

lemma hidden_answers:
  assumes st: "state_inv st" and fits: "fits (get_node st) p n"
    and folder: "get_node st p = Some f" and hidden: "check_read_chain st f s \<noteq> Ok ()"
  defines "st' \<equiv> insert_in_memory n st"
  shows "open_for_read st' path s = open_for_read st path s" "tree_info st' path s = tree_info st path s"
    "tree_list st' path s = tree_list st path s" "prepare_upload st' path name s = prepare_upload st path name s"
proof -
  have res: "resolve_as st' path s = resolve_as st path s" using hidden_resolve [OF assms(1-4)] by (simp add: st'_def)
  have target: "\<exists>j. get_node st j = Some t" if "resolve_as st path s = Ok m" "resolve_through_alias st m = Ok t" for m t
    using that resolve_as_known [OF st that(1)] by (auto simp: resolve_through_alias_def Option.bind_eq_Some_conv split: if_splits)
  have through: "bind_result (resolve_as st' path s) (\<lambda>m. bind_result (resolve_through_alias st' m) F) =
      bind_result (resolve_as st path s) (\<lambda>m. bind_result (resolve_through_alias st m) G)"
    if "\<And>t j. get_node st j = Some t \<Longrightarrow> F t = G t" for F :: "Node \<Rightarrow> ('b, TreeError) result" and G
  proof (cases "resolve_as st path s")
    case (Ok m)
    have "resolve_through_alias st' m = resolve_through_alias st m"
      using insert_checks(3) [OF st fits resolve_as_known [OF st Ok]] by (simp add: st'_def)
    then show ?thesis using res Ok target [OF Ok] that by (cases "resolve_through_alias st m") auto
  qed (simp_all add: res)
  have readable: "check_node_readable st' t s = check_node_readable st t s" if "get_node st j = Some t" for t j
    using insert_checks(2) [OF st fits that] by (simp add: st'_def)
  show "open_for_read st' path s = open_for_read st path s" unfolding open_for_read_def by (rule through) (simp add: readable)
  show "tree_info st' path s = tree_info st path s" unfolding tree_info_def by (rule through) (simp add: readable)
  show "tree_list st' path s = tree_list st path s"
    unfolding tree_list_def
  proof (rule through)
    fix t j
    assume t: "get_node st j = Some t"
    have j: "nd_id t = j" using inv_id [OF state_inv_links [OF st] t] .
    show "(if \<not> is_folder (nd_kind t) then Err NotAFolder else bind_result (check_node_readable st' t s)
        (\<lambda>_. Ok (sort_key fe_name (map (\<lambda>n. \<lparr>fe_name = nd_name n, fe_kind = nd_kind n, fe_size = listed_size st' s n\<rparr>) (child_nodes st' (nd_id t)))))) =
      (if \<not> is_folder (nd_kind t) then Err NotAFolder else bind_result (check_node_readable st t s)
        (\<lambda>_. Ok (sort_key fe_name (map (\<lambda>n. \<lparr>fe_name = nd_name n, fe_kind = nd_kind n, fe_size = listed_size st s n\<rparr>) (child_nodes st (nd_id t))))))"
    proof (cases "is_folder (nd_kind t) \<and> check_node_readable st t s = Ok ()")
      case True
      then have "is_folder (nd_kind t)" "check_node_readable st t s = Ok ()" by simp_all
      then have "check_read_chain st t s = Ok ()" by (simp add: check_node_readable_def)
      then have "nd_id t \<noteq> p" using hidden folder t j by auto
      then have kids: "child_nodes st' (nd_id t) = child_nodes st (nd_id t)" using insert_kids [OF st fits] by (simp add: st'_def)
      have "listed_size st' s x = listed_size st s x" if "x \<in> set (child_nodes st (nd_id t))" for x
        using insert_checks(5) [OF st fits, of "nd_id x" x] that child_nodes_iff [OF st] by (simp add: st'_def)
      then show ?thesis using kids readable [OF t] by (simp cong: map_cong)
    next
      case False
      then show ?thesis using readable [OF t] by (cases "check_node_readable st t s") auto
    qed
  qed
  show "prepare_upload st' path name s = prepare_upload st path name s"
  proof (cases "resolve_as st path s")
    case (Ok m)
    then show ?thesis using res hidden_upload [OF assms(1-4) resolve_as_known [OF st Ok]] by (simp add: prepare_upload_def st'_def)
  qed (simp_all add: prepare_upload_def res)
qed

section \<open>Properties\<close>

text \<open>Property C25. The tree is in order after any run of operations, failing statements and restarts included:
  every entry's chain of folders ends at the root, child lists hold exactly the entries that name the
  folder, names are valid and unique in their folder, no alias points at an alias, and the table holds
  the same entries as memory.\<close>

theorem tree_invariant:
  assumes "tree_reachable ft"
  shows "tree_inv (get_node (ft_state ft)) (kid_ids (ft_state ft)) \<and> mirrors (ft_rows ft) (get_node (ft_state ft))"
  using reachable_wf [OF assms] by (simp add: tree_wf_def state_inv_def)

text \<open>Property C26. What a session may not read is invisible to it: for a folder that the session cannot read,
  because of the folder itself or of one above it, an entry more in it changes no answer to a download,
  an info request, a listing or an upload, whatever path they name.\<close>

theorem hidden_entries:
  assumes "tree_reachable ft" and "fits (get_node (ft_state ft)) p n"
    and "get_node (ft_state ft) p = Some folder" and "check_read_chain (ft_state ft) folder s \<noteq> Ok ()"
  shows "open_for_read (insert_in_memory n (ft_state ft)) path s = open_for_read (ft_state ft) path s \<and>
    tree_info (insert_in_memory n (ft_state ft)) path s = tree_info (ft_state ft) path s \<and>
    tree_list (insert_in_memory n (ft_state ft)) path s = tree_list (ft_state ft) path s \<and>
    prepare_upload (insert_in_memory n (ft_state ft)) path name s = prepare_upload (ft_state ft) path name s"
  using hidden_answers [OF _ assms(2-4)] reachable_wf [OF assms(1)] by (simp add: tree_wf_def)

section \<open>Examples\<close>

text \<open>A new server on which an administrator has made a drop box.\<close>

definition example_admin :: Session where
  "example_admin = \<lparr>s_username = ''root'', s_class = Admin, s_privileges = Privileges_all\<rparr>"

definition example_guest :: Session where
  "example_guest = \<lparr>s_username = ''ann'', s_class = Guest, s_privileges = class_privileges Guest\<rparr>"

definition example_root :: Node where
  "example_root = \<lparr>nd_id = ROOT_ID, nd_parent_id = None, nd_name = [], nd_kind = Directory, nd_size = 0, nd_sha256 = None,
     nd_min_class_read = Guest, nd_min_class_write = PowerUser, nd_storage_path = None, nd_target_id = None,
     nd_access_item = DefaultItem, nd_owner = None\<rparr>"

definition example_new :: FileTree where
  "example_new = \<lparr>ft_rows = [root_row], ft_state = \<lparr>nodes = [(ROOT_ID, example_root)], children = []\<rparr>, ft_catalog = None\<rparr>"

definition example_tree :: FileTree where
  "example_tree = snd (create_folder False ''d1'' ''/'' ''Drop'' DropBoxKind Guest Guest None example_admin example_new)"

lemma example_new_loads: "tree_load [root_row] = Ok example_new"
  by code_simp

lemma example_reachable: "tree_reachable example_tree"
proof (rule tree_reachable.step [OF tree_reachable.fresh [OF example_new_loads]])
  have "fresh_id ''d1'' (ft_state example_new)"
    by (auto simp: fresh_id_def get_node_def example_new_def example_root_def ROOT_ID_def split: if_splits)
  then show "tree_step example_new example_tree" unfolding example_tree_def by (rule tree_step.new_folder)
qed

definition example_box :: Node where
  "example_box = \<lparr>nd_id = ''d1'', nd_parent_id = Some ROOT_ID, nd_name = ''Drop'', nd_kind = DropBoxKind, nd_size = 0,
     nd_sha256 = None, nd_min_class_read = Guest, nd_min_class_write = Guest, nd_storage_path = None, nd_target_id = None,
     nd_access_item = DefaultItem, nd_owner = None\<rparr>"

definition example_file :: Node where
  "example_file = \<lparr>nd_id = ''f1'', nd_parent_id = Some ''d1'', nd_name = ''x'', nd_kind = File, nd_size = 1,
     nd_sha256 = Some [7], nd_min_class_read = Guest, nd_min_class_write = PowerUser, nd_storage_path = Some ''/f/f1'',
     nd_target_id = None, nd_access_item = DefaultItem, nd_owner = None\<rparr>"

lemma example_nodes: "nodes (ft_state example_tree) = [(ROOT_ID, example_root), (''d1'', example_box)]"
  by code_simp

lemma example_get: "get_node (ft_state example_tree) i = (if i = ROOT_ID then Some example_root else if i = ''d1'' then Some example_box else None)"
  by (simp add: get_node_def example_nodes)

lemma example_fits: "fits (get_node (ft_state example_tree)) ''d1'' example_file"
proof -
  have "AccessItem_parse ''x'' = DefaultItem" "validate_name ''x'' = Ok ()" by code_simp+
  then show ?thesis
    by (auto simp: fits_def example_get example_root_def example_box_def example_file_def ROOT_ID_def is_folder_def split: if_splits)
qed

theorem hidden_entries_witness:
  "open_for_read (insert_in_memory example_file (ft_state example_tree)) ''/Drop/x'' example_guest =
     open_for_read (ft_state example_tree) ''/Drop/x'' example_guest \<and>
   tree_info (insert_in_memory example_file (ft_state example_tree)) ''/Drop/x'' example_guest =
     tree_info (ft_state example_tree) ''/Drop/x'' example_guest \<and>
   tree_list (insert_in_memory example_file (ft_state example_tree)) ''/Drop/x'' example_guest =
     tree_list (ft_state example_tree) ''/Drop/x'' example_guest \<and>
   prepare_upload (insert_in_memory example_file (ft_state example_tree)) ''/Drop/x'' ''x'' example_guest =
     prepare_upload (ft_state example_tree) ''/Drop/x'' ''x'' example_guest"
proof (rule hidden_entries [OF example_reachable example_fits])
  show "get_node (ft_state example_tree) ''d1'' = Some example_box" by (simp add: example_get ROOT_ID_def)
  show "check_read_chain (ft_state example_tree) example_box example_guest \<noteq> Ok ()" by code_simp
qed

theorem tree_invariant_witness:
  "tree_inv (get_node (ft_state example_tree)) (kid_ids (ft_state example_tree)) \<and>
   mirrors (ft_rows example_tree) (get_node (ft_state example_tree))"
  by (rule tree_invariant [OF example_reachable])

end
