(* ===== verification/File_Delete.thy ===== *)
theory File_Delete
  imports File_Safety
begin

text \<open>
  The recursive delete of the file tree: when it is allowed, and that it then goes through, removing
  exactly what lies below the entry.
\<close>

section \<open>What the walk collects\<close>

definition may_empty :: "TreeState \<Rightarrow> Session \<Rightarrow> Node \<Rightarrow> bool" where
  "may_empty st s n \<longleftrightarrow> is_folder (nd_kind n) \<longrightarrow>
     check_remove_from n s = Ok () \<and> (child_nodes st (nd_id n) \<noteq> [] \<longrightarrow> check_read_node n s = Ok ())"

lemma deletable_iff: "(\<exists>kids. deletable_children st s n = Ok kids) \<longleftrightarrow> may_empty st s n"
  by (auto simp: deletable_children_def may_empty_def Let_def)

lemma collect_loop_step:
  assumes "collect_loop st s pre paths (n # stack) = Ok (ids, out)" and st: "state_inv st" and n: "get_node st (nd_id n) = Some n"
  shows "\<not> length (nodes st) \<le> length pre \<and> may_empty st s n \<and> deletable_children st s n = Ok (child_nodes st (nd_id n)) \<and>
    collect_loop st s (pre @ [nd_id n]) (paths @ (case nd_storage_path n of Some p \<Rightarrow> [p] | None \<Rightarrow> []))
      (rev (child_nodes st (nd_id n)) @ stack) = Ok (ids, out)"
proof -
  obtain kids where k: "\<not> length (nodes st) \<le> length pre" "deletable_children st s n = Ok kids"
      "collect_loop st s (pre @ [nd_id n]) (paths @ (case nd_storage_path n of Some p \<Rightarrow> [p] | None \<Rightarrow> [])) (rev kids @ stack) = Ok (ids, out)"
    using assms(1) by (auto simp: collect_loop.simps(2) split: if_splits result.splits)
  have "kids = child_nodes st (nd_id n)" using deletable_children_Ok [OF st n k(2)] .
  with k deletable_iff [of st s n] show ?thesis by blast
qed

lemma kid_nodes: "state_inv st \<Longrightarrow> m \<in> set (child_nodes st p) \<Longrightarrow> get_node st (nd_id m) = Some m"
  using child_nodes_iff by blast

lemma below_child_nodes:
  assumes "state_inv st" and "get_node st (nd_id n) = Some n"
  shows "below (get_node st) (nd_id n) i \<longleftrightarrow> i = nd_id n \<or> (\<exists>m\<in>set (child_nodes st (nd_id n)). below (get_node st) (nd_id m) i)"
proof -
  have "set (kid_ids st (nd_id n)) = nd_id ` set (child_nodes st (nd_id n))"
    using child_nodes_ids [OF assms(1), of "nd_id n"] by (metis list.set_map)
  then show ?thesis using below_kids [OF state_inv_links [OF assms(1)] assms(2), of i] by simp
qed

text \<open>Everything on the way may be emptied, and the bytes to unlink are those of the entries collected.\<close>

lemma collect_loop_checked:
  "collect_loop st s pre paths stack = Ok (ids, out) \<Longrightarrow> state_inv st \<Longrightarrow> (\<And>n. n \<in> set stack \<Longrightarrow> get_node st (nd_id n) = Some n) \<Longrightarrow>
    n \<in> set stack \<Longrightarrow> below (get_node st) (nd_id n) i \<Longrightarrow> get_node st i = Some x \<Longrightarrow>
    may_empty st s x"
proof (induction st s pre paths stack arbitrary: n rule: collect_loop.induct)
  case (2 st s pre paths m stack)
  note st = "2.prems"(2)
  have m: "get_node st (nd_id m) = Some m" using "2.prems"(3) by simp
  note c = collect_loop_step [OF "2.prems"(1) st m]
  have room: "\<not> length (nodes st) \<le> length pre" and kids: "deletable_children st s m = Ok (child_nodes st (nd_id m))"
    and rest: "collect_loop st s (pre @ [nd_id m]) (paths @ (case nd_storage_path m of Some p \<Rightarrow> [p] | None \<Rightarrow> []))
        (rev (child_nodes st (nd_id m)) @ stack) = Ok (ids, out)" using c by blast+
  have known: "get_node st (nd_id y) = Some y" if "y \<in> set (rev (child_nodes st (nd_id m)) @ stack)" for y
    using that "2.prems"(3) kid_nodes [OF st] by auto
  show ?case
  proof (cases "i = nd_id m")
    case True
    then show ?thesis using "2.prems"(6) m c by simp
  next
    case False
    have "\<exists>y\<in>set (rev (child_nodes st (nd_id m)) @ stack). below (get_node st) (nd_id y) i"
      using "2.prems"(4,5) False below_child_nodes [OF st m, of i] by auto
    then obtain y where "y \<in> set (rev (child_nodes st (nd_id m)) @ stack)" "below (get_node st) (nd_id y) i" by blast
    then show ?thesis using "2.IH" [OF room kids rest st known] "2.prems"(6) by blast
  qed
qed simp

definition blobs_of :: "TreeState \<Rightarrow> string set \<Rightarrow> string set" where
  "blobs_of st D = {b. \<exists>i\<in>D. \<exists>n. get_node st i = Some n \<and> nd_storage_path n = Some b}"

lemma collect_loop_blobs:
  "collect_loop st s pre paths stack = Ok (ids, out) \<Longrightarrow> state_inv st \<Longrightarrow> (\<And>n. n \<in> set stack \<Longrightarrow> get_node st (nd_id n) = Some n) \<Longrightarrow>
    set paths = blobs_of st (set pre) \<Longrightarrow> set out = blobs_of st (set ids)"
proof (induction st s pre paths stack rule: collect_loop.induct)
  case (1 st s pre paths)
  then have "ids = rev pre" "out = paths" by simp_all
  then show ?case using "1.prems"(4) by simp
next
  case (2 st s pre paths m stack)
  note st = "2.prems"(2)
  have m: "get_node st (nd_id m) = Some m" using "2.prems"(3) by simp
  note c = collect_loop_step [OF "2.prems"(1) st m]
  have room: "\<not> length (nodes st) \<le> length pre" and kids: "deletable_children st s m = Ok (child_nodes st (nd_id m))"
    and rest: "collect_loop st s (pre @ [nd_id m]) (paths @ (case nd_storage_path m of Some p \<Rightarrow> [p] | None \<Rightarrow> []))
        (rev (child_nodes st (nd_id m)) @ stack) = Ok (ids, out)" using c by blast+
  show ?case
  proof (rule "2.IH" [OF room kids rest st])
    show "get_node st (nd_id y) = Some y" if "y \<in> set (rev (child_nodes st (nd_id m)) @ stack)" for y
      using that "2.prems"(3) kid_nodes [OF st] by auto
    show "set (paths @ (case nd_storage_path m of Some p \<Rightarrow> [p] | None \<Rightarrow> [])) = blobs_of st (set (pre @ [nd_id m]))"
      using "2.prems"(4) m by (auto simp: blobs_of_def split: option.splits)
  qed
qed

text \<open>An entry is deleted only after everything in it.\<close>

definition kids_later :: "TreeState \<Rightarrow> string list \<Rightarrow> bool" where
  "kids_later st Q \<longleftrightarrow> (\<forall>A i B. Q = A @ i # B \<longrightarrow> set (kid_ids st i) \<subseteq> set B)"

lemma collect_loop_order:
  "collect_loop st s pre paths stack = Ok (ids, out) \<Longrightarrow> state_inv st \<Longrightarrow> (\<And>n. n \<in> set stack \<Longrightarrow> get_node st (nd_id n) = Some n) \<Longrightarrow>
    \<exists>Q. ids = rev (pre @ Q) \<and> kids_later st Q \<and> nd_id ` set stack \<subseteq> set Q"
proof (induction st s pre paths stack rule: collect_loop.induct)
  case (1 st s pre paths)
  then show ?case by (auto simp: kids_later_def intro: exI [of _ "[]"])
next
  case (2 st s pre paths m stack)
  note st = "2.prems"(2)
  have m: "get_node st (nd_id m) = Some m" using "2.prems"(3) by simp
  note c = collect_loop_step [OF "2.prems"(1) st m]
  have room: "\<not> length (nodes st) \<le> length pre" and kids: "deletable_children st s m = Ok (child_nodes st (nd_id m))"
    and rest: "collect_loop st s (pre @ [nd_id m]) (paths @ (case nd_storage_path m of Some p \<Rightarrow> [p] | None \<Rightarrow> []))
        (rev (child_nodes st (nd_id m)) @ stack) = Ok (ids, out)" using c by blast+
  have known: "get_node st (nd_id y) = Some y" if "y \<in> set (rev (child_nodes st (nd_id m)) @ stack)" for y
    using that "2.prems"(3) kid_nodes [OF st] by auto
  obtain Q where Q: "ids = rev ((pre @ [nd_id m]) @ Q)" "kids_later st Q" "nd_id ` set (rev (child_nodes st (nd_id m)) @ stack) \<subseteq> set Q"
    using "2.IH" [OF room kids rest st known] by blast
  have "set (kid_ids st (nd_id m)) \<subseteq> set Q" using Q(3) child_nodes_ids [OF st, of "nd_id m"] by (metis Un_subset_iff image_Un list.set_map set_append set_rev)
  then have "kids_later st (nd_id m # Q)"
    using Q(2) by (auto simp: kids_later_def Cons_eq_append_conv) blast
  then show ?case using Q(1,3) by (intro exI [of _ "nd_id m # Q"]) auto
qed

text \<open>In this order no statement of the transaction orphans a row.\<close>

lemma delete_each_total:
  assumes "targets_live rows"
    and "\<And>xs i ys r. ids = xs @ i # ys \<Longrightarrow> r \<in> set rows \<Longrightarrow> fr_parent_id r = Some i \<Longrightarrow> fr_id r \<in> set xs"
  shows "\<exists>rest. delete_each ids rows = Ok rest"
  using assms
proof (induction ids arbitrary: rows)
  case (Cons i ids)
  have none: "fr_parent_id r \<noteq> Some i" if "r \<in> set rows" for r using Cons.prems(2) [of "[]" i ids r] that by auto
  then have "\<exists>rest. delete_row rows i = Ok rest" by (auto simp: delete_row_def Let_def)
  then obtain mid where mid: "delete_row rows i = Ok mid" by blast
  have m: "mid = prune_rows {i} rows" using delete_row_prune [OF Cons.prems(1) mid] .
  have "\<exists>rest. delete_each ids mid = Ok rest"
  proof (rule Cons.IH)
    show "targets_live mid" using targets_live_prune [OF Cons.prems(1)] m by simp
    fix xs j ys r
    assume r: "ids = xs @ j # ys" "r \<in> set mid" "fr_parent_id r = Some j"
    then obtain r0 where r0: "r0 \<in> set rows" "fr_id r0 = fr_id r" "fr_parent_id r0 = Some j" "fr_id r \<noteq> i"
      by (auto simp: m prune_rows_def split: if_splits)
    then show "fr_id r \<in> set xs" using Cons.prems(2) [of "i # xs" j ys r0] r(1) by auto
  qed
  then show ?case using mid by auto
qed simp

lemma delete_rows_total:
  assumes st: "state_inv st" and mir: "mirrors rows (get_node st)" and n: "get_node st (nd_id n) = Some n"
    and col: "collect_subtree_for_delete st n s = Ok (ids, paths)"
  shows "\<exists>rest. delete_each ids rows = Ok rest"
proof (rule delete_each_total [OF mirrors_live [OF mir]])
  fix xs i ys r
  assume split: "ids = xs @ i # ys" and r: "r \<in> set rows" "fr_parent_id r = Some i"
  obtain Q where Q: "ids = rev Q" "kids_later st Q"
    using collect_loop_order [OF col [unfolded collect_subtree_for_delete_def] st] n by auto
  then have "Q = rev ys @ i # rev xs" using split by (metis append.assoc append_Cons append_Nil rev.simps(2) rev_append rev_rev_ident)
  then have "set (kid_ids st i) \<subseteq> set xs" using Q(2) unfolding kids_later_def by fastforce
  moreover have "fr_id r \<in> set (kid_ids st i)"
  proof -
    have "row_at rows (fr_id r) = Some r" using row_at_Some r(1) mir by (auto simp: mirrors_def)
    then obtain m where "get_node st (fr_id r) = Some m" "node_from_row r = Ok (settle (get_node st) m)"
      using mirrors_row [OF mir] by blast
    then show ?thesis using node_from_row_fields(2) [of r "settle (get_node st) m"] r(2) inv_kids [OF state_inv_links [OF st]] by auto
  qed
  ultimately show "fr_id r \<in> set xs" by blast
qed

text \<open>The bound on the walk is never hit: every step collects another entry of the tree.\<close>

definition walk_ok :: "TreeState \<Rightarrow> string list \<Rightarrow> Node list \<Rightarrow> bool" where
  "walk_ok st pre stack \<longleftrightarrow>
     distinct pre \<and> (\<forall>i\<in>set pre. get_node st i \<noteq> None) \<and> distinct (map nd_id stack) \<and>
     (\<forall>n\<in>set stack. get_node st (nd_id n) = Some n \<and> (\<forall>i\<in>set pre. \<not> below (get_node st) (nd_id n) i)) \<and>
     (\<forall>n\<in>set stack. \<forall>m\<in>set stack. \<forall>i. below (get_node st) (nd_id n) i \<longrightarrow> below (get_node st) (nd_id m) i \<longrightarrow> nd_id n = nd_id m)"

lemma walk_ok_room:
  assumes st: "state_inv st" and ok: "walk_ok st pre (n # stack)"
  shows "length pre < length (nodes st)"
proof -
  have n: "get_node st (nd_id n) = Some n" and fresh: "nd_id n \<notin> set pre"
    using ok below_refl [OF state_inv_links [OF st]] by (auto simp: walk_ok_def)
  have "set (nd_id n # pre) \<subseteq> fst ` set (nodes st)"
  proof
    fix i
    assume "i \<in> set (nd_id n # pre)"
    then have "get_node st i \<noteq> None" using ok n by (auto simp: walk_ok_def)
    then show "i \<in> fst ` set (nodes st)" by (auto simp: get_node_def map_of_eq_None_iff)
  qed
  then have "card (set (nd_id n # pre)) \<le> card (fst ` set (nodes st))" by (intro card_mono) auto
  also have "\<dots> \<le> length (nodes st)" by (metis card_length length_map list.set_map)
  finally show ?thesis using fresh ok distinct_card [of "nd_id n # pre"] by (simp add: walk_ok_def)
qed

lemma walk_ok_step:
  assumes st: "state_inv st" and ok: "walk_ok st pre (n # stack)"
  shows "walk_ok st (pre @ [nd_id n]) (rev (child_nodes st (nd_id n)) @ stack)"
proof -
  note inv = state_inv_links [OF st]
  let ?kids = "child_nodes st (nd_id n)"
  let ?b = "below (get_node st)"
  have n: "get_node st (nd_id n) = Some n" using ok by (simp add: walk_ok_def)
  have apart: "nd_id a = nd_id b" if "a \<in> set (n # stack)" "b \<in> set (n # stack)" "?b (nd_id a) i" "?b (nd_id b) i" for a b i
    using ok that unfolding walk_ok_def by blast
  have off: "nd_id n \<noteq> nd_id x" if "x \<in> set stack" for x using ok that unfolding walk_ok_def by auto
  have kid: "?b (nd_id n) i" if "x \<in> set ?kids" "?b (nd_id x) i" for x i using below_child_nodes [OF st n, of i] that by blast
  have kid_id: "nd_id x \<in> set (kid_ids st (nd_id n))" if "x \<in> set ?kids" for x using child_nodes_ids [OF st, of "nd_id n"] that by (metis image_eqI list.set_map)
  have self: "?b (nd_id x) (nd_id x)" if "get_node st (nd_id x) = Some x" for x using below_refl [OF inv that] .
  have known: "get_node st (nd_id x) = Some x" if "x \<in> set (rev ?kids @ stack)" for x
    using that kid_nodes [OF st] ok by (auto simp: walk_ok_def)
  have below_n: "\<not> ?b (nd_id x) (nd_id n)" if x: "x \<in> set (rev ?kids @ stack)" for x
  proof
    assume b: "?b (nd_id x) (nd_id n)"
    show False
    proof (cases "x \<in> set stack")
      case True
      then show False using apart [of n x "nd_id n"] self [OF n] b off [OF True] by simp
    next
      case False
      then have k: "x \<in> set ?kids" using x by simp
      then have "?b (nd_id n) (nd_id x)" using kid self [OF known [OF x]] by blast
      then have "nd_id x = nd_id n" using below_antisym [OF inv b] by simp
      moreover have "nd_parent_id x = Some (nd_id n)" using k child_nodes_iff [OF st] by blast
      ultimately show False using no_self_parent [OF inv known [OF x]] by simp
    qed
  qed
  have clash: False if "x \<in> set ?kids" "y \<in> set stack" "?b (nd_id x) i" "?b (nd_id y) i" for x y i
    using apart [of n y i] kid [OF that(1,3)] that(2,4) off [OF that(2)] by simp
  have old: "\<not> ?b (nd_id y) i" if "y \<in> set (n # stack)" "i \<in> set pre" for y i using ok that unfolding walk_ok_def by blast
  have "distinct (pre @ [nd_id n])" "\<forall>i\<in>set (pre @ [nd_id n]). get_node st i \<noteq> None"
    using ok old [of n "nd_id n"] self [OF n] n by (auto simp: walk_ok_def)
  moreover have "distinct (map nd_id (rev ?kids @ stack))"
  proof -
    have "distinct (map nd_id ?kids)" using child_nodes_ids [OF st] inv_distinct [OF inv] by simp
    moreover have "distinct (map nd_id stack)" using ok by (simp add: walk_ok_def)
    moreover have "nd_id x \<noteq> nd_id y" if "x \<in> set ?kids" "y \<in> set stack" for x y
      using clash [OF that, of "nd_id x"] self [OF known, of x] that by auto
    ultimately show ?thesis by (auto simp flip: rev_map)
  qed
  moreover have "get_node st (nd_id x) = Some x \<and> (\<forall>i\<in>set (pre @ [nd_id n]). \<not> ?b (nd_id x) i)"
    if x: "x \<in> set (rev ?kids @ stack)" for x
  proof -
    have "\<not> ?b (nd_id x) i" if i: "i \<in> set pre" for i
      using x old [of x i] old [of n i] kid [of x i] i by auto
    then show ?thesis using known [OF x] below_n [OF x] by auto
  qed
  moreover have "nd_id x = nd_id y"
    if "x \<in> set (rev ?kids @ stack)" "y \<in> set (rev ?kids @ stack)" "?b (nd_id x) i" "?b (nd_id y) i" for x y i
  proof (cases "x \<in> set ?kids"; cases "y \<in> set ?kids")
    assume "x \<in> set ?kids" "y \<in> set ?kids"
    then show ?thesis using kids_disjoint [OF inv kid_id kid_id that(3,4)] by blast
  next
    assume "x \<in> set ?kids" "y \<notin> set ?kids"
    then show ?thesis using clash that by auto
  next
    assume "x \<notin> set ?kids" "y \<in> set ?kids"
    then show ?thesis using clash that by auto
  next
    assume "x \<notin> set ?kids" "y \<notin> set ?kids"
    then show ?thesis using apart [of x y i] that by auto
  qed
  ultimately show ?thesis unfolding walk_ok_def by blast
qed

lemma collect_loop_total:
  "state_inv st \<Longrightarrow> walk_ok st pre stack \<Longrightarrow>
    (\<And>n i x. n \<in> set stack \<Longrightarrow> below (get_node st) (nd_id n) i \<Longrightarrow> get_node st i = Some x \<Longrightarrow> may_empty st s x) \<Longrightarrow>
    \<exists>ids out. collect_loop st s pre paths stack = Ok (ids, out)"
proof (induction st s pre paths stack rule: collect_loop.induct)
  case (2 st s pre paths n stack)
  note st = "2.prems"(1)
  have n: "get_node st (nd_id n) = Some n" using "2.prems"(2) by (simp add: walk_ok_def)
  have room: "\<not> length (nodes st) \<le> length pre" using walk_ok_room [OF st "2.prems"(2)] by simp
  have "may_empty st s n" using "2.prems"(3) [of n "nd_id n" n] below_refl [OF state_inv_links [OF st] n] n by simp
  then obtain kids where k: "deletable_children st s n = Ok kids" using deletable_iff by blast
  have kids: "kids = child_nodes st (nd_id n)" using deletable_children_Ok [OF st n k] .
  have "\<exists>ids out. collect_loop st s (pre @ [nd_id n]) (paths @ (case nd_storage_path n of Some p \<Rightarrow> [p] | None \<Rightarrow> [])) (rev kids @ stack) = Ok (ids, out)"
  proof (rule "2.IH" [OF room k st])
    show "walk_ok st (pre @ [nd_id n]) (rev kids @ stack)" using walk_ok_step [OF st "2.prems"(2)] kids by simp
    fix m i x
    assume m: "m \<in> set (rev kids @ stack)" "below (get_node st) (nd_id m) i" "get_node st i = Some x"
    show "may_empty st s x"
    proof (cases "m \<in> set stack")
      case True
      then show ?thesis using "2.prems"(3) [of m i x] m by simp
    next
      case False
      then have "below (get_node st) (nd_id n) i" using m below_child_nodes [OF st n, of i] kids by auto
      then show ?thesis using "2.prems"(3) [of n i x] m by simp
    qed
  qed
  then show ?case using room k by (simp add: collect_loop.simps(2))
qed simp

lemma collect_subtree_total:
  assumes "state_inv st" and "get_node st (nd_id n) = Some n"
    and "\<And>i x. below (get_node st) (nd_id n) i \<Longrightarrow> get_node st i = Some x \<Longrightarrow> may_empty st s x"
  shows "\<exists>ids paths. collect_subtree_for_delete st n s = Ok (ids, paths)"
  using assms(2,3) unfolding collect_subtree_for_delete_def by (intro collect_loop_total [OF assms(1)]) (auto simp: walk_ok_def)

section \<open>Properties\<close>

lemma delete_plan_facts:
  assumes st: "state_inv st" and plan: "delete_plan st path s = Ok (node, parent, ids, paths)"
  shows "set paths = blobs_of st (set ids)" "\<And>i x. i \<in> set ids \<Longrightarrow> get_node st i = Some x \<Longrightarrow> may_empty st s x"
    "parent_of st node = Ok parent" "check_remove_from parent s = Ok ()" "has (s_privileges s) FILE_DELETE"
    "is_folder (nd_kind node) \<Longrightarrow> has (s_privileges s) FILE_MANAGE_TREE"
proof -
  note pl = delete_plan_Ok [OF st plan]
  note col = pl(6) [unfolded collect_subtree_for_delete_def]
  show "set paths = blobs_of st (set ids)"
    by (rule collect_loop_blobs [OF col st]) (use pl(1) in \<open>simp_all add: blobs_of_def\<close>)
  show "may_empty st s x" if "i \<in> set ids" "get_node st i = Some x" for i x
    using collect_loop_checked [OF col st, of node i x] that pl(1,5) by simp
  show "parent_of st node = Ok parent" "check_remove_from parent s = Ok ()" "has (s_privileges s) FILE_DELETE"
    "is_folder (nd_kind node) \<Longrightarrow> has (s_privileges s) FILE_MANAGE_TREE"
    using plan by (auto simp: delete_plan_def split: if_splits)
qed

lemma delete_plan_total:
  assumes st: "state_inv st" and res: "resolve_as st path s = Ok node" and root: "nd_id node \<noteq> ROOT_ID"
    and par: "parent_of st node = Ok parent" and remove: "check_remove_from parent s = Ok ()"
    and priv: "has (s_privileges s) FILE_DELETE" "is_folder (nd_kind node) \<longrightarrow> has (s_privileges s) FILE_MANAGE_TREE"
    and all: "\<forall>i x. below (get_node st) (nd_id node) i \<longrightarrow> get_node st i = Some x \<longrightarrow> may_empty st s x"
  shows "\<exists>ids paths. delete_plan st path s = Ok (node, parent, ids, paths)"
proof -
  have node: "get_node st (nd_id node) = Some node" using resolve_as_known [OF st res] .
  obtain q where q: "nd_parent_id node = Some q" "get_node st q = Some parent"
    using par by (auto simp: parent_of_def Option.bind_eq_Some_conv)
  have "check_read_chain st parent s = Ok ()" using resolve_as_gate [OF st res] q by (simp add: gate_def)
  moreover obtain ids paths where "collect_subtree_for_delete st node s = Ok (ids, paths)"
    using collect_subtree_total [OF st node, of s] all by blast
  ultimately show ?thesis using res root par remove priv by (simp add: delete_plan_def)
qed

text \<open>Property C27. A delete is allowed exactly when the session may take the entry out of its folder, holds
  the privileges, and may empty every folder below it; and then, the database answering, it goes through:
  the walk's bound is never hit and the rows go in an order that orphans none.\<close>

theorem delete_permitted:
  assumes "tree_reachable ft"
  shows "is_ok (fst (tree_delete False path s ft)) \<longleftrightarrow>
    (\<exists>node parent. resolve_as (ft_state ft) path s = Ok node \<and> nd_id node \<noteq> ROOT_ID \<and>
      parent_of (ft_state ft) node = Ok parent \<and> check_remove_from parent s = Ok () \<and> has (s_privileges s) FILE_DELETE \<and>
      (is_folder (nd_kind node) \<longrightarrow> has (s_privileges s) FILE_MANAGE_TREE) \<and>
      (\<forall>i x. below (get_node (ft_state ft)) (nd_id node) i \<longrightarrow> get_node (ft_state ft) i = Some x \<longrightarrow> may_empty (ft_state ft) s x))"
    (is "?ok \<longleftrightarrow> ?may")
proof
  let ?st = "ft_state ft"
  have st: "state_inv ?st" and mir: "mirrors (ft_rows ft) (get_node ?st)" using reachable_wf [OF assms] by (simp_all add: tree_wf_def)
  {
    assume ?ok
    then obtain node parent ids paths where plan: "delete_plan ?st path s = Ok (node, parent, ids, paths)"
      by (auto simp: tree_delete_def split: result.splits prod.splits)
    show ?may
      using delete_plan_Ok [OF st plan] delete_plan_facts [OF st plan] by (intro exI [of _ node] exI [of _ parent]) simp
  next
    assume ?may
    then obtain node parent ids paths where plan: "delete_plan ?st path s = Ok (node, parent, ids, paths)"
      using delete_plan_total [OF st] by blast
    obtain rest where "delete_each ids (ft_rows ft) = Ok rest"
      using delete_rows_total [OF st mir] delete_plan_Ok [OF st plan] by blast
    then show ?ok using plan by (simp add: tree_delete_def files_delete_many_def Let_def)
  }
qed

text \<open>Property C28. A delete is exact and all or nothing: a refusal or a failure of the database leaves the tree
  and its table as they were; a success takes out the entry and everything below it, nothing else
  changes, and the bytes to unlink are those of the files that went.\<close>

theorem delete_exact:
  assumes "tree_reachable ft"
  shows "case tree_delete fault path s ft of
      (Ok (kind, blobs), ft') \<Rightarrow> \<exists>node D. resolve_as (ft_state ft) path s = Ok node \<and> kind = nd_kind node \<and>
        D = {i. below (get_node (ft_state ft)) (nd_id node) i} \<and>
        get_node (ft_state ft') = (\<lambda>i. if i \<in> D then None else get_node (ft_state ft) i) \<and>
        set blobs = blobs_of (ft_state ft) D
    | (_, ft') \<Rightarrow> ft' = ft"
proof (cases "delete_plan (ft_state ft) path s")
  case (Ok plan)
  have st: "state_inv (ft_state ft)" using reachable_wf [OF assms] by (simp add: tree_wf_def)
  obtain node parent ids paths where p: "plan = (node, parent, ids, paths)" by (cases plan)
  note plan = Ok [unfolded p]
  show ?thesis
  proof (cases "files_delete_many fault ids (ft_rows ft)")
    case (Ok rows)
    have "get_node ((forget_nodes ids (ft_state ft))\<lparr>children := drop_child (nd_id parent) (nd_id node) (children (forget_nodes ids (ft_state ft)))\<rparr>) =
        (\<lambda>i. if i \<in> set ids then None else get_node (ft_state ft) i)"
      using deleted_maps(1) [OF st plan refl] by (auto simp: fun_eq_iff restrict_map_def)
    then show ?thesis
      using plan Ok delete_plan_Ok [OF st plan] delete_plan_facts(1) [OF st plan] by (simp add: tree_delete_def Let_def)
  qed (use plan in \<open>simp_all add: tree_delete_def\<close>)
qed (simp_all add: tree_delete_def)

theorem delete_permitted_witness:
  "is_ok (fst (tree_delete False ''/Drop'' example_admin example_tree)) \<longleftrightarrow>
    (\<exists>node parent. resolve_as (ft_state example_tree) ''/Drop'' example_admin = Ok node \<and> nd_id node \<noteq> ROOT_ID \<and>
      parent_of (ft_state example_tree) node = Ok parent \<and> check_remove_from parent example_admin = Ok () \<and>
      has (s_privileges example_admin) FILE_DELETE \<and>
      (is_folder (nd_kind node) \<longrightarrow> has (s_privileges example_admin) FILE_MANAGE_TREE) \<and>
      (\<forall>i x. below (get_node (ft_state example_tree)) (nd_id node) i \<longrightarrow> get_node (ft_state example_tree) i = Some x \<longrightarrow>
        may_empty (ft_state example_tree) example_admin x))"
  by (rule delete_permitted [OF example_reachable])

theorem delete_exact_witness:
  "case tree_delete False ''/Drop'' example_admin example_tree of
      (Ok (kind, blobs), ft') \<Rightarrow> \<exists>node D. resolve_as (ft_state example_tree) ''/Drop'' example_admin = Ok node \<and> kind = nd_kind node \<and>
        D = {i. below (get_node (ft_state example_tree)) (nd_id node) i} \<and>
        get_node (ft_state ft') = (\<lambda>i. if i \<in> D then None else get_node (ft_state example_tree) i) \<and>
        set blobs = blobs_of (ft_state example_tree) D
    | (_, ft') \<Rightarrow> ft' = example_tree"
  by (rule delete_exact [OF example_reachable])

end
