(* ===== verification/File_Search.thy ===== *)
theory File_Search
  imports File_Safety
begin

text \<open>
  The search catalogue of the file tree: an index of the entries outside drop boxes with the class each
  needs, and that a search of a fresh catalogue shows a class only what it could list.
\<close>

definition path_str :: "Node list \<Rightarrow> string" where
  "path_str c = concat (map (\<lambda>n. ''/'' @ nd_name n) (rev (filter (\<lambda>n. nd_parent_id n \<noteq> None) c)))"

text \<open>A folder on the stack: its path, and a class that opens it and every folder above it.\<close>

definition open_to :: "TreeState \<Rightarrow> Node \<Rightarrow> string \<Rightarrow> BaseClass \<Rightarrow> bool" where
  "open_to st f path cls \<longleftrightarrow> get_node st (nd_id f) = Some f \<and>
     (\<exists>c. up (get_node st) f c \<and> path = path_str c \<and>
       (\<forall>m\<in>set c. nd_min_class_read m \<le> cls \<and> \<not> is_drop_box (nd_kind m) (nd_access_item m)))"

definition indexes :: "TreeState \<Rightarrow> CatalogEntry \<Rightarrow> bool" where
  "indexes st e \<longleftrightarrow> (\<exists>f x path cls. open_to st f path cls \<and> x \<in> set (child_nodes st (nd_id f)) \<and> cls \<le> ce_min_read_class e \<and>
     nd_kind x \<noteq> Alias \<and> (is_folder (nd_kind x) \<longrightarrow> nd_min_class_read x \<le> ce_min_read_class e) \<and>
     ce_path e = path @ ''/'' @ nd_name x \<and> ce_name e = nd_name x \<and> ce_kind e = nd_kind x \<and> ce_size e = nd_size x)"

lemma open_to_child:
  assumes st: "state_inv st" and f: "open_to st f path cls" and x: "x \<in> set (child_nodes st (nd_id f))"
    and d: "descend_child path cls x = Some (y, path', cls')"
  shows "open_to st y path' cls'"
proof -
  obtain c where c: "get_node st (nd_id f) = Some f" "up (get_node st) f c" "path = path_str c"
      "\<forall>m\<in>set c. nd_min_class_read m \<le> cls \<and> \<not> is_drop_box (nd_kind m) (nd_access_item m)"
    using f unfolding open_to_def by blast
  have y: "y = x" "path' = path @ ''/'' @ nd_name x" "cls' = max cls (nd_min_class_read x)"
      "\<not> is_drop_box (nd_kind x) (nd_access_item x)"
    using d by (auto simp: descend_child_def index_child_def Let_def split: if_splits)
  have k: "get_node st (nd_id x) = Some x" "nd_parent_id x = Some (nd_id f)" using x child_nodes_iff [OF st] by simp_all
  have "up (get_node st) x (x # c)" using k(2) c(1,2) by (rule up_step)
  moreover have "path' = path_str (x # c)" using k(2) c(3) y(2) by (simp add: path_str_def)
  moreover have "nd_min_class_read m \<le> cls' \<and> \<not> is_drop_box (nd_kind m) (nd_access_item m)" if "m \<in> set (x # c)" for m
    using that c(4) y(3,4) by (auto intro: max.coboundedI1)
  ultimately show ?thesis unfolding open_to_def y(1) using k(1) by blast
qed

lemma index_child_indexes:
  assumes "open_to st f path cls" and "x \<in> set (child_nodes st (nd_id f))" and "index_child path cls x = Some e"
  shows "indexes st e"
proof -
  have "cls \<le> ce_min_read_class e" "nd_kind x \<noteq> Alias" "is_folder (nd_kind x) \<longrightarrow> nd_min_class_read x \<le> ce_min_read_class e"
      "ce_path e = path @ ''/'' @ nd_name x" "ce_name e = nd_name x" "ce_kind e = nd_kind x" "ce_size e = nd_size x"
    using assms(3) by (auto simp: index_child_def Let_def split: if_splits)
  with assms(1,2) show ?thesis unfolding indexes_def by blast
qed

lemma catalog_loop_indexes:
  "state_inv st \<Longrightarrow> (\<And>f path cls. (f, path, cls) \<in> set stack \<Longrightarrow> open_to st f path cls) \<Longrightarrow> (\<And>e. e \<in> set out \<Longrightarrow> indexes st e) \<Longrightarrow>
    e \<in> set (catalog_loop st visited out stack) \<Longrightarrow> indexes st e"
proof (induction st visited out stack rule: catalog_loop.induct)
  case (2 st visited out f path cls stack)
  note st = "2.prems"(1)
  show ?case
  proof (cases "visited + 1 > length (nodes st)")
    case True
    then show ?thesis using "2.prems"(3,4) by (simp add: catalog_loop.simps(2))
  next
    case False
    have f: "open_to st f path cls" using "2.prems"(2) by simp
    let ?kids = "child_nodes st (nd_id f)"
    show ?thesis
    proof (rule "2.IH" [OF False refl st])
      fix y path' cls'
      assume "(y, path', cls') \<in> set (rev (List.map_filter (descend_child path cls) ?kids) @ stack)"
      then show "open_to st y path' cls'" using open_to_child [OF st f] "2.prems"(2) by (auto simp: set_map_filter)
    next
      fix e
      assume "e \<in> set (out @ List.map_filter (index_child path cls) ?kids)"
      then show "indexes st e" using index_child_indexes [OF f] "2.prems"(3) by (auto simp: set_map_filter)
    next
      show "e \<in> set (catalog_loop st (visited + 1) (out @ List.map_filter (index_child path cls) ?kids)
          (rev (List.map_filter (descend_child path cls) ?kids) @ stack))"
        using "2.prems"(4) False by (simp add: catalog_loop.simps(2) Let_def)
    qed
  qed
qed simp

lemma catalog_indexes:
  assumes st: "state_inv st" and "e \<in> set (collect_catalog st)"
  shows "indexes st e"
proof -
  obtain r where r: "get_node st ROOT_ID = Some r" "nd_parent_id r = None" "plain_folder r"
    using inv_root [OF state_inv_links [OF st]] by blast
  have id: "nd_id r = ROOT_ID" using inv_id [OF state_inv_links [OF st] r(1)] .
  have "open_to st r [] (nd_min_class_read r)"
    unfolding open_to_def using r id up_root [OF r(2) id, of "get_node st"]
    by (intro conjI exI [of _ "[r]"]) (auto simp: path_str_def plain_folder_def)
  then have start: "open_to st f path cls" if "(f, path, cls) \<in> set [(r, [], nd_min_class_read r)]" for f path cls using that by simp
  have mem: "e \<in> set (catalog_loop st 0 [] [(r, [], nd_min_class_read r)])" using assms(2) r(1) by (simp add: collect_catalog_def)
  show ?thesis by (rule catalog_loop_indexes [OF st start _ mem]) simp_all
qed

text \<open>Property C29. A search right after the catalogue was built shows a class only entries of folders it could
  list: for any session of that class, owner of nothing, the folder of every hit and all folders above
  it are readable, and the hit's path is the folder's with the entry's name.\<close>

theorem search_is_gated:
  assumes "tree_reachable ft" and "tree_search lower (snd (generate_catalog ft)) query cls limit = Ok hits" and "e \<in> set hits"
    and "s_class s = cls"
  shows "\<exists>folder x chain. x \<in> set (child_nodes (ft_state ft) (nd_id folder)) \<and> ce_name e = nd_name x \<and> ce_size e = nd_size x \<and>
    ancestry (ft_state ft) folder = Ok chain \<and> ce_path e = path_str (x # chain) \<and> check_read_chain (ft_state ft) folder s = Ok ()"
proof -
  let ?st = "ft_state ft"
  have st: "state_inv ?st" using reachable_wf [OF assms(1)] by (simp add: tree_wf_def)
  have e: "e \<in> set (collect_catalog ?st)" "ce_min_read_class e \<le> cls"
    using assms(2,3) by (auto simp: tree_search_def generate_catalog_def Let_def dest!: in_set_takeD)
  obtain f x path fcls where i: "open_to ?st f path fcls" "x \<in> set (child_nodes ?st (nd_id f))" "fcls \<le> ce_min_read_class e"
      "ce_path e = path @ ''/'' @ nd_name x" "ce_name e = nd_name x" "ce_size e = nd_size x"
    using catalog_indexes [OF st e(1)] unfolding indexes_def by blast
  obtain c where c: "get_node ?st (nd_id f) = Some f" "up (get_node ?st) f c" "path = path_str c"
      "\<forall>m\<in>set c. nd_min_class_read m \<le> fcls \<and> \<not> is_drop_box (nd_kind m) (nd_access_item m)"
    using i(1) unfolding open_to_def by blast
  have "check_read_node m s = Ok ()" if "m \<in> set c" for m
  proof -
    have "nd_min_class_read m \<le> s_class s" using c(4) that i(3) e(2) assms(4) by (meson order_trans)
    then show ?thesis using c(4) that by (simp add: check_read_node_def check_read_def not_less)
  qed
  then have "check_read_chain ?st f s = Ok ()" using read_chain_up [OF st c(1,2)] by (simp add: check_each_Ok)
  moreover have "nd_parent_id x \<noteq> None" using i(2) child_nodes_iff [OF st] by simp
  then have "ce_path e = path_str (x # c)" using i(4) c(3) by (simp add: path_str_def)
  ultimately show ?thesis using i c ancestry_up [OF st c(1,2)] by blast
qed

definition example_hit :: CatalogEntry where
  "example_hit = \<lparr>ce_path = ''/Drop'', ce_name = ''Drop'', ce_kind = DropBoxKind, ce_size = 0, ce_min_read_class = Guest\<rparr>"

theorem search_is_gated_witness:
  "\<exists>folder x chain. x \<in> set (child_nodes (ft_state example_tree) (nd_id folder)) \<and> ce_name example_hit = nd_name x \<and>
    ce_size example_hit = nd_size x \<and> ancestry (ft_state example_tree) folder = Ok chain \<and>
    ce_path example_hit = path_str (x # chain) \<and> check_read_chain (ft_state example_tree) folder example_guest = Ok ()"
proof (rule search_is_gated [OF example_reachable, of "\<lambda>s. s" "[]" Guest 9 "[example_hit]"])
  show "tree_search (\<lambda>s. s) (snd (generate_catalog example_tree)) [] Guest 9 = Ok [example_hit]" by code_simp
  show "s_class example_guest = Guest" by (simp add: example_guest_def)
qed simp

end
