(* ===== verification/File_Restart.thy ===== *)
theory File_Restart
  imports File_Safety "HOL-Library.Multiset"
begin

text \<open>
  A restart of the server reads the tree back from the table. It answers as the server before it: the
  order of the rows and the dead targets of aliases are the only things that may differ, and no answer
  shows them.
\<close>

definition settled :: "node_map \<Rightarrow> (Node, TreeError) result \<Rightarrow> (Node, TreeError) result" where
  "settled g r = (case r of Ok n \<Rightarrow> Ok (settle g n) | Err e \<Rightarrow> Err e | Panic \<Rightarrow> Panic)"

lemma settled_simps [simp]: "settled g (Ok n) = Ok (settle g n)" "settled g (Err e) = Err e" "settled g Panic = Panic"
  by (simp_all add: settled_def)

lemma settled_bind:
  "settled g (bind_result r f) = bind_result r (\<lambda>x. settled g (f x))"
  by (cases r) simp_all

text \<open>\<open>restarts st st'\<close>: \<open>st'\<close> is read back from the table of \<open>st\<close>.\<close>

definition restarts :: "TreeState \<Rightarrow> TreeState \<Rightarrow> bool" where
  "restarts st st' \<longleftrightarrow> state_inv st \<and> state_inv st' \<and> get_node st' = (\<lambda>i. map_option (settle (get_node st)) (get_node st i))"

lemma settle_more [simp]:
  "nd_size (settle g n) = nd_size n" "nd_min_class_read (settle g n) = nd_min_class_read n"
  "nd_min_class_write (settle g n) = nd_min_class_write n" "nd_owner (settle g n) = nd_owner n"
  by (simp_all add: settle_def split: option.splits)

lemma check_read_settle [simp]: "check_read_node (settle g n) s = check_read_node n s"
  by (simp add: check_read_node_def)

lemma check_each_settle: "check_each s (map (settle g) ns) = check_each s ns"
  by (induction ns) simp_all

lemma sts:
  assumes "restarts st st'"
  shows "state_inv st" "state_inv st'"
  using assms by (simp_all add: restarts_def)

lemma get':
  assumes "restarts st st'"
  shows "get_node st' i = map_option (settle (get_node st)) (get_node st i)"
  using assms by (simp add: restarts_def)

lemma restart_chain:
  assumes r: "restarts st st'" and n: "get_node st i = Some n"
  shows "check_read_chain st' (settle (get_node st) n) s = check_read_chain st n s"
proof -
  obtain c where c: "up (get_node st) n c" using inv_up [OF state_inv_links [OF sts(1) [OF r]] n] by blast
  have "up (get_node st') (settle (get_node st) n) (map (settle (get_node st)) c)"
    using up_settle [OF c] r by (simp add: restarts_def)
  moreover have "get_node st' i = Some (settle (get_node st) n)" using n by (simp add: get' [OF r])
  ultimately show ?thesis
    using read_chain_up [OF sts(2) [OF r]] read_chain_up [OF sts(1) [OF r] n c] by (simp add: check_each_settle rev_map)
qed

lemma restart_parent:
  assumes r: "restarts st st'" and "get_node st i = Some n"
  shows "parent_of st' (settle (get_node st) n) = settled (get_node st) (parent_of st n)"
proof (cases "nd_parent_id n")
  case (Some p)
  then show ?thesis by (cases "get_node st p") (simp_all add: parent_of_def need_node_def get' [OF r])
qed (simp add: parent_of_def need_node_def)

lemma restart_readable:
  assumes r: "restarts st st'" and n: "get_node st i = Some n"
  shows "check_node_readable st' (settle (get_node st) n) s = check_node_readable st n s"
proof (cases "parent_of st n")
  case (Ok p)
  then obtain j where "get_node st j = Some p" by (auto simp: parent_of_def Option.bind_eq_Some_conv)
  then show ?thesis using restart_chain [OF r] restart_parent [OF r n] Ok n by (simp add: check_node_readable_def)
qed (use restart_chain [OF r n] restart_parent [OF r n] in \<open>simp_all add: check_node_readable_def\<close>)

lemma restart_alias:
  assumes r: "restarts st st'"
  shows "resolve_through_alias st' (settle (get_node st) n) = settled (get_node st) (resolve_through_alias st n)"
proof (cases "nd_target_id n")
  case (Some t)
  then show ?thesis
    by (cases "get_node st t") (simp_all add: resolve_through_alias_def need_node_def settle_target get' [OF r])
qed (simp add: resolve_through_alias_def need_node_def settle_target)

lemma alias_known:
  assumes "get_node st i = Some n" and "resolve_through_alias st n = Ok t"
  shows "\<exists>j. get_node st j = Some t"
  using assms by (auto simp: resolve_through_alias_def Option.bind_eq_Some_conv split: if_splits)

lemma restart_walkable:
  assumes r: "restarts st st'" and n: "get_node st i = Some n"
  shows "walkable st' (Some s) (settle (get_node st) n) = settled (get_node st) (walkable st (Some s) n)"
proof (cases "resolve_through_alias st n")
  case (Ok t)
  obtain j where "get_node st j = Some t" using alias_known [OF n Ok] by blast
  then show ?thesis using restart_readable [OF r] restart_alias [OF r, of n] Ok by (simp add: walkable_def settled_bind)
qed (use restart_alias [OF r, of n] in \<open>simp_all add: walkable_def settled_bind\<close>)

lemma restart_kids:
  assumes r: "restarts st st'"
  shows "set (child_nodes st' p) = settle (get_node st) ` set (child_nodes st p)"
proof (intro set_eqI iffI)
  fix x
  assume "x \<in> set (child_nodes st' p)"
  then have x: "get_node st' (nd_id x) = Some x" "nd_parent_id x = Some p" using child_nodes_iff [OF sts(2) [OF r]] by simp_all
  obtain n where n: "get_node st (nd_id x) = Some n" "x = settle (get_node st) n"
    using x(1) unfolding get' [OF r] by (metis map_option_eq_Some)
  then have "n \<in> set (child_nodes st p)" using child_nodes_iff [OF sts(1) [OF r], of n p] x(2) by simp
  with n(2) show "x \<in> settle (get_node st) ` set (child_nodes st p)" by blast
next
  fix x
  assume "x \<in> settle (get_node st) ` set (child_nodes st p)"
  then obtain n where n: "n \<in> set (child_nodes st p)" "x = settle (get_node st) n" by blast
  then have "get_node st (nd_id n) = Some n" "nd_parent_id n = Some p" using child_nodes_iff [OF sts(1) [OF r]] by simp_all
  then show "x \<in> set (child_nodes st' p)" using child_nodes_iff [OF sts(2) [OF r], of x p] n(2) by (simp add: get' [OF r])
qed

lemma same_name_kids:
  assumes "state_inv st0" and "x \<in> set (child_nodes st0 p)" "y \<in> set (child_nodes st0 p)" "nd_name x = nd_name y"
  shows "x = y"
proof -
  have k: "get_node st0 (nd_id x) = Some x" "get_node st0 (nd_id y) = Some y" "nd_parent_id x = nd_parent_id y"
    using assms child_nodes_iff [OF assms(1)] by simp_all
  have "nd_id x = nd_id y" by (rule inv_names [OF state_inv_links [OF assms(1)] k assms(4)])
  with k(1,2) show ?thesis by (metis option.inject)
qed

lemma find_kid:
  assumes "state_inv st0"
  shows "find (\<lambda>n. nd_name n = seg) (child_nodes st0 p) = Some x \<longleftrightarrow> x \<in> set (child_nodes st0 p) \<and> nd_name x = seg"
proof
  assume "find (\<lambda>n. nd_name n = seg) (child_nodes st0 p) = Some x"
  then show "x \<in> set (child_nodes st0 p) \<and> nd_name x = seg" by (auto simp: find_Some_iff)
next
  assume x: "x \<in> set (child_nodes st0 p) \<and> nd_name x = seg"
  then obtain y where y: "find (\<lambda>n. nd_name n = seg) (child_nodes st0 p) = Some y"
    by (cases "find (\<lambda>n. nd_name n = seg) (child_nodes st0 p)") (auto simp: find_None_iff)
  then have "y \<in> set (child_nodes st0 p)" "nd_name y = seg" by (auto simp: find_Some_iff)
  then show "find (\<lambda>n. nd_name n = seg) (child_nodes st0 p) = Some x" using same_name_kids [OF assms] x y by metis
qed

lemma restart_find:
  assumes r: "restarts st st'"
  shows "find (\<lambda>n. nd_name n = seg) (child_nodes st' p) = map_option (settle (get_node st)) (find (\<lambda>n. nd_name n = seg) (child_nodes st p))"
proof (cases "find (\<lambda>n. nd_name n = seg) (child_nodes st p)")
  case None
  then have "find (\<lambda>n. nd_name n = seg) (child_nodes st' p) = None" using restart_kids [OF r] by (auto simp: find_None_iff)
  then show ?thesis using None by simp
next
  case (Some x)
  then have "find (\<lambda>n. nd_name n = seg) (child_nodes st' p) = Some (settle (get_node st) x)"
    using find_kid [OF sts(1) [OF r]] find_kid [OF sts(2) [OF r]] restart_kids [OF r] by auto
  then show ?thesis using Some by simp
qed

lemma restart_walk:
  assumes r: "restarts st st'"
  shows "get_node st (nd_id n) = Some n \<Longrightarrow>
    walk_segments st' (Some s) (settle (get_node st) n) segs = settled (get_node st) (walk_segments st (Some s) n segs)"
proof (induction segs arbitrary: n)
  case (Cons seg segs)
  show ?case
  proof (cases "walkable st (Some s) n")
    case (Ok f)
    show ?thesis
    proof (cases "find (\<lambda>n. nd_name n = seg) (child_nodes st (nd_id f))")
      case None
      then show ?thesis using restart_walkable [OF r Cons.prems] Ok restart_find [OF r] by (simp add: need_node_def)
    next
      case (Some x)
      then have "get_node st (nd_id x) = Some x" using find_kid [OF sts(1) [OF r]] child_nodes_iff [OF sts(1) [OF r]] by blast
      then show ?thesis using restart_walkable [OF r Cons.prems] Ok restart_find [OF r] Some Cons.IH by (simp add: need_node_def)
    qed
  qed (use restart_walkable [OF r Cons.prems] in simp_all)
qed simp

lemma restart_resolve:
  assumes r: "restarts st st'"
  shows "resolve_as st' path s = settled (get_node st) (resolve_as st path s)"
proof -
  obtain x where x: "get_node st ROOT_ID = Some x" using inv_root [OF state_inv_links [OF sts(1) [OF r]]] by blast
  then have "get_node st' ROOT_ID = Some (settle (get_node st) x)" by (simp add: get' [OF r])
  then show ?thesis using x restart_walk [OF r known_self [OF sts(1) [OF r] x]]
    by (simp add: resolve_as_def walk_def need_node_def settled_bind)
qed

lemma restart_size:
  assumes r: "restarts st st'"
  shows "listed_size st' s (settle (get_node st) n) = listed_size st s n"
proof (cases "nd_target_id n")
  case (Some t)
  then show ?thesis
    by (cases "get_node st t") (simp_all add: listed_size_def settle_target get' [OF r] restart_readable [OF r])
qed (simp add: listed_size_def settle_target)

lemma restart_entries:
  assumes r: "restarts st st'"
  shows "sort_key fe_name (map (\<lambda>n. \<lparr>fe_name = nd_name n, fe_kind = nd_kind n, fe_size = listed_size st' s n\<rparr>) (child_nodes st' p)) =
   sort_key fe_name (map (\<lambda>n. \<lparr>fe_name = nd_name n, fe_kind = nd_kind n, fe_size = listed_size st s n\<rparr>) (child_nodes st p))"
    (is "sort_key fe_name (map ?f' ?ks') = sort_key fe_name (map ?f ?ks)")
proof -
  have dist: "distinct (map nd_name (child_nodes st0 p))" if "state_inv st0" for st0
  proof -
    have "distinct (map nd_id (child_nodes st0 p))"
      using child_nodes_ids [OF that, of p] inv_distinct [OF state_inv_links [OF that], of p] by simp
    then have "distinct (child_nodes st0 p)" by (simp add: distinct_map)
    moreover have "inj_on nd_name (set (child_nodes st0 p))" using same_name_kids [OF that] by (auto intro: inj_onI)
    ultimately show ?thesis by (simp add: distinct_map)
  qed
  have keys: "distinct (map fe_name (map ?f' ?ks'))" "distinct (map fe_name (map ?f ?ks))"
    using dist [OF sts(2) [OF r]] dist [OF sts(1) [OF r]] by (simp_all add: comp_def)
  have "set (map ?f' ?ks') = set (map ?f ?ks)"
    using restart_kids [OF r, of p] by (simp add: image_image restart_size [OF r])
  moreover have "distinct (map ?f' ?ks')" "distinct (map ?f ?ks)" using keys distinct_map [of fe_name] by blast+
  ultimately have m: "mset (map ?f' ?ks') = mset (map ?f ?ks)" using set_eq_iff_mset_eq_distinct by blast
  have inj: "inj_on fe_name (set (map ?f ?ks))" using keys(2) by (simp only: distinct_map)
  show ?thesis
  proof (rule sort_key_inj_key_eq)
    show "mset (map ?f' ?ks') = mset (sort_key fe_name (map ?f ?ks))" using m by simp
    have "set (map ?f' ?ks') = set (map ?f ?ks)" using mset_eq_setD [OF m] .
    with inj show "inj_on fe_name (set (map ?f' ?ks'))" by (simp only:)
    show "sorted (map fe_name (sort_key fe_name (map ?f ?ks)))" by simp
  qed
qed

lemma restart_list:
  assumes r: "restarts st st'"
  shows "tree_list st' path s = tree_list st path s"
proof (cases "resolve_as st path s")
  case (Ok n)
  note known = resolve_as_known [OF sts(1) [OF r] Ok]
  show ?thesis
  proof (cases "resolve_through_alias st n")
    case (Ok t)
    obtain j where "get_node st j = Some t" using alias_known [OF known Ok] by blast
    then show ?thesis
      using restart_resolve [OF r] \<open>resolve_as st path s = Ok n\<close> restart_alias [OF r, of n] Ok restart_readable [OF r] restart_entries [OF r]
      by (simp add: tree_list_def)
  qed (use restart_resolve [OF r] Ok restart_alias [OF r, of n] in \<open>simp_all add: tree_list_def\<close>)
qed (use restart_resolve [OF r] in \<open>simp_all add: tree_list_def\<close>)

lemma restart_open:
  assumes r: "restarts st st'"
  shows "open_for_read st' path s = settled (get_node st) (open_for_read st path s)"
proof (cases "resolve_as st path s")
  case (Ok n)
  note known = resolve_as_known [OF sts(1) [OF r] Ok]
  show ?thesis
  proof (cases "resolve_through_alias st n")
    case (Ok t)
    obtain j where "get_node st j = Some t" using alias_known [OF known Ok] by blast
    then show ?thesis
      using restart_resolve [OF r] \<open>resolve_as st path s = Ok n\<close> restart_alias [OF r, of n] Ok restart_readable [OF r]
      by (simp add: open_for_read_def settled_bind)
  qed (use restart_resolve [OF r] Ok restart_alias [OF r, of n] in \<open>simp_all add: open_for_read_def\<close>)
qed (use restart_resolve [OF r] in \<open>simp_all add: open_for_read_def\<close>)

lemma reload_restarts:
  assumes "tree_wf ft" and "tree_load (ft_rows ft) = Ok ft'"
  shows "restarts (ft_state ft) (ft_state ft')"
  using reload_wf [OF assms(1)] assms by (auto simp: restarts_def tree_wf_def)

text \<open>Property C30. A restart is invisible: the tree read back from the table lists every path for every session
  exactly as the running server does, and opens the same files.\<close>

theorem restart_invisible:
  assumes "tree_reachable ft" and "tree_load (ft_rows ft) = Ok ft'"
  shows "tree_list (ft_state ft') path s = tree_list (ft_state ft) path s \<and>
    open_for_read (ft_state ft') path s = settled (get_node (ft_state ft)) (open_for_read (ft_state ft) path s)"
  using restart_list restart_open reload_restarts [OF reachable_wf [OF assms(1)] assms(2)] by blast

theorem restart_invisible_witness:
  "tree_list (ft_state example_tree) ''/'' example_guest = tree_list (ft_state example_tree) ''/'' example_guest \<and>
    open_for_read (ft_state example_tree) ''/'' example_guest =
      settled (get_node (ft_state example_tree)) (open_for_read (ft_state example_tree) ''/'' example_guest)"
proof (rule restart_invisible [OF example_reachable])
  show "tree_load (ft_rows example_tree) = Ok example_tree" by code_simp
qed

end
