(* ===== verification/File_Requests.thy ===== *)
theory File_Requests
  imports File_Search Bans Msg_File
begin

text \<open>
  The requests about the file tree as a connection dispatches them
  (\<open>kdx-server-core/src/connection.rs\<close>): each decodes its payload, checks the privilege, calls the tree
  and makes the one reply. A payload that does not decode ends the connection.
\<close>

section \<open>Texts\<close>

primrec acl_text :: "AclError \<Rightarrow> string" where
  "acl_text DropBoxIsWriteOnly = ''drop boxes are write-only''"
| "acl_text ClassTooLow = ''insufficient class for this folder''"
| "acl_text (PrivilegeRequired p) = ''missing '' @ p @ '' privilege''"
| "acl_text OwnerOnly = ''only the folder owner or an admin may do that''"
| "acl_text ForeignOwner = ''only an account admin may make another user a folder'' @ [CHR 0x27] @ ''s owner''"

primrec tree_error_text :: "TreeError \<Rightarrow> string" where
  "tree_error_text PathNotFound = ''path not found''"
| "tree_error_text NotAFolder = ''not a folder''"
| "tree_error_text NotAFile = ''not a file''"
| "tree_error_text NameExists = ''name already exists''"
| "tree_error_text (AclRefused e) = acl_text e"
| "tree_error_text (TreeStorage e) = ''storage error''"
| "tree_error_text (CorruptKind k) = ''corrupt node kind '' @ show_int k"
| "tree_error_text CatalogNotGenerated = ''no catalog has been generated yet''"
| "tree_error_text WouldCreateCycle = ''cannot move a folder into itself or one of its own descendants''"
| "tree_error_text AliasChainRefused = ''alias target must be a real file or folder, not another alias''"
| "tree_error_text (InvalidName t) = ''invalid name: '' @ t"
| "tree_error_text (InvalidPath t) = ''invalid path: '' @ t"
| "tree_error_text TooDeep = ''folders are nested too deeply''"

definition tree_client_message :: "TreeError \<Rightarrow> string" where
  "tree_client_message e = tree_error_text e"

text \<open>\<open>parent_path\<close>: what precedes the last slash of the path without its trailing slashes.\<close>

definition trim_slashes :: "string \<Rightarrow> string" where
  "trim_slashes s = rev (dropWhile (\<lambda>c. c = CHR ''/'') (rev s))"

definition parent_path :: "string \<Rightarrow> string" where
  "parent_path path =
     (let trimmed = trim_slashes path in
      case rfind ''/'' trimmed of
        Some i \<Rightarrow> if take i trimmed \<noteq> [] then take i trimmed else ''/''
      | None \<Rightarrow> ''/'')"

definition class_from_u8 :: "u8 \<Rightarrow> BaseClass" where
  "class_from_u8 v = (case BaseClass_try_from (unat (min v 3)) of Some c \<Rightarrow> c | None \<Rightarrow> Guest)"

lemma class_from_u8_clamped: "class_u8 (class_from_u8 v) = unat (min v 3)"
proof -
  have "unat (min v 3) \<le> 3" by (simp add: min_def word_le_nat_alt)
  then have "unat (min v 3) \<in> {0, 1, 2, 3}" by (simp add: numeral_eq_Suc le_Suc_eq)
  then show ?thesis by (auto simp: class_from_u8_def BaseClass_try_from_def)
qed

section \<open>Listings\<close>

definition MAX_FILE_LIST_ENTRIES :: nat where "MAX_FILE_LIST_ENTRIES = 10000"
definition FILE_SEARCH_LIMIT :: nat where "FILE_SEARCH_LIMIT = 200"
definition MAX_SEARCH_QUERY_LEN :: nat where "MAX_SEARCH_QUERY_LEN = 256"

definition ok_frame :: "PacketType \<Rightarrow> bytes \<Rightarrow> Outbound" where
  "ok_frame t payload = \<lparr>ob_packet_type = t, ob_flags = 0, ob_payload = payload\<rparr>"

definition entry_cost :: "TreeEntry \<Rightarrow> nat" where
  "entry_cost e = 2 + length (fe_name e) + 1 + 8"

definition entry_to_wire :: "TreeEntry \<Rightarrow> FileEntry" where
  "entry_to_wire e =
     \<lparr>FileEntry_name = fe_name e, FileEntry_kind = word_of_int (kind_as_u8 (fe_kind e)), FileEntry_size = fe_size e\<rparr>"

fun take_entries :: "nat \<Rightarrow> nat \<Rightarrow> TreeEntry list \<Rightarrow> FileEntry list" where
  "take_entries sent budget [] = []"
| "take_entries sent budget (e # entries) =
     (if sent = MAX_FILE_LIST_ENTRIES \<or> entry_cost e > budget then []
      else if length (fe_name e) > MAX_U16_LEN then take_entries sent budget entries
      else entry_to_wire e # take_entries (sent + 1) (budget - entry_cost e) entries)"

definition list_reply :: "string \<Rightarrow> FileEntry list \<Rightarrow> Outbound" where
  "list_reply path wire =
     ok_frame FileListResponse (FileListResponse_encode \<lparr>FileListResponse_path = path, FileListResponse_entries = wire\<rparr>)"

definition reply_file_list :: "TreeState \<Rightarrow> string \<Rightarrow> Session \<Rightarrow> Outbound" where
  "reply_file_list st path s =
     (case tree_list st path s of
        Ok entries \<Rightarrow> list_reply path (take_entries 0 (MAX_REASSEMBLED_PAYLOAD div 2) entries)
      | Err e \<Rightarrow> send_error (tree_client_message e)
      | Panic \<Rightarrow> send_error [])"

definition reply_tree_changed :: "TreeState \<Rightarrow> string \<Rightarrow> Session \<Rightarrow> Outbound" where
  "reply_tree_changed st path s =
     (case tree_list st path s of
        Err _ \<Rightarrow> list_reply path []
      | _ \<Rightarrow> reply_file_list st path s)"

section \<open>The requests\<close>

definition file_list_request :: "TreeState \<Rightarrow> Session \<Rightarrow> bytes \<Rightarrow> (Outbound, protocol_error) result" where
  "file_list_request st s payload =
     bind_result (FileListRequest_decode payload)
       (\<lambda>request. Ok
         (if \<not> has (s_privileges s) FILE_LIST then send_error ''missing FILE_LIST privilege''
          else reply_file_list st (FileListRequest_path request) s))"

definition info_response :: "Node \<Rightarrow> FileInfoResponse" where
  "info_response node =
     \<lparr>FileInfoResponse_name = nd_name node, FileInfoResponse_kind = word_of_int (kind_as_u8 (nd_kind node)),
      FileInfoResponse_size = nd_size node,
      FileInfoResponse_sha256 = (case nd_sha256 node of Some h \<Rightarrow> if length h = 32 then Some h else None | None \<Rightarrow> None),
      FileInfoResponse_min_read_class = of_nat (class_u8 (nd_min_class_read node)),
      FileInfoResponse_min_write_class = of_nat (class_u8 (nd_min_class_write node)),
      FileInfoResponse_owner = nd_owner node\<rparr>"

definition file_info_request :: "TreeState \<Rightarrow> Session \<Rightarrow> bytes \<Rightarrow> (Outbound, protocol_error) result" where
  "file_info_request st s payload =
     bind_result (FileInfoRequest_decode payload)
       (\<lambda>req. Ok
         (if \<not> has (s_privileges s) FILE_LIST then send_error ''missing FILE_LIST privilege''
          else case tree_info st (FileInfoRequest_path req) s of
            Ok node \<Rightarrow> ok_frame PacketType.FileInfoResponse (FileInfoResponse_encode (info_response node))
          | Err e \<Rightarrow> send_error (tree_client_message e)
          | Panic \<Rightarrow> send_error []))"

text \<open>The reply to a change of the tree, shared by the four requests that make one.\<close>

definition changed_reply :: "string \<Rightarrow> Session \<Rightarrow> ('a, TreeError) result \<times> FileTree \<Rightarrow> Outbound \<times> FileTree" where
  "changed_reply path s outcome =
     (case outcome of
        (Ok _, ft) \<Rightarrow> (reply_tree_changed (ft_state ft) path s, ft)
      | (Err e, ft) \<Rightarrow> (send_error (tree_client_message e), ft)
      | (Panic, ft) \<Rightarrow> (send_error [], ft))"

definition folder_kind :: "u8 \<Rightarrow> NodeKind option" where
  "folder_kind k =
     (if k = 0 then Some Directory else if k = 2 then Some DropBoxKind else if k = 3 then Some UploadFolder else None)"

definition file_create_folder_request ::
  "bool \<Rightarrow> string \<Rightarrow> Session \<Rightarrow> bytes \<Rightarrow> FileTree \<Rightarrow> (Outbound \<times> FileTree, protocol_error) result" where
  "file_create_folder_request fault fresh s payload ft =
     bind_result (FileCreateFolder_decode payload)
       (\<lambda>req. Ok
         (if \<not> has (s_privileges s) FILE_MANAGE_TREE then (send_error ''missing FILE_MANAGE_TREE privilege'', ft)
          else case folder_kind (FileCreateFolder_kind req) of
            None \<Rightarrow> (send_error ''not a folder kind'', ft)
          | Some kind \<Rightarrow>
              changed_reply (FileCreateFolder_path req) s
                (create_folder fault fresh (FileCreateFolder_path req) (FileCreateFolder_name req) kind
                  (class_from_u8 (FileCreateFolder_min_read_class req)) (class_from_u8 (FileCreateFolder_min_write_class req))
                  (FileCreateFolder_owner req) s ft)))"

definition file_delete_request ::
  "bool \<Rightarrow> Session \<Rightarrow> bytes \<Rightarrow> FileTree \<Rightarrow> (Outbound \<times> FileTree, protocol_error) result" where
  "file_delete_request fault s payload ft =
     bind_result (FileDelete_decode payload)
       (\<lambda>req. Ok
         (if \<not> has (s_privileges s) FILE_DELETE then (send_error ''missing FILE_DELETE privilege'', ft)
          else changed_reply (parent_path (FileDelete_path req)) s (tree_delete fault (FileDelete_path req) s ft)))"

definition file_move_request ::
  "bool \<Rightarrow> Session \<Rightarrow> bytes \<Rightarrow> FileTree \<Rightarrow> (Outbound \<times> FileTree, protocol_error) result" where
  "file_move_request fault s payload ft =
     bind_result (FileMove_decode payload)
       (\<lambda>req. Ok
         (if \<not> has (s_privileges s) FILE_MANAGE_TREE then (send_error ''missing FILE_MANAGE_TREE privilege'', ft)
          else changed_reply (FileMove_dest_path req) s (move_node fault (FileMove_path req) (FileMove_dest_path req) s ft)))"

definition file_alias_request ::
  "bool \<Rightarrow> string \<Rightarrow> Session \<Rightarrow> bytes \<Rightarrow> FileTree \<Rightarrow> (Outbound \<times> FileTree, protocol_error) result" where
  "file_alias_request fault fresh s payload ft =
     bind_result (FileAlias_decode payload)
       (\<lambda>req. Ok
         (if \<not> has (s_privileges s) FILE_MANAGE_TREE then (send_error ''missing FILE_MANAGE_TREE privilege'', ft)
          else changed_reply (FileAlias_dest_path req) s
            (create_alias fault fresh (FileAlias_source_path req) (FileAlias_dest_path req) s ft)))"

definition file_generate_catalog_request ::
  "Session \<Rightarrow> bytes \<Rightarrow> FileTree \<Rightarrow> (Outbound \<times> FileTree, protocol_error) result" where
  "file_generate_catalog_request s payload ft =
     bind_result (FileGenerateCatalog_decode payload)
       (\<lambda>_. Ok
         (if \<not> has (s_privileges s) FILE_MANAGE_TREE then (send_error ''missing FILE_MANAGE_TREE privilege'', ft)
          else
            let (count, ft) = generate_catalog ft in
            (ok_frame FileCatalogGenerated (FileCatalogGenerated_encode \<lparr>FileCatalogGenerated_count = of_nat count\<rparr>), ft)))"

definition hit_to_wire :: "CatalogEntry \<Rightarrow> FileSearchEntry" where
  "hit_to_wire e =
     \<lparr>FileSearchEntry_path = ce_path e, FileSearchEntry_name = ce_name e,
      FileSearchEntry_kind = word_of_int (kind_as_u8 (ce_kind e)), FileSearchEntry_size = ce_size e\<rparr>"

definition file_search_request ::
  "(string \<Rightarrow> string) \<Rightarrow> FileTree \<Rightarrow> Session \<Rightarrow> bytes \<Rightarrow> (Outbound, protocol_error) result" where
  "file_search_request to_lowercase ft s payload =
     bind_result (FileSearchRequest_decode payload)
       (\<lambda>req. Ok
         (if \<not> has (s_privileges s) FILE_LIST then send_error ''missing FILE_LIST privilege''
          else case check_len ''search query'' (FileSearchRequest_query req) MAX_SEARCH_QUERY_LEN of
            Err refusal \<Rightarrow> send_refusal refusal
          | Panic \<Rightarrow> send_error []
          | Ok _ \<Rightarrow>
              case tree_search to_lowercase ft (FileSearchRequest_query req) (s_class s) FILE_SEARCH_LIMIT of
                Ok hits \<Rightarrow>
                  ok_frame PacketType.FileSearchResponse
                    (FileSearchResponse_encode \<lparr>FileSearchResponse_entries = map hit_to_wire hits\<rparr>)
              | Err e \<Rightarrow> send_error (tree_client_message e)
              | Panic \<Rightarrow> send_error []))"

text \<open>The dispatch of these types. \<open>fault\<close> and \<open>fresh\<close> are what the table and the drawn UUID bring in.\<close>

definition file_request ::
  "(string \<Rightarrow> string) \<Rightarrow> bool \<Rightarrow> string \<Rightarrow> Session \<Rightarrow> PacketType \<Rightarrow> bytes \<Rightarrow> FileTree \<Rightarrow>
   (Outbound \<times> FileTree, protocol_error) result option" where
  "file_request to_lowercase fault fresh s t payload ft =
     (let keep = (\<lambda>r. bind_result r (\<lambda>reply. Ok (reply, ft))) in
      if t = PacketType.FileListRequest then Some (keep (file_list_request (ft_state ft) s payload))
      else if t = PacketType.FileInfoRequest then Some (keep (file_info_request (ft_state ft) s payload))
      else if t = PacketType.FileCreateFolder then Some (file_create_folder_request fault fresh s payload ft)
      else if t = PacketType.FileDelete then Some (file_delete_request fault s payload ft)
      else if t = PacketType.FileMove then Some (file_move_request fault s payload ft)
      else if t = PacketType.FileAlias then Some (file_alias_request fault fresh s payload ft)
      else if t = PacketType.FileGenerateCatalog then Some (file_generate_catalog_request s payload ft)
      else if t = PacketType.FileSearchRequest then Some (keep (file_search_request to_lowercase ft s payload))
      else None)"

end
