(* ===== verification/Transfer_Table.thy ===== *)
theory Transfer_Table
  imports File_Tree
begin

text \<open>
  What uploads and downloads share (\<open>kdx-server-core/src/transfer\<close>): the errors, the limits, how a file
  is cut into chunks, and the table \<open>transfer_state\<close> of the unfinished uploads
  (\<open>kdx-storage/src/transfer_state.rs\<close>).
\<close>

section \<open>Errors\<close>

datatype TransferError =
    TransferTree TreeError | TransferStorage storage_error | TransferIo | BadChunkSize | TooLarge | UnknownTransfer
  | ResumeMismatch | BadChunkIndex | ChunkHashMismatch | BadChunkLength | FileHashMismatch | Busy | TooManyTransfers
  | ServerBusy | InsufficientSpace

definition is_internal :: "TransferError \<Rightarrow> bool" where
  "is_internal e =
     (case e of
        TransferStorage _ \<Rightarrow> True
      | TransferIo \<Rightarrow> True
      | TransferTree (TreeStorage _) \<Rightarrow> True
      | TransferTree (CorruptKind _) \<Rightarrow> True
      | _ \<Rightarrow> False)"

definition map_err :: "('e \<Rightarrow> 'f) \<Rightarrow> ('a, 'e) result \<Rightarrow> ('a, 'f) result" where
  "map_err f r = (case r of Ok a \<Rightarrow> Ok a | Err e \<Rightarrow> Err (f e) | Panic \<Rightarrow> Panic)"

lemma map_err_simps [simp]: "map_err f (Ok a) = Ok a" "map_err f (Err e) = Err (f e)" "map_err f Panic = Panic"
  by (simp_all add: map_err_def)

section \<open>Limits\<close>

definition MIN_CHUNK :: u32 where "MIN_CHUNK = 4 * 1024"
definition MAX_CHUNK :: u32 where "MAX_CHUNK = 256 * 1024"
definition MAX_FILE_SIZE :: u64 where "MAX_FILE_SIZE = 16 * 1024 * 1024 * 1024"
definition MAX_TOTAL_CHUNKS :: u32 where "MAX_TOTAL_CHUNKS = 524280"

text \<open>\<open>TransferLimits\<close>; durations are in seconds, the interval between two saves in nanoseconds.\<close>

record TransferLimits =
  max_uploads_per_account :: nat
  max_downloads_per_account :: nat
  max_concurrent_transfers :: nat
  max_open_uploads_per_account :: nat
  max_reserved_bytes :: u64
  min_free_space :: u64
  stale_after :: nat
  bitmap_flush_chunks :: u32
  bitmap_flush_interval :: nat
  orphan_retention :: "nat option"

definition DEFAULT_ORPHAN_RETENTION :: nat where "DEFAULT_ORPHAN_RETENTION = 30 * 24 * 60 * 60"

definition TransferLimits_default :: TransferLimits where
  "TransferLimits_default =
     \<lparr>max_uploads_per_account = 2, max_downloads_per_account = 4, max_concurrent_transfers = 64,
      max_open_uploads_per_account = 4, max_reserved_bytes = 64 * (1024 * 1024 * 1024),
      min_free_space = 256 * (1024 * 1024), stale_after = 24 * 60 * 60, bitmap_flush_chunks = 256,
      bitmap_flush_interval = 10 ^ 9, orphan_retention = Some DEFAULT_ORPHAN_RETENTION\<rparr>"

section \<open>Chunks\<close>

text \<open>\<open>u64::div_ceil\<close>, without an intermediate that could wrap.\<close>

definition div_ceil :: "u64 \<Rightarrow> u64 \<Rightarrow> u64" where
  "div_ceil a b = (if a mod b > 0 then a div b + 1 else a div b)"

definition chunk_count :: "u64 \<Rightarrow> u32 \<Rightarrow> u64" where
  "chunk_count n chunk = div_ceil n (ucast (max chunk 1))"

definition check_upload_shape :: "u64 \<Rightarrow> u32 \<Rightarrow> (u32, TransferError) result" where
  "check_upload_shape n chunk =
     (if \<not> (MIN_CHUNK \<le> chunk \<and> chunk \<le> MAX_CHUNK) then Err BadChunkSize
      else if n > MAX_FILE_SIZE then Err TooLarge
      else
        let chunks = chunk_count n chunk in
        if chunks > ucast MAX_TOTAL_CHUNKS then Err BadChunkSize else Ok (ucast chunks))"

text \<open>The length of a chunk; \<open>total_chunks - 1\<close> panics when there are none.\<close>

definition expected_chunk_len :: "u64 \<Rightarrow> u32 \<Rightarrow> u32 \<Rightarrow> u32 \<Rightarrow> (nat, 'e) result" where
  "expected_chunk_len n chunk chunks i =
     (if chunks = 0 then Panic
      else if i = chunks - 1
      then let rem = unat (n mod ucast chunk) in Ok (if rem = 0 then unat chunk else rem)
      else Ok (unat chunk))"

lemma nat_div_ceil:
  fixes a b :: nat
  assumes "0 < b"
  shows "(a + b - 1) div b = (if a mod b = 0 then a div b else a div b + 1)"
proof -
  let ?q = "a div b" and ?m = "a mod b"
  have a: "a = b * ?q + ?m" by simp
  show ?thesis
  proof (cases "?m = 0")
    case True
    then have "a + b - 1 = (b - 1) + b * ?q" using a assms by linarith
    then show ?thesis using True assms by (simp only: div_mult_self2) simp
  next
    case False
    then have "a + b - 1 = (?m - 1) + b * (?q + 1)" using a unfolding distrib_left mult_1_right by linarith
    moreover have "?m - 1 < b" using assms by (meson less_imp_diff_less mod_less_divisor)
    ultimately have "(a + b - 1) div b = ?q + 1" using assms by (simp only: div_mult_self2) simp
    then show ?thesis using False by simp
  qed
qed

lemma unat_div_ceil:
  assumes "b \<noteq> 0"
  shows "unat (div_ceil a b) = (unat a + unat b - 1) div unat b"
proof -
  have pos: "0 < unat b" using assms by (simp add: unat_gt_0)
  have r: "unat (a mod b) = unat a mod unat b" "unat (a div b) = unat a div unat b" by (simp_all add: unat_mod unat_div)
  have g: "a mod b > 0 \<longleftrightarrow> unat a mod unat b \<noteq> 0" by (simp add: word_less_nat_alt r)
  have "unat (a div b + 1) = unat a div unat b + 1" if "unat a mod unat b \<noteq> 0"
  proof -
    have "unat b \<noteq> 1" using that by auto
    then have "unat a div unat b \<le> unat a div 2" using pos by (intro div_le_mono2) simp_all
    also have "\<dots> < 2 ^ 64 - 1"
    proof -
      have "unat a < 2 ^ 64" using unsigned_less [of a, where ?'a = nat] by simp
      then show ?thesis by simp
    qed
    finally have "unat (a div b) + unat (1 :: u64) < 2 ^ LENGTH(64)" by (simp add: r)
    then show ?thesis by (simp add: unat_word_ariths(1) r)
  qed
  with g show ?thesis unfolding nat_div_ceil [OF pos] by (simp add: div_ceil_def r)
qed

lemma unat_u64_u32 [simp]: "unat (ucast (x :: u32) :: u64) = unat x"
  using unsigned_less [of x, where ?'a = nat] by (simp add: unsigned_ucast_eq unsigned_take_bit_eq take_bit_nat_eq_self)

lemma check_upload_shape_Ok:
  assumes "check_upload_shape n chunk = Ok k"
  shows "MIN_CHUNK \<le> chunk \<and> chunk \<le> MAX_CHUNK \<and> n \<le> MAX_FILE_SIZE \<and> k \<le> MAX_TOTAL_CHUNKS \<and>
    unat k = (unat n + unat chunk - 1) div unat chunk"
proof -
  from assms have c: "MIN_CHUNK \<le> chunk" "chunk \<le> MAX_CHUNK" "n \<le> MAX_FILE_SIZE" "chunk_count n chunk \<le> ucast MAX_TOTAL_CHUNKS"
      "k = ucast (chunk_count n chunk)"
    by (auto simp: check_upload_shape_def Let_def not_less split: if_splits)
  then have pos: "1 \<le> chunk" by (auto simp: MIN_CHUNK_def word_le_nat_alt)
  then have nz: "(ucast chunk :: u64) \<noteq> 0" by (metis unat_u64_u32 unat_0 le_zero_eq not_one_le_zero word_le_nat_alt unat_1)
  have "max chunk 1 = chunk" using pos by (simp add: max_def)
  then have u: "unat (chunk_count n chunk) = (unat n + unat chunk - 1) div unat chunk"
    using unat_div_ceil [OF nz, of n] by (simp add: chunk_count_def)
  have "unat (chunk_count n chunk) \<le> 524280"
    using c(4) by (simp add: MAX_TOTAL_CHUNKS_def word_le_nat_alt)
  then have "unat k = unat (chunk_count n chunk)" by (simp add: c(5) unsigned_ucast_eq unsigned_take_bit_eq take_bit_nat_eq_self)
  with c u show ?thesis by (simp add: word_le_nat_alt MAX_TOTAL_CHUNKS_def)
qed

section \<open>Bitmaps\<close>

text \<open>A \<open>BitVec<u8, Lsb0>\<close> is its list of bits; in the table and on the wire it is the bytes holding them,
  the spare bits of the last byte zero.\<close>

definition bits8 :: "u8 \<Rightarrow> bool list" where
  "bits8 b = map (bit b) [0..<8]"

definition unpack_bits :: "bytes \<Rightarrow> bool list" where
  "unpack_bits bs = concat (map bits8 bs)"

function pack_bits :: "bool list \<Rightarrow> bytes" where
  "pack_bits bits = (if bits = [] then [] else horner_sum of_bool 2 (take 8 bits) # pack_bits (drop 8 bits))"
  by pat_completeness auto
termination by (relation "measure length") auto

declare pack_bits.simps [simp del]

definition resize_bits :: "nat \<Rightarrow> bool list \<Rightarrow> bool list" where
  "resize_bits n bits = take n bits @ replicate (n - length bits) False"

definition count_ones :: "bool list \<Rightarrow> nat" where
  "count_ones bits = length (filter (\<lambda>b. b) bits)"

lemma bits8_horner:
  assumes "length bits \<le> 8"
  shows "bits8 (horner_sum of_bool 2 bits) = bits @ replicate (8 - length bits) False"
proof (rule nth_equalityI)
  show "length (bits8 (horner_sum of_bool 2 bits)) = length (bits @ replicate (8 - length bits) False)"
    using assms by (simp add: bits8_def)
  fix i assume "i < length (bits8 (horner_sum of_bool 2 bits))"
  then have i: "i < 8" by (simp add: bits8_def)
  then show "bits8 (horner_sum of_bool 2 bits) ! i = (bits @ replicate (8 - length bits) False) ! i"
    by (auto simp: bits8_def bit_horner_sum_bit_word_iff nth_append)
qed

lemma unpack_pack: "\<exists>k. unpack_bits (pack_bits bits) = bits @ replicate k False"
proof (induction bits rule: pack_bits.induct)
  case (1 bits)
  show ?case
  proof (cases "bits = []")
    case False
    then obtain k where k: "unpack_bits (pack_bits (drop 8 bits)) = drop 8 bits @ replicate k False" using 1 by blast
    have u: "unpack_bits (pack_bits bits) = bits8 (horner_sum of_bool 2 (take 8 bits)) @ unpack_bits (pack_bits (drop 8 bits))"
      using False by (subst pack_bits.simps) (simp add: unpack_bits_def)
    have b: "bits8 (horner_sum of_bool 2 (take 8 bits)) = take 8 bits @ replicate (8 - length (take 8 bits)) False"
      by (rule bits8_horner) simp
    show ?thesis
    proof (cases "8 \<le> length bits")
      case True
      then have "unpack_bits (pack_bits bits) = (take 8 bits @ drop 8 bits) @ replicate k False" by (simp add: u b k min_def)
      then show ?thesis by auto
    next
      case short: False
      then have e: "drop 8 bits = []" by simp
      then have "k = 0" using k by (simp add: pack_bits.simps unpack_bits_def)
      moreover have "bits8 (horner_sum of_bool 2 bits) = bits @ replicate (8 - length bits) False" by (rule bits8_horner) (use short in simp)
      ultimately have "unpack_bits (pack_bits bits) = bits @ replicate (8 - length bits) False @ replicate k False"
        using e short False u by (simp add: pack_bits.simps unpack_bits_def)
      then show ?thesis by (auto simp flip: replicate_add)
    qed
  qed (simp add: pack_bits.simps unpack_bits_def)
qed

lemma resize_unpack_pack [simp]: "resize_bits (length bits) (unpack_bits (pack_bits bits)) = bits"
  using unpack_pack [of bits] by (auto simp: resize_bits_def)

lemma resize_bits_length [simp]: "length (resize_bits n bits) = n"
  by (simp add: resize_bits_def)

lemma count_ones_le: "count_ones bits \<le> length bits"
  by (simp add: count_ones_def)

lemma count_ones_all: "count_ones bits = length bits \<longleftrightarrow> (\<forall>b\<in>set bits. b)"
proof (induction bits)
  case (Cons b bits)
  have "length (filter (\<lambda>b. b) bits) \<le> length bits" by simp
  then have "length (filter (\<lambda>b. b) bits) \<noteq> Suc (length bits)" by linarith
  then show ?case using Cons by (auto simp: count_ones_def)
qed (simp add: count_ones_def)

lemma count_ones_update:
  "i < length bits \<Longrightarrow> \<not> bits ! i \<Longrightarrow> count_ones (bits[i := True]) = count_ones bits + 1"
  by (induction bits arbitrary: i) (auto simp: count_ones_def nth_Cons split: nat.splits)

section \<open>The table of unfinished uploads\<close>

text \<open>Rows in the order of their row ids; \<open>tr_updated_at\<close> in seconds. A number read back as \<open>u64\<close> is cast.\<close>

record TransferRow =
  tr_id :: string
  tr_account_id :: string
  tr_parent_id :: string
  tr_name :: string
  tr_size :: int
  tr_chunk_size :: int
  tr_sha256 :: bytes
  tr_bitmap :: bytes
  tr_temp_path :: string
  tr_updated_at :: int

type_synonym transfer_rows = "TransferRow list"

definition transfer_create :: "bool \<Rightarrow> TransferRow \<Rightarrow> transfer_rows \<Rightarrow> (transfer_rows, storage_error) result" where
  "transfer_create fault row rows =
     (if fault then Err Sqlx
      else if \<exists>r\<in>set rows. tr_id r = tr_id row then Err AlreadyExists
      else Ok (rows @ [row]))"

definition transfer_get :: "bool \<Rightarrow> string \<Rightarrow> transfer_rows \<Rightarrow> (TransferRow option, storage_error) result" where
  "transfer_get fault i rows = (if fault then Err Sqlx else Ok (find (\<lambda>r. tr_id r = i) rows))"

definition change_row :: "bool \<Rightarrow> string \<Rightarrow> (TransferRow \<Rightarrow> TransferRow) \<Rightarrow> transfer_rows \<Rightarrow> (transfer_rows, storage_error) result" where
  "change_row fault i f rows = (if fault then Err Sqlx else Ok (map (\<lambda>r. if tr_id r = i then f r else r) rows))"

definition transfer_update_bitmap :: "bool \<Rightarrow> int \<Rightarrow> string \<Rightarrow> bytes \<Rightarrow> transfer_rows \<Rightarrow> (transfer_rows, storage_error) result" where
  "transfer_update_bitmap fault now i bitmap rows =
     change_row fault i (\<lambda>r. r\<lparr>tr_bitmap := bitmap, tr_updated_at := now\<rparr>) rows"

definition transfer_delete :: "bool \<Rightarrow> string \<Rightarrow> transfer_rows \<Rightarrow> (transfer_rows, storage_error) result" where
  "transfer_delete fault i rows = (if fault then Err Sqlx else Ok (filter (\<lambda>r. tr_id r \<noteq> i) rows))"

definition transfer_set_name :: "bool \<Rightarrow> string \<Rightarrow> string \<Rightarrow> transfer_rows \<Rightarrow> (transfer_rows, storage_error) result" where
  "transfer_set_name fault i name rows = change_row fault i (\<lambda>r. r\<lparr>tr_name := name\<rparr>) rows"

definition transfer_touch :: "bool \<Rightarrow> int \<Rightarrow> string \<Rightarrow> transfer_rows \<Rightarrow> (transfer_rows, storage_error) result" where
  "transfer_touch fault now i rows = change_row fault i (\<lambda>r. r\<lparr>tr_updated_at := now\<rparr>) rows"

definition transfer_all_ids :: "bool \<Rightarrow> transfer_rows \<Rightarrow> (string list, storage_error) result" where
  "transfer_all_ids fault rows = (if fault then Err Sqlx else Ok (map tr_id rows))"

text \<open>\<open>ORDER BY updated_at, rowid\<close>: the sort is stable.\<close>

definition pending :: "(TransferRow \<Rightarrow> bool) \<Rightarrow> transfer_rows \<Rightarrow> (string \<times> string) list" where
  "pending P rows = map (\<lambda>r. (tr_id r, tr_temp_path r)) (sort_key tr_updated_at (filter P rows))"

definition transfer_list_for_account :: "bool \<Rightarrow> string \<Rightarrow> transfer_rows \<Rightarrow> ((string \<times> string) list, storage_error) result" where
  "transfer_list_for_account fault account rows =
     (if fault then Err Sqlx else Ok (pending (\<lambda>r. tr_account_id r = account) rows))"

definition transfer_list_stale :: "bool \<Rightarrow> int \<Rightarrow> nat \<Rightarrow> transfer_rows \<Rightarrow> ((string \<times> string) list, storage_error) result" where
  "transfer_list_stale fault now older_than rows =
     (if fault then Err Sqlx else Ok (pending (\<lambda>r. tr_updated_at r \<le> now - int older_than) rows))"

end
