(* ===== verification/Transfer_Claims.thy ===== *)
theory Transfer_Claims
  imports Transfer_Table
begin

text \<open>
  The accounting of live transfers (\<open>Live\<close>, \<open>Claim\<close> and the claiming functions of
  \<open>transfer/manager.rs\<close>). All of it happens under one mutex, so each function is one step. A claim is a
  value the transfer keeps; \<open>drop_claim\<close> is its \<open>Drop\<close>.
\<close>

section \<open>The state\<close>

datatype ClaimKind =
    UploadClaim string string "(string \<times> string) option" u64
  | DownloadClaim string
  | HoldClaim string

text \<open>The throttles are left out: their clock is floating point.\<close>

record Live =
  held :: "string set"
  destinations :: "string \<rightharpoonup> string set"
  per_account :: "string \<rightharpoonup> nat \<times> nat"
  live_total :: nat
  reserved_bytes :: u64

definition Live_default :: Live where
  "Live_default = \<lparr>held = {}, destinations = Map.empty, per_account = Map.empty, live_total = 0, reserved_bytes = 0\<rparr>"

definition sat_add :: "u64 \<Rightarrow> u64 \<Rightarrow> u64" where
  "sat_add a b = (if a + b < a then -1 else a + b)"

definition sat_sub :: "u64 \<Rightarrow> u64 \<Rightarrow> u64" where
  "sat_sub a b = (if b \<le> a then a - b else 0)"

definition is_reserved :: "Live \<Rightarrow> string \<Rightarrow> string \<Rightarrow> bool" where
  "is_reserved live parent name = (case destinations live parent of Some names \<Rightarrow> name \<in> names | None \<Rightarrow> False)"

definition reserve_name :: "string \<Rightarrow> string \<Rightarrow> Live \<Rightarrow> Live" where
  "reserve_name parent name live =
     live\<lparr>destinations := (destinations live)(parent \<mapsto>
       insert name (case destinations live parent of Some names \<Rightarrow> names | None \<Rightarrow> {}))\<rparr>"

definition release_name :: "string \<Rightarrow> string \<Rightarrow> Live \<Rightarrow> Live" where
  "release_name parent name live =
     (case destinations live parent of
        None \<Rightarrow> live
      | Some names \<Rightarrow>
          live\<lparr>destinations := (destinations live)(parent :=
            (let names = names - {name} in if names = {} then None else Some names))\<rparr>)"

definition account_counts :: "Live \<Rightarrow> string \<Rightarrow> nat \<times> nat" where
  "account_counts live account = (case per_account live account of Some c \<Rightarrow> c | None \<Rightarrow> (0, 0))"

definition release_slot :: "string \<Rightarrow> (nat \<times> nat \<Rightarrow> nat \<times> nat) \<Rightarrow> Live \<Rightarrow> Live" where
  "release_slot account take_one live =
     (let live = live\<lparr>live_total := live_total live - 1\<rparr> in
      case per_account live account of
        None \<Rightarrow> live
      | Some counts \<Rightarrow>
          live\<lparr>per_account := (per_account live)(account := (if take_one counts = (0, 0) then None else Some (take_one counts)))\<rparr>)"

definition drop_claim :: "ClaimKind \<Rightarrow> Live \<Rightarrow> Live" where
  "drop_claim claim live =
     (case claim of
        UploadClaim account i destination n \<Rightarrow>
          let live = live\<lparr>held := held live - {i}\<rparr>;
              live = (case destination of Some (parent, name) \<Rightarrow> release_name parent name live | None \<Rightarrow> live);
              live = live\<lparr>reserved_bytes := sat_sub (reserved_bytes live) n\<rparr>
          in release_slot account (\<lambda>(up, down). (up - 1, down)) live
      | DownloadClaim account \<Rightarrow> release_slot account (\<lambda>(up, down). (up, down - 1)) live
      | HoldClaim i \<Rightarrow> live\<lparr>held := held live - {i}\<rparr>)"

text \<open>The third form of a destination, a free variant of the name, brings the test for names in the tree.\<close>

datatype Destination = Exact string string | Free string string nat "string \<Rightarrow> bool" | Filed

definition pick_destination :: "Live \<Rightarrow> Destination \<Rightarrow> ((string \<times> string) option, TransferError) result" where
  "pick_destination live destination =
     (case destination of
        Exact parent name \<Rightarrow>
          if is_reserved live parent name then Err (TransferTree NameExists) else Ok (Some (parent, name))
      | Free parent name budget taken \<Rightarrow>
          (case free_name name budget (\<lambda>c. taken c \<or> is_reserved live parent c) of
             None \<Rightarrow> Err (TransferTree (InvalidPath ''path is too long''))
           | Some free \<Rightarrow> Ok (Some (parent, free)))
      | Filed \<Rightarrow> Ok None)"

text \<open>\<open>available\<close> is the space the operating system reports, if it does.\<close>

definition claim_upload ::
  "TransferLimits \<Rightarrow> u64 option \<Rightarrow> string \<Rightarrow> string \<Rightarrow> Destination \<Rightarrow> u64 \<Rightarrow> Live \<Rightarrow>
   (ClaimKind \<times> string option, TransferError) result \<times> Live" where
  "claim_upload limits available account i destination n live =
     (if i \<in> held live then (Err Busy, live)
      else if fst (account_counts live account) \<ge> max_uploads_per_account limits then (Err TooManyTransfers, live)
      else if live_total live \<ge> max_concurrent_transfers limits then (Err ServerBusy, live)
      else case pick_destination live destination of
        Err e \<Rightarrow> (Err e, live)
      | Panic \<Rightarrow> (Panic, live)
      | Ok destination \<Rightarrow>
          let reserved = sat_add (reserved_bytes live) n in
          if reserved > max_reserved_bytes limits then (Err InsufficientSpace, live)
          else if (case available of Some a \<Rightarrow> a < sat_add reserved (min_free_space limits) | None \<Rightarrow> False)
          then (Err InsufficientSpace, live)
          else
            let live = live\<lparr>held := insert i (held live)\<rparr>;
                live = (case destination of Some (parent, name) \<Rightarrow> reserve_name parent name live | None \<Rightarrow> live);
                live = live\<lparr>reserved_bytes := reserved\<rparr>;
                live = live\<lparr>per_account := (per_account live)(account \<mapsto>
                  (let (up, down) = account_counts live account in (up + 1, down)))\<rparr>
            in (Ok (UploadClaim account i destination n, map_option snd destination),
                live\<lparr>live_total := live_total live + 1\<rparr>))"

definition claim_download :: "TransferLimits \<Rightarrow> string \<Rightarrow> Live \<Rightarrow> (ClaimKind, TransferError) result \<times> Live" where
  "claim_download limits account live =
     (if snd (account_counts live account) \<ge> max_downloads_per_account limits then (Err TooManyTransfers, live)
      else if live_total live \<ge> max_concurrent_transfers limits then (Err ServerBusy, live)
      else
        let live = live\<lparr>per_account := (per_account live)(account \<mapsto>
              (let (up, down) = account_counts live account in (up, down + 1)))\<rparr>
        in (Ok (DownloadClaim account), live\<lparr>live_total := live_total live + 1\<rparr>))"

definition hold :: "string \<Rightarrow> Live \<Rightarrow> ClaimKind option \<times> Live" where
  "hold i live = (if i \<in> held live then (None, live) else (Some (HoldClaim i), live\<lparr>held := insert i (held live)\<rparr>))"

section \<open>The accounts agree with the claims\<close>

text \<open>What a list of claims holds.\<close>

primrec claim_id :: "ClaimKind \<Rightarrow> string option" where
  "claim_id (UploadClaim account i d n) = Some i"
| "claim_id (DownloadClaim account) = None"
| "claim_id (HoldClaim i) = Some i"

primrec claim_dest :: "ClaimKind \<Rightarrow> (string \<times> string) option" where
  "claim_dest (UploadClaim account i d n) = d"
| "claim_dest (DownloadClaim account) = None"
| "claim_dest (HoldClaim i) = None"

primrec claim_slot :: "ClaimKind \<Rightarrow> string \<Rightarrow> nat \<times> nat" where
  "claim_slot (UploadClaim account i d n) = (\<lambda>a. if a = account then (1, 0) else (0, 0))"
| "claim_slot (DownloadClaim account) = (\<lambda>a. if a = account then (0, 1) else (0, 0))"
| "claim_slot (HoldClaim i) = (\<lambda>_. (0, 0))"

primrec is_transfer :: "ClaimKind \<Rightarrow> bool" where
  "is_transfer (UploadClaim account i d n) = True"
| "is_transfer (DownloadClaim account) = True"
| "is_transfer (HoldClaim i) = False"

primrec claim_bytes :: "ClaimKind \<Rightarrow> nat" where
  "claim_bytes (UploadClaim account i d n) = unat n"
| "claim_bytes (DownloadClaim account) = 0"
| "claim_bytes (HoldClaim i) = 0"

definition uploads_of :: "ClaimKind list \<Rightarrow> string \<Rightarrow> nat" where
  "uploads_of cs a = sum_list (map (\<lambda>c. fst (claim_slot c a)) cs)"

definition downloads_of :: "ClaimKind list \<Rightarrow> string \<Rightarrow> nat" where
  "downloads_of cs a = sum_list (map (\<lambda>c. snd (claim_slot c a)) cs)"

definition once :: "(ClaimKind \<Rightarrow> 'a option) \<Rightarrow> ClaimKind list \<Rightarrow> bool" where
  "once f cs \<longleftrightarrow> (\<forall>x. length (filter (\<lambda>c. f c = Some x) cs) \<le> 1)"

definition accounts_for :: "Live \<Rightarrow> ClaimKind list \<Rightarrow> bool" where
  "accounts_for live cs \<longleftrightarrow>
     held live = {i. \<exists>c\<in>set cs. claim_id c = Some i} \<and> once claim_id cs \<and>
     (\<forall>p. destinations live p =
        (let names = {n. \<exists>c\<in>set cs. claim_dest c = Some (p, n)} in if names = {} then None else Some names)) \<and>
     once claim_dest cs \<and>
     (\<forall>a. per_account live a =
        (let counts = (uploads_of cs a, downloads_of cs a) in if counts = (0, 0) then None else Some counts)) \<and>
     live_total live = length (filter is_transfer cs) \<and>
     unat (reserved_bytes live) = sum_list (map claim_bytes cs)"

definition within_caps :: "TransferLimits \<Rightarrow> ClaimKind list \<Rightarrow> bool" where
  "within_caps limits cs \<longleftrightarrow>
     (\<forall>a. uploads_of cs a \<le> max_uploads_per_account limits \<and> downloads_of cs a \<le> max_downloads_per_account limits) \<and>
     length (filter is_transfer cs) \<le> max_concurrent_transfers limits \<and>
     sum_list (map claim_bytes cs) \<le> unat (max_reserved_bytes limits)"

inductive claims_run :: "TransferLimits \<Rightarrow> Live \<Rightarrow> ClaimKind list \<Rightarrow> bool" for limits where
  idle: "claims_run limits Live_default []"
| upload: "claims_run limits live cs \<Longrightarrow> claim_upload limits available account i destination n live = (Ok (c, name), live') \<Longrightarrow>
    claims_run limits live' (c # cs)"
| download: "claims_run limits live cs \<Longrightarrow> claim_download limits account live = (Ok c, live') \<Longrightarrow> claims_run limits live' (c # cs)"
| held: "claims_run limits live cs \<Longrightarrow> hold i live = (Some c, live') \<Longrightarrow> claims_run limits live' (c # cs)"
| dropped: "claims_run limits live (before @ c # after) \<Longrightarrow> claims_run limits (drop_claim c live) (before @ after)"


lemma free_name_free: "free_name name budget taken = Some c \<Longrightarrow> \<not> taken c"
  by (auto simp: free_name_def dest: free_loop_Some split: if_splits prod.splits)

lemma sat_add_exact:
  assumes "sat_add a b \<le> m" and "m \<noteq> -1"
  shows "unat (sat_add a b) = unat a + unat b"
proof (cases "a + b < a")
  case True
  then have "sat_add a b = -1" by (simp add: sat_add_def)
  with assms show ?thesis by (simp add: word_order.extremum_unique)
next
  case False
  then have "a \<le> a + b" by (simp add: not_less)
  then show ?thesis using False by (simp add: sat_add_def unat_plus_simple)
qed

lemma sat_sub_exact: "unat (sat_sub a b) = unat a - unat b"
  by (auto simp: sat_sub_def unat_sub word_le_nat_alt)

lemma once_Cons: "once f (c # cs) \<longleftrightarrow> once f cs \<and> (case f c of Some x \<Rightarrow> (\<forall>d\<in>set cs. f d \<noteq> Some x) | None \<Rightarrow> True)"
proof (cases "f c")
  case (Some x)
  have "length (filter (\<lambda>d. f d = Some x) cs) = 0 \<longleftrightarrow> (\<forall>d\<in>set cs. f d \<noteq> Some x)" by (auto simp: filter_empty_conv)
  with Some show ?thesis by (auto simp: once_def)
qed (simp add: once_def)

lemma sums_Cons [simp]:
  "uploads_of (c # cs) a = fst (claim_slot c a) + uploads_of cs a"
  "downloads_of (c # cs) a = snd (claim_slot c a) + downloads_of cs a"
  "uploads_of [] a = 0" "downloads_of [] a = 0"
  by (simp_all add: uploads_of_def downloads_of_def)

text \<open>The claims are a multiset: their order does not matter.\<close>

lemma swap_claim:
  "accounts_for live (before @ c # after) \<longleftrightarrow> accounts_for live (c # before @ after)"
  "within_caps limits (before @ c # after) \<longleftrightarrow> within_caps limits (c # before @ after)"
proof -
  have "uploads_of (before @ c # after) = uploads_of (c # before @ after)"
      "downloads_of (before @ c # after) = downloads_of (c # before @ after)"
    by (auto simp: uploads_of_def downloads_of_def)
  moreover have "once f (before @ c # after) = once f (c # before @ after)" for f :: "ClaimKind \<Rightarrow> string option"
    by (simp add: once_def)
  moreover have "once f (before @ c # after) = once f (c # before @ after)" for f :: "ClaimKind \<Rightarrow> (string \<times> string) option"
    by (simp add: once_def)
  moreover have "(\<exists>d\<in>set (before @ c # after). P d) = (\<exists>d\<in>set (c # before @ after). P d)" for P by auto
  moreover have "length (filter is_transfer (before @ c # after)) = length (filter is_transfer (c # before @ after))"
      "sum_list (map claim_bytes (before @ c # after)) = sum_list (map claim_bytes (c # before @ after))"
    by simp_all
  ultimately show "accounts_for live (before @ c # after) \<longleftrightarrow> accounts_for live (c # before @ after)"
      "within_caps limits (before @ c # after) \<longleftrightarrow> within_caps limits (c # before @ after)"
    by (simp_all only: accounts_for_def within_caps_def)
qed

lemma account_counts_other [simp]:
  "account_counts (held_update f live) = account_counts live"
  "account_counts (destinations_update g live) = account_counts live"
  "account_counts (reserved_bytes_update h live) = account_counts live"
  by (simp_all add: account_counts_def fun_eq_iff)

lemma no_claims: "accounts_for Live_default []" "within_caps limits []"
  by (simp_all add: accounts_for_def within_caps_def Live_default_def once_def)

lemma accounts_lookups:
  assumes "accounts_for live cs"
  shows "i \<in> held live \<longleftrightarrow> (\<exists>c\<in>set cs. claim_id c = Some i)"
    and "is_reserved live p n \<longleftrightarrow> (\<exists>c\<in>set cs. claim_dest c = Some (p, n))"
    and "account_counts live a = (uploads_of cs a, downloads_of cs a)"
    and "(case destinations live p of Some names \<Rightarrow> names | None \<Rightarrow> {}) = {n. \<exists>c\<in>set cs. claim_dest c = Some (p, n)}"
  using assms unfolding accounts_for_def is_reserved_def account_counts_def
  by (auto simp: Let_def split: option.splits if_splits)

lemma picked_unreserved:
  assumes "pick_destination live d = Ok (Some (p, n))"
  shows "\<not> is_reserved live p n"
  using assms by (auto simp: pick_destination_def split: Destination.splits if_splits option.splits dest: free_name_free)

lemma reserve_destinations:
  assumes "accounts_for live cs" and "claim_dest c = Some (p, n)"
  shows "destinations (reserve_name p n live) q =
    (let names = {n. \<exists>d\<in>set (c # cs). claim_dest d = Some (q, n)} in if names = {} then None else Some names)"
proof (cases "q = p")
  case True
  have "{m. \<exists>d\<in>set (c # cs). claim_dest d = Some (p, m)} = insert n {m. \<exists>d\<in>set cs. claim_dest d = Some (p, m)}"
    using assms(2) by auto
  then show ?thesis using True accounts_lookups(4) [OF assms(1), of p] by (simp add: reserve_name_def)
next
  case False
  then have "{m. \<exists>d\<in>set (c # cs). claim_dest d = Some (q, m)} = {m. \<exists>d\<in>set cs. claim_dest d = Some (q, m)}"
    using assms(2) by auto
  then show ?thesis using False assms(1) by (simp add: reserve_name_def accounts_for_def)
qed

lemma release_destinations:
  assumes "accounts_for live (c # cs)" and "claim_dest c = Some (p, n)"
  shows "destinations (release_name p n live) q =
    (let names = {n. \<exists>d\<in>set cs. claim_dest d = Some (q, n)} in if names = {} then None else Some names)"
proof -
  have fresh: "claim_dest d \<noteq> Some (p, n)" if "d \<in> set cs" for d
    using assms that by (auto simp: accounts_for_def once_Cons)
  have at: "destinations live q = (let names = {n. \<exists>d\<in>set (c # cs). claim_dest d = Some (q, n)} in if names = {} then None else Some names)" for q
    using assms(1) by (simp add: accounts_for_def)
  show ?thesis
  proof (cases "q = p")
    case True
    have "{m. \<exists>d\<in>set (c # cs). claim_dest d = Some (p, m)} = insert n {m. \<exists>d\<in>set cs. claim_dest d = Some (p, m)}"
      using assms(2) by auto
    then have "destinations live p = Some (insert n {m. \<exists>d\<in>set cs. claim_dest d = Some (p, m)})" using at [of p] by simp
    moreover have "insert n {m. \<exists>d\<in>set cs. claim_dest d = Some (p, m)} - {n} = {m. \<exists>d\<in>set cs. claim_dest d = Some (p, m)}"
      using fresh by auto
    ultimately show ?thesis using True by (simp add: release_name_def Let_def)
  next
    case False
    then have "{m. \<exists>d\<in>set (c # cs). claim_dest d = Some (q, m)} = {m. \<exists>d\<in>set cs. claim_dest d = Some (q, m)}"
      using assms(2) by auto
    then show ?thesis using False at [of q] by (simp add: release_name_def split: option.splits)
  qed
qed

lemma release_name_other [simp]:
  "held (release_name p n live) = held live" "per_account (release_name p n live) = per_account live"
  "live_total (release_name p n live) = live_total live" "reserved_bytes (release_name p n live) = reserved_bytes live"
  by (simp_all add: release_name_def split: option.splits)

lemma release_slot_other [simp]:
  "held (release_slot a f live) = held live" "destinations (release_slot a f live) = destinations live"
  "reserved_bytes (release_slot a f live) = reserved_bytes live" "live_total (release_slot a f live) = live_total live - 1"
  by (simp_all add: release_slot_def Let_def split: option.splits)

section \<open>Every step keeps the accounts\<close>

lemma claim_upload_accounts:
  assumes a: "accounts_for live cs" and m: "max_reserved_bytes limits \<noteq> -1"
    and c: "claim_upload limits available account i d n live = (Ok (c, name), live')"
  shows "accounts_for live' (c # cs)"
    and "within_caps limits cs \<Longrightarrow> within_caps limits (c # cs)"
proof -
  obtain dest where dest: "pick_destination live d = Ok dest" and ceq: "c = UploadClaim account i dest n"
      and i: "i \<notin> held live" and up: "fst (account_counts live account) < max_uploads_per_account limits"
      and tot: "live_total live < max_concurrent_transfers limits"
      and res: "sat_add (reserved_bytes live) n \<le> max_reserved_bytes limits"
      and live': "live' = (case dest of Some (p, m) \<Rightarrow> reserve_name p m live | None \<Rightarrow> live)
        \<lparr>held := insert i (held live), reserved_bytes := sat_add (reserved_bytes live) n,
         per_account := (per_account live)(account \<mapsto> (let (up, down) = account_counts live account in (up + 1, down))),
         live_total := live_total live + 1\<rparr>"
    using c by (auto simp: claim_upload_def Let_def reserve_name_def not_le split_beta split: if_splits result.splits option.splits)
  note look = accounts_lookups [OF a]
  have exact: "unat (sat_add (reserved_bytes live) n) = unat (reserved_bytes live) + unat n" by (rule sat_add_exact [OF res m])
  have fresh: "claim_id x \<noteq> Some i" if "x \<in> set cs" for x using i look(1) that by auto
  have unres: "claim_dest x \<noteq> Some pn" if "dest = Some pn" "x \<in> set cs" for x pn
    using picked_unreserved [of live d "fst pn" "snd pn"] dest that look(2) [of "fst pn" "snd pn"] by auto
  have ids: "held live' = {j. \<exists>x\<in>set (c # cs). claim_id x = Some j}" using look(1) by (auto simp: live' ceq)
  have dests: "destinations live' p = (let names = {n. \<exists>x\<in>set (c # cs). claim_dest x = Some (p, n)} in if names = {} then None else Some names)" for p
  proof (cases dest)
    case None
    then show ?thesis using a by (simp add: live' ceq accounts_for_def)
  next
    case (Some pn)
    then show ?thesis using reserve_destinations [OF a, of c "fst pn" "snd pn" p] by (simp add: live' ceq split_beta)
  qed
  have acc: "per_account live' b = (let counts = (uploads_of (c # cs) b, downloads_of (c # cs) b) in if counts = (0, 0) then None else Some counts)" for b
    using a look(3) [of account] by (auto simp: live' ceq accounts_for_def Let_def)
  show "accounts_for live' (c # cs)"
    unfolding accounts_for_def once_Cons
    using ids dests acc a fresh unres exact by (auto simp: ceq live' accounts_for_def split: option.splits)
  have "uploads_of cs account < max_uploads_per_account limits" "length (filter is_transfer cs) < max_concurrent_transfers limits"
    using up tot look(3) a by (simp_all add: accounts_for_def)
  moreover have "unat n + sum_list (map claim_bytes cs) \<le> unat (max_reserved_bytes limits)"
    using exact res a by (simp add: accounts_for_def word_le_nat_alt)
  ultimately show "within_caps limits cs \<Longrightarrow> within_caps limits (c # cs)"
    by (auto simp: within_caps_def ceq)
qed

lemma claim_download_accounts:
  assumes a: "accounts_for live cs" and c: "claim_download limits account live = (Ok c, live')"
  shows "accounts_for live' (c # cs)"
    and "within_caps limits cs \<Longrightarrow> within_caps limits (c # cs)"
proof -
  have ceq: "c = DownloadClaim account" and down: "snd (account_counts live account) < max_downloads_per_account limits"
      and tot: "live_total live < max_concurrent_transfers limits"
      and live': "live' = live\<lparr>per_account := (per_account live)(account \<mapsto> (let (up, down) = account_counts live account in (up, down + 1))),
         live_total := live_total live + 1\<rparr>"
    using c by (auto simp: claim_download_def Let_def not_le split: if_splits prod.splits)
  note look = accounts_lookups [OF a]
  have acc: "per_account live' b = (let counts = (uploads_of (c # cs) b, downloads_of (c # cs) b) in if counts = (0, 0) then None else Some counts)" for b
    using a look(3) [of account] by (auto simp: live' ceq accounts_for_def Let_def)
  show "accounts_for live' (c # cs)"
    unfolding accounts_for_def once_Cons using acc a by (simp add: ceq live' accounts_for_def)
  have "downloads_of cs account < max_downloads_per_account limits" "length (filter is_transfer cs) < max_concurrent_transfers limits"
    using down tot look(3) a by (simp_all add: accounts_for_def)
  then show "within_caps limits cs \<Longrightarrow> within_caps limits (c # cs)" by (auto simp: within_caps_def ceq)
qed

lemma hold_accounts:
  assumes a: "accounts_for live cs" and c: "hold i live = (Some c, live')"
  shows "accounts_for live' (c # cs)" and "within_caps limits cs \<Longrightarrow> within_caps limits (c # cs)"
proof -
  have ceq: "c = HoldClaim i" and i: "i \<notin> held live" and live': "live' = live\<lparr>held := insert i (held live)\<rparr>"
    using c by (auto simp: hold_def split: if_splits)
  show "accounts_for live' (c # cs)"
    unfolding accounts_for_def once_Cons using a i accounts_lookups(1) [OF a] by (auto simp: ceq live' accounts_for_def)
  show "within_caps limits cs \<Longrightarrow> within_caps limits (c # cs)" by (simp add: within_caps_def ceq)
qed

lemma drop_accounts:
  assumes a: "accounts_for live (c # cs)"
  shows "accounts_for (drop_claim c live) cs"
proof -
  let ?live = "drop_claim c live"
  have once: "once claim_id cs" "once claim_dest cs" using a by (simp_all add: accounts_for_def once_Cons)
  have "held ?live = held live - (case claim_id c of Some i \<Rightarrow> {i} | None \<Rightarrow> {})"
    by (auto simp: drop_claim_def Let_def split: ClaimKind.splits option.splits)
  moreover have "\<not> (\<exists>x\<in>set cs. claim_id x = claim_id c \<and> claim_id c \<noteq> None)"
    using a by (auto simp: accounts_for_def once_Cons split: option.splits)
  ultimately have ids: "held ?live = {j. \<exists>x\<in>set cs. claim_id x = Some j}"
    using accounts_lookups(1) [OF a] by (auto split: option.splits)
  have dests: "destinations ?live p = (let names = {n. \<exists>x\<in>set cs. claim_dest x = Some (p, n)} in if names = {} then None else Some names)" for p
  proof (cases "claim_dest c")
    case None
    then have "destinations ?live = destinations live" by (cases c) (simp_all add: drop_claim_def Let_def)
    then show ?thesis using a None by (simp add: accounts_for_def)
  next
    case (Some pn)
    then obtain account i n where c: "c = UploadClaim account i (Some pn) n" by (cases c) auto
    define w where "w = live\<lparr>held := held live - {i}\<rparr>"
    have "destinations (release_name (fst pn) (snd pn) w) = destinations (release_name (fst pn) (snd pn) live)"
      by (simp add: release_name_def w_def split: option.splits)
    moreover have "destinations ?live = destinations (release_name (fst pn) (snd pn) w)"
      by (simp add: c drop_claim_def Let_def split_beta w_def)
    ultimately show ?thesis using release_destinations [OF a, of "fst pn" "snd pn" p] Some by simp
  qed
  have slot: "per_account live b = (let counts = (uploads_of (c # cs) b, downloads_of (c # cs) b) in if counts = (0, 0) then None else Some counts)" for b
    using a by (simp add: accounts_for_def)
  have acc: "per_account ?live b = (let counts = (uploads_of cs b, downloads_of cs b) in if counts = (0, 0) then None else Some counts)" for b
  proof (cases c)
    case (UploadClaim account i d n)
    then show ?thesis using slot [of b] slot [of account]
      by (auto simp: drop_claim_def release_slot_def Let_def split: option.splits prod.splits)
  next
    case (DownloadClaim account)
    then show ?thesis using slot [of b] slot [of account] by (auto simp: drop_claim_def release_slot_def Let_def)
  next
    case (HoldClaim i)
    then show ?thesis using slot [of b] by (simp add: drop_claim_def)
  qed
  have rest: "live_total ?live = length (filter is_transfer cs)" "unat (reserved_bytes ?live) = sum_list (map claim_bytes cs)"
    using a by (cases c; auto simp: accounts_for_def drop_claim_def Let_def sat_sub_exact split: option.splits prod.splits)+
  show ?thesis unfolding accounts_for_def using ids once dests acc rest by blast
qed

lemma drop_caps: "within_caps limits (c # cs) \<Longrightarrow> within_caps limits cs"
  by (auto simp: within_caps_def split: if_splits) (meson add_leD2)+

text \<open>Property C37. The accounting of live transfers is exact and the limits hold: however uploads,
  downloads and the sweeper's holds are claimed and dropped, by any number of connections in any order,
  the shared state is exactly what the claims in existence add up to; no two claims are for the same
  transfer or the same name in a folder; and no account, nor the server, has more uploads, downloads or
  bytes claimed than its limits. (A claim that is dropped gives everything back: nothing leaks.)\<close>

theorem transfers_accounted:
  assumes "claims_run limits live cs" and "max_reserved_bytes limits \<noteq> -1"
  shows "accounts_for live cs \<and> within_caps limits cs"
  using assms(1)
proof (induction rule: claims_run.induct)
  case idle
  then show ?case by (simp add: no_claims)
next
  case (upload live cs available account i destination n c name live')
  then show ?case using claim_upload_accounts [OF _ assms(2)] by blast
next
  case (download live cs account c live')
  then show ?case using claim_download_accounts by blast
next
  case (held live cs i c live')
  then show ?case using hold_accounts by blast
next
  case (dropped live before c after)
  then have "accounts_for live (c # before @ after)" "within_caps limits (c # before @ after)" by (simp_all only: swap_claim)
  then show ?case using drop_accounts drop_caps by blast
qed

theorem transfers_accounted_witness:
  "accounts_for (drop_claim (DownloadClaim ''a'')
      (snd (claim_upload TransferLimits_default (Some (2 ^ 40)) ''a'' ''u1'' (Exact ''root'' ''x.bin'') 5000
        (snd (claim_download TransferLimits_default ''a'' Live_default)))))
     [UploadClaim ''a'' ''u1'' (Some (''root'', ''x.bin'')) 5000] \<and>
   within_caps TransferLimits_default [UploadClaim ''a'' ''u1'' (Some (''root'', ''x.bin'')) 5000]"
proof (rule transfers_accounted)
  let ?l1 = "snd (claim_download TransferLimits_default ''a'' Live_default)"
  let ?r = "claim_upload TransferLimits_default (Some (2 ^ 40)) ''a'' ''u1'' (Exact ''root'' ''x.bin'') 5000 ?l1"
  have "claim_download TransferLimits_default ''a'' Live_default = (Ok (DownloadClaim ''a''), ?l1)"
    by (simp add: claim_download_def account_counts_def Live_default_def TransferLimits_default_def)
  with claims_run.idle have one: "claims_run TransferLimits_default ?l1 [DownloadClaim ''a'']" by (rule claims_run.download)
  have "?r = (Ok (UploadClaim ''a'' ''u1'' (Some (''root'', ''x.bin'')) 5000, Some ''x.bin''), snd ?r)"
    by (simp add: claim_upload_def claim_download_def account_counts_def Live_default_def TransferLimits_default_def
        pick_destination_def is_reserved_def reserve_name_def sat_add_def word_less_nat_alt Let_def)
  with one have "claims_run TransferLimits_default (snd ?r) [UploadClaim ''a'' ''u1'' (Some (''root'', ''x.bin'')) 5000, DownloadClaim ''a'']"
    by (rule claims_run.upload)
  then show "claims_run TransferLimits_default (drop_claim (DownloadClaim ''a'') (snd ?r))
      [UploadClaim ''a'' ''u1'' (Some (''root'', ''x.bin'')) 5000]"
    using claims_run.dropped [where before = "[UploadClaim ''a'' ''u1'' (Some (''root'', ''x.bin'')) 5000]" and after = "[]"] by simp
qed (simp add: TransferLimits_default_def)

end
