(* ===== verification/Upload.thy ===== *)
theory Upload
  imports Transfer_Claims
begin

text \<open>
  Uploads (\<open>transfer/manager.rs\<close>): beginning and resuming one, its chunks, and finishing, releasing or
  aborting it. The directory of the blobs is a map from path to content; an open file is its path, since
  nobody renames or removes the partial file of an upload whose id is held. What the operating system
  and the database fail at is an argument. The hash is the parameter \<open>H\<close>; \<open>parse_uuid\<close> is the parser
  of the crate \<open>uuid\<close>, giving the identifier in its printed form.
\<close>

section \<open>The directory of the blobs\<close>

type_synonym disk = "string \<rightharpoonup> bytes"

text \<open>\<open>Path::file_name\<close>: the last component, unless it is \<open>..\<close>; empty components and dots do not count.\<close>

definition path_file_name :: "string \<Rightarrow> string option" where
  "path_file_name path =
     (let parts = filter (\<lambda>p. p \<noteq> [] \<and> p \<noteq> ''.'') (split_on (CHR ''/'') path) in
      if parts = [] \<or> last parts = ''..'' then None else Some (last parts))"

definition path_join :: "string \<Rightarrow> string \<Rightarrow> string" where
  "path_join dir name = dir @ ''/'' @ name"

definition locate_blob :: "disk \<Rightarrow> string \<Rightarrow> string \<Rightarrow> string" where
  "locate_blob disk root stored =
     (if disk stored \<noteq> None then stored
      else case path_file_name stored of Some name \<Rightarrow> path_join root name | None \<Rightarrow> stored)"

text \<open>Writing \<open>data\<close> at \<open>offset\<close>; a gap past the end reads as zeros.\<close>

definition write_at :: "nat \<Rightarrow> bytes \<Rightarrow> bytes \<Rightarrow> bytes" where
  "write_at offset data content =
     take offset content @ replicate (offset - length content) 0 @ data @ drop (offset + length data) content"

section \<open>State\<close>

text \<open>What fails: reads of the table, and by transfer or path the writes and the file operations.\<close>

record Faults =
  f_list :: bool
  f_get :: bool
  f_create_row :: bool
  f_set_row :: bool
  f_delete_row :: "string \<Rightarrow> bool"
  f_save :: bool
  f_create_part :: bool
  f_open_part :: bool
  f_write :: bool
  f_hash :: bool
  f_add :: bool
  f_undo :: bool
  f_rename :: "string \<Rightarrow> bool"
  f_unlink :: "string \<Rightarrow> bool"

definition no_faults :: Faults where
  "no_faults = \<lparr>f_list = False, f_get = False, f_create_row = False, f_set_row = False, f_delete_row = \<lambda>_. False, f_save = False,
     f_create_part = False, f_open_part = False, f_write = False, f_hash = False, f_add = False, f_undo = False,
     f_rename = \<lambda>_. False, f_unlink = \<lambda>_. False\<rparr>"

record TransferManager =
  tm_files_root :: string
  tm_limits :: TransferLimits
  tm_rows :: transfer_rows
  tm_disk :: disk
  tm_live :: Live

text \<open>The clock: seconds for the table, nanoseconds for the instants of a connection.\<close>

record Clock =
  unix_secs :: int
  instant :: nat

record ActiveUpload =
  au_id :: string
  au_account_id :: string
  au_parent_id :: string
  au_name :: string
  au_blind :: bool
  au_size :: u64
  au_chunk_size :: u32
  au_total_chunks :: u32
  au_sha256 :: bytes
  au_bitmap :: "bool list"
  au_received :: u32
  au_unsaved :: u32
  au_last_save :: nat
  au_temp_path :: string
  au_claim :: ClaimKind

record AcceptInfo =
  ai_transfer_id :: string
  ai_chunk_size :: u32
  ai_total_chunks :: u32
  ai_size :: u64
  ai_sha256 :: bytes
  ai_have_bitmap :: bytes

definition locate :: "TransferManager \<Rightarrow> string \<Rightarrow> string" where
  "locate tm stored = locate_blob (tm_disk tm) (tm_files_root tm) stored"

definition part_path :: "TransferManager \<Rightarrow> string \<Rightarrow> string" where
  "part_path tm i = path_join (tm_files_root tm) (i @ ''.part'')"

definition blob_path :: "TransferManager \<Rightarrow> string \<Rightarrow> string" where
  "blob_path tm i = path_join (tm_files_root tm) i"

definition remove_quietly :: "Faults \<Rightarrow> string \<Rightarrow> TransferManager \<Rightarrow> TransferManager" where
  "remove_quietly fl path tm = (if f_unlink fl path then tm else tm\<lparr>tm_disk := (tm_disk tm)(path := None)\<rparr>)"

definition set_rows :: "(transfer_rows, storage_error) result \<Rightarrow> TransferManager \<Rightarrow> TransferManager" where
  "set_rows r tm = (case r of Ok rows \<Rightarrow> tm\<lparr>tm_rows := rows\<rparr> | _ \<Rightarrow> tm)"

definition discard :: "Faults \<Rightarrow> string \<Rightarrow> string \<Rightarrow> TransferManager \<Rightarrow> TransferManager" where
  "discard fl i temp_path tm =
     (let tm = set_rows (transfer_delete (f_delete_row fl i) i (tm_rows tm)) tm
      in remove_quietly fl (locate tm temp_path) tm)"

definition drop_live :: "ClaimKind \<Rightarrow> TransferManager \<Rightarrow> TransferManager" where
  "drop_live claim tm = tm\<lparr>tm_live := drop_claim claim (tm_live tm)\<rparr>"

section \<open>Beginning an upload\<close>

text \<open>Rows to go, oldest first, until the account is under its cap; each id is held while it is discarded.\<close>

fun room_loop ::
  "(string \<Rightarrow> string option) \<Rightarrow> Faults \<Rightarrow> nat \<Rightarrow> (string \<times> string) list \<Rightarrow> TransferManager \<Rightarrow> nat \<times> TransferManager" where
  "room_loop parse_uuid fl excess [] tm = (excess, tm)"
| "room_loop parse_uuid fl excess ((row_id, temp_path) # rows) tm =
     (if excess = 0 then (0, tm)
      else case parse_uuid row_id of
        None \<Rightarrow> room_loop parse_uuid fl excess rows tm
      | Some i \<Rightarrow>
          (case hold i (tm_live tm) of
             (None, _) \<Rightarrow> room_loop parse_uuid fl excess rows tm
           | (Some claim, live) \<Rightarrow>
               room_loop parse_uuid fl (excess - 1) rows
                 (drop_live claim (discard fl row_id temp_path (tm\<lparr>tm_live := live\<rparr>)))))"

definition make_room_for ::
  "(string \<Rightarrow> string option) \<Rightarrow> Faults \<Rightarrow> string \<Rightarrow> TransferManager \<Rightarrow> (unit, TransferError) result \<times> TransferManager" where
  "make_room_for parse_uuid fl account tm =
     (let cap = max (max_open_uploads_per_account (tm_limits tm)) 1 in
      case transfer_list_for_account (f_list fl) account (tm_rows tm) of
        Err e \<Rightarrow> (Err (TransferStorage e), tm)
      | Panic \<Rightarrow> (Panic, tm)
      | Ok rows \<Rightarrow>
          let (excess, tm) = room_loop parse_uuid fl (length rows + 1 - cap) rows tm in
          (if excess > 0 then Err TooManyTransfers else Ok (), tm))"

definition claim_into ::
  "u64 option \<Rightarrow> TreeState \<Rightarrow> string \<Rightarrow> string \<Rightarrow> UploadDest \<Rightarrow> string \<Rightarrow> u64 \<Rightarrow> TransferManager \<Rightarrow>
   (ClaimKind \<times> string, TransferError) result \<times> TransferManager" where
  "claim_into available st account i dest name n tm =
     (let parent = nd_id (ud_parent dest);
          destination = (if ud_blind dest then Free parent name (ud_name_budget dest) (name_taken st parent) else Exact parent name)
      in case claim_upload (tm_limits tm) available account i destination n (tm_live tm) of
           (Ok (claim, reserved), live) \<Rightarrow>
             (Ok (claim, case reserved of Some name \<Rightarrow> name | None \<Rightarrow> name), tm\<lparr>tm_live := live\<rparr>)
         | (Err e, live) \<Rightarrow> (Err e, tm\<lparr>tm_live := live\<rparr>)
         | (Panic, live) \<Rightarrow> (Panic, tm\<lparr>tm_live := live\<rparr>))"

text \<open>A new partial file is as long as the file will be, all zeros. The file must not exist yet.\<close>

definition create_part :: "Faults \<Rightarrow> string \<Rightarrow> u64 \<Rightarrow> TransferManager \<Rightarrow> (unit, TransferError) result \<times> TransferManager" where
  "create_part fl path n tm =
     (if f_create_part fl \<or> tm_disk tm path \<noteq> None then (Err TransferIo, tm)
      else (Ok (), tm\<lparr>tm_disk := (tm_disk tm)(path \<mapsto> replicate (unat n) 0)\<rparr>))"

definition open_part :: "Faults \<Rightarrow> string \<Rightarrow> u64 \<Rightarrow> TransferManager \<Rightarrow> (unit, TransferError) result" where
  "open_part fl path n tm =
     (case tm_disk tm path of
        Some content \<Rightarrow> if f_open_part fl \<or> length content \<noteq> unat n then Err TransferIo else Ok ()
      | None \<Rightarrow> Err TransferIo)"

text \<open>\<open>have\<close> is packed afresh: its bits past the last chunk are zero, where the program sends those of the row.\<close>

definition accept_info :: "ActiveUpload \<Rightarrow> bytes \<Rightarrow> AcceptInfo" where
  "accept_info up have =
     \<lparr>ai_transfer_id = au_id up, ai_chunk_size = au_chunk_size up, ai_total_chunks = au_total_chunks up,
      ai_size = au_size up, ai_sha256 = au_sha256 up, ai_have_bitmap = have\<rparr>"

definition fresh_upload ::
  "(string \<Rightarrow> string option) \<Rightarrow> Faults \<Rightarrow> Clock \<Rightarrow> u64 option \<Rightarrow> TreeState \<Rightarrow> Session \<Rightarrow> string \<Rightarrow> string \<Rightarrow> string \<Rightarrow> u64 \<Rightarrow>
   u32 \<Rightarrow> bytes \<Rightarrow> string \<Rightarrow> TransferManager \<Rightarrow> (ActiveUpload \<times> AcceptInfo, TransferError) result \<times> TransferManager" where
  "fresh_upload parse_uuid fl clock available st s account path name n chunk sha256 i tm =
     (case bind_result (check_upload_shape n chunk)
             (\<lambda>chunks. map_err TransferTree (bind_result (prepare_upload st path name s) (\<lambda>dest. Ok (chunks, dest)))) of
        Err e \<Rightarrow> (Err e, tm)
      | Panic \<Rightarrow> (Panic, tm)
      | Ok (chunks, dest) \<Rightarrow>
      case claim_into available st account i dest name n tm of
        (Err e, tm) \<Rightarrow> (Err e, tm)
      | (Panic, tm) \<Rightarrow> (Panic, tm)
      | (Ok (claim, name), tm) \<Rightarrow>
      case make_room_for parse_uuid fl account tm of
        (Err e, tm) \<Rightarrow> (Err e, drop_live claim tm)
      | (Panic, tm) \<Rightarrow> (Panic, drop_live claim tm)
      | (Ok _, tm) \<Rightarrow>
      let temp_path = part_path tm i in
      case create_part fl temp_path n tm of
        (Err e, tm) \<Rightarrow> (Err e, drop_live claim tm)
      | (Panic, tm) \<Rightarrow> (Panic, drop_live claim tm)
      | (Ok _, tm) \<Rightarrow>
      let row = \<lparr>tr_id = i, tr_account_id = account, tr_parent_id = nd_id (ud_parent dest), tr_name = name,
                 tr_size = sint n, tr_chunk_size = uint chunk, tr_sha256 = sha256,
                 tr_bitmap = replicate ((unat chunks + 7) div 8) 0, tr_temp_path = temp_path,
                 tr_updated_at = unix_secs clock\<rparr>
      in case transfer_create (f_create_row fl) row (tm_rows tm) of
        Err e \<Rightarrow> (Err (TransferStorage e), drop_live claim (remove_quietly fl temp_path tm))
      | Panic \<Rightarrow> (Panic, drop_live claim tm)
      | Ok rows \<Rightarrow>
          let up = \<lparr>au_id = i, au_account_id = account, au_parent_id = nd_id (ud_parent dest), au_name = name,
                    au_blind = ud_blind dest, au_size = n, au_chunk_size = chunk, au_total_chunks = chunks,
                    au_sha256 = sha256, au_bitmap = replicate (unat chunks) False, au_received = 0, au_unsaved = 0,
                    au_last_save = instant clock, au_temp_path = temp_path, au_claim = claim\<rparr>
          in (Ok (up, accept_info up []), tm\<lparr>tm_rows := rows\<rparr>))"

section \<open>Resuming one\<close>

text \<open>\<open>is_filed_upload\<close>: the entry an upload was filed as names the blob after it and has its hash.\<close>

definition is_filed_upload :: "string \<Rightarrow> bytes \<Rightarrow> Node \<Rightarrow> bool" where
  "is_filed_upload i sha256 node \<longleftrightarrow>
     nd_kind node = File \<and> nd_sha256 node = Some sha256 \<and>
     (case nd_storage_path node of Some stored \<Rightarrow> path_file_name stored = Some i | None \<Rightarrow> False)"

definition discard_held :: "Faults \<Rightarrow> string \<Rightarrow> TransferRow \<Rightarrow> TransferManager \<Rightarrow> bool \<times> TransferManager" where
  "discard_held fl i row tm =
     (case hold i (tm_live tm) of
        (None, _) \<Rightarrow> (False, tm)
      | (Some claim, live) \<Rightarrow>
          (True, drop_live claim (discard fl (tr_id row) (tr_temp_path row) (tm\<lparr>tm_live := live\<rparr>))))"

definition remaining_bytes :: "u64 \<Rightarrow> nat \<Rightarrow> u32 \<Rightarrow> u64" where
  "remaining_bytes n received chunk = sat_sub n (of_nat received * ucast chunk)"

text \<open>The destination: none for an upload already filed, otherwise checked as for a fresh upload.\<close>

definition resume_dest :: "TreeState \<Rightarrow> Session \<Rightarrow> TransferRow \<Rightarrow> (UploadDest option, TransferError) result" where
  "resume_dest st s row =
     (if find_child st (tr_parent_id row) (is_filed_upload (tr_id row) (tr_sha256 row)) \<noteq> None then Ok None
      else map_err TransferTree (bind_result (prepare_upload_into st (tr_parent_id row) (tr_name row) s) (\<lambda>d. Ok (Some d))))"

definition resume_claim ::
  "u64 option \<Rightarrow> TreeState \<Rightarrow> string \<Rightarrow> string \<Rightarrow> UploadDest option \<Rightarrow> TransferRow \<Rightarrow> u64 \<Rightarrow> TransferManager \<Rightarrow>
   (ClaimKind \<times> string, TransferError) result \<times> TransferManager" where
  "resume_claim available st account i dest row remaining tm =
     (case dest of
        Some dest \<Rightarrow> claim_into available st account i dest (tr_name row) remaining tm
      | None \<Rightarrow>
          (case claim_upload (tm_limits tm) available account i Filed remaining (tm_live tm) of
             (Ok (claim, _), live) \<Rightarrow> (Ok (claim, tr_name row), tm\<lparr>tm_live := live\<rparr>)
           | (Err e, live) \<Rightarrow> (Err e, tm\<lparr>tm_live := live\<rparr>)
           | (Panic, live) \<Rightarrow> (Panic, tm\<lparr>tm_live := live\<rparr>)))"

text \<open>With the claim made: the row gets the new name, the partial file is opened, the row's expiry restarts.\<close>

definition resume_open ::
  "Faults \<Rightarrow> Clock \<Rightarrow> string \<Rightarrow> UploadDest option \<Rightarrow> TransferRow \<Rightarrow> u64 \<Rightarrow> u32 \<Rightarrow> bytes \<Rightarrow> u32 \<Rightarrow> bool list \<Rightarrow> ClaimKind \<Rightarrow> string \<Rightarrow>
   TransferManager \<Rightarrow> (ActiveUpload \<times> AcceptInfo, TransferError) result \<times> TransferManager" where
  "resume_open fl clock i dest row n chunk sha256 chunks bitmap claim name tm =
     (let tm = (if name \<noteq> tr_name row then set_rows (transfer_set_name (f_set_row fl) (tr_id row) name (tm_rows tm)) tm else tm);
          temp_path = locate tm (tr_temp_path row)
      in case open_part fl temp_path n tm of
        Err e \<Rightarrow> (Err e, drop_live claim (discard fl (tr_id row) (tr_temp_path row) tm))
      | Panic \<Rightarrow> (Panic, drop_live claim tm)
      | Ok _ \<Rightarrow>
          let tm = set_rows (transfer_touch (f_set_row fl) (unix_secs clock) (tr_id row) (tm_rows tm)) tm;
              up = \<lparr>au_id = i, au_account_id = tr_account_id row, au_parent_id = tr_parent_id row, au_name = name,
                    au_blind = (case dest of Some d \<Rightarrow> ud_blind d | None \<Rightarrow> False), au_size = n, au_chunk_size = chunk,
                    au_total_chunks = chunks, au_sha256 = sha256, au_bitmap = bitmap,
                    au_received = of_nat (count_ones bitmap), au_unsaved = 0, au_last_save = instant clock,
                    au_temp_path = temp_path, au_claim = claim\<rparr>
          in (Ok (up, accept_info up (pack_bits bitmap)), tm))"

definition resume_upload ::
  "Faults \<Rightarrow> Clock \<Rightarrow> u64 option \<Rightarrow> TreeState \<Rightarrow> Session \<Rightarrow> string \<Rightarrow> string \<Rightarrow> u64 \<Rightarrow> u32 \<Rightarrow> bytes \<Rightarrow> TransferManager \<Rightarrow>
   (ActiveUpload \<times> AcceptInfo, TransferError) result \<times> TransferManager" where
  "resume_upload fl clock available st s account i n chunk sha256 tm =
     (case transfer_get (f_get fl) i (tm_rows tm) of
        Err e \<Rightarrow> (Err (TransferStorage e), tm)
      | Panic \<Rightarrow> (Panic, tm)
      | Ok None \<Rightarrow> (Err UnknownTransfer, tm)
      | Ok (Some row) \<Rightarrow>
      if tr_account_id row \<noteq> account then (Err UnknownTransfer, tm)
      else if word_of_int (tr_size row) \<noteq> n \<or> word_of_int (tr_chunk_size row) \<noteq> (ucast chunk :: u64) \<or> tr_sha256 row \<noteq> sha256
      then (Err ResumeMismatch, tm)
      else case check_upload_shape n chunk of
        Err e \<Rightarrow> (Err e, snd (discard_held fl i row tm))
      | Panic \<Rightarrow> (Panic, tm)
      | Ok chunks \<Rightarrow>
      let bitmap = resize_bits (unat chunks) (unpack_bits (tr_bitmap row)) in
      case resume_dest st s row of
        Err e \<Rightarrow> (case discard_held fl i row tm of (True, tm) \<Rightarrow> (Err e, tm) | (False, tm) \<Rightarrow> (Err Busy, tm))
      | Panic \<Rightarrow> (Panic, tm)
      | Ok dest \<Rightarrow>
      case resume_claim available st account i dest row (remaining_bytes n (count_ones bitmap) chunk) tm of
        (Err e, tm) \<Rightarrow> (Err e, tm)
      | (Panic, tm) \<Rightarrow> (Panic, tm)
      | (Ok (claim, name), tm) \<Rightarrow> resume_open fl clock i dest row n chunk sha256 chunks bitmap claim name tm)"

text \<open>\<open>resume_id_from_wire\<close> has made the identifier, or none, out of the request.\<close>

definition begin_upload ::
  "(string \<Rightarrow> string option) \<Rightarrow> Faults \<Rightarrow> Clock \<Rightarrow> u64 option \<Rightarrow> TreeState \<Rightarrow> Session \<Rightarrow> string \<Rightarrow> string \<Rightarrow> string \<Rightarrow> u64 \<Rightarrow>
   u32 \<Rightarrow> bytes \<Rightarrow> string option \<Rightarrow> string \<Rightarrow> TransferManager \<Rightarrow> (ActiveUpload \<times> AcceptInfo, TransferError) result \<times> TransferManager" where
  "begin_upload parse_uuid fl clock available st s account path name n chunk sha256 resume_id fresh tm =
     (case resume_id of
        Some i \<Rightarrow> resume_upload fl clock available st s account i n chunk sha256 tm
      | None \<Rightarrow> fresh_upload parse_uuid fl clock available st s account path name n chunk sha256 fresh tm)"

section \<open>Chunks\<close>

definition is_complete :: "ActiveUpload \<Rightarrow> bool" where
  "is_complete up \<longleftrightarrow> au_received up = au_total_chunks up"

definition save_bitmap ::
  "Faults \<Rightarrow> Clock \<Rightarrow> ActiveUpload \<Rightarrow> TransferManager \<Rightarrow> (unit, TransferError) result \<times> ActiveUpload \<times> TransferManager" where
  "save_bitmap fl clock up tm =
     (case transfer_update_bitmap (f_save fl) (unix_secs clock) (au_id up) (pack_bits (au_bitmap up)) (tm_rows tm) of
        Ok rows \<Rightarrow> (Ok (), up\<lparr>au_unsaved := 0, au_last_save := instant clock\<rparr>, tm\<lparr>tm_rows := rows\<rparr>)
      | Err e \<Rightarrow> (Err (TransferStorage e), up, tm)
      | Panic \<Rightarrow> (Panic, up, tm))"

text \<open>The wait for the throttle precedes everything and is left out. A write that fails may have changed
  any of the bytes it was to write: \<open>torn\<close> is what it left there, as long as the chunk.\<close>

definition write_chunk ::
  "(bytes \<Rightarrow> bytes) \<Rightarrow> Faults \<Rightarrow> bytes \<Rightarrow> Clock \<Rightarrow> u32 \<Rightarrow> bytes \<Rightarrow> bytes \<Rightarrow> ActiveUpload \<Rightarrow> TransferManager \<Rightarrow>
   (bool, TransferError) result \<times> ActiveUpload \<times> TransferManager" where
  "write_chunk H fl torn clock i chunk_hash data up tm =
     (if i \<ge> au_total_chunks up then (Err BadChunkIndex, up, tm)
      else case expected_chunk_len (au_size up) (au_chunk_size up) (au_total_chunks up) i of
        Err e \<Rightarrow> (Err e, up, tm)
      | Panic \<Rightarrow> (Panic, up, tm)
      | Ok expected_len \<Rightarrow>
      if length data \<noteq> expected_len then (Err BadChunkLength, up, tm)
      else if H data \<noteq> chunk_hash then (Err ChunkHashMismatch, up, tm)
      else if au_bitmap up ! unat i then (Ok (is_complete up), up, tm)
      else
        let offset = unat i * unat (au_chunk_size up);
            put = (\<lambda>bytes. tm\<lparr>tm_disk := (tm_disk tm)(au_temp_path up :=
                     map_option (write_at offset bytes) (tm_disk tm (au_temp_path up)))\<rparr>)
        in if f_write fl then (Err TransferIo, up, put (take (length data) torn))
        else
          let tm = put data;
              up = up\<lparr>au_bitmap := (au_bitmap up)[unat i := True], au_received := au_received up + 1,
                      au_unsaved := au_unsaved up + 1\<rparr>
          in if \<not> is_complete up \<and>
                (au_unsaved up \<ge> bitmap_flush_chunks (tm_limits tm) \<or>
                 instant clock - au_last_save up \<ge> bitmap_flush_interval (tm_limits tm))
             then (case save_bitmap fl clock up tm of
                     (Ok _, up, tm) \<Rightarrow> (Ok (is_complete up), up, tm)
                   | (Err e, up, tm) \<Rightarrow> (Err e, up, tm)
                   | (Panic, up, tm) \<Rightarrow> (Panic, up, tm))
             else (Ok (is_complete up), up, tm))"

section \<open>The end of an upload\<close>

text \<open>\<open>Drop\<close>: unsaved progress is saved in the background, and the claim goes then.\<close>

definition drop_upload :: "Faults \<Rightarrow> Clock \<Rightarrow> ActiveUpload \<Rightarrow> TransferManager \<Rightarrow> TransferManager" where
  "drop_upload fl clock up tm =
     (if au_unsaved up = 0 then drop_live (au_claim up) tm
      else drop_live (au_claim up) (snd (snd (save_bitmap fl clock up tm))))"

definition release :: "Faults \<Rightarrow> Clock \<Rightarrow> ActiveUpload \<Rightarrow> TransferManager \<Rightarrow> TransferManager" where
  "release fl clock up tm =
     (if au_unsaved up > 0 then
        (case save_bitmap fl clock up tm of
           (Ok _, up, tm) \<Rightarrow> drop_upload fl clock up tm
         | (_, up, tm) \<Rightarrow> drop_upload fl clock (up\<lparr>au_unsaved := 0\<rparr>) tm)
      else drop_upload fl clock up tm)"

text \<open>\<open>discard_upload\<close> and the drop that follows it.\<close>

definition abort_upload :: "Faults \<Rightarrow> Clock \<Rightarrow> ActiveUpload \<Rightarrow> TransferManager \<Rightarrow> TransferManager" where
  "abort_upload fl clock up tm =
     drop_upload fl clock (up\<lparr>au_unsaved := 0\<rparr>) (discard fl (au_id up) (au_temp_path up) tm)"

text \<open>\<open>finish\<close>: \<open>fresh\<close> is the identifier drawn for the entry.\<close>

definition file_upload ::
  "Faults \<Rightarrow> string \<Rightarrow> ActiveUpload \<Rightarrow> TransferManager \<Rightarrow> FileTree \<Rightarrow> (Node, TreeError) result \<times> FileTree" where
  "file_upload fl fresh up tm ft =
     (let stored = blob_path tm (au_id up) in
      case find_child (ft_state ft) (au_parent_id up) (is_filed_upload (au_id up) (au_sha256 up)) of
        Some node \<Rightarrow> (Ok node, ft)
      | None \<Rightarrow>
          if au_blind up
          then add_file_renaming (f_add fl) fresh (au_parent_id up) (au_name up) (au_size up) (au_sha256 up) stored
                 (is_reserved (tm_live tm) (au_parent_id up)) ft
          else add_file (f_add fl) fresh (au_parent_id up) (au_name up) (au_size up) (au_sha256 up) stored ft)"

definition finish_saved ::
  "(bytes \<Rightarrow> bytes) \<Rightarrow> Faults \<Rightarrow> Clock \<Rightarrow> string \<Rightarrow> ActiveUpload \<Rightarrow> TransferManager \<Rightarrow> FileTree \<Rightarrow>
   (unit, TransferError) result \<times> TransferManager \<times> FileTree" where
  "finish_saved H fl clock fresh up tm ft =
     (case (if f_hash fl then None else map_option H (tm_disk tm (au_temp_path up))) of
        None \<Rightarrow> (Err TransferIo, abort_upload fl clock up tm, ft)
      | Some actual \<Rightarrow>
      if actual \<noteq> au_sha256 up then (Err FileHashMismatch, abort_upload fl clock up tm, ft)
      else case file_upload fl fresh up tm ft of
        (Err (TreeStorage e), ft) \<Rightarrow> (Err (TransferTree (TreeStorage e)), release fl clock up tm, ft)
      | (Err e, ft) \<Rightarrow> (Err (TransferTree e), abort_upload fl clock up tm, ft)
      | (Panic, ft) \<Rightarrow> (Panic, drop_upload fl clock up tm, ft)
      | (Ok node, ft) \<Rightarrow>
      let final_path = blob_path tm (au_id up) in
      if f_rename fl (au_temp_path up)
      then (Err TransferIo, release fl clock up tm, snd (remove_file_node (f_undo fl) (nd_id node) ft))
      else
        let tm = tm\<lparr>tm_disk := (tm_disk tm)(au_temp_path up := None, final_path := tm_disk tm (au_temp_path up))\<rparr>;
            tm = set_rows (transfer_delete (f_delete_row fl (au_id up)) (au_id up) (tm_rows tm)) tm
        in (Ok (), drop_upload fl clock up tm, ft))"

text \<open>Progress is saved before the pass over the bytes, which may take long.\<close>

definition finish ::
  "(bytes \<Rightarrow> bytes) \<Rightarrow> Faults \<Rightarrow> Clock \<Rightarrow> string \<Rightarrow> ActiveUpload \<Rightarrow> TransferManager \<Rightarrow> FileTree \<Rightarrow>
   (unit, TransferError) result \<times> TransferManager \<times> FileTree" where
  "finish H fl clock fresh up tm ft =
     (let (up, tm) = (if au_unsaved up > 0 then snd (save_bitmap fl clock up tm) else (up, tm))
      in finish_saved H fl clock fresh up tm ft)"

end
