(* ===== verification/Upload_Data.thy ===== *)
theory Upload_Data
  imports Upload
begin

text \<open>
  That an upload stores what its sender sends: the chunks of the data, whatever their order, resends,
  failed writes and interruptions, end up as the data.
\<close>

section \<open>Cutting data into chunks\<close>

definition chunk_of :: "bytes \<Rightarrow> nat \<Rightarrow> nat \<Rightarrow> bytes" where
  "chunk_of data c i = take c (drop (i * c) data)"

lemma write_at_length [simp]: "offset + length bs \<le> length content \<Longrightarrow> length (write_at offset bs content) = length content"
  by (simp add: write_at_def)

lemma write_at_nth:
  assumes "offset + length bs \<le> length content" and "k < length content"
  shows "write_at offset bs content ! k = (if offset \<le> k \<and> k < offset + length bs then bs ! (k - offset) else content ! k)"
  using assms by (auto simp: write_at_def nth_append min_def)

lemma chunk_of_nth: "k < c \<Longrightarrow> i * c + k < length data \<Longrightarrow> chunk_of data c i ! k = data ! (i * c + k)"
  by (simp add: chunk_of_def)

lemma chunk_of_length: "length (chunk_of data c i) = min c (length data - i * c)"
  by (simp add: chunk_of_def)

lemma chunk_of_fits: "i * c + length (chunk_of data c i) \<le> max (length data) (i * c)"
  by (simp add: chunk_of_length)

lemma chunk_of_other:
  assumes "length bs \<le> length (chunk_of content c i)" and "i * c \<le> length content" and "j \<noteq> i"
  shows "chunk_of (write_at (i * c) bs content) c j = chunk_of content c j"
proof (rule nth_equalityI)
  have fit: "i * c + length bs \<le> length content" using assms(1,2) by (simp add: chunk_of_length le_diff_conv2 add.commute)
  show "length (chunk_of (write_at (i * c) bs content) c j) = length (chunk_of content c j)"
    by (simp add: chunk_of_length fit)
  fix k assume "k < length (chunk_of (write_at (i * c) bs content) c j)"
  then have k: "k < c" "j * c + k < length content" by (simp_all add: chunk_of_length write_at_length [OF fit] less_diff_conv add.commute)
  have "length bs \<le> c" using assms(1) by (simp add: chunk_of_length)
  then have "\<not> (i * c \<le> j * c + k \<and> j * c + k < i * c + length bs)"
  proof (cases "i < j")
    case True
    then have "i * c + c \<le> j * c" by (metis Suc_leI mult_Suc mult_le_mono1 add.commute)
    with \<open>length bs \<le> c\<close> show ?thesis by simp
  next
    case False
    then have "j * c + c \<le> i * c" using assms(3) by (metis Suc_leI add.commute linorder_neqE_nat mult_Suc mult_le_mono1)
    with k(1) show ?thesis by simp
  qed
  with k fit show "chunk_of (write_at (i * c) bs content) c j ! k = chunk_of content c j ! k"
    by (auto simp: chunk_of_nth write_at_nth)
qed

lemma chunk_of_same:
  assumes "length content = length data" and "i * c \<le> length data"
  shows "chunk_of (write_at (i * c) (chunk_of data c i) content) c i = chunk_of data c i"
proof (rule nth_equalityI)
  have fit: "i * c + length (chunk_of data c i) \<le> length content" using assms by (simp add: chunk_of_length min_def le_diff_conv2 add.commute)
  show len: "length (chunk_of (write_at (i * c) (chunk_of data c i) content) c i) = length (chunk_of data c i)"
    using assms fit by (simp add: chunk_of_length)
  fix k assume "k < length (chunk_of (write_at (i * c) (chunk_of data c i) content) c i)"
  then have k: "k < length (chunk_of data c i)" using len by simp
  then have "k < c" "i * c + k < length data" by (simp_all add: chunk_of_length less_diff_conv add.commute)
  with k fit assms(1) show "chunk_of (write_at (i * c) (chunk_of data c i) content) c i ! k = chunk_of data c i ! k"
    by (simp add: chunk_of_nth [of k c i "write_at (i * c) (chunk_of data c i) content"] write_at_nth)
qed

lemma all_chunks:
  assumes "length content = length data" and "0 < c"
    and "\<And>i. i * c < length data \<Longrightarrow> chunk_of content c i = chunk_of data c i"
  shows "content = data"
proof (rule nth_equalityI)
  fix k assume "k < length content"
  then have k: "k < length data" using assms(1) by simp
  have split: "k div c * c + k mod c = k" by simp
  have "k div c * c < length data" using k split by linarith
  then have "chunk_of content c (k div c) ! (k mod c) = chunk_of data c (k div c) ! (k mod c)" using assms(3) by simp
  then show "content ! k = data ! k" using k assms(1,2) split by (simp add: chunk_of_nth)
qed (use assms(1) in simp)

lemma chunk_start_iff:
  fixes i c n :: nat
  assumes "0 < c"
  shows "i < (n + c - 1) div c \<longleftrightarrow> i * c < n"
proof -
  have "i < (n + c - 1) div c \<longleftrightarrow> Suc i * c \<le> n + c - 1"
    unfolding less_eq_div_iff_mult_less_eq [OF assms, symmetric] by (rule Suc_le_eq [symmetric])
  also have "\<dots> \<longleftrightarrow> i * c < n" using assms by auto
  finally show ?thesis .
qed

lemma expected_len:
  assumes "check_upload_shape n chunk = Ok k" and "i < k" and "length data = unat n"
  shows "expected_chunk_len n chunk k i = Ok (length (chunk_of data (unat chunk) (unat i)))"
proof -
  let ?c = "unat chunk" and ?n = "unat n"
  note shape = check_upload_shape_Ok [OF assms(1)]
  have c: "0 < ?c" using shape by (auto simp: MIN_CHUNK_def word_le_nat_alt)
  have k: "unat k = (?n + ?c - 1) div ?c" using shape by simp
  have i: "unat i < unat k" using assms(2) by (simp add: word_less_nat_alt)
  then have start: "unat i * ?c < ?n" unfolding k chunk_start_iff [OF c] .
  have k0: "k \<noteq> 0" using assms(2) by auto
  have "i = k - 1 \<longleftrightarrow> unat i = unat k - 1" using k0 by (metis unat_minus_one word_unat_eq_iff)
  then have last: "i = k - 1 \<longleftrightarrow> \<not> unat i + 1 < unat k" using i by auto
  have rem: "unat (n mod ucast chunk) = ?n mod ?c" by (simp add: unat_mod)
  show ?thesis
  proof (cases "i = k - 1")
    case False
    then have "(unat i + 1) * ?c < ?n" using last k chunk_start_iff [OF c] by metis
    then show ?thesis using False k0 by (simp add: expected_chunk_len_def chunk_of_length assms(3) min_def algebra_simps)
  next
    case True
    then have "\<not> (unat i + 1) * ?c < ?n" using last k chunk_start_iff [OF c] by metis
    then have up: "?n \<le> unat i * ?c + ?c" by simp
    have "?n - unat i * ?c = (if ?n mod ?c = 0 then ?c else ?n mod ?c)"
    proof (cases "?n = unat i * ?c + ?c")
      case True
      then show ?thesis by simp
    next
      case False
      define r where "r = ?n - unat i * ?c"
      then have r: "?n = unat i * ?c + r" "0 < r" using start by simp_all
      then have "r < ?c" using up False by linarith
      then show ?thesis using r by simp
    qed
    moreover have "?n - unat i * ?c \<le> ?c" using up by simp
    ultimately show ?thesis using True k0 by (simp add: expected_chunk_len_def chunk_of_length assms(3) rem Let_def min_def)
  qed
qed

section \<open>What an upload in progress has stored\<close>

definition right_bits :: "bytes \<Rightarrow> nat \<Rightarrow> bytes \<Rightarrow> bool list \<Rightarrow> bool" where
  "right_bits data c content bits \<longleftrightarrow> (\<forall>i<length bits. bits ! i \<longrightarrow> chunk_of content c i = chunk_of data c i)"

definition transfer_row :: "string \<Rightarrow> transfer_rows \<Rightarrow> TransferRow option" where
  "transfer_row i rows = find (\<lambda>r. tr_id r = i) rows"

definition describes :: "TransferRow \<Rightarrow> ActiveUpload \<Rightarrow> bool" where
  "describes row up \<longleftrightarrow> tr_temp_path row = au_temp_path up \<and> word_of_int (tr_size row) = au_size up \<and>
     word_of_int (tr_chunk_size row) = (ucast (au_chunk_size up) :: u64) \<and> tr_sha256 row = au_sha256 up"

definition well_shaped :: "ActiveUpload \<Rightarrow> bool" where
  "well_shaped up \<longleftrightarrow> check_upload_shape (au_size up) (au_chunk_size up) = Ok (au_total_chunks up) \<and>
     length (au_bitmap up) = unat (au_total_chunks up) \<and> unat (au_received up) = count_ones (au_bitmap up)"

text \<open>What the row says has arrived is among what the upload in memory has.\<close>

definition row_bits :: "ActiveUpload \<Rightarrow> TransferRow \<Rightarrow> bool list" where
  "row_bits up row = resize_bits (unat (au_total_chunks up)) (unpack_bits (tr_bitmap row))"

definition saved_bits :: "ActiveUpload \<Rightarrow> TransferRow \<Rightarrow> bool" where
  "saved_bits up row \<longleftrightarrow> (\<forall>i<unat (au_total_chunks up). row_bits up row ! i \<longrightarrow> au_bitmap up ! i)"

definition carries :: "bytes \<Rightarrow> ActiveUpload \<Rightarrow> TransferManager \<Rightarrow> bool" where
  "carries data up tm \<longleftrightarrow> length data = unat (au_size up) \<and> well_shaped up \<and>
     (\<exists>row content. transfer_row (au_id up) (tm_rows tm) = Some row \<and> describes row up \<and>
       tm_disk tm (au_temp_path up) = Some content \<and> length content = length data \<and>
       right_bits data (unat (au_chunk_size up)) content (au_bitmap up) \<and>
       saved_bits up row)"

lemma carriesI:
  assumes "length data = unat (au_size up)" and "well_shaped up" and "transfer_row (au_id up) (tm_rows tm) = Some row"
    and "describes row up" and "tm_disk tm (au_temp_path up) = Some content" and "length content = length data"
    and "right_bits data (unat (au_chunk_size up)) content (au_bitmap up)"
    and "saved_bits up row"
  shows "carries data up tm"
  using assms unfolding carries_def by blast

lemma carriesE:
  assumes "carries data up tm"
  obtains row content where "length data = unat (au_size up)" and "well_shaped up"
    and "transfer_row (au_id up) (tm_rows tm) = Some row" and "describes row up"
    and "tm_disk tm (au_temp_path up) = Some content" and "length content = length data"
    and "right_bits data (unat (au_chunk_size up)) content (au_bitmap up)"
    and "saved_bits up row"
  using assms unfolding carries_def by blast

lemma right_bits_none: "right_bits data c content (replicate n False)"
  by (simp add: right_bits_def)

text \<open>Writing inside a chunk whose bit is not set changes no other chunk.\<close>

lemma right_bits_write:
  assumes "right_bits data c content bits" and "length content = length data" and "i * c \<le> length data"
    and "length bs \<le> length (chunk_of data c i)" and "\<not> bits ! i"
  shows "right_bits data c (write_at (i * c) bs content) bits"
  unfolding right_bits_def
proof (intro allI impI)
  fix j assume j: "j < length bits" "bits ! j"
  then have "j \<noteq> i" using assms(5) by auto
  moreover have "length bs \<le> length (chunk_of content c i)" using assms(2,4) by (simp add: chunk_of_length)
  ultimately have "chunk_of (write_at (i * c) bs content) c j = chunk_of content c j"
    using assms(2,3) by (intro chunk_of_other) simp_all
  then show "chunk_of (write_at (i * c) bs content) c j = chunk_of data c j" using assms(1) j by (simp add: right_bits_def)
qed

lemma right_bits_set:
  assumes "right_bits data c (write_at (i * c) (chunk_of data c i) content) bits" and "length content = length data"
    and "i * c \<le> length data"
  shows "right_bits data c (write_at (i * c) (chunk_of data c i) content) (bits[i := True])"
  unfolding right_bits_def
proof (intro allI impI)
  fix j assume j: "j < length (bits[i := True])" "bits[i := True] ! j"
  show "chunk_of (write_at (i * c) (chunk_of data c i) content) c j = chunk_of data c j"
  proof (cases "j = i")
    case True
    then show ?thesis using chunk_of_same assms(2,3) by blast
  next
    case False
    then show ?thesis using assms(1) j by (auto simp: right_bits_def)
  qed
qed

lemma transfer_row_change:
  assumes "\<And>r. tr_id (f r) = tr_id r"
  shows "transfer_row i (map (\<lambda>r. if tr_id r = j then f r else r) rows) =
    map_option (\<lambda>r. if i = j then f r else r) (transfer_row i rows)"
  using assms by (induction rows) (auto simp: transfer_row_def)

text \<open>A saved bitmap is the one in memory.\<close>

lemma save_keeps:
  assumes "carries data up tm" and "save_bitmap fl clock up tm = (r, up', tm')"
  shows "carries data up' tm' \<and> au_id up' = au_id up \<and> au_bitmap up' = au_bitmap up \<and> au_sha256 up' = au_sha256 up"
  using assms(1)
proof (rule carriesE)
  fix row content
  assume c: "length data = unat (au_size up)" "well_shaped up" "transfer_row (au_id up) (tm_rows tm) = Some row"
    "describes row up" "tm_disk tm (au_temp_path up) = Some content" "length content = length data"
    "right_bits data (unat (au_chunk_size up)) content (au_bitmap up)"
    "saved_bits up row"
  have len: "resize_bits (unat (au_total_chunks up)) (unpack_bits (pack_bits (au_bitmap up))) = au_bitmap up"
    using c(2) resize_unpack_pack [of "au_bitmap up"] by (simp add: well_shaped_def)
  show ?thesis
  proof (cases "f_save fl")
    case True
    then show ?thesis using assms by (auto simp: save_bitmap_def transfer_update_bitmap_def change_row_def)
  next
    case False
    let ?f = "\<lambda>r. r\<lparr>tr_bitmap := pack_bits (au_bitmap up), tr_updated_at := unix_secs clock\<rparr>"
    have up': "up' = up\<lparr>au_unsaved := 0, au_last_save := instant clock\<rparr>"
        "tm' = tm\<lparr>tm_rows := map (\<lambda>r. if tr_id r = au_id up then ?f r else r) (tm_rows tm)\<rparr>"
      using assms(2) False by (auto simp: save_bitmap_def transfer_update_bitmap_def change_row_def)
    have "transfer_row (au_id up) (tm_rows tm') = Some (?f row)"
      using c(3) transfer_row_change [of ?f "au_id up" "au_id up" "tm_rows tm"] by (simp add: up')
    then show ?thesis using c len
      by (auto simp: up' well_shaped_def describes_def saved_bits_def row_bits_def intro!: carriesI [of _ _ _ "?f row" content])
  qed
qed

lemma carries_live [simp]: "carries data up (tm\<lparr>tm_live := live\<rparr>) = carries data up tm" "carries data up (drop_live c tm) = carries data up tm"
  by (simp_all add: carries_def drop_live_def)

lemma carries_progress [simp]:
  "carries data (au_unsaved_update f up) tm = carries data up tm"
  "carries data (au_last_save_update g up) tm = carries data up tm"
  by (rule iffI; elim carriesE, intro carriesI; simp add: well_shaped_def describes_def saved_bits_def row_bits_def)+

lemma save_keeps_other:
  assumes "carries data up tm"
  shows "carries data up (snd (snd (save_bitmap fl clock up tm)))"
    and "carries data (fst (snd (save_bitmap fl clock up tm))) tm' = carries data up tm'"
proof -
  obtain r up' tm' where s: "save_bitmap fl clock up tm = (r, up', tm')" by (metis prod_cases3)
  have k: "carries data up' tm'" using save_keeps [OF assms s] by blast
  have "up' = up \<or> up' = up\<lparr>au_unsaved := 0, au_last_save := instant clock\<rparr>"
    using s by (auto simp: save_bitmap_def split: result.splits)
  then have "carries data up' = carries data up" by (auto simp: fun_eq_iff)
  with k show "carries data up (snd (snd (save_bitmap fl clock up tm)))"
      and "carries data (fst (snd (save_bitmap fl clock up tm))) tm'' = carries data up tm''" for tm''
    by (simp_all add: s)
qed

lemma drop_upload_keeps: "carries data up tm \<Longrightarrow> carries data up (drop_upload fl clock up tm)"
  by (simp add: drop_upload_def save_keeps_other)

lemma release_keeps:
  assumes "carries data up tm"
  shows "carries data up (release fl clock up tm)"
proof -
  obtain r up' tm' where s: "save_bitmap fl clock up tm = (r, up', tm')" by (metis prod_cases3)
  have k: "carries data up' tm'" using save_keeps [OF assms s] by blast
  have eq: "carries data up' tm'' = carries data up tm''" for tm'' using save_keeps_other(2) [OF assms, of fl clock] by (simp add: s)
  have "carries data up' (drop_upload fl clock up' tm')" using k by (rule drop_upload_keeps)
  moreover have "carries data (up'\<lparr>au_unsaved := 0\<rparr>) (drop_upload fl clock (up'\<lparr>au_unsaved := 0\<rparr>) tm')"
    using k by (intro drop_upload_keeps) simp
  ultimately show ?thesis using drop_upload_keeps [OF assms] eq
    by (simp add: release_def s split: result.splits)
qed

lemma write_chunk_keeps:
  assumes "carries data up tm" and "write_chunk H fl torn clock i (H c) c up tm = (r, up', tm')"
    and "c = chunk_of data (unat (au_chunk_size up)) (unat i)"
  shows "carries data up' tm' \<and> au_id up' = au_id up \<and> au_sha256 up' = au_sha256 up"
  using assms(1)
proof (rule carriesE)
  fix row content
  let ?c = "unat (au_chunk_size up)" and ?i = "unat i"
  assume c: "length data = unat (au_size up)" "well_shaped up" "transfer_row (au_id up) (tm_rows tm) = Some row"
    "describes row up" "tm_disk tm (au_temp_path up) = Some content" "length content = length data"
    "right_bits data ?c content (au_bitmap up)"
    "saved_bits up row"
  show ?thesis
  proof (cases "i \<ge> au_total_chunks up \<or> au_bitmap up ! ?i")
    case True
    then have "up' = up" "tm' = tm"
      using assms(2) by (auto simp: write_chunk_def split: result.splits if_splits)
    then show ?thesis using assms(1) by simp
  next
    case False
    then have i: "i < au_total_chunks up" "\<not> au_bitmap up ! ?i" by auto
    have i': "\<not> au_total_chunks up \<le> i" using i(1) by simp
    have shape: "check_upload_shape (au_size up) (au_chunk_size up) = Ok (au_total_chunks up)"
        and len: "length (au_bitmap up) = unat (au_total_chunks up)" and rc: "unat (au_received up) = count_ones (au_bitmap up)"
      using c(2) by (simp_all add: well_shaped_def)
    have want: "expected_chunk_len (au_size up) (au_chunk_size up) (au_total_chunks up) i = (Ok (length c) :: (nat, TransferError) result)"
      using expected_len [OF shape i(1) c(1)] assms(3) by simp
    have pos: "0 < ?c" using check_upload_shape_Ok [OF shape] by (auto simp: MIN_CHUNK_def word_le_nat_alt)
    have ni: "?i < unat (au_total_chunks up)" using i(1) by (simp add: word_less_nat_alt)
    then have start: "?i * ?c \<le> length data"
      using check_upload_shape_Ok [OF shape] chunk_start_iff [OF pos, of ?i "unat (au_size up)"] c(1) by simp
    let ?put = "\<lambda>bs. tm\<lparr>tm_disk := (tm_disk tm)(au_temp_path up := map_option (write_at (?i * ?c) bs) (tm_disk tm (au_temp_path up)))\<rparr>"
    have put: "carries data up (?put bs)" if "length bs \<le> length c" for bs
    proof (rule carriesI [of _ _ _ row "write_at (?i * ?c) bs content"])
      have l: "length bs \<le> length (chunk_of data ?c ?i)" using that assms(3) by simp
      have fit: "?i * ?c + length bs \<le> length content"
        using l start c(6) by (simp add: chunk_of_length le_diff_conv2 add.commute)
      show "length (write_at (?i * ?c) bs content) = length data" using write_at_length [OF fit] c(6) by simp
      show "right_bits data ?c (write_at (?i * ?c) bs content) (au_bitmap up)"
        using c(7,6) start l i(2) by (rule right_bits_write)
    qed (use c in simp_all)
    let ?up = "up\<lparr>au_bitmap := (au_bitmap up)[?i := True], au_received := au_received up + 1, au_unsaved := au_unsaved up + 1\<rparr>"
    have stored: "carries data ?up (?put c)"
    proof (rule carriesI [of _ _ _ row "write_at (?i * ?c) c content"])
      have fit: "?i * ?c + length c \<le> length content"
        using start c(6) assms(3) by (simp add: chunk_of_length le_diff_conv2 add.commute)
      show "length (write_at (?i * ?c) c content) = length data" using write_at_length [OF fit] c(6) by simp
      have "right_bits data ?c (write_at (?i * ?c) c content) (au_bitmap up)"
        using right_bits_write [OF c(7,6) start _ i(2), of c] assms(3) by simp
      then show "right_bits data (unat (au_chunk_size ?up)) (write_at (?i * ?c) c content) (au_bitmap ?up)"
        using right_bits_set [OF _ c(6) start] assms(3) by simp
      have "count_ones (au_bitmap up) < unat (au_total_chunks up)"
        using count_ones_le [of "au_bitmap up"] count_ones_all [of "au_bitmap up"] len i(2) ni
        by (metis le_neq_implies_less nth_mem)
      then have "unat (au_received up + 1) = unat (au_received up) + 1"
        using rc unsigned_less [of "au_total_chunks up", where ?'a = nat] by (simp add: unat_word_ariths(1))
      then show "well_shaped ?up" using shape len rc count_ones_update [of ?i "au_bitmap up"] ni i(2) by (simp add: well_shaped_def)
      show "saved_bits ?up row" using c(8) by (auto simp: saved_bits_def row_bits_def nth_list_update len ni)
    qed (use c in \<open>simp_all add: describes_def\<close>)
    show ?thesis
    proof (cases "f_write fl")
      case True
      then have "up' = up" "tm' = ?put (take (length c) torn)"
        using assms(2) want i' i(2) by (auto simp: write_chunk_def Let_def)
      then show ?thesis using put [of "take (length c) torn"] by simp
    next
      case False
      have "(up' = ?up \<and> tm' = ?put c) \<or> (\<exists>r. save_bitmap fl clock ?up (?put c) = (r, up', tm'))"
        using assms(2) want i' i(2) False by (auto simp: write_chunk_def Let_def split: result.splits if_splits prod.splits)
      then show ?thesis
      proof
        assume "up' = ?up \<and> tm' = ?put c"
        then show ?thesis using stored by simp
      next
        assume "\<exists>r. save_bitmap fl clock ?up (?put c) = (r, up', tm')"
        then obtain r where "save_bitmap fl clock ?up (?put c) = (r, up', tm')" ..
        from save_keeps [OF stored this] show ?thesis by simp
      qed
    qed
  qed
qed

section \<open>Resuming keeps what was stored\<close>

lemma claim_into_frame:
  "claim_into available st account i dest name n tm = (r, tm') \<Longrightarrow> \<exists>live. tm' = tm\<lparr>tm_live := live\<rparr>"
  by (auto simp: claim_into_def Let_def split: prod.splits result.splits)

lemma resume_claim_frame:
  "resume_claim available st account i dest row n tm = (r, tm') \<Longrightarrow> \<exists>live. tm' = tm\<lparr>tm_live := live\<rparr>"
  by (auto simp: resume_claim_def claim_into_frame split: option.splits prod.splits result.splits dest: claim_into_frame)

lemma set_name_row:
  "transfer_row i (tm_rows tm) = Some row \<Longrightarrow>
    \<exists>row'. transfer_row i (tm_rows (set_rows (transfer_set_name fault i name (tm_rows tm)) tm)) = Some row' \<and> row' = row\<lparr>tr_name := tr_name row'\<rparr>"
  using transfer_row_change [of "\<lambda>r. r\<lparr>tr_name := name\<rparr>" i i "tm_rows tm"]
  by (cases fault) (auto simp: set_rows_def transfer_set_name_def change_row_def)

lemma touch_row:
  "transfer_row i (tm_rows tm) = Some row \<Longrightarrow>
    \<exists>row'. transfer_row i (tm_rows (set_rows (transfer_touch fault now i (tm_rows tm)) tm)) = Some row' \<and>
      row' = row\<lparr>tr_updated_at := tr_updated_at row'\<rparr>"
  using transfer_row_change [of "\<lambda>r. r\<lparr>tr_updated_at := now\<rparr>" i i "tm_rows tm"]
  by (cases fault) (auto simp: set_rows_def transfer_touch_def change_row_def)

lemma set_rows_frame [simp]:
  "tm_disk (set_rows r tm) = tm_disk tm" "tm_files_root (set_rows r tm) = tm_files_root tm"
  by (simp_all add: set_rows_def split: result.splits)

lemma transfer_row_id: "transfer_row i rows = Some row \<Longrightarrow> tr_id row = i"
  by (auto simp: transfer_row_def find_Some_iff)

lemma resume_upload_Ok:
  assumes "resume_upload fl clock available st s account i n chunk sha256 tm = (Ok (up, a), tm')"
  obtains row row' chunks where "transfer_row i (tm_rows tm) = Some row" and "tr_account_id row = account"
    and "word_of_int (tr_size row) = n" and "word_of_int (tr_chunk_size row) = (ucast chunk :: u64)" and "tr_sha256 row = sha256"
    and "check_upload_shape n chunk = Ok chunks" and "tm_disk tm' = tm_disk tm" and "tm_files_root tm' = tm_files_root tm"
    and "transfer_row i (tm_rows tm') = Some row'" and "tr_temp_path row' = tr_temp_path row" and "tr_size row' = tr_size row"
    and "tr_chunk_size row' = tr_chunk_size row" and "tr_sha256 row' = tr_sha256 row" and "tr_bitmap row' = tr_bitmap row"
    and "open_part fl (locate tm (tr_temp_path row)) n tm = Ok ()"
    and "au_id up = i" and "au_size up = n" and "au_chunk_size up = chunk" and "au_total_chunks up = chunks" and "au_sha256 up = sha256"
    and "au_bitmap up = resize_bits (unat chunks) (unpack_bits (tr_bitmap row))" and "au_received up = of_nat (count_ones (au_bitmap up))"
    and "au_temp_path up = locate tm (tr_temp_path row)" and "au_unsaved up = 0" and "ai_have_bitmap a = pack_bits (au_bitmap up)"
proof -
  obtain row where row: "transfer_get (f_get fl) i (tm_rows tm) = Ok (Some row)" and acc: "tr_account_id row = account"
      and m: "word_of_int (tr_size row) = n" "word_of_int (tr_chunk_size row) = (ucast chunk :: u64)" "tr_sha256 row = sha256"
    using assms by (auto simp: resume_upload_def split: result.splits option.splits if_splits)
  obtain chunks where shape: "check_upload_shape n chunk = Ok chunks"
    using assms row acc m by (auto simp: resume_upload_def split: result.splits)
  have r: "transfer_row i (tm_rows tm) = Some row"
    using row by (auto simp: transfer_get_def transfer_row_def split: if_splits)
  have ri: "tr_id row = i" using r by (rule transfer_row_id)
  obtain dest claim name live where
      eq: "resume_open fl clock i dest row n chunk sha256 chunks (resize_bits (unat chunks) (unpack_bits (tr_bitmap row))) claim name
        (tm\<lparr>tm_live := live\<rparr>) = (Ok (up, a), tm')"
    using assms row acc m shape
    by (auto simp: resume_upload_def Let_def split: result.splits prod.splits bool.splits dest!: resume_claim_frame)
  let ?tm = "tm\<lparr>tm_live := live\<rparr>"
  let ?tm1 = "if name \<noteq> tr_name row then set_rows (transfer_set_name (f_set_row fl) (tr_id row) name (tm_rows ?tm)) ?tm else ?tm"
  let ?tm2 = "set_rows (transfer_touch (f_set_row fl) (unix_secs clock) (tr_id row) (tm_rows ?tm1)) ?tm1"
  have loc: "locate ?tm1 p = locate tm p" for p by (simp add: locate_def)
  have op: "open_part fl p k ?tm1 = open_part fl p k tm" for p k by (simp add: open_part_def)
  obtain row1 where r1: "transfer_row i (tm_rows ?tm1) = Some row1" "row1 = row\<lparr>tr_name := tr_name row1\<rparr>"
  proof (cases "name = tr_name row")
    case True
    then show ?thesis using r that [of row] by simp
  next
    case False
    have "transfer_row i (tm_rows ?tm) = Some row" using r by simp
    from set_name_row [OF this, of "f_set_row fl" name] show ?thesis using False ri that by auto
  qed
  obtain row2 where r2: "transfer_row i (tm_rows ?tm2) = Some row2" "row2 = row1\<lparr>tr_updated_at := tr_updated_at row2\<rparr>"
    using touch_row [OF r1(1), of "f_set_row fl" "unix_secs clock"] ri by auto
  have fields: "tr_temp_path row2 = tr_temp_path row" "tr_size row2 = tr_size row" "tr_chunk_size row2 = tr_chunk_size row"
      "tr_sha256 row2 = tr_sha256 row" "tr_bitmap row2 = tr_bitmap row"
    by (subst r2(2), subst r1(2), simp)+
  have ok: "open_part fl (locate tm (tr_temp_path row)) n tm = Ok ()"
    using eq by (auto simp: resume_open_def Let_def loc op split: result.splits)
  then have res: "tm' = ?tm2" "up = \<lparr>au_id = i, au_account_id = tr_account_id row, au_parent_id = tr_parent_id row, au_name = name,
        au_blind = (case dest of Some d \<Rightarrow> ud_blind d | None \<Rightarrow> False), au_size = n, au_chunk_size = chunk,
        au_total_chunks = chunks, au_sha256 = sha256, au_bitmap = resize_bits (unat chunks) (unpack_bits (tr_bitmap row)),
        au_received = of_nat (count_ones (resize_bits (unat chunks) (unpack_bits (tr_bitmap row)))), au_unsaved = 0,
        au_last_save = instant clock, au_temp_path = locate tm (tr_temp_path row), au_claim = claim\<rparr>"
      "ai_have_bitmap a = pack_bits (resize_bits (unat chunks) (unpack_bits (tr_bitmap row)))"
    using eq by (auto simp: resume_open_def Let_def loc op accept_info_def)
  show thesis
  proof (rule that [OF r acc m shape _ _ _ fields ok])
    show "transfer_row i (tm_rows tm') = Some row2" using r2(1) res(1) by simp
    show "tm_disk tm' = tm_disk tm" "tm_files_root tm' = tm_files_root tm" by (simp_all add: res(1))
  qed (simp_all add: res)
qed

lemma resume_keeps:
  assumes "carries data up tm" and "resume_upload fl clock available st s account (au_id up) n chunk sha256 tm = (Ok (up', a), tm')"
  shows "carries data up' tm' \<and> au_id up' = au_id up \<and> au_sha256 up' = au_sha256 up"
  using assms(1)
proof (rule carriesE)
  fix row content
  assume c: "length data = unat (au_size up)" "well_shaped up" "transfer_row (au_id up) (tm_rows tm) = Some row"
    "describes row up" "tm_disk tm (au_temp_path up) = Some content" "length content = length data"
    "right_bits data (unat (au_chunk_size up)) content (au_bitmap up)"
    "saved_bits up row"
  from assms(2) show ?thesis
  proof (rule resume_upload_Ok)
    fix rowa row' chunks
    assume r: "transfer_row (au_id up) (tm_rows tm) = Some rowa" "word_of_int (tr_size rowa) = n"
      "word_of_int (tr_chunk_size rowa) = (ucast chunk :: u64)" "tr_sha256 rowa = sha256" "check_upload_shape n chunk = Ok chunks"
      "tm_disk tm' = tm_disk tm" "transfer_row (au_id up) (tm_rows tm') = Some row'" "tr_temp_path row' = tr_temp_path rowa"
      "tr_size row' = tr_size rowa" "tr_chunk_size row' = tr_chunk_size rowa" "tr_sha256 row' = tr_sha256 rowa"
      "tr_bitmap row' = tr_bitmap rowa"
      and u: "au_id up' = au_id up" "au_size up' = n" "au_chunk_size up' = chunk" "au_total_chunks up' = chunks" "au_sha256 up' = sha256"
      "au_bitmap up' = resize_bits (unat chunks) (unpack_bits (tr_bitmap rowa))" "au_received up' = of_nat (count_ones (au_bitmap up'))"
      "au_temp_path up' = locate tm (tr_temp_path rowa)"
    have eq: "rowa = row" using r(1) c(3) by simp
    have same: "n = au_size up" "sha256 = au_sha256 up" using r(2,4) c(4) by (simp_all add: describes_def eq)
    have "(ucast chunk :: u64) = ucast (au_chunk_size up)" using r(3) c(4) by (simp add: describes_def eq)
    then have "unat chunk = unat (au_chunk_size up)" by (metis unat_u64_u32)
    then have chunk: "chunk = au_chunk_size up" by (simp add: word_unat_eq_iff)
    have chunks: "chunks = au_total_chunks up" using r(5) c(2) by (simp add: well_shaped_def same chunk)
    have path: "au_temp_path up' = au_temp_path up"
      using u(8) c(4,5) by (simp add: eq describes_def locate_def locate_blob_def)
    have bits: "right_bits data (unat chunk) content (au_bitmap up')"
      using c(7,8) c(2) by (auto simp: right_bits_def saved_bits_def row_bits_def u(6) eq chunks chunk well_shaped_def)
    have "count_ones (au_bitmap up') \<le> unat chunks" using count_ones_le [of "au_bitmap up'"] by (simp add: u(6))
    then have "unat (au_received up') = count_ones (au_bitmap up')"
      using unsigned_less [of chunks, where ?'a = nat] by (simp add: u(7) unat_of_nat take_bit_nat_eq_self)
    then have "well_shaped up'" using r(5) by (simp add: well_shaped_def u(2-4) u(6))
    moreover have "saved_bits up' row'" by (simp add: saved_bits_def row_bits_def u(4,6) r(12))
    moreover have "describes row' up'" using r c(4) by (simp add: describes_def u(2,3,5) path eq)
    ultimately have "carries data up' tm'"
      using c(1,5,6) bits r(6,7) by (intro carriesI [of _ _ _ row' content]) (simp_all add: u(1-3) same path)
    then show ?thesis using u(1,5) same by simp
  qed
qed

section \<open>A fresh upload\<close>

lemma discard_root [simp]: "tm_files_root (discard fl i p tm) = tm_files_root tm"
  by (simp add: discard_def Let_def remove_quietly_def)

lemma room_loop_root [simp]: "tm_files_root (snd (room_loop parse_uuid fl k rows tm)) = tm_files_root tm"
  by (induction parse_uuid fl k rows tm rule: room_loop.induct)
    (auto simp: drop_live_def split: option.splits prod.splits)

lemma make_room_root: "make_room_for parse_uuid fl account tm = (r, tm') \<Longrightarrow> tm_files_root tm' = tm_files_root tm"
  by (auto simp: make_room_for_def Let_def split: result.splits prod.splits if_splits)
    (metis room_loop_root snd_conv)+

lemma unpack_zeros [simp]: "unpack_bits (replicate k 0) = replicate (8 * k) False"
proof (induction k)
  case (Suc k)
  have "bits8 0 = replicate 8 False" by (rule nth_equalityI) (simp_all add: bits8_def)
  then have "unpack_bits (replicate (Suc k) 0) = replicate 8 False @ replicate (8 * k) False"
    using Suc by (simp add: unpack_bits_def)
  also have "\<dots> = replicate (8 + 8 * k) False" by (rule replicate_add [symmetric])
  finally show ?case by simp
qed (simp add: unpack_bits_def)

lemma resize_zeros [simp]: "resize_bits n (replicate k False) = replicate n False"
  by (simp add: resize_bits_def min_def replicate_add [symmetric])

lemma find_last: "\<forall>x\<in>set xs. \<not> P x \<Longrightarrow> P y \<Longrightarrow> find P (xs @ [y]) = Some y"
  by (induction xs) auto

lemma fresh_upload_carries:
  assumes "fresh_upload parse_uuid fl clock available st s account path name n chunk sha256 i tm = (Ok (up, a), tm')"
    and "length data = unat n"
  shows "carries data up tm' \<and> au_id up = i \<and> au_sha256 up = sha256 \<and> au_temp_path up = part_path tm i"
proof -
  obtain chunks dest where shape: "check_upload_shape n chunk = Ok chunks"
      and dest: "prepare_upload st path name s = Ok dest"
    using assms(1) by (cases "check_upload_shape n chunk"; cases "prepare_upload st path name s") (auto simp: fresh_upload_def)
  obtain claim name' tm1 where c: "claim_into available st account i dest name n tm = (Ok (claim, name'), tm1)"
    using assms(1) shape dest by (auto simp: fresh_upload_def split: prod.splits result.splits)
  obtain tm2 where m: "make_room_for parse_uuid fl account tm1 = (Ok (), tm2)"
    using assms(1) shape dest c by (auto simp: fresh_upload_def split: prod.splits result.splits)
  have root: "tm_files_root tm2 = tm_files_root tm" using make_room_root [OF m] claim_into_frame [OF c] by auto
  define p where "p = part_path tm i"
  have p: "part_path tm2 i = p" by (simp add: p_def part_path_def root)
  define tm3 where "tm3 = tm2\<lparr>tm_disk := (tm_disk tm2)(p \<mapsto> replicate (unat n) 0)\<rparr>"
  have cp: "create_part fl p n tm2 = (Ok (), tm3)"
    using assms(1) shape dest c m p
    by (auto simp: fresh_upload_def Let_def create_part_def tm3_def split: if_splits)
  define row where "row = \<lparr>tr_id = i, tr_account_id = account, tr_parent_id = nd_id (ud_parent dest), tr_name = name',
     tr_size = sint n, tr_chunk_size = uint chunk, tr_sha256 = sha256,
     tr_bitmap = replicate ((unat chunks + 7) div 8) 0, tr_temp_path = p, tr_updated_at = unix_secs clock\<rparr>"
  obtain rows where rows: "transfer_create (f_create_row fl) row (tm_rows tm3) = Ok rows"
    using assms(1) shape dest c m p cp by (auto simp: fresh_upload_def Let_def row_def split: result.splits)
  have up: "up = \<lparr>au_id = i, au_account_id = account, au_parent_id = nd_id (ud_parent dest), au_name = name',
        au_blind = ud_blind dest, au_size = n, au_chunk_size = chunk, au_total_chunks = chunks,
        au_sha256 = sha256, au_bitmap = replicate (unat chunks) False, au_received = 0, au_unsaved = 0,
        au_last_save = instant clock, au_temp_path = p, au_claim = claim\<rparr>" "tm' = tm3\<lparr>tm_rows := rows\<rparr>"
    using assms(1) shape dest c m p cp rows by (auto simp: fresh_upload_def Let_def row_def)
  have "\<forall>r\<in>set (tm_rows tm3). tr_id r \<noteq> i" "rows = tm_rows tm3 @ [row]" "tr_id row = i"
    using rows by (auto simp: transfer_create_def row_def split: if_splits)
  then have "transfer_row i rows = Some row" using find_last [of "tm_rows tm3" "\<lambda>r. tr_id r = i" row] by (simp add: transfer_row_def)
  moreover have "word_of_int (uint chunk) = (ucast chunk :: u64)" by (simp only: ucast_eq)
  then have "describes row up" by (simp add: up(1) row_def describes_def)
  moreover have "well_shaped up" using shape by (simp add: up(1) well_shaped_def count_ones_def)
  moreover have "right_bits data (unat (au_chunk_size up)) (replicate (unat n) 0) (au_bitmap up)" by (simp add: up(1) right_bits_none)
  moreover have "saved_bits up row" by (simp add: saved_bits_def row_bits_def up(1) row_def)
  moreover have "tm_disk tm' (au_temp_path up) = Some (replicate (unat n) 0)" by (simp add: up tm3_def)
  ultimately have "carries data up tm'" using assms(2) by (intro carriesI) (simp_all add: up)
  then show ?thesis by (simp add: up p_def)
qed

section \<open>The data arrives\<close>

text \<open>An upload whose sender sends the chunks of \<open>data\<close>: in any order, repeatedly, with writes that fail
  and tear the chunk they write. It may be let go and resumed, and the server may crash and lose what it
  holds in memory. In between other things may happen to the manager, but not to this upload's row and
  partial file.\<close>

inductive sending :: "(bytes \<Rightarrow> bytes) \<Rightarrow> bytes \<Rightarrow> ActiveUpload \<Rightarrow> TransferManager \<Rightarrow> bool" for H data where
  begun: "fresh_upload parse_uuid fl clock available st s account path name n chunk (H data) i tm = (Ok (up, a), tm') \<Longrightarrow>
    length data = unat n \<Longrightarrow> sending H data up tm'"
| chunk: "sending H data up tm \<Longrightarrow> c = chunk_of data (unat (au_chunk_size up)) (unat i) \<Longrightarrow>
    write_chunk H fl torn clock i (H c) c up tm = (r, up', tm') \<Longrightarrow> sending H data up' tm'"
| released: "sending H data up tm \<Longrightarrow>
    resume_upload fl' clock' available st s account (au_id up) n chunk sha256 (release fl clock up tm) = (Ok (up', a), tm') \<Longrightarrow>
    sending H data up' tm'"
| crashed: "sending H data up tm \<Longrightarrow>
    resume_upload fl clock available st s account (au_id up) n chunk sha256 (tm\<lparr>tm_live := live\<rparr>) = (Ok (up', a), tm') \<Longrightarrow>
    sending H data up' tm'"
| others: "sending H data up tm \<Longrightarrow> transfer_row (au_id up) (tm_rows tm') = transfer_row (au_id up) (tm_rows tm) \<Longrightarrow>
    tm_disk tm' (au_temp_path up) = tm_disk tm (au_temp_path up) \<Longrightarrow> sending H data up tm'"

lemma sending_carries: "sending H data up tm \<Longrightarrow> carries data up tm \<and> au_sha256 up = H data"
proof (induction rule: sending.induct)
  case (begun parse_uuid fl clock available st s account path name n chunk i tm up a tm')
  then show ?case using fresh_upload_carries by blast
next
  case (chunk up tm c i fl torn clock r up' tm')
  then show ?case using write_chunk_keeps by metis
next
  case (released up tm fl' clock' available st s account n chunk sha256 fl clock up' a tm')
  then show ?case using resume_keeps [OF release_keeps] by metis
next
  case (crashed up tm fl clock available st s account n chunk sha256 live up' a tm')
  then show ?case using resume_keeps [of data up "tm\<lparr>tm_live := live\<rparr>"] by simp
next
  case (others up tm tm')
  then have c: "carries data up tm" "au_sha256 up = H data" by simp_all
  from c(1) have "carries data up tm'"
    by (elim carriesE, intro carriesI) (simp_all add: others.hyps)
  with c(2) show ?case by simp
qed

lemma complete_bits:
  assumes "carries data up tm" and "is_complete up"
  shows "tm_disk tm (au_temp_path up) = Some data"
  using assms(1)
proof (rule carriesE)
  fix row content
  assume c: "length data = unat (au_size up)" "well_shaped up" "tm_disk tm (au_temp_path up) = Some content"
    "length content = length data" "right_bits data (unat (au_chunk_size up)) content (au_bitmap up)"
  have shape: "check_upload_shape (au_size up) (au_chunk_size up) = Ok (au_total_chunks up)"
      "length (au_bitmap up) = unat (au_total_chunks up)" "unat (au_received up) = count_ones (au_bitmap up)"
    using c(2) by (simp_all add: well_shaped_def)
  have "count_ones (au_bitmap up) = length (au_bitmap up)" using assms(2) shape by (simp add: is_complete_def)
  then have bits: "\<forall>b\<in>set (au_bitmap up). b" by (simp add: count_ones_all)
  have pos: "0 < unat (au_chunk_size up)" using check_upload_shape_Ok [OF shape(1)] by (auto simp: MIN_CHUNK_def word_le_nat_alt)
  have "content = data"
  proof (rule all_chunks [OF c(4) pos])
    fix i assume "i * unat (au_chunk_size up) < length data"
    then have "i < unat (au_total_chunks up)"
      using check_upload_shape_Ok [OF shape(1)] chunk_start_iff [OF pos, of i "unat (au_size up)"] c(1) by simp
    then have i: "i < length (au_bitmap up)" using shape(2) by simp
    then have "au_bitmap up ! i" using bits nth_mem by blast
    with i c(5) show "chunk_of content (unat (au_chunk_size up)) i = chunk_of data (unat (au_chunk_size up)) i"
      by (simp add: right_bits_def)
  qed
  then show ?thesis using c(3) by simp
qed

lemma find_child_au [simp]:
  "file_upload fl fresh (au_unsaved_update f up) tm ft = file_upload fl fresh up tm ft"
  "file_upload fl fresh (au_last_save_update g up) tm ft = file_upload fl fresh up tm ft"
  "file_upload fl fresh up (tm_rows_update h tm) ft = file_upload fl fresh up tm ft"
  "file_upload fl fresh up (tm_disk_update d tm) ft = file_upload fl fresh up tm ft"
  by (simp_all add: file_upload_def blob_path_def cong: option.case_cong if_cong)

lemma drop_upload_disk [simp]: "tm_disk (drop_upload fl clock up tm) = tm_disk tm"
  by (auto simp: drop_upload_def drop_live_def save_bitmap_def split: result.splits)

lemma save_frame:
  assumes "save_bitmap fl clock up tm = (r, up', tm')"
  shows "tm_disk tm' = tm_disk tm" and "tm_files_root tm' = tm_files_root tm" and "tm_live tm' = tm_live tm"
    and "up' = up \<or> up' = up\<lparr>au_unsaved := 0, au_last_save := instant clock\<rparr>"
    and "\<exists>rows. tm' = tm\<lparr>tm_rows := rows\<rparr>"
  using assms by (auto simp: save_bitmap_def split: result.splits) (metis TransferManager.surjective TransferManager.update_convs(3))+

lemma finish_saves:
  obtains up1 tm1 where "finish H fl clock fresh up tm ft = finish_saved H fl clock fresh up1 tm1 ft"
    and "up1 = up \<or> up1 = up\<lparr>au_unsaved := 0, au_last_save := instant clock\<rparr>" and "\<exists>rows. tm1 = tm\<lparr>tm_rows := rows\<rparr>"
proof (cases "au_unsaved up > 0")
  case True
  obtain r up1 tm1 where s: "save_bitmap fl clock up tm = (r, up1, tm1)" by (metis prod_cases3)
  show thesis using that [of up1 tm1] save_frame(4,5) [OF s] True by (simp add: finish_def s)
next
  case False
  show thesis
  proof (rule that [of up tm])
    show "\<exists>rows. tm = tm\<lparr>tm_rows := rows\<rparr>" by (rule exI [of _ "tm_rows tm"]) simp
  qed (use False in \<open>simp_all add: finish_def\<close>)
qed

end
