(* ===== verification/Upload_Finish.thy ===== *)
theory Upload_Finish
  imports Upload_Data File_Safety
begin

text \<open>
  What finishing an upload achieves, and what is left when it fails.
\<close>

section \<open>The entry of an upload\<close>

lemma file_entry_node:
  assumes "file_entry fault fresh parent name bytelen sha256 stored rename ft = (Ok node, ft')"
  shows "nd_kind node = File" "nd_sha256 node = Some sha256" "nd_storage_path node = Some stored" "nd_size node = bytelen"
    "nd_parent_id node = Some parent" "get_node (ft_state ft') (nd_id node) = Some node" "rename = None \<Longrightarrow> nd_name node = name"
proof -
  obtain name' where name': "add_row fault (file_row fresh parent name' bytelen sha256 stored) ft = (Ok node, ft')"
      "rename = None \<Longrightarrow> name' = name"
    using assms by (cases rename) (auto simp: file_entry_def entry_name_def Let_def split: result.splits if_splits)
  obtain rows where n: "node_from_row (file_row fresh parent name' bytelen sha256 stored) = Ok node"
      and ft': "ft' = ft\<lparr>ft_rows := rows, ft_state := insert_in_memory node (ft_state ft)\<rparr>"
    using name'(1) by (auto simp: add_row_def or_tree_err_def Let_def dest!: files_insert_Ok split: result.splits prod.splits)
  from n show "nd_kind node = File" "nd_sha256 node = Some sha256" "nd_storage_path node = Some stored" "nd_size node = bytelen"
    and parent: "nd_parent_id node = Some parent" and "rename = None \<Longrightarrow> nd_name node = name"
    using name'(2) by (auto simp: node_from_row_def file_row_def kind_from_i64_def)
  show "get_node (ft_state ft') (nd_id node) = Some node" by (simp add: ft' insert_in_memory_maps [OF parent])
qed

lemma found_child: "find_child st p matches = Some n \<Longrightarrow> n \<in> set (child_nodes st p) \<and> matches n"
  by (auto simp: find_child_def find_Some_iff)

lemma file_upload_entry:
  assumes "file_upload fl fresh u tm ft = (Ok node, ft')"
  shows "nd_kind node = File \<and> nd_sha256 node = Some (au_sha256 u) \<and>
    (if find_child (ft_state ft) (au_parent_id u) (is_filed_upload (au_id u) (au_sha256 u)) = None
     then nd_storage_path node = Some (blob_path tm (au_id u)) \<and> nd_size node = au_size u \<and>
       nd_parent_id node = Some (au_parent_id u) \<and> (au_blind u \<or> nd_name node = au_name u) \<and>
       get_node (ft_state ft') (nd_id node) = Some node
     else node \<in> set (child_nodes (ft_state ft) (au_parent_id u)) \<and> ft' = ft \<and>
       (\<exists>stored. nd_storage_path node = Some stored \<and> path_file_name stored = Some (au_id u)))"
proof (cases "find_child (ft_state ft) (au_parent_id u) (is_filed_upload (au_id u) (au_sha256 u))")
  case None
  then obtain rename where "file_entry (f_add fl) fresh (au_parent_id u) (au_name u) (au_size u) (au_sha256 u)
      (blob_path tm (au_id u)) rename ft = (Ok node, ft')" and r: "\<not> au_blind u \<Longrightarrow> rename = None"
    using assms by (auto simp: file_upload_def add_file_def add_file_renaming_def Let_def split: if_splits)
  from file_entry_node [OF this(1)] r None show ?thesis by auto
next
  case (Some n)
  then have "n = node" "ft' = ft" using assms by (simp_all add: file_upload_def Let_def)
  with Some found_child [OF Some] show ?thesis by (auto simp: is_filed_upload_def split: option.splits)
qed

section \<open>Properties\<close>

text \<open>Property C34. The data arrives: an upload whose sender sends the chunks of its data, in any order
  and with any resends, through failed writes, releases and resumes, and crashes of the server, holds
  exactly the data once every chunk has arrived; if then the tree takes the entry and the file system
  the rename, finishing answers success, the blob is the data, and the entry is a file in the upload's folder,
  found in the tree under its id, with the data's size and hash and the path of that blob. An entry that an
  earlier attempt had filed is kept as it is, names a blob of the same file name and has the hash.\<close>

theorem upload_arrives:
  assumes "sending H data u tm" and "is_complete u"
    and "file_upload fl fresh u tm ft = (Ok node, ft')" and "\<not> f_hash fl" and "\<not> f_rename fl (au_temp_path u)"
  shows "\<exists>tm'. finish H fl clock fresh u tm ft = (Ok (), tm', ft') \<and> tm_disk tm' (blob_path tm (au_id u)) = Some data \<and>
    nd_kind node = File \<and> nd_sha256 node = Some (H data) \<and>
    (if find_child (ft_state ft) (au_parent_id u) (is_filed_upload (au_id u) (H data)) = None
     then nd_storage_path node = Some (blob_path tm (au_id u)) \<and> unat (nd_size node) = length data \<and>
       nd_parent_id node = Some (au_parent_id u) \<and> (au_blind u \<or> nd_name node = au_name u) \<and>
       get_node (ft_state ft') (nd_id node) = Some node
     else node \<in> set (child_nodes (ft_state ft) (au_parent_id u)) \<and> ft' = ft \<and>
       (\<exists>stored. nd_storage_path node = Some stored \<and> path_file_name stored = Some (au_id u)))"
proof -
  have c: "carries data u tm" "au_sha256 u = H data" using sending_carries [OF assms(1)] by simp_all
  have d: "tm_disk tm (au_temp_path u) = Some data" using complete_bits [OF c(1) assms(2)] .
  obtain up1 tm1 where s: "finish H fl clock fresh u tm ft = finish_saved H fl clock fresh up1 tm1 ft"
      and up1: "up1 = u \<or> up1 = u\<lparr>au_unsaved := 0, au_last_save := instant clock\<rparr>" and tm1: "\<exists>rows. tm1 = tm\<lparr>tm_rows := rows\<rparr>"
    by (rule finish_saves)
  have f: "file_upload fl fresh up1 tm1 ft = (Ok node, ft')" using up1 tm1 assms(3) by auto
  have same: "au_temp_path up1 = au_temp_path u" "au_sha256 up1 = H data" "au_id up1 = au_id u" using up1 c(2) by auto
  have disk: "tm_disk tm1 = tm_disk tm" and blob: "blob_path tm1 = blob_path tm" using tm1 by (auto simp: blob_path_def fun_eq_iff)
  have "length data = unat (au_size u)" using c(1) by (simp add: carries_def)
  with file_upload_entry [OF assms(3)] show ?thesis
    unfolding c(2) by (simp add: s finish_saved_def f assms(4,5) same disk d blob)
qed

section \<open>An example\<close>

text \<open>Three bytes uploaded into the root folder of a new server; the hash is the identity.\<close>

definition example_limits :: TransferLimits where
  "example_limits = \<lparr>max_uploads_per_account = 2, max_downloads_per_account = 4, max_concurrent_transfers = 8,
     max_open_uploads_per_account = 4, max_reserved_bytes = 4096, min_free_space = 0, stale_after = 60, bitmap_flush_chunks = 2,
     bitmap_flush_interval = 10, orphan_retention = None\<rparr>"

definition example_tm :: TransferManager where
  "example_tm = \<lparr>tm_files_root = ''/f'', tm_limits = example_limits, tm_rows = [], tm_disk = Map.empty, tm_live = Live_default\<rparr>"

definition example_clock :: Clock where
  "example_clock = \<lparr>unix_secs = 0, instant = 0\<rparr>"

definition example_up :: ActiveUpload where
  "example_up = \<lparr>au_id = ''u1'', au_account_id = ''acc'', au_parent_id = ROOT_ID, au_name = ''a.bin'', au_blind = False, au_size = 3,
     au_chunk_size = 4096, au_total_chunks = 1, au_sha256 = [1, 2, 3], au_bitmap = [False], au_received = 0, au_unsaved = 0,
     au_last_save = 0, au_temp_path = ''/f/u1.part'', au_claim = UploadClaim ''acc'' ''u1'' (Some (ROOT_ID, ''a.bin'')) 3\<rparr>"

definition example_full :: ActiveUpload where
  "example_full = example_up\<lparr>au_bitmap := [True], au_received := 1, au_unsaved := 1\<rparr>"

definition example_begin :: "(ActiveUpload \<times> AcceptInfo, TransferError) result \<times> TransferManager" where
  "example_begin = fresh_upload Some no_faults example_clock None (ft_state example_new) example_admin ''acc'' ''/'' ''a.bin'' 3 4096
     [1, 2, 3] ''u1'' example_tm"

definition example_write :: "(bool, TransferError) result \<times> ActiveUpload \<times> TransferManager" where
  "example_write = write_chunk (\<lambda>x. x) no_faults [] example_clock 0 [1, 2, 3] [1, 2, 3] example_up (snd example_begin)"

lemma example_runs:
  "fst example_begin = Ok (example_up, accept_info example_up [])" "fst (snd example_write) = example_full"
  "tm_files_root (snd (snd example_write)) = tm_files_root example_tm"
  "is_ok (fst (file_upload no_faults ''n1'' example_full example_tm example_new))"
  by code_simp+

lemma file_upload_root:
  "\<not> au_blind u \<Longrightarrow> tm_files_root tm = tm_files_root tm' \<Longrightarrow> file_upload fl fresh u tm ft = file_upload fl fresh u tm' ft"
  by (simp add: file_upload_def blob_path_def cong: option.case_cong if_cong)

lemma example_filed:
  obtains node ft' where "file_upload no_faults ''n1'' example_full (snd (snd example_write)) example_new = (Ok node, ft')"
proof -
  have "file_upload no_faults ''n1'' example_full (snd (snd example_write)) example_new =
      file_upload no_faults ''n1'' example_full example_tm example_new"
    by (rule file_upload_root) (simp_all only: example_runs, simp add: example_full_def example_up_def)
  moreover obtain r ft' where "file_upload no_faults ''n1'' example_full example_tm example_new = (r, ft')" by fastforce
  ultimately show thesis using that example_runs(4) by (cases r) auto
qed

lemma example_sending: "sending (\<lambda>x. x) [1, 2, 3] example_full (snd (snd example_write))"
proof -
  have "sending (\<lambda>x. x) [1, 2, 3] example_up (snd example_begin)"
    by (rule sending.begun [of Some no_faults example_clock None "ft_state example_new" example_admin "''acc''" "''/''" "''a.bin''" 3 4096
      "\<lambda>x. x" _ "''u1''" example_tm]) (simp_all add: example_begin_def [symmetric] prod_eq_iff example_runs)
  then show ?thesis
  proof (rule sending.chunk)
    show "[1, 2, 3] = chunk_of [1, 2, 3] (unat (au_chunk_size example_up)) (unat 0)" by (simp add: chunk_of_def example_up_def)
    show "write_chunk (\<lambda>x. x) no_faults [] example_clock 0 [1, 2, 3] [1, 2, 3] example_up (snd example_begin) =
        (fst example_write, example_full, snd (snd example_write))"
      unfolding example_write_def [symmetric] by (simp add: prod_eq_iff example_runs)
  qed
qed

lemma example_unfiled: "find_child (ft_state example_new) ROOT_ID (is_filed_upload ''u1'' [1, 2, 3]) = None"
  by code_simp

theorem upload_arrives_witness:
  "\<exists>tm' ft' node. finish (\<lambda>x. x) no_faults example_clock ''n1'' example_full (snd (snd example_write)) example_new = (Ok (), tm', ft') \<and>
     get_node (ft_state ft') (nd_id node) = Some node \<and> nd_name node = ''a.bin'' \<and>
     (\<exists>stored. nd_storage_path node = Some stored \<and> tm_disk tm' stored = Some [1, 2, 3])"
proof -
  obtain node ft' where f: "file_upload no_faults ''n1'' example_full (snd (snd example_write)) example_new = (Ok node, ft')"
    by (rule example_filed)
  have u: "is_complete example_full" "au_id example_full = ''u1''" "au_parent_id example_full = ROOT_ID" "\<not> au_blind example_full"
      "au_name example_full = ''a.bin''"
    by (simp_all add: is_complete_def example_full_def example_up_def)
  from upload_arrives [OF example_sending u(1) f] obtain tm' where
      "finish (\<lambda>x. x) no_faults example_clock ''n1'' example_full (snd (snd example_write)) example_new = (Ok (), tm', ft')"
      "tm_disk tm' (blob_path (snd (snd example_write)) ''u1'') = Some [1, 2, 3]"
      "nd_storage_path node = Some (blob_path (snd (snd example_write)) ''u1'')" "nd_name node = ''a.bin''"
      "get_node (ft_state ft') (nd_id node) = Some node"
    by (auto simp: no_faults_def u example_unfiled)
  then show ?thesis by blast
qed

end
