(* ===== verification/Transfer_Sweep.thy ===== *)
theory Transfer_Sweep
  imports Upload
begin

text \<open>
  The housekeeping of \<open>transfer/manager.rs\<close>: the repair of finishes a crash interrupted, the sweeper of
  abandoned uploads and partial files, and the quarantine of blobs nothing names. Reading a directory
  gives a list of names, an argument; so is what the operating system resolves a path to.
\<close>

section \<open>Names in the directory\<close>

definition strip_part :: "string \<Rightarrow> string option" where
  "strip_part name = (if suffix ''.part'' name then Some (take (length name - 5) name) else None)"

definition part_id :: "(string \<Rightarrow> string option) \<Rightarrow> string \<Rightarrow> string option" where
  "part_id parse_uuid name = Option.bind (strip_part name) parse_uuid"

definition blob_id :: "(string \<Rightarrow> string option) \<Rightarrow> string \<Rightarrow> string option" where
  "blob_id parse_uuid name = (case parse_uuid name of Some i \<Rightarrow> if i = name then Some i else None | None \<Rightarrow> None)"

definition digits_value :: "string \<Rightarrow> nat" where
  "digits_value s = foldl (\<lambda>n c. 10 * n + (of_char c - 48)) 0 s"

text \<open>\<open>rsplit_once('.')\<close>, then a number that fits \<open>u64\<close>.\<close>

definition quarantined_at :: "(string \<Rightarrow> string option) \<Rightarrow> string \<Rightarrow> nat option" where
  "quarantined_at parse_uuid name =
     (case rfind ''.'' name of
        None \<Rightarrow> None
      | Some k \<Rightarrow>
          let stamp = drop (k + 1) name in
          if blob_id parse_uuid (take k name) = None then None
          else if stamp = [] \<or> \<not> list_all (\<lambda>c. CHR ''0'' \<le> c \<and> c \<le> CHR ''9'') stamp then None
          else if digits_value stamp < 2 ^ 64 then Some (digits_value stamp) else None)"

definition rename_file :: "Faults \<Rightarrow> string \<Rightarrow> string \<Rightarrow> TransferManager \<Rightarrow> bool \<times> TransferManager" where
  "rename_file fl from to tm =
     (if f_rename fl from \<or> tm_disk tm from = None then (False, tm)
      else (True, tm\<lparr>tm_disk := (tm_disk tm)(from := None, to := tm_disk tm from)\<rparr>))"

section \<open>Finishes a crash interrupted\<close>

text \<open>Blob name to stored path, of the file entries; a later row of the table overwrites an earlier one.\<close>

definition filed_entry :: "FileNodeRow \<Rightarrow> (string \<times> string) option" where
  "filed_entry row =
     (if fr_kind row = kind_as_u8 File then
        Option.bind (fr_storage_path row) (\<lambda>stored. map_option (\<lambda>blob. (blob, stored)) (path_file_name stored))
      else None)"

definition filed_paths :: "file_rows \<Rightarrow> (string \<times> string) list" where
  "filed_paths rows = rev (List.map_filter filed_entry rows)"

definition move_into_place :: "Faults \<Rightarrow> string \<Rightarrow> string \<Rightarrow> TransferManager \<Rightarrow> bool \<times> TransferManager" where
  "move_into_place fl part stored tm =
     (let blob = locate tm stored in
      if tm_disk tm blob \<noteq> None then (True, tm)
      else if tm_disk tm part = None then (False, tm)
      else rename_file fl part blob tm)"

definition recover_row ::
  "Faults \<Rightarrow> (string \<times> string) list \<Rightarrow> string \<Rightarrow> string \<Rightarrow> string \<Rightarrow> TransferManager \<Rightarrow> TransferManager" where
  "recover_row fl filed i row_id temp_path tm =
     (let part = locate tm temp_path in
      case map_of filed row_id of
        Some stored \<Rightarrow>
          (case move_into_place fl part stored tm of
             (True, tm) \<Rightarrow> set_rows (transfer_delete (f_delete_row fl row_id) row_id (tm_rows tm)) tm
           | (False, tm) \<Rightarrow> tm)
      | None \<Rightarrow>
          let blob = blob_path tm i in
          if tm_disk tm part = None \<and> tm_disk tm blob \<noteq> None then snd (rename_file fl blob part tm) else tm)"

fun recover_rows ::
  "(string \<Rightarrow> string option) \<Rightarrow> Faults \<Rightarrow> (string \<times> string) list \<Rightarrow> (string \<times> string) list \<Rightarrow> TransferManager \<Rightarrow> TransferManager" where
  "recover_rows parse_uuid fl filed [] tm = tm"
| "recover_rows parse_uuid fl filed ((row_id, temp_path) # rows) tm =
     recover_rows parse_uuid fl filed rows
       (case parse_uuid row_id of None \<Rightarrow> tm | Some i \<Rightarrow> recover_row fl filed i row_id temp_path tm)"

fun recover_parts ::
  "(string \<Rightarrow> string option) \<Rightarrow> Faults \<Rightarrow> (string \<times> string) list \<Rightarrow> string list \<Rightarrow> string list \<Rightarrow> TransferManager \<Rightarrow> TransferManager" where
  "recover_parts parse_uuid fl filed with_rows [] tm = tm"
| "recover_parts parse_uuid fl filed with_rows (name # names) tm =
     recover_parts parse_uuid fl filed with_rows names
       (case part_id parse_uuid name of
          None \<Rightarrow> tm
        | Some i \<Rightarrow>
            if i \<in> set with_rows then tm
            else case map_of filed i of
              None \<Rightarrow> tm
            | Some stored \<Rightarrow> snd (move_into_place fl (path_join (tm_files_root tm) name) stored tm))"

text \<open>\<open>listing\<close>: what reading the directory gives after the rows are done.\<close>

definition recover_interrupted_finishes ::
  "(string \<Rightarrow> string option) \<Rightarrow> Faults \<Rightarrow> int \<Rightarrow> file_rows \<Rightarrow> (TransferManager \<Rightarrow> string list) \<Rightarrow> TransferManager \<Rightarrow> TransferManager" where
  "recover_interrupted_finishes parse_uuid fl now file_rows listing tm =
     (if f_list fl then tm
      else
        let filed = filed_paths file_rows in
        case transfer_list_stale (f_list fl) now 0 (tm_rows tm) of
          Ok rows \<Rightarrow>
            let tm = recover_rows parse_uuid fl filed rows tm
            in recover_parts parse_uuid fl filed (List.map_filter parse_uuid (map fst rows)) (listing tm) tm
        | _ \<Rightarrow> tm)"

section \<open>The sweeper\<close>

fun sweep_rows ::
  "(string \<Rightarrow> string option) \<Rightarrow> Faults \<Rightarrow> (string \<times> string) list \<Rightarrow> nat \<Rightarrow> TransferManager \<Rightarrow> nat \<times> TransferManager" where
  "sweep_rows parse_uuid fl [] removed tm = (removed, tm)"
| "sweep_rows parse_uuid fl ((row_id, temp_path) # rows) removed tm =
     (case parse_uuid row_id of
        None \<Rightarrow> sweep_rows parse_uuid fl rows (removed + 1) (discard fl row_id temp_path tm)
      | Some i \<Rightarrow>
          (case hold i (tm_live tm) of
             (None, _) \<Rightarrow> sweep_rows parse_uuid fl rows removed tm
           | (Some claim, live) \<Rightarrow>
               sweep_rows parse_uuid fl rows (removed + 1)
                 (drop_live claim (discard fl row_id temp_path (tm\<lparr>tm_live := live\<rparr>)))))"

fun sweep_orphan_parts ::
  "(string \<Rightarrow> string option) \<Rightarrow> Faults \<Rightarrow> string list \<Rightarrow> nat \<Rightarrow> TransferManager \<Rightarrow> nat \<times> TransferManager" where
  "sweep_orphan_parts parse_uuid fl [] removed tm = (removed, tm)"
| "sweep_orphan_parts parse_uuid fl (name # names) removed tm =
     (case part_id parse_uuid name of
        None \<Rightarrow> sweep_orphan_parts parse_uuid fl names removed tm
      | Some i \<Rightarrow>
          if i \<in> held (tm_live tm) then sweep_orphan_parts parse_uuid fl names removed tm
          else case transfer_get (f_get fl) i (tm_rows tm) of
            Ok None \<Rightarrow>
              let path = path_join (tm_files_root tm) name in
              if f_unlink fl path \<or> tm_disk tm path = None then sweep_orphan_parts parse_uuid fl names removed tm
              else sweep_orphan_parts parse_uuid fl names (removed + 1) (remove_quietly fl path tm)
          | Ok (Some _) \<Rightarrow> sweep_orphan_parts parse_uuid fl names removed tm
          | _ \<Rightarrow> (removed, tm))"

definition sweep ::
  "(string \<Rightarrow> string option) \<Rightarrow> Faults \<Rightarrow> int \<Rightarrow> nat \<Rightarrow> (TransferManager \<Rightarrow> string list) \<Rightarrow> TransferManager \<Rightarrow> nat \<times> TransferManager" where
  "sweep parse_uuid fl now older_than listing tm =
     (let (removed, tm) =
        (case transfer_list_stale (f_list fl) now older_than (tm_rows tm) of
           Ok rows \<Rightarrow> sweep_rows parse_uuid fl rows 0 tm
         | _ \<Rightarrow> (0, tm))
      in sweep_orphan_parts parse_uuid fl (listing tm) removed tm)"

section \<open>Blobs nothing names\<close>

definition QUARANTINE_DIR :: string where "QUARANTINE_DIR = ''.orphaned''"

definition quarantine_path :: "TransferManager \<Rightarrow> string \<Rightarrow> string" where
  "quarantine_path tm name = path_join (path_join (tm_files_root tm) QUARANTINE_DIR) name"

text \<open>\<open>Path::parent\<close> is the directory \<open>dir\<close>.\<close>

definition lies_in :: "string \<Rightarrow> string \<Rightarrow> bool" where
  "lies_in dir path \<longleftrightarrow> (case path_file_name path of Some name \<Rightarrow> path = path_join dir name | None \<Rightarrow> False)"

definition referenced_blobs :: "(string \<Rightarrow> string option) \<Rightarrow> TransferManager \<Rightarrow> file_rows \<Rightarrow> string list" where
  "referenced_blobs canonicalize tm rows =
     concat (map (\<lambda>stored.
       (case path_file_name stored of Some name \<Rightarrow> [name] | None \<Rightarrow> []) @
       (if lies_in (tm_files_root tm) stored then []
        else case canonicalize stored of
          Some real \<Rightarrow>
            if lies_in (tm_files_root tm) real then (case path_file_name real of Some name \<Rightarrow> [name] | None \<Rightarrow> []) else []
        | None \<Rightarrow> []))
       (List.map_filter fr_storage_path rows))"

fun hold_each :: "string list \<Rightarrow> Live \<Rightarrow> string list \<times> ClaimKind list \<times> Live" where
  "hold_each [] live = ([], [], live)"
| "hold_each (i # ids) live =
     (case hold i live of
        (None, _) \<Rightarrow> hold_each ids live
      | (Some claim, live) \<Rightarrow> (case hold_each ids live of (kept, claims, live) \<Rightarrow> (i # kept, claim # claims, live)))"

fun quarantine_each :: "Faults \<Rightarrow> nat \<Rightarrow> string list \<Rightarrow> TransferManager \<Rightarrow> nat \<times> TransferManager" where
  "quarantine_each fl now [] tm = (0, tm)"
| "quarantine_each fl now (name # names) tm =
     (let from = blob_path tm name; to = quarantine_path tm (name @ ''.'' @ show_nat now) in
      if tm_disk tm from = None \<or> tm_disk tm to \<noteq> None then quarantine_each fl now names tm
      else case rename_file fl from to tm of
        (True, tm) \<Rightarrow> (case quarantine_each fl now names tm of (moved, tm) \<Rightarrow> (moved + 1, tm))
      | (False, tm) \<Rightarrow> quarantine_each fl now names tm)"

definition drop_each :: "ClaimKind list \<Rightarrow> TransferManager \<Rightarrow> TransferManager" where
  "drop_each claims tm = fold drop_live claims tm"

text \<open>\<open>quarantine\<close>: the quarantine directory is there or can be made.\<close>

definition quarantine_orphan_blobs ::
  "(string \<Rightarrow> string option) \<Rightarrow> (string \<Rightarrow> string option) \<Rightarrow> Faults \<Rightarrow> bool \<Rightarrow> nat \<Rightarrow> file_rows \<Rightarrow> string list \<Rightarrow> TransferManager \<Rightarrow>
   nat \<times> TransferManager" where
  "quarantine_orphan_blobs parse_uuid canonicalize fl quarantine now file_rows listing tm =
     (case hold_each (List.map_filter (blob_id parse_uuid) listing) (tm_live tm) of
        (candidates, claims, live) \<Rightarrow>
          let tm = tm\<lparr>tm_live := live\<rparr> in
          if f_list fl then (0, drop_each claims tm)
          else
            let referenced = referenced_blobs canonicalize tm file_rows;
                unfinished = map tr_id (tm_rows tm);
                orphans = filter (\<lambda>name. name \<notin> set referenced \<and> name \<notin> set unfinished) candidates
            in if orphans = [] \<or> \<not> quarantine then (0, drop_each claims tm)
               else case quarantine_each fl now orphans tm of (moved, tm) \<Rightarrow> (moved, drop_each claims tm))"

fun purge_quarantine ::
  "(string \<Rightarrow> string option) \<Rightarrow> Faults \<Rightarrow> nat \<Rightarrow> nat \<Rightarrow> string list \<Rightarrow> TransferManager \<Rightarrow> nat \<times> TransferManager" where
  "purge_quarantine parse_uuid fl now retention [] tm = (0, tm)"
| "purge_quarantine parse_uuid fl now retention (name # names) tm =
     (let path = quarantine_path tm name in
      case quarantined_at parse_uuid name of
        None \<Rightarrow> purge_quarantine parse_uuid fl now retention names tm
      | Some stamp \<Rightarrow>
          if now - stamp < retention \<or> tm_disk tm path = None \<or> f_unlink fl path
          then purge_quarantine parse_uuid fl now retention names tm
          else case purge_quarantine parse_uuid fl now retention names (remove_quietly fl path tm) of
            (purged, tm) \<Rightarrow> (purged + 1, tm))"

definition sweep_orphan_blobs ::
  "(string \<Rightarrow> string option) \<Rightarrow> (string \<Rightarrow> string option) \<Rightarrow> Faults \<Rightarrow> bool \<Rightarrow> nat \<Rightarrow> file_rows \<Rightarrow> string list \<Rightarrow> string list \<Rightarrow>
   TransferManager \<Rightarrow> (nat \<times> nat) \<times> TransferManager" where
  "sweep_orphan_blobs parse_uuid canonicalize fl quarantine now file_rows listing quarantined tm =
     (case quarantine_orphan_blobs parse_uuid canonicalize fl quarantine now file_rows listing tm of
        (moved, tm) \<Rightarrow>
          (case orphan_retention (tm_limits tm) of
             None \<Rightarrow> ((moved, 0), tm)
           | Some retention \<Rightarrow>
               (case purge_quarantine parse_uuid fl now retention quarantined tm of (purged, tm) \<Rightarrow> ((moved, purged), tm))))"

end
