(* ===== verification/Transfer_Recovery.thy ===== *)
theory Transfer_Recovery
  imports Transfer_Sweep Upload_Finish
begin

text \<open>
  What the repair at startup and the sweeper do to the bytes: per upload, the repair is a function of
  its partial file, its blob and its row, and a finish cut off at any point loses nothing.
\<close>

section \<open>Paths of the directory\<close>

definition plain_name :: "string \<Rightarrow> bool" where
  "plain_name n \<longleftrightarrow> CHR ''/'' \<notin> set n \<and> n \<noteq> [] \<and> n \<noteq> ''.'' \<and> n \<noteq> ''..''"

text \<open>What is used of the crate \<open>uuid\<close>: identifiers print in a form that parses back to them and is a
  plain file name without an extension.\<close>

definition uuid_laws :: "(string \<Rightarrow> string option) \<Rightarrow> bool" where
  "uuid_laws parse_uuid \<longleftrightarrow>
     (\<forall>s i. parse_uuid s = Some i \<longrightarrow> parse_uuid i = Some i \<and> plain_name i \<and> \<not> suffix ''.part'' i \<and> length i \<ge> 2)"

lemma split_on_snoc: "d \<notin> set n \<Longrightarrow> \<exists>ps. split_on d (s @ d # n) = ps @ [n]"
proof (induction s)
  case (Cons c s)
  then obtain ps where ps: "split_on d (s @ d # n) = ps @ [n]" by blast
  show ?case
  proof (cases "c = d")
    case False
    show ?thesis
    proof (cases ps)
      case Nil
      have "length (split_on d (s @ d # n)) \<ge> 2"
        using split_on_not_Nil [of d n] by (induction s) (auto simp: Suc_le_eq split: list.splits)
      then show ?thesis using ps Nil by simp
    qed (use ps False in simp)
  qed (use ps in simp)
qed (simp add: split_on_last)

lemma file_name_join: "plain_name n \<Longrightarrow> path_file_name (path_join dir n) = Some n"
  using split_on_snoc [of "CHR ''/''" n dir] by (auto simp: path_file_name_def path_join_def plain_name_def Let_def)

lemma path_join_eq [simp]: "path_join dir a = path_join dir b \<longleftrightarrow> a = b"
  by (simp add: path_join_def)

lemma plain_part: "plain_name i \<Longrightarrow> length i \<ge> 2 \<Longrightarrow> plain_name (i @ ''.part'')"
  by (auto simp: plain_name_def)

lemma locate_join: "plain_name n \<Longrightarrow> locate tm (path_join (tm_files_root tm) n) = path_join (tm_files_root tm) n"
  by (simp add: locate_def locate_blob_def file_name_join)

section \<open>The view of one upload\<close>

definition is_filed :: "TransferManager \<Rightarrow> file_rows \<Rightarrow> string \<Rightarrow> bool" where
  "is_filed tm file_rows i \<longleftrightarrow> (\<exists>row\<in>set file_rows. fr_kind row = kind_as_u8 File \<and> fr_storage_path row = Some (blob_path tm i))"

definition laid_out :: "(string \<Rightarrow> string option) \<Rightarrow> TransferManager \<Rightarrow> file_rows \<Rightarrow> bool" where
  "laid_out parse_uuid tm file_rows \<longleftrightarrow>
     (\<forall>r\<in>set (tm_rows tm). parse_uuid (tr_id r) = Some (tr_id r) \<and> tr_temp_path r = part_path tm (tr_id r)) \<and>
     distinct (map tr_id (tm_rows tm)) \<and>
     (\<forall>row\<in>set file_rows. fr_kind row = kind_as_u8 File \<longrightarrow>
        (\<exists>i. parse_uuid i = Some i \<and> fr_storage_path row = Some (blob_path tm i)))"

type_synonym view = "bytes option \<times> bytes option \<times> TransferRow option"

definition view_of :: "TransferManager \<Rightarrow> string \<Rightarrow> view" where
  "view_of tm i = (tm_disk tm (part_path tm i), tm_disk tm (blob_path tm i), transfer_row i (tm_rows tm))"

definition repaired_row :: "bool \<Rightarrow> view \<Rightarrow> view" where
  "repaired_row filed v =
     (case v of (part, blob, row) \<Rightarrow>
        if filed then (if blob \<noteq> None then (part, blob, None) else if part \<noteq> None then (None, part, None) else v)
        else if part = None \<and> blob \<noteq> None then (blob, None, row) else v)"

definition repaired_part :: "bool \<Rightarrow> view \<Rightarrow> view" where
  "repaired_part filed v =
     (case v of (part, blob, row) \<Rightarrow> if filed \<and> blob = None \<and> part \<noteq> None then (None, part, row) else v)"

lemma paths_differ:
  assumes "uuid_laws parse_uuid" and "parse_uuid i = Some i" and "parse_uuid j = Some j"
  shows "part_path tm i \<noteq> blob_path tm j" and "part_path tm i = part_path tm j \<longleftrightarrow> i = j" and "blob_path tm i = blob_path tm j \<longleftrightarrow> i = j"
proof -
  have "\<not> suffix ''.part'' j" using assms by (auto simp: uuid_laws_def)
  then show "part_path tm i \<noteq> blob_path tm j" by (auto simp: part_path_def blob_path_def suffix_def)
qed (simp_all add: part_path_def blob_path_def)

lemma located:
  assumes "uuid_laws parse_uuid" and "parse_uuid i = Some i"
  shows "locate tm (part_path tm i) = part_path tm i" and "locate tm (blob_path tm i) = blob_path tm i"
proof -
  have "plain_name i" "length i \<ge> 2" using assms by (auto simp: uuid_laws_def)
  then show "locate tm (part_path tm i) = part_path tm i" "locate tm (blob_path tm i) = blob_path tm i"
    by (simp_all add: part_path_def blob_path_def locate_join plain_part)
qed

lemma filed_paths_map:
  assumes u: "uuid_laws parse_uuid" and l: "laid_out parse_uuid tm file_rows"
  shows "map_of (filed_paths file_rows) i = (if is_filed tm file_rows i \<and> parse_uuid i = Some i then Some (blob_path tm i) else None)"
proof -
  have entry: "filed_entry row = (if fr_kind row = kind_as_u8 File then
      map_option (\<lambda>stored. (the (path_file_name stored), stored)) (fr_storage_path row) else None) \<and>
      (fr_kind row = kind_as_u8 File \<longrightarrow> (\<exists>j. parse_uuid j = Some j \<and> filed_entry row = Some (j, blob_path tm j) \<and> fr_storage_path row = Some (blob_path tm j)))"
    if row: "row \<in> set file_rows" for row
  proof (cases "fr_kind row = kind_as_u8 File")
    case True
    then obtain j where j: "parse_uuid j = Some j" "fr_storage_path row = Some (blob_path tm j)"
      using l row by (auto simp: laid_out_def)
    have "plain_name j" using u j(1) by (auto simp: uuid_laws_def)
    then have "path_file_name (blob_path tm j) = Some j" by (simp add: blob_path_def file_name_join)
    then show ?thesis using True j by (simp add: filed_entry_def)
  qed (simp add: filed_entry_def)
  have mem: "(a, b) \<in> set (filed_paths file_rows) \<longleftrightarrow> b = blob_path tm a \<and> parse_uuid a = Some a \<and> is_filed tm file_rows a" for a b
  proof
    assume "(a, b) \<in> set (filed_paths file_rows)"
    then obtain row where row: "row \<in> set file_rows" "filed_entry row = Some (a, b)"
      by (auto simp: filed_paths_def map_filter_def)
    then have kind: "fr_kind row = kind_as_u8 File" by (auto simp: filed_entry_def split: if_splits)
    with entry [OF row(1)] row(2) have "b = blob_path tm a" "parse_uuid a = Some a" "fr_storage_path row = Some (blob_path tm a)" by auto
    with row kind show "b = blob_path tm a \<and> parse_uuid a = Some a \<and> is_filed tm file_rows a" by (auto simp: is_filed_def)
  next
    assume a: "b = blob_path tm a \<and> parse_uuid a = Some a \<and> is_filed tm file_rows a"
    then obtain row where row: "row \<in> set file_rows" "fr_kind row = kind_as_u8 File" "fr_storage_path row = Some (blob_path tm a)"
      by (auto simp: is_filed_def)
    with entry [OF row(1)] obtain j where "filed_entry row = Some (j, blob_path tm j)" "fr_storage_path row = Some (blob_path tm j)" by blast
    with row(3) have "filed_entry row = Some (a, b)" using a by (simp add: blob_path_def)
    with row(1) show "(a, b) \<in> set (filed_paths file_rows)" by (force simp: filed_paths_def map_filter_def)
  qed
  show ?thesis
  proof (cases "map_of (filed_paths file_rows) i")
    case None
    then show ?thesis using mem [of i "blob_path tm i"] by (auto simp: map_of_eq_None_iff image_iff)
  next
    case (Some b)
    from map_of_SomeD [OF this] show ?thesis using Some mem by simp
  qed
qed

section \<open>The repair, upload by upload\<close>

lemma no_faults_simps [simp]:
  "f_list no_faults = False" "f_get no_faults = False" "f_delete_row no_faults i = False" "f_rename no_faults p = False"
  by (simp_all add: no_faults_def)

lemma delete_transfer_row:
  "transfer_row i (filter (\<lambda>r. tr_id r \<noteq> j) rows) = (if i = j then None else transfer_row i rows)"
  by (induction rows) (auto simp: transfer_row_def)

lemma move_root [simp]:
  "tm_files_root (snd (rename_file fl from to tm)) = tm_files_root tm" "tm_rows (snd (rename_file fl from to tm)) = tm_rows tm"
  "tm_files_root (snd (move_into_place fl part stored tm)) = tm_files_root tm"
  "tm_rows (snd (move_into_place fl part stored tm)) = tm_rows tm"
  by (simp_all add: rename_file_def move_into_place_def Let_def)

lemma root_paths:
  "tm_files_root tm' = tm_files_root tm \<Longrightarrow> part_path tm' i = part_path tm i"
  "tm_files_root tm' = tm_files_root tm \<Longrightarrow> blob_path tm' i = blob_path tm i"
  "tm_files_root tm' = tm_files_root tm \<Longrightarrow> is_filed tm' fr i = is_filed tm fr i"
  by (simp_all add: part_path_def blob_path_def is_filed_def)

lemma path_updates [simp]:
  "part_path (tm\<lparr>tm_rows := rows\<rparr>) i = part_path tm i" "blob_path (tm\<lparr>tm_rows := rows\<rparr>) i = blob_path tm i"
  "part_path (tm\<lparr>tm_disk := d\<rparr>) i = part_path tm i" "blob_path (tm\<lparr>tm_disk := d\<rparr>) i = blob_path tm i"
  by (simp_all add: part_path_def blob_path_def)

lemma view_disk:
  "view_of (tm\<lparr>tm_disk := d\<rparr>) i = (d (part_path tm i), d (blob_path tm i), transfer_row i (tm_rows tm))"
  by (simp add: view_of_def)

lemma view_rows:
  "view_of (tm\<lparr>tm_rows := rows\<rparr>) i = (tm_disk tm (part_path tm i), tm_disk tm (blob_path tm i), transfer_row i rows)"
  by (simp add: view_of_def)

lemma moved:
  assumes "uuid_laws parse_uuid" "parse_uuid j = Some j"
  shows "move_into_place no_faults (part_path tm j) (blob_path tm j) tm =
    (if tm_disk tm (blob_path tm j) \<noteq> None then (True, tm)
     else if tm_disk tm (part_path tm j) = None then (False, tm)
     else (True, tm\<lparr>tm_disk := (tm_disk tm)(part_path tm j := None, blob_path tm j := tm_disk tm (part_path tm j))\<rparr>))"
  by (simp add: move_into_place_def located [OF assms] rename_file_def)

lemma renamed_view:
  assumes u: "uuid_laws parse_uuid" "parse_uuid i = Some i" "parse_uuid j = Some j"
  shows "view_of (tm\<lparr>tm_disk := (tm_disk tm)(part_path tm j := None, blob_path tm j := x)\<rparr>) i =
      (if i = j then (None, x, transfer_row j (tm_rows tm)) else view_of tm i)"
    and "view_of (tm\<lparr>tm_disk := (tm_disk tm)(blob_path tm j := None, part_path tm j := x)\<rparr>) i =
      (if i = j then (x, None, transfer_row j (tm_rows tm)) else view_of tm i)"
  using paths_differ [OF u, of tm] paths_differ [OF u(1,3,2), of tm] paths_differ [OF u(1,3,3), of tm]
  by (simp_all add: view_disk view_of_def [of tm i])

lemma moved_view:
  assumes u: "uuid_laws parse_uuid" "parse_uuid i = Some i" "parse_uuid j = Some j"
  shows "view_of (snd (move_into_place no_faults (part_path tm j) (blob_path tm j) tm)) i =
      (if i = j then repaired_part True (view_of tm j) else view_of tm i)"
  by (cases "tm_disk tm (blob_path tm j)"; cases "tm_disk tm (part_path tm j)")
    (simp_all add: moved [OF u(1,3)] renamed_view [OF u] repaired_part_def view_of_def [of tm j])

lemma recovered_row_root:
  assumes u: "uuid_laws parse_uuid" "parse_uuid j = Some j"
    and l: "map_of filed j = (if f then Some (blob_path tm j) else None)"
  shows "tm_files_root (recover_row no_faults filed j j (part_path tm j) tm) = tm_files_root tm"
  using l by (simp add: recover_row_def located [OF u] moved [OF u] Let_def set_rows_def transfer_delete_def split: if_split)

lemma recovered_row_view:
  assumes u: "uuid_laws parse_uuid" "parse_uuid i = Some i" "parse_uuid j = Some j"
    and l: "map_of filed j = (if f then Some (blob_path tm j) else None)"
  shows "view_of (recover_row no_faults filed j j (part_path tm j) tm) i =
    (if i = j then repaired_row f (view_of tm j) else view_of tm i)"
proof (cases f)
  case True
  have rows: "view_of (set_rows (transfer_delete False j rs) t) i =
      (case view_of t i of (p, b, r) \<Rightarrow> (p, b, if i = j then None else transfer_row i rs))" for t rs
    by (simp add: set_rows_def transfer_delete_def delete_transfer_row view_rows view_of_def)
  show ?thesis using l True
    by (cases "tm_disk tm (blob_path tm j)"; cases "tm_disk tm (part_path tm j)")
      (simp_all add: recover_row_def located [OF u(1,3)] moved [OF u(1,3)] rows renamed_view [OF u] repaired_row_def
        view_of_def [of tm j] view_of_def [of tm i])
next
  case False
  show ?thesis using l False
    by (cases "tm_disk tm (blob_path tm j)"; cases "tm_disk tm (part_path tm j)")
      (simp_all add: recover_row_def located [OF u(1,3)] Let_def rename_file_def renamed_view [OF u] repaired_row_def
        view_of_def [of tm j])
qed

lemma recovered_rows_view:
  assumes u: "uuid_laws parse_uuid" and f: "\<And>j. parse_uuid j = Some j \<Longrightarrow> map_of filed j = (if is_filed tm fr j then Some (blob_path tm j) else None)"
    and rows: "\<forall>(j, p)\<in>set rows. parse_uuid j = Some j \<and> p = part_path tm j" and d: "distinct (map fst rows)"
    and i: "parse_uuid i = Some i"
  shows "view_of (recover_rows parse_uuid no_faults filed rows tm) i =
      (if i \<in> fst ` set rows then repaired_row (is_filed tm fr i) (view_of tm i) else view_of tm i) \<and>
    tm_files_root (recover_rows parse_uuid no_faults filed rows tm) = tm_files_root tm"
  using f rows d
proof (induction rows arbitrary: tm)
  case (Cons jp rows)
  obtain j p where jp: "jp = (j, p)" by fastforce
  have j: "parse_uuid j = Some j" "p = part_path tm j" using Cons.prems(2) jp by auto
  let ?tm = "recover_row no_faults filed j j (part_path tm j) tm"
  have root: "tm_files_root ?tm = tm_files_root tm"
    using recovered_row_root [OF u j(1) Cons.prems(1) [OF j(1)]] .
  have v: "view_of ?tm i = (if i = j then repaired_row (is_filed tm fr j) (view_of tm j) else view_of tm i)"
    using recovered_row_view [OF u i j(1) Cons.prems(1) [OF j(1)]] .
  have "view_of (recover_rows parse_uuid no_faults filed rows ?tm) i =
      (if i \<in> fst ` set rows then repaired_row (is_filed ?tm fr i) (view_of ?tm i) else view_of ?tm i) \<and>
    tm_files_root (recover_rows parse_uuid no_faults filed rows ?tm) = tm_files_root ?tm"
    using Cons.prems by (intro Cons.IH) (auto simp: root_paths [OF root])
  moreover have "j \<notin> fst ` set rows" using Cons.prems(3) jp by simp
  ultimately show ?case using v by (auto simp: jp j root root_paths [OF root])
qed simp

lemma recovered_parts_view:
  assumes u: "uuid_laws parse_uuid" and f: "\<And>j. parse_uuid j = Some j \<Longrightarrow> map_of filed j = (if is_filed tm fr j then Some (blob_path tm j) else None)"
    and names: "\<forall>name\<in>set names. \<forall>j. part_id parse_uuid name = Some j \<longrightarrow> name = j @ ''.part''"
    and i: "parse_uuid i = Some i"
  shows "view_of (recover_parts parse_uuid no_faults filed done_ids names tm) i =
      (if i @ ''.part'' \<in> set names \<and> i \<notin> set done_ids then repaired_part (is_filed tm fr i) (view_of tm i) else view_of tm i)"
  using f names
proof (induction names arbitrary: tm)
  case (Cons name names)
  let ?tm = "case part_id parse_uuid name of None \<Rightarrow> tm
        | Some i \<Rightarrow> if i \<in> set done_ids then tm
            else case map_of filed i of None \<Rightarrow> tm
            | Some stored \<Rightarrow> snd (move_into_place no_faults (path_join (tm_files_root tm) name) stored tm)"
  have step: "view_of ?tm i = (if name = i @ ''.part'' \<and> i \<notin> set done_ids then repaired_part (is_filed tm fr i) (view_of tm i) else view_of tm i) \<and>
      tm_files_root ?tm = tm_files_root tm"
  proof (cases "part_id parse_uuid name")
    case None
    have "part_id parse_uuid (i @ ''.part'') = Some i" by (simp add: part_id_def strip_part_def i suffix_def)
    then have "name \<noteq> i @ ''.part''" using None by auto
    then show ?thesis using None by simp
  next
    case (Some j)
    then have n: "name = j @ ''.part''" using Cons.prems(2) by simp
    have j: "parse_uuid j = Some j" using Some u by (auto simp: part_id_def uuid_laws_def bind_eq_Some_conv)
    have p: "path_join (tm_files_root tm) name = part_path tm j" by (simp add: part_path_def n)
    show ?thesis
    proof (cases "j \<in> set done_ids \<or> \<not> is_filed tm fr j")
      case True
      then show ?thesis using Some n Cons.prems(1) [OF j]
        by (auto simp: repaired_part_def split: prod.splits)
    next
      case False
      then show ?thesis using Some n Cons.prems(1) [OF j] moved_view [OF u i j, of tm] p by auto
    qed
  qed
  then have root: "tm_files_root ?tm = tm_files_root tm" by simp
  have "view_of (recover_parts parse_uuid no_faults filed done_ids names ?tm) i =
      (if i @ ''.part'' \<in> set names \<and> i \<notin> set done_ids then repaired_part (is_filed ?tm fr i) (view_of ?tm i) else view_of ?tm i)"
    using Cons.prems by (intro Cons.IH) (simp_all add: root_paths [OF root])
  then have ih: "view_of (recover_parts parse_uuid no_faults filed done_ids names ?tm) i =
      (if i @ ''.part'' \<in> set names \<and> i \<notin> set done_ids then repaired_part (is_filed tm fr i) (view_of ?tm i) else view_of ?tm i)"
    by (simp only: root_paths(3) [OF root])
  have idem: "repaired_part g (repaired_part g v) = repaired_part g v" for g v by (auto simp: repaired_part_def split: prod.splits)
  show ?case by (simp only: recover_parts.simps ih conjunct1 [OF step]) (auto simp: idem)
qed simp

section \<open>The whole repair\<close>

text \<open>What the listing of the directory is trusted for: it names the partial files that are there, under
  the names the server gave them.\<close>

definition lists_parts :: "(string \<Rightarrow> string option) \<Rightarrow> (TransferManager \<Rightarrow> string list) \<Rightarrow> bool" where
  "lists_parts parse_uuid listing \<longleftrightarrow>
     (\<forall>tm. (\<forall>name\<in>set (listing tm). \<forall>j. part_id parse_uuid name = Some j \<longrightarrow> name = j @ ''.part'') \<and>
        (\<forall>i. parse_uuid i = Some i \<longrightarrow> tm_disk tm (part_path tm i) \<noteq> None \<longrightarrow> i @ ''.part'' \<in> set (listing tm)))"

lemma pending_all:
  "\<forall>r\<in>set rows. P r \<Longrightarrow> set (pending P rows) = (\<lambda>r. (tr_id r, tr_temp_path r)) ` set rows"
  "\<forall>r\<in>set rows. P r \<Longrightarrow> distinct (map tr_id rows) \<Longrightarrow> distinct (map fst (pending P rows))"
proof -
  assume "\<forall>r\<in>set rows. P r"
  then have f: "filter P rows = rows" by simp
  show "set (pending P rows) = (\<lambda>r. (tr_id r, tr_temp_path r)) ` set rows" by (simp add: pending_def f)
  show "distinct (map tr_id rows) \<Longrightarrow> distinct (map fst (pending P rows))"
    by (simp add: pending_def f comp_def distinct_map)
qed

lemma map_filter_same: "\<forall>x\<in>set xs. f x = Some x \<Longrightarrow> List.map_filter f xs = xs"
  by (induction xs) (simp_all add: map_filter_def)

lemma transfer_row_None: "transfer_row i rows = None \<longleftrightarrow> i \<notin> tr_id ` set rows"
  by (auto simp: transfer_row_def find_None_iff)

lemma repaired_view:
  assumes u: "uuid_laws parse_uuid" and l: "laid_out parse_uuid tm file_rows" and t: "\<forall>r\<in>set (tm_rows tm). tr_updated_at r \<le> now"
    and ls: "lists_parts parse_uuid listing" and i: "parse_uuid i = Some i"
  shows "view_of (recover_interrupted_finishes parse_uuid no_faults now file_rows listing tm) i =
    (let filed = is_filed tm file_rows i; v = repaired_row filed (view_of tm i) in
     if transfer_row i (tm_rows tm) = None then repaired_part filed (view_of tm i) else v)"
proof -
  let ?rows = "pending (\<lambda>r. tr_updated_at r \<le> now) (tm_rows tm)"
  have mf: "map_of (filed_paths file_rows) j = (if is_filed tm file_rows j then Some (blob_path tm j) else None)"
    if "parse_uuid j = Some j" for j using filed_paths_map [OF u l, of j] that by simp
  have rows: "\<forall>(j, p)\<in>set ?rows. parse_uuid j = Some j \<and> p = part_path tm j"
    using l by (auto simp: pending_all(1) [OF t] laid_out_def)
  have d: "distinct (map fst ?rows)" using l by (intro pending_all(2) [OF t]) (simp add: laid_out_def)
  let ?tm = "recover_rows parse_uuid no_faults (filed_paths file_rows) ?rows tm"
  have ids: "fst ` set ?rows = tr_id ` set (tm_rows tm)" by (simp add: pending_all(1) [OF t] image_image)
  have first: "view_of ?tm i = (if i \<in> tr_id ` set (tm_rows tm) then repaired_row (is_filed tm file_rows i) (view_of tm i) else view_of tm i)"
    and root: "tm_files_root ?tm = tm_files_root tm"
    using recovered_rows_view [OF u mf rows d i] by (simp_all add: ids)
  have seen: "i \<in> set (List.map_filter parse_uuid (map fst ?rows)) \<longleftrightarrow> i \<in> tr_id ` set (tm_rows tm)"
  proof -
    have "List.map_filter parse_uuid (map fst ?rows) = map fst ?rows" using rows by (intro map_filter_same) auto
    then show ?thesis using ids by simp
  qed
  have "view_of (recover_parts parse_uuid no_faults (filed_paths file_rows) (List.map_filter parse_uuid (map fst ?rows)) (listing ?tm) ?tm) i =
      (if i @ ''.part'' \<in> set (listing ?tm) \<and> i \<notin> tr_id ` set (tm_rows tm) then repaired_part (is_filed ?tm file_rows i) (view_of ?tm i)
       else view_of ?tm i)"
    using ls mf by (subst recovered_parts_view [OF u _ _ i, where fr = file_rows])
      (simp_all add: seen root_paths [OF root] lists_parts_def)
  moreover have "i @ ''.part'' \<notin> set (listing ?tm) \<Longrightarrow> repaired_part g (view_of ?tm i) = view_of ?tm i" for g
    using ls i by (auto simp: lists_parts_def repaired_part_def view_of_def split: prod.splits)
  ultimately show ?thesis
    using first by (auto simp: recover_interrupted_finishes_def transfer_list_stale_def Let_def root_paths [OF root] transfer_row_None)
qed

section \<open>A finish cut off by a crash\<close>

text \<open>The effects of \<open>finish\<close> on what outlives the process: the entry is filed, the bytes are moved, the
  row is deleted. The database commits in order; the renaming reaches the disk at a moment of its own.\<close>

definition finish_cut :: "bool \<Rightarrow> bool \<Rightarrow> ActiveUpload \<Rightarrow> TransferManager \<Rightarrow> TransferManager" where
  "finish_cut moved deleted u tm =
     (let tm = (if moved
                then tm\<lparr>tm_disk := (tm_disk tm)(au_temp_path u := None, blob_path tm (au_id u) := tm_disk tm (au_temp_path u))\<rparr>
                else tm)
      in if deleted then set_rows (transfer_delete False (au_id u) (tm_rows tm)) tm else tm)"

lemma finish_saved_cut:
  assumes "tm_disk tm (au_temp_path u) = Some data" and "H data = au_sha256 u"
    and "file_upload no_faults fresh u tm ft = (Ok node, ft')"
  shows "finish_saved H no_faults clock fresh u tm ft = (Ok (), drop_upload no_faults clock u (finish_cut True True u tm), ft')"
  using assms by (simp add: finish_saved_def finish_cut_def no_faults_def Let_def)

lemma filed_entry_row:
  assumes "file_entry fault fresh parent name bytelen sha256 stored rename ft = (Ok node, ft')"
  shows "\<exists>name'. ft_rows ft' = ft_rows ft @ [file_row fresh parent name' bytelen sha256 stored]"
  using assms by (auto simp: file_entry_def add_row_def or_tree_err_def Let_def dest!: files_insert_Ok
      split: result.splits prod.splits)

lemma filed_upload_row:
  assumes "file_upload fl fresh u tm ft = (Ok node, ft')"
    and "find_child (ft_state ft) (au_parent_id u) (is_filed_upload (au_id u) (au_sha256 u)) = None"
  shows "\<exists>name. ft_rows ft' = ft_rows ft @ [file_row fresh (au_parent_id u) name (au_size u) (au_sha256 u) (blob_path tm (au_id u))]"
  using assms filed_entry_row
  by (simp add: file_upload_def add_file_def add_file_renaming_def Let_def split: if_splits)

lemma cut_view:
  assumes u: "uuid_laws parse_uuid" "parse_uuid (au_id u) = Some (au_id u)" and p: "au_temp_path u = part_path tm (au_id u)"
    and d: "tm_disk tm (part_path tm (au_id u)) = Some data" "tm_disk tm (blob_path tm (au_id u)) = None"
  shows "view_of (finish_cut moved deleted u tm) (au_id u) =
      (if moved then None else Some data, if moved then Some data else None,
       if deleted then None else transfer_row (au_id u) (tm_rows tm))"
  using renamed_view(1) [OF u(1,2,2), of tm "Some data"] d
  by (auto simp: finish_cut_def Let_def p set_rows_def transfer_delete_def view_rows delete_transfer_row view_of_def)

lemma cut_laid_out:
  assumes "laid_out parse_uuid tm rows" and "set rows' \<subseteq> set rows \<union> {row}" and "parse_uuid i = Some i"
    and "fr_storage_path row = Some (blob_path tm i)"
  shows "laid_out parse_uuid (finish_cut moved deleted u tm) rows'"
  using assms
  by (fastforce simp: laid_out_def finish_cut_def Let_def set_rows_def transfer_delete_def distinct_map intro: inj_on_subset)

lemma cut_root: "tm_files_root (finish_cut moved deleted u tm) = tm_files_root tm"
  by (simp add: finish_cut_def Let_def set_rows_def transfer_delete_def)

lemma cut_rows: "set (tm_rows (finish_cut moved deleted u tm)) \<subseteq> set (tm_rows tm)"
  by (auto simp: finish_cut_def Let_def set_rows_def transfer_delete_def)

text \<open>Property C35. A finish survives a crash: when the server stops after any of the effects of a finish
  - the entry filed, the bytes moved, the row deleted, the renaming on the disk in any order with the
  commits of the database - the repair at the next start completes a filed upload, whose blob then
  holds the data and whose partial file and row are gone, and gives an upload that was not filed its
  partial file and its row back, to be resumed. The repair itself meets no failing operation, and the files
  lie as the server lays them out (\<open>laid_out\<close>).\<close>

theorem crash_safe:
  assumes "uuid_laws parse_uuid" and "laid_out parse_uuid tm (ft_rows ft)" and "lists_parts parse_uuid listing"
    and "\<forall>r\<in>set (tm_rows tm). tr_updated_at r \<le> now"
    and "parse_uuid (au_id u) = Some (au_id u)" and "au_temp_path u = part_path tm (au_id u)"
    and "tm_disk tm (part_path tm (au_id u)) = Some data" and "tm_disk tm (blob_path tm (au_id u)) = None"
    and "transfer_row (au_id u) (tm_rows tm) = Some row" and "\<not> is_filed tm (ft_rows ft) (au_id u)"
    and "find_child (ft_state ft) (au_parent_id u) (is_filed_upload (au_id u) (au_sha256 u)) = None"
    and "file_upload fl fresh u tm ft = (Ok node, ft')" and "deleted \<longrightarrow> filed"
  shows "view_of (recover_interrupted_finishes parse_uuid no_faults now (ft_rows (if filed then ft' else ft)) listing
            (finish_cut moved deleted u tm)) (au_id u) =
      (if filed then (None, Some data, None) else (Some data, None, Some row))"
proof -
  let ?rows = "ft_rows (if filed then ft' else ft)" and ?tm = "finish_cut moved deleted u tm"
  obtain name where new: "ft_rows ft' = ft_rows ft @ [file_row fresh (au_parent_id u) name (au_size u) (au_sha256 u) (blob_path tm (au_id u))]"
    using filed_upload_row [OF assms(12,11)] by blast
  have laid: "laid_out parse_uuid ?tm ?rows"
    using assms(5) by (intro cut_laid_out [OF assms(2)]) (auto simp: new file_row_def)
  have "is_filed tm ?rows (au_id u) \<longleftrightarrow> filed" using assms(10) by (auto simp: is_filed_def new file_row_def)
  then have filed: "is_filed ?tm ?rows (au_id u) \<longleftrightarrow> filed" by (simp add: root_paths(3) [OF cut_root])
  have young: "\<forall>r\<in>set (tm_rows ?tm). tr_updated_at r \<le> now" using assms(4) cut_rows by blast
  have view: "view_of ?tm (au_id u) = (if moved then None else Some data, if moved then Some data else None, if deleted then None else Some row)"
    using cut_view [OF assms(1,5,6,7,8)] assms(9) by simp
  then have tr: "transfer_row (au_id u) (tm_rows ?tm) = (if deleted then None else Some row)" by (simp add: view_of_def)
  show ?thesis
    using assms(13) by (simp add: repaired_view [OF assms(1) laid young assms(3,5)] filed view tr repaired_row_def repaired_part_def)
qed

section \<open>An example\<close>

text \<open>The upload of three bytes of \<open>Upload_Finish\<close>, filed when the server stops; \<open>u1\<close> is the only identifier.\<close>

definition example_uuid :: "string \<Rightarrow> string option" where
  "example_uuid s = (if s = ''u1'' then Some s else None)"

definition example_left :: TransferManager where
  "example_left = snd (snd example_write)"

definition example_listing :: "TransferManager \<Rightarrow> string list" where
  "example_listing tm = (if tm_disk tm (part_path tm ''u1'') = None then [] else [''u1.part''])"

lemma example_values:
  "map (\<lambda>r. (tr_id r, tr_temp_path r, tr_updated_at r)) (tm_rows example_left) = [(''u1'', ''/f/u1.part'', 0)]"
  "tm_disk example_left ''/f/u1.part'' = Some [1, 2, 3]" "tm_disk example_left ''/f/u1'' = None"
  "map fr_kind (ft_rows example_new) = [0]"
  "find_child (ft_state example_new) (au_parent_id example_full) (is_filed_upload ''u1'' (au_sha256 example_full)) = None"
  by code_simp+

lemma example_paths: "part_path example_left i = ''/f/'' @ i @ ''.part''" "blob_path example_left i = ''/f/'' @ i"
proof -
  have "tm_files_root example_left = ''/f''" using example_runs(3) by (simp add: example_left_def example_tm_def)
  then show "part_path example_left i = ''/f/'' @ i @ ''.part''" "blob_path example_left i = ''/f/'' @ i"
    by (simp_all add: part_path_def blob_path_def path_join_def)
qed

lemma example_rows:
  obtains row where "tm_rows example_left = [row]" "tr_id row = ''u1''" "tr_temp_path row = ''/f/u1.part''" "tr_updated_at row = 0"
  using example_values(1) by (auto simp: map_eq_Cons_conv)

lemma example_laws: "uuid_laws example_uuid" "lists_parts example_uuid example_listing"
proof -
  have "plain_name ''u1''" "\<not> suffix ''.part'' ''u1''" by (simp add: plain_name_def, code_simp)
  then show "uuid_laws example_uuid" by (auto simp: uuid_laws_def example_uuid_def split: if_splits)
  show "lists_parts example_uuid example_listing"
    by (auto simp: lists_parts_def example_listing_def example_uuid_def part_id_def bind_eq_Some_conv strip_part_def suffix_def split: if_splits)
qed

lemma crash_safe_witness:
  "view_of (recover_interrupted_finishes example_uuid no_faults 0
      (ft_rows (snd (file_upload no_faults ''n1'' example_full example_left example_new))) example_listing example_left) ''u1'' =
    (None, Some [1, 2, 3], None)"
proof -
  obtain node ft' where f: "file_upload no_faults ''n1'' example_full example_left example_new = (Ok node, ft')"
    unfolding example_left_def by (rule example_filed)
  obtain row where row: "tm_rows example_left = [row]" "tr_id row = ''u1''" "tr_temp_path row = ''/f/u1.part''" "tr_updated_at row = 0"
    by (rule example_rows)
  have kinds: "\<forall>row\<in>set (ft_rows example_new). fr_kind row \<noteq> kind_as_u8 File"
    using example_values(4) by (auto simp: map_eq_Cons_conv)
  have laid: "laid_out example_uuid example_left (ft_rows example_new)"
    using kinds row by (auto simp: laid_out_def example_uuid_def example_paths)
  have self: "au_id example_full = ''u1''" "au_temp_path example_full = ''/f/u1.part''"
    by (simp_all add: example_full_def example_up_def)
  have id: "example_uuid (au_id example_full) = Some (au_id example_full)" by (simp add: self example_uuid_def)
  have new: "\<not> is_filed example_left (ft_rows example_new) (au_id example_full)" using kinds by (auto simp: is_filed_def)
  have known: "transfer_row (au_id example_full) (tm_rows example_left) = Some row" by (simp add: transfer_row_def row self)
  show ?thesis
    using crash_safe [OF example_laws(1) laid example_laws(2) _ id _ _ _ known new _ f, of 0 "[1, 2, 3]" False True False]
      example_values row f by (simp add: finish_cut_def self example_paths)
qed

end
