(* ===== verification/Sweep_Safety.thy ===== *)
theory Sweep_Safety
  imports Transfer_Recovery
begin

text \<open>
  The sweeper spares what is in use: the blob of every entry of the file tree and the partial file and
  row of every upload that is held.
\<close>

definition needed :: "(string \<Rightarrow> string option) \<Rightarrow> TransferManager \<Rightarrow> file_rows \<Rightarrow> string \<Rightarrow> bool" where
  "needed parse_uuid tm file_rows p \<longleftrightarrow>
     (\<exists>row\<in>set file_rows. \<exists>stored n. fr_storage_path row = Some stored \<and> path_file_name stored = Some n \<and> parse_uuid n = Some n \<and>
        p = blob_path tm n) \<or>
     (\<exists>i\<in>held (tm_live tm). parse_uuid i = Some i \<and> p = part_path tm i)"

text \<open>What a step of the sweeper keeps.\<close>

definition spares :: "string \<Rightarrow> TransferManager \<Rightarrow> TransferManager \<Rightarrow> bool" where
  "spares p tm tm' \<longleftrightarrow>
     tm_disk tm' p = tm_disk tm p \<and> tm_files_root tm' = tm_files_root tm \<and> held (tm_live tm') = held (tm_live tm) \<and>
     (\<forall>i\<in>held (tm_live tm). transfer_row i (tm_rows tm') = transfer_row i (tm_rows tm))"

lemma spares_refl [simp]: "spares p tm tm"
  by (simp add: spares_def)

lemma spares_trans [trans]: "spares p a b \<Longrightarrow> spares p b c \<Longrightarrow> spares p a c"
  by (simp add: spares_def)

lemma spares_remove: "path \<noteq> p \<Longrightarrow> spares p tm (remove_quietly fl path tm)"
  by (simp add: spares_def remove_quietly_def)

lemma spares_discard:
  assumes "uuid_laws parse_uuid" and "parse_uuid j = Some j" and "part_path tm j \<noteq> p" and "hold j (tm_live tm) = (Some claim, live)"
  shows "spares p tm (drop_live claim (discard fl j (part_path tm j) (tm\<lparr>tm_live := live\<rparr>)))"
proof -
  have held: "j \<notin> held (tm_live tm)" "claim = HoldClaim j" "live = (tm_live tm)\<lparr>held := insert j (held (tm_live tm))\<rparr>"
    using assms(4) by (auto simp: hold_def split: if_splits)
  let ?tm = "set_rows (transfer_delete (f_delete_row fl j) j (tm_rows tm)) (tm\<lparr>tm_live := live\<rparr>)"
  have "part_path ?tm j = part_path tm j" by (simp add: part_path_def set_rows_def transfer_delete_def)
  then have "locate ?tm (part_path tm j) = part_path tm j" using located(1) [OF assms(1,2), of ?tm] by simp
  moreover have "transfer_row i (filter (\<lambda>r. tr_id r \<noteq> j) rows) = transfer_row i rows" if "i \<in> held (tm_live tm)" for i rows
    using that held(1) by (auto simp: delete_transfer_row)
  ultimately show ?thesis using assms(3) held
    by (auto simp: spares_def discard_def remove_quietly_def drop_live_def drop_claim_def set_rows_def transfer_delete_def Let_def)
qed

lemma spares_rows:
  assumes u: "uuid_laws parse_uuid"
    and "\<forall>(j, path)\<in>set rows. parse_uuid j = Some j \<and> path = part_path tm j \<and> (path \<noteq> p \<or> j \<in> held (tm_live tm))"
  shows "spares p tm (snd (sweep_rows parse_uuid fl rows removed tm))"
  using assms(2)
proof (induction rows arbitrary: removed tm)
  case (Cons jp rows)
  obtain j path where jp: "jp = (j, path)" by fastforce
  have j: "parse_uuid j = Some j" "path = part_path tm j" "path \<noteq> p \<or> j \<in> held (tm_live tm)" using Cons.prems jp by auto
  obtain c live where h: "hold j (tm_live tm) = (c, live)" by fastforce
  show ?case
  proof (cases c)
    case None
    then show ?thesis using Cons h by (simp add: jp j(1))
  next
    case (Some claim)
    let ?tm = "drop_live claim (discard fl j (part_path tm j) (tm\<lparr>tm_live := live\<rparr>))"
    have "j \<notin> held (tm_live tm)" using h Some by (auto simp: hold_def split: if_splits)
    then have "part_path tm j \<noteq> p" using j by simp
    from spares_discard [OF u j(1) this h [unfolded Some]] have s: "spares p tm ?tm" .
    have path: "part_path ?tm i = part_path tm i" for i using s by (intro root_paths(1)) (simp only: spares_def)
    have live: "held (tm_live ?tm) = held (tm_live tm)" using s by (simp only: spares_def)
    have "spares p ?tm (snd (sweep_rows parse_uuid fl rows (removed + 1) ?tm))"
      using Cons.prems by (intro Cons.IH) (simp add: path live)
    with s show ?thesis by (simp add: jp j h Some spares_trans)
  qed
qed simp

lemma spares_parts:
  assumes "\<And>name j. part_id parse_uuid name = Some j \<Longrightarrow> j \<notin> held (tm_live tm) \<Longrightarrow> path_join (tm_files_root tm) name \<noteq> p"
  shows "spares p tm (snd (sweep_orphan_parts parse_uuid fl names removed tm))"
  using assms
proof (induction names arbitrary: removed tm)
  case (Cons name names)
  let ?path = "path_join (tm_files_root tm) name"
  have same: "spares p tm (snd (sweep_orphan_parts parse_uuid fl names k tm))" for k using Cons.IH Cons.prems by blast
  have gone: "spares p tm (snd (sweep_orphan_parts parse_uuid fl names k (remove_quietly fl ?path tm)))"
    if "part_id parse_uuid name = Some j" "j \<notin> held (tm_live tm)" for j k
  proof -
    have s: "spares p tm (remove_quietly fl ?path tm)" using Cons.prems that by (intro spares_remove) blast
    moreover have "spares p (remove_quietly fl ?path tm) (snd (sweep_orphan_parts parse_uuid fl names k (remove_quietly fl ?path tm)))"
      using Cons.prems s by (intro Cons.IH) (simp add: spares_def)
    ultimately show ?thesis by (rule spares_trans)
  qed
  show ?case using same gone by (auto simp: Let_def split: option.splits result.splits)
qed simp

text \<open>The quarantine.\<close>

lemma hold_each_frame:
  "hold_each names live = (kept, claims, live') \<Longrightarrow>
    set kept \<subseteq> set names \<and> claims = map HoldClaim kept \<and> held live' = held live \<union> set kept \<and> set kept \<inter> held live = {}"
proof (induction names arbitrary: live kept claims live')
  case (Cons i names)
  show ?case
  proof (cases "i \<in> held live")
    case True
    then show ?thesis using Cons.IH [of live kept claims live'] Cons.prems by (auto simp: hold_def)
  next
    case False
    then obtain k cs where "hold_each names (live\<lparr>held := insert i (held live)\<rparr>) = (k, cs, live')" "kept = i # k" "claims = HoldClaim i # cs"
      using Cons.prems by (auto simp: hold_def split: prod.splits)
    with Cons.IH [OF this(1)] False show ?thesis by auto
  qed
qed simp

lemma drop_each_holds:
  "spares p tm (tm'\<lparr>tm_live := L\<rparr>) \<Longrightarrow> held L \<union> set kept = held (tm_live tm') \<Longrightarrow> held L \<inter> set kept = {} \<Longrightarrow>
    spares p tm (drop_each (map HoldClaim kept) tm')"
proof -
  have h: "held (tm_live (drop_each (map HoldClaim kept) t)) = held (tm_live t) - set kept \<and>
      tm_disk (drop_each (map HoldClaim kept) t) = tm_disk t \<and> tm_rows (drop_each (map HoldClaim kept) t) = tm_rows t \<and>
      tm_files_root (drop_each (map HoldClaim kept) t) = tm_files_root t" for t
    by (induction kept arbitrary: t) (auto simp: drop_each_def drop_live_def drop_claim_def)
  assume "spares p tm (tm'\<lparr>tm_live := L\<rparr>)" "held L \<union> set kept = held (tm_live tm')" "held L \<inter> set kept = {}"
  then show ?thesis using h [of tm'] by (auto simp: spares_def)
qed

lemma quarantine_each_spares:
  assumes "\<forall>name\<in>set names. blob_path tm name \<noteq> p" and "\<And>n. quarantine_path tm n \<noteq> p"
  shows "tm_disk (snd (quarantine_each fl now names tm)) p = tm_disk tm p \<and>
    tm_rows (snd (quarantine_each fl now names tm)) = tm_rows tm \<and> tm_live (snd (quarantine_each fl now names tm)) = tm_live tm \<and>
    tm_files_root (snd (quarantine_each fl now names tm)) = tm_files_root tm"
  using assms
proof (induction names arbitrary: tm)
  case (Cons name names)
  let ?to = "quarantine_path tm (name @ ''.'' @ show_nat now)"
  obtain ok tm' where r: "rename_file fl (blob_path tm name) ?to tm = (ok, tm')" by fastforce
  then have same: "tm_files_root tm' = tm_files_root tm" "tm_rows tm' = tm_rows tm" "tm_live tm' = tm_live tm" "tm_disk tm' p = tm_disk tm p"
    using Cons.prems(1) Cons.prems(2) [of "name @ ''.'' @ show_nat now"] by (auto simp: rename_file_def split: if_splits)
  have "tm_disk (snd (quarantine_each fl now names tm')) p = tm_disk tm' p \<and>
    tm_rows (snd (quarantine_each fl now names tm')) = tm_rows tm' \<and> tm_live (snd (quarantine_each fl now names tm')) = tm_live tm' \<and>
    tm_files_root (snd (quarantine_each fl now names tm')) = tm_files_root tm'"
    using Cons.prems by (intro Cons.IH) (auto simp: root_paths [OF same(1)] quarantine_path_def same(1))
  moreover have "ok = False \<Longrightarrow> tm' = tm" using r by (auto simp: rename_file_def split: if_splits)
  ultimately show ?case using Cons.IH [of tm] Cons.prems r same
    by (cases ok) (simp_all add: Let_def case_prod_unfold)
qed simp

lemma purge_spares:
  assumes "\<And>n. quarantine_path tm n \<noteq> p"
  shows "spares p tm (snd (purge_quarantine parse_uuid fl now retention names tm))"
  using assms
proof (induction names arbitrary: tm)
  case (Cons name names)
  have q: "spares p tm (remove_quietly fl (quarantine_path tm name) tm)" using Cons.prems by (intro spares_remove)
  have "spares p (remove_quietly fl (quarantine_path tm name) tm)
      (snd (purge_quarantine parse_uuid fl now retention names (remove_quietly fl (quarantine_path tm name) tm)))"
    using Cons.prems q by (intro Cons.IH) (simp add: quarantine_path_def spares_def)
  from spares_trans [OF q this] show ?case
    using Cons.IH [of tm] Cons.prems by (auto simp: Let_def split: option.splits prod.splits)
qed simp

section \<open>What is needed stays\<close>

lemma needed_root: "needed parse_uuid tm rows p \<Longrightarrow> uuid_laws parse_uuid \<Longrightarrow>
    \<exists>n. p = path_join (tm_files_root tm) n \<and> CHR ''/'' \<notin> set n"
  by (fastforce simp: needed_def uuid_laws_def plain_name_def blob_path_def part_path_def)

lemma quarantine_apart:
  assumes "needed parse_uuid tm rows p" and "uuid_laws parse_uuid"
  shows "quarantine_path tm n \<noteq> p"
proof
  assume q: "quarantine_path tm n = p"
  obtain m where m: "p = path_join (tm_files_root tm) m" "CHR ''/'' \<notin> set m" using needed_root [OF assms] by blast
  then have "m = QUARANTINE_DIR @ ''/'' @ n" using q by (simp add: quarantine_path_def path_join_def)
  with m(2) show False by simp
qed

lemma part_apart:
  assumes "needed parse_uuid tm rows p" and u: "uuid_laws parse_uuid"
    and "part_id parse_uuid name = Some j" and "j \<notin> held (tm_live tm)"
  shows "path_join (tm_files_root tm) name \<noteq> p"
proof
  assume p: "path_join (tm_files_root tm) name = p"
  have s: "suffix ''.part'' name" using assms(3) by (auto simp: part_id_def strip_part_def bind_eq_Some_conv split: if_splits)
  consider n where "parse_uuid n = Some n" "p = blob_path tm n" | i where "i \<in> held (tm_live tm)" "parse_uuid i = Some i" "p = part_path tm i"
    using assms(1) unfolding needed_def by blast
  then show False
  proof cases
    case (1 n)
    then have "name = n" using p by (simp add: blob_path_def)
    with s u 1(1) show False by (auto simp: uuid_laws_def)
  next
    case (2 i)
    then have "name = i @ ''.part''" using p by (simp add: part_path_def)
    then have "part_id parse_uuid name = Some i" using 2 by (simp add: part_id_def strip_part_def suffix_def)
    with assms(3,4) 2(1) show False by simp
  qed
qed

lemma blob_apart:
  assumes "needed parse_uuid tm rows p" and u: "uuid_laws parse_uuid"
    and name: "blob_id parse_uuid name = Some j" and "name \<notin> set (referenced_blobs canonicalize tm rows)"
  shows "blob_path tm name \<noteq> p"
proof
  assume p: "blob_path tm name = p"
  have n: "parse_uuid name = Some name" using name by (auto simp: blob_id_def split: option.splits if_splits)
  from assms(1) consider row stored m where "row \<in> set rows" "fr_storage_path row = Some stored" "path_file_name stored = Some m" "p = blob_path tm m"
    | i where "parse_uuid i = Some i" "p = part_path tm i"
    unfolding needed_def by (elim disjE bexE exE conjE) auto
  then show False
  proof cases
    case (1 row stored m)
    then have "name = m" using p by (simp add: blob_path_def)
    moreover have stored: "stored \<in> set (List.map_filter fr_storage_path rows)"
      using 1(1,2) by (induction rows) (auto simp: map_filter_def)
    ultimately have "name \<in> set (referenced_blobs canonicalize tm rows)"
      unfolding referenced_blobs_def set_concat set_map
      by (intro UN_I [OF imageI [OF stored]]) (simp add: 1(3))
    with assms(4) show False by simp
  next
    case (2 i)
    then show False using p paths_differ(1) [OF u 2(1) n, of tm] by simp
  qed
qed

lemma sweep_spares:
  assumes u: "uuid_laws parse_uuid" and l: "laid_out parse_uuid tm file_rows" and p: "needed parse_uuid tm file_rows p"
  shows "spares p tm (snd (sweep parse_uuid fl now older_than listing tm))"
proof -
  obtain k tm1 where r: "(case transfer_list_stale (f_list fl) now older_than (tm_rows tm) of
      Ok rows \<Rightarrow> sweep_rows parse_uuid fl rows 0 tm | _ \<Rightarrow> (0, tm)) = (k, tm1)" by fastforce
  have "spares p tm tm1"
  proof (cases "f_list fl")
    case True
    then show ?thesis using r by (simp add: transfer_list_stale_def)
  next
    case False
    let ?rows = "pending (\<lambda>r. tr_updated_at r \<le> now - int older_than) (tm_rows tm)"
    have apart: "part_path tm j \<noteq> p \<or> j \<in> held (tm_live tm)" if "parse_uuid j = Some j" for j
    proof -
      have "part_id parse_uuid (j @ ''.part'') = Some j" using that by (simp add: part_id_def strip_part_def suffix_def)
      from part_apart [OF p u this] show ?thesis by (auto simp: part_path_def)
    qed
    have "parse_uuid (tr_id r) = Some (tr_id r) \<and> tr_temp_path r = part_path tm (tr_id r)" if "r \<in> set (tm_rows tm)" for r
      using l that by (simp add: laid_out_def)
    then have "\<forall>(j, path)\<in>set ?rows. parse_uuid j = Some j \<and> path = part_path tm j \<and> (path \<noteq> p \<or> j \<in> held (tm_live tm))"
      using apart by (simp add: pending_def)
    from spares_rows [OF u this, of fl 0] show ?thesis using r False by (simp add: transfer_list_stale_def)
  qed
  note s = this
  have same: "tm_files_root tm1 = tm_files_root tm" "held (tm_live tm1) = held (tm_live tm)" using s by (simp_all add: spares_def)
  have "spares p tm1 (snd (sweep_orphan_parts parse_uuid fl (listing tm1) k tm1))"
    using part_apart [OF p u] by (intro spares_parts) (simp only: same, blast)
  from spares_trans [OF s this] show ?thesis by (simp add: sweep_def r)
qed

lemma orphans_spares:
  assumes u: "uuid_laws parse_uuid" and p: "needed parse_uuid tm file_rows p"
  shows "spares p tm (snd (quarantine_orphan_blobs parse_uuid canonicalize fl quarantine now file_rows listing tm))"
proof -
  obtain kept claims live where h: "hold_each (List.map_filter (blob_id parse_uuid) listing) (tm_live tm) = (kept, claims, live)"
    by (metis prod_cases3)
  note hold = hold_each_frame [OF h]
  let ?tm = "tm\<lparr>tm_live := live\<rparr>"
  let ?orphans = "filter (\<lambda>name. name \<notin> set (referenced_blobs canonicalize ?tm file_rows) \<and> name \<notin> set (map tr_id (tm_rows ?tm))) kept"
  have ref: "referenced_blobs canonicalize ?tm file_rows = referenced_blobs canonicalize tm file_rows" by (simp add: referenced_blobs_def cong: if_cong option.case_cong)
  have path: "blob_path ?tm n = blob_path tm n" "quarantine_path ?tm n = quarantine_path tm n" for n
    by (simp_all add: blob_path_def quarantine_path_def)
  have id: "\<exists>j. blob_id parse_uuid n = Some j" if "n \<in> set kept" for n
  proof -
    have "n \<in> set (List.map_filter (blob_id parse_uuid) listing)" using that hold by blast
    then obtain s where "blob_id parse_uuid s = Some n" by (auto simp: map_filter_def)
    then have "parse_uuid n = Some n" using u by (auto simp: blob_id_def uuid_laws_def split: option.splits if_splits)
    then show ?thesis by (simp add: blob_id_def)
  qed
  have apart: "\<forall>name\<in>set ?orphans. blob_path ?tm name \<noteq> p"
  proof
    fix name assume "name \<in> set ?orphans"
    then have n: "name \<in> set kept" "name \<notin> set (referenced_blobs canonicalize tm file_rows)" by (simp_all add: ref)
    obtain j where "blob_id parse_uuid name = Some j" using id n(1) by blast
    from blob_apart [OF p u this n(2)] show "blob_path ?tm name \<noteq> p" by (simp add: path)
  qed
  have dropped: "spares p tm (drop_each claims t)"
    if "tm_disk t p = tm_disk tm p" "tm_rows t = tm_rows tm" "tm_live t = live" "tm_files_root t = tm_files_root tm" for t
  proof -
    have c: "claims = map HoldClaim kept" and h: "held live = held (tm_live tm) \<union> set kept" "set kept \<inter> held (tm_live tm) = {}"
      using hold by simp_all
    show ?thesis unfolding c
      by (rule drop_each_holds [where L = "tm_live tm"]) (use that h in \<open>auto simp: spares_def\<close>)
  qed
  have moved: "tm_disk (snd (quarantine_each fl now ?orphans ?tm)) p = tm_disk tm p \<and> tm_rows (snd (quarantine_each fl now ?orphans ?tm)) = tm_rows tm \<and>
      tm_live (snd (quarantine_each fl now ?orphans ?tm)) = live \<and> tm_files_root (snd (quarantine_each fl now ?orphans ?tm)) = tm_files_root tm"
    using quarantine_each_spares [OF apart, of fl now] quarantine_apart [OF p u] by (simp add: path)
  show ?thesis
    using dropped [of ?tm] dropped [of "snd (quarantine_each fl now ?orphans ?tm)"] moved
    by (simp add: quarantine_orphan_blobs_def h Let_def case_prod_unfold)
qed

text \<open>Property C36. The housekeeping spares what is in use: neither the sweeper of abandoned uploads nor
  the quarantine and purge of stray blobs ever changes the blob of an entry of the file tree or the
  partial file of a held upload, nor the row of a held upload, whatever the directory lists and
  whatever fails, as long as the files lie as the server lays them out (\<open>laid_out\<close>).\<close>

theorem sweeps_spare_files:
  assumes "uuid_laws parse_uuid" and "laid_out parse_uuid tm file_rows" and "needed parse_uuid tm file_rows p"
  shows "spares p tm (snd (sweep parse_uuid fl now older_than listing tm)) \<and>
    spares p tm (snd (sweep_orphan_blobs parse_uuid canonicalize fl' quarantine now' file_rows names quarantined tm))"
proof -
  obtain k tm1 where o: "quarantine_orphan_blobs parse_uuid canonicalize fl' quarantine now' file_rows names tm = (k, tm1)" by fastforce
  then have s: "spares p tm tm1" using orphans_spares [OF assms(1,3), of canonicalize fl' quarantine now' names] by simp
  have "quarantine_path tm1 n \<noteq> p" for n
    using quarantine_apart [OF assms(3,1), of n] s by (simp add: quarantine_path_def spares_def)
  then have "spares p tm1 (snd (purge_quarantine parse_uuid fl' now' retention quarantined tm1))" for retention by (rule purge_spares)
  with s have "spares p tm (snd (sweep_orphan_blobs parse_uuid canonicalize fl' quarantine now' file_rows names quarantined tm))"
    by (auto simp: sweep_orphan_blobs_def o case_prod_unfold split: option.split intro: spares_trans)
  with sweep_spares [OF assms] show ?thesis by blast
qed

lemma sweeps_spare_files_witness:
  "tm_disk (snd (sweep example_uuid no_faults 1000 60 example_listing (example_left\<lparr>tm_live := Live_default\<lparr>held := {''u1''}\<rparr>\<rparr>)))
     ''/f/u1.part'' = Some [1, 2, 3]"
proof -
  let ?tm = "example_left\<lparr>tm_live := Live_default\<lparr>held := {''u1''}\<rparr>\<rparr>"
  obtain row where row: "tm_rows example_left = [row]" "tr_id row = ''u1''" "tr_temp_path row = ''/f/u1.part''" "tr_updated_at row = 0"
    by (rule example_rows)
  have path: "part_path ?tm i = ''/f/'' @ i @ ''.part''" for i using example_paths(1) [of i] by (simp add: part_path_def)
  have laid: "laid_out example_uuid ?tm []" by (simp add: laid_out_def example_uuid_def path row)
  have "needed example_uuid ?tm [] ''/f/u1.part''" by (simp add: needed_def example_uuid_def path)
  from sweeps_spare_files [OF example_laws(1) laid this, of no_faults 1000 60 example_listing] example_values(2)
  show ?thesis by (simp add: spares_def)
qed

end
