(* ===== verification/Download.thy ===== *)
theory Download
  imports Upload_Data
begin

text \<open>
  Downloads from the server's side (\<open>transfer/download.rs\<close>). The wait for the throttle is left out; a file
  that was opened keeps its content however the directory changes, so an active download has the bytes.
\<close>

record ActiveDownload =
  ad_id :: string
  ad_content :: bytes
  ad_size :: u64
  ad_chunk_size :: u32
  ad_total_chunks :: u32
  ad_sha256 :: bytes
  ad_have :: "bool list"
  ad_cursor :: u32
  ad_claim :: ClaimKind

record DownloadChunk =
  dc_index :: u32
  dc_hash :: bytes
  dc_data :: bytes

text \<open>\<open>u64::next_power_of_two\<close> by doubling; past \<open>2 ^ 63\<close> the source's result would wrap to zero.\<close>

function pow2_from :: "nat \<Rightarrow> nat \<Rightarrow> nat" where
  "pow2_from p n = (if p = 0 \<or> n \<le> p then p else pow2_from (2 * p) n)"
  by pat_completeness auto
termination by (relation "measure (\<lambda>(p, n). n - p)") auto

declare pow2_from.simps [simp del]

definition next_power_of_two :: "u64 \<Rightarrow> u64" where
  "next_power_of_two n = of_nat (pow2_from 1 (unat n))"

definition download_chunk_size :: "u64 \<Rightarrow> u32 \<Rightarrow> bool \<Rightarrow> (u32, TransferError) result" where
  "download_chunk_size n requested resuming =
     (if chunk_count n requested \<le> ucast MAX_TOTAL_CHUNKS then Ok requested
      else if resuming then Err BadChunkSize
      else
        let needed = next_power_of_two (div_ceil n (ucast MAX_TOTAL_CHUNKS)) in
        if needed > ucast MAX_CHUNK then Err TooLarge else Ok (ucast needed))"

text \<open>\<open>into_vec\<close> after \<open>resize\<close>: the bytes holding the bits; bits past the last chunk stay as the client sent them.\<close>

definition echoed_bitmap :: "nat \<Rightarrow> bytes \<Rightarrow> bytes" where
  "echoed_bitmap chunks bs = (let k = (chunks + 7) div 8 in take k bs @ replicate (k - length bs) 0)"

definition start_download ::
  "Faults \<Rightarrow> string \<Rightarrow> string \<Rightarrow> u64 \<Rightarrow> bytes \<Rightarrow> string \<Rightarrow> u32 \<Rightarrow> bytes \<Rightarrow> TransferManager \<Rightarrow>
   (ActiveDownload \<times> AcceptInfo, TransferError) result \<times> TransferManager" where
  "start_download fl account i n sha256 storage_path chunk client_bitmap tm =
     (let chunks = ucast (chunk_count n chunk) in
      case claim_download (tm_limits tm) account (tm_live tm) of
        (Err e, live) \<Rightarrow> (Err e, tm\<lparr>tm_live := live\<rparr>)
      | (Panic, live) \<Rightarrow> (Panic, tm\<lparr>tm_live := live\<rparr>)
      | (Ok claim, live) \<Rightarrow>
      let tm = tm\<lparr>tm_live := live\<rparr> in
      case (if f_open_part fl then None else tm_disk tm (locate tm storage_path)) of
        None \<Rightarrow> (Err TransferIo, drop_live claim tm)
      | Some content \<Rightarrow>
          let have = resize_bits (unat chunks) (unpack_bits client_bitmap) in
          (Ok (\<lparr>ad_id = i, ad_content = content, ad_size = n, ad_chunk_size = chunk, ad_total_chunks = chunks, ad_sha256 = sha256,
               ad_have = have, ad_cursor = 0, ad_claim = claim\<rparr>,
               \<lparr>ai_transfer_id = i, ai_chunk_size = chunk, ai_total_chunks = chunks, ai_size = n, ai_sha256 = sha256,
                ai_have_bitmap = (if client_bitmap \<noteq> [] then echoed_bitmap (unat chunks) client_bitmap else [])\<rparr>), tm))"

definition begin_download ::
  "Faults \<Rightarrow> TreeState \<Rightarrow> Session \<Rightarrow> string \<Rightarrow> string \<Rightarrow> string \<Rightarrow> u32 \<Rightarrow> bytes \<Rightarrow> TransferManager \<Rightarrow>
   (ActiveDownload \<times> AcceptInfo, TransferError) result \<times> TransferManager" where
  "begin_download fl st s account i path chunk client_bitmap tm =
     (if \<not> (MIN_CHUNK \<le> chunk \<and> chunk \<le> MAX_CHUNK) then (Err BadChunkSize, tm)
      else case open_for_read st path s of
        Err e \<Rightarrow> (Err (TransferTree e), tm)
      | Panic \<Rightarrow> (Panic, tm)
      | Ok node \<Rightarrow>
      case (nd_storage_path node, nd_sha256 node) of
        (Some storage_path, Some sha256) \<Rightarrow>
          if length sha256 \<noteq> 32 then (Err UnknownTransfer, tm)
          else (case download_chunk_size (nd_size node) chunk (client_bitmap \<noteq> []) of
            Err e \<Rightarrow> (Err e, tm)
          | Panic \<Rightarrow> (Panic, tm)
          | Ok chunk \<Rightarrow> start_download fl account i (nd_size node) sha256 storage_path chunk client_bitmap tm)
      | _ \<Rightarrow> (Err UnknownTransfer, tm))"

text \<open>\<open>read_exact\<close> at the chunk's place.\<close>

definition read_chunk :: "bytes \<Rightarrow> nat \<Rightarrow> nat \<Rightarrow> bytes option" where
  "read_chunk content offset len = (if offset + len \<le> length content then Some (take len (drop offset content)) else None)"

text \<open>The cursor passes over the chunks the client has.\<close>

function skip_have :: "bool list \<Rightarrow> nat \<Rightarrow> nat \<Rightarrow> nat" where
  "skip_have have chunks i = (if i < chunks \<and> have ! i then skip_have have chunks (i + 1) else i)"
  by pat_completeness auto
termination by (relation "measure (\<lambda>(have, chunks, i). chunks - i)") auto

declare skip_have.simps [simp del]

definition next_chunk ::
  "(bytes \<Rightarrow> bytes) \<Rightarrow> bool \<Rightarrow> ActiveDownload \<Rightarrow> (DownloadChunk option, TransferError) result \<times> ActiveDownload" where
  "next_chunk H fault dl =
     (let cursor = skip_have (ad_have dl) (unat (ad_total_chunks dl)) (unat (ad_cursor dl));
          dl = dl\<lparr>ad_cursor := of_nat cursor\<rparr>
      in if cursor \<ge> unat (ad_total_chunks dl) then (Ok None, dl)
         else case expected_chunk_len (ad_size dl) (ad_chunk_size dl) (ad_total_chunks dl) (of_nat cursor) of
           Err e \<Rightarrow> (Err e, dl)
         | Panic \<Rightarrow> (Panic, dl)
         | Ok len \<Rightarrow>
             (case (if fault then None else read_chunk (ad_content dl) (cursor * unat (ad_chunk_size dl)) len) of
                None \<Rightarrow> (Err TransferIo, dl)
              | Some data \<Rightarrow>
                  (Ok (Some \<lparr>dc_index = of_nat cursor, dc_hash = H data, dc_data = data\<rparr>), dl\<lparr>ad_cursor := of_nat cursor + 1\<rparr>)))"

text \<open>The chunks a download sends until it is done, each with no fault.\<close>

fun download_stream :: "(bytes \<Rightarrow> bytes) \<Rightarrow> nat \<Rightarrow> ActiveDownload \<Rightarrow> (DownloadChunk list, TransferError) result" where
  "download_stream H 0 dl = Ok []"
| "download_stream H (Suc k) dl =
     (case next_chunk H False dl of
        (Ok None, _) \<Rightarrow> Ok []
      | (Ok (Some c), dl) \<Rightarrow> bind_result (download_stream H k dl) (\<lambda>cs. Ok (c # cs))
      | (Err e, _) \<Rightarrow> Err e
      | (Panic, _) \<Rightarrow> Panic)"

section \<open>What a download sends\<close>

lemma pow2_from_bounds: "0 < p \<Longrightarrow> n \<le> pow2_from p n \<and> p \<le> pow2_from p n \<and> pow2_from p n \<le> max p (2 * n)"
  by (induction p n rule: pow2_from.induct) (subst (1 2 3) pow2_from.simps, auto)

lemma unat_of_nat_small: "n < 2 ^ LENGTH('a) \<Longrightarrow> unat (of_nat n :: 'a::len word) = n"
  by (simp add: unsigned_of_nat take_bit_nat_eq_self)

lemma unat_next_power:
  assumes "unat n \<le> 2 ^ 62"
  shows "unat n \<le> unat (next_power_of_two n)" and "unat (next_power_of_two n) \<le> max 1 (2 * unat n)"
proof -
  note b = pow2_from_bounds [of 1 "unat n"]
  then have "pow2_from 1 (unat n) < 2 ^ 64" using assms by (simp add: max_def split: if_splits)
  then have "unat (next_power_of_two n) = pow2_from 1 (unat n)" unfolding next_power_of_two_def by (intro unat_of_nat_small) simp
  then show "unat n \<le> unat (next_power_of_two n)" "unat (next_power_of_two n) \<le> max 1 (2 * unat n)" using b by simp_all
qed

lemma u32_of_u64: "unat (x :: u64) < 2 ^ 32 \<Longrightarrow> unat (ucast x :: u32) = unat x"
  by (simp add: unsigned_ucast_eq unsigned_take_bit_eq take_bit_nat_eq_self)

lemma unat_chunk_count:
  assumes "1 \<le> chunk"
  shows "unat (chunk_count n chunk) = (unat n + unat chunk - 1) div unat chunk"
proof -
  have "max chunk 1 = chunk" using assms by (simp add: max_def)
  moreover have "(ucast chunk :: u64) \<noteq> 0"
    using assms by (metis unat_u64_u32 unat_0 le_zero_eq not_one_le_zero word_le_nat_alt unat_1)
  ultimately show ?thesis using unat_div_ceil [of "ucast chunk" n] by (simp add: chunk_count_def)
qed

lemma download_shape:
  assumes d: "download_chunk_size n requested resuming = Ok chunk" and r: "MIN_CHUNK \<le> requested" "requested \<le> MAX_CHUNK"
    and n: "n \<le> MAX_FILE_SIZE"
  shows "requested \<le> chunk" and "check_upload_shape n chunk = Ok (ucast (chunk_count n chunk))"
proof -
  have r1: "1 \<le> requested" using r(1) by (auto simp: MIN_CHUNK_def word_le_nat_alt)
  have "requested \<le> chunk \<and> chunk \<le> MAX_CHUNK \<and> chunk_count n chunk \<le> ucast MAX_TOTAL_CHUNKS"
  proof (cases "chunk_count n requested \<le> ucast MAX_TOTAL_CHUNKS")
    case True
    then show ?thesis using d r by (simp add: download_chunk_size_def)
  next
    case False
    let ?q = "div_ceil n (ucast MAX_TOTAL_CHUNKS)"
    have big: "(unat n + unat requested - 1) div unat requested > 524280"
      using False unat_chunk_count [OF r1, of n] by (simp add: MAX_TOTAL_CHUNKS_def word_le_nat_alt)
    have q: "unat ?q = (unat n + 524280 - 1) div 524280"
      using unat_div_ceil [of "ucast MAX_TOTAL_CHUNKS" n] by (simp add: MAX_TOTAL_CHUNKS_def)
    have c: "chunk = ucast (next_power_of_two ?q)" "next_power_of_two ?q \<le> ucast MAX_CHUNK"
      using d False by (auto simp: download_chunk_size_def Let_def split: if_splits)
    have n': "unat n \<le> 17179869184" using n by (simp add: MAX_FILE_SIZE_def word_le_nat_alt)
    have "unat ?q \<le> 2 ^ 62" unfolding q using n' by simp
    note p = unat_next_power [OF this]
    have max: "unat (next_power_of_two ?q) \<le> 262144" using c(2) by (simp add: MAX_CHUNK_def word_le_nat_alt)
    then have uc: "unat chunk = unat (next_power_of_two ?q)" unfolding c(1) by (intro u32_of_u64) simp
    have pos: "0 < unat requested" using r1 by (simp add: word_le_nat_alt)
    have "524280 * unat requested < unat n"
      using big chunk_start_iff [OF pos, of 524280 "unat n"] by simp
    then have "unat requested \<le> unat ?q" unfolding q by (simp add: less_eq_div_iff_mult_less_eq)
    then have le: "unat requested \<le> unat chunk" using p(1) uc by simp
    then have c1: "1 \<le> chunk" using pos by (simp add: word_le_nat_alt)
    have "(unat n + unat chunk - 1) div unat chunk \<le> 524280"
    proof -
      have "unat n \<le> 524280 * unat ?q" unfolding q by (simp add: mult.commute)
      also have "\<dots> \<le> 524280 * unat chunk" using p(1) uc by simp
      finally have "\<not> 524280 * unat chunk < unat n" by simp
      then show ?thesis using chunk_start_iff [of "unat chunk" 524280 "unat n"] c1 by (simp add: word_le_nat_alt)
    qed
    then have "unat (chunk_count n chunk) \<le> 524280" by (simp add: unat_chunk_count [OF c1])
    with le max uc show ?thesis by (simp add: word_le_nat_alt MAX_CHUNK_def MAX_TOTAL_CHUNKS_def)
  qed
  with r n show "requested \<le> chunk" "check_upload_shape n chunk = Ok (ucast (chunk_count n chunk))"
    by (auto simp: check_upload_shape_def Let_def)
qed

lemma skip_have_step:
  "i \<le> n \<Longrightarrow> skip_have have n i \<le> n \<and> (skip_have have n i < n \<longrightarrow> \<not> have ! skip_have have n i) \<and>
    filter (\<lambda>j. \<not> have ! j) [i..<n] =
      (if skip_have have n i = n then [] else skip_have have n i # filter (\<lambda>j. \<not> have ! j) [skip_have have n i + 1..<n])"
proof (induction "have" n i rule: skip_have.induct)
  case (1 "have" n i)
  show ?case
  proof (cases "i < n \<and> have ! i")
    case True
    then show ?thesis using 1 by (subst (1 2 3 4 5 6) skip_have.simps) (simp add: upt_conv_Cons)
  next
    case False
    then show ?thesis using 1(2) by (subst (1 2 3 4 5 6) skip_have.simps) (auto simp: upt_conv_Cons)
  qed
qed

definition sent_chunk :: "(bytes \<Rightarrow> bytes) \<Rightarrow> bytes \<Rightarrow> nat \<Rightarrow> nat \<Rightarrow> DownloadChunk" where
  "sent_chunk H content c i = \<lparr>dc_index = of_nat i, dc_hash = H (chunk_of content c i), dc_data = chunk_of content c i\<rparr>"

lemma next_chunk_sends:
  assumes shape: "check_upload_shape (ad_size dl) (ad_chunk_size dl) = Ok (ad_total_chunks dl)"
    and len: "length (ad_content dl) = unat (ad_size dl)" and cur: "ad_cursor dl \<le> ad_total_chunks dl"
  shows "case filter (\<lambda>i. \<not> ad_have dl ! i) [unat (ad_cursor dl)..<unat (ad_total_chunks dl)] of
      [] \<Rightarrow> \<exists>dl'. next_chunk H False dl = (Ok None, dl')
    | i # rest \<Rightarrow> next_chunk H False dl = (Ok (Some (sent_chunk H (ad_content dl) (unat (ad_chunk_size dl)) i)), dl\<lparr>ad_cursor := of_nat (i + 1)\<rparr>) \<and>
        i < unat (ad_total_chunks dl) \<and> rest = filter (\<lambda>i. \<not> ad_have dl ! i) [i + 1..<unat (ad_total_chunks dl)]"
proof -
  let ?k = "unat (ad_total_chunks dl)" and ?c = "unat (ad_chunk_size dl)"
  let ?i = "skip_have (ad_have dl) ?k (unat (ad_cursor dl))"
  have skip: "?i \<le> ?k" "filter (\<lambda>i. \<not> ad_have dl ! i) [unat (ad_cursor dl)..<?k] =
      (if ?i = ?k then [] else ?i # filter (\<lambda>i. \<not> ad_have dl ! i) [?i + 1..<?k])"
    using skip_have_step [of "unat (ad_cursor dl)" ?k "ad_have dl"] cur by (simp_all add: word_le_nat_alt)
  have small: "?k < 2 ^ 32" using unsigned_less [of "ad_total_chunks dl", where ?'a = nat] by simp
  show ?thesis
  proof (cases "?i = ?k")
    case True
    then show ?thesis unfolding skip(2) by (simp add: next_chunk_def Let_def)
  next
    case False
    then have i: "?i < ?k" using skip(1) by simp
    then have ui: "unat (of_nat ?i :: u32) = ?i" using small by (intro unat_of_nat_small) simp
    then have "of_nat ?i < ad_total_chunks dl" using i by (simp add: word_less_nat_alt)
    from expected_len [OF shape this len]
    have el: "expected_chunk_len (ad_size dl) (ad_chunk_size dl) (ad_total_chunks dl) (of_nat ?i) =
        (Ok (length (chunk_of (ad_content dl) ?c ?i)) :: (nat, TransferError) result)" by (simp add: ui)
    have c: "0 < ?c" and k: "?k = (unat (ad_size dl) + ?c - 1) div ?c"
      using check_upload_shape_Ok [OF shape] by (auto simp: MIN_CHUNK_def word_le_nat_alt)
    have "?i * ?c < length (ad_content dl)" using i unfolding k len chunk_start_iff [OF c] .
    then have read: "read_chunk (ad_content dl) (?i * ?c) (length (chunk_of (ad_content dl) ?c ?i)) = Some (chunk_of (ad_content dl) ?c ?i)"
      by (auto simp: read_chunk_def chunk_of_length chunk_of_def min_def)
    have n: "next_chunk H False dl = (Ok (Some (sent_chunk H (ad_content dl) ?c ?i)), dl\<lparr>ad_cursor := of_nat (?i + 1)\<rparr>)"
      using i by (simp add: next_chunk_def Let_def ui el read sent_chunk_def add.commute)
    show ?thesis unfolding skip(2) using False i n by simp
  qed
qed

lemma stream_sends:
  assumes "check_upload_shape (ad_size dl) (ad_chunk_size dl) = Ok (ad_total_chunks dl)"
    and "length (ad_content dl) = unat (ad_size dl)" and "ad_cursor dl \<le> ad_total_chunks dl"
    and "unat (ad_total_chunks dl) - unat (ad_cursor dl) < k"
  shows "download_stream H k dl = Ok (map (sent_chunk H (ad_content dl) (unat (ad_chunk_size dl)))
    (filter (\<lambda>i. \<not> ad_have dl ! i) [unat (ad_cursor dl)..<unat (ad_total_chunks dl)]))"
  using assms
proof (induction k arbitrary: dl)
  case (Suc k)
  note n = next_chunk_sends [OF Suc.prems(1-3), of H]
  show ?case
  proof (cases "filter (\<lambda>i. \<not> ad_have dl ! i) [unat (ad_cursor dl)..<unat (ad_total_chunks dl)]")
    case Nil
    then show ?thesis using n by auto
  next
    case (Cons i rest)
    let ?dl = "dl\<lparr>ad_cursor := of_nat (i + 1)\<rparr>"
    have i: "next_chunk H False dl = (Ok (Some (sent_chunk H (ad_content dl) (unat (ad_chunk_size dl)) i)), ?dl)"
      "i < unat (ad_total_chunks dl)" "rest = filter (\<lambda>i. \<not> ad_have dl ! i) [i + 1..<unat (ad_total_chunks dl)]"
      using n Cons by simp_all
    have "i \<in> set (i # rest)" by simp
    then have ge: "unat (ad_cursor dl) \<le> i" unfolding Cons [symmetric] by simp
    have "i + 1 < 2 ^ 32" using i(2) unsigned_less [of "ad_total_chunks dl", where ?'a = nat] by simp
    then have u: "unat (of_nat (i + 1) :: u32) = i + 1" by (intro unat_of_nat_small) simp
    have "download_stream H k ?dl = Ok (map (sent_chunk H (ad_content ?dl) (unat (ad_chunk_size ?dl)))
        (filter (\<lambda>i. \<not> ad_have ?dl ! i) [unat (ad_cursor ?dl)..<unat (ad_total_chunks ?dl)]))"
      using Suc.prems i(2) ge u by (intro Suc.IH) (simp_all add: word_le_nat_alt)
    then show ?thesis using Cons i(1,3) u by simp
  qed
qed simp

end
