(* ===== verification/Client_Transfer.thy ===== *)
theory Client_Transfer
  imports Download
begin

text \<open>
  The client's transfer helpers (\<open>kdx-client-core/src/transfer.rs\<close>): chunk arithmetic, what it accepts of a
  server's answer, the resume sidecar of a partial download and the publication of a verified one.
\<close>

section \<open>Chunks\<close>

definition DEFAULT_CHUNK_SIZE :: u32 where "DEFAULT_CHUNK_SIZE = 32 * 1024"
definition TARGET_TOTAL_CHUNKS :: u32 where "TARGET_TOTAL_CHUNKS = 65536"

text \<open>The client's \<open>MIN_CHUNK_SIZE\<close>, \<open>MAX_CHUNK_SIZE\<close>, \<open>MAX_TRANSFER_SIZE\<close> and \<open>MAX_TOTAL_CHUNKS\<close>
  mirror the server's.\<close>

definition MIN_CHUNK_SIZE :: u32 where "MIN_CHUNK_SIZE = 4 * 1024"
definition MAX_CHUNK_SIZE :: u32 where "MAX_CHUNK_SIZE = 256 * 1024"
definition MAX_TRANSFER_SIZE :: u64 where "MAX_TRANSFER_SIZE = 16 * 1024 * 1024 * 1024"
definition CLIENT_MAX_TOTAL_CHUNKS :: u32 where "CLIENT_MAX_TOTAL_CHUNKS = 524280"

definition total_chunks :: "u64 \<Rightarrow> u32 \<Rightarrow> u32" where
  "total_chunks n chunk =
     (if n = 0 \<or> chunk = 0 then 0 else ucast (min (div_ceil n (ucast chunk)) (ucast (- 1 :: u32))))"

definition chunk_len :: "u64 \<Rightarrow> u32 \<Rightarrow> u32 \<Rightarrow> u32 \<Rightarrow> nat" where
  "chunk_len n chunk i chunks =
     (if chunks = 0 \<or> i \<ge> chunks then 0
      else if i = chunks - 1 then let rem = unat (n mod ucast chunk) in if rem = 0 then unat chunk else rem
      else unat chunk)"

definition bitmap_bytes :: "u32 \<Rightarrow> nat" where
  "bitmap_bytes chunks = (unat chunks + 7) div 8"

function grow_chunk :: "u64 \<Rightarrow> u32 \<Rightarrow> u32" where
  "grow_chunk n chunk =
     (if chunk < MAX_CHUNK_SIZE \<and> total_chunks n chunk > TARGET_TOTAL_CHUNKS \<and> chunk \<noteq> 0 then grow_chunk n (chunk * 2) else chunk)"
  by pat_completeness auto
termination
proof (relation "measure (\<lambda>(n, chunk). 2 ^ 18 - unat chunk)", goal_cases)
  case (2 n chunk)
  then have c: "unat chunk < 262144" "0 < unat chunk" by (auto simp: MAX_CHUNK_SIZE_def word_less_nat_alt unat_gt_0)
  then have "unat (chunk * 2) = unat chunk * 2" by (simp add: unat_word_ariths)
  with c show ?case by simp
qed simp

declare grow_chunk.simps [simp del]

definition choose_chunk_size :: "u64 \<Rightarrow> u32" where
  "choose_chunk_size n = grow_chunk n DEFAULT_CHUNK_SIZE"

definition show_u64 :: "u64 \<Rightarrow> string" where "show_u64 n = show_nat (unat n)"

definition validate_geometry :: "bool \<Rightarrow> u32 \<Rightarrow> u32 \<Rightarrow> u32 \<Rightarrow> u64 \<Rightarrow> nat \<Rightarrow> (unit, string) result" where
  "validate_geometry upload requested chunk chunks n echo_bitmap_len =
     (let quote = [CHR 0x27] in
      if \<not> (MIN_CHUNK_SIZE \<le> chunk \<and> chunk \<le> MAX_CHUNK_SIZE)
      then Err (''server chose an invalid chunk size ('' @ show_nat (unat chunk) @ '')'')
      else if upload \<and> chunk \<noteq> requested then Err ''server changed the upload chunk size''
      else if \<not> upload \<and> chunk < requested then Err ''server chose a smaller chunk size than requested''
      else if n > MAX_TRANSFER_SIZE then Err (''server announced an oversized file ('' @ show_u64 n @ '' bytes)'')
      else if chunks \<noteq> total_chunks n chunk then Err (''server'' @ quote @ ''s chunk count does not match the file size'')
      else if chunks > CLIENT_MAX_TOTAL_CHUNKS then Err ''server announced too many chunks''
      else if echo_bitmap_len > bitmap_bytes chunks
      then Err (''server'' @ quote @ ''s chunk bitmap is longer than the chunk count'')
      else Ok ())"

text \<open>A bitmap made coarser for progress events: a bit per group, set when the whole group is. The caller's
  \<open>max_bits\<close> is the constant 1024; the source would panic at 0.\<close>

function groups_of :: "nat \<Rightarrow> 'a list \<Rightarrow> 'a list list" where
  "groups_of k xs = (if xs = [] \<or> k = 0 then [] else take k xs # groups_of k (drop k xs))"
  by pat_completeness auto
termination by (relation "measure (\<lambda>(k, xs). length xs)") auto

declare groups_of.simps [simp del]

definition progress_bitmap :: "bool list \<Rightarrow> nat \<Rightarrow> bytes \<times> nat" where
  "progress_bitmap have max_bits =
     (if length have \<le> max_bits then (pack_bits have, length have)
      else
        let group = (length have + max_bits - 1) div max_bits;
            out = map (list_all (\<lambda>b. b)) (groups_of group have)
        in (pack_bits out, length out))"

section \<open>The sidecar\<close>

text \<open>The base64 of the crate \<open>base64\<close> and the printed form of identifiers are functions of a record.\<close>

record text_codecs =
  b64_encode :: "bytes \<Rightarrow> string"
  b64_decode :: "string \<Rightarrow> bytes option"
  uuid_show :: "bytes \<Rightarrow> string"
  uuid_parse :: "string \<Rightarrow> bytes option"

record Sidecar =
  sc_server :: string
  sc_remote :: string
  sc_destination :: string
  sc_transfer_id :: bytes
  sc_size :: u64
  sc_chunk_size :: u32
  sc_sha256 :: bytes
  sc_bitmap :: bytes

definition newline :: char where "newline = CHR 0x0A"

definition sidecar_line :: "string \<Rightarrow> string \<Rightarrow> string" where
  "sidecar_line key v = key @ ''='' @ v @ [newline]"

definition Sidecar_encode :: "text_codecs \<Rightarrow> Sidecar \<Rightarrow> string" where
  "Sidecar_encode tc sc =
     sidecar_line ''version'' ''3'' @
     sidecar_line ''server'' (b64_encode tc (as_bytes (sc_server sc))) @
     sidecar_line ''remote'' (b64_encode tc (as_bytes (sc_remote sc))) @
     sidecar_line ''destination'' (b64_encode tc (as_bytes (sc_destination sc))) @
     sidecar_line ''id'' (uuid_show tc (sc_transfer_id sc)) @
     sidecar_line ''size'' (show_nat (unat (sc_size sc))) @
     sidecar_line ''chunk_size'' (show_nat (unat (sc_chunk_size sc))) @
     sidecar_line ''sha256'' (b64_encode tc (sc_sha256 sc)) @
     sidecar_line ''bitmap'' (b64_encode tc (sc_bitmap sc))"

definition is_consistent :: "Sidecar \<Rightarrow> bool" where
  "is_consistent sc \<longleftrightarrow>
     (let chunks = total_chunks (sc_size sc) (sc_chunk_size sc) in
      MIN_CHUNK_SIZE \<le> sc_chunk_size sc \<and> sc_chunk_size sc \<le> MAX_CHUNK_SIZE \<and> sc_size sc \<le> MAX_TRANSFER_SIZE \<and>
      chunks \<le> CLIENT_MAX_TOTAL_CHUNKS \<and> length (sc_bitmap sc) = bitmap_bytes chunks)"

text \<open>\<open>str::lines\<close>: the pieces between line feeds, without a trailing carriage return; no piece after the
  last line feed if nothing follows it.\<close>

definition trim_cr :: "string \<Rightarrow> string" where
  "trim_cr s = (if s \<noteq> [] \<and> last s = CHR 0x0D then butlast s else s)"

definition text_lines :: "string \<Rightarrow> string list" where
  "text_lines s =
     (let parts = split_on newline s in
      map trim_cr (butlast parts) @ (if last parts = [] then [] else [last parts]))"

fun sidecar_fields :: "(string \<times> string) list \<Rightarrow> string list \<Rightarrow> (string \<times> string) list option" where
  "sidecar_fields found [] = Some found"
| "sidecar_fields found (line # lines) =
     (case split_once (CHR ''='') line of
        None \<Rightarrow> None
      | Some (k, v) \<Rightarrow> if map_of found k \<noteq> None then None else sidecar_fields ((k, v) # found) lines)"

definition SIDECAR_FIELDS :: nat where "SIDECAR_FIELDS = 9"

definition parse_u64 :: "string \<Rightarrow> u64 option" where
  "parse_u64 s =
     (let digits = (case s of c # rest \<Rightarrow> if c = CHR ''+'' then rest else s | [] \<Rightarrow> []) in
      if digits = [] then None
      else (case parse_digits 0 digits of
              Some n \<Rightarrow> if n < 2 ^ 64 then Some (of_nat n) else None
            | None \<Rightarrow> None))"

definition b64_text :: "text_codecs \<Rightarrow> string \<Rightarrow> string option" where
  "b64_text tc s = Option.bind (b64_decode tc s) (\<lambda>bs. if valid_utf8 bs then Some (str_of_bytes bs) else None)"

text \<open>A destination is any byte string (\<open>path_from_bytes\<close> on Unix).\<close>

definition Sidecar_decode :: "text_codecs \<Rightarrow> string \<Rightarrow> Sidecar option" where
  "Sidecar_decode tc text_in =
     Option.bind (sidecar_fields [] (text_lines text_in)) (\<lambda>found.
       if length found \<noteq> SIDECAR_FIELDS \<or> map_of found ''version'' \<noteq> Some ''3'' then None
       else
         Option.bind (Option.bind (map_of found ''server'') (b64_text tc)) (\<lambda>server.
         Option.bind (Option.bind (map_of found ''remote'') (b64_text tc)) (\<lambda>remote.
         Option.bind (Option.bind (map_of found ''destination'') (b64_decode tc)) (\<lambda>destination.
         Option.bind (Option.bind (map_of found ''id'') (uuid_parse tc)) (\<lambda>transfer_id.
         Option.bind (Option.bind (map_of found ''size'') parse_u64) (\<lambda>n.
         Option.bind (Option.bind (map_of found ''chunk_size'') parse_u32) (\<lambda>chunk_size.
         Option.bind (Option.bind (map_of found ''sha256'') (b64_decode tc)) (\<lambda>sha256.
           if length sha256 \<noteq> 32 then None
           else Option.bind (Option.bind (map_of found ''bitmap'') (b64_decode tc)) (\<lambda>bitmap.
             let sc = \<lparr>sc_server = server, sc_remote = remote, sc_destination = str_of_bytes destination,
                       sc_transfer_id = transfer_id, sc_size = n, sc_chunk_size = chunk_size, sc_sha256 = sha256, sc_bitmap = bitmap\<rparr>
             in if is_consistent sc then Some sc else None)))))))))"

section \<open>Publishing\<close>

datatype PublishMode = AutoPublish | ForceCopy | ForceInPlace

text \<open>What fails, and what a copy that failed had written.\<close>

record PublishFaults =
  pf_rename :: bool
  pf_open_source :: bool
  pf_temp :: bool
  pf_copy :: bool
  pf_torn :: bytes
  pf_temp_rename :: bool
  pf_open_dest :: bool
  pf_unlink :: "string \<Rightarrow> bool"

text \<open>The cases of \<open>ClientError\<close> a download meets; the text of an I/O error is left out.\<close>

datatype ClientError = ClientIo | ClientTransfer string | ClientInput string | ClientDisconnected

definition DownloadIncomplete :: ClientError where
  "DownloadIncomplete = ClientTransfer ''downloaded file is incomplete''"

definition DownloadChanged :: ClientError where
  "DownloadChanged = ClientTransfer ''downloaded file changed before it could be saved''"

definition unlink_file :: "PublishFaults \<Rightarrow> string \<Rightarrow> disk \<Rightarrow> disk" where
  "unlink_file fl path disk = (if pf_unlink fl path then disk else disk(path := None))"

text \<open>\<open>copy_verified\<close>: exactly the first \<open>n\<close> bytes, hashed on the way.\<close>

definition copy_verified ::
  "(bytes \<Rightarrow> bytes) \<Rightarrow> PublishFaults \<Rightarrow> bytes \<Rightarrow> string \<Rightarrow> nat \<Rightarrow> bytes \<Rightarrow> disk \<Rightarrow> (unit, ClientError) result \<times> disk" where
  "copy_verified H fl source dest n sha256 disk =
     (if pf_copy fl then (Err ClientIo, disk(dest \<mapsto> pf_torn fl))
      else if length source < n then (Err DownloadIncomplete, disk(dest \<mapsto> source))
      else if H (take n source) \<noteq> sha256 then (Err DownloadChanged, disk(dest \<mapsto> take n source))
      else (Ok (), disk(dest \<mapsto> take n source)))"

text \<open>\<open>tmp\<close>: the name drawn for a temporary file beside the destination, not in use.\<close>

definition copy_into_place ::
  "(bytes \<Rightarrow> bytes) \<Rightarrow> PublishFaults \<Rightarrow> string \<Rightarrow> string \<Rightarrow> string \<Rightarrow> nat \<Rightarrow> bytes \<Rightarrow> bool \<Rightarrow> disk \<Rightarrow> (unit, ClientError) result \<times> disk" where
  "copy_into_place H fl tmp data destination n sha256 via_temp disk =
     (case (if pf_open_source fl then None else disk data) of
        None \<Rightarrow> (Err ClientIo, disk)
      | Some source \<Rightarrow>
          if via_temp \<and> \<not> pf_temp fl then
            (case copy_verified H fl source tmp n sha256 disk of
               (Ok _, disk) \<Rightarrow>
                 if pf_temp_rename fl then (Err ClientIo, unlink_file fl tmp disk)
                 else (Ok (), disk(tmp := None, destination := disk tmp))
             | (Err e, disk) \<Rightarrow> (Err e, unlink_file fl tmp disk)
             | (Panic, disk) \<Rightarrow> (Panic, disk))
          else if pf_open_dest fl then (Err ClientIo, disk)
          else
            (case copy_verified H fl source destination n sha256 disk of
               (Ok _, disk) \<Rightarrow> (Ok (), disk)
             | (Err e, disk) \<Rightarrow> (Err e, unlink_file fl destination disk)
             | (Panic, disk) \<Rightarrow> (Panic, disk)))"

definition publish_download ::
  "(bytes \<Rightarrow> bytes) \<Rightarrow> PublishFaults \<Rightarrow> string \<Rightarrow> string \<Rightarrow> string \<Rightarrow> nat \<Rightarrow> bytes \<Rightarrow> PublishMode \<Rightarrow> disk \<Rightarrow> (unit, ClientError) result \<times> disk" where
  "publish_download H fl tmp data destination n sha256 mode disk =
     (if mode = AutoPublish \<and> \<not> pf_rename fl \<and> disk data \<noteq> None
      then (Ok (), disk(data := None, destination := disk data))
      else case copy_into_place H fl tmp data destination n sha256 (mode \<noteq> ForceInPlace) disk of
        (Ok _, disk) \<Rightarrow> (Ok (), unlink_file fl data disk)
      | (Err e, disk) \<Rightarrow> (Err e, disk)
      | (Panic, disk) \<Rightarrow> (Panic, disk))"

text \<open>\<open>hash_download\<close>: what lies beyond the size is cut off first.\<close>

definition hash_download :: "(bytes \<Rightarrow> bytes) \<Rightarrow> bool \<Rightarrow> string \<Rightarrow> nat \<Rightarrow> disk \<Rightarrow> (bytes, ClientError) result \<times> disk" where
  "hash_download H fault path n disk =
     (case (if fault then None else disk path) of
        None \<Rightarrow> (Err ClientIo, disk)
      | Some content \<Rightarrow>
          if length content < n then (Err DownloadIncomplete, disk)
          else (Ok (H (take n content)), disk(path \<mapsto> take n content)))"

section \<open>Names of partial downloads\<close>

definition PARTIAL_ID_HEX :: nat where "PARTIAL_ID_HEX = 32"

definition is_partial_id :: "string \<Rightarrow> bool" where
  "is_partial_id s \<longleftrightarrow> length s = PARTIAL_ID_HEX \<and>
     list_all (\<lambda>c. CHR ''0'' \<le> c \<and> c \<le> CHR ''9'' \<or> CHR ''a'' \<le> c \<and> c \<le> CHR ''f'') s"

definition strip_prefix :: "string \<Rightarrow> string \<Rightarrow> string option" where
  "strip_prefix p s = (if prefix p s then Some (drop (length p) s) else None)"

definition strip_suffix :: "string \<Rightarrow> string \<Rightarrow> string option" where
  "strip_suffix p s = (if suffix p s then Some (take (length s - length p) s) else None)"

definition is_hex :: "char \<Rightarrow> bool" where
  "is_hex c \<longleftrightarrow> CHR ''0'' \<le> c \<and> c \<le> CHR ''9'' \<or> CHR ''a'' \<le> c \<and> c \<le> CHR ''f'' \<or> CHR ''A'' \<le> c \<and> c \<le> CHR ''F''"

text \<open>The bytes of an identifier are ASCII, so where the source would refuse to cut a character the
  identifier test fails as well.\<close>

definition partial_file_id :: "string \<Rightarrow> string option" where
  "partial_file_id name =
     (case strip_prefix ''.'' name of
        Some rest \<Rightarrow>
          if length rest < PARTIAL_ID_HEX then None
          else
            let i = take PARTIAL_ID_HEX rest; tail = drop PARTIAL_ID_HEX rest in
            Option.bind (Option.bind (strip_prefix ''.kdxpart'' tail) (strip_prefix ''.tmp-''))
              (\<lambda>uuid. if is_partial_id i \<and> length uuid = 32 \<and> list_all is_hex uuid then Some i else None)
      | None \<Rightarrow>
          Option.bind (case strip_suffix ''.kdxdata'' name of Some i \<Rightarrow> Some i | None \<Rightarrow> strip_suffix ''.kdxpart'' name)
            (\<lambda>i. if is_partial_id i then Some i else None))"

text \<open>\<open>sweep_stale_partials\<close> over the entries of the directory, each with its modification time: the files of
  an identifier go together, once the newest of them is older than \<open>max_age\<close>.\<close>

definition newest_of :: "(string \<times> nat) list \<Rightarrow> string \<Rightarrow> nat" where
  "newest_of entries i = fold max (map snd (filter (\<lambda>(name, _). partial_file_id name = Some i) entries)) 0"

definition swept_names :: "nat \<Rightarrow> nat \<Rightarrow> (string \<times> nat) list \<Rightarrow> string list" where
  "swept_names now max_age entries =
     map fst (filter (\<lambda>(name, _). case partial_file_id name of
        Some i \<Rightarrow> newest_of entries i \<le> now \<and> now - newest_of entries i > max_age | None \<Rightarrow> False) entries)"

section \<open>What the two sides agree on\<close>

lemma total_chunks_count:
  assumes "check_upload_shape n chunk = Ok k"
  shows "total_chunks n chunk = k"
proof -
  note s = check_upload_shape_Ok [OF assms]
  have c: "0 < unat chunk" "1 \<le> chunk" "chunk \<noteq> 0" using s by (auto simp: MIN_CHUNK_def word_le_nat_alt)
  have k: "unat k \<le> 524280" using s by (simp add: MAX_TOTAL_CHUNKS_def word_le_nat_alt)
  have "max chunk 1 = chunk" using c(2) by (simp add: max_def)
  then have d: "unat (div_ceil n (ucast chunk)) = unat k"
    using unat_chunk_count [OF c(2), of n] s by (simp add: chunk_count_def)
  show ?thesis
  proof (cases "n = 0")
    case True
    then have "unat k = 0" using s c(1) by simp
    then show ?thesis using True by (simp add: total_chunks_def unat_eq_0)
  next
    case False
    have "div_ceil n (ucast chunk) \<le> ucast (- 1 :: u32)" using d k by (simp add: word_le_nat_alt unsigned_minus_1_eq_mask mask_eq_exp_minus_1)
    then have "total_chunks n chunk = ucast (div_ceil n (ucast chunk))" using False c(3) by (simp add: total_chunks_def min_def)
    moreover have "unat (ucast (div_ceil n (ucast chunk)) :: u32) = unat k" using d k by (subst u32_of_u64) simp_all
    ultimately show ?thesis by (simp add: word_unat_eq_iff)
  qed
qed

lemma shape_valid:
  assumes "check_upload_shape n chunk = Ok k" and "upload \<longrightarrow> chunk = requested" and "\<not> upload \<longrightarrow> requested \<le> chunk"
    and "len \<le> bitmap_bytes k"
  shows "validate_geometry upload requested chunk k n len = Ok ()"
proof -
  note s = check_upload_shape_Ok [OF assms(1)]
  have "MIN_CHUNK_SIZE \<le> chunk" "chunk \<le> MAX_CHUNK_SIZE" "n \<le> MAX_TRANSFER_SIZE" "k \<le> CLIENT_MAX_TOTAL_CHUNKS"
    using s by (simp_all add: MIN_CHUNK_def MIN_CHUNK_SIZE_def MAX_CHUNK_def MAX_CHUNK_SIZE_def MAX_FILE_SIZE_def
        MAX_TRANSFER_SIZE_def MAX_TOTAL_CHUNKS_def CLIENT_MAX_TOTAL_CHUNKS_def)
  then show ?thesis
    using assms(2-4) total_chunks_count [OF assms(1)] by (auto simp: validate_geometry_def Let_def)
qed

lemma grown:
  assumes "chunk \<in> {32768, 65536, 131072, 262144}"
  shows "grow_chunk n chunk \<in> {32768, 65536, 131072, 262144} \<and>
    (grow_chunk n chunk = 262144 \<or> total_chunks n (grow_chunk n chunk) \<le> 65536)"
  using assms
proof (induction n chunk rule: grow_chunk.induct)
  case (1 n chunk)
  show ?case
  proof (cases "chunk < MAX_CHUNK_SIZE \<and> total_chunks n chunk > TARGET_TOTAL_CHUNKS \<and> chunk \<noteq> 0")
    case True
    then have "chunk * 2 \<in> {32768, 65536, 131072, 262144}" using 1(2) by (auto simp: MAX_CHUNK_SIZE_def)
    note ih = 1(1) [OF True this]
    have "grow_chunk n chunk = grow_chunk n (chunk * 2)" using True by (subst grow_chunk.simps) simp
    with ih show ?thesis by (simp only:)
  next
    case False
    then have eq: "grow_chunk n chunk = chunk" by (subst grow_chunk.simps) (auto simp only: if_False split: if_split)
    show ?thesis unfolding eq using False 1(2) by (auto simp: MAX_CHUNK_SIZE_def TARGET_TOTAL_CHUNKS_def)
  qed
qed

lemma chosen_shape:
  assumes "n \<le> MAX_FILE_SIZE"
  shows "check_upload_shape n (choose_chunk_size n) = Ok (total_chunks n (choose_chunk_size n))"
proof -
  let ?c = "choose_chunk_size n"
  have c: "?c \<in> {32768, 65536, 131072, 262144}" "?c = 262144 \<or> total_chunks n ?c \<le> 65536"
    using grown [of 32768 n] by (simp_all add: choose_chunk_size_def DEFAULT_CHUNK_SIZE_def)
  then have bounds: "MIN_CHUNK \<le> ?c" "?c \<le> MAX_CHUNK" "1 \<le> ?c" "?c \<noteq> 0" "32768 \<le> unat ?c"
    by (auto simp: MIN_CHUNK_def MAX_CHUNK_def)
  have n: "unat n \<le> 17179869184" using assms by (simp add: MAX_FILE_SIZE_def word_le_nat_alt)
  have u: "unat (chunk_count n ?c) = (unat n + unat ?c - 1) div unat ?c" by (rule unat_chunk_count [OF bounds(3)])
  have eq: "chunk_count n ?c = div_ceil n (ucast ?c)" using bounds(3) by (simp add: chunk_count_def max_def)
  have "unat (chunk_count n ?c) \<le> (unat n + unat ?c - 1) div 32768" unfolding u by (rule div_le_mono2) (use bounds in simp_all)
  also have "\<dots> \<le> (17179869184 + 262144) div 32768"
    using n bounds(2) by (intro div_le_mono) (simp add: MAX_CHUNK_def word_le_nat_alt)
  finally have small: "unat (chunk_count n ?c) < 2 ^ 32" by simp
  have t: "total_chunks n ?c = ucast (chunk_count n ?c)"
  proof (cases "n = 0")
    case False
    have "chunk_count n ?c \<le> ucast (- 1 :: u32)"
      using small by (simp add: word_le_nat_alt unsigned_minus_1_eq_mask mask_eq_exp_minus_1)
    then show ?thesis using False bounds(4) by (simp add: total_chunks_def eq min_def)
  qed (simp add: total_chunks_def chunk_count_def div_ceil_def)
  have "unat (chunk_count n ?c) \<le> 65536"
    using c(2)
  proof
    assume "?c = 262144"
    then show ?thesis using n unfolding u by simp
  next
    assume "total_chunks n ?c \<le> 65536"
    then show ?thesis using u32_of_u64 [OF small] by (simp add: t word_le_nat_alt)
  qed
  then have "chunk_count n ?c \<le> ucast MAX_TOTAL_CHUNKS" by (simp add: word_le_nat_alt MAX_TOTAL_CHUNKS_def)
  then show ?thesis using assms bounds by (simp add: check_upload_shape_def t not_less Let_def)
qed

lemma echoed_fits: "length (echoed_bitmap (unat k) bs) \<le> bitmap_bytes k"
  by (auto simp: echoed_bitmap_def bitmap_bytes_def Let_def)

lemma pack_bits_length: "length (pack_bits bits) = (length bits + 7) div 8"
proof (induction bits rule: pack_bits.induct)
  case (1 bits)
  show ?case
  proof (cases "bits = []")
    case False
    then have "length (pack_bits bits) = 1 + (length bits - 8 + 7) div 8" using 1 by (simp add: pack_bits.simps [of bits])
    also have "\<dots> = (length bits + 7) div 8" using False by (cases bits) (auto, presburger)
    finally show ?thesis .
  qed (simp add: pack_bits.simps)
qed

text \<open>Property C38. Server and client agree on the geometry: for every file within the cap, the chunk size a
  client picks is one the server takes for an upload, and the chunk size the server picks for a
  download, fresh or resumed, with the count and the bitmap it announces, passes every check the
  client makes before it touches its disk.\<close>

theorem geometry_agreed:
  assumes "n \<le> MAX_FILE_SIZE"
  shows "(\<exists>k. check_upload_shape n (choose_chunk_size n) = Ok k \<and>
      (\<forall>bits. length bits = unat k \<longrightarrow>
        validate_geometry True (choose_chunk_size n) (choose_chunk_size n) k n (length (pack_bits bits)) = Ok ())) \<and>
    (MIN_CHUNK \<le> requested \<longrightarrow> requested \<le> MAX_CHUNK \<longrightarrow> download_chunk_size n requested resuming = Ok chunk \<longrightarrow>
      (\<exists>k. k = ucast (chunk_count n chunk) \<and>
        validate_geometry False requested chunk k n (length (echoed_bitmap (unat k) client_bitmap)) = Ok ()))"
proof (intro conjI impI exI)
  show "check_upload_shape n (choose_chunk_size n) = Ok (total_chunks n (choose_chunk_size n))" by (rule chosen_shape [OF assms])
  show "\<forall>bits. length bits = unat (total_chunks n (choose_chunk_size n)) \<longrightarrow>
      validate_geometry True (choose_chunk_size n) (choose_chunk_size n) (total_chunks n (choose_chunk_size n)) n (length (pack_bits bits)) = Ok ()"
    by (auto intro!: shape_valid [OF chosen_shape [OF assms]] simp: pack_bits_length bitmap_bytes_def)
next
  assume "MIN_CHUNK \<le> requested" "requested \<le> MAX_CHUNK" "download_chunk_size n requested resuming = Ok chunk"
  from download_shape [OF this(3,1,2) assms]
  show "validate_geometry False requested chunk (ucast (chunk_count n chunk)) n
      (length (echoed_bitmap (unat (ucast (chunk_count n chunk) :: u32)) client_bitmap)) = Ok ()"
    by (intro shape_valid) (simp_all add: echoed_fits)
qed simp


lemma geometry_agreed_witness: "validate_geometry False 4096 4096 2 5000 1 = Ok ()"
proof -
  have "5000 \<le> MAX_FILE_SIZE" "MIN_CHUNK \<le> 4096" "4096 \<le> MAX_CHUNK" by (simp_all add: MAX_FILE_SIZE_def MIN_CHUNK_def MAX_CHUNK_def)
  moreover have "download_chunk_size 5000 4096 False = Ok 4096" "chunk_count 5000 4096 = 2"
    "length (echoed_bitmap (unat (ucast (2 :: u64) :: u32)) []) = 1" by code_simp+
  ultimately show ?thesis using geometry_agreed [of 5000 4096 False 4096 "[]"] by simp
qed

section \<open>A verified download is published whole\<close>

lemma copy_verified_result:
  "copy_verified H fl source dest n sha256 disk = (r, disk') \<Longrightarrow>
    (\<forall>p. p \<noteq> dest \<longrightarrow> disk' p = disk p) \<and> r \<noteq> Panic \<and>
    (r = Ok () \<longrightarrow> disk' dest = Some (take n source) \<and> H (take n source) = sha256 \<and> n \<le> length source)"
  by (auto simp: copy_verified_def split: if_splits)

lemma copied:
  assumes "copy_into_place H fl tmp data destination n sha256 via_temp disk = (r, disk')"
    and "data \<noteq> destination" and "data \<noteq> tmp" and "tmp \<noteq> destination"
  shows "disk' data = disk data \<and> r \<noteq> Panic \<and>
    (r = Ok () \<longrightarrow> (\<exists>content. disk' destination = Some content \<and> length content = n \<and> H content = sha256))"
proof -
  consider "(if pf_open_source fl then None else disk data) = None"
    | source where "(if pf_open_source fl then None else disk data) = Some source" by blast
  then show ?thesis
  proof cases
    case (2 source)
    obtain r1 d1 where t: "copy_verified H fl source tmp n sha256 disk = (r1, d1)" by fastforce
    obtain r2 d2 where d: "copy_verified H fl source destination n sha256 disk = (r2, d2)" by fastforce
    note t' = copy_verified_result [OF t] and d' = copy_verified_result [OF d]
    show ?thesis
    proof (cases "via_temp \<and> \<not> pf_temp fl")
      case True
      then have e: "(r, disk') = (case r1 of
          Ok _ \<Rightarrow> if pf_temp_rename fl then (Err ClientIo, unlink_file fl tmp d1) else (Ok (), d1(tmp := None, destination := d1 tmp))
        | Err e \<Rightarrow> (Err e, unlink_file fl tmp d1) | Panic \<Rightarrow> (Panic, d1))"
        using assms(1) 2 unfolding copy_into_place_def by (simp only: option.case if_True prod.case t simp_thms)
      have u: "unlink_file fl tmp d1 data = d1 data" using assms(3) by (simp add: unlink_file_def)
      show ?thesis using e t' u assms(2-4) by (cases r1; cases "pf_temp_rename fl") simp_all
    next
      case via: False
      show ?thesis
      proof (cases "pf_open_dest fl")
        case True
        then show ?thesis using assms(1) 2 via unfolding copy_into_place_def by (simp only: option.case if_False if_True) auto
      next
        case False
        then have e: "(r, disk') = (case r2 of
            Ok _ \<Rightarrow> (Ok (), d2) | Err e \<Rightarrow> (Err e, unlink_file fl destination d2) | Panic \<Rightarrow> (Panic, d2))"
          using assms(1) 2 via unfolding copy_into_place_def by (simp only: option.case if_False prod.case d simp_thms)
        have u: "unlink_file fl destination d2 data = d2 data" using assms(2) by (simp add: unlink_file_def)
        show ?thesis using e d' u assms(2-4) by (cases r2) simp_all
      qed
    qed
  qed (use assms in \<open>auto simp: copy_into_place_def\<close>)
qed

lemma hashed:
  "hash_download H fault path n disk = (Ok sha256, disk') \<Longrightarrow>
    \<exists>content. disk' path = Some content \<and> length content = n \<and> H content = sha256"
  by (auto simp: hash_download_def split: option.splits if_splits)

text \<open>A verified download is published whole or kept: once the partial file hashes to the announced hash,
  publishing it - by a rename, by a copy through a temporary file or straight into the destination -
  either leaves at the destination a file of the announced size with that hash, or fails and leaves the
  partial file as it was, whatever step fails.\<close>

lemma published_whole_or_kept:
  assumes "hash_download H fault data n disk0 = (Ok sha256, disk)"
    and "publish_download H fl tmp data destination n sha256 mode disk = (r, disk')"
    and "data \<noteq> destination" and "data \<noteq> tmp" and "tmp \<noteq> destination"
  shows "(r = Ok () \<and> (\<exists>content. disk' destination = Some content \<and> length content = n \<and> H content = sha256)) \<or>
    (\<exists>e. r = Err e \<and> disk' data = disk data)"
proof (cases "mode = AutoPublish \<and> \<not> pf_rename fl \<and> disk data \<noteq> None")
  case True
  then show ?thesis using assms(2,3) hashed [OF assms(1)] by (auto simp: publish_download_def)
next
  case False
  obtain r1 d1 where c: "copy_into_place H fl tmp data destination n sha256 (mode \<noteq> ForceInPlace) disk = (r1, d1)" by fastforce
  have "(r, disk') = (case r1 of Ok _ \<Rightarrow> (Ok (), unlink_file fl data d1) | Err e \<Rightarrow> (Err e, d1) | Panic \<Rightarrow> (Panic, d1))"
    using False assms(2) unfolding publish_download_def c by (simp only: if_False prod.case)
  then show ?thesis using copied [OF c assms(3-5)] assms(3) by (cases r1) (auto simp: unlink_file_def)
qed

end
