(* ===== verification/Client_Sidecar.thy ===== *)
theory Client_Sidecar
  imports Client_Transfer Scram
begin

text \<open>
  The resume sidecar reads back as it was written.
\<close>

definition clean_text :: "string \<Rightarrow> bool" where
  "clean_text s \<longleftrightarrow> newline \<notin> set s \<and> CHR 0x0D \<notin> set s"

text \<open>What is used of the crates \<open>base64\<close> and \<open>uuid\<close>: what they print is one line and parses back.\<close>

definition codec_laws :: "text_codecs \<Rightarrow> bool" where
  "codec_laws tc \<longleftrightarrow>
     (\<forall>bs. b64_decode tc (b64_encode tc bs) = Some bs \<and> clean_text (b64_encode tc bs)) \<and>
     (\<forall>bs. length bs = 16 \<longrightarrow> uuid_parse tc (uuid_show tc bs) = Some bs \<and> clean_text (uuid_show tc bs))"

declare split_on_not_Nil [simp]

lemma text_lines_line:
  assumes "clean_text v" and "clean_text key"
  shows "text_lines (sidecar_line key v @ s) = (key @ ''='' @ v) # text_lines s"
proof -
  let ?l = "key @ ''='' @ v"
  have n: "newline \<notin> set ?l" using assms by (auto simp: clean_text_def newline_def)
  have "split_on newline (sidecar_line key v @ s) = ?l # split_on newline s"
    using split_on_append [OF n, of s] by (simp add: sidecar_line_def)
  moreover have "trim_cr ?l = ?l"
  proof (cases "v = []")
    case False
    then have "last v \<in> set v" by simp
    then have "last v \<noteq> CHR 0x0D" using assms(1) unfolding clean_text_def by metis
    then have "last ?l \<noteq> CHR 0x0D" using False by simp
    then show ?thesis unfolding trim_cr_def by (simp only: simp_thms if_False)
  qed (simp add: trim_cr_def)
  ultimately show ?thesis by (simp add: text_lines_def Let_def)
qed

lemma text_lines_Nil [simp]: "text_lines [] = []"
  by (simp add: text_lines_def)

lemma show_nat_line: "clean_text (show_nat n)"
  using show_nat_digits [of _ n] by (force simp: clean_text_def newline_def)

lemma parse_u64_show: "parse_u64 (show_nat (unat (x :: u64))) = Some x"
proof -
  have "unat x < 2 ^ 64" using unsigned_less [of x] by simp
  moreover have "(case show_nat (unat x) of c # rest \<Rightarrow> if c = CHR ''+'' then rest else show_nat (unat x) | [] \<Rightarrow> []) = show_nat (unat x)"
    using show_nat_clean(4) [of "unat x"] by (cases "show_nat (unat x)") auto
  ultimately show ?thesis by (simp add: parse_u64_def parse_show_nat)
qed

lemma fields_lines:
  "\<forall>(k, v)\<in>set kvs. CHR ''='' \<notin> set k \<Longrightarrow> distinct (map fst kvs @ map fst found) \<Longrightarrow>
    sidecar_fields found (map (\<lambda>(k, v). k @ ''='' @ v) kvs) = Some (rev kvs @ found)"
proof (induction kvs arbitrary: found)
  case (Cons kv kvs)
  obtain k v where kv: "kv = (k, v)" by fastforce
  have "split_once (CHR ''='') (k @ ''='' @ v) = Some (k, v)" using split_once_append [of "CHR ''=''" k v] Cons.prems kv by simp
  moreover have "map_of found k = None" using Cons.prems(2) kv by (auto simp: map_of_eq_None_iff)
  moreover have "sidecar_fields ((k, v) # found) (map (\<lambda>(k, v). k @ ''='' @ v) kvs) = Some (rev kvs @ (k, v) # found)"
    by (rule Cons.IH) (use Cons.prems kv in auto)
  ultimately show ?case by (simp add: kv)
qed simp

lemma encoded_fields:
  assumes "codec_laws tc" and "length (sc_transfer_id sc) = 16"
  shows "sidecar_fields [] (text_lines (Sidecar_encode tc sc)) = Some (rev
    [(''version'', ''3''), (''server'', b64_encode tc (as_bytes (sc_server sc))), (''remote'', b64_encode tc (as_bytes (sc_remote sc))),
     (''destination'', b64_encode tc (as_bytes (sc_destination sc))), (''id'', uuid_show tc (sc_transfer_id sc)),
     (''size'', show_nat (unat (sc_size sc))), (''chunk_size'', show_nat (unat (sc_chunk_size sc))),
     (''sha256'', b64_encode tc (sc_sha256 sc)), (''bitmap'', b64_encode tc (sc_bitmap sc))])"
proof -
  have b: "clean_text (b64_encode tc bs)" for bs using assms(1) by (simp add: codec_laws_def)
  have i: "clean_text (uuid_show tc (sc_transfer_id sc))" using assms by (simp add: codec_laws_def)
  have k: "clean_text ''version''" "clean_text ''3''" "clean_text ''server''" "clean_text ''remote''" "clean_text ''destination''"
    "clean_text ''id''" "clean_text ''size''" "clean_text ''chunk_size''" "clean_text ''sha256''" "clean_text ''bitmap''"
    by (simp_all add: clean_text_def newline_def)
  have one: "text_lines (sidecar_line key v) = [key @ ''='' @ v]" if "clean_text v" "clean_text key" for key v
    using text_lines_line [OF that, of "[]"] by simp
  let ?kvs = "[(''version'', ''3''), (''server'', b64_encode tc (as_bytes (sc_server sc))), (''remote'', b64_encode tc (as_bytes (sc_remote sc))),
     (''destination'', b64_encode tc (as_bytes (sc_destination sc))), (''id'', uuid_show tc (sc_transfer_id sc)),
     (''size'', show_nat (unat (sc_size sc))), (''chunk_size'', show_nat (unat (sc_chunk_size sc))),
     (''sha256'', b64_encode tc (sc_sha256 sc)), (''bitmap'', b64_encode tc (sc_bitmap sc))]"
  have "text_lines (Sidecar_encode tc sc) = map (\<lambda>(k, v). k @ ''='' @ v) ?kvs"
    unfolding Sidecar_encode_def list.map prod.case
    by (simp only: text_lines_line [OF b k(3)] text_lines_line [OF b k(4)] text_lines_line [OF b k(5)] text_lines_line [OF i k(6)]
        text_lines_line [OF k(2,1)] text_lines_line [OF show_nat_line k(7)] text_lines_line [OF show_nat_line k(8)]
        text_lines_line [OF b k(9)] one [OF b k(10)])
  moreover have "sidecar_fields [] (map (\<lambda>(k, v). k @ ''='' @ v) ?kvs) = Some (rev ?kvs @ [])"
    by (rule fields_lines) simp_all
  ultimately show ?thesis by (simp only: append_Nil2)
qed

text \<open>Property C39. A sidecar reads back: what is written for a partial download whose geometry is
  consistent decodes to the same server, path, destination, identifier, size, chunk size, hash and
  bitmap.\<close>

theorem sidecar_roundtrip:
  assumes "codec_laws tc" and "is_consistent sc" and "length (sc_transfer_id sc) = 16" and "length (sc_sha256 sc) = 32"
    and "utf8 (sc_server sc)" and "utf8 (sc_remote sc)"
  shows "Sidecar_decode tc (Sidecar_encode tc sc) = Some sc"
proof -
  have "b64_decode tc (b64_encode tc bs) = Some bs" for bs using assms(1) by (simp add: codec_laws_def)
  moreover have "uuid_parse tc (uuid_show tc (sc_transfer_id sc)) = Some (sc_transfer_id sc)" using assms(1,3) by (simp add: codec_laws_def)
  moreover have eta: "\<lparr>sc_server = sc_server sc, sc_remote = sc_remote sc, sc_destination = sc_destination sc,
      sc_transfer_id = sc_transfer_id sc, sc_size = sc_size sc, sc_chunk_size = sc_chunk_size sc, sc_sha256 = sc_sha256 sc,
      sc_bitmap = sc_bitmap sc\<rparr> = sc" by simp
  ultimately show ?thesis
    using assms(2,4-6)
    by (simp add: eta Sidecar_decode_def encoded_fields [OF assms(1,3)] SIDECAR_FIELDS_def b64_text_def parse_u64_show parse_u32_show Let_def)
qed

definition example_codecs :: text_codecs where
  "example_codecs = \<lparr>b64_encode = to_hex, b64_decode = from_hex, uuid_show = to_hex, uuid_parse = from_hex\<rparr>"

definition example_sidecar :: Sidecar where
  "example_sidecar = \<lparr>sc_server = ''h:5500'', sc_remote = ''/a'', sc_destination = ''/d/a'', sc_transfer_id = replicate 16 1, sc_size = 5000,
     sc_chunk_size = 4096, sc_sha256 = replicate 32 7, sc_bitmap = [1]\<rparr>"

lemma to_hex_line: "clean_text (to_hex bs)"
proof -
  have "nibble c \<noteq> None" if c: "c \<in> set (to_hex bs)" for c
  proof -
    from c obtain b where "c = hex_digit (drop_bit 4 b) \<or> c = hex_digit (b AND 0x0F)" by (auto simp: to_hex_def)
    moreover have "unat (drop_bit 4 b) < 16" "unat (b AND 0x0F) < 16" using nibble_bounds [of b] by simp_all
    ultimately show ?thesis using nibble_hex_digit by auto
  qed
  moreover have "nibble newline = None" "nibble (CHR 0x0D) = None" by (simp_all add: nibble_def newline_def)
  ultimately show ?thesis by (force simp: clean_text_def)
qed

lemma sidecar_roundtrip_witness:
  "Sidecar_decode example_codecs (Sidecar_encode example_codecs example_sidecar) = Some example_sidecar"
proof (rule sidecar_roundtrip)
  have "from_hex (to_hex bs) = Some bs" for bs by (simp add: from_hex_def length_to_hex hex_pairs_to_hex)
  then show "codec_laws example_codecs" by (simp add: codec_laws_def example_codecs_def to_hex_line)
qed (code_simp)+

end
