(* ===== verification/Client_Download.thy ===== *)
theory Client_Download
  imports Client_Sidecar Msg_File
begin

text \<open>
  The download state machine of the client's connection actor (\<open>kdx-client-core/src/actor.rs\<close>). Its state
  is the part of the actor a download uses and the file system; each handler gives what it sends,
  reports and answers and the new state. A reply to a request comes with the generation of the
  request it answers. Outcomes of the operating system are a record of faults; a write of the sidecar
  that is spawned is done when it is spawned, or fails, and nothing else removes the file that is being
  written. \<open>Progress\<close> stands for an event that is sent unless one was sent just before.
\<close>

section \<open>State\<close>

datatype Stage = AwaitingAccept | Running | Verifying

datatype Cleanup = KeepPartial | DiscardPartial

record DownloadJob =
  dj_remote_path :: string
  dj_local :: string
  dj_data :: string
  dj_sidecar :: string
  dj_expected_size :: "u64 option"
  dj_requested_chunk :: u32
  dj_resume :: "Sidecar option"
  dj_accepted :: bool
  dj_round :: nat
  dj_open :: bool
  dj_id :: bytes
  dj_size :: u64
  dj_chunk_size :: u32
  dj_total :: u32
  dj_sha256 :: bytes
  dj_have :: "bool list"
  dj_unsaved_chunks :: u32
  dj_last_sidecar :: nat

record ClientTransfer =
  ct_gen :: nat
  ct_stage :: Stage
  ct_job :: DownloadJob

datatype Blocking = VerifyTask string u64 | PublishTask string string u64 bytes

record Client =
  cl_server_id :: string
  cl_transfers_dir :: "string option"
  cl_publish :: PublishMode
  cl_transfer :: "ClientTransfer option"
  cl_blocking :: "Blocking option"
  cl_abandoned :: "bytes list"
  cl_gen :: nat
  cl_disk :: disk

datatype ClientAction =
    SendRequest TransferRequest
  | SendEnd TransferEnd
  | Complete bytes u8 "ClientError option"
  | Answer "(unit, ClientError) result"
  | Progress

datatype send_outcome = Sent | SendRejected ClientError | SendFatal

record DownloadFaults =
  df_mkdir :: bool
  df_open :: bool
  df_write :: bool
  df_flush :: bool
  df_sidecar :: bool
  df_unlink :: "string \<Rightarrow> bool"

definition SIDECAR_EVERY_CHUNKS :: u32 where "SIDECAR_EVERY_CHUNKS = 64"
definition SIDECAR_EVERY :: nat where "SIDECAR_EVERY = 2 * 10 ^ 9"
definition MAX_DOWNLOAD_ROUNDS :: nat where "MAX_DOWNLOAD_ROUNDS = 2"
definition MAX_ABANDONED :: nat where "MAX_ABANDONED = 16"
definition MAX_SIDECAR_BYTES :: nat where "MAX_SIDECAR_BYTES = 256 * 1024"
definition DIRECTION_DOWNLOAD :: u8 where "DIRECTION_DOWNLOAD = 1"
definition TRANSFER_VERIFIED :: u8 where "TRANSFER_VERIFIED = 0"
definition TRANSFER_ABORTED :: u8 where "TRANSFER_ABORTED = 2"

section \<open>Partial downloads on disk\<close>

definition partial_id :: "(bytes \<Rightarrow> bytes) \<Rightarrow> string \<Rightarrow> string \<Rightarrow> string \<Rightarrow> string" where
  "partial_id H server remote destination =
     to_hex (take (PARTIAL_ID_HEX div 2) (H (as_bytes ''kdx-partial-download-v1'' @
       concat (map (\<lambda>field. put_u64 (of_nat (length field)) @ as_bytes field) [server, remote, destination]))))"

text \<open>\<open>PartialPaths::new\<close>: the data file and the sidecar.\<close>

definition partial_paths :: "(bytes \<Rightarrow> bytes) \<Rightarrow> string \<Rightarrow> string \<Rightarrow> string \<Rightarrow> string \<Rightarrow> string \<times> string" where
  "partial_paths H dir server remote destination =
     (let i = partial_id H server remote destination
      in (path_join dir (i @ ''.kdxdata''), path_join dir (i @ ''.kdxpart'')))"

definition read_sidecar :: "text_codecs \<Rightarrow> disk \<Rightarrow> string \<Rightarrow> Sidecar option" where
  "read_sidecar tc disk path =
     Option.bind (disk path) (\<lambda>content.
       let bs = take MAX_SIDECAR_BYTES content in if valid_utf8 bs then Sidecar_decode tc (str_of_bytes bs) else None)"

definition write_sidecar :: "text_codecs \<Rightarrow> DownloadFaults \<Rightarrow> string \<Rightarrow> Sidecar \<Rightarrow> disk \<Rightarrow> disk" where
  "write_sidecar tc fl path sc disk = (if df_sidecar fl then disk else disk(path \<mapsto> as_bytes (Sidecar_encode tc sc)))"

definition job_sidecar :: "string \<Rightarrow> DownloadJob \<Rightarrow> Sidecar" where
  "job_sidecar server job =
     \<lparr>sc_server = server, sc_remote = dj_remote_path job, sc_destination = dj_local job, sc_transfer_id = dj_id job,
      sc_size = dj_size job, sc_chunk_size = dj_chunk_size job, sc_sha256 = dj_sha256 job, sc_bitmap = pack_bits (dj_have job)\<rparr>"

definition delete_file :: "DownloadFaults \<Rightarrow> string \<Rightarrow> disk \<Rightarrow> disk" where
  "delete_file fl path disk = (if df_unlink fl path then disk else disk(path := None))"

section \<open>Giving up\<close>

definition send_abort :: "bytes \<Rightarrow> Client \<Rightarrow> ClientAction list \<times> Client" where
  "send_abort i cl =
     (let kept = (if length (cl_abandoned cl) \<ge> MAX_ABANDONED then tl (cl_abandoned cl) else cl_abandoned cl)
      in ([SendEnd \<lparr>TransferEnd_transfer_id = i, TransferEnd_status = TRANSFER_ABORTED, TransferEnd_message = ''cancelled by client''\<rparr>],
          cl\<lparr>cl_abandoned := kept @ [i]\<rparr>))"

text \<open>The attempt ends here with its publish task; the program only detaches that task.\<close>

definition fail_transfer ::
  "text_codecs \<Rightarrow> DownloadFaults \<Rightarrow> ClientError \<Rightarrow> Cleanup \<Rightarrow> Client \<Rightarrow> ClientAction list \<times> Client" where
  "fail_transfer tc fl err cleanup cl =
     (case cl_transfer cl of
        None \<Rightarrow> ([], cl)
      | Some t \<Rightarrow>
          let job = ct_job t;
              cl = cl\<lparr>cl_transfer := None, cl_blocking := None\<rparr>;
              (aborted, cl) = (if dj_accepted job \<and> ct_stage t \<noteq> Verifying then send_abort (dj_id job) cl else ([], cl));
              disk = (if \<not> dj_accepted job then cl_disk cl
                      else case cleanup of
                        KeepPartial \<Rightarrow> write_sidecar tc fl (dj_sidecar job) (job_sidecar (cl_server_id cl) job) (cl_disk cl)
                      | DiscardPartial \<Rightarrow> delete_file fl (dj_sidecar job) (delete_file fl (dj_data job) (cl_disk cl)))
          in (aborted @ (if dj_accepted job then [Complete (dj_id job) TRANSFER_ABORTED (Some err)] else []) @ [Answer (Err err)],
              cl\<lparr>cl_disk := disk\<rparr>))"

definition cancel_transfer :: "text_codecs \<Rightarrow> DownloadFaults \<Rightarrow> Client \<Rightarrow> ClientAction list \<times> Client" where
  "cancel_transfer tc fl cl = fail_transfer tc fl (ClientTransfer ''cancelled'') KeepPartial cl"

section \<open>Starting\<close>

definition trim_end_slashes :: "string \<Rightarrow> string" where
  "trim_end_slashes s = rev (dropWhile (\<lambda>c. c = CHR ''/'') (rev s))"

definition split_remote :: "string \<Rightarrow> string \<times> string" where
  "split_remote path =
     (let trimmed = trim_end_slashes path in
      case rfind ''/'' trimmed of
        Some k \<Rightarrow> (if k = 0 then ''/'' else take k trimmed, drop (k + 1) trimmed)
      | None \<Rightarrow> (''/'', trimmed))"

definition download_request :: "string \<Rightarrow> u32 \<Rightarrow> bytes \<Rightarrow> bytes \<Rightarrow> TransferRequest" where
  "download_request remote_path chunk resume_id bitmap =
     (let (dir, name) = split_remote remote_path in
      \<lparr>TransferRequest_direction = DIRECTION_DOWNLOAD, TransferRequest_path = dir, TransferRequest_name = name,
       TransferRequest_size = 0, TransferRequest_chunk_size = chunk, TransferRequest_sha256 = replicate 32 0,
       TransferRequest_resume_id = resume_id, TransferRequest_have_bitmap = bitmap\<rparr>)"

definition resume_state ::
  "text_codecs \<Rightarrow> Client \<Rightarrow> string \<Rightarrow> string \<Rightarrow> u64 option \<Rightarrow> string \<times> string \<Rightarrow> Sidecar option" where
  "resume_state tc cl remote_path local expected_size paths =
     (case (if cl_disk cl (fst paths) \<noteq> None then read_sidecar tc (cl_disk cl) (snd paths) else None) of
        None \<Rightarrow> None
      | Some sc \<Rightarrow>
          if sc_server sc = cl_server_id cl \<and> sc_remote sc = remote_path \<and> sc_destination sc = local \<and>
             (case expected_size of None \<Rightarrow> True | Some n \<Rightarrow> n = sc_size sc)
          then Some sc else None)"

definition client_start_download ::
  "(bytes \<Rightarrow> bytes) \<Rightarrow> text_codecs \<Rightarrow> nat \<Rightarrow> send_outcome \<Rightarrow> string \<Rightarrow> string \<Rightarrow> u64 option \<Rightarrow> Client \<Rightarrow>
   ClientAction list \<times> Client" where
  "client_start_download H tc now outcome remote_path local expected_size cl =
     (if cl_transfer cl \<noteq> None then ([Answer (Err (ClientTransfer ''a transfer is already active''))], cl)
      else if snd (split_remote remote_path) = [] \<or> path_file_name local = None
      then ([Answer (Err (ClientInput ''invalid download path''))], cl)
      else if (case expected_size of Some n \<Rightarrow> n > MAX_TRANSFER_SIZE | None \<Rightarrow> False)
      then ([Answer (Err (ClientInput ''file is too large''))], cl)
      else case cl_transfers_dir cl of
        None \<Rightarrow> ([Answer (Err (ClientInput ''downloads need a data directory''))], cl)
      | Some dir \<Rightarrow>
          let paths = partial_paths H dir (cl_server_id cl) remote_path local;
              resume = resume_state tc cl remote_path local expected_size paths;
              chunk = (case resume of
                  Some sc \<Rightarrow> sc_chunk_size sc
                | None \<Rightarrow> (case expected_size of Some n \<Rightarrow> choose_chunk_size n | None \<Rightarrow> DEFAULT_CHUNK_SIZE));
              (resume_id, bitmap) = (case resume of Some sc \<Rightarrow> (sc_transfer_id sc, sc_bitmap sc) | None \<Rightarrow> (replicate 16 0, []));
              gen = cl_gen cl + 1;
              cl = cl\<lparr>cl_gen := gen\<rparr>
          in case outcome of
               SendRejected e \<Rightarrow> ([Answer (Err e)], cl)
             | SendFatal \<Rightarrow> ([Answer (Err (ClientDisconnected))], cl)
             | Sent \<Rightarrow>
                 ([SendRequest (download_request remote_path chunk resume_id bitmap)],
                  cl\<lparr>cl_transfer := Some \<lparr>ct_gen = gen, ct_stage = AwaitingAccept,
                    ct_job = \<lparr>dj_remote_path = remote_path, dj_local = local, dj_data = fst paths, dj_sidecar = snd paths,
                      dj_expected_size = expected_size, dj_requested_chunk = chunk, dj_resume = resume, dj_accepted = False,
                      dj_round = 0, dj_open = False, dj_id = replicate 16 0, dj_size = 0, dj_chunk_size = chunk, dj_total = 0,
                      dj_sha256 = replicate 32 0, dj_have = [], dj_unsaved_chunks = 0, dj_last_sidecar = now\<rparr>\<rparr>\<rparr>))"

section \<open>The server's answer\<close>

definition with_job :: "Stage \<Rightarrow> DownloadJob \<Rightarrow> Client \<Rightarrow> Client" where
  "with_job stage job cl = cl\<lparr>cl_transfer := map_option (\<lambda>t. t\<lparr>ct_stage := stage, ct_job := job\<rparr>) (cl_transfer cl)\<rparr>"

text \<open>What is left of the resume state once the server has said which file it sends.\<close>

definition trusted_bitmap :: "DownloadJob \<Rightarrow> TransferAccept \<Rightarrow> bool list" where
  "trusted_bitmap job a =
     resize_bits (unat (TransferAccept_total_chunks a))
       (case dj_resume job of
          Some sc \<Rightarrow>
            if sc_size sc = TransferAccept_size a \<and> sc_sha256 sc = TransferAccept_sha256 a \<and>
               sc_chunk_size sc = TransferAccept_chunk_size a \<and> length (sc_bitmap sc) = bitmap_bytes (TransferAccept_total_chunks a)
            then unpack_bits (sc_bitmap sc) else []
        | None \<Rightarrow> [])"

definition open_partial :: "bool \<Rightarrow> string \<Rightarrow> disk \<Rightarrow> disk" where
  "open_partial fresh path disk = (if fresh \<or> disk path = None then disk(path \<mapsto> []) else disk)"

definition first_accept ::
  "text_codecs \<Rightarrow> DownloadFaults \<Rightarrow> nat \<Rightarrow> DownloadJob \<Rightarrow> TransferAccept \<Rightarrow> Client \<Rightarrow> ClientAction list \<times> Client" where
  "first_accept tc fl now job a cl =
     (let have = trusted_bitmap job a;
          job = job\<lparr>dj_id := TransferAccept_transfer_id a, dj_size := TransferAccept_size a,
            dj_chunk_size := TransferAccept_chunk_size a, dj_total := TransferAccept_total_chunks a,
            dj_sha256 := TransferAccept_sha256 a, dj_resume := None\<rparr>
      in if df_mkdir fl \<or> df_open fl
         then fail_transfer tc fl ClientIo KeepPartial (with_job AwaitingAccept job cl)
         else
           let job = job\<lparr>dj_open := True, dj_have := have, dj_accepted := True, dj_unsaved_chunks := 0, dj_last_sidecar := now\<rparr>;
               disk = open_partial (\<not> list_ex (\<lambda>b. b) have) (dj_data job) (cl_disk cl)
           in ([Progress], (with_job Running job cl)\<lparr>cl_disk :=
                 write_sidecar tc fl (dj_sidecar job) (job_sidecar (cl_server_id cl) job) disk\<rparr>))"

definition on_download_accept ::
  "text_codecs \<Rightarrow> DownloadFaults \<Rightarrow> nat \<Rightarrow> TransferAccept \<Rightarrow> Client \<Rightarrow> ClientAction list \<times> Client" where
  "on_download_accept tc fl now a cl =
     (case cl_transfer cl of
        None \<Rightarrow> ([], cl)
      | Some t \<Rightarrow>
          let job = ct_job t;
              problem =
                (case validate_geometry False (dj_requested_chunk job) (TransferAccept_chunk_size a) (TransferAccept_total_chunks a)
                        (TransferAccept_size a) (length (TransferAccept_have_bitmap a)) of
                   Err e \<Rightarrow> Some e
                 | _ \<Rightarrow> if (case dj_expected_size job of Some n \<Rightarrow> n \<noteq> TransferAccept_size a | None \<Rightarrow> False)
                        then Some (''the file'' @ [CHR 0x27] @ ''s size changed on the server'') else None);
              same_file = (TransferAccept_size a = dj_size job \<and> TransferAccept_sha256 a = dj_sha256 job \<and>
                TransferAccept_chunk_size a = dj_chunk_size job);
              known = job\<lparr>dj_id := TransferAccept_transfer_id a\<rparr>
          in case problem of
               Some e \<Rightarrow>
                 (let (aborted, cl) = (if \<not> dj_accepted job then send_abort (TransferAccept_transfer_id a) (with_job Running known cl)
                        else ([], with_job Running known cl));
                      (acts, cl) = fail_transfer tc fl (ClientTransfer e) KeepPartial cl
                  in (aborted @ acts, cl))
             | None \<Rightarrow>
                 if dj_accepted job \<and> \<not> same_file
                 then fail_transfer tc fl (ClientTransfer ''the file changed on the server'') DiscardPartial (with_job Running known cl)
                 else if \<not> dj_accepted job then first_accept tc fl now job a cl
                 else ([Progress], with_job Running known cl))"

text \<open>\<open>gen\<close>: the request the answer is for. An answer nobody waits for any more is declined.\<close>

definition on_transfer_accept ::
  "text_codecs \<Rightarrow> DownloadFaults \<Rightarrow> nat \<Rightarrow> nat \<Rightarrow> TransferAccept \<Rightarrow> Client \<Rightarrow> ClientAction list \<times> Client" where
  "on_transfer_accept tc fl now gen a cl =
     (if (case cl_transfer cl of Some t \<Rightarrow> ct_gen t = gen \<and> ct_stage t = AwaitingAccept | None \<Rightarrow> False)
      then on_download_accept tc fl now a cl
      else send_abort (TransferAccept_transfer_id a) cl)"

section \<open>Chunks\<close>

definition save_due :: "nat \<Rightarrow> bool \<Rightarrow> DownloadJob \<Rightarrow> bool" where
  "save_due now idle job \<longleftrightarrow>
     (dj_unsaved_chunks job \<ge> SIDECAR_EVERY_CHUNKS \<or> now - dj_last_sidecar job \<ge> SIDECAR_EVERY) \<and> idle"

text \<open>\<open>idle\<close>: no earlier write of the sidecar is under way. A write of a chunk that fails leaves the disk as it
  was here; in the program it may leave part of the chunk, which the hash over the whole file covers.\<close>

definition on_transfer_data ::
  "(bytes \<Rightarrow> bytes) \<Rightarrow> text_codecs \<Rightarrow> DownloadFaults \<Rightarrow> nat \<Rightarrow> bool \<Rightarrow> TransferData \<Rightarrow> Client \<Rightarrow> ClientAction list \<times> Client" where
  "on_transfer_data H tc fl now idle d cl =
     (case cl_transfer cl of
        None \<Rightarrow> ([], cl)
      | Some t \<Rightarrow>
          let job = ct_job t; i = TransferData_chunk_index d in
          if ct_stage t \<noteq> Running \<or> TransferData_transfer_id d \<noteq> dj_id job then ([], cl)
          else if i \<ge> dj_total job \<or> length (TransferData_data d) \<noteq> chunk_len (dj_size job) (dj_chunk_size job) i (dj_total job)
          then fail_transfer tc fl (ClientTransfer (''server sent a malformed chunk '' @ show_nat (unat i))) KeepPartial cl
          else if H (TransferData_data d) \<noteq> TransferData_chunk_hash d
          then fail_transfer tc fl (ClientTransfer (''chunk '' @ show_nat (unat i) @ '' hash mismatch'')) KeepPartial cl
          else case (if \<not> dj_open job \<or> df_write fl then None else cl_disk cl (dj_data job)) of
            None \<Rightarrow> fail_transfer tc fl ClientIo KeepPartial cl
          | Some content \<Rightarrow>
              let disk = (cl_disk cl)(dj_data job \<mapsto> write_at (unat i * unat (dj_chunk_size job)) (TransferData_data d) content);
                  job = job\<lparr>dj_have := (dj_have job)[unat i := True], dj_unsaved_chunks := dj_unsaved_chunks job + 1\<rparr>
              in if save_due now idle job
                 then let job = job\<lparr>dj_unsaved_chunks := 0, dj_last_sidecar := now\<rparr>
                      in ([Progress], (with_job Running job cl)\<lparr>cl_disk :=
                            write_sidecar tc fl (dj_sidecar job) (job_sidecar (cl_server_id cl) job) disk\<rparr>)
                 else ([Progress], (with_job Running job cl)\<lparr>cl_disk := disk\<rparr>))"

section \<open>The end of the stream\<close>

definition download_ended ::
  "text_codecs \<Rightarrow> DownloadFaults \<Rightarrow> send_outcome \<Rightarrow> TransferEnd \<Rightarrow> Client \<Rightarrow> ClientAction list \<times> Client" where
  "download_ended tc fl outcome e cl =
     (case cl_transfer cl of
        None \<Rightarrow> ([], cl)
      | Some t \<Rightarrow>
          let job = ct_job t in
          if TransferEnd_status e \<noteq> TRANSFER_VERIFIED
          then fail_transfer tc fl (ClientTransfer (''server aborted the download: '' @ TransferEnd_message e)) KeepPartial
                 (with_job Verifying job cl)
          else if dj_open job \<and> df_flush fl then fail_transfer tc fl ClientIo KeepPartial (with_job Verifying job cl)
          else if \<not> list_all (\<lambda>b. b) (dj_have job) then
            if dj_round job + 1 < MAX_DOWNLOAD_ROUNDS then
              let job = job\<lparr>dj_round := dj_round job + 1, dj_requested_chunk := dj_chunk_size job\<rparr>;
                  cl = with_job AwaitingAccept job cl
              in case outcome of
                   Sent \<Rightarrow> ([SendRequest (download_request (dj_remote_path job) (dj_chunk_size job) (dj_id job) (pack_bits (dj_have job)))], cl)
                 | SendRejected err \<Rightarrow> fail_transfer tc fl err KeepPartial cl
                 | SendFatal \<Rightarrow> ([], cl)
            else fail_transfer tc fl (ClientTransfer ''the server did not send every chunk'') DiscardPartial (with_job Verifying job cl)
          else ([Progress], (with_job Verifying (job\<lparr>dj_open := False\<rparr>) cl)\<lparr>cl_blocking := Some (VerifyTask (dj_data job) (dj_size job))\<rparr>))"

definition on_transfer_end ::
  "text_codecs \<Rightarrow> DownloadFaults \<Rightarrow> send_outcome \<Rightarrow> TransferEnd \<Rightarrow> Client \<Rightarrow> ClientAction list \<times> Client" where
  "on_transfer_end tc fl outcome e cl =
     (if TransferEnd_transfer_id e \<in> set (cl_abandoned cl)
      then ([], cl\<lparr>cl_abandoned := remove1 (TransferEnd_transfer_id e) (cl_abandoned cl)\<rparr>)
      else case cl_transfer cl of
        None \<Rightarrow> ([], cl)
      | Some t \<Rightarrow>
          (case ct_stage t of
             AwaitingAccept \<Rightarrow> fail_transfer tc fl (ClientTransfer ''server ended the transfer before accepting it'') KeepPartial cl
           | Verifying \<Rightarrow> ([], cl)
           | Running \<Rightarrow> if TransferEnd_transfer_id e \<noteq> dj_id (ct_job t) then ([], cl) else download_ended tc fl outcome e cl))"

section \<open>Verifying and publishing\<close>

definition verify_failure :: "ClientError \<Rightarrow> ClientError \<times> Cleanup" where
  "verify_failure e = (case e of ClientIo \<Rightarrow> (e, KeepPartial) | _ \<Rightarrow> (e, DiscardPartial))"

definition finish_download ::
  "text_codecs \<Rightarrow> DownloadFaults \<Rightarrow> (bytes, ClientError) result \<Rightarrow> Client \<Rightarrow> ClientAction list \<times> Client" where
  "finish_download tc fl result cl =
     (case cl_transfer cl of
        None \<Rightarrow> ([], cl)
      | Some t \<Rightarrow>
          let job = ct_job t in
          case result of
            Ok actual \<Rightarrow>
              if actual = dj_sha256 job
              then ([], cl\<lparr>cl_blocking := Some (PublishTask (dj_data job) (dj_local job) (dj_size job) (dj_sha256 job))\<rparr>)
              else fail_transfer tc fl (ClientTransfer ''downloaded file hash mismatch'') DiscardPartial cl
          | Err e \<Rightarrow> (case verify_failure e of (e, cleanup) \<Rightarrow> fail_transfer tc fl e cleanup cl)
          | Panic \<Rightarrow> fail_transfer tc fl (ClientTransfer ''internal error'') DiscardPartial cl)"

definition download_published ::
  "text_codecs \<Rightarrow> DownloadFaults \<Rightarrow> (unit, ClientError) result \<Rightarrow> Client \<Rightarrow> ClientAction list \<times> Client" where
  "download_published tc fl result cl =
     (case cl_transfer cl of
        None \<Rightarrow> ([], cl)
      | Some t \<Rightarrow>
          let job = ct_job t in
          case result of
            Ok _ \<Rightarrow>
              ([Complete (dj_id job) TRANSFER_VERIFIED None, Answer (Ok ())],
               cl\<lparr>cl_transfer := None, cl_disk := delete_file fl (dj_sidecar job) (cl_disk cl)\<rparr>)
          | Err e \<Rightarrow> (case verify_failure e of (e, cleanup) \<Rightarrow> fail_transfer tc fl e cleanup cl)
          | Panic \<Rightarrow> fail_transfer tc fl (ClientTransfer ''internal error'') DiscardPartial cl)"

text \<open>The work on the blocking pool and \<open>on_blocking_done\<close>: the slot is emptied, the task's result handled.
  \<open>tmp\<close> is the name drawn for a temporary file.\<close>

definition blocking_done ::
  "(bytes \<Rightarrow> bytes) \<Rightarrow> text_codecs \<Rightarrow> DownloadFaults \<Rightarrow> bool \<Rightarrow> PublishFaults \<Rightarrow> string \<Rightarrow> Client \<Rightarrow> ClientAction list \<times> Client" where
  "blocking_done H tc fl fault pf tmp cl =
     (case cl_blocking cl of
        None \<Rightarrow> ([], cl)
      | Some (VerifyTask path n) \<Rightarrow>
          (case hash_download H fault path (unat n) (cl_disk cl) of
             (r, disk) \<Rightarrow> finish_download tc fl r (cl\<lparr>cl_blocking := None, cl_disk := disk\<rparr>))
      | Some (PublishTask data local n sha256) \<Rightarrow>
          (case publish_download H pf tmp data local (unat n) sha256 (cl_publish cl) (cl_disk cl) of
             (r, disk) \<Rightarrow> download_published tc fl r (cl\<lparr>cl_blocking := None, cl_disk := disk\<rparr>)))"

section \<open>What the server sends\<close>

text \<open>The packets the connection makes of a download's chunks (\<open>connection.rs\<close>).\<close>

definition accept_packet :: "bytes \<Rightarrow> AcceptInfo \<Rightarrow> TransferAccept" where
  "accept_packet i info =
     \<lparr>TransferAccept_transfer_id = i, TransferAccept_chunk_size = ai_chunk_size info,
      TransferAccept_total_chunks = ai_total_chunks info, TransferAccept_size = ai_size info,
      TransferAccept_sha256 = ai_sha256 info, TransferAccept_have_bitmap = ai_have_bitmap info\<rparr>"

definition data_packet :: "bytes \<Rightarrow> DownloadChunk \<Rightarrow> TransferData" where
  "data_packet i c =
     \<lparr>TransferData_transfer_id = i, TransferData_chunk_index = dc_index c, TransferData_chunk_hash = dc_hash c,
      TransferData_data = dc_data c\<rparr>"

definition end_packet :: "bytes \<Rightarrow> TransferEnd" where
  "end_packet i = \<lparr>TransferEnd_transfer_id = i, TransferEnd_status = TRANSFER_VERIFIED, TransferEnd_message = ''verified''\<rparr>"

end
