(* ===== verification/Client_Safety.thy ===== *)
theory Client_Safety
  imports Client_Download
begin

text \<open>
  The client reports a download as done only when the destination holds the file the server announced,
  whatever the server sends and whatever fails.
\<close>

section \<open>Runs\<close>

datatype ClientEvent =
    StartDownload nat send_outcome string string "u64 option"
  | GotAccept DownloadFaults nat nat TransferAccept
  | GotData DownloadFaults nat bool TransferData
  | GotEnd DownloadFaults send_outcome TransferEnd
  | CancelDownload DownloadFaults
  | BlockingFinished DownloadFaults bool PublishFaults string

fun client_handle :: "(bytes \<Rightarrow> bytes) \<Rightarrow> text_codecs \<Rightarrow> ClientEvent \<Rightarrow> Client \<Rightarrow> ClientAction list \<times> Client" where
  "client_handle H tc (StartDownload now outcome remote local n) cl = client_start_download H tc now outcome remote local n cl"
| "client_handle H tc (GotAccept fl now gen a) cl = on_transfer_accept tc fl now gen a cl"
| "client_handle H tc (GotData fl now idle d) cl = on_transfer_data H tc fl now idle d cl"
| "client_handle H tc (GotEnd fl outcome e) cl = on_transfer_end tc fl outcome e cl"
| "client_handle H tc (CancelDownload fl) cl = cancel_transfer tc fl cl"
| "client_handle H tc (BlockingFinished fl fault pf tmp) cl = blocking_done H tc fl fault pf tmp cl"

text \<open>A destination is not one of the client's own partial files; a temporary file is new.\<close>

fun sane :: "(bytes \<Rightarrow> bytes) \<Rightarrow> ClientEvent \<Rightarrow> Client \<Rightarrow> bool" where
  "sane H (StartDownload now outcome remote local n) cl \<longleftrightarrow>
     (case cl_transfers_dir cl of
        Some dir \<Rightarrow>
          local \<noteq> fst (partial_paths H dir (cl_server_id cl) remote local) \<and> local \<noteq> snd (partial_paths H dir (cl_server_id cl) remote local)
      | None \<Rightarrow> True)"
| "sane H (BlockingFinished fl fault pf tmp) cl \<longleftrightarrow>
     cl_disk cl tmp = None \<and> (case cl_transfer cl of Some t \<Rightarrow> tmp \<noteq> dj_local (ct_job t) | None \<Rightarrow> True)"
| "sane H _ cl \<longleftrightarrow> True"

fun announced :: "ClientEvent \<Rightarrow> TransferAccept set" where
  "announced (GotAccept fl now gen a) = {a}"
| "announced _ = {}"

inductive client_runs :: "(bytes \<Rightarrow> bytes) \<Rightarrow> text_codecs \<Rightarrow> TransferAccept set \<Rightarrow> Client \<Rightarrow> bool" for H tc where
  connected: "cl_transfer cl = None \<Longrightarrow> cl_blocking cl = None \<Longrightarrow> client_runs H tc {} cl"
| event: "client_runs H tc accs cl \<Longrightarrow> sane H ev cl \<Longrightarrow> client_handle H tc ev cl = (acts, cl') \<Longrightarrow> client_runs H tc (accs \<union> announced ev) cl'"

section \<open>The invariant\<close>

definition whole :: "(bytes \<Rightarrow> bytes) \<Rightarrow> u64 \<Rightarrow> bytes \<Rightarrow> bytes option \<Rightarrow> bool" where
  "whole H n sha256 content \<longleftrightarrow> (\<exists>bs. content = Some bs \<and> length bs = unat n \<and> H bs = sha256)"

definition job_inv :: "TransferAccept set \<Rightarrow> Stage \<Rightarrow> DownloadJob \<Rightarrow> bool" where
  "job_inv accs stage job \<longleftrightarrow>
     dj_local job \<noteq> dj_data job \<and> dj_local job \<noteq> dj_sidecar job \<and> (stage \<noteq> AwaitingAccept \<longrightarrow> dj_accepted job) \<and>
     (dj_accepted job \<longrightarrow> (\<exists>a\<in>accs. TransferAccept_size a = dj_size job \<and> TransferAccept_sha256 a = dj_sha256 job))"

definition client_inv :: "(bytes \<Rightarrow> bytes) \<Rightarrow> TransferAccept set \<Rightarrow> Client \<Rightarrow> bool" where
  "client_inv H accs cl \<longleftrightarrow>
     (case cl_transfer cl of
        None \<Rightarrow> cl_blocking cl = None
      | Some t \<Rightarrow>
          job_inv accs (ct_stage t) (ct_job t) \<and>
          (cl_blocking cl \<noteq> None \<longrightarrow> ct_stage t = Verifying) \<and>
          (case cl_blocking cl of
             None \<Rightarrow> True
           | Some (VerifyTask path n) \<Rightarrow> path = dj_data (ct_job t) \<and> n = dj_size (ct_job t)
           | Some (PublishTask data local n sha256) \<Rightarrow>
               data = dj_data (ct_job t) \<and> local = dj_local (ct_job t) \<and> n = dj_size (ct_job t) \<and> sha256 = dj_sha256 (ct_job t) \<and>
               whole H n sha256 (cl_disk cl data)))"

lemma send_abort_frame [simp]:
  "cl_transfer (snd (send_abort i cl)) = cl_transfer cl" "cl_blocking (snd (send_abort i cl)) = cl_blocking cl"
  "Answer r \<notin> set (fst (send_abort i cl))"
  by (simp_all add: send_abort_def Let_def)

lemma client_inv_None: "cl_transfer cl = None \<Longrightarrow> client_inv H accs cl \<longleftrightarrow> cl_blocking cl = None"
  by (simp add: client_inv_def)

lemma failed:
  assumes "fail_transfer tc fl e cleanup cl = (acts, cl')"
  shows "cl_transfer cl' = None" and "cl_transfer cl \<noteq> None \<or> cl_blocking cl = None \<Longrightarrow> cl_blocking cl' = None" and "Answer (Ok ()) \<notin> set acts"
  using assms by (auto simp: fail_transfer_def Let_def case_prod_unfold split: option.splits if_splits)

lemma failed_inv:
  "fail_transfer tc fl e cleanup cl = (acts, cl') \<Longrightarrow> cl_transfer cl \<noteq> None \<Longrightarrow> client_inv H accs cl' \<and> Answer (Ok ()) \<notin> set acts"
  using failed [of tc fl e cleanup cl acts cl'] by (simp add: client_inv_None)

lemma with_job_transfer [simp]:
  "cl_transfer cl = Some t \<Longrightarrow> cl_transfer (with_job stage job cl) = Some (t\<lparr>ct_stage := stage, ct_job := job\<rparr>)"
  "cl_blocking (with_job stage job cl) = cl_blocking cl" "cl_disk (with_job stage job cl) = cl_disk cl"
  by (simp_all add: with_job_def)

lemma with_job_inv:
  assumes "cl_transfer cl = Some t" and "cl_blocking cl = None" and "job_inv accs stage job"
  shows "client_inv H accs (with_job stage job cl)" and "client_inv H accs ((with_job stage job cl)\<lparr>cl_disk := disk\<rparr>)"
  using assms by (simp_all add: client_inv_def)

lemma client_inv_mono: "client_inv H accs cl \<Longrightarrow> accs \<subseteq> accs' \<Longrightarrow> client_inv H accs' cl"
  by (fastforce simp: client_inv_def job_inv_def split: option.splits Blocking.splits)

lemma client_inv_frame:
  "cl_transfer cl' = cl_transfer cl \<Longrightarrow> cl_blocking cl' = cl_blocking cl \<Longrightarrow> cl_disk cl' = cl_disk cl \<Longrightarrow>
    client_inv H accs cl' = client_inv H accs cl"
  by (simp only: client_inv_def)

lemma started_inv:
  assumes "client_inv H accs cl" and "sane H (StartDownload now outcome remote local n) cl"
    and "client_start_download H tc now outcome remote local n cl = (acts, cl')"
  shows "client_inv H accs cl' \<and> Answer (Ok ()) \<notin> set acts"
proof (cases "cl_transfer cl")
  case (Some t)
  then show ?thesis using assms by (auto simp: client_start_download_def)
next
  case None
  then have "cl_blocking cl = None" using assms(1) by (simp add: client_inv_def)
  with None assms(2,3) show ?thesis
    by (auto simp: client_start_download_def Let_def case_prod_unfold client_inv_def job_inv_def
        split: if_splits option.splits send_outcome.splits)
qed

lemma accepted_inv:
  assumes "client_inv H accs cl" and "on_transfer_accept tc fl now gen a cl = (acts, cl')"
  shows "client_inv H (insert a accs) cl' \<and> Answer (Ok ()) \<notin> set acts"
proof (cases "case cl_transfer cl of Some t \<Rightarrow> ct_gen t = gen \<and> ct_stage t = AwaitingAccept | None \<Rightarrow> False")
  case False
  then have s: "send_abort (TransferAccept_transfer_id a) cl = (acts, cl')" using assms(2) by (simp add: on_transfer_accept_def)
  then have "cl_transfer cl' = cl_transfer cl" "cl_blocking cl' = cl_blocking cl" "cl_disk cl' = cl_disk cl" "Answer (Ok ()) \<notin> set acts"
    by (auto simp: send_abort_def Let_def)
  then show ?thesis using client_inv_frame [of cl' cl] client_inv_mono [OF assms(1), of "insert a accs"] by blast
next
  case True
  then obtain t where t: "cl_transfer cl = Some t" "ct_stage t = AwaitingAccept" by (auto split: option.splits)
  define job where "job = ct_job t"
  have inv: "job_inv accs AwaitingAccept job" "cl_blocking cl = None"
    using assms(1) t by (auto simp: client_inv_def job_def)
  have d: "on_download_accept tc fl now a cl = (acts, cl')" using True assms(2) by (simp add: on_transfer_accept_def)
  let ?known = "job\<lparr>dj_id := TransferAccept_transfer_id a\<rparr>"
  have fail: "client_inv H (insert a accs) c \<and> Answer (Ok ()) \<notin> set as"
    if "fail_transfer tc fl e cleanup b = (as, c)" "cl_transfer b \<noteq> None" for e cleanup as b c
    using failed_inv [OF that] by blast
  obtain problem where p: "problem = (case validate_geometry False (dj_requested_chunk job) (TransferAccept_chunk_size a) (TransferAccept_total_chunks a)
                        (TransferAccept_size a) (length (TransferAccept_have_bitmap a)) of
                   Err e \<Rightarrow> Some e
                 | _ \<Rightarrow> if (case dj_expected_size job of Some n \<Rightarrow> n \<noteq> TransferAccept_size a | None \<Rightarrow> False)
                        then Some (''the file'' @ [CHR 0x27] @ ''s size changed on the server'') else None)" by blast
  note d' = d [unfolded on_download_accept_def, simplified t(1) option.case Let_def job_def [symmetric], folded p]
  show ?thesis
  proof (cases problem)
    case (Some e)
    show ?thesis
    proof (cases "dj_accepted job")
      case True
      then show ?thesis using d' Some fail [of _ _ "with_job Running ?known cl"] t(1) by (auto split: prod.splits)
    next
      case False
      then show ?thesis
        using d' Some t(1)
          fail [of _ _ "snd (send_abort (TransferAccept_transfer_id a) (with_job Running ?known cl))", OF prod.collapse [symmetric]]
        by (auto simp: case_prod_unfold)
    qed
  next
    case None
    show ?thesis
    proof (cases "dj_accepted job")
      case True
      show ?thesis
      proof (cases "TransferAccept_size a = dj_size job \<and> TransferAccept_sha256 a = dj_sha256 job \<and> TransferAccept_chunk_size a = dj_chunk_size job")
        case same: True
        have "job_inv (insert a accs) Running ?known" using inv(1) True by (auto simp: job_inv_def)
        from with_job_inv(1) [OF t(1) inv(2) this] show ?thesis using d' None True same by auto
      next
        case False
        then show ?thesis using d' None True fail [of _ _ "with_job Running ?known cl"] t(1) by auto
      qed
    next
      case False
      then have f: "first_accept tc fl now job a cl = (acts, cl')" using d' None by simp
      show ?thesis
      proof (cases "df_mkdir fl \<or> df_open fl")
        case True
        then show ?thesis using f fail t(1) by (auto simp: first_accept_def Let_def)
      next
        case opened: False
        show ?thesis using f opened inv t(1)
          by (auto simp: first_accept_def Let_def job_inv_def intro!: with_job_inv(2))
      qed
    qed
  qed
qed

lemma data_inv:
  assumes "client_inv H accs cl" and "on_transfer_data H tc fl now idle d cl = (acts, cl')"
  shows "client_inv H accs cl' \<and> Answer (Ok ()) \<notin> set acts"
proof (cases "cl_transfer cl")
  case (Some t)
  define job where "job = ct_job t"
  show ?thesis
  proof (cases "ct_stage t = Running")
    case False
    then show ?thesis using assms Some by (auto simp: on_transfer_data_def Let_def)
  next
    case True
    have inv: "job_inv accs Running job" "cl_blocking cl = None"
      using assms(1) Some True by (auto simp: client_inv_def job_def)
    have keep: "job_inv accs Running (job\<lparr>dj_have := h, dj_unsaved_chunks := u\<rparr>)"
      "job_inv accs Running (job\<lparr>dj_have := h, dj_unsaved_chunks := u, dj_last_sidecar := l\<rparr>)" for h u l
      using inv(1) by (simp_all add: job_inv_def)
    show ?thesis using assms Some True inv
      by (auto simp: on_transfer_data_def Let_def job_def [symmetric] intro!: with_job_inv(2) keep
          dest: failed_inv [where H = H and accs = accs] split: if_splits option.splits)
  qed
qed (use assms in \<open>simp add: on_transfer_data_def\<close>)

lemma ended_inv:
  assumes "client_inv H accs cl" and "on_transfer_end tc fl outcome e cl = (acts, cl')"
  shows "client_inv H accs cl' \<and> Answer (Ok ()) \<notin> set acts"
proof (cases "TransferEnd_transfer_id e \<in> set (cl_abandoned cl)")
  case True
  then show ?thesis using assms client_inv_frame [of cl' cl] by (auto simp: on_transfer_end_def)
next
  case False
  show ?thesis
  proof (cases "cl_transfer cl")
    case None
    then show ?thesis using assms False by (auto simp: on_transfer_end_def)
  next
    case (Some t)
    define job where "job = ct_job t"
    have fail: "client_inv H accs c \<and> Answer (Ok ()) \<notin> set as"
      if "fail_transfer tc fl e cleanup b = (as, c)" "cl_transfer b \<noteq> None" for e cleanup as b c
      using failed_inv [OF that] by blast
    show ?thesis
    proof (cases "ct_stage t = Running \<and> TransferEnd_transfer_id e = dj_id job")
      case False
      then show ?thesis using assms \<open>TransferEnd_transfer_id e \<notin> set (cl_abandoned cl)\<close> Some fail
        by (auto simp: on_transfer_end_def job_def split: Stage.splits)
    next
      case True
      have inv: "job_inv accs Running job" "cl_blocking cl = None"
        using assms(1) Some True by (auto simp: client_inv_def job_def)
      have keep: "job_inv accs AwaitingAccept (job\<lparr>dj_round := r, dj_requested_chunk := c\<rparr>)"
        "job_inv accs Verifying (job\<lparr>dj_open := False\<rparr>)" for r c
        using inv(1) by (simp_all add: job_inv_def)
      have e: "download_ended tc fl outcome e cl = (acts, cl')"
        using assms(2) False Some True by (simp add: on_transfer_end_def job_def)
      note e' = e [unfolded download_ended_def, simplified Some option.case Let_def job_def [symmetric]]
      show ?thesis
        using e' Some inv fail with_job_inv(1) [OF Some inv(2) keep(1)] keep(2)
        by (auto simp: client_inv_def [of H accs "_\<lparr>cl_blocking := _\<rparr>"] split: if_splits send_outcome.splits)
    qed
  qed
qed

lemma verified_inv:
  assumes "client_inv H accs cl" and "cl_transfer cl = Some t" and "cl_blocking cl = Some (VerifyTask path n)"
    and "blocking_done H tc fl fault pf tmp cl = (acts, cl')"
  shows "client_inv H accs cl' \<and> Answer (Ok ()) \<notin> set acts"
proof -
  define job where "job = ct_job t"
  have inv: "job_inv accs Verifying job" "ct_stage t = Verifying" "path = dj_data job" "n = dj_size job"
    using assms(1-3) by (auto simp: client_inv_def job_def)
  obtain r disk where h: "hash_download H fault path (unat n) (cl_disk cl) = (r, disk)" by fastforce
  let ?cl = "cl\<lparr>cl_blocking := None, cl_disk := disk\<rparr>"
  have f: "finish_download tc fl r ?cl = (acts, cl')" using assms(3,4) h by (simp add: blocking_done_def)
  have fail: "client_inv H accs c \<and> Answer (Ok ()) \<notin> set as" if "fail_transfer tc fl e cleanup ?cl = (as, c)" for e cleanup as c
    using failed_inv [OF that] assms(2) by simp
  show ?thesis
  proof (cases "r = Ok (dj_sha256 job)")
    case True
    have "whole H n (dj_sha256 job) (disk path)" using hashed [OF h [unfolded True]] by (auto simp: whole_def)
    then show ?thesis using f True assms(2) inv by (auto simp: finish_download_def Let_def job_def client_inv_def)
  next
    case False
    then show ?thesis using f assms(2) fail
      by (auto simp: finish_download_def Let_def job_def verify_failure_def split: result.splits ClientError.splits if_splits)
  qed
qed

lemma published_inv:
  assumes "client_inv H accs cl" and "cl_transfer cl = Some t" and "cl_blocking cl = Some (PublishTask data local n sha256)"
    and "sane H (BlockingFinished fl fault pf tmp) cl" and "blocking_done H tc fl fault pf tmp cl = (acts, cl')"
  shows "client_inv H accs cl' \<and> (Answer (Ok ()) \<in> set acts \<longrightarrow>
    (\<exists>a\<in>accs. whole H (TransferAccept_size a) (TransferAccept_sha256 a) (cl_disk cl' (dj_local (ct_job t)))))"
proof -
  define job where "job = ct_job t"
  have inv: "job_inv accs Verifying job" "ct_stage t = Verifying" "data = dj_data job" "local = dj_local job" "n = dj_size job"
      "sha256 = dj_sha256 job" "whole H n sha256 (cl_disk cl data)"
    using assms(1-3) by (auto simp: client_inv_def job_def)
  then obtain bs where bs: "cl_disk cl data = Some bs" "length bs = unat n" "H bs = sha256" by (auto simp: whole_def)
  have h: "hash_download H False data (unat n) (cl_disk cl) = (Ok sha256, cl_disk cl)"
    using bs by (auto simp: hash_download_def)
  have apart: "data \<noteq> local" "data \<noteq> tmp" "tmp \<noteq> local" "local \<noteq> dj_sidecar job"
    using inv assms(2,4) bs(1) by (auto simp: job_inv_def job_def)
  obtain r disk where p: "publish_download H pf tmp data local (unat n) sha256 (cl_publish cl) (cl_disk cl) = (r, disk)" by fastforce
  let ?cl = "cl\<lparr>cl_blocking := None, cl_disk := disk\<rparr>"
  have d: "download_published tc fl r ?cl = (acts, cl')" using assms(3,5) p by (simp add: blocking_done_def)
  show ?thesis
  proof (cases "r = Ok ()")
    case True
    have "whole H n sha256 (disk local)"
      using published_whole_or_kept [OF h p apart(1-3)] True by (auto simp: whole_def)
    moreover obtain a where "a \<in> accs" "TransferAccept_size a = n" "TransferAccept_sha256 a = sha256"
      using inv by (auto simp: job_inv_def)
    ultimately show ?thesis using d True assms(2) inv apart(4)
      by (auto simp: download_published_def Let_def client_inv_def delete_file_def job_def intro!: bexI [of _ a])
  next
    case False
    have fail: "client_inv H accs c \<and> Answer (Ok ()) \<notin> set as" if "fail_transfer tc fl e cleanup ?cl = (as, c)" for e cleanup as c
      using failed_inv [OF that] assms(2) by simp
    show ?thesis using d False assms(2) fail
      by (auto simp: download_published_def Let_def verify_failure_def split: result.splits ClientError.splits)
  qed
qed

lemma handled_inv:
  assumes "client_inv H accs cl" and "sane H ev cl" and "client_handle H tc ev cl = (acts, cl')"
  shows "client_inv H (accs \<union> announced ev) cl' \<and> (Answer (Ok ()) \<in> set acts \<longrightarrow>
    (\<exists>t. cl_transfer cl = Some t \<and>
      (\<exists>a\<in>accs. whole H (TransferAccept_size a) (TransferAccept_sha256 a) (cl_disk cl' (dj_local (ct_job t))))))"
proof (cases ev)
  case (StartDownload now outcome remote local n)
  then show ?thesis using started_inv [OF assms(1)] assms(2,3) by simp
next
  case (GotAccept fl now gen a)
  then show ?thesis using accepted_inv [OF assms(1)] assms(3) by simp
next
  case (GotData fl now idle d)
  then show ?thesis using data_inv [OF assms(1)] assms(3) by simp
next
  case (GotEnd fl outcome e)
  then show ?thesis using ended_inv [OF assms(1)] assms(3) by simp
next
  case (CancelDownload fl)
  then have f: "fail_transfer tc fl (ClientTransfer ''cancelled'') KeepPartial cl = (acts, cl')"
    using assms(3) by (simp add: cancel_transfer_def)
  show ?thesis
  proof (cases "cl_transfer cl")
    case None
    then show ?thesis using f assms(1) CancelDownload by (simp add: fail_transfer_def)
  qed (use failed_inv [OF f] CancelDownload in simp)
next
  case (BlockingFinished fl fault pf tmp)
  then have b: "blocking_done H tc fl fault pf tmp cl = (acts, cl')" using assms(3) by simp
  show ?thesis
  proof (cases "cl_blocking cl")
    case None
    then show ?thesis using b assms(1) BlockingFinished by (simp add: blocking_done_def)
  next
    case (Some task)
    then obtain t where t: "cl_transfer cl = Some t" using assms(1) by (auto simp: client_inv_def split: option.splits)
    show ?thesis
    proof (cases task)
      case (VerifyTask path n)
      then show ?thesis using verified_inv [OF assms(1) t Some [unfolded VerifyTask] b] BlockingFinished by simp
    next
      case (PublishTask data local n sha256)
      then show ?thesis
        using published_inv [OF assms(1) t Some [unfolded PublishTask] assms(2) [unfolded BlockingFinished] b] BlockingFinished t by simp
    qed
  qed
qed

lemma runs_inv: "client_runs H tc accs cl \<Longrightarrow> client_inv H accs cl"
proof (induction rule: client_runs.induct)
  case (connected cl)
  then show ?case by (simp add: client_inv_def)
next
  case (event accs cl ev acts cl')
  then show ?case using handled_inv by blast
qed

text \<open>Property C33. A download that is reported done is the announced file: in any run of the client, whatever
  packets the server sends in whatever order and whatever reads, writes, renames and copies fail, the
  caller is answered with success only when the destination holds a file of the size and with the hash
  of an answer the server gave.\<close>

theorem done_means_verified:
  assumes "client_runs H tc accs cl" and "sane H ev cl" and "client_handle H tc ev cl = (acts, cl')" and "Answer (Ok ()) \<in> set acts"
  shows "\<exists>t a content. cl_transfer cl = Some t \<and> a \<in> accs \<and> cl_disk cl' (dj_local (ct_job t)) = Some content \<and>
    length content = unat (TransferAccept_size a) \<and> H content = TransferAccept_sha256 a"
  using handled_inv [OF runs_inv [OF assms(1)] assms(2,3)] assms(4) by (auto simp: whole_def)

section \<open>An example\<close>

definition no_download_faults :: DownloadFaults where
  "no_download_faults = \<lparr>df_mkdir = False, df_open = False, df_write = False, df_flush = False, df_sidecar = False,
     df_unlink = \<lambda>_. False\<rparr>"

definition no_publish_faults :: PublishFaults where
  "no_publish_faults = \<lparr>pf_rename = False, pf_open_source = False, pf_temp = False, pf_copy = False, pf_torn = [],
     pf_temp_rename = False, pf_open_dest = False, pf_unlink = \<lambda>_. False\<rparr>"

fun client_handles :: "(bytes \<Rightarrow> bytes) \<Rightarrow> text_codecs \<Rightarrow> ClientEvent list \<Rightarrow> Client \<Rightarrow> ClientAction list \<times> Client" where
  "client_handles H tc [] cl = ([], cl)"
| "client_handles H tc (ev # evs) cl =
     (case client_handle H tc ev cl of (acts, cl) \<Rightarrow> case client_handles H tc evs cl of (rest, cl) \<Rightarrow> (acts @ rest, cl))"

lemma client_handles_append:
  "client_handles H tc (xs @ ys) c = (case client_handles H tc xs c of (as, c) \<Rightarrow>
      case client_handles H tc ys c of (bs, c) \<Rightarrow> (as @ bs, c))"
  by (induction xs arbitrary: c) (auto split: prod.splits)

fun all_sane :: "(bytes \<Rightarrow> bytes) \<Rightarrow> text_codecs \<Rightarrow> ClientEvent list \<Rightarrow> Client \<Rightarrow> bool" where
  "all_sane H tc [] cl \<longleftrightarrow> True"
| "all_sane H tc (ev # evs) cl \<longleftrightarrow> sane H ev cl \<and> all_sane H tc evs (snd (client_handle H tc ev cl))"

lemma runs_events:
  "client_runs H tc accs cl \<Longrightarrow> all_sane H tc evs cl \<Longrightarrow>
    client_runs H tc (accs \<union> \<Union> (announced ` set evs)) (snd (client_handles H tc evs cl))"
proof (induction evs arbitrary: accs cl)
  case (Cons ev evs)
  obtain acts cl1 where h: "client_handle H tc ev cl = (acts, cl1)" by fastforce
  have "client_runs H tc (accs \<union> announced ev) cl1" using Cons.prems by (intro client_runs.event [OF _ _ h]) simp_all
  from Cons.IH [OF this] Cons.prems(2) show ?case by (simp add: h case_prod_unfold Un_assoc)
qed simp

text \<open>An empty file is asked for, accepted and ended, by a client that cannot write its sidecar.\<close>

definition example_faults :: DownloadFaults where
  "example_faults = no_download_faults\<lparr>df_sidecar := True\<rparr>"

definition example_boot :: Client where
  "example_boot = \<lparr>cl_server_id = ''h:5500'', cl_transfers_dir = Some ''/t'', cl_publish = AutoPublish, cl_transfer = None,
     cl_blocking = None, cl_abandoned = [], cl_gen = 0, cl_disk = Map.empty\<rparr>"

definition example_accept :: TransferAccept where
  "example_accept = \<lparr>TransferAccept_transfer_id = [9], TransferAccept_chunk_size = 32768, TransferAccept_total_chunks = 0,
     TransferAccept_size = 0, TransferAccept_sha256 = replicate 32 7, TransferAccept_have_bitmap = []\<rparr>"

definition example_last :: ClientEvent where
  "example_last = BlockingFinished example_faults False no_publish_faults ''/t/tmp''"

definition example_events :: "ClientEvent list" where
  "example_events = [StartDownload 0 Sent ''/a'' ''/home/a'' None, GotAccept example_faults 0 1 example_accept,
     GotEnd example_faults Sent \<lparr>TransferEnd_transfer_id = [9], TransferEnd_status = 0, TransferEnd_message = ''verified''\<rparr>, example_last]"

definition example_verified :: Client where
  "example_verified = snd (client_handles (\<lambda>_. replicate 32 7) example_codecs example_events example_boot)"

lemma example_sane:
  "all_sane (\<lambda>_. replicate 32 7) example_codecs example_events example_boot"
  "sane (\<lambda>_. replicate 32 7) example_last example_verified"
  "list_ex (\<lambda>act. case act of Answer (Ok _) \<Rightarrow> True | _ \<Rightarrow> False) (fst (client_handle (\<lambda>_. replicate 32 7) example_codecs example_last example_verified))"
  "map_option (\<lambda>t. dj_local (ct_job t)) (cl_transfer example_verified) = Some ''/home/a''"
  by code_simp+

lemma done_means_verified_witness:
  "\<exists>content. cl_disk (snd (client_handle (\<lambda>_. replicate 32 7) example_codecs example_last example_verified)) ''/home/a'' = Some content \<and>
     length content = 0"
proof -
  let ?H = "\<lambda>_ :: bytes. replicate 32 7 :: bytes"
  have "client_runs ?H example_codecs {} example_boot" by (rule client_runs.connected) (simp_all add: example_boot_def)
  from runs_events [OF this example_sane(1)] have r: "client_runs ?H example_codecs {example_accept} example_verified"
    by (simp add: example_verified_def example_events_def example_last_def)
  have ok: "Answer (Ok ()) \<in> set (fst (client_handle ?H example_codecs example_last example_verified))"
  proof -
    obtain act where "act \<in> set (fst (client_handle ?H example_codecs example_last example_verified))"
        "case act of Answer (Ok _) \<Rightarrow> True | _ \<Rightarrow> False"
      using example_sane(3) unfolding list_ex_iff by blast
    moreover from this(2) have "act = Answer (Ok ())"
    proof (cases act)
      case (Answer r)
      then show ?thesis using \<open>case act of Answer (Ok _) \<Rightarrow> True | _ \<Rightarrow> False\<close> by (cases r) simp_all
    qed simp_all
    ultimately show ?thesis by simp
  qed
  show ?thesis
    using done_means_verified [OF r example_sane(2) prod.collapse [symmetric] ok] example_sane(4) by (auto simp: example_accept_def)
qed

end
