(* ===== verification/Download_Arrives.thy ===== *)
theory Download_Arrives
  imports Client_Safety Upload_Finish
begin

text \<open>
  The two sides of a download together: what an honest server streams, the client stores, verifies and
  publishes.
\<close>

section \<open>A partial file\<close>

definition holds :: "bytes \<Rightarrow> nat \<Rightarrow> bytes \<Rightarrow> bool" where
  "holds part k bs \<longleftrightarrow> k + length bs \<le> length part \<and> (\<forall>j<length bs. part ! (k + j) = bs ! j)"

lemma write_at_size: "length (write_at k bs part) = max (k + length bs) (length part)"
  by (simp add: write_at_def max_def min_def) arith

lemma write_at_at:
  "p < length (write_at k bs part) \<Longrightarrow>
    write_at k bs part ! p = (if k \<le> p \<and> p < k + length bs then bs ! (p - k) else if p < length part then part ! p else 0)"
  by (auto simp: write_at_def nth_append min_def)

lemma holds_written: "holds (write_at k bs part) k bs"
  by (auto simp: holds_def write_at_size write_at_at)

lemma holds_other:
  assumes "holds part k bs" and "k + length bs \<le> l \<or> l + length cs \<le> k"
  shows "holds (write_at l cs part) k bs"
  using assms by (auto simp: holds_def write_at_size write_at_at)

definition stored :: "bytes \<Rightarrow> nat \<Rightarrow> bool list \<Rightarrow> bytes \<Rightarrow> bool" where
  "stored content c have part \<longleftrightarrow> (\<forall>k<length have. have ! k \<longrightarrow> holds part (k * c) (chunk_of content c k))"

lemma stored_write:
  assumes "stored content c have part"
  shows "stored content c (have[i := True]) (write_at (i * c) (chunk_of content c i) part)"
  unfolding stored_def
proof (intro allI impI)
  fix k assume k: "k < length (have[i := True])" "have[i := True] ! k"
  show "holds (write_at (i * c) (chunk_of content c i) part) (k * c) (chunk_of content c k)"
  proof (cases "k = i")
    case False
    then have old: "holds part (k * c) (chunk_of content c k)" using assms k by (auto simp: stored_def)
    have len: "length (chunk_of content c j) \<le> c" for j by (simp add: chunk_of_length)
    have "k * c + c \<le> i * c \<or> i * c + c \<le> k * c"
      using False by (metis Suc_leI add.commute linorder_neqE_nat mult_Suc mult_le_mono1)
    then have "k * c + length (chunk_of content c k) \<le> i * c \<or> i * c + length (chunk_of content c i) \<le> k * c"
      using len [of k] len [of i] by linarith
    with old show ?thesis by (rule holds_other)
  qed (simp add: holds_written)
qed

lemma stored_all:
  assumes "stored content c have part" and "\<forall>b\<in>set have. b" and "0 < c" and "\<And>k. k * c < length content \<Longrightarrow> k < length have"
  shows "length content \<le> length part \<and> take (length content) part = content"
proof -
  have here: "k < length part \<and> part ! k = content ! k" if k: "k < length content" for k
  proof -
    have start: "k div c * c < length content" using k by (meson div_times_less_eq_dividend le_less_trans)
    then have "k div c < length have" using assms(4) by blast
    then have h: "holds part (k div c * c) (chunk_of content c (k div c))" using assms(1,2) unfolding stored_def by (metis nth_mem)
    have m: "k div c * c + k mod c = k" "k mod c < c" using assms(3) by simp_all
    then have l: "k mod c < length (chunk_of content c (k div c))" using k by (simp add: chunk_of_length less_diff_conv add.commute)
    then have "part ! (k div c * c + k mod c) = chunk_of content c (k div c) ! (k mod c)" using h unfolding holds_def by blast
    also have "\<dots> = content ! (k div c * c + k mod c)" using m k by (intro chunk_of_nth) simp_all
    finally have "part ! (k div c * c + k mod c) = content ! (k div c * c + k mod c)" .
    moreover have "k div c * c + k mod c < length part" using h l unfolding holds_def by linarith
    ultimately show ?thesis by (simp only: m(1))
  qed
  have "length content \<le> length part"
  proof (cases "content = []")
    case False
    then have "length content - 1 < length part" using here [of "length content - 1"] by simp
    then show ?thesis using False by (simp add: Suc_le_eq flip: length_greater_0_conv)
  qed simp
  then show ?thesis using here by (auto intro!: nth_equalityI)
qed

section \<open>Receiving the stream\<close>

definition receiving :: "ActiveDownload \<Rightarrow> bytes \<Rightarrow> DownloadJob \<Rightarrow> Client \<Rightarrow> bool" where
  "receiving dl i job cl \<longleftrightarrow>
     (\<exists>t part. cl_transfer cl = Some t \<and> ct_stage t = Running \<and> ct_job t = job \<and> cl_blocking cl = None \<and>
        dj_id job = i \<and> dj_open job \<and> dj_size job = ad_size dl \<and> dj_chunk_size job = ad_chunk_size dl \<and>
        dj_total job = ad_total_chunks dl \<and> dj_sha256 job = ad_sha256 dl \<and> dj_data job \<noteq> dj_sidecar job \<and>
        dj_data job \<noteq> dj_local job \<and> dj_local job \<noteq> dj_sidecar job \<and>
        length (dj_have job) = unat (ad_total_chunks dl) \<and> cl_publish cl = AutoPublish \<and> i \<notin> set (cl_abandoned cl) \<and>
        cl_disk cl (dj_data job) = Some part \<and> stored (ad_content dl) (unat (ad_chunk_size dl)) (dj_have job) part)"

lemma client_chunk_len:
  assumes "check_upload_shape n chunk = Ok k" and "i < k" and "length content = unat n"
  shows "chunk_len n chunk i k = length (chunk_of content (unat chunk) (unat i))"
proof -
  have "k \<noteq> 0" using assms(2) by auto
  then have "(Ok (chunk_len n chunk i k) :: (nat, TransferError) result) = expected_chunk_len n chunk k i"
  proof -
    have "\<not> k \<le> i" using assms(2) by simp
    then show ?thesis using \<open>k \<noteq> 0\<close> by (cases "i = k - 1") (simp_all add: chunk_len_def expected_chunk_len_def Let_def)
  qed
  moreover have "expected_chunk_len n chunk k i = (Ok (length (chunk_of content (unat chunk) (unat i))) :: (nat, TransferError) result)"
    by (rule expected_len [OF assms])
  ultimately show ?thesis by simp
qed

lemma receive_chunk:
  assumes shape: "check_upload_shape (ad_size dl) (ad_chunk_size dl) = Ok (ad_total_chunks dl)"
    and len: "length (ad_content dl) = unat (ad_size dl)" and k: "k < unat (ad_total_chunks dl)" and r: "receiving dl i job cl"
  shows "\<exists>job' cl'. client_handle H tc (GotData no_download_faults now idle
        (data_packet i (sent_chunk H (ad_content dl) (unat (ad_chunk_size dl)) k))) cl = ([Progress], cl') \<and>
      receiving dl i job' cl' \<and> dj_have job' = (dj_have job)[k := True] \<and> dj_local job' = dj_local job"
proof -
  obtain t part where t: "cl_transfer cl = Some t" "ct_stage t = Running" "ct_job t = job" "cl_disk cl (dj_data job) = Some part"
    and st: "stored (ad_content dl) (unat (ad_chunk_size dl)) (dj_have job) part"
    and j: "cl_blocking cl = None" "dj_id job = i" "dj_open job" "dj_size job = ad_size dl" "dj_chunk_size job = ad_chunk_size dl"
      "dj_total job = ad_total_chunks dl" "dj_sha256 job = ad_sha256 dl" "dj_data job \<noteq> dj_sidecar job"
      "dj_data job \<noteq> dj_local job" "dj_local job \<noteq> dj_sidecar job" "length (dj_have job) = unat (ad_total_chunks dl)"
      "cl_publish cl = AutoPublish" "i \<notin> set (cl_abandoned cl)"
    using r unfolding receiving_def by blast
  let ?c = "unat (ad_chunk_size dl)" and ?bs = "chunk_of (ad_content dl) (unat (ad_chunk_size dl)) k"
  have "k < 2 ^ 32" using k unsigned_less [of "ad_total_chunks dl", where ?'a = nat] by simp
  then have u: "unat (of_nat k :: u32) = k" by (intro unat_of_nat_small) simp
  then have lt: "of_nat k < ad_total_chunks dl" using k by (simp add: word_less_nat_alt)
  then have nle: "(ad_total_chunks dl \<le> of_nat k) = False" by simp
  have cl: "chunk_len (ad_size dl) (ad_chunk_size dl) (of_nat k) (ad_total_chunks dl) = length ?bs"
    using client_chunk_len [OF shape lt len] u by simp
  let ?job = "job\<lparr>dj_have := (dj_have job)[k := True], dj_unsaved_chunks := dj_unsaved_chunks job + 1\<rparr>"
  let ?disk = "(cl_disk cl)(dj_data job \<mapsto> write_at (k * ?c) ?bs part)"
  have st': "stored (ad_content dl) ?c ((dj_have job)[k := True]) (write_at (k * ?c) ?bs part)" by (rule stored_write [OF st])
  have e: "client_handle H tc (GotData no_download_faults now idle (data_packet i (sent_chunk H (ad_content dl) ?c k))) cl =
      (if save_due now idle ?job then
         (let job = ?job\<lparr>dj_unsaved_chunks := 0, dj_last_sidecar := now\<rparr>
          in ([Progress], (with_job Running job cl)\<lparr>cl_disk :=
                            write_sidecar tc no_download_faults (dj_sidecar job) (job_sidecar (cl_server_id cl) job) ?disk\<rparr>))
       else ([Progress], (with_job Running ?job cl)\<lparr>cl_disk := ?disk\<rparr>))"
    by (simp add: nle on_transfer_data_def t j data_packet_def sent_chunk_def cl u no_download_faults_def Let_def)
  have same: "cl_publish (with_job s q cl) = cl_publish cl" "cl_abandoned (with_job s q cl) = cl_abandoned cl" for s q
    by (simp_all add: with_job_def)
  show ?thesis
  proof (cases "save_due now idle ?job")
    case True
    let ?j = "?job\<lparr>dj_unsaved_chunks := 0, dj_last_sidecar := now\<rparr>"
    show ?thesis unfolding e if_P [OF True]
      by (intro exI [of _ ?j]) (use t j st' in \<open>simp add: receiving_def same write_sidecar_def Let_def\<close>)
  next
    case False
    show ?thesis unfolding e if_not_P [OF False]
      by (intro exI [of _ ?job]) (use t j st' in \<open>simp add: receiving_def same\<close>)
  qed
qed

lemma receive_stream:
  assumes shape: "check_upload_shape (ad_size dl) (ad_chunk_size dl) = Ok (ad_total_chunks dl)"
    and len: "length (ad_content dl) = unat (ad_size dl)"
    and r: "receiving dl i job cl" and ks: "\<forall>k\<in>set ks. k < unat (ad_total_chunks dl)"
  shows "\<exists>job' cl' acts. client_handles H tc (map (\<lambda>k. GotData no_download_faults now idle
        (data_packet i (sent_chunk H (ad_content dl) (unat (ad_chunk_size dl)) k))) ks) cl = (acts, cl') \<and>
      receiving dl i job' cl' \<and> dj_local job' = dj_local job \<and>
      (\<forall>k<length (dj_have job'). dj_have job' ! k \<longleftrightarrow> dj_have job ! k \<or> k \<in> set ks)"
  using r ks
proof (induction ks arbitrary: job cl)
  case (Cons k ks)
  obtain job1 cl1 where s: "client_handle H tc (GotData no_download_faults now idle
        (data_packet i (sent_chunk H (ad_content dl) (unat (ad_chunk_size dl)) k))) cl = ([Progress], cl1)"
      "receiving dl i job1 cl1" "dj_have job1 = (dj_have job)[k := True]" "dj_local job1 = dj_local job"
    using receive_chunk [OF shape len _ Cons.prems(1)] Cons.prems(2) by fastforce
  obtain job2 cl2 acts where i: "client_handles H tc (map (\<lambda>k. GotData no_download_faults now idle
        (data_packet i (sent_chunk H (ad_content dl) (unat (ad_chunk_size dl)) k))) ks) cl1 = (acts, cl2)"
      "receiving dl i job2 cl2" "dj_local job2 = dj_local job1"
      "\<forall>k<length (dj_have job2). dj_have job2 ! k \<longleftrightarrow> dj_have job1 ! k \<or> k \<in> set ks"
    using Cons.IH [OF s(2)] Cons.prems(2) by auto
  have "length (dj_have job2) = unat (ad_total_chunks dl)" "length (dj_have job) = unat (ad_total_chunks dl)"
    using i(2) Cons.prems(1) by (auto simp: receiving_def)
  then have "\<forall>j<length (dj_have job2). dj_have job2 ! j \<longleftrightarrow> dj_have job ! j \<or> j \<in> set (k # ks)"
    using i(4) s(3) Cons.prems(2) by (auto simp: nth_list_update split: if_splits)
  then show ?case using s i by auto
qed (auto simp: receiving_def)

section \<open>From the answer to the published file\<close>

lemma begun:
  assumes "begin_download fl st s account sid path chunk bitmap tm = (Ok (dl, info), tm')" and "ad_size dl \<le> MAX_FILE_SIZE"
  shows "check_upload_shape (ad_size dl) (ad_chunk_size dl) = Ok (ad_total_chunks dl)" and "chunk \<le> ad_chunk_size dl"
    and "ad_cursor dl = 0" and "ad_have dl = resize_bits (unat (ad_total_chunks dl)) (unpack_bits bitmap)"
    and "ai_chunk_size info = ad_chunk_size dl" and "ai_total_chunks info = ad_total_chunks dl" and "ai_size info = ad_size dl"
    and "ai_sha256 info = ad_sha256 dl" and "length (ai_have_bitmap info) \<le> bitmap_bytes (ad_total_chunks dl)"
proof -
  obtain node :: Node and chosen storage_path sha256 where c: "MIN_CHUNK \<le> chunk" "chunk \<le> MAX_CHUNK"
      "download_chunk_size (nd_size node) chunk (bitmap \<noteq> []) = Ok chosen"
      "start_download fl account sid (nd_size node) sha256 storage_path chosen bitmap tm = (Ok (dl, info), tm')"
    using assms(1) by (auto simp: begin_download_def split: if_splits result.splits option.splits)
  then have d: "ad_size dl = nd_size node" "ad_chunk_size dl = chosen" "ad_total_chunks dl = ucast (chunk_count (nd_size node) chosen)"
      "ad_cursor dl = 0" "ad_have dl = resize_bits (unat (ad_total_chunks dl)) (unpack_bits bitmap)"
      "ai_chunk_size info = ad_chunk_size dl" "ai_total_chunks info = ad_total_chunks dl" "ai_size info = ad_size dl"
      "ai_sha256 info = ad_sha256 dl"
      "ai_have_bitmap info = (if bitmap \<noteq> [] then echoed_bitmap (unat (ad_total_chunks dl)) bitmap else [])"
    by (auto simp: start_download_def Let_def split: result.splits prod.splits option.splits)
  have n: "nd_size node \<le> MAX_FILE_SIZE" using assms(2) d(1) by simp
  show "check_upload_shape (ad_size dl) (ad_chunk_size dl) = Ok (ad_total_chunks dl)" "chunk \<le> ad_chunk_size dl"
    using download_shape [OF c(3,1,2) n] d by simp_all
  show "length (ai_have_bitmap info) \<le> bitmap_bytes (ad_total_chunks dl)" using d(10) echoed_fits by (auto simp: bitmap_bytes_def)
  show "ad_cursor dl = 0" "ad_have dl = resize_bits (unat (ad_total_chunks dl)) (unpack_bits bitmap)"
    "ai_chunk_size info = ad_chunk_size dl" "ai_total_chunks info = ad_total_chunks dl" "ai_size info = ad_size dl"
    "ai_sha256 info = ad_sha256 dl" by (rule d)+
qed

text \<open>A download that waits for its answer: fresh, or with a partial file whose sidecar is for this file.\<close>

definition awaiting ::
  "ActiveDownload \<Rightarrow> u32 \<Rightarrow> bytes \<Rightarrow> DownloadJob \<Rightarrow> Client \<Rightarrow> bool" where
  "awaiting dl chunk bitmap job cl \<longleftrightarrow>
     (\<exists>t. cl_transfer cl = Some t \<and> ct_stage t = AwaitingAccept \<and> ct_job t = job \<and> cl_blocking cl = None \<and>
        \<not> dj_accepted job \<and> dj_requested_chunk job = chunk \<and> (\<forall>n. dj_expected_size job = Some n \<longrightarrow> n = ad_size dl) \<and>
        dj_data job \<noteq> dj_sidecar job \<and> dj_data job \<noteq> dj_local job \<and> dj_local job \<noteq> dj_sidecar job \<and> cl_publish cl = AutoPublish \<and>
        (dj_resume job = None \<and> bitmap = [] \<or>
         (\<exists>sc part. dj_resume job = Some sc \<and> bitmap = sc_bitmap sc \<and> sc_size sc = ad_size dl \<and> sc_sha256 sc = ad_sha256 dl \<and>
            sc_chunk_size sc = ad_chunk_size dl \<and> length (sc_bitmap sc) = bitmap_bytes (ad_total_chunks dl) \<and>
            cl_disk cl (dj_data job) = Some part \<and>
            stored (ad_content dl) (unat (ad_chunk_size dl)) (resize_bits (unat (ad_total_chunks dl)) (unpack_bits bitmap)) part)))"

lemma accept_received:
  assumes b: "begin_download fl st s account sid path chunk bitmap tm = (Ok (dl, info), tm')" and n: "ad_size dl \<le> MAX_FILE_SIZE"
    and a: "awaiting dl chunk bitmap job cl" and i: "i \<notin> set (cl_abandoned cl)"
  shows "\<exists>t job' cl'. cl_transfer cl = Some t \<and>
    client_handle H tc (GotAccept no_download_faults now (ct_gen t) (accept_packet i info)) cl = ([Progress], cl') \<and>
    receiving dl i job' cl' \<and> dj_have job' = ad_have dl \<and> dj_local job' = dj_local job"
proof -
  note b' = begun [OF b n]
  obtain t where t: "cl_transfer cl = Some t" "ct_stage t = AwaitingAccept" "ct_job t = job" "cl_blocking cl = None"
      "\<not> dj_accepted job" "dj_requested_chunk job = chunk" "\<forall>n. dj_expected_size job = Some n \<longrightarrow> n = ad_size dl"
      "dj_data job \<noteq> dj_sidecar job" "dj_data job \<noteq> dj_local job" "dj_local job \<noteq> dj_sidecar job" "cl_publish cl = AutoPublish"
    and r: "dj_resume job = None \<and> bitmap = [] \<or>
         (\<exists>sc part. dj_resume job = Some sc \<and> bitmap = sc_bitmap sc \<and> sc_size sc = ad_size dl \<and> sc_sha256 sc = ad_sha256 dl \<and>
            sc_chunk_size sc = ad_chunk_size dl \<and> length (sc_bitmap sc) = bitmap_bytes (ad_total_chunks dl) \<and>
            cl_disk cl (dj_data job) = Some part \<and>
            stored (ad_content dl) (unat (ad_chunk_size dl)) (resize_bits (unat (ad_total_chunks dl)) (unpack_bits bitmap)) part)"
    using a unfolding awaiting_def by blast
  let ?a = "accept_packet i info"
  have fields: "TransferAccept_transfer_id ?a = i" "TransferAccept_chunk_size ?a = ad_chunk_size dl" "TransferAccept_total_chunks ?a = ad_total_chunks dl"
      "TransferAccept_size ?a = ad_size dl" "TransferAccept_sha256 ?a = ad_sha256 dl" "TransferAccept_have_bitmap ?a = ai_have_bitmap info"
    using b' by (simp_all add: accept_packet_def)
  have g: "validate_geometry False chunk (ad_chunk_size dl) (ad_total_chunks dl) (ad_size dl) (length (ai_have_bitmap info)) = Ok ()"
    using b' by (intro shape_valid) simp_all
  have trusted: "trusted_bitmap job ?a = ad_have dl"
    using r by (auto simp: trusted_bitmap_def fields b'(4) unpack_bits_def)
  have size: "(case dj_expected_size job of Some n \<Rightarrow> n \<noteq> TransferAccept_size ?a | None \<Rightarrow> False) = False"
    using t(7) fields(4) by (auto split: option.splits)
  have step: "client_handle H tc (GotAccept no_download_faults now (ct_gen t) ?a) cl = first_accept tc no_download_faults now job ?a cl"
    by (simp add: on_transfer_accept_def t on_download_accept_def fields g size)
  let ?job = "job\<lparr>dj_id := i, dj_size := ad_size dl, dj_chunk_size := ad_chunk_size dl, dj_total := ad_total_chunks dl,
     dj_sha256 := ad_sha256 dl, dj_resume := None, dj_open := True, dj_have := ad_have dl, dj_accepted := True, dj_unsaved_chunks := 0,
     dj_last_sidecar := now\<rparr>"
  have part: "\<exists>part. open_partial (\<not> list_ex (\<lambda>b. b) (ad_have dl)) (dj_data job) (cl_disk cl) (dj_data job) = Some part \<and>
      stored (ad_content dl) (unat (ad_chunk_size dl)) (ad_have dl) part"
  proof (cases "list_ex (\<lambda>b. b) (ad_have dl)")
    case False
    then have "stored (ad_content dl) (unat (ad_chunk_size dl)) (ad_have dl) []"
      unfolding stored_def list_ex_iff by (metis nth_mem)
    then show ?thesis using False by (simp add: open_partial_def)
  next
    case True
    have "bitmap \<noteq> []"
    proof
      assume "bitmap = []"
      then have "ad_have dl = replicate (unat (ad_total_chunks dl)) False" unfolding b'(4) by (simp add: unpack_bits_def resize_bits_def)
      with True show False by (simp add: list_ex_iff)
    qed
    then obtain part where "cl_disk cl (dj_data job) = Some part" "stored (ad_content dl) (unat (ad_chunk_size dl)) (ad_have dl) part"
      using r unfolding b'(4) by blast
    then show ?thesis using True by (simp add: open_partial_def)
  qed
  have e: "first_accept tc no_download_faults now job ?a cl =
      ([Progress], (with_job Running ?job cl)\<lparr>cl_disk := write_sidecar tc no_download_faults (dj_sidecar ?job) (job_sidecar (cl_server_id cl) ?job)
         (open_partial (\<not> list_ex (\<lambda>b. b) (ad_have dl)) (dj_data job) (cl_disk cl))\<rparr>)"
    by (simp add: first_accept_def trusted fields no_download_faults_def Let_def)
  have same: "cl_publish (with_job s q cl) = cl_publish cl" "cl_abandoned (with_job s q cl) = cl_abandoned cl" for s q
    by (simp_all add: with_job_def)
  show ?thesis
    by (intro exI [of _ t] exI [of _ ?job] exI conjI, rule t(1), unfold step e, rule refl)
      (use t i part b'(4) in \<open>auto simp: receiving_def same write_sidecar_def\<close>)
qed

lemma finish_received:
  assumes shape: "check_upload_shape (ad_size dl) (ad_chunk_size dl) = Ok (ad_total_chunks dl)"
    and len: "length (ad_content dl) = unat (ad_size dl)" and sha: "H (ad_content dl) = ad_sha256 dl"
    and r: "receiving dl i job cl" and full: "\<forall>b\<in>set (dj_have job). b"
  shows "\<exists>cl'. client_handles H tc [GotEnd no_download_faults Sent (end_packet i),
        BlockingFinished no_download_faults False no_publish_faults tmp, BlockingFinished no_download_faults False no_publish_faults tmp] cl =
      ([Progress, Complete i TRANSFER_VERIFIED None, Answer (Ok ())], cl') \<and> cl_disk cl' (dj_local job) = Some (ad_content dl)"
proof -
  obtain t part where t: "cl_transfer cl = Some t" "ct_stage t = Running" "ct_job t = job" "cl_disk cl (dj_data job) = Some part"
    and st: "stored (ad_content dl) (unat (ad_chunk_size dl)) (dj_have job) part"
    and j: "cl_blocking cl = None" "dj_id job = i" "dj_open job" "dj_size job = ad_size dl" "dj_sha256 job = ad_sha256 dl"
      "dj_data job \<noteq> dj_local job" "dj_local job \<noteq> dj_sidecar job" "length (dj_have job) = unat (ad_total_chunks dl)"
      "cl_publish cl = AutoPublish" "i \<notin> set (cl_abandoned cl)"
    using r unfolding receiving_def by blast
  note s = check_upload_shape_Ok [OF shape]
  have c: "0 < unat (ad_chunk_size dl)" using s by (auto simp: MIN_CHUNK_def word_le_nat_alt)
  have "k < length (dj_have job)" if "k * unat (ad_chunk_size dl) < length (ad_content dl)" for k
    using that s chunk_start_iff [OF c, of k "unat (ad_size dl)"] by (simp add: j len)
  note whole = stored_all [OF st full c this]
  let ?job = "job\<lparr>dj_open := False\<rparr>"
  let ?cl1 = "(with_job Verifying ?job cl)\<lparr>cl_blocking := Some (VerifyTask (dj_data job) (dj_size job))\<rparr>"
  have all: "list_all (\<lambda>b. b) (dj_have job)" using full by (simp add: list_all_iff)
  have e1: "client_handle H tc (GotEnd no_download_faults Sent (end_packet i)) cl = ([Progress], ?cl1)"
    using all by (simp add: on_transfer_end_def end_packet_def t j download_ended_def no_download_faults_def)
  have t1: "cl_transfer ?cl1 = Some (t\<lparr>ct_stage := Verifying, ct_job := ?job\<rparr>)" using t by simp
  have h: "hash_download H False (dj_data job) (unat (ad_size dl)) (cl_disk cl) =
      (Ok (ad_sha256 dl), (cl_disk cl)(dj_data job \<mapsto> ad_content dl))"
    using whole t(4) sha len by (simp add: hash_download_def)
  let ?cl2 = "?cl1\<lparr>cl_blocking := Some (PublishTask (dj_data job) (dj_local job) (ad_size dl) (ad_sha256 dl)),
      cl_disk := (cl_disk cl)(dj_data job \<mapsto> ad_content dl)\<rparr>"
  have e2: "client_handle H tc (BlockingFinished no_download_faults False no_publish_faults tmp) ?cl1 = ([], ?cl2)"
    using h t1 by (simp add: blocking_done_def j finish_download_def)
  have p: "publish_download H no_publish_faults tmp (dj_data job) (dj_local job) (unat (ad_size dl)) (ad_sha256 dl) AutoPublish
      ((cl_disk cl)(dj_data job \<mapsto> ad_content dl)) =
      (Ok (), ((cl_disk cl)(dj_data job \<mapsto> ad_content dl))(dj_data job := None, dj_local job \<mapsto> ad_content dl))"
    by (simp add: publish_download_def no_publish_faults_def)
  have pub: "cl_publish ?cl2 = AutoPublish" using j(9) by (simp add: with_job_def)
  have t2: "cl_transfer ?cl2 = Some (t\<lparr>ct_stage := Verifying, ct_job := ?job\<rparr>)" using t by simp
  obtain cl3 where e3: "client_handle H tc (BlockingFinished no_download_faults False no_publish_faults tmp) ?cl2 =
      ([Complete i TRANSFER_VERIFIED None, Answer (Ok ())], cl3)" "cl_disk cl3 (dj_local job) = Some (ad_content dl)"
    using p pub t2 j by (simp add: blocking_done_def download_published_def delete_file_def no_download_faults_def)
  show ?thesis using e3(2) by (simp only: client_handles.simps e1 e2 e3(1) prod.case append.simps) simp
qed

text \<open>Property C32. A download arrives: when the server accepts a download of a stored file whose bytes have
  the announced size and hash, and the client waits for that answer - afresh or with a partial file and
  the sidecar of an earlier attempt - the chunks the server streams are exactly the missing ones, and
  the client that receives the answer, the chunks and the end answers its caller with success, with
  the file at the destination.\<close>

theorem download_arrives:
  assumes "begin_download fl st s account sid path chunk bitmap tm = (Ok (dl, info), tm')"
    and "ad_size dl \<le> MAX_FILE_SIZE" and "length (ad_content dl) = unat (ad_size dl)" and "H (ad_content dl) = ad_sha256 dl"
    and "awaiting dl chunk bitmap job cl" and "i \<notin> set (cl_abandoned cl)"
  shows "\<exists>t chunks acts cl'. cl_transfer cl = Some t \<and>
    download_stream H (Suc (unat (ad_total_chunks dl))) dl = Ok chunks \<and>
    map (\<lambda>c. unat (dc_index c)) chunks = filter (\<lambda>k. \<not> ad_have dl ! k) [0..<unat (ad_total_chunks dl)] \<and>
    client_handles H tc
      (GotAccept no_download_faults now (ct_gen t) (accept_packet i info) #
       map (\<lambda>c. GotData no_download_faults now idle (data_packet i c)) chunks @
       [GotEnd no_download_faults Sent (end_packet i),
        BlockingFinished no_download_faults False no_publish_faults tmp, BlockingFinished no_download_faults False no_publish_faults tmp]) cl =
      (acts, cl') \<and>
    Answer (Ok ()) \<in> set acts \<and> cl_disk cl' (dj_local job) = Some (ad_content dl)"
proof -
  note b = begun [OF assms(1,2)]
  let ?c = "unat (ad_chunk_size dl)" and ?ks = "filter (\<lambda>k. \<not> ad_have dl ! k) [0..<unat (ad_total_chunks dl)]"
  have stream: "download_stream H (Suc (unat (ad_total_chunks dl))) dl = Ok (map (sent_chunk H (ad_content dl) ?c) ?ks)"
    using stream_sends [OF b(1) assms(3), of "Suc (unat (ad_total_chunks dl))" H] b(3) by simp
  obtain t job1 cl1 where a: "cl_transfer cl = Some t"
      "client_handle H tc (GotAccept no_download_faults now (ct_gen t) (accept_packet i info)) cl = ([Progress], cl1)"
      "receiving dl i job1 cl1" "dj_have job1 = ad_have dl" "dj_local job1 = dj_local job"
    using accept_received [OF assms(1,2,5,6)] by blast
  obtain job2 cl2 acts where r: "client_handles H tc (map (\<lambda>k. GotData no_download_faults now idle
        (data_packet i (sent_chunk H (ad_content dl) ?c k))) ?ks) cl1 = (acts, cl2)"
      "receiving dl i job2 cl2" "dj_local job2 = dj_local job1"
      "\<forall>k<length (dj_have job2). dj_have job2 ! k \<longleftrightarrow> dj_have job1 ! k \<or> k \<in> set ?ks"
    using receive_stream [OF b(1) assms(3) a(3), of ?ks H tc now idle] by auto
  have "length (dj_have job2) = unat (ad_total_chunks dl)" using r(2) by (auto simp: receiving_def)
  then have "\<forall>x\<in>set (dj_have job2). x" using r(4) a(4) by (auto simp: in_set_conv_nth)
  then obtain cl3 where f: "client_handles H tc [GotEnd no_download_faults Sent (end_packet i),
        BlockingFinished no_download_faults False no_publish_faults tmp, BlockingFinished no_download_faults False no_publish_faults tmp] cl2 =
      ([Progress, Complete i TRANSFER_VERIFIED None, Answer (Ok ())], cl3)" "cl_disk cl3 (dj_local job2) = Some (ad_content dl)"
    using finish_received [OF b(1) assms(3) _ r(2), where H = H and tc = tc and tmp = tmp] assms(4) by blast
  have index: "map (\<lambda>c. unat (dc_index c)) (map (sent_chunk H (ad_content dl) ?c) ?ks) = ?ks"
  proof -
    have "unat (dc_index (sent_chunk H (ad_content dl) ?c k)) = k" if "k < unat (ad_total_chunks dl)" for k
    proof -
      have "k < 2 ^ 32" using that unsigned_less [of "ad_total_chunks dl", where ?'a = nat] by simp
      then show ?thesis unfolding sent_chunk_def by (simp add: unat_of_nat_small)
    qed
    then show ?thesis by (auto simp: comp_def intro!: map_idI)
  qed
  have packets: "map (\<lambda>c. GotData no_download_faults now idle (data_packet i c)) (map (sent_chunk H (ad_content dl) ?c) ?ks) =
      map (\<lambda>k. GotData no_download_faults now idle (data_packet i (sent_chunk H (ad_content dl) ?c k))) ?ks" by simp
  have run: "client_handles H tc
      (GotAccept no_download_faults now (ct_gen t) (accept_packet i info) #
       map (\<lambda>c. GotData no_download_faults now idle (data_packet i c)) (map (sent_chunk H (ad_content dl) ?c) ?ks) @
       [GotEnd no_download_faults Sent (end_packet i),
        BlockingFinished no_download_faults False no_publish_faults tmp, BlockingFinished no_download_faults False no_publish_faults tmp]) cl =
      ([Progress] @ acts @ [Progress, Complete i TRANSFER_VERIFIED None, Answer (Ok ())], cl3)"
    unfolding packets by (subst client_handles.simps(2)) (simp only: a(2) prod.case client_handles_append r(1) f(1))
  have "Answer (Ok ()) \<in> set ([Progress] @ acts @ [Progress, Complete i TRANSFER_VERIFIED None, Answer (Ok ())])" by simp
  moreover have "cl_disk cl3 (dj_local job) = Some (ad_content dl)" using f(2) r(3) a(5) by simp
  ultimately show ?thesis using a(1) stream index run by blast
qed

section \<open>An example\<close>

text \<open>Three bytes in the root folder of a new server, and a client that has asked for them; the hash is a
  constant.\<close>

definition example_sha256 :: bytes where
  "example_sha256 = replicate 32 7"

definition example_hash :: "bytes \<Rightarrow> bytes" where
  "example_hash bs = example_sha256"

definition example_tree :: TreeState where
  "example_tree = ft_state (snd (add_file False ''n1'' ROOT_ID ''a.bin'' 3 example_sha256 ''/f/b'' example_new))"

definition example_stored :: TransferManager where
  "example_stored = example_tm\<lparr>tm_disk := [''/f/b'' \<mapsto> [1, 2, 3]]\<rparr>"

definition example_serving :: ActiveDownload where
  "example_serving = \<lparr>ad_id = ''s1'', ad_content = [1, 2, 3], ad_size = 3, ad_chunk_size = 32768, ad_total_chunks = 1,
     ad_sha256 = example_sha256, ad_have = [False], ad_cursor = 0, ad_claim = DownloadClaim ''acc''\<rparr>"

definition example_answer :: "(ActiveDownload \<times> AcceptInfo, TransferError) result \<times> TransferManager" where
  "example_answer = begin_download no_faults example_tree example_admin ''acc'' ''s1'' ''/a.bin'' 32768 [] example_stored"

definition example_info :: AcceptInfo where
  "example_info = \<lparr>ai_transfer_id = ''s1'', ai_chunk_size = 32768, ai_total_chunks = 1, ai_size = 3, ai_sha256 = example_sha256,
     ai_have_bitmap = []\<rparr>"

lemma example_answered: "fst example_answer = Ok (example_serving, example_info)"
  by code_simp

definition example_job :: DownloadJob where
  "example_job = \<lparr>dj_remote_path = ''/a.bin'', dj_local = ''/home/a.bin'', dj_data = ''/t/x.kdxdata'', dj_sidecar = ''/t/x.kdxpart'',
     dj_expected_size = Some 3, dj_requested_chunk = 32768, dj_resume = None, dj_accepted = False, dj_round = 0, dj_open = False,
     dj_id = replicate 16 0, dj_size = 0, dj_chunk_size = 32768, dj_total = 0, dj_sha256 = replicate 32 0, dj_have = [],
     dj_unsaved_chunks = 0, dj_last_sidecar = 0\<rparr>"

definition example_client :: Client where
  "example_client = \<lparr>cl_server_id = ''h:5500'', cl_transfers_dir = Some ''/t'', cl_publish = AutoPublish,
     cl_transfer = Some \<lparr>ct_gen = 1, ct_stage = AwaitingAccept, ct_job = example_job\<rparr>, cl_blocking = None, cl_abandoned = [],
     cl_gen = 1, cl_disk = Map.empty\<rparr>"

lemma example_awaiting: "awaiting example_serving 32768 [] example_job example_client"
  by (simp add: awaiting_def example_client_def example_job_def example_serving_def)

lemma download_arrives_witness:
  "\<exists>chunks acts cl'. download_stream example_hash 2 example_serving = Ok chunks \<and>
     client_handles example_hash example_codecs
      (GotAccept no_download_faults 0 1 (accept_packet [9] example_info) #
       map (\<lambda>c. GotData no_download_faults 0 True (data_packet [9] c)) chunks @
       [GotEnd no_download_faults Sent (end_packet [9]),
        BlockingFinished no_download_faults False no_publish_faults ''/t/tmp'',
        BlockingFinished no_download_faults False no_publish_faults ''/t/tmp'']) example_client = (acts, cl') \<and>
     Answer (Ok ()) \<in> set acts \<and> cl_disk cl' ''/home/a.bin'' = Some [1, 2, 3]"
proof -
  have b: "begin_download no_faults example_tree example_admin ''acc'' ''s1'' ''/a.bin'' 32768 [] example_stored =
      (Ok (example_serving, example_info), snd example_answer)"
    using example_answered unfolding example_answer_def by (simp add: prod_eq_iff)
  have f: "ad_size example_serving \<le> MAX_FILE_SIZE" "length (ad_content example_serving) = unat (ad_size example_serving)"
    "example_hash (ad_content example_serving) = ad_sha256 example_serving" "[9] \<notin> set (cl_abandoned example_client)"
    "ad_content example_serving = [1, 2, 3]" "Suc (unat (ad_total_chunks example_serving)) = 2" "dj_local example_job = ''/home/a.bin''"
    by (simp_all add: example_serving_def MAX_FILE_SIZE_def example_hash_def example_client_def example_job_def)
  have g: "cl_transfer example_client = Some t \<Longrightarrow> ct_gen t = 1" for t by (auto simp: example_client_def)
  show ?thesis
    using download_arrives [OF b f(1,2) _ example_awaiting f(4), of example_hash example_codecs 0 True "''/t/tmp''"] f(3) g unfolding f(5-7) by metis
qed

end
