(* ===== verification/Spec2Isabelle.thy ===== *)
theory Spec2Isabelle
  imports Payloads Transport Policy_Safety Presence History_Tasks News_Safety Bans Limiter Room_Manager Shamir Auth
    File_Names File_Delete File_Search File_Restart File_Requests Upload_Finish Sweep_Safety Download_Arrives
begin

text \<open>
  KDX is a chat, file and news server with a desktop client. Both ends speak a binary protocol over
  one TLS connection: frames with a checksummed header, messages cut into fragments, and per packet
  type a payload layout. Behind the protocol the server keeps tasks that own their state (a presence
  roster, one actor per chat room, an audit-log writer) and tables in SQLite (accounts, roles, bans,
  news, history); one task per connection dispatches requests, checks them against the account's
  privileges and talks to the others through channels. This library models these parts and proves
  what makes each of them correct.

  \<^bold>\<open>The protocol\<close> (\<open>crates/kdx-protocol\<close>, with the two ends' send and receive paths).
  \<^item> \<open>Prelude\<close>: machine-integer types, results with the panics of the source as a third outcome,
    readers over byte lists, the collections of rewrite rules, and the locales \<open>field_codec\<close> (a field
    written inside a larger payload is read back and its encoding is the only one) and
    \<open>message_codec\<close> (a payload decoder accepts exactly the encodings of well-formed messages).
  \<^item> \<open>Utf8\<close>, \<open>Wire\<close>: UTF-8 validity and \<open>messages/wire.rs\<close>; strings and lists clamped to their length
    prefix never spill over the bytes that follow.
  \<^item> \<open>Packet_Type\<close>, \<open>Header\<close>, \<open>Codec\<close>, \<open>Fragment\<close>: opcodes and caps, the header, the framing codec and
    fragmentation. The checksum function is the parameter \<open>crc\<close>: nothing is assumed of it.
  \<^item> \<open>Msg_Handshake\<close> to \<open>Msg_Tracker\<close>: one encoder and decoder per payload, each an interpretation of
    \<open>message_codec\<close>; \<open>Payloads\<close> collects them into statements per family of messages.
  \<^item> \<open>Transport\<close>: the server's inbound assembly and its refusal of oversized requests
    (\<open>connection.rs\<close>), the outbound path of both ends; this theory composes them end to end.

  \<^bold>\<open>Accounts and authority\<close> (\<open>kdx-server-core/src/auth\<close>, \<open>files/acl.rs\<close>, \<open>kdx-storage\<close>).
  \<^item> \<open>Classes\<close>: classes, privilege bits, drop boxes and upload folders.
  \<^item> \<open>Policy\<close>, \<open>Policy_Safety\<close>: the account and role tables and every request that changes them, as
    functions of the tables and the acting session; no sequence of accepted requests removes the last
    administrator, and a privilege gained is one the actor holds.
  \<^item> \<open>Bans\<close>: the ban table and kick, ban, unban and ban list from request to reply and audit entry.
  \<^item> \<open>Limiter\<close>: the login throttle. Instants are nanoseconds since the server started.
  \<^item> \<open>Scram\<close>: the login proof of \<open>kdx-crypto/src/scram.rs\<close>, both ends, and the stored form of a
    credential. SHA-256, HMAC and Argon2 are a record of functions of which only the lengths of the
    results are assumed; what a proof is bound to is stated with the inputs that would have to collide.
  \<^item> \<open>Ip_Rules\<close>: the address rules, their compiled cache and their enforcement on connected sessions;
    the crate \<open>ipnet\<close> is a record of functions. \<open>Auth\<close>: the login phase of a connection, the session
    table, the checks of a session that has just joined and the change of one's own password.

  \<^bold>\<open>Secret sharing\<close> (\<open>kdx-crypto/src/shamir.rs\<close>).
  \<^item> \<open>Gf256\<close>: the branch-free byte arithmetic, shown to be a field. \<open>Shamir\<close>: splitting, combining and
    the Merkle check of a share; any threshold of shares gives the secret back, fewer are consistent
    with every secret, and a share passes the check only if it is the one dealt.

  \<^bold>\<open>Tasks\<close> (\<open>presence.rs\<close>, \<open>history.rs\<close>, \<open>chat\<close>).
  \<^item> \<open>Channel\<close>: bounded queues and kill signals, shared by the tasks as a store from channel to state.
  \<^item> \<open>Presence\<close>: the roster actor with its broadcast loop.
  \<^item> \<open>History\<close>: the audit log, its writer and the retention of its table, each operation run to its end at
    once; the other parts use it this way. \<open>History_Tasks\<close>: the same cut at every await and every access to a
    shared counter, with the writer and any number of callers interleaved by the step relation
    \<open>history_steps\<close>. The table stays within the configured rows, the interval of the retention, one batch and
    one row for each caller; and the operations of \<open>History\<close> are what these steps add up to when nothing
    comes in between (\<open>turn_alone\<close>, \<open>record_alone\<close>).
  \<^item> \<open>Room\<close>: one chat room. \<open>Room_Manager\<close>: the directory of rooms, with the operations cut into their
    atomic accesses and the connection tasks interleaved by the step relation \<open>rooms_run\<close>; joins end,
    and nobody is left in a room the directory does not know.

  \<^bold>\<open>News\<close> (\<open>news.rs\<close> of \<open>kdx-server-core\<close> and \<open>kdx-storage\<close>, their packets in \<open>connection.rs\<close>).
  \<^item> \<open>News_Table\<close>: the statements over newsgroups and posts, with the cascades of their keys. \<open>News\<close>: the
    manager and every request from payload to reply and audit entry; what other connections do between two
    statements of a request is an argument.
  \<^item> \<open>News_Forest\<close>, \<open>News_Safety\<close>: replies form a forest within their newsgroup, so the recursive query of a
    deletion ends; nobody posts under another's name or removes another's words; a newsgroup above a
    session's class stays closed to it. The rate limit on posting is an argument (its clock is floating point).

  \<^bold>\<open>Files\<close> (\<open>kdx-server-core/src/files\<close>).
  \<^item> \<open>Parsing\<close>: prefixes, suffixes, substrings, trimming and splitting of byte strings, as the library's.
    \<open>File_Names\<close>: \<open>names.rs\<close>, the rules for names, the characters that mislead and the search for a free
    name, which ends with one.
  \<^item> \<open>File_Table\<close>: the SQL of the table of nodes. \<open>File_Tree\<close>: \<open>tree.rs\<close>, the tree in memory, path walks,
    permission checks and every operation, written through to the table.
  \<^item> \<open>File_Links\<close>, \<open>File_Invariant\<close>, \<open>File_Ops\<close>: the tree is one tree (every chain of parents ends in the
    only root), its child lists and the table agree with it, and every operation keeps this.
    \<open>File_Safety\<close>: the reachable trees, and what a session that may not look learns. \<open>File_Delete\<close>: when a
    removal is allowed and exactly what it removes. \<open>File_Search\<close>: what a search may return.
    \<open>File_Restart\<close>: loading the table again gives the tree that was there.
  \<^item> \<open>File_Requests\<close>: the handlers of \<open>connection.rs\<close> for the file packets, from the payload to the reply
    and the audit entry.

  \<^bold>\<open>Transfers, the server's side\<close> (\<open>kdx-server-core/src/transfer\<close>, \<open>kdx-storage/src/transfer_state.rs\<close>). The
  disk is a map from paths to contents, and which of its operations and of the SQL statements fail is an
  argument of every step.
  \<^item> \<open>Transfer_Table\<close>: limits, the cutting into chunks, the table of unfinished uploads. \<open>Transfer_Claims\<close>:
    the places live transfers hold and the caps on them; the accounting is exact.
  \<^item> \<open>Upload\<close>: begin, resume, chunks, release, abort and finish. \<open>Upload_Data\<close>, \<open>Upload_Finish\<close>: the chunks
    written make up the data, through failures, resumes and crashes, and a finish files it.
  \<^item> \<open>Transfer_Sweep\<close>: the repair at start, the sweeper and the quarantine of stray blobs. \<open>Transfer_Recovery\<close>:
    a finish cut off anywhere is completed or undone. \<open>Sweep_Safety\<close>: what is in use is spared.
  \<^item> \<open>Download\<close>: the server's side of a download (\<open>download.rs\<close>).

  \<^bold>\<open>Transfers, the client's side\<close> (\<open>kdx-client-core/src/transfer.rs\<close>, \<open>actor.rs\<close>).
  \<^item> \<open>Client_Transfer\<close>: the geometry checks, the bitmap for the progress bar, publishing a verified file and
    the sweep of old partial files; both ends agree on the geometry. \<open>Client_Sidecar\<close>: the text kept beside
    a partial file.
  \<^item> \<open>Client_Download\<close>: the actor's download, from the command to the answer, as an event handler.
    \<open>Client_Safety\<close>: success is answered only for the announced file. \<open>Download_Arrives\<close>: server and client
    together, a download ends with the file at its destination.

  \<^bold>\<open>Conventions.\<close> Strings are byte strings of type \<^typ>\<open>string\<close>; what the source requires of a \<open>String\<close> is
  stated with the UTF-8 predicates where it matters. A \<open>HashMap\<close> is an association list with distinct
  keys: its iteration order is the list's, and nothing proved depends on it. The clock, random values
  and identities of channels are arguments. Wire integers keep their width; counters that the source
  saturates or wraps do so in the model. Loops are structural or come with a termination proof, so
  no operation needs fuel; retries are bounded by the source's own constants.

  \<^bold>\<open>Not modelled.\<close> TLS, sockets, timers and the accept loop (\<open>kdxd\<close>) are input and output. The
  SQL engine is represented by the tables the statements act on; whether a statement of the file table,
  of the table of transfers or of the news fails is an argument of the operation, and so is whether a batch or
  an insert of the audit log does in \<open>History_Tasks\<close>; elsewhere a failing statement is not modelled. Argon2, SHA-256
  and HMAC are third-party code, and so are the identifiers \<open>uuid\<close> makes (arguments) and the Unicode
  tables behind \<open>to_lowercase\<close> (a parameter). Removing a file answers the paths to unlink. Of transfers, the
  throttle, whose clock is floating point, the server's scheduling of chunks between other packets and
  the client's uploads are not modelled. The select loop of a connection, its handlers for the
  packet types not named above, server settings and the tracker registry are not modelled, nor is the
  client's session logic beyond its send path and its downloads; the desktop front end is user interface.
\<close>

section \<open>Messages across a connection\<close>

text \<open>Property C1. End to end, client to server: a client that sends any sequence of requests,
  each within the cap of its type, succeeds; and however the network cuts the bytes, the
  server's framing and reassembly hand its dispatch loop exactly those requests, in order,
  with nothing left in any buffer. Fragmentation, 32-bit sequence wrap-around and the header
  checksum (any function \<open>crc\<close>) are invisible to both sides.\<close>

theorem requests_delivered_in_order:
  assumes "list_all (\<lambda>(t, p). length p \<le> max_request_payload t) msgs" and "inbound_idle s"
  shows "\<exists>out sq'. client_send_all crc sq msgs = Ok (out, sq') \<and>
    (\<forall>chunks. concat chunks = out \<longrightarrow>
      (\<exists>frames evs s'. feed crc KdxCodec_default [] chunks = (frames, Ok (), KdxCodec_default, []) \<and>
         reassemble_all s frames = (Ok evs, s') \<and> inbound_idle s' \<and> map delivered evs = map Some msgs))"
proof -
  from assms obtain frames sq' evs s' where
      "client_send_all crc sq msgs = Ok (concat (map (frame_bytes crc) frames), sq')"
      "\<forall>f\<in>set frames. frame_ok DEFAULT_MAX_FRAME_PAYLOAD f"
      "reassemble_all s frames = (Ok evs, s')" "inbound_idle s'" "map delivered evs = map Some msgs"
    using client_send_all_delivered [of msgs s crc sq] by (auto simp: list_all_iff)
  then show ?thesis by (auto simp: KdxCodec_default_def feed_frames)
qed

theorem requests_delivered_in_order_witness:
  "\<exists>out sq'. client_send_all (\<lambda>_. 0) 0xFFFFFFFF [(Ping, []), (ChatMessage, replicate 40000 1)] = Ok (out, sq')"
  using requests_delivered_in_order [of "[(Ping, []), (ChatMessage, replicate 40000 1)]" idle_start "\<lambda>_. 0" "0xFFFFFFFF"]
  by (auto simp: max_request_payload_def MAX_CONTROL_PAYLOAD_def inbound_idle_def idle_start_def
      is_reassembling_def Reassembler_default_def)

text \<open>End to end, server to client: the server writes a message exactly when it is at
  most \<open>MAX_REASSEMBLED_PAYLOAD\<close> long, and the client, whose reassembler is idle, then receives
  that message and no other.\<close>

lemma replies_delivered:
  assumes "plain_flags flags" and "r_in_progress r = None"
  shows "if length payload \<le> MAX_REASSEMBLED_PAYLOAD
    then \<exists>out sq'. write_message crc sq t flags payload = Ok (out, sq') \<and>
      (\<forall>chunks. concat chunks = out \<longrightarrow>
        (\<exists>frames r'. feed crc KdxCodec_default [] chunks = (frames, Ok (), KdxCodec_default, []) \<and>
           push_all (\<lambda>_. MAX_REASSEMBLED_PAYLOAD) r frames =
             (Ok [mk_frame t flags (sq' - 1) payload], r') \<and> r_in_progress r' = None))
    else write_message crc sq t flags payload = Err (MessageTooLarge (length payload))"
proof (cases "length payload \<le> MAX_REASSEMBLED_PAYLOAD")
  case True
  obtain frames sq' where f: "fragment t flags payload DEFAULT_MAX_FRAME_PAYLOAD counter sq = Ok (frames, sq')"
      and enc: "encode_all crc KdxCodec_default frames [] = Ok (concat (map (frame_bytes crc) frames))"
      and ok: "\<forall>f\<in>set frames. frame_ok DEFAULT_MAX_FRAME_PAYLOAD f"
    by (rule send_frames)
  have "write_message crc sq t flags payload = Ok (concat (map (frame_bytes crc) frames), sq')"
    using True f enc by (simp add: write_message_def)
  with True ok fragment_reassemble [OF f assms(1), of "\<lambda>_. MAX_REASSEMBLED_PAYLOAD" r] assms(2)
  show ?thesis by (auto simp: KdxCodec_default_def feed_frames)
qed (simp add: write_message_def)

end
